(* ===== verification/Prelude.thy ===== *)
theory Prelude
  imports Main "HOL-Library.Word" "HOL-Library.Monad_Syntax"
begin

text \<open>
  Shared vocabulary of the development: the widths of the machine integers of the C code,
  the way a failed \<open>assert\<close> is represented, the first-match search that most loops of the
  code are, and the generic facts on words and lists that the component theories share.
\<close>

unbundle bit_operations_syntax

subsection \<open>Machine integers\<close>

type_synonym u8 = "8 word"
type_synonym u16 = "16 word"
type_synonym u32 = "32 word"
type_synonym u64 = "64 word"

named_theorems word_facts \<open>facts that move a word operation to natural numbers\<close>

lemma unat_u8_less: "unat (x :: u8) < 256"
  using unsigned_less [of x, where ?'a = nat] by simp

lemma unat_u16_less: "unat (x :: u16) < 65536"
  using unsigned_less [of x, where ?'a = nat] by simp

lemma unat_u32_less: "unat (x :: u32) < 4294967296"
  using unsigned_less [of x, where ?'a = nat] by simp

lemma unat_u64_less: "unat (x :: u64) < 18446744073709551616"
  using unsigned_less [of x, where ?'a = nat] by simp

lemma unat_add_nowrap [word_facts]:
  "unat a + unat b < 2 ^ LENGTH('a) \<Longrightarrow> unat (a + b :: 'a::len word) = unat a + unat b"
  by (simp add: unat_word_ariths)

lemma unat_Suc_nowrap [word_facts]:
  "Suc (unat a) < 2 ^ LENGTH('a) \<Longrightarrow> unat (a + 1 :: 'a::len word) = Suc (unat a)"
  by (simp add: unat_word_ariths)

lemma unat_sub_le [word_facts]:
  "b \<le> a \<Longrightarrow> unat (a - b :: 'a::len word) = unat a - unat b"
  by (rule unat_sub)

lemma word_mod_nonzero [word_facts]:
  "unat (a mod b :: 'a::len word) = unat a mod unat b"
  by (rule unat_mod_distrib)

lemma unat_ucast_up [word_facts]:
  "LENGTH('a) \<le> LENGTH('b) \<Longrightarrow> unat (ucast (w :: 'a::len word) :: 'b::len word) = unat w"
  by (simp add: unsigned_ucast_eq take_bit_nat_eq_self_iff)
    (metis order_less_le_trans unsigned_less power_increasing one_le_numeral)

lemma unat_drop_bit [word_facts]: "unat (drop_bit n w :: 'a::len word) = unat w div 2 ^ n"
proof -
  have "unat (drop_bit n w) = drop_bit n (unat w)"
    by (simp add: unsigned_drop_bit_eq take_bit_nat_eq_self)
  then show ?thesis by (simp only: drop_bit_eq_div)
qed

lemma unat_and_mask [word_facts]: "unat ((w :: 'a::len word) AND mask n) = unat w mod 2 ^ n"
proof -
  have "unat (w AND mask n) = take_bit n (unat w)"
    by (simp only: unsigned_take_bit_eq flip: take_bit_eq_mask)
  then show ?thesis by (simp only: take_bit_eq_mod)
qed

lemma unat_not [word_facts]: "unat (NOT w :: 'a::len word) = 2 ^ LENGTH('a) - 1 - unat w"
proof -
  have "NOT w = - 1 - w" by (simp add: not_eq_complement)
  also have "unat (- 1 - w) = unat (- 1 :: 'a word) - unat w"
    by (rule unat_sub) simp
  also have "unat (- 1 :: 'a word) = 2 ^ LENGTH('a) - 1"
    by (simp only: unsigned_minus_1_eq_mask mask_eq_exp_minus_1)
  finally show ?thesis .
qed

text \<open>A counter below a bound steps without wrapping around.\<close>

lemma word_step:
  assumes "(i :: 'a::len word) < n"
  shows "unat (i + 1) = Suc (unat i)" "unat (n - 1) = unat n - 1" "unat i < unat n"
proof -
  show lt: "unat i < unat n" using assms by (simp add: word_less_nat_alt)
  have "unat n < 2 ^ LENGTH('a)" by (rule unsigned_less)
  with lt show "unat (i + 1) = Suc (unat i)" by (intro unat_Suc_nowrap) linarith
  have "1 \<le> n" using lt unfolding word_le_nat_alt unat_1 by linarith
  then show "unat (n - 1) = unat n - 1" by (simp only: unat_sub unat_1)
qed

subsection \<open>Assertions\<close>

text \<open>
  A failed \<open>assert\<close> stops the component: an operation that contains assertions returns
  an option, and \<open>None\<close> is the component stopping there.
\<close>

definition c_assert :: "bool \<Rightarrow> unit option" where
  "c_assert b = (if b then Some () else None)"

lemma c_assert_simps [simp]:
  "c_assert True = Some ()"
  "c_assert False = None"
  "(c_assert b = Some u) = b"
  "(c_assert b = None) = (\<not> b)"
  by (simp_all add: c_assert_def)

lemma c_assert_bind [simp]:
  "Option.bind (c_assert b) f = (if b then f () else None)"
  by (simp add: c_assert_def)

subsection \<open>First-match search\<close>

text \<open>
  The loop \<open>for (i = 0; i < n; i++) if (P(a[i])) return i;\<close> over an array: the position of
  the first entry that satisfies the test, if there is one.
\<close>

fun find_index :: "('a \<Rightarrow> bool) \<Rightarrow> 'a list \<Rightarrow> nat option" where
  "find_index P [] = None"
| "find_index P (x # xs) = (if P x then Some 0 else map_option Suc (find_index P xs))"

lemma find_index_SomeD:
  "find_index P xs = Some i \<Longrightarrow> i < length xs \<and> P (xs ! i) \<and> (\<forall>j < i. \<not> P (xs ! j))"
proof (induction xs arbitrary: i)
  case Nil
  then show ?case by simp
next
  case (Cons x xs)
  show ?case
  proof (cases "P x")
    case True
    with Cons.prems show ?thesis by simp
  next
    case False
    with Cons.prems obtain k where k: "find_index P xs = Some k" "i = Suc k"
      by auto
    from Cons.IH [OF k(1)] False k(2) show ?thesis
      by (auto simp: less_Suc_eq_0_disj)
  qed
qed

lemma find_index_less [intro]: "find_index P xs = Some i \<Longrightarrow> i < length xs"
  by (drule find_index_SomeD) simp

lemma find_index_holds [intro]: "find_index P xs = Some i \<Longrightarrow> P (xs ! i)"
  by (drule find_index_SomeD) simp

lemma find_index_before: "find_index P xs = Some i \<Longrightarrow> j < i \<Longrightarrow> \<not> P (xs ! j)"
  by (drule find_index_SomeD) simp

lemma find_index_None_iff: "find_index P xs = None \<longleftrightarrow> (\<forall>x \<in> set xs. \<not> P x)"
  by (induction xs) auto

lemma find_index_Some_ex: "(\<exists>i. find_index P xs = Some i) \<longleftrightarrow> (\<exists>x \<in> set xs. P x)"
  using find_index_None_iff [of P xs] by auto

lemma find_index_SomeI:
  assumes "i < length xs" "P (xs ! i)" "\<And>j. j < i \<Longrightarrow> \<not> P (xs ! j)"
  shows "find_index P xs = Some i"
proof -
  have "xs ! i \<in> set xs" using assms(1) by simp
  then obtain k where k: "find_index P xs = Some k"
    using assms(2) find_index_Some_ex by metis
  have "\<not> k < i" using assms(3) find_index_holds [OF k] by blast
  moreover have "\<not> i < k" using assms(2) find_index_before [OF k] by blast
  ultimately show ?thesis using k by simp
qed

subsection \<open>Lists\<close>

lemma nth_list_update_if:
  "i < length xs \<Longrightarrow> xs[i := v] ! j = (if i = j then v else xs ! j)"
  by (simp add: nth_list_update)

lemma set_update_memI: "i < length xs \<Longrightarrow> v \<in> set (xs[i := v])"
  by (metis length_list_update nth_list_update_eq nth_mem)

lemma map_update_same:
  "i < length xs \<Longrightarrow> f v = f (xs ! i) \<Longrightarrow> map f (xs[i := v]) = map f xs"
  by (metis list_update_id map_update)

lemma take_update_swap_ge [simp]: "n \<le> i \<Longrightarrow> take n (xs[i := v]) = take n xs"
  by simp

lemma filter_update_other:
  "\<not> P v \<Longrightarrow> i < length xs \<Longrightarrow> \<not> P (xs ! i) \<Longrightarrow> filter P (xs[i := v]) = filter P xs"
proof (induction xs arbitrary: i)
  case Nil
  then show ?case by simp
next
  case (Cons x xs)
  then show ?case by (cases i) auto
qed

subsection \<open>Arithmetic\<close>

lemma mod_shift_inj:
  assumes "(h + i) mod c = (h + j) mod (c :: nat)" "i < c" "j < c"
  shows "i = j"
proof -
  have "(int h + int i) mod int c = (int h + int j) mod int c"
    using assms(1) by (metis of_nat_add of_nat_mod)
  then have "int i mod int c = int j mod int c"
    by (smt (verit, best) mod_diff_left_eq add_diff_cancel_left')
  then show ?thesis using assms(2,3) by simp
qed

end
