(* ===== verification/Fw_Common.thy ===== *)
theory Fw_Common
  imports Prelude
begin

text \<open>
  \<open>include/lions/firewall/common.h\<close>: the buffer descriptor of the firewall's queues, the
  byte-order conversions, the subnet mask macro and the conversion of an IP address to a
  string. The model is that of a little-endian machine, the only one the firewall is built
  for, so the conversions swap bytes.
\<close>

subsection \<open>Definitions\<close>

definition FW_MAX_INTERFACES :: nat where
  "FW_MAX_INTERFACES = 4"

record fw_buff_desc =
  bd_offset :: u64
  bd_len :: u16
  bd_interface :: u8

definition htons :: "u16 \<Rightarrow> u16" where
  "htons n = push_bit 8 (n AND 0xff) OR drop_bit 8 (n AND 0xff00)"

definition htonl :: "u32 \<Rightarrow> u32" where
  "htonl n = push_bit 24 (n AND 0xff) OR push_bit 8 (n AND 0xff00)
     OR (drop_bit 8 n AND 0xff00) OR drop_bit 24 n"

definition ntohs :: "u16 \<Rightarrow> u16" where
  "ntohs n = push_bit 8 (n AND 0xff) OR drop_bit 8 (n AND 0xff00)"

text \<open>
  The mask is built in 64 bits (\<open>0xffffffffUL\<close>), shifted by \<open>32 - n\<close> and cut to 32 bits.
  For \<open>n > 32\<close> the shift distance is negative, which C leaves undefined; the natural
  number subtraction makes it 0 there, and the lemmas carry the bound \<open>n \<le> 32\<close>.
\<close>

definition subnet_mask :: "u8 \<Rightarrow> u32" where
  "subnet_mask n = htonl (ucast (push_bit (32 - unat n) (0xffffffff :: u64)))"

definition IPV4_ADDR_BUFLEN :: nat where
  "IPV4_ADDR_BUFLEN = 16"

text \<open>The four bytes of an address in memory order.\<close>

definition ip_bytes :: "u32 \<Rightarrow> u8 list" where
  "ip_bytes ip = [ucast ip, ucast (drop_bit 8 ip), ucast (drop_bit 16 ip), ucast (drop_bit 24 ip)]"

text \<open>The digits of one byte, least significant first: the array \<open>inv\<close> of the C code.\<close>

function inv_digits :: "u8 \<Rightarrow> string" where
  "inv_digits b = char_of (48 + unat (b mod 10)) #
     (if b div 10 \<noteq> 0 then inv_digits (b div 10) else [])"
  by pat_completeness auto
termination
proof (relation "measure unat")
  fix b :: u8
  assume "b div 10 \<noteq> 0"
  then have "b \<noteq> 0" by auto
  then have "0 < unat b" by (simp add: unat_gt_0)
  then show "(b div 10, b) \<in> measure unat"
    by (simp add: unat_div_distrib)
qed simp

text \<open>Writing characters to the output buffer, with the check on \<open>len\<close> before each one.\<close>

fun emit_chars :: "nat \<times> string \<Rightarrow> string \<Rightarrow> (nat \<times> string) option" where
  "emit_chars (len, out) [] = Some (len, out)"
| "emit_chars (len, out) (c # cs) =
     (if len \<ge> IPV4_ADDR_BUFLEN then None else emit_chars (Suc len, out @ [c]) cs)"

fun emit_bytes :: "nat \<times> string \<Rightarrow> u8 list \<Rightarrow> (nat \<times> string) option" where
  "emit_bytes st [] = Some st"
| "emit_bytes st (b # bs) = do {
     st1 \<leftarrow> emit_chars st (rev (inv_digits b));
     st2 \<leftarrow> emit_chars st1 ''.'';
     emit_bytes st2 bs
   }"

text \<open>
  \<open>None\<close> is the \<open>NULL\<close> result; otherwise the string before the terminating zero, which
  overwrites the last dot.
\<close>

definition ipaddr_to_string :: "u32 \<Rightarrow> string option" where
  "ipaddr_to_string ip = map_option (\<lambda>(len, out). butlast out) (emit_bytes (0, []) (ip_bytes ip))"

declare inv_digits.simps [simp del]

subsection \<open>Byte order\<close>

lemma mask_u16 [word_facts]:
  "(0xff :: u16) = mask 8" "(0xff00 :: u16) = push_bit 8 (mask 8)"
  by (simp_all add: mask_eq_exp_minus_1)

lemma mask_u32 [word_facts]:
  "(0xff :: u32) = mask 8" "(0xff00 :: u32) = push_bit 8 (mask 8)"
  by (simp_all add: mask_eq_exp_minus_1)

lemma bit_htons: "bit (htons n) i \<longleftrightarrow> (if i < 8 then bit n (i + 8) else i < 16 \<and> bit n (i - 8))"
  by (auto simp: htons_def word_facts bit_simps ac_simps)

lemma bit_htonl:
  "bit (htonl n) i \<longleftrightarrow> i < 32 \<and>
     bit n (if i < 8 then i + 24 else if i < 16 then i + 8
            else if i < 24 then i - 8 else i - 24)"
  by (auto simp: htonl_def word_facts bit_simps ac_simps dest: bit_imp_le_length)

lemma htons_involution [simp]: "htons (htons n) = n"
  by (rule bit_word_eqI) (auto simp: bit_htons)

lemma htonl_involution [simp]: "htonl (htonl n) = n"
  by (rule bit_word_eqI) (auto simp: bit_htonl)

lemma ntohs_eq_htons: "ntohs n = htons n"
  by (simp only: ntohs_def htons_def)

lemma htonl_and: "htonl (a AND b) = htonl a AND htonl b"
  by (rule bit_word_eqI) (auto simp: bit_htonl bit_and_iff)

lemma htonl_inject [simp]: "htonl a = htonl b \<longleftrightarrow> a = b"
  by (metis htonl_involution)

subsection \<open>Subnet masks\<close>

text \<open>
  Addresses are kept in network order. In host order a mask of length \<open>n\<close> keeps the highest
  \<open>n\<close> bits, so two addresses agree under it exactly when their \<open>n\<close>-bit prefixes are equal.
\<close>

definition ip_prefix :: "u8 \<Rightarrow> u32 \<Rightarrow> u32" where
  "ip_prefix n ip = drop_bit (32 - unat n) (htonl ip)"

lemma u64_mask32: "(0xffffffff :: u64) = mask 32"
  by (simp add: mask_eq_exp_minus_1)

lemma bit_subnet_mask_host:
  "bit (htonl (subnet_mask n)) i \<longleftrightarrow> i < 32 \<and> 32 - unat n \<le> i"
  by (auto simp: subnet_mask_def u64_mask32 bit_simps)

lemma subnet_mask_0 [simp]: "subnet_mask 0 = 0"
  by (simp add: subnet_mask_def htonl_def)

lemma masked_eq_iff_prefix:
  "subnet_mask n AND a = subnet_mask n AND b \<longleftrightarrow> ip_prefix n a = ip_prefix n b"
proof -
  have "subnet_mask n AND a = subnet_mask n AND b \<longleftrightarrow>
      htonl (subnet_mask n) AND htonl a = htonl (subnet_mask n) AND htonl b"
    by (simp flip: htonl_and)
  also have "\<dots> \<longleftrightarrow> (\<forall>i < 32. 32 - unat n \<le> i \<longrightarrow> bit (htonl a) i = bit (htonl b) i)"
    by (auto simp: bit_eq_iff bit_and_iff bit_subnet_mask_host)
  also have "\<dots> \<longleftrightarrow> ip_prefix n a = ip_prefix n b"
  proof
    assume eq: "\<forall>i < 32. 32 - unat n \<le> i \<longrightarrow> bit (htonl a) i = bit (htonl b) i"
    show "ip_prefix n a = ip_prefix n b"
      unfolding ip_prefix_def
    proof (rule bit_word_eqI)
      fix k assume "k < LENGTH(32)"
      show "bit (drop_bit (32 - unat n) (htonl a)) k = bit (drop_bit (32 - unat n) (htonl b)) k"
        using eq [rule_format, of "32 - unat n + k"]
        by (cases "32 - unat n + k < 32") (auto simp: bit_drop_bit_eq dest: bit_imp_le_length)
    qed
  next
    assume eq: "ip_prefix n a = ip_prefix n b"
    show "\<forall>i < 32. 32 - unat n \<le> i \<longrightarrow> bit (htonl a) i = bit (htonl b) i"
    proof (intro allI impI)
      fix i assume "i < 32" "32 - unat n \<le> i"
      then show "bit (htonl a) i = bit (htonl b) i"
        using arg_cong [OF eq, of "\<lambda>w. bit w (i - (32 - unat n))"]
        by (simp add: ip_prefix_def bit_drop_bit_eq)
    qed
  qed
  finally show ?thesis .
qed

lemma masked_idem [simp]: "subnet_mask n AND (subnet_mask n AND a) = subnet_mask n AND a"
  by (simp flip: and.assoc)

lemma subnet_mask_32: "subnet_mask 32 = - 1"
  by (simp add: subnet_mask_def htonl_def)

lemma masked_32 [simp]: "subnet_mask 32 AND a = a"
  by (simp add: subnet_mask_32)

lemma ip_prefix_0: "ip_prefix 0 a = ip_prefix 0 b"
  by (simp flip: masked_eq_iff_prefix)

lemma ip_prefix_mono:
  assumes "ip_prefix n a = ip_prefix n b" "m \<le> n"
  shows "ip_prefix m a = ip_prefix m b"
proof -
  have le: "unat m \<le> unat n" using assms(2) by (simp add: word_le_nat_alt)
  have "drop_bit (32 - unat m) w = drop_bit (unat n - unat m) (drop_bit (32 - unat n) w)"
    if "unat n \<le> 32" for w :: u32
    using that le by simp
  moreover have "drop_bit (32 - unat m) w = drop_bit (32 - unat m) (drop_bit (32 - unat n) w)"
    if "\<not> unat n \<le> 32" for w :: u32
    using that by simp
  ultimately show ?thesis
    using assms(1) unfolding ip_prefix_def by metis
qed

subsection \<open>Printing an address\<close>

text \<open>The decimal numeral of a byte, without leading zeros, and the reader of a dotted address.\<close>

definition digit :: "nat \<Rightarrow> char" where
  "digit k = char_of (48 + k)"

definition dec_byte :: "nat \<Rightarrow> string" where
  "dec_byte n = (if n < 10 then [digit n]
     else if n < 100 then [digit (n div 10), digit (n mod 10)]
     else [digit (n div 100), digit (n div 10 mod 10), digit (n mod 10)])"

fun parse_octets :: "nat \<Rightarrow> string \<Rightarrow> nat list" where
  "parse_octets acc [] = [acc]"
| "parse_octets acc (c # cs) =
     (if c = CHR ''.'' then acc # parse_octets 0 cs
      else parse_octets (10 * acc + (of_char c - 48)) cs)"

lemma inv_digits_unfold:
  "inv_digits b = digit (unat b mod 10) # (if unat b < 10 then [] else inv_digits (b div 10))"
proof -
  have "b div 10 \<noteq> 0 \<longleftrightarrow> \<not> unat b < 10"
    by (simp add: unat_eq_0 unat_div_distrib flip: unat_eq_0) arith
  then show ?thesis
    by (subst inv_digits.simps) (simp add: digit_def unat_mod_distrib)
qed

lemma rev_inv_digits: "rev (inv_digits b) = dec_byte (unat b)"
proof -
  have d1: "unat (b div 10) = unat b div 10" and d2: "unat (b div 10 div 10) = unat b div 10 div 10"
    by (simp_all add: unat_div_distrib)
  have "unat b div 10 div 10 < 10"
    using unat_u8_less [of b] by linarith
  then show ?thesis
    by (simp add: inv_digits_unfold [of b] inv_digits_unfold [of "b div 10"]
        inv_digits_unfold [of "b div 10 div 10"] d1 d2 dec_byte_def)
      (auto simp: div_mult2_eq [symmetric])
qed

lemma length_dec_byte: "length (dec_byte n) \<le> 3"
  by (simp add: dec_byte_def)

lemma emit_chars_ok:
  "len + length cs \<le> IPV4_ADDR_BUFLEN \<Longrightarrow>
     emit_chars (len, out) cs = Some (len + length cs, out @ cs)"
  by (induction cs arbitrary: len out) auto

lemma emit_bytes_ok:
  "len + 4 * length bs \<le> IPV4_ADDR_BUFLEN \<Longrightarrow> \<exists>len'.
     emit_bytes (len, out) bs = Some (len', out @ concat (map (\<lambda>b. dec_byte (unat b) @ ''.'') bs))"
proof (induction bs arbitrary: len out)
  case Nil
  then show ?case by simp
next
  case (Cons b bs)
  have l: "length (dec_byte (unat b)) \<le> 3" by (rule length_dec_byte)
  have "emit_chars (len, out) (rev (inv_digits b)) =
      Some (len + length (dec_byte (unat b)), out @ dec_byte (unat b))"
    using Cons.prems l by (simp add: rev_inv_digits emit_chars_ok)
  moreover have "emit_chars (len + length (dec_byte (unat b)), out @ dec_byte (unat b)) ''.'' =
      Some (Suc (len + length (dec_byte (unat b))), out @ dec_byte (unat b) @ ''.'')"
    using Cons.prems l by simp
  moreover have "Suc (len + length (dec_byte (unat b))) + 4 * length bs \<le> IPV4_ADDR_BUFLEN"
    using Cons.prems l by simp
  ultimately show ?case
    using Cons.IH [of "Suc (len + length (dec_byte (unat b)))" "out @ dec_byte (unat b) @ ''.''"]
    by auto
qed

lemma ipaddr_to_string_eq:
  assumes "ip_bytes ip = [a, b, c, d]"
  shows "ipaddr_to_string ip = Some (dec_byte (unat a) @ ''.'' @ dec_byte (unat b) @ ''.'' @
    dec_byte (unat c) @ ''.'' @ dec_byte (unat d))"
proof -
  obtain n where "emit_bytes (0, []) (ip_bytes ip) =
      Some (n, concat (map (\<lambda>b. dec_byte (unat b) @ ''.'') [a, b, c, d]))"
    using emit_bytes_ok [of 0 "ip_bytes ip" "[]"] assms by (auto simp: IPV4_ADDR_BUFLEN_def)
  then show ?thesis
    by (simp add: ipaddr_to_string_def butlast_append)
qed

lemma of_char_digit: "k < 10 \<Longrightarrow> (of_char (digit k) :: nat) = 48 + k"
  by (simp add: digit_def)

lemma digit_not_dot: "k < 10 \<Longrightarrow> digit k \<noteq> CHR ''.''"
proof
  assume k: "k < 10" and "digit k = CHR ''.''"
  then have "(of_char (digit k) :: nat) = of_char (CHR ''.'')" by (simp only:)
  then show False using of_char_digit [OF k] by simp
qed

lemma parse_octets_digit:
  assumes "k < 10"
  shows "parse_octets acc (digit k # cs) = parse_octets (10 * acc + k) cs"
  by (simp only: parse_octets.simps digit_not_dot [OF assms] of_char_digit [OF assms] if_False
      diff_add_inverse)

lemma parse_octets_digits:
  assumes "n < 256"
  shows "parse_octets 0 (dec_byte n @ cs) = parse_octets n cs"
proof -
  consider "n < 10" | "10 \<le> n" "n < 100" | "100 \<le> n" by linarith
  then show ?thesis
  proof cases
    case 1
    then have "dec_byte n @ cs = digit n # cs" by (simp add: dec_byte_def)
    with 1 show ?thesis by (simp only: parse_octets_digit) simp
  next
    case 2
    then have d: "n div 10 < 10" "n mod 10 < 10" by linarith+
    have "dec_byte n @ cs = digit (n div 10) # digit (n mod 10) # cs"
      using 2 by (simp add: dec_byte_def)
    then have "parse_octets 0 (dec_byte n @ cs) = parse_octets (10 * (10 * 0 + n div 10) + n mod 10) cs"
      by (simp only: parse_octets_digit d)
    then show ?thesis by simp
  next
    case 3
    have d: "n div 100 < 10" "n div 10 mod 10 < 10" "n mod 10 < 10"
      using assms by linarith+
    have "dec_byte n @ cs = digit (n div 100) # digit (n div 10 mod 10) # digit (n mod 10) # cs"
      using 3 by (simp add: dec_byte_def)
    then have "parse_octets 0 (dec_byte n @ cs) =
        parse_octets (10 * (10 * (10 * 0 + n div 100) + n div 10 mod 10) + n mod 10) cs"
      by (simp only: parse_octets_digit d)
    moreover have "n div 100 = n div 10 div 10" by (simp add: div_mult2_eq [symmetric])
    then have "10 * (10 * (10 * 0 + n div 100) + n div 10 mod 10) + n mod 10 = n"
      by simp
    ultimately show ?thesis by (simp only:)
  qed
qed

lemma parse_octets_dec_byte:
  assumes "n < 256"
  shows "parse_octets 0 (dec_byte n @ CHR ''.'' # s) = n # parse_octets 0 s"
    and "parse_octets 0 (dec_byte n) = [n]"
  using parse_octets_digits [OF assms, of "CHR ''.'' # s"] parse_octets_digits [OF assms, of "[]"]
  by simp_all

text \<open>Printing an address never leaves its 16-byte buffer, and the text reads back as the four
  bytes of the address.\<close>

theorem ipaddr_to_string_parse:
  "\<exists>s. ipaddr_to_string ip = Some s \<and> length s < IPV4_ADDR_BUFLEN \<and>
     parse_octets 0 s = map unat (ip_bytes ip)"
proof -
  obtain a b c d where bs: "ip_bytes ip = [a, b, c, d]" by (simp add: ip_bytes_def)
  let ?s = "dec_byte (unat a) @ ''.'' @ dec_byte (unat b) @ ''.'' @
    dec_byte (unat c) @ ''.'' @ dec_byte (unat d)"
  have "length ?s < IPV4_ADDR_BUFLEN"
    using length_dec_byte [of "unat a"] length_dec_byte [of "unat b"]
      length_dec_byte [of "unat c"] length_dec_byte [of "unat d"]
    by (simp add: IPV4_ADDR_BUFLEN_def)
  moreover have "parse_octets 0 ?s = map unat (ip_bytes ip)"
    by (simp add: bs parse_octets_dec_byte unat_u8_less)
  ultimately show ?thesis
    using ipaddr_to_string_eq [OF bs] by blast
qed

end
