(* ===== verification/Fw_Checksum.thy ===== *)
theory Fw_Checksum
  imports Fw_Common
begin

text \<open>
  \<open>include/lions/firewall/checksum.h\<close>: the Internet checksum (RFC 1071) of a buffer and the
  transport checksum over the pseudo-header and the packet. A buffer is a list of bytes; a
  16-bit read takes two of them in little-endian order.
\<close>

subsection \<open>Definitions\<close>

definition read_le16 :: "u8 list \<Rightarrow> u16" where
  "read_le16 buf = ucast (buf ! 0) OR push_bit 8 (ucast (buf ! 1))"

text \<open>
  The loop over the 16-bit words, on the running sum, the buffer pointer and the remaining
  length, and the addition of a last odd byte.
\<close>

function sum_words :: "u32 \<Rightarrow> u8 list \<Rightarrow> u16 \<Rightarrow> u32" where
  "sum_words s buf len =
     (if len > 1 then sum_words (s + ucast (read_le16 buf)) (drop 2 buf) (len - 2)
      else if len = 1 then s + ucast (buf ! 0)
      else s)"
  by pat_completeness auto
termination
proof (relation "measure (\<lambda>(s, buf, len). unat len)")
  fix s :: u32 and buf :: "u8 list" and len :: u16
  assume "len > 1"
  then have "1 < unat len" by (simp add: word_less_nat_alt)
  then have "2 \<le> len" by (simp add: word_le_nat_alt)
  with \<open>1 < unat len\<close>
  show "((s + ucast (read_le16 buf), drop 2 buf, len - 2), s, buf, len)
      \<in> measure (\<lambda>(s, buf, len). unat len)"
    by (simp add: unat_sub)
qed simp

text \<open>Folding the 32-bit sum to 16 bits: \<open>while (sum >> 16)\<close>.\<close>

lemma mask16 [word_facts]: "(0xFFFF :: u32) = mask 16"
  by (simp add: mask_eq_exp_minus_1)

lemma u32_split16:
  "unat (s :: u32) = 65536 * unat (drop_bit 16 s) + unat (s AND 0xFFFF)"
  by (simp add: word_facts)

lemma unat_fold_step:
  "unat ((s AND 0xFFFF) + drop_bit 16 (s :: u32)) = unat (s AND 0xFFFF) + unat (drop_bit 16 s)"
proof (rule unat_add_nowrap)
  have "unat (s AND 0xFFFF) + unat (drop_bit 16 s) \<le> unat s" using u32_split16 [of s] by linarith
  also have "unat s < 2 ^ LENGTH(32)" using unat_u32_less [of s] by simp
  finally show "unat (s AND 0xFFFF) + unat (drop_bit 16 s) < 2 ^ LENGTH(32)" .
qed

function fold_sum :: "u32 \<Rightarrow> u32" where
  "fold_sum s =
     (if drop_bit 16 s \<noteq> 0 then fold_sum ((s AND 0xFFFF) + drop_bit 16 s) else s)"
  by pat_completeness auto
termination
proof (relation "measure unat")
  fix s :: u32 assume "drop_bit 16 s \<noteq> 0"
  then have "0 < unat (drop_bit 16 s)" by (simp add: unat_gt_0)
  then show "((s AND 0xFFFF) + drop_bit 16 s, s) \<in> measure unat"
    using u32_split16 [of s] by (simp add: unat_fold_step)
qed simp

definition fw_internet_checksum :: "u8 list \<Rightarrow> u16 \<Rightarrow> u16" where
  "fw_internet_checksum pkt len = ucast (NOT (fold_sum (sum_words 0 pkt len)))"

record fw_pseudo_header =
  psh_src_ip :: u32
  psh_dst_ip :: u32
  psh_reserved :: u8
  psh_protocol :: u8
  psh_len :: u16

text \<open>The pseudo-header as it lies in memory: 12 bytes, each field little-endian.\<close>

definition psh_bytes :: "fw_pseudo_header \<Rightarrow> u8 list" where
  "psh_bytes h = ip_bytes (psh_src_ip h) @ ip_bytes (psh_dst_ip h) @
     [psh_reserved h, psh_protocol h, ucast (psh_len h), ucast (drop_bit 8 (psh_len h))]"

text \<open>\<open>for (i = 0; i < 6; i++) sum += psh_ptr[i]\<close>.\<close>

fun sum_psh :: "nat \<Rightarrow> u32 \<Rightarrow> u8 list \<Rightarrow> u32" where
  "sum_psh 0 s buf = s"
| "sum_psh (Suc n) s buf = sum_psh n (s + ucast (read_le16 buf)) (drop 2 buf)"

definition calculate_transport_checksum :: "u8 list \<Rightarrow> u16 \<Rightarrow> u8 \<Rightarrow> u32 \<Rightarrow> u32 \<Rightarrow> u16" where
  "calculate_transport_checksum pkt len protocol src_ip dst_ip =
     (let psh = \<lparr>psh_src_ip = src_ip, psh_dst_ip = dst_ip, psh_reserved = 0,
                 psh_protocol = protocol, psh_len = htons len\<rparr>;
          s = sum_psh 6 0 (psh_bytes psh)
      in ucast (NOT (fold_sum (sum_words s pkt len))))"

declare sum_words.simps [simp del] fold_sum.simps [simp del]

subsection \<open>The sum of the words as a natural number\<close>

fun word_total :: "u8 list \<Rightarrow> nat" where
  "word_total [] = 0"
| "word_total [a] = unat a"
| "word_total (a # b # bs) = unat a + 256 * unat b + word_total bs"

lemma unat_read_le16: "unat (read_le16 buf) = unat (buf ! 0) + 256 * unat (buf ! 1)"
proof -
  let ?a = "ucast (buf ! 0) :: u16" and ?b = "push_bit 8 (ucast (buf ! 1)) :: u16"
  have b: "unat ?b = 256 * unat (buf ! 1)"
    using unat_u8_less [of "buf ! 1"]
    by (simp add: push_bit_eq_mult unat_word_ariths unat_ucast_up)
  have "?a AND ?b = 0"
    by (rule bit_word_eqI) (auto simp: bit_simps dest: bit_imp_le_length)
  then have "?a OR ?b = ?a + ?b"
    by (rule disjunctive_add_eq_or [symmetric])
  with b show ?thesis
    using unat_u8_less [of "buf ! 0"] unat_u8_less [of "buf ! 1"]
    by (simp add: read_le16_def unat_word_ariths unat_ucast_up)
qed

lemma word_total_step:
  "2 \<le> length buf \<Longrightarrow> word_total buf = unat (read_le16 buf) + word_total (drop 2 buf)"
  by (cases buf rule: word_total.cases) (simp_all add: unat_read_le16)

lemma word_total_bound: "word_total xs \<le> 65535 * ((length xs + 1) div 2)"
proof (induction xs rule: word_total.induct)
  case (2 a)
  then show ?case using unat_u8_less [of a] by simp
next
  case (3 a b bs)
  then show ?case using unat_u8_less [of a] unat_u8_less [of b] by simp
qed simp

lemma word_total_append: "even (length xs) \<Longrightarrow> word_total (xs @ ys) = word_total xs + word_total ys"
  by (induction xs rule: word_total.induct) simp_all

lemma word_total_take_step:
  assumes "1 < n" "n \<le> length buf"
  shows "word_total (take n buf) = unat (read_le16 buf) + word_total (take (n - 2) (drop 2 buf))"
proof -
  have "word_total (take n buf) = unat (read_le16 (take n buf)) + word_total (drop 2 (take n buf))"
    using assms by (intro word_total_step) simp
  moreover have "read_le16 (take n buf) = read_le16 buf"
    using assms by (simp add: read_le16_def)
  ultimately show ?thesis by (simp only: drop_take)
qed

lemma unat_sum_words:
  assumes "unat len \<le> length buf" "unat s + word_total (take (unat len) buf) < 2 ^ 32"
  shows "unat (sum_words s buf len) = unat s + word_total (take (unat len) buf)"
  using assms
proof (induction s buf len rule: sum_words.induct)
  case (1 s buf len)
  show ?case
  proof (cases "1 < len")
    case True
    then have l: "1 < unat len" by (simp add: word_less_nat_alt)
    then have l2: "unat (len - 2) = unat len - 2"
      by (subst unat_sub) (simp_all add: word_le_nat_alt)
    note tk = word_total_take_step [OF l "1.prems"(1)]
    have s: "unat (s + ucast (read_le16 buf)) = unat s + unat (read_le16 buf)"
      using "1.prems"(2) tk by (simp add: word_facts)
    have "unat (sum_words (s + ucast (read_le16 buf)) (drop 2 buf) (len - 2)) =
        unat (s + ucast (read_le16 buf)) + word_total (take (unat (len - 2)) (drop 2 buf))"
      by (rule "1.IH" [OF True]) (use "1.prems" s tk l2 in simp_all)
    then show ?thesis
      using True s tk l2 by (simp add: sum_words.simps [of s buf len])
  next
    case False
    then have "unat len \<le> 1" by (simp add: word_less_nat_alt)
    then consider "unat len = 1" "len = 1" | "unat len = 0" "len = 0"
      by (auto simp: word_unat_eq_iff le_Suc_eq)
    then show ?thesis
    proof cases
      case 1
      with "1.prems" obtain b bs where b: "buf = b # bs" by (cases buf) auto
      with 1 "1.prems" show ?thesis
        by (simp add: sum_words.simps [of s "b # bs" 1] word_facts)
    next
      case 2
      then show ?thesis by (simp add: sum_words.simps [of s buf 0])
    qed
  qed
qed

lemma unat_sum_words_0:
  assumes "unat len \<le> length buf"
  shows "unat (sum_words 0 buf len) = word_total (take (unat len) buf)"
proof -
  have "word_total (take (unat len) buf) \<le> 65535 * ((unat len + 1) div 2)"
    using word_total_bound [of "take (unat len) buf"] assms by (simp add: min_absorb2)
  also have "\<dots> < 2 ^ 32" using unat_u16_less [of len] by simp
  finally show ?thesis using unat_sum_words [OF assms, of 0] by simp
qed

subsection \<open>Folding\<close>

text \<open>What folding computes: the one's complement sum, with 65535 for a non-zero multiple of it.\<close>

definition ones_fold :: "nat \<Rightarrow> nat" where
  "ones_fold t = (if t = 0 then 0 else if t mod 65535 = 0 then 65535 else t mod 65535)"

lemma ones_fold_small: "t < 65536 \<Longrightarrow> ones_fold t = t"
  by (cases "t = 65535") (auto simp: ones_fold_def)

lemma ones_fold_cong: "t > 0 \<Longrightarrow> ones_fold (t + 65535 * k) = ones_fold t"
  by (simp add: ones_fold_def)

lemma unat_fold_sum: "unat (fold_sum s) = ones_fold (unat s)"
proof (induction s rule: fold_sum.induct)
  case (1 s)
  show ?case
  proof (cases "drop_bit 16 s = 0")
    case True
    then have "unat (s AND 0xFFFF) = unat s" using u32_split16 [of s] by simp
    then have "unat s < 65536" by (simp add: word_facts)
    then show ?thesis using True by (simp add: fold_sum.simps [of s] ones_fold_small)
  next
    case False
    let ?t = "(s AND 0xFFFF) + drop_bit 16 s"
    have t: "unat s = unat ?t + 65535 * unat (drop_bit 16 s)"
      using u32_split16 [of s] unat_fold_step [of s] by linarith
    have "0 < unat (drop_bit 16 s)" using False by (simp add: unat_gt_0)
    then have "0 < unat ?t" using unat_fold_step [of s] by linarith
    then have "ones_fold (unat s) = ones_fold (unat ?t)"
      unfolding t by (rule ones_fold_cong)
    then show ?thesis
      using "1.IH" [OF False] False by (simp add: fold_sum.simps [of s])
  qed
qed

lemma ones_fold_le: "ones_fold t \<le> 65535"
  by (simp add: ones_fold_def less_imp_le)

lemma unat_complement_fold: "unat (ucast (NOT (fold_sum s)) :: u16) = 65535 - ones_fold (unat s)"
proof -
  have "unat (fold_sum s) \<le> 65535" by (simp add: unat_fold_sum ones_fold_le)
  then show ?thesis
    using mod_add_right_eq [of "65535 - ones_fold (unat s)" "4294901760" 65536]
    by (simp add: unsigned_ucast_eq take_bit_eq_mod unat_not unat_fold_sum)
qed

lemma unat_fw_internet_checksum:
  "unat len \<le> length pkt \<Longrightarrow>
     unat (fw_internet_checksum pkt len) = 65535 - ones_fold (word_total (take (unat len) pkt))"
  by (simp add: fw_internet_checksum_def unat_complement_fold unat_sum_words_0)

subsection \<open>The checksum field\<close>

text \<open>Storing a 16-bit value at a byte offset, as the assignment to the header's field does.\<close>

definition store_le16 :: "u8 list \<Rightarrow> nat \<Rightarrow> u16 \<Rightarrow> u8 list" where
  "store_le16 pkt i v = pkt[i := ucast v, Suc i := ucast (drop_bit 8 v)]"

lemma length_store_le16 [simp]: "length (store_le16 pkt i v) = length pkt"
  by (simp add: store_le16_def)

lemma unat_u16_bytes: "unat (ucast v :: u8) + 256 * unat (ucast (drop_bit 8 v) :: u8) = unat (v :: u16)"
proof -
  have "unat v div 256 < 256" using unat_u16_less [of v] by linarith
  then show ?thesis by (simp add: unsigned_ucast_eq take_bit_eq_mod unat_drop_bit)
qed

lemma split_at_pair:
  assumes "Suc i < n" "n \<le> length xs"
  shows "take n xs = take i xs @ xs ! i # xs ! Suc i # drop (Suc (Suc i)) (take n xs)"
proof -
  have "take n xs = take i (take n xs) @ drop i (take n xs)"
    by (rule append_take_drop_id [symmetric])
  also have "drop i (take n xs) = take n xs ! i # take n xs ! Suc i # drop (Suc (Suc i)) (take n xs)"
    using assms Cons_nth_drop_Suc [of i "take n xs"] Cons_nth_drop_Suc [of "Suc i" "take n xs"]
    by (simp only: length_take min_absorb2)
  finally show ?thesis using assms by (simp add: min_absorb1)
qed

lemma word_total_split:
  assumes "even i" "Suc i < n" "n \<le> length xs"
  shows "word_total (take n xs) = word_total (take i xs) + unat (xs ! i) + 256 * unat (xs ! Suc i) +
    word_total (drop (Suc (Suc i)) (take n xs))"
proof -
  have "word_total (take n xs) =
      word_total (take i xs @ xs ! i # xs ! Suc i # drop (Suc (Suc i)) (take n xs))"
    by (rule arg_cong [OF split_at_pair [OF assms(2,3)]])
  then show ?thesis using assms by (simp add: word_total_append min_absorb2)
qed

lemma word_total_store:
  assumes "even i" "Suc i < n" "n \<le> length pkt"
  shows "word_total (take n (store_le16 pkt i v)) + unat (pkt ! i) + 256 * unat (pkt ! Suc i) =
    word_total (take n pkt) + unat v"
proof -
  let ?q = "store_le16 pkt i v"
  have q: "take i ?q = take i pkt" "?q ! i = ucast v" "?q ! Suc i = ucast (drop_bit 8 v)"
    "drop (Suc (Suc i)) (take n ?q) = drop (Suc (Suc i)) (take n pkt)"
    using assms by (simp_all add: store_le16_def drop_take)
  show ?thesis
    using word_total_split [OF assms(1,2), of ?q] word_total_split [OF assms]
      assms unat_u16_bytes [of v] by (simp add: q)
qed

lemma ones_fold_complement: "ones_fold (t + (65535 - ones_fold t)) = 65535"
proof (cases "t = 0 \<or> t mod 65535 = 0")
  case True
  then show ?thesis by (auto simp: ones_fold_def)
next
  case False
  then have f: "ones_fold t = t mod 65535" "t mod 65535 < 65535" by (auto simp: ones_fold_def)
  have "t + (65535 - t mod 65535) = 65535 * (t div 65535) + 65535"
    using mult_div_mod_eq [of 65535 t] f(2) by linarith
  then show ?thesis unfolding f(1) by (simp add: ones_fold_def)
qed

lemma checksum_of_store:
  assumes "even i" "Suc i < unat len" "unat len \<le> length pkt" "pkt ! i = 0" "pkt ! Suc i = 0"
  shows "fw_internet_checksum (store_le16 pkt i (fw_internet_checksum pkt len)) len = 0"
proof -
  let ?c = "fw_internet_checksum pkt len"
  have "word_total (take (unat len) (store_le16 pkt i ?c)) = word_total (take (unat len) pkt) + unat ?c"
    using word_total_store [OF assms(1-3), of ?c] assms(4,5) by simp
  then have "unat (fw_internet_checksum (store_le16 pkt i ?c) len) = 0"
    using assms(3) by (simp add: unat_fw_internet_checksum ones_fold_complement)
  then show ?thesis by (simp add: unat_eq_0)
qed

text \<open>C36: a packet whose checksum field, two zero bytes at an even offset, is overwritten with the
  checksum computed over it verifies: its own checksum is zero.\<close>

theorem checksum_verifies:
  assumes "even i" "Suc i < unat len" "unat len \<le> length pkt" "pkt ! i = 0" "pkt ! Suc i = 0"
  shows "fw_internet_checksum (store_le16 pkt i (fw_internet_checksum pkt len)) len = 0"
  using checksum_of_store [OF assms] .

subsection \<open>The transport checksum\<close>

lemma length_psh_bytes [simp]: "length (psh_bytes h) = 12"
  by (simp add: psh_bytes_def ip_bytes_def)

lemma unat_sum_psh:
  "2 * n \<le> length buf \<Longrightarrow> unat s + word_total (take (2 * n) buf) < 2 ^ 32 \<Longrightarrow>
     unat (sum_psh n s buf) = unat s + word_total (take (2 * n) buf)"
proof (induction n arbitrary: s buf)
  case 0
  then show ?case by simp
next
  case (Suc n)
  have tk: "word_total (take (2 * Suc n) buf) =
      unat (read_le16 buf) + word_total (take (2 * n) (drop 2 buf))"
    using word_total_take_step [of "2 * Suc n" buf] Suc.prems(1) by simp
  have s: "unat (s + ucast (read_le16 buf)) = unat s + unat (read_le16 buf)"
    using Suc.prems(2) tk by (simp add: word_facts)
  have "unat (sum_psh n (s + ucast (read_le16 buf)) (drop 2 buf)) =
      unat (s + ucast (read_le16 buf)) + word_total (take (2 * n) (drop 2 buf))"
    by (rule Suc.IH) (use Suc.prems s tk in simp_all)
  then show ?case using s tk by simp
qed

lemma unat_transport_checksum:
  assumes "unat len \<le> length pkt"
  shows "unat (calculate_transport_checksum pkt len protocol src dst) =
    65535 - ones_fold (word_total (psh_bytes \<lparr>psh_src_ip = src, psh_dst_ip = dst, psh_reserved = 0,
      psh_protocol = protocol, psh_len = htons len\<rparr> @ take (unat len) pkt))"
proof -
  let ?h = "\<lparr>psh_src_ip = src, psh_dst_ip = dst, psh_reserved = 0,
      psh_protocol = protocol, psh_len = htons len\<rparr>"
  let ?s = "sum_psh 6 0 (psh_bytes ?h)"
  have b: "word_total (psh_bytes ?h) \<le> 65535 * 6"
    using word_total_bound [of "psh_bytes ?h"] by simp
  have s: "unat ?s = word_total (psh_bytes ?h)"
    using unat_sum_psh [of 6 "psh_bytes ?h" 0] b by simp
  have "word_total (take (unat len) pkt) \<le> 65535 * ((unat len + 1) div 2)"
    using word_total_bound [of "take (unat len) pkt"] assms by (simp add: min_absorb2)
  also have "\<dots> \<le> 65535 * 32768" using unat_u16_less [of len] by simp
  finally have "unat ?s + word_total (take (unat len) pkt) < 2 ^ 32"
    using s b by simp
  then have "unat (sum_words ?s pkt len) = word_total (psh_bytes ?h @ take (unat len) pkt)"
    using unat_sum_words [OF assms] s by (simp add: word_total_append)
  then show ?thesis
    by (simp add: calculate_transport_checksum_def Let_def unat_complement_fold)
qed

text \<open>C38: the transport checksum, which sums the pseudo-header and the payload separately, is the
  internet checksum of the two laid out one behind the other.\<close>

theorem transport_checksum_eq_internet:
  assumes "unat len \<le> length pkt" "unat len + 12 < 65536"
  shows "calculate_transport_checksum pkt len protocol src dst =
    fw_internet_checksum (psh_bytes \<lparr>psh_src_ip = src, psh_dst_ip = dst, psh_reserved = 0,
      psh_protocol = protocol, psh_len = htons len\<rparr> @ pkt) (len + 12)"
proof -
  have l: "unat (len + 12) = unat len + 12" using assms(2) by (simp add: unat_word_ariths)
  then show ?thesis
    using assms(1)
    by (simp add: word_unat_eq_iff unat_transport_checksum unat_fw_internet_checksum)
qed

definition ex_packet :: "u8 list" where
  "ex_packet = [8, 0, 0, 0, 0x12, 0x34, 1]"

theorem checksum_verifies_witness:
  "fw_internet_checksum (store_le16 ex_packet 2 (fw_internet_checksum ex_packet 7)) 7 = 0"
  using checksum_verifies [of 2 7 ex_packet] by (simp add: ex_packet_def)

theorem transport_checksum_eq_internet_witness:
  "calculate_transport_checksum ex_packet 7 17 1 2 =
    fw_internet_checksum (psh_bytes \<lparr>psh_src_ip = 1, psh_dst_ip = 2, psh_reserved = 0,
      psh_protocol = 17, psh_len = htons 7\<rparr> @ ex_packet) (7 + 12)"
  using transport_checksum_eq_internet [of 7 ex_packet 17 1 2] by (simp add: ex_packet_def)

end
