(* ===== verification/Fifo.thy ===== *)
theory Fifo
  imports Prelude
begin

text \<open>
  The contract of a bounded first-in first-out queue as its clients use it: an enqueue that
  fails with \<open>-1\<close> when there is no room, a dequeue that fails with \<open>-1\<close> when there is nothing
  to take. The loop \<open>while (!empty(q)) { dequeue(q, &e); body(e); }\<close>, which nearly every
  component of the firewall is built from, is analysed once, over the contract.
\<close>

subsection \<open>The draining loop\<close>

text \<open>
  The state of the loop's body is threaded through; the body may fail (an assertion). The
  fuel bounds the iterations, \<open>None\<close> is running out of it or a failed assertion.
\<close>

fun drain_loop :: "('q \<Rightarrow> bool) \<Rightarrow> ('q \<Rightarrow> int \<times> 'e option \<times> 'q) \<Rightarrow> ('e \<Rightarrow> 's \<Rightarrow> 's option)
    \<Rightarrow> nat \<Rightarrow> 'q \<Rightarrow> 's \<Rightarrow> ('q \<times> 's) option" where
  "drain_loop emp deq body 0 q s = (if emp q then Some (q, s) else None)"
| "drain_loop emp deq body (Suc fuel) q s =
     (if emp q then Some (q, s)
      else case deq q of
        (err, Some e, q') \<Rightarrow>
          (if err = 0 then Option.bind (body e s) (drain_loop emp deq body fuel q') else None)
      | (err, None, q') \<Rightarrow> None)"

text \<open>The effect of the body over a list of entries.\<close>

fun fold_body :: "('e \<Rightarrow> 's \<Rightarrow> 's option) \<Rightarrow> 'e list \<Rightarrow> 's \<Rightarrow> 's option" where
  "fold_body body [] s = Some s"
| "fold_body body (e # es) s = Option.bind (body e s) (fold_body body es)"

lemma fold_body_append:
  "fold_body body (xs @ ys) s = Option.bind (fold_body body xs s) (fold_body body ys)"
  by (induction xs arbitrary: s) (auto simp: bind_eq_None_conv split: bind_split)

lemma fold_body_invariant:
  assumes "fold_body body es s = Some s'" "I s"
    "\<And>e s s'. e \<in> set es \<Longrightarrow> I s \<Longrightarrow> body e s = Some s' \<Longrightarrow> I s'"
  shows "I s'"
  using assms
proof (induction es arbitrary: s)
  case Nil
  then show ?case by simp
next
  case (Cons e es)
  then obtain s1 where s1: "body e s = Some s1" "fold_body body es s1 = Some s'"
    by (auto simp: bind_eq_Some_conv)
  show ?case
  proof (rule Cons.IH [OF s1(2)])
    show "I s1" using Cons.prems(2,3) s1(1) by (metis list.set_intros(1))
    show "I t'" if "x \<in> set es" "I t" "body x t = Some t'" for x t t'
      using Cons.prems(3) that by (metis list.set_intros(2))
  qed
qed

lemma fold_body_total:
  assumes "I s" "\<And>e s. e \<in> set es \<Longrightarrow> I s \<Longrightarrow> \<exists>s'. body e s = Some s' \<and> I s'"
  shows "\<exists>s'. fold_body body es s = Some s' \<and> I s'"
  using assms
proof (induction es arbitrary: s)
  case Nil
  then show ?case by simp
next
  case (Cons e es)
  obtain s1 where s1: "body e s = Some s1" "I s1"
    using Cons.prems by (metis list.set_intros(1))
  have "\<exists>s'. fold_body body es s1 = Some s' \<and> I s'"
    by (rule Cons.IH [OF s1(2)]) (use Cons.prems(2) in auto)
  with s1 show ?case by simp
qed

subsection \<open>The contract\<close>

locale bounded_fifo =
  fixes inv :: "'q \<Rightarrow> bool"
    and items :: "'q \<Rightarrow> 'e list"
    and room :: "'q \<Rightarrow> nat"
    and emp :: "'q \<Rightarrow> bool"
    and enq :: "'q \<Rightarrow> 'e \<Rightarrow> int \<times> 'q"
    and deq :: "'q \<Rightarrow> int \<times> 'e option \<times> 'q"
  assumes emp_iff: "inv q \<Longrightarrow> emp q \<longleftrightarrow> items q = []"
    and within_room: "inv q \<Longrightarrow> length (items q) \<le> room q"
    and enq_ok: "inv q \<Longrightarrow> length (items q) < room q \<Longrightarrow>
      \<exists>q'. enq q e = (0, q') \<and> inv q' \<and> items q' = items q @ [e] \<and> room q' = room q"
    and enq_full: "inv q \<Longrightarrow> length (items q) = room q \<Longrightarrow> enq q e = (-1, q)"
    and deq_ok: "inv q \<Longrightarrow> items q = e # es \<Longrightarrow>
      \<exists>q'. deq q = (0, Some e, q') \<and> inv q' \<and> items q' = es \<and> room q' = room q"
    and deq_empty: "inv q \<Longrightarrow> items q = [] \<Longrightarrow> deq q = (-1, None, q)"
begin

lemma enq_cases:
  assumes "inv q" "enq q e = (err, q')"
  shows "inv q' \<and> room q' = room q \<and>
    (if length (items q) < room q then err = 0 \<and> items q' = items q @ [e] else err = -1 \<and> q' = q)"
proof (cases "length (items q) < room q")
  case True
  with enq_ok [OF assms(1) True, of e] assms(2) show ?thesis by auto
next
  case False
  then have "length (items q) = room q" using within_room [OF assms(1)] by simp
  with enq_full [OF assms(1), of e] assms False show ?thesis by auto
qed

text \<open>
  With enough fuel the loop takes every entry, oldest first, and its effect is the fold of its
  body over them; the queue is left empty.
\<close>

lemma drain_loop_fold:
  assumes "inv q" "length (items q) \<le> fuel"
  shows "drain_loop emp deq body fuel q s = (case fold_body body (items q) s of
      None \<Rightarrow> None
    | Some s' \<Rightarrow> Some (fst (the (drain_loop emp deq (\<lambda>_ _. Some ()) fuel q ())), s'))"
  using assms
proof (induction fuel arbitrary: q s)
  case 0
  then show ?case by (simp add: emp_iff)
next
  case (Suc fuel)
  show ?case
  proof (cases "items q")
    case Nil
    with Suc.prems show ?thesis by (simp add: emp_iff)
  next
    case (Cons e es)
    obtain q' where q': "deq q = (0, Some e, q')" "inv q'" "items q' = es"
      using deq_ok [OF Suc.prems(1) Cons] by blast
    have ne: "\<not> emp q" using Suc.prems(1) Cons by (simp add: emp_iff)
    have len: "length (items q') \<le> fuel" using Suc.prems(2) Cons q'(3) by simp
    show ?thesis
      using ne q' Cons Suc.IH [OF q'(2) len]
      by (cases "body e s") (auto split: option.splits)
  qed
qed

lemma drain_loop_empties:
  assumes "inv q" "length (items q) \<le> fuel" "fold_body body (items q) s = Some s'"
  shows "\<exists>q'. drain_loop emp deq body fuel q s = Some (q', s') \<and> inv q' \<and> items q' = [] \<and> room q' = room q"
  using assms
proof (induction fuel arbitrary: q s)
  case 0
  then show ?case by (simp add: emp_iff)
next
  case (Suc fuel)
  show ?case
  proof (cases "items q")
    case Nil
    with Suc.prems show ?thesis by (simp add: emp_iff)
  next
    case (Cons e es)
    obtain q' where q': "deq q = (0, Some e, q')" "inv q'" "items q' = es" "room q' = room q"
      using deq_ok [OF Suc.prems(1) Cons] by blast
    obtain s1 where s1: "body e s = Some s1" "fold_body body es s1 = Some s'"
      using Suc.prems(3) Cons by (auto simp: bind_eq_Some_conv)
    have "\<exists>q''. drain_loop emp deq body fuel q' s1 = Some (q'', s') \<and> inv q'' \<and> items q'' = [] \<and>
        room q'' = room q'"
      by (rule Suc.IH) (use q' s1 Cons Suc.prems in auto)
    with q' s1 Cons Suc.prems(1) show ?thesis by (auto simp: emp_iff)
  qed
qed

text \<open>Enqueueing a batch that fits keeps its order.\<close>

lemma enq_batch:
  assumes "inv q" "length (items q) + length es \<le> room q"
  shows "\<exists>q'. fold_body (\<lambda>e q. case enq q e of (err, q') \<Rightarrow> if err = 0 then Some q' else None) es q = Some q'
    \<and> inv q' \<and> items q' = items q @ es \<and> room q' = room q"
  using assms
proof (induction es arbitrary: q)
  case Nil
  then show ?case by simp
next
  case (Cons e es)
  obtain q1 where q1: "enq q e = (0, q1)" "inv q1" "items q1 = items q @ [e]" "room q1 = room q"
    using enq_ok [of q e] Cons.prems by auto
  from Cons.IH [of q1] Cons.prems(2) q1 show ?case by auto
qed

end

end
