(* ===== verification/Fw_Queue.thy ===== *)
theory Fw_Queue
  imports Fifo
begin

text \<open>
  \<open>include/lions/firewall/queue.h\<close>: the single-producer single-consumer ring of the firewall.
  \<open>entries\<close> is the array of shared data slots, one per entry of \<open>entry_size\<close> bytes; the two
  indices run freely over the 64-bit integers and are reduced modulo the capacity when a slot
  is addressed, so they are never reset. The header asks for a capacity that is a power of two.
\<close>

subsection \<open>Definitions\<close>

record fw_queue_indeces =
  idx_tail :: u64
  idx_head :: u64

record 'e fw_queue =
  fq_idx :: fw_queue_indeces
  fq_entries :: "'e list"
  fq_capacity :: u64

definition fw_queue_length :: "'e fw_queue \<Rightarrow> u16" where
  "fw_queue_length q = ucast (idx_tail (fq_idx q) - idx_head (fq_idx q))"

definition fw_queue_empty :: "'e fw_queue \<Rightarrow> bool" where
  "fw_queue_empty q \<longleftrightarrow> idx_tail (fq_idx q) - idx_head (fq_idx q) = 0"

definition fw_queue_full :: "'e fw_queue \<Rightarrow> bool" where
  "fw_queue_full q \<longleftrightarrow> idx_tail (fq_idx q) - idx_head (fq_idx q) = fq_capacity q"

definition fw_enqueue :: "'e fw_queue \<Rightarrow> 'e \<Rightarrow> int \<times> 'e fw_queue" where
  "fw_enqueue q entry =
     (if fw_queue_full q then (-1, q)
      else
        let slot = unat (idx_tail (fq_idx q) mod fq_capacity q)
        in (0, q\<lparr>fq_entries := (fq_entries q)[slot := entry],
                 fq_idx := (fq_idx q)\<lparr>idx_tail := idx_tail (fq_idx q) + 1\<rparr>\<rparr>))"

definition fw_dequeue :: "'e fw_queue \<Rightarrow> int \<times> 'e option \<times> 'e fw_queue" where
  "fw_dequeue q =
     (if fw_queue_empty q then (-1, None, q)
      else
        let slot = unat (idx_head (fq_idx q) mod fq_capacity q)
        in (0, Some (fq_entries q ! slot),
            q\<lparr>fq_idx := (fq_idx q)\<lparr>idx_head := idx_head (fq_idx q) + 1\<rparr>\<rparr>))"

text \<open>
  The shared region holds the indices and, behind them, the slots. Initialisation only sets the
  handle up: indices and slots stay as they are in the region.
\<close>

definition fw_queue_init :: "fw_queue_indeces \<times> 'e list \<Rightarrow> u64 \<Rightarrow> 'e fw_queue" where
  "fw_queue_init data capacity =
     \<lparr>fq_idx = fst data, fq_entries = snd data, fq_capacity = capacity\<rparr>"

subsection \<open>Abstraction\<close>

definition fq_count :: "'e fw_queue \<Rightarrow> nat" where
  "fq_count q = unat (idx_tail (fq_idx q) - idx_head (fq_idx q))"

definition fq_slot :: "'e fw_queue \<Rightarrow> nat \<Rightarrow> nat" where
  "fq_slot q i = (unat (idx_head (fq_idx q)) + i) mod unat (fq_capacity q)"

definition fq_contents :: "'e fw_queue \<Rightarrow> 'e list" where
  "fq_contents q = map (\<lambda>i. fq_entries q ! fq_slot q i) [0..<fq_count q]"

definition fq_room :: "'e fw_queue \<Rightarrow> nat" where
  "fq_room q = unat (fq_capacity q)"

definition wf_fw_queue :: "'e fw_queue \<Rightarrow> bool" where
  "wf_fw_queue q \<longleftrightarrow> 0 < unat (fq_capacity q) \<and> unat (fq_capacity q) dvd 2 ^ 64 \<and>
     length (fq_entries q) = unat (fq_capacity q) \<and> fq_count q \<le> unat (fq_capacity q)"

lemma fq_slot_less: "wf_fw_queue q \<Longrightarrow> fq_slot q i < length (fq_entries q)"
  by (simp add: wf_fw_queue_def fq_slot_def)

lemma unat_add_dvd_mod:
  assumes "unat c dvd 2 ^ LENGTH('a)"
  shows "unat (a + b :: 'a::len word) mod unat c = (unat a + unat b) mod unat (c :: 'a word)"
  using assms by (simp add: unat_word_ariths mod_mod_cancel)

text \<open>The slot of the tail index is the one after the last valid entry.\<close>

lemma tail_slot:
  assumes "wf_fw_queue q"
  shows "unat (idx_tail (fq_idx q) mod fq_capacity q) = fq_slot q (fq_count q)"
proof -
  let ?h = "idx_head (fq_idx q)" and ?t = "idx_tail (fq_idx q)"
  have "unat (?h + (?t - ?h)) mod unat (fq_capacity q) =
      (unat ?h + unat (?t - ?h)) mod unat (fq_capacity q)"
    by (rule unat_add_dvd_mod) (use assms in \<open>simp add: wf_fw_queue_def\<close>)
  then show ?thesis
    by (simp add: fq_slot_def fq_count_def word_mod_nonzero)
qed

lemma head_slot: "unat (idx_head (fq_idx q) mod fq_capacity q) = fq_slot q 0"
  by (simp add: fq_slot_def word_mod_nonzero)

lemma fq_slot_inj:
  "fq_slot q i = fq_slot q j \<Longrightarrow> i < unat (fq_capacity q) \<Longrightarrow> j < unat (fq_capacity q) \<Longrightarrow> i = j"
  unfolding fq_slot_def by (rule mod_shift_inj)

lemma length_fq_contents [simp]: "length (fq_contents q) = fq_count q"
  by (simp add: fq_contents_def)

subsection \<open>The two operations on the contents\<close>

lemma fq_full_iff: "fw_queue_full q \<longleftrightarrow> fq_count q = fq_room q"
  by (simp add: fw_queue_full_def fq_count_def fq_room_def word_unat_eq_iff)

lemma fq_empty_iff: "fw_queue_empty q \<longleftrightarrow> fq_count q = 0"
  by (simp add: fw_queue_empty_def fq_count_def unat_eq_0)

lemma enqueue_count:
  assumes "wf_fw_queue q" "fq_count q < fq_room q"
  shows "fq_count (snd (fw_enqueue q e)) = Suc (fq_count q)"
proof -
  let ?n = "idx_tail (fq_idx q) - idx_head (fq_idx q)"
  have "unat ?n < unat (fq_capacity q)" using assms(2) by (simp add: fq_count_def fq_room_def)
  moreover have "unat (fq_capacity q) < 2 ^ 64" using unsigned_less [of "fq_capacity q"] by simp
  ultimately have "unat (?n + 1) = Suc (unat ?n)" by (intro unat_Suc_nowrap) simp
  moreover have "fw_queue_full q = False" using assms(2) by (simp add: fq_full_iff)
  ultimately show ?thesis by (simp add: fw_enqueue_def fq_count_def algebra_simps)
qed

lemma enqueue_entries:
  assumes "wf_fw_queue q" "fq_count q < fq_room q"
  shows "fq_contents (snd (fw_enqueue q e)) = fq_contents q @ [e]"
proof -
  have full: "\<not> fw_queue_full q" using assms(2) by (simp add: fq_full_iff)
  have slot: "fq_slot (snd (fw_enqueue q e)) i = fq_slot q i" for i
    using full by (simp add: fw_enqueue_def fq_slot_def)
  have ents: "fq_entries (snd (fw_enqueue q e)) = (fq_entries q)[fq_slot q (fq_count q) := e]"
    using full by (simp add: fw_enqueue_def tail_slot [OF assms(1)])
  have other: "fq_slot q (fq_count q) \<noteq> fq_slot q i" if "i < fq_count q" for i
    using fq_slot_inj [of q "fq_count q" i] that assms(2) by (auto simp: fq_room_def)
  show ?thesis
    unfolding fq_contents_def enqueue_count [OF assms] slot ents
    using fq_slot_less [OF assms(1)] other by (auto intro!: map_cong)
qed

lemma enqueue_wf:
  assumes "wf_fw_queue q" "fq_count q < fq_room q"
  shows "wf_fw_queue (snd (fw_enqueue q e)) \<and> fq_room (snd (fw_enqueue q e)) = fq_room q"
  using assms enqueue_count [OF assms, of e]
  by (auto simp: wf_fw_queue_def fq_room_def fw_enqueue_def)

lemma dequeue_count:
  assumes "fq_count q \<noteq> 0"
  shows "fq_count (snd (snd (fw_dequeue q))) = fq_count q - 1"
proof -
  let ?n = "idx_tail (fq_idx q) - idx_head (fq_idx q)"
  have "1 \<le> ?n" using assms unfolding fq_count_def word_le_nat_alt unat_1 by linarith
  then have *: "unat (?n - 1) = unat ?n - 1" by (simp only: unat_sub unat_1)
  have "idx_tail (fq_idx q) - (idx_head (fq_idx q) + 1) = ?n - 1"
    by (simp only: diff_diff_eq)
  moreover have "fq_count (snd (snd (fw_dequeue q))) =
      unat (idx_tail (fq_idx q) - (idx_head (fq_idx q) + 1))"
  proof -
    have "\<not> fw_queue_empty q" using assms by (simp only: fq_empty_iff not_False_eq_True)
    then show ?thesis by (simp add: fw_dequeue_def fq_count_def)
  qed
  ultimately show ?thesis using * by (simp only: fq_count_def)
qed

lemma head_advance_slot:
  assumes "wf_fw_queue q" "fq_count q \<noteq> 0"
  shows "fq_slot (snd (snd (fw_dequeue q))) i = fq_slot q (Suc i)"
proof -
  let ?h = "idx_head (fq_idx q)" and ?c = "fq_capacity q"
  have "unat (?h + 1) mod unat ?c = (unat ?h + unat (1 :: u64)) mod unat ?c"
    by (rule unat_add_dvd_mod) (use assms(1) in \<open>simp add: wf_fw_queue_def\<close>)
  then have *: "(unat (?h + 1) + i) mod unat ?c = (unat ?h + 1 + i) mod unat ?c"
    unfolding unat_1 by (intro mod_add_cong refl)
  have "\<not> fw_queue_empty q" using assms(2) by (simp only: fq_empty_iff not_False_eq_True)
  then have "fq_slot (snd (snd (fw_dequeue q))) i = (unat (?h + 1) + i) mod unat ?c"
    by (simp add: fw_dequeue_def fq_slot_def)
  also note *
  finally show ?thesis by (simp only: fq_slot_def add.assoc plus_1_eq_Suc)
qed

lemma dequeue_entries:
  assumes "wf_fw_queue q" "fq_contents q = e # es"
  shows "\<exists>q'. fw_dequeue q = (0, Some e, q') \<and> wf_fw_queue q' \<and> fq_contents q' = es \<and>
    fq_room q' = fq_room q"
proof -
  let ?q' = "snd (snd (fw_dequeue q))"
  have cnt: "fq_count q = Suc (length es)" using arg_cong [OF assms(2), of length] by simp
  then have ne: "\<not> fw_queue_empty q" by (simp add: fq_empty_iff)
  have e: "e = fq_entries q ! fq_slot q 0"
    using assms(2) cnt by (simp add: fq_contents_def upt_rec)
  have es: "es = map (\<lambda>i. fq_entries q ! fq_slot q (Suc i)) [0..<length es]"
    using assms(2) cnt by (simp add: fq_contents_def map_upt_Suc del: upt_Suc)
  have cnt': "fq_count ?q' = length es" using dequeue_count [of q] cnt by simp
  have same: "fq_entries ?q' = fq_entries q" "fq_capacity ?q' = fq_capacity q"
    by (simp_all add: fw_dequeue_def Let_def)
  have "fq_contents ?q' = es"
    using head_advance_slot [OF assms(1)] cnt cnt' same es by (simp add: fq_contents_def)
  moreover have "fw_dequeue q = (0, Some e, ?q')"
    using ne e by (simp add: fw_dequeue_def head_slot Let_def)
  moreover have "wf_fw_queue ?q'"
    using assms(1) same cnt cnt' by (simp add: wf_fw_queue_def)
  ultimately show ?thesis using same by (auto simp: fq_room_def)
qed

interpretation fwq: bounded_fifo wf_fw_queue fq_contents fq_room fw_queue_empty fw_enqueue fw_dequeue
proof unfold_locales
  fix q :: "'a fw_queue" and e es
  assume wf: "wf_fw_queue q"
  show "fw_queue_empty q \<longleftrightarrow> fq_contents q = []"
    using length_fq_contents [of q] by (metis fq_empty_iff length_0_conv)
  show "length (fq_contents q) \<le> fq_room q"
    using wf by (simp add: wf_fw_queue_def fq_room_def)
  show "\<exists>q'. fw_enqueue q e = (0, q') \<and> wf_fw_queue q' \<and> fq_contents q' = fq_contents q @ [e] \<and>
      fq_room q' = fq_room q" if "length (fq_contents q) < fq_room q"
  proof -
    have lt: "fq_count q < fq_room q" using that by simp
    then have "fw_enqueue q e = (0, snd (fw_enqueue q e))"
      by (simp add: fw_enqueue_def fq_full_iff Let_def)
    then show ?thesis using enqueue_entries [OF wf lt] enqueue_wf [OF wf lt] by blast
  qed
  show "fw_enqueue q e = (-1, q)" if "length (fq_contents q) = fq_room q"
    using that by (simp add: fw_enqueue_def fq_full_iff)
  show "\<exists>q'. fw_dequeue q = (0, Some e, q') \<and> wf_fw_queue q' \<and> fq_contents q' = es \<and>
      fq_room q' = fq_room q" if "fq_contents q = e # es"
    using wf that by (rule dequeue_entries)
  show "fw_dequeue q = (-1, None, q)" if "fq_contents q = []"
    using that length_fq_contents [of q] by (simp add: fw_dequeue_def fq_empty_iff)
qed

subsection \<open>The reported length\<close>

text \<open>\<open>fw_queue_length\<close> returns 16 bits: it is the count only below a capacity of \<open>2^16\<close>.\<close>

lemma fw_queue_length_count:
  "unat (fw_queue_length q) = fq_count q mod 65536"
  by (simp add: fw_queue_length_def fq_count_def unsigned_ucast_eq take_bit_eq_mod)

subsection \<open>Properties\<close>

text \<open>
  The abstract queue: a list with a bound. A client issues a sequence of operations and sees the
  return codes and the entries handed out.
\<close>

datatype 'e queue_op = Enq 'e | Deq

fun ring_run :: "'e fw_queue \<Rightarrow> 'e queue_op list \<Rightarrow> (int \<times> 'e option) list \<times> 'e fw_queue" where
  "ring_run q [] = ([], q)"
| "ring_run q (Enq e # ops) =
     (let (err, q1) = fw_enqueue q e; (outs, q2) = ring_run q1 ops in ((err, None) # outs, q2))"
| "ring_run q (Deq # ops) =
     (let (err, r, q1) = fw_dequeue q; (outs, q2) = ring_run q1 ops in ((err, r) # outs, q2))"

fun fifo_run :: "nat \<Rightarrow> 'e list \<Rightarrow> 'e queue_op list \<Rightarrow> (int \<times> 'e option) list \<times> 'e list" where
  "fifo_run n xs [] = ([], xs)"
| "fifo_run n xs (Enq e # ops) =
     (if length xs < n
      then let (outs, ys) = fifo_run n (xs @ [e]) ops in ((0, None) # outs, ys)
      else let (outs, ys) = fifo_run n xs ops in ((-1, None) # outs, ys))"
| "fifo_run n xs (Deq # ops) =
     (case xs of
        [] \<Rightarrow> let (outs, ys) = fifo_run n [] ops in ((-1, None) # outs, ys)
      | x # xs' \<Rightarrow> let (outs, ys) = fifo_run n xs' ops in ((0, Some x) # outs, ys))"

lemma ring_run_refines:
  assumes "wf_fw_queue q" "ring_run q ops = (outs, q')"
  shows "wf_fw_queue q' \<and> fq_room q' = fq_room q \<and>
    fifo_run (fq_room q) (fq_contents q) ops = (outs, fq_contents q')"
  using assms
proof (induction ops arbitrary: q outs)
  case Nil
  then show ?case by simp
next
  case (Cons op ops)
  show ?case
  proof (cases op)
    case (Enq e)
    obtain err q1 where q1: "fw_enqueue q e = (err, q1)" by (cases "fw_enqueue q e")
    obtain outs2 where o2: "ring_run q1 ops = (outs2, q')" "outs = (err, None) # outs2"
      using Cons.prems(2) Enq q1 by (auto split: prod.splits)
    note c = fwq.enq_cases [OF Cons.prems(1) q1]
    then have "wf_fw_queue q' \<and> fq_room q' = fq_room q1 \<and>
        fifo_run (fq_room q1) (fq_contents q1) ops = (outs2, fq_contents q')"
      using Cons.IH [OF _ o2(1)] by blast
    with c o2(2) Enq show ?thesis by (auto split: if_splits)
  next
    case Deq
    obtain err r q1 where q1: "fw_dequeue q = (err, r, q1)" by (cases "fw_dequeue q")
    obtain outs2 where o2: "ring_run q1 ops = (outs2, q')" "outs = (err, r) # outs2"
      using Cons.prems(2) Deq q1 by (auto split: prod.splits)
    show ?thesis
    proof (cases "fq_contents q")
      case Nil
      then have "(err, r, q1) = (-1, None, q)"
        using fwq.deq_empty [OF Cons.prems(1)] q1 by simp
      with Cons.IH [OF Cons.prems(1)] o2 Deq Nil show ?thesis by simp
    next
      case c: (Cons x xs)
      from fwq.deq_ok [OF Cons.prems(1) c] q1
      have d: "err = 0" "r = Some x" "wf_fw_queue q1" "fq_contents q1 = xs" "fq_room q1 = fq_room q"
        by auto
      with Cons.IH [OF d(3) o2(1)] o2(2) Deq c show ?thesis by simp
    qed
  qed
qed

text \<open>C16: the ring of \<open>queue.h\<close>, with its free-running 64-bit indices, behaves as a bounded
  first-in first-out list: for every sequence of enqueues and dequeues on a well-formed ring the
  return codes and the entries handed out are those of the list, the ring stays well formed and
  still represents it, also when the indices wrap around.\<close>

theorem fw_queue_refines_fifo:
  assumes "wf_fw_queue q"
  shows "wf_fw_queue (snd (ring_run q ops)) \<and>
    fifo_run (fq_room q) (fq_contents q) ops =
      (fst (ring_run q ops), fq_contents (snd (ring_run q ops)))"
  using ring_run_refines [OF assms, of ops "fst (ring_run q ops)" "snd (ring_run q ops)"] by simp

text \<open>A full ring of four whose tail index has wrapped around the 64-bit integers.\<close>

definition wrapped_ring :: "nat fw_queue" where
  "wrapped_ring = \<lparr>fq_idx = \<lparr>idx_tail = 1, idx_head = - 2\<rparr>, fq_entries = [12, 13, 10, 11],
     fq_capacity = 4\<rparr>"

lemma wf_wrapped_ring: "wf_fw_queue wrapped_ring"
  by (simp add: wf_fw_queue_def wrapped_ring_def fq_count_def)

theorem fw_queue_refines_fifo_witness:
  "fifo_run (fq_room wrapped_ring) (fq_contents wrapped_ring) [Enq 7, Enq 8, Deq, Deq] =
     (fst (ring_run wrapped_ring [Enq 7, Enq 8, Deq, Deq]),
      fq_contents (snd (ring_run wrapped_ring [Enq 7, Enq 8, Deq, Deq]))) \<and>
   fst (ring_run wrapped_ring [Enq 7, Enq 8, Deq, Deq]) =
     [(0, None), (-1, None), (0, Some 10), (0, Some 11)]"
  using fw_queue_refines_fifo [OF wf_wrapped_ring, of "[Enq 7, Enq 8, Deq, Deq]"]
  by (simp add: wrapped_ring_def fw_enqueue_def fw_dequeue_def fw_queue_full_def fw_queue_empty_def)

text \<open>The length the header reports is the number of entries modulo \<open>2^16\<close>; it is the number
  of entries for every well-formed ring of fewer than \<open>2^16\<close> slots, and a full ring of
  \<open>2^16\<close> slots is reported as holding nothing.\<close>

theorem fw_queue_length_truncates:
  assumes "wf_fw_queue q"
  shows "unat (fw_queue_length q) = length (fq_contents q) mod 65536 \<and>
    (fq_room q < 65536 \<longrightarrow> unat (fw_queue_length q) = length (fq_contents q)) \<and>
    (fq_room q = 65536 \<longrightarrow> fw_queue_full q \<longrightarrow> fw_queue_length q = 0)"
  using fw_queue_length_count [of q] assms
  by (auto simp: wf_fw_queue_def fq_room_def [symmetric] fq_full_iff unat_eq_0 [symmetric])

theorem fw_queue_length_truncates_witness:
  "unat (fw_queue_length wrapped_ring) = length (fq_contents wrapped_ring) \<and>
   length (fq_contents wrapped_ring) = 3"
  using fw_queue_length_truncates [OF wf_wrapped_ring]
  by (simp add: fw_queue_length_def wrapped_ring_def fq_count_def fq_room_def)

end
