(* ===== verification/Fw_Array.thy ===== *)
theory Fw_Array
  imports Prelude
begin

text \<open>
  \<open>include/lions/firewall/array_functions.h\<close>: deleting an element from an array of fixed-size
  entries by moving the bytes behind it. The tables of the firewall (rules, routes) are stored
  this way; their theories work on lists of entries, with \<open>entry_shift\<close>, which the byte-level
  routine refines for every encoding of entries in a fixed number of bytes.
\<close>

subsection \<open>The byte-level routine\<close>

text \<open>\<open>memmove\<close> within one memory region: \<open>n\<close> bytes from offset \<open>src\<close> to offset \<open>dst\<close>. A copy
  that leaves the region is undefined behaviour of the C code and has no value here.\<close>

definition memmove :: "'b list \<Rightarrow> nat \<Rightarrow> nat \<Rightarrow> nat \<Rightarrow> 'b list option" where
  "memmove mem dst src n =
     (if dst + n \<le> length mem \<and> src + n \<le> length mem
      then Some (take dst mem @ take n (drop src mem) @ drop (dst + n) mem)
      else None)"

definition generic_array_shift :: "u8 list \<Rightarrow> u32 \<Rightarrow> u32 \<Rightarrow> u32 \<Rightarrow> u8 list option" where
  "generic_array_shift array entry_size array_len index_to_remove =
     (let shift_len = (array_len - index_to_remove - 1) * entry_size
      in if 0 < shift_len
         then
           let byte_offset = index_to_remove * entry_size
           in memmove array (unat byte_offset) (unat byte_offset + unat entry_size) (unat shift_len)
         else Some array)"

subsection \<open>The routine on entries\<close>

text \<open>Entries above \<open>i\<close> and below \<open>n\<close> move down by one; the entry at \<open>n - 1\<close> keeps its old
  contents, which the caller's size then excludes.\<close>

definition entry_shift :: "'a list \<Rightarrow> nat \<Rightarrow> nat \<Rightarrow> 'a list" where
  "entry_shift xs n i = take i xs @ take (n - i - 1) (drop (i + 1) xs) @ drop (n - 1) xs"

definition remove_nth :: "nat \<Rightarrow> 'a list \<Rightarrow> 'a list" where
  "remove_nth i xs = take i xs @ drop (Suc i) xs"

lemma length_entry_shift [simp]:
  "i < n \<Longrightarrow> n \<le> length xs \<Longrightarrow> length (entry_shift xs n i) = length xs"
  by (simp add: entry_shift_def)

lemma take_entry_shift:
  assumes "i < n" "n \<le> length xs"
  shows "take (n - 1) (entry_shift xs n i) = remove_nth i (take n xs)"
proof -
  have "length (take i xs @ take (n - i - 1) (drop (i + 1) xs)) = n - 1"
    using assms by simp
  then have "take (n - 1) (entry_shift xs n i) = take i xs @ take (n - i - 1) (drop (i + 1) xs)"
    unfolding entry_shift_def append_assoc [symmetric] by (metis append_eq_conv_conj)
  also have "\<dots> = remove_nth i (take n xs)"
    using assms by (simp add: remove_nth_def drop_take min_def)
  finally show ?thesis .
qed

lemma remove_nth_simps [simp]:
  "remove_nth 0 (x # xs) = xs"
  "remove_nth (Suc i) (x # xs) = x # remove_nth i xs"
  by (simp_all add: remove_nth_def)

lemma length_remove_nth [simp]: "i < length xs \<Longrightarrow> length (remove_nth i xs) = length xs - 1"
  by (simp add: remove_nth_def)

lemma set_remove_nth: "set (remove_nth i xs) \<subseteq> set xs"
  by (auto simp: remove_nth_def dest: in_set_takeD in_set_dropD)

lemma map_remove_nth: "map f (remove_nth i xs) = remove_nth i (map f xs)"
  by (simp add: remove_nth_def take_map drop_map)

lemma distinct_remove_nth: "distinct xs \<Longrightarrow> distinct (remove_nth i xs)"
proof (induction xs arbitrary: i)
  case Nil
  then show ?case by (simp add: remove_nth_def)
next
  case (Cons x xs)
  then show ?case using set_remove_nth [of _ xs] by (cases i) auto
qed

lemma set_remove_nth_distinct:
  "distinct xs \<Longrightarrow> i < length xs \<Longrightarrow> set (remove_nth i xs) = set xs - {xs ! i}"
proof (induction xs arbitrary: i)
  case Nil
  then show ?case by simp
next
  case (Cons x xs)
  then show ?case by (cases i) auto
qed

lemma remove_nth_filter:
  "i < length xs \<Longrightarrow> distinct (map f xs) \<Longrightarrow> remove_nth i xs = filter (\<lambda>x. f x \<noteq> f (xs ! i)) xs"
proof (induction xs arbitrary: i)
  case Nil
  then show ?case by simp
next
  case (Cons x xs)
  show ?case
  proof (cases i)
    case 0
    have "filter (\<lambda>y. f y \<noteq> f x) xs = xs"
      using Cons.prems(2) by (auto intro!: filter_True simp: image_iff)
    with 0 show ?thesis by simp
  next
    case (Suc k)
    moreover have "f x \<noteq> f (xs ! k)" using Cons.prems Suc by (auto simp: image_iff)
    ultimately show ?thesis using Cons by simp
  qed
qed

lemma sorted_wrt_remove_nth: "sorted_wrt P xs \<Longrightarrow> sorted_wrt P (remove_nth i xs)"
proof (induction xs arbitrary: i)
  case Nil
  then show ?case by (simp add: remove_nth_def)
next
  case (Cons x xs)
  then show ?case using set_remove_nth [of _ xs] by (cases i) auto
qed

lemma nth_0_remove_nth: "0 < i \<Longrightarrow> xs \<noteq> [] \<Longrightarrow> remove_nth i xs ! 0 = xs ! 0"
  by (cases xs; cases i) auto

lemma nth_0_entry_shift: "0 < i \<Longrightarrow> xs \<noteq> [] \<Longrightarrow> entry_shift xs n i ! 0 = xs ! 0"
  by (cases xs; cases i) (auto simp: entry_shift_def)

subsection \<open>Entries in a fixed number of bytes\<close>

text \<open>Little-endian bytes of the scalar fields.\<close>

definition le16 :: "u16 \<Rightarrow> u8 list" where
  "le16 w = [ucast w, ucast (drop_bit 8 w)]"

definition le32 :: "u32 \<Rightarrow> u8 list" where
  "le32 w = [ucast w, ucast (drop_bit 8 w), ucast (drop_bit 16 w), ucast (drop_bit 24 w)]"

definition bool_byte :: "bool \<Rightarrow> u8" where
  "bool_byte b = (if b then 1 else 0)"

lemma length_le [simp]: "length (le16 w) = 2" "length (le32 v) = 4"
  by (simp_all add: le16_def le32_def)

locale fixed_size_entry =
  fixes enc :: "'a \<Rightarrow> u8 list" and sz :: u32
  assumes enc_size: "length (enc x) = unat sz"
begin

definition layout :: "'a list \<Rightarrow> u8 list" where
  "layout xs = concat (map enc xs)"

lemma length_layout [simp]: "length (layout xs) = length xs * unat sz"
  by (induction xs) (simp_all add: layout_def enc_size)

lemma layout_append: "layout (xs @ ys) = layout xs @ layout ys"
  by (simp add: layout_def)

lemma take_layout: "take (k * unat sz) (layout xs) = layout (take k xs)"
proof (cases "k \<le> length xs")
  case True
  have "layout xs = layout (take k xs) @ layout (drop k xs)"
    by (simp flip: layout_append)
  with True show ?thesis by (simp add: min_def)
next
  case False
  then show ?thesis by (simp add: mult_le_mono1)
qed

lemma drop_layout: "drop (k * unat sz) (layout xs) = layout (drop k xs)"
proof (cases "k \<le> length xs")
  case True
  have "layout xs = layout (take k xs) @ layout (drop k xs)"
    by (simp flip: layout_append)
  with True show ?thesis by (simp add: min_def)
next
  case False
  then have "length (layout xs) \<le> k * unat sz" by (simp add: mult_le_mono1)
  with False show ?thesis by (simp add: layout_def)
qed

lemma shift_refines:
  assumes "unat i < unat n" "unat n \<le> length xs" "length xs * unat sz < 2 ^ 32"
  shows "generic_array_shift (layout xs) sz n i = Some (layout (entry_shift xs (unat n) (unat i)))"
proof -
  have i1: "unat (i + 1) = unat i + 1"
    using assms(1) unsigned_less [of n, where ?'a = nat] by (subst unat_Suc_nowrap) auto
  have le: "i + 1 \<le> n" "i \<le> n"
    using assms(1) i1 by (simp_all add: word_le_nat_alt)
  have d: "unat (n - i - 1) = unat n - unat i - 1"
    using le i1 by (simp add: unat_sub diff_diff_eq)
  have b1: "(unat n - unat i - 1) * unat sz < 2 ^ 32"
    by (rule order.strict_trans1 [OF mult_le_mono1 assms(3)]) (use assms(2) in simp)
  then have sl: "unat ((n - i - 1) * sz) = (unat n - unat i - 1) * unat sz"
    using d by (subst unat_mult_lem [THEN iffD1]) simp_all
  have b2: "unat i * unat sz < 2 ^ 32"
    by (rule order.strict_trans1 [OF mult_le_mono1 assms(3)]) (use assms(1,2) in simp)
  then have bo: "unat (i * sz) = unat i * unat sz"
    by (subst unat_mult_lem [THEN iffD1]) simp_all
  let ?i = "unat i" and ?n = "unat n" and ?s = "unat sz"
  show ?thesis
  proof (cases "0 < (n - i - 1) * sz")
    case False
    then have "(?n - ?i - 1) * ?s = 0" using sl by (metis unat_gt_0 neq0_conv word_gt_0 unat_eq_0)
    then have "?n = Suc ?i \<or> ?s = 0" using assms(1) by auto
    then have "layout (entry_shift xs ?n ?i) = layout xs"
    proof
      assume "?n = Suc ?i"
      then have "entry_shift xs ?n ?i = xs" by (simp add: entry_shift_def)
      then show ?thesis by simp
    next
      assume "?s = 0"
      then have "layout ys = []" for ys
        using length_layout [of ys] by (metis length_0_conv mult_0_right)
      then show ?thesis by simp
    qed
    with False show ?thesis by (simp add: generic_array_shift_def)
  next
    case True
    have fit: "?i * ?s + ?s + (?n - ?i - 1) * ?s = ?n * ?s"
    proof -
      have "?n = ?i + 1 + (?n - ?i - 1)" using assms(1) by simp
      then have "?n * ?s = (?i + 1 + (?n - ?i - 1)) * ?s" by simp
      then show ?thesis by (simp add: add_mult_distrib)
    qed
    have le_len: "?n * ?s \<le> length (layout xs)" using assms(2) by (simp add: mult_le_mono1)
    have off: "?i * ?s + ?s = (?i + 1) * ?s" by simp
    have end_off: "?i * ?s + (?n - ?i - 1) * ?s = (?n - 1) * ?s"
      using assms(1) by (simp flip: add_mult_distrib)
    have "memmove (layout xs) (?i * ?s) (?i * ?s + ?s) ((?n - ?i - 1) * ?s) =
        Some (take (?i * ?s) (layout xs)
          @ take ((?n - ?i - 1) * ?s) (drop ((?i + 1) * ?s) (layout xs))
          @ drop ((?n - 1) * ?s) (layout xs))"
      using fit le_len assms(2) unfolding memmove_def off end_off by auto
    then have "memmove (layout xs) (?i * ?s) (?i * ?s + ?s) ((?n - ?i - 1) * ?s) =
        Some (layout (entry_shift xs ?n ?i))"
      by (simp only: take_layout drop_layout entry_shift_def layout_append)
    with True show ?thesis by (simp add: generic_array_shift_def Let_def sl bo)
  qed
qed

end

end
