(* ===== verification/Fw_Filter.thy ===== *)
theory Fw_Filter
  imports Fw_Common Fw_Array "HOL-Library.Multiset" "HOL-Library.Product_Lexorder"
begin

text \<open>
  \<open>include/lions/firewall/filter.h\<close>: the state and the operations shared by the traffic
  filters. The rule table and the instance tables live in shared memory as a 16-bit size and an
  array; the array is a list of the region's capacity here, and its entries from the size on are
  stale. Rule identifiers are handed out of a bitmap of 64-bit blocks. A failed assertion of the
  code is the result \<open>None\<close>.
\<close>

subsection \<open>State\<close>

datatype fw_filter_err =
    FILTER_ERR_OKAY
  | FILTER_ERR_FULL
  | FILTER_ERR_DUPLICATE
  | FILTER_ERR_CLASH
  | FILTER_ERR_INVALID_RULE_ID
  | FILTER_ERR_UNSUPPORTED_ACTION

text \<open>Rules store an action in a byte; the enumerators are its values.\<close>

definition FILTER_ACT_ALLOW :: u8 where "FILTER_ACT_ALLOW = 1"
definition FILTER_ACT_DROP :: u8 where "FILTER_ACT_DROP = 2"
definition FILTER_ACT_REJECT :: u8 where "FILTER_ACT_REJECT = 3"
definition FILTER_ACT_CONNECT :: u8 where "FILTER_ACT_CONNECT = 4"
definition FILTER_ACT_ESTABLISHED :: u8 where "FILTER_ACT_ESTABLISHED = 5"

lemmas filter_actions = FILTER_ACT_ALLOW_def FILTER_ACT_DROP_def FILTER_ACT_REJECT_def
  FILTER_ACT_CONNECT_def FILTER_ACT_ESTABLISHED_def

definition DEFAULT_ACTION_IDX :: nat where "DEFAULT_ACTION_IDX = 0"
definition DEFAULT_ACTION_RULE_ID :: u16 where "DEFAULT_ACTION_RULE_ID = 0"
definition RULE_ID_BITMAP_BLK_SIZE :: nat where "RULE_ID_BITMAP_BLK_SIZE = 64"

lemmas filter_consts = DEFAULT_ACTION_IDX_def DEFAULT_ACTION_RULE_ID_def RULE_ID_BITMAP_BLK_SIZE_def

record fw_rule =
  fr_action :: u8
  fr_src_ip :: u32
  fr_dst_ip :: u32
  fr_src_port :: u16
  fr_dst_port :: u16
  fr_src_subnet :: u8
  fr_dst_subnet :: u8
  fr_src_port_any :: bool
  fr_dst_port_any :: bool
  fr_rule_id :: u16

record fw_instance =
  fi_src_ip :: u32
  fi_dst_ip :: u32
  fi_src_port :: u16
  fi_dst_port :: u16
  fi_rule_id :: u16

record fw_instances_table =
  it_size :: u16
  it_instances :: "fw_instance list"

record fw_rule_table =
  rt_size :: u16
  rt_rules :: "fw_rule list"

record fw_rule_id_bitmap =
  last_allocated_rule_id :: u16
  id_bitmap :: "u64 list"

record fw_filter_state =
  rule_table :: fw_rule_table
  rules_capacity :: u16
  rule_id_bitmap :: fw_rule_id_bitmap
  internal_instances_table :: fw_instances_table
  external_instances_table :: "fw_instances_table list"
  instances_capacity :: u16
  num_interfaces :: u8

text \<open>The entries in use.\<close>

definition active_rules :: "fw_filter_state \<Rightarrow> fw_rule list" where
  "active_rules st = take (unat (rt_size (rule_table st))) (rt_rules (rule_table st))"

definition active_instances :: "fw_instances_table \<Rightarrow> fw_instance list" where
  "active_instances tbl = take (unat (it_size tbl)) (it_instances tbl)"

subsection \<open>Rule identifiers\<close>

text \<open>The test, set and clear of one identifier's bit: block \<open>id / 64\<close>, mask \<open>1 << (id % 64)\<close>.\<close>

definition id_mask :: "nat \<Rightarrow> u64" where
  "id_mask i = push_bit (i mod RULE_ID_BITMAP_BLK_SIZE) 1"

definition id_allocated :: "fw_rule_id_bitmap \<Rightarrow> nat \<Rightarrow> bool" where
  "id_allocated bm i \<longleftrightarrow> id_bitmap bm ! (i div RULE_ID_BITMAP_BLK_SIZE) AND id_mask i \<noteq> 0"

definition set_id :: "fw_rule_id_bitmap \<Rightarrow> nat \<Rightarrow> fw_rule_id_bitmap" where
  "set_id bm i = (let b = i div RULE_ID_BITMAP_BLK_SIZE
     in bm\<lparr>id_bitmap := (id_bitmap bm)[b := id_bitmap bm ! b OR id_mask i]\<rparr>)"

definition clear_id :: "fw_rule_id_bitmap \<Rightarrow> nat \<Rightarrow> fw_rule_id_bitmap" where
  "clear_id bm i = (let b = i div RULE_ID_BITMAP_BLK_SIZE
     in bm\<lparr>id_bitmap := (id_bitmap bm)[b := id_bitmap bm ! b AND NOT (id_mask i)]\<rparr>)"

text \<open>The identifiers in the order the circular search visits them.\<close>

definition id_candidates :: "fw_filter_state \<Rightarrow> nat list" where
  "id_candidates st =
     map (\<lambda>i. (unat (last_allocated_rule_id (rule_id_bitmap st)) + 1 + i) mod unat (rules_capacity st))
       [0..<unat (rules_capacity st)]"

definition rules_reserve_id :: "fw_filter_state \<Rightarrow> (fw_filter_err \<times> u16 option \<times> fw_filter_state) option" where
  "rules_reserve_id st =
     (if rt_size (rule_table st) \<ge> rules_capacity st then Some (FILTER_ERR_FULL, None, st)
      else
        case find_index (\<lambda>i. \<not> id_allocated (rule_id_bitmap st) i) (id_candidates st) of
          None \<Rightarrow> None
        | Some k \<Rightarrow>
            let id_to_check = id_candidates st ! k;
                bm = (set_id (rule_id_bitmap st) id_to_check)
                       \<lparr>last_allocated_rule_id := of_nat id_to_check\<rparr>
            in do {
              c_assert (id_to_check \<noteq> unat DEFAULT_ACTION_RULE_ID);
              Some (FILTER_ERR_OKAY, Some (of_nat id_to_check), st\<lparr>rule_id_bitmap := bm\<rparr>)
            })"

definition rules_free_id :: "fw_filter_state \<Rightarrow> u16 \<Rightarrow> fw_filter_err \<times> fw_filter_state" where
  "rules_free_id st rule_id =
     (if rule_id = DEFAULT_ACTION_RULE_ID \<or> rule_id \<ge> rules_capacity st
      then (FILTER_ERR_INVALID_RULE_ID, st)
      else if \<not> id_allocated (rule_id_bitmap st) (unat rule_id)
      then (FILTER_ERR_INVALID_RULE_ID, st)
      else (FILTER_ERR_OKAY, st\<lparr>rule_id_bitmap := clear_id (rule_id_bitmap st) (unat rule_id)\<rparr>))"

subsection \<open>Adding rules\<close>

text \<open>The body of the clash search: every \<open>continue\<close> of the loop is one conjunct.\<close>

definition rule_clashes ::
  "u32 \<Rightarrow> u16 \<Rightarrow> u32 \<Rightarrow> u16 \<Rightarrow> u8 \<Rightarrow> u8 \<Rightarrow> bool \<Rightarrow> bool \<Rightarrow> fw_rule \<Rightarrow> bool" where
  "rule_clashes src_ip src_port dst_ip dst_port src_subnet dst_subnet src_port_any dst_port_any rule \<longleftrightarrow>
     \<not> ((src_port_any \<and> \<not> fr_src_port_any rule) \<or> (\<not> src_port_any \<and> fr_src_port_any rule)) \<and>
     \<not> ((dst_port_any \<and> \<not> fr_dst_port_any rule) \<or> (\<not> dst_port_any \<and> fr_dst_port_any rule)) \<and>
     \<not> (src_port \<noteq> fr_src_port rule \<or> dst_port \<noteq> fr_dst_port rule) \<and>
     \<not> (src_subnet \<noteq> fr_src_subnet rule \<or> dst_subnet \<noteq> fr_dst_subnet rule) \<and>
     \<not> (subnet_mask src_subnet AND src_ip \<noteq> subnet_mask (fr_src_subnet rule) AND fr_src_ip rule) \<and>
     \<not> (subnet_mask dst_subnet AND dst_ip \<noteq> subnet_mask (fr_dst_subnet rule) AND fr_dst_ip rule)"

definition fw_filter_add_rule ::
  "fw_filter_state \<Rightarrow> u32 \<Rightarrow> u16 \<Rightarrow> u32 \<Rightarrow> u16 \<Rightarrow> u8 \<Rightarrow> u8 \<Rightarrow> bool \<Rightarrow> bool \<Rightarrow> u8
    \<Rightarrow> (fw_filter_err \<times> u16 option \<times> fw_filter_state) option" where
  "fw_filter_add_rule st src_ip src_port dst_ip dst_port src_subnet dst_subnet
       src_port_any dst_port_any action =
     (if rt_size (rule_table st) \<ge> rules_capacity st then Some (FILTER_ERR_FULL, None, st)
      else
        case find_index (rule_clashes src_ip src_port dst_ip dst_port src_subnet dst_subnet
               src_port_any dst_port_any) (active_rules st) of
          Some i \<Rightarrow>
            Some (if action = fr_action (active_rules st ! i) then FILTER_ERR_DUPLICATE
                  else FILTER_ERR_CLASH, None, st)
        | None \<Rightarrow>
            let n = unat (rt_size (rule_table st));
                slot = (rt_rules (rule_table st) ! n)
                  \<lparr>fr_src_ip := subnet_mask src_subnet AND src_ip, fr_src_port := src_port,
                   fr_dst_ip := subnet_mask dst_subnet AND dst_ip, fr_dst_port := dst_port,
                   fr_src_subnet := src_subnet, fr_dst_subnet := dst_subnet,
                   fr_src_port_any := src_port_any, fr_dst_port_any := dst_port_any,
                   fr_action := action\<rparr>
            in do {
              (err, rule_id, st1) \<leftarrow> rules_reserve_id st;
              c_assert (err = FILTER_ERR_OKAY);
              let tbl = rule_table st1;
                  slot1 = (case rule_id of Some i \<Rightarrow> slot\<lparr>fr_rule_id := i\<rparr> | None \<Rightarrow> slot)
              in Some (FILTER_ERR_OKAY, rule_id,
                   st1\<lparr>rule_table := \<lparr>rt_size = rt_size tbl + 1, rt_rules = (rt_rules tbl)[n := slot1]\<rparr>\<rparr>)
            })"

subsection \<open>Initialisation\<close>

text \<open>The loop over the configured rules behind the default one; their identifiers are written
  back into the configuration.\<close>

fun add_initial_rules :: "fw_filter_state \<Rightarrow> fw_rule list \<Rightarrow> (fw_rule list \<times> fw_filter_state) option" where
  "add_initial_rules st [] = Some ([], st)"
| "add_initial_rules st (r # rs) = do {
     (err, rule_id, st1) \<leftarrow> fw_filter_add_rule st (fr_src_ip r) (fr_src_port r) (fr_dst_ip r)
        (fr_dst_port r) (fr_src_subnet r) (fr_dst_subnet r) (fr_src_port_any r) (fr_dst_port_any r)
        (fr_action r);
     c_assert (err = FILTER_ERR_OKAY);
     (rs', st2) \<leftarrow> add_initial_rules st1 rs;
     Some (r\<lparr>fr_rule_id := case rule_id of Some i \<Rightarrow> i | None \<Rightarrow> fr_rule_id r\<rparr> # rs', st2)
   }"

definition fw_filter_state_init ::
  "fw_rule_table \<Rightarrow> fw_rule_id_bitmap \<Rightarrow> u16 \<Rightarrow> fw_instances_table \<Rightarrow> fw_instances_table list \<Rightarrow> u16
    \<Rightarrow> fw_rule list \<Rightarrow> u8 \<Rightarrow> u8 \<Rightarrow> (fw_rule list \<times> fw_filter_state) option" where
  "fw_filter_state_init rules bitmap capacity internal external inst_capacity initial num_rules
       num_external =
     do {
       c_assert (\<not> id_allocated bitmap (unat DEFAULT_ACTION_RULE_ID));
       c_assert (rt_size rules = 0);
       c_assert (num_rules \<ge> 1);
       let dflt = initial ! DEFAULT_ACTION_IDX in do {
         c_assert (fr_src_subnet dflt = 0 \<and> fr_src_port_any dflt);
         c_assert (fr_dst_subnet dflt = 0 \<and> fr_dst_port_any dflt);
         c_assert (fr_rule_id dflt = DEFAULT_ACTION_RULE_ID);
         let st = \<lparr>rule_table = \<lparr>rt_size = rt_size rules + 1,
                      rt_rules = (rt_rules rules)[DEFAULT_ACTION_IDX := dflt]\<rparr>,
                   rules_capacity = capacity,
                   rule_id_bitmap = (set_id bitmap (unat DEFAULT_ACTION_RULE_ID))
                      \<lparr>last_allocated_rule_id := DEFAULT_ACTION_RULE_ID\<rparr>,
                   internal_instances_table = internal,
                   external_instances_table = take (unat num_external) external,
                   instances_capacity = inst_capacity,
                   num_interfaces = num_external\<rparr>
         in do {
           (rs, st1) \<leftarrow> add_initial_rules st (drop 1 (take (unat num_rules) initial));
           Some (dflt # rs @ drop (unat num_rules) initial, st1)
         }
       }
     }"

subsection \<open>Instances\<close>

definition same_instance :: "u32 \<Rightarrow> u16 \<Rightarrow> u32 \<Rightarrow> u16 \<Rightarrow> u16 \<Rightarrow> fw_instance \<Rightarrow> bool" where
  "same_instance src_ip src_port dst_ip dst_port rule_id i \<longleftrightarrow>
     fi_rule_id i = rule_id \<and> fi_src_ip i = src_ip \<and> fi_src_port i = src_port \<and>
     fi_dst_ip i = dst_ip \<and> fi_dst_port i = dst_port"

definition fw_filter_add_instance ::
  "fw_filter_state \<Rightarrow> u32 \<Rightarrow> u16 \<Rightarrow> u32 \<Rightarrow> u16 \<Rightarrow> u16 \<Rightarrow> fw_filter_err \<times> fw_filter_state" where
  "fw_filter_add_instance st src_ip src_port dst_ip dst_port rule_id =
     (let tbl = internal_instances_table st in
      if it_size tbl \<ge> instances_capacity st then (FILTER_ERR_FULL, st)
      else
        case find_index (same_instance src_ip src_port dst_ip dst_port rule_id) (active_instances tbl) of
          Some i \<Rightarrow> (FILTER_ERR_DUPLICATE, st)
        | None \<Rightarrow>
            let inst = \<lparr>fi_src_ip = src_ip, fi_dst_ip = dst_ip, fi_src_port = src_port,
                        fi_dst_port = dst_port, fi_rule_id = rule_id\<rparr>
            in (FILTER_ERR_OKAY, st\<lparr>internal_instances_table :=
                 \<lparr>it_size = it_size tbl + 1,
                  it_instances = (it_instances tbl)[unat (it_size tbl) := inst]\<rparr>\<rparr>))"

text \<open>The removal loop overwrites a matching instance with the last one and looks at the same
  position again.\<close>

function remove_instances_loop :: "u16 \<Rightarrow> u16 \<Rightarrow> fw_instances_table \<Rightarrow> fw_instances_table" where
  "remove_instances_loop rule_id i tbl =
     (if i < it_size tbl then
        (if rule_id \<noteq> fi_rule_id (it_instances tbl ! unat i)
         then remove_instances_loop rule_id (i + 1) tbl
         else remove_instances_loop rule_id i
           \<lparr>it_size = it_size tbl - 1,
            it_instances = (it_instances tbl)
              [unat i := it_instances tbl ! (unat (it_size tbl) - 1)]\<rparr>)
      else tbl)"
  by pat_completeness auto

termination remove_instances_loop
proof (relation "measure (\<lambda>(_, i, tbl). unat (it_size tbl) - unat i)", goal_cases)
  case 1
  then show ?case by simp
next
  case (2 r i tbl)
  then show ?case using word_step [of i "it_size tbl"] by simp
next
  case (3 r i tbl)
  then show ?case using word_step [of i "it_size tbl"] by simp
qed

declare remove_instances_loop.simps [simp del]

definition fw_filter_remove_instances :: "fw_filter_state \<Rightarrow> u16 \<Rightarrow> fw_filter_err \<times> fw_filter_state" where
  "fw_filter_remove_instances st rule_id =
     (FILTER_ERR_OKAY, st\<lparr>internal_instances_table :=
        remove_instances_loop rule_id 0 (internal_instances_table st)\<rparr>)"

subsection \<open>Classification\<close>

definition is_return_traffic :: "u32 \<Rightarrow> u16 \<Rightarrow> u32 \<Rightarrow> u16 \<Rightarrow> fw_instance \<Rightarrow> bool" where
  "is_return_traffic src_ip src_port dst_ip dst_port i \<longleftrightarrow>
     \<not> (fi_src_port i \<noteq> dst_port \<or> fi_dst_port i \<noteq> src_port) \<and>
     \<not> (fi_src_ip i \<noteq> dst_ip \<or> fi_dst_ip i \<noteq> src_ip)"

definition rule_matches :: "u32 \<Rightarrow> u16 \<Rightarrow> u32 \<Rightarrow> u16 \<Rightarrow> fw_rule \<Rightarrow> bool" where
  "rule_matches src_ip src_port dst_ip dst_port r \<longleftrightarrow>
     \<not> ((\<not> fr_src_port_any r \<and> fr_src_port r \<noteq> src_port) \<or>
        (\<not> fr_dst_port_any r \<and> fr_dst_port r \<noteq> dst_port)) \<and>
     \<not> (subnet_mask (fr_src_subnet r) AND src_ip \<noteq> subnet_mask (fr_src_subnet r) AND fr_src_ip r) \<and>
     \<not> (subnet_mask (fr_dst_subnet r) AND dst_ip \<noteq> subnet_mask (fr_dst_subnet r) AND fr_dst_ip r)"

definition stronger_match :: "fw_rule \<Rightarrow> fw_rule \<Rightarrow> bool" where
  "stronger_match r m =
     (if fr_src_subnet r = fr_src_subnet m then
        (if fr_dst_subnet r = fr_dst_subnet m then
           (if fr_src_port_any r = fr_src_port_any m
            then \<not> fr_dst_port_any r \<and> fr_dst_port_any m
            else \<not> fr_src_port_any r \<and> fr_src_port_any m)
         else fr_dst_subnet r > fr_dst_subnet m)
      else fr_src_subnet r > fr_src_subnet m)"

fun best_match :: "u32 \<Rightarrow> u16 \<Rightarrow> u32 \<Rightarrow> u16 \<Rightarrow> fw_rule \<Rightarrow> fw_rule list \<Rightarrow> fw_rule" where
  "best_match sip sp dip dp m [] = m"
| "best_match sip sp dip dp m (r # rs) =
     (if \<not> rule_matches sip sp dip dp r then best_match sip sp dip dp m rs
      else if stronger_match r m then best_match sip sp dip dp r rs
      else best_match sip sp dip dp m rs)"

definition fw_filter_find_action :: "fw_filter_state \<Rightarrow> u32 \<Rightarrow> u16 \<Rightarrow> u32 \<Rightarrow> u16 \<Rightarrow> u8 \<times> u16" where
  "fw_filter_find_action st src_ip src_port dst_ip dst_port =
     (case find (is_return_traffic src_ip src_port dst_ip dst_port)
             (concat (map active_instances (take (unat (num_interfaces st)) (external_instances_table st)))) of
        Some i \<Rightarrow> (FILTER_ACT_ESTABLISHED, fi_rule_id i)
      | None \<Rightarrow>
          let m = best_match src_ip src_port dst_ip dst_port
                    (rt_rules (rule_table st) ! DEFAULT_ACTION_IDX)
                    (drop (DEFAULT_ACTION_IDX + 1) (active_rules st))
          in (fr_action m, fr_rule_id m))"

subsection \<open>Changing and removing rules\<close>

definition fw_filter_update_default_action ::
  "fw_filter_state \<Rightarrow> u32 \<Rightarrow> (fw_filter_err \<times> fw_filter_state) option" where
  "fw_filter_update_default_action st new_action =
     (let old_action = fr_action (rt_rules (rule_table st) ! DEFAULT_ACTION_IDX) in
      if new_action = ucast old_action then Some (FILTER_ERR_OKAY, st)
      else do {
        st1 \<leftarrow> (if old_action = FILTER_ACT_CONNECT then do {
                  let (err, st1) = fw_filter_remove_instances st DEFAULT_ACTION_RULE_ID in do {
                    c_assert (err = FILTER_ERR_OKAY);
                    Some st1
                  }
                } else Some st);
        let tbl = rule_table st1;
            dflt = (rt_rules tbl ! DEFAULT_ACTION_IDX)\<lparr>fr_action := ucast new_action\<rparr>
        in Some (FILTER_ERR_OKAY,
             st1\<lparr>rule_table := tbl\<lparr>rt_rules := (rt_rules tbl)[DEFAULT_ACTION_IDX := dflt]\<rparr>\<rparr>)
      })"

definition fw_filter_remove_rule :: "fw_filter_state \<Rightarrow> u16 \<Rightarrow> (fw_filter_err \<times> fw_filter_state) option" where
  "fw_filter_remove_rule st rule_id =
     (case rules_free_id st rule_id of
        (err, st1) \<Rightarrow>
          if err \<noteq> FILTER_ERR_OKAY then Some (err, st1)
          else
            case find_index (\<lambda>r. fr_rule_id r = rule_id) (drop (DEFAULT_ACTION_IDX + 1) (active_rules st1)) of
              None \<Rightarrow> None
            | Some k \<Rightarrow>
                let i = DEFAULT_ACTION_IDX + 1 + k;
                    rule = rt_rules (rule_table st1) ! i
                in do {
                  st2 \<leftarrow> (if fr_action rule = FILTER_ACT_CONNECT then
                            (case fw_filter_remove_instances st1 rule_id of
                               (err, st2) \<Rightarrow> do { c_assert (err = FILTER_ERR_OKAY); Some st2 })
                          else Some st1);
                  let tbl = rule_table st2
                  in Some (FILTER_ERR_OKAY, st2\<lparr>rule_table :=
                       \<lparr>rt_size = rt_size tbl - 1,
                        rt_rules = entry_shift (rt_rules tbl) (unat (rt_size tbl)) i\<rparr>\<rparr>)
                })"

subsection \<open>The identifier bitmap as a set\<close>

lemma id_allocated_bit:
  "id_allocated bm i \<longleftrightarrow> bit (id_bitmap bm ! (i div 64)) (i mod 64)"
proof -
  have "id_mask i = 2 ^ (i mod 64)" by (simp add: id_mask_def filter_consts push_bit_of_1)
  then show ?thesis by (simp add: id_allocated_def filter_consts and_exp_eq_0_iff_not_bit)
qed

lemma bit_id_mask: "bit (id_mask i) n \<longleftrightarrow> n = i mod 64"
  by (auto simp: id_mask_def filter_consts bit_simps)

lemma same_bit_iff: "i div 64 = j div 64 \<and> i mod 64 = j mod 64 \<longleftrightarrow> i = (j :: nat)"
  by (metis div_mult_mod_eq)

lemma id_allocated_set_id:
  assumes "i div 64 < length (id_bitmap bm)"
  shows "id_allocated (set_id bm i) j \<longleftrightarrow> j = i \<or> id_allocated bm j"
  using assms same_bit_iff [of i j]
  by (auto simp: id_allocated_bit set_id_def filter_consts Let_def nth_list_update bit_or_iff bit_id_mask)

lemma id_allocated_clear_id:
  assumes "i div 64 < length (id_bitmap bm)"
  shows "id_allocated (clear_id bm i) j \<longleftrightarrow> j \<noteq> i \<and> id_allocated bm j"
  using assms same_bit_iff [of i j]
  by (auto simp: id_allocated_bit clear_id_def filter_consts Let_def nth_list_update bit_and_iff
      bit_not_iff bit_id_mask)

lemma length_set_id [simp]: "length (id_bitmap (set_id bm i)) = length (id_bitmap bm)"
  by (simp add: set_id_def Let_def)

lemma length_clear_id [simp]: "length (id_bitmap (clear_id bm i)) = length (id_bitmap bm)"
  by (simp add: clear_id_def Let_def)

lemma id_allocated_last [simp]:
  "id_allocated (bm\<lparr>last_allocated_rule_id := x\<rparr>) i = id_allocated bm i"
  by (simp add: id_allocated_def)

text \<open>The circular search visits every identifier.\<close>

lemma set_id_candidates: "set (id_candidates st) = {i. i < unat (rules_capacity st)}"
proof (cases "unat (rules_capacity st) = 0")
  case True
  then show ?thesis by (simp add: id_candidates_def)
next
  case False
  let ?c = "unat (rules_capacity st)"
  let ?l = "unat (last_allocated_rule_id (rule_id_bitmap st)) + 1"
  have inj: "inj_on (\<lambda>i. (?l + i) mod ?c) {0..<?c}"
    by (rule inj_onI, rule mod_shift_inj [where h = ?l]) auto
  have sub: "(\<lambda>i. (?l + i) mod ?c) ` {0..<?c} \<subseteq> {0..<?c}" using False by auto
  have "(\<lambda>i. (?l + i) mod ?c) ` {0..<?c} = {0..<?c}"
    by (rule endo_inj_surj [OF _ sub inj]) simp
  then show ?thesis by (auto simp: id_candidates_def)
qed

subsection \<open>The invariant\<close>

definition rule_ids :: "fw_filter_state \<Rightarrow> nat list" where
  "rule_ids st = map (\<lambda>r. unat (fr_rule_id r)) (active_rules st)"

definition clash :: "fw_rule \<Rightarrow> fw_rule \<Rightarrow> bool" where
  "clash n r = rule_clashes (fr_src_ip n) (fr_src_port n) (fr_dst_ip n) (fr_dst_port n)
     (fr_src_subnet n) (fr_dst_subnet n) (fr_src_port_any n) (fr_dst_port_any n) r"

definition default_rule :: "fw_rule \<Rightarrow> bool" where
  "default_rule r \<longleftrightarrow> fr_src_subnet r = 0 \<and> fr_src_port_any r \<and> fr_dst_subnet r = 0 \<and>
     fr_dst_port_any r \<and> fr_rule_id r = 0"

definition wf_rules :: "fw_filter_state \<Rightarrow> bool" where
  "wf_rules st \<longleftrightarrow>
     0 < rt_size (rule_table st) \<and> rt_size (rule_table st) \<le> rules_capacity st \<and>
     length (rt_rules (rule_table st)) = unat (rules_capacity st) \<and>
     unat (rules_capacity st) \<le> 64 * length (id_bitmap (rule_id_bitmap st)) \<and>
     default_rule (active_rules st ! 0) \<and>
     distinct (rule_ids st) \<and>
     (\<forall>i < unat (rules_capacity st). id_allocated (rule_id_bitmap st) i \<longleftrightarrow> i \<in> set (rule_ids st)) \<and>
     (\<forall>i \<in> set (rule_ids st). i < unat (rules_capacity st)) \<and>
     sorted_wrt (\<lambda>r n. \<not> clash n r) (active_rules st)"

definition wf_instances :: "fw_filter_state \<Rightarrow> bool" where
  "wf_instances st \<longleftrightarrow>
     it_size (internal_instances_table st) \<le> instances_capacity st \<and>
     length (it_instances (internal_instances_table st)) = unat (instances_capacity st) \<and>
     distinct (active_instances (internal_instances_table st))"

lemma length_active [simp]:
  "wf_rules st \<Longrightarrow> length (active_rules st) = unat (rt_size (rule_table st))"
  by (simp add: wf_rules_def active_rules_def word_le_nat_alt)

lemma length_rule_ids [simp]:
  "wf_rules st \<Longrightarrow> length (rule_ids st) = unat (rt_size (rule_table st))"
  by (simp add: rule_ids_def)

lemma active_nonempty: "wf_rules st \<Longrightarrow> active_rules st \<noteq> []"
  using length_active [of st] by (auto simp: wf_rules_def word_less_nat_alt simp del: length_active)

lemma active_0: "wf_rules st \<Longrightarrow> active_rules st ! 0 = rt_rules (rule_table st) ! 0"
  by (auto simp: active_rules_def wf_rules_def word_less_nat_alt)

lemma id_block:
  "wf_rules st \<Longrightarrow> i < unat (rules_capacity st) \<Longrightarrow> i div 64 < length (id_bitmap (rule_id_bitmap st))"
  by (simp add: wf_rules_def div_less_iff_less_mult)

subsection \<open>Allocation\<close>

lemma free_id_exists:
  assumes "wf_rules st" "rt_size (rule_table st) < rules_capacity st"
  shows "\<exists>i < unat (rules_capacity st). \<not> id_allocated (rule_id_bitmap st) i"
proof (rule ccontr)
  assume "\<not> ?thesis"
  then have "{0..<unat (rules_capacity st)} \<subseteq> set (rule_ids st)"
    using assms(1) by (auto simp: wf_rules_def)
  then have "unat (rules_capacity st) \<le> card (set (rule_ids st))"
    by (metis card_atLeastLessThan card_mono diff_zero finite_set)
  also have "\<dots> \<le> length (rule_ids st)" by (rule card_length)
  finally show False using assms by (simp add: word_less_nat_alt)
qed

text \<open>The first free identifier of the circular order is reserved; it is never the default one,
  so the assertion holds.\<close>

lemma rules_reserve_id_ok:
  assumes "wf_rules st" "rt_size (rule_table st) < rules_capacity st"
  shows "\<exists>i. rules_reserve_id st = Some (FILTER_ERR_OKAY, Some (of_nat i),
       st\<lparr>rule_id_bitmap := (set_id (rule_id_bitmap st) i)\<lparr>last_allocated_rule_id := of_nat i\<rparr>\<rparr>) \<and>
     0 < i \<and> i < unat (rules_capacity st) \<and> i \<notin> set (rule_ids st)"
proof -
  have "\<exists>i \<in> set (id_candidates st). \<not> id_allocated (rule_id_bitmap st) i"
    using free_id_exists [OF assms] by (auto simp: set_id_candidates)
  then obtain k where k: "find_index (\<lambda>i. \<not> id_allocated (rule_id_bitmap st) i) (id_candidates st) = Some k"
    using find_index_Some_ex [of "\<lambda>i. \<not> id_allocated (rule_id_bitmap st) i"] by blast
  let ?i = "id_candidates st ! k"
  have "?i \<in> set (id_candidates st)" using find_index_less [OF k] by simp
  then have lt: "?i < unat (rules_capacity st)" by (simp add: set_id_candidates)
  have free: "\<not> id_allocated (rule_id_bitmap st) ?i" using find_index_holds [OF k] .
  then have fresh: "?i \<notin> set (rule_ids st)" using assms(1) lt by (auto simp: wf_rules_def)
  have "unat (fr_rule_id (active_rules st ! 0)) \<in> set (rule_ids st)"
    using active_nonempty [OF assms(1)] by (simp add: rule_ids_def)
  moreover have "fr_rule_id (active_rules st ! 0) = 0"
    using assms(1) by (simp add: wf_rules_def default_rule_def)
  ultimately have "?i \<noteq> 0" using fresh by (metis unat_0)
  with k lt fresh assms(2) show ?thesis
    by (intro exI [of _ ?i]) (simp add: rules_reserve_id_def filter_consts Let_def not_le)
qed

lemma reserve_full:
  "rules_capacity st \<le> rt_size (rule_table st) \<Longrightarrow> rules_reserve_id st = Some (FILTER_ERR_FULL, None, st)"
  by (simp add: rules_reserve_id_def)

subsection \<open>Adding a rule\<close>

definition new_rule :: "u32 \<Rightarrow> u16 \<Rightarrow> u32 \<Rightarrow> u16 \<Rightarrow> u8 \<Rightarrow> u8 \<Rightarrow> bool \<Rightarrow> bool \<Rightarrow> u8 \<Rightarrow> u16 \<Rightarrow> fw_rule" where
  "new_rule sip sp dip dp ss ds sany dany act i =
     \<lparr>fr_action = act, fr_src_ip = subnet_mask ss AND sip, fr_dst_ip = subnet_mask ds AND dip,
      fr_src_port = sp, fr_dst_port = dp, fr_src_subnet = ss, fr_dst_subnet = ds,
      fr_src_port_any = sany, fr_dst_port_any = dany, fr_rule_id = i\<rparr>"

lemma fill_slot:
  "r\<lparr>fr_src_ip := subnet_mask ss AND sip, fr_src_port := sp, fr_dst_ip := subnet_mask ds AND dip,
     fr_dst_port := dp, fr_src_subnet := ss, fr_dst_subnet := ds, fr_src_port_any := sany,
     fr_dst_port_any := dany, fr_action := act, fr_rule_id := i\<rparr> =
   new_rule sip sp dip dp ss ds sany dany act i"
  by (cases r) (simp add: new_rule_def)

lemma new_rule_id [simp]: "fr_rule_id (new_rule sip sp dip dp ss ds sany dany act i) = i"
  by (simp add: new_rule_def)

lemma clash_new_rule:
  "clash (new_rule sip sp dip dp ss ds sany dany act i) = rule_clashes sip sp dip dp ss ds sany dany"
  by (rule ext) (simp add: clash_def new_rule_def rule_clashes_def)

lemma add_rule_clash:
  assumes "rt_size (rule_table st) < rules_capacity st"
    "find_index (rule_clashes sip sp dip dp ss ds sany dany) (active_rules st) = Some i"
  shows "fw_filter_add_rule st sip sp dip dp ss ds sany dany act =
    Some (if act = fr_action (active_rules st ! i) then FILTER_ERR_DUPLICATE else FILTER_ERR_CLASH, None, st)"
  using assms by (simp add: fw_filter_add_rule_def not_le)

text \<open>The state after a successful addition.\<close>

definition added :: "fw_filter_state \<Rightarrow> fw_rule \<Rightarrow> fw_filter_state" where
  "added st r = st
     \<lparr>rule_table := \<lparr>rt_size = rt_size (rule_table st) + 1,
        rt_rules = (rt_rules (rule_table st))[unat (rt_size (rule_table st)) := r]\<rparr>,
      rule_id_bitmap := (set_id (rule_id_bitmap st) (unat (fr_rule_id r)))
        \<lparr>last_allocated_rule_id := fr_rule_id r\<rparr>\<rparr>"

lemma active_added:
  assumes "wf_rules st" "rt_size (rule_table st) < rules_capacity st"
  shows "active_rules (added st r) = active_rules st @ [r]"
  using assms word_step [OF assms(2)]
  by (simp add: active_rules_def added_def wf_rules_def take_Suc_conv_app_nth)

lemma wf_added:
  assumes wf: "wf_rules st" and lt: "rt_size (rule_table st) < rules_capacity st"
    and fresh: "unat (fr_rule_id r) \<notin> set (rule_ids st)" "unat (fr_rule_id r) < unat (rules_capacity st)"
    and ok: "\<forall>x \<in> set (active_rules st). \<not> clash r x"
  shows "wf_rules (added st r)"
proof -
  let ?st = "added st r"
  have act: "active_rules ?st = active_rules st @ [r]" using wf lt by (rule active_added)
  have ids: "rule_ids ?st = rule_ids st @ [unat (fr_rule_id r)]"
    by (simp add: rule_ids_def act)
  have size: "0 < rt_size (rule_table ?st) \<and> rt_size (rule_table ?st) \<le> rules_capacity ?st"
    using word_step [OF lt] by (simp add: added_def word_less_nat_alt word_le_nat_alt)
  have head: "active_rules ?st ! 0 = active_rules st ! 0"
    using active_nonempty [OF wf] by (simp add: act nth_append)
  have bits: "id_allocated (rule_id_bitmap ?st) i \<longleftrightarrow> i \<in> set (rule_ids ?st)"
    if "i < unat (rules_capacity st)" for i
    unfolding ids using that wf id_allocated_set_id [OF id_block [OF wf fresh(2)], of i]
    by (auto simp: added_def wf_rules_def)
  have cap: "rules_capacity ?st = rules_capacity st"
    "length (id_bitmap (rule_id_bitmap ?st)) = length (id_bitmap (rule_id_bitmap st))"
    "length (rt_rules (rule_table ?st)) = length (rt_rules (rule_table st))"
    by (simp_all add: added_def)
  have d: "distinct (rule_ids ?st)" "\<forall>i \<in> set (rule_ids ?st). i < unat (rules_capacity st)"
    using wf fresh by (auto simp: ids wf_rules_def)
  have so: "sorted_wrt (\<lambda>r n. \<not> clash n r) (active_rules ?st)"
    using wf ok by (auto simp: act sorted_wrt_append wf_rules_def)
  have rest: "length (rt_rules (rule_table st)) = unat (rules_capacity st)"
    "unat (rules_capacity st) \<le> 64 * length (id_bitmap (rule_id_bitmap st))"
    "default_rule (active_rules st ! 0)"
    using wf by (simp_all add: wf_rules_def)
  show ?thesis
    unfolding wf_rules_def cap head using size bits d so rest by (simp add: cap)
qed

lemma add_rule_ok:
  assumes wf: "wf_rules st" and lt: "rt_size (rule_table st) < rules_capacity st"
    and none: "find_index (rule_clashes sip sp dip dp ss ds sany dany) (active_rules st) = None"
  shows "\<exists>i. fw_filter_add_rule st sip sp dip dp ss ds sany dany act =
      Some (FILTER_ERR_OKAY, Some i, added st (new_rule sip sp dip dp ss ds sany dany act i)) \<and>
    0 < i \<and> i < rules_capacity st \<and> unat i \<notin> set (rule_ids st)"
proof -
  obtain k where k: "rules_reserve_id st = Some (FILTER_ERR_OKAY, Some (of_nat k),
       st\<lparr>rule_id_bitmap := (set_id (rule_id_bitmap st) k)\<lparr>last_allocated_rule_id := of_nat k\<rparr>\<rparr>)"
    "0 < k" "k < unat (rules_capacity st)" "k \<notin> set (rule_ids st)"
    using rules_reserve_id_ok [OF wf lt] by blast
  have "k < 2 ^ LENGTH(16)" using k(3) unsigned_less [of "rules_capacity st", where ?'a = nat] by simp
  then have u: "unat (of_nat k :: u16) = k" by (simp add: unat_of_nat take_bit_nat_eq_self)
  have "fw_filter_add_rule st sip sp dip dp ss ds sany dany act =
      Some (FILTER_ERR_OKAY, Some (of_nat k), added st (new_rule sip sp dip dp ss ds sany dany act (of_nat k)))"
    using k(1) none lt u
    by (simp add: fw_filter_add_rule_def not_le Let_def added_def fill_slot)
  moreover have "0 < (of_nat k :: u16)" "(of_nat k :: u16) < rules_capacity st"
    using k(2,3) u by (simp_all add: word_less_nat_alt)
  ultimately show ?thesis using k(4) u by (intro exI [of _ "of_nat k"]) simp
qed

text \<open>At most one rule of the table clashes with a new one.\<close>

lemma clashing_unique:
  assumes "wf_rules st" "r \<in> set (active_rules st)" "rule_clashes sip sp dip dp ss ds sany dany r"
    "n \<in> set (active_rules st)" "rule_clashes sip sp dip dp ss ds sany dany n"
  shows "r = n"
proof -
  have so: "sorted_wrt (\<lambda>r n. \<not> clash n r) (active_rules st)" using assms(1) by (simp add: wf_rules_def)
  have c: "clash n r" "clash r n"
    using assms(3,5) by (auto simp: clash_def rule_clashes_def)
  obtain i j where ij: "i < length (active_rules st)" "r = active_rules st ! i"
      "j < length (active_rules st)" "n = active_rules st ! j"
    using assms(2,4) by (auto simp: in_set_conv_nth)
  have "\<not> i < j" "\<not> j < i" using sorted_wrt_nth_less [OF so] ij c by blast+
  then show ?thesis using ij by (simp add: not_less_iff_gr_or_eq)
qed

text \<open>The three outcomes together.\<close>

lemma add_rule_cases:
  assumes wf: "wf_rules st"
  shows "\<exists>err rid st'. fw_filter_add_rule st sip sp dip dp ss ds sany dany act = Some (err, rid, st') \<and>
    wf_rules st' \<and>
    (if rt_size (rule_table st) = rules_capacity st then err = FILTER_ERR_FULL \<and> st' = st
     else if \<exists>r \<in> set (active_rules st). rule_clashes sip sp dip dp ss ds sany dany r
     then err = (if \<exists>r \<in> set (active_rules st). rule_clashes sip sp dip dp ss ds sany dany r \<and>
         fr_action r = act then FILTER_ERR_DUPLICATE else FILTER_ERR_CLASH) \<and> st' = st
     else err = FILTER_ERR_OKAY \<and>
       (\<exists>i. rid = Some i \<and> 0 < i \<and> i < rules_capacity st \<and> unat i \<notin> set (rule_ids st) \<and>
         active_rules st' = active_rules st @ [new_rule sip sp dip dp ss ds sany dany act i] \<and>
         internal_instances_table st' = internal_instances_table st))"
proof (cases "rt_size (rule_table st) = rules_capacity st")
  case True
  with wf show ?thesis by (simp add: fw_filter_add_rule_def)
next
  case False
  then have lt: "rt_size (rule_table st) < rules_capacity st"
    using wf unfolding wf_rules_def order_less_le by blast
  show ?thesis
  proof (cases "find_index (rule_clashes sip sp dip dp ss ds sany dany) (active_rules st)")
    case None
    obtain i where i: "fw_filter_add_rule st sip sp dip dp ss ds sany dany act =
        Some (FILTER_ERR_OKAY, Some i, added st (new_rule sip sp dip dp ss ds sany dany act i))"
      "0 < i" "i < rules_capacity st" "unat i \<notin> set (rule_ids st)"
      using add_rule_ok [OF wf lt None] by blast
    let ?r = "new_rule sip sp dip dp ss ds sany dany act i"
    have nc: "\<forall>x \<in> set (active_rules st). \<not> clash ?r x"
      using None by (simp add: clash_new_rule find_index_None_iff)
    have "wf_rules (added st ?r)"
      by (rule wf_added [OF wf lt]) (use i nc in \<open>auto simp: word_less_nat_alt\<close>)
    moreover have "internal_instances_table (added st ?r) = internal_instances_table st"
      by (simp add: added_def)
    ultimately show ?thesis
      using i False None active_added [OF wf lt, of ?r] by (simp add: find_index_None_iff)
  next
    case (Some k)
    let ?c = "rule_clashes sip sp dip dp ss ds sany dany" and ?r = "active_rules st ! k"
    have r: "?r \<in> set (active_rules st)" "?c ?r"
      using find_index_less [OF Some] find_index_holds [OF Some] by auto
    then have "(\<exists>r \<in> set (active_rules st). ?c r \<and> fr_action r = act) \<longleftrightarrow> act = fr_action ?r"
      using clashing_unique [OF wf] by blast
    with add_rule_clash [OF lt Some, of act] r False wf show ?thesis by auto
  qed
qed

subsection \<open>Removing instances\<close>

lemma mset_swap_with_last:
  assumes "i < length ys"
  shows "mset (butlast (ys[i := last ys])) = mset ys - {#ys ! i#}"
proof -
  have ne: "ys[i := last ys] \<noteq> []" using assms by auto
  have "last (ys[i := last ys]) = last ys"
    using assms ne by (simp add: last_conv_nth nth_list_update)
  then have "ys[i := last ys] = butlast (ys[i := last ys]) @ [last ys]"
    using append_butlast_last_id [OF ne] by simp
  then have "add_mset (last ys) (mset (butlast (ys[i := last ys]))) = mset (ys[i := last ys])"
    by (metis add_mset_add_single mset.simps mset_append union_code)
  also have "\<dots> = add_mset (last ys) (mset ys - {#ys ! i#})"
    using assms by (rule mset_update)
  finally show ?thesis by simp
qed

lemma remove_instances_loop_spec:
  assumes "i \<le> it_size tbl" "unat (it_size tbl) \<le> length (it_instances tbl)"
    "\<And>k. k < unat i \<Longrightarrow> fi_rule_id (it_instances tbl ! k) \<noteq> r"
  shows "mset (active_instances (remove_instances_loop r i tbl)) =
      filter_mset (\<lambda>x. fi_rule_id x \<noteq> r) (mset (active_instances tbl)) \<and>
    length (it_instances (remove_instances_loop r i tbl)) = length (it_instances tbl) \<and>
    it_size (remove_instances_loop r i tbl) \<le> it_size tbl"
  using assms
proof (induction r i tbl rule: remove_instances_loop.induct)
  case (1 r i tbl)
  let ?n = "unat (it_size tbl)" and ?xs = "it_instances tbl"
  note unfold = remove_instances_loop.simps [of r i tbl]
  show ?case
  proof (cases "i < it_size tbl")
    case False
    then have "i = it_size tbl" using "1.prems"(1) by simp
    then have "fi_rule_id (?xs ! k) \<noteq> r" if "k < ?n" for k using that "1.prems"(3) by simp
    moreover have "\<exists>k < ?n. x = ?xs ! k" if "x \<in> set (active_instances tbl)" for x
      using that by (auto simp: active_instances_def in_set_conv_nth)
    ultimately have "\<forall>x \<in> set (active_instances tbl). fi_rule_id x \<noteq> r" by blast
    then have "filter_mset (\<lambda>x. fi_rule_id x \<noteq> r) (mset (active_instances tbl)) = mset (active_instances tbl)"
      by (simp add: filter_mset_eq_conv)
    with False show ?thesis by (simp add: unfold)
  next
    case True
    note st = word_step [OF True]
    show ?thesis
    proof (cases "r \<noteq> fi_rule_id (?xs ! unat i)")
      case ne: True
      have le: "i + 1 \<le> it_size tbl" using st by (simp add: word_le_nat_alt)
      have pre: "fi_rule_id (?xs ! k) \<noteq> r" if "k < unat (i + 1)" for k
        using that "1.prems"(3) ne st(1) by (cases "k = unat i") auto
      show ?thesis
        using "1.IH"(1) [OF True ne le "1.prems"(2)] pre True ne unfold by simp
    next
      case eq: False
      let ?t = "\<lparr>it_size = it_size tbl - 1, it_instances = ?xs[unat i := ?xs ! (?n - 1)]\<rparr>"
      have le: "i \<le> it_size ?t" "unat (it_size ?t) \<le> length (it_instances ?t)"
        using st "1.prems"(2) by (simp_all add: word_le_nat_alt)
      have pre: "fi_rule_id (it_instances ?t ! k) \<noteq> r" if "k < unat i" for k
        using that "1.prems"(3) [OF that] by simp
      have ih: "mset (active_instances (remove_instances_loop r i ?t)) =
          filter_mset (\<lambda>x. fi_rule_id x \<noteq> r) (mset (active_instances ?t)) \<and>
        length (it_instances (remove_instances_loop r i ?t)) = length ?xs \<and>
        it_size (remove_instances_loop r i ?t) \<le> it_size tbl - 1"
        using "1.IH"(2) [OF True eq le pre] by simp
      let ?ys = "take ?n ?xs"
      have len: "length ?ys = ?n" using "1.prems"(2) by simp
      then have last: "last ?ys = ?xs ! (?n - 1)"
        using st(3) by (subst last_conv_nth) auto
      have "active_instances ?t = butlast (?ys[unat i := last ?ys])"
        using st "1.prems"(2) last
        by (simp add: active_instances_def butlast_conv_take min_def take_update_swap)
      then have "mset (active_instances ?t) = mset ?ys - {#?xs ! unat i#}"
        using mset_swap_with_last [of "unat i" ?ys] st(3) len by simp
      moreover have "filter_mset (\<lambda>x. fi_rule_id x \<noteq> r) (mset ?ys - {#?xs ! unat i#}) =
          filter_mset (\<lambda>x. fi_rule_id x \<noteq> r) (mset ?ys)"
        using eq by simp
      ultimately have fm: "filter_mset (\<lambda>x. fi_rule_id x \<noteq> r) (mset (active_instances ?t)) =
          filter_mset (\<lambda>x. fi_rule_id x \<noteq> r) (mset (active_instances tbl))"
        by (simp add: active_instances_def)
      have "it_size tbl - 1 \<le> it_size tbl" using st by (simp add: word_le_nat_alt)
      with ih fm True eq unfold show ?thesis by auto
    qed
  qed
qed

lemma remove_instances_spec:
  assumes "wf_instances st"
  shows "mset (active_instances (remove_instances_loop r 0 (internal_instances_table st))) =
      filter_mset (\<lambda>x. fi_rule_id x \<noteq> r) (mset (active_instances (internal_instances_table st)))"
    "wf_instances (st\<lparr>internal_instances_table := remove_instances_loop r 0 (internal_instances_table st)\<rparr>)"
proof -
  let ?t = "internal_instances_table st"
  have sz: "unat (it_size ?t) \<le> length (it_instances ?t)"
    using assms by (simp add: wf_instances_def word_le_nat_alt)
  have spec: "mset (active_instances (remove_instances_loop r 0 ?t)) =
      filter_mset (\<lambda>x. fi_rule_id x \<noteq> r) (mset (active_instances ?t)) \<and>
    length (it_instances (remove_instances_loop r 0 ?t)) = length (it_instances ?t) \<and>
    it_size (remove_instances_loop r 0 ?t) \<le> it_size ?t"
    by (rule remove_instances_loop_spec [OF _ sz]) simp_all
  show m: "mset (active_instances (remove_instances_loop r 0 ?t)) =
      filter_mset (\<lambda>x. fi_rule_id x \<noteq> r) (mset (active_instances ?t))"
    using spec by blast
  have "distinct (active_instances ?t)" using assms by (simp add: wf_instances_def)
  then have "distinct (filter (\<lambda>x. fi_rule_id x \<noteq> r) (active_instances ?t))" by simp
  moreover have "mset (active_instances (remove_instances_loop r 0 ?t)) =
      mset (filter (\<lambda>x. fi_rule_id x \<noteq> r) (active_instances ?t))" using m by simp
  ultimately have "distinct (active_instances (remove_instances_loop r 0 ?t))"
    by (metis mset_eq_imp_distinct_iff)
  moreover have "it_size (remove_instances_loop r 0 ?t) \<le> instances_capacity st"
    using spec assms unfolding wf_instances_def by (meson order_trans)
  moreover have "length (it_instances (remove_instances_loop r 0 ?t)) = unat (instances_capacity st)"
    using spec assms by (simp only: wf_instances_def)
  ultimately show "wf_instances (st\<lparr>internal_instances_table := remove_instances_loop r 0 ?t\<rparr>)"
    by (simp add: wf_instances_def)
qed

subsection \<open>Removing a rule\<close>

lemma free_id_cases:
  assumes "wf_rules st"
  shows "rules_free_id st rid =
    (if rid = 0 \<or> unat rid \<notin> set (rule_ids st) then (FILTER_ERR_INVALID_RULE_ID, st)
     else (FILTER_ERR_OKAY, st\<lparr>rule_id_bitmap := clear_id (rule_id_bitmap st) (unat rid)\<rparr>))"
proof -
  have "unat rid \<in> set (rule_ids st) \<Longrightarrow> unat rid < unat (rules_capacity st)"
    and "unat rid < unat (rules_capacity st) \<Longrightarrow>
      id_allocated (rule_id_bitmap st) (unat rid) \<longleftrightarrow> unat rid \<in> set (rule_ids st)"
    using assms by (auto simp: wf_rules_def)
  then show ?thesis
    by (auto simp: rules_free_id_def filter_consts word_le_nat_alt)
qed

text \<open>Position of the rule with an allocated identifier.\<close>

lemma rule_position:
  assumes wf: "wf_rules st" and rid: "rid \<noteq> 0" "unat rid \<in> set (rule_ids st)"
  obtains k where
    "find_index (\<lambda>r. fr_rule_id r = rid) (drop 1 (active_rules st)) = Some k"
    "Suc k < length (active_rules st)" "fr_rule_id (active_rules st ! Suc k) = rid"
proof -
  obtain j where j: "j < length (active_rules st)" "fr_rule_id (active_rules st ! j) = rid"
    using rid(2) by (auto simp: rule_ids_def in_set_conv_nth simp flip: word_unat_eq_iff)
  have "fr_rule_id (active_rules st ! 0) = 0" using wf by (simp add: wf_rules_def default_rule_def)
  then obtain m where m: "j = Suc m" using j(2) rid(1) by (cases j) auto
  then have "drop 1 (active_rules st) ! m \<in> set (drop 1 (active_rules st))"
    using j(1) by (intro nth_mem) simp
  moreover have "fr_rule_id (drop 1 (active_rules st) ! m) = rid" using j m by simp
  ultimately obtain k where k: "find_index (\<lambda>r. fr_rule_id r = rid) (drop 1 (active_rules st)) = Some k"
    using find_index_Some_ex [of "\<lambda>r. fr_rule_id r = rid" "drop 1 (active_rules st)"] by blast
  show ?thesis
    using that [OF k] find_index_less [OF k] find_index_holds [OF k] by simp
qed

definition removed :: "fw_filter_state \<Rightarrow> u16 \<Rightarrow> nat \<Rightarrow> fw_instances_table \<Rightarrow> fw_filter_state" where
  "removed st rid i insts = st
     \<lparr>rule_id_bitmap := clear_id (rule_id_bitmap st) (unat rid),
      internal_instances_table := insts,
      rule_table := \<lparr>rt_size = rt_size (rule_table st) - 1,
        rt_rules = entry_shift (rt_rules (rule_table st)) (unat (rt_size (rule_table st))) i\<rparr>\<rparr>"

lemma remove_rule_found:
  assumes wf: "wf_rules st" and rid: "rid \<noteq> 0" "unat rid \<in> set (rule_ids st)"
    and k: "find_index (\<lambda>r. fr_rule_id r = rid) (drop 1 (active_rules st)) = Some k"
  shows "fw_filter_remove_rule st rid = Some (FILTER_ERR_OKAY, removed st rid (Suc k)
     (if fr_action (rt_rules (rule_table st) ! Suc k) = FILTER_ACT_CONNECT
      then remove_instances_loop rid 0 (internal_instances_table st) else internal_instances_table st))"
proof -
  let ?st1 = "st\<lparr>rule_id_bitmap := clear_id (rule_id_bitmap st) (unat rid)\<rparr>"
  have "rules_free_id st rid = (FILTER_ERR_OKAY, ?st1)"
    using rid by (simp add: free_id_cases [OF wf])
  moreover have "active_rules ?st1 = active_rules st" by (simp add: active_rules_def)
  ultimately show ?thesis using k
    by (simp add: fw_filter_remove_rule_def filter_consts Let_def fw_filter_remove_instances_def removed_def)
qed

lemma active_removed:
  assumes wf: "wf_rules st" and i: "0 < i" "i < length (active_rules st)"
  shows "active_rules (removed st rid i insts) = remove_nth i (active_rules st)"
proof -
  let ?n = "unat (rt_size (rule_table st))" and ?xs = "rt_rules (rule_table st)"
  have n: "i < ?n" "?n \<le> length ?xs" using i wf by (simp_all add: wf_rules_def word_le_nat_alt)
  have "0 < rt_size (rule_table st)" using wf by (simp add: wf_rules_def)
  then have "unat (rt_size (rule_table st) - 1) = ?n - 1" by (rule word_step(2))
  then show ?thesis
    using take_entry_shift [OF n] by (simp add: active_rules_def removed_def)
qed

lemma wf_removed:
  assumes wf: "wf_rules st" and i: "0 < i" "i < length (active_rules st)"
    and rid: "fr_rule_id (active_rules st ! i) = rid"
  shows "wf_rules (removed st rid i insts)"
proof -
  let ?st = "removed st rid i insts"
  have act: "active_rules ?st = remove_nth i (active_rules st)" using wf i by (rule active_removed)
  have ids: "rule_ids ?st = remove_nth i (rule_ids st)"
    by (simp add: rule_ids_def act map_remove_nth)
  have d: "distinct (rule_ids st)" using wf by (simp add: wf_rules_def)
  have li: "i < length (rule_ids st)" using i by (simp add: rule_ids_def)
  have rid_i: "rule_ids st ! i = unat rid" using i(2) rid by (simp add: rule_ids_def)
  have set_ids: "set (rule_ids ?st) = set (rule_ids st) - {unat rid}"
    using set_remove_nth_distinct [OF d li] rid_i by (simp add: ids)
  have mem: "unat rid \<in> set (rule_ids st)" using nth_mem [OF li] rid_i by simp
  then have lt: "unat rid < unat (rules_capacity st)" using wf by (auto simp: wf_rules_def)
  have pos: "0 < rt_size (rule_table st)" using wf by (simp add: wf_rules_def)
  have n: "i < unat (rt_size (rule_table st))"
    "unat (rt_size (rule_table st)) \<le> length (rt_rules (rule_table st))"
    using i wf by (simp_all add: wf_rules_def word_le_nat_alt)
  have sz: "rt_size (rule_table ?st) = rt_size (rule_table st) - 1" by (simp add: removed_def)
  have "0 < unat (rt_size (rule_table ?st))"
    using word_step(2) [OF pos] n(1) i(1) unfolding sz by linarith
  then have size1: "0 < rt_size (rule_table ?st)" by (simp add: word_less_nat_alt)
  have "rt_size (rule_table st) \<le> rules_capacity st" using wf by (simp add: wf_rules_def)
  then have "unat (rt_size (rule_table ?st)) \<le> unat (rules_capacity st)"
    using word_step(2) [OF pos] unfolding sz word_le_nat_alt by linarith
  then have size2: "rt_size (rule_table ?st) \<le> rules_capacity ?st"
    by (simp add: word_le_nat_alt removed_def)
  have cap: "rules_capacity ?st = rules_capacity st"
    "length (id_bitmap (rule_id_bitmap ?st)) = length (id_bitmap (rule_id_bitmap st))"
    "length (rt_rules (rule_table ?st)) = length (rt_rules (rule_table st))"
    using n by (simp_all add: removed_def)
  have bits: "id_allocated (rule_id_bitmap ?st) j \<longleftrightarrow> j \<in> set (rule_ids ?st)"
    if "j < unat (rules_capacity st)" for j
    unfolding set_ids using that wf id_allocated_clear_id [OF id_block [OF wf lt], of j]
    by (auto simp: removed_def wf_rules_def)
  have head: "active_rules ?st ! 0 = active_rules st ! 0"
    using active_nonempty [OF wf] i(1) by (simp add: act nth_0_remove_nth)
  have so: "sorted_wrt (\<lambda>r n. \<not> clash n r) (active_rules ?st)"
    using wf by (simp add: act sorted_wrt_remove_nth wf_rules_def)
  have d': "distinct (rule_ids ?st)" using d by (simp add: ids distinct_remove_nth)
  have rest: "length (rt_rules (rule_table st)) = unat (rules_capacity st)"
    "unat (rules_capacity st) \<le> 64 * length (id_bitmap (rule_id_bitmap st))"
    "default_rule (active_rules st ! 0)" "\<forall>j \<in> set (rule_ids ?st). j < unat (rules_capacity st)"
    using wf by (auto simp: wf_rules_def set_ids)
  show ?thesis
    unfolding wf_rules_def cap head using size1 size2 bits d' so rest unfolding cap by simp
qed

lemma remove_rule_cases:
  assumes wf: "wf_rules st" and wfi: "wf_instances st"
  shows "\<exists>err st'. fw_filter_remove_rule st rid = Some (err, st') \<and> wf_rules st' \<and> wf_instances st' \<and>
    (if rid = 0 \<or> unat rid \<notin> set (rule_ids st)
     then err = FILTER_ERR_INVALID_RULE_ID \<and> st' = st
     else err = FILTER_ERR_OKAY \<and>
       active_rules st' = filter (\<lambda>r. fr_rule_id r \<noteq> rid) (active_rules st) \<and>
       mset (active_instances (internal_instances_table st')) =
         (if \<exists>r \<in> set (active_rules st). fr_rule_id r = rid \<and> fr_action r = FILTER_ACT_CONNECT
          then filter_mset (\<lambda>x. fi_rule_id x \<noteq> rid) (mset (active_instances (internal_instances_table st)))
          else mset (active_instances (internal_instances_table st))))"
proof (cases "rid = 0 \<or> unat rid \<notin> set (rule_ids st)")
  case True
  then show ?thesis using wf wfi
    by (auto simp: fw_filter_remove_rule_def free_id_cases [OF wf])
next
  case False
  then have rid: "rid \<noteq> 0" "unat rid \<in> set (rule_ids st)" by auto
  obtain k where k: "find_index (\<lambda>r. fr_rule_id r = rid) (drop 1 (active_rules st)) = Some k"
    "Suc k < length (active_rules st)" "fr_rule_id (active_rules st ! Suc k) = rid"
    using rule_position [OF wf rid] .
  let ?r = "active_rules st ! Suc k"
  have eq: "rt_rules (rule_table st) ! Suc k = ?r"
    using k(2) by (simp add: active_rules_def)
  have dm: "distinct (map fr_rule_id (active_rules st))"
  proof (rule distinct_map [THEN iffD2], intro conjI)
    have "distinct (map unat (map fr_rule_id (active_rules st)))"
      using wf by (simp add: wf_rules_def rule_ids_def comp_def)
    then show "distinct (active_rules st)" "inj_on fr_rule_id (set (active_rules st))"
      by (auto simp: distinct_map inj_on_def)
  qed
  have uniq: "(\<exists>r \<in> set (active_rules st). fr_rule_id r = rid \<and> fr_action r = FILTER_ACT_CONNECT) \<longleftrightarrow>
      fr_action ?r = FILTER_ACT_CONNECT"
    using dm k(2,3) nth_mem [OF k(2)] by (metis distinct_map inj_onD)
  let ?insts = "if fr_action ?r = FILTER_ACT_CONNECT
      then remove_instances_loop rid 0 (internal_instances_table st) else internal_instances_table st"
  let ?st = "removed st rid (Suc k) ?insts"
  have res: "fw_filter_remove_rule st rid = Some (FILTER_ERR_OKAY, ?st)"
    using remove_rule_found [OF wf rid k(1)] by (simp only: eq)
  have w: "wf_rules ?st" using wf k(2,3) by (intro wf_removed) auto
  have act: "active_rules ?st = filter (\<lambda>r. fr_rule_id r \<noteq> rid) (active_rules st)"
    using active_removed [OF wf _ k(2)] remove_nth_filter [OF k(2) dm] k(3) by simp
  have insts: "internal_instances_table ?st = ?insts" by (simp add: removed_def)
  have wi: "wf_instances ?st"
    using wfi remove_instances_spec(2) [OF wfi, of rid] by (simp add: wf_instances_def removed_def)
  have "mset (active_instances (internal_instances_table ?st)) =
      (if fr_action ?r = FILTER_ACT_CONNECT
       then filter_mset (\<lambda>x. fi_rule_id x \<noteq> rid) (mset (active_instances (internal_instances_table st)))
       else mset (active_instances (internal_instances_table st)))"
    using remove_instances_spec(1) [OF wfi, of rid] by (simp only: insts split: if_splits) simp
  then show ?thesis
    unfolding uniq if_not_P [OF False] using res w act wi by blast
qed

subsection \<open>The default action\<close>

definition with_default_action :: "fw_filter_state \<Rightarrow> u8 \<Rightarrow> fw_filter_state" where
  "with_default_action st act = st\<lparr>rule_table := (rule_table st)
     \<lparr>rt_rules := (rt_rules (rule_table st))[0 := (rt_rules (rule_table st) ! 0)\<lparr>fr_action := act\<rparr>]\<rparr>\<rparr>"

lemma active_default_action:
  assumes "wf_rules st"
  shows "active_rules (with_default_action st act) =
    (active_rules st ! 0)\<lparr>fr_action := act\<rparr> # drop 1 (active_rules st)"
proof -
  let ?r = "(active_rules st ! 0)\<lparr>fr_action := act\<rparr>"
  have "active_rules (with_default_action st act) = (active_rules st)[0 := ?r]"
    unfolding active_0 [OF assms]
    by (simp add: active_rules_def with_default_action_def take_update_swap)
  also have "\<dots> = ?r # drop 1 (active_rules st)"
    using active_nonempty [OF assms] by (cases "active_rules st") auto
  finally show ?thesis .
qed

lemma clash_action [simp]:
  "clash (r\<lparr>fr_action := a\<rparr>) n = clash r n" "clash r (n\<lparr>fr_action := a\<rparr>) = clash r n"
  by (simp_all add: clash_def rule_clashes_def)

lemma wf_default_action:
  assumes "wf_rules st"
  shows "wf_rules (with_default_action st act)"
proof -
  let ?st = "with_default_action st act"
  have act: "active_rules ?st = (active_rules st ! 0)\<lparr>fr_action := act\<rparr> # drop 1 (active_rules st)"
    using assms by (rule active_default_action)
  have split: "active_rules st = active_rules st ! 0 # drop 1 (active_rules st)"
    using active_nonempty [OF assms] by (cases "active_rules st") auto
  have ids: "rule_ids ?st = rule_ids st"
    unfolding rule_ids_def act by (subst (3) split) simp
  have same: "rt_size (rule_table ?st) = rt_size (rule_table st)"
    "rules_capacity ?st = rules_capacity st" "rule_id_bitmap ?st = rule_id_bitmap st"
    "length (rt_rules (rule_table ?st)) = length (rt_rules (rule_table st))"
    by (simp_all add: with_default_action_def)
  have "sorted_wrt (\<lambda>r n. \<not> clash n r) (active_rules st)" using assms by (simp add: wf_rules_def)
  then have so: "sorted_wrt (\<lambda>r n. \<not> clash n r) (active_rules ?st)"
    unfolding act by (subst (asm) split) simp
  have "default_rule (active_rules ?st ! 0)"
    using assms by (simp add: act wf_rules_def default_rule_def)
  then show ?thesis
    using assms so unfolding wf_rules_def ids same by blast
qed

lemma byte_of_enum: "ucast (ucast (x :: u8) :: u32) = x"
  by (rule bit_word_eqI) (auto simp: bit_simps dest: bit_imp_le_length)

lemma update_default_spec:
  assumes wf: "wf_rules st" and wfi: "wf_instances st"
  shows "\<exists>st'. fw_filter_update_default_action st act = Some (FILTER_ERR_OKAY, st') \<and>
    wf_rules st' \<and> wf_instances st' \<and>
    active_rules st' = (active_rules st ! 0)\<lparr>fr_action := ucast act\<rparr> # drop 1 (active_rules st) \<and>
    mset (active_instances (internal_instances_table st')) =
      (if fr_action (active_rules st ! 0) = FILTER_ACT_CONNECT \<and> act \<noteq> ucast FILTER_ACT_CONNECT
       then filter_mset (\<lambda>x. fi_rule_id x \<noteq> 0) (mset (active_instances (internal_instances_table st)))
       else mset (active_instances (internal_instances_table st)))"
proof -
  let ?old = "fr_action (active_rules st ! 0)"
  let ?st1 = "if ?old = FILTER_ACT_CONNECT
     then st\<lparr>internal_instances_table := remove_instances_loop 0 0 (internal_instances_table st)\<rparr> else st"
  note a0 = active_0 [OF wf]
  show ?thesis
  proof (cases "act = ucast ?old")
    case True
    have "(active_rules st ! 0)\<lparr>fr_action := ?old\<rparr> = active_rules st ! 0" by simp
    moreover have "active_rules st = active_rules st ! 0 # drop 1 (active_rules st)"
      using active_nonempty [OF wf] by (cases "active_rules st") auto
    ultimately have "active_rules st = (active_rules st ! 0)\<lparr>fr_action := ucast act\<rparr> # drop 1 (active_rules st)"
      using True byte_of_enum by metis
    moreover have "fw_filter_update_default_action st act = Some (FILTER_ERR_OKAY, st)"
      using True a0 by (simp add: fw_filter_update_default_action_def filter_consts)
    ultimately show ?thesis using wf wfi True by auto
  next
    case False
    have res: "fw_filter_update_default_action st act = Some (FILTER_ERR_OKAY, with_default_action ?st1 (ucast act))"
      using False a0 by (simp add: fw_filter_update_default_action_def filter_consts Let_def
          fw_filter_remove_instances_def with_default_action_def)
    have act1: "active_rules ?st1 = active_rules st" by (simp add: active_rules_def)
    have wf1: "wf_rules ?st1"
      using wf by (simp add: wf_rules_def active_rules_def rule_ids_def)
    have wi: "wf_instances (with_default_action ?st1 (ucast act))"
      using wfi remove_instances_spec(2) [OF wfi, of 0] by (simp add: wf_instances_def with_default_action_def)
    have ms: "mset (active_instances (internal_instances_table (with_default_action ?st1 (ucast act)))) =
      (if ?old = FILTER_ACT_CONNECT \<and> act \<noteq> ucast FILTER_ACT_CONNECT
       then filter_mset (\<lambda>x. fi_rule_id x \<noteq> 0) (mset (active_instances (internal_instances_table st)))
       else mset (active_instances (internal_instances_table st)))"
      using False remove_instances_spec(1) [OF wfi, of 0] by (auto simp: with_default_action_def)
    show ?thesis
      using res wi ms wf_default_action [OF wf1, of "ucast act"] active_default_action [OF wf1, of "ucast act"]
      unfolding act1 by blast
  qed
qed

subsection \<open>Initialisation\<close>

definition mk_rule :: "fw_rule \<Rightarrow> u16 \<Rightarrow> fw_rule" where
  "mk_rule r i = new_rule (fr_src_ip r) (fr_src_port r) (fr_dst_ip r) (fr_dst_port r)
     (fr_src_subnet r) (fr_dst_subnet r) (fr_src_port_any r) (fr_dst_port_any r) (fr_action r) i"

lemma clash_mk_rule [simp]: "clash (mk_rule r i) = clash r" "clash n (mk_rule r i) = clash n r"
  by (simp_all add: mk_rule_def clash_new_rule fun_eq_iff)
    (simp_all add: clash_def new_rule_def rule_clashes_def)

lemma size_added:
  "rt_size (rule_table st) < rules_capacity st \<Longrightarrow>
     unat (rt_size (rule_table (added st r))) = Suc (unat (rt_size (rule_table st)))"
  by (simp add: added_def word_step)

lemma add_initial_rules_ok:
  assumes "wf_rules st" "unat (rt_size (rule_table st)) + length rs \<le> unat (rules_capacity st)"
    "\<forall>r \<in> set rs. \<forall>x \<in> set (active_rules st). \<not> clash r x" "sorted_wrt (\<lambda>r n. \<not> clash n r) rs"
  shows "\<exists>ids st'. length ids = length rs \<and>
    add_initial_rules st rs = Some (map2 (\<lambda>r i. r\<lparr>fr_rule_id := i\<rparr>) rs ids, st') \<and> wf_rules st' \<and>
    active_rules st' = active_rules st @ map2 mk_rule rs ids \<and>
    internal_instances_table st' = internal_instances_table st \<and> rules_capacity st' = rules_capacity st \<and>
    instances_capacity st' = instances_capacity st"
  using assms
proof (induction rs arbitrary: st)
  case Nil
  then show ?case by auto
next
  case (Cons r rs)
  have lt: "rt_size (rule_table st) < rules_capacity st"
    using Cons.prems(2) by (simp add: word_less_nat_alt)
  have "find_index (clash r) (active_rules st) = None"
    using Cons.prems(3) by (simp add: find_index_None_iff)
  then have none: "find_index (rule_clashes (fr_src_ip r) (fr_src_port r) (fr_dst_ip r) (fr_dst_port r)
     (fr_src_subnet r) (fr_dst_subnet r) (fr_src_port_any r) (fr_dst_port_any r)) (active_rules st) = None"
    by (simp add: clash_def [abs_def])
  obtain i where i: "fw_filter_add_rule st (fr_src_ip r) (fr_src_port r) (fr_dst_ip r) (fr_dst_port r)
      (fr_src_subnet r) (fr_dst_subnet r) (fr_src_port_any r) (fr_dst_port_any r) (fr_action r) =
      Some (FILTER_ERR_OKAY, Some i, added st (mk_rule r i))"
    "i < rules_capacity st" "unat i \<notin> set (rule_ids st)"
    using add_rule_ok [OF Cons.prems(1) lt none] unfolding mk_rule_def by blast
  let ?st = "added st (mk_rule r i)"
  have rid: "fr_rule_id (mk_rule r i) = i" by (simp add: mk_rule_def)
  have wf: "wf_rules ?st"
    by (rule wf_added [OF Cons.prems(1) lt])
      (use i(2,3) Cons.prems(3) in \<open>auto simp: rid word_less_nat_alt\<close>)
  have act: "active_rules ?st = active_rules st @ [mk_rule r i]"
    using Cons.prems(1) lt by (rule active_added)
  have same: "internal_instances_table ?st = internal_instances_table st"
    "rules_capacity ?st = rules_capacity st" "instances_capacity ?st = instances_capacity st"
    by (simp_all add: added_def)
  have "\<exists>ids st'. length ids = length rs \<and>
    add_initial_rules ?st rs = Some (map2 (\<lambda>r i. r\<lparr>fr_rule_id := i\<rparr>) rs ids, st') \<and> wf_rules st' \<and>
    active_rules st' = active_rules ?st @ map2 mk_rule rs ids \<and>
    internal_instances_table st' = internal_instances_table ?st \<and> rules_capacity st' = rules_capacity ?st \<and>
    instances_capacity st' = instances_capacity ?st"
    by (rule Cons.IH [OF wf])
      (use Cons.prems in \<open>auto simp: act size_added [OF lt] same\<close>)
  then obtain ids st' where rest: "length ids = length rs"
    "add_initial_rules ?st rs = Some (map2 (\<lambda>r i. r\<lparr>fr_rule_id := i\<rparr>) rs ids, st')" "wf_rules st'"
    "active_rules st' = active_rules ?st @ map2 mk_rule rs ids"
    "internal_instances_table st' = internal_instances_table ?st" "rules_capacity st' = rules_capacity ?st"
    "instances_capacity st' = instances_capacity ?st"
    by blast
  show ?case
    by (rule exI [of _ "i # ids"], rule exI [of _ st'])
      (use i(1) rest act same in simp)
qed

text \<open>The regions the filter starts on: no rules, no identifier in use, room for the table.\<close>

definition fresh_regions :: "fw_rule_table \<Rightarrow> fw_rule_id_bitmap \<Rightarrow> u16 \<Rightarrow> bool" where
  "fresh_regions tbl bm cap \<longleftrightarrow> rt_size tbl = 0 \<and> 0 < cap \<and> length (rt_rules tbl) = unat cap \<and>
     unat cap \<le> 64 * length (id_bitmap bm) \<and> (\<forall>i < unat cap. \<not> id_allocated bm i)"

definition initial_state :: "fw_rule_table \<Rightarrow> fw_rule_id_bitmap \<Rightarrow> u16 \<Rightarrow> fw_instances_table
    \<Rightarrow> fw_instances_table list \<Rightarrow> u16 \<Rightarrow> fw_rule \<Rightarrow> u8 \<Rightarrow> fw_filter_state" where
  "initial_state tbl bm cap internal external icap dflt n = \<lparr>rule_table = \<lparr>rt_size = rt_size tbl + 1,
       rt_rules = (rt_rules tbl)[0 := dflt]\<rparr>, rules_capacity = cap,
     rule_id_bitmap = (set_id bm 0)\<lparr>last_allocated_rule_id := 0\<rparr>,
     internal_instances_table = internal, external_instances_table = take (unat n) external,
     instances_capacity = icap, num_interfaces = n\<rparr>"

lemma wf_initial_state:
  assumes "fresh_regions tbl bm cap" "default_rule dflt"
  shows "wf_rules (initial_state tbl bm cap internal external icap dflt n) \<and>
    active_rules (initial_state tbl bm cap internal external icap dflt n) = [dflt]"
proof -
  let ?st = "initial_state tbl bm cap internal external icap dflt n"
  have c: "0 < unat cap" using assms(1) by (simp add: fresh_regions_def word_less_nat_alt)
  have ne: "rt_rules tbl \<noteq> []" using c assms(1) by (auto simp: fresh_regions_def)
  have act: "active_rules ?st = [dflt]"
    using assms(1) ne by (cases "rt_rules tbl") (auto simp: initial_state_def active_rules_def fresh_regions_def)
  have ids: "rule_ids ?st = [0]"
    using assms(2) by (simp add: rule_ids_def act default_rule_def)
  have blk: "0 div 64 < length (id_bitmap bm)" using c assms(1) by (auto simp: fresh_regions_def)
  have bits: "id_allocated (rule_id_bitmap ?st) i \<longleftrightarrow> i \<in> set (rule_ids ?st)" if "i < unat cap" for i
    unfolding ids using that assms(1) id_allocated_set_id [OF blk, of i]
    by (auto simp: initial_state_def fresh_regions_def)
  have one: "1 \<le> cap" using c unfolding word_le_nat_alt unat_1 by linarith
  show ?thesis
    using assms c bits one unfolding wf_rules_def act ids
    by (simp add: initial_state_def fresh_regions_def)
qed

lemma filter_init_ok:
  assumes fresh: "fresh_regions tbl bm cap" and dflt: "default_rule dflt"
    and room: "length rules < unat cap" "length rules < 255"
    and ok: "\<forall>r \<in> set rules. \<not> clash r dflt" "sorted_wrt (\<lambda>r n. \<not> clash n r) rules"
  shows "\<exists>ids st. length ids = length rules \<and>
    fw_filter_state_init tbl bm cap internal external icap (dflt # rules) (of_nat (Suc (length rules))) n =
      Some (dflt # map2 (\<lambda>r i. r\<lparr>fr_rule_id := i\<rparr>) rules ids, st) \<and>
    wf_rules st \<and> active_rules st = dflt # map2 mk_rule rules ids \<and>
    internal_instances_table st = internal \<and> instances_capacity st = icap"
proof -
  let ?st = "initial_state tbl bm cap internal external icap dflt n"
  have wf: "wf_rules ?st" and act: "active_rules ?st = [dflt]"
    using wf_initial_state [OF fresh dflt] by auto
  have cnt: "unat (of_nat (Suc (length rules)) :: u8) = Suc (length rules)"
    using room(2) by (simp add: unat_of_nat take_bit_nat_eq_self del: of_nat_Suc)
  then have one: "1 \<le> (of_nat (Suc (length rules)) :: u8)"
    unfolding word_le_nat_alt unat_1 by linarith
  have sz: "unat (rt_size (rule_table ?st)) = 1" "rules_capacity ?st = cap" "internal_instances_table ?st = internal"
    "instances_capacity ?st = icap" using fresh by (simp_all add: initial_state_def fresh_regions_def)
  have "\<exists>ids st'. length ids = length rules \<and>
    add_initial_rules ?st rules = Some (map2 (\<lambda>r i. r\<lparr>fr_rule_id := i\<rparr>) rules ids, st') \<and> wf_rules st' \<and>
    active_rules st' = active_rules ?st @ map2 mk_rule rules ids \<and>
    internal_instances_table st' = internal_instances_table ?st \<and> rules_capacity st' = rules_capacity ?st \<and>
    instances_capacity st' = instances_capacity ?st"
    by (rule add_initial_rules_ok [OF wf]) (use room ok act sz in auto)
  then obtain ids st where st: "length ids = length rules"
    "add_initial_rules ?st rules = Some (map2 (\<lambda>r i. r\<lparr>fr_rule_id := i\<rparr>) rules ids, st)" "wf_rules st"
    "active_rules st = dflt # map2 mk_rule rules ids" "internal_instances_table st = internal"
    "instances_capacity st = icap"
    by (auto simp: act sz)
  have free0: "\<not> id_allocated bm 0" "rt_size tbl = 0"
    using fresh by (auto simp: fresh_regions_def word_less_nat_alt)
  have d: "fr_src_subnet dflt = 0" "fr_src_port_any dflt" "fr_dst_subnet dflt = 0"
    "fr_dst_port_any dflt" "fr_rule_id dflt = 0"
    using dflt by (simp_all add: default_rule_def)
  have "fw_filter_state_init tbl bm cap internal external icap (dflt # rules)
      (of_nat (Suc (length rules))) n = Some (dflt # map2 (\<lambda>r i. r\<lparr>fr_rule_id := i\<rparr>) rules ids, st)"
    using st(2) free0 d one
    by (simp add: fw_filter_state_init_def filter_consts cnt Let_def initial_state_def del: of_nat_Suc)
  with st show ?thesis by blast
qed

subsection \<open>Classification\<close>

text \<open>How specific a rule is: longest source subnet, then longest destination subnet, then a given
  source port, then a given destination port, compared lexicographically.\<close>

definition specificity :: "fw_rule \<Rightarrow> nat \<times> nat \<times> nat \<times> nat" where
  "specificity r = (unat (fr_src_subnet r), unat (fr_dst_subnet r),
     if fr_src_port_any r then 0 else 1, if fr_dst_port_any r then 0 else 1)"

lemma stronger_match_iff: "stronger_match r m \<longleftrightarrow> specificity m < specificity r"
  by (auto simp: stronger_match_def specificity_def word_less_nat_alt less_prod_def
      simp flip: word_unat_eq_iff)

lemma best_match_spec:
  "best_match sip sp dip dp m rs \<in> insert m {r \<in> set rs. rule_matches sip sp dip dp r} \<and>
   (\<forall>r \<in> insert m {r \<in> set rs. rule_matches sip sp dip dp r}.
      specificity r \<le> specificity (best_match sip sp dip dp m rs))"
proof (induction rs arbitrary: m)
  case Nil
  then show ?case by simp
next
  case (Cons r rs)
  show ?case
  proof (cases "rule_matches sip sp dip dp r \<and> stronger_match r m")
    case True
    then have "specificity m < specificity r" by (simp add: stronger_match_iff)
    with True Cons.IH [of r] show ?thesis by fastforce
  next
    case False
    then have "rule_matches sip sp dip dp r \<Longrightarrow> specificity r \<le> specificity m"
      by (simp add: stronger_match_iff)
    with False Cons.IH [of m] show ?thesis by (auto intro: order_trans)
  qed
qed

lemma default_matches: "default_rule r \<Longrightarrow> rule_matches sip sp dip dp r"
  by (simp add: default_rule_def rule_matches_def)

text \<open>Two rules that match one packet and are equally specific clash, once the port of a rule that
  applies to any port is fixed.\<close>

definition normal_ports :: "fw_rule \<Rightarrow> bool" where
  "normal_ports r \<longleftrightarrow> (fr_src_port_any r \<longrightarrow> fr_src_port r = 0) \<and> (fr_dst_port_any r \<longrightarrow> fr_dst_port r = 0)"

lemma ambiguous_clash:
  assumes "rule_matches sip sp dip dp r" "rule_matches sip sp dip dp n"
    "specificity r = specificity n" "normal_ports r" "normal_ports n"
  shows "clash n r"
  using assms
  by (auto simp: rule_matches_def specificity_def normal_ports_def clash_def rule_clashes_def
      simp flip: word_unat_eq_iff split: if_splits)

lemma best_unique:
  assumes wf: "wf_rules st" and np: "\<forall>r \<in> set (active_rules st). normal_ports r"
    and r: "r \<in> set (active_rules st)" "rule_matches sip sp dip dp r"
    and n: "n \<in> set (active_rules st)" "rule_matches sip sp dip dp n"
    and eq: "specificity r = specificity n"
  shows "r = n"
proof -
  have "clash n r" "clash n n"
    using ambiguous_clash [of sip sp dip dp] r n eq np by auto
  then show ?thesis using clashing_unique [OF wf r(1) _ n(1)] unfolding clash_def by blast
qed

lemma find_action_rule:
  assumes wf: "wf_rules st"
    and none: "\<forall>tbl \<in> set (take (unat (num_interfaces st)) (external_instances_table st)).
      \<forall>i \<in> set (active_instances tbl). \<not> is_return_traffic sip sp dip dp i"
  shows "\<exists>m \<in> set (active_rules st). fw_filter_find_action st sip sp dip dp = (fr_action m, fr_rule_id m) \<and>
    rule_matches sip sp dip dp m \<and>
    (\<forall>r \<in> set (active_rules st). rule_matches sip sp dip dp r \<longrightarrow> specificity r \<le> specificity m)"
proof -
  let ?a = "active_rules st"
  let ?m = "best_match sip sp dip dp (?a ! 0) (drop 1 ?a)"
  have split: "?a = ?a ! 0 # drop 1 ?a" using active_nonempty [OF wf] by (cases ?a) auto
  have sets: "set ?a = insert (?a ! 0) (set (drop 1 ?a))" by (subst split) (simp only: list.set)
  have "default_rule (?a ! 0)" using wf by (simp add: wf_rules_def)
  then have d: "rule_matches sip sp dip dp (?a ! 0)" by (rule default_matches)
  have "find (is_return_traffic sip sp dip dp)
      (concat (map active_instances (take (unat (num_interfaces st)) (external_instances_table st)))) = None"
    using none by (auto simp: find_None_iff)
  then have res: "fw_filter_find_action st sip sp dip dp = (fr_action ?m, fr_rule_id ?m)"
    by (simp add: fw_filter_find_action_def filter_consts Let_def active_0 [OF wf])
  have cands: "insert (?a ! 0) {r \<in> set (drop 1 ?a). rule_matches sip sp dip dp r} =
      {r \<in> set ?a. rule_matches sip sp dip dp r}"
    unfolding sets using d by auto
  from best_match_spec [of sip sp dip dp "?a ! 0" "drop 1 ?a"] res show ?thesis
    unfolding cands by blast
qed

subsection \<open>The rule table in memory\<close>

text \<open>The bytes of a rule as a C compiler lays the struct out: 24 bytes, three of padding behind
  the action and two at the end.\<close>

definition fw_rule_bytes :: "fw_rule \<Rightarrow> u8 list" where
  "fw_rule_bytes r = [fr_action r, 0, 0, 0] @ le32 (fr_src_ip r) @ le32 (fr_dst_ip r)
     @ le16 (fr_src_port r) @ le16 (fr_dst_port r)
     @ [fr_src_subnet r, fr_dst_subnet r, bool_byte (fr_src_port_any r), bool_byte (fr_dst_port_any r)]
     @ le16 (fr_rule_id r) @ [0, 0]"

interpretation rule_entry: fixed_size_entry fw_rule_bytes 24
  by unfold_locales (simp add: fw_rule_bytes_def)

definition rule_table_bytes :: "fw_rule list \<Rightarrow> u8 list" where
  "rule_table_bytes rs = concat (map fw_rule_bytes rs)"

lemma rule_layout: "rule_entry.layout = rule_table_bytes"
  by (rule ext) (simp add: rule_entry.layout_def rule_table_bytes_def)

subsection \<open>Connections belong to a rule\<close>

definition connections_owned :: "fw_filter_state \<Rightarrow> bool" where
  "connections_owned st \<longleftrightarrow>
     (\<forall>i \<in> set (active_instances (internal_instances_table st)).
        \<exists>r \<in> set (active_rules st). fr_rule_id r = fi_rule_id i \<and> fr_action r = FILTER_ACT_CONNECT)"

text \<open>What a filter does to its state while it runs: rule management on request of the web server,
  an instance for a packet whose classification is \<open>connect\<close>, and the instance tables of its
  neighbours changing under it.\<close>

inductive filter_step :: "fw_filter_state \<Rightarrow> fw_filter_state \<Rightarrow> bool" where
  step_add: "fw_filter_add_rule st sip sp dip dp ss ds sany dany act = Some (err, rid, st') \<Longrightarrow>
     filter_step st st'"
| step_remove: "fw_filter_remove_rule st rid = Some (err, st') \<Longrightarrow> filter_step st st'"
| step_default: "fw_filter_update_default_action st act = Some (err, st') \<Longrightarrow> filter_step st st'"
| step_connect: "fw_filter_find_action st sip sp dip dp = (FILTER_ACT_CONNECT, rid) \<Longrightarrow>
     fw_filter_add_instance st sip sp dip dp rid = (err, st') \<Longrightarrow> filter_step st st'"
| step_neighbour: "filter_step st (st\<lparr>external_instances_table := ext\<rparr>)"

definition filter_invariant :: "fw_filter_state \<Rightarrow> bool" where
  "filter_invariant st \<longleftrightarrow> wf_rules st \<and> wf_instances st \<and> connections_owned st"

lemma add_instance_cases:
  assumes wfi: "wf_instances st"
  shows "\<exists>err st'. fw_filter_add_instance st sip sp dip dp rid = (err, st') \<and> wf_instances st' \<and>
    rule_table st' = rule_table st \<and> rule_id_bitmap st' = rule_id_bitmap st \<and>
    rules_capacity st' = rules_capacity st \<and>
    (let tbl = internal_instances_table st;
         inst = \<lparr>fi_src_ip = sip, fi_dst_ip = dip, fi_src_port = sp, fi_dst_port = dp, fi_rule_id = rid\<rparr> in
     if it_size tbl = instances_capacity st then err = FILTER_ERR_FULL \<and> st' = st
     else if inst \<in> set (active_instances tbl) then err = FILTER_ERR_DUPLICATE \<and> st' = st
     else err = FILTER_ERR_OKAY \<and>
       active_instances (internal_instances_table st') = active_instances tbl @ [inst])"
proof -
  let ?tbl = "internal_instances_table st"
  let ?inst = "\<lparr>fi_src_ip = sip, fi_dst_ip = dip, fi_src_port = sp, fi_dst_port = dp, fi_rule_id = rid\<rparr>"
  have same: "same_instance sip sp dip dp rid i \<longleftrightarrow> i = ?inst" for i
    by (cases i) (auto simp: same_instance_def)
  have le: "it_size ?tbl \<le> instances_capacity st"
    and len: "length (it_instances ?tbl) = unat (instances_capacity st)"
    and dist: "distinct (active_instances ?tbl)"
    using wfi by (simp_all add: wf_instances_def)
  consider (full) "it_size ?tbl = instances_capacity st"
    | (dup) "it_size ?tbl < instances_capacity st" "?inst \<in> set (active_instances ?tbl)"
    | (new) "it_size ?tbl < instances_capacity st" "?inst \<notin> set (active_instances ?tbl)"
    using le unfolding order_le_less by blast
  then show ?thesis
  proof cases
    case full
    with wfi show ?thesis by (simp add: fw_filter_add_instance_def)
  next
    case dup
    then obtain k where "find_index (same_instance sip sp dip dp rid) (active_instances ?tbl) = Some k"
      using find_index_Some_ex [of "same_instance sip sp dip dp rid"] same by blast
    with dup wfi show ?thesis by (auto simp: fw_filter_add_instance_def Let_def not_le)
  next
    case new
    have n: "find_index (same_instance sip sp dip dp rid) (active_instances ?tbl) = None"
      using new(2) by (auto simp: find_index_None_iff same)
    let ?st = "st\<lparr>internal_instances_table := \<lparr>it_size = it_size ?tbl + 1,
        it_instances = (it_instances ?tbl)[unat (it_size ?tbl) := ?inst]\<rparr>\<rparr>"
    have act: "active_instances (internal_instances_table ?st) = active_instances ?tbl @ [?inst]"
      using word_step [OF new(1)] len by (simp add: active_instances_def take_Suc_conv_app_nth)
    have res: "fw_filter_add_instance st sip sp dip dp rid = (FILTER_ERR_OKAY, ?st)"
      using new n by (simp add: fw_filter_add_instance_def Let_def not_le)
    have "it_size (internal_instances_table ?st) \<le> instances_capacity ?st"
      using word_step [OF new(1)] by (simp add: word_le_nat_alt)
    moreover have "distinct (active_instances (internal_instances_table ?st))"
      unfolding act using dist new(2) by simp
    ultimately have "wf_instances ?st" using len by (simp add: wf_instances_def)
    with res act new show ?thesis by (simp add: Let_def)
  qed
qed

lemma owned_connect:
  assumes inv: "filter_invariant st"
    and act: "fw_filter_find_action st sip sp dip dp = (FILTER_ACT_CONNECT, rid)"
  shows "\<exists>r \<in> set (active_rules st). fr_rule_id r = rid \<and> fr_action r = FILTER_ACT_CONNECT"
proof -
  have wf: "wf_rules st" using inv by (simp add: filter_invariant_def)
  have "\<forall>tbl \<in> set (take (unat (num_interfaces st)) (external_instances_table st)).
      \<forall>i \<in> set (active_instances tbl). \<not> is_return_traffic sip sp dip dp i"
  proof (rule ccontr)
    assume "\<not> ?thesis"
    then have "find (is_return_traffic sip sp dip dp)
        (concat (map active_instances (take (unat (num_interfaces st)) (external_instances_table st)))) \<noteq> None"
      by (auto simp: find_None_iff)
    then have "fst (fw_filter_find_action st sip sp dip dp) = FILTER_ACT_ESTABLISHED"
      by (auto simp: fw_filter_find_action_def)
    with act show False by (simp add: filter_actions)
  qed
  from find_action_rule [OF wf this] act show ?thesis by auto
qed

lemma wf_rules_external:
  "wf_rules (st\<lparr>external_instances_table := ext\<rparr>) = wf_rules st"
  "active_rules (st\<lparr>external_instances_table := ext\<rparr>) = active_rules st"
  by (simp_all add: wf_rules_def active_rules_def rule_ids_def)

lemma owned_step_remove:
  assumes inv: "filter_invariant st" and res: "fw_filter_remove_rule st rid = Some (err, st')"
  shows "filter_invariant st'"
proof -
  have wf: "wf_rules st" "wf_instances st" and own: "connections_owned st"
    using inv by (simp_all add: filter_invariant_def)
  from remove_rule_cases [OF wf, of rid] res
  have w: "wf_rules st'" "wf_instances st'" and c: "if rid = 0 \<or> unat rid \<notin> set (rule_ids st)
     then err = FILTER_ERR_INVALID_RULE_ID \<and> st' = st
     else err = FILTER_ERR_OKAY \<and>
       active_rules st' = filter (\<lambda>r. fr_rule_id r \<noteq> rid) (active_rules st) \<and>
       mset (active_instances (internal_instances_table st')) =
         (if \<exists>r \<in> set (active_rules st). fr_rule_id r = rid \<and> fr_action r = FILTER_ACT_CONNECT
          then filter_mset (\<lambda>x. fi_rule_id x \<noteq> rid) (mset (active_instances (internal_instances_table st)))
          else mset (active_instances (internal_instances_table st)))"
    by auto
  have "connections_owned st'"
  proof (cases "rid = 0 \<or> unat rid \<notin> set (rule_ids st)")
    case True
    with c own show ?thesis by simp
  next
    case False
    let ?conn = "\<exists>r \<in> set (active_rules st). fr_rule_id r = rid \<and> fr_action r = FILTER_ACT_CONNECT"
    have act: "set (active_rules st') = {r \<in> set (active_rules st). fr_rule_id r \<noteq> rid}"
      using c False by simp
    have ms: "mset (active_instances (internal_instances_table st')) =
      (if ?conn then filter_mset (\<lambda>x. fi_rule_id x \<noteq> rid) (mset (active_instances (internal_instances_table st)))
       else mset (active_instances (internal_instances_table st)))"
      using c False by (simp only: if_False)
    show ?thesis
      unfolding connections_owned_def
    proof
      fix i assume "i \<in> set (active_instances (internal_instances_table st'))"
      then have i: "i \<in> set (active_instances (internal_instances_table st))" "?conn \<Longrightarrow> fi_rule_id i \<noteq> rid"
        using arg_cong [OF ms, of set_mset] by (auto split: if_splits)
      then obtain r where r: "r \<in> set (active_rules st)" "fr_rule_id r = fi_rule_id i"
          "fr_action r = FILTER_ACT_CONNECT"
        using own unfolding connections_owned_def by blast
      then have "fr_rule_id r \<noteq> rid" using i(2) by metis
      with r act show "\<exists>r \<in> set (active_rules st'). fr_rule_id r = fi_rule_id i \<and> fr_action r = FILTER_ACT_CONNECT"
        by blast
    qed
  qed
  with w show ?thesis by (simp add: filter_invariant_def)
qed

lemma owned_step_default:
  assumes inv: "filter_invariant st" and res: "fw_filter_update_default_action st act = Some (err, st')"
  shows "filter_invariant st'"
proof -
  have wf: "wf_rules st" "wf_instances st" and own: "connections_owned st"
    using inv by (simp_all add: filter_invariant_def)
  let ?a = "active_rules st"
  let ?cond = "fr_action (?a ! 0) = FILTER_ACT_CONNECT \<and> act \<noteq> ucast FILTER_ACT_CONNECT"
  from update_default_spec [OF wf, of act] res
  have w: "wf_rules st'" "wf_instances st'"
    and act: "active_rules st' = (?a ! 0)\<lparr>fr_action := ucast act\<rparr> # drop 1 ?a"
    and ms: "mset (active_instances (internal_instances_table st')) =
      (if ?cond then filter_mset (\<lambda>x. fi_rule_id x \<noteq> 0) (mset (active_instances (internal_instances_table st)))
       else mset (active_instances (internal_instances_table st)))" by auto
  have split: "set ?a = insert (?a ! 0) (set (drop 1 ?a))"
    using active_nonempty [OF wf(1)] by (cases ?a) auto
  have id0: "fr_rule_id (?a ! 0) = 0" using wf(1) by (simp add: wf_rules_def default_rule_def)
  have "\<exists>r \<in> set (active_rules st'). fr_rule_id r = fi_rule_id i \<and> fr_action r = FILTER_ACT_CONNECT"
    if i: "i \<in> set (active_instances (internal_instances_table st'))" for i
  proof -
    have i': "i \<in> set (active_instances (internal_instances_table st))" "?cond \<Longrightarrow> fi_rule_id i \<noteq> 0"
      using i arg_cong [OF ms, of set_mset] by (auto split: if_splits)
    then obtain r where r: "r \<in> set ?a" "fr_rule_id r = fi_rule_id i" "fr_action r = FILTER_ACT_CONNECT"
      using own by (auto simp: connections_owned_def)
    show ?thesis
    proof (cases "r \<in> set (drop 1 ?a)")
      case True
      with r act show ?thesis by auto
    next
      case False
      then have "r = ?a ! 0" using r(1) split by auto
      with r i'(2) id0 have "fi_rule_id i = 0" "act = ucast FILTER_ACT_CONNECT" by auto
      with act id0 show ?thesis by (simp add: FILTER_ACT_CONNECT_def)
    qed
  qed
  with w show ?thesis by (simp add: filter_invariant_def connections_owned_def)
qed

lemma owned_step_add:
  assumes inv: "filter_invariant st"
    and res: "fw_filter_add_rule st sip sp dip dp ss ds sany dany act = Some (err, rid, st')"
  shows "filter_invariant st'"
proof (cases "st' = st")
  case True
  with inv show ?thesis by simp
next
  case False
  have wf: "wf_rules st" "wf_instances st" "connections_owned st"
    using inv by (simp_all add: filter_invariant_def)
  have lt: "rt_size (rule_table st) < rules_capacity st"
    using res False by (simp add: fw_filter_add_rule_def not_le split: if_splits)
  have none: "find_index (rule_clashes sip sp dip dp ss ds sany dany) (active_rules st) = None"
  proof (rule ccontr)
    assume "find_index (rule_clashes sip sp dip dp ss ds sany dany) (active_rules st) \<noteq> None"
    then obtain k where "find_index (rule_clashes sip sp dip dp ss ds sany dany) (active_rules st) = Some k"
      by blast
    from add_rule_clash [OF lt this] res False show False by simp
  qed
  obtain i where st': "st' = added st (new_rule sip sp dip dp ss ds sany dany act i)"
    using add_rule_ok [OF wf(1) lt none, of act] res by auto
  have same: "internal_instances_table st' = internal_instances_table st"
    "instances_capacity st' = instances_capacity st" by (simp_all add: st' added_def)
  have "wf_rules st'"
    using add_rule_cases [OF wf(1), of sip sp dip dp ss ds sany dany act] res by auto
  moreover have "set (active_rules st) \<subseteq> set (active_rules st')"
    unfolding st' active_added [OF wf(1) lt] by auto
  ultimately show ?thesis
    using wf unfolding filter_invariant_def wf_instances_def connections_owned_def same by blast
qed

lemma owned_step_connect:
  assumes inv: "filter_invariant st"
    and act: "fw_filter_find_action st sip sp dip dp = (FILTER_ACT_CONNECT, rid)"
    and res: "fw_filter_add_instance st sip sp dip dp rid = (err, st')"
  shows "filter_invariant st'"
proof -
  have wf: "wf_rules st" "wf_instances st" "connections_owned st"
    using inv by (simp_all add: filter_invariant_def)
  let ?inst = "\<lparr>fi_src_ip = sip, fi_dst_ip = dip, fi_src_port = sp, fi_dst_port = dp, fi_rule_id = rid\<rparr>"
  have inst: "wf_instances st'" "rule_table st' = rule_table st" "rule_id_bitmap st' = rule_id_bitmap st"
      "rules_capacity st' = rules_capacity st"
      "set (active_instances (internal_instances_table st')) \<subseteq>
        insert ?inst (set (active_instances (internal_instances_table st)))"
    using add_instance_cases [OF wf(2), of sip sp dip dp rid] res by (auto simp: Let_def split: if_splits)
  have same: "active_rules st' = active_rules st" "rule_ids st' = rule_ids st"
    using inst(2) by (simp_all add: active_rules_def rule_ids_def)
  have "wf_rules st'" using wf(1) unfolding wf_rules_def same inst(2-4) .
  moreover have "connections_owned st'"
    unfolding connections_owned_def same
  proof
    fix i assume "i \<in> set (active_instances (internal_instances_table st'))"
    then consider "i = ?inst" | "i \<in> set (active_instances (internal_instances_table st))"
      using inst(5) by blast
    then show "\<exists>r \<in> set (active_rules st). fr_rule_id r = fi_rule_id i \<and> fr_action r = FILTER_ACT_CONNECT"
    proof cases
      case 1
      then have "fi_rule_id i = rid" by simp
      with owned_connect [OF inv act] show ?thesis by metis
    next
      case 2
      with wf(3) show ?thesis unfolding connections_owned_def by blast
    qed
  qed
  ultimately show ?thesis using inst(1) by (simp add: filter_invariant_def)
qed

lemma filter_step_invariant:
  assumes "filter_step st st'" "filter_invariant st"
  shows "filter_invariant st'"
  using assms
proof (induction rule: filter_step.induct)
  case (step_neighbour st ext)
  then show ?case
    by (simp add: filter_invariant_def wf_rules_external wf_instances_def connections_owned_def)
qed (blast intro: owned_step_add owned_step_remove owned_step_default owned_step_connect)+

subsection \<open>Properties\<close>

text \<open>A running example: a table of four slots with a default rule that drops and a rule that lets
  the hosts of 10.0.0.0/8 open connections to port 80, one of which is open. Addresses are in network
  byte order.\<close>

definition ex_default :: fw_rule where
  "ex_default = \<lparr>fr_action = 2, fr_src_ip = 0, fr_dst_ip = 0, fr_src_port = 0, fr_dst_port = 0,
     fr_src_subnet = 0, fr_dst_subnet = 0, fr_src_port_any = True, fr_dst_port_any = True, fr_rule_id = 0\<rparr>"

definition ex_connect :: fw_rule where
  "ex_connect = \<lparr>fr_action = 4, fr_src_ip = 10, fr_dst_ip = 0, fr_src_port = 0, fr_dst_port = 80,
     fr_src_subnet = 8, fr_dst_subnet = 0, fr_src_port_any = True, fr_dst_port_any = False, fr_rule_id = 1\<rparr>"

definition ex_instance :: fw_instance where
  "ex_instance = \<lparr>fi_src_ip = 0x0100000A, fi_dst_ip = 0x01010101, fi_src_port = 1234, fi_dst_port = 80,
     fi_rule_id = 1\<rparr>"

definition ex_filter :: fw_filter_state where
  "ex_filter = \<lparr>rule_table = \<lparr>rt_size = 2, rt_rules = [ex_default, ex_connect, ex_default, ex_default]\<rparr>,
     rules_capacity = 4, rule_id_bitmap = \<lparr>last_allocated_rule_id = 1, id_bitmap = [3]\<rparr>,
     internal_instances_table = \<lparr>it_size = 1, it_instances = [ex_instance, ex_instance]\<rparr>,
     external_instances_table = [\<lparr>it_size = 1, it_instances = [ex_instance]\<rparr>],
     instances_capacity = 2, num_interfaces = 1\<rparr>"

lemmas ex_filter_defs = ex_default_def ex_connect_def ex_instance_def ex_filter_def

lemma ex_active: "active_rules ex_filter = [ex_default, ex_connect]"
  by (simp add: active_rules_def ex_filter_def)

lemma ex_ids: "rule_ids ex_filter = [0, 1]"
  by (simp add: rule_ids_def ex_active ex_default_def ex_connect_def)

lemma ex_connections:
  "active_instances (internal_instances_table ex_filter) = [ex_instance]"
  by (simp add: active_instances_def ex_filter_def)

lemma ex_wf: "wf_rules ex_filter"
proof -
  have "id_allocated (rule_id_bitmap ex_filter) i \<longleftrightarrow> i \<in> set (rule_ids ex_filter)" if "i < 4" for i
  proof -
    have "i = 0 \<or> i = 1 \<or> i = 2 \<or> i = 3" using that by arith
    then show ?thesis unfolding ex_ids by (auto simp: id_allocated_bit ex_filter_def)
  qed
  then show ?thesis
    unfolding wf_rules_def ex_active ex_ids
    by (simp add: ex_filter_defs default_rule_def clash_def rule_clashes_def)
qed

lemma ex_wf_instances: "wf_instances ex_filter"
  unfolding wf_instances_def ex_connections by (simp add: ex_filter_def)

lemma ex_invariant: "filter_invariant ex_filter"
  using ex_wf ex_wf_instances
  by (simp add: filter_invariant_def connections_owned_def ex_connections ex_active)
    (simp add: ex_filter_defs filter_actions)

text \<open>C9: a filter that starts on zeroed regions with a configuration whose rules do not clash keeps
  its invariant over every sequence of rule additions, removals, default-action changes, recorded
  connections and changes of its neighbours' tables: identifiers of rules are distinct and exactly
  the allocated bits, no rule clashes with an earlier one, the default rule stays first, instances
  are distinct, and every recorded connection belongs to a \<open>connect\<close> rule that is still there.\<close>

theorem filter_running_invariant:
  assumes "fresh_regions tbl bm cap" "default_rule dflt" "length rules < unat cap" "length rules < 255"
    and "\<forall>r \<in> set rules. \<not> clash r dflt" "sorted_wrt (\<lambda>r n. \<not> clash n r) rules"
    and "it_size internal = 0" "length (it_instances internal) = unat icap"
    and "fw_filter_state_init tbl bm cap internal external icap (dflt # rules)
      (of_nat (Suc (length rules))) n = Some (out, st0)"
    and "filter_step\<^sup>*\<^sup>* st0 st"
  shows "wf_rules st \<and> wf_instances st \<and> connections_owned st"
proof -
  have "\<exists>st'. st0 = st' \<and> wf_rules st' \<and> internal_instances_table st' = internal \<and>
      instances_capacity st' = icap"
    using filter_init_ok [OF assms(1-6), of internal external icap n] assms(9) by auto
  then have "filter_invariant st0"
    using assms(7,8)
    by (auto simp: filter_invariant_def wf_instances_def connections_owned_def active_instances_def)
  from assms(10) this have "filter_invariant st"
    by (induction rule: rtranclp_induct) (auto intro: filter_step_invariant)
  then show ?thesis by (simp add: filter_invariant_def)
qed

text \<open>Initialisation succeeds on a configuration without clashes, installs the configured rules
  in order with their addresses reduced to the subnets, and writes the chosen identifiers back.\<close>

theorem fw_filter_state_init_installs:
  assumes "fresh_regions tbl bm cap" "default_rule dflt" "length rules < unat cap" "length rules < 255"
    and "\<forall>r \<in> set rules. \<not> clash r dflt" "sorted_wrt (\<lambda>r n. \<not> clash n r) rules"
  shows "\<exists>ids st. length ids = length rules \<and>
    fw_filter_state_init tbl bm cap internal external icap (dflt # rules) (of_nat (Suc (length rules))) n =
      Some (dflt # map2 (\<lambda>r i. r\<lparr>fr_rule_id := i\<rparr>) rules ids, st) \<and>
    wf_rules st \<and> active_rules st = dflt # map2 mk_rule rules ids"
  using filter_init_ok [OF assms, of internal external icap n] by blast

text \<open>adding a rule never fails an assertion. It is refused without a change when the table is
  full or a rule clashes; otherwise the rule is appended with a fresh identifier that is not the
  default rule's.\<close>

theorem fw_filter_add_rule_spec:
  assumes "wf_rules st"
  shows "\<exists>err rid st'. fw_filter_add_rule st sip sp dip dp ss ds sany dany act = Some (err, rid, st') \<and>
    wf_rules st' \<and>
    (if rt_size (rule_table st) = rules_capacity st then err = FILTER_ERR_FULL \<and> st' = st
     else if \<exists>r \<in> set (active_rules st). rule_clashes sip sp dip dp ss ds sany dany r
     then err = (if \<exists>r \<in> set (active_rules st). rule_clashes sip sp dip dp ss ds sany dany r \<and>
         fr_action r = act then FILTER_ERR_DUPLICATE else FILTER_ERR_CLASH) \<and> st' = st
     else err = FILTER_ERR_OKAY \<and>
       (\<exists>i. rid = Some i \<and> 0 < i \<and> i < rules_capacity st \<and> unat i \<notin> set (rule_ids st) \<and>
         active_rules st' = active_rules st @ [new_rule sip sp dip dp ss ds sany dany act i] \<and>
         internal_instances_table st' = internal_instances_table st))"
  using add_rule_cases [OF assms] .

text \<open>C29: removing a rule never fails an assertion. The default rule and unknown identifiers are
  refused without a change; otherwise exactly the rule with that identifier goes, the others keep
  their order, and the connections it opened are closed while all others stay.\<close>

theorem fw_filter_remove_rule_spec:
  assumes "wf_rules st" "wf_instances st"
  shows "\<exists>err st'. fw_filter_remove_rule st rid = Some (err, st') \<and> wf_rules st' \<and> wf_instances st' \<and>
    (if rid = 0 \<or> unat rid \<notin> set (rule_ids st)
     then err = FILTER_ERR_INVALID_RULE_ID \<and> st' = st
     else err = FILTER_ERR_OKAY \<and>
       active_rules st' = filter (\<lambda>r. fr_rule_id r \<noteq> rid) (active_rules st) \<and>
       mset (active_instances (internal_instances_table st')) =
         (if \<exists>r \<in> set (active_rules st). fr_rule_id r = rid \<and> fr_action r = FILTER_ACT_CONNECT
          then filter_mset (\<lambda>x. fi_rule_id x \<noteq> rid) (mset (active_instances (internal_instances_table st)))
          else mset (active_instances (internal_instances_table st))))"
  using remove_rule_cases [OF assms] .

text \<open>C10: traffic that is not the return traffic of a neighbour's connection gets the action and the
  identifier of the one rule that is the most specific match, by source subnet, destination subnet,
  source port and destination port in this order; there is always exactly one, as long as rules for
  any port leave their port number at zero.\<close>

theorem fw_filter_find_action_most_specific:
  assumes "wf_rules st" "\<forall>r \<in> set (active_rules st). normal_ports r"
    and "\<forall>tbl \<in> set (take (unat (num_interfaces st)) (external_instances_table st)).
      \<forall>i \<in> set (active_instances tbl). \<not> is_return_traffic sip sp dip dp i"
  shows "\<exists>!m. m \<in> set (active_rules st) \<and> rule_matches sip sp dip dp m \<and>
      (\<forall>r \<in> set (active_rules st). rule_matches sip sp dip dp r \<longrightarrow> specificity r \<le> specificity m) \<and>
      fw_filter_find_action st sip sp dip dp = (fr_action m, fr_rule_id m)"
proof -
  obtain m where m: "m \<in> set (active_rules st)" "fw_filter_find_action st sip sp dip dp = (fr_action m, fr_rule_id m)"
    "rule_matches sip sp dip dp m"
    "\<forall>r \<in> set (active_rules st). rule_matches sip sp dip dp r \<longrightarrow> specificity r \<le> specificity m"
    using find_action_rule [OF assms(1,3)] by blast
  show ?thesis
  proof (rule ex1I [of _ m])
    show "m' = m" if "m' \<in> set (active_rules st) \<and> rule_matches sip sp dip dp m' \<and>
      (\<forall>r \<in> set (active_rules st). rule_matches sip sp dip dp r \<longrightarrow> specificity r \<le> specificity m') \<and>
      fw_filter_find_action st sip sp dip dp = (fr_action m', fr_rule_id m')" for m'
      using that m by (intro best_unique [OF assms(1,2)]) (auto intro: order_antisym)
  qed (use m in blast)
qed

text \<open>The answer is \<open>established\<close> with the identifier of a neighbour's connection whose endpoints
  are the packet's in reverse, whenever there is such a connection, and whatever the rules say.\<close>

theorem fw_filter_find_action_established:
  assumes "i \<in> (\<Union>tbl \<in> set (take (unat (num_interfaces st)) (external_instances_table st)).
      set (active_instances tbl))"
    and "fi_src_ip i = dip" "fi_src_port i = dp" "fi_dst_ip i = sip" "fi_dst_port i = sp"
  shows "\<exists>j. fw_filter_find_action st sip sp dip dp = (FILTER_ACT_ESTABLISHED, fi_rule_id j) \<and>
    j \<in> (\<Union>tbl \<in> set (take (unat (num_interfaces st)) (external_instances_table st)).
      set (active_instances tbl)) \<and> is_return_traffic sip sp dip dp j"
proof -
  let ?l = "concat (map active_instances (take (unat (num_interfaces st)) (external_instances_table st)))"
  have i: "i \<in> set ?l" "is_return_traffic sip sp dip dp i"
    using assms by (auto simp: is_return_traffic_def)
  then obtain j where j: "find (is_return_traffic sip sp dip dp) ?l = Some j"
    by (cases "find (is_return_traffic sip sp dip dp) ?l") (auto simp: find_None_iff)
  then have "j \<in> set ?l" "is_return_traffic sip sp dip dp j"
    by (metis find_Some_iff nth_mem)+
  with j show ?thesis by (auto simp: fw_filter_find_action_def)
qed

text \<open>Changing the default action touches no other rule, and closes the connections the default
  rule opened when it stops being a \<open>connect\<close> rule.\<close>

theorem fw_filter_update_default_action_spec:
  assumes "wf_rules st" "wf_instances st"
  shows "\<exists>st'. fw_filter_update_default_action st act = Some (FILTER_ERR_OKAY, st') \<and>
    wf_rules st' \<and> wf_instances st' \<and>
    active_rules st' = (active_rules st ! 0)\<lparr>fr_action := ucast act\<rparr> # drop 1 (active_rules st) \<and>
    mset (active_instances (internal_instances_table st')) =
      (if fr_action (active_rules st ! 0) = FILTER_ACT_CONNECT \<and> act \<noteq> ucast FILTER_ACT_CONNECT
       then filter_mset (\<lambda>x. fi_rule_id x \<noteq> 0) (mset (active_instances (internal_instances_table st)))
       else mset (active_instances (internal_instances_table st)))"
  using update_default_spec [OF assms] .

text \<open>The clash test compares the port numbers of two rules that both apply to any source port.
  A rule that matches exactly the traffic of an existing rule, with any action, is accepted as soon
  as its unused port number is a new one.\<close>

theorem any_port_clash_missed:
  assumes "wf_rules st" "rt_size (rule_table st) < rules_capacity st"
    and "r \<in> set (active_rules st)" "fr_src_port_any r"
    and "\<forall>x \<in> set (active_rules st). fr_src_port x \<noteq> p"
  shows "\<exists>i st' n. fw_filter_add_rule st (fr_src_ip r) p (fr_dst_ip r) (fr_dst_port r) (fr_src_subnet r)
      (fr_dst_subnet r) True (fr_dst_port_any r) act = Some (FILTER_ERR_OKAY, Some i, st') \<and>
    active_rules st' = active_rules st @ [n] \<and> fr_action n = act \<and> specificity n = specificity r \<and>
    (\<forall>sip sp dip dp. rule_matches sip sp dip dp n \<longleftrightarrow> rule_matches sip sp dip dp r)"
proof -
  have none: "find_index (rule_clashes (fr_src_ip r) p (fr_dst_ip r) (fr_dst_port r) (fr_src_subnet r)
      (fr_dst_subnet r) True (fr_dst_port_any r)) (active_rules st) = None"
    using assms(5) by (auto simp: find_index_None_iff rule_clashes_def)
  from add_rule_ok [OF assms(1,2) none, of act] obtain i where
    i: "fw_filter_add_rule st (fr_src_ip r) p (fr_dst_ip r) (fr_dst_port r) (fr_src_subnet r)
      (fr_dst_subnet r) True (fr_dst_port_any r) act = Some (FILTER_ERR_OKAY, Some i,
      added st (new_rule (fr_src_ip r) p (fr_dst_ip r) (fr_dst_port r) (fr_src_subnet r)
        (fr_dst_subnet r) True (fr_dst_port_any r) act i))" by blast
  let ?n = "new_rule (fr_src_ip r) p (fr_dst_ip r) (fr_dst_port r) (fr_src_subnet r)
        (fr_dst_subnet r) True (fr_dst_port_any r) act i"
  have "fr_action ?n = act \<and> specificity ?n = specificity r \<and>
      (\<forall>sip sp dip dp. rule_matches sip sp dip dp ?n \<longleftrightarrow> rule_matches sip sp dip dp r)"
    using assms(4) by (simp add: new_rule_def specificity_def rule_matches_def)
  with i active_added [OF assms(1,2)] show ?thesis by blast
qed

text \<open>deleting a rule moves the bytes of the table exactly as it moves its entries: the
  byte-level shift of the table's memory is the memory of the shifted table.\<close>

theorem rule_table_shift_bytes:
  assumes "unat i < unat n" "unat n \<le> length rs" "length rs < 65536"
  shows "generic_array_shift (rule_table_bytes rs) 24 n i =
    Some (rule_table_bytes (entry_shift rs (unat n) (unat i)))"
  using rule_entry.shift_refines [OF assms(1,2)] assms(3) unfolding rule_layout by simp

subsection \<open>Instances of the properties\<close>

definition ex_internal :: fw_instances_table where
  "ex_internal = \<lparr>it_size = 0, it_instances = [ex_instance, ex_instance]\<rparr>"

definition ex_regions :: "fw_rule_table \<times> fw_rule_id_bitmap" where
  "ex_regions = (\<lparr>rt_size = 0, rt_rules = [ex_default, ex_default, ex_default, ex_default]\<rparr>,
     \<lparr>last_allocated_rule_id = 0, id_bitmap = [0]\<rparr>)"

lemma ex_fresh: "fresh_regions (fst ex_regions) (snd ex_regions) 4" "default_rule ex_default"
  by (simp_all add: fresh_regions_def ex_regions_def id_allocated_bit default_rule_def ex_default_def)

lemma ex_fields:
  "fr_rule_id ex_default = 0" "fr_rule_id ex_connect = 1" "fr_action ex_connect = FILTER_ACT_CONNECT"
  "fi_rule_id ex_instance = 1"
  by (simp_all add: ex_filter_defs filter_actions)

lemma ex_no_clash: "\<not> clash ex_connect ex_default"
  by (simp add: clash_def rule_clashes_def ex_connect_def ex_default_def)

theorem fw_filter_state_init_installs_witness:
  "\<exists>i st. fw_filter_state_init (fst ex_regions) (snd ex_regions) 4 ex_internal [] 2
      [ex_default, ex_connect] (of_nat (Suc 1)) 0 =
        Some ([ex_default, ex_connect\<lparr>fr_rule_id := i\<rparr>], st) \<and>
    active_rules st = [ex_default, mk_rule ex_connect i]"
  using fw_filter_state_init_installs [OF ex_fresh, of "[ex_connect]" ex_internal "[]" 2 0] ex_no_clash
  by (auto simp: length_Suc_conv)

theorem filter_running_invariant_witness:
  "\<exists>out st0. fw_filter_state_init (fst ex_regions) (snd ex_regions) 4 ex_internal [] 2
      [ex_default, ex_connect] (of_nat (Suc 1)) 0 = Some (out, st0) \<and> wf_rules st0 \<and> connections_owned st0"
proof -
  obtain out st0 where init: "fw_filter_state_init (fst ex_regions) (snd ex_regions) 4 ex_internal [] 2
      (ex_default # [ex_connect]) (of_nat (Suc (length [ex_connect]))) 0 = Some (out, st0)"
    using filter_init_ok [OF ex_fresh, of "[ex_connect]" ex_internal "[]" 2 0] ex_no_clash by auto
  from filter_running_invariant [OF ex_fresh _ _ _ _ _ _ this rtranclp.rtrancl_refl] ex_no_clash init
  show ?thesis by (auto simp: ex_internal_def)
qed

theorem fw_filter_add_rule_spec_witness:
  "\<exists>i st'. fw_filter_add_rule ex_filter 0x0200000A 0 0 0 32 0 True True FILTER_ACT_REJECT =
      Some (FILTER_ERR_OKAY, Some i, st') \<and> i \<noteq> 0 \<and> i \<noteq> 1 \<and> length (active_rules st') = 3"
proof -
  have "\<not> rule_clashes 0x0200000A 0 0 0 32 0 True True r" if "r \<in> set (active_rules ex_filter)" for r
    using that by (auto simp: ex_active rule_clashes_def ex_default_def ex_connect_def)
  moreover have "rt_size (rule_table ex_filter) \<noteq> rules_capacity ex_filter" by (simp add: ex_filter_def)
  ultimately obtain i st' where "fw_filter_add_rule ex_filter 0x0200000A 0 0 0 32 0 True True FILTER_ACT_REJECT =
      Some (FILTER_ERR_OKAY, Some i, st')" "unat i \<notin> set (rule_ids ex_filter)"
      "length (active_rules st') = Suc (length (active_rules ex_filter))"
    using fw_filter_add_rule_spec [OF ex_wf, of "0x0200000A" 0 0 0 32 0 True True FILTER_ACT_REJECT]
    by auto
  then show ?thesis by (auto simp: ex_ids ex_active)
qed

theorem fw_filter_remove_rule_spec_witness:
  "\<exists>st'. fw_filter_remove_rule ex_filter 1 = Some (FILTER_ERR_OKAY, st') \<and>
     active_rules st' = [ex_default] \<and> active_instances (internal_instances_table st') = []"
  using fw_filter_remove_rule_spec [OF ex_wf ex_wf_instances, of 1]
  by (auto simp: ex_active ex_ids ex_connections ex_fields)

theorem fw_filter_find_action_most_specific_witness:
  "fw_filter_find_action ex_filter 0x0900000A 5555 0x08080808 80 = (FILTER_ACT_CONNECT, 1)"
proof -
  have m: "rule_matches 0x0900000A 5555 0x08080808 80 ex_default"
    "rule_matches 0x0900000A 5555 0x08080808 80 ex_connect"
    "\<not> specificity ex_connect \<le> specificity ex_default"
    by (simp_all add: rule_matches_def specificity_def ex_filter_defs subnet_mask_def htonl_def)
  have "\<forall>r \<in> set (active_rules ex_filter). normal_ports r"
    by (simp add: ex_active normal_ports_def) (simp add: ex_filter_defs)
  moreover have "\<forall>tbl \<in> set (take (unat (num_interfaces ex_filter)) (external_instances_table ex_filter)).
      \<forall>i \<in> set (active_instances tbl). \<not> is_return_traffic 0x0900000A 5555 0x08080808 80 i"
    by (simp add: ex_filter_defs active_instances_def is_return_traffic_def)
  ultimately obtain r where "r \<in> set (active_rules ex_filter)"
    "\<forall>x \<in> set (active_rules ex_filter). rule_matches 0x0900000A 5555 0x08080808 80 x \<longrightarrow>
       specificity x \<le> specificity r"
    "fw_filter_find_action ex_filter 0x0900000A 5555 0x08080808 80 = (fr_action r, fr_rule_id r)"
    using fw_filter_find_action_most_specific [OF ex_wf, of "0x0900000A" 5555 "0x08080808" 80] by blast
  with m have "fw_filter_find_action ex_filter 0x0900000A 5555 0x08080808 80 =
      (fr_action ex_connect, fr_rule_id ex_connect)" unfolding ex_active by auto
  then show ?thesis by (simp add: ex_connect_def filter_actions)
qed

theorem fw_filter_find_action_established_witness:
  "fst (fw_filter_find_action ex_filter 0x01010101 80 0x0100000A 1234) = FILTER_ACT_ESTABLISHED"
  using fw_filter_find_action_established [of ex_instance ex_filter "0x0100000A" 1234 "0x01010101" 80]
  by (auto simp: ex_filter_defs active_instances_def)

theorem fw_filter_update_default_action_spec_witness:
  "\<exists>st'. fw_filter_update_default_action ex_filter 1 = Some (FILTER_ERR_OKAY, st') \<and>
     active_rules st' = [ex_default\<lparr>fr_action := 1\<rparr>, ex_connect]"
  using fw_filter_update_default_action_spec [OF ex_wf ex_wf_instances, of 1]
  by (auto simp: ex_active)

theorem any_port_clash_missed_witness:
  "\<exists>i st' n. fw_filter_add_rule ex_filter 10 7 0 80 8 0 True False FILTER_ACT_DROP =
      Some (FILTER_ERR_OKAY, Some i, st') \<and> active_rules st' = [ex_default, ex_connect, n] \<and>
    fr_action n = FILTER_ACT_DROP \<and> fr_action ex_connect = FILTER_ACT_CONNECT \<and>
    (\<forall>sip sp dip dp. rule_matches sip sp dip dp n \<longleftrightarrow> rule_matches sip sp dip dp ex_connect)"
proof -
  have "rt_size (rule_table ex_filter) < rules_capacity ex_filter" by (simp add: ex_filter_def)
  from any_port_clash_missed [OF ex_wf this, of ex_connect 7 FILTER_ACT_DROP]
  have "\<exists>i st' n. fw_filter_add_rule ex_filter (fr_src_ip ex_connect) 7 (fr_dst_ip ex_connect)
      (fr_dst_port ex_connect) (fr_src_subnet ex_connect) (fr_dst_subnet ex_connect) True
      (fr_dst_port_any ex_connect) FILTER_ACT_DROP = Some (FILTER_ERR_OKAY, Some i, st') \<and>
    active_rules st' = [ex_default, ex_connect] @ [n] \<and> fr_action n = FILTER_ACT_DROP \<and>
    (\<forall>sip sp dip dp. rule_matches sip sp dip dp n \<longleftrightarrow> rule_matches sip sp dip dp ex_connect)"
    unfolding ex_active by (auto simp: ex_connect_def ex_default_def)
  then show ?thesis by (simp add: ex_connect_def filter_actions)
qed

theorem rule_table_shift_bytes_witness:
  "generic_array_shift (rule_table_bytes [ex_default, ex_connect, ex_connect\<lparr>fr_rule_id := 2\<rparr>]) 24 3 1 =
    Some (rule_table_bytes [ex_default, ex_connect\<lparr>fr_rule_id := 2\<rparr>, ex_connect\<lparr>fr_rule_id := 2\<rparr>])"
  using rule_table_shift_bytes [of 1 3 "[ex_default, ex_connect, ex_connect\<lparr>fr_rule_id := 2\<rparr>]"]
  by (simp add: entry_shift_def)

end
