(* ===== verification/Fw_Routing.thy ===== *)
theory Fw_Routing
  imports Fw_Common Fw_Array
begin

text \<open>
  \<open>include/lions/firewall/routing.h\<close> and \<open>examples/firewall/routing/routing_table.c\<close>: the routing
  table. Entries store the masked address of their subnet; a route without a next hop is directly
  connected, any other is resolved by looking its next hop up again, three times at most. Addresses
  are in network byte order.
\<close>

subsection \<open>Definitions\<close>

definition FW_ROUTING_NONEXTHOP :: u32 where "FW_ROUTING_NONEXTHOP = 0"
definition FW_ROUTING_MAX_RECURSION :: nat where "FW_ROUTING_MAX_RECURSION = 3"

datatype fw_routing_err =
    ROUTING_ERR_OKAY
  | ROUTING_ERR_FULL
  | ROUTING_ERR_DUPLICATE
  | ROUTING_ERR_CLASH
  | ROUTING_ERR_INVALID_ID
  | ROUTING_ERR_INVALID_ROUTE

fun routing_err_code :: "fw_routing_err \<Rightarrow> nat" where
  "routing_err_code ROUTING_ERR_OKAY = 0"
| "routing_err_code ROUTING_ERR_FULL = 1"
| "routing_err_code ROUTING_ERR_DUPLICATE = 2"
| "routing_err_code ROUTING_ERR_CLASH = 3"
| "routing_err_code ROUTING_ERR_INVALID_ID = 4"
| "routing_err_code ROUTING_ERR_INVALID_ROUTE = 5"

definition fw_routing_err_str :: "string list" where
  "fw_routing_err_str = [''Ok.'', ''Out of memory error.'', ''Duplicate entry.'', ''Clashing entry.'',
     ''Invalid child node.'', ''Invalid route ID.'', ''Invalid route values.'']"

record fw_routing_entry =
  re_ip :: u32
  re_subnet :: u8
  re_interface :: u8
  re_next_hop :: u32

record fw_routing_table =
  rtab_capacity :: u16
  rtab_size :: u16
  rtab_entries :: "fw_routing_entry list"

definition routes :: "fw_routing_table \<Rightarrow> fw_routing_entry list" where
  "routes tbl = take (unat (rtab_size tbl)) (rtab_entries tbl)"

text \<open>The scan of one lookup: \<open>match\<close> is replaced by every matching entry that is not weaker.\<close>

fun route_scan :: "u32 \<Rightarrow> fw_routing_entry option \<Rightarrow> fw_routing_entry list \<Rightarrow> fw_routing_entry option" where
  "route_scan ip m [] = m"
| "route_scan ip m (e # es) =
     (if subnet_mask (re_subnet e) AND ip = re_ip e then
        (if m \<noteq> None \<and> re_subnet (the m) > re_subnet e
         then route_scan ip m es
         else route_scan ip (Some e) es)
      else route_scan ip m es)"

text \<open>The result is the error, the address of the next hop, and the subnet and interface, which the
  code leaves unwritten when there is no route. The first argument counts the lookups left.\<close>

fun find_route_loop :: "nat \<Rightarrow> fw_routing_table \<Rightarrow> u32 \<Rightarrow> fw_routing_err \<times> u32 \<times> (u8 \<times> u8) option" where
  "find_route_loop 0 tbl ip = (ROUTING_ERR_OKAY, FW_ROUTING_NONEXTHOP, None)"
| "find_route_loop (Suc n) tbl ip =
     (case route_scan ip None (routes tbl) of
        None \<Rightarrow> (ROUTING_ERR_OKAY, FW_ROUTING_NONEXTHOP, None)
      | Some m \<Rightarrow>
          if re_next_hop m = FW_ROUTING_NONEXTHOP
          then (ROUTING_ERR_OKAY, ip, Some (re_subnet m, re_interface m))
          else find_route_loop n tbl (re_next_hop m))"

definition fw_routing_find_route :: "fw_routing_table \<Rightarrow> u32 \<Rightarrow> fw_routing_err \<times> u32 \<times> (u8 \<times> u8) option" where
  "fw_routing_find_route tbl ip = find_route_loop FW_ROUTING_MAX_RECURSION tbl ip"

definition route_clashes :: "u32 \<Rightarrow> u8 \<Rightarrow> fw_routing_entry \<Rightarrow> bool" where
  "route_clashes ip subnet e \<longleftrightarrow> \<not> subnet \<noteq> re_subnet e \<and> \<not> subnet_mask subnet AND ip \<noteq> re_ip e"

definition fw_routing_table_add_route ::
  "fw_routing_table \<Rightarrow> u8 \<Rightarrow> u32 \<Rightarrow> u8 \<Rightarrow> u32 \<Rightarrow> fw_routing_err \<times> fw_routing_table" where
  "fw_routing_table_add_route tbl interface ip subnet next_hop =
     (if subnet = 0 \<and> next_hop = FW_ROUTING_NONEXTHOP then (ROUTING_ERR_INVALID_ROUTE, tbl)
      else if rtab_size tbl \<ge> rtab_capacity tbl then (ROUTING_ERR_FULL, tbl)
      else
        case find_index (route_clashes ip subnet) (routes tbl) of
          Some i \<Rightarrow>
            (if interface = re_interface (routes tbl ! i) \<and> next_hop = re_next_hop (routes tbl ! i)
             then ROUTING_ERR_DUPLICATE else ROUTING_ERR_CLASH, tbl)
        | None \<Rightarrow>
            let e = \<lparr>re_ip = subnet_mask subnet AND ip, re_subnet = subnet, re_interface = interface,
                     re_next_hop = next_hop\<rparr>
            in (ROUTING_ERR_OKAY,
                tbl\<lparr>rtab_size := rtab_size tbl + 1,
                    rtab_entries := (rtab_entries tbl)[unat (rtab_size tbl) := e]\<rparr>))"

text \<open>The shift runs to the capacity of the table, not to its size.\<close>

definition fw_routing_table_remove_route :: "fw_routing_table \<Rightarrow> u16 \<Rightarrow> fw_routing_err \<times> fw_routing_table" where
  "fw_routing_table_remove_route tbl route_id =
     (if route_id \<ge> rtab_size tbl then (ROUTING_ERR_INVALID_ID, tbl)
      else (ROUTING_ERR_OKAY,
            tbl\<lparr>rtab_entries := entry_shift (rtab_entries tbl) (unat (rtab_capacity tbl)) (unat route_id),
                rtab_size := rtab_size tbl - 1\<rparr>))"

fun add_initial_routes :: "fw_routing_table \<Rightarrow> fw_routing_entry list \<Rightarrow> fw_routing_table option" where
  "add_initial_routes tbl [] = Some tbl"
| "add_initial_routes tbl (r # rs) =
     (case fw_routing_table_add_route tbl (re_interface r) (re_ip r) (re_subnet r) (re_next_hop r) of
        (err, tbl') \<Rightarrow> do {
          c_assert (err = ROUTING_ERR_OKAY);
          add_initial_routes tbl' rs
        })"

definition fw_routing_table_init ::
  "fw_routing_entry list \<Rightarrow> u16 \<Rightarrow> fw_routing_entry list \<Rightarrow> u8 \<Rightarrow> fw_routing_table option" where
  "fw_routing_table_init region capacity initial_routes num_initial_routes =
     add_initial_routes \<lparr>rtab_capacity = capacity, rtab_size = 0, rtab_entries = region\<rparr>
       (take (unat num_initial_routes) initial_routes)"

subsection \<open>Longest prefix match\<close>

definition route_matches :: "u32 \<Rightarrow> fw_routing_entry \<Rightarrow> bool" where
  "route_matches ip e \<longleftrightarrow> subnet_mask (re_subnet e) AND ip = re_ip e"

definition is_lpm :: "fw_routing_table \<Rightarrow> u32 \<Rightarrow> fw_routing_entry \<Rightarrow> bool" where
  "is_lpm tbl ip m \<longleftrightarrow> m \<in> set (routes tbl) \<and> route_matches ip m \<and>
     (\<forall>e \<in> set (routes tbl). route_matches ip e \<longrightarrow> re_subnet e \<le> re_subnet m)"

definition distinct_routes :: "fw_routing_entry \<Rightarrow> fw_routing_entry \<Rightarrow> bool" where
  "distinct_routes e f \<longleftrightarrow> re_subnet e \<noteq> re_subnet f \<or> re_ip e \<noteq> re_ip f"

definition wf_routes :: "fw_routing_table \<Rightarrow> bool" where
  "wf_routes tbl \<longleftrightarrow> rtab_size tbl \<le> rtab_capacity tbl \<and>
     length (rtab_entries tbl) = unat (rtab_capacity tbl) \<and>
     (\<forall>e \<in> set (routes tbl). re_ip e = subnet_mask (re_subnet e) AND re_ip e \<and>
        \<not> (re_subnet e = 0 \<and> re_next_hop e = 0)) \<and>
     sorted_wrt distinct_routes (routes tbl)"

lemma route_scan_None:
  "route_scan ip m es = None \<longleftrightarrow> m = None \<and> (\<forall>e \<in> set es. \<not> route_matches ip e)"
  by (induction ip m es rule: route_scan.induct) (auto simp: route_matches_def)

lemma route_scan_Some:
  "route_scan ip m es = Some r \<Longrightarrow>
     (r \<in> set es \<and> route_matches ip r \<or> m = Some r) \<and>
     (\<forall>e \<in> set es. route_matches ip e \<longrightarrow> re_subnet e \<le> re_subnet r) \<and>
     (\<forall>x. m = Some x \<longrightarrow> re_subnet x \<le> re_subnet r)"
proof (induction ip m es rule: route_scan.induct)
  case (1 ip m)
  then show ?case by simp
next
  case (2 ip m e es)
  consider (other) "\<not> route_matches ip e"
    | (weaker) x where "route_matches ip e" "m = Some x" "re_subnet e < re_subnet x"
    | (takes) "route_matches ip e" "\<forall>x. m = Some x \<longrightarrow> re_subnet x \<le> re_subnet e"
    by (meson linorder_not_less)
  then show ?case
  proof cases
    case other
    with 2 show ?thesis by (auto simp: route_matches_def)
  next
    case weaker
    with 2 show ?thesis by (auto simp: route_matches_def)
  next
    case takes
    then have "\<not> (m \<noteq> None \<and> re_subnet (the m) > re_subnet e)" by (cases m) auto
    with takes 2 show ?thesis
      by (auto simp: route_matches_def)
  qed
qed

lemma routes_unique:
  assumes wf: "wf_routes tbl" and mn: "m \<in> set (routes tbl)" "n \<in> set (routes tbl)"
    and eq: "re_subnet m = re_subnet n" "re_ip m = re_ip n"
  shows "m = n"
proof -
  have so: "sorted_wrt distinct_routes (routes tbl)" using wf by (simp add: wf_routes_def)
  have c: "\<not> distinct_routes m n" "\<not> distinct_routes n m" using eq by (auto simp: distinct_routes_def)
  obtain i j where ij: "i < length (routes tbl)" "m = routes tbl ! i" "j < length (routes tbl)" "n = routes tbl ! j"
    using mn by (auto simp: in_set_conv_nth)
  have "\<not> i < j" "\<not> j < i" using sorted_wrt_nth_less [OF so] ij c by blast+
  then show ?thesis using ij by (simp add: not_less_iff_gr_or_eq)
qed

lemma lpm_unique:
  assumes wf: "wf_routes tbl" and "is_lpm tbl ip m" "is_lpm tbl ip n"
  shows "m = n"
proof (rule routes_unique [OF wf])
  show "re_subnet m = re_subnet n" using assms(2,3) by (auto simp: is_lpm_def intro: order_antisym)
  then show "re_ip m = re_ip n" using assms(2,3) by (auto simp: is_lpm_def route_matches_def)
qed (use assms(2,3) in \<open>auto simp: is_lpm_def\<close>)

lemma scan_lpm:
  assumes "wf_routes tbl"
  shows "route_scan ip None (routes tbl) = Some m \<longleftrightarrow> is_lpm tbl ip m"
proof
  assume "route_scan ip None (routes tbl) = Some m"
  from route_scan_Some [OF this] show "is_lpm tbl ip m" by (auto simp: is_lpm_def)
next
  assume m: "is_lpm tbl ip m"
  then have "route_scan ip None (routes tbl) \<noteq> None" by (auto simp: route_scan_None is_lpm_def)
  then obtain r where r: "route_scan ip None (routes tbl) = Some r" by blast
  then have "is_lpm tbl ip r" using route_scan_Some [OF r] by (auto simp: is_lpm_def)
  with r m lpm_unique [OF assms] show "route_scan ip None (routes tbl) = Some m" by blast
qed

text \<open>Resolution of an address as a relation: follow next hops through longest-prefix matches to a
  directly connected route, in at most \<open>n\<close> lookups.\<close>

inductive routed :: "fw_routing_table \<Rightarrow> nat \<Rightarrow> u32 \<Rightarrow> u32 \<Rightarrow> u8 \<Rightarrow> u8 \<Rightarrow> bool" for tbl where
  direct: "is_lpm tbl ip m \<Longrightarrow> re_next_hop m = 0 \<Longrightarrow>
     routed tbl (Suc n) ip ip (re_subnet m) (re_interface m)"
| via: "is_lpm tbl ip m \<Longrightarrow> re_next_hop m \<noteq> 0 \<Longrightarrow> routed tbl n (re_next_hop m) hop s i \<Longrightarrow>
     routed tbl (Suc n) ip hop s i"

inductive_cases routed_0E: "routed tbl 0 ip hop s i"
inductive_cases routed_SucE: "routed tbl (Suc n) ip hop s i"

lemma find_route_loop_routed:
  assumes wf: "wf_routes tbl"
  shows "find_route_loop n tbl ip = (ROUTING_ERR_OKAY, hop, Some (s, i)) \<longleftrightarrow> routed tbl n ip hop s i"
proof (induction n arbitrary: ip)
  case 0
  then show ?case by (auto elim: routed_0E)
next
  case (Suc n)
  show ?case
  proof (cases "route_scan ip None (routes tbl)")
    case None
    have "\<not> routed tbl (Suc n) ip hop s i"
    proof
      assume "routed tbl (Suc n) ip hop s i"
      then obtain m where "is_lpm tbl ip m" by (rule routed_SucE)
      then show False using None by (simp flip: scan_lpm [OF wf])
    qed
    with None show ?thesis by simp
  next
    case (Some m)
    then have m: "is_lpm tbl ip m" by (simp add: scan_lpm [OF wf])
    have only: "m' = m" if "is_lpm tbl ip m'" for m' using lpm_unique [OF wf that m] .
    show ?thesis
    proof (cases "re_next_hop m = 0")
      case True
      have "routed tbl (Suc n) ip hop s i \<longleftrightarrow> hop = ip \<and> s = re_subnet m \<and> i = re_interface m"
      proof
        assume "routed tbl (Suc n) ip hop s i"
        then show "hop = ip \<and> s = re_subnet m \<and> i = re_interface m"
          by (rule routed_SucE) (use True only in blast)+
      next
        assume "hop = ip \<and> s = re_subnet m \<and> i = re_interface m"
        then show "routed tbl (Suc n) ip hop s i" using routed.direct [OF m True] by simp
      qed
      with Some True show ?thesis by (auto simp: FW_ROUTING_NONEXTHOP_def)
    next
      case False
      have "routed tbl (Suc n) ip hop s i \<longleftrightarrow> routed tbl n (re_next_hop m) hop s i"
      proof
        assume "routed tbl (Suc n) ip hop s i"
        then show "routed tbl n (re_next_hop m) hop s i"
          by (rule routed_SucE) (use False only in blast)+
      qed (rule routed.via [OF m False])
      with Some False Suc.IH show ?thesis by (simp add: FW_ROUTING_NONEXTHOP_def)
    qed
  qed
qed

lemma find_route_loop_cases:
  "find_route_loop n tbl ip = (ROUTING_ERR_OKAY, FW_ROUTING_NONEXTHOP, None) \<or>
   (\<exists>hop s i. find_route_loop n tbl ip = (ROUTING_ERR_OKAY, hop, Some (s, i)))"
  by (induction n arbitrary: ip) (auto split: option.splits)

subsection \<open>Changing the table\<close>

lemma routes_len:
  "wf_routes tbl \<Longrightarrow> length (routes tbl) = unat (rtab_size tbl)"
  by (simp add: wf_routes_def routes_def word_le_nat_alt)

lemma add_route_cases:
  assumes wf: "wf_routes tbl" and ret: "fw_routing_table_add_route tbl ifc ip sn hop = (err, tbl')"
  shows "wf_routes tbl' \<and> rtab_capacity tbl' = rtab_capacity tbl \<and>
    (if sn = 0 \<and> hop = 0 then err = ROUTING_ERR_INVALID_ROUTE \<and> tbl' = tbl
     else if rtab_size tbl = rtab_capacity tbl then err = ROUTING_ERR_FULL \<and> tbl' = tbl
     else if \<exists>e \<in> set (routes tbl). route_clashes ip sn e
     then err = (if \<exists>e \<in> set (routes tbl). route_clashes ip sn e \<and> re_interface e = ifc \<and> re_next_hop e = hop
       then ROUTING_ERR_DUPLICATE else ROUTING_ERR_CLASH) \<and> tbl' = tbl
     else err = ROUTING_ERR_OKAY \<and> routes tbl' = routes tbl @
       [\<lparr>re_ip = subnet_mask sn AND ip, re_subnet = sn, re_interface = ifc, re_next_hop = hop\<rparr>])"
proof -
  have le: "rtab_size tbl \<le> rtab_capacity tbl"
    and len: "length (rtab_entries tbl) = unat (rtab_capacity tbl)"
    and ok: "\<forall>e \<in> set (routes tbl). re_ip e = subnet_mask (re_subnet e) AND re_ip e \<and>
        \<not> (re_subnet e = 0 \<and> re_next_hop e = 0)"
    and so: "sorted_wrt distinct_routes (routes tbl)"
    using wf by (simp_all add: wf_routes_def)
  consider (bad) "sn = 0 \<and> hop = 0" | (full) "\<not> (sn = 0 \<and> hop = 0)" "rtab_size tbl = rtab_capacity tbl"
    | (clash) k where "\<not> (sn = 0 \<and> hop = 0)" "rtab_size tbl < rtab_capacity tbl"
        "find_index (route_clashes ip sn) (routes tbl) = Some k"
    | (new) "\<not> (sn = 0 \<and> hop = 0)" "rtab_size tbl < rtab_capacity tbl"
        "find_index (route_clashes ip sn) (routes tbl) = None"
    using le unfolding order_le_less by (cases "find_index (route_clashes ip sn) (routes tbl)") auto
  then show ?thesis
  proof cases
    case bad
    with ret wf show ?thesis by (simp add: fw_routing_table_add_route_def FW_ROUTING_NONEXTHOP_def)
  next
    case full
    with ret wf show ?thesis by (auto simp: fw_routing_table_add_route_def FW_ROUTING_NONEXTHOP_def)
  next
    case clash
    let ?e = "routes tbl ! k"
    have e: "?e \<in> set (routes tbl)" "route_clashes ip sn ?e"
      using find_index_less [OF clash(3)] find_index_holds [OF clash(3)] by auto
    have "f = ?e" if "f \<in> set (routes tbl)" "route_clashes ip sn f" for f
      using that e by (intro routes_unique [OF wf]) (auto simp: route_clashes_def)
    then have "(\<exists>f \<in> set (routes tbl). route_clashes ip sn f \<and> re_interface f = ifc \<and> re_next_hop f = hop) \<longleftrightarrow>
        ifc = re_interface ?e \<and> hop = re_next_hop ?e"
      using e by blast
    moreover have "err = (if ifc = re_interface ?e \<and> hop = re_next_hop ?e
        then ROUTING_ERR_DUPLICATE else ROUTING_ERR_CLASH) \<and> tbl' = tbl"
      using ret unfolding fw_routing_table_add_route_def FW_ROUTING_NONEXTHOP_def if_not_P [OF clash(1)]
        if_not_P [OF clash(2) [unfolded linorder_not_le [symmetric]]] clash(3)
      by auto
    ultimately show ?thesis using wf e clash(1,2) by auto
  next
    case new
    let ?e = "\<lparr>re_ip = subnet_mask sn AND ip, re_subnet = sn, re_interface = ifc, re_next_hop = hop\<rparr>"
    let ?t = "tbl\<lparr>rtab_size := rtab_size tbl + 1,
        rtab_entries := (rtab_entries tbl)[unat (rtab_size tbl) := ?e]\<rparr>"
    have t: "err = ROUTING_ERR_OKAY" "tbl' = ?t"
      using ret unfolding fw_routing_table_add_route_def FW_ROUTING_NONEXTHOP_def if_not_P [OF new(1)]
        if_not_P [OF new(2) [unfolded linorder_not_le [symmetric]]] new(3)
      by (simp_all add: Let_def)
    have lt: "unat (rtab_size tbl) < unat (rtab_capacity tbl)" using new(2) by (simp add: word_less_nat_alt)
    have r: "routes tbl' = routes tbl @ [?e]"
      using word_step(1) [OF new(2)] lt len by (simp add: t routes_def take_Suc_conv_app_nth)
    have "rtab_size tbl' \<le> rtab_capacity tbl'"
      using word_step(1) [OF new(2)] lt by (simp add: t word_le_nat_alt)
    moreover have "\<forall>e \<in> set (routes tbl). distinct_routes e ?e"
      using new(3) by (auto simp: find_index_None_iff route_clashes_def distinct_routes_def)
    then have "sorted_wrt distinct_routes (routes tbl')" using so by (simp add: r sorted_wrt_append)
    moreover have "\<forall>e \<in> set (routes tbl'). re_ip e = subnet_mask (re_subnet e) AND re_ip e \<and>
        \<not> (re_subnet e = 0 \<and> re_next_hop e = 0)"
      using ok new(1) by (auto simp: r)
    moreover have "length (rtab_entries tbl') = unat (rtab_capacity tbl')" using len by (simp add: t)
    ultimately have "wf_routes tbl'" unfolding wf_routes_def by blast
    with t r new show ?thesis by (auto simp: find_index_None_iff)
  qed
qed

lemma take_entry_shift_capacity:
  assumes "i < n" "n \<le> c" "c \<le> length xs"
  shows "take (n - 1) (entry_shift xs c i) = remove_nth i (take n xs)"
proof -
  have "take (n - 1) (entry_shift xs c i) = take (n - 1) (take (c - 1) (entry_shift xs c i))"
    using assms by (simp add: min_def)
  also have "\<dots> = take (n - 1) (remove_nth i (take c xs))"
    using take_entry_shift [of i c xs] assms by simp
  also have "\<dots> = remove_nth i (take n xs)"
    using assms by (cases "i = n - 1") (auto simp: remove_nth_def drop_take min_def)
  finally show ?thesis .
qed

lemma remove_route_cases:
  assumes wf: "wf_routes tbl" and ret: "fw_routing_table_remove_route tbl i = (err, tbl')"
  shows "wf_routes tbl' \<and> rtab_capacity tbl' = rtab_capacity tbl \<and>
    (if i \<ge> rtab_size tbl then err = ROUTING_ERR_INVALID_ID \<and> tbl' = tbl
     else err = ROUTING_ERR_OKAY \<and> routes tbl' = remove_nth (unat i) (routes tbl))"
proof (cases "i \<ge> rtab_size tbl")
  case True
  with ret wf show ?thesis by (auto simp: fw_routing_table_remove_route_def)
next
  case False
  have le: "unat (rtab_size tbl) \<le> unat (rtab_capacity tbl)"
    and len: "length (rtab_entries tbl) = unat (rtab_capacity tbl)"
    and ok: "\<forall>e \<in> set (routes tbl). re_ip e = subnet_mask (re_subnet e) AND re_ip e \<and>
        \<not> (re_subnet e = 0 \<and> re_next_hop e = 0)"
    and so: "sorted_wrt distinct_routes (routes tbl)"
    using wf by (simp_all add: wf_routes_def word_le_nat_alt)
  have lt: "i < rtab_size tbl" using False by simp
  then have n: "unat i < unat (rtab_size tbl)" by (simp add: word_less_nat_alt)
  let ?t = "tbl\<lparr>rtab_entries := entry_shift (rtab_entries tbl) (unat (rtab_capacity tbl)) (unat i),
                rtab_size := rtab_size tbl - 1\<rparr>"
  have t: "err = ROUTING_ERR_OKAY" "tbl' = ?t"
    using ret False by (auto simp: fw_routing_table_remove_route_def)
  have r: "routes tbl' = remove_nth (unat i) (routes tbl)"
    using take_entry_shift_capacity [OF n le, of "rtab_entries tbl"] len word_step(2) [OF lt]
    by (simp add: t routes_def)
  have "unat (rtab_size tbl - 1) \<le> unat (rtab_capacity tbl)" using word_step(2) [OF lt] le by linarith
  then have "rtab_size tbl' \<le> rtab_capacity tbl'" by (simp add: t word_le_nat_alt)
  moreover have "length (rtab_entries tbl') = unat (rtab_capacity tbl')"
    using len n le by (simp add: t)
  moreover have "\<forall>e \<in> set (routes tbl'). re_ip e = subnet_mask (re_subnet e) AND re_ip e \<and>
        \<not> (re_subnet e = 0 \<and> re_next_hop e = 0)"
    using ok set_remove_nth [of "unat i" "routes tbl"] unfolding r by blast
  moreover have "sorted_wrt distinct_routes (routes tbl')" using so by (simp add: r sorted_wrt_remove_nth)
  ultimately have "wf_routes tbl'" unfolding wf_routes_def by blast
  with t r False show ?thesis by simp
qed

lemma add_initial_routes_wf:
  "wf_routes tbl \<Longrightarrow> add_initial_routes tbl rs = Some tbl' \<Longrightarrow> wf_routes tbl' \<and>
    routes tbl' = routes tbl @ map (\<lambda>r. r\<lparr>re_ip := subnet_mask (re_subnet r) AND re_ip r\<rparr>) rs"
proof (induction rs arbitrary: tbl)
  case Nil
  then show ?case by simp
next
  case (Cons r rs)
  obtain err t1 where a: "fw_routing_table_add_route tbl (re_interface r) (re_ip r) (re_subnet r) (re_next_hop r) = (err, t1)"
    by (cases "fw_routing_table_add_route tbl (re_interface r) (re_ip r) (re_subnet r) (re_next_hop r)")
  then have b: "err = ROUTING_ERR_OKAY" "add_initial_routes t1 rs = Some tbl'"
    using Cons.prems(2) by (auto split: if_splits)
  note c = add_route_cases [OF Cons.prems(1) a]
  have "\<lparr>re_ip = subnet_mask (re_subnet r) AND re_ip r, re_subnet = re_subnet r,
      re_interface = re_interface r, re_next_hop = re_next_hop r\<rparr> =
      r\<lparr>re_ip := subnet_mask (re_subnet r) AND re_ip r\<rparr>" by simp
  with c b(1) have "routes t1 = routes tbl @ [r\<lparr>re_ip := subnet_mask (re_subnet r) AND re_ip r\<rparr>]"
    by (auto split: if_splits)
  with Cons.IH [OF _ b(2)] c show ?case by simp
qed

text \<open>The bytes of an entry: 12, two of padding before the next hop.\<close>

definition fw_routing_entry_bytes :: "fw_routing_entry \<Rightarrow> u8 list" where
  "fw_routing_entry_bytes e =
     le32 (re_ip e) @ [re_subnet e, re_interface e, 0, 0] @ le32 (re_next_hop e)"

interpretation route_entry: fixed_size_entry fw_routing_entry_bytes 12
  by unfold_locales (simp add: fw_routing_entry_bytes_def)

subsection \<open>Properties\<close>

text \<open>An example table: 10.0.0.0/8 and 10.1.0.0/16 attached to interfaces 1 and 2, a route to
  192.168.0.0/16 over a router in the second network.\<close>

definition ex_routes :: fw_routing_table where
  "ex_routes = \<lparr>rtab_capacity = 4, rtab_size = 3, rtab_entries =
     [\<lparr>re_ip = 0x0000000A, re_subnet = 8, re_interface = 1, re_next_hop = 0\<rparr>,
      \<lparr>re_ip = 0x0000010A, re_subnet = 16, re_interface = 2, re_next_hop = 0\<rparr>,
      \<lparr>re_ip = 0x0000A8C0, re_subnet = 16, re_interface = 9, re_next_hop = 0x0100010A\<rparr>,
      \<lparr>re_ip = 0, re_subnet = 0, re_interface = 0, re_next_hop = 0\<rparr>]\<rparr>"

lemma ex_routes_eq: "routes ex_routes =
     [\<lparr>re_ip = 0x0000000A, re_subnet = 8, re_interface = 1, re_next_hop = 0\<rparr>,
      \<lparr>re_ip = 0x0000010A, re_subnet = 16, re_interface = 2, re_next_hop = 0\<rparr>,
      \<lparr>re_ip = 0x0000A8C0, re_subnet = 16, re_interface = 9, re_next_hop = 0x0100010A\<rparr>]"
  by (simp add: routes_def ex_routes_def)

lemma ex_routes_size: "rtab_size ex_routes = 3" by (simp add: ex_routes_def)

lemma ex_masks: "subnet_mask 8 = 0xFF" "subnet_mask 16 = 0xFFFF"
  by (simp_all add: subnet_mask_def htonl_def)

lemma ex_routes_wf: "wf_routes ex_routes"
  unfolding wf_routes_def ex_routes_eq
  by (simp add: ex_masks distinct_routes_def) (simp add: ex_routes_def)

text \<open>C28: in a well-formed table a lookup resolves an address exactly when following next hops
  through longest-prefix matches reaches a directly connected route within three lookups; the result
  is the last hop, its subnet and its interface. Otherwise the result is no next hop. A table whose
  routes lead in a circle never hangs the router.\<close>

theorem fw_routing_find_route_resolves:
  assumes "wf_routes tbl"
  shows "(fw_routing_find_route tbl ip = (ROUTING_ERR_OKAY, hop, Some (s, i)) \<longleftrightarrow> routed tbl 3 ip hop s i) \<and>
    ((\<nexists>hop s i. routed tbl 3 ip hop s i) \<longleftrightarrow>
       fw_routing_find_route tbl ip = (ROUTING_ERR_OKAY, FW_ROUTING_NONEXTHOP, None))"
  using find_route_loop_routed [OF assms, of 3 ip] find_route_loop_cases [of 3 tbl ip]
  unfolding fw_routing_find_route_def FW_ROUTING_MAX_RECURSION_def by (metis option.distinct(1) prod.inject)

theorem fw_routing_find_route_resolves_witness:
  "routed ex_routes 3 0x0500A8C0 0x0100010A 16 2"
  using fw_routing_find_route_resolves [OF ex_routes_wf, of "0x0500A8C0" "0x0100010A" 16 2]
  by (simp add: fw_routing_find_route_def FW_ROUTING_MAX_RECURSION_def FW_ROUTING_NONEXTHOP_def
      numeral_3_eq_3 ex_routes_eq ex_masks)

text \<open>A well-formed table has at most one longest-prefix match for an address, and the scan of the
  table finds it whatever the order of the entries.\<close>

theorem route_scan_longest_prefix:
  assumes "wf_routes tbl"
  shows "(route_scan ip None (routes tbl) = Some m \<longleftrightarrow>
      m \<in> set (routes tbl) \<and> ip_prefix (re_subnet m) ip = ip_prefix (re_subnet m) (re_ip m) \<and>
      (\<forall>e \<in> set (routes tbl). ip_prefix (re_subnet e) ip = ip_prefix (re_subnet e) (re_ip e) \<longrightarrow>
         re_subnet e \<le> re_subnet m))"
proof -
  have "route_matches ip e \<longleftrightarrow> ip_prefix (re_subnet e) ip = ip_prefix (re_subnet e) (re_ip e)"
    if "e \<in> set (routes tbl)" for e
    using assms that unfolding wf_routes_def route_matches_def by (metis masked_eq_iff_prefix)
  then show ?thesis using scan_lpm [OF assms, of ip m] unfolding is_lpm_def by blast
qed

theorem route_scan_longest_prefix_witness:
  "route_scan 0x0500010A None (routes ex_routes) =
     Some \<lparr>re_ip = 0x0000010A, re_subnet = 16, re_interface = 2, re_next_hop = 0\<rparr> \<and>
   ip_prefix 16 0x0500010A = ip_prefix 16 0x0000010A"
  using route_scan_longest_prefix [OF ex_routes_wf, of "0x0500010A"
      "\<lparr>re_ip = 0x0000010A, re_subnet = 16, re_interface = 2, re_next_hop = 0\<rparr>"]
  by (simp add: ex_routes_eq ex_masks)

text \<open>C34: adding and removing routes keeps the table well formed, with one route per subnet. An added
  route goes to the end with its address masked; a removed one leaves the others in order. Invalid
  routes, a full table, clashes and unknown positions change nothing.\<close>

theorem routing_table_updates:
  assumes "wf_routes tbl"
  shows "(\<exists>err tbl'. fw_routing_table_add_route tbl ifc ip sn hop = (err, tbl') \<and> wf_routes tbl' \<and>
      (if sn = 0 \<and> hop = 0 then err = ROUTING_ERR_INVALID_ROUTE \<and> tbl' = tbl
       else if rtab_size tbl = rtab_capacity tbl then err = ROUTING_ERR_FULL \<and> tbl' = tbl
       else if \<exists>e \<in> set (routes tbl). re_subnet e = sn \<and> re_ip e = subnet_mask sn AND ip
       then err = (if \<exists>e \<in> set (routes tbl). re_subnet e = sn \<and> re_ip e = subnet_mask sn AND ip \<and>
             re_interface e = ifc \<and> re_next_hop e = hop
           then ROUTING_ERR_DUPLICATE else ROUTING_ERR_CLASH) \<and> tbl' = tbl
       else err = ROUTING_ERR_OKAY \<and> routes tbl' = routes tbl @
         [\<lparr>re_ip = subnet_mask sn AND ip, re_subnet = sn, re_interface = ifc, re_next_hop = hop\<rparr>])) \<and>
    (\<exists>err tbl'. fw_routing_table_remove_route tbl i = (err, tbl') \<and> wf_routes tbl' \<and>
      (if i \<ge> rtab_size tbl then err = ROUTING_ERR_INVALID_ID \<and> tbl' = tbl
       else err = ROUTING_ERR_OKAY \<and> routes tbl' = remove_nth (unat i) (routes tbl)))"
proof -
  obtain e1 t1 where a: "fw_routing_table_add_route tbl ifc ip sn hop = (e1, t1)"
    by (cases "fw_routing_table_add_route tbl ifc ip sn hop")
  obtain e2 t2 where r: "fw_routing_table_remove_route tbl i = (e2, t2)"
    by (cases "fw_routing_table_remove_route tbl i")
  have c: "route_clashes ip sn e \<longleftrightarrow> re_subnet e = sn \<and> re_ip e = subnet_mask sn AND ip" for e
    by (auto simp: route_clashes_def)
  show ?thesis
    using add_route_cases [OF assms a] remove_route_cases [OF assms r] a r unfolding c conj_assoc by blast
qed

theorem routing_table_updates_witness:
  "\<exists>tbl. fw_routing_table_remove_route ex_routes 1 = (ROUTING_ERR_OKAY, tbl) \<and> wf_routes tbl \<and>
    length (routes tbl) = 2"
  using routing_table_updates [OF ex_routes_wf, of 0 0 0 0 1]
  by (auto simp: ex_routes_eq ex_routes_size remove_nth_def word_le_nat_alt)

text \<open>The table of error messages does not follow the enumeration: the message of an invalid route
  identifier talks about a child node, and that of an invalid route about an identifier.\<close>

theorem routing_error_messages_shifted:
  "fw_routing_err_str ! routing_err_code ROUTING_ERR_INVALID_ID = ''Invalid child node.'' \<and>
   fw_routing_err_str ! routing_err_code ROUTING_ERR_INVALID_ROUTE = ''Invalid route ID.''"
  by (simp add: fw_routing_err_str_def)

text \<open>The initial routes of the configuration, if no assertion fails, are the routes of the table,
  in order and masked, and the table is well formed.\<close>

theorem fw_routing_table_init_wf:
  assumes "length region = unat capacity"
    and "fw_routing_table_init region capacity initial n = Some tbl"
  shows "wf_routes tbl \<and>
    routes tbl = map (\<lambda>r. r\<lparr>re_ip := subnet_mask (re_subnet r) AND re_ip r\<rparr>) (take (unat n) initial)"
proof -
  have "wf_routes \<lparr>rtab_capacity = capacity, rtab_size = 0, rtab_entries = region\<rparr>"
    "routes \<lparr>rtab_capacity = capacity, rtab_size = 0, rtab_entries = region\<rparr> = []"
    using assms(1) by (simp_all add: wf_routes_def routes_def)
  with add_initial_routes_wf assms(2) show ?thesis
    unfolding fw_routing_table_init_def by fastforce
qed

theorem fw_routing_table_init_wf_witness:
  "\<exists>tbl. fw_routing_table_init (rtab_entries ex_routes) 4 [\<lparr>re_ip = 0x0100000A, re_subnet = 8,
      re_interface = 1, re_next_hop = 0\<rparr>] 1 = Some tbl \<and>
    routes tbl = [\<lparr>re_ip = 0x0000000A, re_subnet = 8, re_interface = 1, re_next_hop = 0\<rparr>]"
proof -
  have "\<exists>tbl. fw_routing_table_init (rtab_entries ex_routes) 4 [\<lparr>re_ip = 0x0100000A, re_subnet = 8,
      re_interface = 1, re_next_hop = 0\<rparr>] 1 = Some tbl"
    by (simp add: fw_routing_table_init_def fw_routing_table_add_route_def routes_def)
  with fw_routing_table_init_wf [of "rtab_entries ex_routes" 4] show ?thesis
    by (fastforce simp: ex_routes_def ex_masks)
qed

end
