(* ===== verification/Fw_Packet_Queue.thy ===== *)
theory Fw_Packet_Queue
  imports Fw_Common Fw_Routing
begin

text \<open>
  \<open>examples/firewall/routing/packet_queue.c\<close> with its types in
  \<open>include/lions/firewall/routing.h\<close>: the packets that wait for the MAC address of their next hop.
  The nodes live in one array and are linked by 16-bit indices: a doubly linked list of root nodes,
  one per next hop, each with a singly linked list of children in arrival order, and a free list.
  Links that the code does not maintain keep stale values, and are never followed, because the lists
  are traversed by their counters.
\<close>

subsection \<open>Definitions\<close>

record pkt_waiting_node =
  pn_next :: u16
  pn_prev :: u16
  pn_child :: u16
  pn_num_children :: u16
  pn_tail :: u16
  pn_ip :: u32
  pn_buffer :: fw_buff_desc

record pkts_waiting =
  pw_packets :: "pkt_waiting_node list"
  pw_capacity :: u16
  pw_size :: u16
  pw_length :: u16
  pw_head :: u16
  pw_tail :: u16
  pw_free :: u16

abbreviation node :: "pkts_waiting \<Rightarrow> u16 \<Rightarrow> pkt_waiting_node" where
  "node pw i \<equiv> pw_packets pw ! unat i"

definition upd_node :: "u16 \<Rightarrow> (pkt_waiting_node \<Rightarrow> pkt_waiting_node) \<Rightarrow> pkts_waiting \<Rightarrow> pkts_waiting" where
  "upd_node i f pw = pw\<lparr>pw_packets := (pw_packets pw)[unat i := f (node pw i)]\<rparr>"

text \<open>Initialisation writes the array, its capacity and the free list; the counters and the list
  heads keep the zeroes of static memory.\<close>

definition pkt_waiting_init :: "pkts_waiting \<Rightarrow> pkt_waiting_node list \<Rightarrow> u16 \<Rightarrow> pkts_waiting" where
  "pkt_waiting_init pw packets capacity = pw
     \<lparr>pw_packets := map (\<lambda>i. if i < unat capacity then (packets ! i)\<lparr>pn_next := of_nat (i + 1)\<rparr>
                         else packets ! i) [0..<length packets],
      pw_capacity := capacity\<rparr>"

definition pkt_waiting_full :: "pkts_waiting \<Rightarrow> bool" where
  "pkt_waiting_full pw \<longleftrightarrow> pw_size pw = pw_capacity pw"

fun find_node_loop :: "nat \<Rightarrow> pkts_waiting \<Rightarrow> u16 \<Rightarrow> u32 \<Rightarrow> u16 option" where
  "find_node_loop 0 pw i ip = None"
| "find_node_loop (Suc n) pw i ip =
     (if pn_ip (node pw i) = ip then Some i else find_node_loop n pw (pn_next (node pw i)) ip)"

definition pkt_waiting_find_node :: "pkts_waiting \<Rightarrow> u32 \<Rightarrow> u16 option" where
  "pkt_waiting_find_node pw ip = find_node_loop (unat (pw_length pw)) pw (pw_head pw) ip"

definition pkts_waiting_next_child :: "pkts_waiting \<Rightarrow> u16 \<Rightarrow> u16" where
  "pkts_waiting_next_child pw i = pn_child (node pw i)"

definition pkt_waiting_push_child :: "pkts_waiting \<Rightarrow> u16 \<Rightarrow> fw_buff_desc \<Rightarrow> fw_routing_err \<times> pkts_waiting" where
  "pkt_waiting_push_child pw root buffer =
     (if pkt_waiting_full pw then (ROUTING_ERR_FULL, pw)
      else
        let new_idx = pw_free pw;
            pw1 = upd_node new_idx (\<lambda>n. n\<lparr>pn_buffer := buffer\<rparr>) pw;
            pw2 = pw1\<lparr>pw_free := pn_next (node pw1 new_idx)\<rparr>;
            pw3 = upd_node (pn_tail (node pw2 root)) (\<lambda>n. n\<lparr>pn_child := new_idx\<rparr>) pw2;
            pw4 = upd_node root (\<lambda>n. n\<lparr>pn_tail := new_idx\<rparr>) pw3;
            pw5 = upd_node root (\<lambda>n. n\<lparr>pn_num_children := pn_num_children n + 1\<rparr>) pw4
        in (ROUTING_ERR_OKAY, pw5\<lparr>pw_size := pw_size pw5 + 1\<rparr>))"

definition pkt_waiting_push :: "pkts_waiting \<Rightarrow> u32 \<Rightarrow> fw_buff_desc \<Rightarrow> fw_routing_err \<times> pkts_waiting" where
  "pkt_waiting_push pw ip buffer =
     (if pkt_waiting_full pw then (ROUTING_ERR_FULL, pw)
      else
        let new_idx = pw_free pw;
            pw1 = upd_node new_idx (\<lambda>n. n\<lparr>pn_num_children := 0, pn_ip := ip, pn_buffer := buffer,
                    pn_tail := new_idx\<rparr>) pw;
            pw2 = pw1\<lparr>pw_free := pn_next (node pw1 new_idx)\<rparr>;
            pw3 = (if pw_length pw2 \<noteq> 0 then
                     let head_idx = pw_head pw2
                     in upd_node head_idx (\<lambda>n. n\<lparr>pn_prev := new_idx\<rparr>)
                          (upd_node new_idx (\<lambda>n. n\<lparr>pn_next := head_idx\<rparr>) pw2)
                   else pw2\<lparr>pw_tail := new_idx\<rparr>);
            pw4 = pw3\<lparr>pw_head := new_idx\<rparr>
        in (ROUTING_ERR_OKAY, pw4\<lparr>pw_length := pw_length pw4 + 1, pw_size := pw_size pw4 + 1\<rparr>))"

fun free_children :: "nat \<Rightarrow> u16 \<Rightarrow> pkts_waiting \<Rightarrow> pkts_waiting" where
  "free_children 0 child_idx pw = pw"
| "free_children (Suc n) child_idx pw =
     (let pw1 = upd_node child_idx (\<lambda>c. c\<lparr>pn_next := pw_free pw\<rparr>) pw;
          pw2 = pw1\<lparr>pw_free := child_idx, pw_size := pw_size pw1 - 1\<rparr>
      in free_children n (pkts_waiting_next_child pw2 child_idx) pw2)"

definition pkts_waiting_free_parent :: "pkts_waiting \<Rightarrow> u16 \<Rightarrow> fw_routing_err \<times> pkts_waiting" where
  "pkts_waiting_free_parent pw root =
     (let pw1 = free_children (unat (pn_num_children (node pw root))) (pkts_waiting_next_child pw root) pw;
          pw2 = (if root = pw_head pw1 then pw1\<lparr>pw_head := pn_next (node pw1 root)\<rparr>
                 else upd_node (pn_prev (node pw1 root)) (\<lambda>n. n\<lparr>pn_next := pn_next (node pw1 root)\<rparr>) pw1);
          pw3 = (if root = pw_tail pw2 then pw2\<lparr>pw_tail := pn_prev (node pw2 root)\<rparr>
                 else upd_node (pn_next (node pw2 root)) (\<lambda>n. n\<lparr>pn_prev := pn_prev (node pw2 root)\<rparr>) pw2);
          pw4 = upd_node root (\<lambda>n. n\<lparr>pn_next := pw_free pw3\<rparr>) pw3
      in (ROUTING_ERR_OKAY,
          pw4\<lparr>pw_free := root, pw_length := pw_length pw4 - 1, pw_size := pw_size pw4 - 1\<rparr>))"

text \<open>The packets of a root node in the order the router walks them: its own buffer, then those of
  its children (\<open>process_arp_waiting\<close> of \<open>routing.c\<close>).\<close>

fun child_buffers :: "nat \<Rightarrow> pkts_waiting \<Rightarrow> u16 \<Rightarrow> fw_buff_desc list" where
  "child_buffers 0 pw i = []"
| "child_buffers (Suc n) pw i =
     (let c = pkts_waiting_next_child pw i in pn_buffer (node pw c) # child_buffers n pw c)"

definition waiting_buffers :: "pkts_waiting \<Rightarrow> u16 \<Rightarrow> fw_buff_desc list" where
  "waiting_buffers pw root =
     pn_buffer (node pw root) # child_buffers (unat (pn_num_children (node pw root))) pw root"

subsection \<open>The shape of the lists\<close>

text \<open>Following a link from each element of a list leads to the next one.\<close>

fun linked :: "(u16 \<Rightarrow> u16) \<Rightarrow> u16 list \<Rightarrow> bool" where
  "linked f [] = True"
| "linked f [x] = True"
| "linked f (x # y # zs) = (f x = y \<and> linked f (y # zs))"

lemma linked_cong:
  "(\<And>x. x \<in> set xs \<Longrightarrow> f x = g x) \<Longrightarrow> linked f xs = linked g xs"
  by (induction f xs rule: linked.induct) auto

lemma linked_Cons: "linked f (x # xs) \<longleftrightarrow> (xs = [] \<or> f x = hd xs) \<and> linked f xs"
  by (cases xs) auto

lemma linked_append:
  "linked f (xs @ ys) \<longleftrightarrow> linked f xs \<and> linked f ys \<and> (xs = [] \<or> ys = [] \<or> f (last xs) = hd ys)"
  by (induction f xs rule: linked.induct) (auto simp: linked_Cons)

text \<open>A root with its children, by index; the queue as the list of roots from the head, and the
  free nodes from the head of the free list.\<close>

type_synonym shape = "(u16 \<times> u16 list) list"

definition shape_nodes :: "shape \<Rightarrow> u16 list" where
  "shape_nodes rs = concat (map (\<lambda>(r, cs). r # cs) rs)"

definition root_ok :: "pkts_waiting \<Rightarrow> u16 \<times> u16 list \<Rightarrow> bool" where
  "root_ok pw = (\<lambda>(r, cs). unat (pn_num_children (node pw r)) = length cs \<and>
     linked (\<lambda>i. pn_child (node pw i)) (r # cs) \<and> pn_tail (node pw r) = last (r # cs))"

definition pq_shape :: "pkts_waiting \<Rightarrow> shape \<Rightarrow> u16 list \<Rightarrow> bool" where
  "pq_shape pw rs fs \<longleftrightarrow>
     length (pw_packets pw) = unat (pw_capacity pw) \<and>
     distinct (shape_nodes rs @ fs) \<and>
     (\<forall>i \<in> set (shape_nodes rs @ fs). i < pw_capacity pw) \<and>
     length (shape_nodes rs) + length fs = unat (pw_capacity pw) \<and>
     unat (pw_size pw) = length (shape_nodes rs) \<and> unat (pw_length pw) = length rs \<and>
     (rs \<noteq> [] \<longrightarrow> pw_head pw = fst (hd rs) \<and> pw_tail pw = fst (last rs)) \<and>
     linked (\<lambda>i. pn_next (node pw i)) (map fst rs) \<and>
     linked (\<lambda>i. pn_prev (node pw i)) (rev (map fst rs)) \<and>
     (\<forall>p \<in> set rs. root_ok pw p) \<and>
     linked (\<lambda>i. pn_next (node pw i)) fs \<and> (fs \<noteq> [] \<longrightarrow> pw_free pw = hd fs)"

text \<open>What the queue stores: for each waiting next hop, most recent first, its packets in arrival
  order.\<close>

definition pq_abs :: "pkts_waiting \<Rightarrow> shape \<Rightarrow> (u32 \<times> fw_buff_desc list) list" where
  "pq_abs pw rs = map (\<lambda>(r, cs). (pn_ip (node pw r), map (\<lambda>i. pn_buffer (node pw i)) (r # cs))) rs"

lemma shape_nodes_simps [simp]:
  "shape_nodes [] = []"
  "shape_nodes ((r, cs) # rs) = r # cs @ shape_nodes rs"
  "shape_nodes (rs @ rs') = shape_nodes rs @ shape_nodes rs'"
  by (simp_all add: shape_nodes_def)

lemma fst_in_shape: "(r, cs) \<in> set rs \<Longrightarrow> r \<in> set (shape_nodes rs) \<and> set cs \<subseteq> set (shape_nodes rs)"
  by (force simp: shape_nodes_def)

lemma upd_node_sel [simp]:
  "pw_capacity (upd_node i f pw) = pw_capacity pw" "pw_size (upd_node i f pw) = pw_size pw"
  "pw_length (upd_node i f pw) = pw_length pw" "pw_head (upd_node i f pw) = pw_head pw"
  "pw_tail (upd_node i f pw) = pw_tail pw" "pw_free (upd_node i f pw) = pw_free pw"
  "length (pw_packets (upd_node i f pw)) = length (pw_packets pw)"
  by (simp_all add: upd_node_def)

lemma node_upd_ne [simp]: "i \<noteq> j \<Longrightarrow> node (upd_node i f pw) j = node pw j"
  by (simp add: upd_node_def nth_list_update word_unat_eq_iff)

lemma node_upd_eq: "unat i < length (pw_packets pw) \<Longrightarrow> node (upd_node i f pw) i = f (node pw i)"
  by (simp add: upd_node_def)

lemma linked_cong_butlast:
  "(\<And>x. x \<in> set (butlast xs) \<Longrightarrow> f x = g x) \<Longrightarrow> linked f xs = linked g xs"
  by (induction f xs rule: linked.induct) auto

lemma pq_bound: "pq_shape pw rs fs \<Longrightarrow> i \<in> set (shape_nodes rs @ fs) \<Longrightarrow> unat i < length (pw_packets pw)"
  by (auto simp: pq_shape_def word_less_nat_alt)

lemma roots_in_shape: "set (map fst rs) \<subseteq> set (shape_nodes rs)"
  by (force simp: shape_nodes_def)

lemma distinct_roots: "distinct (shape_nodes rs) \<Longrightarrow> distinct (map fst rs)"
proof (induction rs)
  case Nil
  then show ?case by simp
next
  case (Cons p rs)
  obtain r cs where p: "p = (r, cs)" by (cases p)
  have "r \<notin> set (map fst rs)" using Cons.prems roots_in_shape [of rs] by (auto simp: p)
  with Cons show ?case by (simp add: p)
qed

lemma pq_full_iff: "pq_shape pw rs fs \<Longrightarrow> pkt_waiting_full pw \<longleftrightarrow> fs = []"
  by (auto simp: pq_shape_def pkt_waiting_full_def word_unat_eq_iff)

subsection \<open>Looking a next hop up\<close>

lemma find_node_loop_spec:
  assumes "linked (\<lambda>i. pn_next (node pw i)) is" "is \<noteq> [] \<longrightarrow> i = hd is"
  shows "find_node_loop (length is) pw i ip = find (\<lambda>r. pn_ip (node pw r) = ip) is"
  using assms
proof (induction "is" arbitrary: i)
  case Nil
  then show ?case by simp
next
  case (Cons r rs)
  then show ?case by (auto simp: linked_Cons)
qed

lemma find_node_spec:
  assumes "pq_shape pw rs fs"
  shows "pkt_waiting_find_node pw ip = find (\<lambda>r. pn_ip (node pw r) = ip) (map fst rs)"
  using assms find_node_loop_spec [of pw "map fst rs" "pw_head pw" ip]
  by (auto simp: pkt_waiting_find_node_def pq_shape_def hd_map)

lemma child_buffers_spec:
  "linked (\<lambda>i. pn_child (node pw i)) (r # cs) \<Longrightarrow>
     child_buffers (length cs) pw r = map (\<lambda>i. pn_buffer (node pw i)) cs"
  by (induction cs arbitrary: r) (auto simp: pkts_waiting_next_child_def linked_Cons)

lemma waiting_buffers_spec:
  "root_ok pw (r, cs) \<Longrightarrow> waiting_buffers pw r = map (\<lambda>i. pn_buffer (node pw i)) (r # cs)"
  using child_buffers_spec [of pw r cs] by (simp add: root_ok_def waiting_buffers_def)

subsection \<open>Storing a packet for a new next hop\<close>

lemma root_ok_cong:
  assumes "\<And>x. x \<in> set (r # cs) \<Longrightarrow> pn_child (node pw' x) = pn_child (node pw x) \<and>
      pn_tail (node pw' x) = pn_tail (node pw x) \<and> pn_num_children (node pw' x) = pn_num_children (node pw x)"
  shows "root_ok pw' (r, cs) = root_ok pw (r, cs)"
proof -
  have "linked (\<lambda>i. pn_child (node pw' i)) (r # cs) = linked (\<lambda>i. pn_child (node pw i)) (r # cs)"
    by (rule linked_cong) (use assms in blast)
  then show ?thesis using assms [of r] by (simp add: root_ok_def)
qed

lemma push_spec:
  assumes sh: "pq_shape pw rs (n # fs)"
  shows "\<exists>pw'. pkt_waiting_push pw ip b = (ROUTING_ERR_OKAY, pw') \<and> pq_shape pw' ((n, []) # rs) fs \<and>
    pq_abs pw' ((n, []) # rs) = (ip, [b]) # pq_abs pw rs \<and> pw_capacity pw' = pw_capacity pw"
proof -
  let ?pw' = "snd (pkt_waiting_push pw ip b)"
  have nf: "\<not> pkt_waiting_full pw" using pq_full_iff [OF sh] by simp
  have n: "pw_free pw = n" using sh by (simp add: pq_shape_def)
  have bnd: "unat i < length (pw_packets pw)" if "i \<in> set (shape_nodes rs @ n # fs)" for i
    using pq_bound [OF sh] that .
  have dist: "distinct (shape_nodes rs)" "n \<notin> set (shape_nodes rs)" "n \<notin> set fs" "distinct fs"
    "set (shape_nodes rs) \<inter> set fs = {}"
    using sh by (auto simp: pq_shape_def)
  have len: "pw_length pw \<noteq> 0 \<longleftrightarrow> rs \<noteq> []"
    using sh by (auto simp: pq_shape_def simp flip: unat_eq_0)
  have head: "rs \<noteq> [] \<Longrightarrow> pw_head pw = fst (hd rs) \<and> pw_tail pw = fst (last rs)"
    using sh by (simp add: pq_shape_def)
  have hd_in: "rs \<noteq> [] \<Longrightarrow> fst (hd rs) \<in> set (shape_nodes rs)"
    using roots_in_shape [of rs] by (cases rs) auto
  have hne: "rs \<noteq> [] \<Longrightarrow> pw_head pw \<noteq> n" using head hd_in dist(2) by metis
  have node_n: "node ?pw' n = (node pw n)\<lparr>pn_num_children := 0, pn_ip := ip, pn_buffer := b, pn_tail := n,
      pn_next := (if rs = [] then pn_next (node pw n) else fst (hd rs))\<rparr>"
    using nf n bnd [of n] len hne head
    by (cases "rs = []") (auto simp: pkt_waiting_push_def Let_def node_upd_eq)
  have node_h: "node ?pw' (fst (hd rs)) = (node pw (fst (hd rs)))\<lparr>pn_prev := n\<rparr>" if "rs \<noteq> []"
    using that nf n bnd [of "fst (hd rs)"] hd_in [OF that] len hne [OF that] head [OF that]
    by (auto simp: pkt_waiting_push_def Let_def node_upd_eq)
  have node_o: "node ?pw' x = node pw x" if "x \<noteq> n" "rs = [] \<or> x \<noteq> fst (hd rs)" for x
    using that nf n len head by (cases "rs = []") (auto simp: pkt_waiting_push_def Let_def)
  have keep: "pn_next (node ?pw' x) = pn_next (node pw x) \<and> pn_child (node ?pw' x) = pn_child (node pw x) \<and>
      pn_tail (node ?pw' x) = pn_tail (node pw x) \<and> pn_ip (node ?pw' x) = pn_ip (node pw x) \<and>
      pn_num_children (node ?pw' x) = pn_num_children (node pw x) \<and> pn_buffer (node ?pw' x) = pn_buffer (node pw x)"
    if "x \<noteq> n" for x
    using node_h node_o [OF that] by (cases "rs \<noteq> [] \<and> x = fst (hd rs)") auto
  have fields: "pw_capacity ?pw' = pw_capacity pw" "length (pw_packets ?pw') = length (pw_packets pw)"
    "pw_free ?pw' = pn_next (node pw n)" "pw_head ?pw' = n" "pw_tail ?pw' = (if rs = [] then n else pw_tail pw)"
    "pw_length ?pw' = pw_length pw + 1" "pw_size ?pw' = pw_size pw + 1"
    using nf n len bnd [of n] by (auto simp: pkt_waiting_push_def Let_def node_upd_eq)
  have ge: "length rs \<le> length (shape_nodes rs)"
    by (induction rs) auto
  have cnt: "unat (pw_size pw) = length (shape_nodes rs)" "unat (pw_length pw) = length rs"
    "length (shape_nodes rs) + Suc (length fs) = unat (pw_capacity pw)"
    using sh by (simp_all add: pq_shape_def)
  have cap: "unat (pw_capacity pw) < 2 ^ LENGTH(16)" by (rule unsigned_less)
  have cnt': "unat (pw_size ?pw') = Suc (length (shape_nodes rs))" "unat (pw_length ?pw') = Suc (length rs)"
    using cnt cap ge unfolding fields by (simp_all add: unat_Suc_nowrap)
  have roots: "set (map fst rs) \<subseteq> set (shape_nodes rs)" by (rule roots_in_shape)
  have same_next: "linked (\<lambda>i. pn_next (node ?pw' i)) xs = linked (\<lambda>i. pn_next (node pw i)) xs"
    if "n \<notin> set xs" for xs
  proof (rule linked_cong)
    fix x assume "x \<in> set xs"
    then have "x \<noteq> n" using that by blast
    then show "pn_next (node ?pw' x) = pn_next (node pw x)" by (simp add: keep)
  qed
  have nxt: "linked (\<lambda>i. pn_next (node ?pw' i)) (n # map fst rs)"
  proof -
    have "n \<notin> set (map fst rs)" using roots dist(2) by blast
    from same_next [OF this] show ?thesis using sh node_n by (auto simp: linked_Cons pq_shape_def hd_map)
  qed
  have prv: "linked (\<lambda>i. pn_prev (node ?pw' i)) (rev (n # map fst rs))"
  proof (cases rs)
    case Nil
    then show ?thesis by simp
  next
    case (Cons p rest)
    have d: "distinct (map fst rs)" using distinct_roots [OF dist(1)] .
    have "linked (\<lambda>i. pn_prev (node ?pw' i)) (rev (map fst rs)) = linked (\<lambda>i. pn_prev (node pw i)) (rev (map fst rs))"
    proof (rule linked_cong_butlast)
      fix x assume "x \<in> set (butlast (rev (map fst rs)))"
      then have x: "x \<in> set (map fst rest)" by (simp add: Cons)
      have "fst p \<notin> set (map fst rest)" using d by (simp add: Cons)
      with x have "x \<noteq> fst (hd rs)" by (metis Cons list.sel(1))
      moreover have "x \<in> set (map fst rs)" using x by (simp add: Cons)
      then have "x \<noteq> n" using roots dist(2) by blast
      ultimately show "pn_prev (node ?pw' x) = pn_prev (node pw x)" by (simp add: node_o)
    qed
    moreover have "pn_prev (node ?pw' (fst p)) = n" using node_h Cons by simp
    moreover have "linked (\<lambda>i. pn_prev (node pw i)) (rev (map fst rs))" using sh by (simp add: pq_shape_def)
    ultimately show ?thesis by (simp add: Cons linked_append)
  qed
  have kids: "\<forall>p \<in> set ((n, []) # rs). root_ok ?pw' p"
  proof
    fix p assume p: "p \<in> set ((n, []) # rs)"
    obtain r cs where rc: "p = (r, cs)" by (cases p)
    show "root_ok ?pw' p"
    proof (cases "p = (n, [])")
      case True
      then show ?thesis using node_n by (simp add: root_ok_def)
    next
      case False
      with p have m: "(r, cs) \<in> set rs" by (auto simp: rc)
      then have "x \<noteq> n" if "x \<in> set (r # cs)" for x using that fst_in_shape [OF m] dist(2) by auto
      then have "root_ok ?pw' (r, cs) = root_ok pw (r, cs)" by (intro root_ok_cong) (use keep in blast)
      then show ?thesis using sh m rc by (simp add: pq_shape_def)
    qed
  qed
  have fr: "linked (\<lambda>i. pn_next (node ?pw' i)) fs" "fs \<noteq> [] \<longrightarrow> pw_free ?pw' = hd fs"
  proof -
    note same_next [OF dist(3)]
    then show "linked (\<lambda>i. pn_next (node ?pw' i)) fs" "fs \<noteq> [] \<longrightarrow> pw_free ?pw' = hd fs"
      using sh unfolding fields by (auto simp: linked_Cons pq_shape_def)
  qed
  have bounds: "\<forall>i \<in> set (shape_nodes ((n, []) # rs) @ fs). i < pw_capacity ?pw'"
    using sh unfolding fields by (auto simp: pq_shape_def)
  have "pq_shape ?pw' ((n, []) # rs) fs"
    unfolding pq_shape_def
  proof (intro conjI)
    show "length (pw_packets ?pw') = unat (pw_capacity ?pw')"
      using sh unfolding fields by (simp add: pq_shape_def)
    show "length (shape_nodes ((n, []) # rs)) + length fs = unat (pw_capacity ?pw')"
      using cnt(3) unfolding fields by simp
    show "(n, []) # rs \<noteq> [] \<longrightarrow> pw_head ?pw' = fst (hd ((n, []) # rs)) \<and> pw_tail ?pw' = fst (last ((n, []) # rs))"
      using head unfolding fields by auto
  qed (use dist bounds cnt' nxt prv kids fr in simp_all)
  moreover have "pq_abs ?pw' ((n, []) # rs) = (ip, [b]) # pq_abs pw rs"
  proof -
    have "x \<noteq> n" if "(r, cs) \<in> set rs" "x \<in> set (r # cs)" for r cs x
      using that fst_in_shape [OF that(1)] dist(2) by auto
    then have "pq_abs ?pw' rs = pq_abs pw rs"
      unfolding pq_abs_def by (intro map_cong refl) (auto simp: keep)
    then show ?thesis by (simp add: pq_abs_def node_n)
  qed
  moreover have "pkt_waiting_push pw ip b = (ROUTING_ERR_OKAY, ?pw')"
    using nf by (simp add: pkt_waiting_push_def Let_def)
  ultimately show ?thesis using fields(1) by blast
qed

subsection \<open>Storing a packet for a next hop that waits\<close>

lemma push_child_spec:
  assumes sh: "pq_shape pw (xs @ (r, cs) # ys) (n # fs)"
  shows "\<exists>pw'. pkt_waiting_push_child pw r b = (ROUTING_ERR_OKAY, pw') \<and>
    pq_shape pw' (xs @ (r, cs @ [n]) # ys) fs \<and>
    pq_abs pw' (xs @ (r, cs @ [n]) # ys) =
      pq_abs pw xs @ (pn_ip (node pw r), map (\<lambda>i. pn_buffer (node pw i)) (r # cs) @ [b]) # pq_abs pw ys \<and>
    pw_capacity pw' = pw_capacity pw"
proof -
  let ?rs = "xs @ (r, cs) # ys" and ?rs' = "xs @ (r, cs @ [n]) # ys"
  let ?pw' = "snd (pkt_waiting_push_child pw r b)" and ?t = "last (r # cs)"
  have nf: "\<not> pkt_waiting_full pw" using pq_full_iff [OF sh] by simp
  have n: "pw_free pw = n" using sh by (simp add: pq_shape_def)
  have bnd: "unat i < length (pw_packets pw)" if "i \<in> set (shape_nodes ?rs @ n # fs)" for i
    using pq_bound [OF sh] that .
  have bnds: "unat n < length (pw_packets pw)" "unat r < length (pw_packets pw)"
    "unat ?t < length (pw_packets pw)"
    using bnd [of n] bnd [of r] bnd [of ?t] last_in_set [of "r # cs"] by auto
  have dist: "distinct (shape_nodes ?rs)" "n \<notin> set (shape_nodes ?rs)" "n \<notin> set fs" "distinct fs"
    "set (shape_nodes ?rs) \<inter> set fs = {}"
    using sh by (auto simp: pq_shape_def)
  have ne: "n \<noteq> r" "n \<noteq> ?t" using dist(2) last_in_set [of "r # cs"] by auto
  have ok: "root_ok pw (r, cs)" using sh by (auto simp: pq_shape_def)
  then have t: "pn_tail (node pw r) = ?t" and nc: "unat (pn_num_children (node pw r)) = length cs"
    and lc: "linked (\<lambda>i. pn_child (node pw i)) (r # cs)"
    by (simp_all only: root_ok_def prod.case)
  have keep: "pn_next (node ?pw' x) = pn_next (node pw x) \<and> pn_prev (node ?pw' x) = pn_prev (node pw x) \<and>
      pn_ip (node ?pw' x) = pn_ip (node pw x) \<and>
      pn_child (node ?pw' x) = (if x = ?t then n else pn_child (node pw x)) \<and>
      pn_tail (node ?pw' x) = (if x = r then n else pn_tail (node pw x)) \<and>
      pn_num_children (node ?pw' x) = pn_num_children (node pw x) + (if x = r then 1 else 0) \<and>
      pn_buffer (node ?pw' x) = (if x = n then b else pn_buffer (node pw x))" for x
  proof -
    have tl: "pn_tail (node (upd_node n f pw) r) = ?t" for f using t ne(1) by simp
    show ?thesis
      using nf n t ne bnds
      by (cases "x = n"; cases "x = r"; cases "x = ?t"; cases "r = ?t")
        (auto simp: pkt_waiting_push_child_def Let_def node_upd_eq tl simp del: last.simps)
  qed
  have fields: "pw_capacity ?pw' = pw_capacity pw" "length (pw_packets ?pw') = length (pw_packets pw)"
    "pw_free ?pw' = pn_next (node pw n)" "pw_head ?pw' = pw_head pw" "pw_tail ?pw' = pw_tail pw"
    "pw_length ?pw' = pw_length pw" "pw_size ?pw' = pw_size pw + 1"
    using nf n bnds(1) by (auto simp: pkt_waiting_push_child_def Let_def node_upd_eq)
  have perm: "set (shape_nodes ?rs') = insert n (set (shape_nodes ?rs))"
    "length (shape_nodes ?rs') = Suc (length (shape_nodes ?rs))" "distinct (shape_nodes ?rs')"
    "map fst ?rs' = map fst ?rs"
    using dist(1,2) by auto
  have cnt: "unat (pw_size pw) = length (shape_nodes ?rs)" "unat (pw_length pw) = length ?rs"
    "length (shape_nodes ?rs) + Suc (length fs) = unat (pw_capacity pw)"
    using sh by (simp_all add: pq_shape_def)
  have cap: "unat (pw_capacity pw) < 2 ^ LENGTH(16)" by (rule unsigned_less)
  have sz: "unat (pw_size ?pw') = length (shape_nodes ?rs')"
    using cnt cap unfolding fields perm(2) by (subst unat_Suc_nowrap) linarith+
  have others: "root_ok ?pw' (q, ds)" if m: "(q, ds) \<in> set (xs @ ys)" for q ds
  proof -
    have "set (q # ds) \<subseteq> set (shape_nodes (xs @ ys))" using fst_in_shape [OF m] by simp
    moreover have "set (r # cs) \<inter> set (shape_nodes (xs @ ys)) = {}" using dist(1) by auto
    moreover have "?t \<in> set (r # cs)" "r \<in> set (r # cs)" by (rule last_in_set) simp_all
    ultimately have "x \<noteq> r \<and> x \<noteq> ?t" if "x \<in> set (q # ds)" for x using that by blast
    then have "root_ok ?pw' (q, ds) = root_ok pw (q, ds)"
      by (intro root_ok_cong) (simp add: keep del: last.simps)
    then show ?thesis using sh m by (auto simp: pq_shape_def)
  qed
  have this_ok: "root_ok ?pw' (r, cs @ [n])"
  proof -
    have "distinct (r # cs)" using dist(1) by auto
    then have "?t \<notin> set (butlast (r # cs))"
      by (metis append_butlast_last_id distinct_butlast distinct_append list.distinct(1) disjoint_iff list.set_intros(1))
    then have "linked (\<lambda>i. pn_child (node ?pw' i)) (r # cs) = linked (\<lambda>i. pn_child (node pw i)) (r # cs)"
      by (intro linked_cong_butlast) (auto simp: keep simp del: last.simps butlast.simps)
    with lc have "linked (\<lambda>i. pn_child (node ?pw' i)) ((r # cs) @ [n])"
      unfolding linked_append by (simp add: keep del: last.simps)
    moreover have "unat (pn_num_children (node ?pw' r)) = Suc (length cs)"
    proof -
      have "Suc (length cs) \<le> length (shape_nodes ?rs)" by simp
      then have "Suc (unat (pn_num_children (node pw r))) < 2 ^ LENGTH(16)" using cnt(3) cap nc by linarith
      moreover have "pn_num_children (node ?pw' r) = pn_num_children (node pw r) + 1" using keep [of r] by simp
      ultimately show ?thesis using nc by (simp add: unat_Suc_nowrap)
    qed
    ultimately show ?thesis by (simp add: root_ok_def keep)
  qed
  have links: "(\<lambda>i. pn_next (node ?pw' i)) = (\<lambda>i. pn_next (node pw i))"
    "(\<lambda>i. pn_prev (node ?pw' i)) = (\<lambda>i. pn_prev (node pw i))"
    using keep by (simp_all add: fun_eq_iff)
  have "pq_shape ?pw' ?rs' fs"
    unfolding pq_shape_def perm(4)
  proof (intro conjI)
    show "length (pw_packets ?pw') = unat (pw_capacity ?pw')"
      using sh unfolding fields by (simp add: pq_shape_def)
    show "distinct (shape_nodes ?rs' @ fs)"
      using perm(1,3) dist(3-5) by (auto simp only: distinct_append)
    show "\<forall>i \<in> set (shape_nodes ?rs' @ fs). i < pw_capacity ?pw'"
      using sh unfolding fields set_append perm(1) by (auto simp: pq_shape_def)
    show "length (shape_nodes ?rs') + length fs = unat (pw_capacity ?pw')"
      using cnt(3) unfolding fields perm(2) by simp
    show "unat (pw_length ?pw') = length ?rs'" using cnt(2) unfolding fields by simp
    show "?rs' \<noteq> [] \<longrightarrow> pw_head ?pw' = fst (hd ?rs') \<and> pw_tail ?pw' = fst (last ?rs')"
      using sh unfolding fields by (auto simp: pq_shape_def hd_append)
    show "linked (\<lambda>i. pn_next (node ?pw' i)) (map fst ?rs)" "linked (\<lambda>i. pn_prev (node ?pw' i)) (rev (map fst ?rs))"
      "linked (\<lambda>i. pn_next (node ?pw' i)) fs" "fs \<noteq> [] \<longrightarrow> pw_free ?pw' = hd fs"
      using sh unfolding fields links by (auto simp: pq_shape_def linked_Cons)
    show "\<forall>p \<in> set ?rs'. root_ok ?pw' p" using others this_ok by auto
  qed (rule sz)
  moreover have "pq_abs ?pw' ?rs' =
      pq_abs pw xs @ (pn_ip (node pw r), map (\<lambda>i. pn_buffer (node pw i)) (r # cs) @ [b]) # pq_abs pw ys"
  proof -
    have buf: "pn_buffer (node ?pw' x) = pn_buffer (node pw x)" if "x \<in> set (shape_nodes ?rs)" for x
      using that dist(2) keep by metis
    have "pq_abs ?pw' zs = pq_abs pw zs" if "set zs \<subseteq> set ?rs" for zs
    proof -
      have "x \<in> set (shape_nodes ?rs)" if "(q, ds) \<in> set zs" "x \<in> set (q # ds)" for q ds x
        using that \<open>set zs \<subseteq> set ?rs\<close> fst_in_shape [of q ds ?rs] by auto
      then have "map (\<lambda>i. pn_buffer (node ?pw' i)) (q # ds) = map (\<lambda>i. pn_buffer (node pw i)) (q # ds)"
        if "(q, ds) \<in> set zs" for q ds
        using that by (intro map_cong refl buf) blast
      then show ?thesis
        unfolding pq_abs_def by (intro map_cong refl) (auto simp: keep simp del: map_eq_conv)
    qed
    then have "pq_abs ?pw' xs = pq_abs pw xs" "pq_abs ?pw' ys = pq_abs pw ys" by auto
    moreover have "map (\<lambda>i. pn_buffer (node ?pw' i)) (r # cs @ [n]) = map (\<lambda>i. pn_buffer (node pw i)) (r # cs) @ [b]"
      using buf by (simp add: keep)
    ultimately show ?thesis by (simp add: pq_abs_def keep)
  qed
  moreover have "pkt_waiting_push_child pw r b = (ROUTING_ERR_OKAY, ?pw')"
    using nf by (simp add: pkt_waiting_push_child_def Let_def)
  ultimately show ?thesis using fields(1) by blast
qed

subsection \<open>Releasing a next hop\<close>

text \<open>Two nodes that agree in everything but their \<open>next\<close> link.\<close>

definition same_node :: "pkt_waiting_node \<Rightarrow> pkt_waiting_node \<Rightarrow> bool" where
  "same_node m n \<longleftrightarrow> pn_prev m = pn_prev n \<and> pn_child m = pn_child n \<and>
     pn_num_children m = pn_num_children n \<and> pn_tail m = pn_tail n \<and> pn_ip m = pn_ip n \<and>
     pn_buffer m = pn_buffer n"

lemma same_node_refl [simp]: "same_node n n" "same_node (n\<lparr>pn_next := x\<rparr>) n"
  by (simp_all add: same_node_def)

lemma same_node_trans: "same_node a b \<Longrightarrow> same_node b c \<Longrightarrow> same_node a c"
  by (simp add: same_node_def)

lemma free_children_spec:
  assumes "\<And>x. x \<in> set cs \<Longrightarrow> unat x < length (pw_packets pw)" "distinct (cs @ fs)"
    "linked (\<lambda>i. pn_child (node pw i)) cs" "cs \<noteq> [] \<longrightarrow> c = hd cs"
    "linked (\<lambda>i. pn_next (node pw i)) fs" "fs \<noteq> [] \<longrightarrow> pw_free pw = hd fs"
  defines "pw' \<equiv> free_children (length cs) c pw"
  shows "(\<forall>x. x \<notin> set cs \<longrightarrow> node pw' x = node pw x) \<and> (\<forall>x. same_node (node pw' x) (node pw x)) \<and>
    linked (\<lambda>i. pn_next (node pw' i)) (rev cs @ fs) \<and> (rev cs @ fs \<noteq> [] \<longrightarrow> pw_free pw' = hd (rev cs @ fs)) \<and>
    pw_size pw' = pw_size pw - of_nat (length cs) \<and> pw_capacity pw' = pw_capacity pw \<and>
    pw_length pw' = pw_length pw \<and> pw_head pw' = pw_head pw \<and> pw_tail pw' = pw_tail pw \<and>
    length (pw_packets pw') = length (pw_packets pw)"
  using assms(1-6) unfolding pw'_def
proof (induction cs arbitrary: pw c fs)
  case Nil
  then show ?case by simp
next
  case (Cons d cs)
  have c: "c = d" using Cons.prems(4) by simp
  let ?p1 = "upd_node d (\<lambda>n. n\<lparr>pn_next := pw_free pw\<rparr>) pw"
  let ?p2 = "?p1\<lparr>pw_free := d, pw_size := pw_size ?p1 - 1\<rparr>"
  have bd: "unat d < length (pw_packets pw)" using Cons.prems(1) by simp
  have nd: "node ?p2 x = (if x = d then (node pw d)\<lparr>pn_next := pw_free pw\<rparr> else node pw x)" for x
    using bd by (auto simp: node_upd_eq)
  have step: "free_children (length (d # cs)) c pw = free_children (length cs) (pn_child (node ?p2 d)) ?p2"
    by (simp add: c Let_def pkts_waiting_next_child_def)
  have d_fresh: "d \<notin> set cs" "d \<notin> set fs" using Cons.prems(2) by auto
  have 1: "unat x < length (pw_packets ?p2)" if "x \<in> set cs" for x using Cons.prems(1) that by simp
  have 2: "distinct (cs @ (d # fs))" using Cons.prems(2) by auto
  have "linked (\<lambda>i. pn_child (node ?p2 i)) cs = linked (\<lambda>i. pn_child (node pw i)) cs"
  proof (rule linked_cong)
    fix x show "pn_child (node ?p2 x) = pn_child (node pw x)" unfolding nd by simp
  qed
  then have 3: "linked (\<lambda>i. pn_child (node ?p2 i)) cs" using Cons.prems(3) by (simp add: linked_Cons)
  have 4: "cs \<noteq> [] \<longrightarrow> pn_child (node ?p2 d) = hd cs"
    using Cons.prems(3) unfolding nd by (auto simp: linked_Cons)
  have "linked (\<lambda>i. pn_next (node ?p2 i)) fs = linked (\<lambda>i. pn_next (node pw i)) fs"
  proof (rule linked_cong)
    fix x assume "x \<in> set fs"
    then have "x \<noteq> d" using d_fresh by blast
    then show "pn_next (node ?p2 x) = pn_next (node pw x)" unfolding nd by simp
  qed
  then have 5: "linked (\<lambda>i. pn_next (node ?p2 i)) (d # fs)"
    using Cons.prems(5,6) nd [of d] by (auto simp: linked_Cons)
  have 6: "d # fs \<noteq> [] \<longrightarrow> pw_free ?p2 = hd (d # fs)" by simp
  note ih = Cons.IH [of ?p2 "d # fs" "pn_child (node ?p2 d)", OF 1 2 3 4 5 6]
  have "same_node (node ?p2 x) (node pw x)" for x unfolding nd by simp
  then have same: "\<forall>x. same_node (node (free_children (length (d # cs)) c pw) x) (node pw x)"
    using ih same_node_trans unfolding step by blast
  have other: "\<forall>x. x \<notin> set (d # cs) \<longrightarrow> node (free_children (length (d # cs)) c pw) x = node pw x"
    unfolding step
  proof (intro allI impI)
    fix x assume x: "x \<notin> set (d # cs)"
    then have "x \<notin> set cs" by simp
    with ih have "node (free_children (length cs) (pn_child (node ?p2 d)) ?p2) x = node ?p2 x" by blast
    also have "\<dots> = node pw x" unfolding nd using x by simp
    finally show "node (free_children (length cs) (pn_child (node ?p2 d)) ?p2) x = node pw x" .
  qed
  let ?R = "free_children (length cs) (pn_child (node ?p2 d)) ?p2"
  have lists: "linked (\<lambda>i. pn_next (node ?R i)) (rev (d # cs) @ fs)" "pw_free ?R = hd (rev (d # cs) @ fs)"
    using ih unfolding rev.simps append_assoc append.simps by blast+
  have "pw_size ?R = pw_size ?p2 - of_nat (length cs)" using ih by blast
  then have size: "pw_size ?R = pw_size pw - of_nat (length (d # cs))" by (simp add: diff_diff_eq)
  have rest: "pw_capacity ?R = pw_capacity ?p2" "pw_length ?R = pw_length ?p2" "pw_head ?R = pw_head ?p2"
    "pw_tail ?R = pw_tail ?p2" "length (pw_packets ?R) = length (pw_packets ?p2)"
    using ih by blast+
  have p2: "pw_capacity ?p2 = pw_capacity pw" "pw_length ?p2 = pw_length pw" "pw_head ?p2 = pw_head pw"
    "pw_tail ?p2 = pw_tail pw" "length (pw_packets ?p2) = length (pw_packets pw)" by simp_all
  show ?case
    using same other lists size rest unfolding step p2 by blast
qed

text \<open>The links of the roots before and after the released one.\<close>

lemma linked_remove:
  assumes "linked f (A @ r # B)" "\<And>x. x \<in> set (A @ B) \<Longrightarrow> A = [] \<or> x \<noteq> last A \<Longrightarrow> g x = f x"
    "A \<noteq> [] \<Longrightarrow> g (last A) = f r" "distinct (A @ r # B)"
  shows "linked g (A @ B)"
proof -
  have A: "linked f A" and B: "linked f B" "B \<noteq> [] \<Longrightarrow> f r = hd B"
    using assms(1) by (auto simp: linked_append linked_Cons)
  have "linked g A = linked f A"
  proof (rule linked_cong_butlast)
    fix x assume x: "x \<in> set (butlast A)"
    then have "A \<noteq> []" by auto
    moreover from this have "last A \<notin> set (butlast A)"
      using assms(4) by (metis append_butlast_last_id distinct_append distinct_butlast disjoint_iff list.set_intros(1))
    ultimately show "g x = f x" using x assms(2) [of x] in_set_butlastD [OF x] by auto
  qed
  moreover have "linked g B = linked f B"
  proof (rule linked_cong)
    fix x assume "x \<in> set B"
    moreover have "set A \<inter> set B = {}" using assms(4) by auto
    then have "A \<noteq> [] \<Longrightarrow> last A \<notin> set B" using last_in_set [of A] by blast
    ultimately show "g x = f x" using assms(2) [of x] by (cases "A = []") auto
  qed
  ultimately show ?thesis using A B assms(3) by (cases B) (auto simp: linked_append)
qed

lemma ends_of_removed:
  assumes "linked f (A @ r # B)" "linked g (rev B @ r # rev A)" "distinct (A @ r # B)"
  shows "A \<noteq> [] \<Longrightarrow> g r = last A" "B \<noteq> [] \<Longrightarrow> f r = hd B"
    "r = hd (A @ r # B) \<longleftrightarrow> A = []" "r = last (A @ r # B) \<longleftrightarrow> B = []"
proof -
  show "A \<noteq> [] \<Longrightarrow> g r = last A"
    using assms(2) by (auto simp: linked_append linked_Cons hd_rev)
  show "B \<noteq> [] \<Longrightarrow> f r = hd B"
    using assms(1) by (auto simp: linked_append linked_Cons)
  show "r = hd (A @ r # B) \<longleftrightarrow> A = []"
    using assms(3) by (cases A) auto
  show "r = last (A @ r # B) \<longleftrightarrow> B = []"
    using assms(3) last_in_set [of B] by (cases "B = []") auto
qed

text \<open>The unlinking step by nodes.\<close>

lemma free_parent_nodes:
  fixes pw :: pkts_waiting and r :: u16 and A B :: "u16 list"
  defines "p1 \<equiv> free_children (unat (pn_num_children (node pw r))) (pkts_waiting_next_child pw r) pw"
  assumes "node p1 r = node pw r" "length (pw_packets p1) = length (pw_packets pw)"
    "pw_head p1 = pw_head pw" "pw_tail p1 = pw_tail pw"
    "r = pw_head pw \<longleftrightarrow> A = []" "r = pw_tail pw \<longleftrightarrow> B = []"
    "A \<noteq> [] \<Longrightarrow> pn_prev (node pw r) = last A" "B \<noteq> [] \<Longrightarrow> pn_next (node pw r) = hd B"
    "A \<noteq> [] \<Longrightarrow> last A \<noteq> r" "B \<noteq> [] \<Longrightarrow> hd B \<noteq> r" "A \<noteq> [] \<Longrightarrow> B \<noteq> [] \<Longrightarrow> last A \<noteq> hd B"
    "unat r < length (pw_packets pw)" "A \<noteq> [] \<Longrightarrow> unat (last A) < length (pw_packets pw)"
    "B \<noteq> [] \<Longrightarrow> unat (hd B) < length (pw_packets pw)"
  shows "node (snd (pkts_waiting_free_parent pw r)) x =
      (if x = r then (node pw r)\<lparr>pn_next := pw_free p1\<rparr>
       else if A \<noteq> [] \<and> x = last A then (node p1 x)\<lparr>pn_next := pn_next (node pw r)\<rparr>
       else if B \<noteq> [] \<and> x = hd B then (node p1 x)\<lparr>pn_prev := pn_prev (node pw r)\<rparr>
       else node p1 x)"
proof -
  let ?p2 = "if A = [] then p1\<lparr>pw_head := pn_next (node p1 r)\<rparr>
     else upd_node (last A) (\<lambda>n. n\<lparr>pn_next := pn_next (node pw r)\<rparr>) p1"
  let ?p3 = "if B = [] then ?p2\<lparr>pw_tail := pn_prev (node ?p2 r)\<rparr>
     else upd_node (hd B) (\<lambda>n. n\<lparr>pn_prev := pn_prev (node pw r)\<rparr>) ?p2"
  have nr: "A \<noteq> [] \<Longrightarrow> node (upd_node (last A) f p1) r = node pw r" for f
    using assms(2,10) by simp
  have "node (snd (pkts_waiting_free_parent pw r)) x = node (upd_node r (\<lambda>n. n\<lparr>pn_next := pw_free ?p3\<rparr>) ?p3) x"
    using nr assms(2,4-9) unfolding pkts_waiting_free_parent_def p1_def [symmetric] Let_def
    by (simp split: if_splits)
  also have "pw_free ?p3 = pw_free p1" by simp
  also have "node (upd_node r (\<lambda>n. n\<lparr>pn_next := pw_free p1\<rparr>) ?p3) x =
      (if x = r then (node pw r)\<lparr>pn_next := pw_free p1\<rparr>
       else if A \<noteq> [] \<and> x = last A then (node p1 x)\<lparr>pn_next := pn_next (node pw r)\<rparr>
       else if B \<noteq> [] \<and> x = hd B then (node p1 x)\<lparr>pn_prev := pn_prev (node pw r)\<rparr>
       else node p1 x)"
    using assms(2,3,10-15)
    by (cases "A = []"; cases "B = []"; cases "x = r"; cases "x = last A"; cases "x = hd B")
      (auto simp: node_upd_eq)
  finally show ?thesis .
qed

lemma disjoint_mono: "A \<subseteq> C \<Longrightarrow> B \<subseteq> D \<Longrightarrow> C \<inter> D = {} \<Longrightarrow> A \<inter> B = {}"
  by blast

lemma free_parent_spec:
  assumes sh: "pq_shape pw (xs @ (r, cs) # ys) fs"
  shows "\<exists>pw'. pkts_waiting_free_parent pw r = (ROUTING_ERR_OKAY, pw') \<and>
    pq_shape pw' (xs @ ys) (r # rev cs @ fs) \<and> pq_abs pw' (xs @ ys) = pq_abs pw (xs @ ys) \<and>
    pw_capacity pw' = pw_capacity pw"
proof -
  let ?rs = "xs @ (r, cs) # ys" and ?A = "map fst xs" and ?B = "map fst ys"
  let ?F = "snd (pkts_waiting_free_parent pw r)"
  let ?p1 = "free_children (unat (pn_num_children (node pw r))) (pkts_waiting_next_child pw r) pw"
  have bnd: "unat i < length (pw_packets pw)" if "i \<in> set (shape_nodes ?rs @ fs)" for i
    using pq_bound [OF sh] that .
  have dist: "distinct (shape_nodes ?rs)" "distinct fs" "set (shape_nodes ?rs) \<inter> set fs = {}"
    using sh by (auto simp: pq_shape_def)
  have ok: "root_ok pw (r, cs)" using sh by (auto simp: pq_shape_def)
  then have nc: "unat (pn_num_children (node pw r)) = length cs"
    and lc: "linked (\<lambda>i. pn_child (node pw i)) (r # cs)" by (simp_all only: root_ok_def prod.case)
  have p1: "(\<forall>x. x \<notin> set cs \<longrightarrow> node ?p1 x = node pw x) \<and> (\<forall>x. same_node (node ?p1 x) (node pw x)) \<and>
    linked (\<lambda>i. pn_next (node ?p1 i)) (rev cs @ fs) \<and> (rev cs @ fs \<noteq> [] \<longrightarrow> pw_free ?p1 = hd (rev cs @ fs)) \<and>
    pw_size ?p1 = pw_size pw - of_nat (length cs) \<and> pw_capacity ?p1 = pw_capacity pw \<and>
    pw_length ?p1 = pw_length pw \<and> pw_head ?p1 = pw_head pw \<and> pw_tail ?p1 = pw_tail pw \<and>
    length (pw_packets ?p1) = length (pw_packets pw)"
    unfolding nc
  proof (rule free_children_spec)
    show "unat x < length (pw_packets pw)" if "x \<in> set cs" for x using that by (intro bnd) auto
    show "distinct (cs @ fs)" using dist by auto
    show "linked (\<lambda>i. pn_child (node pw i)) cs" "cs \<noteq> [] \<longrightarrow> pkts_waiting_next_child pw r = hd cs"
      using lc by (auto simp: linked_Cons pkts_waiting_next_child_def)
    show "linked (\<lambda>i. pn_next (node pw i)) fs" "fs \<noteq> [] \<longrightarrow> pw_free pw = hd fs"
      using sh by (simp_all add: pq_shape_def)
  qed
  have AB: "set ?A \<subseteq> set (shape_nodes xs)" "set ?B \<subseteq> set (shape_nodes ys)" by (rule roots_in_shape)+
  have D: "r \<notin> set cs" "r \<notin> set (shape_nodes xs)" "r \<notin> set (shape_nodes ys)" "r \<notin> set fs"
    "set (shape_nodes xs) \<inter> set (shape_nodes ys) = {}" "set (shape_nodes xs) \<inter> set cs = {}"
    "set (shape_nodes ys) \<inter> set cs = {}" "set (shape_nodes xs) \<inter> set fs = {}"
    "set (shape_nodes ys) \<inter> set fs = {}" "set cs \<inter> set fs = {}" "distinct cs"
    "distinct (shape_nodes xs)" "distinct (shape_nodes ys)"
    using dist by auto
  have r_out: "r \<notin> set cs" "r \<notin> set ?A" "r \<notin> set ?B" "r \<notin> set fs"
    using D(1-4) AB by (blast, blast, blast, blast)
  have AB_out: "set ?A \<inter> set ?B = {}" "set ?A \<inter> set cs = {}" "set ?B \<inter> set cs = {}"
    "set ?A \<inter> set fs = {}" "set ?B \<inter> set fs = {}"
    by (rule disjoint_mono [OF AB D(5)] disjoint_mono [OF AB(1) subset_refl D(6)]
      disjoint_mono [OF AB(2) subset_refl D(7)] disjoint_mono [OF AB(1) subset_refl D(8)]
      disjoint_mono [OF AB(2) subset_refl D(9)])+
  have dAB: "distinct (?A @ r # ?B)" using distinct_roots [OF dist(1)] by simp
  have ln: "linked (\<lambda>i. pn_next (node pw i)) (?A @ r # ?B)"
    and lp: "linked (\<lambda>i. pn_prev (node pw i)) (rev ?B @ r # rev ?A)"
    and ends: "pw_head pw = hd (?A @ r # ?B)" "pw_tail pw = last (?A @ r # ?B)"
    using sh by (auto simp: pq_shape_def hd_append hd_map last_map)
  note ends_r = ends_of_removed [OF ln lp dAB]
  have prev_r: "?A \<noteq> [] \<Longrightarrow> pn_prev (node pw r) = last ?A"
    and next_r: "?B \<noteq> [] \<Longrightarrow> pn_next (node pw r) = hd ?B"
    using ends_r(1,2) by blast+
  have is_head: "r = pw_head pw \<longleftrightarrow> ?A = []" and is_tail: "r = pw_tail pw \<longleftrightarrow> ?B = []"
    unfolding ends using ends_r(3,4) by blast+
  have la: "?A \<noteq> [] \<Longrightarrow> last ?A \<in> set ?A" and hb: "?B \<noteq> [] \<Longrightarrow> hd ?B \<in> set ?B"
    using last_in_set [of ?A] hd_in_set [of ?B] by blast+
  have p1r: "node ?p1 r = node pw r" using p1 r_out(1) by blast
  have lenp: "length (pw_packets ?p1) = length (pw_packets pw)" using p1 by blast
  have b: "unat r < length (pw_packets pw)" "?A \<noteq> [] \<Longrightarrow> unat (last ?A) < length (pw_packets pw)"
    "?B \<noteq> [] \<Longrightarrow> unat (hd ?B) < length (pw_packets pw)"
  proof -
    show "unat r < length (pw_packets pw)" by (rule bnd) simp
    have "set ?A \<subseteq> set (shape_nodes ?rs @ fs)" "set ?B \<subseteq> set (shape_nodes ?rs @ fs)"
      using AB by (simp_all add: subset_iff)
    then show "?A \<noteq> [] \<Longrightarrow> unat (last ?A) < length (pw_packets pw)"
      "?B \<noteq> [] \<Longrightarrow> unat (hd ?B) < length (pw_packets pw)"
      using bnd la hb by blast+
  qed
  have sel: "pw_head ?p1 = pw_head pw" "pw_tail ?p1 = pw_tail pw" "pw_length ?p1 = pw_length pw"
    "pw_size ?p1 = pw_size pw - of_nat (length cs)" "pw_capacity ?p1 = pw_capacity pw"
    using p1 by blast+
  have ne: "?A \<noteq> [] \<Longrightarrow> last ?A \<noteq> r" "?B \<noteq> [] \<Longrightarrow> hd ?B \<noteq> r"
    "?A \<noteq> [] \<Longrightarrow> ?B \<noteq> [] \<Longrightarrow> last ?A \<noteq> hd ?B"
  proof -
    show "?A \<noteq> [] \<Longrightarrow> last ?A \<noteq> r" using la r_out(2) by metis
    show "?B \<noteq> [] \<Longrightarrow> hd ?B \<noteq> r" using hb r_out(3) by metis
    show "?A \<noteq> [] \<Longrightarrow> ?B \<noteq> [] \<Longrightarrow> last ?A \<noteq> hd ?B"
      using la hb AB_out(1) by (metis disjoint_iff)
  qed
  have nodeF: "node ?F x =
      (if x = r then (node pw r)\<lparr>pn_next := pw_free ?p1\<rparr>
       else if ?A \<noteq> [] \<and> x = last ?A then (node ?p1 x)\<lparr>pn_next := pn_next (node pw r)\<rparr>
       else if ?B \<noteq> [] \<and> x = hd ?B then (node ?p1 x)\<lparr>pn_prev := pn_prev (node pw r)\<rparr>
       else node ?p1 x)" for x
    by (rule free_parent_nodes [OF p1r lenp sel(1,2) is_head is_tail prev_r next_r ne b])
  have fields: "pw_capacity ?F = pw_capacity pw" "length (pw_packets ?F) = length (pw_packets pw)"
    "pw_free ?F = r" "pw_length ?F = pw_length pw - 1" "pw_size ?F = pw_size pw - of_nat (length cs) - 1"
    "pw_head ?F = (if ?A = [] then pn_next (node pw r) else pw_head pw)"
    "pw_tail ?F = (if ?B = [] then (if ?A = [] then pw_tail ?F else last ?A) else pw_tail pw)"
    using sel lenp p1r is_head is_tail prev_r ne(1)
    by (simp_all add: pkts_waiting_free_parent_def Let_def)
  have same: "same_node (node ?F x) (node pw x)" if "?B = [] \<or> x \<noteq> hd ?B" for x
  proof -
    have "same_node (node ?p1 x) (node pw x)" using p1 by blast
    then show ?thesis using that unfolding nodeF by (auto simp: same_node_def)
  qed
  have keep: "pn_child (node ?F x) = pn_child (node pw x) \<and> pn_num_children (node ?F x) = pn_num_children (node pw x) \<and>
      pn_tail (node ?F x) = pn_tail (node pw x) \<and> pn_ip (node ?F x) = pn_ip (node pw x) \<and>
      pn_buffer (node ?F x) = pn_buffer (node pw x)" for x
  proof -
    have "same_node (node ?p1 x) (node pw x)" using p1 by blast
    then show ?thesis unfolding nodeF by (auto simp: same_node_def)
  qed
  have p1_out: "node ?p1 x = node pw x" if "x \<notin> set cs" for x using p1 that by blast
  have AB_in: "x \<notin> set cs" "x \<noteq> r" if "x \<in> set (?A @ ?B)" for x
    using that AB_out(2,3) r_out(2,3) by auto
  have nxt: "linked (\<lambda>i. pn_next (node ?F i)) (?A @ ?B)"
  proof (rule linked_remove [OF ln _ _ dAB])
    show "pn_next (node ?F x) = pn_next (node pw x)" if "x \<in> set (?A @ ?B)" "?A = [] \<or> x \<noteq> last ?A" for x
      using that(2) AB_in [OF that(1)] p1_out [of x] unfolding nodeF by auto
    show "pn_next (node ?F (last ?A)) = pn_next (node pw r)" if "?A \<noteq> []"
      using that ne(1) unfolding nodeF by simp
  qed
  have prv: "linked (\<lambda>i. pn_prev (node ?F i)) (rev ?B @ rev ?A)"
  proof (rule linked_remove [OF lp])
    show "pn_prev (node ?F x) = pn_prev (node pw x)"
      if x: "x \<in> set (rev ?B @ rev ?A)" "rev ?B = [] \<or> x \<noteq> last (rev ?B)" for x
    proof -
      have "?B = [] \<or> x \<noteq> hd ?B" using x(2) by (auto simp: last_rev)
      from same [OF this] show ?thesis by (simp add: same_node_def)
    qed
    show "pn_prev (node ?F (last (rev ?B))) = pn_prev (node pw r)" if "rev ?B \<noteq> []"
      using that ne unfolding nodeF by (auto simp: last_rev)
    show "distinct (rev ?B @ r # rev ?A)" using dAB by auto
  qed
  have free: "linked (\<lambda>i. pn_next (node ?F i)) (r # rev cs @ fs)"
  proof -
    have "linked (\<lambda>i. pn_next (node ?F i)) (rev cs @ fs) = linked (\<lambda>i. pn_next (node ?p1 i)) (rev cs @ fs)"
    proof (rule linked_cong)
      fix x assume "x \<in> set (rev cs @ fs)"
      then have "x \<notin> set ?A" "x \<notin> set ?B" "x \<noteq> r" using AB_out r_out by auto
      then show "pn_next (node ?F x) = pn_next (node ?p1 x)" using la hb unfolding nodeF by auto
    qed
    moreover have "pn_next (node ?F r) = pw_free ?p1" unfolding nodeF by simp
    moreover have "linked (\<lambda>i. pn_next (node ?p1 i)) (rev cs @ fs)"
      "rev cs @ fs \<noteq> [] \<longrightarrow> pw_free ?p1 = hd (rev cs @ fs)" using p1 by blast+
    ultimately show ?thesis by (simp only: linked_Cons) blast
  qed
  have cnt: "unat (pw_size pw) = length (shape_nodes ?rs)" "unat (pw_length pw) = length ?rs"
    "length (shape_nodes ?rs) + length fs = unat (pw_capacity pw)"
    using sh by (simp_all add: pq_shape_def)
  have cap: "unat (pw_capacity pw) < 2 ^ LENGTH(16)" by (rule unsigned_less)
  have len': "unat (pw_length ?F) = length (xs @ ys)"
  proof -
    have "0 < pw_length pw" using cnt(2) by (simp add: word_less_nat_alt)
    then show ?thesis using word_step(2) [of 0 "pw_length pw"] cnt(2) unfolding fields by simp
  qed
  have size': "unat (pw_size ?F) = length (shape_nodes (xs @ ys))"
  proof -
    have "length cs + 1 < 2 ^ LENGTH(16)" using cnt(3) cap by simp
    then have u: "unat (of_nat (length cs + 1) :: u16) = length cs + 1"
      by (simp only: unat_of_nat mod_less)
    have "(of_nat (length cs + 1) :: u16) \<le> pw_size pw" unfolding word_le_nat_alt u cnt(1) by simp
    then have "unat (pw_size pw - of_nat (length cs + 1)) = unat (pw_size pw) - (length cs + 1)"
      by (simp only: unat_sub u)
    moreover have "pw_size ?F = pw_size pw - of_nat (length cs + 1)" unfolding fields by simp
    ultimately show ?thesis using cnt(1) by simp
  qed
  have sets: "set (shape_nodes (xs @ ys) @ r # rev cs @ fs) = set (shape_nodes ?rs @ fs)" by auto
  have "pq_shape ?F (xs @ ys) (r # rev cs @ fs)"
    unfolding pq_shape_def sets
  proof (intro conjI)
    show "length (pw_packets ?F) = unat (pw_capacity ?F)"
      using sh unfolding fields by (simp add: pq_shape_def)
    show "distinct (shape_nodes (xs @ ys) @ r # rev cs @ fs)"
      using D dist(2) by (simp add: Int_Un_distrib Int_Un_distrib2 Int_commute)
    show "\<forall>i \<in> set (shape_nodes ?rs @ fs). i < pw_capacity ?F"
      using sh unfolding fields pq_shape_def by blast
    show "length (shape_nodes (xs @ ys)) + length (r # rev cs @ fs) = unat (pw_capacity ?F)"
      using cnt(3) unfolding fields by simp
    show "unat (pw_size ?F) = length (shape_nodes (xs @ ys))" by (rule size')
    show "unat (pw_length ?F) = length (xs @ ys)" by (rule len')
    show "linked (\<lambda>i. pn_next (node ?F i)) (map fst (xs @ ys))" using nxt by simp
    show "linked (\<lambda>i. pn_prev (node ?F i)) (rev (map fst (xs @ ys)))" using prv by simp
    show "linked (\<lambda>i. pn_next (node ?F i)) (r # rev cs @ fs)" by (rule free)
    show "r # rev cs @ fs \<noteq> [] \<longrightarrow> pw_free ?F = hd (r # rev cs @ fs)" unfolding fields by simp
    show "\<forall>p \<in> set (xs @ ys). root_ok ?F p"
    proof
      fix p assume p: "p \<in> set (xs @ ys)"
      obtain q ds where q: "p = (q, ds)" by (cases p)
      have "root_ok ?F (q, ds) = root_ok pw (q, ds)" by (rule root_ok_cong) (use keep in blast)
      then show "root_ok ?F p" using sh p q by (auto simp: pq_shape_def)
    qed
    show "xs @ ys \<noteq> [] \<longrightarrow> pw_head ?F = fst (hd (xs @ ys)) \<and> pw_tail ?F = fst (last (xs @ ys))"
      using ends next_r fields(6,7)
      by (cases xs; cases "ys = []") (auto simp: hd_map last_map hd_append last_append)
  qed
  moreover have "pq_abs ?F (xs @ ys) = pq_abs pw (xs @ ys)"
    unfolding pq_abs_def by (intro map_cong refl) (auto simp: keep)
  moreover have "pkts_waiting_free_parent pw r = (ROUTING_ERR_OKAY, ?F)"
    by (simp add: pkts_waiting_free_parent_def Let_def)
  ultimately show ?thesis using fields(1) by blast
qed

subsection \<open>The queue as a list of waiting next hops\<close>

text \<open>The two uses of the queue in the router: a packet for an unresolved next hop is stored behind
  the others for that next hop, and a resolved next hop has all its packets taken out.\<close>

definition waiting_store :: "pkts_waiting \<Rightarrow> u32 \<Rightarrow> fw_buff_desc \<Rightarrow> fw_routing_err \<times> pkts_waiting" where
  "waiting_store pw ip b =
     (case pkt_waiting_find_node pw ip of
        None \<Rightarrow> pkt_waiting_push pw ip b
      | Some root \<Rightarrow> pkt_waiting_push_child pw root b)"

definition waiting_release :: "pkts_waiting \<Rightarrow> u32 \<Rightarrow> fw_buff_desc list option \<times> pkts_waiting" where
  "waiting_release pw ip =
     (case pkt_waiting_find_node pw ip of
        None \<Rightarrow> (None, pw)
      | Some root \<Rightarrow> (Some (waiting_buffers pw root), snd (pkts_waiting_free_parent pw root)))"

type_synonym waiting = "(u32 \<times> fw_buff_desc list) list"

definition waiting_total :: "waiting \<Rightarrow> nat" where
  "waiting_total q = sum_list (map (\<lambda>(ip, bs). length bs) q)"

definition abs_store :: "nat \<Rightarrow> waiting \<Rightarrow> u32 \<Rightarrow> fw_buff_desc \<Rightarrow> fw_routing_err \<times> waiting" where
  "abs_store cap q ip b =
     (if waiting_total q = cap then (ROUTING_ERR_FULL, q)
      else if ip \<in> fst ` set q
      then (ROUTING_ERR_OKAY, map (\<lambda>(i, bs). if i = ip then (i, bs @ [b]) else (i, bs)) q)
      else (ROUTING_ERR_OKAY, (ip, [b]) # q))"

definition abs_release :: "waiting \<Rightarrow> u32 \<Rightarrow> fw_buff_desc list option \<times> waiting" where
  "abs_release q ip = (map_of q ip, filter (\<lambda>p. fst p \<noteq> ip) q)"

definition represents :: "pkts_waiting \<Rightarrow> waiting \<Rightarrow> bool" where
  "represents pw q \<longleftrightarrow> (\<exists>rs fs. pq_shape pw rs fs \<and> q = pq_abs pw rs) \<and> distinct (map fst q)"

lemma waiting_total_abs: "waiting_total (pq_abs pw rs) = length (shape_nodes rs)"
  by (induction rs) (auto simp: waiting_total_def pq_abs_def)

lemma pq_abs_append: "pq_abs pw (xs @ ys) = pq_abs pw xs @ pq_abs pw ys"
  by (simp add: pq_abs_def)

lemma pq_abs_Cons: "pq_abs pw ((r, cs) # rs) =
    (pn_ip (node pw r), map (\<lambda>i. pn_buffer (node pw i)) (r # cs)) # pq_abs pw rs"
  by (simp add: pq_abs_def)

lemma find_root_cases:
  assumes "pq_shape pw rs fs"
  shows "(pkt_waiting_find_node pw ip = None \<and> ip \<notin> fst ` set (pq_abs pw rs)) \<or>
    (\<exists>xs r cs ys. rs = xs @ (r, cs) # ys \<and> pkt_waiting_find_node pw ip = Some r \<and> pn_ip (node pw r) = ip)"
proof (cases "find (\<lambda>r. pn_ip (node pw r) = ip) (map fst rs)")
  case None
  then have "ip \<notin> fst ` set (pq_abs pw rs)" by (auto simp: find_None_iff pq_abs_def)
  with None find_node_spec [OF assms, of ip] show ?thesis by simp
next
  case (Some r)
  then have "r \<in> fst ` set rs" "pn_ip (node pw r) = ip"
    by (auto simp: find_Some_iff)
  then obtain cs where "(r, cs) \<in> set rs" by auto
  then obtain xs ys where "rs = xs @ (r, cs) # ys" by (meson split_list)
  with Some \<open>pn_ip (node pw r) = ip\<close> find_node_spec [OF assms, of ip] show ?thesis by auto
qed

lemma waiting_store_refines:
  assumes rep: "represents pw q"
  shows "\<exists>err pw' q'. waiting_store pw ip b = (err, pw') \<and>
    abs_store (unat (pw_capacity pw)) q ip b = (err, q') \<and> represents pw' q' \<and>
    pw_capacity pw' = pw_capacity pw"
proof -
  obtain rs fs where sh: "pq_shape pw rs fs" and q: "q = pq_abs pw rs" and d: "distinct (map fst q)"
    using rep by (auto simp: represents_def)
  have tot: "waiting_total q = unat (pw_capacity pw) \<longleftrightarrow> fs = []"
    using sh by (auto simp: q waiting_total_abs pq_shape_def)
  show ?thesis
  proof (cases fs)
    case Nil
    then have "pkt_waiting_full pw" using pq_full_iff [OF sh] by simp
    then have "waiting_store pw ip b = (ROUTING_ERR_FULL, pw)"
      by (simp add: waiting_store_def pkt_waiting_push_def pkt_waiting_push_child_def split: option.splits)
    with rep tot Nil show ?thesis by (simp add: abs_store_def)
  next
    case (Cons n fs')
    note sh' = sh [unfolded Cons]
    have nt: "waiting_total q \<noteq> unat (pw_capacity pw)" using tot Cons by simp
    from find_root_cases [OF sh, of ip] show ?thesis
    proof (elim disjE exE conjE)
      assume none: "pkt_waiting_find_node pw ip = None" "ip \<notin> fst ` set (pq_abs pw rs)"
      obtain pw' where p: "pkt_waiting_push pw ip b = (ROUTING_ERR_OKAY, pw')"
        "pq_shape pw' ((n, []) # rs) fs'" "pq_abs pw' ((n, []) # rs) = (ip, [b]) # pq_abs pw rs"
        "pw_capacity pw' = pw_capacity pw"
        using push_spec [OF sh', of ip b] by blast
      have "represents pw' ((ip, [b]) # q)"
        unfolding represents_def using p(2,3) d none(2) q by (auto simp: image_iff)
      with p none nt q show ?thesis by (simp add: waiting_store_def abs_store_def)
    next
      fix xs r cs ys
      assume rs: "rs = xs @ (r, cs) # ys" and r: "pkt_waiting_find_node pw ip = Some r" "pn_ip (node pw r) = ip"
      obtain pw' where p: "pkt_waiting_push_child pw r b = (ROUTING_ERR_OKAY, pw')"
        "pq_shape pw' (xs @ (r, cs @ [n]) # ys) fs'"
        "pq_abs pw' (xs @ (r, cs @ [n]) # ys) =
          pq_abs pw xs @ (pn_ip (node pw r), map (\<lambda>i. pn_buffer (node pw i)) (r # cs) @ [b]) # pq_abs pw ys"
        "pw_capacity pw' = pw_capacity pw"
        using push_child_spec [OF sh' [unfolded rs], of b] by blast
      let ?bs = "map (\<lambda>i. pn_buffer (node pw i)) (r # cs)"
      let ?q' = "pq_abs pw xs @ (ip, ?bs @ [b]) # pq_abs pw ys"
      have qq: "q = pq_abs pw xs @ (ip, ?bs) # pq_abs pw ys"
        by (simp add: q rs pq_abs_append pq_abs_Cons r)
      then have out: "ip \<notin> fst ` set (pq_abs pw xs)" "ip \<notin> fst ` set (pq_abs pw ys)" using d by auto
      have same: "map (\<lambda>(i, bs). if i = ip then (i, bs @ [b]) else (i, bs)) zs = zs" if "ip \<notin> fst ` set zs" for zs
        using that by (induction zs) auto
      have "represents pw' ?q'"
        unfolding represents_def using p(2,3) d qq r(2) by auto
      moreover have "map (\<lambda>(i, bs). if i = ip then (i, bs @ [b]) else (i, bs)) q = ?q'"
        by (simp add: qq same [OF out(1)] same [OF out(2)])
      moreover have "ip \<in> fst ` set q" by (simp add: qq)
      ultimately show ?thesis using p r nt by (simp add: waiting_store_def abs_store_def)
    qed
  qed
qed

lemma waiting_release_refines:
  assumes rep: "represents pw q"
  shows "\<exists>pw'. waiting_release pw ip = (fst (abs_release q ip), pw') \<and>
    represents pw' (snd (abs_release q ip)) \<and> pw_capacity pw' = pw_capacity pw"
proof -
  obtain rs fs where sh: "pq_shape pw rs fs" and q: "q = pq_abs pw rs" and d: "distinct (map fst q)"
    using rep by (auto simp: represents_def)
  from find_root_cases [OF sh, of ip] show ?thesis
  proof (elim disjE exE conjE)
    assume none: "pkt_waiting_find_node pw ip = None" "ip \<notin> fst ` set (pq_abs pw rs)"
    then have "map_of q ip = None" "filter (\<lambda>p. fst p \<noteq> ip) q = q"
      by (auto simp: q map_of_eq_None_iff intro!: filter_True)
    with none rep show ?thesis by (simp add: waiting_release_def abs_release_def)
  next
    fix xs r cs ys
    assume rs: "rs = xs @ (r, cs) # ys" and r: "pkt_waiting_find_node pw ip = Some r" "pn_ip (node pw r) = ip"
    obtain pw' where p: "pkts_waiting_free_parent pw r = (ROUTING_ERR_OKAY, pw')"
      "pq_shape pw' (xs @ ys) (r # rev cs @ fs)" "pq_abs pw' (xs @ ys) = pq_abs pw (xs @ ys)"
      "pw_capacity pw' = pw_capacity pw"
      using free_parent_spec [OF sh [unfolded rs]] by blast
    let ?bs = "map (\<lambda>i. pn_buffer (node pw i)) (r # cs)"
    have qq: "q = pq_abs pw xs @ (ip, ?bs) # pq_abs pw ys"
      by (simp add: q rs pq_abs_append pq_abs_Cons r)
    then have out: "ip \<notin> fst ` set (pq_abs pw xs)" "ip \<notin> fst ` set (pq_abs pw ys)" using d by auto
    have "root_ok pw (r, cs)" using sh rs by (auto simp: pq_shape_def)
    then have bufs: "waiting_buffers pw r = ?bs" by (rule waiting_buffers_spec)
    have keep: "filter (\<lambda>p. fst p \<noteq> ip) zs = zs" if "ip \<notin> fst ` set zs" for zs :: waiting
      using that by (induction zs) auto
    have "filter (\<lambda>p. fst p \<noteq> ip) q = pq_abs pw (xs @ ys)"
      by (simp add: qq keep [OF out(1)] keep [OF out(2)] pq_abs_append)
    moreover have "map_of q ip = Some ?bs"
      using out(1) by (auto simp: qq map_add_def map_of_eq_None_iff split: option.splits dest: map_of_SomeD)
        (metis image_eqI fst_conv map_of_SomeD)+
    moreover have "represents pw' (pq_abs pw (xs @ ys))"
      unfolding represents_def using p(2,3) d qq by (auto simp: pq_abs_append)
    ultimately show ?thesis using p r bufs by (simp add: waiting_release_def abs_release_def)
  qed
qed

lemma linked_upt: "linked f (map of_nat [0..<n]) \<longleftrightarrow> (\<forall>i. Suc i < n \<longrightarrow> f (of_nat i) = of_nat (Suc i))"
proof (induction n)
  case 0
  then show ?case by simp
next
  case (Suc n)
  show ?case
  proof (cases n)
    case 0
    then show ?thesis by simp
  next
    case (Suc m)
    with Suc.IH show ?thesis by (auto simp: linked_append less_Suc_eq)
  qed
qed

lemma init_represents:
  assumes "pw_size pw = 0" "pw_length pw = 0" "pw_free pw = 0" "length packets = unat capacity"
  shows "represents (pkt_waiting_init pw packets capacity) []"
proof -
  let ?pw = "pkt_waiting_init pw packets capacity" and ?fs = "map of_nat [0..<unat capacity] :: u16 list"
  have cap: "unat capacity < 65536" using unsigned_less [of capacity, where ?'a = nat] by simp
  have u: "unat (of_nat i :: u16) = i" if "i < unat capacity" for i
    using that cap by (simp add: unat_of_nat)
  have "linked (\<lambda>i. pn_next (node ?pw i)) ?fs"
    unfolding linked_upt using assms(4) by (auto simp: u pkt_waiting_init_def)
  moreover have "distinct ?fs"
    unfolding distinct_map by (auto intro!: inj_onI dest: arg_cong [of _ _ unat] simp: u)
  moreover have "\<forall>i \<in> set ?fs. i < capacity" by (auto simp: word_less_nat_alt u)
  ultimately have "pq_shape ?pw [] ?fs"
    using assms by (simp add: pq_shape_def pkt_waiting_init_def hd_map)
  then show ?thesis by (auto simp: represents_def pq_abs_def)
qed

datatype waiting_op = Store u32 fw_buff_desc | Release u32

datatype waiting_result = Stored fw_routing_err | Released "fw_buff_desc list option"

fun waiting_run :: "pkts_waiting \<Rightarrow> waiting_op list \<Rightarrow> waiting_result list \<times> pkts_waiting" where
  "waiting_run pw [] = ([], pw)"
| "waiting_run pw (Store ip b # ops) =
     (let (err, pw1) = waiting_store pw ip b; (rs, pw2) = waiting_run pw1 ops in (Stored err # rs, pw2))"
| "waiting_run pw (Release ip # ops) =
     (let (bs, pw1) = waiting_release pw ip; (rs, pw2) = waiting_run pw1 ops in (Released bs # rs, pw2))"

fun abs_run :: "nat \<Rightarrow> waiting \<Rightarrow> waiting_op list \<Rightarrow> waiting_result list \<times> waiting" where
  "abs_run cap q [] = ([], q)"
| "abs_run cap q (Store ip b # ops) =
     (let (err, q1) = abs_store cap q ip b; (rs, q2) = abs_run cap q1 ops in (Stored err # rs, q2))"
| "abs_run cap q (Release ip # ops) =
     (let (bs, q1) = abs_release q ip; (rs, q2) = abs_run cap q1 ops in (Released bs # rs, q2))"

lemma waiting_run_refines:
  assumes "represents pw q"
  shows "represents (snd (waiting_run pw ops)) (snd (abs_run (unat (pw_capacity pw)) q ops)) \<and>
    fst (waiting_run pw ops) = fst (abs_run (unat (pw_capacity pw)) q ops)"
  using assms
proof (induction ops arbitrary: pw q)
  case Nil
  then show ?case by simp
next
  case (Cons op ops)
  show ?case
  proof (cases op)
    case (Store ip b)
    obtain err pw1 q1 where s: "waiting_store pw ip b = (err, pw1)"
      "abs_store (unat (pw_capacity pw)) q ip b = (err, q1)" "represents pw1 q1"
      "pw_capacity pw1 = pw_capacity pw"
      using waiting_store_refines [OF Cons.prems, of ip b] by blast
    from Cons.IH [OF s(3)] s Store show ?thesis by (auto split: prod.splits)
  next
    case (Release ip)
    obtain pw1 where r: "waiting_release pw ip = (fst (abs_release q ip), pw1)"
      "represents pw1 (snd (abs_release q ip))" "pw_capacity pw1 = pw_capacity pw"
      using waiting_release_refines [OF Cons.prems, of ip] by blast
    from Cons.IH [OF r(2)] r Release show ?thesis by (auto split: prod.splits)
  qed
qed

text \<open>C15: the linked packet queue behaves as a list of waiting next hops. For every sequence of packets
  stored and next hops released on a queue initialised in zeroed memory, the results are those of the
  list: a packet is refused only when as many packets wait as there are nodes, packets of one next hop
  come out in the order in which they were stored, and no packet is lost or mixed up.\<close>

theorem packet_queue_refines:
  assumes "pw_size pw = 0" "pw_length pw = 0" "pw_free pw = 0" "length packets = unat capacity"
  shows "fst (waiting_run (pkt_waiting_init pw packets capacity) ops) = fst (abs_run (unat capacity) [] ops) \<and>
    represents (snd (waiting_run (pkt_waiting_init pw packets capacity) ops))
      (snd (abs_run (unat capacity) [] ops))"
  using waiting_run_refines [OF init_represents [OF assms], of ops]
  by (simp add: pkt_waiting_init_def)

definition ex_node :: pkt_waiting_node where
  "ex_node = \<lparr>pn_next = 9, pn_prev = 9, pn_child = 9, pn_num_children = 9, pn_tail = 9, pn_ip = 9,
     pn_buffer = \<lparr>bd_offset = 0, bd_len = 0, bd_interface = 0\<rparr>\<rparr>"

definition ex_waiting :: pkts_waiting where
  "ex_waiting = \<lparr>pw_packets = [], pw_capacity = 0, pw_size = 0, pw_length = 0, pw_head = 0, pw_tail = 0,
     pw_free = 0\<rparr>"

definition ex_buffer :: "u64 \<Rightarrow> fw_buff_desc" where
  "ex_buffer i = \<lparr>bd_offset = i, bd_len = 60, bd_interface = 0\<rparr>"

theorem packet_queue_refines_witness:
  "fst (waiting_run (pkt_waiting_init ex_waiting [ex_node, ex_node, ex_node] 3)
      [Store 5 (ex_buffer 1), Store 6 (ex_buffer 2), Store 5 (ex_buffer 3), Store 7 (ex_buffer 4), Release 5]) =
    [Stored ROUTING_ERR_OKAY, Stored ROUTING_ERR_OKAY, Stored ROUTING_ERR_OKAY, Stored ROUTING_ERR_FULL,
     Released (Some [ex_buffer 1, ex_buffer 3])]"
  using packet_queue_refines [of ex_waiting "[ex_node, ex_node, ex_node]" 3
      "[Store 5 (ex_buffer 1), Store 6 (ex_buffer 2), Store 5 (ex_buffer 3), Store 7 (ex_buffer 4), Release 5]"]
  by (simp add: ex_waiting_def abs_store_def abs_release_def waiting_total_def)

end
