(* ===== verification/Fw_Arp.thy ===== *)
theory Fw_Arp
  imports Fw_Common Fw_Queue Fw_Array
begin

text \<open>
  \<open>include/lions/firewall/arp.h\<close>: the ARP cache and the ARP packet. The cache is an array of
  entries, an entry is in use when its state is not \<open>ARP_STATE_INVALID\<close>. The MAC address of an
  entry is meaningful only in the state \<open>ARP_STATE_REACHABLE\<close>.
\<close>

subsection \<open>Types and constants\<close>

definition ETH_HWADDR_LEN :: nat where "ETH_HWADDR_LEN = 6"
definition ETH_HDR_LEN :: nat where "ETH_HDR_LEN = 14"
definition ETH_TYPE_IP :: u16 where "ETH_TYPE_IP = 0x0800"
definition ETH_TYPE_ARP :: u16 where "ETH_TYPE_ARP = 0x0806"
definition ARP_HWTYPE_ETH :: u16 where "ARP_HWTYPE_ETH = 1"
definition ARP_PROTO_LEN_IPV4 :: u8 where "ARP_PROTO_LEN_IPV4 = 4"
definition ARP_ETH_OPCODE_REQUEST :: u16 where "ARP_ETH_OPCODE_REQUEST = 1"
definition ARP_ETH_OPCODE_REPLY :: u16 where "ARP_ETH_OPCODE_REPLY = 2"

text \<open>Byte offsets of the fields of the two packed structs, Ethernet header and ARP packet.\<close>

definition ARP_PKT_OFFSET :: nat where "ARP_PKT_OFFSET = ETH_HDR_LEN"
definition ARP_PKT_LEN :: nat where "ARP_PKT_LEN = ETH_HDR_LEN + 46"

datatype fw_arp_error = ARP_ERR_OKAY | ARP_ERR_FULL | ARP_ERR_INVALID

datatype fw_arp_entry_state =
    ARP_STATE_INVALID
  | ARP_STATE_PENDING
  | ARP_STATE_UNREACHABLE
  | ARP_STATE_REACHABLE

type_synonym mac = "u8 list"

record fw_arp_entry =
  ae_state :: fw_arp_entry_state
  ae_ip :: u32
  ae_mac_addr :: mac
  ae_client :: u8
  ae_num_retries :: u8

record fw_arp_table =
  at_entries :: "fw_arp_entry list"
  at_capacity :: u16

record fw_arp_request =
  aq_ip :: u32
  aq_mac_addr :: mac
  aq_state :: fw_arp_entry_state

text \<open>\<open>BIT(client)\<close> stored into the 8-bit client set of an entry.\<close>

definition client_bit :: "nat \<Rightarrow> u8" where
  "client_bit c = push_bit c 1"

subsection \<open>The cache\<close>

definition fw_arp_table_init :: "fw_arp_entry list \<Rightarrow> u16 \<Rightarrow> fw_arp_table" where
  "fw_arp_table_init entries capacity = \<lparr>at_entries = entries, at_capacity = capacity\<rparr>"

definition arp_slots :: "fw_arp_table \<Rightarrow> fw_arp_entry list" where
  "arp_slots tbl = take (unat (at_capacity tbl)) (at_entries tbl)"

definition entry_for :: "u32 \<Rightarrow> fw_arp_entry \<Rightarrow> bool" where
  "entry_for ip e \<longleftrightarrow> ae_state e \<noteq> ARP_STATE_INVALID \<and> ae_ip e = ip"

text \<open>Position of the entry of an address.\<close>

definition fw_arp_table_find_entry :: "fw_arp_table \<Rightarrow> u32 \<Rightarrow> nat option" where
  "fw_arp_table_find_entry tbl ip = find_index (entry_for ip) (arp_slots tbl)"

definition fw_arp_response_from_entry :: "fw_arp_entry option \<Rightarrow> fw_arp_request" where
  "fw_arp_response_from_entry entry =
     (case entry of
        None \<Rightarrow> \<lparr>aq_ip = 0, aq_mac_addr = replicate ETH_HWADDR_LEN 0, aq_state = ARP_STATE_INVALID\<rparr>
      | Some e \<Rightarrow> \<lparr>aq_ip = ae_ip e,
          aq_mac_addr = (if ae_state e = ARP_STATE_REACHABLE then ae_mac_addr e
                         else replicate ETH_HWADDR_LEN 0),
          aq_state = ae_state e\<rparr>)"

text \<open>The slot search of an addition: the first free slot unless the address has an entry.\<close>

fun find_slot :: "u32 \<Rightarrow> nat option \<Rightarrow> nat \<Rightarrow> fw_arp_entry list \<Rightarrow> nat option" where
  "find_slot ip slot i [] = slot"
| "find_slot ip slot i (e # es) =
     (if ae_state e = ARP_STATE_INVALID
      then find_slot ip (if slot = None then Some i else slot) (Suc i) es
      else if ae_ip e = ip then Some i
      else find_slot ip slot (Suc i) es)"

definition fw_arp_table_add_entry ::
  "fw_arp_table \<Rightarrow> fw_arp_entry_state \<Rightarrow> u32 \<Rightarrow> mac option \<Rightarrow> nat \<Rightarrow> fw_arp_error \<times> fw_arp_table" where
  "fw_arp_table_add_entry tbl state ip mac_addr client =
     (if state = ARP_STATE_REACHABLE \<and> mac_addr = None then (ARP_ERR_INVALID, tbl)
      else
        case find_slot ip None 0 (arp_slots tbl) of
          None \<Rightarrow> (ARP_ERR_FULL, tbl)
        | Some i \<Rightarrow>
            let old = at_entries tbl ! i;
                e = old\<lparr>ae_state := state, ae_ip := ip,
                      ae_mac_addr := (case mac_addr of
                          Some m \<Rightarrow> if state = ARP_STATE_REACHABLE then m else ae_mac_addr old
                        | None \<Rightarrow> ae_mac_addr old),
                      ae_client := client_bit client, ae_num_retries := 0\<rparr>
            in (ARP_ERR_OKAY, tbl\<lparr>at_entries := (at_entries tbl)[i := e]\<rparr>))"

subsection \<open>One entry per address\<close>

definition wf_arp :: "fw_arp_table \<Rightarrow> bool" where
  "wf_arp tbl \<longleftrightarrow> length (at_entries tbl) = unat (at_capacity tbl) \<and>
     (\<forall>i j. i < length (at_entries tbl) \<longrightarrow> j < length (at_entries tbl) \<longrightarrow>
        ae_state (at_entries tbl ! i) \<noteq> ARP_STATE_INVALID \<longrightarrow>
        ae_state (at_entries tbl ! j) \<noteq> ARP_STATE_INVALID \<longrightarrow>
        ae_ip (at_entries tbl ! i) = ae_ip (at_entries tbl ! j) \<longrightarrow> i = j)"

lemma arp_slots_wf: "wf_arp tbl \<Longrightarrow> arp_slots tbl = at_entries tbl"
  by (simp add: wf_arp_def arp_slots_def)

lemma find_slot_spec:
  "find_slot ip slot i es =
     (case find_index (entry_for ip) es of
        Some k \<Rightarrow> Some (i + k)
      | None \<Rightarrow> (case slot of
          Some s \<Rightarrow> Some s
        | None \<Rightarrow> map_option ((+) i) (find_index (\<lambda>e. ae_state e = ARP_STATE_INVALID) es)))"
proof (induction ip slot i es rule: find_slot.induct)
  case (1 ip slot i)
  then show ?case by (simp split: option.splits)
next
  case (2 ip slot i e es)
  have e: "entry_for ip e \<longleftrightarrow> ae_state e \<noteq> ARP_STATE_INVALID \<and> ae_ip e = ip" by (simp add: entry_for_def)
  from 2 show ?case
    by (cases "find_index (entry_for ip) es"; cases slot;
        cases "find_index (\<lambda>e. ae_state e = ARP_STATE_INVALID) es") (auto simp: e)
qed

text \<open>The content of the cache: what a lookup of an address yields.\<close>

definition arp_lookup :: "fw_arp_table \<Rightarrow> u32 \<Rightarrow> fw_arp_entry option" where
  "arp_lookup tbl ip = map_option (\<lambda>i. at_entries tbl ! i) (fw_arp_table_find_entry tbl ip)"

lemma arp_lookup_iff:
  assumes wf: "wf_arp tbl"
  shows "arp_lookup tbl ip = Some e \<longleftrightarrow> e \<in> set (at_entries tbl) \<and> entry_for ip e"
proof
  assume "arp_lookup tbl ip = Some e"
  then obtain i where "find_index (entry_for ip) (at_entries tbl) = Some i" "e = at_entries tbl ! i"
    by (auto simp: arp_lookup_def fw_arp_table_find_entry_def arp_slots_wf [OF wf])
  then show "e \<in> set (at_entries tbl) \<and> entry_for ip e"
    using find_index_less find_index_holds by (metis nth_mem)
next
  assume e: "e \<in> set (at_entries tbl) \<and> entry_for ip e"
  then obtain i where i: "find_index (entry_for ip) (at_entries tbl) = Some i"
    using find_index_Some_ex by metis
  obtain j where j: "j < length (at_entries tbl)" "e = at_entries tbl ! j"
    using e by (auto simp: in_set_conv_nth)
  have "i = j"
    using wf find_index_less [OF i] find_index_holds [OF i] j e by (auto simp: wf_arp_def entry_for_def)
  with i j show "arp_lookup tbl ip = Some e"
    by (simp add: arp_lookup_def fw_arp_table_find_entry_def arp_slots_wf [OF wf])
qed

lemma arp_lookup_None: "wf_arp tbl \<Longrightarrow> arp_lookup tbl ip = None \<longleftrightarrow> (\<forall>e \<in> set (at_entries tbl). \<not> entry_for ip e)"
  using arp_lookup_iff [of tbl ip] by (metis not_None_eq)

text \<open>Writing an entry for an address into its own slot or a free one.\<close>

lemma arp_write:
  assumes wf: "wf_arp tbl" and i: "i < length (at_entries tbl)"
    and slot: "entry_for ip (at_entries tbl ! i) \<or>
      (ae_state (at_entries tbl ! i) = ARP_STATE_INVALID \<and> arp_lookup tbl ip = None)"
    and e: "entry_for ip e"
  shows "wf_arp (tbl\<lparr>at_entries := (at_entries tbl)[i := e]\<rparr>) \<and>
    arp_lookup (tbl\<lparr>at_entries := (at_entries tbl)[i := e]\<rparr>) = (arp_lookup tbl)(ip \<mapsto> e)"
proof -
  let ?t = "tbl\<lparr>at_entries := (at_entries tbl)[i := e]\<rparr>" and ?es = "at_entries tbl"
  have other: "\<not> entry_for ip (?es ! j)" if "j < length ?es" "j \<noteq> i" for j
    using slot wf i that by (auto simp: arp_lookup_None [OF wf] wf_arp_def entry_for_def)
  have w: "wf_arp ?t"
    unfolding wf_arp_def
  proof (intro conjI allI impI)
    show "length (at_entries ?t) = unat (at_capacity ?t)" using wf by (simp add: wf_arp_def)
    fix a b
    assume ab: "a < length (at_entries ?t)" "b < length (at_entries ?t)"
      "ae_state (at_entries ?t ! a) \<noteq> ARP_STATE_INVALID" "ae_state (at_entries ?t ! b) \<noteq> ARP_STATE_INVALID"
      "ae_ip (at_entries ?t ! a) = ae_ip (at_entries ?t ! b)"
    show "a = b"
    proof (cases "a = i \<or> b = i")
      case True
      show ?thesis
      proof (rule ccontr)
        assume "a \<noteq> b"
        with True ab i e other [of a] other [of b] show False
          by (auto simp: entry_for_def nth_list_update split: if_splits)
      qed
    next
      case False
      with ab wf show ?thesis by (auto simp: wf_arp_def nth_list_update)
    qed
  qed
  have "arp_lookup ?t ip' = ((arp_lookup tbl)(ip \<mapsto> e)) ip'" for ip'
  proof (cases "ip' = ip")
    case True
    then show ?thesis
      using e i by (simp add: arp_lookup_iff [OF w] set_update_memI)
  next
    case False
    have old: "\<not> entry_for ip' (?es ! i)" using slot False by (auto simp: entry_for_def)
    have new: "\<not> entry_for ip' e" using e False by (auto simp: entry_for_def)
    have "x \<in> set (?es[i := e]) \<and> entry_for ip' x \<longleftrightarrow> x \<in> set ?es \<and> entry_for ip' x" for x
    proof -
      have "x \<in> set (?es[i := e]) \<longleftrightarrow> x = e \<or> (\<exists>j < length ?es. j \<noteq> i \<and> x = ?es ! j)"
        using i by (auto simp: in_set_conv_nth nth_list_update split: if_splits)
      moreover have "x \<in> set ?es \<longleftrightarrow> x = ?es ! i \<or> (\<exists>j < length ?es. j \<noteq> i \<and> x = ?es ! j)"
        using i by (auto simp: in_set_conv_nth)
      ultimately show ?thesis using old new by blast
    qed
    then have "arp_lookup ?t ip' = Some x \<longleftrightarrow> arp_lookup tbl ip' = Some x" for x
      unfolding arp_lookup_iff [OF w] arp_lookup_iff [OF wf] by simp
    then have "arp_lookup ?t ip' = arp_lookup tbl ip'" by (metis not_None_eq)
    with False show ?thesis by simp
  qed
  with w show ?thesis by blast
qed

lemma add_entry_spec:
  assumes wf: "wf_arp tbl" and st: "state \<noteq> ARP_STATE_INVALID"
    and ret: "fw_arp_table_add_entry tbl state ip m c = (err, tbl')"
  shows "wf_arp tbl' \<and>
    (if state = ARP_STATE_REACHABLE \<and> m = None then err = ARP_ERR_INVALID \<and> tbl' = tbl
     else if arp_lookup tbl ip = None \<and> (\<forall>e \<in> set (at_entries tbl). ae_state e \<noteq> ARP_STATE_INVALID)
     then err = ARP_ERR_FULL \<and> tbl' = tbl
     else err = ARP_ERR_OKAY \<and> (\<exists>e. arp_lookup tbl' = (arp_lookup tbl)(ip \<mapsto> e) \<and>
       ae_state e = state \<and> ae_ip e = ip \<and> ae_client e = client_bit c \<and> ae_num_retries e = 0 \<and>
       (state = ARP_STATE_REACHABLE \<longrightarrow> m = Some (ae_mac_addr e))))"
proof (cases "state = ARP_STATE_REACHABLE \<and> m = None")
  case True
  with ret wf show ?thesis by (simp add: fw_arp_table_add_entry_def)
next
  case False
  let ?es = "at_entries tbl"
  have slots: "arp_slots tbl = ?es" using wf by (rule arp_slots_wf)
  have slot: "find_slot ip None 0 ?es = (case find_index (entry_for ip) ?es of
      Some k \<Rightarrow> Some k | None \<Rightarrow> find_index (\<lambda>e. ae_state e = ARP_STATE_INVALID) ?es)"
  proof -
    have "((+) (0 :: nat)) = id" by auto
    then show ?thesis by (simp add: find_slot_spec option.map_id split: option.split)
  qed
  have look: "arp_lookup tbl ip = None \<longleftrightarrow> find_index (entry_for ip) ?es = None"
    by (simp add: arp_lookup_def fw_arp_table_find_entry_def slots)
  show ?thesis
  proof (cases "find_slot ip None 0 ?es")
    case None
    then have "find_index (entry_for ip) ?es = None" "find_index (\<lambda>e. ae_state e = ARP_STATE_INVALID) ?es = None"
      by (simp_all add: slot split: option.splits)
    with ret wf False None slots look show ?thesis
      by (auto simp: fw_arp_table_add_entry_def find_index_None_iff)
  next
    case (Some i)
    let ?old = "?es ! i"
    let ?e = "?old\<lparr>ae_state := state, ae_ip := ip,
        ae_mac_addr := (case m of Some m \<Rightarrow> if state = ARP_STATE_REACHABLE then m else ae_mac_addr ?old
          | None \<Rightarrow> ae_mac_addr ?old), ae_client := client_bit c, ae_num_retries := 0\<rparr>"
    have t: "err = ARP_ERR_OKAY" "tbl' = tbl\<lparr>at_entries := ?es[i := ?e]\<rparr>"
      using ret Some slots unfolding fw_arp_table_add_entry_def if_not_P [OF False] by (auto simp: Let_def)
    have i: "i < length ?es" "entry_for ip ?old \<or> (ae_state ?old = ARP_STATE_INVALID \<and> arp_lookup tbl ip = None)"
      using Some look find_index_less find_index_holds
      by (auto simp: slot split: option.splits)
    have e: "entry_for ip ?e" using st by (simp add: entry_for_def)
    have nf: "\<not> (arp_lookup tbl ip = None \<and> (\<forall>e \<in> set ?es. ae_state e \<noteq> ARP_STATE_INVALID))"
      using i nth_mem [OF i(1)] by (auto simp: arp_lookup_None [OF wf])
    have "state = ARP_STATE_REACHABLE \<longrightarrow> m = Some (ae_mac_addr ?e)" using False by (cases m) auto
    with arp_write [OF wf i e] t show ?thesis
      unfolding if_not_P [OF False] if_not_P [OF nf] by (intro conjI exI [of _ ?e]) auto
  qed
qed

subsection \<open>Properties\<close>

text \<open>C33: the ARP cache is a map from addresses to entries with a bounded number of slots. Adding a
  valid entry updates exactly that address, replacing the old entry for it if there is one; it is
  refused without a change only when every slot holds another address, or a reachable entry comes
  without a MAC address. There is never more than one entry for an address.\<close>

theorem fw_arp_table_add_entry_map:
  assumes "wf_arp tbl" "state \<noteq> ARP_STATE_INVALID"
  shows "\<exists>err tbl'. fw_arp_table_add_entry tbl state ip m c = (err, tbl') \<and> wf_arp tbl' \<and>
    (if state = ARP_STATE_REACHABLE \<and> m = None then err = ARP_ERR_INVALID \<and> tbl' = tbl
     else if arp_lookup tbl ip = None \<and> (\<forall>e \<in> set (at_entries tbl). ae_state e \<noteq> ARP_STATE_INVALID)
     then err = ARP_ERR_FULL \<and> tbl' = tbl
     else err = ARP_ERR_OKAY \<and> (\<exists>e. arp_lookup tbl' = (arp_lookup tbl)(ip \<mapsto> e) \<and>
       ae_state e = state \<and> ae_ip e = ip \<and> ae_client e = client_bit c \<and> ae_num_retries e = 0 \<and>
       (state = ARP_STATE_REACHABLE \<longrightarrow> m = Some (ae_mac_addr e))))"
proof -
  obtain err tbl' where r: "fw_arp_table_add_entry tbl state ip m c = (err, tbl')" by (rule prod.exhaust)
  show ?thesis by (intro exI conjI) (rule r, rule add_entry_spec [OF assms r, THEN conjunct1],
    rule add_entry_spec [OF assms r, THEN conjunct2])
qed

definition ex_arp :: fw_arp_table where
  "ex_arp = \<lparr>at_entries =
     [\<lparr>ae_state = ARP_STATE_PENDING, ae_ip = 7, ae_mac_addr = [0,0,0,0,0,0], ae_client = 1, ae_num_retries = 5\<rparr>,
      \<lparr>ae_state = ARP_STATE_INVALID, ae_ip = 7, ae_mac_addr = [1,1,1,1,1,1], ae_client = 0, ae_num_retries = 2\<rparr>],
     at_capacity = 2\<rparr>"

lemma ex_arp_wf: "wf_arp ex_arp"
  by (auto simp: wf_arp_def ex_arp_def nth_Cons split: nat.splits)

lemma ex_arp_has_7: "arp_lookup ex_arp 7 \<noteq> None"
  by (auto simp: arp_lookup_None [OF ex_arp_wf]) (auto simp: ex_arp_def entry_for_def)

theorem fw_arp_table_add_entry_map_witness:
  "\<exists>err tbl e. fw_arp_table_add_entry ex_arp ARP_STATE_PENDING 7 None 0 = (err, tbl) \<and>
    arp_lookup tbl 7 = Some e \<and> ae_num_retries e = 0"
proof -
  have s: "ARP_STATE_PENDING \<noteq> ARP_STATE_INVALID" by simp
  have n: "\<not> (ARP_STATE_PENDING = ARP_STATE_REACHABLE \<and> (None :: mac option) = None)" by simp
  have f: "\<not> (arp_lookup ex_arp 7 = None \<and> (\<forall>e \<in> set (at_entries ex_arp). ae_state e \<noteq> ARP_STATE_INVALID))"
    using ex_arp_has_7 by blast
  obtain err tbl e where t: "fw_arp_table_add_entry ex_arp ARP_STATE_PENDING 7 None 0 = (err, tbl)"
    "arp_lookup tbl = (arp_lookup ex_arp)(7 \<mapsto> e)" "ae_num_retries e = 0"
    using fw_arp_table_add_entry_map [OF ex_arp_wf s, of 7 None 0]
    unfolding if_not_P [OF n] if_not_P [OF f] by blast
  have "arp_lookup tbl 7 = Some e" unfolding t(2) by (rule fun_upd_same)
  with t show ?thesis by blast
qed

end
