(* ===== verification/Fw_Packet.thy ===== *)
theory Fw_Packet
  imports Fw_Arp Fw_Checksum
begin

text \<open>
  The packets of the firewall as they lie in a data region: \<open>include/lions/firewall/ethernet.h\<close>,
  \<open>ip.h\<close>, \<open>tcp.h\<close>, \<open>udp.h\<close>, and the ARP packet of \<open>arp.h\<close>. A region is a map from offsets to bytes.
  A packed struct is a record with its bit-fields at their width, together with its bytes; casting a
  pointer into a packet to a pointer to the struct is decoding the bytes at that offset.
\<close>

subsection \<open>Memory\<close>

type_synonym memory = "nat \<Rightarrow> u8"

definition rd_bytes :: "memory \<Rightarrow> nat \<Rightarrow> nat \<Rightarrow> u8 list" where
  "rd_bytes m a n = map m [a..<a + n]"

definition wr_bytes :: "memory \<Rightarrow> nat \<Rightarrow> u8 list \<Rightarrow> memory" where
  "wr_bytes m a bs = (\<lambda>x. if a \<le> x \<and> x < a + length bs then bs ! (x - a) else m x)"

lemma length_rd_bytes [simp]: "length (rd_bytes m a n) = n"
  by (simp add: rd_bytes_def)

lemma nth_rd_bytes [simp]: "i < n \<Longrightarrow> rd_bytes m a n ! i = m (a + i)"
  by (simp add: rd_bytes_def)

lemma rd_wr_same [simp]: "length bs = n \<Longrightarrow> rd_bytes (wr_bytes m a bs) a n = bs"
  by (rule nth_equalityI) (auto simp: wr_bytes_def)

lemma rd_wr_apart: "a + n \<le> b \<or> b + length bs \<le> a \<Longrightarrow> rd_bytes (wr_bytes m b bs) a n = rd_bytes m a n"
  by (rule nth_equalityI) (auto simp: wr_bytes_def)

lemma wr_rd_same [simp]: "wr_bytes m a (rd_bytes m a n) = m"
  by (rule ext) (auto simp: wr_bytes_def)

lemma take_rd_bytes [simp]: "take k (rd_bytes m a n) = rd_bytes m a (min k n)"
  by (rule nth_equalityI) auto

lemma drop_rd_bytes: "drop k (rd_bytes m a n) = rd_bytes m (a + k) (n - k)"
  by (rule nth_equalityI) (auto simp: add.assoc)

subsection \<open>Little-endian fields\<close>

definition u16_bytes :: "u16 \<Rightarrow> u8 list" where
  "u16_bytes v = [ucast v, ucast (drop_bit 8 v)]"

definition read_le32 :: "u8 list \<Rightarrow> u32" where
  "read_le32 buf = ucast (buf ! 0) OR push_bit 8 (ucast (buf ! 1)) OR push_bit 16 (ucast (buf ! 2))
     OR push_bit 24 (ucast (buf ! 3))"

named_theorems wire \<open>encoding and decoding of packet headers\<close>

lemma length_u16_bytes [simp]: "length (u16_bytes v) = 2"
  by (simp add: u16_bytes_def)

lemma length_ip_bytes [simp]: "length (ip_bytes v) = 4"
  by (simp add: ip_bytes_def)

lemma read_le16_bytes [wire]: "read_le16 (ucast v # ucast (drop_bit 8 v) # bs) = v"
  by (rule bit_word_eqI) (auto simp: read_le16_def bit_simps)

lemma bytes_read_le16 [wire]:
  "ucast (read_le16 [a, b]) = a" "ucast (drop_bit 8 (read_le16 [a, b])) = b"
  by (rule bit_word_eqI; auto simp: read_le16_def bit_simps dest: bit_imp_le_length)+

lemma read_le32_bytes [wire]:
  "read_le32 (ucast v # ucast (drop_bit 8 v) # ucast (drop_bit 16 v) # ucast (drop_bit 24 v) # bs) = v"
  by (rule bit_word_eqI) (auto simp: read_le32_def bit_simps)

lemma bytes_read_le32 [wire]:
  "ucast (read_le32 [a, b, c, d]) = a" "ucast (drop_bit 8 (read_le32 [a, b, c, d])) = b"
  "ucast (drop_bit 16 (read_le32 [a, b, c, d])) = c" "ucast (drop_bit 24 (read_le32 [a, b, c, d])) = d"
  by (rule bit_word_eqI; auto simp: read_le32_def bit_simps dest: bit_imp_le_length)+

subsection \<open>The Ethernet header\<close>

record eth_hdr =
  ethdst_addr :: mac
  ethsrc_addr :: mac
  ethtype :: u16

definition eth_hdr_of :: "u8 list \<Rightarrow> eth_hdr" where
  "eth_hdr_of bs = \<lparr>ethdst_addr = take 6 bs, ethsrc_addr = take 6 (drop 6 bs), ethtype = read_le16 (drop 12 bs)\<rparr>"

definition eth_hdr_bytes :: "eth_hdr \<Rightarrow> u8 list" where
  "eth_hdr_bytes h = ethdst_addr h @ ethsrc_addr h @ u16_bytes (ethtype h)"

definition wf_eth_hdr :: "eth_hdr \<Rightarrow> bool" where
  "wf_eth_hdr h \<longleftrightarrow> length (ethdst_addr h) = ETH_HWADDR_LEN \<and> length (ethsrc_addr h) = ETH_HWADDR_LEN"

subsection \<open>The IPv4 header\<close>

record ipv4_hdr =
  ihl :: "4 word"
  version :: "4 word"
  ecn :: "2 word"
  dscp :: "6 word"
  tot_len :: u16
  ip_id :: u16
  frag_offset1 :: "5 word"
  more_frag :: "1 word"
  no_frag :: "1 word"
  reserved :: "1 word"
  frag_offset2 :: u8
  ttl :: u8
  protocol :: u8
  check :: u16
  src_ip :: u32
  dst_ip :: u32

definition IPV4_HDR_OFFSET :: nat where "IPV4_HDR_OFFSET = ETH_HDR_LEN"
definition IPV4_HDR_LEN_MIN :: nat where "IPV4_HDR_LEN_MIN = 20"
definition IPV4_DSCP_NET_CTRL :: "6 word" where "IPV4_DSCP_NET_CTRL = 48"
definition IPV4_PROTO_ICMP :: u8 where "IPV4_PROTO_ICMP = 0x01"
definition IPV4_PROTO_TCP :: u8 where "IPV4_PROTO_TCP = 0x06"
definition IPV4_PROTO_UDP :: u8 where "IPV4_PROTO_UDP = 0x11"

text \<open>The first bit-field of a byte takes its lowest bits.\<close>

definition ipv4_hdr_of :: "u8 list \<Rightarrow> ipv4_hdr" where
  "ipv4_hdr_of bs =
     \<lparr>ihl = ucast (bs ! 0), version = ucast (drop_bit 4 (bs ! 0)),
      ecn = ucast (bs ! 1), dscp = ucast (drop_bit 2 (bs ! 1)),
      tot_len = read_le16 (drop 2 bs), ip_id = read_le16 (drop 4 bs),
      frag_offset1 = ucast (bs ! 6), more_frag = ucast (drop_bit 5 (bs ! 6)),
      no_frag = ucast (drop_bit 6 (bs ! 6)), reserved = ucast (drop_bit 7 (bs ! 6)),
      frag_offset2 = bs ! 7, ttl = bs ! 8, protocol = bs ! 9, check = read_le16 (drop 10 bs),
      src_ip = read_le32 (drop 12 bs), dst_ip = read_le32 (drop 16 bs)\<rparr>"

definition ipv4_hdr_bytes :: "ipv4_hdr \<Rightarrow> u8 list" where
  "ipv4_hdr_bytes h =
     [ucast (ihl h) OR push_bit 4 (ucast (version h)), ucast (ecn h) OR push_bit 2 (ucast (dscp h))]
     @ u16_bytes (tot_len h) @ u16_bytes (ip_id h) @
     [ucast (frag_offset1 h) OR push_bit 5 (ucast (more_frag h)) OR push_bit 6 (ucast (no_frag h))
        OR push_bit 7 (ucast (reserved h)), frag_offset2 h, ttl h, protocol h]
     @ u16_bytes (check h) @ ip_bytes (src_ip h) @ ip_bytes (dst_ip h)"

definition ipv4_header_length :: "ipv4_hdr \<Rightarrow> u8" where
  "ipv4_header_length h = 4 * ucast (ihl h)"

definition transport_layer_offset :: "ipv4_hdr \<Rightarrow> u8" where
  "transport_layer_offset h = of_nat IPV4_HDR_OFFSET + ipv4_header_length h"

subsection \<open>The ARP packet\<close>

record arp_pkt =
  hwtype :: u16
  arp_protocol :: u16
  hwlen :: u8
  protolen :: u8
  opcode :: u16
  hwsrc_addr :: mac
  ipsrc_addr :: u32
  hwdst_addr :: mac
  ipdst_addr :: u32
  padding :: "u8 list"

definition arp_pkt_of :: "u8 list \<Rightarrow> arp_pkt" where
  "arp_pkt_of bs =
     \<lparr>hwtype = read_le16 bs, arp_protocol = read_le16 (drop 2 bs), hwlen = bs ! 4, protolen = bs ! 5,
      opcode = read_le16 (drop 6 bs), hwsrc_addr = take 6 (drop 8 bs), ipsrc_addr = read_le32 (drop 14 bs),
      hwdst_addr = take 6 (drop 18 bs), ipdst_addr = read_le32 (drop 24 bs), padding = take 18 (drop 28 bs)\<rparr>"

definition arp_pkt_bytes :: "arp_pkt \<Rightarrow> u8 list" where
  "arp_pkt_bytes p = u16_bytes (hwtype p) @ u16_bytes (arp_protocol p) @ [hwlen p, protolen p]
     @ u16_bytes (opcode p) @ hwsrc_addr p @ ip_bytes (ipsrc_addr p) @ hwdst_addr p
     @ ip_bytes (ipdst_addr p) @ padding p"

definition wf_arp_pkt :: "arp_pkt \<Rightarrow> bool" where
  "wf_arp_pkt p \<longleftrightarrow> length (hwsrc_addr p) = ETH_HWADDR_LEN \<and> length (hwdst_addr p) = ETH_HWADDR_LEN \<and>
     length (padding p) = 18"

text \<open>The buffer descriptor of the network queues, as far as the firewall uses it.\<close>

record net_buff_desc =
  io_or_offset :: u64
  nb_len :: u16

subsection \<open>Headers in a region\<close>

definition read_eth :: "memory \<Rightarrow> nat \<Rightarrow> eth_hdr" where
  "read_eth m pkt = eth_hdr_of (rd_bytes m pkt ETH_HDR_LEN)"

definition write_eth :: "memory \<Rightarrow> nat \<Rightarrow> eth_hdr \<Rightarrow> memory" where
  "write_eth m pkt h = wr_bytes m pkt (eth_hdr_bytes h)"

definition read_ip :: "memory \<Rightarrow> nat \<Rightarrow> ipv4_hdr" where
  "read_ip m pkt = ipv4_hdr_of (rd_bytes m (pkt + IPV4_HDR_OFFSET) IPV4_HDR_LEN_MIN)"

definition write_ip :: "memory \<Rightarrow> nat \<Rightarrow> ipv4_hdr \<Rightarrow> memory" where
  "write_ip m pkt h = wr_bytes m (pkt + IPV4_HDR_OFFSET) (ipv4_hdr_bytes h)"

definition read_arp :: "memory \<Rightarrow> nat \<Rightarrow> arp_pkt" where
  "read_arp m pkt = arp_pkt_of (rd_bytes m (pkt + ARP_PKT_OFFSET) 46)"

definition write_arp :: "memory \<Rightarrow> nat \<Rightarrow> arp_pkt \<Rightarrow> memory" where
  "write_arp m pkt p = wr_bytes m (pkt + ARP_PKT_OFFSET) (arp_pkt_bytes p)"

text \<open>The ports, at the same place in \<open>tcp_hdr_t\<close> and \<open>udp_hdr_t\<close>.\<close>

definition tcp_src_port :: "memory \<Rightarrow> nat \<Rightarrow> u16" where "tcp_src_port m hdr = read_le16 (rd_bytes m hdr 2)"
definition tcp_dst_port :: "memory \<Rightarrow> nat \<Rightarrow> u16" where "tcp_dst_port m hdr = read_le16 (rd_bytes m (hdr + 2) 2)"
definition udp_src_port :: "memory \<Rightarrow> nat \<Rightarrow> u16" where "udp_src_port m hdr = read_le16 (rd_bytes m hdr 2)"
definition udp_dst_port :: "memory \<Rightarrow> nat \<Rightarrow> u16" where "udp_dst_port m hdr = read_le16 (rd_bytes m (hdr + 2) 2)"

subsection \<open>Decoding inverts encoding\<close>

lemma length_hdr_bytes [simp]:
  "wf_eth_hdr h \<Longrightarrow> length (eth_hdr_bytes h) = ETH_HDR_LEN"
  "length (ipv4_hdr_bytes i) = IPV4_HDR_LEN_MIN"
  "wf_arp_pkt p \<Longrightarrow> length (arp_pkt_bytes p) = 46"
  by (simp_all add: eth_hdr_bytes_def wf_eth_hdr_def ETH_HWADDR_LEN_def ETH_HDR_LEN_def ipv4_hdr_bytes_def
    IPV4_HDR_LEN_MIN_def arp_pkt_bytes_def wf_arp_pkt_def)

lemma eth_hdr_round [simp]: "wf_eth_hdr h \<Longrightarrow> eth_hdr_of (eth_hdr_bytes h) = h"
  by (simp add: eth_hdr_of_def eth_hdr_bytes_def wf_eth_hdr_def ETH_HWADDR_LEN_def u16_bytes_def wire)

lemma nibbles [wire]:
  "ucast (ucast (a :: 4 word) OR push_bit 4 (ucast (b :: 4 word)) :: u8) = a"
  "ucast (drop_bit 4 (ucast (a :: 4 word) OR push_bit 4 (ucast (b :: 4 word)) :: u8)) = b"
  "ucast (ucast (c :: 2 word) OR push_bit 2 (ucast (d :: 6 word)) :: u8) = c"
  "ucast (drop_bit 2 (ucast (c :: 2 word) OR push_bit 2 (ucast (d :: 6 word)) :: u8)) = d"
  by (rule bit_word_eqI; auto simp: bit_simps dest: bit_imp_le_length)+

lemma frag_bits [wire]:
  fixes f :: "5 word" and x y z :: "1 word"
  defines "w \<equiv> ucast f OR push_bit 5 (ucast x) OR push_bit 6 (ucast y) OR push_bit 7 (ucast z) :: u8"
  shows "ucast w = f" "ucast (drop_bit 5 w) = x" "ucast (drop_bit 6 w) = y" "ucast (drop_bit 7 w) = z"
  unfolding w_def by (rule bit_word_eqI; auto simp: bit_simps dest: bit_imp_le_length)+

lemma ipv4_hdr_round [simp]: "ipv4_hdr_of (ipv4_hdr_bytes h) = h"
  by (cases h) (simp add: ipv4_hdr_of_def ipv4_hdr_bytes_def u16_bytes_def ip_bytes_def wire
    del: drop_bit_or)

lemma arp_pkt_round [simp]: "wf_arp_pkt p \<Longrightarrow> arp_pkt_of (arp_pkt_bytes p) = p"
  by (cases p) (simp add: arp_pkt_of_def arp_pkt_bytes_def wf_arp_pkt_def ETH_HWADDR_LEN_def u16_bytes_def
    ip_bytes_def wire)

lemma ipv4_check_bytes: "ipv4_hdr_bytes (h\<lparr>check := c\<rparr>) = store_le16 (ipv4_hdr_bytes h) 10 c"
  by (simp add: ipv4_hdr_bytes_def store_le16_def u16_bytes_def ip_bytes_def eval_nat_numeral)

end
