(* ===== verification/Fw_Icmp.thy ===== *)
theory Fw_Icmp
  imports Fw_Packet Fw_Queue
begin

text \<open>
  \<open>include/lions/firewall/icmp.h\<close>: the requests that the filters and the router send to the ICMP
  module when a packet is to be answered with an ICMP message. A request carries the Ethernet and IP
  headers of the packet and a union with data that depends on the type of the message; the union is
  kept as its bytes. A copy that runs over the array it is made into is undefined behaviour, and the
  operation is \<open>None\<close> there.
\<close>

subsection \<open>Constants and types\<close>

record icmp_hdr =
  icmp_type :: u8
  icmp_code :: u8
  icmp_check :: u16

definition icmp_hdr_of :: "u8 list \<Rightarrow> icmp_hdr" where
  "icmp_hdr_of bs = \<lparr>icmp_type = bs ! 0, icmp_code = bs ! 1, icmp_check = read_le16 (drop 2 bs)\<rparr>"

definition icmp_hdr_bytes :: "icmp_hdr \<Rightarrow> u8 list" where
  "icmp_hdr_bytes h = [icmp_type h, icmp_code h] @ u16_bytes (icmp_check h)"

definition ICMP_HDR_OFFSET :: nat where "ICMP_HDR_OFFSET = IPV4_HDR_OFFSET + IPV4_HDR_LEN_MIN"
definition ICMP_COMMON_HDR_LEN :: nat where "ICMP_COMMON_HDR_LEN = 4"
definition ICMP_ECHO_REPLY :: u8 where "ICMP_ECHO_REPLY = 0"
definition ICMP_DEST_UNREACHABLE :: u8 where "ICMP_DEST_UNREACHABLE = 3"
definition ICMP_SRC_QUENCH :: u8 where "ICMP_SRC_QUENCH = 4"
definition ICMP_REDIRECT_MSG :: u8 where "ICMP_REDIRECT_MSG = 5"
definition ICMP_ECHO_REQ :: u8 where "ICMP_ECHO_REQ = 8"
definition ICMP_TTL_EXCEED :: u8 where "ICMP_TTL_EXCEED = 11"
definition ICMP_PARAM_PROBLEM :: u8 where "ICMP_PARAM_PROBLEM = 12"
definition ICMP_DEST_NET_UNREACHABLE :: u8 where "ICMP_DEST_NET_UNREACHABLE = 0"
definition ICMP_DEST_HOST_UNREACHABLE :: u8 where "ICMP_DEST_HOST_UNREACHABLE = 1"
definition ICMP_DEST_PORT_UNREACHABLE :: u8 where "ICMP_DEST_PORT_UNREACHABLE = 3"
definition ICMP_TIME_EXCEEDED_TTL :: u8 where "ICMP_TIME_EXCEEDED_TTL = 0"
definition FW_ICMP_SRC_DATA_LEN :: nat where "FW_ICMP_SRC_DATA_LEN = 8"
definition FW_ICMP_ECHO_PAYLOAD_LEN :: nat where "FW_ICMP_ECHO_PAYLOAD_LEN = 56"
definition ICMP_PAYLOAD_OFFSET :: nat where "ICMP_PAYLOAD_OFFSET = ICMP_HDR_OFFSET + ICMP_COMMON_HDR_LEN"

definition ICMP_ERROR_TYPES_MASK :: u32 where
  "ICMP_ERROR_TYPES_MASK = push_bit (unat ICMP_DEST_UNREACHABLE) 1 OR push_bit (unat ICMP_SRC_QUENCH) 1 OR
     push_bit (unat ICMP_TTL_EXCEED) 1 OR push_bit (unat ICMP_PARAM_PROBLEM) 1 OR
     push_bit (unat ICMP_REDIRECT_MSG) 1"

text \<open>The offset of \<open>data\<close> in \<open>icmp_echo_t\<close>, behind the identifier and the sequence number.\<close>

definition echo_data_offset :: nat where "echo_data_offset = 4"

text \<open>The union of a request: the largest member is the echo data, of 62 bytes, and the 32-bit gateway
  address of a redirect aligns the union to 4. Offsets of the members' arrays within it.\<close>

definition icmp_union_size :: nat where "icmp_union_size = 64"
definition dest_data_at :: nat where "dest_data_at = 0"
definition redirect_data_at :: nat where "redirect_data_at = 4"
definition echo_data_at :: nat where "echo_data_at = 6"

record icmp_req =
  rq_type :: u8
  rq_code :: u8
  rq_out_interface :: u8
  rq_eth_hdr :: eth_hdr
  rq_ip_hdr :: ipv4_hdr
  rq_data :: "u8 list"

definition zero_union :: "u8 list" where "zero_union = replicate icmp_union_size 0"

definition store_at :: "u8 list \<Rightarrow> nat \<Rightarrow> u8 list \<Rightarrow> u8 list" where
  "store_at bs i xs = take i bs @ xs @ drop (i + length xs) bs"

text \<open>\<open>memcpy\<close> of \<open>n\<close> bytes of a packet into an array of \<open>limit\<close> bytes at \<open>i\<close> in the union.\<close>

definition copy_into :: "u8 list \<Rightarrow> nat \<Rightarrow> nat \<Rightarrow> memory \<Rightarrow> nat \<Rightarrow> nat \<Rightarrow> u8 list option" where
  "copy_into bs i limit m src n = (if n \<le> limit then Some (store_at bs i (rd_bytes m src n)) else None)"

subsection \<open>Operations\<close>

definition icmp_is_error_message :: "u8 \<Rightarrow> bool" where
  "icmp_is_error_message t \<longleftrightarrow> t = ICMP_DEST_UNREACHABLE \<or> t = ICMP_REDIRECT_MSG \<or> t = ICMP_SRC_QUENCH
     \<or> t = ICMP_TTL_EXCEED \<or> t = ICMP_PARAM_PROBLEM"

definition icmp_is_error_type :: "nat \<Rightarrow> bool" where
  "icmp_is_error_type t \<longleftrightarrow> (push_bit t 1 :: u32) AND ICMP_ERROR_TYPES_MASK \<noteq> 0"

text \<open>\<open>MIN(FW_ICMP_SRC_DATA_LEN, htons(tot_len) - ip_hdr_len)\<close> is computed in \<open>int\<close> and stored in 16
  bits.\<close>

definition icmp_to_copy :: "ipv4_hdr \<Rightarrow> u16" where
  "icmp_to_copy h = word_of_int (min (int FW_ICMP_SRC_DATA_LEN)
     (int (unat (htons (tot_len h))) - int (unat (ipv4_header_length h))))"

definition icmp_enqueue_error ::
  "icmp_req fw_queue \<Rightarrow> u8 \<Rightarrow> u8 \<Rightarrow> memory \<Rightarrow> nat \<Rightarrow> u8 \<Rightarrow> (bool \<times> icmp_req fw_queue) option" where
  "icmp_enqueue_error q t code m pkt out_interface =
     (let h = read_ip m pkt in do {
        data \<leftarrow> copy_into zero_union dest_data_at FW_ICMP_SRC_DATA_LEN m
          (pkt + unat (transport_layer_offset h)) (unat (icmp_to_copy h));
        let req = \<lparr>rq_type = t, rq_code = code, rq_out_interface = out_interface, rq_eth_hdr = read_eth m pkt,
                   rq_ip_hdr = h, rq_data = data\<rparr>;
            (err, q') = fw_enqueue q req
        in Some (err = 0, q')
      })"

text \<open>The length of the payload, in 16 bits, then cut to the size of the array.\<close>

definition echo_payload_len :: "ipv4_hdr \<Rightarrow> u16" where
  "echo_payload_len h =
     (let icmp_total_len = htons (tot_len h) - ucast (ipv4_header_length h);
          payload_len = icmp_total_len - of_nat ICMP_COMMON_HDR_LEN - of_nat echo_data_offset
      in if payload_len > of_nat FW_ICMP_ECHO_PAYLOAD_LEN then of_nat FW_ICMP_ECHO_PAYLOAD_LEN else payload_len)"

definition icmp_enqueue_echo_reply ::
  "icmp_req fw_queue \<Rightarrow> memory \<Rightarrow> nat \<Rightarrow> u8 \<Rightarrow> (bool \<times> icmp_req fw_queue) option" where
  "icmp_enqueue_echo_reply q m pkt out_interface =
     (let h = read_ip m pkt;
          echo_hdr = pkt + unat (transport_layer_offset h) + ICMP_COMMON_HDR_LEN;
          echo_id = ntohs (read_le16 (rd_bytes m echo_hdr 2));
          echo_seq = ntohs (read_le16 (rd_bytes m (echo_hdr + 2) 2));
          payload_len = echo_payload_len h;
          head = store_at zero_union 0 (u16_bytes echo_id @ u16_bytes echo_seq @ u16_bytes payload_len)
      in do {
        data \<leftarrow> copy_into head echo_data_at FW_ICMP_ECHO_PAYLOAD_LEN m
          (pkt + unat (transport_layer_offset h) + ICMP_COMMON_HDR_LEN + echo_data_offset) (unat payload_len);
        let req = \<lparr>rq_type = ICMP_ECHO_REPLY, rq_code = 0, rq_out_interface = out_interface,
                   rq_eth_hdr = read_eth m pkt, rq_ip_hdr = h, rq_data = data\<rparr>;
            (err, q') = fw_enqueue q req
        in Some (err = 0, q')
      })"

text \<open>The interface of a redirect stays 0.\<close>

definition icmp_enqueue_redirect ::
  "icmp_req fw_queue \<Rightarrow> u8 \<Rightarrow> memory \<Rightarrow> nat \<Rightarrow> u32 \<Rightarrow> (int \<times> icmp_req fw_queue) option" where
  "icmp_enqueue_redirect q code m pkt gateway_ip =
     (let h = read_ip m pkt in do {
        data \<leftarrow> copy_into (store_at zero_union 0 (ip_bytes gateway_ip)) redirect_data_at FW_ICMP_SRC_DATA_LEN m
          (pkt + unat (transport_layer_offset h)) (unat (icmp_to_copy h));
        Some (fw_enqueue q \<lparr>rq_type = ICMP_REDIRECT_MSG, rq_code = code, rq_out_interface = 0,
                rq_eth_hdr = read_eth m pkt, rq_ip_hdr = h, rq_data = data\<rparr>)
      })"

subsection \<open>How much is copied\<close>

lemma header_length_nat: "unat (ipv4_header_length h) = 4 * unat (ihl h)"
proof -
  have "unat (ihl h) < 16" using unsigned_less [of "ihl h", where ?'a = nat] by simp
  moreover have "unat (ucast (ihl h) :: u8) = unat (ihl h)" by (rule unat_ucast_up) simp
  ultimately show ?thesis by (simp add: ipv4_header_length_def unat_word_ariths)
qed

lemma header_length_le: "unat (ipv4_header_length h) \<le> 60"
  using unsigned_less [of "ihl h", where ?'a = nat] by (simp add: header_length_nat)

text \<open>A total length that is shorter than the header makes the difference negative.\<close>

lemma icmp_to_copy_nat:
  "unat (icmp_to_copy h) =
     (if unat (htons (tot_len h)) < unat (ipv4_header_length h)
      then 65536 - (unat (ipv4_header_length h) - unat (htons (tot_len h)))
      else min 8 (unat (htons (tot_len h)) - unat (ipv4_header_length h)))"
proof -
  define t l where "t = unat (htons (tot_len h))" and "l = unat (ipv4_header_length h)"
  have l: "l \<le> 60" using header_length_le by (simp add: l_def)
  have u: "unat (word_of_int z :: u16) = nat (z mod 65536)" for z
    by (simp add: unsigned_of_int take_bit_eq_mod)
  have "unat (icmp_to_copy h) = nat (min 8 (int t - int l) mod 65536)"
    unfolding icmp_to_copy_def u t_def [symmetric] l_def [symmetric] by (simp add: FW_ICMP_SRC_DATA_LEN_def)
  also have "\<dots> = (if t < l then 65536 - (l - t) else min 8 (t - l))"
  proof (cases "t < l")
    case True
    have "(int t - int l) mod 65536 = (int t - int l + 65536) mod 65536" by simp
    also have "\<dots> = int t - int l + 65536" by (rule mod_pos_pos_trivial) (use True l in auto)
    finally have "(int t - int l) mod 65536 = int t - int l + 65536" .
    with True l show ?thesis by (simp add: min_def)
  next
    case False
    then have "min 8 (int t - int l) = int (min 8 (t - l))" unfolding of_nat_min by (simp add: of_nat_diff)
    then have "min 8 (int t - int l) mod 65536 = int (min 8 (t - l)) mod 65536" by simp
    also have "\<dots> = int (min 8 (t - l))" by (rule mod_pos_pos_trivial) simp_all
    finally show ?thesis using False by simp
  qed
  finally show ?thesis by (simp add: t_def l_def)
qed

text \<open>A request for an ICMP error is made exactly for packets that are at least as long as their
  header says.\<close>

lemma icmp_to_copy_le: "unat (icmp_to_copy h) \<le> 8 \<longleftrightarrow> unat (ipv4_header_length h) \<le> unat (htons (tot_len h))"
  using header_length_le [of h] unfolding icmp_to_copy_nat by auto

definition bad_length :: "ipv4_hdr \<Rightarrow> bool" where
  "bad_length h \<longleftrightarrow> unat (htons (tot_len h)) < unat (ipv4_header_length h)"

lemma icmp_error_cases:
  assumes "wf_fw_queue q"
  shows "if bad_length (read_ip m pkt) then icmp_enqueue_error q t c m pkt i = None
    else \<exists>ok q'. icmp_enqueue_error q t c m pkt i = Some (ok, q') \<and> wf_fw_queue q'"
proof (cases "bad_length (read_ip m pkt)")
  case True
  then have "\<not> unat (icmp_to_copy (read_ip m pkt)) \<le> FW_ICMP_SRC_DATA_LEN"
    using icmp_to_copy_le by (simp add: bad_length_def FW_ICMP_SRC_DATA_LEN_def)
  with True show ?thesis by (simp add: icmp_enqueue_error_def copy_into_def Let_def)
next
  case False
  then have le: "unat (icmp_to_copy (read_ip m pkt)) \<le> FW_ICMP_SRC_DATA_LEN"
    using icmp_to_copy_le by (simp add: bad_length_def FW_ICMP_SRC_DATA_LEN_def)
  have "wf_fw_queue (snd (fw_enqueue q r))" for r
    using fwq.enq_cases [OF assms, of r "fst (fw_enqueue q r)" "snd (fw_enqueue q r)"] by simp
  with False le show ?thesis by (simp add: icmp_enqueue_error_def copy_into_def Let_def split_def)
qed

lemma echo_payload_le: "unat (echo_payload_len h) \<le> FW_ICMP_ECHO_PAYLOAD_LEN"
  by (simp add: echo_payload_len_def Let_def FW_ICMP_ECHO_PAYLOAD_LEN_def word_le_nat_alt [symmetric] not_less
    word_le_nat_alt)

text \<open>The payload of a ping reply has at most 56 bytes. A packet that is too short for an echo header gets
  56 bytes, from beyond its end.\<close>

lemma echo_payload_len_nat:
  fixes h :: ipv4_hdr
  defines "len \<equiv> unat (htons (tot_len h))" and "hdrs \<equiv> unat (ipv4_header_length h) + 8"
  shows "unat (echo_payload_len h) = (if len < hdrs then 56 else min 56 (len - hdrs))"
proof -
  let ?l = "unat (ipv4_header_length h)"
  define p :: u16 where "p = htons (tot_len h) - ucast (ipv4_header_length h) - 4 - 4"
  have l: "?l \<le> 60" by (rule header_length_le)
  have t: "len < 65536" using unsigned_less [of "htons (tot_len h)", where ?'a = nat] by (simp add: len_def)
  have "(of_nat (unat x) :: u16) = ucast x" for x :: "'w::len word"
    by (metis of_nat_nat uint_nonnegative ucast_eq unat_eq_nat_uint)
  then have "p = word_of_int (int len - int hdrs)" by (simp add: p_def len_def hdrs_def)
  then have "unat p = unat (word_of_int (int len - int hdrs) :: u16)" by (simp only:)
  also have "\<dots> = nat ((int len - int hdrs) mod 65536)" by (simp add: unsigned_of_int take_bit_eq_mod del: of_int_diff)
  finally have p: "unat p = nat ((int len - int hdrs) mod 65536)" .
  have hl: "8 \<le> hdrs \<and> hdrs \<le> 68" using l by (simp add: hdrs_def)
  have "(int len - int hdrs) mod 65536 = (if len < hdrs then int len - int hdrs + 65536 else int len - int hdrs)"
  proof (cases "len < hdrs")
    case True
    have "(int len - int hdrs) mod 65536 = (int len - int hdrs + 65536) mod 65536" by simp
    also have "\<dots> = int len - int hdrs + 65536"
      by (rule mod_pos_pos_trivial) (use True hl in auto)
    finally show ?thesis using True by simp
  next
    case False
    then show ?thesis using t by (simp add: mod_pos_pos_trivial)
  qed
  with p have "unat p = (if len < hdrs then 65536 - (hdrs - len) else len - hdrs)"
    using t hl by auto
  moreover have "unat (echo_payload_len h) = min 56 (unat p)"
    by (simp add: echo_payload_len_def Let_def p_def FW_ICMP_ECHO_PAYLOAD_LEN_def ICMP_COMMON_HDR_LEN_def
      echo_data_offset_def min_def word_less_nat_alt word_le_nat_alt)
  ultimately show ?thesis using hl by auto
qed

lemma echo_reply_total:
  assumes "wf_fw_queue q"
  shows "\<exists>ok q'. icmp_enqueue_echo_reply q m pkt i = Some (ok, q') \<and> wf_fw_queue q'"
proof -
  have "wf_fw_queue (snd (fw_enqueue q r))" for r
    using fwq.enq_cases [OF assms, of r "fst (fw_enqueue q r)" "snd (fw_enqueue q r)"] by simp
  then show ?thesis
    using echo_payload_le [of "read_ip m pkt"]
    by (simp add: icmp_enqueue_echo_reply_def copy_into_def Let_def split_def)
qed

end
