(* ===== verification/Fw_Router.thy ===== *)
theory Fw_Router
  imports Fw_Icmp Fw_Packet_Queue
begin

text \<open>
  \<open>examples/firewall/routing/routing.c\<close>: the router. It takes packets that a filter let through, finds
  the next hop and its MAC address, and hands the buffer on: to the transmit queue of an interface, to
  the webserver, back to the receive virtualiser, or into the queue of packets that wait for an ARP
  response. The static variables of the file are the record \<open>router\<close>, with one list entry per
  interface where the file has an array; the shared regions are part of it. An operation is \<open>None\<close> when
  an assertion fails or when it runs into undefined behaviour.
\<close>

subsection \<open>Configuration and state\<close>

definition WEBSERVER_PORT :: u16 where "WEBSERVER_PORT = 80"
definition MULTICAST_IP_MASK :: u32 where "MULTICAST_IP_MASK = 0xf0000000"
definition MULTICAST_IP_ADDR :: u32 where "MULTICAST_IP_ADDR = 0xe0000000"
definition BROADCAST_IP_ADDR :: u32 where "BROADCAST_IP_ADDR = 0xffffffff"
definition broadcast_mac_addr :: mac where "broadcast_mac_addr = [0xff, 0xff, 0xff, 0xff, 0xff, 0xff]"

record fw_router_interface =
  ri_mac_addr :: mac
  ri_ip :: u32
  ri_num_filters :: u8
  ri_rx_free_ch :: u8
  ri_tx_active_ch :: u8
  ri_arp_queue_ch :: u8

text \<open>\<open>rc_hw_checksum\<close> is the build option \<open>NETWORK_HW_HAS_CHECKSUM\<close>.\<close>

record fw_router_config =
  rc_interfaces :: "fw_router_interface list"
  rc_num_interfaces :: u8
  rc_webserver_ch :: u8
  rc_icmp_module_ch :: u8
  rc_hw_checksum :: bool

record router =
  ro_filters :: "net_buff_desc fw_queue list list"
  ro_rx_free :: "net_buff_desc fw_queue list"
  ro_tx_active :: "fw_buff_desc fw_queue list"
  ro_webserver :: "fw_buff_desc fw_queue"
  ro_data :: "memory list"
  ro_icmp :: "icmp_req fw_queue"
  ro_arp_req :: "fw_arp_request fw_queue list"
  ro_arp_resp :: "fw_arp_request fw_queue list"
  ro_arp_table :: "fw_arp_table list"
  ro_waiting :: "pkts_waiting list"
  ro_routes :: fw_routing_table
  ro_tx_net :: "bool list"
  ro_tx_webserver :: bool
  ro_returned :: "bool list"
  ro_notify_arp :: "bool list"
  ro_notify_icmp :: bool
  ro_ping :: "bool list"

abbreviation iface :: "fw_router_config \<Rightarrow> nat \<Rightarrow> fw_router_interface" where
  "iface cfg i \<equiv> rc_interfaces cfg ! i"

definition num_interfaces :: "fw_router_config \<Rightarrow> nat" where
  "num_interfaces cfg = unat (rc_num_interfaces cfg)"

subsection \<open>Handing a buffer on\<close>

text \<open>Returning a buffer to the receive virtualiser.\<close>

definition drop_buffer :: "nat \<Rightarrow> net_buff_desc \<Rightarrow> router \<Rightarrow> router option" where
  "drop_buffer i b st =
     (case fw_enqueue (ro_rx_free st ! i) b of (err, q) \<Rightarrow>
        if err = 0
        then Some (st\<lparr>ro_rx_free := (ro_rx_free st)[i := q], ro_returned := (ro_returned st)[i := True]\<rparr>)
        else None)"

text \<open>A request to the ICMP module; a full queue is not an error.\<close>

definition send_icmp_error :: "u8 \<Rightarrow> u8 \<Rightarrow> nat \<Rightarrow> nat \<Rightarrow> router \<Rightarrow> (bool \<times> router) option" where
  "send_icmp_error t code i pkt st = do {
     (enqueued, q) \<leftarrow> icmp_enqueue_error (ro_icmp st) t code (ro_data st ! i) pkt (of_nat i);
     Some (enqueued, st\<lparr>ro_icmp := q, ro_notify_icmp := (ro_notify_icmp st \<or> enqueued)\<rparr>)
   }"

definition enqueue_icmp_unreachable :: "fw_buff_desc \<Rightarrow> u32 \<Rightarrow> router \<Rightarrow> (bool \<times> router) option" where
  "enqueue_icmp_unreachable buffer next_hop st =
     (let src = unat (bd_interface buffer);
          pkt = unat (bd_offset buffer);
          code = (if next_hop = dst_ip (read_ip (ro_data st ! src) pkt)
                  then ICMP_DEST_HOST_UNREACHABLE else ICMP_DEST_NET_UNREACHABLE)
      in send_icmp_error ICMP_DEST_UNREACHABLE code src pkt st)"

text \<open>The header of an outgoing packet: MAC addresses and the checksum.\<close>

definition rewrite_packet :: "fw_router_config \<Rightarrow> memory \<Rightarrow> nat \<Rightarrow> mac \<Rightarrow> nat \<Rightarrow> memory" where
  "rewrite_packet cfg m pkt mac_addr out =
     (let m1 = write_eth m pkt ((read_eth m pkt)\<lparr>ethdst_addr := take ETH_HWADDR_LEN mac_addr,
                 ethsrc_addr := take ETH_HWADDR_LEN (ri_mac_addr (iface cfg out))\<rparr>);
          m2 = write_ip m1 pkt ((read_ip m1 pkt)\<lparr>check := 0\<rparr>);
          len = ipv4_header_length (read_ip m2 pkt)
      in if rc_hw_checksum cfg then m2
         else write_ip m2 pkt ((read_ip m2 pkt)\<lparr>check :=
                fw_internet_checksum (rd_bytes m2 (pkt + IPV4_HDR_OFFSET) (unat len)) (ucast len)\<rparr>))"

definition transmit_packet :: "fw_router_config \<Rightarrow> mac \<Rightarrow> nat \<Rightarrow> fw_buff_desc \<Rightarrow> router \<Rightarrow> router option" where
  "transmit_packet cfg mac_addr out buffer st =
     (let src = unat (bd_interface buffer);
          m = rewrite_packet cfg (ro_data st ! src) (unat (bd_offset buffer)) mac_addr out
      in case fw_enqueue (ro_tx_active st ! out) buffer of (err, q) \<Rightarrow>
        if err = 0
        then Some (st\<lparr>ro_data := (ro_data st)[src := m], ro_tx_active := (ro_tx_active st)[out := q],
                      ro_tx_net := (ro_tx_net st)[out := True]\<rparr>)
        else None)"

subsection \<open>ARP responses\<close>

definition drop_waiting :: "u32 \<Rightarrow> fw_buff_desc \<Rightarrow> router \<Rightarrow> router option" where
  "drop_waiting ip buffer st = do {
     (enqueued, st1) \<leftarrow> enqueue_icmp_unreachable buffer ip st;
     drop_buffer (unat (bd_interface buffer))
       \<lparr>io_or_offset = bd_offset buffer, nb_len = bd_len buffer\<rparr> st1
   }"

text \<open>The body of the loop over the responses: all packets that wait for the address, oldest first.\<close>

definition arp_response :: "fw_router_config \<Rightarrow> nat \<Rightarrow> fw_arp_request \<Rightarrow> router \<Rightarrow> router option" where
  "arp_response cfg out response st =
     (let pw = ro_waiting st ! out
      in case pkt_waiting_find_node pw (aq_ip response) of
           None \<Rightarrow> Some st
         | Some root \<Rightarrow> do {
             st1 \<leftarrow> (if aq_state response = ARP_STATE_UNREACHABLE
                    then fold_body (drop_waiting (pn_ip (node pw root))) (waiting_buffers pw root) st
                    else fold_body (transmit_packet cfg (aq_mac_addr response) out) (waiting_buffers pw root) st);
             (case pkts_waiting_free_parent (ro_waiting st1 ! out) root of (routing_err, pw') \<Rightarrow>
                if routing_err = ROUTING_ERR_OKAY
                then Some (st1\<lparr>ro_waiting := (ro_waiting st1)[out := pw']\<rparr>) else None)
           })"

definition process_arp_waiting :: "fw_router_config \<Rightarrow> nat \<Rightarrow> router \<Rightarrow> router option" where
  "process_arp_waiting cfg out st =
     (let q = ro_arp_resp st ! out
      in do {
        (q', st') \<leftarrow> drain_loop fw_queue_empty fw_dequeue (arp_response cfg out) (fq_count q) q st;
        Some (st'\<lparr>ro_arp_resp := (ro_arp_resp st')[out := q']\<rparr>)
      })"

subsection \<open>One packet\<close>

text \<open>A packet for the firewall itself: the webserver takes TCP on its port, a ping is answered,
  everything else is dropped.\<close>

definition route_local :: "nat \<Rightarrow> net_buff_desc \<Rightarrow> fw_buff_desc \<Rightarrow> router \<Rightarrow> router option" where
  "route_local i buffer fw_buffer st =
     (let m = ro_data st ! i;
          pkt = unat (io_or_offset buffer);
          ip_hdr = read_ip m pkt;
          transport = pkt + unat (transport_layer_offset ip_hdr)
      in if protocol ip_hdr = IPV4_PROTO_TCP \<and> tcp_dst_port m transport = htons WEBSERVER_PORT
         then (case fw_enqueue (ro_webserver st) fw_buffer of (err, q) \<Rightarrow>
                 if err = 0 then Some (st\<lparr>ro_webserver := q, ro_tx_webserver := True\<rparr>) else None)
         else do {
           st1 \<leftarrow> (if protocol ip_hdr = IPV4_PROTO_ICMP \<and>
                     icmp_type (icmp_hdr_of (rd_bytes m transport ICMP_COMMON_HDR_LEN)) = ICMP_ECHO_REQ \<and>
                     ro_ping st ! i
                  then do {
                    (enqueued, q) \<leftarrow> icmp_enqueue_echo_reply (ro_icmp st) m pkt (of_nat i);
                    Some (st\<lparr>ro_icmp := q, ro_notify_icmp := (ro_notify_icmp st \<or> enqueued)\<rparr>)
                  }
                  else Some st);
           drop_buffer i buffer st1
         })"

text \<open>The packet has a next hop behind an interface.\<close>

definition send_via :: "fw_router_config \<Rightarrow> nat \<Rightarrow> net_buff_desc \<Rightarrow> fw_buff_desc \<Rightarrow> u32 \<Rightarrow> nat
    \<Rightarrow> router \<Rightarrow> router option" where
  "send_via cfg i buffer fw_buffer next_hop out st =
     (let tbl = ro_arp_table st ! out;
          arp = map_option ((!) (at_entries tbl)) (fw_arp_table_find_entry tbl next_hop);
          unreachable = (case arp of None \<Rightarrow> False | Some e \<Rightarrow> ae_state e = ARP_STATE_UNREACHABLE);
          unresolved = (case arp of None \<Rightarrow> True | Some e \<Rightarrow> ae_state e = ARP_STATE_PENDING);
          pw = ro_waiting st ! out
      in if unreachable \<or> (pkt_waiting_full pw \<and> unresolved) \<or> (arp = None \<and> fw_queue_full (ro_arp_req st ! out))
         then do {
           st1 \<leftarrow> (if unreachable then map_option snd (enqueue_icmp_unreachable fw_buffer next_hop st) else Some st);
           drop_buffer i buffer st1
         }
         else if unresolved
         then (case pkt_waiting_find_node pw next_hop of
                 Some root \<Rightarrow>
                   (case pkt_waiting_push_child pw root fw_buffer of (fw_err, pw') \<Rightarrow>
                      if fw_err = ROUTING_ERR_OKAY then Some (st\<lparr>ro_waiting := (ro_waiting st)[out := pw']\<rparr>)
                      else None)
               | None \<Rightarrow>
                   (case fw_enqueue (ro_arp_req st ! out) \<lparr>aq_ip = next_hop,
                           aq_mac_addr = replicate ETH_HWADDR_LEN 0, aq_state = ARP_STATE_INVALID\<rparr> of (err, q) \<Rightarrow>
                      if err = 0
                      then (case pkt_waiting_push pw next_hop fw_buffer of (fw_err, pw') \<Rightarrow>
                              if fw_err = ROUTING_ERR_OKAY
                              then Some (st\<lparr>ro_arp_req := (ro_arp_req st)[out := q],
                                            ro_waiting := (ro_waiting st)[out := pw'],
                                            ro_notify_arp := (ro_notify_arp st)[out := True]\<rparr>)
                              else None)
                      else None))
         else transmit_packet cfg (ae_mac_addr (the arp)) out fw_buffer st)"

text \<open>No route, or a packet for the firewall that came in on another interface.\<close>

definition drop_unroutable :: "nat \<Rightarrow> net_buff_desc \<Rightarrow> fw_buff_desc \<Rightarrow> u32 \<Rightarrow> router \<Rightarrow> router option" where
  "drop_unroutable i buffer fw_buffer next_hop st = do {
     (enqueued, st1) \<leftarrow> enqueue_icmp_unreachable fw_buffer next_hop st;
     drop_buffer i buffer st1
   }"

text \<open>The route lookup and what it rules out. The subnet and the interface are read only when there is
  a route; an interface beyond the arrays is undefined behaviour.\<close>

definition route_forward :: "fw_router_config \<Rightarrow> nat \<Rightarrow> net_buff_desc \<Rightarrow> fw_buff_desc \<Rightarrow> u32
    \<Rightarrow> router \<Rightarrow> router option" where
  "route_forward cfg i buffer fw_buffer dst st =
     (case fw_routing_find_route (ro_routes st) dst of (fw_err, next_hop, target) \<Rightarrow>
        if fw_err \<noteq> ROUTING_ERR_OKAY then None
        else if next_hop = FW_ROUTING_NONEXTHOP then drop_unroutable i buffer fw_buffer next_hop st
        else case target of
          None \<Rightarrow> None
        | Some (subnet, out) \<Rightarrow>
            if FW_MAX_INTERFACES \<le> unat out then None
            else if next_hop = ri_ip (iface cfg (unat out)) then drop_unroutable i buffer fw_buffer next_hop st
            else if NOT (subnet_mask subnet) OR next_hop = dst then drop_buffer i buffer st
            else send_via cfg i buffer fw_buffer next_hop (unat out) st)"

definition is_undeliverable :: "eth_hdr \<Rightarrow> ipv4_hdr \<Rightarrow> bool" where
  "is_undeliverable eth ip \<longleftrightarrow> dst_ip ip = BROADCAST_IP_ADDR \<or> ethdst_addr eth = broadcast_mac_addr \<or>
     dst_ip ip AND MULTICAST_IP_MASK = MULTICAST_IP_ADDR"

definition route_packet :: "fw_router_config \<Rightarrow> nat \<Rightarrow> net_buff_desc \<Rightarrow> router \<Rightarrow> router option" where
  "route_packet cfg i buffer st =
     (let fw_buffer = \<lparr>bd_offset = io_or_offset buffer, bd_len = nb_len buffer, bd_interface = of_nat i\<rparr>;
          m = ro_data st ! i;
          pkt = unat (io_or_offset buffer);
          eth = read_eth m pkt;
          ip = read_ip m pkt
      in if is_undeliverable eth ip then drop_buffer i buffer st
         else if ethtype eth \<noteq> htons ETH_TYPE_IP then drop_buffer i buffer st
         else if dst_ip ip = ri_ip (iface cfg i) then route_local i buffer fw_buffer st
         else if ttl ip \<le> 1
         then do {
           (enqueued, st1) \<leftarrow> send_icmp_error ICMP_TTL_EXCEED ICMP_TIME_EXCEEDED_TTL i pkt st;
           drop_buffer i buffer st1
         }
         else route_forward cfg i buffer fw_buffer (dst_ip ip)
                (st\<lparr>ro_data := (ro_data st)[i := write_ip m pkt (ip\<lparr>ttl := ttl ip - 1\<rparr>)]\<rparr>))"

subsection \<open>The loops and the entry points\<close>

definition route_filter :: "fw_router_config \<Rightarrow> nat \<Rightarrow> nat \<Rightarrow> router \<Rightarrow> router option" where
  "route_filter cfg i f st =
     (let q = ro_filters st ! i ! f
      in do {
        (q', st') \<leftarrow> drain_loop fw_queue_empty fw_dequeue (route_packet cfg i) (fq_count q) q st;
        Some (st'\<lparr>ro_filters := (ro_filters st')[i := (ro_filters st' ! i)[f := q']]\<rparr>)
      })"

definition route :: "fw_router_config \<Rightarrow> router \<Rightarrow> router option" where
  "route cfg st =
     fold_body (\<lambda>i. fold_body (route_filter cfg i) [0..<unat (ri_num_filters (iface cfg i))])
       [0..<num_interfaces cfg] st"

text \<open>The notifications at the end of an event, with the flags they reset.\<close>

definition notify_interface :: "fw_router_config \<Rightarrow> nat \<Rightarrow> u8 list \<times> router \<Rightarrow> u8 list \<times> router" where
  "notify_interface cfg i = (\<lambda>(out, st).
     (out @ (if ro_notify_arp st ! i then [ri_arp_queue_ch (iface cfg i)] else [])
          @ (if ro_tx_net st ! i then [ri_tx_active_ch (iface cfg i)] else [])
          @ (if ro_returned st ! i then [ri_rx_free_ch (iface cfg i)] else []),
      st\<lparr>ro_notify_arp := (ro_notify_arp st)[i := False], ro_tx_net := (ro_tx_net st)[i := False],
         ro_returned := (ro_returned st)[i := False]\<rparr>))"

definition router_notify :: "fw_router_config \<Rightarrow> router \<Rightarrow> u8 list \<times> router" where
  "router_notify cfg st =
     (let (out, st1) = fold (notify_interface cfg) [0..<num_interfaces cfg] ([], st)
      in (out @ (if ro_notify_icmp st1 then [rc_icmp_module_ch cfg] else [])
              @ (if ro_tx_webserver st1 then [rc_webserver_ch cfg] else []),
          st1\<lparr>ro_notify_icmp := False, ro_tx_webserver := False\<rparr>))"

definition router_notified :: "fw_router_config \<Rightarrow> u8 \<Rightarrow> router \<Rightarrow> (u8 list \<times> router) option" where
  "router_notified cfg ch st = do {
     st1 \<leftarrow> fold_body (\<lambda>i s. if ch = ri_arp_queue_ch (iface cfg i) then process_arp_waiting cfg i s else Some s)
       [0..<num_interfaces cfg] st;
     st2 \<leftarrow> route cfg st1;
     Some (router_notify cfg st2)
   }"

text \<open>Protected calls of the webserver. The message registers are a map from their number; the result
  is the registers that are set and the number of them that the reply announces.\<close>

definition ROUTER_ADD_ROUTE :: u64 where "ROUTER_ADD_ROUTE = 0"
definition ROUTER_DEL_ROUTE :: u64 where "ROUTER_DEL_ROUTE = 1"
definition ROUTER_SET_PING_RESPONSE :: u64 where "ROUTER_SET_PING_RESPONSE = 2"

definition router_protected :: "fw_router_config \<Rightarrow> u64 \<Rightarrow> (nat \<Rightarrow> u64) \<Rightarrow> router
    \<Rightarrow> ((nat \<times> u64) list \<times> nat \<times> router) option" where
  "router_protected cfg label mr st =
     (if label = ROUTER_ADD_ROUTE then
        (let ip = ucast (mr 0); subnet = ucast (mr 1); next_hop = ucast (mr 2); interface = (ucast (mr 3) :: u8)
         in if \<not> interface < rc_num_interfaces cfg then None
            else case fw_routing_table_add_route (ro_routes st) interface ip subnet next_hop of (err, tbl) \<Rightarrow>
              Some ([(0, of_nat (routing_err_code err))], 1, st\<lparr>ro_routes := tbl\<rparr>))
      else if label = ROUTER_DEL_ROUTE then
        (case fw_routing_table_remove_route (ro_routes st) (ucast (mr 0)) of (err, tbl) \<Rightarrow>
           Some ([(0, of_nat (routing_err_code err))], 1, st\<lparr>ro_routes := tbl\<rparr>))
      else if label = ROUTER_SET_PING_RESPONSE then
        (let interface = (ucast (mr 0) :: u8)
         in if \<not> interface < rc_num_interfaces cfg then None
            else Some ([(0, of_nat (routing_err_code ROUTING_ERR_OKAY))], 1,
              st\<lparr>ro_ping := (ro_ping st)[unat interface := (mr 1 \<noteq> 0)]\<rparr>))
      else Some ([], 0, st))"

end
