(* ===== verification/Fw_Router_Safety.thy ===== *)
theory Fw_Router_Safety
  imports Fw_Router "HOL-Library.Multiset"
begin

text \<open>
  What the router does with the buffers it is given. Every buffer is at one place: in a filter's queue,
  on its way back to the receive virtualiser, in a transmit queue, at the webserver, or waiting for an
  ARP response. The lemmas follow the buffers through the operations of \<open>routing.c\<close>; the property is
  that an event neither loses nor duplicates one, and which situations stop the router.
\<close>

subsection \<open>The waiting packets as a list\<close>

fun walk_roots :: "nat \<Rightarrow> pkts_waiting \<Rightarrow> u16 \<Rightarrow> waiting" where
  "walk_roots 0 pw i = []"
| "walk_roots (Suc n) pw i = (pn_ip (node pw i), waiting_buffers pw i) # walk_roots n pw (pn_next (node pw i))"

definition pq_waiting :: "pkts_waiting \<Rightarrow> waiting" where
  "pq_waiting pw = walk_roots (unat (pw_length pw)) pw (pw_head pw)"

lemma walk_roots_abs:
  assumes "linked (\<lambda>i. pn_next (node pw i)) (map fst rs)" "\<forall>p \<in> set rs. root_ok pw p"
    "rs \<noteq> [] \<longrightarrow> i = fst (hd rs)"
  shows "walk_roots (length rs) pw i = pq_abs pw rs"
  using assms
proof (induction rs arbitrary: i)
  case Nil
  then show ?case by (simp add: pq_abs_def)
next
  case (Cons p rs)
  obtain r cs where p: "p = (r, cs)" by (cases p)
  have i: "i = r" using Cons.prems(3) by (simp add: p)
  have "root_ok pw (r, cs)" using Cons.prems(2) by (simp add: p)
  note w = waiting_buffers_spec [OF this]
  have "walk_roots (length rs) pw (pn_next (node pw r)) = pq_abs pw rs"
    by (rule Cons.IH) (use Cons.prems in \<open>auto simp: p linked_Cons hd_map\<close>)
  with w i show ?case by (simp add: p pq_abs_Cons)
qed

lemma represents_waiting:
  assumes "represents pw q"
  shows "pq_waiting pw = q"
proof -
  obtain rs fs where sh: "pq_shape pw rs fs" and q: "q = pq_abs pw rs" using assms by (auto simp: represents_def)
  have "walk_roots (length rs) pw (pw_head pw) = pq_abs pw rs"
    by (rule walk_roots_abs) (use sh in \<open>auto simp: pq_shape_def\<close>)
  with sh q show ?thesis by (simp add: pq_waiting_def pq_shape_def)
qed

definition wf_waiting :: "pkts_waiting \<Rightarrow> bool" where
  "wf_waiting pw \<longleftrightarrow> represents pw (pq_waiting pw)"

lemma wf_waiting_iff: "wf_waiting pw \<longleftrightarrow> (\<exists>q. represents pw q)"
  using represents_waiting by (auto simp: wf_waiting_def)

definition waiting_bag :: "pkts_waiting \<Rightarrow> fw_buff_desc multiset" where
  "waiting_bag pw = mset (concat (map snd (pq_waiting pw)))"

lemma represents_bag: "represents pw q \<Longrightarrow> waiting_bag pw = mset (concat (map snd q))"
  by (simp add: waiting_bag_def represents_waiting)

lemma waiting_full_total:
  assumes "represents pw q"
  shows "pkt_waiting_full pw \<longleftrightarrow> waiting_total q = unat (pw_capacity pw)"
proof -
  obtain rs fs where sh: "pq_shape pw rs fs" "q = pq_abs pw rs" using assms by (auto simp: represents_def)
  then show ?thesis by (auto simp: pkt_waiting_full_def waiting_total_abs pq_shape_def word_unat_eq_iff)
qed

lemma bag_of_append:
  "ip \<in> fst ` set q \<Longrightarrow> distinct (map fst q) \<Longrightarrow>
    mset (concat (map snd (map (\<lambda>(i, bs). if i = ip then (i, bs @ [b]) else (i, bs)) q))) =
    add_mset b (mset (concat (map snd q)))"
proof (induction q)
  case Nil
  then show ?case by simp
next
  case (Cons p q)
  obtain i bs where p: "p = (i, bs)" by (cases p)
  have same: "map (\<lambda>(i, bs). if i = ip then (i, bs @ [b]) else (i, bs)) q = q" if "ip \<notin> fst ` set q"
    using that by (induction q) auto
  show ?case
  proof (cases "i = ip")
    case True
    then have "ip \<notin> fst ` set q" using Cons.prems(2) by (auto simp: p)
    with True same show ?thesis by (simp add: p)
  next
    case False
    with Cons show ?thesis by (auto simp: p)
  qed
qed

text \<open>Storing adds the buffer, and fails only when the queue is full.\<close>

lemma waiting_store_bag:
  assumes wf: "wf_waiting pw" and nf: "\<not> pkt_waiting_full pw"
  shows "\<exists>pw'. waiting_store pw ip b = (ROUTING_ERR_OKAY, pw') \<and> wf_waiting pw' \<and>
    waiting_bag pw' = add_mset b (waiting_bag pw)"
proof -
  define q where "q = pq_waiting pw"
  have q: "represents pw q" using wf by (simp add: wf_waiting_def q_def)
  obtain err pw' q' where s: "waiting_store pw ip b = (err, pw')"
    "abs_store (unat (pw_capacity pw)) q ip b = (err, q')" "represents pw' q'"
    using waiting_store_refines [OF q, of ip b] by blast
  have d: "distinct (map fst q)" using q by (simp add: represents_def)
  have "waiting_total q \<noteq> unat (pw_capacity pw)" using waiting_full_total [OF q] nf by simp
  then have "err = ROUTING_ERR_OKAY" "mset (concat (map snd q')) = add_mset b (mset (concat (map snd q)))"
    using s(2) bag_of_append [OF _ d, of ip b] by (auto simp: abs_store_def split: if_splits)
  with s q show ?thesis by (auto simp: wf_waiting_iff represents_bag)
qed

text \<open>Releasing takes out the packets of one next hop.\<close>

lemma bag_of_release:
  "map_of q ip = Some bs \<Longrightarrow> distinct (map fst q) \<Longrightarrow>
    mset (concat (map snd q)) = mset bs + mset (concat (map snd (filter (\<lambda>p. fst p \<noteq> ip) q)))"
proof (induction q)
  case Nil
  then show ?case by simp
next
  case (Cons p q)
  have same: "filter (\<lambda>p. fst p \<noteq> ip) q = q" if "ip \<notin> fst ` set q"
    using that by (induction q) auto
  show ?case
  proof (cases "fst p = ip")
    case True
    then have "ip \<notin> fst ` set q" "bs = snd p" using Cons.prems by (auto split: if_splits)
    with True same show ?thesis by simp
  next
    case False
    with Cons show ?thesis by (auto split: if_splits)
  qed
qed

lemma waiting_release_bag:
  assumes wf: "wf_waiting pw" and r: "pkt_waiting_find_node pw ip = Some root"
  shows "\<exists>pw'. pkts_waiting_free_parent pw root = (ROUTING_ERR_OKAY, pw') \<and> wf_waiting pw' \<and>
    waiting_bag pw = mset (waiting_buffers pw root) + waiting_bag pw'"
proof -
  define q where "q = pq_waiting pw"
  have q: "represents pw q" using wf by (simp add: wf_waiting_def q_def)
  then have d: "distinct (map fst q)" by (simp add: represents_def)
  obtain pw' where p: "waiting_release pw ip = (fst (abs_release q ip), pw')"
    "represents pw' (snd (abs_release q ip))"
    using waiting_release_refines [OF q, of ip] by blast
  have m: "map_of q ip = Some (waiting_buffers pw root)" and pw': "pw' = snd (pkts_waiting_free_parent pw root)"
    using p(1) r by (simp_all add: waiting_release_def abs_release_def)
  have "fst (pkts_waiting_free_parent pw root) = ROUTING_ERR_OKAY"
    by (simp add: pkts_waiting_free_parent_def Let_def)
  then have "pkts_waiting_free_parent pw root = (ROUTING_ERR_OKAY, pw')" by (simp add: pw' prod_eq_iff)
  moreover have "waiting_bag pw = mset (waiting_buffers pw root) + waiting_bag pw'"
    using bag_of_release [OF m d] p(2) q by (simp add: represents_bag abs_release_def)
  ultimately show ?thesis using p(2) by (auto simp: wf_waiting_iff)
qed

subsection \<open>The buffers the router holds\<close>

definition tag :: "nat \<Rightarrow> net_buff_desc \<Rightarrow> fw_buff_desc" where
  "tag i b = \<lparr>bd_offset = io_or_offset b, bd_len = nb_len b, bd_interface = of_nat i\<rparr>"

definition rx_bag :: "nat \<Rightarrow> net_buff_desc fw_queue \<Rightarrow> fw_buff_desc multiset" where
  "rx_bag i q = mset (map (tag i) (fq_contents q))"

text \<open>Handed on or waiting, and still in a filter's queue.\<close>

definition held :: "fw_router_config \<Rightarrow> router \<Rightarrow> fw_buff_desc multiset" where
  "held cfg st =
     (\<Sum>i<num_interfaces cfg. rx_bag i (ro_rx_free st ! i)) +
     (\<Sum>i<num_interfaces cfg. mset (fq_contents (ro_tx_active st ! i))) +
     mset (fq_contents (ro_webserver st)) +
     (\<Sum>i<num_interfaces cfg. waiting_bag (ro_waiting st ! i))"

definition filter_bag :: "fw_router_config \<Rightarrow> router \<Rightarrow> fw_buff_desc multiset" where
  "filter_bag cfg st = (\<Sum>i<num_interfaces cfg.
     \<Sum>f<unat (ri_num_filters (iface cfg i)). rx_bag i (ro_filters st ! i ! f))"

definition total :: "fw_router_config \<Rightarrow> router \<Rightarrow> fw_buff_desc multiset" where
  "total cfg st = held cfg st + filter_bag cfg st"

definition of_interface :: "nat \<Rightarrow> fw_buff_desc multiset \<Rightarrow> nat" where
  "of_interface i M = size (filter_mset (\<lambda>b. bd_interface b = of_nat i) M)"

definition wf_macs :: "fw_router_config \<Rightarrow> bool" where
  "wf_macs cfg \<longleftrightarrow> (\<forall>i < num_interfaces cfg. length (ri_mac_addr (iface cfg i)) = ETH_HWADDR_LEN)"

definition router_ok :: "fw_router_config \<Rightarrow> router \<Rightarrow> bool" where
  "router_ok cfg st \<longleftrightarrow>
     num_interfaces cfg \<le> FW_MAX_INTERFACES \<and> wf_macs cfg \<and>
     length (ro_rx_free st) = FW_MAX_INTERFACES \<and> length (ro_tx_active st) = FW_MAX_INTERFACES \<and>
     length (ro_data st) = FW_MAX_INTERFACES \<and> length (ro_arp_req st) = FW_MAX_INTERFACES \<and>
     length (ro_arp_resp st) = FW_MAX_INTERFACES \<and> length (ro_waiting st) = FW_MAX_INTERFACES \<and>
     length (ro_filters st) = FW_MAX_INTERFACES \<and> length (ro_arp_table st) = FW_MAX_INTERFACES \<and>
     (\<forall>i < num_interfaces cfg. wf_fw_queue (ro_rx_free st ! i) \<and> wf_fw_queue (ro_tx_active st ! i) \<and>
        wf_fw_queue (ro_arp_req st ! i) \<and> wf_fw_queue (ro_arp_resp st ! i) \<and> wf_waiting (ro_waiting st ! i) \<and>
        (\<forall>b \<in># waiting_bag (ro_waiting st ! i). unat (bd_interface b) < num_interfaces cfg) \<and>
        length (ro_filters st ! i) = unat (ri_num_filters (iface cfg i)) \<and>
        (\<forall>q \<in> set (ro_filters st ! i). wf_fw_queue q) \<and>
        (\<forall>e \<in> set (at_entries (ro_arp_table st ! i)). length (ae_mac_addr e) = ETH_HWADDR_LEN) \<and>
        (\<forall>r \<in> set (fq_contents (ro_arp_resp st ! i)). length (aq_mac_addr r) = ETH_HWADDR_LEN)) \<and>
     wf_fw_queue (ro_webserver st) \<and> wf_fw_queue (ro_icmp st) \<and>
     (\<forall>e \<in> set (routes (ro_routes st)). unat (re_interface e) < num_interfaces cfg)"

text \<open>One entry of a per-interface array changes.\<close>

lemma bag_update:
  fixes F :: "nat \<Rightarrow> 'q \<Rightarrow> 'b multiset"
  assumes i: "i < n" "n \<le> length xs" and v: "F i v = F i (xs ! i) + x"
  shows "(\<Sum>j<n. F j (xs[i := v] ! j)) = (\<Sum>j<n. F j (xs ! j)) + x"
proof -
  have "(\<Sum>j<n. F j (xs[i := v] ! j)) = F i v + (\<Sum>j \<in> {..<n} - {i}. F j (xs[i := v] ! j))"
    using i by (subst sum.remove [of _ i]) auto
  also have "(\<Sum>j \<in> {..<n} - {i}. F j (xs[i := v] ! j)) = (\<Sum>j \<in> {..<n} - {i}. F j (xs ! j))"
    by (rule sum.cong) auto
  also have "F i v + \<dots> = F i (xs ! i) + (\<Sum>j \<in> {..<n} - {i}. F j (xs ! j)) + x" using v by simp
  also have "F i (xs ! i) + (\<Sum>j \<in> {..<n} - {i}. F j (xs ! j)) = (\<Sum>j<n. F j (xs ! j))"
    using i by (subst sum.remove [of _ i]) auto
  finally show ?thesis .
qed

lemma of_interface_union [simp]: "of_interface i (M + N) = of_interface i M + of_interface i N"
  by (simp add: of_interface_def)

lemma of_interface_rx_bag: "of_interface i (rx_bag i q) = length (fq_contents q)"
proof -
  have "filter_mset (\<lambda>b. bd_interface b = of_nat i) (rx_bag i q) = rx_bag i q"
    by (rule filter_mset_eq_conv [THEN iffD2]) (auto simp: rx_bag_def tag_def)
  then show ?thesis by (simp add: of_interface_def rx_bag_def)
qed

lemma of_interface_mono: "M \<subseteq># N \<Longrightarrow> of_interface i M \<le> of_interface i N"
  by (simp add: of_interface_def multiset_filter_mono size_mset_mono)

lemma rx_count:
  assumes "i < num_interfaces cfg"
  shows "length (fq_contents (ro_rx_free st ! i)) \<le> of_interface i (held cfg st)"
proof -
  have "rx_bag i (ro_rx_free st ! i) \<subseteq># (\<Sum>j<num_interfaces cfg. rx_bag j (ro_rx_free st ! j))"
    using assms by (subst sum.remove [of _ i]) auto
  then have "rx_bag i (ro_rx_free st ! i) \<subseteq># held cfg st"
    unfolding held_def by (meson mset_subset_eq_add_left subset_mset.order_trans)
  from of_interface_mono [OF this, of i] show ?thesis by (simp only: of_interface_rx_bag)
qed

subsection \<open>The effect of the operations on the buffers\<close>

text \<open>The header of a buffer's packet. Two descriptors do not interfere when they are for the same packet
  or their headers do not overlap.\<close>

definition header :: "router \<Rightarrow> fw_buff_desc \<Rightarrow> ipv4_hdr" where
  "header st b = read_ip (ro_data st ! unat (bd_interface b)) (unat (bd_offset b))"

definition headers_apart :: "fw_buff_desc multiset \<Rightarrow> bool" where
  "headers_apart T \<longleftrightarrow> (\<forall>b \<in># T. \<forall>c \<in># T. bd_interface b = bd_interface c \<longrightarrow> bd_offset b = bd_offset c \<or>
     unat (bd_offset b) + 34 \<le> unat (bd_offset c) \<or> unat (bd_offset c) + 34 \<le> unat (bd_offset b))"

definition rooms :: "router \<Rightarrow> nat list \<times> nat list \<times> nat list \<times> nat" where
  "rooms st = (map fq_room (ro_rx_free st), map fq_room (ro_tx_active st), map fq_room (ro_arp_req st),
     fq_room (ro_webserver st))"

text \<open>The router's own part stays well formed, the buffers \<open>x\<close> are added to those it has handed on, the
  queues it reads from stay as they are, at most one ARP request is made for each of \<open>x\<close>, and no packet
  of \<open>T\<close> gets a bad length.\<close>

definition moved :: "fw_router_config \<Rightarrow> fw_buff_desc multiset \<Rightarrow> fw_buff_desc multiset \<Rightarrow> router \<Rightarrow> router \<Rightarrow> bool" where
  "moved cfg T x st st' \<longleftrightarrow> router_ok cfg st' \<and> held cfg st' = held cfg st + x \<and> rooms st' = rooms st \<and>
     ro_filters st' = ro_filters st \<and> ro_arp_resp st' = ro_arp_resp st \<and>
     (\<forall>out < num_interfaces cfg. length (fq_contents (ro_arp_req st' ! out)) \<le>
        length (fq_contents (ro_arp_req st ! out)) + size x) \<and>
     (\<forall>b \<in># T. bad_length (header st' b) = bad_length (header st b))"

lemma moved_refl: "router_ok cfg st \<Longrightarrow> moved cfg T {#} st st"
  by (simp add: moved_def)

lemma moved_trans: "moved cfg T x st st1 \<Longrightarrow> moved cfg T y st1 st2 \<Longrightarrow> moved cfg T (x + y) st st2"
  unfolding moved_def by (auto simp: add.assoc) (meson add_le_mono1 le_trans add.assoc [THEN eq_refl])

lemma moved_ok: "moved cfg T x st st' \<Longrightarrow> router_ok cfg st'"
  by (simp add: moved_def)

lemma ok_lengths:
  assumes "router_ok cfg st"
  shows "num_interfaces cfg \<le> length (ro_rx_free st)" "num_interfaces cfg \<le> length (ro_tx_active st)"
    "num_interfaces cfg \<le> length (ro_data st)" "num_interfaces cfg \<le> length (ro_arp_req st)"
    "num_interfaces cfg \<le> length (ro_arp_resp st)" "num_interfaces cfg \<le> length (ro_waiting st)"
    "num_interfaces cfg \<le> length (ro_filters st)"
  using assms by (simp_all add: router_ok_def)

lemma drop_buffer_moves:
  assumes ok: "router_ok cfg st" and i: "i < num_interfaces cfg"
    and room: "length (fq_contents (ro_rx_free st ! i)) < fq_room (ro_rx_free st ! i)"
  shows "\<exists>q. drop_buffer i b st = Some (st\<lparr>ro_rx_free := (ro_rx_free st)[i := q], ro_returned := (ro_returned st)[i := True]\<rparr>) \<and>
    fq_contents q = fq_contents (ro_rx_free st ! i) @ [b] \<and> fq_room q = fq_room (ro_rx_free st ! i) \<and>
    moved cfg T {#tag i b#} st (st\<lparr>ro_rx_free := (ro_rx_free st)[i := q], ro_returned := (ro_returned st)[i := True]\<rparr>)"
proof -
  have wf: "wf_fw_queue (ro_rx_free st ! i)" using ok i by (simp add: router_ok_def)
  obtain q where q: "fw_enqueue (ro_rx_free st ! i) b = (0, q)" "wf_fw_queue q"
    "fq_contents q = fq_contents (ro_rx_free st ! i) @ [b]" "fq_room q = fq_room (ro_rx_free st ! i)"
    using fwq.enq_ok [OF wf room, of b] by blast
  let ?st = "st\<lparr>ro_rx_free := (ro_rx_free st)[i := q], ro_returned := (ro_returned st)[i := True]\<rparr>"
  have l: "num_interfaces cfg \<le> length (ro_rx_free st)" using ok by (rule ok_lengths)
  have "rx_bag i q = rx_bag i (ro_rx_free st ! i) + {#tag i b#}" by (simp add: rx_bag_def q(3))
  from bag_update [where F = rx_bag, OF i l this] have "held cfg ?st = held cfg st + {#tag i b#}"
    by (simp add: held_def)
  moreover have "router_ok cfg ?st"
    using ok q(2) i l by (auto simp: router_ok_def nth_list_update)
  moreover have "rooms ?st = rooms st"
    using map_update_same [of i "ro_rx_free st" fq_room q] i l q(4) by (simp add: rooms_def)
  ultimately show ?thesis using q by (auto simp: drop_buffer_def moved_def header_def)
qed

lemma icmp_moved:
  assumes "router_ok cfg st" "wf_fw_queue q"
  shows "moved cfg T {#} st (st\<lparr>ro_icmp := q, ro_notify_icmp := n\<rparr>)"
  using assms by (simp add: moved_def router_ok_def held_def rooms_def header_def)

lemma send_icmp_cases:
  assumes ok: "router_ok cfg st"
  shows "if bad_length (read_ip (ro_data st ! i) pkt) then send_icmp_error t c i pkt st = None
    else \<exists>e st'. send_icmp_error t c i pkt st = Some (e, st') \<and> moved cfg T {#} st st' \<and>
      ro_rx_free st' = ro_rx_free st \<and> ro_waiting st' = ro_waiting st \<and> ro_arp_req st' = ro_arp_req st"
proof -
  have wf: "wf_fw_queue (ro_icmp st)" using ok by (simp add: router_ok_def)
  show ?thesis
    using icmp_error_cases [OF wf, of "ro_data st ! i" pkt t c "of_nat i"] icmp_moved [OF ok]
    by (auto simp: send_icmp_error_def)
qed

lemma unreachable_cases:
  assumes ok: "router_ok cfg st"
  shows "if bad_length (header st buf) then enqueue_icmp_unreachable buf nh st = None
    else \<exists>e st'. enqueue_icmp_unreachable buf nh st = Some (e, st') \<and> moved cfg T {#} st st' \<and>
      ro_rx_free st' = ro_rx_free st \<and> ro_waiting st' = ro_waiting st \<and> ro_arp_req st' = ro_arp_req st"
  unfolding enqueue_icmp_unreachable_def Let_def header_def by (rule send_icmp_cases [OF ok])

text \<open>Writing the header of a packet leaves the lengths of every packet as they are.\<close>

lemma read_write_ip [simp]: "read_ip (write_ip m pkt h) pkt = h"
  by (simp add: read_ip_def write_ip_def)

lemma read_ip_apart:
  "pkt + 34 \<le> pkt' \<or> pkt' + 34 \<le> pkt \<Longrightarrow> read_ip (write_ip m pkt h) pkt' = read_ip m pkt'"
  by (auto simp: read_ip_def write_ip_def rd_wr_apart IPV4_HDR_OFFSET_def ETH_HDR_LEN_def IPV4_HDR_LEN_MIN_def)

lemma read_ip_write_eth:
  "wf_eth_hdr h \<Longrightarrow> pkt = pkt' \<or> pkt + 34 \<le> pkt' \<or> pkt' + 34 \<le> pkt \<Longrightarrow> read_ip (write_eth m pkt h) pkt' = read_ip m pkt'"
  by (auto simp: read_ip_def write_eth_def rd_wr_apart IPV4_HDR_OFFSET_def ETH_HDR_LEN_def IPV4_HDR_LEN_MIN_def)

lemma bad_length_fields [simp]:
  "bad_length (h\<lparr>ttl := t\<rparr>) = bad_length h" "bad_length (h\<lparr>check := c\<rparr>) = bad_length h"
  by (simp_all add: bad_length_def ipv4_header_length_def)

lemma rewrite_lengths:
  assumes "length mac = ETH_HWADDR_LEN" "wf_macs cfg" "out < num_interfaces cfg"
    and "pkt = pkt' \<or> pkt + 34 \<le> pkt' \<or> pkt' + 34 \<le> pkt"
  shows "bad_length (read_ip (rewrite_packet cfg m pkt mac out) pkt') = bad_length (read_ip m pkt')"
proof -
  have "wf_eth_hdr (h\<lparr>ethdst_addr := take ETH_HWADDR_LEN mac,
      ethsrc_addr := take ETH_HWADDR_LEN (ri_mac_addr (iface cfg out))\<rparr>)" for h
    using assms(1-3) by (simp add: wf_eth_hdr_def wf_macs_def)
  note e = read_ip_write_eth [OF this]
  from assms(4) show ?thesis
    by (elim disjE) (simp_all add: rewrite_packet_def Let_def e read_ip_apart)
qed

lemma data_moved:
  assumes ok: "router_ok cfg st" and T: "headers_apart T" "b \<in># T"
    and m: "\<And>pkt. unat (bd_offset b) = pkt \<or> unat (bd_offset b) + 34 \<le> pkt \<or> pkt + 34 \<le> unat (bd_offset b) \<Longrightarrow>
      bad_length (read_ip m pkt) = bad_length (read_ip (ro_data st ! unat (bd_interface b)) pkt)"
    and b: "unat (bd_interface b) < num_interfaces cfg"
  shows "moved cfg T {#} st (st\<lparr>ro_data := (ro_data st)[unat (bd_interface b) := m]\<rparr>)"
proof -
  have l: "unat (bd_interface b) < length (ro_data st)" using b ok_lengths(3) [OF ok] by simp
  have "bad_length (header (st\<lparr>ro_data := (ro_data st)[unat (bd_interface b) := m]\<rparr>) c) = bad_length (header st c)"
    if "c \<in># T" for c
  proof (cases "bd_interface c = bd_interface b")
    case True
    with T that have "unat (bd_offset b) = unat (bd_offset c) \<or> unat (bd_offset b) + 34 \<le> unat (bd_offset c) \<or>
        unat (bd_offset c) + 34 \<le> unat (bd_offset b)"
      unfolding headers_apart_def by metis
    from m [OF this] True l show ?thesis by (simp add: header_def)
  next
    case False
    then have "unat (bd_interface b) \<noteq> unat (bd_interface c)" by (simp add: word_unat_eq_iff)
    then show ?thesis by (simp add: header_def)
  qed
  with ok show ?thesis by (simp add: moved_def router_ok_def held_def rooms_def)
qed

lemma transmit_cases:
  assumes ok: "router_ok cfg st" and o: "out < num_interfaces cfg" and b: "unat (bd_interface b) < num_interfaces cfg"
    and T: "headers_apart T" "b \<in># T" and mac: "length mac = ETH_HWADDR_LEN"
    and room: "length (fq_contents (ro_tx_active st ! out)) < fq_room (ro_tx_active st ! out)"
  shows "\<exists>st'. transmit_packet cfg mac out b st = Some st' \<and> moved cfg T {#b#} st st' \<and>
      ro_waiting st' = ro_waiting st \<and> ro_arp_req st' = ro_arp_req st \<and>
      length (fq_contents (ro_tx_active st' ! out)) = Suc (length (fq_contents (ro_tx_active st ! out)))"
proof -
  have wf: "wf_fw_queue (ro_tx_active st ! out)" using ok o by (simp add: router_ok_def)
  obtain q where q: "fw_enqueue (ro_tx_active st ! out) b = (0, q)" "wf_fw_queue q"
    "fq_contents q = fq_contents (ro_tx_active st ! out) @ [b]" "fq_room q = fq_room (ro_tx_active st ! out)"
    using fwq.enq_ok [OF wf room, of b] by blast
  have macs: "wf_macs cfg" using ok by (simp add: router_ok_def)
  let ?m = "rewrite_packet cfg (ro_data st ! unat (bd_interface b)) (unat (bd_offset b)) mac out"
  let ?st1 = "st\<lparr>ro_data := (ro_data st)[unat (bd_interface b) := ?m]\<rparr>"
  let ?st2 = "?st1\<lparr>ro_tx_active := (ro_tx_active st)[out := q], ro_tx_net := (ro_tx_net st)[out := True]\<rparr>"
  have l: "num_interfaces cfg \<le> length (ro_tx_active st)" using ok by (rule ok_lengths)
  have m1: "moved cfg T {#} st ?st1"
    by (rule data_moved [OF ok T rewrite_lengths [OF mac macs o] b]) auto
  have "mset (fq_contents q) = mset (fq_contents (ro_tx_active st ! out)) + {#b#}" by (simp add: q(3))
  from bag_update [where F = "\<lambda>i q. mset (fq_contents q)", OF o l this]
  have "held cfg ?st2 = held cfg ?st1 + {#b#}" by (simp add: held_def)
  moreover have "router_ok cfg ?st2"
    using moved_ok [OF m1] q(2) o l by (auto simp: router_ok_def nth_list_update)
  moreover have "rooms ?st2 = rooms ?st1"
    using map_update_same [of out "ro_tx_active st" fq_room q] o l q(4) by (simp add: rooms_def)
  ultimately have "moved cfg T {#b#} ?st1 ?st2" by (simp add: moved_def header_def)
  moreover have "fq_count q = Suc (fq_count (ro_tx_active st ! out))" using arg_cong [OF q(3), of length] by simp
  ultimately show ?thesis using moved_trans [OF m1] q o l by (fastforce simp: transmit_packet_def Let_def)
qed

lemma waiting_moved:
  assumes ok: "router_ok cfg st" and o: "out < num_interfaces cfg"
    and pw: "wf_waiting pw'" "waiting_bag pw' = add_mset b (waiting_bag (ro_waiting st ! out))"
    and b: "unat (bd_interface b) < num_interfaces cfg"
  shows "moved cfg T {#b#} st (st\<lparr>ro_waiting := (ro_waiting st)[out := pw']\<rparr>)"
proof -
  have l: "num_interfaces cfg \<le> length (ro_waiting st)" using ok by (rule ok_lengths)
  have "waiting_bag pw' = waiting_bag (ro_waiting st ! out) + {#b#}" by (simp add: pw(2))
  from bag_update [where F = "\<lambda>i. waiting_bag", OF o l this]
  have "held cfg (st\<lparr>ro_waiting := (ro_waiting st)[out := pw']\<rparr>) = held cfg st + {#b#}" by (simp add: held_def)
  moreover have "router_ok cfg (st\<lparr>ro_waiting := (ro_waiting st)[out := pw']\<rparr>)"
    using ok pw b o l by (auto simp: router_ok_def nth_list_update)
  ultimately show ?thesis by (simp add: moved_def rooms_def header_def)
qed

lemma arp_req_moved:
  assumes m: "moved cfg T {#b#} st (st\<lparr>ro_waiting := w\<rparr>)" and o: "out < num_interfaces cfg"
    and q: "wf_fw_queue q" "fq_contents q = fq_contents (ro_arp_req st ! out) @ [r]"
      "fq_room q = fq_room (ro_arp_req st ! out)"
  shows "moved cfg T {#b#} st (st\<lparr>ro_arp_req := (ro_arp_req st)[out := q], ro_waiting := w, ro_notify_arp := n\<rparr>)"
proof -
  have l: "num_interfaces cfg \<le> length (ro_arp_req st)" using ok_lengths(4) [OF moved_ok [OF m]] by simp
  have "rooms (st\<lparr>ro_arp_req := (ro_arp_req st)[out := q], ro_waiting := w, ro_notify_arp := n\<rparr>) = rooms st"
    using map_update_same [of out "ro_arp_req st" fq_room q] o l q(3) by (simp add: rooms_def)
  moreover have "fq_count q = Suc (fq_count (ro_arp_req st ! out))" using arg_cong [OF q(2), of length] by simp
  ultimately show ?thesis using m o q l
    by (auto simp: moved_def router_ok_def held_def header_def nth_list_update)
qed

subsection \<open>What stops the router\<close>

text \<open>What keeps the router from failing an assertion or overrunning memory, for the buffers \<open>T\<close> with \<open>k\<close>
  of them still to be routed: each queue of the receive virtualiser has a slot for every buffer of its
  interface, the webserver's and the transmit queues for every buffer, and the queues of ARP requests
  for one request each; no packet is shorter than its header says.\<close>

definition ready :: "fw_router_config \<Rightarrow> fw_buff_desc multiset \<Rightarrow> nat \<Rightarrow> router \<Rightarrow> bool" where
  "ready cfg T k st \<longleftrightarrow> router_ok cfg st \<and> headers_apart T \<and>
     (\<forall>b \<in># T. \<not> bad_length (header st b)) \<and> size T \<le> fq_room (ro_webserver st) \<and>
     (\<forall>i < num_interfaces cfg. of_interface i T \<le> fq_room (ro_rx_free st ! i) \<and>
        size T \<le> fq_room (ro_tx_active st ! i) \<and>
        length (fq_contents (ro_arp_req st ! i)) + k \<le> fq_room (ro_arp_req st ! i))"

lemma map_eq_nth: "map f xs = map f ys \<Longrightarrow> i < length ys \<Longrightarrow> f (xs ! i) = f (ys ! i)"
  by (metis nth_map map_eq_imp_length_eq)

lemma rooms_nth:
  assumes "rooms st' = rooms st" "router_ok cfg st" "i < num_interfaces cfg"
  shows "fq_room (ro_rx_free st' ! i) = fq_room (ro_rx_free st ! i)"
    "fq_room (ro_tx_active st' ! i) = fq_room (ro_tx_active st ! i)"
    "fq_room (ro_arp_req st' ! i) = fq_room (ro_arp_req st ! i)"
  by (rule map_eq_nth; use assms ok_lengths [OF assms(2)] in \<open>simp add: rooms_def\<close>)+

lemma ready_moved:
  assumes r: "ready cfg T (k + size x) st" and m: "moved cfg T x st st'"
  shows "ready cfg T k st'"
proof -
  have ok: "router_ok cfg st" "router_ok cfg st'" using r m by (simp_all add: ready_def moved_def)
  have rm: "rooms st' = rooms st" using m by (simp add: moved_def)
  note n = rooms_nth [OF rm ok(1)]
  have w: "fq_room (ro_webserver st') = fq_room (ro_webserver st)" using rm by (simp add: rooms_def)
  have "length (fq_contents (ro_arp_req st' ! i)) + k \<le> fq_room (ro_arp_req st' ! i)"
    if i: "i < num_interfaces cfg" for i
  proof -
    have "length (fq_contents (ro_arp_req st' ! i)) \<le> length (fq_contents (ro_arp_req st ! i)) + size x"
      using m i by (simp add: moved_def)
    moreover have "length (fq_contents (ro_arp_req st ! i)) + (k + size x) \<le> fq_room (ro_arp_req st ! i)"
      using r i by (simp add: ready_def)
    ultimately show ?thesis using n(3) [OF i] by simp
  qed
  with r m ok n w show ?thesis by (simp add: ready_def moved_def)
qed

lemma ready_ok: "ready cfg T k st \<Longrightarrow> router_ok cfg st"
  by (simp add: ready_def)

lemma readyD:
  assumes "ready cfg T k st"
  shows "headers_apart T" "b \<in># T \<Longrightarrow> \<not> bad_length (header st b)" "size T \<le> fq_room (ro_webserver st)"
    "i < num_interfaces cfg \<Longrightarrow> of_interface i T \<le> fq_room (ro_rx_free st ! i)"
    "i < num_interfaces cfg \<Longrightarrow> size T \<le> fq_room (ro_tx_active st ! i)"
    "i < num_interfaces cfg \<Longrightarrow> length (fq_contents (ro_arp_req st ! i)) + k \<le> fq_room (ro_arp_req st ! i)"
  using assms by (simp_all add: ready_def)

lemma tag_interface:
  assumes "router_ok cfg st" "i < num_interfaces cfg"
  shows "unat (bd_interface (tag i b)) = i"
proof -
  have "i < 4" using assms by (simp add: router_ok_def FW_MAX_INTERFACES_def)
  then show ?thesis by (simp add: tag_def unat_of_nat)
qed

lemma tag_offset [simp]: "bd_offset (tag i b) = io_or_offset b"
  by (simp add: tag_def)

text \<open>There is room for a buffer that the router has not handed on yet.\<close>

lemma summand_subset:
  fixes F :: "nat \<Rightarrow> 'b multiset"
  shows "i < n \<Longrightarrow> F i \<subseteq># (\<Sum>j<n. F j)"
  by (subst sum.remove [of _ i]) auto

lemma sub_left: "A \<subseteq># X \<Longrightarrow> A \<subseteq># X + Y"
  by (meson mset_subset_eq_add_left subset_mset.order_trans)

lemma sub_right: "A \<subseteq># Y \<Longrightarrow> A \<subseteq># X + Y"
  by (meson mset_subset_eq_add_right subset_mset.order_trans)

lemma held_parts:
  assumes "i < num_interfaces cfg"
  shows "rx_bag i (ro_rx_free st ! i) \<subseteq># held cfg st" "mset (fq_contents (ro_tx_active st ! i)) \<subseteq># held cfg st"
    "mset (fq_contents (ro_webserver st)) \<subseteq># held cfg st" "waiting_bag (ro_waiting st ! i) \<subseteq># held cfg st"
  unfolding held_def
  by (rule sub_left, rule sub_left, rule sub_left, rule summand_subset [OF assms],
      rule sub_left, rule sub_left, rule sub_right, rule summand_subset [OF assms],
      rule sub_left, rule sub_right, rule subset_mset.order_refl,
      rule sub_right, rule summand_subset [OF assms])

text \<open>The waiting packets are counted besides those in the queues.\<close>

lemma held_waiting_and:
  assumes "i < num_interfaces cfg" "j < num_interfaces cfg"
  shows "rx_bag j (ro_rx_free st ! j) + waiting_bag (ro_waiting st ! i) \<subseteq># held cfg st"
    "mset (fq_contents (ro_tx_active st ! j)) + waiting_bag (ro_waiting st ! i) \<subseteq># held cfg st"
proof -
  let ?R = "\<Sum>i<num_interfaces cfg. rx_bag i (ro_rx_free st ! i)"
  let ?X = "\<Sum>i<num_interfaces cfg. mset (fq_contents (ro_tx_active st ! i))"
  let ?W = "\<Sum>i<num_interfaces cfg. waiting_bag (ro_waiting st ! i)"
  have w: "waiting_bag (ro_waiting st ! i) \<subseteq># ?W" by (rule summand_subset [OF assms(1)])
  have t: "mset (fq_contents (ro_tx_active st ! j)) \<subseteq># ?X" by (rule summand_subset [OF assms(2)])
  have r: "rx_bag j (ro_rx_free st ! j) \<subseteq># ?R" by (rule summand_subset [OF assms(2)])
  have h: "held cfg st = (?R + ?W) + (?X + mset (fq_contents (ro_webserver st)))"
    "held cfg st = (?X + ?W) + (?R + mset (fq_contents (ro_webserver st)))"
    by (simp_all add: held_def ac_simps)
  show "rx_bag j (ro_rx_free st ! j) + waiting_bag (ro_waiting st ! i) \<subseteq># held cfg st"
    unfolding h(1) by (rule sub_left, rule subset_mset.add_mono [OF r w])
  show "mset (fq_contents (ro_tx_active st ! j)) + waiting_bag (ro_waiting st ! i) \<subseteq># held cfg st"
    unfolding h(2) by (rule sub_left, rule subset_mset.add_mono [OF t w])
qed

lemma spare_slots:
  assumes r: "ready cfg T k st" and sub: "add_mset b (held cfg st) \<subseteq># T" and i: "i < num_interfaces cfg"
  shows "length (fq_contents (ro_tx_active st ! i)) < fq_room (ro_tx_active st ! i)"
    and "length (fq_contents (ro_webserver st)) < fq_room (ro_webserver st)"
    and "bd_interface b = of_nat i \<Longrightarrow> length (fq_contents (ro_rx_free st ! i)) < fq_room (ro_rx_free st ! i)"
proof -
  have T: "size (held cfg st) < size T" using size_mset_mono [OF sub] by simp
  have "length (fq_contents (ro_tx_active st ! i)) \<le> size (held cfg st)"
    using size_mset_mono [OF held_parts(2) [OF i]] by simp
  with T readyD(5) [OF r i] show "length (fq_contents (ro_tx_active st ! i)) < fq_room (ro_tx_active st ! i)"
    by linarith
  have "length (fq_contents (ro_webserver st)) \<le> size (held cfg st)"
    using size_mset_mono [OF held_parts(3) [OF i]] by simp
  with T readyD(3) [OF r] show "length (fq_contents (ro_webserver st)) < fq_room (ro_webserver st)"
    by linarith
  assume b: "bd_interface b = of_nat i"
  have "of_interface i (add_mset b (held cfg st)) \<le> of_interface i T" by (rule of_interface_mono [OF sub])
  then have "Suc (of_interface i (held cfg st)) \<le> of_interface i T" using b by (simp add: of_interface_def)
  with rx_count [OF i, of st] readyD(4) [OF r i]
  show "length (fq_contents (ro_rx_free st ! i)) < fq_room (ro_rx_free st ! i)" by linarith
qed

subsection \<open>One packet\<close>

text \<open>A packet \<open>b\<close> from a filter of interface \<open>i\<close>, taken out of its queue.\<close>

definition in_hand :: "fw_router_config \<Rightarrow> fw_buff_desc multiset \<Rightarrow> nat \<Rightarrow> nat \<Rightarrow> net_buff_desc \<Rightarrow> router \<Rightarrow> bool" where
  "in_hand cfg T k i b st \<longleftrightarrow> ready cfg T (Suc k) st \<and> i < num_interfaces cfg \<and>
     add_mset (tag i b) (held cfg st) \<subseteq># T"

lemma in_handD:
  assumes h: "in_hand cfg T k i b st"
  shows "router_ok cfg st" "i < num_interfaces cfg" "tag i b \<in># T" "headers_apart T" "unat (bd_interface (tag i b)) = i"
    "length (fq_contents (ro_rx_free st ! i)) < fq_room (ro_rx_free st ! i)"
    "length (fq_contents (ro_webserver st)) < fq_room (ro_webserver st)"
    "\<And>out. out < num_interfaces cfg \<Longrightarrow> length (fq_contents (ro_tx_active st ! out)) < fq_room (ro_tx_active st ! out)"
    "\<And>out. out < num_interfaces cfg \<Longrightarrow> length (fq_contents (ro_arp_req st ! out)) < fq_room (ro_arp_req st ! out)"
    "\<not> bad_length (header st (tag i b))"
proof -
  have r: "ready cfg T (Suc k) st" and i: "i < num_interfaces cfg" and sub: "add_mset (tag i b) (held cfg st) \<subseteq># T"
    using h by (simp_all add: in_hand_def)
  show ok: "router_ok cfg st" using r by (rule ready_ok)
  show "i < num_interfaces cfg" by (rule i)
  show T: "tag i b \<in># T" using sub by (metis insert_subset_eq_iff)
  show "headers_apart T" using r by (simp add: ready_def)
  show "unat (bd_interface (tag i b)) = i" by (rule tag_interface [OF ok i])
  have bi: "bd_interface (tag i b) = of_nat i" by (simp add: tag_def)
  show "length (fq_contents (ro_rx_free st ! i)) < fq_room (ro_rx_free st ! i)"
    by (rule spare_slots(3) [OF r sub i bi])
  show "length (fq_contents (ro_webserver st)) < fq_room (ro_webserver st)"
    by (rule spare_slots(2) [OF r sub i])
  show "length (fq_contents (ro_tx_active st ! out)) < fq_room (ro_tx_active st ! out)" if "out < num_interfaces cfg" for out
    by (rule spare_slots(1) [OF r sub that])
  show "length (fq_contents (ro_arp_req st ! out)) < fq_room (ro_arp_req st ! out)" if "out < num_interfaces cfg" for out
    using readyD(6) [OF r that] by linarith
  show "\<not> bad_length (header st (tag i b))" using r T by (simp add: ready_def)
qed

text \<open>Dropping the packet in the end, after requests to the ICMP module.\<close>

lemma drop_after:
  assumes h: "in_hand cfg T k i b st" and st1: "moved cfg T {#} st st1" "ro_rx_free st1 = ro_rx_free st"
  shows "\<exists>st'. drop_buffer i b st1 = Some st' \<and> moved cfg T {#tag i b#} st st'"
proof -
  note hD = in_handD [OF h]
  from drop_buffer_moves [OF moved_ok [OF st1(1)] hD(2), of b T] st1(2) hD(6)
  obtain st' where "drop_buffer i b st1 = Some st'" "moved cfg T {#tag i b#} st1 st'" by auto
  with moved_trans [OF st1(1)] show ?thesis by fastforce
qed

lemma drop_unreachable:
  assumes h: "in_hand cfg T k i b st"
  shows "\<exists>e st1. enqueue_icmp_unreachable (tag i b) nh st = Some (e, st1) \<and>
    (\<exists>st'. drop_buffer i b st1 = Some st' \<and> moved cfg T {#tag i b#} st st')"
proof -
  from unreachable_cases [OF in_handD(1) [OF h], of "tag i b" nh T] in_handD(10) [OF h]
  obtain e st1 where st1: "enqueue_icmp_unreachable (tag i b) nh st = Some (e, st1)"
    "moved cfg T {#} st st1" "ro_rx_free st1 = ro_rx_free st" by auto
  from drop_after [OF h st1(2,3)] st1(1) show ?thesis by blast
qed

lemma send_via_cases:
  assumes h: "in_hand cfg T k i b st" and o: "out < num_interfaces cfg"
  shows "\<exists>st'. send_via cfg i b (tag i b) nh out st = Some st' \<and> moved cfg T {#tag i b#} st st'"
proof -
  let ?tbl = "ro_arp_table st ! out" and ?pw = "ro_waiting st ! out"
  let ?arp = "map_option ((!) (at_entries ?tbl)) (fw_arp_table_find_entry ?tbl nh)"
  let ?unreachable = "case ?arp of None \<Rightarrow> False | Some e \<Rightarrow> ae_state e = ARP_STATE_UNREACHABLE"
  let ?unresolved = "case ?arp of None \<Rightarrow> True | Some e \<Rightarrow> ae_state e = ARP_STATE_PENDING"
  note hD = in_handD [OF h]
  note ok = hD(1)
  have tib: "unat (bd_interface (tag i b)) < num_interfaces cfg" using hD(2,5) by simp
  show ?thesis
  proof (cases "?unreachable \<or> (pkt_waiting_full ?pw \<and> ?unresolved) \<or> (?arp = None \<and> fw_queue_full (ro_arp_req st ! out))")
    case drop: True
    show ?thesis
    proof (cases ?unreachable)
      case True
      obtain e st1 st' where "enqueue_icmp_unreachable (tag i b) nh st = Some (e, st1)"
        "drop_buffer i b st1 = Some st'" "moved cfg T {#tag i b#} st st'"
        using drop_unreachable [OF h, of nh] by blast
      then show ?thesis unfolding send_via_def Let_def if_P [OF drop] if_P [OF True] by simp
    next
      case False
      from drop_after [OF h moved_refl [OF ok] refl] show ?thesis
        unfolding send_via_def Let_def if_P [OF drop] if_not_P [OF False] by simp
    qed
  next
    case nd: False
    show ?thesis
    proof (cases ?unresolved)
      case True
      then have nf: "\<not> pkt_waiting_full ?pw" using nd by blast
      have wf: "wf_waiting ?pw" using ok o by (simp add: router_ok_def)
      obtain pw' where pw': "waiting_store ?pw nh (tag i b) = (ROUTING_ERR_OKAY, pw')" "wf_waiting pw'"
        "waiting_bag pw' = add_mset (tag i b) (waiting_bag ?pw)"
        using waiting_store_bag [OF wf nf] by blast
      note m = waiting_moved [OF ok o pw'(2,3) tib]
      show ?thesis
      proof (cases "pkt_waiting_find_node ?pw nh")
        case (Some root)
        with pw'(1) have "pkt_waiting_push_child ?pw root (tag i b) = (ROUTING_ERR_OKAY, pw')"
          by (simp add: waiting_store_def)
        with Some m show ?thesis unfolding send_via_def Let_def if_not_P [OF nd] if_P [OF True] by simp
      next
        case None
        with pw'(1) have push: "pkt_waiting_push ?pw nh (tag i b) = (ROUTING_ERR_OKAY, pw')"
          by (simp add: waiting_store_def)
        let ?r = "\<lparr>aq_ip = nh, aq_mac_addr = replicate ETH_HWADDR_LEN 0, aq_state = ARP_STATE_INVALID\<rparr>"
        have wfr: "wf_fw_queue (ro_arp_req st ! out)" using ok o by (simp add: router_ok_def)
        obtain q where q: "fw_enqueue (ro_arp_req st ! out) ?r = (0, q)" "wf_fw_queue q"
          "fq_contents q = fq_contents (ro_arp_req st ! out) @ [?r]" "fq_room q = fq_room (ro_arp_req st ! out)"
          using fwq.enq_ok [OF wfr hD(9) [OF o], of ?r] by blast
        from arp_req_moved [OF m o q(2-4)] None push q(1) show ?thesis
          unfolding send_via_def Let_def if_not_P [OF nd] if_P [OF True] by simp
      qed
    next
      case False
      then obtain j where j: "fw_arp_table_find_entry ?tbl nh = Some j"
        by (cases "fw_arp_table_find_entry ?tbl nh") auto
      then have "j < length (arp_slots ?tbl)" by (simp add: fw_arp_table_find_entry_def find_index_less)
      then have "at_entries ?tbl ! j \<in> set (at_entries ?tbl)" by (simp add: arp_slots_def)
      then have mac: "length (ae_mac_addr (the ?arp)) = ETH_HWADDR_LEN" using ok o j by (simp add: router_ok_def)
      from transmit_cases [OF ok o tib hD(4) hD(3) mac hD(8) [OF o]] show ?thesis
        unfolding send_via_def Let_def if_not_P [OF nd] if_not_P [OF False] by blast
    qed
  qed
qed

lemma route_local_cases:
  assumes h: "in_hand cfg T k i b st"
  shows "\<exists>st'. route_local i b (tag i b) st = Some st' \<and> moved cfg T {#tag i b#} st st'"
proof -
  let ?m = "ro_data st ! i" and ?pkt = "unat (io_or_offset b)"
  let ?ip = "read_ip ?m ?pkt"
  let ?transport = "?pkt + unat (transport_layer_offset ?ip)"
  let ?web = "protocol ?ip = IPV4_PROTO_TCP \<and> tcp_dst_port ?m ?transport = htons WEBSERVER_PORT"
  let ?ping = "protocol ?ip = IPV4_PROTO_ICMP \<and>
      icmp_type (icmp_hdr_of (rd_bytes ?m ?transport ICMP_COMMON_HDR_LEN)) = ICMP_ECHO_REQ \<and> ro_ping st ! i"
  note hD = in_handD [OF h]
  note ok = hD(1)
  have wfw: "wf_fw_queue (ro_webserver st)" and wfi: "wf_fw_queue (ro_icmp st)"
    using ok by (simp_all add: router_ok_def)
  show ?thesis
  proof (cases ?web)
    case True
    obtain q where q: "fw_enqueue (ro_webserver st) (tag i b) = (0, q)" "wf_fw_queue q"
      "fq_contents q = fq_contents (ro_webserver st) @ [tag i b]" "fq_room q = fq_room (ro_webserver st)"
      using fwq.enq_ok [OF wfw hD(7), of "tag i b"] by blast
    have "moved cfg T {#tag i b#} st (st\<lparr>ro_webserver := q, ro_tx_webserver := True\<rparr>)"
      using ok q by (simp add: moved_def router_ok_def held_def rooms_def header_def)
    with q(1) show ?thesis unfolding route_local_def Let_def if_P [OF True] by simp
  next
    case nw: False
    show ?thesis
    proof (cases ?ping)
      case True
      obtain e q where q: "icmp_enqueue_echo_reply (ro_icmp st) ?m ?pkt (of_nat i) = Some (e, q)" "wf_fw_queue q"
        using echo_reply_total [OF wfi] by blast
      from drop_after [OF h icmp_moved [OF ok q(2)]] q(1) show ?thesis
        unfolding route_local_def Let_def if_not_P [OF nw] if_P [OF True] by simp
    next
      case False
      from drop_after [OF h moved_refl [OF ok] refl] show ?thesis
        unfolding route_local_def Let_def if_not_P [OF nw] if_not_P [OF False] by simp
    qed
  qed
qed

text \<open>A lookup fails with no route or finds an entry of the table.\<close>

lemma find_route_entry:
  "fw_routing_find_route tbl ip = (ROUTING_ERR_OKAY, FW_ROUTING_NONEXTHOP, None) \<or>
    (\<exists>nh. \<exists>e \<in> set (routes tbl). fw_routing_find_route tbl ip = (ROUTING_ERR_OKAY, nh, Some (re_subnet e, re_interface e)))"
proof -
  have "find_route_loop n tbl ip = (ROUTING_ERR_OKAY, FW_ROUTING_NONEXTHOP, None) \<or>
    (\<exists>nh. \<exists>e \<in> set (routes tbl). find_route_loop n tbl ip = (ROUTING_ERR_OKAY, nh, Some (re_subnet e, re_interface e)))"
    for n
  proof (induction n arbitrary: ip)
    case 0
    then show ?case by simp
  next
    case (Suc n)
    show ?case
    proof (cases "route_scan ip None (routes tbl)")
      case None
      then show ?thesis by simp
    next
      case (Some m)
      then have "m \<in> set (routes tbl)" using route_scan_Some [OF Some] by simp
      with Some Suc.IH [of "re_next_hop m"] show ?thesis by auto
    qed
  qed
  then show ?thesis unfolding fw_routing_find_route_def by blast
qed

lemma route_forward_cases:
  assumes h: "in_hand cfg T k i b st"
  shows "\<exists>st'. route_forward cfg i b (tag i b) dst st = Some st' \<and> moved cfg T {#tag i b#} st st'"
proof -
  note ok = in_handD(1) [OF h]
  have unroutable: "\<exists>st'. drop_unroutable i b (tag i b) nh st = Some st' \<and> moved cfg T {#tag i b#} st st'" for nh
    using drop_unreachable [OF h, of nh] by (auto simp: drop_unroutable_def)
  note drop = drop_after [OF h moved_refl [OF ok] refl]
  from find_route_entry [of "ro_routes st" dst] show ?thesis
  proof (elim exE disjE bexE)
    assume "fw_routing_find_route (ro_routes st) dst = (ROUTING_ERR_OKAY, FW_ROUTING_NONEXTHOP, None)"
    with unroutable show ?thesis by (simp add: route_forward_def)
  next
    fix nh e
    assume e: "e \<in> set (routes (ro_routes st))"
      and r: "fw_routing_find_route (ro_routes st) dst = (ROUTING_ERR_OKAY, nh, Some (re_subnet e, re_interface e))"
    have out: "unat (re_interface e) < num_interfaces cfg" using ok e by (simp add: router_ok_def)
    moreover have "\<not> FW_MAX_INTERFACES \<le> unat (re_interface e)" using out ok by (simp add: router_ok_def)
    ultimately show ?thesis
      using unroutable drop send_via_cases [OF h out] by (simp add: route_forward_def r)
  qed
qed

lemma in_hand_moved:
  "in_hand cfg T k i b st \<Longrightarrow> moved cfg T {#} st st1 \<Longrightarrow> in_hand cfg T k i b st1"
  using ready_moved [of cfg T "Suc k" "{#}" st st1] by (simp add: in_hand_def moved_def)

lemma route_packet_cases:
  assumes h: "in_hand cfg T k i b st"
  shows "\<exists>st'. route_packet cfg i b st = Some st' \<and> moved cfg T {#tag i b#} st st'"
proof -
  let ?m = "ro_data st ! i" and ?pkt = "unat (io_or_offset b)"
  let ?ip = "read_ip ?m ?pkt"
  note hD = in_handD [OF h]
  note ok = hD(1)
  have fwb: "\<lparr>bd_offset = io_or_offset b, bd_len = nb_len b, bd_interface = of_nat i\<rparr> = tag i b"
    by (simp add: tag_def)
  note drop = drop_after [OF h moved_refl [OF ok] refl]
  have bad: "\<not> bad_length ?ip" using hD(5,10) by (simp add: header_def)
  have ttl: "\<exists>st'. do { (e, st1) \<leftarrow> send_icmp_error ICMP_TTL_EXCEED ICMP_TIME_EXCEEDED_TTL i ?pkt st;
      drop_buffer i b st1 } = Some st' \<and> moved cfg T {#tag i b#} st st'"
  proof -
    from send_icmp_cases [OF ok, of i ?pkt ICMP_TTL_EXCEED ICMP_TIME_EXCEEDED_TTL T] bad
    obtain e st1 where st1: "send_icmp_error ICMP_TTL_EXCEED ICMP_TIME_EXCEEDED_TTL i ?pkt st = Some (e, st1)"
      "moved cfg T {#} st st1" "ro_rx_free st1 = ro_rx_free st" by auto
    from drop_after [OF h st1(2,3)] st1(1) show ?thesis by simp
  qed
  let ?st1 = "st\<lparr>ro_data := (ro_data st)[i := write_ip ?m ?pkt (?ip\<lparr>ttl := ttl ?ip - 1\<rparr>)]\<rparr>"
  have len: "bad_length (read_ip (write_ip ?m ?pkt (?ip\<lparr>ttl := ttl ?ip - 1\<rparr>)) pkt) = bad_length (read_ip ?m pkt)"
    if "?pkt = pkt \<or> ?pkt + 34 \<le> pkt \<or> pkt + 34 \<le> ?pkt" for pkt
    using that by (auto simp: read_ip_apart)
  have m1: "moved cfg T {#} st ?st1"
    using data_moved [OF ok hD(4) hD(3), of "write_ip ?m ?pkt (?ip\<lparr>ttl := ttl ?ip - 1\<rparr>)"] len hD(2,5) by simp
  from route_forward_cases [OF in_hand_moved [OF h m1], of "dst_ip ?ip"]
  obtain st2 where "route_forward cfg i b (tag i b) (dst_ip ?ip) ?st1 = Some st2" "moved cfg T {#tag i b#} ?st1 st2"
    by auto
  with moved_trans [OF m1] have fwd: "\<exists>st'. route_forward cfg i b (tag i b) (dst_ip ?ip) ?st1 = Some st' \<and>
      moved cfg T {#tag i b#} st st'" by fastforce
  have mix: "\<exists>st'. x = Some st' \<and> moved cfg T {#tag i b#} st st' \<Longrightarrow> \<exists>st'. y = Some st' \<and> moved cfg T {#tag i b#} st st' \<Longrightarrow>
      \<exists>st'. (if c then x else y) = Some st' \<and> moved cfg T {#tag i b#} st st'" for c x y
    by simp
  show ?thesis
    unfolding route_packet_def Let_def fwb by (intro mix drop ttl fwd route_local_cases [OF h])
qed

subsection \<open>ARP responses\<close>

lemma drop_fold:
  assumes "router_ok cfg st"
    and "\<And>b. b \<in> set bs \<Longrightarrow> b \<in># T \<and> \<not> bad_length (header st b) \<and> unat (bd_interface b) < num_interfaces cfg"
    and "\<And>i. i < num_interfaces cfg \<Longrightarrow>
      length (fq_contents (ro_rx_free st ! i)) + of_interface i (mset bs) \<le> fq_room (ro_rx_free st ! i)"
  shows "\<exists>st'. fold_body (drop_waiting ip) bs st = Some st' \<and> moved cfg T (mset bs) st st' \<and>
    ro_waiting st' = ro_waiting st \<and> ro_arp_req st' = ro_arp_req st"
  using assms
proof (induction bs arbitrary: st)
  case Nil
  then show ?case by (simp add: moved_refl)
next
  case (Cons b bs)
  define i where "i = unat (bd_interface b)"
  let ?b = "\<lparr>io_or_offset = bd_offset b, nb_len = bd_len b\<rparr>"
  have b: "b \<in># T" "\<not> bad_length (header st b)" "i < num_interfaces cfg" using Cons.prems(2) [of b] by (simp_all add: i_def)
  have tb: "tag i ?b = b" by (simp add: tag_def i_def)
  from unreachable_cases [OF Cons.prems(1), of b ip T] b(2)
  obtain e st1 where st1: "enqueue_icmp_unreachable b ip st = Some (e, st1)" "moved cfg T {#} st st1"
    "ro_rx_free st1 = ro_rx_free st" "ro_waiting st1 = ro_waiting st" "ro_arp_req st1 = ro_arp_req st" by auto
  have bi: "bd_interface b = of_nat i" by (simp add: i_def)
  have "length (fq_contents (ro_rx_free st1 ! i)) < fq_room (ro_rx_free st1 ! i)"
    using Cons.prems(3) [OF b(3)] bi st1(3) by (simp add: of_interface_def)
  from drop_buffer_moves [OF moved_ok [OF st1(2)] b(3) this, of ?b T] obtain q where
    q: "drop_buffer i ?b st1 = Some (st1\<lparr>ro_rx_free := (ro_rx_free st1)[i := q], ro_returned := (ro_returned st1)[i := True]\<rparr>)"
      "fq_contents q = fq_contents (ro_rx_free st1 ! i) @ [?b]" "fq_room q = fq_room (ro_rx_free st1 ! i)"
      "moved cfg T {#b#} st1 (st1\<lparr>ro_rx_free := (ro_rx_free st1)[i := q], ro_returned := (ro_returned st1)[i := True]\<rparr>)"
    unfolding tb by blast
  let ?st2 = "st1\<lparr>ro_rx_free := (ro_rx_free st1)[i := q], ro_returned := (ro_returned st1)[i := True]\<rparr>"
  from moved_trans [OF st1(2) q(4)] have m: "moved cfg T {#b#} st ?st2" by simp
  have "\<exists>st'. fold_body (drop_waiting ip) bs ?st2 = Some st' \<and> moved cfg T (mset bs) ?st2 st' \<and>
    ro_waiting st' = ro_waiting ?st2 \<and> ro_arp_req st' = ro_arp_req ?st2"
  proof (rule Cons.IH [OF moved_ok [OF m]])
    fix c assume "c \<in> set bs"
    then show "c \<in># T \<and> \<not> bad_length (header ?st2 c) \<and> unat (bd_interface c) < num_interfaces cfg"
      using Cons.prems(2) [of c] m by (simp add: moved_def)
  next
    fix j assume j: "j < num_interfaces cfg"
    have l: "i < length (ro_rx_free st1)" using b(3) ok_lengths(1) [OF moved_ok [OF st1(2)]] by simp
    have cnt: "fq_count q = Suc (fq_count (ro_rx_free st1 ! i))" using arg_cong [OF q(2), of length] by simp
    show "length (fq_contents (ro_rx_free ?st2 ! j)) + of_interface j (mset bs) \<le> fq_room (ro_rx_free ?st2 ! j)"
    proof (cases "j = i")
      case True
      with Cons.prems(3) [OF j] l q(3) cnt bi st1(3) show ?thesis by (simp add: of_interface_def)
    next
      case False
      have "of_interface j (mset bs) \<le> of_interface j (mset (b # bs))" by (simp add: of_interface_def)
      with False Cons.prems(3) [OF j] l st1(3) show ?thesis by simp
    qed
  qed
  then obtain st' where st': "fold_body (drop_waiting ip) bs ?st2 = Some st'" "moved cfg T (mset bs) ?st2 st'"
    "ro_waiting st' = ro_waiting st" "ro_arp_req st' = ro_arp_req st" using st1(4,5) by auto
  have "drop_waiting ip b st = Some ?st2" using st1(1) q(1) by (simp add: drop_waiting_def i_def)
  with st' moved_trans [OF m st'(2)] show ?case by simp
qed

lemma transmit_fold:
  assumes "router_ok cfg st" "out < num_interfaces cfg" "headers_apart T" "length mac = ETH_HWADDR_LEN"
    and "\<And>b. b \<in> set bs \<Longrightarrow> b \<in># T \<and> unat (bd_interface b) < num_interfaces cfg"
    and "length (fq_contents (ro_tx_active st ! out)) + length bs \<le> fq_room (ro_tx_active st ! out)"
  shows "\<exists>st'. fold_body (transmit_packet cfg mac out) bs st = Some st' \<and> moved cfg T (mset bs) st st' \<and>
    ro_waiting st' = ro_waiting st \<and> ro_arp_req st' = ro_arp_req st"
  using assms
proof (induction bs arbitrary: st)
  case Nil
  then show ?case by (simp add: moved_refl)
next
  case (Cons b bs)
  have b: "b \<in># T" "unat (bd_interface b) < num_interfaces cfg" using Cons.prems(5) [of b] by simp_all
  have "length (fq_contents (ro_tx_active st ! out)) < fq_room (ro_tx_active st ! out)" using Cons.prems(6) by simp
  from transmit_cases [OF Cons.prems(1,2) b(2) Cons.prems(3) b(1) Cons.prems(4) this]
  obtain st1 where st1: "transmit_packet cfg mac out b st = Some st1" "moved cfg T {#b#} st st1"
    "ro_waiting st1 = ro_waiting st" "ro_arp_req st1 = ro_arp_req st"
    "length (fq_contents (ro_tx_active st1 ! out)) = Suc (length (fq_contents (ro_tx_active st ! out)))" by blast
  have "rooms st1 = rooms st" using st1(2) by (simp add: moved_def)
  from rooms_nth(2) [OF this Cons.prems(1,2)] st1(5) Cons.prems(6)
  have "length (fq_contents (ro_tx_active st1 ! out)) + length bs \<le> fq_room (ro_tx_active st1 ! out)" by simp
  from Cons.IH [OF moved_ok [OF st1(2)] Cons.prems(2,3,4) _ this] Cons.prems(5)
  obtain st' where st': "fold_body (transmit_packet cfg mac out) bs st1 = Some st'" "moved cfg T (mset bs) st1 st'"
    "ro_waiting st' = ro_waiting st" "ro_arp_req st' = ro_arp_req st" using st1(3,4) by auto
  with st1(1) moved_trans [OF st1(2) st'(2)] show ?case by simp
qed

text \<open>The packets of the released next hop were held twice in between.\<close>

lemma release_moved:
  assumes m: "moved cfg T (mset bs) st st1" and same: "ro_waiting st1 = ro_waiting st" "ro_arp_req st1 = ro_arp_req st"
    and o: "out < num_interfaces cfg"
    and pw: "wf_waiting pw'" "waiting_bag (ro_waiting st ! out) = mset bs + waiting_bag pw'"
  shows "moved cfg T {#} st (st1\<lparr>ro_waiting := (ro_waiting st1)[out := pw']\<rparr>)"
proof -
  let ?st2 = "st1\<lparr>ro_waiting := (ro_waiting st1)[out := pw']\<rparr>"
  have ok: "router_ok cfg st1" by (rule moved_ok [OF m])
  have l: "num_interfaces cfg \<le> length (ro_waiting st1)" using ok by (rule ok_lengths)
  have "(\<Sum>j<num_interfaces cfg. waiting_bag (((ro_waiting st1)[out := pw'])[out := ro_waiting st1 ! out] ! j)) =
      (\<Sum>j<num_interfaces cfg. waiting_bag ((ro_waiting st1)[out := pw'] ! j)) + mset bs"
    by (rule bag_update [where F = "\<lambda>i. waiting_bag", OF o]) (use l o pw(2) same in auto)
  then have "held cfg ?st2 + mset bs = held cfg st1" by (simp add: held_def)
  then have "held cfg ?st2 = held cfg st" using m by (simp add: moved_def)
  moreover have "router_ok cfg ?st2"
    using ok pw o l same by (auto simp: router_ok_def nth_list_update)
  ultimately show ?thesis using m same by (simp add: moved_def rooms_def header_def)
qed

lemma arp_response_cases:
  assumes r: "ready cfg T k st" and sub: "held cfg st \<subseteq># T" and o: "out < num_interfaces cfg"
    and mac: "length (aq_mac_addr response) = ETH_HWADDR_LEN"
  shows "\<exists>st'. arp_response cfg out response st = Some st' \<and> moved cfg T {#} st st'"
proof -
  let ?pw = "ro_waiting st ! out"
  note ok = ready_ok [OF r]
  show ?thesis
  proof (cases "pkt_waiting_find_node ?pw (aq_ip response)")
    case None
    with moved_refl [OF ok] show ?thesis by (simp add: arp_response_def)
  next
    case (Some root)
    let ?bs = "waiting_buffers ?pw root"
    have wf: "wf_waiting ?pw" using ok o by (simp add: router_ok_def)
    obtain pw' where pw': "pkts_waiting_free_parent ?pw root = (ROUTING_ERR_OKAY, pw')" "wf_waiting pw'"
      "waiting_bag ?pw = mset ?bs + waiting_bag pw'"
      using waiting_release_bag [OF wf Some] by blast
    have bs: "mset ?bs \<subseteq># waiting_bag ?pw" by (simp add: pw'(3))
    have mem: "b \<in># T \<and> \<not> bad_length (header st b) \<and> unat (bd_interface b) < num_interfaces cfg" if "b \<in> set ?bs" for b
    proof -
      have "b \<in># waiting_bag ?pw" using that bs by (meson mset_subset_eqD set_mset_mset [THEN eqset_imp_iff, THEN iffD2])
      moreover then have "b \<in># T"
        using held_parts(4) [OF o, of st] sub by (meson mset_subset_eqD)
      ultimately show ?thesis using ok o readyD(2) [OF r] by (simp add: router_ok_def)
    qed
    have "\<exists>st1. (if aq_state response = ARP_STATE_UNREACHABLE
        then fold_body (drop_waiting (pn_ip (node ?pw root))) ?bs st
        else fold_body (transmit_packet cfg (aq_mac_addr response) out) ?bs st) = Some st1 \<and>
      moved cfg T (mset ?bs) st st1 \<and> ro_waiting st1 = ro_waiting st \<and> ro_arp_req st1 = ro_arp_req st"
    proof (cases "aq_state response = ARP_STATE_UNREACHABLE")
      case True
      have "length (fq_contents (ro_rx_free st ! i)) + of_interface i (mset ?bs) \<le> fq_room (ro_rx_free st ! i)"
        if i: "i < num_interfaces cfg" for i
      proof -
        have "rx_bag i (ro_rx_free st ! i) + mset ?bs \<subseteq># T"
          using held_waiting_and(1) [OF o i, of st] bs sub
          by (meson subset_mset.add_mono subset_mset.order_refl subset_mset.order_trans)
        from of_interface_mono [OF this, of i] readyD(4) [OF r i] show ?thesis
          by (simp add: of_interface_rx_bag)
      qed
      from drop_fold [OF ok mem this] show ?thesis unfolding if_P [OF True] by blast
    next
      case False
      have "mset (fq_contents (ro_tx_active st ! out)) + mset ?bs \<subseteq># T"
        using held_waiting_and(2) [OF o o, of st] bs sub
        by (meson subset_mset.add_mono subset_mset.order_refl subset_mset.order_trans)
      from size_mset_mono [OF this] readyD(5) [OF r o]
      have "length (fq_contents (ro_tx_active st ! out)) + length ?bs \<le> fq_room (ro_tx_active st ! out)" by simp
      from transmit_fold [OF ok o readyD(1) [OF r] mac _ this] mem show ?thesis unfolding if_not_P [OF False] by blast
    qed
    then obtain st1 where st1: "(if aq_state response = ARP_STATE_UNREACHABLE
        then fold_body (drop_waiting (pn_ip (node ?pw root))) ?bs st
        else fold_body (transmit_packet cfg (aq_mac_addr response) out) ?bs st) = Some st1"
      "moved cfg T (mset ?bs) st st1" "ro_waiting st1 = ro_waiting st" "ro_arp_req st1 = ro_arp_req st" by blast
    have "arp_response cfg out response st = Some (st1\<lparr>ro_waiting := (ro_waiting st1)[out := pw']\<rparr>)"
      unfolding arp_response_def Let_def Some option.case st1(1) using pw'(1) st1(3) by simp
    with release_moved [OF st1(2-4) o pw'(2,3)] show ?thesis by blast
  qed
qed

subsection \<open>The loops\<close>

text \<open>Between the loops: every buffer is accounted for, and there is room for what is still to be routed.\<close>

definition accounted :: "fw_router_config \<Rightarrow> fw_buff_desc multiset \<Rightarrow> router \<Rightarrow> bool" where
  "accounted cfg T st \<longleftrightarrow> ready cfg T (size (filter_bag cfg st)) st \<and> total cfg st = T"

lemma fold_body_upt:
  assumes "J 0 s" "\<And>k s. k < n \<Longrightarrow> J k s \<Longrightarrow> \<exists>s'. body k s = Some s' \<and> J (Suc k) s'"
  shows "\<exists>s'. fold_body body [0..<n] s = Some s' \<and> J n s'"
  using assms(2)
proof (induction n)
  case 0
  then show ?case using assms(1) by simp
next
  case (Suc n)
  have "\<exists>s'. fold_body body [0..<n] s = Some s' \<and> J n s'" by (rule Suc.IH) (use Suc.prems in auto)
  then obtain s1 where s1: "fold_body body [0..<n] s = Some s1" "J n s1" by blast
  with Suc.prems [of n s1] show ?case by (auto simp: fold_body_append)
qed

lemma process_arp_waiting_accounts:
  assumes a: "accounted cfg T st" and o: "out < num_interfaces cfg"
  shows "\<exists>st'. process_arp_waiting cfg out st = Some st' \<and> accounted cfg T st'"
proof -
  let ?q = "ro_arp_resp st ! out" and ?k = "size (filter_bag cfg st)"
  have r: "ready cfg T ?k st" and tot: "total cfg st = T" using a by (simp_all add: accounted_def)
  note ok = ready_ok [OF r]
  have sub: "held cfg st \<subseteq># T" using tot by (auto simp: total_def)
  have wf: "wf_fw_queue ?q" using ok o by (simp add: router_ok_def)
  have "\<exists>st'. fold_body (arp_response cfg out) (fq_contents ?q) st = Some st' \<and> moved cfg T {#} st st'"
  proof (rule fold_body_total [where I = "moved cfg T {#} st"])
    show "moved cfg T {#} st st" by (rule moved_refl [OF ok])
    fix e s assume e: "e \<in> set (fq_contents ?q)" and m: "moved cfg T {#} st s"
    have mac: "length (aq_mac_addr e) = ETH_HWADDR_LEN" using ok o e by (simp add: router_ok_def)
    have "ready cfg T ?k s" using ready_moved [of cfg T ?k "{#}" st s] r m by simp
    moreover have "held cfg s \<subseteq># T" using m sub by (simp add: moved_def)
    ultimately obtain s' where "arp_response cfg out e s = Some s'" "moved cfg T {#} s s'"
      using arp_response_cases [OF _ _ o mac] by blast
    with moved_trans [OF m, of "{#}" s'] show "\<exists>s'. arp_response cfg out e s = Some s' \<and> moved cfg T {#} st s'"
      by simp
  qed
  then obtain st1 where st1: "fold_body (arp_response cfg out) (fq_contents ?q) st = Some st1" "moved cfg T {#} st st1"
    by blast
  obtain q' where q': "drain_loop fw_queue_empty fw_dequeue (arp_response cfg out) (fq_count ?q) ?q st = Some (q', st1)"
    "wf_fw_queue q'" "fq_contents q' = []"
    using fwq.drain_loop_empties [OF wf _ st1(1), of "fq_count ?q"] by auto
  let ?st2 = "st1\<lparr>ro_arp_resp := (ro_arp_resp st1)[out := q']\<rparr>"
  have ok1: "router_ok cfg st1" using st1(2) by (rule moved_ok)
  have "router_ok cfg ?st2"
    using ok1 q' o ok_lengths(5) [OF ok1] by (auto simp: router_ok_def nth_list_update)
  moreover have "ready cfg T ?k st1" using ready_moved [of cfg T ?k "{#}" st st1] r st1(2) by simp
  ultimately have "ready cfg T ?k ?st2" by (simp add: ready_def header_def)
  moreover have "filter_bag cfg ?st2 = filter_bag cfg st" "held cfg ?st2 = held cfg st"
    using st1(2) by (simp_all add: filter_bag_def held_def moved_def)
  ultimately have "accounted cfg T ?st2" using tot by (simp add: accounted_def total_def)
  then show ?thesis using q'(1) by (simp add: process_arp_waiting_def Let_def)
qed

lemma route_fold:
  assumes "ready cfg T (k + length es) st" "i < num_interfaces cfg"
    "held cfg st + mset (map (tag i) es) \<subseteq># T"
  shows "\<exists>st'. fold_body (route_packet cfg i) es st = Some st' \<and> moved cfg T (mset (map (tag i) es)) st st'"
  using assms
proof (induction es arbitrary: st)
  case Nil
  then show ?case by (simp add: moved_refl ready_ok)
next
  case (Cons e es)
  have "add_mset (tag i e) (held cfg st) \<subseteq># T"
    using subset_mset.order_trans [OF _ Cons.prems(3), of "add_mset (tag i e) (held cfg st)"] by simp
  then have "in_hand cfg T (k + length es) i e st" using Cons.prems by (simp add: in_hand_def)
  from route_packet_cases [OF this] obtain st1 where
    st1: "route_packet cfg i e st = Some st1" "moved cfg T {#tag i e#} st st1" by blast
  have "ready cfg T (k + length es) st1"
    using ready_moved [of cfg T "k + length es" "{#tag i e#}" st st1] Cons.prems(1) st1(2) by simp
  moreover have "held cfg st1 + mset (map (tag i) es) \<subseteq># T"
    using Cons.prems(3) st1(2) by (simp add: moved_def)
  ultimately obtain st' where "fold_body (route_packet cfg i) es st1 = Some st'"
    "moved cfg T (mset (map (tag i) es)) st1 st'"
    using Cons.IH [OF _ Cons.prems(2)] by blast
  with st1(1) moved_trans [OF st1(2), of "mset (map (tag i) es)"] show ?case by simp
qed

definition drained :: "router \<Rightarrow> nat \<Rightarrow> nat \<Rightarrow> bool" where
  "drained st i f \<longleftrightarrow> fq_contents (ro_filters st ! i ! f) = []"

lemma route_filter_accounts:
  assumes a: "accounted cfg T st" and i: "i < num_interfaces cfg" and f: "f < unat (ri_num_filters (iface cfg i))"
  shows "\<exists>st'. route_filter cfg i f st = Some st' \<and> accounted cfg T st' \<and> drained st' i f \<and>
    (\<forall>i' f'. drained st i' f' \<longrightarrow> drained st' i' f')"
proof -
  let ?q = "ro_filters st ! i ! f" and ?n = "\<lambda>i. unat (ri_num_filters (iface cfg i))"
  have r: "ready cfg T (size (filter_bag cfg st)) st" and tot: "total cfg st = T" using a by (simp_all add: accounted_def)
  note ok = ready_ok [OF r]
  have li: "num_interfaces cfg \<le> length (ro_filters st)" using ok by (rule ok_lengths)
  have lf: "length (ro_filters st ! i) = ?n i" using ok i by (simp add: router_ok_def)
  have wf: "wf_fw_queue ?q" using ok i f lf by (simp add: router_ok_def)
  have bag: "rx_bag i ?q \<subseteq># filter_bag cfg st"
    unfolding filter_bag_def
    by (rule subset_mset.order_trans [OF summand_subset [OF f, of "\<lambda>f. rx_bag i (ro_filters st ! i ! f)"]
        summand_subset [OF i, of "\<lambda>i. \<Sum>f<?n i. rx_bag i (ro_filters st ! i ! f)"]])
  define k where "k = size (filter_bag cfg st - rx_bag i ?q)"
  have sz: "size (filter_bag cfg st) = k + length (fq_contents ?q)"
    using size_Diff_submset [OF bag] size_mset_mono [OF bag] by (simp add: k_def rx_bag_def)
  have "held cfg st + mset (map (tag i) (fq_contents ?q)) \<subseteq># T"
    using bag tot by (auto simp: total_def rx_bag_def)
  from route_fold [OF r [unfolded sz] i this] obtain st1 where
    st1: "fold_body (route_packet cfg i) (fq_contents ?q) st = Some st1" "moved cfg T (rx_bag i ?q) st st1"
    by (auto simp: rx_bag_def)
  obtain q' where q': "drain_loop fw_queue_empty fw_dequeue (route_packet cfg i) (fq_count ?q) ?q st = Some (q', st1)"
    "wf_fw_queue q'" "fq_contents q' = []"
    using fwq.drain_loop_empties [OF wf _ st1(1), of "fq_count ?q"] by auto
  have same: "ro_filters st1 = ro_filters st" using st1(2) by (simp add: moved_def)
  let ?fs = "(ro_filters st)[i := (ro_filters st ! i)[f := q']]"
  let ?st2 = "st1\<lparr>ro_filters := ?fs\<rparr>"
  have eq: "route_filter cfg i f st = Some ?st2" using q'(1) same by (simp add: route_filter_def Let_def)
  have ok1: "router_ok cfg st1" using st1(2) by (rule moved_ok)
  have ok2: "router_ok cfg ?st2"
    using ok1 q' i li lf same by (auto simp: router_ok_def nth_list_update dest!: set_update_subset_insert [THEN subsetD])
  have "filter_bag cfg st = filter_bag cfg ?st2 + rx_bag i ?q"
  proof -
    let ?F = "\<lambda>i fs. \<Sum>f<?n i. rx_bag i (fs ! f)"
    have "?F i (((ro_filters st ! i)[f := q'])[f := ?q]) = ?F i ((ro_filters st ! i)[f := q']) + rx_bag i ?q"
      by (rule bag_update [where F = "\<lambda>j. rx_bag i", OF f]) (use lf f q' in \<open>auto simp: rx_bag_def\<close>)
    then have "?F i (ro_filters st ! i) = ?F i (?fs ! i) + rx_bag i ?q" using i li by simp
    then have "(\<Sum>j<num_interfaces cfg. ?F j (?fs[i := ro_filters st ! i] ! j)) =
        (\<Sum>j<num_interfaces cfg. ?F j (?fs ! j)) + rx_bag i ?q"
      by (intro bag_update [where F = ?F, OF i]) (use li in auto)
    then show ?thesis by (simp add: filter_bag_def)
  qed
  then have fb: "filter_bag cfg st = filter_bag cfg ?st2 + rx_bag i ?q" .
  have "size (filter_bag cfg ?st2) = k" using fb sz by (simp add: rx_bag_def)
  moreover have "ready cfg T k st1"
    using ready_moved [of cfg T k "rx_bag i ?q" st st1] r st1(2) by (simp add: sz rx_bag_def)
  ultimately have "ready cfg T (size (filter_bag cfg ?st2)) ?st2"
    using ok2 by (simp add: ready_def header_def)
  moreover have "total cfg ?st2 = T"
    using tot fb st1(2) by (simp add: total_def held_def moved_def ac_simps)
  ultimately have "accounted cfg T ?st2" by (simp add: accounted_def)
  moreover have "drained ?st2 i f" using q'(3) i li lf f by (simp add: drained_def)
  moreover have "drained ?st2 i' f'" if "drained st i' f'" for i' f'
    using that q'(3) i li lf f by (cases "i' = i"; cases "f' = f") (auto simp: drained_def)
  ultimately show ?thesis using eq by blast
qed

lemma route_accounts:
  assumes a: "accounted cfg T st"
  shows "\<exists>st'. route cfg st = Some st' \<and> accounted cfg T st' \<and>
    (\<forall>i < num_interfaces cfg. \<forall>f < unat (ri_num_filters (iface cfg i)). drained st' i f)"
  unfolding route_def
proof (rule fold_body_upt [where J = "\<lambda>m s. accounted cfg T s \<and>
    (\<forall>i < m. \<forall>f < unat (ri_num_filters (iface cfg i)). drained s i f)"])
  fix i s
  let ?J = "\<lambda>k s. accounted cfg T s \<and> (\<forall>i' < i. \<forall>f < unat (ri_num_filters (iface cfg i')). drained s i' f) \<and>
    (\<forall>f < k. drained s i f)"
  assume i: "i < num_interfaces cfg"
    and J: "accounted cfg T s \<and> (\<forall>i' < i. \<forall>f < unat (ri_num_filters (iface cfg i')). drained s i' f)"
  have "\<exists>s'. fold_body (route_filter cfg i) [0..<unat (ri_num_filters (iface cfg i))] s = Some s' \<and>
      ?J (unat (ri_num_filters (iface cfg i))) s'"
  proof (rule fold_body_upt [where J = ?J])
    fix f t
    assume f: "f < unat (ri_num_filters (iface cfg i))" and t: "?J f t"
    from route_filter_accounts [OF _ i f, of T t] t obtain t' where
      t': "route_filter cfg i f t = Some t'" "accounted cfg T t'" "drained t' i f"
        "\<forall>i' f'. drained t i' f' \<longrightarrow> drained t' i' f'" by blast
    with t show "\<exists>t'. route_filter cfg i f t = Some t' \<and> ?J (Suc f) t'" by (auto simp: less_Suc_eq)
  qed (use J in simp)
  then show "\<exists>s'. fold_body (route_filter cfg i) [0..<unat (ri_num_filters (iface cfg i))] s = Some s' \<and>
      accounted cfg T s' \<and> (\<forall>i' < Suc i. \<forall>f < unat (ri_num_filters (iface cfg i')). drained s' i' f)"
    by (auto simp: less_Suc_eq)
qed (use a in simp)

text \<open>The notifications touch only the flags.\<close>

definition same_queues :: "router \<Rightarrow> router \<Rightarrow> bool" where
  "same_queues st st' \<longleftrightarrow> ro_filters st' = ro_filters st \<and> ro_rx_free st' = ro_rx_free st \<and>
     ro_tx_active st' = ro_tx_active st \<and> ro_webserver st' = ro_webserver st \<and> ro_data st' = ro_data st \<and>
     ro_icmp st' = ro_icmp st \<and> ro_arp_req st' = ro_arp_req st \<and> ro_arp_resp st' = ro_arp_resp st \<and>
     ro_arp_table st' = ro_arp_table st \<and> ro_waiting st' = ro_waiting st \<and> ro_routes st' = ro_routes st"

lemma notify_same: "same_queues st (snd (router_notify cfg st))"
proof -
  have "same_queues st (snd (fold (notify_interface cfg) is (out, st)))" for "is" out
  proof (induction "is" rule: rev_induct)
    case Nil
    then show ?case by (simp add: same_queues_def)
  next
    case (snoc i "is")
    then show ?case by (simp add: same_queues_def notify_interface_def split_def)
  qed
  then show ?thesis by (simp add: router_notify_def same_queues_def split_def Let_def)
qed

lemma same_queues_accounts:
  assumes "same_queues st st'"
  shows "accounted cfg T st' = accounted cfg T st" "held cfg st' = held cfg st" "drained st' i f = drained st i f"
  using assms by (simp_all add: accounted_def ready_def router_ok_def header_def total_def held_def filter_bag_def
    drained_def same_queues_def)

lemma drained_held:
  assumes "accounted cfg T st"
    and "\<forall>i < num_interfaces cfg. \<forall>f < unat (ri_num_filters (iface cfg i)). drained st i f"
  shows "held cfg st = T"
proof -
  have "filter_bag cfg st = {#}" unfolding filter_bag_def
    by (intro sum.neutral ballI) (use assms(2) in \<open>simp add: drained_def rx_bag_def\<close>)
  then show ?thesis using assms(1) by (simp add: accounted_def total_def)
qed

end
