(* ===== verification/Fw_Router_Props.thy ===== *)
theory Fw_Router_Props
  imports Fw_Router_Safety
begin

text \<open>
  The properties of the router: it accounts for its buffers, what it does to the packets it forwards,
  and the packets and situations it does not handle as its comments say.
\<close>

subsection \<open>What is sent\<close>

lemma write_ip_byte: "j < 20 \<Longrightarrow> write_ip m pkt h (pkt + 14 + j) = ipv4_hdr_bytes h ! j"
  by (simp add: write_ip_def wr_bytes_def IPV4_HDR_OFFSET_def ETH_HDR_LEN_def IPV4_HDR_LEN_MIN_def)

lemma write_ip_other: "a < pkt + 14 \<or> pkt + 34 \<le> a \<Longrightarrow> write_ip m pkt h a = m a"
  by (auto simp: write_ip_def wr_bytes_def IPV4_HDR_OFFSET_def ETH_HDR_LEN_def IPV4_HDR_LEN_MIN_def)

lemma write_eth_other: "wf_eth_hdr h \<Longrightarrow> a < pkt \<or> pkt + 14 \<le> a \<Longrightarrow> write_eth m pkt h a = m a"
  by (auto simp: write_eth_def wr_bytes_def ETH_HDR_LEN_def)

lemma read_write_eth: "wf_eth_hdr h \<Longrightarrow> read_eth (write_eth m pkt h) pkt = h"
  by (simp add: read_eth_def write_eth_def)

lemma read_eth_write_ip: "read_eth (write_ip m pkt h) pkt = read_eth m pkt"
  by (simp add: read_eth_def write_ip_def rd_wr_apart IPV4_HDR_OFFSET_def)

lemma check_field_bytes: "ipv4_hdr_bytes h ! 10 = ucast (check h)" "ipv4_hdr_bytes h ! 11 = ucast (drop_bit 8 (check h))"
  by (simp_all add: ipv4_hdr_bytes_def u16_bytes_def ip_bytes_def eval_nat_numeral)

text \<open>Writing the checksum that was computed with a zero field makes the header verify.\<close>

lemma header_checksum_verifies:
  fixes m :: memory and pkt :: nat
  assumes h: "check h = 0" and len: "12 \<le> unat len"
  defines "m2 \<equiv> write_ip m pkt h"
  defines "c \<equiv> fw_internet_checksum (rd_bytes m2 (pkt + IPV4_HDR_OFFSET) (unat len)) len"
  shows "fw_internet_checksum (rd_bytes (write_ip m2 pkt (h\<lparr>check := c\<rparr>)) (pkt + IPV4_HDR_OFFSET) (unat len)) len = 0"
proof -
  let ?n = "unat len"
  let ?old = "rd_bytes m2 (pkt + IPV4_HDR_OFFSET) ?n"
  have off: "IPV4_HDR_OFFSET = 14" by (simp add: IPV4_HDR_OFFSET_def ETH_HDR_LEN_def)
  have old: "?old ! j = ipv4_hdr_bytes h ! j" if "j < 20" "j < ?n" for j
    using that write_ip_byte [of j m pkt h] by (simp add: m2_def off)
  have "rd_bytes (write_ip m2 pkt (h\<lparr>check := c\<rparr>)) (pkt + IPV4_HDR_OFFSET) ?n = store_le16 ?old 10 c"
  proof (rule nth_equalityI)
    fix j assume "j < length (rd_bytes (write_ip m2 pkt (h\<lparr>check := c\<rparr>)) (pkt + IPV4_HDR_OFFSET) ?n)"
    then have j: "j < ?n" by simp
    show "rd_bytes (write_ip m2 pkt (h\<lparr>check := c\<rparr>)) (pkt + IPV4_HDR_OFFSET) ?n ! j = store_le16 ?old 10 c ! j"
    proof (cases "j < 20")
      case True
      have "length (ipv4_hdr_bytes h) = 20" by (simp add: IPV4_HDR_LEN_MIN_def)
      with True j old [OF True j] write_ip_byte [OF True, of m2 pkt "h\<lparr>check := c\<rparr>"] len show ?thesis
        by (simp add: off ipv4_check_bytes store_le16_def nth_list_update)
    next
      case False
      with j write_ip_other [of "pkt + 14 + j" pkt m2 "h\<lparr>check := c\<rparr>"] show ?thesis
        by (simp add: off store_le16_def nth_list_update)
    qed
  qed simp
  moreover have "?old ! 10 = 0" "?old ! Suc 10 = 0"
    using old [of 10] old [of 11] len check_field_bytes [of h] h by simp_all
  ultimately show ?thesis
    using checksum_of_store [of 10 len ?old] len by (simp add: c_def)
qed

lemma rewrite_packet_spec:
  fixes m :: memory and pkt :: nat
  assumes "length mac = ETH_HWADDR_LEN" "length (ri_mac_addr (iface cfg out)) = ETH_HWADDR_LEN"
  defines "m' \<equiv> rewrite_packet cfg m pkt mac out"
  shows "ethdst_addr (read_eth m' pkt) = mac \<and> ethsrc_addr (read_eth m' pkt) = ri_mac_addr (iface cfg out) \<and>
    ethtype (read_eth m' pkt) = ethtype (read_eth m pkt) \<and>
    (\<exists>c. read_ip m' pkt = (read_ip m pkt)\<lparr>check := c\<rparr>) \<and>
    (\<forall>a. a < pkt \<or> pkt + 34 \<le> a \<longrightarrow> m' a = m a) \<and>
    (\<not> rc_hw_checksum cfg \<and> 3 \<le> unat (ihl (read_ip m pkt)) \<longrightarrow>
      fw_internet_checksum (rd_bytes m' (pkt + IPV4_HDR_OFFSET) (unat (ipv4_header_length (read_ip m pkt))))
        (ucast (ipv4_header_length (read_ip m pkt))) = 0)"
proof -
  let ?e = "(read_eth m pkt)\<lparr>ethdst_addr := take ETH_HWADDR_LEN mac,
      ethsrc_addr := take ETH_HWADDR_LEN (ri_mac_addr (iface cfg out))\<rparr>"
  have e: "wf_eth_hdr ?e" using assms(1,2) by (simp add: wf_eth_hdr_def)
  let ?m1 = "write_eth m pkt ?e" and ?h = "(read_ip m pkt)\<lparr>check := 0\<rparr>"
  have ip1: "read_ip ?m1 pkt = read_ip m pkt" by (rule read_ip_write_eth [OF e]) simp
  let ?m2 = "write_ip ?m1 pkt ?h" and ?len = "ipv4_header_length (read_ip m pkt)"
  let ?c = "fw_internet_checksum (rd_bytes ?m2 (pkt + IPV4_HDR_OFFSET) (unat ?len)) (ucast ?len)"
  have len: "ipv4_header_length ?h = ?len" by (simp add: ipv4_header_length_def)
  have ulen: "unat (ucast ?len :: u16) = unat ?len" by (rule unat_ucast_up) simp
  have m': "m' = (if rc_hw_checksum cfg then ?m2 else write_ip ?m2 pkt (?h\<lparr>check := ?c\<rparr>))"
    by (simp add: m'_def rewrite_packet_def Let_def ip1 len)
  have "read_eth m' pkt = ?e"
    by (simp add: m' read_eth_write_ip read_write_eth [OF e])
  moreover have "\<exists>c. read_ip m' pkt = (read_ip m pkt)\<lparr>check := c\<rparr>"
    by (cases "rc_hw_checksum cfg") (auto simp: m')
  moreover have "m' a = m a" if "a < pkt \<or> pkt + 34 \<le> a" for a
  proof -
    have o: "a < pkt + 14 \<or> pkt + 34 \<le> a" "a < pkt \<or> pkt + 14 \<le> a" using that by auto
    show ?thesis by (simp add: m' write_ip_other [OF o(1)] write_eth_other [OF e o(2)])
  qed
  moreover have "fw_internet_checksum (rd_bytes m' (pkt + IPV4_HDR_OFFSET) (unat ?len)) (ucast ?len) = 0"
    if "\<not> rc_hw_checksum cfg" "3 \<le> unat (ihl (read_ip m pkt))"
  proof -
    have "12 \<le> unat (ucast ?len :: u16)" using that(2) by (simp add: ulen header_length_nat)
    from header_checksum_verifies [of ?h "ucast ?len" ?m1 pkt, OF _ this] that(1) show ?thesis
      by (simp add: m' ulen)
  qed
  ultimately show ?thesis using assms(1,2) by simp
qed

subsection \<open>Properties\<close>

text \<open>C1: an event of the router accounts for every buffer. Given room in the queues (a slot for each
  buffer of an interface in the queue that returns its buffers, a slot for every buffer in each transmit
  queue and at the webserver, a slot for an ARP request for each packet to be routed) and packets that
  are no shorter than their header says, no assertion of the router fails, every filter queue is emptied,
  and each buffer that was in a filter queue or waiting or handed on is afterwards at exactly one place:
  it is returned, transmitted, at the webserver, or waiting for an ARP response.\<close>

theorem router_accounts_for_buffers:
  assumes "ready cfg (total cfg st) (size (filter_bag cfg st)) st"
  shows "\<exists>out st'. router_notified cfg ch st = Some (out, st') \<and> router_ok cfg st' \<and>
    held cfg st' = total cfg st \<and>
    (\<forall>i < num_interfaces cfg. \<forall>f < unat (ri_num_filters (iface cfg i)). fq_contents (ro_filters st' ! i ! f) = [])"
proof -
  let ?T = "total cfg st"
  have a: "accounted cfg ?T st" using assms by (simp add: accounted_def)
  have "\<exists>s. fold_body (\<lambda>i s. if ch = ri_arp_queue_ch (iface cfg i) then process_arp_waiting cfg i s else Some s)
      [0..<num_interfaces cfg] st = Some s \<and> accounted cfg ?T s"
    by (rule fold_body_total [where I = "accounted cfg ?T"]) (use a process_arp_waiting_accounts in auto)
  then obtain st1 where st1: "fold_body (\<lambda>i s. if ch = ri_arp_queue_ch (iface cfg i)
      then process_arp_waiting cfg i s else Some s) [0..<num_interfaces cfg] st = Some st1" "accounted cfg ?T st1"
    by blast
  from route_accounts [OF st1(2)] obtain st2 where st2: "route cfg st1 = Some st2" "accounted cfg ?T st2"
    "\<forall>i < num_interfaces cfg. \<forall>f < unat (ri_num_filters (iface cfg i)). drained st2 i f" by blast
  note same = same_queues_accounts [OF notify_same [of st2 cfg]]
  have "router_notified cfg ch st = Some (router_notify cfg st2)"
    using st1(1) st2(1) by (simp add: router_notified_def)
  moreover have "router_ok cfg (snd (router_notify cfg st2))"
    using st2(2) same(1) [of cfg ?T] by (simp add: accounted_def ready_def)
  ultimately show ?thesis
    using drained_held [OF st2(2,3)] st2(3) same by (intro exI [of _ "fst (router_notify cfg st2)"]
      exI [of _ "snd (router_notify cfg st2)"]) (auto simp: drained_def)
qed

text \<open>A router with one interface, one filter and one packet for a host on its own subnet.\<close>

definition ex_bytes :: "u8 list" where
  "ex_bytes = replicate 12 0 @ [0x08, 0x00,
     0x45, 0, 0x00, 0x14, 0, 0, 0, 0, 64, 17, 0, 0, 10, 0, 0, 9, 10, 0, 0, 2]"

definition ex_mem :: memory where
  "ex_mem a = (if a < 34 then ex_bytes ! a else 0)"

definition ring_of :: "'e \<Rightarrow> 'e list \<Rightarrow> 'e fw_queue" where
  "ring_of d es = \<lparr>fq_idx = \<lparr>idx_tail = of_nat (length es), idx_head = 0\<rparr>,
     fq_entries = es @ replicate (4 - length es) d, fq_capacity = 4\<rparr>"

lemma ring_of_wf: "length es \<le> 4 \<Longrightarrow> wf_fw_queue (ring_of d es) \<and> fq_contents (ring_of d es) = es \<and> fq_room (ring_of d es) = 4"
proof -
  assume l: "length es \<le> 4"
  have c: "fq_count (ring_of d es) = length es" using l by (simp add: fq_count_def ring_of_def unat_of_nat)
  have "fq_contents (ring_of d es) = es"
    unfolding fq_contents_def c
    by (rule nth_equalityI) (use l in \<open>auto simp: ring_of_def fq_slot_def nth_append\<close>)
  with c l show ?thesis by (simp add: wf_fw_queue_def fq_room_def) (simp add: ring_of_def)
qed

lemmas ring_of_simps [simp] = ring_of_wf [THEN conjunct1] ring_of_wf [THEN conjunct2, THEN conjunct1]
  ring_of_wf [THEN conjunct2, THEN conjunct2]

definition ex_net_buffer :: net_buff_desc where "ex_net_buffer = \<lparr>io_or_offset = 0, nb_len = 34\<rparr>"

definition ex_fw_buffer :: fw_buff_desc where "ex_fw_buffer = \<lparr>bd_offset = 0, bd_len = 0, bd_interface = 0\<rparr>"

definition ex_arp_req :: fw_arp_request where
  "ex_arp_req = \<lparr>aq_ip = 0, aq_mac_addr = [0, 0, 0, 0, 0, 0], aq_state = ARP_STATE_INVALID\<rparr>"

definition ex_icmp_req :: icmp_req where
  "ex_icmp_req = \<lparr>rq_type = 0, rq_code = 0, rq_out_interface = 0, rq_eth_hdr = read_eth ex_mem 0,
     rq_ip_hdr = read_ip ex_mem 0, rq_data = zero_union\<rparr>"

definition ex_neighbour :: fw_arp_entry where
  "ex_neighbour = \<lparr>ae_state = ARP_STATE_REACHABLE, ae_ip = 0x0200000A, ae_mac_addr = [2, 0, 0, 0, 0, 7],
     ae_client = 1, ae_num_retries = 0\<rparr>"

definition ex_cfg :: fw_router_config where
  "ex_cfg = \<lparr>rc_interfaces = [\<lparr>ri_mac_addr = [2, 0, 0, 0, 0, 1], ri_ip = 0x0100000A, ri_num_filters = 1,
       ri_rx_free_ch = 1, ri_tx_active_ch = 2, ri_arp_queue_ch = 3\<rparr>],
     rc_num_interfaces = 1, rc_webserver_ch = 4, rc_icmp_module_ch = 5, rc_hw_checksum = False\<rparr>"

definition ex_pq :: pkts_waiting where
  "ex_pq = pkt_waiting_init ex_waiting [ex_node, ex_node] 2"

definition ex_route_table :: fw_routing_table where
  "ex_route_table = \<lparr>rtab_capacity = 1, rtab_size = 1,
     rtab_entries = [\<lparr>re_ip = 0x0000000A, re_subnet = 8, re_interface = 0, re_next_hop = 0\<rparr>]\<rparr>"

definition ex_router :: router where
  "ex_router = \<lparr>ro_filters = replicate 4 [ring_of ex_net_buffer [ex_net_buffer]],
     ro_rx_free = replicate 4 (ring_of ex_net_buffer []), ro_tx_active = replicate 4 (ring_of ex_fw_buffer []),
     ro_webserver = ring_of ex_fw_buffer [], ro_data = replicate 4 ex_mem, ro_icmp = ring_of ex_icmp_req [],
     ro_arp_req = replicate 4 (ring_of ex_arp_req []), ro_arp_resp = replicate 4 (ring_of ex_arp_req []),
     ro_arp_table = replicate 4 \<lparr>at_entries = [ex_neighbour], at_capacity = 1\<rparr>, ro_waiting = replicate 4 ex_pq,
     ro_routes = ex_route_table, ro_tx_net = replicate 4 False, ro_tx_webserver = False,
     ro_returned = replicate 4 False, ro_notify_arp = replicate 4 False, ro_notify_icmp = False,
     ro_ping = [True, True, False, False]\<rparr>"

lemma ex_n: "num_interfaces ex_cfg = 1" by (simp add: num_interfaces_def ex_cfg_def)

lemma ex_pq_empty: "represents ex_pq []"
  unfolding ex_pq_def by (rule init_represents) (simp_all add: ex_waiting_def)

lemma ex_pq_facts: "wf_waiting ex_pq" "waiting_bag ex_pq = {#}"
  using ex_pq_empty represents_bag [OF ex_pq_empty] by (auto simp: wf_waiting_iff)

lemma ex_router_ok: "router_ok ex_cfg ex_router"
  unfolding router_ok_def ex_n
  using ex_pq_facts
  by (simp add: ex_router_def ex_cfg_def wf_macs_def num_interfaces_def FW_MAX_INTERFACES_def ETH_HWADDR_LEN_def
    ex_neighbour_def routes_def ex_route_table_def)

lemma ex_filter_bag: "filter_bag ex_cfg ex_router = {#tag 0 ex_net_buffer#}"
  unfolding filter_bag_def ex_n by (simp add: rx_bag_def ex_router_def ex_cfg_def)

lemma ex_held: "held ex_cfg ex_router = {#}"
  using ex_pq_facts(2)
  by (simp add: held_def ex_n rx_bag_def ex_router_def)

lemma ex_total: "total ex_cfg ex_router = {#tag 0 ex_net_buffer#}"
  by (simp add: total_def ex_held ex_filter_bag)

lemma ex_ip:
  "tot_len (read_ip ex_mem 0) = 0x1400" "ihl (read_ip ex_mem 0) = 5" "ttl (read_ip ex_mem 0) = 64"
  "dst_ip (read_ip ex_mem 0) = 0x0200000A" "ethtype (read_eth ex_mem 0) = 8" "ethdst_addr (read_eth ex_mem 0) = [0,0,0,0,0,0]"
  by code_simp+

lemma ex_ready: "ready ex_cfg (total ex_cfg ex_router) (size (filter_bag ex_cfg ex_router)) ex_router"
proof -
  have "\<not> bad_length (header ex_router (tag 0 ex_net_buffer))"
    by (simp add: bad_length_def header_def tag_def ex_net_buffer_def ex_router_def ipv4_header_length_def ex_ip)
      code_simp
  then show ?thesis
    unfolding ready_def ex_total ex_filter_bag ex_n
    using ex_router_ok
    by (simp add: headers_apart_def of_interface_def ex_router_def)
qed

theorem router_accounts_for_buffers_witness:
  "\<exists>out st'. router_notified ex_cfg 0 ex_router = Some (out, st') \<and> held ex_cfg st' = {#tag 0 ex_net_buffer#}"
  using router_accounts_for_buffers [OF ex_ready, of 0] unfolding ex_total by blast

text \<open>C14: what leaves the router. Take an IPv4 packet for an address that is not that of the interface it came
  from, with a time to live above 1 and outside what the code takes for multicast and broadcast (its test
  looks at the last octet, so that hosts whose address ends in 224 to 239 are excluded, \<open>routing.c\<close> line 189).
  Let the routing table have a route for it whose next hop is an address (not \<open>FW_ROUTING_NONEXTHOP\<close>) other
  than that of the route's interface; let the destination not be the broadcast address of the next hop in the
  subnet of the route (this excludes a /32 route to the destination itself, \<open>routing.c\<close> line 262); let the ARP
  cache of the interface know the next hop as reachable, and its transmit queue have room. Then the packet is
  put on that queue, with its time to live one less, the MAC addresses of the next hop and of the interface,
  every other field of its headers but the checksum and every byte around them unchanged. Where the hardware
  does not compute checksums, and the header length field is at least 3, the header checksum verifies.\<close>

theorem router_forwards_packet:
  fixes b :: net_buff_desc and st :: router and i :: nat
  defines "pkt \<equiv> unat (io_or_offset b)" and "m \<equiv> ro_data st ! i"
  assumes ok: "router_ok cfg st" and i: "i < num_interfaces cfg"
    and deliver: "\<not> is_undeliverable (read_eth m pkt) (read_ip m pkt)" "ethtype (read_eth m pkt) = htons ETH_TYPE_IP"
      "dst_ip (read_ip m pkt) \<noteq> ri_ip (iface cfg i)" "1 < ttl (read_ip m pkt)"
    and hop: "fw_routing_find_route (ro_routes st) (dst_ip (read_ip m pkt)) = (ROUTING_ERR_OKAY, nh, Some (subnet, out))"
      "nh \<noteq> FW_ROUTING_NONEXTHOP" "nh \<noteq> ri_ip (iface cfg (unat out))"
      "(NOT (subnet_mask subnet) OR nh) \<noteq> dst_ip (read_ip m pkt)" "unat out < num_interfaces cfg"
    and arp: "arp_lookup (ro_arp_table st ! unat out) nh = Some e" "ae_state e = ARP_STATE_REACHABLE"
      "length (ae_mac_addr e) = ETH_HWADDR_LEN"
    and room: "\<not> fw_queue_full (ro_tx_active st ! unat out)"
  shows "\<exists>st' m'. route_packet cfg i b st = Some st' \<and> m' = ro_data st' ! i \<and>
    fq_contents (ro_tx_active st' ! unat out) = fq_contents (ro_tx_active st ! unat out) @ [tag i b] \<and>
    read_eth m' pkt = \<lparr>ethdst_addr = ae_mac_addr e, ethsrc_addr = ri_mac_addr (iface cfg (unat out)),
      ethtype = htons ETH_TYPE_IP\<rparr> \<and>
    (\<exists>c. read_ip m' pkt = (read_ip m pkt)\<lparr>ttl := ttl (read_ip m pkt) - 1, check := c\<rparr>) \<and>
    (\<forall>a. a < pkt \<or> pkt + 34 \<le> a \<longrightarrow> m' a = m a) \<and>
    (\<not> rc_hw_checksum cfg \<and> 3 \<le> unat (ihl (read_ip m pkt)) \<longrightarrow>
      fw_internet_checksum (rd_bytes m' (pkt + IPV4_HDR_OFFSET) (unat (ipv4_header_length (read_ip m pkt))))
        (ucast (ipv4_header_length (read_ip m pkt))) = 0)"
proof -
  let ?o = "unat out" and ?ip = "read_ip m pkt"
  let ?h = "?ip\<lparr>ttl := ttl ?ip - 1\<rparr>"
  let ?m1 = "write_ip m pkt ?h"
  let ?st1 = "st\<lparr>ro_data := (ro_data st)[i := ?m1]\<rparr>"
  let ?m2 = "rewrite_packet cfg ?m1 pkt (ae_mac_addr e) ?o"
  have fwb: "\<lparr>bd_offset = io_or_offset b, bd_len = nb_len b, bd_interface = of_nat i\<rparr> = tag i b" by (simp add: tag_def)
  have src: "unat (bd_interface (tag i b)) = i" by (rule tag_interface [OF ok i])
  have l: "i < length (ro_data st)" "?o < length (ro_tx_active st)"
    using ok_lengths(2,3) [OF ok] i hop(5) by simp_all
  have wf: "wf_fw_queue (ro_tx_active st ! ?o)" using ok hop(5) by (simp add: router_ok_def)
  have "length (fq_contents (ro_tx_active st ! ?o)) < fq_room (ro_tx_active st ! ?o)"
    using room fwq.within_room [OF wf] by (auto simp: fq_full_iff)
  then obtain q where q: "fw_enqueue (ro_tx_active st ! ?o) (tag i b) = (0, q)"
    "fq_contents q = fq_contents (ro_tx_active st ! ?o) @ [tag i b]"
    using fwq.enq_ok [OF wf, of "tag i b"] by blast
  let ?st2 = "?st1\<lparr>ro_data := (ro_data ?st1)[i := ?m2], ro_tx_active := (ro_tx_active st)[?o := q],
      ro_tx_net := (ro_tx_net st)[?o := True]\<rparr>"
  have nt: "\<not> ttl ?ip \<le> 1" using deliver(4) by simp
  have max: "\<not> FW_MAX_INTERFACES \<le> ?o" using hop(5) ok by (simp add: router_ok_def)
  have "transmit_packet cfg (ae_mac_addr e) ?o (tag i b) ?st1 = Some ?st2"
    using q(1) l by (simp add: transmit_packet_def Let_def src pkt_def)
  moreover obtain k where "fw_arp_table_find_entry (ro_arp_table st ! ?o) nh = Some k"
    "at_entries (ro_arp_table st ! ?o) ! k = e"
    using arp(1) by (auto simp: arp_lookup_def)
  ultimately have "send_via cfg i b (tag i b) nh ?o ?st1 = Some ?st2"
    using arp(2) unfolding send_via_def Let_def by simp
  then have "route_forward cfg i b (tag i b) (dst_ip ?ip) ?st1 = Some ?st2"
    using hop(1-4) max by (simp add: route_forward_def)
  then have "route_packet cfg i b st = Some ?st2"
    using deliver(1-3) nt unfolding route_packet_def Let_def fwb pkt_def [symmetric] m_def [symmetric] by simp
  moreover have "ro_data ?st2 ! i = ?m2" using l by simp
  moreover have "fq_contents (ro_tx_active ?st2 ! ?o) = fq_contents (ro_tx_active st ! ?o) @ [tag i b]"
    using l q(2) by simp
  moreover
  have mac: "length (ri_mac_addr (iface cfg ?o)) = ETH_HWADDR_LEN"
    using ok hop(5) by (simp add: router_ok_def wf_macs_def)
  note spec = rewrite_packet_spec [OF arp(3) mac, of ?m1 pkt]
  have hl: "ipv4_header_length ?h = ipv4_header_length ?ip" by (simp add: ipv4_header_length_def)
  have "read_eth ?m2 pkt = \<lparr>ethdst_addr = ae_mac_addr e, ethsrc_addr = ri_mac_addr (iface cfg ?o),
      ethtype = htons ETH_TYPE_IP\<rparr>"
    using spec deliver(2) by (simp add: read_eth_write_ip)
  moreover have "\<exists>c. read_ip ?m2 pkt = ?h\<lparr>check := c\<rparr>" using spec by simp
  moreover have "?m2 a = m a" if "a < pkt \<or> pkt + 34 \<le> a" for a
    using spec that write_ip_other [of a pkt m ?h] by auto
  moreover have "\<not> rc_hw_checksum cfg \<and> 3 \<le> unat (ihl ?ip) \<longrightarrow>
      fw_internet_checksum (rd_bytes ?m2 (pkt + IPV4_HDR_OFFSET) (unat (ipv4_header_length ?ip)))
        (ucast (ipv4_header_length ?ip)) = 0"
    using spec by (simp add: hl)
  ultimately show ?thesis by (intro exI [of _ ?st2] exI [of _ ?m2]) simp
qed

theorem router_forwards_packet_witness:
  "\<exists>st' m'. route_packet ex_cfg 0 ex_net_buffer ex_router = Some st' \<and> m' = ro_data st' ! 0 \<and>
    fq_contents (ro_tx_active st' ! 0) = [tag 0 ex_net_buffer] \<and>
    ethdst_addr (read_eth m' 0) = [2, 0, 0, 0, 0, 7] \<and> ttl (read_ip m' 0) = 63"
proof -
  have n: "io_or_offset ex_net_buffer = 0" "ro_data ex_router ! 0 = ex_mem" "iface ex_cfg 0 = \<lparr>ri_mac_addr = [2, 0, 0, 0, 0, 1],
      ri_ip = 0x0100000A, ri_num_filters = 1, ri_rx_free_ch = 1, ri_tx_active_ch = 2, ri_arp_queue_ch = 3\<rparr>"
    by (simp_all add: ex_net_buffer_def ex_router_def ex_cfg_def)
  have eth: "htons ETH_TYPE_IP = 8" by code_simp
  have route: "fw_routing_find_route (ro_routes ex_router) (0x0200000A) = (ROUTING_ERR_OKAY, 0x0200000A, Some (8, 0))"
    by code_simp
  have sub: "(NOT (subnet_mask 8) OR 0x0200000A) \<noteq> (0x0200000A :: u32)" by code_simp
  have und: "\<not> is_undeliverable (read_eth ex_mem 0) (read_ip ex_mem 0)"
    by (simp add: is_undeliverable_def ex_ip BROADCAST_IP_ADDR_def broadcast_mac_addr_def MULTICAST_IP_MASK_def
      MULTICAST_IP_ADDR_def)
  have arp: "arp_lookup (ro_arp_table ex_router ! 0) 0x0200000A = Some ex_neighbour"
    by (simp add: arp_lookup_def fw_arp_table_find_entry_def arp_slots_def entry_for_def ex_router_def ex_neighbour_def)
  have ne: "ae_state ex_neighbour = ARP_STATE_REACHABLE" "ae_mac_addr ex_neighbour = [2, 0, 0, 0, 0, 7]"
    by (simp_all add: ex_neighbour_def)
  have room: "\<not> fw_queue_full (ro_tx_active ex_router ! 0)"
    by (simp add: ex_router_def fw_queue_full_def ring_of_def)
  have tx: "fq_contents (ro_tx_active ex_router ! 0) = []" by (simp add: ex_router_def)
  from router_forwards_packet [OF ex_router_ok, of 0 ex_net_buffer "0x0200000A" 8 0 ex_neighbour]
  show ?thesis
    using und route sub arp room tx by (simp add: n eth ex_ip ex_n ne FW_ROUTING_NONEXTHOP_def ETH_HWADDR_LEN_def) fastforce
qed

text \<open>the multicast test. Addresses are in network byte order, but the mask and the prefix of the
  multicast range are not converted: on the little-endian machine the test looks at the last octet of
  the destination. Packets for a host whose address ends in 224 to 239 are dropped, whatever the network,
  and the addresses 224.0.0.0 to 239.255.255.255 are recognised only by that same octet.\<close>

theorem router_multicast_test_last_octet:
  "(dst AND MULTICAST_IP_MASK = MULTICAST_IP_ADDR \<longleftrightarrow> drop_bit 4 (ip_bytes dst ! 3) = 0xE) \<and>
   (drop_bit 4 (ip_bytes (dst_ip (read_ip (ro_data st ! i) (unat (io_or_offset b)))) ! 3) = 0xE \<longrightarrow>
     route_packet cfg i b st = drop_buffer i b st)"
proof -
  have test: "d AND MULTICAST_IP_MASK = MULTICAST_IP_ADDR \<longleftrightarrow> drop_bit 4 (ip_bytes d ! 3) = 0xE" for d :: u32
  proof -
    have a: "MULTICAST_IP_MASK = push_bit 28 (mask 4)" "MULTICAST_IP_ADDR = push_bit 28 0xE"
      by (simp_all add: MULTICAST_IP_MASK_def MULTICAST_IP_ADDR_def mask_eq_exp_minus_1)
    let ?x = "drop_bit 28 d"
    have e: "drop_bit 4 (ip_bytes d ! 3) = (ucast ?x :: u8)"
      by (rule bit_word_eqI) (auto simp: ip_bytes_def bit_simps dest: bit_imp_le_length)
    have m: "d AND push_bit 28 (mask 4) = push_bit 28 ?x"
      by (rule bit_word_eqI) (auto simp: bit_simps dest: bit_imp_le_length)
    have inv: "drop_bit 28 (push_bit 28 ?x) = ?x" "ucast (ucast ?x :: u8) = ?x"
      by (rule bit_word_eqI; auto simp: bit_simps dest: bit_imp_le_length)+
    have "push_bit 28 ?x = push_bit 28 0xE \<longleftrightarrow> ?x = 0xE"
    proof
      assume "push_bit 28 ?x = push_bit 28 0xE"
      then have "drop_bit 28 (push_bit 28 ?x) = drop_bit 28 (push_bit 28 0xE :: u32)" by simp
      then show "?x = 0xE" by (simp only: inv) simp
    qed simp
    moreover have "(ucast ?x :: u8) = 0xE \<longleftrightarrow> ?x = 0xE"
    proof
      assume "(ucast ?x :: u8) = 0xE"
      then have "(ucast (ucast ?x :: u8) :: u32) = ucast (0xE :: u8)" by simp
      then show "?x = 0xE" by (simp only: inv) simp
    qed simp
    ultimately show ?thesis unfolding a m e by simp
  qed
  then show ?thesis by (simp add: route_packet_def Let_def is_undeliverable_def)
qed

text \<open>The same packet, for the host 10.0.0.225.\<close>

definition ex_mem_225 :: memory where "ex_mem_225 a = (if a = 33 then 225 else ex_mem a)"
definition ex_router_225 :: router where "ex_router_225 = ex_router\<lparr>ro_data := replicate 4 ex_mem_225\<rparr>"

lemma ex_225:
  "drop_bit 4 (ip_bytes (dst_ip (read_ip (ro_data ex_router_225 ! 0) (unat (io_or_offset ex_net_buffer)))) ! 3) = 0xE"
  by code_simp

lemma ex_drop:
  assumes "ro_rx_free st = replicate 4 (ring_of ex_net_buffer [])"
  shows "\<exists>st'. drop_buffer 0 ex_net_buffer st = Some st' \<and> fq_contents (ro_rx_free st' ! 0) = [ex_net_buffer]"
proof -
  obtain err q where q: "fw_enqueue (ring_of ex_net_buffer []) ex_net_buffer = (err, q)" by fastforce
  from fwq.enq_cases [OF _ q] have "err = 0" "fq_contents q = [ex_net_buffer]" by simp_all
  with q assms show ?thesis by (simp add: drop_buffer_def)
qed

theorem router_multicast_test_last_octet_witness:
  "\<exists>st'. route_packet ex_cfg 0 ex_net_buffer ex_router_225 = Some st' \<and> fq_contents (ro_rx_free st' ! 0) = [ex_net_buffer]"
proof -
  have "route_packet ex_cfg 0 ex_net_buffer ex_router_225 = drop_buffer 0 ex_net_buffer ex_router_225"
    using router_multicast_test_last_octet [of 0 ex_router_225 0 ex_net_buffer ex_cfg] ex_225 by blast
  with ex_drop [of ex_router_225] show ?thesis by (simp add: ex_router_225_def ex_router_def)
qed

text \<open>a request for an ICMP error copies the start of the packet's payload into eight bytes. The length
  of the copy is computed as a 16-bit difference, so a packet whose total length is less than its header
  length makes it at least 65476: the copy runs over the request, which is undefined behaviour. For
  every other packet the request is made.\<close>

theorem icmp_error_request_overruns:
  fixes m :: memory and pkt :: nat
  defines "h \<equiv> read_ip m pkt"
  shows "(icmp_enqueue_error q t c m pkt i = None \<longleftrightarrow> unat (htons (tot_len h)) < unat (ipv4_header_length h)) \<and>
    (icmp_enqueue_error q t c m pkt i = None \<longleftrightarrow> 65476 \<le> unat (icmp_to_copy h))"
proof -
  have "icmp_enqueue_error q t c m pkt i = None \<longleftrightarrow> \<not> unat (icmp_to_copy h) \<le> 8"
    by (simp add: icmp_enqueue_error_def copy_into_def Let_def FW_ICMP_SRC_DATA_LEN_def h_def split_def)
  then show ?thesis
    using icmp_to_copy_nat [of h] icmp_to_copy_le [of h] header_length_le [of h] by auto
qed

text \<open>The test for a broadcast address of the destination's subnet takes the only address of a subnet
  of 32 bits for its broadcast address: packets for a host that has a directly connected route of its own
  are dropped.\<close>

theorem router_drops_host_routes:
  assumes "fw_routing_find_route (ro_routes st) dst = (ROUTING_ERR_OKAY, dst, Some (32, out))"
    and "dst \<noteq> FW_ROUTING_NONEXTHOP" "unat out < FW_MAX_INTERFACES" "dst \<noteq> ri_ip (iface cfg (unat out))"
  shows "route_forward cfg i b fb dst st = drop_buffer i b st"
  using assms by (simp add: route_forward_def subnet_mask_32)

definition ex_host_router :: router where
  "ex_host_router = ex_router\<lparr>ro_routes := snd (fw_routing_table_add_route
     \<lparr>rtab_capacity = 1, rtab_size = 0, rtab_entries = [\<lparr>re_ip = 0, re_subnet = 0, re_interface = 0, re_next_hop = 0\<rparr>]\<rparr>
     0 0x0200000A 32 0)\<rparr>"

theorem router_drops_host_routes_witness:
  "\<exists>st'. route_forward ex_cfg 0 ex_net_buffer (tag 0 ex_net_buffer) 0x0200000A ex_host_router = Some st' \<and>
     fq_contents (ro_rx_free st' ! 0) = [ex_net_buffer]"
proof -
  have "fw_routing_find_route (ro_routes ex_host_router) 0x0200000A = (ROUTING_ERR_OKAY, 0x0200000A, Some (32, 0))"
    by code_simp
  from router_drops_host_routes [OF this, of ex_cfg 0 ex_net_buffer "tag 0 ex_net_buffer"]
  have "route_forward ex_cfg 0 ex_net_buffer (tag 0 ex_net_buffer) 0x0200000A ex_host_router
      = drop_buffer 0 ex_net_buffer ex_host_router"
    by (simp add: FW_ROUTING_NONEXTHOP_def FW_MAX_INTERFACES_def ex_cfg_def)
  with ex_drop [of ex_host_router] show ?thesis by (simp add: ex_host_router_def ex_router_def)
qed

text \<open>a next hop with an ARP request under way has no packet waiting once its packets were dropped or
  when the entry is of another client. If the queue of ARP requests is full then, the router does not
  drop the packet, as it does for a next hop without an entry: it makes the request nevertheless, and the
  assertion that it was queued fails.\<close>

theorem router_stops_on_pending_entry:
  assumes "arp_lookup (ro_arp_table st ! out) nh = Some e" "ae_state e = ARP_STATE_PENDING"
    and "\<not> pkt_waiting_full (ro_waiting st ! out)" "pkt_waiting_find_node (ro_waiting st ! out) nh = None"
    and "fw_queue_full (ro_arp_req st ! out)"
  shows "send_via cfg i b fb nh out st = None"
proof -
  obtain k where k: "fw_arp_table_find_entry (ro_arp_table st ! out) nh = Some k" "at_entries (ro_arp_table st ! out) ! k = e"
    using assms(1) by (auto simp: arp_lookup_def)
  have "fst (fw_enqueue (ro_arp_req st ! out) r) \<noteq> 0" for r
    using assms(5) by (simp add: fw_enqueue_def)
  then show ?thesis
    using k assms(2-4) by (simp add: send_via_def Let_def split_def)
qed

definition ex_pending :: fw_arp_entry where "ex_pending = ex_neighbour\<lparr>ae_state := ARP_STATE_PENDING\<rparr>"

definition ex_pending_router :: router where
  "ex_pending_router = ex_router\<lparr>ro_arp_table := replicate 4 \<lparr>at_entries = [ex_pending], at_capacity = 1\<rparr>,
     ro_arp_req := replicate 4 (ring_of ex_arp_req (replicate 4 ex_arp_req))\<rparr>"

theorem router_stops_on_pending_entry_witness:
  "route_packet ex_cfg 0 ex_net_buffer ex_pending_router = None \<and>
   send_via ex_cfg 0 ex_net_buffer (tag 0 ex_net_buffer) 0x0200000A 0 ex_pending_router = None"
proof -
  have arp: "arp_lookup (ro_arp_table s ! 0) 0x0200000A = Some ex_pending"
    and waiting: "\<not> pkt_waiting_full (ro_waiting s ! 0)" "pkt_waiting_find_node (ro_waiting s ! 0) 0x0200000A = None"
    and full: "fw_queue_full (ro_arp_req s ! 0)"
    if "ro_arp_table s = ro_arp_table ex_pending_router" "ro_waiting s = ro_waiting ex_pending_router"
      "ro_arp_req s = ro_arp_req ex_pending_router" for s
    unfolding that by code_simp+
  have pending: "ae_state ex_pending = ARP_STATE_PENDING" by (simp add: ex_pending_def)
  have "send_via ex_cfg 0 ex_net_buffer (tag 0 ex_net_buffer) 0x0200000A 0 s = None"
    if "ro_arp_table s = ro_arp_table ex_pending_router" "ro_waiting s = ro_waiting ex_pending_router"
      "ro_arp_req s = ro_arp_req ex_pending_router" for s
    by (rule router_stops_on_pending_entry [OF arp [OF that] pending waiting [OF that] full [OF that]])
  moreover have "route_packet ex_cfg 0 ex_net_buffer ex_pending_router = None" by code_simp
  ultimately show ?thesis by simp
qed

text \<open>C35: the requests of the web server to the router. A request fails its assertion exactly when it adds a
  route for, or sets the ping response of, an interface the router does not have. Every other request, whatever
  its label and arguments, returns: it keeps the router and its routing table well formed, so that every route
  is for an interface there is; it sets as many registers as it says. A new route is put behind the others
  and a removed one is taken out of its place; a request that is answered with an error has changed nothing; the ping response changes for the interface named only, and an unknown label changes nothing
  and has no answer.\<close>

theorem router_requests_checked:
  assumes "router_ok cfg st" "wf_routes (ro_routes st)"
  shows "(router_protected cfg label mr st = None \<longleftrightarrow>
      label = ROUTER_ADD_ROUTE \<and> rc_num_interfaces cfg \<le> (ucast (mr 3) :: u8) \<or>
      label = ROUTER_SET_PING_RESPONSE \<and> rc_num_interfaces cfg \<le> (ucast (mr 0) :: u8)) \<and>
    (\<forall>regs n st'. router_protected cfg label mr st = Some (regs, n, st') \<longrightarrow>
      router_ok cfg st' \<and> wf_routes (ro_routes st') \<and> n = length regs \<and>
      (if label = ROUTER_ADD_ROUTE then \<exists>err. regs = [(0, of_nat (routing_err_code err))] \<and>
         (if err = ROUTING_ERR_OKAY then st' = st\<lparr>ro_routes := ro_routes st'\<rparr> \<and> routes (ro_routes st') = routes (ro_routes st) @
            [\<lparr>re_ip = subnet_mask (ucast (mr 1)) AND ucast (mr 0), re_subnet = ucast (mr 1), re_interface = ucast (mr 3),
              re_next_hop = ucast (mr 2)\<rparr>]
          else st' = st)
       else if label = ROUTER_DEL_ROUTE then \<exists>err. regs = [(0, of_nat (routing_err_code err))] \<and>
         (if err = ROUTING_ERR_OKAY then st' = st\<lparr>ro_routes := ro_routes st'\<rparr> \<and>
            routes (ro_routes st') = remove_nth (unat (ucast (mr 0) :: u16)) (routes (ro_routes st))
          else st' = st)
       else if label = ROUTER_SET_PING_RESPONSE then regs = [(0, 0)] \<and>
         st' = st\<lparr>ro_ping := (ro_ping st)[unat (ucast (mr 0) :: u8) := (mr 1 \<noteq> 0)]\<rparr>
       else regs = [] \<and> st' = st))"
proof -
  have routes: "router_ok cfg (st\<lparr>ro_routes := tbl\<rparr>)"
    if "\<forall>e \<in> set (routes tbl). unat (re_interface e) < num_interfaces cfg" for tbl
    using assms(1) that by (simp add: router_ok_def)
  have ping_ok: "router_ok cfg (st\<lparr>ro_ping := p\<rparr>)" for p using assms(1) by (simp add: router_ok_def)
  have old: "\<forall>e \<in> set (routes (ro_routes st)). unat (re_interface e) < num_interfaces cfg"
    using assms(1) by (simp add: router_ok_def)
  consider (add) "label = ROUTER_ADD_ROUTE" "(ucast (mr 3) :: u8) < rc_num_interfaces cfg"
    | (bad) "label = ROUTER_ADD_ROUTE" "rc_num_interfaces cfg \<le> (ucast (mr 3) :: u8)"
    | (del) "label = ROUTER_DEL_ROUTE" | (ping) "label = ROUTER_SET_PING_RESPONSE"
    | (other) "label \<noteq> ROUTER_ADD_ROUTE" "label \<noteq> ROUTER_DEL_ROUTE" "label \<noteq> ROUTER_SET_PING_RESPONSE" by fastforce
  then show ?thesis
  proof cases
    case add
    obtain err tbl where t: "fw_routing_table_add_route (ro_routes st) (ucast (mr 3)) (ucast (mr 0)) (ucast (mr 1)) (ucast (mr 2)) = (err, tbl)"
      by fastforce
    have r: "router_protected cfg label mr st = Some ([(0, of_nat (routing_err_code err))], 1, st\<lparr>ro_routes := tbl\<rparr>)"
      using add t by (simp add: router_protected_def)
    note c = add_route_cases [OF assms(2) t]
    have "unat (ucast (mr 3) :: u8) < num_interfaces cfg" using add(2) by (simp add: num_interfaces_def word_less_nat_alt)
    moreover have "set (routes tbl) \<subseteq> set (routes (ro_routes st)) \<union> {e. re_interface e = ucast (mr 3)}"
      using conjunct2 [OF conjunct2 [OF c]] by (auto split: if_split_asm)
    ultimately have "router_ok cfg (st\<lparr>ro_routes := tbl\<rparr>)" using old by (intro routes) auto
    moreover have "if err = ROUTING_ERR_OKAY then routes tbl = routes (ro_routes st) @
        [\<lparr>re_ip = subnet_mask (ucast (mr 1)) AND ucast (mr 0), re_subnet = ucast (mr 1), re_interface = ucast (mr 3),
          re_next_hop = ucast (mr 2)\<rparr>] else st\<lparr>ro_routes := tbl\<rparr> = st"
      using conjunct2 [OF conjunct2 [OF c]] by (auto split: if_split_asm)
    moreover have "label \<noteq> ROUTER_SET_PING_RESPONSE" "\<not> rc_num_interfaces cfg \<le> (ucast (mr 3) :: u8)"
      using add by (simp_all add: ROUTER_ADD_ROUTE_def ROUTER_SET_PING_RESPONSE_def)
    ultimately show ?thesis using r conjunct1 [OF c] add(1) by (simp add: if_bool_eq_conj) blast
  next
    case bad
    then show ?thesis by (auto simp: router_protected_def Let_def not_less)
  next
    case del
    obtain err tbl where t: "fw_routing_table_remove_route (ro_routes st) (ucast (mr 0)) = (err, tbl)" by fastforce
    have r: "router_protected cfg label mr st = Some ([(0, of_nat (routing_err_code err))], 1, st\<lparr>ro_routes := tbl\<rparr>)"
      using t del by (simp add: router_protected_def ROUTER_ADD_ROUTE_def ROUTER_DEL_ROUTE_def)
    note c = remove_route_cases [OF assms(2) t]
    have "set (routes tbl) \<subseteq> set (routes (ro_routes st))"
      using c set_remove_nth [of "unat (ucast (mr 0) :: u16)" "routes (ro_routes st)"]
      by (cases "ucast (mr 0) \<ge> rtab_size (ro_routes st)") auto
    then have "router_ok cfg (st\<lparr>ro_routes := tbl\<rparr>)" using old by (intro routes) blast
    moreover have "if err = ROUTING_ERR_OKAY then routes tbl = remove_nth (unat (ucast (mr 0) :: u16)) (routes (ro_routes st))
        else st\<lparr>ro_routes := tbl\<rparr> = st"
      using conjunct2 [OF conjunct2 [OF c]] by (auto split: if_split_asm)
    moreover have "label \<noteq> ROUTER_SET_PING_RESPONSE" "label \<noteq> ROUTER_ADD_ROUTE"
      using del by (simp_all add: ROUTER_ADD_ROUTE_def ROUTER_DEL_ROUTE_def ROUTER_SET_PING_RESPONSE_def)
    ultimately show ?thesis using r conjunct1 [OF c] del by (simp add: if_bool_eq_conj) blast
  next
    case ping
    then show ?thesis
      using assms(2) by (auto simp: router_protected_def Let_def not_less ping_ok ROUTER_ADD_ROUTE_def ROUTER_DEL_ROUTE_def
          ROUTER_SET_PING_RESPONSE_def)
  next
    case other
    then show ?thesis using assms by (auto simp: router_protected_def)
  qed
qed

theorem router_requests_checked_witness:
  "router_protected ex_cfg ROUTER_ADD_ROUTE (\<lambda>_. 1) ex_router = None \<and>
   (\<exists>regs st'. router_protected ex_cfg ROUTER_DEL_ROUTE (\<lambda>_. 0) ex_router = Some (regs, 1, st') \<and> router_ok ex_cfg st')"
proof -
  have wf: "wf_routes (ro_routes ex_router)" by code_simp
  have n: "rc_num_interfaces ex_cfg \<le> (ucast (1 :: u64) :: u8)" by (simp add: ex_cfg_def)
  note checked = router_requests_checked [OF ex_router_ok wf]
  have bad: "router_protected ex_cfg ROUTER_ADD_ROUTE (\<lambda>_. 1) ex_router = None"
    using n by (intro iffD2 [OF conjunct1 [OF checked]]) simp
  obtain err tbl where t: "fw_routing_table_remove_route (ro_routes ex_router) 0 = (err, tbl)" by fastforce
  then have p: "router_protected ex_cfg ROUTER_DEL_ROUTE (\<lambda>_. 0) ex_router =
      Some ([(0, of_nat (routing_err_code err))], 1, ex_router\<lparr>ro_routes := tbl\<rparr>)"
    by (simp add: router_protected_def ROUTER_ADD_ROUTE_def ROUTER_DEL_ROUTE_def)
  have "router_ok ex_cfg (ex_router\<lparr>ro_routes := tbl\<rparr>)"
    using conjunct2 [OF checked, rule_format, OF p] by blast
  with bad p show ?thesis by blast
qed

end
