(* ===== verification/Loops.thy ===== *)
theory Loops
  imports Prelude
begin

text \<open>
  Loops that may not end, as partial functions in the option monad: \<open>None\<close> is a loop that never ends as well as
  one whose body fails. The rules prove that a loop ends, with an invariant and a measure, and what holds after it.
\<close>

text \<open>\<open>while (cond(s)) step(s);\<close> The loop is \<open>None\<close> when a step fails or when it does not end.\<close>

partial_function (option) while_opt :: "('s \<Rightarrow> bool) \<Rightarrow> ('s \<Rightarrow> 's option) \<Rightarrow> 's \<Rightarrow> 's option" where
  "while_opt cond step s = (if cond s then Option.bind (step s) (while_opt cond step) else Some s)"

declare while_opt.simps [code]

lemma while_opt_stop [simp]: "\<not> cond s \<Longrightarrow> while_opt cond step s = Some s"
  by (simp add: while_opt.simps)

lemma while_opt_step: "cond s \<Longrightarrow> while_opt cond step s = Option.bind (step s) (while_opt cond step)"
  by (simp add: while_opt.simps)

lemma while_opt_total:
  fixes m :: "'s \<Rightarrow> nat"
  assumes "I s"
    and step: "\<And>s. I s \<Longrightarrow> cond s \<Longrightarrow> \<exists>s'. step s = Some s' \<and> I s' \<and> m s' < m s"
  shows "\<exists>s'. while_opt cond step s = Some s' \<and> I s' \<and> \<not> cond s'"
  using assms(1)
proof (induction "m s" arbitrary: s rule: less_induct)
  case less
  show ?case
  proof (cases "cond s")
    case True
    from step [OF less.prems True] obtain s1 where "step s = Some s1" "I s1" "m s1 < m s" by blast
    with less.hyps [of s1] True show ?thesis by (simp add: while_opt_step)
  qed (use less.prems in simp)
qed

lemma while_opt_invariant:
  assumes "while_opt cond step s = Some s'" "I s"
    and "\<And>s s'. I s \<Longrightarrow> cond s \<Longrightarrow> step s = Some s' \<Longrightarrow> I s'"
  shows "I s' \<and> \<not> cond s'"
proof -
  let ?P = "\<lambda>cond step s y. I s \<longrightarrow> (\<forall>s s'. I s \<longrightarrow> cond s \<longrightarrow> step s = Some s' \<longrightarrow> I s') \<longrightarrow> I y \<and> \<not> cond y"
  have "?P cond step s s'"
  proof (rule while_opt.raw_induct [of ?P, OF _ assms(1)])
    fix f :: "('a \<Rightarrow> bool) \<Rightarrow> ('a \<Rightarrow> 'a option) \<Rightarrow> 'a \<Rightarrow> 'a option" and cond step s y
    assume IH: "\<And>cond step s y. f cond step s = Some y \<Longrightarrow> ?P cond step s y"
      and run: "(if cond s then step s \<bind> f cond step else Some s) = Some y"
    show "?P cond step s y"
    proof (intro impI)
      assume I: "I s" and pres: "\<forall>s s'. I s \<longrightarrow> cond s \<longrightarrow> step s = Some s' \<longrightarrow> I s'"
      show "I y \<and> \<not> cond y"
      proof (cases "cond s")
        case True
        with run obtain s1 where "step s = Some s1" "f cond step s1 = Some y"
          by (auto simp: bind_eq_Some_conv)
        with IH I pres True show ?thesis by blast
      qed (use run I in simp)
    qed
  qed
  with assms(2,3) show ?thesis by blast
qed

text \<open>The loop around a queue that is served until its flag for a signal is set and it is still empty:
  \<open>while (reprocess) { while (cond) step; request; reprocess = false; if (cond) { cancel; reprocess =
  true; } }\<close>.\<close>

partial_function (option) reprocess_loop ::
  "('s \<Rightarrow> bool) \<Rightarrow> ('s \<Rightarrow> 's option) \<Rightarrow> ('s \<Rightarrow> 's) \<Rightarrow> ('s \<Rightarrow> 's) \<Rightarrow> 's \<Rightarrow> 's option" where
  "reprocess_loop cond step request cancel s = do {
     s1 \<leftarrow> while_opt cond step s;
     let s2 = request s1 in
     if cond s2 then reprocess_loop cond step request cancel (cancel s2) else Some s2
   }"

declare reprocess_loop.simps [code]

text \<open>When nothing arrives between the last test and the request, the loop is one pass over the queue.\<close>

lemma reprocess_loop_total:
  fixes m :: "'s \<Rightarrow> nat"
  assumes "I s"
    and step: "\<And>s. I s \<Longrightarrow> cond s \<Longrightarrow> \<exists>s'. step s = Some s' \<and> I s' \<and> m s' < m s"
    and request: "\<And>s. I s \<Longrightarrow> I (request s) \<and> cond (request s) = cond s"
  shows "\<exists>s'. reprocess_loop cond step request cancel s = Some (request s') \<and>
    while_opt cond step s = Some s' \<and> I s' \<and> I (request s') \<and> \<not> cond s'"
proof -
  obtain s' where "while_opt cond step s = Some s'" "I s'" "\<not> cond s'"
    using while_opt_total [of I s cond step m] assms(1) step by blast
  with request [of s'] show ?thesis
    by (subst reprocess_loop.simps) (simp add: Let_def)
qed

end
