(* ===== verification/Fw_Net.thy ===== *)
theory Fw_Net
  imports Loops Fw_Packet Fw_Queue "HOL-Library.Multiset"
begin

text \<open>
  The network queues of sDDF (\<open>net_queue_handle_t\<close>), which connect the components of the firewall with
  the drivers and the virtualisers. Their code is not part of the repository: the operations are the
  record \<open>net_ops\<close>, an argument of every definition that uses them, and what the documentation promises of
  them is the predicate \<open>net_queue_laws\<close>, a hypothesis of the theorems that need it. A handle holds two
  bounded first-in first-out queues of buffer descriptors, of free and of active buffers, and a flag for
  each that asks the other side for a signal.

  The theory also holds the loops over the queues that all their users share.
\<close>

subsection \<open>Loops over numbers\<close>

text \<open>A loop over the numbers below \<open>n\<close>, with an invariant that knows how far it is.\<close>

lemma fold_body_upto:
  assumes "I 0 s" "\<And>k s. k < n \<Longrightarrow> I k s \<Longrightarrow> \<exists>s'. body k s = Some s' \<and> I (Suc k) s'"
  shows "\<exists>s'. fold_body body [0..<n] s = Some s' \<and> I n s'"
  using assms(2)
proof (induction n)
  case (Suc n)
  have "\<exists>s'. fold_body body [0..<n] s = Some s' \<and> I n s'" by (rule Suc.IH) (use Suc.prems in simp)
  then obtain s1 where s1: "fold_body body [0..<n] s = Some s1" "I n s1" by blast
  with Suc.prems [of n s1] show ?case by (auto simp: fold_body_append)
qed (use assms(1) in simp)

subsection \<open>Queues\<close>

record 'q net_ops =
  net_queue_empty_free :: "'q \<Rightarrow> bool"
  net_queue_empty_active :: "'q \<Rightarrow> bool"
  net_enqueue_free :: "'q \<Rightarrow> net_buff_desc \<Rightarrow> int \<times> 'q"
  net_enqueue_active :: "'q \<Rightarrow> net_buff_desc \<Rightarrow> int \<times> 'q"
  net_dequeue_free :: "'q \<Rightarrow> int \<times> net_buff_desc option \<times> 'q"
  net_dequeue_active :: "'q \<Rightarrow> int \<times> net_buff_desc option \<times> 'q"
  net_request_signal_free :: "'q \<Rightarrow> 'q"
  net_request_signal_active :: "'q \<Rightarrow> 'q"
  net_cancel_signal_free :: "'q \<Rightarrow> 'q"
  net_cancel_signal_active :: "'q \<Rightarrow> 'q"
  net_require_signal_free :: "'q \<Rightarrow> bool"
  net_require_signal_active :: "'q \<Rightarrow> bool"

text \<open>What a handle holds.\<close>

record 'q net_view =
  nv_ok :: "'q \<Rightarrow> bool"
  nv_free :: "'q \<Rightarrow> net_buff_desc list"
  nv_active :: "'q \<Rightarrow> net_buff_desc list"
  nv_room :: "'q \<Rightarrow> nat"

definition same_view :: "'q net_view \<Rightarrow> 'q \<Rightarrow> 'q \<Rightarrow> bool" where
  "same_view V q q' \<longleftrightarrow> nv_ok V q' \<and> nv_free V q' = nv_free V q \<and> nv_active V q' = nv_active V q \<and>
     nv_room V q' = nv_room V q"

definition net_queue_laws :: "'q net_ops \<Rightarrow> 'q net_view \<Rightarrow> bool" where
  "net_queue_laws N V \<longleftrightarrow>
     bounded_fifo (nv_ok V) (nv_free V) (nv_room V) (net_queue_empty_free N) (net_enqueue_free N) (net_dequeue_free N) \<and>
     bounded_fifo (nv_ok V) (nv_active V) (nv_room V) (net_queue_empty_active N) (net_enqueue_active N)
       (net_dequeue_active N) \<and>
     (\<forall>q b. nv_ok V q \<longrightarrow> nv_active V (snd (net_enqueue_free N q b)) = nv_active V q \<and>
        nv_active V (snd (snd (net_dequeue_free N q))) = nv_active V q \<and>
        nv_free V (snd (net_enqueue_active N q b)) = nv_free V q \<and>
        nv_free V (snd (snd (net_dequeue_active N q))) = nv_free V q \<and>
        same_view V q (net_request_signal_free N q) \<and> same_view V q (net_request_signal_active N q) \<and>
        same_view V q (net_cancel_signal_free N q) \<and> same_view V q (net_cancel_signal_active N q))"

text \<open>Serving the active or the free queue of the handle \<open>get s\<close> in the state \<open>s\<close> of a component.\<close>

definition serve_active :: "'q net_ops \<Rightarrow> ('s \<Rightarrow> 'q) \<Rightarrow> ('q \<Rightarrow> 's \<Rightarrow> 's) \<Rightarrow> ('s \<Rightarrow> 's option) \<Rightarrow> 's \<Rightarrow> 's option" where
  "serve_active N get put step =
     reprocess_loop (\<lambda>s. \<not> net_queue_empty_active N (get s)) step
       (\<lambda>s. put (net_request_signal_active N (get s)) s) (\<lambda>s. put (net_cancel_signal_active N (get s)) s)"

definition serve_free :: "'q net_ops \<Rightarrow> ('s \<Rightarrow> 'q) \<Rightarrow> ('q \<Rightarrow> 's \<Rightarrow> 's) \<Rightarrow> ('s \<Rightarrow> 's option) \<Rightarrow> 's \<Rightarrow> 's option" where
  "serve_free N get put step =
     reprocess_loop (\<lambda>s. \<not> net_queue_empty_free N (get s)) step
       (\<lambda>s. put (net_request_signal_free N (get s)) s) (\<lambda>s. put (net_cancel_signal_free N (get s)) s)"

text \<open>The pattern \<open>int err = dequeue(&q, &e); assert(!err);\<close> and that of an enqueue.\<close>

definition taken :: "int \<times> 'e option \<times> 'q \<Rightarrow> ('e \<times> 'q) option" where
  "taken r = (case r of (err, e, q) \<Rightarrow> if err = 0 then map_option (\<lambda>e. (e, q)) e else None)"

definition stored :: "int \<times> 'q \<Rightarrow> 'q option" where
  "stored r = (case r of (err, q) \<Rightarrow> if err = 0 then Some q else None)"

lemma taken_ok [simp]: "taken (0, Some e, q) = Some (e, q)" by (simp add: taken_def)

lemma stored_ok [simp]: "stored (0, q) = Some q" by (simp add: stored_def)

lemma fw_taken:
  assumes "wf_fw_queue q" "\<not> fw_queue_empty q"
  shows "\<exists>e q'. taken (fw_dequeue q) = Some (e, q') \<and> wf_fw_queue q' \<and> fq_contents q = e # fq_contents q' \<and>
    fq_room q' = fq_room q"
proof -
  obtain e es where "fq_contents q = e # es" using assms fwq.emp_iff [of q] by (cases "fq_contents q") auto
  with fwq.deq_ok [OF assms(1) this] show ?thesis by auto
qed

lemma fw_stored:
  assumes "wf_fw_queue q" "length (fq_contents q) < fq_room q"
  shows "\<exists>q'. stored (fw_enqueue q e) = Some q' \<and> wf_fw_queue q' \<and> fq_contents q' = fq_contents q @ [e] \<and>
    fq_room q' = fq_room q"
  using fwq.enq_ok [OF assms, of e] by auto

subsection \<open>The laws as rules\<close>

lemma net_laws_fifo:
  assumes "net_queue_laws N V"
  shows "bounded_fifo (nv_ok V) (nv_free V) (nv_room V) (net_queue_empty_free N) (net_enqueue_free N) (net_dequeue_free N)"
    "bounded_fifo (nv_ok V) (nv_active V) (nv_room V) (net_queue_empty_active N) (net_enqueue_active N) (net_dequeue_active N)"
  using assms by (simp_all add: net_queue_laws_def)

lemma net_signals:
  assumes "net_queue_laws N V" "nv_ok V q"
  shows "same_view V q (net_request_signal_free N q)" "same_view V q (net_request_signal_active N q)"
    "same_view V q (net_cancel_signal_free N q)" "same_view V q (net_cancel_signal_active N q)"
  using assms by (simp_all add: net_queue_laws_def)

lemma net_empty:
  assumes "net_queue_laws N V" "nv_ok V q"
  shows "net_queue_empty_free N q \<longleftrightarrow> nv_free V q = []" "net_queue_empty_active N q \<longleftrightarrow> nv_active V q = []"
  using bounded_fifo.emp_iff [OF net_laws_fifo(1) [OF assms(1)] assms(2)]
    bounded_fifo.emp_iff [OF net_laws_fifo(2) [OF assms(1)] assms(2)] by simp_all

lemma net_room:
  assumes "net_queue_laws N V" "nv_ok V q"
  shows "length (nv_free V q) \<le> nv_room V q" "length (nv_active V q) \<le> nv_room V q"
  using bounded_fifo.within_room [OF net_laws_fifo(1) [OF assms(1)] assms(2)]
    bounded_fifo.within_room [OF net_laws_fifo(2) [OF assms(1)] assms(2)] by simp_all

lemma net_take_free:
  assumes laws: "net_queue_laws N V" and ok: "nv_ok V q" and ne: "\<not> net_queue_empty_free N q"
  shows "\<exists>b q'. taken (net_dequeue_free N q) = Some (b, q') \<and> nv_ok V q' \<and> nv_free V q = b # nv_free V q' \<and>
    nv_active V q' = nv_active V q \<and> nv_room V q' = nv_room V q"
proof -
  obtain b bs where b: "nv_free V q = b # bs" using net_empty [OF laws ok] ne by (cases "nv_free V q") auto
  have "nv_active V (snd (snd (net_dequeue_free N q))) = nv_active V q" using laws ok by (simp add: net_queue_laws_def)
  with bounded_fifo.deq_ok [OF net_laws_fifo(1) [OF laws] ok b] b show ?thesis by auto
qed

lemma net_take_active:
  assumes laws: "net_queue_laws N V" and ok: "nv_ok V q" and ne: "\<not> net_queue_empty_active N q"
  shows "\<exists>b q'. taken (net_dequeue_active N q) = Some (b, q') \<and> nv_ok V q' \<and> nv_active V q = b # nv_active V q' \<and>
    nv_free V q' = nv_free V q \<and> nv_room V q' = nv_room V q"
proof -
  obtain b bs where b: "nv_active V q = b # bs" using net_empty [OF laws ok] ne by (cases "nv_active V q") auto
  have "nv_free V (snd (snd (net_dequeue_active N q))) = nv_free V q" using laws ok by (simp add: net_queue_laws_def)
  with bounded_fifo.deq_ok [OF net_laws_fifo(2) [OF laws] ok b] b show ?thesis by auto
qed

lemma net_put_free:
  assumes laws: "net_queue_laws N V" and ok: "nv_ok V q" and lt: "length (nv_free V q) < nv_room V q"
  shows "\<exists>q'. stored (net_enqueue_free N q b) = Some q' \<and> nv_ok V q' \<and> nv_free V q' = nv_free V q @ [b] \<and>
    nv_active V q' = nv_active V q \<and> nv_room V q' = nv_room V q"
proof -
  have "nv_active V (snd (net_enqueue_free N q b)) = nv_active V q" using laws ok by (simp add: net_queue_laws_def)
  with bounded_fifo.enq_ok [OF net_laws_fifo(1) [OF laws] ok lt, of b] show ?thesis by auto
qed

lemma net_put_active:
  assumes laws: "net_queue_laws N V" and ok: "nv_ok V q" and lt: "length (nv_active V q) < nv_room V q"
  shows "\<exists>q'. stored (net_enqueue_active N q b) = Some q' \<and> nv_ok V q' \<and> nv_active V q' = nv_active V q @ [b] \<and>
    nv_free V q' = nv_free V q \<and> nv_room V q' = nv_room V q"
proof -
  have "nv_free V (snd (net_enqueue_active N q b)) = nv_free V q" using laws ok by (simp add: net_queue_laws_def)
  with bounded_fifo.enq_ok [OF net_laws_fifo(2) [OF laws] ok lt, of b] show ?thesis by auto
qed

text \<open>A handle is served until its queue is empty, when every step takes a buffer from it.\<close>

lemma serve_active_total:
  assumes laws: "net_queue_laws N V" and "I s"
    and ok: "\<And>s. I s \<Longrightarrow> nv_ok V (get s)" and get: "\<And>q s. I s \<Longrightarrow> get (put q s) = q"
    and put: "\<And>q s. I s \<Longrightarrow> same_view V (get s) q \<Longrightarrow> I (put q s)"
    and step: "\<And>s. I s \<Longrightarrow> \<not> net_queue_empty_active N (get s) \<Longrightarrow>
      \<exists>s'. step s = Some s' \<and> I s' \<and> length (nv_active V (get s')) < length (nv_active V (get s))"
  shows "\<exists>s'. serve_active N get put step s = Some s' \<and> I s' \<and> nv_active V (get s') = []"
proof -
  let ?req = "\<lambda>s. put (net_request_signal_active N (get s)) s"
  have view: "same_view V (get s) (net_request_signal_active N (get s))" if "I s" for s
    by (rule net_signals(2) [OF laws ok [OF that]])
  have "I (?req s) \<and> (\<not> net_queue_empty_active N (get (?req s))) = (\<not> net_queue_empty_active N (get s))" if "I s" for s
    using that view [OF that] put [OF that view [OF that]] net_empty(2) [OF laws ok [OF that]]
      net_empty(2) [OF laws ok [OF put [OF that view [OF that]]]]
    by (simp add: get [OF that] same_view_def)
  then obtain s' where s': "serve_active N get put step s = Some (?req s')" "I s'" "I (?req s')"
    "\<not> \<not> net_queue_empty_active N (get s')"
    using reprocess_loop_total [of I s "\<lambda>s. \<not> net_queue_empty_active N (get s)" step "\<lambda>s. length (nv_active V (get s))" ?req
        "\<lambda>s. put (net_cancel_signal_active N (get s)) s", OF assms(2) step]
    unfolding serve_active_def by blast
  have "nv_active V (get (?req s')) = []"
    using net_empty(2) [OF laws ok [OF s'(2)]] s'(4) view [OF s'(2)] by (simp add: get [OF s'(2)] same_view_def)
  with s' show ?thesis by blast
qed

lemma serve_free_total:
  assumes laws: "net_queue_laws N V" and "I s"
    and ok: "\<And>s. I s \<Longrightarrow> nv_ok V (get s)" and get: "\<And>q s. I s \<Longrightarrow> get (put q s) = q"
    and put: "\<And>q s. I s \<Longrightarrow> same_view V (get s) q \<Longrightarrow> I (put q s)"
    and step: "\<And>s. I s \<Longrightarrow> \<not> net_queue_empty_free N (get s) \<Longrightarrow>
      \<exists>s'. step s = Some s' \<and> I s' \<and> length (nv_free V (get s')) < length (nv_free V (get s))"
  shows "\<exists>s'. serve_free N get put step s = Some s' \<and> I s' \<and> nv_free V (get s') = []"
proof -
  let ?req = "\<lambda>s. put (net_request_signal_free N (get s)) s"
  have view: "same_view V (get s) (net_request_signal_free N (get s))" if "I s" for s
    by (rule net_signals(1) [OF laws ok [OF that]])
  have "I (?req s) \<and> (\<not> net_queue_empty_free N (get (?req s))) = (\<not> net_queue_empty_free N (get s))" if "I s" for s
    using that view [OF that] put [OF that view [OF that]] net_empty(1) [OF laws ok [OF that]]
      net_empty(1) [OF laws ok [OF put [OF that view [OF that]]]]
    by (simp add: get [OF that] same_view_def)
  then obtain s' where s': "serve_free N get put step s = Some (?req s')" "I s'" "I (?req s')"
    "\<not> \<not> net_queue_empty_free N (get s')"
    using reprocess_loop_total [of I s "\<lambda>s. \<not> net_queue_empty_free N (get s)" step "\<lambda>s. length (nv_free V (get s))" ?req
        "\<lambda>s. put (net_cancel_signal_free N (get s)) s", OF assms(2) step]
    unfolding serve_free_def by blast
  have "nv_free V (get (?req s')) = []"
    using net_empty(1) [OF laws ok [OF s'(2)]] s'(4) view [OF s'(2)] by (simp add: get [OF s'(2)] same_view_def)
  with s' show ?thesis by blast
qed

text \<open>What every step keeps is kept by serving a queue, provided the signals keep it.\<close>

lemma reprocess_loop_invariant:
  assumes "reprocess_loop cond step request cancel s = Some s'" "I s"
    and "\<And>s s'. I s \<Longrightarrow> step s = Some s' \<Longrightarrow> I s'" "\<And>s. I s \<Longrightarrow> I (request s)" "\<And>s. I s \<Longrightarrow> I (cancel s)"
  shows "I s'"
proof -
  let ?P = "\<lambda>cond step request cancel s y. I s \<longrightarrow> (\<forall>s s'. I s \<longrightarrow> step s = Some s' \<longrightarrow> I s') \<longrightarrow>
      (\<forall>s. I s \<longrightarrow> I (request s) \<and> I (cancel s)) \<longrightarrow> I y"
  have "?P cond step request cancel s s'"
  proof (rule reprocess_loop.raw_induct [of ?P, OF _ assms(1)])
    fix f :: "('a \<Rightarrow> bool) \<Rightarrow> ('a \<Rightarrow> 'a option) \<Rightarrow> ('a \<Rightarrow> 'a) \<Rightarrow> ('a \<Rightarrow> 'a) \<Rightarrow> 'a \<Rightarrow> 'a option"
      and cond step request cancel s y
    assume IH: "\<And>cond step request cancel s y. f cond step request cancel s = Some y \<Longrightarrow> ?P cond step request cancel s y"
      and run: "(do { s1 \<leftarrow> while_opt cond step s; let s2 = request s1 in
          if cond s2 then f cond step request cancel (cancel s2) else Some s2 }) = Some y"
    show "?P cond step request cancel s y"
    proof (intro impI)
      assume I: "I s" and st: "\<forall>s s'. I s \<longrightarrow> step s = Some s' \<longrightarrow> I s'" and sig: "\<forall>s. I s \<longrightarrow> I (request s) \<and> I (cancel s)"
      from run obtain s1 where s1: "while_opt cond step s = Some s1" by (auto simp: bind_eq_Some_conv)
      with while_opt_invariant [OF s1, of I] I st have I1: "I (request s1)" "I (cancel (request s1))" using sig by blast+
      show "I y"
      proof (cases "cond (request s1)")
        case True
        with run s1 have "f cond step request cancel (cancel (request s1)) = Some y" by simp
        with IH I1 st sig show ?thesis by blast
      qed (use run s1 I1 in simp)
    qed
  qed
  with assms(2-5) show ?thesis by blast
qed

subsection \<open>Moving a buffer within a queue\<close>

text \<open>A queue whose free and active buffers together fit into one of its halves, and its buffers.\<close>

definition net_fits :: "'q net_view \<Rightarrow> 'q \<Rightarrow> bool" where
  "net_fits V q \<longleftrightarrow> nv_ok V q \<and> length (nv_free V q) + length (nv_active V q) \<le> nv_room V q"

definition net_buffers :: "'q net_view \<Rightarrow> 'q \<Rightarrow> u64 multiset" where
  "net_buffers V q = mset (map io_or_offset (nv_free V q)) + mset (map io_or_offset (nv_active V q))"

definition net_kept :: "'q net_view \<Rightarrow> 'q \<Rightarrow> 'q \<Rightarrow> bool" where
  "net_kept V q q' \<longleftrightarrow> net_fits V q' \<and> net_buffers V q' = net_buffers V q"

lemma net_kept_refl: "net_fits V q \<Longrightarrow> net_kept V q q" by (simp add: net_kept_def)

lemma net_kept_trans: "net_kept V q q' \<Longrightarrow> net_kept V q' q'' \<Longrightarrow> net_kept V q q''" by (simp add: net_kept_def)

lemma net_kept_view: "net_fits V q \<Longrightarrow> same_view V q q' \<Longrightarrow> net_kept V q q'"
  by (simp add: net_kept_def net_fits_def same_view_def net_buffers_def)

lemma net_fits_view: "net_fits V q \<Longrightarrow> same_view V q q' \<Longrightarrow> net_fits V q'"
  by (simp add: net_fits_def same_view_def)

lemma net_free_to_active:
  assumes laws: "net_queue_laws N V" and fits: "net_fits V q" and ne: "\<not> net_queue_empty_free N q"
  shows "\<exists>b q1. taken (net_dequeue_free N q) = Some (b, q1) \<and> b \<in> set (nv_free V q) \<and>
    (\<forall>l. \<exists>q2. stored (net_enqueue_active N q1 (b\<lparr>nb_len := l\<rparr>)) = Some q2 \<and> net_kept V q q2 \<and>
       nv_active V q2 = nv_active V q @ [b\<lparr>nb_len := l\<rparr>] \<and> nv_free V q = b # nv_free V q2)"
proof -
  have ok: "nv_ok V q" using fits by (simp add: net_fits_def)
  from net_take_free [OF laws ok ne] obtain b q1 where q1: "taken (net_dequeue_free N q) = Some (b, q1)" "nv_ok V q1"
    "nv_free V q = b # nv_free V q1" "nv_active V q1 = nv_active V q" "nv_room V q1 = nv_room V q" by blast
  have "length (nv_active V q1) < nv_room V q1" using fits q1 by (simp add: net_fits_def)
  have "\<exists>q2. stored (net_enqueue_active N q1 (b\<lparr>nb_len := l\<rparr>)) = Some q2 \<and> net_kept V q q2 \<and>
      nv_active V q2 = nv_active V q @ [b\<lparr>nb_len := l\<rparr>] \<and> nv_free V q = b # nv_free V q2" for l
  proof -
    from net_put_active [OF laws q1(2) \<open>length (nv_active V q1) < nv_room V q1\<close>] obtain q2 where
      q2: "stored (net_enqueue_active N q1 (b\<lparr>nb_len := l\<rparr>)) = Some q2" "nv_ok V q2"
        "nv_active V q2 = nv_active V q1 @ [b\<lparr>nb_len := l\<rparr>]" "nv_free V q2 = nv_free V q1"
        "nv_room V q2 = nv_room V q1" by blast
    have "net_kept V q q2" using q1 q2 fits by (simp add: net_kept_def net_fits_def net_buffers_def)
    with q1 q2 show ?thesis by simp
  qed
  moreover have "b \<in> set (nv_free V q)" using q1(3) by simp
  ultimately show ?thesis using q1(1) by blast
qed

lemma net_active_to_free:
  assumes laws: "net_queue_laws N V" and fits: "net_fits V q" and ne: "\<not> net_queue_empty_active N q"
  shows "\<exists>b q1 q2. taken (net_dequeue_active N q) = Some (b, q1) \<and> stored (net_enqueue_free N q1 b) = Some q2 \<and>
    net_fits V q1 \<and> net_kept V q q2 \<and> nv_active V q = b # nv_active V q2 \<and> nv_free V q2 = nv_free V q @ [b]"
proof -
  have ok: "nv_ok V q" using fits by (simp add: net_fits_def)
  from net_take_active [OF laws ok ne] obtain b q1 where q1: "taken (net_dequeue_active N q) = Some (b, q1)" "nv_ok V q1"
    "nv_active V q = b # nv_active V q1" "nv_free V q1 = nv_free V q" "nv_room V q1 = nv_room V q" by blast
  have "length (nv_free V q1) < nv_room V q1" using fits q1 by (simp add: net_fits_def)
  from net_put_free [OF laws q1(2) this, of b] obtain q2 where q2: "stored (net_enqueue_free N q1 b) = Some q2"
    "nv_ok V q2" "nv_free V q2 = nv_free V q1 @ [b]" "nv_active V q2 = nv_active V q1" "nv_room V q2 = nv_room V q1" by blast
  have "net_kept V q q2" using q1 q2 fits by (simp add: net_kept_def net_fits_def net_buffers_def)
  moreover have "net_fits V q1" using q1 fits by (simp add: net_fits_def)
  ultimately show ?thesis using q1 q2 by auto
qed

subsection \<open>A queue that satisfies the laws\<close>

text \<open>The witnesses of the theorems use two lists with a bound and the two flags.\<close>

record list_net =
  ln_free :: "net_buff_desc list"
  ln_active :: "net_buff_desc list"
  ln_room :: nat
  ln_want_free :: bool
  ln_want_active :: bool

definition list_net_ops :: "list_net net_ops" where
  "list_net_ops = \<lparr>
     net_queue_empty_free = (\<lambda>q. ln_free q = []),
     net_queue_empty_active = (\<lambda>q. ln_active q = []),
     net_enqueue_free = (\<lambda>q b. if length (ln_free q) < ln_room q then (0, q\<lparr>ln_free := ln_free q @ [b]\<rparr>) else (-1, q)),
     net_enqueue_active = (\<lambda>q b. if length (ln_active q) < ln_room q then (0, q\<lparr>ln_active := ln_active q @ [b]\<rparr>) else (-1, q)),
     net_dequeue_free = (\<lambda>q. case ln_free q of [] \<Rightarrow> (-1, None, q) | b # bs \<Rightarrow> (0, Some b, q\<lparr>ln_free := bs\<rparr>)),
     net_dequeue_active = (\<lambda>q. case ln_active q of [] \<Rightarrow> (-1, None, q) | b # bs \<Rightarrow> (0, Some b, q\<lparr>ln_active := bs\<rparr>)),
     net_request_signal_free = ln_want_free_update (\<lambda>_. True),
     net_request_signal_active = ln_want_active_update (\<lambda>_. True),
     net_cancel_signal_free = ln_want_free_update (\<lambda>_. False),
     net_cancel_signal_active = ln_want_active_update (\<lambda>_. False),
     net_require_signal_free = ln_want_free,
     net_require_signal_active = ln_want_active\<rparr>"

definition list_net_view :: "list_net net_view" where
  "list_net_view = \<lparr>nv_ok = (\<lambda>q. length (ln_free q) \<le> ln_room q \<and> length (ln_active q) \<le> ln_room q),
     nv_free = ln_free, nv_active = ln_active, nv_room = ln_room\<rparr>"

interpretation list_net_free: bounded_fifo "nv_ok list_net_view" "nv_free list_net_view" "nv_room list_net_view"
    "net_queue_empty_free list_net_ops" "net_enqueue_free list_net_ops" "net_dequeue_free list_net_ops"
  by unfold_locales (auto simp: list_net_view_def list_net_ops_def)

interpretation list_net_active: bounded_fifo "nv_ok list_net_view" "nv_active list_net_view" "nv_room list_net_view"
    "net_queue_empty_active list_net_ops" "net_enqueue_active list_net_ops" "net_dequeue_active list_net_ops"
  by unfold_locales (auto simp: list_net_view_def list_net_ops_def)

lemma list_net_laws: "net_queue_laws list_net_ops list_net_view"
proof -
  have "nv_active list_net_view (snd (snd (net_dequeue_free list_net_ops q))) = nv_active list_net_view q"
    "nv_free list_net_view (snd (snd (net_dequeue_active list_net_ops q))) = nv_free list_net_view q" for q
    by (simp_all add: list_net_view_def list_net_ops_def split: list.split)
  moreover have "nv_active list_net_view (snd (net_enqueue_free list_net_ops q b)) = nv_active list_net_view q"
    "nv_free list_net_view (snd (net_enqueue_active list_net_ops q b)) = nv_free list_net_view q" for q b
    by (simp_all add: list_net_view_def list_net_ops_def)
  moreover have "same_view list_net_view q (net_request_signal_free list_net_ops q)"
    "same_view list_net_view q (net_request_signal_active list_net_ops q)"
    "same_view list_net_view q (net_cancel_signal_free list_net_ops q)"
    "same_view list_net_view q (net_cancel_signal_active list_net_ops q)" if "nv_ok list_net_view q" for q
    using that by (simp_all add: same_view_def list_net_view_def list_net_ops_def)
  ultimately show ?thesis
    using list_net_free.bounded_fifo_axioms list_net_active.bounded_fifo_axioms by (simp add: net_queue_laws_def)
qed

end
