(* ===== verification/Fw_Arp_Requester.thy ===== *)
theory Fw_Arp_Requester
  imports Fw_Net Fw_Arp
begin

text \<open>
  \<open>examples/firewall/arp/arp_requester.c\<close>: the component that resolves addresses for the router and the
  webserver. It sends ARP requests out of its interface, keeps the cache that the router reads, and
  answers its clients when a reply arrives or when a host does not answer. The static variables are the
  record \<open>arp_requester\<close>; \<open>ar_out\<close> collects the signals and timeouts that are asked for. An operation is
  \<open>None\<close> when an assertion fails or a loop does not end.
\<close>

subsection \<open>Configuration and state\<close>

definition ARP_MAX_RETRIES :: u8 where "ARP_MAX_RETRIES = 5"
definition NS_IN_S :: nat where "NS_IN_S = 1000000000"
definition ARP_RETRY_TIMER_S :: nat where "ARP_RETRY_TIMER_S = 1"
definition ARP_RETRY_TIMER_NS :: nat where "ARP_RETRY_TIMER_NS = ARP_RETRY_TIMER_S * NS_IN_S"
definition ARP_CACHE_LIFE_M :: nat where "ARP_CACHE_LIFE_M = 5"
definition ARP_CACHE_LIFE_NS :: nat where "ARP_CACHE_LIFE_NS = (ARP_CACHE_LIFE_M * 60) * NS_IN_S"
definition ARP_TICKS_PER_FLUSH :: nat where "ARP_TICKS_PER_FLUSH = ARP_CACHE_LIFE_NS div ARP_RETRY_TIMER_NS"

record fw_arp_requester_config =
  rqc_mac_addr :: mac
  rqc_ip :: u32
  rqc_client_ch :: "u8 list"
  rqc_num_arp_clients :: u8
  rqc_rx_id :: u8
  rqc_tx_id :: u8
  rqc_timer_id :: u8

datatype signal = Notify u8 | Deferred_notify u8 | Set_timeout u8 nat

record 'q arp_requester =
  ar_rx :: 'q
  ar_tx :: 'q
  ar_rx_data :: memory
  ar_tx_data :: memory
  ar_req :: "fw_arp_request fw_queue list"
  ar_resp :: "fw_arp_request fw_queue list"
  ar_table :: fw_arp_table
  ar_transmitted :: bool
  ar_notify_client :: "bool list"
  ar_ticks :: u64
  ar_out :: "signal list"

definition num_arp_clients :: "fw_arp_requester_config \<Rightarrow> nat" where
  "num_arp_clients cfg = unat (rqc_num_arp_clients cfg)"

definition has_client :: "nat \<Rightarrow> u8 \<Rightarrow> bool" where
  "has_client c clients \<longleftrightarrow> client_bit c AND clients \<noteq> 0"

subsection \<open>Requests\<close>

text \<open>The packet; the padding keeps what was in the buffer.\<close>

definition generate_arp :: "fw_arp_requester_config \<Rightarrow> net_buff_desc \<Rightarrow> u32 \<Rightarrow> memory \<Rightarrow> net_buff_desc \<times> memory" where
  "generate_arp cfg buffer ip m =
     (let pkt = unat (io_or_offset buffer);
          mac = take ETH_HWADDR_LEN (rqc_mac_addr cfg);
          m1 = write_eth m pkt \<lparr>ethdst_addr = replicate ETH_HWADDR_LEN 0xFF, ethsrc_addr = mac,
                 ethtype = htons ETH_TYPE_ARP\<rparr>;
          m2 = write_arp m1 pkt \<lparr>hwtype = htons ARP_HWTYPE_ETH, arp_protocol = htons ETH_TYPE_IP,
                 hwlen = of_nat ETH_HWADDR_LEN, protolen = ARP_PROTO_LEN_IPV4,
                 opcode = htons ARP_ETH_OPCODE_REQUEST, hwsrc_addr = mac, ipsrc_addr = rqc_ip cfg,
                 hwdst_addr = replicate ETH_HWADDR_LEN 0, ipdst_addr = ip,
                 padding = padding (read_arp m1 pkt)\<rparr>
      in (buffer\<lparr>nb_len := of_nat ARP_PKT_LEN\<rparr>, m2))"

text \<open>An ARP request goes out in a free transmit buffer.\<close>

definition send_arp :: "'q net_ops \<Rightarrow> fw_arp_requester_config \<Rightarrow> u32 \<Rightarrow> 'q arp_requester \<Rightarrow> 'q arp_requester option" where
  "send_arp N cfg ip s = do {
     (buffer, tx) \<leftarrow> taken (net_dequeue_free N (ar_tx s));
     let (buffer', m) = generate_arp cfg buffer ip (ar_tx_data s);
     tx' \<leftarrow> stored (net_enqueue_active N tx buffer');
     Some (s\<lparr>ar_tx := tx', ar_tx_data := m\<rparr>)
   }"

text \<open>A response to a client; it is lost when the client's queue is full.\<close>

definition respond :: "nat \<Rightarrow> fw_arp_entry \<Rightarrow> 'q arp_requester \<Rightarrow> 'q arp_requester" where
  "respond client entry s = s\<lparr>
     ar_resp := (ar_resp s)[client := snd (fw_enqueue (ar_resp s ! client) (fw_arp_response_from_entry (Some entry)))],
     ar_notify_client := (ar_notify_client s)[client := True]\<rparr>"

definition set_entry :: "nat \<Rightarrow> fw_arp_entry \<Rightarrow> 'q arp_requester \<Rightarrow> 'q arp_requester" where
  "set_entry i e s = s\<lparr>ar_table := (ar_table s)\<lparr>at_entries := (at_entries (ar_table s))[i := e]\<rparr>\<rparr>"

definition process_request :: "'q net_ops \<Rightarrow> fw_arp_requester_config \<Rightarrow> nat \<Rightarrow> fw_arp_request \<Rightarrow> 'q arp_requester
    \<Rightarrow> 'q arp_requester option" where
  "process_request N cfg client request s =
     (let tbl = ar_table s
      in case fw_arp_table_find_entry tbl (aq_ip request) of
           Some i \<Rightarrow>
             (let entry = at_entries tbl ! i
              in if ae_state entry \<noteq> ARP_STATE_PENDING then Some (respond client entry s)
                 else Some (set_entry i (entry\<lparr>ae_client := ae_client entry OR client_bit client\<rparr>) s))
         | None \<Rightarrow> do {
             s1 \<leftarrow> send_arp N cfg (aq_ip request) s;
             let (arp_err, tbl') = fw_arp_table_add_entry tbl ARP_STATE_PENDING (aq_ip request) None client;
             Some (s1\<lparr>ar_table := tbl', ar_transmitted := True\<rparr>)
           })"

definition request_step :: "'q net_ops \<Rightarrow> fw_arp_requester_config \<Rightarrow> nat \<Rightarrow> 'q arp_requester \<Rightarrow> 'q arp_requester option" where
  "request_step N cfg client s = do {
     (request, q) \<leftarrow> taken (fw_dequeue (ar_req s ! client));
     process_request N cfg client request (s\<lparr>ar_req := (ar_req s)[client := q]\<rparr>)
   }"

definition process_requests :: "'q net_ops \<Rightarrow> fw_arp_requester_config \<Rightarrow> 'q arp_requester \<Rightarrow> 'q arp_requester option" where
  "process_requests N cfg =
     fold_body (\<lambda>client. while_opt
         (\<lambda>s. \<not> fw_queue_empty (ar_req s ! client) \<and> \<not> net_queue_empty_free N (ar_tx s))
         (request_step N cfg client))
       [0..<num_arp_clients cfg]"

subsection \<open>Replies from the network\<close>

definition respond_all :: "fw_arp_requester_config \<Rightarrow> fw_arp_entry \<Rightarrow> 'q arp_requester \<Rightarrow> 'q arp_requester" where
  "respond_all cfg entry =
     fold (\<lambda>client s. if has_client client (ae_client entry) then respond client entry s else s)
       [0..<num_arp_clients cfg]"

definition process_reply :: "fw_arp_requester_config \<Rightarrow> arp_pkt \<Rightarrow> 'q arp_requester \<Rightarrow> 'q arp_requester" where
  "process_reply cfg arp s =
     (let tbl = ar_table s
      in case fw_arp_table_find_entry tbl (ipsrc_addr arp) of
           Some i \<Rightarrow>
             (let entry = (at_entries tbl ! i)\<lparr>ae_state := ARP_STATE_REACHABLE,
                             ae_mac_addr := take ETH_HWADDR_LEN (hwsrc_addr arp)\<rparr>
              in respond_all cfg entry (set_entry i entry s))
         | None \<Rightarrow>
             s\<lparr>ar_table := snd (fw_arp_table_add_entry tbl ARP_STATE_REACHABLE (ipsrc_addr arp)
                 (Some (take ETH_HWADDR_LEN (hwsrc_addr arp))) 0)\<rparr>)"

definition response_step :: "'q net_ops \<Rightarrow> fw_arp_requester_config \<Rightarrow> 'q arp_requester \<times> bool
    \<Rightarrow> ('q arp_requester \<times> bool) option" where
  "response_step N cfg = (\<lambda>(s, returned). do {
     (buffer, rx) \<leftarrow> taken (net_dequeue_active N (ar_rx s));
     let pkt = unat (io_or_offset buffer);
     let arp = read_arp (ar_rx_data s) pkt;
     let s1 = s\<lparr>ar_rx := rx\<rparr>;
     let s2 = (if ethtype (read_eth (ar_rx_data s) pkt) = htons ETH_TYPE_ARP \<and>
                  opcode arp = htons ARP_ETH_OPCODE_REPLY
               then process_reply cfg arp s1 else s1);
     rx' \<leftarrow> stored (net_enqueue_free N (ar_rx s2) buffer);
     Some (s2\<lparr>ar_rx := rx'\<rparr>, True)
   })"

definition process_responses :: "'q net_ops \<Rightarrow> fw_arp_requester_config \<Rightarrow> 'q arp_requester \<Rightarrow> 'q arp_requester option" where
  "process_responses N cfg s = do {
     (s1, returned) \<leftarrow> serve_active N (\<lambda>(s, r). ar_rx s) (\<lambda>q (s, r). (s\<lparr>ar_rx := q\<rparr>, r)) (response_step N cfg) (s, False);
     Some (if returned \<and> net_require_signal_free N (ar_rx s1)
           then s1\<lparr>ar_rx := net_cancel_signal_free N (ar_rx s1), ar_out := ar_out s1 @ [Deferred_notify (rqc_rx_id cfg)]\<rparr>
           else s1)
   }"

subsection \<open>Timer ticks\<close>

text \<open>The body of the loop over the cache for one entry; the second component counts the retries.\<close>

definition retry_entry :: "'q net_ops \<Rightarrow> fw_arp_requester_config \<Rightarrow> nat \<Rightarrow> 'q arp_requester \<times> u16
    \<Rightarrow> ('q arp_requester \<times> u16) option" where
  "retry_entry N cfg i = (\<lambda>(s, pending_requests).
     (let entry = at_entries (ar_table s) ! i
      in if ae_state entry \<noteq> ARP_STATE_PENDING then Some (s, pending_requests)
         else if ae_num_retries entry \<ge> ARP_MAX_RETRIES
         then let entry' = entry\<lparr>ae_state := ARP_STATE_UNREACHABLE\<rparr>
              in Some (respond_all cfg entry' (set_entry i entry' s), pending_requests)
         else do {
           s1 \<leftarrow> (if \<not> net_queue_empty_free N (ar_tx s)
                 then map_option (ar_transmitted_update (\<lambda>_. True)) (send_arp N cfg (ae_ip entry) s)
                 else Some s);
           Some (set_entry i (entry\<lparr>ae_num_retries := ae_num_retries entry + 1\<rparr>) s1, pending_requests + 1)
         }))"

definition process_retries :: "'q net_ops \<Rightarrow> fw_arp_requester_config \<Rightarrow> 'q arp_requester
    \<Rightarrow> ('q arp_requester \<times> u16) option" where
  "process_retries N cfg s = fold_body (retry_entry N cfg) [0..<unat (at_capacity (ar_table s))] (s, 0)"

text \<open>Pending entries survive a flush.\<close>

definition flush_entry :: "fw_arp_entry \<Rightarrow> fw_arp_entry" where
  "flush_entry e = (if ae_state e = ARP_STATE_INVALID \<or> ae_state e = ARP_STATE_PENDING then e
     else e\<lparr>ae_state := ARP_STATE_INVALID\<rparr>)"

definition arp_table_flush :: "fw_arp_table \<Rightarrow> fw_arp_table \<times> u16" where
  "arp_table_flush tbl =
     (let n = unat (at_capacity tbl); es = take n (at_entries tbl)
      in (tbl\<lparr>at_entries := map flush_entry es @ drop n (at_entries tbl)\<rparr>,
          of_nat (length (filter (\<lambda>e. flush_entry e \<noteq> e) es))))"

definition timer_tick :: "'q net_ops \<Rightarrow> fw_arp_requester_config \<Rightarrow> 'q arp_requester \<Rightarrow> 'q arp_requester option" where
  "timer_tick N cfg s =
     (let s1 = s\<lparr>ar_ticks := ar_ticks s - 1\<rparr>
      in do {
        s2 \<leftarrow> (if ar_ticks s1 \<noteq> 0 then map_option fst (process_retries N cfg s1)
              else Some (s1\<lparr>ar_table := fst (arp_table_flush (ar_table s1)), ar_ticks := of_nat ARP_TICKS_PER_FLUSH\<rparr>));
        Some (s2\<lparr>ar_out := ar_out s2 @ [Set_timeout (rqc_timer_id cfg) ARP_RETRY_TIMER_NS]\<rparr>)
      })"

subsection \<open>The entry points\<close>

definition is_client_channel :: "fw_arp_requester_config \<Rightarrow> u8 \<Rightarrow> bool" where
  "is_client_channel cfg ch \<longleftrightarrow> ch = rqc_client_ch cfg ! 0 \<or>
     (rqc_num_arp_clients cfg = 2 \<and> ch = rqc_client_ch cfg ! 1)"

definition notify_arp_clients :: "fw_arp_requester_config \<Rightarrow> 'q arp_requester \<Rightarrow> 'q arp_requester" where
  "notify_arp_clients cfg =
     fold (\<lambda>client s. if ar_notify_client s ! client
         then s\<lparr>ar_notify_client := (ar_notify_client s)[client := False], ar_out := ar_out s @ [Notify (rqc_client_ch cfg ! client)]\<rparr>
         else s) [0..<num_arp_clients cfg]"

definition arp_requester_notified :: "'q net_ops \<Rightarrow> fw_arp_requester_config \<Rightarrow> u8 \<Rightarrow> 'q arp_requester
    \<Rightarrow> 'q arp_requester option" where
  "arp_requester_notified N cfg ch s = do {
     s1 \<leftarrow> (if is_client_channel cfg ch then process_requests N cfg s else Some s);
     s2 \<leftarrow> (if ch = rqc_rx_id cfg then process_responses N cfg s1
           else if ch = rqc_timer_id cfg then timer_tick N cfg s1 else Some s1);
     let s3 = (if ar_transmitted s2 \<and> net_require_signal_active N (ar_tx s2)
               then s2\<lparr>ar_transmitted := False, ar_tx := net_cancel_signal_active N (ar_tx s2),
                       ar_out := ar_out s2 @ [Deferred_notify (rqc_tx_id cfg)]\<rparr>
               else s2);
     Some (notify_arp_clients cfg s3)
   }"

end
