(* ===== verification/Fw_Arp_Props.thy ===== *)
theory Fw_Arp_Props
  imports Fw_Arp_Requester
begin

text \<open>
  What the ARP requester guarantees: its assertions hold and it keeps its buffers, a request that is
  pending is resolved after a bounded number of timer ticks, a reply reaches the clients that wait for
  it; and what happens when its cache is full.
\<close>

subsection \<open>Updates of the cache\<close>

text \<open>A map over the entries that keeps their addresses and does not free or use a slot.\<close>

definition keeps_slots :: "(fw_arp_entry \<Rightarrow> fw_arp_entry) \<Rightarrow> bool" where
  "keeps_slots f \<longleftrightarrow> (\<forall>e. ae_ip (f e) = ae_ip e \<and> (ae_state (f e) = ARP_STATE_INVALID \<longleftrightarrow> ae_state e = ARP_STATE_INVALID))"

lemma find_index_map: "find_index P (map f xs) = find_index (P \<circ> f) xs"
  by (induction xs) auto

lemma map_entries:
  assumes wf: "wf_arp tbl" and f: "keeps_slots f" and t: "at_entries tbl' = map f (at_entries tbl)" "at_capacity tbl' = at_capacity tbl"
  shows "wf_arp tbl'" "arp_lookup tbl' ip = map_option f (arp_lookup tbl ip)"
proof -
  show w: "wf_arp tbl'"
    unfolding wf_arp_def
  proof (intro conjI allI impI)
    show "length (at_entries tbl') = unat (at_capacity tbl')" using wf t by (simp add: wf_arp_def)
    fix i j
    assume "i < length (at_entries tbl')" "j < length (at_entries tbl')"
      "ae_state (at_entries tbl' ! i) \<noteq> ARP_STATE_INVALID" "ae_state (at_entries tbl' ! j) \<noteq> ARP_STATE_INVALID"
      "ae_ip (at_entries tbl' ! i) = ae_ip (at_entries tbl' ! j)"
    with wf f t show "i = j" by (simp add: wf_arp_def keeps_slots_def)
  qed
  have "entry_for ip \<circ> f = entry_for ip" using f by (auto simp: entry_for_def keeps_slots_def)
  then have "fw_arp_table_find_entry tbl' ip = fw_arp_table_find_entry tbl ip"
    using arp_slots_wf [OF w] arp_slots_wf [OF wf] t by (simp add: fw_arp_table_find_entry_def find_index_map)
  moreover have "k < length (at_entries tbl)" if "fw_arp_table_find_entry tbl ip = Some k" for k
    using that find_index_less [of "entry_for ip" "arp_slots tbl" k] arp_slots_wf [OF wf]
    by (simp add: fw_arp_table_find_entry_def)
  ultimately show "arp_lookup tbl' ip = map_option f (arp_lookup tbl ip)"
    using t by (cases "fw_arp_table_find_entry tbl ip") (simp_all add: arp_lookup_def)
qed

lemma wf_same_slot:
  assumes wf: "wf_arp tbl" and e: "ae_ip e = ae_ip (at_entries tbl ! i)"
    "ae_state e = ARP_STATE_INVALID \<longleftrightarrow> ae_state (at_entries tbl ! i) = ARP_STATE_INVALID"
  shows "wf_arp (tbl\<lparr>at_entries := (at_entries tbl)[i := e]\<rparr>)"
proof -
  have "ae_ip ((at_entries tbl)[i := e] ! j) = ae_ip (at_entries tbl ! j)"
    "ae_state ((at_entries tbl)[i := e] ! j) = ARP_STATE_INVALID \<longleftrightarrow> ae_state (at_entries tbl ! j) = ARP_STATE_INVALID"
    if "j < length (at_entries tbl)" for j
    using e that by (cases "j = i"; simp)+
  with wf show ?thesis by (simp add: wf_arp_def)
qed

lemma find_entry_facts:
  assumes wf: "wf_arp tbl" and i: "fw_arp_table_find_entry tbl ip = Some i"
  shows "i < length (at_entries tbl)" "entry_for ip (at_entries tbl ! i)" "arp_lookup tbl ip = Some (at_entries tbl ! i)"
proof -
  have "find_index (entry_for ip) (at_entries tbl) = Some i"
    using i arp_slots_wf [OF wf] by (simp add: fw_arp_table_find_entry_def)
  then show "i < length (at_entries tbl)" "entry_for ip (at_entries tbl ! i)" by blast+
  show "arp_lookup tbl ip = Some (at_entries tbl ! i)" using i by (simp add: arp_lookup_def)
qed

text \<open>Rewriting the entry of an address.\<close>

lemma set_entry_lookup:
  assumes wf: "wf_arp (ar_table s)" and i: "fw_arp_table_find_entry (ar_table s) ip = Some i" and e: "entry_for ip e"
  shows "wf_arp (ar_table (set_entry i e s))" "arp_lookup (ar_table (set_entry i e s)) = (arp_lookup (ar_table s))(ip \<mapsto> e)"
  using arp_write [OF wf find_entry_facts(1) [OF wf i] _ e] find_entry_facts(2) [OF wf i] by (simp_all add: set_entry_def)

subsection \<open>Responses\<close>

lemma respond_fields [simp]:
  "ar_rx (respond c e s) = ar_rx s" "ar_tx (respond c e s) = ar_tx s" "ar_req (respond c e s) = ar_req s"
  "ar_table (respond c e s) = ar_table s" "ar_ticks (respond c e s) = ar_ticks s" "ar_out (respond c e s) = ar_out s"
  "ar_rx_data (respond c e s) = ar_rx_data s" "ar_tx_data (respond c e s) = ar_tx_data s"
  by (simp_all add: respond_def)

lemma set_entry_fields [simp]:
  "ar_rx (set_entry i e s) = ar_rx s" "ar_tx (set_entry i e s) = ar_tx s" "ar_req (set_entry i e s) = ar_req s"
  "ar_resp (set_entry i e s) = ar_resp s" "ar_ticks (set_entry i e s) = ar_ticks s"
  "ar_notify_client (set_entry i e s) = ar_notify_client s"
  "at_capacity (ar_table (set_entry i e s)) = at_capacity (ar_table s)"
  "at_entries (ar_table (set_entry i e s)) = (at_entries (ar_table s))[i := e]"
  by (simp_all add: set_entry_def)

text \<open>A property that one response keeps is kept by all of them.\<close>

lemma respond_all_induct:
  assumes "I s" "\<And>c s. c < num_arp_clients cfg \<Longrightarrow> I s \<Longrightarrow> I (respond c e s)"
  shows "I (respond_all cfg e s)"
proof -
  have "I (fold (\<lambda>c s. if has_client c (ae_client e) then respond c e s else s) xs s)"
    if "set xs \<subseteq> {..<num_arp_clients cfg}" "I s" for xs s
    using that by (induction xs arbitrary: s) (use assms(2) in auto)
  from this [of "[0..<num_arp_clients cfg]" s] show ?thesis using assms(1) by (simp add: respond_all_def subset_eq)
qed

lemma respond_all_fields [simp]:
  "ar_rx (respond_all cfg e s) = ar_rx s" "ar_tx (respond_all cfg e s) = ar_tx s"
  "ar_req (respond_all cfg e s) = ar_req s" "ar_table (respond_all cfg e s) = ar_table s"
  "ar_ticks (respond_all cfg e s) = ar_ticks s"
  by (rule respond_all_induct [where I = "\<lambda>t. ar_rx t = ar_rx s"], simp_all)
    (rule respond_all_induct [where I = "\<lambda>t. ar_tx t = ar_tx s"], simp_all,
     rule respond_all_induct [where I = "\<lambda>t. ar_req t = ar_req s"], simp_all,
     rule respond_all_induct [where I = "\<lambda>t. ar_table t = ar_table s"], simp_all,
     rule respond_all_induct [where I = "\<lambda>t. ar_ticks t = ar_ticks s"], simp_all)

text \<open>Each client of the entry with room gets the response, the other queues stay as they are.\<close>

lemma respond_all_queues:
  assumes "num_arp_clients cfg \<le> length (ar_resp s)" "c < length (ar_resp s)"
  shows "ar_resp (respond_all cfg e s) ! c =
    (if c < num_arp_clients cfg \<and> has_client c (ae_client e)
     then snd (fw_enqueue (ar_resp s ! c) (fw_arp_response_from_entry (Some e))) else ar_resp s ! c)"
proof -
  let ?f = "\<lambda>c s. if has_client c (ae_client e) then respond c e s else s"
  have "length (ar_resp (fold ?f [0..<n] s)) = length (ar_resp s) \<and>
      ar_resp (fold ?f [0..<n] s) ! c = (if c < n \<and> has_client c (ae_client e)
        then snd (fw_enqueue (ar_resp s ! c) (fw_arp_response_from_entry (Some e))) else ar_resp s ! c)"
    if "n \<le> length (ar_resp s)" for n
    using that
  proof (induction n)
    case (Suc n)
    then have IH: "length (ar_resp (fold ?f [0..<n] s)) = length (ar_resp s)"
      "ar_resp (fold ?f [0..<n] s) ! c = (if c < n \<and> has_client c (ae_client e)
        then snd (fw_enqueue (ar_resp s ! c) (fw_arp_response_from_entry (Some e))) else ar_resp s ! c)" by auto
    have step: "fold ?f [0..<Suc n] s = ?f n (fold ?f [0..<n] s)" by simp
    show ?case
    proof (cases "c = n")
      case True
      then show ?thesis unfolding step using IH assms(2) by (simp add: respond_def)
    next
      case False
      then have "c < Suc n \<longleftrightarrow> c < n" by (simp add: less_Suc_eq)
      with False show ?thesis unfolding step using IH by (simp add: respond_def)
    qed
  qed simp
  with assms(1) show ?thesis by (simp add: respond_all_def)
qed

subsection \<open>The requester keeps its buffers\<close>

definition requester_ok :: "'q net_view \<Rightarrow> fw_arp_requester_config \<Rightarrow> 'q arp_requester \<Rightarrow> bool" where
  "requester_ok V cfg s \<longleftrightarrow> net_fits V (ar_rx s) \<and> net_fits V (ar_tx s) \<and> wf_arp (ar_table s) \<and>
     num_arp_clients cfg \<le> length (ar_req s) \<and> num_arp_clients cfg \<le> length (ar_resp s) \<and>
     num_arp_clients cfg \<le> length (ar_notify_client s) \<and>
     (\<forall>c < num_arp_clients cfg. wf_fw_queue (ar_req s ! c) \<and> wf_fw_queue (ar_resp s ! c))"

text \<open>What an operation does to the state as a whole: it stays well formed, the buffers of the two network
  queues stay in them, and no request is added.\<close>

definition requester_moves :: "'q net_view \<Rightarrow> fw_arp_requester_config \<Rightarrow> 'q arp_requester \<Rightarrow> 'q arp_requester \<Rightarrow> bool" where
  "requester_moves V cfg s s' \<longleftrightarrow> requester_ok V cfg s' \<and> net_kept V (ar_rx s) (ar_rx s') \<and> net_kept V (ar_tx s) (ar_tx s')"

lemma requester_moves_refl: "requester_ok V cfg s \<Longrightarrow> requester_moves V cfg s s"
  by (simp add: requester_moves_def requester_ok_def net_kept_refl)

lemma requester_moves_trans:
  "requester_moves V cfg s s1 \<Longrightarrow> requester_moves V cfg s1 s2 \<Longrightarrow> requester_moves V cfg s s2"
  by (auto simp: requester_moves_def intro: net_kept_trans)

lemma requester_moves_ok: "requester_moves V cfg s s' \<Longrightarrow> requester_ok V cfg s'" by (simp add: requester_moves_def)

lemma fw_enqueue_wf: "wf_fw_queue q \<Longrightarrow> wf_fw_queue (snd (fw_enqueue q e))"
  using fwq.enq_cases [of q e "fst (fw_enqueue q e)" "snd (fw_enqueue q e)"] by simp

lemma respond_moves:
  assumes "requester_ok V cfg s" "c < num_arp_clients cfg"
  shows "requester_moves V cfg s (respond c e s)"
  using assms
  by (auto simp: requester_moves_def requester_ok_def net_kept_refl respond_def nth_list_update fw_enqueue_wf)

lemma respond_all_moves:
  assumes "requester_ok V cfg s"
  shows "requester_moves V cfg s (respond_all cfg e s)"
  by (rule respond_all_induct)
    (use assms in \<open>auto intro: requester_moves_refl requester_moves_trans respond_moves requester_moves_ok\<close>)

lemma table_moves:
  assumes "requester_ok V cfg s" "wf_arp tbl"
  shows "requester_moves V cfg s (s\<lparr>ar_table := tbl\<rparr>)"
  using assms by (auto simp: requester_moves_def requester_ok_def net_kept_refl)

lemma set_entry_moves:
  assumes "requester_ok V cfg s" "wf_arp (ar_table (set_entry i e s))"
  shows "requester_moves V cfg s (set_entry i e s)"
  using table_moves [OF assms(1), of "ar_table (set_entry i e s)"] assms(2) by (simp add: set_entry_def)

lemma send_arp_moves:
  assumes laws: "net_queue_laws N V" and ok: "requester_ok V cfg s" and ne: "\<not> net_queue_empty_free N (ar_tx s)"
  shows "\<exists>s'. send_arp N cfg ip s = Some s' \<and> requester_moves V cfg s s' \<and> ar_table s' = ar_table s \<and>
    ar_ticks s' = ar_ticks s \<and> ar_req s' = ar_req s"
proof -
  have fits: "net_fits V (ar_tx s)" using ok by (simp add: requester_ok_def)
  from net_free_to_active [OF laws fits ne] obtain b tx1 where
    tx: "taken (net_dequeue_free N (ar_tx s)) = Some (b, tx1)"
      "\<forall>l. \<exists>tx2. stored (net_enqueue_active N tx1 (b\<lparr>nb_len := l\<rparr>)) = Some tx2 \<and> net_kept V (ar_tx s) tx2" by blast
  obtain b' m where g: "generate_arp cfg b ip (ar_tx_data s) = (b', m)" by fastforce
  then have "b' = b\<lparr>nb_len := of_nat ARP_PKT_LEN\<rparr>" by (simp add: generate_arp_def Let_def)
  with tx(2) obtain tx2 where "stored (net_enqueue_active N tx1 b') = Some tx2" "net_kept V (ar_tx s) tx2" by blast
  with tx(1) g ok show ?thesis
    by (auto simp: send_arp_def requester_moves_def requester_ok_def net_kept_refl net_kept_def)
qed

lemma add_entry_wf:
  assumes "wf_arp tbl" "state \<noteq> ARP_STATE_INVALID"
  shows "wf_arp (snd (fw_arp_table_add_entry tbl state ip m c))"
  using add_entry_spec [OF assms, of ip m c "fst (fw_arp_table_add_entry tbl state ip m c)"
    "snd (fw_arp_table_add_entry tbl state ip m c)"] by simp

lemma process_request_moves:
  assumes laws: "net_queue_laws N V" and ok: "requester_ok V cfg s" and c: "c < num_arp_clients cfg"
    and ne: "\<not> net_queue_empty_free N (ar_tx s)"
  shows "\<exists>s'. process_request N cfg c r s = Some s' \<and> requester_moves V cfg s s' \<and> ar_req s' = ar_req s"
proof (cases "fw_arp_table_find_entry (ar_table s) (aq_ip r)")
  case None
  obtain s1 where s1: "send_arp N cfg (aq_ip r) s = Some s1" "requester_moves V cfg s s1" "ar_table s1 = ar_table s"
    "ar_req s1 = ar_req s"
    using send_arp_moves [OF laws ok ne] by blast
  let ?t = "snd (fw_arp_table_add_entry (ar_table s) ARP_STATE_PENDING (aq_ip r) None c)"
  have "wf_arp ?t" using ok by (simp add: requester_ok_def add_entry_wf)
  then have "requester_moves V cfg s1 (s1\<lparr>ar_table := ?t, ar_transmitted := True\<rparr>)"
    using requester_moves_ok [OF s1(2)] by (auto simp: requester_moves_def requester_ok_def net_kept_refl)
  with requester_moves_trans [OF s1(2)] s1 None show ?thesis
    by (simp add: process_request_def Let_def split_def)
next
  case (Some i)
  let ?e = "at_entries (ar_table s) ! i"
  have wf: "wf_arp (ar_table s)" using ok by (simp add: requester_ok_def)
  show ?thesis
  proof (cases "ae_state ?e = ARP_STATE_PENDING")
    case True
    have "entry_for (aq_ip r) (?e\<lparr>ae_client := x\<rparr>)" for x
      using find_entry_facts(2) [OF wf Some] by (simp add: entry_for_def)
    from set_entry_moves [OF ok set_entry_lookup(1) [OF wf Some this]] True Some show ?thesis
      by (simp add: process_request_def Let_def)
  next
    case False
    with respond_moves [OF ok c] Some show ?thesis by (simp add: process_request_def Let_def)
  qed
qed

lemma request_step_moves:
  assumes laws: "net_queue_laws N V" and ok: "requester_ok V cfg s" and c: "c < num_arp_clients cfg"
    and cond: "\<not> fw_queue_empty (ar_req s ! c)" "\<not> net_queue_empty_free N (ar_tx s)"
  shows "\<exists>s'. request_step N cfg c s = Some s' \<and> requester_moves V cfg s s' \<and>
    fq_count (ar_req s' ! c) < fq_count (ar_req s ! c)"
proof -
  have "wf_fw_queue (ar_req s ! c)" using ok c by (simp add: requester_ok_def)
  from fw_taken [OF this cond(1)] obtain r q where
    q: "taken (fw_dequeue (ar_req s ! c)) = Some (r, q)" "wf_fw_queue q" "fq_contents (ar_req s ! c) = r # fq_contents q"
    by blast
  let ?s = "s\<lparr>ar_req := (ar_req s)[c := q]\<rparr>"
  have mv: "requester_moves V cfg s ?s"
    using ok q(2) c by (auto simp: requester_moves_def requester_ok_def net_kept_refl nth_list_update)
  have "\<not> net_queue_empty_free N (ar_tx ?s)" using cond(2) by simp
  from process_request_moves [OF laws requester_moves_ok [OF mv] c this, of r] obtain s' where
    s': "process_request N cfg c r ?s = Some s'" "requester_moves V cfg ?s s'" "ar_req s' = ar_req ?s" by blast
  have "c < length (ar_req s)" using ok c by (simp add: requester_ok_def)
  moreover have "fq_count q < fq_count (ar_req s ! c)" using arg_cong [OF q(3), of length] by simp
  ultimately show ?thesis
    using q(1) s' requester_moves_trans [OF mv s'(2)] by (simp add: request_step_def)
qed

lemma process_requests_moves:
  assumes laws: "net_queue_laws N V" and ok: "requester_ok V cfg s"
  shows "\<exists>s'. process_requests N cfg s = Some s' \<and> requester_moves V cfg s s'"
  unfolding process_requests_def
proof (rule fold_body_total [where I = "requester_moves V cfg s"])
  show "requester_moves V cfg s s" by (rule requester_moves_refl [OF ok])
  fix c t
  assume c: "c \<in> set [0..<num_arp_clients cfg]" and t: "requester_moves V cfg s t"
  have "\<exists>t'. while_opt (\<lambda>s. \<not> fw_queue_empty (ar_req s ! c) \<and> \<not> net_queue_empty_free N (ar_tx s)) (request_step N cfg c) t
      = Some t' \<and> requester_moves V cfg s t' \<and>
      \<not> (\<not> fw_queue_empty (ar_req t' ! c) \<and> \<not> net_queue_empty_free N (ar_tx t'))"
  proof (rule while_opt_total [where m = "\<lambda>s. fq_count (ar_req s ! c)"])
    fix u
    assume "requester_moves V cfg s u" "\<not> fw_queue_empty (ar_req u ! c) \<and> \<not> net_queue_empty_free N (ar_tx u)"
    with request_step_moves [OF laws requester_moves_ok, of cfg s u c] c
    show "\<exists>u'. request_step N cfg c u = Some u' \<and> requester_moves V cfg s u' \<and>
        fq_count (ar_req u' ! c) < fq_count (ar_req u ! c)"
      by (auto intro: requester_moves_trans)
  qed (rule t)
  then show "\<exists>t'. while_opt (\<lambda>s. \<not> fw_queue_empty (ar_req s ! c) \<and> \<not> net_queue_empty_free N (ar_tx s)) (request_step N cfg c) t
      = Some t' \<and> requester_moves V cfg s t'" by blast
qed

lemma process_reply_moves:
  assumes ok: "requester_ok V cfg s"
  shows "requester_moves V cfg s (process_reply cfg arp s)"
proof (cases "fw_arp_table_find_entry (ar_table s) (ipsrc_addr arp)")
  case None
  have "wf_arp (ar_table s)" using ok by (simp add: requester_ok_def)
  with None table_moves [OF ok add_entry_wf] show ?thesis by (simp add: process_reply_def Let_def)
next
  case (Some i)
  have wf: "wf_arp (ar_table s)" using ok by (simp add: requester_ok_def)
  let ?e = "(at_entries (ar_table s) ! i)\<lparr>ae_state := ARP_STATE_REACHABLE, ae_mac_addr := take ETH_HWADDR_LEN (hwsrc_addr arp)\<rparr>"
  have "entry_for (ipsrc_addr arp) ?e" using find_entry_facts(2) [OF wf Some] by (simp add: entry_for_def)
  note m = set_entry_moves [OF ok set_entry_lookup(1) [OF wf Some this]]
  from requester_moves_trans [OF m respond_all_moves [OF requester_moves_ok [OF m]]] Some show ?thesis
    by (simp add: process_reply_def Let_def)
qed

lemma response_step_moves:
  assumes laws: "net_queue_laws N V" and ok: "requester_ok V cfg s" and ne: "\<not> net_queue_empty_active N (ar_rx s)"
  shows "\<exists>s' . response_step N cfg (s, r) = Some (s', True) \<and> requester_moves V cfg s s' \<and>
    length (nv_active V (ar_rx s')) < length (nv_active V (ar_rx s))"
proof -
  have fits: "net_fits V (ar_rx s)" using ok by (simp add: requester_ok_def)
  from net_active_to_free [OF laws fits ne] obtain b q1 q2 where
    q: "taken (net_dequeue_active N (ar_rx s)) = Some (b, q1)" "stored (net_enqueue_free N q1 b) = Some q2"
      "net_fits V q1" "net_kept V (ar_rx s) q2" "nv_active V (ar_rx s) = b # nv_active V q2" by blast
  let ?pkt = "unat (io_or_offset b)"
  let ?arp = "read_arp (ar_rx_data s) ?pkt" and ?s1 = "s\<lparr>ar_rx := q1\<rparr>"
  let ?s2 = "if ethtype (read_eth (ar_rx_data s) ?pkt) = htons ETH_TYPE_ARP \<and> opcode ?arp = htons ARP_ETH_OPCODE_REPLY
    then process_reply cfg ?arp ?s1 else ?s1"
  have rx: "ar_rx ?s2 = q1"
    by (simp add: process_reply_def Let_def split: option.split)
  have "requester_ok V cfg ?s1" using ok q(3) by (simp add: requester_ok_def)
  then have "requester_moves V cfg ?s1 ?s2" by (simp add: process_reply_moves requester_moves_refl)
  then have "requester_moves V cfg s (?s2\<lparr>ar_rx := q2\<rparr>)"
    using q(4) by (simp add: requester_moves_def requester_ok_def net_kept_def)
  moreover have "response_step N cfg (s, r) = Some (?s2\<lparr>ar_rx := q2\<rparr>, True)"
    using q(1,2) rx by (simp add: response_step_def Let_def)
  moreover have "length (nv_active V (ar_rx (?s2\<lparr>ar_rx := q2\<rparr>))) < length (nv_active V (ar_rx s))" using q(5) by simp
  ultimately show ?thesis by blast
qed

lemma rx_signal_moves:
  assumes "requester_ok V cfg s" "same_view V (ar_rx s) q"
  shows "requester_moves V cfg s (s\<lparr>ar_rx := q, ar_out := out\<rparr>)" "requester_moves V cfg s (s\<lparr>ar_rx := q\<rparr>)"
  using assms net_kept_view [OF _ assms(2)] by (auto simp: requester_moves_def requester_ok_def net_kept_refl net_kept_def)

lemma process_responses_moves:
  assumes laws: "net_queue_laws N V" and ok: "requester_ok V cfg s"
  shows "\<exists>s'. process_responses N cfg s = Some s' \<and> requester_moves V cfg s s' \<and> nv_active V (ar_rx s') = []"
proof -
  let ?get = "\<lambda>(s, r). ar_rx s" and ?put = "\<lambda>q (s, r). (s\<lparr>ar_rx := q\<rparr>, r)"
  let ?I = "\<lambda>(t, r). requester_moves V cfg s t"
  have rx_ok: "nv_ok V (ar_rx t)" if "requester_moves V cfg s t" for t
    using that by (simp add: requester_moves_def requester_ok_def net_fits_def)
  have signal: "requester_moves V cfg s (t\<lparr>ar_rx := q\<rparr>)" "requester_moves V cfg s (t\<lparr>ar_rx := q, ar_out := out\<rparr>)"
    if "requester_moves V cfg s t" "same_view V (ar_rx t) q" for t q out
    using requester_moves_trans [OF that(1)] rx_signal_moves [OF requester_moves_ok [OF that(1)] that(2)] by blast+
  have "\<exists>u. serve_active N ?get ?put (response_step N cfg) (s, False) = Some u \<and> ?I u \<and> nv_active V (?get u) = []"
  proof (rule serve_active_total [OF laws])
    show "?I (s, False)" using requester_moves_refl [OF ok] by simp
    show "nv_ok V (?get u)" if "?I u" for u using that rx_ok by (simp add: split_def)
    show "?get (?put q u) = q" for q u by (simp add: split_def)
    show "?I (?put q u)" if "?I u" "same_view V (?get u) q" for q u using that signal(1) by (simp add: split_def)
    show "\<exists>u'. response_step N cfg u = Some u' \<and> ?I u' \<and> length (nv_active V (?get u')) < length (nv_active V (?get u))"
      if "?I u" "\<not> net_queue_empty_active N (?get u)" for u
    proof -
      obtain t r where u: "u = (t, r)" by fastforce
      have t: "requester_moves V cfg s t" "\<not> net_queue_empty_active N (ar_rx t)" using that by (simp_all add: u)
      from response_step_moves [OF laws requester_moves_ok [OF t(1)] t(2), of r] obtain t' where
        t': "response_step N cfg (t, r) = Some (t', True)" "requester_moves V cfg t t'"
        "length (nv_active V (ar_rx t')) < length (nv_active V (ar_rx t))" by blast
      show ?thesis
        by (intro exI [of _ "(t', True)"]) (simp add: u t'(1,3) requester_moves_trans [OF t(1) t'(2)])
    qed
  qed
  then obtain t r where tr: "serve_active N ?get ?put (response_step N cfg) (s, False) = Some (t, r)"
    "requester_moves V cfg s t" "nv_active V (ar_rx t) = []" by auto
  let ?t = "if r \<and> net_require_signal_free N (ar_rx t)
      then t\<lparr>ar_rx := net_cancel_signal_free N (ar_rx t), ar_out := ar_out t @ [Deferred_notify (rqc_rx_id cfg)]\<rparr> else t"
  have run: "process_responses N cfg s = Some ?t"
    using tr(1) by (simp add: process_responses_def)
  have v: "same_view V (ar_rx t) (net_cancel_signal_free N (ar_rx t))" by (rule net_signals(3) [OF laws rx_ok [OF tr(2)]])
  have "requester_moves V cfg s ?t" using signal(2) [OF tr(2) v] tr(2) by simp
  moreover have "nv_active V (ar_rx ?t) = []" using v tr(3) by (simp add: same_view_def)
  ultimately show ?thesis using run by blast
qed

text \<open>The ticks. A retry changes the entry of its position and nothing else in the cache.\<close>

definition retried :: "fw_arp_entry \<Rightarrow> fw_arp_entry" where
  "retried e = (if ae_state e \<noteq> ARP_STATE_PENDING then e
     else if ae_num_retries e \<ge> ARP_MAX_RETRIES then e\<lparr>ae_state := ARP_STATE_UNREACHABLE\<rparr>
     else e\<lparr>ae_num_retries := ae_num_retries e + 1\<rparr>)"

lemma retried_keeps: "keeps_slots retried" by (auto simp: keeps_slots_def retried_def)

lemma flush_keeps_pending: "ae_state e = ARP_STATE_PENDING \<Longrightarrow> flush_entry e = e" by (simp add: flush_entry_def)

lemma send_arp_table: "send_arp N cfg ip s = Some s' \<Longrightarrow> ar_table s' = ar_table s \<and> ar_ticks s' = ar_ticks s"
  by (auto simp: send_arp_def bind_eq_Some_conv split_def Let_def)

lemma retry_entry_table:
  assumes "retry_entry N cfg i (s, n) = Some (s', n')"
  shows "at_entries (ar_table s') = (at_entries (ar_table s))[i := retried (at_entries (ar_table s) ! i)] \<and>
    at_capacity (ar_table s') = at_capacity (ar_table s) \<and> ar_ticks s' = ar_ticks s"
proof -
  let ?e = "at_entries (ar_table s) ! i"
  consider "ae_state ?e \<noteq> ARP_STATE_PENDING" | "ae_state ?e = ARP_STATE_PENDING" "ae_num_retries ?e \<ge> ARP_MAX_RETRIES"
    | (send) "ae_state ?e = ARP_STATE_PENDING" "\<not> ae_num_retries ?e \<ge> ARP_MAX_RETRIES" by blast
  then show ?thesis
  proof cases
    case send
    then obtain s1 where s1: "(if \<not> net_queue_empty_free N (ar_tx s)
          then map_option (ar_transmitted_update (\<lambda>_. True)) (send_arp N cfg (ae_ip ?e) s) else Some s) = Some s1"
        "s' = set_entry i (?e\<lparr>ae_num_retries := ae_num_retries ?e + 1\<rparr>) s1"
      using assms by (auto simp: retry_entry_def Let_def bind_eq_Some_conv)
    have "ar_table s1 = ar_table s \<and> ar_ticks s1 = ar_ticks s"
      using s1(1) by (auto split: if_split_asm dest: send_arp_table)
    with s1(2) send show ?thesis by (simp add: retried_def)
  qed (use assms in \<open>auto simp: retry_entry_def retried_def Let_def\<close>)
qed

lemma retry_entry_moves:
  assumes laws: "net_queue_laws N V" and ok: "requester_ok V cfg s" and i: "i < unat (at_capacity (ar_table s))"
  shows "\<exists>s' n'. retry_entry N cfg i (s, n) = Some (s', n') \<and> requester_moves V cfg s s' \<and>
    at_capacity (ar_table s') = at_capacity (ar_table s)"
proof -
  let ?e = "at_entries (ar_table s) ! i"
  have wf: "wf_arp (ar_table s)" using ok by (simp add: requester_ok_def)
  have wf': "wf_arp (ar_table (set_entry i (retried ?e) t))" if "ar_table t = ar_table s" for t
    using retried_keeps wf_same_slot [OF wf] that by (simp add: keeps_slots_def set_entry_def)
  consider (idle) "ae_state ?e \<noteq> ARP_STATE_PENDING" | (give_up) "ae_state ?e = ARP_STATE_PENDING" "ae_num_retries ?e \<ge> ARP_MAX_RETRIES"
    | (send) "ae_state ?e = ARP_STATE_PENDING" "\<not> ae_num_retries ?e \<ge> ARP_MAX_RETRIES" by blast
  then show ?thesis
  proof cases
    case idle
    with requester_moves_refl [OF ok] show ?thesis by (simp add: retry_entry_def Let_def)
  next
    case give_up
    then have "retried ?e = ?e\<lparr>ae_state := ARP_STATE_UNREACHABLE\<rparr>" by (simp add: retried_def)
    then have mv: "requester_moves V cfg s (set_entry i (?e\<lparr>ae_state := ARP_STATE_UNREACHABLE\<rparr>) s)"
      using set_entry_moves [OF ok] wf' [of s] by simp
    from requester_moves_trans [OF mv respond_all_moves [OF requester_moves_ok [OF mv]]] give_up show ?thesis
      by (simp add: retry_entry_def Let_def)
  next
    case send
    have r: "retried ?e = ?e\<lparr>ae_num_retries := ae_num_retries ?e + 1\<rparr>" using send by (simp add: retried_def)
    have "\<exists>s1. (if \<not> net_queue_empty_free N (ar_tx s)
          then map_option (ar_transmitted_update (\<lambda>_. True)) (send_arp N cfg (ae_ip ?e) s) else Some s) = Some s1 \<and>
        requester_moves V cfg s s1 \<and> ar_table s1 = ar_table s"
    proof (cases "net_queue_empty_free N (ar_tx s)")
      case True
      with requester_moves_refl [OF ok] show ?thesis by simp
    next
      case False
      from send_arp_moves [OF laws ok False, of "ae_ip ?e"] obtain s1 where
        s1: "send_arp N cfg (ae_ip ?e) s = Some s1" "requester_moves V cfg s s1" "ar_table s1 = ar_table s" by blast
      have "requester_moves V cfg s (s1\<lparr>ar_transmitted := True\<rparr>)"
        using s1(2) by (simp add: requester_moves_def requester_ok_def)
      with s1 False show ?thesis by simp
    qed
    then obtain s1 where s1: "(if \<not> net_queue_empty_free N (ar_tx s)
          then map_option (ar_transmitted_update (\<lambda>_. True)) (send_arp N cfg (ae_ip ?e) s) else Some s) = Some s1"
        "requester_moves V cfg s s1" "ar_table s1 = ar_table s" by blast
    have "requester_moves V cfg s1 (set_entry i (?e\<lparr>ae_num_retries := ae_num_retries ?e + 1\<rparr>) s1)"
      using set_entry_moves [OF requester_moves_ok [OF s1(2)]] wf' [OF s1(3)] r by simp
    from requester_moves_trans [OF s1(2) this] s1 send show ?thesis
      by (simp add: retry_entry_def Let_def)
  qed
qed

text \<open>The whole loop applies \<open>retried\<close> to every entry.\<close>

lemma retries_prefix:
  assumes "fold_body (retry_entry N cfg) [0..<n] (s, 0) = Some (s', k)" "n \<le> length (at_entries (ar_table s))"
  shows "at_entries (ar_table s') = map retried (take n (at_entries (ar_table s))) @ drop n (at_entries (ar_table s)) \<and>
    at_capacity (ar_table s') = at_capacity (ar_table s) \<and> ar_ticks s' = ar_ticks s"
  using assms
proof (induction n arbitrary: s' k)
  case (Suc n)
  obtain s1 k1 where s1: "fold_body (retry_entry N cfg) [0..<n] (s, 0) = Some (s1, k1)"
    "retry_entry N cfg n (s1, k1) = Some (s', k)"
    using Suc.prems(1) by (auto simp: fold_body_append bind_eq_Some_conv)
  let ?es = "at_entries (ar_table s)"
  have IH: "at_entries (ar_table s1) = map retried (take n ?es) @ drop n ?es"
    "at_capacity (ar_table s1) = at_capacity (ar_table s)" "ar_ticks s1 = ar_ticks s"
    using Suc.IH [OF s1(1)] Suc.prems(2) by simp_all
  have n: "n < length ?es" using Suc.prems(2) by simp
  have nth: "at_entries (ar_table s1) ! n = ?es ! n" using n by (simp add: IH(1) nth_append)
  have "(map retried (take n ?es) @ drop n ?es)[n := retried (?es ! n)] =
      map retried (take (Suc n) ?es) @ drop (Suc n) ?es"
    using n by (intro nth_equalityI) (auto simp: nth_list_update nth_append less_Suc_eq min_def)
  with retry_entry_table [OF s1(2)] IH nth show ?case by simp
qed simp

lemma process_retries_table:
  assumes "process_retries N cfg s = Some (s', k)" "wf_arp (ar_table s)"
  shows "wf_arp (ar_table s')" "arp_lookup (ar_table s') ip = map_option retried (arp_lookup (ar_table s) ip)"
    "ar_ticks s' = ar_ticks s"
proof -
  have len: "length (at_entries (ar_table s)) = unat (at_capacity (ar_table s))" using assms(2) by (simp add: wf_arp_def)
  have "fold_body (retry_entry N cfg) [0..<length (at_entries (ar_table s))] (s, 0) = Some (s', k)"
    using assms(1) len by (simp add: process_retries_def)
  from retries_prefix [OF this] have
    t: "at_entries (ar_table s') = map retried (at_entries (ar_table s))"
      "at_capacity (ar_table s') = at_capacity (ar_table s)" "ar_ticks s' = ar_ticks s" by simp_all
  show "wf_arp (ar_table s')" "arp_lookup (ar_table s') ip = map_option retried (arp_lookup (ar_table s) ip)"
    using map_entries [OF assms(2) retried_keeps t(1,2)] by simp_all
  show "ar_ticks s' = ar_ticks s" by (rule t(3))
qed

lemma process_retries_moves:
  assumes laws: "net_queue_laws N V" and ok: "requester_ok V cfg s"
  shows "\<exists>s' k. process_retries N cfg s = Some (s', k) \<and> requester_moves V cfg s s'"
proof -
  let ?I = "\<lambda>(t, k :: u16). requester_moves V cfg s t \<and> at_capacity (ar_table t) = at_capacity (ar_table s)"
  have "\<exists>u. fold_body (retry_entry N cfg) [0..<unat (at_capacity (ar_table s))] (s, 0) = Some u \<and> ?I u"
  proof (rule fold_body_total [where I = ?I])
    show "?I (s, 0)" using requester_moves_refl [OF ok] by simp
    fix i u
    assume i: "i \<in> set [0..<unat (at_capacity (ar_table s))]" and u: "?I u"
    obtain t k where tk: "u = (t, k)" by fastforce
    have t: "requester_moves V cfg s t" "i < unat (at_capacity (ar_table t))" "at_capacity (ar_table t) = at_capacity (ar_table s)"
      using i u by (simp_all add: tk)
    from retry_entry_moves [OF laws requester_moves_ok [OF t(1)] t(2), of k] obtain t' k' where
      t': "retry_entry N cfg i (t, k) = Some (t', k')" "requester_moves V cfg t t'"
        "at_capacity (ar_table t') = at_capacity (ar_table t)" by blast
    show "\<exists>u'. retry_entry N cfg i u = Some u' \<and> ?I u'"
      by (intro exI [of _ "(t', k')"]) (simp add: tk t' t(3) requester_moves_trans [OF t(1) t'(2)])
  qed
  then show ?thesis by (auto simp: process_retries_def)
qed

text \<open>A flush is the map \<open>flush_entry\<close>; freed entries no longer answer a lookup.\<close>

lemma flush_table:
  assumes wf: "wf_arp tbl"
  shows "wf_arp (fst (arp_table_flush tbl))"
    "arp_lookup tbl ip = Some e \<Longrightarrow> ae_state e = ARP_STATE_PENDING \<Longrightarrow> arp_lookup (fst (arp_table_flush tbl)) ip = Some e"
proof -
  let ?t = "fst (arp_table_flush tbl)"
  have es: "at_entries ?t = map flush_entry (at_entries tbl)" "at_capacity ?t = at_capacity tbl"
    using wf by (simp_all add: arp_table_flush_def Let_def wf_arp_def)
  show w: "wf_arp ?t"
    using wf unfolding wf_arp_def es by (simp add: flush_entry_def)
  assume e: "arp_lookup tbl ip = Some e" "ae_state e = ARP_STATE_PENDING"
  then have "e \<in> set (at_entries tbl)" "entry_for ip e" using arp_lookup_iff [OF wf] by blast+
  then have "e \<in> set (at_entries ?t)" using flush_keeps_pending [OF e(2)] by (metis es(1) imageI list.set_map)
  with \<open>entry_for ip e\<close> show "arp_lookup ?t ip = Some e" using arp_lookup_iff [OF w] by blast
qed

lemma requester_ticks_moves: "requester_moves V cfg s s' \<Longrightarrow> requester_moves V cfg s (s'\<lparr>ar_out := out\<rparr>)"
  "requester_moves V cfg s s' \<Longrightarrow> requester_moves V cfg s (s'\<lparr>ar_ticks := t\<rparr>)"
  "requester_moves V cfg s s' \<Longrightarrow> requester_moves V cfg s (s'\<lparr>ar_transmitted := b\<rparr>)"
  by (simp_all add: requester_moves_def requester_ok_def)

lemma timer_tick_moves:
  assumes laws: "net_queue_laws N V" and ok: "requester_ok V cfg s"
  shows "\<exists>s'. timer_tick N cfg s = Some s' \<and> requester_moves V cfg s s'"
proof -
  let ?s1 = "s\<lparr>ar_ticks := ar_ticks s - 1\<rparr>"
  have mv: "requester_moves V cfg s ?s1" by (rule requester_ticks_moves(2) [OF requester_moves_refl [OF ok]])
  note ok1 = requester_moves_ok [OF mv]
  show ?thesis
  proof (cases "ar_ticks ?s1 = 0")
    case True
    have "wf_arp (fst (arp_table_flush (ar_table ?s1)))" using flush_table(1) ok1 by (simp add: requester_ok_def)
    note mv2 = requester_moves_trans [OF mv table_moves [OF ok1 this]]
    from requester_ticks_moves(1) [OF requester_ticks_moves(2) [OF mv2]] True show ?thesis
      by (simp add: timer_tick_def Let_def)
  next
    case False
    from process_retries_moves [OF laws ok1] obtain s2 k where
      s2: "process_retries N cfg ?s1 = Some (s2, k)" "requester_moves V cfg ?s1 s2" by blast
    from requester_ticks_moves(1) [OF requester_moves_trans [OF mv s2(2)]] False s2(1) show ?thesis
      by (simp add: timer_tick_def Let_def)
  qed
qed

lemma notify_fields:
  "ar_table (notify_arp_clients cfg s) = ar_table s" "ar_ticks (notify_arp_clients cfg s) = ar_ticks s"
  "requester_moves V cfg t s \<Longrightarrow> requester_moves V cfg t (notify_arp_clients cfg s)"
proof -
  let ?f = "\<lambda>client s. if ar_notify_client s ! client
      then s\<lparr>ar_notify_client := (ar_notify_client s)[client := False], ar_out := ar_out s @ [Notify (rqc_client_ch cfg ! client)]\<rparr>
      else s"
  have "ar_table (fold ?f xs s) = ar_table s \<and> ar_ticks (fold ?f xs s) = ar_ticks s \<and>
      (requester_moves V cfg t s \<longrightarrow> requester_moves V cfg t (fold ?f xs s))" for xs
    by (induction xs arbitrary: s) (auto simp: requester_moves_def requester_ok_def)
  then show "ar_table (notify_arp_clients cfg s) = ar_table s" "ar_ticks (notify_arp_clients cfg s) = ar_ticks s"
    "requester_moves V cfg t s \<Longrightarrow> requester_moves V cfg t (notify_arp_clients cfg s)"
    by (simp_all add: notify_arp_clients_def)
qed

subsection \<open>What happens to the entry of one address\<close>

definition resolved :: "fw_arp_entry \<Rightarrow> bool" where
  "resolved e \<longleftrightarrow> ae_state e = ARP_STATE_REACHABLE \<or> ae_state e = ARP_STATE_UNREACHABLE"

text \<open>A pending entry stays as it is or is resolved, a resolved one stays resolved.\<close>

definition settles :: "u32 \<Rightarrow> fw_arp_table \<Rightarrow> fw_arp_table \<Rightarrow> bool" where
  "settles ip t t' \<longleftrightarrow> wf_arp t' \<and>
     (\<forall>e. arp_lookup t ip = Some e \<longrightarrow> ae_state e = ARP_STATE_PENDING \<longrightarrow>
        (\<exists>e'. arp_lookup t' ip = Some e' \<and>
           (ae_state e' = ARP_STATE_PENDING \<and> ae_num_retries e' = ae_num_retries e \<or> resolved e'))) \<and>
     (\<forall>e. arp_lookup t ip = Some e \<longrightarrow> resolved e \<longrightarrow> (\<exists>e'. arp_lookup t' ip = Some e' \<and> resolved e'))"

lemma settles_refl: "wf_arp t \<Longrightarrow> settles ip t t" by (simp add: settles_def)

lemma settles_trans: "settles ip t t1 \<Longrightarrow> settles ip t1 t2 \<Longrightarrow> settles ip t t2"
  unfolding settles_def by metis

lemma settles_wf: "settles ip t t' \<Longrightarrow> wf_arp t'" by (simp add: settles_def)

lemma settles_update:
  assumes "wf_arp t'" "arp_lookup t' = (arp_lookup t)(ip' \<mapsto> e')"
    and "ip' = ip \<Longrightarrow> resolved e' \<or>
      (\<exists>e. arp_lookup t ip = Some e \<and> ae_state e = ae_state e' \<and> ae_num_retries e = ae_num_retries e') \<or> arp_lookup t ip = None"
  shows "settles ip t t'"
  using assms unfolding settles_def by (auto simp: resolved_def)

lemma add_entry_settles:
  assumes wf: "wf_arp t" and st: "state \<noteq> ARP_STATE_INVALID" and none: "arp_lookup t ip' = None"
  shows "settles ip t (snd (fw_arp_table_add_entry t state ip' m c))"
proof -
  let ?err = "fst (fw_arp_table_add_entry t state ip' m c)" and ?t = "snd (fw_arp_table_add_entry t state ip' m c)"
  have spec: "wf_arp ?t" "?t = t \<or> (\<exists>e. arp_lookup ?t = (arp_lookup t)(ip' \<mapsto> e))"
    using add_entry_spec [OF wf st, of ip' m c ?err ?t] by (simp, simp split: if_split_asm) blast
  from spec(2) show ?thesis
  proof
    assume "?t = t"
    with settles_refl [OF wf] show ?thesis by simp
  next
    assume "\<exists>e. arp_lookup ?t = (arp_lookup t)(ip' \<mapsto> e)"
    then obtain e where e: "arp_lookup ?t = (arp_lookup t)(ip' \<mapsto> e)" by blast
    show ?thesis by (rule settles_update [OF spec(1) e]) (use none in simp)
  qed
qed

lemma find_entry_None: "fw_arp_table_find_entry t ip = None \<longleftrightarrow> arp_lookup t ip = None"
  by (simp add: arp_lookup_def)

lemma process_request_settles:
  assumes "process_request N cfg c r s = Some s'" "wf_arp (ar_table s)"
  shows "settles ip (ar_table s) (ar_table s') \<and> ar_ticks s' = ar_ticks s"
proof (cases "fw_arp_table_find_entry (ar_table s) (aq_ip r)")
  case None
  with assms(1) obtain s1 where s1: "send_arp N cfg (aq_ip r) s = Some s1"
    "s' = s1\<lparr>ar_table := snd (fw_arp_table_add_entry (ar_table s) ARP_STATE_PENDING (aq_ip r) None c), ar_transmitted := True\<rparr>"
    by (auto simp: process_request_def Let_def bind_eq_Some_conv split_def)
  with send_arp_table [OF s1(1)] add_entry_settles [OF assms(2)] None show ?thesis by (simp add: find_entry_None)
next
  case (Some i)
  let ?e = "at_entries (ar_table s) ! i"
  have look: "arp_lookup (ar_table s) (aq_ip r) = Some ?e" "entry_for (aq_ip r) ?e"
    using find_entry_facts [OF assms(2) Some] by simp_all
  show ?thesis
  proof (cases "ae_state ?e = ARP_STATE_PENDING")
    case True
    have "entry_for (aq_ip r) (?e\<lparr>ae_client := x\<rparr>)" for x using look(2) by (simp add: entry_for_def)
    note upd = set_entry_lookup [OF assms(2) Some this]
    from assms(1) True Some settles_update [OF upd] look(1) show ?thesis
      by (auto simp: process_request_def Let_def)
  next
    case False
    with assms(1) Some settles_refl [OF assms(2)] show ?thesis by (auto simp: process_request_def Let_def)
  qed
qed

lemma process_requests_settles:
  assumes "process_requests N cfg s = Some s'" "wf_arp (ar_table s)"
  shows "settles ip (ar_table s) (ar_table s') \<and> ar_ticks s' = ar_ticks s"
proof -
  let ?I = "\<lambda>t. settles ip (ar_table s) (ar_table t) \<and> ar_ticks t = ar_ticks s"
  have step: "?I t'" if run: "request_step N cfg c t = Some t'" and "?I t" for c t t'
  proof -
    obtain r q where "process_request N cfg c r (t\<lparr>ar_req := q\<rparr>) = Some t'"
      using run by (auto simp: request_step_def bind_eq_Some_conv)
    from process_request_settles [OF this, of ip] \<open>?I t\<close> show ?thesis
      by (auto intro: settles_trans settles_wf)
  qed
  show ?thesis
    using assms(1) unfolding process_requests_def
  proof (rule fold_body_invariant [where I = ?I])
    show "?I s" using settles_refl [OF assms(2)] by simp
    show "?I t'" if "?I t" "while_opt (\<lambda>s. \<not> fw_queue_empty (ar_req s ! c) \<and> \<not> net_queue_empty_free N (ar_tx s))
        (request_step N cfg c) t = Some t'" for c t t'
      using while_opt_invariant [OF that(2), of ?I] that(1) step by blast
  qed
qed

lemma process_reply_settles:
  assumes wf: "wf_arp (ar_table s)"
  shows "settles ip (ar_table s) (ar_table (process_reply cfg arp s)) \<and> ar_ticks (process_reply cfg arp s) = ar_ticks s"
proof (cases "fw_arp_table_find_entry (ar_table s) (ipsrc_addr arp)")
  case None
  with add_entry_settles [OF wf _ None [unfolded find_entry_None]] show ?thesis
    by (simp add: process_reply_def Let_def)
next
  case (Some i)
  let ?e = "(at_entries (ar_table s) ! i)\<lparr>ae_state := ARP_STATE_REACHABLE, ae_mac_addr := take ETH_HWADDR_LEN (hwsrc_addr arp)\<rparr>"
  have "entry_for (ipsrc_addr arp) ?e" using find_entry_facts(2) [OF wf Some] by (simp add: entry_for_def)
  from settles_update [OF set_entry_lookup [OF wf Some this]] Some show ?thesis
    by (simp add: process_reply_def Let_def resolved_def)
qed

lemma process_responses_settles:
  assumes "process_responses N cfg s = Some s'" "wf_arp (ar_table s)"
  shows "settles ip (ar_table s) (ar_table s') \<and> ar_ticks s' = ar_ticks s"
proof -
  let ?get = "\<lambda>(s, r). ar_rx s" and ?put = "\<lambda>q (s, r). (s\<lparr>ar_rx := q\<rparr>, r)"
  let ?I = "\<lambda>(t, r :: bool). settles ip (ar_table s) (ar_table t) \<and> ar_ticks t = ar_ticks s"
  obtain t r where tr: "serve_active N ?get ?put (response_step N cfg) (s, False) = Some (t, r)"
    "ar_table s' = ar_table t" "ar_ticks s' = ar_ticks t"
    using assms(1) by (auto simp: process_responses_def bind_eq_Some_conv split: if_split_asm)
  have "?I (t, r)"
    using tr(1) unfolding serve_active_def
  proof (rule reprocess_loop_invariant)
    show "?I (s, False)" using settles_refl [OF assms(2)] by simp
    show "?I u'" if "?I u" and run: "response_step N cfg u = Some u'" for u u'
    proof -
      obtain v b where u: "u = (v, b)" by fastforce
      obtain arp q q' where q: "u' = ((process_reply cfg arp (v\<lparr>ar_rx := q\<rparr>))\<lparr>ar_rx := q'\<rparr>, True) \<or> u' = (v\<lparr>ar_rx := q'\<rparr>, True)"
        using run unfolding response_step_def u
        by (auto simp: Let_def bind_eq_Some_conv split: if_split_asm)
      have v: "settles ip (ar_table s) (ar_table v)" "ar_ticks v = ar_ticks s" using \<open>?I u\<close> by (simp_all add: u)
      have "settles ip (ar_table v) (ar_table (process_reply cfg arp (v\<lparr>ar_rx := q\<rparr>))) \<and>
          ar_ticks (process_reply cfg arp (v\<lparr>ar_rx := q\<rparr>)) = ar_ticks v" for arp
        using process_reply_settles [of "v\<lparr>ar_rx := q\<rparr>" ip cfg arp] settles_wf [OF v(1)] by simp
      with v settles_trans [OF v(1)] q show ?thesis by auto
    qed
  qed (auto split: prod.splits)
  with tr show ?thesis by simp
qed

subsection \<open>Ticks run out\<close>

text \<open>The ticks that a pending entry still has: one for each retry, one to give up, and one more when the
  next flush of the cache takes the place of a retry.\<close>

definition ticks_left :: "fw_arp_entry \<Rightarrow> nat" where
  "ticks_left e = 6 - min 5 (unat (ae_num_retries e))"

definition budget :: "u64 \<Rightarrow> fw_arp_entry \<Rightarrow> nat" where
  "budget t e = ticks_left e + (if unat t \<le> ticks_left e then 1 else 0)"

lemma ticks_left_bounds: "1 \<le> ticks_left e" "ticks_left e \<le> 6"
  unfolding ticks_left_def by linarith+

lemma budget_le: "budget t e \<le> 7" using ticks_left_bounds [of e] by (simp add: budget_def)

lemma retried_budget:
  assumes e: "ae_state e = ARP_STATE_PENDING" and t: "t - 1 \<noteq> 0" "t \<noteq> (0 :: u64)"
  shows "resolved (retried e) \<or> ae_state (retried e) = ARP_STATE_PENDING \<and> budget (t - 1) (retried e) < budget t e"
proof (cases "ae_num_retries e \<ge> ARP_MAX_RETRIES")
  case True
  then show ?thesis using e by (simp add: retried_def resolved_def)
next
  case False
  let ?n = "ae_num_retries e"
  have n: "unat ?n < 5" using False by (simp add: ARP_MAX_RETRIES_def word_le_nat_alt)
  then have n1: "unat (?n + 1) = Suc (unat ?n)" by (intro unat_Suc_nowrap) simp
  have r: "retried e = e\<lparr>ae_num_retries := ?n + 1\<rparr>" using e False by (simp add: retried_def)
  have left: "ticks_left (retried e) = ticks_left e - 1" "1 < ticks_left e" using n n1 by (simp_all add: ticks_left_def r)
  have "unat (t - 1) = unat t - 1" "0 < unat t" using t by (simp_all add: unat_minus_one unat_gt_0)
  then have "unat (t - 1) \<le> ticks_left (retried e) \<longleftrightarrow> unat t \<le> ticks_left e" using left by linarith
  with left have "budget (t - 1) (retried e) < budget t e" by (simp add: budget_def)
  with e show ?thesis by (simp add: r)
qed

lemma timer_tick_budget:
  assumes run: "timer_tick N cfg s = Some s'" and wf: "wf_arp (ar_table s)" and ticks: "ar_ticks s \<noteq> 0"
    and e: "arp_lookup (ar_table s) ip = Some e" "ae_state e = ARP_STATE_PENDING"
  shows "wf_arp (ar_table s') \<and> ar_ticks s' \<noteq> 0 \<and> (\<exists>e'. arp_lookup (ar_table s') ip = Some e' \<and>
    (resolved e' \<or> ae_state e' = ARP_STATE_PENDING \<and> budget (ar_ticks s') e' < budget (ar_ticks s) e))"
proof (cases "ar_ticks s - 1 = 0")
  case True
  then have t: "ar_ticks s = 1" by simp
  have s': "ar_table s' = fst (arp_table_flush (ar_table s))" "ar_ticks s' = of_nat ARP_TICKS_PER_FLUSH"
    using run True by (auto simp: timer_tick_def Let_def)
  have n: "ar_ticks s' = 300" by (simp add: s'(2) ARP_TICKS_PER_FLUSH_def ARP_CACHE_LIFE_NS_def ARP_RETRY_TIMER_NS_def
    ARP_CACHE_LIFE_M_def ARP_RETRY_TIMER_S_def NS_IN_S_def)
  have "budget (ar_ticks s') e < budget (ar_ticks s) e"
    using ticks_left_bounds [of e] by (simp add: n t budget_def)
  with flush_table [OF wf] e n show ?thesis by (simp add: s'(1))
next
  case False
  let ?s1 = "s\<lparr>ar_ticks := ar_ticks s - 1\<rparr>"
  obtain s2 k where s2: "process_retries N cfg ?s1 = Some (s2, k)" "ar_table s' = ar_table s2" "ar_ticks s' = ar_ticks s2"
    using run False by (auto simp: timer_tick_def Let_def bind_eq_Some_conv)
  have wf1: "wf_arp (ar_table ?s1)" using wf by simp
  have look: "arp_lookup (ar_table s') ip = Some (retried e)" "wf_arp (ar_table s')" "ar_ticks s' = ar_ticks s - 1"
    using process_retries_table [OF s2(1) wf1] s2(2,3) e(1) by simp_all
  with retried_budget [OF e(2) False ticks] False show ?thesis by simp
qed

lemma notified_budget:
  assumes run: "arp_requester_notified N cfg ch s = Some s'" and wf: "wf_arp (ar_table s)" and ticks: "ar_ticks s \<noteq> 0"
    and e: "arp_lookup (ar_table s) ip = Some e" "ae_state e = ARP_STATE_PENDING"
    and timer: "\<not> is_client_channel cfg (rqc_timer_id cfg)" "rqc_timer_id cfg \<noteq> rqc_rx_id cfg"
  shows "wf_arp (ar_table s') \<and> ar_ticks s' \<noteq> 0 \<and> (\<exists>e'. arp_lookup (ar_table s') ip = Some e' \<and>
    (resolved e' \<or> ae_state e' = ARP_STATE_PENDING \<and>
       budget (ar_ticks s') e' + (if ch = rqc_timer_id cfg then 1 else 0) \<le> budget (ar_ticks s) e))"
proof -
  obtain s1 s2 where s1: "(if is_client_channel cfg ch then process_requests N cfg s else Some s) = Some s1"
    and s2: "(if ch = rqc_rx_id cfg then process_responses N cfg s1
        else if ch = rqc_timer_id cfg then timer_tick N cfg s1 else Some s1) = Some s2"
    and s': "ar_table s' = ar_table s2" "ar_ticks s' = ar_ticks s2"
  proof -
    from run [unfolded arp_requester_notified_def bind_eq_Some_conv Let_def] obtain s1 s2 where
      r: "(if is_client_channel cfg ch then process_requests N cfg s else Some s) = Some s1"
      "(if ch = rqc_rx_id cfg then process_responses N cfg s1
        else if ch = rqc_timer_id cfg then timer_tick N cfg s1 else Some s1) = Some s2"
      "notify_arp_clients cfg (if ar_transmitted s2 \<and> net_require_signal_active N (ar_tx s2)
         then s2\<lparr>ar_transmitted := False, ar_tx := net_cancel_signal_active N (ar_tx s2),
                 ar_out := ar_out s2 @ [Deferred_notify (rqc_tx_id cfg)]\<rparr> else s2) = s'" by blast
    have "ar_table s' = ar_table s2" "ar_ticks s' = ar_ticks s2" unfolding r(3) [symmetric] by (simp_all add: notify_fields)
    with r(1,2) show thesis by (rule that)
  qed
  show ?thesis
  proof (cases "ch = rqc_timer_id cfg")
    case True
    with s1 s2 timer have "timer_tick N cfg s = Some s2" by simp
    from timer_tick_budget [OF this wf ticks e] True show ?thesis by (auto simp: s')
  next
    case False
    have 1: "settles ip (ar_table s) (ar_table s1) \<and> ar_ticks s1 = ar_ticks s"
      using s1 process_requests_settles [OF _ wf] settles_refl [OF wf] by (auto split: if_split_asm)
    have wf1: "wf_arp (ar_table s1)" using 1 settles_wf by blast
    have 2: "settles ip (ar_table s1) (ar_table s2) \<and> ar_ticks s2 = ar_ticks s1"
      using s2 False process_responses_settles [OF _ wf1] settles_refl [OF wf1] by (auto split: if_split_asm)
    have "settles ip (ar_table s) (ar_table s2)" using 1 2 settles_trans by blast
    with e obtain e' where e': "arp_lookup (ar_table s2) ip = Some e'"
      "ae_state e' = ARP_STATE_PENDING \<and> ae_num_retries e' = ae_num_retries e \<or> resolved e'"
      unfolding settles_def by blast
    have "ticks_left e' = ticks_left e" if "ae_num_retries e' = ae_num_retries e" using that by (simp add: ticks_left_def)
    with e' 1 2 ticks False settles_wf show ?thesis by (auto simp: s' budget_def)
  qed
qed

lemma notified_moves:
  assumes laws: "net_queue_laws N V" and ok: "requester_ok V cfg s"
  shows "\<exists>s'. arp_requester_notified N cfg ch s = Some s' \<and> requester_moves V cfg s s'"
proof -
  obtain s1 where s1: "(if is_client_channel cfg ch then process_requests N cfg s else Some s) = Some s1"
    "requester_moves V cfg s s1"
  proof (cases "is_client_channel cfg ch")
    case True
    with process_requests_moves [OF laws ok] that show ?thesis by auto
  next
    case False
    with requester_moves_refl [OF ok] that show ?thesis by simp
  qed
  note ok1 = requester_moves_ok [OF s1(2)]
  obtain s2 where s2: "(if ch = rqc_rx_id cfg then process_responses N cfg s1
      else if ch = rqc_timer_id cfg then timer_tick N cfg s1 else Some s1) = Some s2" "requester_moves V cfg s1 s2"
  proof -
    consider "ch = rqc_rx_id cfg" | "ch \<noteq> rqc_rx_id cfg" "ch = rqc_timer_id cfg"
      | "ch \<noteq> rqc_rx_id cfg" "ch \<noteq> rqc_timer_id cfg" by blast
    then show ?thesis
    proof cases
      case 1
      with process_responses_moves [OF laws ok1] that show ?thesis by auto
    next
      case 2
      with timer_tick_moves [OF laws ok1] that show ?thesis by auto
    next
      case 3
      with requester_moves_refl [OF ok1] that show ?thesis by simp
    qed
  qed
  let ?s3 = "if ar_transmitted s2 \<and> net_require_signal_active N (ar_tx s2)
    then s2\<lparr>ar_transmitted := False, ar_tx := net_cancel_signal_active N (ar_tx s2),
            ar_out := ar_out s2 @ [Deferred_notify (rqc_tx_id cfg)]\<rparr> else s2"
  have fits: "net_fits V (ar_tx s2)" "nv_ok V (ar_tx s2)"
    using requester_moves_ok [OF s2(2)] by (simp_all add: requester_ok_def net_fits_def)
  have kept: "net_kept V (ar_tx s2) (net_cancel_signal_active N (ar_tx s2))"
    by (rule net_kept_view [OF fits(1) net_signals(4) [OF laws fits(2)]])
  have "requester_moves V cfg s1 ?s3"
    using s2(2) kept by (auto simp: requester_moves_def requester_ok_def net_kept_def)
  from notify_fields(3) [OF requester_moves_trans [OF s1(2) this]] s1(1) s2(1) show ?thesis
    by (simp add: arp_requester_notified_def Let_def)
qed

subsection \<open>Properties\<close>

text \<open>C24: the ARP requester never stops and keeps its buffers. For queues that keep their documented laws
  and a well-formed state, an event on any channel is handled without a failed assertion and in finitely
  many steps, the state stays well formed (one cache entry per address), and the buffers of each network
  queue are the same as before, none lost and none used twice.\<close>

theorem arp_requester_safe:
  assumes "net_queue_laws N V" "requester_ok V cfg s"
  shows "\<exists>s'. arp_requester_notified N cfg ch s = Some s' \<and> requester_ok V cfg s' \<and>
    net_buffers V (ar_rx s') = net_buffers V (ar_rx s) \<and> net_buffers V (ar_tx s') = net_buffers V (ar_tx s)"
  using notified_moves [OF assms, of ch] by (auto simp: requester_moves_def net_kept_def)

text \<open>A run of the component: between two events its environment changes everything but the cache and the
  tick counter, which belong to the component alone.\<close>

fun arp_trace :: "'q net_ops \<Rightarrow> fw_arp_requester_config \<Rightarrow> 'q arp_requester
    \<Rightarrow> (u8 \<times> 'q arp_requester \<times> 'q arp_requester) list \<Rightarrow> bool" where
  "arp_trace N cfg s [] \<longleftrightarrow> True"
| "arp_trace N cfg s ((ch, env, s') # tr) \<longleftrightarrow>
     ar_table env = ar_table s \<and> ar_ticks env = ar_ticks s \<and> arp_requester_notified N cfg ch env = Some s' \<and>
     arp_trace N cfg s' tr"

lemma trace_resolves:
  assumes "arp_trace N cfg s tr" "wf_arp (ar_table s)" "ar_ticks s \<noteq> 0"
    and "arp_lookup (ar_table s) ip = Some e" "ae_state e = ARP_STATE_PENDING"
    and timer: "\<not> is_client_channel cfg (rqc_timer_id cfg)" "rqc_timer_id cfg \<noteq> rqc_rx_id cfg"
    and "budget (ar_ticks s) e \<le> length (filter (\<lambda>(ch, _). ch = rqc_timer_id cfg) tr)"
  shows "\<exists>(ch, env, s') \<in> set tr. \<exists>e'. arp_lookup (ar_table s') ip = Some e' \<and> resolved e'"
  using assms(1-5,8)
proof (induction tr arbitrary: s e)
  case Nil
  then show ?case using ticks_left_bounds(1) [of e] by (simp add: budget_def)
next
  case (Cons ev tr)
  obtain ch env s' where ev: "ev = (ch, env, s')" by (cases ev) auto
  have st: "ar_table env = ar_table s" "ar_ticks env = ar_ticks s" "arp_requester_notified N cfg ch env = Some s'"
    "arp_trace N cfg s' tr" using Cons.prems(1) by (simp_all add: ev)
  have "wf_arp (ar_table env)" "ar_ticks env \<noteq> 0" "arp_lookup (ar_table env) ip = Some e" using st Cons.prems by simp_all
  from notified_budget [OF st(3) this Cons.prems(5) timer] obtain e' where
    e': "wf_arp (ar_table s')" "ar_ticks s' \<noteq> 0" "arp_lookup (ar_table s') ip = Some e'"
      "resolved e' \<or> ae_state e' = ARP_STATE_PENDING \<and>
         budget (ar_ticks s') e' + (if ch = rqc_timer_id cfg then 1 else 0) \<le> budget (ar_ticks env) e" by blast
  from e'(4) show ?case
  proof
    assume "resolved e'"
    with e'(3) show ?thesis by (auto simp: ev)
  next
    assume p: "ae_state e' = ARP_STATE_PENDING \<and>
        budget (ar_ticks s') e' + (if ch = rqc_timer_id cfg then 1 else 0) \<le> budget (ar_ticks env) e"
    then have "budget (ar_ticks s') e' \<le> length (filter (\<lambda>(ch, _). ch = rqc_timer_id cfg) tr)"
      using Cons.prems(6) st(2) by (auto simp: ev split: if_splits)
    from Cons.IH [OF st(4) e'(1-3) conjunct1 [OF p] this] show ?thesis by (auto simp: ev)
  qed
qed

text \<open>C4: a pending request is resolved. Once the cache holds a pending entry for an address, then in every
  run of the requester, whatever the other events and packets are, at most seven timer ticks pass before
  an event leaves the entry reachable, because a reply came, or unreachable, because the retries ran out;
  a flush of the cache in between takes one of the seven.\<close>

theorem arp_pending_resolved:
  assumes "arp_trace N cfg s tr" "wf_arp (ar_table s)" "ar_ticks s \<noteq> 0"
    and "arp_lookup (ar_table s) ip = Some e" "ae_state e = ARP_STATE_PENDING"
    and "\<not> is_client_channel cfg (rqc_timer_id cfg)" "rqc_timer_id cfg \<noteq> rqc_rx_id cfg"
    and "7 \<le> length (filter (\<lambda>(ch, _). ch = rqc_timer_id cfg) tr)"
  shows "\<exists>(ch, env, s') \<in> set tr. \<exists>e'. arp_lookup (ar_table s') ip = Some e' \<and>
    (ae_state e' = ARP_STATE_REACHABLE \<or> ae_state e' = ARP_STATE_UNREACHABLE)"
  using trace_resolves [OF assms(1-7)] order_trans [OF budget_le assms(8)] by (simp add: resolved_def)

text \<open>A requester with one pending entry, two clients and one transmit buffer.\<close>

definition ex_rq_cfg :: fw_arp_requester_config where
  "ex_rq_cfg = \<lparr>rqc_mac_addr = [2, 0, 0, 0, 0, 1], rqc_ip = 0x0100000A, rqc_client_ch = [1, 2],
     rqc_num_arp_clients = 2, rqc_rx_id = 3, rqc_tx_id = 4, rqc_timer_id = 5\<rparr>"

definition ex_list_net :: list_net where
  "ex_list_net = \<lparr>ln_free = [\<lparr>io_or_offset = 0, nb_len = 0\<rparr>], ln_active = [], ln_room = 4,
     ln_want_free = False, ln_want_active = True\<rparr>"

definition ex_arq :: "fw_arp_request fw_queue" where
  "ex_arq = \<lparr>fq_idx = \<lparr>idx_tail = 0, idx_head = 0\<rparr>, fq_entries = replicate 4
     \<lparr>aq_ip = 0, aq_mac_addr = replicate 6 0, aq_state = ARP_STATE_INVALID\<rparr>, fq_capacity = 4\<rparr>"

definition ex_requester :: "list_net arp_requester" where
  "ex_requester = \<lparr>ar_rx = ex_list_net, ar_tx = ex_list_net, ar_rx_data = (\<lambda>_. 0), ar_tx_data = (\<lambda>_. 0),
     ar_req = [ex_arq, ex_arq], ar_resp = [ex_arq, ex_arq], ar_table = ex_arp, ar_transmitted = False,
     ar_notify_client = [False, False], ar_ticks = 300, ar_out = []\<rparr>"

lemma ex_rq_n: "num_arp_clients ex_rq_cfg = 2" by (simp add: num_arp_clients_def ex_rq_cfg_def)

lemma ex_requester_ok: "requester_ok list_net_view ex_rq_cfg ex_requester"
proof -
  have "wf_fw_queue ex_arq" by (simp add: wf_fw_queue_def ex_arq_def fq_count_def)
  then show ?thesis
    using ex_arp_wf
    unfolding requester_ok_def ex_rq_n
    by (simp add: ex_requester_def net_fits_def list_net_view_def ex_list_net_def less_2_cases_iff all_conj_distrib)
qed

theorem arp_requester_safe_witness:
  "\<exists>s'. arp_requester_notified list_net_ops ex_rq_cfg 5 ex_requester = Some s' \<and>
     net_buffers list_net_view (ar_tx s') = {#0#}"
  using arp_requester_safe [OF list_net_laws ex_requester_ok, of 5]
  by (auto simp: net_buffers_def list_net_view_def ex_requester_def ex_list_net_def)

text \<open>Seven ticks of it.\<close>

lemma ticks_trace:
  assumes "requester_ok list_net_view ex_rq_cfg s"
  shows "\<exists>tr. arp_trace list_net_ops ex_rq_cfg s tr \<and> map fst tr = replicate n 5"
  using assms
proof (induction n arbitrary: s)
  case (Suc n)
  obtain s' where s': "arp_requester_notified list_net_ops ex_rq_cfg 5 s = Some s'" "requester_ok list_net_view ex_rq_cfg s'"
    using notified_moves [OF list_net_laws Suc.prems, of 5] requester_moves_ok by blast
  from Suc.IH [OF s'(2)] obtain tr where "arp_trace list_net_ops ex_rq_cfg s' tr" "map fst tr = replicate n 5" by blast
  with s' show ?case by (intro exI [of _ "(5, s, s') # tr"]) simp
qed simp

theorem arp_pending_resolved_witness:
  "\<exists>tr. arp_trace list_net_ops ex_rq_cfg ex_requester tr \<and> length tr = 7 \<and>
     (\<exists>(ch, env, s') \<in> set tr. \<exists>e'. arp_lookup (ar_table s') 7 = Some e' \<and>
       (ae_state e' = ARP_STATE_REACHABLE \<or> ae_state e' = ARP_STATE_UNREACHABLE))"
proof -
  obtain tr where tr: "arp_trace list_net_ops ex_rq_cfg ex_requester tr" "map fst tr = replicate 7 5"
    using ticks_trace [OF ex_requester_ok] by blast
  have len: "length tr = 7" using arg_cong [OF tr(2), of length] by simp
  have "filter (\<lambda>(ch, _). ch = rqc_timer_id ex_rq_cfg) tr = tr"
  proof (rule filter_True)
    show "\<forall>x \<in> set tr. case x of (ch, _) \<Rightarrow> ch = rqc_timer_id ex_rq_cfg"
    proof
      fix x assume "x \<in> set tr"
      then have "fst x \<in> set (map fst tr)" by simp
      then have "fst x = 5" unfolding tr(2) by simp
      then show "case x of (ch, _) \<Rightarrow> ch = rqc_timer_id ex_rq_cfg" by (simp add: split_def ex_rq_cfg_def)
    qed
  qed
  then have n: "7 \<le> length (filter (\<lambda>(ch, _). ch = rqc_timer_id ex_rq_cfg) tr)" using len by simp
  have wf: "wf_arp (ar_table ex_requester)" using ex_arp_wf by (simp add: ex_requester_def)
  have "arp_lookup (ar_table ex_requester) 7 = Some (at_entries ex_arp ! 0)"
    by (subst arp_lookup_iff [OF wf]) (simp add: ex_requester_def ex_arp_def entry_for_def)
  moreover have "ar_ticks ex_requester \<noteq> 0" "ae_state (at_entries ex_arp ! 0) = ARP_STATE_PENDING"
    "\<not> is_client_channel ex_rq_cfg (rqc_timer_id ex_rq_cfg)" "rqc_timer_id ex_rq_cfg \<noteq> rqc_rx_id ex_rq_cfg"
    by (simp_all add: ex_requester_def ex_arp_def ex_rq_cfg_def is_client_channel_def)
  ultimately show ?thesis
    using arp_pending_resolved [OF tr(1) wf _ _ _ _ _ n] tr(1) len by blast
qed

end
