(* ===== verification/Fw_Arp_Responder.thy ===== *)
theory Fw_Arp_Responder
  imports Fw_Net
begin

text \<open>
  \<open>examples/firewall/arp/arp_responder.c\<close>: the component that answers ARP requests for the address of the
  firewall. It takes packets from its receive queue, answers those that ask for its address out of a
  free transmit buffer, and returns every received buffer.
\<close>

subsection \<open>Definitions\<close>

record fw_arp_responder_config =
  rsc_mac_addr :: mac
  rsc_ip :: u32
  rsc_rx_id :: u8
  rsc_tx_id :: u8

text \<open>The signals that \<open>receive\<close> sends: \<open>rs_notified\<close> for the receive virtualiser, \<open>rs_deferred\<close> for the
  transmit virtualiser.\<close>

record 'q arp_responder =
  rs_rx :: 'q
  rs_tx :: 'q
  rs_rx_data :: memory
  rs_tx_data :: memory
  rs_notified :: "u8 list"
  rs_deferred :: "u8 list"

text \<open>The reply is dropped when there is no free buffer; the padding keeps what was in the buffer.\<close>

definition arp_reply :: "'q net_ops \<Rightarrow> mac \<Rightarrow> mac \<Rightarrow> mac \<Rightarrow> u32 \<Rightarrow> mac \<Rightarrow> u32 \<Rightarrow> 'q arp_responder
    \<Rightarrow> (int \<times> 'q arp_responder) option" where
  "arp_reply N ethsrc ethdst hwsrc ipsrc hwdst ipdst s =
     (if net_queue_empty_free N (rs_tx s) then Some (-1, s)
      else do {
        (buffer, tx) \<leftarrow> taken (net_dequeue_free N (rs_tx s));
        let pkt = unat (io_or_offset buffer);
        let m1 = write_eth (rs_tx_data s) pkt \<lparr>ethdst_addr = take ETH_HWADDR_LEN ethdst,
                   ethsrc_addr = take ETH_HWADDR_LEN ethsrc, ethtype = htons ETH_TYPE_ARP\<rparr>;
        let m2 = write_arp m1 pkt \<lparr>hwtype = htons ARP_HWTYPE_ETH, arp_protocol = htons ETH_TYPE_IP,
                   hwlen = of_nat ETH_HWADDR_LEN, protolen = ARP_PROTO_LEN_IPV4,
                   opcode = htons ARP_ETH_OPCODE_REPLY, hwsrc_addr = take ETH_HWADDR_LEN hwsrc, ipsrc_addr = ipsrc,
                   hwdst_addr = take ETH_HWADDR_LEN hwdst, ipdst_addr = ipdst, padding = padding (read_arp m1 pkt)\<rparr>;
        tx' \<leftarrow> stored (net_enqueue_active N tx (buffer\<lparr>nb_len := of_nat ARP_PKT_LEN\<rparr>));
        Some (0, s\<lparr>rs_tx := tx', rs_tx_data := m2\<rparr>)
      })"

definition is_request_for :: "u32 \<Rightarrow> memory \<Rightarrow> nat \<Rightarrow> bool" where
  "is_request_for ip m pkt \<longleftrightarrow> ethtype (read_eth m pkt) = htons ETH_TYPE_ARP \<and>
     opcode (read_arp m pkt) = htons ARP_ETH_OPCODE_REQUEST \<and> ipdst_addr (read_arp m pkt) = ip"

text \<open>One received packet; the flags are \<open>transmitted\<close> and \<open>returned\<close>.\<close>

definition receive_step :: "'q net_ops \<Rightarrow> fw_arp_responder_config \<Rightarrow> 'q arp_responder \<times> bool \<times> bool
    \<Rightarrow> ('q arp_responder \<times> bool \<times> bool) option" where
  "receive_step N cfg = (\<lambda>(s, transmitted, returned). do {
     (buffer, rx) \<leftarrow> taken (net_dequeue_active N (rs_rx s));
     let pkt = unat (io_or_offset buffer);
     let arp = read_arp (rs_rx_data s) pkt;
     let s1 = s\<lparr>rs_rx := rx\<rparr>;
     (s2, transmitted') \<leftarrow>
       (if is_request_for (rsc_ip cfg) (rs_rx_data s) pkt
        then map_option (\<lambda>(err, s'). (s', transmitted \<or> err = 0))
          (arp_reply N (rsc_mac_addr cfg) (ethsrc_addr (read_eth (rs_rx_data s) pkt)) (rsc_mac_addr cfg) (rsc_ip cfg)
            (hwsrc_addr arp) (ipsrc_addr arp) s1)
        else Some (s1, transmitted));
     rx' \<leftarrow> stored (net_enqueue_free N (rs_rx s2) buffer);
     Some (s2\<lparr>rs_rx := rx'\<rparr>, transmitted', True)
   })"

definition receive :: "'q net_ops \<Rightarrow> fw_arp_responder_config \<Rightarrow> 'q arp_responder \<Rightarrow> 'q arp_responder option" where
  "receive N cfg s = do {
     (s1, transmitted, returned) \<leftarrow> serve_active N (\<lambda>(s, f). rs_rx s) (\<lambda>q (s, f). (s\<lparr>rs_rx := q\<rparr>, f))
       (receive_step N cfg) (s, False, False);
     let s2 = (if returned \<and> net_require_signal_free N (rs_rx s1)
               then s1\<lparr>rs_rx := net_cancel_signal_free N (rs_rx s1), rs_notified := rs_notified s1 @ [rsc_rx_id cfg]\<rparr>
               else s1);
     Some (if transmitted \<and> net_require_signal_active N (rs_tx s2)
           then s2\<lparr>rs_tx := net_cancel_signal_active N (rs_tx s2), rs_deferred := rs_deferred s2 @ [rsc_tx_id cfg]\<rparr>
           else s2)
   }"

definition arp_responder_notified :: "'q net_ops \<Rightarrow> fw_arp_responder_config \<Rightarrow> u8 \<Rightarrow> 'q arp_responder
    \<Rightarrow> 'q arp_responder option" where
  "arp_responder_notified N cfg ch s = (if ch = rsc_rx_id cfg then receive N cfg s else Some s)"

subsection \<open>What is sent\<close>

text \<open>A reply in the transmit region.\<close>

definition is_reply :: "fw_arp_responder_config \<Rightarrow> mac \<Rightarrow> mac \<Rightarrow> u32 \<Rightarrow> memory \<Rightarrow> nat \<Rightarrow> bool" where
  "is_reply cfg ethdst hwdst ipdst m pkt \<longleftrightarrow>
     read_eth m pkt = \<lparr>ethdst_addr = ethdst, ethsrc_addr = rsc_mac_addr cfg, ethtype = htons ETH_TYPE_ARP\<rparr> \<and>
     (\<exists>pad. read_arp m pkt = \<lparr>hwtype = htons ARP_HWTYPE_ETH, arp_protocol = htons ETH_TYPE_IP, hwlen = 6, protolen = 4,
        opcode = htons ARP_ETH_OPCODE_REPLY, hwsrc_addr = rsc_mac_addr cfg, ipsrc_addr = rsc_ip cfg,
        hwdst_addr = hwdst, ipdst_addr = ipdst, padding = pad\<rparr>)"

lemma read_arp_lengths [simp]:
  "length (hwsrc_addr (read_arp m pkt)) = ETH_HWADDR_LEN" "length (padding (read_arp m pkt)) = 18"
  "length (ethsrc_addr (read_eth m pkt)) = ETH_HWADDR_LEN"
  by (simp_all add: read_arp_def arp_pkt_of_def read_eth_def eth_hdr_of_def ETH_HWADDR_LEN_def ETH_HDR_LEN_def)

lemma read_write_arp: "wf_arp_pkt p \<Longrightarrow> read_arp (write_arp m pkt p) pkt = p"
  by (simp add: read_arp_def write_arp_def)

lemma read_eth_write_arp: "wf_arp_pkt p \<Longrightarrow> read_eth (write_arp m pkt p) pkt = read_eth m pkt"
  by (simp add: read_eth_def write_arp_def rd_wr_apart ARP_PKT_OFFSET_def)

text \<open>What one packet does to the two queues. The buffers stay in their queues, a request for the address
  of the firewall is answered when there is a free buffer, and nothing else is sent.\<close>

definition responder_ok :: "'q net_view \<Rightarrow> 'q arp_responder \<Rightarrow> bool" where
  "responder_ok V s \<longleftrightarrow> net_fits V (rs_rx s) \<and> net_fits V (rs_tx s)"

definition answered :: "fw_arp_responder_config \<Rightarrow> memory \<Rightarrow> net_buff_desc \<Rightarrow> memory \<Rightarrow> net_buff_desc \<Rightarrow> bool" where
  "answered cfg m b m' b' \<longleftrightarrow> nb_len b' = of_nat ARP_PKT_LEN \<and>
     is_reply cfg (ethsrc_addr (read_eth m (unat (io_or_offset b)))) (hwsrc_addr (read_arp m (unat (io_or_offset b))))
       (ipsrc_addr (read_arp m (unat (io_or_offset b)))) m' (unat (io_or_offset b'))"

lemma arp_reply_sends:
  assumes laws: "net_queue_laws N V" and fits: "net_fits V (rs_tx s)" and ne: "nv_free V (rs_tx s) = f # fs"
    and mac: "length (rsc_mac_addr cfg) = ETH_HWADDR_LEN" "length ethdst = ETH_HWADDR_LEN" "length hwdst = ETH_HWADDR_LEN"
  shows "\<exists>s' b'. arp_reply N (rsc_mac_addr cfg) ethdst (rsc_mac_addr cfg) (rsc_ip cfg) hwdst ipdst s = Some (0, s') \<and>
    io_or_offset b' = io_or_offset f \<and> nb_len b' = of_nat ARP_PKT_LEN \<and>
    net_kept V (rs_tx s) (rs_tx s') \<and> nv_free V (rs_tx s') = fs \<and> nv_active V (rs_tx s') = nv_active V (rs_tx s) @ [b'] \<and>
    rs_rx s' = rs_rx s \<and> rs_rx_data s' = rs_rx_data s \<and>
    is_reply cfg ethdst hwdst ipdst (rs_tx_data s') (unat (io_or_offset b')) \<and>
    (\<forall>a. a < unat (io_or_offset f) \<or> unat (io_or_offset f) + 60 \<le> a \<longrightarrow> rs_tx_data s' a = rs_tx_data s a)"
proof -
  have "nv_ok V (rs_tx s)" using fits by (simp add: net_fits_def)
  then have ne': "\<not> net_queue_empty_free N (rs_tx s)" using net_empty(1) [OF laws] ne by simp
  from net_free_to_active [OF laws fits ne'] obtain b q1 q2 where
    q: "taken (net_dequeue_free N (rs_tx s)) = Some (b, q1)"
      "stored (net_enqueue_active N q1 (b\<lparr>nb_len := of_nat ARP_PKT_LEN\<rparr>)) = Some q2" "net_kept V (rs_tx s) q2"
      "nv_active V q2 = nv_active V (rs_tx s) @ [b\<lparr>nb_len := of_nat ARP_PKT_LEN\<rparr>]" "nv_free V (rs_tx s) = b # nv_free V q2"
    by blast
  let ?pkt = "unat (io_or_offset b)"
  let ?eth = "\<lparr>ethdst_addr = ethdst, ethsrc_addr = rsc_mac_addr cfg, ethtype = htons ETH_TYPE_ARP\<rparr>"
  let ?m1 = "write_eth (rs_tx_data s) ?pkt ?eth"
  let ?arp = "\<lparr>hwtype = htons ARP_HWTYPE_ETH, arp_protocol = htons ETH_TYPE_IP, hwlen = of_nat ETH_HWADDR_LEN,
    protolen = ARP_PROTO_LEN_IPV4, opcode = htons ARP_ETH_OPCODE_REPLY, hwsrc_addr = rsc_mac_addr cfg,
    ipsrc_addr = rsc_ip cfg, hwdst_addr = hwdst, ipdst_addr = ipdst, padding = padding (read_arp ?m1 ?pkt)\<rparr>"
  have wf: "wf_arp_pkt ?arp" "wf_eth_hdr ?eth" using mac by (simp_all add: wf_arp_pkt_def wf_eth_hdr_def)
  have "read_eth ?m1 ?pkt = ?eth" using wf(2) by (simp add: read_eth_def write_eth_def)
  then have "is_reply cfg ethdst hwdst ipdst (write_arp ?m1 ?pkt ?arp) ?pkt"
    using wf(1) by (simp add: is_reply_def read_write_arp read_eth_write_arp ETH_HWADDR_LEN_def ARP_PROTO_LEN_IPV4_def)
  moreover have "write_arp ?m1 ?pkt ?arp a = rs_tx_data s a" if "a < ?pkt \<or> ?pkt + 60 \<le> a" for a
    using that wf by (auto simp: write_arp_def write_eth_def wr_bytes_def ARP_PKT_OFFSET_def ETH_HDR_LEN_def)
  moreover have "arp_reply N (rsc_mac_addr cfg) ethdst (rsc_mac_addr cfg) (rsc_ip cfg) hwdst ipdst s =
      Some (0, s\<lparr>rs_tx := q2, rs_tx_data := write_arp ?m1 ?pkt ?arp\<rparr>)"
    using ne' q(1,2) mac by (simp add: arp_reply_def Let_def)
  ultimately show ?thesis
    using q ne by (intro exI [of _ "s\<lparr>rs_tx := q2, rs_tx_data := write_arp ?m1 ?pkt ?arp\<rparr>"]
      exI [of _ "b\<lparr>nb_len := of_nat ARP_PKT_LEN\<rparr>"]) simp
qed

text \<open>A reply stays what it is while other buffers are written.\<close>

lemma is_reply_frame:
  assumes "is_reply cfg e h i m pkt" "\<And>a. pkt \<le> a \<Longrightarrow> a < pkt + 60 \<Longrightarrow> m' a = m a"
  shows "is_reply cfg e h i m' pkt"
proof -
  have "rd_bytes m' pkt ETH_HDR_LEN = rd_bytes m pkt ETH_HDR_LEN"
    "rd_bytes m' (pkt + ARP_PKT_OFFSET) 46 = rd_bytes m (pkt + ARP_PKT_OFFSET) 46"
    using assms(2) by (auto simp: rd_bytes_def ETH_HDR_LEN_def ARP_PKT_OFFSET_def)
  with assms(1) show ?thesis by (simp add: is_reply_def read_eth_def read_arp_def)
qed

text \<open>The buffers of the transmit region do not overlap.\<close>

definition bufs_apart :: "net_buff_desc \<Rightarrow> net_buff_desc \<Rightarrow> bool" where
  "bufs_apart b c \<longleftrightarrow> unat (io_or_offset b) + 60 \<le> unat (io_or_offset c) \<or> unat (io_or_offset c) + 60 \<le> unat (io_or_offset b)"

definition requests_in :: "fw_arp_responder_config \<Rightarrow> memory \<Rightarrow> net_buff_desc list \<Rightarrow> net_buff_desc list" where
  "requests_in cfg m = filter (\<lambda>b. is_request_for (rsc_ip cfg) m (unat (io_or_offset b)))"

text \<open>Halfway through the loop, with \<open>done\<close> the packets taken so far and \<open>rs\<close> the replies.\<close>

definition progress :: "'q net_view \<Rightarrow> fw_arp_responder_config \<Rightarrow> 'q arp_responder \<Rightarrow> net_buff_desc list
    \<Rightarrow> net_buff_desc list \<Rightarrow> 'q arp_responder \<Rightarrow> bool" where
  "progress V cfg s done rs t \<longleftrightarrow> responder_ok V t \<and> rs_rx_data t = rs_rx_data s \<and>
     nv_active V (rs_rx s) = done @ nv_active V (rs_rx t) \<and> nv_free V (rs_rx t) = nv_free V (rs_rx s) @ done \<and>
     nv_active V (rs_tx t) = nv_active V (rs_tx s) @ rs \<and> nv_free V (rs_tx t) = drop (length rs) (nv_free V (rs_tx s)) \<and>
     map io_or_offset rs = map io_or_offset (take (length rs) (nv_free V (rs_tx s))) \<and>
     list_all2 (\<lambda>b b'. answered cfg (rs_rx_data s) b (rs_tx_data t) b')
       (take (length (nv_free V (rs_tx s))) (requests_in cfg (rs_rx_data s) done)) rs"

lemma receive_step_progress:
  assumes laws: "net_queue_laws N V" and mac: "length (rsc_mac_addr cfg) = ETH_HWADDR_LEN"
    and apart: "sorted_wrt bufs_apart (nv_free V (rs_tx s))"
    and p: "progress V cfg s done rs t" and ne: "\<not> net_queue_empty_active N (rs_rx t)"
  shows "\<exists>t' b rs' f. receive_step N cfg (t, f0, r0) = Some (t', f, True) \<and> progress V cfg s (done @ [b]) rs' t' \<and>
    length (nv_active V (rs_rx t')) < length (nv_active V (rs_rx t))"
proof -
  let ?m = "rs_rx_data s" and ?free = "nv_free V (rs_tx s)"
  have fits: "net_fits V (rs_rx t)" "net_fits V (rs_tx t)" using p by (simp_all add: progress_def responder_ok_def)
  from net_active_to_free [OF laws fits(1) ne] obtain b q1 q2 where
    q: "taken (net_dequeue_active N (rs_rx t)) = Some (b, q1)" "stored (net_enqueue_free N q1 b) = Some q2"
      "net_kept V (rs_rx t) q2" "nv_active V (rs_rx t) = b # nv_active V q2" "nv_free V q2 = nv_free V (rs_rx t) @ [b]" by blast
  let ?pkt = "unat (io_or_offset b)" and ?t1 = "t\<lparr>rs_rx := q1\<rparr>"
  let ?done = "done @ [b]"
  have m: "rs_rx_data t = ?m" using p by (simp add: progress_def)
  have kept: "net_fits V q2" using q(3) by (simp add: net_kept_def)
  have lrs: "length rs = min (length ?free) (length (requests_in cfg ?m done))"
    using p by (auto simp: progress_def dest: list_all2_lengthD)
  have same: "progress V cfg s ?done rs (t\<lparr>rs_rx := q2\<rparr>)"
    if "take (length ?free) (requests_in cfg ?m ?done) = take (length ?free) (requests_in cfg ?m done)"
    using p q kept that by (simp add: progress_def responder_ok_def)
  show ?thesis
  proof (cases "is_request_for (rsc_ip cfg) ?m ?pkt")
    case False
    then have "requests_in cfg ?m ?done = requests_in cfg ?m done" by (simp add: requests_in_def)
    with same have "progress V cfg s ?done rs (t\<lparr>rs_rx := q2\<rparr>)" by simp
    moreover have "receive_step N cfg (t, f0, r0) = Some (t\<lparr>rs_rx := q2\<rparr>, f0, True)"
      using q(1,2) False m by (simp add: receive_step_def Let_def)
    ultimately show ?thesis using q(4) by (intro exI [of _ "t\<lparr>rs_rx := q2\<rparr>"]) auto
  next
    case True
    then have reqs: "requests_in cfg ?m ?done = requests_in cfg ?m done @ [b]" by (simp add: requests_in_def)
    let ?arp = "read_arp ?m ?pkt" and ?eth = "read_eth ?m ?pkt"
    show ?thesis
    proof (cases "nv_free V (rs_tx t)")
      case Nil
      have "drop (length rs) ?free = []" using p Nil by (simp add: progress_def)
      then have "length ?free \<le> length (requests_in cfg ?m done)" using lrs by simp
      then have "progress V cfg s ?done rs (t\<lparr>rs_rx := q2\<rparr>)" by (intro same) (simp add: reqs)
      moreover have "nv_ok V (rs_tx t)" using fits(2) by (simp add: net_fits_def)
      then have "net_queue_empty_free N (rs_tx t)" using net_empty(1) [OF laws] Nil by simp
      then have "receive_step N cfg (t, f0, r0) = Some (t\<lparr>rs_rx := q2\<rparr>, f0, True)"
        using q(1,2) True m by (simp add: receive_step_def Let_def arp_reply_def)
      ultimately show ?thesis using q(4) by (intro exI [of _ "t\<lparr>rs_rx := q2\<rparr>"]) auto
    next
      case (Cons f fs)
      have 1: "net_fits V (rs_tx ?t1)" "nv_free V (rs_tx ?t1) = f # fs" using fits(2) Cons by simp_all
      from arp_reply_sends [OF laws 1 mac, of "ethsrc_addr ?eth" "hwsrc_addr ?arp" "ipsrc_addr ?arp"] obtain t2 b' where
        t2: "arp_reply N (rsc_mac_addr cfg) (ethsrc_addr ?eth) (rsc_mac_addr cfg) (rsc_ip cfg) (hwsrc_addr ?arp) (ipsrc_addr ?arp) ?t1
            = Some (0, t2)" "io_or_offset b' = io_or_offset f" "nb_len b' = of_nat ARP_PKT_LEN" "net_kept V (rs_tx ?t1) (rs_tx t2)"
          "nv_free V (rs_tx t2) = fs" "nv_active V (rs_tx t2) = nv_active V (rs_tx ?t1) @ [b']" "rs_rx t2 = rs_rx ?t1"
          "rs_rx_data t2 = rs_rx_data ?t1"
          "is_reply cfg (ethsrc_addr ?eth) (hwsrc_addr ?arp) (ipsrc_addr ?arp) (rs_tx_data t2) (unat (io_or_offset b'))"
          "\<forall>a. a < unat (io_or_offset f) \<or> unat (io_or_offset f) + 60 \<le> a \<longrightarrow> rs_tx_data t2 a = rs_tx_data ?t1 a"
        by auto
      let ?t' = "t2\<lparr>rs_rx := q2\<rparr>"
      have rest: "drop (length rs) ?free = f # fs" using p Cons by (simp add: progress_def)
      then have lt: "length rs < length ?free" by (metis drop_eq_Nil list.distinct(1) not_le)
      then have all: "length rs = length (requests_in cfg ?m done)" using lrs by simp
      have "drop (Suc (length rs)) ?free = fs" using rest by (metis drop_Suc list.sel(3) tl_drop)
      moreover have nth: "take (Suc (length rs)) ?free = take (length rs) ?free @ [f]"
        using rest lt by (simp add: take_Suc_conv_app_nth) (metis hd_drop_conv_nth list.sel(1))
      ultimately have cut: "take (length (rs @ [x])) ?free = take (length rs) ?free @ [f]"
        "drop (length (rs @ [x])) ?free = fs" for x by simp_all
      have old: "answered cfg ?m c (rs_tx_data ?t') c'" if "c' \<in> set rs" "answered cfg ?m c (rs_tx_data t) c'" for c c'
      proof -
        have "io_or_offset c' \<in> set (map io_or_offset (take (length rs) ?free))"
          using p that(1) unfolding progress_def by (metis image_eqI list.set_map)
        then obtain d where d: "d \<in> set (take (length rs) ?free)" "io_or_offset d = io_or_offset c'" by auto
        have "sorted_wrt bufs_apart (take (length rs) ?free @ drop (length rs) ?free)" using apart by simp
        then have "bufs_apart d f" using d(1) unfolding rest sorted_wrt_append by auto
        then have "rs_tx_data t2 a = rs_tx_data t a" if "unat (io_or_offset c') \<le> a" "a < unat (io_or_offset c') + 60" for a
          using t2(10) that d(2) by (auto simp: bufs_apart_def)
        with that(2) is_reply_frame show ?thesis by (auto simp: answered_def)
      qed
      have la: "list_all2 (\<lambda>b b'. answered cfg ?m b (rs_tx_data t) b') (requests_in cfg ?m done) rs"
        using p all lt by (simp add: progress_def)
      then have "list_all2 (\<lambda>b b'. answered cfg ?m b (rs_tx_data ?t') b') (requests_in cfg ?m done) rs"
        by (rule list.rel_mono_strong) (rule old)
      moreover have "answered cfg ?m b (rs_tx_data ?t') b'" using t2(3,9) by (simp add: answered_def)
      ultimately have "list_all2 (\<lambda>b b'. answered cfg ?m b (rs_tx_data ?t') b')
          (take (length ?free) (requests_in cfg ?m ?done)) (rs @ [b'])"
        using reqs all lt by (simp add: list_all2_appendI)
      moreover have "map io_or_offset (rs @ [b']) = map io_or_offset (take (length (rs @ [b'])) ?free)"
        using p t2(2) unfolding cut by (simp add: progress_def)
      moreover have "fs = drop (length (rs @ [b'])) ?free" unfolding cut by (rule refl)
      moreover have "net_fits V (rs_tx t2)" using t2(4) by (simp add: net_kept_def)
      ultimately have "progress V cfg s ?done (rs @ [b']) ?t'"
        using p q kept t2(5-8) by (simp add: progress_def responder_ok_def)
      moreover have "receive_step N cfg (t, f0, r0) = Some (?t', True, True)"
        using q(1,2) True m t2(1,7) by (simp add: receive_step_def Let_def)
      ultimately show ?thesis using q(4) by (intro exI [of _ ?t']) auto
    qed
  qed
qed

subsection \<open>What the component promises\<close>

lemma progress_view:
  assumes "progress V cfg s done rs t" "same_view V (rs_rx t) q"
  shows "progress V cfg s done rs (t\<lparr>rs_rx := q\<rparr>)"
  using assms net_fits_view [OF _ assms(2)] by (simp add: progress_def responder_ok_def same_view_def)

lemma progress_view_tx:
  assumes "progress V cfg s done rs t" "same_view V (rs_tx t) q"
  shows "progress V cfg s done rs (t\<lparr>rs_tx := q\<rparr>)"
  using assms net_fits_view [OF _ assms(2)] by (simp add: progress_def responder_ok_def same_view_def)

lemma progress_signals:
  "progress V cfg s done rs (t\<lparr>rs_notified := x\<rparr>) = progress V cfg s done rs t"
  "progress V cfg s done rs (t\<lparr>rs_deferred := y\<rparr>) = progress V cfg s done rs t"
  by (simp_all add: progress_def responder_ok_def)

lemma receive_progress:
  assumes laws: "net_queue_laws N V" and mac: "length (rsc_mac_addr cfg) = ETH_HWADDR_LEN"
    and apart: "sorted_wrt bufs_apart (nv_free V (rs_tx s))" and ok: "responder_ok V s"
  shows "\<exists>rs t. receive N cfg s = Some t \<and> nv_active V (rs_rx t) = [] \<and> progress V cfg s (nv_active V (rs_rx s)) rs t"
proof -
  let ?get = "\<lambda>(t, f :: bool \<times> bool). rs_rx t" and ?put = "\<lambda>q (t, f :: bool \<times> bool). (t\<lparr>rs_rx := q\<rparr>, f)"
  let ?I = "\<lambda>(t, f :: bool \<times> bool). \<exists>done rs. progress V cfg s done rs t"
  have "\<exists>u. serve_active N ?get ?put (receive_step N cfg) (s, False, False) = Some u \<and> ?I u \<and> nv_active V (?get u) = []"
  proof (rule serve_active_total [OF laws, of ?I])
    have "progress V cfg s [] [] s" using ok by (simp add: progress_def requests_in_def)
    then show "?I (s, False, False)" by auto
  next
    fix u assume "?I u"
    then show "nv_ok V (?get u)" by (auto simp: progress_def responder_ok_def net_fits_def)
  next
    fix q u show "?get (?put q u) = q" by (simp add: case_prod_beta)
  next
    fix q u assume "?I u" "same_view V (?get u) q"
    then obtain dn rs where "progress V cfg s dn rs (fst u)" by (auto simp: case_prod_beta)
    moreover have "same_view V (rs_rx (fst u)) q" using \<open>same_view V (?get u) q\<close> by (simp add: case_prod_beta)
    ultimately have "progress V cfg s dn rs ((fst u)\<lparr>rs_rx := q\<rparr>)" by (rule progress_view)
    then show "?I (?put q u)" by (auto simp: case_prod_beta)
  next
    fix u assume I: "?I u" and ne: "\<not> net_queue_empty_active N (?get u)"
    obtain t f0 r0 where u: "u = (t, f0, r0)" by (cases u) auto
    with I obtain dn rs where "progress V cfg s dn rs t" by auto
    from receive_step_progress [OF laws mac apart this, of f0 r0] ne obtain t' b rs' f where
      "receive_step N cfg (t, f0, r0) = Some (t', f, True)" "progress V cfg s (dn @ [b]) rs' t'"
      "length (nv_active V (rs_rx t')) < length (nv_active V (rs_rx t))" unfolding u by auto
    then show "\<exists>u'. receive_step N cfg u = Some u' \<and> ?I u' \<and>
        length (nv_active V (?get u')) < length (nv_active V (?get u))"
      unfolding u by (intro exI [of _ "(t', f, True)"]) auto
  qed
  then obtain t1 f r dn rs where run: "serve_active N ?get ?put (receive_step N cfg) (s, False, False) = Some (t1, f, r)"
    and p: "progress V cfg s dn rs t1" and nil: "nv_active V (rs_rx t1) = []" by auto
  have dn: "dn = nv_active V (rs_rx s)" using p nil by (simp add: progress_def)
  define t2 where "t2 = (if r \<and> net_require_signal_free N (rs_rx t1)
    then t1\<lparr>rs_rx := net_cancel_signal_free N (rs_rx t1), rs_notified := rs_notified t1 @ [rsc_rx_id cfg]\<rparr> else t1)"
  define t3 where "t3 = (if f \<and> net_require_signal_active N (rs_tx t2)
    then t2\<lparr>rs_tx := net_cancel_signal_active N (rs_tx t2), rs_deferred := rs_deferred t2 @ [rsc_tx_id cfg]\<rparr> else t2)"
  have oks: "nv_ok V (rs_rx t1)" "nv_ok V (rs_tx t1)" using p by (simp_all add: progress_def responder_ok_def net_fits_def)
  have "rs_tx t2 = rs_tx t1" by (simp add: t2_def)
  have "progress V cfg s dn rs t2"
    using p progress_view [OF p net_signals(3) [OF laws oks(1)]] by (simp add: t2_def progress_signals)
  moreover have "same_view V (rs_rx t1) (rs_rx t2)"
    using net_signals(3) [OF laws oks(1)] oks(1) by (simp add: t2_def same_view_def)
  ultimately have "progress V cfg s dn rs t3" "nv_active V (rs_rx t3) = []"
    using progress_view_tx [of V cfg s dn rs t2 "net_cancel_signal_active N (rs_tx t2)"]
      net_signals(4) [OF laws oks(2)] \<open>rs_tx t2 = rs_tx t1\<close> nil
    by (simp_all add: t3_def progress_signals same_view_def)
  moreover have "receive N cfg s = Some t3"
    using run unfolding receive_def t3_def t2_def Let_def by simp
  ultimately show ?thesis using dn by blast
qed

text \<open>C17: every packet the responder receives goes back to the free queue in the order of arrival, and the
  requests for the address of the firewall are answered in that order, one each, out of the free transmit
  buffers, until these run out: the reply in the k-th free buffer carries the hardware address of the
  firewall, and names the sender of the k-th request. Nothing else is sent.\<close>

theorem arp_responder_answers:
  assumes "net_queue_laws N V" "length (rsc_mac_addr cfg) = ETH_HWADDR_LEN" "responder_ok V s"
    and "sorted_wrt bufs_apart (nv_free V (rs_tx s))"
  shows "\<exists>t rs. arp_responder_notified N cfg (rsc_rx_id cfg) s = Some t \<and>
    nv_active V (rs_rx t) = [] \<and> nv_free V (rs_rx t) = nv_free V (rs_rx s) @ nv_active V (rs_rx s) \<and>
    nv_active V (rs_tx t) = nv_active V (rs_tx s) @ rs \<and> nv_free V (rs_tx t) = drop (length rs) (nv_free V (rs_tx s)) \<and>
    map io_or_offset rs = map io_or_offset (take (length rs) (nv_free V (rs_tx s))) \<and>
    list_all2 (\<lambda>b b'. answered cfg (rs_rx_data s) b (rs_tx_data t) b')
      (take (length (nv_free V (rs_tx s))) (requests_in cfg (rs_rx_data s) (nv_active V (rs_rx s)))) rs"
proof -
  from receive_progress [OF assms(1,2,4,3)] obtain rs t where
    t: "receive N cfg s = Some t" "nv_active V (rs_rx t) = []" "progress V cfg s (nv_active V (rs_rx s)) rs t" by blast
  then show ?thesis by (intro exI [of _ t] exI [of _ rs]) (simp add: progress_def arp_responder_notified_def)
qed

text \<open>Two requests and a packet that is none; one free buffer.\<close>

definition ex_rs_cfg :: fw_arp_responder_config where
  "ex_rs_cfg = \<lparr>rsc_mac_addr = [2, 0, 0, 0, 0, 1], rsc_ip = 0x0100A8C0, rsc_rx_id = 3, rsc_tx_id = 4\<rparr>"

definition ex_request :: "u8 list" where
  "ex_request = [0xFF, 0xFF, 0xFF, 0xFF, 0xFF, 0xFF, 2, 0, 0, 0, 0, 9, 0x08, 0x06, 0, 1, 0x08, 0, 6, 4, 0, 1,
     2, 0, 0, 0, 0, 9, 192, 168, 0, 9, 0, 0, 0, 0, 0, 0, 192, 168, 0, 1]"

definition ex_rx_data :: memory where
  "ex_rx_data = (\<lambda>a. if a < 42 then ex_request ! a else if 128 \<le> a \<and> a < 170 then ex_request ! (a - 128) else 0)"

definition ex_responder :: "list_net arp_responder" where
  "ex_responder = \<lparr>
     rs_rx = \<lparr>ln_free = [], ln_active = [\<lparr>io_or_offset = 0, nb_len = 60\<rparr>, \<lparr>io_or_offset = 64, nb_len = 60\<rparr>,
       \<lparr>io_or_offset = 128, nb_len = 60\<rparr>], ln_room = 8, ln_want_free = True, ln_want_active = False\<rparr>,
     rs_tx = \<lparr>ln_free = [\<lparr>io_or_offset = 0, nb_len = 0\<rparr>], ln_active = [], ln_room = 8, ln_want_free = False,
       ln_want_active = True\<rparr>,
     rs_rx_data = ex_rx_data, rs_tx_data = (\<lambda>_. 0), rs_notified = [], rs_deferred = []\<rparr>"

lemma ex_requests_in:
  "requests_in ex_rs_cfg (rs_rx_data ex_responder) (nv_active list_net_view (rs_rx ex_responder)) =
     [\<lparr>io_or_offset = 0, nb_len = 60\<rparr>, \<lparr>io_or_offset = 128, nb_len = 60\<rparr>]"
proof -
  have "is_request_for (rsc_ip ex_rs_cfg) (rs_rx_data ex_responder) 0" by code_simp
  moreover have "\<not> is_request_for (rsc_ip ex_rs_cfg) (rs_rx_data ex_responder) 64" by code_simp
  moreover have "is_request_for (rsc_ip ex_rs_cfg) (rs_rx_data ex_responder) 128" by code_simp
  ultimately show ?thesis by (simp add: requests_in_def ex_responder_def list_net_view_def)
qed

theorem arp_responder_answers_witness:
  "\<exists>t b. arp_responder_notified list_net_ops ex_rs_cfg 3 ex_responder = Some t \<and> nv_active list_net_view (rs_tx t) = [b] \<and>
     is_reply ex_rs_cfg [2, 0, 0, 0, 0, 9] [2, 0, 0, 0, 0, 9] 0x0900A8C0 (rs_tx_data t) 0"
proof -
  have tx: "nv_active list_net_view (rs_tx ex_responder) = []"
    "nv_free list_net_view (rs_tx ex_responder) = [\<lparr>io_or_offset = 0, nb_len = 0\<rparr>]" "rsc_rx_id ex_rs_cfg = 3"
    by (simp_all add: ex_rs_cfg_def ex_responder_def list_net_view_def)
  have len: "length (rsc_mac_addr ex_rs_cfg) = ETH_HWADDR_LEN" by (simp add: ex_rs_cfg_def ETH_HWADDR_LEN_def)
  have rok: "responder_ok list_net_view ex_responder"
    by (simp add: ex_responder_def responder_ok_def net_fits_def list_net_view_def)
  have apart: "sorted_wrt bufs_apart (nv_free list_net_view (rs_tx ex_responder))" unfolding tx by simp
  note ok = len rok apart
  have hdr: "ethsrc_addr (read_eth (rs_rx_data ex_responder) 0) = [2, 0, 0, 0, 0, 9]"
    "hwsrc_addr (read_arp (rs_rx_data ex_responder) 0) = [2, 0, 0, 0, 0, 9]"
    "ipsrc_addr (read_arp (rs_rx_data ex_responder) 0) = 0x0900A8C0" by code_simp+
  from arp_responder_answers [OF list_net_laws ok] obtain t rs where t:
    "arp_responder_notified list_net_ops ex_rs_cfg 3 ex_responder = Some t"
    "nv_active list_net_view (rs_tx t) = rs"
    "map io_or_offset rs = map io_or_offset (take (length rs) [\<lparr>io_or_offset = 0, nb_len = 0\<rparr>])"
    "list_all2 (\<lambda>b b'. answered ex_rs_cfg (rs_rx_data ex_responder) b (rs_tx_data t) b') [\<lparr>io_or_offset = 0, nb_len = 60\<rparr>] rs"
    unfolding ex_requests_in tx by auto
  from t(4) obtain b where b: "rs = [b]" "answered ex_rs_cfg (rs_rx_data ex_responder) \<lparr>io_or_offset = 0, nb_len = 60\<rparr> (rs_tx_data t) b"
    by (auto simp: list_all2_Cons1)
  with t(3) have "io_or_offset b = 0" by simp
  with b t(1,2) hdr show ?thesis by (auto simp: answered_def)
qed

end
