(* ===== verification/Fw_Filters.thy ===== *)
theory Fw_Filters
  imports Fw_Filter Fw_Icmp Fw_Net
begin

text \<open>
  The three traffic filters \<open>examples/firewall/filters/tcp_filter.c\<close>, \<open>udp_filter.c\<close> and
  \<open>icmp_filter.c\<close>: the loop that classifies the packets of the receive queue, passes them to the router
  or returns them, and the requests of the web server that change the rules. The state of one filter is
  the record \<open>filter\<close>; the filter for TCP has no queue to the ICMP module and leaves \<open>fl_icmp\<close> alone.

  The log output is not modelled. The three files differ in where they find the ports, in the rejection,
  and in what they take from a request; what is the same in them is defined once.
\<close>

subsection \<open>State\<close>

text \<open>\<open>flc_hw_checksum\<close> is the build option \<open>NETWORK_HW_HAS_CHECKSUM\<close>.\<close>

record fw_filter_config =
  flc_interface :: u8
  flc_rx_id :: u8
  flc_router_ch :: u8
  flc_icmp_ch :: u8
  flc_actions :: "bool list"
  flc_hw_checksum :: bool

record 'q filter =
  fl_rx :: 'q
  fl_rx_data :: memory
  fl_router :: "net_buff_desc fw_queue"
  fl_icmp :: "icmp_req fw_queue"
  fl_state :: fw_filter_state
  fl_notify_icmp :: bool
  fl_notified :: "u8 list"
  fl_deferred :: "u8 list"

definition FW_FILTER_NUM_ACTIONS :: u32 where "FW_FILTER_NUM_ACTIONS = 4"
definition ICMP_FILTER_DUMMY_PORT :: u16 where "ICMP_FILTER_DUMMY_PORT = 0"
definition FILTER_SET_DEFAULT_ACTION :: u64 where "FILTER_SET_DEFAULT_ACTION = 0"
definition FILTER_ADD_RULE :: u64 where "FILTER_ADD_RULE = 1"
definition FILTER_DEL_RULE :: u64 where "FILTER_DEL_RULE = 2"

lemmas filter_labels = FILTER_SET_DEFAULT_ACTION_def FILTER_ADD_RULE_def FILTER_DEL_RULE_def

fun filter_err_code :: "fw_filter_err \<Rightarrow> nat" where
  "filter_err_code FILTER_ERR_OKAY = 0"
| "filter_err_code FILTER_ERR_FULL = 1"
| "filter_err_code FILTER_ERR_DUPLICATE = 2"
| "filter_err_code FILTER_ERR_CLASH = 3"
| "filter_err_code FILTER_ERR_INVALID_RULE_ID = 4"
| "filter_err_code FILTER_ERR_UNSUPPORTED_ACTION = 5"

subsection \<open>One packet\<close>

definition filter_icmp_unreachable :: "fw_filter_config \<Rightarrow> net_buff_desc \<Rightarrow> 'q filter \<Rightarrow> 'q filter option" where
  "filter_icmp_unreachable cfg buffer s = do {
     (enqueued, q) \<leftarrow> icmp_enqueue_error (fl_icmp s) ICMP_DEST_UNREACHABLE ICMP_DEST_PORT_UNREACHABLE (fl_rx_data s)
       (unat (io_or_offset buffer)) (flc_interface cfg);
     Some (s\<lparr>fl_icmp := q, fl_notify_icmp := fl_notify_icmp s \<or> enqueued\<rparr>)
   }"

text \<open>The ports of a packet, the place of its checksum in the transport header, and what a filter does with
  a packet to reject before it drops it.\<close>

record 'q fw_protocol =
  fp_ports :: "memory \<Rightarrow> nat \<Rightarrow> u16 \<times> u16"
  fp_check :: nat
  fp_reject :: "fw_filter_config \<Rightarrow> net_buff_desc \<Rightarrow> 'q filter \<Rightarrow> 'q filter option"

text \<open>The body of the inner loop; the flags are \<open>transmitted\<close> and \<open>returned\<close>. A packet that opens a connection
  is passed on even if there is no room to record it.\<close>

definition filter_packet :: "'q net_ops \<Rightarrow> 'q fw_protocol \<Rightarrow> fw_filter_config \<Rightarrow> 'q filter \<times> bool \<times> bool
    \<Rightarrow> ('q filter \<times> bool \<times> bool) option" where
  "filter_packet N P cfg = (\<lambda>(s, transmitted, returned). do {
     (buffer, rx) \<leftarrow> taken (net_dequeue_active N (fl_rx s));
     let s1 = s\<lparr>fl_rx := rx\<rparr>;
         pkt = unat (io_or_offset buffer);
         ip_hdr = read_ip (fl_rx_data s) pkt;
         hdr = pkt + unat (transport_layer_offset ip_hdr);
         (src_port, dst_port) = fp_ports P (fl_rx_data s) hdr;
         (action, rule_id) = fw_filter_find_action (fl_state s) (src_ip ip_hdr) src_port (dst_ip ip_hdr) dst_port;
         s2 = (if action = FILTER_ACT_CONNECT
               then s1\<lparr>fl_state := snd (fw_filter_add_instance (fl_state s) (src_ip ip_hdr) src_port (dst_ip ip_hdr)
                      dst_port rule_id)\<rparr>
               else s1)
     in if action = FILTER_ACT_CONNECT \<or> action = FILTER_ACT_ESTABLISHED \<or> action = FILTER_ACT_ALLOW
        then do {
          let s3 = (if flc_hw_checksum cfg
                    then s2\<lparr>fl_rx_data := wr_bytes (fl_rx_data s2) (hdr + fp_check P) [0, 0]\<rparr> else s2);
          rq \<leftarrow> stored (fw_enqueue (fl_router s3) buffer);
          Some (s3\<lparr>fl_router := rq\<rparr>, True, returned)
        }
        else do {
          s3 \<leftarrow> (if action = FILTER_ACT_REJECT then fp_reject P cfg buffer s2 else Some s2);
          rx' \<leftarrow> stored (net_enqueue_free N (fl_rx s3) buffer);
          Some (s3\<lparr>fl_rx := rx'\<rparr>, transmitted, True)
        }
   })"

definition filter_loop :: "'q net_ops \<Rightarrow> 'q fw_protocol \<Rightarrow> fw_filter_config \<Rightarrow> 'q filter \<Rightarrow> 'q filter option" where
  "filter_loop N P cfg s = do {
     (s1, transmitted, returned) \<leftarrow> serve_active N (\<lambda>(s, f). fl_rx s) (\<lambda>q (s, f). (s\<lparr>fl_rx := q\<rparr>, f))
       (filter_packet N P cfg) (s, False, False);
     let s2 = (if returned then s1\<lparr>fl_deferred := fl_deferred s1 @ [flc_rx_id cfg]\<rparr> else s1);
     Some (if transmitted then s2\<lparr>fl_notified := fl_notified s2 @ [flc_router_ch cfg]\<rparr> else s2)
   }"

definition tcp_ports :: "memory \<Rightarrow> nat \<Rightarrow> u16 \<times> u16" where
  "tcp_ports m hdr = (tcp_src_port m hdr, tcp_dst_port m hdr)"

definition udp_ports :: "memory \<Rightarrow> nat \<Rightarrow> u16 \<times> u16" where
  "udp_ports m hdr = (udp_src_port m hdr, udp_dst_port m hdr)"

definition icmp_ports :: "memory \<Rightarrow> nat \<Rightarrow> u16 \<times> u16" where
  "icmp_ports m hdr = (ICMP_FILTER_DUMMY_PORT, ICMP_FILTER_DUMMY_PORT)"

text \<open>The TCP filter treats a rejected packet like a dropped one.\<close>

definition tcp_protocol :: "'q fw_protocol" where
  "tcp_protocol = \<lparr>fp_ports = tcp_ports, fp_check = 16,
     fp_reject = (\<lambda>cfg buffer s. Some s)\<rparr>"

definition udp_protocol :: "'q fw_protocol" where
  "udp_protocol = \<lparr>fp_ports = udp_ports, fp_check = 6,
     fp_reject = filter_icmp_unreachable\<rparr>"

definition icmp_reject :: "fw_filter_config \<Rightarrow> net_buff_desc \<Rightarrow> 'q filter \<Rightarrow> 'q filter option" where
  "icmp_reject cfg buffer s =
     (let pkt = unat (io_or_offset buffer);
          hdr = pkt + unat (transport_layer_offset (read_ip (fl_rx_data s) pkt))
      in if \<not> icmp_is_error_message (fl_rx_data s hdr) then filter_icmp_unreachable cfg buffer s else Some s)"

definition icmp_protocol :: "'q fw_protocol" where
  "icmp_protocol = \<lparr>fp_ports = icmp_ports, fp_check = 2,
     fp_reject = icmp_reject\<rparr>"

text \<open>The loops of the three filters.\<close>

definition tcp_filter :: "'q net_ops \<Rightarrow> fw_filter_config \<Rightarrow> 'q filter \<Rightarrow> 'q filter option" where
  "tcp_filter N cfg s = filter_loop N tcp_protocol cfg s"

definition udp_filter :: "'q net_ops \<Rightarrow> fw_filter_config \<Rightarrow> 'q filter \<Rightarrow> 'q filter option" where
  "udp_filter N cfg s = filter_loop N udp_protocol cfg s"

definition icmp_filter :: "'q net_ops \<Rightarrow> fw_filter_config \<Rightarrow> 'q filter \<Rightarrow> 'q filter option" where
  "icmp_filter N cfg s = filter_loop N icmp_protocol cfg s"

subsection \<open>Entry points\<close>

definition tcp_filter_notified :: "'q net_ops \<Rightarrow> fw_filter_config \<Rightarrow> u8 \<Rightarrow> 'q filter \<Rightarrow> 'q filter option" where
  "tcp_filter_notified N cfg ch s = (if ch = flc_rx_id cfg then tcp_filter N cfg s else Some s)"

definition notify_icmp_module :: "fw_filter_config \<Rightarrow> 'q filter \<Rightarrow> 'q filter" where
  "notify_icmp_module cfg s =
     (if fl_notify_icmp s then s\<lparr>fl_notify_icmp := False, fl_notified := fl_notified s @ [flc_icmp_ch cfg]\<rparr> else s)"

definition udp_filter_notified :: "'q net_ops \<Rightarrow> fw_filter_config \<Rightarrow> u8 \<Rightarrow> 'q filter \<Rightarrow> 'q filter option" where
  "udp_filter_notified N cfg ch s =
     map_option (notify_icmp_module cfg) (if ch = flc_rx_id cfg then udp_filter N cfg s else Some s)"

definition icmp_filter_notified :: "'q net_ops \<Rightarrow> fw_filter_config \<Rightarrow> u8 \<Rightarrow> 'q filter \<Rightarrow> 'q filter option" where
  "icmp_filter_notified N cfg ch s =
     map_option (notify_icmp_module cfg) (if ch = flc_rx_id cfg then icmp_filter N cfg s else Some s)"

text \<open>The protected procedures: a label and message registers in, registers to set, their number and the
  new state out. \<open>None\<close> is a failed assertion.\<close>

definition supported_action :: "fw_filter_config \<Rightarrow> u32 \<Rightarrow> bool" where
  "supported_action cfg action \<longleftrightarrow>
     \<not> (action = 0 \<or> action > FW_FILTER_NUM_ACTIONS \<or> \<not> flc_actions cfg ! unat (action - 1))"

definition set_default_action :: "u32 \<Rightarrow> fw_filter_state \<Rightarrow> ((nat \<times> u64) list \<times> nat \<times> fw_filter_state) option" where
  "set_default_action action st = do {
     (err, st') \<leftarrow> fw_filter_update_default_action st action;
     c_assert (err = FILTER_ERR_OKAY);
     Some ([(0, of_nat (filter_err_code err))], 1, st')
   }"

definition rule_reply :: "fw_filter_err \<times> u16 option \<times> fw_filter_state \<Rightarrow> (nat \<times> u64) list \<times> nat \<times> fw_filter_state" where
  "rule_reply r = (case r of (err, rule_id, st) \<Rightarrow>
     ([(0, of_nat (filter_err_code err)), (1, case rule_id of Some i \<Rightarrow> ucast i | None \<Rightarrow> 0)], 2, st))"

definition delete_rule :: "u16 \<Rightarrow> fw_filter_state \<Rightarrow> ((nat \<times> u64) list \<times> nat \<times> fw_filter_state) option" where
  "delete_rule rule_id st =
     map_option (\<lambda>(err, st'). ([(0, of_nat (filter_err_code err))], 1, st')) (fw_filter_remove_rule st rule_id)"

definition filter_protected :: "fw_filter_config \<Rightarrow> u64 \<Rightarrow> (nat \<Rightarrow> u64) \<Rightarrow> fw_filter_state
    \<Rightarrow> ((nat \<times> u64) list \<times> nat \<times> fw_filter_state) option" where
  "filter_protected cfg label mr st =
     (if label = FILTER_SET_DEFAULT_ACTION then set_default_action (ucast (mr 0)) st
      else if label = FILTER_ADD_RULE then
        (let action = ucast (mr 0) in
         if \<not> supported_action cfg action then Some ([(0, of_nat (filter_err_code FILTER_ERR_UNSUPPORTED_ACTION))], 1, st)
         else map_option rule_reply
           (fw_filter_add_rule st (ucast (mr 1)) (ucast (mr 3)) (ucast (mr 5)) (ucast (mr 7)) (ucast (mr 2)) (ucast (mr 6))
             (mr 4 \<noteq> 0) (mr 8 \<noteq> 0) (ucast action)))
      else if label = FILTER_DEL_RULE then delete_rule (ucast (mr 0)) st
      else Some ([], 0, st))"

definition icmp_filter_protected :: "fw_filter_config \<Rightarrow> u64 \<Rightarrow> (nat \<Rightarrow> u64) \<Rightarrow> fw_filter_state
    \<Rightarrow> ((nat \<times> u64) list \<times> nat \<times> fw_filter_state) option" where
  "icmp_filter_protected cfg label mr st =
     (if label = FILTER_SET_DEFAULT_ACTION then set_default_action (ucast (mr 0)) st
      else if label = FILTER_ADD_RULE then
        (let action = ucast (mr 0) in
         if \<not> supported_action cfg action then Some ([(0, of_nat (filter_err_code FILTER_ERR_UNSUPPORTED_ACTION))], 1, st)
         else map_option rule_reply
           (fw_filter_add_rule st (ucast (mr 1)) ICMP_FILTER_DUMMY_PORT (ucast (mr 5)) ICMP_FILTER_DUMMY_PORT (ucast (mr 2))
             (ucast (mr 6)) True True (ucast action)))
      else if label = FILTER_DEL_RULE then delete_rule (ucast (mr 0)) st
      else Some ([], 0, st))"

subsection \<open>What a filter decides\<close>

text \<open>The action for one packet and the rules and connections after it, and those for a list of packets in the
  order of arrival. This is what a filter is for; its queues and loops follow.\<close>

definition verdict :: "(memory \<Rightarrow> nat \<Rightarrow> u16 \<times> u16) \<Rightarrow> memory \<Rightarrow> fw_filter_state \<Rightarrow> net_buff_desc \<Rightarrow> u8 \<times> fw_filter_state" where
  "verdict ports m st b =
     (let pkt = unat (io_or_offset b);
          h = read_ip m pkt;
          (sp, dp) = ports m (pkt + unat (transport_layer_offset h));
          (action, rule_id) = fw_filter_find_action st (src_ip h) sp (dst_ip h) dp
      in (action, if action = FILTER_ACT_CONNECT
                  then snd (fw_filter_add_instance st (src_ip h) sp (dst_ip h) dp rule_id) else st))"

fun verdicts :: "(memory \<Rightarrow> nat \<Rightarrow> u16 \<times> u16) \<Rightarrow> memory \<Rightarrow> fw_filter_state \<Rightarrow> net_buff_desc list
    \<Rightarrow> (u8 \<times> net_buff_desc) list \<times> fw_filter_state" where
  "verdicts ports m st [] = ([], st)"
| "verdicts ports m st (b # bs) =
     (case verdict ports m st b of (a, st1) \<Rightarrow> case verdicts ports m st1 bs of (vs, st2) \<Rightarrow> ((a, b) # vs, st2))"

definition passes :: "u8 \<Rightarrow> bool" where
  "passes a \<longleftrightarrow> a = FILTER_ACT_CONNECT \<or> a = FILTER_ACT_ESTABLISHED \<or> a = FILTER_ACT_ALLOW"

definition passed :: "(u8 \<times> net_buff_desc) list \<Rightarrow> net_buff_desc list" where
  "passed vs = map snd (filter (\<lambda>(a, b). passes a) vs)"

definition not_passed :: "(u8 \<times> net_buff_desc) list \<Rightarrow> net_buff_desc list" where
  "not_passed vs = map snd (filter (\<lambda>(a, b). \<not> passes a) vs)"

definition rejected :: "(u8 \<times> net_buff_desc) list \<Rightarrow> net_buff_desc list" where
  "rejected vs = map snd (filter (\<lambda>(a, b). a = FILTER_ACT_REJECT) vs)"

lemma verdicts_snoc:
  "verdicts ports m st (bs @ [b]) =
     (case verdicts ports m st bs of (vs, st1) \<Rightarrow> case verdict ports m st1 b of (a, st2) \<Rightarrow> (vs @ [(a, b)], st2))"
  by (induction bs arbitrary: st) (simp_all add: split_def)

lemma verdict_lists:
  "passed [] = []" "not_passed [] = []" "rejected [] = []"
  "passed (vs @ [(a, b)]) = passed vs @ (if passes a then [b] else [])"
  "not_passed (vs @ [(a, b)]) = not_passed vs @ (if passes a then [] else [b])"
  "rejected (vs @ [(a, b)]) = rejected vs @ (if a = FILTER_ACT_REJECT then [b] else [])"
  by (simp_all add: passed_def not_passed_def rejected_def)

lemma reject_not_passes: "\<not> passes FILTER_ACT_REJECT"
  by (simp add: passes_def filter_actions)

lemma take_again: "take r (take r xs @ ys) = take r (xs @ ys)"
  by (cases "length xs \<le> r") (simp_all add: min_def)

text \<open>The request that answers a rejected packet.\<close>

definition unreachable_request :: "fw_filter_config \<Rightarrow> memory \<Rightarrow> net_buff_desc \<Rightarrow> icmp_req" where
  "unreachable_request cfg m b =
     (let pkt = unat (io_or_offset b); h = read_ip m pkt
      in \<lparr>rq_type = ICMP_DEST_UNREACHABLE, rq_code = ICMP_DEST_PORT_UNREACHABLE, rq_out_interface = flc_interface cfg,
          rq_eth_hdr = read_eth m pkt, rq_ip_hdr = h,
          rq_data = store_at zero_union dest_data_at
            (rd_bytes m (pkt + unat (transport_layer_offset h)) (unat (icmp_to_copy h)))\<rparr>)"

definition well_sized :: "memory \<Rightarrow> net_buff_desc \<Rightarrow> bool" where
  "well_sized m b \<longleftrightarrow> \<not> bad_length (read_ip m (unat (io_or_offset b)))"

text \<open>What the loop relies on: a rejection only adds requests to the queue of the ICMP module, as long as there is
  room, and remembers whether it did.\<close>

definition processed :: "'q net_view \<Rightarrow> (memory \<Rightarrow> nat \<Rightarrow> u16 \<times> u16)
    \<Rightarrow> (fw_filter_config \<Rightarrow> memory \<Rightarrow> net_buff_desc \<Rightarrow> icmp_req list) \<Rightarrow> fw_filter_config \<Rightarrow> 'q filter \<Rightarrow> net_buff_desc list
    \<Rightarrow> 'q filter \<Rightarrow> (u8 \<times> net_buff_desc) list \<Rightarrow> bool" where
  "processed V ports requests cfg s dn t vs \<longleftrightarrow>
     net_fits V (fl_rx t) \<and> wf_fw_queue (fl_router t) \<and> wf_fw_queue (fl_icmp t) \<and>
     fq_room (fl_router t) = fq_room (fl_router s) \<and> fq_room (fl_icmp t) = fq_room (fl_icmp s) \<and>
     fl_rx_data t = fl_rx_data s \<and> nv_active V (fl_rx s) = dn @ nv_active V (fl_rx t) \<and>
     verdicts ports (fl_rx_data s) (fl_state s) dn = (vs, fl_state t) \<and>
     fq_contents (fl_router t) = fq_contents (fl_router s) @ passed vs \<and>
     nv_free V (fl_rx t) = nv_free V (fl_rx s) @ not_passed vs \<and>
     fq_contents (fl_icmp t) = take (fq_room (fl_icmp s))
       (fq_contents (fl_icmp s) @ concat (map (requests cfg (fl_rx_data s)) (rejected vs))) \<and>
     (fl_notify_icmp t \<longleftrightarrow> fl_notify_icmp s \<or> fq_contents (fl_icmp t) \<noteq> fq_contents (fl_icmp s))"

lemma length_verdicts:
  "verdicts ports m st dn = (vs, st') \<Longrightarrow> length (passed vs) + length (not_passed vs) = length dn"
proof (induction dn arbitrary: vs st' rule: rev_induct)
  case (snoc b bs)
  then show ?case by (auto simp: verdicts_snoc verdict_lists split: prod.splits if_splits)
qed (simp add: verdict_lists)

locale filter_protocol =
  fixes P :: "'q fw_protocol" and requests :: "fw_filter_config \<Rightarrow> memory \<Rightarrow> net_buff_desc \<Rightarrow> icmp_req list"
  assumes reject: "wf_fw_queue (fl_icmp s) \<Longrightarrow> well_sized (fl_rx_data s) b \<Longrightarrow>
    \<exists>q n. fp_reject P cfg b s = Some (s\<lparr>fl_icmp := q, fl_notify_icmp := n\<rparr>) \<and> wf_fw_queue q \<and>
      fq_room q = fq_room (fl_icmp s) \<and>
      fq_contents q = take (fq_room q) (fq_contents (fl_icmp s) @ requests cfg (fl_rx_data s) b) \<and>
      (n \<longleftrightarrow> fl_notify_icmp s \<or> fq_contents q \<noteq> fq_contents (fl_icmp s))"
begin

lemma step_processed:
  assumes laws: "net_queue_laws N V" and hw: "\<not> flc_hw_checksum cfg"
    and p: "processed V (fp_ports P) requests cfg s dn t vs" and ne: "\<not> net_queue_empty_active N (fl_rx t)"
    and room: "length (fq_contents (fl_router s)) + length (nv_active V (fl_rx s)) \<le> fq_room (fl_router s)"
    and sized: "\<forall>b \<in> set (nv_active V (fl_rx s)). well_sized (fl_rx_data s) b" and wfi: "wf_fw_queue (fl_icmp s)"
  shows "\<exists>t' b a. filter_packet N P cfg (t, passed vs \<noteq> [], not_passed vs \<noteq> []) =
      Some (t', passed (vs @ [(a, b)]) \<noteq> [], not_passed (vs @ [(a, b)]) \<noteq> []) \<and>
    processed V (fp_ports P) requests cfg s (dn @ [b]) t' (vs @ [(a, b)]) \<and>
    fl_notified t' = fl_notified t \<and> fl_deferred t' = fl_deferred t \<and>
    length (nv_active V (fl_rx t')) < length (nv_active V (fl_rx t))"
proof -
  let ?m = "fl_rx_data s"
  have fits: "net_fits V (fl_rx t)" and m: "fl_rx_data t = ?m" using p by (simp_all add: processed_def)
  from net_active_to_free [OF laws fits ne] obtain b q1 q2 where
    q: "taken (net_dequeue_active N (fl_rx t)) = Some (b, q1)" "stored (net_enqueue_free N q1 b) = Some q2"
      "net_fits V q1" "net_kept V (fl_rx t) q2" "nv_active V (fl_rx t) = b # nv_active V q2"
      "nv_free V q2 = nv_free V (fl_rx t) @ [b]" by blast
  have act: "nv_active V (fl_rx s) = (dn @ [b]) @ nv_active V q2" using p q(5) by (simp add: processed_def)
  define pkt where "pkt = unat (io_or_offset b)"
  define h where "h = read_ip ?m pkt"
  obtain sp dp where ports: "fp_ports P ?m (pkt + unat (transport_layer_offset h)) = (sp, dp)" by fastforce
  obtain a rid where find: "fw_filter_find_action (fl_state t) (src_ip h) sp (dst_ip h) dp = (a, rid)" by fastforce
  define st' where "st' = (if a = FILTER_ACT_CONNECT
    then snd (fw_filter_add_instance (fl_state t) (src_ip h) sp (dst_ip h) dp rid) else fl_state t)"
  have v: "verdict (fp_ports P) ?m (fl_state t) b = (a, st')"
    using ports find by (simp add: verdict_def Let_def pkt_def [symmetric] h_def [symmetric] st'_def)
  then have vs': "verdicts (fp_ports P) ?m (fl_state s) (dn @ [b]) = (vs @ [(a, b)], st')"
    using p by (simp add: processed_def verdicts_snoc)
  let ?t1 = "t\<lparr>fl_rx := q1, fl_state := st'\<rparr>"
  show ?thesis
  proof (cases "passes a")
    case True
    then have na: "a \<noteq> FILTER_ACT_REJECT" using reject_not_passes by auto
    have wfr: "wf_fw_queue (fl_router t)" using p by (simp add: processed_def)
    have "length (passed vs) \<le> length dn" using p length_verdicts [of "fp_ports P" ?m "fl_state s" dn vs] by (simp add: processed_def)
    then have lt: "length (fq_contents (fl_router t)) < fq_room (fl_router t)"
      using p room arg_cong [OF act, of length] arg_cong [OF q(5), of length] by (simp add: processed_def)
    from fw_stored [OF wfr lt, of b] obtain rq where rq: "stored (fw_enqueue (fl_router t) b) = Some rq" "wf_fw_queue rq"
      "fq_contents rq = fq_contents (fl_router t) @ [b]" "fq_room rq = fq_room (fl_router t)"
      by blast
    let ?t' = "?t1\<lparr>fl_router := rq\<rparr>"
    have "nv_active V q1 = nv_active V q2 \<and> nv_free V q1 = nv_free V (fl_rx t)"
      using net_take_active [OF laws _ ne] fits q(1,5) by (fastforce simp: net_fits_def)
    then have "processed V (fp_ports P) requests cfg s (dn @ [b]) ?t' (vs @ [(a, b)])"
      using p vs' act rq q(3) True na by (simp add: processed_def verdict_lists)
    moreover have "filter_packet N P cfg (t, passed vs \<noteq> [], not_passed vs \<noteq> []) = Some (?t', True, not_passed vs \<noteq> [])"
      using q(1) m ports find hw True rq(1)
      by (simp add: filter_packet_def pkt_def [symmetric] h_def [symmetric] passes_def st'_def)
    ultimately show ?thesis
      using True q(5) \<open>nv_active V q1 = nv_active V q2 \<and> _\<close>
      by (intro exI [of _ ?t'] exI [of _ b] exI [of _ a]) (simp add: verdict_lists)
  next
    case False
    have icmp: "wf_fw_queue (fl_icmp t)" "fl_rx_data ?t1 = ?m" using p by (simp_all add: processed_def)
    have ws: "well_sized ?m b" using sized act by simp
    obtain iq n where iq: "(if a = FILTER_ACT_REJECT then fp_reject P cfg b ?t1 else Some ?t1) =
        Some (?t1\<lparr>fl_icmp := iq, fl_notify_icmp := n\<rparr>)" "wf_fw_queue iq" "fq_room iq = fq_room (fl_icmp t)"
      "fq_contents iq = take (fq_room (fl_icmp t)) (fq_contents (fl_icmp t) @
        (if a = FILTER_ACT_REJECT then requests cfg ?m b else []))"
      "n \<longleftrightarrow> fl_notify_icmp t \<or> fq_contents iq \<noteq> fq_contents (fl_icmp t)"
    proof (cases "a = FILTER_ACT_REJECT")
      case True
      have "wf_fw_queue (fl_icmp ?t1)" "well_sized (fl_rx_data ?t1) b" using icmp ws by simp_all
      from reject [OF this, of cfg] obtain q n where "fp_reject P cfg b ?t1 = Some (?t1\<lparr>fl_icmp := q, fl_notify_icmp := n\<rparr>)"
        "wf_fw_queue q" "fq_room q = fq_room (fl_icmp ?t1)"
        "fq_contents q = take (fq_room q) (fq_contents (fl_icmp ?t1) @ requests cfg (fl_rx_data ?t1) b)"
        "n \<longleftrightarrow> fl_notify_icmp ?t1 \<or> fq_contents q \<noteq> fq_contents (fl_icmp ?t1)" by blast
      with True that [of n q] m show ?thesis by simp
    next
      case False
      have "take (fq_room (fl_icmp t)) (fq_contents (fl_icmp t)) = fq_contents (fl_icmp t)"
        using fwq.within_room [OF icmp(1)] by simp
      with False that [of "fl_notify_icmp t" "fl_icmp t"] icmp(1) show ?thesis by simp
    qed
    let ?t' = "?t1\<lparr>fl_icmp := iq, fl_notify_icmp := n, fl_rx := q2\<rparr>"
    let ?req = "\<lambda>vs. concat (map (requests cfg ?m) (rejected vs))"
    have c: "fq_contents (fl_icmp t) = take (fq_room (fl_icmp s)) (fq_contents (fl_icmp s) @ ?req vs)"
      "fq_room (fl_icmp t) = fq_room (fl_icmp s)" using p by (simp_all add: processed_def)
    have c': "fq_contents iq = take (fq_room (fl_icmp s)) (fq_contents (fl_icmp s) @ ?req (vs @ [(a, b)]))"
      unfolding iq(4) c take_again by (simp add: verdict_lists)
    have "length (fq_contents (fl_icmp s)) \<le> fq_room (fl_icmp s)" by (rule fwq.within_room [OF wfi])
    then obtain x where x: "fq_contents (fl_icmp t) = fq_contents (fl_icmp s) @ x" unfolding c(1) by simp
    have "length (fq_contents (fl_icmp t)) \<le> fq_room (fl_icmp t)" by (rule fwq.within_room [OF icmp(1)])
    then obtain y where y: "fq_contents iq = fq_contents (fl_icmp t) @ y" unfolding iq(4) by simp
    have "fl_notify_icmp t \<longleftrightarrow> fl_notify_icmp s \<or> fq_contents (fl_icmp t) \<noteq> fq_contents (fl_icmp s)"
      using p unfolding processed_def by blast
    then have "n \<longleftrightarrow> fl_notify_icmp s \<or> fq_contents iq \<noteq> fq_contents (fl_icmp s)" unfolding iq(5) x y by auto
    then have "processed V (fp_ports P) requests cfg s (dn @ [b]) ?t' (vs @ [(a, b)])"
      using p vs' act iq(2,3) c' q(4,6) False by (simp add: processed_def verdict_lists net_kept_def)
    moreover have "filter_packet N P cfg (t, passed vs \<noteq> [], not_passed vs \<noteq> []) = Some (?t', passed vs \<noteq> [], True)"
    proof -
      have np: "\<not> (a = FILTER_ACT_CONNECT \<or> a = FILTER_ACT_ESTABLISHED \<or> a = FILTER_ACT_ALLOW)"
        using False by (simp add: passes_def)
      have t1: "?t1 = t\<lparr>fl_rx := q1\<rparr>" using np by (simp add: st'_def)
      have r: "fp_reject P cfg b (t\<lparr>fl_rx := q1\<rparr>) = Some (?t1\<lparr>fl_icmp := iq, fl_notify_icmp := n\<rparr>)"
        if "a = FILTER_ACT_REJECT" using iq(1) that unfolding t1 by simp
      have e: "?t1\<lparr>fl_icmp := iq, fl_notify_icmp := n\<rparr> = t\<lparr>fl_rx := q1\<rparr>" if "a \<noteq> FILTER_ACT_REJECT"
        using iq(1) that unfolding t1 by simp
      show ?thesis
      proof (cases "a = FILTER_ACT_REJECT")
        case True
        then show ?thesis
          using q(1,2) m ports find np r [OF True]
          by (simp add: filter_packet_def pkt_def [symmetric] h_def [symmetric])
      next
        case False
        have "filter_packet N P cfg (t, passed vs \<noteq> [], not_passed vs \<noteq> []) =
            Some (t\<lparr>fl_rx := q1\<rparr>\<lparr>fl_rx := q2\<rparr>, passed vs \<noteq> [], True)"
          using q(1,2) m ports find np False
          by (simp add: filter_packet_def pkt_def [symmetric] h_def [symmetric])
        then show ?thesis by (simp only: e [OF False])
      qed
    qed
    ultimately show ?thesis
      using False q(5) by (intro exI [of _ ?t'] exI [of _ b] exI [of _ a]) (simp add: verdict_lists)
  qed
qed

lemma loop_processed:
  assumes laws: "net_queue_laws N V" and hw: "\<not> flc_hw_checksum cfg" and fits: "net_fits V (fl_rx s)"
    and wf: "wf_fw_queue (fl_router s)" "wf_fw_queue (fl_icmp s)"
    and room: "length (fq_contents (fl_router s)) + length (nv_active V (fl_rx s)) \<le> fq_room (fl_router s)"
    and sized: "\<forall>b \<in> set (nv_active V (fl_rx s)). well_sized (fl_rx_data s) b"
  shows "\<exists>t vs. filter_loop N P cfg s = Some t \<and> nv_active V (fl_rx t) = [] \<and>
    processed V (fp_ports P) requests cfg s (nv_active V (fl_rx s)) t vs \<and>
    fl_notified t = fl_notified s @ (if passed vs = [] then [] else [flc_router_ch cfg]) \<and>
    fl_deferred t = fl_deferred s @ (if not_passed vs = [] then [] else [flc_rx_id cfg])"
proof -
  let ?get = "\<lambda>(t, f :: bool \<times> bool). fl_rx t" and ?put = "\<lambda>q (t, f :: bool \<times> bool). (t\<lparr>fl_rx := q\<rparr>, f)"
  let ?I = "\<lambda>u. \<exists>t dn vs. u = (t, passed vs \<noteq> [], not_passed vs \<noteq> []) \<and> processed V (fp_ports P) requests cfg s dn t vs \<and>
    fl_notified t = fl_notified s \<and> fl_deferred t = fl_deferred s"
  have "\<exists>u. serve_active N ?get ?put (filter_packet N P cfg) (s, False, False) = Some u \<and> ?I u \<and> nv_active V (?get u) = []"
  proof (rule serve_active_total [OF laws, of ?I])
    have "take (fq_room (fl_icmp s)) (fq_contents (fl_icmp s)) = fq_contents (fl_icmp s)"
      using fwq.within_room [OF wf(2)] by simp
    then have "processed V (fp_ports P) requests cfg s [] s []"
      using fits wf by (simp add: processed_def verdict_lists)
    then show "?I (s, False, False)" by (intro exI [of _ s] exI [of _ "[]"]) (simp add: verdict_lists)
  next
    fix u assume "?I u"
    then show "nv_ok V (?get u)" by (auto simp: processed_def net_fits_def)
  next
    fix q u show "?get (?put q u) = q" by (simp add: case_prod_beta)
  next
    fix q u assume "?I u" and v: "same_view V (?get u) q"
    then obtain t dn vs where t: "u = (t, passed vs \<noteq> [], not_passed vs \<noteq> [])" "processed V (fp_ports P) requests cfg s dn t vs"
      "fl_notified t = fl_notified s" "fl_deferred t = fl_deferred s" by blast
    have "same_view V (fl_rx t) q" using v t(1) by simp
    moreover have "net_fits V (fl_rx t)" using t(2) by (simp add: processed_def)
    ultimately have "net_fits V q" by (rule net_fits_view [rotated])
    with t(2) \<open>same_view V (fl_rx t) q\<close> have "processed V (fp_ports P) requests cfg s dn (t\<lparr>fl_rx := q\<rparr>) vs"
      by (simp add: processed_def same_view_def)
    with t show "?I (?put q u)" by (intro exI [of _ "t\<lparr>fl_rx := q\<rparr>"] exI [of _ dn] exI [of _ vs]) simp
  next
    fix u assume "?I u" and ne: "\<not> net_queue_empty_active N (?get u)"
    then obtain t dn vs where t: "u = (t, passed vs \<noteq> [], not_passed vs \<noteq> [])" "processed V (fp_ports P) requests cfg s dn t vs"
      "fl_notified t = fl_notified s" "fl_deferred t = fl_deferred s" by blast
    have "\<not> net_queue_empty_active N (fl_rx t)" using ne t(1) by simp
    from step_processed [OF laws hw t(2) this room sized wf(2)] obtain t' b a where
      "filter_packet N P cfg u = Some (t', passed (vs @ [(a, b)]) \<noteq> [], not_passed (vs @ [(a, b)]) \<noteq> [])"
      "processed V (fp_ports P) requests cfg s (dn @ [b]) t' (vs @ [(a, b)])" "fl_notified t' = fl_notified t"
      "fl_deferred t' = fl_deferred t" "length (nv_active V (fl_rx t')) < length (nv_active V (fl_rx t))"
      unfolding t(1) by blast
    then show "\<exists>u'. filter_packet N P cfg u = Some u' \<and> ?I u' \<and>
        length (nv_active V (?get u')) < length (nv_active V (?get u))"
      using t(1,3,4) by (intro exI [of _ "(t', passed (vs @ [(a, b)]) \<noteq> [], not_passed (vs @ [(a, b)]) \<noteq> [])"] conjI
        exI [of _ t'] exI [of _ "dn @ [b]"] exI [of _ "vs @ [(a, b)]"]) simp_all
  qed
  then obtain t dn vs where run: "serve_active N ?get ?put (filter_packet N P cfg) (s, False, False) =
      Some (t, passed vs \<noteq> [], not_passed vs \<noteq> [])" and p: "processed V (fp_ports P) requests cfg s dn t vs"
    and sig: "fl_notified t = fl_notified s" "fl_deferred t = fl_deferred s" and nil: "nv_active V (fl_rx t) = []" by auto
  have dn: "dn = nv_active V (fl_rx s)" using p nil by (simp add: processed_def)
  let ?t2 = "if not_passed vs \<noteq> [] then t\<lparr>fl_deferred := fl_deferred t @ [flc_rx_id cfg]\<rparr> else t"
  let ?t3 = "if passed vs \<noteq> [] then ?t2\<lparr>fl_notified := fl_notified ?t2 @ [flc_router_ch cfg]\<rparr> else ?t2"
  have "filter_loop N P cfg s = Some ?t3" using run unfolding filter_loop_def Let_def by simp
  moreover have "processed V (fp_ports P) requests cfg s dn ?t3 vs" using p by (simp add: processed_def)
  ultimately show ?thesis using sig nil dn by (intro exI [of _ ?t3] exI [of _ vs]) simp
qed

end

lemma enqueue_unreachable:
  assumes "wf_fw_queue (fl_icmp s)" "well_sized (fl_rx_data s) b"
  shows "\<exists>q n. filter_icmp_unreachable cfg b s = Some (s\<lparr>fl_icmp := q, fl_notify_icmp := n\<rparr>) \<and> wf_fw_queue q \<and>
      fq_room q = fq_room (fl_icmp s) \<and>
      fq_contents q = take (fq_room q) (fq_contents (fl_icmp s) @ [unreachable_request cfg (fl_rx_data s) b]) \<and>
      (n \<longleftrightarrow> fl_notify_icmp s \<or> fq_contents q \<noteq> fq_contents (fl_icmp s))"
proof -
  let ?m = "fl_rx_data s" and ?pkt = "unat (io_or_offset b)" and ?q = "fl_icmp s"
  let ?req = "unreachable_request cfg ?m b"
  have "unat (icmp_to_copy (read_ip ?m ?pkt)) \<le> FW_ICMP_SRC_DATA_LEN"
    using assms(2) icmp_to_copy_le by (simp add: well_sized_def bad_length_def FW_ICMP_SRC_DATA_LEN_def)
  then have run: "icmp_enqueue_error ?q ICMP_DEST_UNREACHABLE ICMP_DEST_PORT_UNREACHABLE ?m ?pkt (flc_interface cfg) =
      Some (fst (fw_enqueue ?q ?req) = 0, snd (fw_enqueue ?q ?req))"
    by (simp add: icmp_enqueue_error_def copy_into_def Let_def split_def unreachable_request_def)
  obtain err q where e: "fw_enqueue ?q ?req = (err, q)" by (cases "fw_enqueue ?q ?req") auto
  have c: "wf_fw_queue q" "fq_room q = fq_room ?q"
    "if length (fq_contents ?q) < fq_room ?q then err = 0 \<and> fq_contents q = fq_contents ?q @ [?req] else err = -1 \<and> q = ?q"
    using fwq.enq_cases [OF assms(1) e] by blast+
  have "length (fq_contents ?q) \<le> fq_room ?q" by (rule fwq.within_room [OF assms(1)])
  with c have "fq_contents q = take (fq_room q) (fq_contents ?q @ [?req])" "err = 0 \<longleftrightarrow> fq_contents q \<noteq> fq_contents ?q"
    by (auto split: if_splits)
  with run e c(1,2) show ?thesis
    by (intro exI [of _ q] exI [of _ "fl_notify_icmp s \<or> err = 0"]) (simp add: filter_icmp_unreachable_def)
qed

lemma protocol_ports [simp]:
  "fp_ports tcp_protocol = tcp_ports" "fp_ports udp_protocol = udp_ports" "fp_ports icmp_protocol = icmp_ports"
  by (simp_all add: tcp_protocol_def udp_protocol_def icmp_protocol_def)

interpretation tcp: filter_protocol tcp_protocol "\<lambda>cfg m b. []"
proof unfold_locales
  fix s :: "'a filter" and b cfg
  assume wf: "wf_fw_queue (fl_icmp s)"
  then have "take (fq_room (fl_icmp s)) (fq_contents (fl_icmp s)) = fq_contents (fl_icmp s)"
    using fwq.within_room by (intro take_all) blast
  with wf show "\<exists>q n. fp_reject tcp_protocol cfg b s = Some (s\<lparr>fl_icmp := q, fl_notify_icmp := n\<rparr>) \<and> wf_fw_queue q \<and>
      fq_room q = fq_room (fl_icmp s) \<and> fq_contents q = take (fq_room q) (fq_contents (fl_icmp s) @ []) \<and>
      (n \<longleftrightarrow> fl_notify_icmp s \<or> fq_contents q \<noteq> fq_contents (fl_icmp s))"
    by (intro exI [of _ "fl_icmp s"] exI [of _ "fl_notify_icmp s"]) (simp add: tcp_protocol_def)
qed

interpretation udp: filter_protocol udp_protocol "\<lambda>cfg m b. [unreachable_request cfg m b]"
  by unfold_locales (simp only: udp_protocol_def fw_protocol.simps, rule enqueue_unreachable)

definition icmp_requests :: "fw_filter_config \<Rightarrow> memory \<Rightarrow> net_buff_desc \<Rightarrow> icmp_req list" where
  "icmp_requests cfg m b =
     (let pkt = unat (io_or_offset b)
      in if icmp_is_error_message (m (pkt + unat (transport_layer_offset (read_ip m pkt)))) then []
         else [unreachable_request cfg m b])"

interpretation icmp: filter_protocol icmp_protocol icmp_requests
proof unfold_locales
  fix s :: "'a filter" and b cfg
  assume wf: "wf_fw_queue (fl_icmp s)" "well_sized (fl_rx_data s) b"
  let ?m = "fl_rx_data s" and ?pkt = "unat (io_or_offset b)"
  show "\<exists>q n. fp_reject icmp_protocol cfg b s = Some (s\<lparr>fl_icmp := q, fl_notify_icmp := n\<rparr>) \<and> wf_fw_queue q \<and>
      fq_room q = fq_room (fl_icmp s) \<and>
      fq_contents q = take (fq_room q) (fq_contents (fl_icmp s) @ icmp_requests cfg ?m b) \<and>
      (n \<longleftrightarrow> fl_notify_icmp s \<or> fq_contents q \<noteq> fq_contents (fl_icmp s))"
  proof (cases "icmp_is_error_message (?m (?pkt + unat (transport_layer_offset (read_ip ?m ?pkt))))")
    case True
    then have "fp_reject icmp_protocol cfg b s = Some s" "icmp_requests cfg ?m b = []"
      by (simp_all add: icmp_protocol_def icmp_reject_def icmp_requests_def Let_def)
    moreover have "fp_reject tcp_protocol cfg b s = Some s" by (simp add: tcp_protocol_def)
    ultimately show ?thesis using tcp.reject [OF wf, of cfg] by simp
  next
    case False
    then have "fp_reject icmp_protocol cfg b s = filter_icmp_unreachable cfg b s"
      "icmp_requests cfg ?m b = [unreachable_request cfg ?m b]"
      by (simp_all add: icmp_protocol_def icmp_reject_def icmp_requests_def Let_def)
    then show ?thesis using enqueue_unreachable [OF wf] by simp
  qed
qed

end
