(* ===== verification/Fw_Filters_Props.thy ===== *)
theory Fw_Filters_Props
  imports Fw_Filters
begin

text \<open>
  What the traffic filters promise: which packets reach the router, where the buffers of the others go,
  which ICMP messages are asked for, that the answers to a recorded connection pass the filter of the
  other side, and that the requests of the web server never stop a filter or break its tables.
\<close>

subsection \<open>Packets\<close>

text \<open>C5: the UDP filter passes on to the router, in the order of arrival, exactly the packets for which the
  rules and connections at that moment say so, recording connections as it goes; it gives all others back.
  For each rejected packet it asks the ICMP module for a destination-unreachable message as long as there is
  room for the request, and notifies the module exactly when it asked for one. This holds for a run that
  begins with well-formed queues and no notification of the ICMP module outstanding, under three conditions
  the code does not check: the build does not leave checksums to the hardware (\<open>NETWORK_HW_HAS_CHECKSUM\<close> is not
  defined), the queue to the router has room for all the waiting packets (without it \<open>assert(!err)\<close> fails), and
  the total length in the header of every waiting packet is at least the length of that header (for a shorter
  one a rejection copies at least 65476 bytes, \<open>icmp.h\<close> line 232).\<close>

theorem udp_filter_packets:
  assumes "net_queue_laws N V" "\<not> flc_hw_checksum cfg" "net_fits V (fl_rx s)" "wf_fw_queue (fl_router s)"
    and "wf_fw_queue (fl_icmp s)" "\<not> fl_notify_icmp s"
    and "length (fq_contents (fl_router s)) + length (nv_active V (fl_rx s)) \<le> fq_room (fl_router s)"
    and "\<forall>b \<in> set (nv_active V (fl_rx s)). well_sized (fl_rx_data s) b"
  shows "\<exists>t vs. udp_filter_notified N cfg (flc_rx_id cfg) s = Some t \<and>
    verdicts udp_ports (fl_rx_data s) (fl_state s) (nv_active V (fl_rx s)) = (vs, fl_state t) \<and>
    nv_active V (fl_rx t) = [] \<and> nv_free V (fl_rx t) = nv_free V (fl_rx s) @ not_passed vs \<and>
    fq_contents (fl_router t) = fq_contents (fl_router s) @ passed vs \<and>
    fq_contents (fl_icmp t) = take (fq_room (fl_icmp s))
      (fq_contents (fl_icmp s) @ map (unreachable_request cfg (fl_rx_data s)) (rejected vs)) \<and>
    fl_notified t = fl_notified s @ (if passed vs = [] then [] else [flc_router_ch cfg]) @
      (if fq_contents (fl_icmp t) = fq_contents (fl_icmp s) then [] else [flc_icmp_ch cfg])"
proof -
  from udp.loop_processed [OF assms(1-5,7,8), unfolded protocol_ports] obtain t vs where
    t: "filter_loop N udp_protocol cfg s = Some t" "nv_active V (fl_rx t) = []"
      "processed V udp_ports (\<lambda>cfg m b. [unreachable_request cfg m b]) cfg s (nv_active V (fl_rx s)) t vs"
      "fl_notified t = fl_notified s @ (if passed vs = [] then [] else [flc_router_ch cfg])" by blast
  have "concat (map (\<lambda>b. [unreachable_request cfg (fl_rx_data s) b]) xs) = map (unreachable_request cfg (fl_rx_data s)) xs" for xs
    by (induction xs) simp_all
  with t assms(6) show ?thesis
    by (intro exI [of _ "notify_icmp_module cfg t"] exI [of _ vs])
      (simp add: processed_def udp_filter_notified_def udp_filter_def notify_icmp_module_def del: take_append length_append)
qed

text \<open>The ICMP filter does the same without looking at ports, and never asks for a message about a packet that
  is an ICMP error message itself.\<close>

theorem icmp_filter_packets:
  assumes "net_queue_laws N V" "\<not> flc_hw_checksum cfg" "net_fits V (fl_rx s)" "wf_fw_queue (fl_router s)"
    and "wf_fw_queue (fl_icmp s)"
    and "length (fq_contents (fl_router s)) + length (nv_active V (fl_rx s)) \<le> fq_room (fl_router s)"
    and "\<forall>b \<in> set (nv_active V (fl_rx s)). well_sized (fl_rx_data s) b"
  shows "\<exists>t vs. icmp_filter_notified N cfg (flc_rx_id cfg) s = Some t \<and>
    verdicts icmp_ports (fl_rx_data s) (fl_state s) (nv_active V (fl_rx s)) = (vs, fl_state t) \<and>
    nv_active V (fl_rx t) = [] \<and> nv_free V (fl_rx t) = nv_free V (fl_rx s) @ not_passed vs \<and>
    fq_contents (fl_router t) = fq_contents (fl_router s) @ passed vs \<and>
    fq_contents (fl_icmp t) = take (fq_room (fl_icmp s)) (fq_contents (fl_icmp s) @
      map (unreachable_request cfg (fl_rx_data s)) (filter (\<lambda>b. \<not> icmp_is_error_message
        (fl_rx_data s (unat (io_or_offset b) + unat (transport_layer_offset (read_ip (fl_rx_data s) (unat (io_or_offset b)))))))
        (rejected vs)))"
proof -
  from icmp.loop_processed [OF assms, unfolded protocol_ports] obtain t vs where
    t: "filter_loop N icmp_protocol cfg s = Some t" "nv_active V (fl_rx t) = []"
      "processed V icmp_ports icmp_requests cfg s (nv_active V (fl_rx s)) t vs" by blast
  have "concat (map (icmp_requests cfg (fl_rx_data s)) xs) = map (unreachable_request cfg (fl_rx_data s))
      (filter (\<lambda>b. \<not> icmp_is_error_message (fl_rx_data s (unat (io_or_offset b) + unat (transport_layer_offset (read_ip (fl_rx_data s) (unat (io_or_offset b))))))) xs)" for xs
    by (induction xs) (simp_all add: icmp_requests_def Let_def)
  with t show ?thesis
    by (intro exI [of _ "notify_icmp_module cfg t"] exI [of _ vs])
      (simp add: processed_def icmp_filter_notified_def icmp_filter_def notify_icmp_module_def del: take_append length_append)
qed

subsection \<open>Connections\<close>

text \<open>The addresses and ports that a filter reads from a packet.\<close>

definition endpoints :: "(memory \<Rightarrow> nat \<Rightarrow> u16 \<times> u16) \<Rightarrow> memory \<Rightarrow> net_buff_desc \<Rightarrow> u32 \<times> u16 \<times> u32 \<times> u16" where
  "endpoints ports m b =
     (let pkt = unat (io_or_offset b); h = read_ip m pkt; (sp, dp) = ports m (pkt + unat (transport_layer_offset h))
      in (src_ip h, sp, dst_ip h, dp))"

lemma verdict_endpoints:
  assumes "endpoints ports m b = (sip, sp, dip, dp)"
  shows "verdict ports m st b = (case fw_filter_find_action st sip sp dip dp of (a, rid) \<Rightarrow>
    (a, if a = FILTER_ACT_CONNECT then snd (fw_filter_add_instance st sip sp dip dp rid) else st))"
  using assms by (auto simp: endpoints_def verdict_def Let_def split: prod.splits)

lemma verdict_instances:
  assumes wf: "wf_instances st" and v: "verdict ports m st b = (a, st')"
  shows "wf_instances st' \<and> instances_capacity st' = instances_capacity st \<and>
    set (active_instances (internal_instances_table st)) \<subseteq> set (active_instances (internal_instances_table st')) \<and>
    length (active_instances (internal_instances_table st)) \<le> length (active_instances (internal_instances_table st'))"
proof -
  obtain sip sp dip dp rid where "st' = st \<or> st' = snd (fw_filter_add_instance st sip sp dip dp rid)"
  proof -
    obtain sip sp dip dp where "endpoints ports m b = (sip, sp, dip, dp)" by (metis prod_cases4)
    moreover obtain a' rid where "fw_filter_find_action st sip sp dip dp = (a', rid)" by fastforce
    ultimately show ?thesis using v that [of sip sp dip dp rid] by (simp add: verdict_endpoints split: if_splits)
  qed
  moreover have "instances_capacity (snd (fw_filter_add_instance st sip sp dip dp rid)) = instances_capacity st"
    by (simp add: fw_filter_add_instance_def Let_def split: option.split)
  ultimately show ?thesis using add_instance_cases [OF wf, of sip sp dip dp rid] wf by (auto simp: Let_def split: if_splits)
qed

lemma verdicts_instances:
  assumes "wf_instances st" "verdicts ports m st bs = (vs, st')"
  shows "wf_instances st' \<and> instances_capacity st' = instances_capacity st \<and>
    set (active_instances (internal_instances_table st)) \<subseteq> set (active_instances (internal_instances_table st')) \<and>
    length (active_instances (internal_instances_table st)) \<le> length (active_instances (internal_instances_table st'))"
  using assms
proof (induction bs arbitrary: st vs)
  case (Cons b bs)
  from Cons.prems(2) obtain a st1 vs1 where v: "verdict ports m st b = (a, st1)" "verdicts ports m st1 bs = (vs1, st')"
    by (auto split: prod.splits)
  note h = verdict_instances [OF Cons.prems(1) v(1)]
  with Cons.IH [OF _ v(2)] show ?case by auto
qed simp

lemma connect_recorded:
  assumes "wf_instances st" "verdicts ports m st bs = (vs, st')" "(FILTER_ACT_CONNECT, b) \<in> set vs"
    and "endpoints ports m b = (sip, sp, dip, dp)"
    and "length (active_instances (internal_instances_table st')) < unat (instances_capacity st)"
  shows "\<exists>i \<in> set (active_instances (internal_instances_table st')).
    fi_src_ip i = sip \<and> fi_src_port i = sp \<and> fi_dst_ip i = dip \<and> fi_dst_port i = dp"
  using assms
proof (induction bs arbitrary: st vs)
  case (Cons b' bs)
  from Cons.prems(2) obtain a st1 vs1 where v: "verdict ports m st b' = (a, st1)" "verdicts ports m st1 bs = (vs1, st')"
    "vs = (a, b') # vs1" by (auto split: prod.splits)
  note h = verdict_instances [OF Cons.prems(1) v(1)]
  show ?case
  proof (cases "(FILTER_ACT_CONNECT, b) \<in> set vs1")
    case True
    with Cons.IH [OF _ v(2) True Cons.prems(4)] h Cons.prems(5) show ?thesis by simp
  next
    case False
    with Cons.prems(3) v have ab: "a = FILTER_ACT_CONNECT" "b' = b" by auto
    obtain rid where st1: "st1 = snd (fw_filter_add_instance st sip sp dip dp rid)"
      using v(1) ab verdict_endpoints [OF Cons.prems(4)] by (auto split: prod.splits if_splits)
    have sub: "set (active_instances (internal_instances_table st1)) \<subseteq> set (active_instances (internal_instances_table st'))"
      "length (active_instances (internal_instances_table st1)) \<le> length (active_instances (internal_instances_table st'))"
      using verdicts_instances [OF _ v(2)] h by blast+
    have "length (active_instances (internal_instances_table st)) = unat (it_size (internal_instances_table st))"
      using Cons.prems(1) by (simp add: wf_instances_def active_instances_def word_le_nat_alt)
    then have "it_size (internal_instances_table st) \<noteq> instances_capacity st"
      using h sub(2) Cons.prems(5) by auto
    with add_instance_cases [OF Cons.prems(1), of sip sp dip dp rid] st1 have
      "\<lparr>fi_src_ip = sip, fi_dst_ip = dip, fi_src_port = sp, fi_dst_port = dp, fi_rule_id = rid\<rparr>
        \<in> set (active_instances (internal_instances_table st1))"
      by (auto simp: Let_def split: if_splits)
    with sub(1) show ?thesis by (intro bexI) auto
  qed
qed simp


subsection \<open>Requests\<close>

text \<open>C26: no request of the web server, whatever its label and arguments, fails an assertion of a filter or
  breaks its tables, with the procedure of the TCP and the UDP filter as well as with that of the ICMP filter.
  A rule with an action the filter is not configured for is refused without a change.\<close>

theorem filter_requests_safe:
  assumes "filter_invariant st" "procedure = filter_protected \<or> procedure = icmp_filter_protected"
  shows "\<exists>mrs n st'. procedure cfg label mr st = Some (mrs, n, st') \<and> filter_invariant st' \<and>
    (label = FILTER_ADD_RULE \<and> \<not> supported_action cfg (ucast (mr 0)) \<longrightarrow> mrs = [(0, 5)] \<and> n = 1 \<and> st' = st)"
proof -
  have wf: "wf_rules st" "wf_instances st" using assms(1) by (simp_all add: filter_invariant_def)
  have dflt: "\<exists>mrs n st'. set_default_action act st = Some (mrs, n, st') \<and> filter_invariant st'" for act
    using update_default_spec [OF wf, of act] owned_step_default [OF assms(1)] by (fastforce simp: set_default_action_def)
  have add: "\<exists>mrs n st'. map_option rule_reply (fw_filter_add_rule st sip sp dip dp ss ds sany dany act) = Some (mrs, n, st') \<and>
      filter_invariant st'" for sip sp dip dp ss ds sany dany act
    using add_rule_cases [OF wf(1), of sip sp dip dp ss ds sany dany act] owned_step_add [OF assms(1)]
    by (fastforce simp: rule_reply_def)
  have del: "\<exists>mrs n st'. delete_rule rid st = Some (mrs, n, st') \<and> filter_invariant st'" for rid
    using remove_rule_cases [OF wf, of rid] owned_step_remove [OF assms(1)] by (fastforce simp: delete_rule_def)
  show ?thesis
  proof (cases "label = FILTER_ADD_RULE \<and> \<not> supported_action cfg (ucast (mr 0))")
    case True
    then have "procedure cfg label mr st = Some ([(0, 5)], 1, st)"
      using assms(2) by (auto simp: filter_protected_def icmp_filter_protected_def Let_def filter_labels)
    then show ?thesis using assms(1) by blast
  next
    case False
    consider "label = FILTER_SET_DEFAULT_ACTION" | "label = FILTER_ADD_RULE" | "label = FILTER_DEL_RULE"
      | "label \<noteq> FILTER_SET_DEFAULT_ACTION" "label \<noteq> FILTER_ADD_RULE" "label \<noteq> FILTER_DEL_RULE" by blast
    then show ?thesis
    proof cases
      case 1
      then have "procedure cfg label mr st = set_default_action (ucast (mr 0)) st"
        using assms(2) by (auto simp: filter_protected_def icmp_filter_protected_def)
      then show ?thesis using dflt [of "ucast (mr 0)"] 1 by (auto simp: filter_labels)
    next
      case 2
      have sup: "supported_action cfg (ucast (mr 0))" using False 2 by blast
      have "label \<noteq> FILTER_SET_DEFAULT_ACTION" using 2 by (simp add: filter_labels)
      with 2 sup have "filter_protected cfg label mr st = map_option rule_reply
          (fw_filter_add_rule st (ucast (mr 1)) (ucast (mr 3)) (ucast (mr 5)) (ucast (mr 7)) (ucast (mr 2)) (ucast (mr 6))
            (mr 4 \<noteq> 0) (mr 8 \<noteq> 0) (ucast (ucast (mr 0) :: u32)))"
        "icmp_filter_protected cfg label mr st = map_option rule_reply
          (fw_filter_add_rule st (ucast (mr 1)) ICMP_FILTER_DUMMY_PORT (ucast (mr 5)) ICMP_FILTER_DUMMY_PORT (ucast (mr 2))
            (ucast (mr 6)) True True (ucast (ucast (mr 0) :: u32)))"
        by (simp_all only: filter_protected_def icmp_filter_protected_def Let_def simp_thms if_True if_False)
      with add have "\<exists>mrs n st'. filter_protected cfg label mr st = Some (mrs, n, st') \<and> filter_invariant st'"
        "\<exists>mrs n st'. icmp_filter_protected cfg label mr st = Some (mrs, n, st') \<and> filter_invariant st'" by metis+
      with assms(2) sup show ?thesis by metis
    next
      case 3
      then have "procedure cfg label mr st = delete_rule (ucast (mr 0)) st"
        using assms(2) by (auto simp: filter_protected_def icmp_filter_protected_def filter_labels)
      then show ?thesis using del [of "ucast (mr 0)"] 3 by (auto simp: filter_labels)
    next
      case 4
      then have "procedure cfg label mr st = Some ([], 0, st)"
        using assms(2) by (auto simp: filter_protected_def icmp_filter_protected_def)
      then show ?thesis using assms(1) 4 by auto
    qed
  qed
qed

subsection \<open>An example\<close>

text \<open>10.0.0.1 opens a connection to port 80 of 1.1.1.1; the rules are those of \<open>ex_filter\<close>. And the answer.\<close>

definition ex_syn :: memory where
  "ex_syn = (\<lambda>a. if a < 42 then
     [2, 0, 0, 0, 0, 1, 2, 0, 0, 0, 0, 9, 8, 0, 0x45, 0, 0, 28, 0, 0, 0, 0, 64, 17, 0, 0, 10, 0, 0, 1, 1, 1, 1, 1,
      0xD2, 4, 80, 0, 0, 8, 0, 0] ! a else 0)"

definition ex_answer :: memory where
  "ex_answer = (\<lambda>a. if a < 42 then
     [2, 0, 0, 0, 0, 1, 2, 0, 0, 0, 0, 9, 8, 0, 0x45, 0, 0, 28, 0, 0, 0, 0, 64, 17, 0, 0, 1, 1, 1, 1, 10, 0, 0, 1,
      80, 0, 0xD2, 4, 0, 8, 0, 0] ! a else 0)"

definition ex_buff :: net_buff_desc where "ex_buff = \<lparr>io_or_offset = 0, nb_len = 42\<rparr>"

definition ex_flc :: fw_filter_config where
  "ex_flc = \<lparr>flc_interface = 0, flc_rx_id = 3, flc_router_ch = 4, flc_icmp_ch = 5, flc_actions = [True, True, False, True],
     flc_hw_checksum = False\<rparr>"

definition ex_req :: icmp_req where
  "ex_req = \<lparr>rq_type = 0, rq_code = 0, rq_out_interface = 0, rq_eth_hdr = read_eth (\<lambda>_. 0) 0, rq_ip_hdr = read_ip (\<lambda>_. 0) 0,
     rq_data = zero_union\<rparr>"

definition ex_fl :: "list_net filter" where
  "ex_fl = \<lparr>fl_rx = \<lparr>ln_free = [], ln_active = [ex_buff], ln_room = 4, ln_want_free = False, ln_want_active = False\<rparr>,
     fl_rx_data = ex_syn,
     fl_router = \<lparr>fq_idx = \<lparr>idx_tail = 0, idx_head = 0\<rparr>, fq_entries = replicate 4 ex_buff, fq_capacity = 4\<rparr>,
     fl_icmp = \<lparr>fq_idx = \<lparr>idx_tail = 0, idx_head = 0\<rparr>, fq_entries = replicate 4 ex_req, fq_capacity = 4\<rparr>,
     fl_state = ex_filter, fl_notify_icmp = False, fl_notified = [], fl_deferred = []\<rparr>"

lemma ex_fl_ok:
  "\<not> flc_hw_checksum ex_flc" "net_fits list_net_view (fl_rx ex_fl)" "wf_fw_queue (fl_router ex_fl)" "wf_fw_queue (fl_icmp ex_fl)"
  "\<not> fl_notify_icmp ex_fl"
  "length (fq_contents (fl_router ex_fl)) + length (nv_active list_net_view (fl_rx ex_fl)) \<le> fq_room (fl_router ex_fl)"
  by (simp_all add: ex_flc_def ex_fl_def net_fits_def list_net_view_def wf_fw_queue_def fq_count_def fq_room_def)

lemma ex_fl_active: "nv_active list_net_view (fl_rx ex_fl) = [ex_buff]"
  by (simp add: ex_fl_def list_net_view_def)

lemma ex_fl_sized: "\<forall>b \<in> set (nv_active list_net_view (fl_rx ex_fl)). well_sized (fl_rx_data ex_fl) b"
proof -
  have "well_sized ex_syn ex_buff" by code_simp
  then show ?thesis by (simp add: ex_fl_active) (simp add: ex_fl_def)
qed

lemma ex_endpoints:
  "endpoints udp_ports ex_syn ex_buff = (0x0100000A, 1234, 0x01010101, 80)"
  "endpoints udp_ports ex_answer ex_buff = (0x01010101, 80, 0x0100000A, 1234)"
  "endpoints icmp_ports ex_answer ex_buff = (0x01010101, 0, 0x0100000A, 0)"
  by code_simp+

lemma ex_verdict: "verdicts udp_ports (fl_rx_data ex_fl) (fl_state ex_fl) (nv_active list_net_view (fl_rx ex_fl)) =
    ([(FILTER_ACT_CONNECT, ex_buff)], ex_filter)"
  by code_simp

lemma ex_fl_empty: "fq_contents (fl_router ex_fl) = []" "fq_contents (fl_icmp ex_fl) = []" "fl_notified ex_fl = []"
  by (simp_all add: ex_fl_def fq_contents_def fq_count_def)

lemma ex_rx_id: "flc_rx_id ex_flc = 3" "flc_router_ch ex_flc = 4"
  by (simp_all add: ex_flc_def)

theorem udp_filter_packets_witness:
  "\<exists>t. udp_filter_notified list_net_ops ex_flc 3 ex_fl = Some t \<and> fq_contents (fl_router t) = [ex_buff] \<and>
     fl_notified t = [4]"
proof -
  from udp_filter_packets [OF list_net_laws ex_fl_ok(1-6) ex_fl_sized] obtain t vs where
    t: "udp_filter_notified list_net_ops ex_flc (flc_rx_id ex_flc) ex_fl = Some t"
      "vs = [(FILTER_ACT_CONNECT, ex_buff)]" "fq_contents (fl_router t) = fq_contents (fl_router ex_fl) @ passed vs"
      "fq_contents (fl_icmp t) = take (fq_room (fl_icmp ex_fl)) (fq_contents (fl_icmp ex_fl) @
         map (unreachable_request ex_flc (fl_rx_data ex_fl)) (rejected vs))"
      "fl_notified t = fl_notified ex_fl @ (if passed vs = [] then [] else [flc_router_ch ex_flc]) @
        (if fq_contents (fl_icmp t) = fq_contents (fl_icmp ex_fl) then [] else [flc_icmp_ch ex_flc])"
    unfolding ex_verdict by auto
  have "passed vs = [ex_buff]" "rejected vs = []"
    by (simp_all add: t(2) passed_def rejected_def passes_def filter_actions)
  with t(1,3-5) show ?thesis unfolding ex_fl_empty ex_rx_id by simp
qed

theorem icmp_filter_packets_witness:
  "\<exists>t. icmp_filter_notified list_net_ops ex_flc 3 ex_fl = Some t \<and> nv_free list_net_view (fl_rx t) = [ex_buff]"
proof -
  have v: "verdicts icmp_ports (fl_rx_data ex_fl) (fl_state ex_fl) (nv_active list_net_view (fl_rx ex_fl)) =
      ([(FILTER_ACT_DROP, ex_buff)], ex_filter)" by code_simp
  have free: "nv_free list_net_view (fl_rx ex_fl) = []" by (simp add: ex_fl_def list_net_view_def)
  from icmp_filter_packets [OF list_net_laws ex_fl_ok(1-4,6) ex_fl_sized] obtain t vs where
    t: "icmp_filter_notified list_net_ops ex_flc 3 ex_fl = Some t" "vs = [(FILTER_ACT_DROP, ex_buff)]"
      "nv_free list_net_view (fl_rx t) = not_passed vs" unfolding v free ex_rx_id by auto
  then show ?thesis by (simp add: not_passed_def passes_def filter_actions)
qed

definition ex_other :: fw_filter_state where
  "ex_other = ex_filter\<lparr>external_instances_table := [internal_instances_table ex_filter]\<rparr>"


theorem filter_requests_safe_witness:
  "\<exists>mrs n st'. filter_protected ex_flc FILTER_ADD_RULE (\<lambda>_. 3) ex_filter = Some (mrs, n, st') \<and> mrs = [(0, 5)] \<and> st' = ex_filter"
proof -
  have "\<not> supported_action ex_flc (ucast (3 :: u64))" by (simp add: supported_action_def ex_flc_def FW_FILTER_NUM_ACTIONS_def)
  with filter_requests_safe [OF ex_invariant, of filter_protected ex_flc FILTER_ADD_RULE "\<lambda>_. 3"] show ?thesis by auto
qed

end
