(* ===== verification/Fw_Network.thy ===== *)
theory Fw_Network
  imports Fw_Filters_Props
begin

text \<open>
  The filters of one protocol together: one for each interface of the firewall, each with the connections it has
  recorded in a table that the others see (\<open>external_instances_table\<close>). They run beside each other and beside the
  virtualisers, the router and the web server, so that the state of the network is the list of the filters, and
  its steps are one packet of one filter (\<open>filter_packet\<close>), one request of the web server to one filter
  (\<open>filter_protected\<close>, \<open>icmp_filter_protected\<close>), and whatever the others do to the queues and the packets. The
  log holds the packets that were passed on, as the filter and the addresses and ports of the packet.
\<close>

subsection \<open>The network of filters\<close>

type_synonym flow = "u32 \<times> u16 \<times> u32 \<times> u16"

text \<open>The filter \<open>k\<close> with the tables of its neighbours as they are now.\<close>

definition seen_by :: "(nat \<Rightarrow> nat list) \<Rightarrow> 'q filter list \<Rightarrow> nat \<Rightarrow> 'q filter" where
  "seen_by nb fs k = (fs ! k)\<lparr>fl_state := (fl_state (fs ! k))
     \<lparr>external_instances_table := map (\<lambda>j. internal_instances_table (fl_state (fs ! j))) (nb k)\<rparr>\<rparr>"

text \<open>The procedures of the filters check the action of a new rule, but not that of the default rule: the number of
  the action \<open>established\<close> is never sent as the default action.\<close>

definition proper_request :: "u64 \<Rightarrow> (nat \<Rightarrow> u64) \<Rightarrow> bool" where
  "proper_request label mr \<longleftrightarrow>
     (label = FILTER_SET_DEFAULT_ACTION \<longrightarrow> (ucast (ucast (mr 0) :: u32) :: u8) \<noteq> FILTER_ACT_ESTABLISHED)"

inductive network_step :: "'q net_ops \<Rightarrow> 'q fw_protocol \<Rightarrow> (nat \<Rightarrow> fw_filter_config) \<Rightarrow> (nat \<Rightarrow> nat list)
    \<Rightarrow> 'q filter list \<times> (nat \<times> flow) list \<Rightarrow> 'q filter list \<times> (nat \<times> flow) list \<Rightarrow> bool"
  for N :: "'q net_ops" and P :: "'q fw_protocol" and cfg :: "nat \<Rightarrow> fw_filter_config" and nb :: "nat \<Rightarrow> nat list" where
  packet_handled: "k < length fs \<Longrightarrow> taken (net_dequeue_active N (fl_rx (fs ! k))) = Some (b, rx) \<Longrightarrow>
    filter_packet N P (cfg k) (seen_by nb fs k, False, False) = Some (s', transmitted, returned) \<Longrightarrow>
    network_step N P cfg nb (fs, log) (fs[k := s'],
      if transmitted then log @ [(k, endpoints (fp_ports P) (fl_rx_data (fs ! k)) b)] else log)"
| request_served: "k < length fs \<Longrightarrow> procedure \<in> {filter_protected, icmp_filter_protected} \<Longrightarrow> proper_request label mr \<Longrightarrow>
    procedure (cfg k) label mr (fl_state (fs ! k)) = Some (mrs, n, st') \<Longrightarrow>
    network_step N P cfg nb (fs, log) (fs[k := (fs ! k)\<lparr>fl_state := st'\<rparr>], log)"
| others_run: "k < length fs \<Longrightarrow> fl_state s' = fl_state (fs ! k) \<Longrightarrow>
    network_step N P cfg nb (fs, log) (fs[k := s'], log)"

text \<open>A filter as its initialisation leaves it: on zeroed regions, with configured rules that do not clash and do not
  have the action \<open>established\<close>.\<close>

definition filter_started :: "fw_filter_state \<Rightarrow> bool" where
  "filter_started st \<longleftrightarrow> (\<exists>tbl bm cap internal external icap dflt rules n out.
     fresh_regions tbl bm cap \<and> default_rule dflt \<and> length rules < unat cap \<and> length rules < 255 \<and>
     (\<forall>r \<in> set rules. \<not> clash r dflt) \<and> sorted_wrt (\<lambda>r n. \<not> clash n r) rules \<and>
     it_size internal = 0 \<and> length (it_instances internal) = unat icap \<and>
     (\<forall>r \<in> set (dflt # rules). fr_action r \<noteq> FILTER_ACT_ESTABLISHED) \<and>
     fw_filter_state_init tbl bm cap internal external icap (dflt # rules) (of_nat (Suc (length rules))) n = Some (out, st))"

subsection \<open>One filter\<close>

definition instance_flow :: "fw_instance \<Rightarrow> flow" where
  "instance_flow i = (fi_src_ip i, fi_src_port i, fi_dst_ip i, fi_dst_port i)"

definition opens :: "fw_instance \<Rightarrow> fw_rule \<Rightarrow> bool" where
  "opens i r \<longleftrightarrow> fr_rule_id r = fi_rule_id i \<and> fr_action r = FILTER_ACT_CONNECT \<and>
     rule_matches (fi_src_ip i) (fi_src_port i) (fi_dst_ip i) (fi_dst_port i) r"

text \<open>No rule has the action \<open>established\<close>, and each recorded connection is one of the flows in \<open>L\<close> and matches the
  rule that opened it, which is still there.\<close>

definition sound :: "flow set \<Rightarrow> fw_filter_state \<Rightarrow> bool" where
  "sound L st \<longleftrightarrow> filter_invariant st \<and> (\<forall>r \<in> set (active_rules st). fr_action r \<noteq> FILTER_ACT_ESTABLISHED) \<and>
     (\<forall>i \<in> set (active_instances (internal_instances_table st)).
        instance_flow i \<in> L \<and> (\<exists>r \<in> set (active_rules st). opens i r))"

lemma sound_mono: "sound L st \<Longrightarrow> L \<subseteq> M \<Longrightarrow> sound M st"
  by (auto simp: sound_def)

lemma sound_external: "sound L (st\<lparr>external_instances_table := ext\<rparr>) = sound L st"
  by (simp add: sound_def filter_invariant_def wf_rules_external wf_instances_def connections_owned_def)

lemma sound_started:
  assumes "filter_started st"
  shows "sound {} st"
proof -
  obtain tbl bm cap internal external icap dflt rules n out where
    f: "fresh_regions tbl bm cap" "default_rule dflt" "length rules < unat cap" "length rules < 255"
      "\<forall>r \<in> set rules. \<not> clash r dflt" "sorted_wrt (\<lambda>r n. \<not> clash n r) rules"
      "it_size internal = 0" "length (it_instances internal) = unat icap"
      "\<forall>r \<in> set (dflt # rules). fr_action r \<noteq> FILTER_ACT_ESTABLISHED"
      "fw_filter_state_init tbl bm cap internal external icap (dflt # rules) (of_nat (Suc (length rules))) n = Some (out, st)"
    using assms unfolding filter_started_def by blast
  obtain ids where st: "wf_rules st" "active_rules st = dflt # map2 mk_rule rules ids"
    "internal_instances_table st = internal" "instances_capacity st = icap"
    using filter_init_ok [OF f(1-6), of internal external icap n] f(10) by auto
  have "active_instances (internal_instances_table st) = []" by (simp add: st(3) active_instances_def f(7))
  moreover have "fr_action (mk_rule r i) = fr_action r" for r i by (simp add: mk_rule_def new_rule_def)
  then have "\<forall>r \<in> set (active_rules st). fr_action r \<noteq> FILTER_ACT_ESTABLISHED"
    using f(9) by (auto simp: st(2) dest!: set_zip_leftD)
  ultimately show ?thesis
    using st f(7,8) by (simp add: sound_def filter_invariant_def wf_instances_def connections_owned_def)
qed

lemma sound_add:
  assumes s: "sound L st" and act: "act \<noteq> FILTER_ACT_ESTABLISHED"
    and res: "fw_filter_add_rule st sip sp dip dp ss ds sany dany act = Some (err, rid, st')"
  shows "sound L st'"
proof (cases "st' = st")
  case False
  have inv: "filter_invariant st" and wf: "wf_rules st" using s by (simp_all add: sound_def filter_invariant_def)
  from add_rule_cases [OF wf, of sip sp dip dp ss ds sany dany act] res False obtain i where
    "active_rules st' = active_rules st @ [new_rule sip sp dip dp ss ds sany dany act i]"
    "internal_instances_table st' = internal_instances_table st"
    by (auto split: if_splits)
  with s act owned_step_add [OF inv res] show ?thesis by (auto simp: sound_def new_rule_def)
qed (use s in simp)

lemma sound_remove:
  assumes s: "sound L st" and res: "fw_filter_remove_rule st rid = Some (err, st')"
  shows "sound L st'"
proof (cases "rid = 0 \<or> unat rid \<notin> set (rule_ids st)")
  case True
  have "wf_rules st" "wf_instances st" using s by (simp_all add: sound_def filter_invariant_def)
  from remove_rule_cases [OF this, of rid] res True s show ?thesis by auto
next
  case False
  have inv: "filter_invariant st" and wf: "wf_rules st" "wf_instances st"
    using s by (simp_all add: sound_def filter_invariant_def)
  let ?conn = "\<exists>r \<in> set (active_rules st). fr_rule_id r = rid \<and> fr_action r = FILTER_ACT_CONNECT"
  from remove_rule_cases [OF wf, of rid] res False have
    act: "active_rules st' = filter (\<lambda>r. fr_rule_id r \<noteq> rid) (active_rules st)" and
    ms: "mset (active_instances (internal_instances_table st')) =
      (if ?conn then filter_mset (\<lambda>x. fi_rule_id x \<noteq> rid) (mset (active_instances (internal_instances_table st)))
       else mset (active_instances (internal_instances_table st)))"
    by (simp_all only: if_False) auto
  have "instance_flow i \<in> L \<and> (\<exists>r \<in> set (active_rules st'). opens i r)"
    if "i \<in> set (active_instances (internal_instances_table st'))" for i
  proof -
    have i: "i \<in> set (active_instances (internal_instances_table st))" "?conn \<Longrightarrow> fi_rule_id i \<noteq> rid"
      using that arg_cong [OF ms, of set_mset] by (auto split: if_splits)
    with s obtain r where r: "r \<in> set (active_rules st)" "opens i r" "instance_flow i \<in> L" by (auto simp: sound_def)
    then have "fr_rule_id r \<noteq> rid" using i(2) by (auto simp: opens_def)
    with r act show ?thesis by auto
  qed
  with s act owned_step_remove [OF inv res] show ?thesis by (simp add: sound_def)
qed

lemma rule_matches_action [simp]: "rule_matches a b c d (r\<lparr>fr_action := x\<rparr>) = rule_matches a b c d r"
  by (simp add: rule_matches_def)

lemma sound_default:
  assumes s: "sound L st" and na: "(ucast act :: u8) \<noteq> FILTER_ACT_ESTABLISHED"
    and res: "fw_filter_update_default_action st act = Some (err, st')"
  shows "sound L st'"
proof -
  have inv: "filter_invariant st" and wf: "wf_rules st" "wf_instances st"
    using s by (simp_all add: sound_def filter_invariant_def)
  let ?a = "active_rules st"
  let ?cond = "fr_action (?a ! 0) = FILTER_ACT_CONNECT \<and> act \<noteq> ucast FILTER_ACT_CONNECT"
  from update_default_spec [OF wf, of act] res have
    act: "active_rules st' = (?a ! 0)\<lparr>fr_action := ucast act\<rparr> # drop 1 ?a" and
    ms: "mset (active_instances (internal_instances_table st')) =
      (if ?cond then filter_mset (\<lambda>x. fi_rule_id x \<noteq> 0) (mset (active_instances (internal_instances_table st)))
       else mset (active_instances (internal_instances_table st)))" by auto
  have split: "set ?a = insert (?a ! 0) (set (drop 1 ?a))"
    using active_nonempty [OF wf(1)] by (cases ?a) auto
  have id0: "fr_rule_id (?a ! 0) = 0" using wf(1) by (simp add: wf_rules_def default_rule_def)
  have "instance_flow i \<in> L \<and> (\<exists>r \<in> set (active_rules st'). opens i r)"
    if "i \<in> set (active_instances (internal_instances_table st'))" for i
  proof -
    have i: "i \<in> set (active_instances (internal_instances_table st))" "?cond \<Longrightarrow> fi_rule_id i \<noteq> 0"
      using that arg_cong [OF ms, of set_mset] by (auto split: if_splits)
    with s obtain r where r: "r \<in> set ?a" "opens i r" "instance_flow i \<in> L" by (auto simp: sound_def)
    show ?thesis
    proof (cases "r \<in> set (drop 1 ?a)")
      case False
      then have "r = ?a ! 0" using r(1) split by auto
      with r(2) i(2) id0 have "act = ucast FILTER_ACT_CONNECT" by (auto simp: opens_def)
      then have "ucast act = FILTER_ACT_CONNECT" by (simp add: FILTER_ACT_CONNECT_def)
      with r \<open>r = ?a ! 0\<close> act show ?thesis by (simp add: opens_def)
    qed (use r act in auto)
  qed
  moreover have "\<forall>r \<in> set (active_rules st'). fr_action r \<noteq> FILTER_ACT_ESTABLISHED"
    using s na split by (auto simp: sound_def act)
  ultimately show ?thesis using owned_step_default [OF inv res] by (simp add: sound_def)
qed

lemma sound_request:
  assumes s: "sound L st" and proc: "procedure \<in> {filter_protected, icmp_filter_protected}" and r: "proper_request label mr"
    and res: "procedure cfg label mr st = Some (mrs, n, st')"
  shows "sound L st'"
proof -
  have unsupported: "ucast act \<noteq> FILTER_ACT_ESTABLISHED" if "supported_action c act" for c and act :: u32
  proof
    assume "ucast act = FILTER_ACT_ESTABLISHED"
    moreover have "act \<le> 4" using that by (simp add: supported_action_def FW_FILTER_NUM_ACTIONS_def not_less)
    then have "unat act \<le> 4" by (simp add: word_le_nat_alt)
    then have "unat (ucast act :: u8) = unat act" by (simp add: unsigned_ucast_eq unsigned_take_bit_eq take_bit_nat_eq_self)
    ultimately show False using \<open>unat act \<le> 4\<close> by (simp add: FILTER_ACT_ESTABLISHED_def)
  qed
  show ?thesis
    using proc res s r sound_add [OF s unsupported] sound_remove [OF s] sound_default [OF s]
    by (auto simp: filter_protected_def icmp_filter_protected_def set_default_action_def rule_reply_def delete_rule_def
        proper_request_def bind_eq_Some_conv Let_def split: if_splits prod.splits)
qed

subsection \<open>One packet\<close>

definition fw_protocols :: "'q fw_protocol set" where
  "fw_protocols = {tcp_protocol, udp_protocol, icmp_protocol}"

lemma reject_keeps_state:
  "P \<in> fw_protocols \<Longrightarrow> fp_reject P cfg b s = Some s' \<Longrightarrow> fl_state s' = fl_state s"
  by (auto simp: fw_protocols_def tcp_protocol_def udp_protocol_def icmp_protocol_def icmp_reject_def
      filter_icmp_unreachable_def bind_eq_Some_conv Let_def split: if_splits)

lemma filter_packet_decides:
  assumes "P \<in> fw_protocols" "taken (net_dequeue_active N (fl_rx s)) = Some (b, rx)"
    and e: "endpoints (fp_ports P) (fl_rx_data s) b = (sip, sp, dip, dp)"
    and f: "fw_filter_find_action (fl_state s) sip sp dip dp = (a, rid)"
    and run: "filter_packet N P cfg (s, False, False) = Some (s', transmitted, returned)"
  shows "fl_state s' = (if a = FILTER_ACT_CONNECT then snd (fw_filter_add_instance (fl_state s) sip sp dip dp rid)
      else fl_state s) \<and> (transmitted \<longleftrightarrow> passes a)"
proof -
  define pkt where "pkt = unat (io_or_offset b)"
  define h where "h = read_ip (fl_rx_data s) pkt"
  have p: "fp_ports P (fl_rx_data s) (pkt + unat (transport_layer_offset h)) = (sp, dp)" "src_ip h = sip" "dst_ip h = dip"
    using e by (auto simp: endpoints_def Let_def h_def pkt_def split: prod.splits)
  note run = run [unfolded filter_packet_def prod.case assms(2) bind.bind_lunit Let_def pkt_def [symmetric] h_def [symmetric] p f]
  show ?thesis
    using run f by (auto simp: passes_def bind_eq_Some_conv dest!: reject_keeps_state [OF assms(1)] split: if_splits)
qed

lemma action_reason:
  assumes s: "sound L st" and f: "fw_filter_find_action st sip sp dip dp = (a, rid)"
  shows "(\<exists>m \<in> set (active_rules st). a = fr_action m \<and> a \<noteq> FILTER_ACT_ESTABLISHED \<and> rid = fr_rule_id m \<and>
      rule_matches sip sp dip dp m \<and>
      (\<forall>r \<in> set (active_rules st). rule_matches sip sp dip dp r \<longrightarrow> specificity r \<le> specificity m)) \<or>
    a = FILTER_ACT_ESTABLISHED \<and> (\<exists>tbl \<in> set (external_instances_table st). \<exists>i \<in> set (active_instances tbl).
      instance_flow i = (dip, dp, sip, sp))"
proof (cases "\<exists>tbl \<in> set (take (unat (num_interfaces st)) (external_instances_table st)).
      \<exists>i \<in> set (active_instances tbl). is_return_traffic sip sp dip dp i")
  case True
  then have "find (is_return_traffic sip sp dip dp)
      (concat (map active_instances (take (unat (num_interfaces st)) (external_instances_table st)))) \<noteq> None"
    by (auto simp: find_None_iff)
  then have "a = FILTER_ACT_ESTABLISHED" using f by (auto simp: fw_filter_find_action_def)
  moreover from True obtain tbl i where i: "tbl \<in> set (take (unat (num_interfaces st)) (external_instances_table st))"
    "i \<in> set (active_instances tbl)" "is_return_traffic sip sp dip dp i" by blast
  moreover have "instance_flow i = (dip, dp, sip, sp)" using i(3) by (simp add: is_return_traffic_def instance_flow_def)
  ultimately show ?thesis using in_set_takeD [OF i(1)] by blast
next
  case False
  have "wf_rules st" using s by (simp add: sound_def filter_invariant_def)
  moreover have "\<forall>tbl \<in> set (take (unat (num_interfaces st)) (external_instances_table st)).
      \<forall>i \<in> set (active_instances tbl). \<not> is_return_traffic sip sp dip dp i" using False by blast
  ultimately obtain m where m: "m \<in> set (active_rules st)" "fw_filter_find_action st sip sp dip dp = (fr_action m, fr_rule_id m)"
    "rule_matches sip sp dip dp m" "\<forall>r \<in> set (active_rules st). rule_matches sip sp dip dp r \<longrightarrow> specificity r \<le> specificity m"
    using find_action_rule by blast
  have "fr_action m \<noteq> FILTER_ACT_ESTABLISHED" using s m(1) by (simp add: sound_def)
  moreover have "a = fr_action m" "rid = fr_rule_id m" using m(2) f by simp_all
  ultimately show ?thesis using m(1,3,4) by blast
qed

lemma owned_opens:
  assumes s: "sound L st" and f: "fw_filter_find_action st sip sp dip dp = (FILTER_ACT_CONNECT, rid)"
  shows "\<exists>m \<in> set (active_rules st). opens \<lparr>fi_src_ip = sip, fi_dst_ip = dip, fi_src_port = sp, fi_dst_port = dp,
    fi_rule_id = rid\<rparr> m"
proof -
  have ne: "FILTER_ACT_CONNECT \<noteq> FILTER_ACT_ESTABLISHED" by (simp add: filter_actions)
  with action_reason [OF s f] obtain m where "m \<in> set (active_rules st)" "FILTER_ACT_CONNECT = fr_action m"
    "rid = fr_rule_id m" "rule_matches sip sp dip dp m" by blast
  then show ?thesis by (intro bexI [of _ m]) (simp_all add: opens_def)
qed

lemma sound_packet:
  assumes s: "sound L (fl_state s)" and P: "P \<in> fw_protocols" and t: "taken (net_dequeue_active N (fl_rx s)) = Some (b, rx)"
    and run: "filter_packet N P cfg (s, False, False) = Some (s', transmitted, returned)"
  shows "sound (if transmitted then insert (endpoints (fp_ports P) (fl_rx_data s) b) L else L) (fl_state s')"
proof -
  obtain sip sp dip dp where e: "endpoints (fp_ports P) (fl_rx_data s) b = (sip, sp, dip, dp)" by (metis prod_cases4)
  obtain a rid where f: "fw_filter_find_action (fl_state s) sip sp dip dp = (a, rid)" by fastforce
  note d = filter_packet_decides [OF P t e f run]
  show ?thesis
  proof (cases "a = FILTER_ACT_CONNECT")
    case True
    let ?st = "fl_state s" and ?st' = "fl_state s'"
    let ?inst = "\<lparr>fi_src_ip = sip, fi_dst_ip = dip, fi_src_port = sp, fi_dst_port = dp, fi_rule_id = rid\<rparr>"
    have tr: transmitted using d True by (simp add: passes_def)
    obtain err where add: "fw_filter_add_instance ?st sip sp dip dp rid = (err, ?st')"
      using d True by (metis prod.collapse)
    have inv: "filter_invariant ?st" using s by (simp add: sound_def)
    then have "wf_instances ?st" by (simp add: filter_invariant_def)
    from add_instance_cases [OF this, of sip sp dip dp rid] add have
      r: "active_rules ?st' = active_rules ?st" and
      i: "set (active_instances (internal_instances_table ?st')) \<subseteq> insert ?inst (set (active_instances (internal_instances_table ?st)))"
      by (auto simp: Let_def active_rules_def split: if_splits)
    obtain m where m: "m \<in> set (active_rules ?st)" "opens ?inst m"
      using owned_opens [OF s, of sip sp dip dp rid] f True by blast
    have "filter_invariant ?st'" using owned_step_connect [OF inv _ add] f True by simp
    moreover have "instance_flow x \<in> insert (sip, sp, dip, dp) L \<and> (\<exists>r \<in> set (active_rules ?st'). opens x r)"
      if "x \<in> set (active_instances (internal_instances_table ?st'))" for x
    proof (cases "x = ?inst")
      case True
      then show ?thesis using m r by (auto simp: instance_flow_def)
    next
      case False
      then show ?thesis using that i s r by (auto simp: sound_def)
    qed
    ultimately show ?thesis using s r tr by (simp add: sound_def e)
  next
    case False
    with d have "fl_state s' = fl_state s" by simp
    with s show ?thesis by (auto intro: sound_mono)
  qed
qed

subsection \<open>All filters\<close>

definition flows_of :: "nat \<Rightarrow> (nat \<times> flow) list \<Rightarrow> flow set" where
  "flows_of k log = {f. (k, f) \<in> set log}"

definition network_sound :: "nat \<Rightarrow> 'q filter list \<times> (nat \<times> flow) list \<Rightarrow> bool" where
  "network_sound n = (\<lambda>(fs, log). length fs = n \<and> (\<forall>k < n. sound (flows_of k log) (fl_state (fs ! k))))"

lemma seen_by_fields [simp]:
  "fl_rx (seen_by nb fs k) = fl_rx (fs ! k)" "fl_rx_data (seen_by nb fs k) = fl_rx_data (fs ! k)"
  "active_rules (fl_state (seen_by nb fs k)) = active_rules (fl_state (fs ! k))"
  "sound L (fl_state (seen_by nb fs k)) = sound L (fl_state (fs ! k))"
  "external_instances_table (fl_state (seen_by nb fs k)) = map (\<lambda>j. internal_instances_table (fl_state (fs ! j))) (nb k)"
  by (simp_all add: seen_by_def sound_external active_rules_def)

lemma network_step_sound:
  assumes "network_step N P cfg nb w w'" "P \<in> fw_protocols" "network_sound n w"
  shows "network_sound n w'"
  using assms(1,3)
proof cases
  case (packet_handled k fs b rx s' transmitted returned log)
  let ?s = "seen_by nb fs k" and ?e = "endpoints (fp_ports P) (fl_rx_data (fs ! k)) b"
  have s: "length fs = n" "sound (flows_of j log) (fl_state (fs ! j))" if "j < n" for j
    using assms(3) packet_handled(1) that by (simp_all add: network_sound_def)
  have len: "length fs = n" using assms(3) packet_handled(1) by (simp add: network_sound_def)
  have "sound (if transmitted then insert (endpoints (fp_ports P) (fl_rx_data ?s) b) (flows_of k log) else flows_of k log) (fl_state s')"
    by (rule sound_packet [OF _ assms(2) _ packet_handled(5)]) (use s packet_handled(3,4) len in simp_all)
  moreover have "flows_of k (log @ [(k, ?e)]) = insert ?e (flows_of k log)" by (auto simp: flows_of_def)
  moreover have "sound (flows_of j (log @ [(k, ?e)])) (fl_state (fs ! j))" if "j < n" for j
    by (rule sound_mono [OF s(2) [OF that]]) (auto simp: flows_of_def)
  ultimately show ?thesis
    using s packet_handled(2,3) len by (auto simp: network_sound_def nth_list_update)
next
  case (request_served k fs procedure label mr mrs m st' log)
  then have "sound (flows_of k log) (fl_state (fs ! k))" using assms(3) by (simp add: network_sound_def)
  from sound_request [OF this request_served(4-6)] assms(3) request_served(1-3) show ?thesis
    by (auto simp: network_sound_def nth_list_update)
next
  case (others_run k fs s' log)
  with assms(3) show ?thesis by (auto simp: network_sound_def nth_list_update)
qed

lemma network_reachable_sound:
  assumes "(network_step N P cfg nb)\<^sup>*\<^sup>* (fs0, []) w" "P \<in> fw_protocols" "\<forall>s \<in> set fs0. filter_started (fl_state s)"
  shows "network_sound (length fs0) w"
  using assms(1)
proof (induction rule: rtranclp_induct)
  case base
  have "sound (flows_of k []) (fl_state (fs0 ! k))" if "k < length fs0" for k
    using assms(3) that by (auto simp: flows_of_def intro!: sound_started)
  then show ?case by (simp add: network_sound_def)
qed (use assms(2) network_step_sound in blast)

text \<open>C25: the firewall opens only for a reason. Start the filters of one protocol, one for each interface, with
  tables without connections and rules without the action \<open>established\<close>, and run them in any order with any
  packets and any requests of the web server (that do not set \<open>established\<close> as the default action, which the
  code does not check). When a filter then passes a packet on to the router, either the most specific of its own
  rules that match the packet has the action \<open>allow\<close> or \<open>connect\<close>, or one of its neighbours has before passed
  on a packet with the same addresses and ports in reverse and still has a \<open>connect\<close> rule that matches that
  packet: a rule that was removed, or whose default action was changed, opens nothing any more.\<close>

theorem passed_for_a_reason:
  assumes "P \<in> {tcp_protocol, udp_protocol, icmp_protocol}" "\<forall>s \<in> set fs0. filter_started (fl_state s)"
    and "\<forall>k. set (nb k) \<subseteq> {0..<length fs0}"
    and "(network_step N P cfg nb)\<^sup>*\<^sup>* (fs0, []) (fs, log)" "k < length fs0"
    and "taken (net_dequeue_active N (fl_rx (fs ! k))) = Some (b, rx)"
    and "filter_packet N P (cfg k) (seen_by nb fs k, False, False) = Some (s', True, returned)"
    and "endpoints (fp_ports P) (fl_rx_data (fs ! k)) b = (sip, sp, dip, dp)"
  shows "(\<exists>r \<in> set (active_rules (fl_state (fs ! k))). rule_matches sip sp dip dp r \<and>
      (fr_action r = FILTER_ACT_ALLOW \<or> fr_action r = FILTER_ACT_CONNECT) \<and>
      (\<forall>r' \<in> set (active_rules (fl_state (fs ! k))). rule_matches sip sp dip dp r' \<longrightarrow> specificity r' \<le> specificity r)) \<or>
    (\<exists>j \<in> set (nb k). (j, (dip, dp, sip, sp)) \<in> set log \<and>
      (\<exists>r \<in> set (active_rules (fl_state (fs ! j))). rule_matches dip dp sip sp r \<and> fr_action r = FILTER_ACT_CONNECT))"
proof -
  have P: "P \<in> fw_protocols" using assms(1) by (simp add: fw_protocols_def)
  have s: "sound (flows_of j log) (fl_state (fs ! j))" if "j < length fs0" for j
    using network_reachable_sound [OF assms(4) P assms(2)] that by (simp add: network_sound_def)
  have view: "sound (flows_of k log) (fl_state (seen_by nb fs k))" using s [OF assms(5)] by simp
  obtain a rid where f: "fw_filter_find_action (fl_state (seen_by nb fs k)) sip sp dip dp = (a, rid)" by fastforce
  have "passes a"
    using filter_packet_decides [OF P _ _ f assms(7), of b rx] assms(6,8) by simp
  with action_reason [OF view f] show ?thesis
  proof (elim disjE conjE bexE, goal_cases)
    case (1 m)
    then show ?thesis by (auto simp: passes_def)
  next
    case (2 tbl i)
    then obtain j where j: "j \<in> set (nb k)" "tbl = internal_instances_table (fl_state (fs ! j))" by auto
    have "j < length fs0" using subsetD [OF spec [OF assms(3), of k] j(1)] by simp
    from s [OF this] 2 j show ?thesis by (fastforce simp: sound_def flows_of_def instance_flow_def opens_def)
  qed
qed

subsection \<open>An example\<close>

text \<open>Two filters with the rules of \<open>ex_filter\<close>. The first passes on the packet that opens a connection; the second has
  the answer in its queue, for which it has no rule.\<close>

definition ex_started :: fw_filter_state where
  "ex_started = snd (the (fw_filter_state_init (fst ex_regions) (snd ex_regions) 4 ex_internal [ex_internal] 2
     [ex_default, ex_connect] 2 1))"

definition ex_network :: "list_net filter list" where
  "ex_network = [ex_fl\<lparr>fl_state := ex_started\<rparr>, ex_fl\<lparr>fl_state := ex_started, fl_rx_data := ex_answer\<rparr>]"

definition ex_nb :: "nat \<Rightarrow> nat list" where
  "ex_nb k = (if k = 0 then [1] else if k = 1 then [0] else [])"

definition ex_passed :: "list_net filter" where
  "ex_passed = fst (the (filter_packet list_net_ops udp_protocol ex_flc (seen_by ex_nb ex_network 0, False, False)))"

lemma ex_started_ok: "filter_started ex_started"
proof -
  have "\<exists>out. fw_filter_state_init (fst ex_regions) (snd ex_regions) 4 ex_internal [ex_internal] 2
      (ex_default # [ex_connect]) (of_nat (Suc (length [ex_connect]))) 1 = Some (out, ex_started)"
    using filter_init_ok [OF ex_fresh, of "[ex_connect]" ex_internal "[ex_internal]" 2 1] ex_no_clash
    by (auto simp: ex_started_def)
  then obtain out where "fw_filter_state_init (fst ex_regions) (snd ex_regions) 4 ex_internal [ex_internal] 2
      (ex_default # [ex_connect]) (of_nat (Suc (length [ex_connect]))) 1 = Some (out, ex_started)" ..
  moreover have "\<forall>r \<in> set (ex_default # [ex_connect]). fr_action r \<noteq> FILTER_ACT_ESTABLISHED"
    by (simp add: ex_default_def ex_connect_def filter_actions)
  ultimately show ?thesis
    unfolding filter_started_def using ex_fresh ex_no_clash
    by (intro exI [of _ "fst ex_regions"] exI [of _ "snd ex_regions"] exI [of _ 4] exI [of _ ex_internal] exI [of _ "[ex_internal]"]
      exI [of _ 2] exI [of _ ex_default] exI [of _ "[ex_connect]"] exI [of _ 1] exI [of _ out]) (simp add: ex_internal_def)
qed

lemma ex_first_passes:
  "filter_packet list_net_ops udp_protocol ex_flc (seen_by ex_nb ex_network 0, False, False) = Some (ex_passed, True, False)"
proof -
  have "map_option snd (filter_packet list_net_ops udp_protocol ex_flc (seen_by ex_nb ex_network 0, False, False)) =
      Some (True, False)" by code_simp
  then show ?thesis by (auto simp: ex_passed_def)
qed

lemma ex_second_passes:
  "\<exists>s'. filter_packet list_net_ops udp_protocol ex_flc (seen_by ex_nb (ex_network[0 := ex_passed]) 1, False, False) =
     Some (s', True, False)"
proof -
  have "map_option snd (filter_packet list_net_ops udp_protocol ex_flc
      (seen_by ex_nb (ex_network[0 := ex_passed]) 1, False, False)) = Some (True, False)" by code_simp
  then show ?thesis by auto
qed

lemma ex_second_rules:
  "\<not> (\<exists>r \<in> set (active_rules (fl_state (ex_network[0 := ex_passed] ! 1))).
     rule_matches 0x01010101 80 0x0100000A 1234 r \<and> (fr_action r = FILTER_ACT_ALLOW \<or> fr_action r = FILTER_ACT_CONNECT))"
  by code_simp

theorem passed_for_a_reason_witness:
  "\<exists>s' r. filter_packet list_net_ops udp_protocol ex_flc (seen_by ex_nb (ex_network[0 := ex_passed]) 1, False, False) =
     Some (s', True, False) \<and> r \<in> set (active_rules (fl_state ex_passed)) \<and> rule_matches 0x0100000A 1234 0x01010101 80 r \<and>
     fr_action r = FILTER_ACT_CONNECT"
proof -
  let ?P = "udp_protocol :: list_net fw_protocol" and ?fs = "ex_network[0 := ex_passed]"
  let ?log = "[(0, endpoints (fp_ports ?P) (fl_rx_data (ex_network ! 0)) ex_buff)]"
  have len: "length ex_network = 2" by (simp add: ex_network_def)
  have q: "taken (net_dequeue_active list_net_ops (fl_rx (ex_network ! k))) = Some (ex_buff,
      \<lparr>ln_free = [], ln_active = [], ln_room = 4, ln_want_free = False, ln_want_active = False\<rparr>)" if "k < 2" for k
    using that by (auto simp: ex_network_def ex_fl_def list_net_ops_def less_2_cases_iff)
  have step: "network_step list_net_ops ?P (\<lambda>_. ex_flc) ex_nb (ex_network, []) (?fs, ?log)"
    using packet_handled [of 0 ex_network list_net_ops ex_buff _ ?P "\<lambda>_. ex_flc" ex_nb ex_passed True False "[]"]
      q [of 0] ex_first_passes len by simp
  obtain s' where s': "filter_packet list_net_ops ?P ex_flc (seen_by ex_nb ?fs 1, False, False) = Some (s', True, False)"
    using ex_second_passes by blast
  have e: "endpoints (fp_ports ?P) (fl_rx_data (?fs ! 1)) ex_buff = (0x01010101, 80, 0x0100000A, 1234)"
    using ex_endpoints(2) by (simp add: ex_network_def udp_protocol_def)
  have started: "\<forall>s \<in> set ex_network. filter_started (fl_state s)" using ex_started_ok by (simp add: ex_network_def)
  have nb: "\<forall>k. set (ex_nb k) \<subseteq> {0..<length ex_network}" unfolding len by (auto simp: ex_nb_def)
  have k: "1 < length ex_network" and fs1: "?fs ! 1 = ex_network ! 1" by (simp_all add: len)
  have q1: "taken (net_dequeue_active list_net_ops (fl_rx (?fs ! 1))) = Some (ex_buff,
      \<lparr>ln_free = [], ln_active = [], ln_room = 4, ln_want_free = False, ln_want_active = False\<rparr>)"
    unfolding fs1 by (rule q) simp
  have "?P \<in> {tcp_protocol, udp_protocol, icmp_protocol}" by blast
  from passed_for_a_reason [OF this started nb r_into_rtranclp [where r = "network_step list_net_ops ?P (\<lambda>_. ex_flc) ex_nb", OF step]
      k q1 s' e] ex_second_rules
  have "\<exists>j \<in> set (ex_nb 1). \<exists>r \<in> set (active_rules (fl_state (?fs ! j))).
      rule_matches 0x0100000A 1234 0x01010101 80 r \<and> fr_action r = FILTER_ACT_CONNECT" by blast
  then have "\<exists>r \<in> set (active_rules (fl_state ex_passed)). rule_matches 0x0100000A 1234 0x01010101 80 r \<and>
      fr_action r = FILTER_ACT_CONNECT" by (simp add: ex_nb_def len)
  with s' show ?thesis by blast
qed

end
