(* ===== verification/Fw_Icmp_Module.thy ===== *)
theory Fw_Icmp_Module
  imports Fw_Icmp Fw_Net
begin

text \<open>
  \<open>examples/firewall/icmp/icmp_module.c\<close>: the component that turns the requests of the filters and of the
  router into ICMP messages. It takes the requests from its queues and writes each message into a free
  transmit buffer of the interface it is for; a request for which there is no buffer is dropped.
\<close>

subsection \<open>Definitions\<close>

record fw_icmp_module_interface_config =
  imc_mac_addr :: mac
  imc_ip :: u32
  imc_filters :: "u16 list"
  imc_tx_id :: u8

text \<open>A filter without a connection has the capacity 0 in \<open>imc_filters\<close>; \<open>imc_hw_checksum\<close> is the build option
  \<open>NETWORK_HW_HAS_CHECKSUM\<close>.\<close>

record fw_icmp_module_config =
  imc_interfaces :: "fw_icmp_module_interface_config list"
  imc_hw_checksum :: bool

record 'q icmp_module =
  im_net :: "'q list"
  im_tx_data :: "memory list"
  im_router :: "icmp_req fw_queue"
  im_filter :: "icmp_req fw_queue list list"
  im_deferred :: "u8 list"

definition ICMP_DEST_LEN :: nat where "ICMP_DEST_LEN = ICMP_COMMON_HDR_LEN + 32"
definition ICMP_TIME_EXCEEDED_LEN :: nat where "ICMP_TIME_EXCEEDED_LEN = ICMP_COMMON_HDR_LEN + 32"
definition ICMP_REDIRECT_LEN :: nat where "ICMP_REDIRECT_LEN = ICMP_COMMON_HDR_LEN + 32"

lemmas icmp_lengths = ICMP_DEST_LEN_def ICMP_TIME_EXCEEDED_LEN_def ICMP_REDIRECT_LEN_def ICMP_COMMON_HDR_LEN_def

definition icmp_supported :: "icmp_req \<Rightarrow> bool" where
  "icmp_supported req \<longleftrightarrow> rq_type req = ICMP_DEST_UNREACHABLE \<or> rq_type req = ICMP_ECHO_REPLY \<or> rq_type req = ICMP_TTL_EXCEED"

definition req_echo_id :: "icmp_req \<Rightarrow> u16" where "req_echo_id req = read_le16 (rq_data req)"
definition req_echo_seq :: "icmp_req \<Rightarrow> u16" where "req_echo_seq req = read_le16 (drop 2 (rq_data req))"
definition req_payload_len :: "icmp_req \<Rightarrow> u16" where "req_payload_len req = read_le16 (drop 4 (rq_data req))"

text \<open>\<open>memcpy\<close> of \<open>n\<close> bytes from the array of \<open>limit\<close> bytes at \<open>i\<close> in the union of a request.\<close>

definition copy_from :: "icmp_req \<Rightarrow> nat \<Rightarrow> nat \<Rightarrow> nat \<Rightarrow> u8 list option" where
  "copy_from req i limit n = (if n \<le> limit then Some (take n (drop i (rq_data req))) else None)"

text \<open>The switch over the type: the length of the message, and the bytes that are written behind the common header.
  The data of the offending packet takes \<open>to_copy\<close> of its eight bytes; the others stay what they were.\<close>

definition icmp_message :: "icmp_req \<Rightarrow> (u16 \<times> u8 list) option" where
  "icmp_message req =
     (let to_copy = unat (icmp_to_copy (rq_ip_hdr req)) in
      if rq_type req = ICMP_ECHO_REPLY then
        map_option (\<lambda>d. (of_nat ICMP_COMMON_HDR_LEN + of_nat echo_data_offset + req_payload_len req,
            u16_bytes (htons (req_echo_id req)) @ u16_bytes (htons (req_echo_seq req)) @ d))
          (copy_from req echo_data_at FW_ICMP_ECHO_PAYLOAD_LEN (unat (req_payload_len req)))
      else if rq_type req = ICMP_DEST_UNREACHABLE then
        map_option (\<lambda>d. (of_nat ICMP_DEST_LEN, [0, 0, 0, 0] @ ipv4_hdr_bytes (rq_ip_hdr req) @ d))
          (copy_from req dest_data_at FW_ICMP_SRC_DATA_LEN to_copy)
      else if rq_type req = ICMP_TTL_EXCEED then
        map_option (\<lambda>d. (of_nat ICMP_TIME_EXCEEDED_LEN, [0, 0, 0, 0] @ ipv4_hdr_bytes (rq_ip_hdr req) @ d))
          (copy_from req dest_data_at FW_ICMP_SRC_DATA_LEN to_copy)
      else if rq_type req = ICMP_REDIRECT_MSG then
        map_option (\<lambda>d. (of_nat ICMP_REDIRECT_LEN, take 4 (rq_data req) @ ipv4_hdr_bytes (rq_ip_hdr req) @ d))
          (copy_from req redirect_data_at FW_ICMP_SRC_DATA_LEN to_copy)
      else None)"

definition icmp_ip_hdr :: "fw_icmp_module_interface_config \<Rightarrow> icmp_req \<Rightarrow> u16 \<Rightarrow> ipv4_hdr" where
  "icmp_ip_hdr ifc req len =
     \<lparr>ihl = of_nat (IPV4_HDR_LEN_MIN div 4), version = 4, ecn = 0, dscp = IPV4_DSCP_NET_CTRL,
      tot_len = htons (of_nat IPV4_HDR_LEN_MIN + len), ip_id = 0, frag_offset1 = 0, more_frag = 0, no_frag = 1,
      reserved = 0, frag_offset2 = 0, ttl = 64, protocol = IPV4_PROTO_ICMP, check = 0, src_ip = imc_ip ifc,
      dst_ip = src_ip (rq_ip_hdr req)\<rparr>"

text \<open>The two checksums, of the message first.\<close>

definition write_checksums :: "memory \<Rightarrow> nat \<Rightarrow> u16 \<Rightarrow> memory" where
  "write_checksums m pkt len =
     (let m1 = wr_bytes m (pkt + ICMP_HDR_OFFSET + 2)
            (u16_bytes (fw_internet_checksum (rd_bytes m (pkt + ICMP_HDR_OFFSET) (unat len)) len))
      in wr_bytes m1 (pkt + IPV4_HDR_OFFSET + 10)
           (u16_bytes (fw_internet_checksum (rd_bytes m1 (pkt + IPV4_HDR_OFFSET) IPV4_HDR_LEN_MIN) (of_nat IPV4_HDR_LEN_MIN))))"

definition write_message :: "bool \<Rightarrow> fw_icmp_module_interface_config \<Rightarrow> icmp_req \<Rightarrow> u16 \<Rightarrow> u8 list \<Rightarrow> memory \<Rightarrow> nat \<Rightarrow> memory" where
  "write_message hw ifc req len payload m pkt =
     (let m1 = write_eth m pkt \<lparr>ethdst_addr = take ETH_HWADDR_LEN (ethsrc_addr (rq_eth_hdr req)),
            ethsrc_addr = take ETH_HWADDR_LEN (imc_mac_addr ifc), ethtype = htons ETH_TYPE_IP\<rparr>;
          m2 = write_ip m1 pkt (icmp_ip_hdr ifc req len);
          m3 = wr_bytes m2 (pkt + ICMP_HDR_OFFSET) (icmp_hdr_bytes \<lparr>icmp_type = rq_type req, icmp_code = rq_code req, icmp_check = 0\<rparr>);
          m4 = wr_bytes m3 (pkt + ICMP_PAYLOAD_OFFSET) payload
      in if hw then m4 else write_checksums m4 pkt len)"

text \<open>The result of the function, then the state and the flags \<open>transmitted\<close>.\<close>

definition process_icmp_request :: "'q net_ops \<Rightarrow> fw_icmp_module_config \<Rightarrow> icmp_req \<Rightarrow> 'q icmp_module \<times> bool list
    \<Rightarrow> (bool \<times> 'q icmp_module \<times> bool list) option" where
  "process_icmp_request N cfg req = (\<lambda>(s, transmitted).
     (let out_int = unat (rq_out_interface req) in
      if \<not> icmp_supported req then Some (False, s, transmitted)
      else if net_queue_empty_free N (im_net s ! out_int) then Some (False, s, transmitted)
      else do {
        (buffer, q) \<leftarrow> taken (net_dequeue_free N (im_net s ! out_int));
        (len, payload) \<leftarrow> icmp_message req;
        let m = write_message (imc_hw_checksum cfg) (imc_interfaces cfg ! out_int) req len payload (im_tx_data s ! out_int)
              (unat (io_or_offset buffer));
        q' \<leftarrow> stored (net_enqueue_active N q (buffer\<lparr>nb_len := of_nat IPV4_HDR_LEN_MIN + len + of_nat ETH_HDR_LEN\<rparr>));
        Some (True, s\<lparr>im_net := (im_net s)[out_int := q'], im_tx_data := (im_tx_data s)[out_int := m]\<rparr>,
          transmitted[out_int := True])
      }))"

definition filter_request_step :: "'q net_ops \<Rightarrow> fw_icmp_module_config \<Rightarrow> nat \<Rightarrow> nat \<Rightarrow> 'q icmp_module \<times> bool list
    \<Rightarrow> ('q icmp_module \<times> bool list) option" where
  "filter_request_step N cfg iface f = (\<lambda>(s, transmitted). do {
     (req, q) \<leftarrow> taken (fw_dequeue (im_filter s ! iface ! f));
     map_option snd (process_icmp_request N cfg req
       (s\<lparr>im_filter := (im_filter s)[iface := (im_filter s ! iface)[f := q]]\<rparr>, transmitted))
   })"

definition router_request_step :: "'q net_ops \<Rightarrow> fw_icmp_module_config \<Rightarrow> 'q icmp_module \<times> bool list
    \<Rightarrow> ('q icmp_module \<times> bool list) option" where
  "router_request_step N cfg = (\<lambda>(s, transmitted). do {
     (req, q) \<leftarrow> taken (fw_dequeue (im_router s));
     map_option snd (process_icmp_request N cfg req (s\<lparr>im_router := q\<rparr>, transmitted))
   })"

definition process_filter :: "'q net_ops \<Rightarrow> fw_icmp_module_config \<Rightarrow> nat \<Rightarrow> nat \<Rightarrow> 'q icmp_module \<times> bool list
    \<Rightarrow> ('q icmp_module \<times> bool list) option" where
  "process_filter N cfg iface f u =
     (if imc_filters (imc_interfaces cfg ! iface) ! f = 0 then Some u
      else while_opt (\<lambda>(s, transmitted). \<not> fw_queue_empty (im_filter s ! iface ! f)) (filter_request_step N cfg iface f) u)"

definition generate_icmp :: "'q net_ops \<Rightarrow> fw_icmp_module_config \<Rightarrow> 'q icmp_module \<Rightarrow> 'q icmp_module option" where
  "generate_icmp N cfg s = do {
     u \<leftarrow> fold_body (\<lambda>iface. fold_body (process_filter N cfg iface) [0..<length (imc_filters (imc_interfaces cfg ! iface))])
            [0..<length (imc_interfaces cfg)] (s, replicate (length (imc_interfaces cfg)) False);
     (s', transmitted) \<leftarrow> while_opt (\<lambda>(s, transmitted). \<not> fw_queue_empty (im_router s)) (router_request_step N cfg) u;
     Some (s'\<lparr>im_deferred := im_deferred s' @
       map (\<lambda>i. imc_tx_id (imc_interfaces cfg ! i)) (filter (\<lambda>i. transmitted ! i) [0..<length (imc_interfaces cfg)])\<rparr>)
   }"

definition icmp_module_notified :: "'q net_ops \<Rightarrow> fw_icmp_module_config \<Rightarrow> u8 \<Rightarrow> 'q icmp_module \<Rightarrow> 'q icmp_module option" where
  "icmp_module_notified N cfg ch s = generate_icmp N cfg s"

subsection \<open>The message in the buffer\<close>

lemma rd_wr_inside:
  assumes "i + 1 < n"
  shows "rd_bytes (wr_bytes m (a + i) (u16_bytes c)) a n = store_le16 (rd_bytes m a n) i c"
proof (rule nth_equalityI)
  fix k assume "k < length (rd_bytes (wr_bytes m (a + i) (u16_bytes c)) a n)"
  then have k: "k < n" by simp
  consider "k = i" | "k = Suc i" | "k \<noteq> i" "k \<noteq> Suc i" by blast
  then show "rd_bytes (wr_bytes m (a + i) (u16_bytes c)) a n ! k = store_le16 (rd_bytes m a n) i c ! k"
    using k assms by cases (auto simp: wr_bytes_def store_le16_def u16_bytes_def nth_Cons split: nat.split)
qed simp

lemma rd_bytes_split: "rd_bytes m a (j + k) = rd_bytes m a j @ rd_bytes m (a + j) k"
  by (rule nth_equalityI) (auto simp: nth_append)

lemma ipv4_check_zero: "check h = 0 \<Longrightarrow> ipv4_hdr_bytes h ! 10 = 0 \<and> ipv4_hdr_bytes h ! 11 = 0"
  by (simp add: ipv4_hdr_bytes_def u16_bytes_def ip_bytes_def)

text \<open>The bytes of a message: its header and the payload, then what was in the buffer.\<close>

definition icmp_wire :: "icmp_req \<Rightarrow> nat \<Rightarrow> u8 list \<Rightarrow> memory \<Rightarrow> nat \<Rightarrow> u8 list" where
  "icmp_wire req len payload m pkt = [rq_type req, rq_code req, 0, 0] @ payload @
     rd_bytes m (pkt + ICMP_PAYLOAD_OFFSET + length payload) (len - 4 - length payload)"

lemmas packet_offsets = ICMP_PAYLOAD_OFFSET_def ICMP_HDR_OFFSET_def IPV4_HDR_OFFSET_def IPV4_HDR_LEN_MIN_def
  ETH_HDR_LEN_def ICMP_COMMON_HDR_LEN_def

lemma message_length:
  assumes "icmp_message req = Some (len, payload)"
  shows "4 \<le> unat len" "4 + length payload \<le> unat len" "unat len \<le> 64"
proof -
  have echo: "unat (8 + n) = 8 + unat n" if "unat n \<le> 56" for n :: u16
    using that by (simp add: unat_word_ariths)
  have "4 \<le> unat len \<and> 4 + length payload \<le> unat len \<and> unat len \<le> 64"
    using assms
    by (auto simp: icmp_message_def Let_def copy_from_def icmp_lengths echo_data_offset_def FW_ICMP_ECHO_PAYLOAD_LEN_def
      FW_ICMP_SRC_DATA_LEN_def IPV4_HDR_LEN_MIN_def echo split: if_splits)
  then show "4 \<le> unat len" "4 + length payload \<le> unat len" "unat len \<le> 64" by simp_all
qed

lemma unwritten_message:
  fixes ifc req len payload m pkt
  defines "m1 \<equiv> write_eth m pkt \<lparr>ethdst_addr = take ETH_HWADDR_LEN (ethsrc_addr (rq_eth_hdr req)),
            ethsrc_addr = take ETH_HWADDR_LEN (imc_mac_addr ifc), ethtype = htons ETH_TYPE_IP\<rparr>"
  defines "m2 \<equiv> write_ip m1 pkt (icmp_ip_hdr ifc req len)"
  defines "m3 \<equiv> wr_bytes m2 (pkt + ICMP_HDR_OFFSET) (icmp_hdr_bytes \<lparr>icmp_type = rq_type req, icmp_code = rq_code req, icmp_check = 0\<rparr>)"
  defines "m4 \<equiv> wr_bytes m3 (pkt + ICMP_PAYLOAD_OFFSET) payload"
  assumes mac: "length (ethsrc_addr (rq_eth_hdr req)) = ETH_HWADDR_LEN" "length (imc_mac_addr ifc) = ETH_HWADDR_LEN"
    and len: "4 + length payload \<le> unat len"
  shows "read_eth m4 pkt = \<lparr>ethdst_addr = ethsrc_addr (rq_eth_hdr req), ethsrc_addr = imc_mac_addr ifc, ethtype = htons ETH_TYPE_IP\<rparr>"
    "rd_bytes m4 (pkt + IPV4_HDR_OFFSET) IPV4_HDR_LEN_MIN = ipv4_hdr_bytes (icmp_ip_hdr ifc req len)"
    "rd_bytes m4 (pkt + ICMP_HDR_OFFSET) (unat len) = icmp_wire req (unat len) payload m pkt"
proof -
  let ?eth = "\<lparr>ethdst_addr = ethsrc_addr (rq_eth_hdr req), ethsrc_addr = imc_mac_addr ifc, ethtype = htons ETH_TYPE_IP\<rparr>"
  have wf: "wf_eth_hdr ?eth" using mac by (simp add: wf_eth_hdr_def)
  have m1: "m1 = wr_bytes m pkt (eth_hdr_bytes ?eth)" using mac by (simp add: m1_def write_eth_def)
  have leth: "length (eth_hdr_bytes ?eth) = 14" using wf by (simp add: ETH_HDR_LEN_def)
  have lip: "length (ipv4_hdr_bytes (icmp_ip_hdr ifc req len)) = 20" by (simp add: IPV4_HDR_LEN_MIN_def)
  note defs = m4_def m3_def m2_def write_ip_def packet_offsets
  show "read_eth m4 pkt = ?eth"
    unfolding read_eth_def defs m1 using wf leth lip by (simp add: rd_wr_apart icmp_hdr_bytes_def)
  show "rd_bytes m4 (pkt + IPV4_HDR_OFFSET) IPV4_HDR_LEN_MIN = ipv4_hdr_bytes (icmp_ip_hdr ifc req len)"
    unfolding defs m1 using leth lip by (simp add: rd_wr_apart icmp_hdr_bytes_def)
  let ?rest = "unat len - 4 - length payload"
  have "rd_bytes m4 (pkt + 34) (unat len) = rd_bytes m4 (pkt + 34) (4 + (length payload + ?rest))" using len by simp
  also have "\<dots> = rd_bytes m4 (pkt + 34) 4 @ rd_bytes m4 (pkt + 34 + 4) (length payload) @
      rd_bytes m4 (pkt + 34 + 4 + length payload) ?rest" by (simp only: rd_bytes_split)
  also have "rd_bytes m4 (pkt + 34) 4 = [rq_type req, rq_code req, 0, 0]"
    unfolding defs by (simp add: rd_wr_apart icmp_hdr_bytes_def u16_bytes_def)
  also have "rd_bytes m4 (pkt + 34 + 4) (length payload) = payload"
  proof -
    have "pkt + 34 + 4 = pkt + ICMP_PAYLOAD_OFFSET" by (simp add: packet_offsets)
    then show ?thesis by (simp only: m4_def rd_wr_same)
  qed
  also have "rd_bytes m4 (pkt + 34 + 4 + length payload) ?rest = rd_bytes m (pkt + 38 + length payload) ?rest"
    unfolding defs m1 using leth lip by (simp add: rd_wr_apart icmp_hdr_bytes_def add.commute [of 38])
  finally show "rd_bytes m4 (pkt + ICMP_HDR_OFFSET) (unat len) = icmp_wire req (unat len) payload m pkt"
    by (simp add: icmp_wire_def packet_offsets)
qed

text \<open>The whole message with its checksums.\<close>

lemma written_message:
  fixes ifc req len payload m pkt
  defines "m' \<equiv> write_message False ifc req len payload m pkt" and "W \<equiv> icmp_wire req (unat len) payload m pkt"
    and "h \<equiv> icmp_ip_hdr ifc req len"
  assumes mac: "length (ethsrc_addr (rq_eth_hdr req)) = ETH_HWADDR_LEN" "length (imc_mac_addr ifc) = ETH_HWADDR_LEN"
    and len: "4 + length payload \<le> unat len"
  shows "read_eth m' pkt = \<lparr>ethdst_addr = ethsrc_addr (rq_eth_hdr req), ethsrc_addr = imc_mac_addr ifc, ethtype = htons ETH_TYPE_IP\<rparr>"
    "read_ip m' pkt = h\<lparr>check := fw_internet_checksum (ipv4_hdr_bytes h) 20\<rparr>"
    "fw_internet_checksum (rd_bytes m' (pkt + IPV4_HDR_OFFSET) IPV4_HDR_LEN_MIN) 20 = 0"
    "rd_bytes m' (pkt + ICMP_HDR_OFFSET) (unat len) = store_le16 W 2 (fw_internet_checksum W len)"
    "fw_internet_checksum (rd_bytes m' (pkt + ICMP_HDR_OFFSET) (unat len)) len = 0"
proof -
  define m4 where "m4 = wr_bytes (wr_bytes (write_ip (write_eth m pkt
       \<lparr>ethdst_addr = take ETH_HWADDR_LEN (ethsrc_addr (rq_eth_hdr req)),
        ethsrc_addr = take ETH_HWADDR_LEN (imc_mac_addr ifc), ethtype = htons ETH_TYPE_IP\<rparr>) pkt (icmp_ip_hdr ifc req len))
       (pkt + ICMP_HDR_OFFSET) (icmp_hdr_bytes \<lparr>icmp_type = rq_type req, icmp_code = rq_code req, icmp_check = 0\<rparr>))
       (pkt + ICMP_PAYLOAD_OFFSET) payload"
  note m4 = unwritten_message [OF mac len, of m pkt, folded m4_def]
  define c where "c = fw_internet_checksum W len"
  define m5 where "m5 = wr_bytes m4 (pkt + 36) (u16_bytes c)"
  have W: "rd_bytes m4 (pkt + 34) (unat len) = W" using m4(3) by (simp add: W_def packet_offsets)
  have lW: "length W = unat len" unfolding W [symmetric] by simp
  have H: "rd_bytes m4 (pkt + 14) 20 = ipv4_hdr_bytes h" using m4(2) by (simp add: h_def packet_offsets)
  then have H5: "rd_bytes m5 (pkt + 14) 20 = ipv4_hdr_bytes h" by (simp add: m5_def rd_wr_apart)
  have m': "m' = wr_bytes m5 (pkt + 24) (u16_bytes (fw_internet_checksum (ipv4_hdr_bytes h) 20))"
  proof -
    have "m' = write_checksums m4 pkt len" by (simp only: m'_def write_message_def Let_def if_False m4_def)
    then have "m' = wr_bytes m5 (pkt + 24) (u16_bytes (fw_internet_checksum (rd_bytes m5 (pkt + 14) 20) 20))"
      using W by (simp add: write_checksums_def packet_offsets Let_def m5_def c_def add.commute [of 36] add.commute [of 24])
    then show ?thesis unfolding H5 .
  qed
  show "read_eth m' pkt = \<lparr>ethdst_addr = ethsrc_addr (rq_eth_hdr req), ethsrc_addr = imc_mac_addr ifc, ethtype = htons ETH_TYPE_IP\<rparr>"
    unfolding m4(1) [symmetric] by (simp add: read_eth_def m' m5_def rd_wr_apart ETH_HDR_LEN_def)
  have "rd_bytes m' (pkt + 14) 20 = store_le16 (rd_bytes m5 (pkt + 14) 20) 10 (fw_internet_checksum (ipv4_hdr_bytes h) 20)"
    using rd_wr_inside [of 10 20 m5 "pkt + 14"] by (simp add: m' add.commute [of 24])
  then have H': "rd_bytes m' (pkt + 14) 20 = store_le16 (ipv4_hdr_bytes h) 10 (fw_internet_checksum (ipv4_hdr_bytes h) 20)"
    unfolding H5 .
  then show "read_ip m' pkt = h\<lparr>check := fw_internet_checksum (ipv4_hdr_bytes h) 20\<rparr>"
    by (simp add: read_ip_def packet_offsets ipv4_check_bytes [symmetric])
  have h0: "ipv4_hdr_bytes h ! 10 = 0" "ipv4_hdr_bytes h ! Suc 10 = 0" "length (ipv4_hdr_bytes h) = 20"
    using ipv4_check_zero [of h] by (simp_all add: h_def icmp_ip_hdr_def IPV4_HDR_LEN_MIN_def)
  have "fw_internet_checksum (store_le16 (ipv4_hdr_bytes h) 10 (fw_internet_checksum (ipv4_hdr_bytes h) 20)) 20 = 0"
    by (rule checksum_of_store) (use h0 in \<open>simp_all add: IPV4_HDR_LEN_MIN_def\<close>)
  then show "fw_internet_checksum (rd_bytes m' (pkt + IPV4_HDR_OFFSET) IPV4_HDR_LEN_MIN) 20 = 0"
    using H' by (simp add: packet_offsets)
  have "rd_bytes m' (pkt + 34) (unat len) = rd_bytes m5 (pkt + 34) (unat len)" by (simp add: m' rd_wr_apart)
  also have "\<dots> = store_le16 (rd_bytes m4 (pkt + 34) (unat len)) 2 c"
    using rd_wr_inside [of 2 "unat len" m4 "pkt + 34"] len by (simp add: m5_def add.commute [of 36])
  finally have I: "rd_bytes m' (pkt + 34) (unat len) = store_le16 W 2 c" unfolding W .
  then show "rd_bytes m' (pkt + ICMP_HDR_OFFSET) (unat len) = store_le16 W 2 (fw_internet_checksum W len)"
    by (simp add: packet_offsets c_def)
  have "fw_internet_checksum (store_le16 W 2 c) len = 0"
    unfolding c_def by (rule checksum_of_store) (use lW len in \<open>simp_all add: W_def icmp_wire_def\<close>)
  then show "fw_internet_checksum (rd_bytes m' (pkt + ICMP_HDR_OFFSET) (unat len)) len = 0"
    using I by (simp add: packet_offsets)
qed

subsection \<open>One request\<close>

definition message_ready :: "fw_icmp_module_interface_config \<Rightarrow> icmp_req \<Rightarrow> u16 \<Rightarrow> u8 list \<Rightarrow> memory \<Rightarrow> net_buff_desc \<Rightarrow> bool" where
  "message_ready ifc req len payload m b \<longleftrightarrow>
     (let pkt = unat (io_or_offset b) in
      nb_len b = of_nat IPV4_HDR_LEN_MIN + len + of_nat ETH_HDR_LEN \<and>
      read_eth m pkt = \<lparr>ethdst_addr = ethsrc_addr (rq_eth_hdr req), ethsrc_addr = imc_mac_addr ifc, ethtype = htons ETH_TYPE_IP\<rparr> \<and>
      (\<exists>c. read_ip m pkt = (icmp_ip_hdr ifc req len)\<lparr>check := c\<rparr>) \<and>
      m (pkt + ICMP_HDR_OFFSET) = rq_type req \<and> m (pkt + ICMP_HDR_OFFSET + 1) = rq_code req \<and>
      rd_bytes m (pkt + ICMP_PAYLOAD_OFFSET) (length payload) = payload \<and>
      fw_internet_checksum (rd_bytes m (pkt + IPV4_HDR_OFFSET) IPV4_HDR_LEN_MIN) 20 = 0 \<and>
      fw_internet_checksum (rd_bytes m (pkt + ICMP_HDR_OFFSET) (unat len)) len = 0)"

lemma message_is_ready:
  assumes msg: "icmp_message req = Some (len, payload)"
    and mac: "length (ethsrc_addr (rq_eth_hdr req)) = ETH_HWADDR_LEN" "length (imc_mac_addr ifc) = ETH_HWADDR_LEN"
  shows "message_ready ifc req len payload (write_message False ifc req len payload m (unat (io_or_offset b)))
    (b\<lparr>nb_len := of_nat IPV4_HDR_LEN_MIN + len + of_nat ETH_HDR_LEN\<rparr>)"
proof -
  let ?pkt = "unat (io_or_offset b)"
  let ?m = "write_message False ifc req len payload m ?pkt" and ?W = "icmp_wire req (unat len) payload m ?pkt"
  note le = message_length [OF msg]
  note w = written_message [OF mac le(2), of m ?pkt]
  have byte: "?m (?pkt + ICMP_HDR_OFFSET + i) = store_le16 ?W 2 (fw_internet_checksum ?W len) ! i" if "i < unat len" for i
    using that arg_cong [OF w(4), of "\<lambda>l. l ! i"] by simp
  have "?m (?pkt + ICMP_HDR_OFFSET) = rq_type req" "?m (?pkt + ICMP_HDR_OFFSET + 1) = rq_code req"
    using byte [of 0] byte [of 1] le(1) by (simp_all add: store_le16_def icmp_wire_def)
  moreover have "rd_bytes ?m (?pkt + ICMP_PAYLOAD_OFFSET) (length payload) = payload"
  proof (rule nth_equalityI)
    fix i assume "i < length (rd_bytes ?m (?pkt + ICMP_PAYLOAD_OFFSET) (length payload))"
    then have i: "i < length payload" by simp
    then have "?m (?pkt + ICMP_HDR_OFFSET + (4 + i)) = payload ! i"
      using byte [of "4 + i"] le(2) by (simp add: store_le16_def icmp_wire_def nth_append)
    then show "rd_bytes ?m (?pkt + ICMP_PAYLOAD_OFFSET) (length payload) ! i = payload ! i"
      using i by (simp add: ICMP_PAYLOAD_OFFSET_def ICMP_COMMON_HDR_LEN_def add.assoc)
  qed simp
  moreover have "\<exists>c. read_ip ?m ?pkt = (icmp_ip_hdr ifc req len)\<lparr>check := c\<rparr>" using w(2) by blast
  ultimately show ?thesis using w(1,3,5) by (simp add: message_ready_def)
qed

lemma process_sends:
  assumes laws: "net_queue_laws N V" and out: "unat (rq_out_interface req) = out" "out < length (im_net s)" "out < length (im_tx_data s)"
    and fits: "net_fits V (im_net s ! out)" and free: "nv_free V (im_net s ! out) = f # fs"
    and sup: "icmp_supported req" and msg: "icmp_message req = Some (len, payload)" and hw: "\<not> imc_hw_checksum cfg"
    and mac: "length (ethsrc_addr (rq_eth_hdr req)) = ETH_HWADDR_LEN" "length (imc_mac_addr (imc_interfaces cfg ! out)) = ETH_HWADDR_LEN"
  shows "\<exists>s' b. process_icmp_request N cfg req (s, tr) = Some (True, s', tr[out := True]) \<and> io_or_offset b = io_or_offset f \<and>
    net_kept V (im_net s ! out) (im_net s' ! out) \<and> nv_free V (im_net s' ! out) = fs \<and>
    nv_active V (im_net s' ! out) = nv_active V (im_net s ! out) @ [b] \<and>
    (\<exists>q m. s' = s\<lparr>im_net := (im_net s)[out := q], im_tx_data := (im_tx_data s)[out := m]\<rparr>) \<and>
    message_ready (imc_interfaces cfg ! out) req len payload (im_tx_data s' ! out) b"
proof -
  let ?ifc = "imc_interfaces cfg ! out" and ?l = "of_nat IPV4_HDR_LEN_MIN + len + of_nat ETH_HDR_LEN :: u16"
  have "nv_ok V (im_net s ! out)" using fits by (simp add: net_fits_def)
  then have ne: "\<not> net_queue_empty_free N (im_net s ! out)" using net_empty(1) [OF laws] free by simp
  from net_free_to_active [OF laws fits ne] obtain b q1 q2 where
    q: "taken (net_dequeue_free N (im_net s ! out)) = Some (b, q1)"
      "stored (net_enqueue_active N q1 (b\<lparr>nb_len := ?l\<rparr>)) = Some q2" "net_kept V (im_net s ! out) q2"
      "nv_active V q2 = nv_active V (im_net s ! out) @ [b\<lparr>nb_len := ?l\<rparr>]" "nv_free V (im_net s ! out) = b # nv_free V q2"
    by blast
  let ?m = "write_message False ?ifc req len payload (im_tx_data s ! out) (unat (io_or_offset b))"
  let ?s' = "s\<lparr>im_net := (im_net s)[out := q2], im_tx_data := (im_tx_data s)[out := ?m]\<rparr>"
  have "process_icmp_request N cfg req (s, tr) = Some (True, ?s', tr[out := True])"
    using sup ne q(1,2) msg hw out(1) by (simp add: process_icmp_request_def Let_def)
  moreover have "message_ready ?ifc req len payload ?m (b\<lparr>nb_len := ?l\<rparr>)" by (rule message_is_ready [OF msg mac])
  ultimately show ?thesis
    using q(3-5) free out by (intro exI [of _ ?s'] exI [of _ "b\<lparr>nb_len := ?l\<rparr>"]) auto
qed

end
