(* ===== verification/Fw_Icmp_Module_Props.thy ===== *)
theory Fw_Icmp_Module_Props
  imports Fw_Icmp_Module
begin

text \<open>
  What the ICMP module promises: a ping is answered with its own data, the messages carry correct headers
  and checksums, and every notification handles all requests without losing a transmit buffer.
\<close>

subsection \<open>Pings\<close>

lemma u16_bytes_read: "u16_bytes (read_le16 (rd_bytes m a 2)) = rd_bytes m a 2"
proof -
  have "rd_bytes m a 2 = [m a, m (Suc a)]" by (simp add: rd_bytes_def upt_rec)
  then show ?thesis by (simp add: u16_bytes_def wire)
qed

definition echo_request :: "memory \<Rightarrow> nat \<Rightarrow> u8 \<Rightarrow> icmp_req" where
  "echo_request m pkt i =
     (let h = read_ip m pkt; echo = pkt + unat (transport_layer_offset h) + ICMP_COMMON_HDR_LEN; n = echo_payload_len h
      in \<lparr>rq_type = ICMP_ECHO_REPLY, rq_code = 0, rq_out_interface = i, rq_eth_hdr = read_eth m pkt, rq_ip_hdr = h,
          rq_data = store_at (store_at zero_union 0 (u16_bytes (ntohs (read_le16 (rd_bytes m echo 2))) @
            u16_bytes (ntohs (read_le16 (rd_bytes m (echo + 2) 2))) @ u16_bytes n)) echo_data_at
            (rd_bytes m (echo + echo_data_offset) (unat n))\<rparr>)"

lemma echo_request_data:
  fixes m pkt i
  defines "h \<equiv> read_ip m pkt"
  defines "echo \<equiv> pkt + unat (transport_layer_offset h) + ICMP_COMMON_HDR_LEN" and "n \<equiv> echo_payload_len h"
  shows "req_echo_id (echo_request m pkt i) = ntohs (read_le16 (rd_bytes m echo 2))"
    "req_echo_seq (echo_request m pkt i) = ntohs (read_le16 (rd_bytes m (echo + 2) 2))"
    "req_payload_len (echo_request m pkt i) = n"
    "copy_from (echo_request m pkt i) echo_data_at FW_ICMP_ECHO_PAYLOAD_LEN (unat n) =
       Some (rd_bytes m (echo + echo_data_offset) (unat n))"
proof -
  let ?id = "ntohs (read_le16 (rd_bytes m echo 2))" and ?seq = "ntohs (read_le16 (rd_bytes m (echo + 2) 2))"
  let ?data = "rd_bytes m (echo + echo_data_offset) (unat n)"
  have d: "\<exists>rest. rq_data (echo_request m pkt i) =
      ucast ?id # ucast (drop_bit 8 ?id) # ucast ?seq # ucast (drop_bit 8 ?seq) # ucast n # ucast (drop_bit 8 n) # ?data @ rest"
    by (simp add: echo_request_def Let_def h_def [symmetric] echo_def [symmetric] n_def [symmetric] store_at_def
      echo_data_at_def u16_bytes_def)
  then obtain rest where d: "rq_data (echo_request m pkt i) =
      ucast ?id # ucast (drop_bit 8 ?id) # ucast ?seq # ucast (drop_bit 8 ?seq) # ucast n # ucast (drop_bit 8 n) # ?data @ rest" ..
  show "req_echo_id (echo_request m pkt i) = ?id" "req_echo_seq (echo_request m pkt i) = ?seq"
    "req_payload_len (echo_request m pkt i) = n"
    by (simp_all add: req_echo_id_def req_echo_seq_def req_payload_len_def d wire)
  have "unat n \<le> FW_ICMP_ECHO_PAYLOAD_LEN" unfolding n_def by (rule echo_payload_le)
  then show "copy_from (echo_request m pkt i) echo_data_at FW_ICMP_ECHO_PAYLOAD_LEN (unat n) = Some ?data"
    by (simp add: copy_from_def d echo_data_at_def)
qed

lemma echo_request_message:
  fixes m pkt i
  defines "h \<equiv> read_ip m pkt"
  defines "echo \<equiv> pkt + unat (transport_layer_offset h) + ICMP_COMMON_HDR_LEN" and "n \<equiv> echo_payload_len h"
  shows "icmp_message (echo_request m pkt i) = Some (8 + n, rd_bytes m echo (4 + unat n))"
proof -
  note d = echo_request_data [of m pkt i, folded h_def, folded echo_def n_def]
  have "rq_type (echo_request m pkt i) = ICMP_ECHO_REPLY" by (simp add: echo_request_def Let_def)
  then have "icmp_message (echo_request m pkt i) = Some (8 + n,
      u16_bytes (htons (ntohs (read_le16 (rd_bytes m echo 2)))) @ u16_bytes (htons (ntohs (read_le16 (rd_bytes m (echo + 2) 2)))) @
      rd_bytes m (echo + 4) (unat n))"
    using d by (simp add: icmp_message_def Let_def icmp_lengths echo_data_offset_def)
  also have "\<dots> = Some (8 + n, rd_bytes m echo (2 + (2 + unat n)))"
    by (simp only: ntohs_eq_htons htons_involution u16_bytes_read rd_bytes_split add.assoc numeral_plus_numeral add_num_simps)
  also have "2 + (2 + unat n) = 4 + unat n" by simp
  finally show ?thesis .
qed

lemma icmp_enqueue_echo_request:
  assumes "wf_fw_queue q" "length (fq_contents q) < fq_room q"
  shows "\<exists>q'. icmp_enqueue_echo_reply q m pkt i = Some (True, q') \<and> wf_fw_queue q' \<and>
    fq_contents q' = fq_contents q @ [echo_request m pkt i]"
proof -
  have "unat (echo_payload_len (read_ip m pkt)) \<le> FW_ICMP_ECHO_PAYLOAD_LEN" by (rule echo_payload_le)
  then have "icmp_enqueue_echo_reply q m pkt i =
      Some (fst (fw_enqueue q (echo_request m pkt i)) = 0, snd (fw_enqueue q (echo_request m pkt i)))"
    by (simp add: icmp_enqueue_echo_reply_def copy_into_def Let_def split_def echo_request_def)
  with fwq.enq_ok [OF assms, of "echo_request m pkt i"] show ?thesis by auto
qed

lemma fw_taken_head:
  assumes "wf_fw_queue q" "fq_contents q = e # es"
  shows "\<exists>q'. taken (fw_dequeue q) = Some (e, q') \<and> wf_fw_queue q' \<and> fq_contents q' = es \<and> fq_room q' = fq_room q"
  using fwq.deq_ok [OF assms] by auto

text \<open>C8: a ping is answered with its own data. When the router asks for the answer to the echo request at \<open>pkt\<close>
  and the module takes this request, the reply goes to the sender's hardware and IP address from those of the
  interface, carries the identifier, the sequence number and at most 56 bytes of the data of the request, and
  both its checksums verify. A packet too short for an echo header is answered with 56 bytes of whatever follows.\<close>

theorem ping_answered:
  fixes m :: memory and pkt :: nat
  defines "h \<equiv> read_ip m pkt"
  defines "len \<equiv> unat (htons (tot_len h))" and "hdrs \<equiv> unat (ipv4_header_length h) + 8"
    and "echo \<equiv> pkt + unat (transport_layer_offset h) + ICMP_COMMON_HDR_LEN"
  assumes "net_queue_laws N V" "wf_fw_queue (im_router s)" "fq_contents (im_router s) = []" "0 < fq_room (im_router s)"
    and "unat i < length (im_net s)" "unat i < length (im_tx_data s)" "net_fits V (im_net s ! unat i)"
    and "nv_free V (im_net s ! unat i) \<noteq> []" "\<not> imc_hw_checksum cfg"
    and "length (imc_mac_addr (imc_interfaces cfg ! unat i)) = ETH_HWADDR_LEN"
  shows "\<exists>q s' b k. icmp_enqueue_echo_reply (im_router s) m pkt i = Some (True, q) \<and>
    router_request_step N cfg (s\<lparr>im_router := q\<rparr>, tr) = Some (s', tr[unat i := True]) \<and>
    nv_active V (im_net s' ! unat i) = nv_active V (im_net s ! unat i) @ [b] \<and>
    read_eth (im_tx_data s' ! unat i) (unat (io_or_offset b)) = \<lparr>ethdst_addr = ethsrc_addr (read_eth m pkt),
      ethsrc_addr = imc_mac_addr (imc_interfaces cfg ! unat i), ethtype = htons ETH_TYPE_IP\<rparr> \<and>
    src_ip (read_ip (im_tx_data s' ! unat i) (unat (io_or_offset b))) = imc_ip (imc_interfaces cfg ! unat i) \<and>
    dst_ip (read_ip (im_tx_data s' ! unat i) (unat (io_or_offset b))) = src_ip h \<and>
    (im_tx_data s' ! unat i) (unat (io_or_offset b) + ICMP_HDR_OFFSET) = ICMP_ECHO_REPLY \<and>
    k = (if len < hdrs then 56 else min 56 (len - hdrs)) \<and>
    rd_bytes (im_tx_data s' ! unat i) (unat (io_or_offset b) + ICMP_PAYLOAD_OFFSET) (4 + k) = rd_bytes m echo (4 + k) \<and>
    fw_internet_checksum (rd_bytes (im_tx_data s' ! unat i) (unat (io_or_offset b) + IPV4_HDR_OFFSET) IPV4_HDR_LEN_MIN) 20 = 0 \<and>
    fw_internet_checksum (rd_bytes (im_tx_data s' ! unat i) (unat (io_or_offset b) + ICMP_HDR_OFFSET) (8 + k)) (of_nat (8 + k)) = 0"
proof -
  let ?req = "echo_request m pkt i" and ?n = "echo_payload_len h" and ?out = "unat i"
  obtain q where q: "icmp_enqueue_echo_reply (im_router s) m pkt i = Some (True, q)" "wf_fw_queue q" "fq_contents q = [?req]"
    using icmp_enqueue_echo_request [of "im_router s" m pkt i] assms(6-8) by auto
  obtain q' where q': "taken (fw_dequeue q) = Some (?req, q')" using fw_taken_head [OF q(2,3)] by blast
  let ?s = "s\<lparr>im_router := q'\<rparr>"
  obtain f fs where free: "nv_free V (im_net ?s ! ?out) = f # fs" using assms(12) by (cases "nv_free V (im_net s ! ?out)") auto
  have req: "unat (rq_out_interface ?req) = ?out" "icmp_supported ?req" "length (ethsrc_addr (rq_eth_hdr ?req)) = ETH_HWADDR_LEN"
    by (simp_all add: echo_request_def Let_def icmp_supported_def read_eth_def eth_hdr_of_def ETH_HDR_LEN_def ETH_HWADDR_LEN_def)
  have msg: "icmp_message ?req = Some (8 + ?n, rd_bytes m echo (4 + unat ?n))"
    using echo_request_message [of m pkt i] by (simp only: h_def echo_def)
  have out: "?out < length (im_net ?s)" "?out < length (im_tx_data ?s)" "net_fits V (im_net ?s ! ?out)" using assms(9-11) by simp_all
  from process_sends [OF assms(5) req(1) out free req(2) msg assms(13) req(3) assms(14), of tr] obtain s' b where
    s': "process_icmp_request N cfg ?req (?s, tr) = Some (True, s', tr[?out := True])"
      "nv_active V (im_net s' ! ?out) = nv_active V (im_net ?s ! ?out) @ [b]"
      "message_ready (imc_interfaces cfg ! ?out) ?req (8 + ?n) (rd_bytes m echo (4 + unat ?n)) (im_tx_data s' ! ?out) b" by blast
  have n: "unat ?n = (if len < hdrs then 56 else min 56 (len - hdrs))"
    unfolding len_def hdrs_def by (rule echo_payload_len_nat)
  then have n8: "unat (8 + ?n) = 8 + unat ?n" by (simp add: unat_word_ariths)
  have "router_request_step N cfg (s\<lparr>im_router := q\<rparr>, tr) = Some (s', tr[?out := True])"
    using q' s'(1) by (simp add: router_request_step_def)
  moreover have "of_nat (8 + unat ?n) = 8 + ?n" by simp
  moreover have "rq_type ?req = ICMP_ECHO_REPLY" "ethsrc_addr (rq_eth_hdr ?req) = ethsrc_addr (read_eth m pkt)" "rq_ip_hdr ?req = h"
    by (simp_all add: echo_request_def Let_def h_def)
  ultimately show ?thesis
    using q(1) s'(2,3) n n8
    by (intro exI [of _ q] exI [of _ s'] exI [of _ b] exI [of _ "unat ?n"])
      (auto simp: message_ready_def Let_def icmp_ip_hdr_def)
qed

subsection \<open>Bytes that are not written\<close>

text \<open>an error message always claims eight bytes of the offending packet. When the packet had fewer, the rest of
  the message is what the transmit buffer held before: bytes of an earlier packet leave the firewall.\<close>

theorem icmp_error_sends_stale_bytes:
  assumes "icmp_message req = Some (len, payload)" "rq_type req = ICMP_DEST_UNREACHABLE \<or> rq_type req = ICMP_TTL_EXCEED"
    and "length (rq_data req) = icmp_union_size" "length (ethsrc_addr (rq_eth_hdr req)) = ETH_HWADDR_LEN"
    and "length (imc_mac_addr ifc) = ETH_HWADDR_LEN"
  shows "unat len = 36 \<and> length payload = 24 + unat (icmp_to_copy (rq_ip_hdr req)) \<and>
    (\<forall>k. unat (icmp_to_copy (rq_ip_hdr req)) \<le> k \<and> k < 8 \<longrightarrow>
      write_message False ifc req len payload m pkt (pkt + ICMP_PAYLOAD_OFFSET + 24 + k) = m (pkt + ICMP_PAYLOAD_OFFSET + 24 + k))"
proof -
  let ?c = "unat (icmp_to_copy (rq_ip_hdr req))"
  have c: "unat len = 36" "length payload = 24 + ?c"
    using assms(1-3)
    by (auto simp: icmp_message_def Let_def copy_from_def icmp_lengths dest_data_at_def FW_ICMP_SRC_DATA_LEN_def
      IPV4_HDR_LEN_MIN_def icmp_union_size_def ICMP_DEST_UNREACHABLE_def ICMP_TTL_EXCEED_def ICMP_ECHO_REPLY_def split: if_splits)
  have "write_message False ifc req len payload m pkt (pkt + ICMP_PAYLOAD_OFFSET + 24 + k) = m (pkt + ICMP_PAYLOAD_OFFSET + 24 + k)"
    if k: "?c \<le> k" "k < 8" for k
  proof -
    let ?W = "icmp_wire req (unat len) payload m pkt"
    have "rd_bytes (write_message False ifc req len payload m pkt) (pkt + ICMP_HDR_OFFSET) (unat len) =
        store_le16 ?W 2 (fw_internet_checksum ?W len)"
      by (rule written_message(4) [OF assms(4,5) message_length(2) [OF assms(1)]])
    from arg_cong [OF this, of "\<lambda>l. l ! (28 + k)"] k c
    have "write_message False ifc req len payload m pkt (pkt + ICMP_HDR_OFFSET + (28 + k)) = ?W ! (28 + k)"
      by (simp add: store_le16_def)
    also have "\<dots> = rd_bytes m (pkt + ICMP_PAYLOAD_OFFSET + length payload) (8 - ?c) ! (k - ?c)"
      using k c by (simp add: icmp_wire_def nth_append)
    also have "\<dots> = m (pkt + ICMP_PAYLOAD_OFFSET + 24 + k)" using k c by (simp add: algebra_simps)
    finally show ?thesis by (simp add: ICMP_PAYLOAD_OFFSET_def ICMP_COMMON_HDR_LEN_def add.assoc)
  qed
  with c show ?thesis by blast
qed

subsection \<open>A notification\<close>

definition icmp_req_ok :: "fw_icmp_module_config \<Rightarrow> icmp_req \<Rightarrow> bool" where
  "icmp_req_ok cfg req \<longleftrightarrow> unat (rq_out_interface req) < length (imc_interfaces cfg) \<and>
     (icmp_supported req \<longrightarrow> icmp_message req \<noteq> None)"

definition requests_ok :: "fw_icmp_module_config \<Rightarrow> icmp_req fw_queue \<Rightarrow> bool" where
  "requests_ok cfg q \<longleftrightarrow> wf_fw_queue q \<and> (\<forall>r \<in> set (fq_contents q). icmp_req_ok cfg r)"

definition icmp_module_ok :: "'q net_view \<Rightarrow> fw_icmp_module_config \<Rightarrow> 'q icmp_module \<Rightarrow> bool" where
  "icmp_module_ok V cfg s \<longleftrightarrow>
     length (im_net s) = length (imc_interfaces cfg) \<and> length (im_filter s) = length (imc_interfaces cfg) \<and>
     requests_ok cfg (im_router s) \<and>
     (\<forall>i < length (imc_interfaces cfg). net_fits V (im_net s ! i) \<and>
        length (im_filter s ! i) = length (imc_filters (imc_interfaces cfg ! i)) \<and>
        (\<forall>f < length (im_filter s ! i). requests_ok cfg (im_filter s ! i ! f)))"

text \<open>The buffers of every interface stay in its queues.\<close>

definition icmp_kept :: "'q net_view \<Rightarrow> fw_icmp_module_config \<Rightarrow> 'q icmp_module \<Rightarrow> 'q icmp_module \<Rightarrow> bool" where
  "icmp_kept V cfg s s' \<longleftrightarrow> icmp_module_ok V cfg s' \<and>
     (\<forall>i < length (imc_interfaces cfg). net_kept V (im_net s ! i) (im_net s' ! i))"

lemma icmp_kept_refl: "icmp_module_ok V cfg s \<Longrightarrow> icmp_kept V cfg s s"
  by (simp add: icmp_kept_def icmp_module_ok_def net_kept_refl)

lemma icmp_kept_trans: "icmp_kept V cfg s s' \<Longrightarrow> icmp_kept V cfg s' s'' \<Longrightarrow> icmp_kept V cfg s s''"
  by (simp add: icmp_kept_def net_kept_def)

lemma process_keeps:
  assumes laws: "net_queue_laws N V" and ok: "icmp_module_ok V cfg s" and req: "icmp_req_ok cfg req"
  shows "\<exists>r s' tr'. process_icmp_request N cfg req (s, tr) = Some (r, s', tr') \<and> icmp_kept V cfg s s' \<and>
    im_filter s' = im_filter s \<and> im_router s' = im_router s"
proof -
  let ?out = "unat (rq_out_interface req)"
  have out: "?out < length (im_net s)" "net_fits V (im_net s ! ?out)"
    using ok req by (simp_all add: icmp_module_ok_def icmp_req_ok_def)
  consider "\<not> icmp_supported req \<or> net_queue_empty_free N (im_net s ! ?out)"
    | "icmp_supported req" "\<not> net_queue_empty_free N (im_net s ! ?out)" by blast
  then show ?thesis
  proof cases
    case 1
    then have "process_icmp_request N cfg req (s, tr) = Some (False, s, tr)" by (auto simp: process_icmp_request_def Let_def)
    then show ?thesis using icmp_kept_refl [OF ok] by blast
  next
    case 2
    then obtain len payload where msg: "icmp_message req = Some (len, payload)" using req by (auto simp: icmp_req_ok_def)
    let ?l = "of_nat IPV4_HDR_LEN_MIN + len + of_nat ETH_HDR_LEN :: u16"
    from net_free_to_active [OF laws out(2) 2(2)] obtain b q1 q2 where
      q: "taken (net_dequeue_free N (im_net s ! ?out)) = Some (b, q1)"
        "stored (net_enqueue_active N q1 (b\<lparr>nb_len := ?l\<rparr>)) = Some q2" "net_kept V (im_net s ! ?out) q2" by blast
    let ?m = "write_message (imc_hw_checksum cfg) (imc_interfaces cfg ! ?out) req len payload (im_tx_data s ! ?out)
      (unat (io_or_offset b))"
    let ?s' = "s\<lparr>im_net := (im_net s)[?out := q2], im_tx_data := (im_tx_data s)[?out := ?m]\<rparr>"
    have "process_icmp_request N cfg req (s, tr) = Some (True, ?s', tr[?out := True])"
      using 2 q(1,2) msg by (simp add: process_icmp_request_def Let_def)
    moreover have "icmp_kept V cfg s ?s'"
      using ok out(1) q(3) by (auto simp: icmp_kept_def icmp_module_ok_def nth_list_update net_kept_def)
    ultimately show ?thesis by (intro exI) auto
  qed
qed

lemma requests_take:
  assumes "requests_ok cfg q" "\<not> fw_queue_empty q"
  shows "\<exists>r q'. taken (fw_dequeue q) = Some (r, q') \<and> icmp_req_ok cfg r \<and> requests_ok cfg q' \<and>
    length (fq_contents q') < length (fq_contents q)"
proof -
  have wf: "wf_fw_queue q" using assms(1) by (simp add: requests_ok_def)
  from fw_taken [OF wf assms(2)] obtain r q' where
    q': "taken (fw_dequeue q) = Some (r, q')" "wf_fw_queue q'" "fq_contents q = r # fq_contents q'" by blast
  have "icmp_req_ok cfg r \<and> requests_ok cfg q' \<and> length (fq_contents q') < length (fq_contents q)"
    using assms(1) q'(2) unfolding requests_ok_def q'(3) by simp
  with q'(1) show ?thesis by blast
qed

text \<open>The filters' queues that are empty when the loops have come to the filter \<open>f\<close> of the interface \<open>i\<close>.\<close>

definition drained :: "fw_icmp_module_config \<Rightarrow> nat \<Rightarrow> nat \<Rightarrow> 'q icmp_module \<Rightarrow> bool" where
  "drained cfg i f s \<longleftrightarrow> (\<forall>i' f'. i' < length (imc_interfaces cfg) \<and> f' < length (imc_filters (imc_interfaces cfg ! i')) \<and>
     (i' < i \<or> i' = i \<and> f' < f) \<and> imc_filters (imc_interfaces cfg ! i') ! f' \<noteq> 0 \<longrightarrow> fq_contents (im_filter s ! i' ! f') = [])"

lemma process_filter_drains:
  assumes laws: "net_queue_laws N V" and i: "i < length (imc_interfaces cfg)" and f: "f < length (imc_filters (imc_interfaces cfg ! i))"
    and ok: "icmp_kept V cfg s0 s" and dr: "drained cfg i f s"
  shows "\<exists>s' tr'. process_filter N cfg i f (s, tr) = Some (s', tr') \<and> icmp_kept V cfg s0 s' \<and> drained cfg i (Suc f) s'"
proof (cases "imc_filters (imc_interfaces cfg ! i) ! f = 0")
  case True
  then have "drained cfg i (Suc f) s" using dr by (auto simp: drained_def less_Suc_eq)
  then show ?thesis using True ok by (simp add: process_filter_def)
next
  case False
  let ?I = "\<lambda>(s, tr :: bool list). icmp_kept V cfg s0 s \<and> drained cfg i f s"
  let ?q = "\<lambda>(s :: 'a icmp_module, tr :: bool list). im_filter s ! i ! f"
  have bounds: "i < length (im_filter s)" "f < length (im_filter s ! i)" "requests_ok cfg (im_filter s ! i ! f)"
    if "icmp_kept V cfg s0 s" for s using that i f by (simp_all add: icmp_kept_def icmp_module_ok_def)
  have "\<exists>u. while_opt (\<lambda>u. \<not> fw_queue_empty (?q u)) (filter_request_step N cfg i f) (s, tr) = Some u \<and> ?I u \<and>
      \<not> \<not> fw_queue_empty (?q u)"
  proof (rule while_opt_total [where m = "\<lambda>u. length (fq_contents (?q u))"])
    show "?I (s, tr)" using ok dr by simp
  next
    fix u assume I: "?I u" and ne: "\<not> fw_queue_empty (?q u)"
    obtain s tr where u: "u = (s, tr)" by fastforce
    have k: "icmp_kept V cfg s0 s" and d: "drained cfg i f s" using I u by simp_all
    note b = bounds [OF k]
    have "\<not> fw_queue_empty (im_filter s ! i ! f)" using ne u by simp
    from requests_take [OF b(3) this] obtain r q' where
      r: "taken (fw_dequeue (im_filter s ! i ! f)) = Some (r, q')" "icmp_req_ok cfg r" "requests_ok cfg q'"
        "length (fq_contents q') < length (fq_contents (im_filter s ! i ! f))" by blast
    let ?s1 = "s\<lparr>im_filter := (im_filter s)[i := (im_filter s ! i)[f := q']]\<rparr>"
    have ok1: "icmp_module_ok V cfg ?s1"
      using k b r(3) by (auto simp: icmp_kept_def icmp_module_ok_def nth_list_update)
    from process_keeps [OF laws ok1 r(2), of tr] obtain x s' tr' where
      s': "process_icmp_request N cfg r (?s1, tr) = Some (x, s', tr')" "icmp_kept V cfg ?s1 s'"
        "im_filter s' = im_filter ?s1" by blast
    have "icmp_kept V cfg s0 ?s1" using k ok1 by (simp add: icmp_kept_def)
    then have "icmp_kept V cfg s0 s'" using s'(2) by (rule icmp_kept_trans)
    moreover have "drained cfg i f s'"
      using d b unfolding drained_def s'(3) by (auto simp: nth_list_update)
    moreover have "filter_request_step N cfg i f u = Some (s', tr')"
      using u r(1) s'(1) by (simp add: filter_request_step_def)
    moreover have "fq_contents (?q (s', tr')) = fq_contents q'" using b s'(3) by simp
    ultimately show "\<exists>u'. filter_request_step N cfg i f u = Some u' \<and> ?I u' \<and> length (fq_contents (?q u')) < length (fq_contents (?q u))"
      using r(4) u by (intro exI [of _ "(s', tr')"]) simp
  qed
  then obtain s' tr' where u: "while_opt (\<lambda>u. \<not> fw_queue_empty (?q u)) (filter_request_step N cfg i f) (s, tr) = Some (s', tr')"
    "icmp_kept V cfg s0 s'" "drained cfg i f s'" "fw_queue_empty (im_filter s' ! i ! f)" by auto
  have "fq_contents (im_filter s' ! i ! f) = []"
    using u(4) bounds(3) [OF u(2)] fwq.emp_iff by (auto simp: requests_ok_def)
  then have "drained cfg i (Suc f) s'" using u(3) by (auto simp: drained_def less_Suc_eq)
  moreover have "(\<lambda>(s, transmitted). \<not> fw_queue_empty (im_filter s ! i ! f)) = (\<lambda>u. \<not> fw_queue_empty (?q u))"
    by (simp add: fun_eq_iff)
  then have "process_filter N cfg i f (s, tr) = Some (s', tr')" using u(1) False unfolding process_filter_def by simp
  ultimately show ?thesis using u(2) by blast
qed

lemma drained_next: "drained cfg (Suc i) 0 s \<longleftrightarrow> drained cfg i (length (imc_filters (imc_interfaces cfg ! i))) s"
  by (auto simp: drained_def less_Suc_eq)

lemma filters_drained:
  assumes laws: "net_queue_laws N V" and ok: "icmp_module_ok V cfg s"
  shows "\<exists>u. fold_body (\<lambda>iface. fold_body (process_filter N cfg iface) [0..<length (imc_filters (imc_interfaces cfg ! iface))])
      [0..<length (imc_interfaces cfg)] (s, tr :: bool list) = Some u \<and>
    icmp_kept V cfg s (fst u) \<and> drained cfg (length (imc_interfaces cfg)) 0 (fst u)"
proof (rule fold_body_upto [where I = "\<lambda>i u. icmp_kept V cfg s (fst u) \<and> drained cfg i 0 (fst u)"])
  show "icmp_kept V cfg s (fst (s, tr)) \<and> drained cfg 0 0 (fst (s, tr))" using icmp_kept_refl [OF ok] by (simp add: drained_def)
next
  fix i and u :: "'a icmp_module \<times> bool list" assume i: "i < length (imc_interfaces cfg)" and I: "icmp_kept V cfg s (fst u) \<and> drained cfg i 0 (fst u)"
  have "\<exists>u'. fold_body (process_filter N cfg i) [0..<length (imc_filters (imc_interfaces cfg ! i))] u = Some u' \<and>
      icmp_kept V cfg s (fst u') \<and> drained cfg i (length (imc_filters (imc_interfaces cfg ! i))) (fst u')"
  proof (rule fold_body_upto [where I = "\<lambda>f u. icmp_kept V cfg s (fst u) \<and> drained cfg i f (fst u)"])
    show "icmp_kept V cfg s (fst u) \<and> drained cfg i 0 (fst u)" by (rule I)
  next
    fix f and v :: "'a icmp_module \<times> bool list" assume f: "f < length (imc_filters (imc_interfaces cfg ! i))" and J: "icmp_kept V cfg s (fst v) \<and> drained cfg i f (fst v)"
    from process_filter_drains [OF laws i f J [THEN conjunct1] J [THEN conjunct2], of "snd v"]
    show "\<exists>v'. process_filter N cfg i f v = Some v' \<and> icmp_kept V cfg s (fst v') \<and> drained cfg i (Suc f) (fst v')" by auto
  qed
  then show "\<exists>u'. fold_body (process_filter N cfg i) [0..<length (imc_filters (imc_interfaces cfg ! i))] u = Some u' \<and>
      icmp_kept V cfg s (fst u') \<and> drained cfg (Suc i) 0 (fst u')" by (simp only: drained_next)
qed

lemma router_drained:
  assumes laws: "net_queue_laws N V" and ok: "icmp_kept V cfg s0 s" and dr: "drained cfg i f s"
  shows "\<exists>s' tr'. while_opt (\<lambda>(s, transmitted). \<not> fw_queue_empty (im_router s)) (router_request_step N cfg) (s, tr) = Some (s', tr') \<and>
    icmp_kept V cfg s0 s' \<and> drained cfg i f s' \<and> fq_contents (im_router s') = []"
proof -
  let ?I = "\<lambda>u :: 'a icmp_module \<times> bool list. icmp_kept V cfg s0 (fst u) \<and> drained cfg i f (fst u)"
  have e: "(\<lambda>(s, transmitted). \<not> fw_queue_empty (im_router s)) = (\<lambda>u. \<not> fw_queue_empty (im_router (fst u)))"
    by (simp add: fun_eq_iff)
  have "\<exists>u. while_opt (\<lambda>u. \<not> fw_queue_empty (im_router (fst u))) (router_request_step N cfg) (s, tr) = Some u \<and> ?I u \<and>
      \<not> \<not> fw_queue_empty (im_router (fst u))"
  proof (rule while_opt_total [where m = "\<lambda>u. length (fq_contents (im_router (fst u)))"])
    show "?I (s, tr)" using ok dr by simp
  next
    fix u assume I: "?I u" and ne: "\<not> fw_queue_empty (im_router (fst u))"
    obtain s and tr :: "bool list" where u: "u = (s, tr)" by fastforce
    have k: "icmp_kept V cfg s0 s" and d: "drained cfg i f s" using I u by simp_all
    have rok: "requests_ok cfg (im_router s)" using k by (simp add: icmp_kept_def icmp_module_ok_def)
    have "\<not> fw_queue_empty (im_router s)" using ne u by simp
    from requests_take [OF rok this] obtain r q' where
      r: "taken (fw_dequeue (im_router s)) = Some (r, q')" "icmp_req_ok cfg r" "requests_ok cfg q'"
        "length (fq_contents q') < length (fq_contents (im_router s))" by blast
    let ?s1 = "s\<lparr>im_router := q'\<rparr>"
    have ok1: "icmp_module_ok V cfg ?s1" using k r(3) by (simp add: icmp_kept_def icmp_module_ok_def)
    from process_keeps [OF laws ok1 r(2), of tr] obtain x s' tr' where
      s': "process_icmp_request N cfg r (?s1, tr) = Some (x, s', tr')" "icmp_kept V cfg ?s1 s'"
        "im_filter s' = im_filter ?s1" "im_router s' = im_router ?s1" by blast
    have "icmp_kept V cfg s0 ?s1" using k ok1 by (simp add: icmp_kept_def)
    then have "icmp_kept V cfg s0 s'" using s'(2) by (rule icmp_kept_trans)
    moreover have "drained cfg i f s'" using d by (simp add: drained_def s'(3))
    moreover have "router_request_step N cfg u = Some (s', tr')" using u r(1) s'(1) by (simp add: router_request_step_def)
    ultimately show "\<exists>u'. router_request_step N cfg u = Some u' \<and> ?I u' \<and>
        length (fq_contents (im_router (fst u'))) < length (fq_contents (im_router (fst u)))"
      using r(4) u s'(4) by (intro exI [of _ "(s', tr')"]) simp
  qed
  then obtain s' tr' where u: "while_opt (\<lambda>u. \<not> fw_queue_empty (im_router (fst u))) (router_request_step N cfg) (s, tr) = Some (s', tr')"
    "icmp_kept V cfg s0 s'" "drained cfg i f s'" "fw_queue_empty (im_router s')" by auto
  have "requests_ok cfg (im_router s')" using u(2) by (simp add: icmp_kept_def icmp_module_ok_def)
  then have "fq_contents (im_router s') = []" using u(4) fwq.emp_iff by (auto simp: requests_ok_def)
  with u show ?thesis unfolding e by blast
qed

text \<open>C27: a notification always returns. Afterwards the queue of the router and those of all filters with a connection
  are empty, and on every interface the buffers are still all in its queues, as long as the requests name an
  interface of the firewall and come from packets whose length covers their header.\<close>

theorem icmp_module_handles_all:
  assumes "net_queue_laws N V" "icmp_module_ok V cfg s"
  shows "\<exists>s'. icmp_module_notified N cfg ch s = Some s' \<and> icmp_module_ok V cfg s' \<and> fq_contents (im_router s') = [] \<and>
    (\<forall>i < length (imc_interfaces cfg). net_buffers V (im_net s' ! i) = net_buffers V (im_net s ! i) \<and>
      (\<forall>f < length (imc_filters (imc_interfaces cfg ! i)). imc_filters (imc_interfaces cfg ! i) ! f \<noteq> 0 \<longrightarrow>
        fq_contents (im_filter s' ! i ! f) = []))"
proof -
  let ?n = "length (imc_interfaces cfg)"
  from filters_drained [OF assms, of "replicate ?n False"] obtain s1 tr1 where
    s1: "fold_body (\<lambda>iface. fold_body (process_filter N cfg iface) [0..<length (imc_filters (imc_interfaces cfg ! iface))])
      [0..<?n] (s, replicate ?n False) = Some (s1, tr1)" "icmp_kept V cfg s s1" "drained cfg ?n 0 s1" by auto
  from router_drained [OF assms(1) s1(2,3), of tr1] obtain s2 tr2 where
    s2: "while_opt (\<lambda>(s, transmitted). \<not> fw_queue_empty (im_router s)) (router_request_step N cfg) (s1, tr1) = Some (s2, tr2)"
      "icmp_kept V cfg s s2" "drained cfg ?n 0 s2" "fq_contents (im_router s2) = []" by blast
  let ?s' = "s2\<lparr>im_deferred := im_deferred s2 @
       map (\<lambda>i. imc_tx_id (imc_interfaces cfg ! i)) (filter (\<lambda>i. tr2 ! i) [0..<?n])\<rparr>"
  have "icmp_module_notified N cfg ch s = Some ?s'"
    using s1(1) s2(1) by (simp add: icmp_module_notified_def generate_icmp_def)
  moreover have "icmp_module_ok V cfg ?s'" using s2(2) by (simp add: icmp_kept_def icmp_module_ok_def)
  moreover have "\<forall>i < ?n. net_buffers V (im_net s2 ! i) = net_buffers V (im_net s ! i)"
    using s2(2) by (simp add: icmp_kept_def net_kept_def)
  moreover have "\<forall>i < ?n. \<forall>f < length (imc_filters (imc_interfaces cfg ! i)). imc_filters (imc_interfaces cfg ! i) ! f \<noteq> 0 \<longrightarrow>
      fq_contents (im_filter s2 ! i ! f) = []" using s2(3) by (simp add: drained_def)
  ultimately show ?thesis using s2(4) by (intro exI [of _ ?s']) simp
qed

subsection \<open>An example\<close>

text \<open>One interface with one filter, a ping of two bytes of data, and a request about a packet of 22 bytes.\<close>

definition ex_imc :: fw_icmp_module_config where
  "ex_imc = \<lparr>imc_interfaces = [\<lparr>imc_mac_addr = [2, 0, 0, 0, 0, 1], imc_ip = 0x0100A8C0, imc_filters = [4], imc_tx_id = 3\<rparr>],
     imc_hw_checksum = False\<rparr>"

definition ex_ping :: memory where
  "ex_ping = (\<lambda>a. if a < 44 then
     [2, 0, 0, 0, 0, 1, 2, 0, 0, 0, 0, 9, 8, 0, 0x45, 0, 0, 30, 0, 0, 0, 0, 64, 1, 0, 0, 192, 168, 0, 9, 192, 168, 0, 1,
      8, 0, 0, 0, 0xAB, 0xCD, 0, 1, 7, 9] ! a else 0)"

definition ex_unreach :: icmp_req where
  "ex_unreach = \<lparr>rq_type = ICMP_DEST_UNREACHABLE, rq_code = 3, rq_out_interface = 0, rq_eth_hdr = read_eth ex_ping 0,
     rq_ip_hdr = (read_ip ex_ping 0)\<lparr>tot_len := 0x1600\<rparr>, rq_data = zero_union\<rparr>"

definition ex_imq :: "icmp_req list \<Rightarrow> icmp_req fw_queue" where
  "ex_imq rs = \<lparr>fq_idx = \<lparr>idx_tail = of_nat (length rs), idx_head = 0\<rparr>, fq_entries = take 4 (rs @ replicate 4 ex_unreach),
     fq_capacity = 4\<rparr>"

definition ex_im :: "list_net icmp_module" where
  "ex_im = \<lparr>im_net = [\<lparr>ln_free = [\<lparr>io_or_offset = 0, nb_len = 0\<rparr>], ln_active = [], ln_room = 4, ln_want_free = False,
     ln_want_active = False\<rparr>], im_tx_data = [\<lambda>_. 5], im_router = ex_imq [], im_filter = [[ex_imq [ex_unreach]]], im_deferred = []\<rparr>"

lemma ex_imq_empty: "wf_fw_queue (ex_imq [])" "fq_contents (ex_imq []) = []" "fq_room (ex_imq []) = 4"
  by (simp_all add: ex_imq_def wf_fw_queue_def fq_contents_def fq_count_def fq_room_def)

lemma ex_imq_one: "wf_fw_queue (ex_imq [ex_unreach])" "fq_contents (ex_imq [ex_unreach]) = [ex_unreach]"
  by (simp_all add: ex_imq_def wf_fw_queue_def fq_contents_def fq_count_def fq_slot_def)

lemma ex_to_copy: "unat (icmp_to_copy (rq_ip_hdr ex_unreach)) = 2"
proof -
  have "unat (htons (tot_len (rq_ip_hdr ex_unreach))) = 22" by (simp add: ex_unreach_def htons_def)
  moreover have "unat (ipv4_header_length (rq_ip_hdr ex_unreach)) = 20" by code_simp
  ultimately show ?thesis unfolding icmp_to_copy_nat by simp
qed

lemma ex_message: "\<exists>len payload. icmp_message ex_unreach = Some (len, payload)"
proof -
  have "rq_type ex_unreach = ICMP_DEST_UNREACHABLE" by (simp add: ex_unreach_def)
  then show ?thesis using ex_to_copy
    by (simp add: icmp_message_def Let_def copy_from_def ICMP_DEST_UNREACHABLE_def ICMP_ECHO_REPLY_def FW_ICMP_SRC_DATA_LEN_def)
qed

theorem ping_answered_witness:
  "\<exists>q s'. \<exists>b :: net_buff_desc. icmp_enqueue_echo_reply (im_router ex_im) ex_ping 0 0 = Some (True, q) \<and>
     router_request_step list_net_ops ex_imc (ex_im\<lparr>im_router := q\<rparr>, [False]) = Some (s', [True]) \<and>
     rd_bytes (im_tx_data s' ! 0) (unat (io_or_offset b) + ICMP_PAYLOAD_OFFSET) 6 = [0xAB, 0xCD, 0, 1, 7, 9]"
proof -
  have tot: "unat (htons (tot_len (read_ip ex_ping 0))) = 30"
  proof -
    have "tot_len (read_ip ex_ping 0) = 0x1E00" by code_simp
    then show ?thesis by (simp add: htons_def)
  qed
  have hl: "unat (ipv4_header_length (read_ip ex_ping 0)) = 20" by code_simp
  have to: "unat (transport_layer_offset (read_ip ex_ping 0)) = 34" by code_simp
  have data: "rd_bytes ex_ping (0 + 34 + ICMP_COMMON_HDR_LEN) (4 + 2) = [0xAB, 0xCD, 0, 1, 7, 9]" by code_simp
  have r: "im_router ex_im = ex_imq []" "im_net ex_im ! 0 = \<lparr>ln_free = [\<lparr>io_or_offset = 0, nb_len = 0\<rparr>], ln_active = [],
     ln_room = 4, ln_want_free = False, ln_want_active = False\<rparr>" by (simp_all add: ex_im_def)
  have wf: "wf_fw_queue (im_router ex_im)" "fq_contents (im_router ex_im) = []" "0 < fq_room (im_router ex_im)"
    unfolding r using ex_imq_empty by simp_all
  have sizes: "unat (0 :: u8) < length (im_net ex_im)" "unat (0 :: u8) < length (im_tx_data ex_im)" by (simp_all add: ex_im_def)
  have net: "net_fits list_net_view (im_net ex_im ! unat (0 :: u8))" "nv_free list_net_view (im_net ex_im ! unat (0 :: u8)) \<noteq> []"
    by (simp_all add: r net_fits_def list_net_view_def)
  have cfg: "\<not> imc_hw_checksum ex_imc" "length (imc_mac_addr (imc_interfaces ex_imc ! unat (0 :: u8))) = ETH_HWADDR_LEN"
    by (simp_all add: ex_imc_def ETH_HWADDR_LEN_def)
  from ping_answered [OF list_net_laws wf sizes net cfg, of ex_ping 0 "[False]", unfolded tot hl to]
  obtain q s' and b :: net_buff_desc and k where p: "icmp_enqueue_echo_reply (im_router ex_im) ex_ping 0 0 = Some (True, q)"
    "router_request_step list_net_ops ex_imc (ex_im\<lparr>im_router := q\<rparr>, [False]) = Some (s', [False][unat (0 :: u8) := True])"
    "k = (if (30 :: nat) < 20 + 8 then 56 else min 56 (30 - (20 + 8)))"
    "rd_bytes (im_tx_data s' ! unat (0 :: u8)) (unat (io_or_offset b) + ICMP_PAYLOAD_OFFSET) (4 + k) =
       rd_bytes ex_ping (0 + 34 + ICMP_COMMON_HDR_LEN) (4 + k)" by blast
  have "k = 2" using p(3) by simp
  then have "rd_bytes (im_tx_data s' ! 0) (unat (io_or_offset b) + ICMP_PAYLOAD_OFFSET) 6 = [0xAB, 0xCD, 0, 1, 7, 9]"
    using p(4) data by simp
  moreover have "[False][unat (0 :: u8) := True] = [True]" by simp
  ultimately show ?thesis using p(1,2) by metis
qed

theorem icmp_error_sends_stale_bytes_witness:
  "\<exists>len payload. write_message False (imc_interfaces ex_imc ! 0) ex_unreach len payload (\<lambda>_. 5) 0
     (0 + ICMP_PAYLOAD_OFFSET + 24 + 2) = 5"
proof -
  obtain len payload where "icmp_message ex_unreach = Some (len, payload)" using ex_message by blast
  moreover have "rq_type ex_unreach = ICMP_DEST_UNREACHABLE \<or> rq_type ex_unreach = ICMP_TTL_EXCEED"
    "length (rq_data ex_unreach) = icmp_union_size" "length (ethsrc_addr (rq_eth_hdr ex_unreach)) = ETH_HWADDR_LEN"
    "length (imc_mac_addr (imc_interfaces ex_imc ! 0)) = ETH_HWADDR_LEN"
    by (simp_all add: ex_unreach_def zero_union_def ex_imc_def ETH_HWADDR_LEN_def read_eth_def eth_hdr_of_def ETH_HDR_LEN_def)
  ultimately have "\<forall>k. 2 \<le> k \<and> k < 8 \<longrightarrow> write_message False (imc_interfaces ex_imc ! 0) ex_unreach len payload (\<lambda>_. 5) 0
      (0 + ICMP_PAYLOAD_OFFSET + 24 + k) = 5"
    using icmp_error_sends_stale_bytes [of ex_unreach len payload "imc_interfaces ex_imc ! 0" "\<lambda>_. 5" 0] unfolding ex_to_copy by blast
  then show ?thesis by force
qed

theorem icmp_module_handles_all_witness:
  "\<exists>s'. icmp_module_notified list_net_ops ex_imc 0 ex_im = Some s' \<and> fq_contents (im_filter s' ! 0 ! 0) = []"
proof -
  have "icmp_req_ok ex_imc ex_unreach" using ex_message by (auto simp: icmp_req_ok_def ex_unreach_def ex_imc_def)
  then have "icmp_module_ok list_net_view ex_imc ex_im"
    using ex_imq_empty ex_imq_one
    by (simp add: icmp_module_ok_def requests_ok_def ex_im_def ex_imc_def net_fits_def list_net_view_def)
  from icmp_module_handles_all [OF list_net_laws this, of 0] show ?thesis by (auto simp: ex_imc_def)
qed

end
