(* ===== verification/Fw_Virt_Rx.thy ===== *)
theory Fw_Virt_Rx
  imports Fw_Net
begin

text \<open>
  \<open>examples/firewall/net_components/firewall_network_virt_rx.c\<close>: the receive virtualiser of an interface. It
  hands every packet of the driver to the client that asked for its protocol, and gives the buffers that the
  clients and the firewall components return back to the driver, as addresses of the device.

  Cache maintenance is not modelled. \<open>NET_BUFFER_SIZE\<close> is a constant of sDDF and a field of the configuration
  here; so are the capacities of the clients' queues, which \<open>net_queue_init\<close> stores in the handles.
\<close>

subsection \<open>Definitions\<close>

text \<open>\<open>vrc_strip\<close> is the platform option under which the four bytes that the device adds are dropped.\<close>

record fw_net_virt_rx_config =
  vrc_ethtypes :: "u16 list"
  vrc_subtypes :: "u16 list"
  vrc_client_ids :: "u8 list"
  vrc_capacities :: "u64 list"
  vrc_io_addr :: u64
  vrc_driver_id :: u8
  vrc_buffer_size :: u64
  vrc_strip :: bool

record 'q virt_rx =
  vr_drv :: 'q
  vr_clients :: "'q list"
  vr_free :: "net_buff_desc fw_queue list"
  vr_data :: memory
  vr_notify_drv :: bool
  vr_notified :: "u8 list"
  vr_deferred :: "u8 list"

definition num_clients :: "fw_net_virt_rx_config \<Rightarrow> nat" where
  "num_clients cfg = length (vrc_ethtypes cfg)"

definition client_matches :: "fw_net_virt_rx_config \<Rightarrow> memory \<Rightarrow> nat \<Rightarrow> nat \<Rightarrow> bool" where
  "client_matches cfg m pkt client \<longleftrightarrow>
     (let ty = htons (ethtype (read_eth m pkt)) in
      vrc_ethtypes cfg ! client = ty \<and>
      (if ty = ETH_TYPE_ARP then vrc_subtypes cfg ! client = htons (opcode (read_arp m pkt))
       else if ty = ETH_TYPE_IP then vrc_subtypes cfg ! client = ucast (protocol (read_ip m pkt))
       else False))"

text \<open>\<open>None\<close> stands for \<open>-1\<close>.\<close>

definition get_protocol_match :: "fw_net_virt_rx_config \<Rightarrow> memory \<Rightarrow> nat \<Rightarrow> nat option" where
  "get_protocol_match cfg m pkt = find_index (client_matches cfg m pkt) [0..<num_clients cfg]"

text \<open>A buffer of the driver as a client sees it.\<close>

definition received :: "fw_net_virt_rx_config \<Rightarrow> net_buff_desc \<Rightarrow> net_buff_desc" where
  "received cfg b = b\<lparr>io_or_offset := io_or_offset b - vrc_io_addr cfg,
     nb_len := (if vrc_strip cfg then nb_len b - 4 else nb_len b)\<rparr>"

text \<open>The state with the flags \<open>notify_clients\<close>.\<close>

definition rx_return_step :: "'q net_ops \<Rightarrow> fw_net_virt_rx_config \<Rightarrow> 'q virt_rx \<times> bool list \<Rightarrow> ('q virt_rx \<times> bool list) option" where
  "rx_return_step N cfg = (\<lambda>(s, notify_clients). do {
     (buffer, drv) \<leftarrow> taken (net_dequeue_active N (vr_drv s));
     let buffer = received cfg buffer;
         s1 = s\<lparr>vr_drv := drv\<rparr>
     in case get_protocol_match cfg (vr_data s) (unat (io_or_offset buffer)) of
          Some client \<Rightarrow> do {
            q \<leftarrow> stored (net_enqueue_active N (vr_clients s1 ! client) buffer);
            Some (s1\<lparr>vr_clients := (vr_clients s1)[client := q]\<rparr>, notify_clients[client := True])
          }
        | None \<Rightarrow> do {
            drv' \<leftarrow> stored (net_enqueue_free N (vr_drv s1) (buffer\<lparr>io_or_offset := io_or_offset buffer + vrc_io_addr cfg\<rparr>));
            Some (s1\<lparr>vr_drv := drv', vr_notify_drv := True\<rparr>, notify_clients)
          }
   })"

definition signal_client :: "'q net_ops \<Rightarrow> fw_net_virt_rx_config \<Rightarrow> bool list \<Rightarrow> nat \<Rightarrow> 'q virt_rx \<Rightarrow> 'q virt_rx" where
  "signal_client N cfg notify_clients client s =
     (if notify_clients ! client \<and> net_require_signal_active N (vr_clients s ! client)
      then s\<lparr>vr_clients := (vr_clients s)[client := net_cancel_signal_active N (vr_clients s ! client)],
             vr_notified := vr_notified s @ [vrc_client_ids cfg ! client]\<rparr>
      else s)"

definition rx_return :: "'q net_ops \<Rightarrow> fw_net_virt_rx_config \<Rightarrow> 'q virt_rx \<Rightarrow> 'q virt_rx option" where
  "rx_return N cfg s = do {
     (s1, notify_clients) \<leftarrow> serve_active N (\<lambda>(s, f). vr_drv s) (\<lambda>q (s, f). (s\<lparr>vr_drv := q\<rparr>, f)) (rx_return_step N cfg)
       (s, replicate (num_clients cfg) False);
     Some (fold (signal_client N cfg notify_clients) [0..<num_clients cfg] s1)
   }"

definition valid_offset :: "fw_net_virt_rx_config \<Rightarrow> u64 \<Rightarrow> u64 \<Rightarrow> bool" where
  "valid_offset cfg capacity offset \<longleftrightarrow> offset mod vrc_buffer_size cfg = 0 \<and> offset < vrc_buffer_size cfg * capacity"

definition give_to_driver :: "'q net_ops \<Rightarrow> fw_net_virt_rx_config \<Rightarrow> u64 \<Rightarrow> net_buff_desc \<Rightarrow> 'q virt_rx \<Rightarrow> 'q virt_rx option" where
  "give_to_driver N cfg capacity buffer s = do {
     c_assert (valid_offset cfg capacity (io_or_offset buffer));
     drv \<leftarrow> stored (net_enqueue_free N (vr_drv s) (buffer\<lparr>io_or_offset := io_or_offset buffer + vrc_io_addr cfg\<rparr>));
     Some (s\<lparr>vr_drv := drv, vr_notify_drv := True\<rparr>)
   }"

definition provide_step :: "'q net_ops \<Rightarrow> fw_net_virt_rx_config \<Rightarrow> nat \<Rightarrow> 'q virt_rx \<Rightarrow> 'q virt_rx option" where
  "provide_step N cfg client s = do {
     (buffer, q) \<leftarrow> taken (net_dequeue_free N (vr_clients s ! client));
     give_to_driver N cfg (vrc_capacities cfg ! client) buffer (s\<lparr>vr_clients := (vr_clients s)[client := q]\<rparr>)
   }"

definition fw_provide_step :: "'q net_ops \<Rightarrow> fw_net_virt_rx_config \<Rightarrow> nat \<Rightarrow> 'q virt_rx \<Rightarrow> 'q virt_rx option" where
  "fw_provide_step N cfg client s = do {
     (buffer, q) \<leftarrow> taken (fw_dequeue (vr_free s ! client));
     give_to_driver N cfg (fq_capacity q) buffer (s\<lparr>vr_free := (vr_free s)[client := q]\<rparr>)
   }"

definition rx_provide :: "'q net_ops \<Rightarrow> fw_net_virt_rx_config \<Rightarrow> 'q virt_rx \<Rightarrow> 'q virt_rx option" where
  "rx_provide N cfg s = do {
     s1 \<leftarrow> fold_body (\<lambda>client. serve_free N (\<lambda>s. vr_clients s ! client) (\<lambda>q s. s\<lparr>vr_clients := (vr_clients s)[client := q]\<rparr>)
            (provide_step N cfg client)) [0..<num_clients cfg] s;
     s2 \<leftarrow> fold_body (\<lambda>client. while_opt (\<lambda>s. \<not> fw_queue_empty (vr_free s ! client)) (fw_provide_step N cfg client))
            [0..<length (vr_free s1)] s1;
     Some (if vr_notify_drv s2 \<and> net_require_signal_free N (vr_drv s2)
           then s2\<lparr>vr_drv := net_cancel_signal_free N (vr_drv s2), vr_deferred := vr_deferred s2 @ [vrc_driver_id cfg],
                   vr_notify_drv := False\<rparr>
           else s2)
   }"

definition virt_rx_notified :: "'q net_ops \<Rightarrow> fw_net_virt_rx_config \<Rightarrow> u8 \<Rightarrow> 'q virt_rx \<Rightarrow> 'q virt_rx option" where
  "virt_rx_notified N cfg ch s = do { s1 \<leftarrow> rx_return N cfg s; rx_provide N cfg s1 }"

subsection \<open>Delivery\<close>

text \<open>The client for a buffer of the driver, and the packets among some buffers that are for one client.\<close>

definition packet_client :: "fw_net_virt_rx_config \<Rightarrow> memory \<Rightarrow> net_buff_desc \<Rightarrow> nat option" where
  "packet_client cfg m b = get_protocol_match cfg m (unat (io_or_offset b - vrc_io_addr cfg))"

definition packets_for :: "fw_net_virt_rx_config \<Rightarrow> memory \<Rightarrow> nat option \<Rightarrow> net_buff_desc list \<Rightarrow> net_buff_desc list" where
  "packets_for cfg m c bs = filter (\<lambda>b. packet_client cfg m b = c) bs"

lemma packet_client_bound: "packet_client cfg m b = Some c \<Longrightarrow> c < num_clients cfg"
  unfolding packet_client_def get_protocol_match_def by (drule find_index_less) simp

text \<open>Halfway through the loop, with \<open>dn\<close> the packets taken so far.\<close>

definition delivering :: "'q net_view \<Rightarrow> fw_net_virt_rx_config \<Rightarrow> 'q virt_rx \<Rightarrow> net_buff_desc list \<Rightarrow> 'q virt_rx \<Rightarrow> bool" where
  "delivering V cfg s dn t \<longleftrightarrow>
     net_fits V (vr_drv t) \<and> length (vr_clients t) = num_clients cfg \<and> vr_data t = vr_data s \<and> vr_free t = vr_free s \<and>
     nv_active V (vr_drv s) = dn @ nv_active V (vr_drv t) \<and>
     map io_or_offset (nv_free V (vr_drv t)) =
       map io_or_offset (nv_free V (vr_drv s) @ packets_for cfg (vr_data s) None dn) \<and>
     (\<forall>c < num_clients cfg. nv_ok V (vr_clients t ! c) \<and> nv_room V (vr_clients t ! c) = nv_room V (vr_clients s ! c) \<and>
        nv_free V (vr_clients t ! c) = nv_free V (vr_clients s ! c) \<and>
        nv_active V (vr_clients t ! c) = nv_active V (vr_clients s ! c) @
          map (received cfg) (packets_for cfg (vr_data s) (Some c) dn))"

lemma packets_for_snoc:
  "packets_for cfg m c (bs @ [b]) = packets_for cfg m c bs @ (if packet_client cfg m b = c then [b] else [])"
  by (simp add: packets_for_def)

lemma packets_for_length: "length (packets_for cfg m c bs) \<le> length bs"
  by (simp add: packets_for_def)

lemma rx_return_step_delivers:
  assumes laws: "net_queue_laws N V" and d: "delivering V cfg s dn t" and ne: "\<not> net_queue_empty_active N (vr_drv t)"
    and room: "\<forall>c < num_clients cfg. length (nv_active V (vr_clients s ! c)) + length (nv_active V (vr_drv s)) \<le> nv_room V (vr_clients s ! c)"
  shows "\<exists>t' f' b. rx_return_step N cfg (t, f) = Some (t', f') \<and> delivering V cfg s (dn @ [b]) t' \<and>
    length (nv_active V (vr_drv t')) < length (nv_active V (vr_drv t))"
proof -
  let ?m = "vr_data s"
  have fits: "net_fits V (vr_drv t)" and m: "vr_data t = ?m" using d by (simp_all add: delivering_def)
  have "nv_ok V (vr_drv t)" using fits by (simp add: net_fits_def)
  from net_take_active [OF laws this ne] obtain b q1 where
    q1: "taken (net_dequeue_active N (vr_drv t)) = Some (b, q1)" "nv_ok V q1" "nv_active V (vr_drv t) = b # nv_active V q1"
      "nv_free V q1 = nv_free V (vr_drv t)" "nv_room V q1 = nv_room V (vr_drv t)" by blast
  have act: "nv_active V (vr_drv s) = (dn @ [b]) @ nv_active V q1" using d q1(3) by (simp add: delivering_def)
  let ?b = "received cfg b"
  have match: "get_protocol_match cfg ?m (unat (io_or_offset ?b)) = packet_client cfg ?m b"
    by (simp add: packet_client_def received_def)
  show ?thesis
  proof (cases "packet_client cfg ?m b")
    case None
    have "length (nv_free V q1) < nv_room V q1" using fits q1(3-5) by (simp add: net_fits_def)
    from net_put_free [OF laws q1(2) this, of "?b\<lparr>io_or_offset := io_or_offset ?b + vrc_io_addr cfg\<rparr>"] obtain q2 where
      q2: "stored (net_enqueue_free N q1 (?b\<lparr>io_or_offset := io_or_offset ?b + vrc_io_addr cfg\<rparr>)) = Some q2" "nv_ok V q2"
        "nv_free V q2 = nv_free V q1 @ [?b\<lparr>io_or_offset := io_or_offset ?b + vrc_io_addr cfg\<rparr>]" "nv_active V q2 = nv_active V q1"
        "nv_room V q2 = nv_room V q1" by blast
    let ?t' = "t\<lparr>vr_drv := q1\<rparr>\<lparr>vr_drv := q2, vr_notify_drv := True\<rparr>"
    have io: "io_or_offset ?b + vrc_io_addr cfg = io_or_offset b" by (simp add: received_def)
    have "net_fits V q2" using fits q1 q2 by (simp add: net_fits_def)
    then have "delivering V cfg s (dn @ [b]) ?t'"
      using d act q1(4) q2 None io by (simp add: delivering_def packets_for_snoc)
    moreover have "rx_return_step N cfg (t, f) = Some (?t', f)"
      using q1(1) q2(1) None m match by (simp add: rx_return_step_def Let_def)
    ultimately show ?thesis using q1(3) q2(4) by (intro exI [of _ ?t'] exI [of _ f] exI [of _ b]) simp
  next
    case (Some c)
    then have c: "c < num_clients cfg" by (rule packet_client_bound)
    let ?q = "vr_clients t ! c"
    have cl: "nv_ok V ?q" "nv_room V ?q = nv_room V (vr_clients s ! c)"
      "nv_active V ?q = nv_active V (vr_clients s ! c) @ map (received cfg) (packets_for cfg ?m (Some c) dn)"
      using d c by (simp_all add: delivering_def)
    have "length (nv_active V (vr_drv s)) = length dn + Suc (length (nv_active V q1))" using act by simp
    moreover have "length (nv_active V (vr_clients s ! c)) + length (nv_active V (vr_drv s)) \<le> nv_room V (vr_clients s ! c)"
      using room c by blast
    ultimately have lt: "length (nv_active V ?q) < nv_room V ?q"
      unfolding cl(2,3) length_append length_map using packets_for_length [of cfg ?m "Some c" dn] by linarith
    from net_put_active [OF laws cl(1) lt, of ?b] obtain q2 where
      q2: "stored (net_enqueue_active N ?q ?b) = Some q2" "nv_ok V q2" "nv_active V q2 = nv_active V ?q @ [?b]"
        "nv_free V q2 = nv_free V ?q" "nv_room V q2 = nv_room V ?q" by blast
    let ?t' = "t\<lparr>vr_drv := q1\<rparr>\<lparr>vr_clients := (vr_clients t)[c := q2]\<rparr>"
    have "net_fits V q1" using fits q1 by (simp add: net_fits_def)
    moreover have "length (vr_clients t) = num_clients cfg" using d by (simp add: delivering_def)
    ultimately have "delivering V cfg s (dn @ [b]) ?t'"
      using d act q1(4) q2 Some c by (simp add: delivering_def packets_for_snoc nth_list_update)
    moreover have "rx_return_step N cfg (t, f) = Some (?t', f[c := True])"
      using q1(1) q2(1) Some m match by (simp add: rx_return_step_def Let_def)
    ultimately show ?thesis using q1(3) by (intro exI [of _ ?t'] exI [of _ "f[c := True]"] exI [of _ b]) simp
  qed
qed

lemma signal_clients_keep:
  assumes laws: "net_queue_laws N V" and d: "delivering V cfg s dn t"
  shows "delivering V cfg s dn (fold (signal_client N cfg f) cs t) \<and> vr_drv (fold (signal_client N cfg f) cs t) = vr_drv t"
  using d
proof (induction cs arbitrary: t)
  case (Cons c cs)
  have "delivering V cfg s dn (signal_client N cfg f c t) \<and> vr_drv (signal_client N cfg f c t) = vr_drv t"
  proof (cases "c < num_clients cfg")
    case True
    then have "same_view V (vr_clients t ! c) (net_cancel_signal_active N (vr_clients t ! c))"
      using Cons.prems net_signals(4) [OF laws] by (simp add: delivering_def)
    then show ?thesis using Cons.prems True
      by (auto simp: signal_client_def delivering_def same_view_def nth_list_update)
  next
    case False
    then have "(vr_clients t)[c := x] = vr_clients t" for x using Cons.prems
      by (intro list_update_beyond) (simp add: delivering_def)
    then show ?thesis using Cons.prems by (simp add: signal_client_def delivering_def)
  qed
  with Cons.IH [of "signal_client N cfg f c t"] show ?case by simp
qed simp

text \<open>C20: the receive virtualiser hands every packet of the driver to the first client that asked for its Ethernet
  type and its IP protocol or ARP operation, in the order of arrival, with the address turned into an offset; the
  buffers of packets that nobody asked for go back to the driver. No packet is lost or handed out twice.\<close>

theorem virt_rx_delivers:
  assumes "net_queue_laws N V" "net_fits V (vr_drv s)" "length (vr_clients s) = num_clients cfg"
    and "\<forall>c < num_clients cfg. nv_ok V (vr_clients s ! c) \<and>
      length (nv_active V (vr_clients s ! c)) + length (nv_active V (vr_drv s)) \<le> nv_room V (vr_clients s ! c)"
  shows "\<exists>t. rx_return N cfg s = Some t \<and> nv_active V (vr_drv t) = [] \<and>
    map io_or_offset (nv_free V (vr_drv t)) = map io_or_offset (nv_free V (vr_drv s) @
      packets_for cfg (vr_data s) None (nv_active V (vr_drv s))) \<and>
    (\<forall>c < num_clients cfg. nv_free V (vr_clients t ! c) = nv_free V (vr_clients s ! c) \<and>
      nv_active V (vr_clients t ! c) = nv_active V (vr_clients s ! c) @
        map (received cfg) (packets_for cfg (vr_data s) (Some c) (nv_active V (vr_drv s))))"
proof -
  note laws = assms(1)
  have room: "\<forall>c < num_clients cfg. length (nv_active V (vr_clients s ! c)) + length (nv_active V (vr_drv s)) \<le> nv_room V (vr_clients s ! c)"
    using assms(4) by simp
  let ?get = "\<lambda>(t, f :: bool list). vr_drv t" and ?put = "\<lambda>q (t, f :: bool list). (t\<lparr>vr_drv := q\<rparr>, f)"
  let ?I = "\<lambda>u :: 'a virt_rx \<times> bool list. \<exists>dn. delivering V cfg s dn (fst u)"
  have "\<exists>u. serve_active N ?get ?put (rx_return_step N cfg) (s, replicate (num_clients cfg) False) = Some u \<and> ?I u \<and>
      nv_active V (?get u) = []"
  proof (rule serve_active_total [OF laws, of ?I])
    have "delivering V cfg s [] s" using assms(2-4) by (simp add: delivering_def packets_for_def)
    then show "?I (s, replicate (num_clients cfg) False)" by auto
  next
    fix u assume "?I u"
    then show "nv_ok V (?get u)" by (auto simp: delivering_def net_fits_def case_prod_beta)
  next
    fix q u show "?get (?put q u) = q" by (simp add: case_prod_beta)
  next
    fix q u assume "?I u" and v: "same_view V (?get u) q"
    then obtain dn where dn: "delivering V cfg s dn (fst u)" by blast
    have v: "same_view V (vr_drv (fst u)) q" using v by (simp add: case_prod_beta)
    have "net_fits V (vr_drv (fst u))" using dn by (simp add: delivering_def)
    then have "net_fits V q" using v by (rule net_fits_view)
    then have "delivering V cfg s dn ((fst u)\<lparr>vr_drv := q\<rparr>)" using dn v by (simp add: delivering_def same_view_def)
    then show "?I (?put q u)" by (auto simp: case_prod_beta)
  next
    fix u assume I: "?I u" and ne: "\<not> net_queue_empty_active N (?get u)"
    obtain t f where u: "u = (t, f)" by fastforce
    with I obtain dn where dn: "delivering V cfg s dn t" by auto
    have "\<not> net_queue_empty_active N (vr_drv t)" using ne u by simp
    from rx_return_step_delivers [OF laws dn this room, of f] obtain t' f' b where
      "rx_return_step N cfg (t, f) = Some (t', f')" "delivering V cfg s (dn @ [b]) t'"
      "length (nv_active V (vr_drv t')) < length (nv_active V (vr_drv t))" by blast
    then show "\<exists>u'. rx_return_step N cfg u = Some u' \<and> ?I u' \<and>
        length (nv_active V (?get u')) < length (nv_active V (?get u))"
      unfolding u by (intro exI [of _ "(t', f')"]) auto
  qed
  then obtain t1 f dn where run: "serve_active N ?get ?put (rx_return_step N cfg) (s, replicate (num_clients cfg) False) = Some (t1, f)"
    and d: "delivering V cfg s dn t1" and nil: "nv_active V (vr_drv t1) = []" by auto
  let ?t = "fold (signal_client N cfg f) [0..<num_clients cfg] t1"
  have dn: "dn = nv_active V (vr_drv s)" using d nil by (simp add: delivering_def)
  have "rx_return N cfg s = Some ?t" using run by (simp add: rx_return_def)
  moreover have "nv_active V (vr_drv ?t) = []" "delivering V cfg s (nv_active V (vr_drv s)) ?t"
    using signal_clients_keep [OF laws d, of f "[0..<num_clients cfg]"] nil by (simp_all add: dn)
  ultimately show ?thesis unfolding delivering_def by blast
qed

text \<open>A client for ARP requests and one for UDP; an ARP request and a frame of another type.\<close>

definition ex_vrc :: fw_net_virt_rx_config where
  "ex_vrc = \<lparr>vrc_ethtypes = [0x0806, 0x0800], vrc_subtypes = [1, 17], vrc_client_ids = [3, 4], vrc_capacities = [4, 4],
     vrc_io_addr = 0x1000, vrc_driver_id = 2, vrc_buffer_size = 64, vrc_strip = True\<rparr>"

definition ex_vr_net :: "net_buff_desc list \<Rightarrow> list_net" where
  "ex_vr_net bs = \<lparr>ln_free = [], ln_active = bs, ln_room = 4, ln_want_free = False, ln_want_active = True\<rparr>"

definition ex_arp_frame :: memory where
  "ex_arp_frame = (\<lambda>a. if a < 22 then [0xFF, 0xFF, 0xFF, 0xFF, 0xFF, 0xFF, 2, 0, 0, 0, 0, 9, 8, 6, 0, 1, 8, 0, 6, 4, 0, 1] ! a else 0)"

definition ex_vr :: "list_net virt_rx" where
  "ex_vr = \<lparr>vr_drv = ex_vr_net [\<lparr>io_or_offset = 0x1000, nb_len = 64\<rparr>, \<lparr>io_or_offset = 0x1040, nb_len = 64\<rparr>],
     vr_clients = [ex_vr_net [], ex_vr_net []], vr_free = [], vr_data = ex_arp_frame, vr_notify_drv = False, vr_notified = [],
     vr_deferred = []\<rparr>"

theorem virt_rx_delivers_witness:
  "\<exists>t. rx_return list_net_ops ex_vrc ex_vr = Some t \<and>
     nv_active list_net_view (vr_clients t ! 0) = [\<lparr>io_or_offset = 0, nb_len = 60\<rparr>] \<and>
     map io_or_offset (nv_free list_net_view (vr_drv t)) = [0x1040]"
proof -
  have n: "num_clients ex_vrc = 2" by (simp add: num_clients_def ex_vrc_def)
  have active: "nv_active list_net_view (vr_drv ex_vr) = [\<lparr>io_or_offset = 0x1000, nb_len = 64\<rparr>, \<lparr>io_or_offset = 0x1040, nb_len = 64\<rparr>]"
    by (simp add: ex_vr_def ex_vr_net_def list_net_view_def)
  have "packet_client ex_vrc (vr_data ex_vr) \<lparr>io_or_offset = 0x1000, nb_len = 64\<rparr> = Some 0" by code_simp
  moreover have "packet_client ex_vrc (vr_data ex_vr) \<lparr>io_or_offset = 0x1040, nb_len = 64\<rparr> = None" by code_simp
  ultimately have p: "packets_for ex_vrc (vr_data ex_vr) None (nv_active list_net_view (vr_drv ex_vr)) = [\<lparr>io_or_offset = 0x1040, nb_len = 64\<rparr>]"
    "packets_for ex_vrc (vr_data ex_vr) (Some 0) (nv_active list_net_view (vr_drv ex_vr)) = [\<lparr>io_or_offset = 0x1000, nb_len = 64\<rparr>]"
    unfolding active by (simp_all add: packets_for_def)
  have r: "received ex_vrc \<lparr>io_or_offset = 0x1000, nb_len = 64\<rparr> = \<lparr>io_or_offset = 0, nb_len = 60\<rparr>"
    by (simp add: received_def ex_vrc_def)
  have pre: "net_fits list_net_view (vr_drv ex_vr)" "length (vr_clients ex_vr) = num_clients ex_vrc"
    "\<forall>c < num_clients ex_vrc. nv_ok list_net_view (vr_clients ex_vr ! c) \<and>
      length (nv_active list_net_view (vr_clients ex_vr ! c)) + length (nv_active list_net_view (vr_drv ex_vr)) \<le> nv_room list_net_view (vr_clients ex_vr ! c)"
    unfolding n by (simp_all add: ex_vr_def ex_vr_net_def list_net_view_def net_fits_def less_2_cases_iff all_conj_distrib)
  have free: "nv_free list_net_view (vr_drv ex_vr) = []" "nv_active list_net_view (vr_clients ex_vr ! 0) = []"
    by (simp_all add: ex_vr_def ex_vr_net_def list_net_view_def)
  from virt_rx_delivers [OF list_net_laws pre] obtain t where t: "rx_return list_net_ops ex_vrc ex_vr = Some t"
    "map io_or_offset (nv_free list_net_view (vr_drv t)) = map io_or_offset ([] @ [\<lparr>io_or_offset = 0x1040, nb_len = 64\<rparr>])"
    "\<forall>c < num_clients ex_vrc. nv_active list_net_view (vr_clients t ! c) = nv_active list_net_view (vr_clients ex_vr ! c) @
        map (received ex_vrc) (packets_for ex_vrc (vr_data ex_vr) (Some c) (nv_active list_net_view (vr_drv ex_vr)))"
    unfolding p free by blast
  have "nv_active list_net_view (vr_clients t ! 0) = [\<lparr>io_or_offset = 0, nb_len = 60\<rparr>]"
    using t(3) unfolding n by (simp add: p free r)
  with t(1,2) show ?thesis by simp
qed

end
