(* ===== verification/Fw_Virt_Tx.thy ===== *)
theory Fw_Virt_Tx
  imports Fw_Net
begin

text \<open>
  \<open>examples/firewall/net_components/firewall_network_virt_tx.c\<close>: the transmit virtualiser of an interface. It
  passes the packets of its clients and of the firewall components on to the driver, as addresses of the device,
  and returns every buffer the driver is done with to the queue of its owner, found by the address.

  Cache maintenance is not modelled. \<open>NET_BUFFER_SIZE\<close> and the capacities of the clients' queues are fields of the
  configuration.
\<close>

subsection \<open>Definitions\<close>

record virt_tx_client =
  vtx_io_addr :: u64
  vtx_capacity :: u64
  vtx_id :: u8

text \<open>The capacity of a firewall client that takes free buffers is that of its queue. A data region has an address
  for the device and a size; the code only uses the address.\<close>

record fw_net_virt_tx_config =
  vtc_clients :: "virt_tx_client list"
  vtc_free_clients :: "(u64 \<times> u8) list"
  vtc_data_regions :: "(u64 \<times> u64) list"
  vtc_driver_id :: u8
  vtc_buffer_size :: u64

record 'q virt_tx =
  vt_drv :: 'q
  vt_clients :: "'q list"
  vt_fw_free :: "net_buff_desc fw_queue list"
  vt_fw_active :: "fw_buff_desc fw_queue list"
  vt_notified :: "u8 list"
  vt_deferred :: "u8 list"

definition in_io_region :: "u64 \<Rightarrow> u64 \<Rightarrow> u64 \<Rightarrow> bool" where
  "in_io_region phys io_addr len \<longleftrightarrow> phys \<ge> io_addr \<and> phys < io_addr + len"

text \<open>The client and the offset, or \<open>None\<close> for \<open>-1\<close>.\<close>

definition extract_offset_net_client :: "fw_net_virt_tx_config \<Rightarrow> u64 \<Rightarrow> (nat \<times> u64) option" where
  "extract_offset_net_client cfg phys =
     map_option (\<lambda>client. (client, phys - vtx_io_addr (vtc_clients cfg ! client)))
       (find_index (\<lambda>c. in_io_region phys (vtx_io_addr c) (vtx_capacity c * vtc_buffer_size cfg)) (vtc_clients cfg))"

definition extract_offset_fw_client :: "fw_net_virt_tx_config \<Rightarrow> net_buff_desc fw_queue list \<Rightarrow> u64 \<Rightarrow> (nat \<times> u64) option" where
  "extract_offset_fw_client cfg queues phys =
     map_option (\<lambda>client. (client, phys - fst (vtc_free_clients cfg ! client)))
       (find_index (\<lambda>client. in_io_region phys (fst (vtc_free_clients cfg ! client)) (fq_capacity (queues ! client) * vtc_buffer_size cfg))
         [0..<length (vtc_free_clients cfg)])"

text \<open>The state with the flag \<open>enqueued\<close>. An offset that is not that of a buffer of the client goes back to it.\<close>

definition tx_provide_step :: "'q net_ops \<Rightarrow> fw_net_virt_tx_config \<Rightarrow> nat \<Rightarrow> 'q virt_tx \<times> bool \<Rightarrow> ('q virt_tx \<times> bool) option" where
  "tx_provide_step N cfg client = (\<lambda>(s, enqueued). do {
     (buffer, q) \<leftarrow> taken (net_dequeue_active N (vt_clients s ! client));
     let s1 = s\<lparr>vt_clients := (vt_clients s)[client := q]\<rparr>
     in if io_or_offset buffer mod vtc_buffer_size cfg \<noteq> 0 \<or>
           io_or_offset buffer \<ge> vtc_buffer_size cfg * vtx_capacity (vtc_clients cfg ! client)
        then do {
          q' \<leftarrow> stored (net_enqueue_free N q buffer);
          Some (s1\<lparr>vt_clients := (vt_clients s1)[client := q']\<rparr>, enqueued)
        }
        else do {
          drv \<leftarrow> stored (net_enqueue_active N (vt_drv s1)
            (buffer\<lparr>io_or_offset := io_or_offset buffer + vtx_io_addr (vtc_clients cfg ! client)\<rparr>));
          Some (s1\<lparr>vt_drv := drv\<rparr>, True)
        }
   })"

definition fw_tx_provide_step :: "'q net_ops \<Rightarrow> fw_net_virt_tx_config \<Rightarrow> nat \<Rightarrow> 'q virt_tx \<times> bool \<Rightarrow> ('q virt_tx \<times> bool) option" where
  "fw_tx_provide_step N cfg client = (\<lambda>(s, enqueued). do {
     (buffer, q) \<leftarrow> taken (fw_dequeue (vt_fw_active s ! client));
     c_assert (bd_offset buffer mod vtc_buffer_size cfg = 0 \<and> bd_offset buffer < vtc_buffer_size cfg * fq_capacity q);
     c_assert (unat (bd_interface buffer) < length (vtc_data_regions cfg));
     drv \<leftarrow> stored (net_enqueue_active N (vt_drv s)
       \<lparr>io_or_offset = bd_offset buffer + fst (vtc_data_regions cfg ! unat (bd_interface buffer)), nb_len = bd_len buffer\<rparr>);
     Some (s\<lparr>vt_fw_active := (vt_fw_active s)[client := q], vt_drv := drv\<rparr>, True)
   })"

definition tx_provide :: "'q net_ops \<Rightarrow> fw_net_virt_tx_config \<Rightarrow> 'q virt_tx \<Rightarrow> 'q virt_tx option" where
  "tx_provide N cfg s = do {
     u \<leftarrow> fold_body (\<lambda>client. serve_active N (\<lambda>(s, e). vt_clients s ! client)
            (\<lambda>q (s, e). (s\<lparr>vt_clients := (vt_clients s)[client := q]\<rparr>, e)) (tx_provide_step N cfg client))
            [0..<length (vtc_clients cfg)] (s, False);
     (s', enqueued) \<leftarrow> fold_body (\<lambda>client. while_opt (\<lambda>(s, e). \<not> fw_queue_empty (vt_fw_active s ! client))
            (fw_tx_provide_step N cfg client)) [0..<length (vt_fw_active s)] u;
     Some (if enqueued \<and> net_require_signal_active N (vt_drv s')
           then s'\<lparr>vt_drv := net_cancel_signal_active N (vt_drv s'), vt_deferred := vt_deferred s' @ [vtc_driver_id cfg]\<rparr>
           else s')
   }"

text \<open>The flags of the net clients and of the firewall clients.\<close>

definition tx_return_step :: "'q net_ops \<Rightarrow> fw_net_virt_tx_config \<Rightarrow> 'q virt_tx \<times> bool list \<times> bool list
    \<Rightarrow> ('q virt_tx \<times> bool list \<times> bool list) option" where
  "tx_return_step N cfg = (\<lambda>(s, net, fw). do {
     (buffer, drv) \<leftarrow> taken (net_dequeue_free N (vt_drv s));
     let s1 = s\<lparr>vt_drv := drv\<rparr>
     in case extract_offset_net_client cfg (io_or_offset buffer) of
          Some (client, offset) \<Rightarrow> do {
            q \<leftarrow> stored (net_enqueue_free N (vt_clients s1 ! client) (buffer\<lparr>io_or_offset := offset\<rparr>));
            Some (s1\<lparr>vt_clients := (vt_clients s1)[client := q]\<rparr>, net[client := True], fw)
          }
        | None \<Rightarrow> do {
            (client, offset) \<leftarrow> extract_offset_fw_client cfg (vt_fw_free s1) (io_or_offset buffer);
            q \<leftarrow> stored (fw_enqueue (vt_fw_free s1 ! client) (buffer\<lparr>io_or_offset := offset\<rparr>));
            Some (s1\<lparr>vt_fw_free := (vt_fw_free s1)[client := q]\<rparr>, net, fw[client := True])
          }
   })"

definition tx_signal_client :: "'q net_ops \<Rightarrow> fw_net_virt_tx_config \<Rightarrow> bool list \<Rightarrow> nat \<Rightarrow> 'q virt_tx \<Rightarrow> 'q virt_tx" where
  "tx_signal_client N cfg net client s =
     (if net ! client \<and> net_require_signal_free N (vt_clients s ! client)
      then s\<lparr>vt_clients := (vt_clients s)[client := net_cancel_signal_free N (vt_clients s ! client)],
             vt_notified := vt_notified s @ [vtx_id (vtc_clients cfg ! client)]\<rparr>
      else s)"

definition tx_return :: "'q net_ops \<Rightarrow> fw_net_virt_tx_config \<Rightarrow> 'q virt_tx \<Rightarrow> 'q virt_tx option" where
  "tx_return N cfg s = do {
     (s1, net, fw) \<leftarrow> serve_free N (\<lambda>(s, f). vt_drv s) (\<lambda>q (s, f). (s\<lparr>vt_drv := q\<rparr>, f)) (tx_return_step N cfg)
       (s, replicate (length (vtc_clients cfg)) False, replicate (length (vtc_free_clients cfg)) False);
     let s2 = fold (tx_signal_client N cfg net) [0..<length (vtc_clients cfg)] s1;
     Some (s2\<lparr>vt_notified := vt_notified s2 @
       map (\<lambda>c. snd (vtc_free_clients cfg ! c)) (filter (\<lambda>c. fw ! c) [0..<length (vtc_free_clients cfg)])\<rparr>)
   }"

definition virt_tx_notified :: "'q net_ops \<Rightarrow> fw_net_virt_tx_config \<Rightarrow> u8 \<Rightarrow> 'q virt_tx \<Rightarrow> 'q virt_tx option" where
  "virt_tx_notified N cfg ch s = do { s1 \<leftarrow> tx_return N cfg s; tx_provide N cfg s1 }"

subsection \<open>Addresses and owners\<close>

text \<open>A region whose end does not wrap around, as a set of addresses.\<close>

definition io_range :: "u64 \<Rightarrow> u64 \<Rightarrow> nat set" where
  "io_range io_addr len = {unat io_addr..<unat io_addr + unat len}"

definition no_wrap :: "u64 \<Rightarrow> u64 \<Rightarrow> bool" where
  "no_wrap io_addr len \<longleftrightarrow> unat io_addr + unat len < 2 ^ 64"

lemma in_io_region_iff: "no_wrap io len \<Longrightarrow> in_io_region phys io len \<longleftrightarrow> unat phys \<in> io_range io len"
  by (simp add: in_io_region_def io_range_def no_wrap_def word_le_nat_alt word_less_nat_alt unat_word_ariths)

lemma unat_io_plus: "no_wrap io len \<Longrightarrow> offset < len \<Longrightarrow> unat (offset + io) = unat offset + unat io"
  by (simp add: no_wrap_def word_less_nat_alt unat_word_ariths)

lemma io_plus_in_range: "no_wrap io len \<Longrightarrow> offset < len \<Longrightarrow> unat (offset + io) \<in> io_range io len"
  using unat_io_plus [of io len offset] by (simp add: io_range_def word_less_nat_alt)

definition net_range :: "fw_net_virt_tx_config \<Rightarrow> nat \<Rightarrow> nat set" where
  "net_range cfg c = io_range (vtx_io_addr (vtc_clients cfg ! c)) (vtx_capacity (vtc_clients cfg ! c) * vtc_buffer_size cfg)"

definition fw_range :: "fw_net_virt_tx_config \<Rightarrow> net_buff_desc fw_queue list \<Rightarrow> nat \<Rightarrow> nat set" where
  "fw_range cfg queues c = io_range (fst (vtc_free_clients cfg ! c)) (fq_capacity (queues ! c) * vtc_buffer_size cfg)"

text \<open>The regions of the clients do not overlap, and no region wraps around.\<close>

definition regions_ok :: "fw_net_virt_tx_config \<Rightarrow> net_buff_desc fw_queue list \<Rightarrow> bool" where
  "regions_ok cfg queues \<longleftrightarrow>
     (\<forall>c < length (vtc_clients cfg). no_wrap (vtx_io_addr (vtc_clients cfg ! c)) (vtx_capacity (vtc_clients cfg ! c) * vtc_buffer_size cfg)) \<and>
     (\<forall>c < length (vtc_free_clients cfg). no_wrap (fst (vtc_free_clients cfg ! c)) (fq_capacity (queues ! c) * vtc_buffer_size cfg)) \<and>
     (\<forall>c < length (vtc_clients cfg). \<forall>d < length (vtc_clients cfg). c \<noteq> d \<longrightarrow> net_range cfg c \<inter> net_range cfg d = {}) \<and>
     (\<forall>c < length (vtc_free_clients cfg). \<forall>d < length (vtc_free_clients cfg). c \<noteq> d \<longrightarrow>
        fw_range cfg queues c \<inter> fw_range cfg queues d = {}) \<and>
     (\<forall>c < length (vtc_clients cfg). \<forall>d < length (vtc_free_clients cfg). net_range cfg c \<inter> fw_range cfg queues d = {})"

lemma find_index_unique:
  assumes "i < length xs" "P (xs ! i)" "\<And>j. j < length xs \<Longrightarrow> P (xs ! j) \<Longrightarrow> j = i"
  shows "find_index P xs = Some i"
proof -
  obtain k where k: "find_index P xs = Some k" using find_index_Some_ex [of P xs] assms(1,2) by (metis nth_mem)
  then have "k = i" using assms(3) find_index_less find_index_holds by blast
  with k show ?thesis by simp
qed

text \<open>an address that \<open>tx_provide\<close> makes from a valid offset of a client leads \<open>tx_return\<close> back to this client and
  this offset, for the clients of the network as well as for those of the firewall, as long as the regions of
  the clients do not overlap.\<close>

theorem virt_tx_owner_roundtrip:
  assumes "regions_ok cfg queues"
  shows "(\<forall>c offset. c < length (vtc_clients cfg) \<and> offset < vtc_buffer_size cfg * vtx_capacity (vtc_clients cfg ! c) \<longrightarrow>
      extract_offset_net_client cfg (offset + vtx_io_addr (vtc_clients cfg ! c)) = Some (c, offset)) \<and>
    (\<forall>c offset. c < length (vtc_free_clients cfg) \<and> offset < vtc_buffer_size cfg * fq_capacity (queues ! c) \<longrightarrow>
      extract_offset_net_client cfg (offset + fst (vtc_free_clients cfg ! c)) = None \<and>
      extract_offset_fw_client cfg queues (offset + fst (vtc_free_clients cfg ! c)) = Some (c, offset))"
proof -
  have net: "in_io_region phys (vtx_io_addr (vtc_clients cfg ! d)) (vtx_capacity (vtc_clients cfg ! d) * vtc_buffer_size cfg) \<longleftrightarrow>
      unat phys \<in> net_range cfg d" if "d < length (vtc_clients cfg)" for phys d
    unfolding net_range_def using assms that by (intro in_io_region_iff) (simp add: regions_ok_def)
  have fw: "in_io_region phys (fst (vtc_free_clients cfg ! d)) (fq_capacity (queues ! d) * vtc_buffer_size cfg) \<longleftrightarrow>
      unat phys \<in> fw_range cfg queues d" if "d < length (vtc_free_clients cfg)" for phys d
    unfolding fw_range_def using assms that by (intro in_io_region_iff) (simp add: regions_ok_def)
  have apart: "d = c" if "c < length (vtc_clients cfg)" "d < length (vtc_clients cfg)" "x \<in> net_range cfg c" "x \<in> net_range cfg d" for c d x
    using assms that unfolding regions_ok_def by blast
  have apart_fw: "d = c" if "c < length (vtc_free_clients cfg)" "d < length (vtc_free_clients cfg)" "x \<in> fw_range cfg queues c"
    "x \<in> fw_range cfg queues d" for c d x
    using assms that unfolding regions_ok_def by blast
  have apart_mixed: False if "c < length (vtc_clients cfg)" "d < length (vtc_free_clients cfg)" "x \<in> net_range cfg c"
    "x \<in> fw_range cfg queues d" for c d x
    using assms that unfolding regions_ok_def by blast
  have 1: "extract_offset_net_client cfg (offset + vtx_io_addr (vtc_clients cfg ! c)) = Some (c, offset)"
    if c: "c < length (vtc_clients cfg)" and o: "offset < vtc_buffer_size cfg * vtx_capacity (vtc_clients cfg ! c)" for c offset
  proof -
    let ?phys = "offset + vtx_io_addr (vtc_clients cfg ! c)"
    have "unat ?phys \<in> net_range cfg c"
      unfolding net_range_def using assms c o by (intro io_plus_in_range) (simp_all add: regions_ok_def mult.commute)
    then have "find_index (\<lambda>c. in_io_region ?phys (vtx_io_addr c) (vtx_capacity c * vtc_buffer_size cfg)) (vtc_clients cfg) = Some c"
      using net apart c by (intro find_index_unique) blast+
    then show ?thesis by (simp add: extract_offset_net_client_def)
  qed
  have 2: "extract_offset_net_client cfg (offset + fst (vtc_free_clients cfg ! c)) = None \<and>
      extract_offset_fw_client cfg queues (offset + fst (vtc_free_clients cfg ! c)) = Some (c, offset)"
    if c: "c < length (vtc_free_clients cfg)" and o: "offset < vtc_buffer_size cfg * fq_capacity (queues ! c)" for c offset
  proof -
    let ?phys = "offset + fst (vtc_free_clients cfg ! c)"
    have r: "unat ?phys \<in> fw_range cfg queues c"
      unfolding fw_range_def using assms c o by (intro io_plus_in_range) (simp_all add: regions_ok_def mult.commute)
    have "find_index (\<lambda>c. in_io_region ?phys (vtx_io_addr c) (vtx_capacity c * vtc_buffer_size cfg)) (vtc_clients cfg) = None"
      using net apart_mixed r c unfolding find_index_None_iff by (metis in_set_conv_nth)
    moreover have "find_index (\<lambda>client. in_io_region ?phys (fst (vtc_free_clients cfg ! client))
        (fq_capacity (queues ! client) * vtc_buffer_size cfg)) [0..<length (vtc_free_clients cfg)] = Some c"
      using fw apart_fw c r by (intro find_index_unique) auto
    ultimately show ?thesis by (simp add: extract_offset_net_client_def extract_offset_fw_client_def)
  qed
  from 1 2 show ?thesis by blast
qed

subsection \<open>What the driver gets\<close>

definition dma_ok :: "fw_net_virt_tx_config \<Rightarrow> u64 \<Rightarrow> bool" where
  "dma_ok cfg phys \<longleftrightarrow> (\<exists>c < length (vtc_clients cfg). unat phys \<in> net_range cfg c) \<or>
     (\<exists>i < length (vtc_data_regions cfg). unat phys \<in> io_range (fst (vtc_data_regions cfg ! i)) (snd (vtc_data_regions cfg ! i)))"

definition tx_regions_ok :: "fw_net_virt_tx_config \<Rightarrow> bool" where
  "tx_regions_ok cfg \<longleftrightarrow>
     (\<forall>c < length (vtc_clients cfg). no_wrap (vtx_io_addr (vtc_clients cfg ! c)) (vtx_capacity (vtc_clients cfg ! c) * vtc_buffer_size cfg)) \<and>
     (\<forall>i < length (vtc_data_regions cfg). no_wrap (fst (vtc_data_regions cfg ! i)) (snd (vtc_data_regions cfg ! i)))"

text \<open>What a firewall component may put into its queue; its queue is not larger than any data region.\<close>

definition fw_active_ok :: "fw_net_virt_tx_config \<Rightarrow> fw_buff_desc fw_queue \<Rightarrow> bool" where
  "fw_active_ok cfg q \<longleftrightarrow> wf_fw_queue q \<and>
     (\<forall>i < length (vtc_data_regions cfg). vtc_buffer_size cfg * fq_capacity q \<le> snd (vtc_data_regions cfg ! i)) \<and>
     (\<forall>b \<in> set (fq_contents q). bd_offset b mod vtc_buffer_size cfg = 0 \<and> bd_offset b < vtc_buffer_size cfg * fq_capacity q \<and>
        unat (bd_interface b) < length (vtc_data_regions cfg))"

definition pending :: "'q net_view \<Rightarrow> 'q virt_tx \<Rightarrow> nat" where
  "pending V s = sum_list (map (\<lambda>q. length (nv_active V q)) (vt_clients s)) +
     sum_list (map (\<lambda>q. length (fq_contents q)) (vt_fw_active s))"

definition tx_ok :: "'q net_view \<Rightarrow> fw_net_virt_tx_config \<Rightarrow> 'q virt_tx \<Rightarrow> bool" where
  "tx_ok V cfg s \<longleftrightarrow> length (vt_clients s) = length (vtc_clients cfg) \<and> (\<forall>q \<in> set (vt_clients s). net_fits V q) \<and>
     nv_ok V (vt_drv s) \<and> length (nv_active V (vt_drv s)) + pending V s \<le> nv_room V (vt_drv s) \<and>
     (\<forall>q \<in> set (vt_fw_active s). fw_active_ok cfg q) \<and> (\<forall>b \<in> set (nv_active V (vt_drv s)). dma_ok cfg (io_or_offset b))"

lemma sum_map_update:
  "i < length xs \<Longrightarrow> sum_list (map f (xs[i := x])) + f (xs ! i) = sum_list (map f xs) + (f x :: nat)"
proof (induction xs arbitrary: i)
  case (Cons y ys)
  then show ?case by (cases i) (simp_all add: add.assoc)
qed simp

lemma set_update_ok: "\<forall>q \<in> set qs. P q \<Longrightarrow> P q' \<Longrightarrow> \<forall>q \<in> set (qs[i := q']). P q"
  using set_update_subset_insert [of qs i q'] by blast

lemma driver_takes:
  assumes laws: "net_queue_laws N V" and ok: "nv_ok V d" and lt: "length (nv_active V d) < nv_room V d"
    and dma: "\<forall>b \<in> set (nv_active V d). dma_ok cfg (io_or_offset b)" "dma_ok cfg (io_or_offset b)"
  shows "\<exists>d'. stored (net_enqueue_active N d b) = Some d' \<and> nv_ok V d' \<and> nv_room V d' = nv_room V d \<and>
    length (nv_active V d') = Suc (length (nv_active V d)) \<and> (\<forall>b \<in> set (nv_active V d'). dma_ok cfg (io_or_offset b))"
  using net_put_active [OF laws ok lt, of b] dma by auto

lemma tx_provide_step_ok:
  assumes laws: "net_queue_laws N V" and reg: "tx_regions_ok cfg" and c: "c < length (vtc_clients cfg)" and ok: "tx_ok V cfg s"
    and ne: "\<not> net_queue_empty_active N (vt_clients s ! c)"
  shows "\<exists>s' e'. tx_provide_step N cfg c (s, e) = Some (s', e') \<and> tx_ok V cfg s' \<and> vt_fw_active s' = vt_fw_active s \<and>
    length (nv_active V (vt_clients s' ! c)) < length (nv_active V (vt_clients s ! c))"
proof -
  let ?q = "vt_clients s ! c" and ?cap = "vtx_capacity (vtc_clients cfg ! c)" and ?io = "vtx_io_addr (vtc_clients cfg ! c)"
  have lc: "c < length (vt_clients s)" using ok c by (simp add: tx_ok_def)
  have fits: "net_fits V ?q" using ok lc by (simp add: tx_ok_def)
  from net_active_to_free [OF laws fits ne] obtain b q1 q2 where
    q: "taken (net_dequeue_active N ?q) = Some (b, q1)" "stored (net_enqueue_free N q1 b) = Some q2" "net_fits V q1"
      "net_kept V ?q q2" "nv_active V ?q = b # nv_active V q2" "nv_free V q2 = nv_free V ?q @ [b]" by blast
  have "nv_ok V ?q" using fits by (simp add: net_fits_def)
  from net_take_active [OF laws this ne] q(1) have a1: "nv_active V ?q = b # nv_active V q1" by auto
  let ?bad = "io_or_offset b mod vtc_buffer_size cfg \<noteq> 0 \<or> io_or_offset b \<ge> vtc_buffer_size cfg * ?cap"
  let ?f = "\<lambda>q. length (nv_active V q)"
  have sum: "sum_list (map ?f ((vt_clients s)[c := x])) + Suc (?f x) = sum_list (map ?f (vt_clients s)) + ?f x"
    if "length (nv_active V ?q) = Suc (?f x)" for x using sum_map_update [OF lc, of ?f x] that by simp
  show ?thesis
  proof (cases ?bad)
    case True
    let ?s' = "s\<lparr>vt_clients := (vt_clients s)[c := q1]\<rparr>\<lparr>vt_clients := ((vt_clients s)[c := q1])[c := q2]\<rparr>"
    have "pending V ?s' \<le> pending V s" using sum [of q2] q(5) by (simp add: pending_def)
    moreover have "\<forall>q \<in> set ((vt_clients s)[c := q2]). net_fits V q"
      using ok q(4) by (intro set_update_ok) (simp_all add: tx_ok_def net_kept_def)
    ultimately have "tx_ok V cfg ?s'" using ok by (simp add: tx_ok_def)
    moreover have "tx_provide_step N cfg c (s, e) = Some (?s', e)" using q(1,2) True by (simp add: tx_provide_step_def Let_def)
    ultimately show ?thesis using q(5) lc by (intro exI [of _ ?s'] exI [of _ e]) simp
  next
    case False
    let ?b = "b\<lparr>io_or_offset := io_or_offset b + ?io\<rparr>"
    have "unat (io_or_offset ?b) \<in> net_range cfg c"
      unfolding net_range_def using False reg c by (simp, intro io_plus_in_range) (simp_all add: tx_regions_ok_def not_le mult.commute)
    then have dma: "dma_ok cfg (io_or_offset ?b)" using c unfolding dma_ok_def by blast
    have p: "pending V (s\<lparr>vt_clients := (vt_clients s)[c := q1]\<rparr>) + 1 = pending V s"
      using sum [of q1] a1 by (simp add: pending_def)
    have drv: "nv_ok V (vt_drv s)" "length (nv_active V (vt_drv s)) < nv_room V (vt_drv s)"
      "\<forall>b \<in> set (nv_active V (vt_drv s)). dma_ok cfg (io_or_offset b)" using ok p by (simp_all add: tx_ok_def)
    from driver_takes [OF laws drv dma] obtain d where d: "stored (net_enqueue_active N (vt_drv s) ?b) = Some d" "nv_ok V d"
      "nv_room V d = nv_room V (vt_drv s)" "length (nv_active V d) = Suc (length (nv_active V (vt_drv s)))"
      "\<forall>b \<in> set (nv_active V d). dma_ok cfg (io_or_offset b)" by blast
    let ?s' = "s\<lparr>vt_clients := (vt_clients s)[c := q1]\<rparr>\<lparr>vt_drv := d\<rparr>"
    have "pending V ?s' = pending V (s\<lparr>vt_clients := (vt_clients s)[c := q1]\<rparr>)" by (simp add: pending_def)
    moreover have "\<forall>q \<in> set ((vt_clients s)[c := q1]). net_fits V q"
      using ok q(3) by (intro set_update_ok) (simp_all add: tx_ok_def)
    ultimately have "tx_ok V cfg ?s'" using ok d p by (simp add: tx_ok_def)
    moreover have "tx_provide_step N cfg c (s, e) = Some (?s', True)"
      using q(1) d(1) False by (simp add: tx_provide_step_def Let_def)
    ultimately show ?thesis using a1 lc by (intro exI [of _ ?s'] exI [of _ True]) simp
  qed
qed

lemma fw_tx_provide_step_ok:
  assumes laws: "net_queue_laws N V" and reg: "tx_regions_ok cfg" and c: "c < length (vt_fw_active s)" and ok: "tx_ok V cfg s"
    and ne: "\<not> fw_queue_empty (vt_fw_active s ! c)"
  shows "\<exists>s'. fw_tx_provide_step N cfg c (s, e) = Some (s', True) \<and> tx_ok V cfg s' \<and> length (vt_fw_active s') = length (vt_fw_active s) \<and>
    length (fq_contents (vt_fw_active s' ! c)) < length (fq_contents (vt_fw_active s ! c))"
proof -
  let ?q = "vt_fw_active s ! c"
  have qok: "fw_active_ok cfg ?q" using ok c by (simp add: tx_ok_def)
  then have "wf_fw_queue ?q" by (simp add: fw_active_ok_def)
  from fw_taken [OF this ne] obtain b q' where
    q: "taken (fw_dequeue ?q) = Some (b, q')" "wf_fw_queue q'" "fq_contents ?q = b # fq_contents q'" by blast
  have cap: "fq_capacity q' = fq_capacity ?q" using q(1) by (auto simp: taken_def fw_dequeue_def Let_def split: if_splits)
  let ?i = "unat (bd_interface b)"
  have b: "bd_offset b mod vtc_buffer_size cfg = 0" "bd_offset b < vtc_buffer_size cfg * fq_capacity ?q"
    "?i < length (vtc_data_regions cfg)" and small: "vtc_buffer_size cfg * fq_capacity ?q \<le> snd (vtc_data_regions cfg ! ?i)"
    using qok q(3) by (simp_all add: fw_active_ok_def)
  let ?b = "\<lparr>io_or_offset = bd_offset b + fst (vtc_data_regions cfg ! ?i), nb_len = bd_len b\<rparr>"
  have "unat (io_or_offset ?b) \<in> io_range (fst (vtc_data_regions cfg ! ?i)) (snd (vtc_data_regions cfg ! ?i))"
    using reg b small by (simp, intro io_plus_in_range) (simp_all add: tx_regions_ok_def)
  then have dma: "dma_ok cfg (io_or_offset ?b)" using b(3) unfolding dma_ok_def by blast
  have "fw_active_ok cfg q'" using qok q(2,3) cap by (simp add: fw_active_ok_def)
  then have all: "\<forall>q \<in> set ((vt_fw_active s)[c := q']). fw_active_ok cfg q"
    using ok by (intro set_update_ok) (simp_all add: tx_ok_def)
  have p: "pending V (s\<lparr>vt_fw_active := (vt_fw_active s)[c := q']\<rparr>) + 1 = pending V s"
    using sum_map_update [OF c, of "\<lambda>q. length (fq_contents q)" q'] arg_cong [OF q(3), of length] by (simp add: pending_def)
  have drv: "nv_ok V (vt_drv s)" "length (nv_active V (vt_drv s)) < nv_room V (vt_drv s)"
    "\<forall>b \<in> set (nv_active V (vt_drv s)). dma_ok cfg (io_or_offset b)" using ok p by (simp_all add: tx_ok_def)
  from driver_takes [OF laws drv dma] obtain d where d: "stored (net_enqueue_active N (vt_drv s) ?b) = Some d" "nv_ok V d"
    "nv_room V d = nv_room V (vt_drv s)" "length (nv_active V d) = Suc (length (nv_active V (vt_drv s)))"
    "\<forall>b \<in> set (nv_active V d). dma_ok cfg (io_or_offset b)" by blast
  let ?s' = "s\<lparr>vt_fw_active := (vt_fw_active s)[c := q'], vt_drv := d\<rparr>"
  have "pending V ?s' = pending V (s\<lparr>vt_fw_active := (vt_fw_active s)[c := q']\<rparr>)" by (simp add: pending_def)
  then have "tx_ok V cfg ?s'" using ok d p all by (simp add: tx_ok_def)
  moreover have "fw_tx_provide_step N cfg c (s, e) = Some (?s', True)"
    using q(1) b d(1) cap by (simp add: fw_tx_provide_step_def)
  ultimately show ?thesis using q(3) c by (intro exI [of _ ?s']) simp
qed

lemma clients_provided:
  assumes laws: "net_queue_laws N V" and reg: "tx_regions_ok cfg" and ok: "tx_ok V cfg s"
  shows "\<exists>u. fold_body (\<lambda>client. serve_active N (\<lambda>(s, e). vt_clients s ! client)
      (\<lambda>q (s, e). (s\<lparr>vt_clients := (vt_clients s)[client := q]\<rparr>, e)) (tx_provide_step N cfg client))
      [0..<length (vtc_clients cfg)] (s, False) = Some u \<and> tx_ok V cfg (fst u) \<and> vt_fw_active (fst u) = vt_fw_active s"
proof (rule fold_body_upto [where I = "\<lambda>_ u. tx_ok V cfg (fst u) \<and> vt_fw_active (fst u) = vt_fw_active s"])
  fix c and u :: "'a virt_tx \<times> bool" assume c: "c < length (vtc_clients cfg)" and I: "tx_ok V cfg (fst u) \<and> vt_fw_active (fst u) = vt_fw_active s"
  let ?get = "\<lambda>(s, e :: bool). vt_clients s ! c" and ?put = "\<lambda>q (s, e :: bool). (s\<lparr>vt_clients := (vt_clients s)[c := q]\<rparr>, e)"
  have "\<exists>u'. serve_active N ?get ?put (tx_provide_step N cfg c) u = Some u' \<and>
      (tx_ok V cfg (fst u') \<and> vt_fw_active (fst u') = vt_fw_active s) \<and>
      nv_active V (?get u') = []"
  proof (rule serve_active_total [OF laws, of "\<lambda>u. tx_ok V cfg (fst u) \<and> vt_fw_active (fst u) = vt_fw_active s"])
    show "tx_ok V cfg (fst u) \<and> vt_fw_active (fst u) = vt_fw_active s" by (rule I)
  next
    fix v :: "'a virt_tx \<times> bool" assume "tx_ok V cfg (fst v) \<and> vt_fw_active (fst v) = vt_fw_active s"
    then show "nv_ok V (?get v)" using c by (simp add: case_prod_beta tx_ok_def net_fits_def)
  next
    fix q and v :: "'a virt_tx \<times> bool" assume "tx_ok V cfg (fst v) \<and> vt_fw_active (fst v) = vt_fw_active s"
    then show "?get (?put q v) = q" using c by (simp add: case_prod_beta tx_ok_def)
  next
    fix q and v :: "'a virt_tx \<times> bool"
    assume J: "tx_ok V cfg (fst v) \<and> vt_fw_active (fst v) = vt_fw_active s" and view: "same_view V (?get v) q"
    have lc: "c < length (vt_clients (fst v))" using J c by (simp add: tx_ok_def)
    have view: "same_view V (vt_clients (fst v) ! c) q" using view by (simp add: case_prod_beta)
    have "net_fits V (vt_clients (fst v) ! c)" using J lc by (simp add: tx_ok_def)
    then have "net_fits V q" using view by (rule net_fits_view)
    then have fits: "\<forall>x \<in> set ((vt_clients (fst v))[c := q]). net_fits V x"
      using J by (intro set_update_ok) (simp_all add: tx_ok_def)
    have "length (nv_active V q) = length (nv_active V (vt_clients (fst v) ! c))" using view by (simp add: same_view_def)
    then have "pending V ((fst v)\<lparr>vt_clients := (vt_clients (fst v))[c := q]\<rparr>) = pending V (fst v)"
      using sum_map_update [OF lc, of "\<lambda>q. length (nv_active V q)" q] by (simp add: pending_def)
    then have "tx_ok V cfg ((fst v)\<lparr>vt_clients := (vt_clients (fst v))[c := q]\<rparr>)" using J fits by (simp add: tx_ok_def)
    then show "tx_ok V cfg (fst (?put q v)) \<and> vt_fw_active (fst (?put q v)) = vt_fw_active s" using J by (simp add: case_prod_beta)
  next
    fix v :: "'a virt_tx \<times> bool"
    assume J: "tx_ok V cfg (fst v) \<and> vt_fw_active (fst v) = vt_fw_active s" and ne: "\<not> net_queue_empty_active N (?get v)"
    have "\<not> net_queue_empty_active N (vt_clients (fst v) ! c)" using ne by (simp add: case_prod_beta)
    from tx_provide_step_ok [OF laws reg c J [THEN conjunct1] this, of "snd v"] obtain s' e' where
      "tx_provide_step N cfg c v = Some (s', e')" "tx_ok V cfg s'" "vt_fw_active s' = vt_fw_active (fst v)"
      "length (nv_active V (vt_clients s' ! c)) < length (nv_active V (vt_clients (fst v) ! c))" by auto
    then show "\<exists>v'. tx_provide_step N cfg c v = Some v' \<and> (tx_ok V cfg (fst v') \<and> vt_fw_active (fst v') = vt_fw_active s) \<and>
        length (nv_active V (?get v')) < length (nv_active V (?get v))"
      using J by (intro exI [of _ "(s', e')"]) (simp add: case_prod_beta)
  qed
  then show "\<exists>u'. serve_active N (\<lambda>(s, e). vt_clients s ! c) (\<lambda>q (s, e). (s\<lparr>vt_clients := (vt_clients s)[c := q]\<rparr>, e))
      (tx_provide_step N cfg c) u = Some u' \<and> tx_ok V cfg (fst u') \<and> vt_fw_active (fst u') = vt_fw_active s" by blast
qed (use ok in simp)

lemma fw_clients_provided:
  assumes laws: "net_queue_laws N V" and reg: "tx_regions_ok cfg" and ok: "tx_ok V cfg (fst u)"
    and n: "n = length (vt_fw_active (fst u))"
  shows "\<exists>u'. fold_body (\<lambda>client. while_opt (\<lambda>(s, e). \<not> fw_queue_empty (vt_fw_active s ! client))
      (fw_tx_provide_step N cfg client)) [0..<n] u = Some u' \<and> tx_ok V cfg (fst u') \<and> length (vt_fw_active (fst u')) = n"
proof (rule fold_body_upto [where I = "\<lambda>_ u. tx_ok V cfg (fst u) \<and> length (vt_fw_active (fst u)) = n"])
  fix c and v :: "'a virt_tx \<times> bool" assume c: "c < n" and J: "tx_ok V cfg (fst v) \<and> length (vt_fw_active (fst v)) = n"
  have "(\<lambda>(s :: 'a virt_tx, e :: bool). \<not> fw_queue_empty (vt_fw_active s ! c)) = (\<lambda>v. \<not> fw_queue_empty (vt_fw_active (fst v) ! c))"
    by (simp add: fun_eq_iff)
  moreover have "\<exists>v'. while_opt (\<lambda>v. \<not> fw_queue_empty (vt_fw_active (fst v) ! c)) (fw_tx_provide_step N cfg c) v = Some v' \<and>
      (tx_ok V cfg (fst v') \<and> length (vt_fw_active (fst v')) = n) \<and> \<not> \<not> fw_queue_empty (vt_fw_active (fst v') ! c)"
  proof (rule while_opt_total [where m = "\<lambda>v. length (fq_contents (vt_fw_active (fst v) ! c))"])
    show "tx_ok V cfg (fst v) \<and> length (vt_fw_active (fst v)) = n" by (rule J)
  next
    fix w :: "'a virt_tx \<times> bool"
    assume K: "tx_ok V cfg (fst w) \<and> length (vt_fw_active (fst w)) = n" and ne: "\<not> fw_queue_empty (vt_fw_active (fst w) ! c)"
    have "c < length (vt_fw_active (fst w))" using K c by simp
    from fw_tx_provide_step_ok [OF laws reg this K [THEN conjunct1] ne, of "snd w"] obtain s' where
      "fw_tx_provide_step N cfg c w = Some (s', True)" "tx_ok V cfg s'" "length (vt_fw_active s') = length (vt_fw_active (fst w))"
      "length (fq_contents (vt_fw_active s' ! c)) < length (fq_contents (vt_fw_active (fst w) ! c))" by auto
    then show "\<exists>w'. fw_tx_provide_step N cfg c w = Some w' \<and> (tx_ok V cfg (fst w') \<and> length (vt_fw_active (fst w')) = n) \<and>
        length (fq_contents (vt_fw_active (fst w') ! c)) < length (fq_contents (vt_fw_active (fst w) ! c))"
      using K by (intro exI [of _ "(s', True)"]) simp
  qed
  ultimately show "\<exists>v'. while_opt (\<lambda>(s, e). \<not> fw_queue_empty (vt_fw_active s ! c)) (fw_tx_provide_step N cfg c) v = Some v' \<and>
      tx_ok V cfg (fst v') \<and> length (vt_fw_active (fst v')) = n" by auto
qed (use ok n in simp)


text \<open>One client of the network and one of the firewall. The client of the network offers a buffer and an address
  outside its region.\<close>

definition ex_vtc :: fw_net_virt_tx_config where
  "ex_vtc = \<lparr>vtc_clients = [\<lparr>vtx_io_addr = 0x1000, vtx_capacity = 4, vtx_id = 3\<rparr>], vtc_free_clients = [(0x8000, 4)],
     vtc_data_regions = [(0x8000, 256)], vtc_driver_id = 2, vtc_buffer_size = 64\<rparr>"

definition ex_vt_free :: "net_buff_desc fw_queue" where
  "ex_vt_free = \<lparr>fq_idx = \<lparr>idx_tail = 0, idx_head = 0\<rparr>, fq_entries = replicate 4 \<lparr>io_or_offset = 0, nb_len = 0\<rparr>, fq_capacity = 4\<rparr>"

definition ex_vt_active :: "fw_buff_desc fw_queue" where
  "ex_vt_active = \<lparr>fq_idx = \<lparr>idx_tail = 1, idx_head = 0\<rparr>,
     fq_entries = replicate 4 \<lparr>bd_offset = 192, bd_len = 60, bd_interface = 0\<rparr>, fq_capacity = 4\<rparr>"

definition ex_vt :: "list_net virt_tx" where
  "ex_vt = \<lparr>vt_drv = \<lparr>ln_free = [], ln_active = [], ln_room = 8, ln_want_free = False, ln_want_active = True\<rparr>,
     vt_clients = [\<lparr>ln_free = [], ln_active = [\<lparr>io_or_offset = 64, nb_len = 60\<rparr>, \<lparr>io_or_offset = 0x7000, nb_len = 60\<rparr>],
       ln_room = 4, ln_want_free = False, ln_want_active = False\<rparr>],
     vt_fw_free = [ex_vt_free], vt_fw_active = [ex_vt_active], vt_notified = [], vt_deferred = []\<rparr>"

lemma ex_vt_queue: "wf_fw_queue ex_vt_active" "fq_contents ex_vt_active = [\<lparr>bd_offset = 192, bd_len = 60, bd_interface = 0\<rparr>]"
  by (simp_all add: ex_vt_active_def wf_fw_queue_def fq_contents_def fq_count_def fq_slot_def)

lemma ex_vt_active_count: "fq_count ex_vt_active = 1"
  by (simp add: ex_vt_active_def fq_count_def)

theorem virt_tx_owner_roundtrip_witness:
  "extract_offset_net_client ex_vtc 0x1040 = Some (0, 64) \<and> extract_offset_fw_client ex_vtc [ex_vt_free] 0x80C0 = Some (0, 192)"
proof -
  have "regions_ok ex_vtc [ex_vt_free]"
    by (simp add: regions_ok_def ex_vtc_def ex_vt_free_def no_wrap_def net_range_def fw_range_def io_range_def)
  note rt = virt_tx_owner_roundtrip [OF this]
  have "(64 :: u64) < vtc_buffer_size ex_vtc * vtx_capacity (vtc_clients ex_vtc ! 0)"
    "(192 :: u64) < vtc_buffer_size ex_vtc * fq_capacity ([ex_vt_free] ! 0)" "0 < length (vtc_clients ex_vtc)"
    "0 < length (vtc_free_clients ex_vtc)" "vtx_io_addr (vtc_clients ex_vtc ! 0) = 0x1000" "fst (vtc_free_clients ex_vtc ! 0) = 0x8000"
    by (simp_all add: ex_vtc_def ex_vt_free_def)
  then have "extract_offset_net_client ex_vtc (64 + 0x1000) = Some (0, 64)"
    "extract_offset_fw_client ex_vtc [ex_vt_free] (192 + 0x8000) = Some (0, 192)" using rt by metis+
  then show ?thesis by simp
qed


end
