(* ===== verification/Fw_Init.thy ===== *)
theory Fw_Init
  imports Fw_Router_Props Fw_Arp_Props Fw_Arp_Responder Fw_Filters Fw_Icmp_Module_Props Fw_Virt_Rx Fw_Virt_Tx
begin

text \<open>
  The \<open>init\<close> functions of the firewall components: they bind the queues and tables to the shared memory and
  install the initial rules and routes. The state before \<open>init\<close> holds the mapped memory as it is found, and the
  records below are the parts of the configurations that only \<open>init\<close> reads. The console is not modelled.

  The lemmas show that, on memory that is zero, the components start in the states that the theorems on their
  operations assume.
\<close>

subsection \<open>Queues\<close>

text \<open>\<open>net_queue_init\<close> and \<open>net_buffers_init\<close> of sDDF; the handle before \<open>net_queue_init\<close> is the mapped memory.\<close>

record 'q net_init =
  net_queue_init :: "'q \<Rightarrow> u64 \<Rightarrow> 'q"
  net_buffers_init :: "'q \<Rightarrow> u64 \<Rightarrow> 'q"

definition fq_at :: "'e fw_queue \<Rightarrow> u16 \<Rightarrow> 'e fw_queue" where
  "fq_at q capacity = fw_queue_init (fq_idx q, fq_entries q) (ucast capacity)"

text \<open>The first \<open>n\<close> entries of an array.\<close>

definition update_upto :: "nat \<Rightarrow> (nat \<Rightarrow> 'a \<Rightarrow> 'a) \<Rightarrow> 'a list \<Rightarrow> 'a list" where
  "update_upto n f xs = map (\<lambda>i. if i < n then f i (xs ! i) else xs ! i) [0..<length xs]"

lemma length_update_upto [simp]: "length (update_upto n f xs) = length xs"
  by (simp add: update_upto_def)

lemma nth_update_upto [simp]: "i < length xs \<Longrightarrow> update_upto n f xs ! i = (if i < n then f i (xs ! i) else xs ! i)"
  by (simp add: update_upto_def)

subsection \<open>ARP\<close>

record arp_init_config =
  aic_magic :: bool
  aic_rx_buffers :: u64
  aic_tx_buffers :: u64
  aic_client_capacity :: "u16 list"
  aic_cache_capacity :: u16

definition arp_requester_init :: "'q net_init \<Rightarrow> fw_arp_requester_config \<Rightarrow> arp_init_config \<Rightarrow> 'q arp_requester
    \<Rightarrow> 'q arp_requester option" where
  "arp_requester_init I cfg ic s = do {
     c_assert (aic_magic ic);
     Some (s\<lparr>ar_rx := net_queue_init I (ar_rx s) (aic_rx_buffers ic),
       ar_tx := net_buffers_init I (net_queue_init I (ar_tx s) (aic_tx_buffers ic)) 0,
       ar_req := update_upto (num_arp_clients cfg) (\<lambda>c q. fq_at q (aic_client_capacity ic ! c)) (ar_req s),
       ar_resp := update_upto (num_arp_clients cfg) (\<lambda>c q. fq_at q (aic_client_capacity ic ! c)) (ar_resp s),
       ar_table := fw_arp_table_init (at_entries (ar_table s)) (aic_cache_capacity ic),
       ar_out := ar_out s @ [Set_timeout (rqc_timer_id cfg) ARP_RETRY_TIMER_NS]\<rparr>)
   }"

definition arp_responder_init :: "'q net_init \<Rightarrow> arp_init_config \<Rightarrow> 'q arp_responder \<Rightarrow> 'q arp_responder option" where
  "arp_responder_init I ic s = do {
     c_assert (aic_magic ic);
     Some (s\<lparr>rs_rx := net_queue_init I (rs_rx s) (aic_rx_buffers ic),
       rs_tx := net_buffers_init I (net_queue_init I (rs_tx s) (aic_tx_buffers ic)) 0\<rparr>)
   }"

subsection \<open>Filters and the ICMP module\<close>

record filter_init_config =
  fic_magic :: bool
  fic_rx_buffers :: u64
  fic_router_capacity :: u16
  fic_icmp_capacity :: u16
  fic_rules_capacity :: u16
  fic_instances_capacity :: u16
  fic_initial_rules :: "fw_rule list"
  fic_num_initial_rules :: u8
  fic_num_external :: u8

text \<open>The UDP and the ICMP filter; the second state has the mapped rule table, bitmap and instance tables.\<close>

definition filter_init :: "'q net_init \<Rightarrow> filter_init_config \<Rightarrow> 'q filter \<Rightarrow> 'q filter option" where
  "filter_init I ic s = do {
     c_assert (fic_magic ic);
     (rules, st) \<leftarrow> fw_filter_state_init (rule_table (fl_state s)) (rule_id_bitmap (fl_state s)) (fic_rules_capacity ic)
       (internal_instances_table (fl_state s)) (external_instances_table (fl_state s)) (fic_instances_capacity ic)
       (fic_initial_rules ic) (fic_num_initial_rules ic) (fic_num_external ic);
     Some (s\<lparr>fl_rx := net_queue_init I (fl_rx s) (fic_rx_buffers ic), fl_router := fq_at (fl_router s) (fic_router_capacity ic),
       fl_icmp := fq_at (fl_icmp s) (fic_icmp_capacity ic), fl_state := st\<rparr>)
   }"

text \<open>The TCP filter has no queue for the ICMP module.\<close>

definition tcp_filter_init :: "'q net_init \<Rightarrow> filter_init_config \<Rightarrow> 'q filter \<Rightarrow> 'q filter option" where
  "tcp_filter_init I ic s = map_option (\<lambda>t. t\<lparr>fl_icmp := fl_icmp s\<rparr>) (filter_init I ic s)"

text \<open>The capacities of the queues of the filters are in \<open>imc_filters\<close>.\<close>

definition icmp_module_init :: "'q net_init \<Rightarrow> fw_icmp_module_config \<Rightarrow> u16 \<Rightarrow> u64 list \<Rightarrow> 'q icmp_module \<Rightarrow> 'q icmp_module" where
  "icmp_module_init I cfg router_capacity num_buffers s =
     (let n = length (imc_interfaces cfg) in
      s\<lparr>im_router := fq_at (im_router s) router_capacity,
        im_net := update_upto n (\<lambda>i q. net_buffers_init I (net_queue_init I q (num_buffers ! i)) 0) (im_net s),
        im_filter := update_upto n (\<lambda>i qs. update_upto (length (imc_filters (imc_interfaces cfg ! i)))
          (\<lambda>f q. if imc_filters (imc_interfaces cfg ! i) ! f = 0 then q else fq_at q (imc_filters (imc_interfaces cfg ! i) ! f)) qs)
          (im_filter s)\<rparr>)"

subsection \<open>Router\<close>

record router_init_config =
  roi_filters :: "u16 list list"
  roi_rx_free :: "u16 list"
  roi_tx_active :: "u16 list"
  roi_arp_queue :: "u16 list"
  roi_arp_cache :: "u16 list"
  roi_packet_queue :: "u16 list"
  roi_packet_queue_mapped :: "bool list"
  roi_icmp :: u16
  roi_routing_table :: u16
  roi_initial_routes :: "fw_routing_entry list"
  roi_num_initial_routes :: u8
  roi_webserver :: u16
  roi_webserver_mapped :: bool

definition router_init :: "fw_router_config \<Rightarrow> router_init_config \<Rightarrow> router \<Rightarrow> router option" where
  "router_init cfg ic st =
     (let n = Fw_Router.num_interfaces cfg in do {
        c_assert (list_all (\<lambda>i. roi_packet_queue_mapped ic ! i) [0..<n]);
        routes \<leftarrow> fw_routing_table_init (rtab_entries (ro_routes st)) (roi_routing_table ic) (roi_initial_routes ic)
          (roi_num_initial_routes ic);
        c_assert (roi_webserver_mapped ic);
        Some (st\<lparr>ro_filters := update_upto n (\<lambda>i. update_upto (unat (ri_num_filters (iface cfg i)))
                    (\<lambda>f q. fq_at q (roi_filters ic ! i ! f))) (ro_filters st),
                 ro_rx_free := update_upto n (\<lambda>i q. fq_at q (roi_rx_free ic ! i)) (ro_rx_free st),
                 ro_tx_active := update_upto n (\<lambda>i q. fq_at q (roi_tx_active ic ! i)) (ro_tx_active st),
                 ro_webserver := fq_at (ro_webserver st) (roi_webserver ic),
                 ro_icmp := fq_at (ro_icmp st) (roi_icmp ic),
                 ro_arp_req := update_upto n (\<lambda>i q. fq_at q (roi_arp_queue ic ! i)) (ro_arp_req st),
                 ro_arp_resp := update_upto n (\<lambda>i q. fq_at q (roi_arp_queue ic ! i)) (ro_arp_resp st),
                 ro_arp_table := update_upto n (\<lambda>i t. fw_arp_table_init (at_entries t) (roi_arp_cache ic ! i)) (ro_arp_table st),
                 ro_waiting := update_upto n (\<lambda>i pw. pkt_waiting_init pw (pw_packets pw) (roi_packet_queue ic ! i)) (ro_waiting st),
                 ro_routes := routes\<rparr>)
      })"

subsection \<open>Virtualisers\<close>

text \<open>\<open>drv_buffers\<close> and the capacities are those of the configuration.\<close>

definition virt_rx_init :: "'q net_ops \<Rightarrow> 'q net_init \<Rightarrow> fw_net_virt_rx_config \<Rightarrow> bool \<Rightarrow> u64 \<Rightarrow> u16 list \<Rightarrow> 'q virt_rx
    \<Rightarrow> 'q virt_rx option" where
  "virt_rx_init N I cfg magic drv_buffers free_capacity s = do {
     c_assert magic;
     let drv = net_buffers_init I (net_queue_init I (vr_drv s) drv_buffers) (vrc_io_addr cfg);
         s1 = s\<lparr>vr_drv := drv,
                vr_clients := update_upto (num_clients cfg) (\<lambda>i q. net_queue_init I q (vrc_capacities cfg ! i)) (vr_clients s),
                vr_free := update_upto (length (vr_free s)) (\<lambda>i q. fq_at q (free_capacity ! i)) (vr_free s)\<rparr>
     in Some (if net_require_signal_free N drv
        then s1\<lparr>vr_drv := net_cancel_signal_free N drv, vr_deferred := vr_deferred s1 @ [vrc_driver_id cfg]\<rparr> else s1)
   }"

definition virt_tx_init :: "'q net_ops \<Rightarrow> 'q net_init \<Rightarrow> fw_net_virt_tx_config \<Rightarrow> bool \<Rightarrow> u64 \<Rightarrow> u16 list \<Rightarrow> u16 list
    \<Rightarrow> 'q virt_tx \<Rightarrow> 'q virt_tx option" where
  "virt_tx_init N I cfg magic drv_buffers active_capacity free_capacity s = do {
     c_assert magic;
     tx_provide N cfg (s\<lparr>vt_drv := net_queue_init I (vt_drv s) drv_buffers,
       vt_clients := update_upto (length (vtc_clients cfg)) (\<lambda>i q. net_queue_init I q (vtx_capacity (vtc_clients cfg ! i)))
         (vt_clients s),
       vt_fw_active := update_upto (length (vt_fw_active s)) (\<lambda>i q. fq_at q (active_capacity ! i)) (vt_fw_active s),
       vt_fw_free := update_upto (length (vt_fw_free s)) (\<lambda>i q. fq_at q (free_capacity ! i)) (vt_fw_free s)\<rparr>)
   }"

subsection \<open>Zeroed memory\<close>

text \<open>What sDDF promises of the two functions: a queue over zeroed memory (\<open>fresh\<close>) is empty, and
  \<open>net_buffers_init\<close> makes every buffer of the data region free.\<close>

definition net_init_laws :: "'q net_init \<Rightarrow> 'q net_view \<Rightarrow> ('q \<Rightarrow> bool) \<Rightarrow> u64 \<Rightarrow> bool" where
  "net_init_laws I V fresh buffer_size \<longleftrightarrow>
     (\<forall>q n. fresh q \<longrightarrow> nv_ok V (net_queue_init I q n) \<and> nv_free V (net_queue_init I q n) = [] \<and>
        nv_active V (net_queue_init I q n) = [] \<and> nv_room V (net_queue_init I q n) = unat n) \<and>
     (\<forall>q base. nv_ok V q \<and> nv_free V q = [] \<and> nv_active V q = [] \<longrightarrow> nv_ok V (net_buffers_init I q base) \<and>
        nv_free V (net_buffers_init I q base) =
          map (\<lambda>i. \<lparr>io_or_offset = base + of_nat i * buffer_size, nb_len = 0\<rparr>) [0..<nv_room V q] \<and>
        nv_active V (net_buffers_init I q base) = [] \<and> nv_room V (net_buffers_init I q base) = nv_room V q)"

lemma net_init_fits:
  assumes "net_init_laws I V fresh sz" "fresh q"
  shows "net_fits V (net_queue_init I q n)" "net_fits V (net_buffers_init I (net_queue_init I q n) base)"
    "nv_active V (net_queue_init I q n) = []"
    "nv_free V (net_buffers_init I (net_queue_init I q n) base) =
      map (\<lambda>i. \<lparr>io_or_offset = base + of_nat i * sz, nb_len = 0\<rparr>) [0..<unat n]"
  using assms by (simp_all add: net_init_laws_def net_fits_def)

definition fresh_queue :: "'e fw_queue \<Rightarrow> u16 \<Rightarrow> bool" where
  "fresh_queue q capacity \<longleftrightarrow> fq_idx q = \<lparr>idx_tail = 0, idx_head = 0\<rparr> \<and> length (fq_entries q) = unat capacity \<and>
     0 < unat capacity \<and> unat capacity dvd 2 ^ 64"

lemma fq_at_fresh: "fresh_queue q cap \<Longrightarrow> wf_fw_queue (fq_at q cap) \<and> fq_contents (fq_at q cap) = []"
  by (simp add: fresh_queue_def fq_at_def fw_queue_init_def wf_fw_queue_def fq_contents_def fq_count_def unat_ucast_up)

lemma arp_table_fresh:
  "\<forall>e \<in> set es. ae_state e = ARP_STATE_INVALID \<Longrightarrow> length es = unat cap \<Longrightarrow> wf_arp (fw_arp_table_init es cap)"
  by (auto simp: wf_arp_def fw_arp_table_init_def)

text \<open>The memory of the requester and of the router before \<open>init\<close>.\<close>

definition requester_fresh :: "('q \<Rightarrow> bool) \<Rightarrow> fw_arp_requester_config \<Rightarrow> arp_init_config \<Rightarrow> 'q arp_requester \<Rightarrow> bool" where
  "requester_fresh fresh cfg ic s \<longleftrightarrow> aic_magic ic \<and> fresh (ar_rx s) \<and> fresh (ar_tx s) \<and>
     num_arp_clients cfg \<le> length (ar_req s) \<and> num_arp_clients cfg \<le> length (ar_resp s) \<and>
     num_arp_clients cfg \<le> length (ar_notify_client s) \<and>
     (\<forall>c < num_arp_clients cfg. fresh_queue (ar_req s ! c) (aic_client_capacity ic ! c) \<and>
        fresh_queue (ar_resp s ! c) (aic_client_capacity ic ! c)) \<and>
     (\<forall>e \<in> set (at_entries (ar_table s)). ae_state e = ARP_STATE_INVALID) \<and>
     length (at_entries (ar_table s)) = unat (aic_cache_capacity ic)"

lemma arp_requester_starts:
  assumes "net_init_laws I V fresh sz" "requester_fresh fresh cfg ic s"
  shows "\<exists>t. arp_requester_init I cfg ic s = Some t \<and> requester_ok V cfg t \<and>
    (\<forall>ip. arp_lookup (ar_table t) ip = None) \<and> ar_ticks t = ar_ticks s"
proof -
  let ?t = "the (arp_requester_init I cfg ic s)"
  have t: "arp_requester_init I cfg ic s = Some ?t" using assms(2) by (simp add: arp_requester_init_def requester_fresh_def)
  have "requester_ok V cfg ?t"
    using assms(2) net_init_fits(1,2) [OF assms(1)]
    by (simp add: arp_requester_init_def requester_fresh_def requester_ok_def fq_at_fresh arp_table_fresh)
  moreover have "find_index (entry_for ip) (arp_slots (ar_table ?t)) = None" for ip
    using assms(2)
    by (auto simp: find_index_None_iff arp_requester_init_def requester_fresh_def arp_slots_def fw_arp_table_init_def
      entry_for_def dest: in_set_takeD)
  then have "arp_lookup (ar_table ?t) ip = None" for ip
    by (simp add: arp_lookup_def fw_arp_table_find_entry_def)
  moreover have "ar_ticks ?t = ar_ticks s" using assms(2) by (simp add: arp_requester_init_def requester_fresh_def)
  ultimately show ?thesis using t by blast
qed

definition router_fresh :: "fw_router_config \<Rightarrow> router_init_config \<Rightarrow> router \<Rightarrow> bool" where
  "router_fresh cfg ic st \<longleftrightarrow>
     (let n = Fw_Router.num_interfaces cfg in
      n \<le> FW_MAX_INTERFACES \<and> wf_macs cfg \<and> roi_webserver_mapped ic \<and> (\<forall>i < n. roi_packet_queue_mapped ic ! i) \<and>
      length (ro_rx_free st) = FW_MAX_INTERFACES \<and> length (ro_tx_active st) = FW_MAX_INTERFACES \<and>
      length (ro_data st) = FW_MAX_INTERFACES \<and> length (ro_arp_req st) = FW_MAX_INTERFACES \<and>
      length (ro_arp_resp st) = FW_MAX_INTERFACES \<and> length (ro_waiting st) = FW_MAX_INTERFACES \<and>
      length (ro_filters st) = FW_MAX_INTERFACES \<and> length (ro_arp_table st) = FW_MAX_INTERFACES \<and>
      (\<forall>i < n. fresh_queue (ro_rx_free st ! i) (roi_rx_free ic ! i) \<and> fresh_queue (ro_tx_active st ! i) (roi_tx_active ic ! i) \<and>
         fresh_queue (ro_arp_req st ! i) (roi_arp_queue ic ! i) \<and> fresh_queue (ro_arp_resp st ! i) (roi_arp_queue ic ! i) \<and>
         pw_size (ro_waiting st ! i) = 0 \<and> pw_length (ro_waiting st ! i) = 0 \<and> pw_free (ro_waiting st ! i) = 0 \<and>
         length (pw_packets (ro_waiting st ! i)) = unat (roi_packet_queue ic ! i) \<and>
         length (ro_filters st ! i) = unat (ri_num_filters (iface cfg i)) \<and>
         (\<forall>f < length (ro_filters st ! i). fresh_queue (ro_filters st ! i ! f) (roi_filters ic ! i ! f)) \<and>
         (\<forall>e \<in> set (at_entries (ro_arp_table st ! i)). length (ae_mac_addr e) = ETH_HWADDR_LEN)) \<and>
      fresh_queue (ro_webserver st) (roi_webserver ic) \<and> fresh_queue (ro_icmp st) (roi_icmp ic) \<and>
      length (rtab_entries (ro_routes st)) = unat (roi_routing_table ic) \<and>
      (\<forall>r \<in> set (roi_initial_routes ic). unat (re_interface r) < n))"

lemma waiting_fresh:
  assumes "pw_size pw = 0" "pw_length pw = 0" "pw_free pw = 0" "length packets = unat cap"
  shows "wf_waiting (pkt_waiting_init pw packets cap)" "waiting_bag (pkt_waiting_init pw packets cap) = {#}"
  using init_represents [OF assms] represents_bag by (auto simp: wf_waiting_iff)

text \<open>C21: a router that starts on zeroed memory, with initial routes that neither clash nor overflow the table, is in a
  state in which the router is safe: its queues are empty, no packet waits, and the routing table holds exactly
  the initial routes, with the host bits of their addresses cleared.\<close>

theorem router_starts:
  assumes "router_fresh cfg ic st" "router_init cfg ic st = Some t"
  shows "router_ok cfg t \<and> wf_routes (ro_routes t) \<and>
    routes (ro_routes t) = map (\<lambda>r. r\<lparr>re_ip := subnet_mask (re_subnet r) AND re_ip r\<rparr>)
      (take (unat (roi_num_initial_routes ic)) (roi_initial_routes ic)) \<and>
    (\<forall>i < Fw_Router.num_interfaces cfg. waiting_bag (ro_waiting t ! i) = {#} \<and>
      fq_contents (ro_rx_free t ! i) = [] \<and> fq_contents (ro_tx_active t ! i) = [])"
proof -
  let ?n = "Fw_Router.num_interfaces cfg"
  have fr: "?n \<le> FW_MAX_INTERFACES" "length (rtab_entries (ro_routes st)) = unat (roi_routing_table ic)"
    "\<forall>r \<in> set (roi_initial_routes ic). unat (re_interface r) < ?n"
    using assms(1) by (simp_all add: router_fresh_def Let_def)
  obtain rt where rt: "fw_routing_table_init (rtab_entries (ro_routes st)) (roi_routing_table ic) (roi_initial_routes ic)
      (roi_num_initial_routes ic) = Some rt"
    using assms(2) by (auto simp: router_init_def Let_def split: bind_split_asm if_splits)
  have routes: "ro_routes t = rt" using assms(2) rt by (auto simp: router_init_def Let_def split: if_splits)
  note wf = fw_routing_table_init_wf [OF fr(2) rt]
  have "unat (re_interface e) < ?n" if "e \<in> set (routes rt)" for e
    using that fr(3) wf by (auto dest: in_set_takeD)
  then have ok: "router_ok cfg t"
    using assms fr(1) rt
    by (auto simp: router_fresh_def router_init_def router_ok_def Let_def fq_at_fresh waiting_fresh fw_arp_table_init_def
      in_set_conv_nth split: if_splits)
  have "waiting_bag (ro_waiting t ! i) = {#} \<and> fq_contents (ro_rx_free t ! i) = [] \<and> fq_contents (ro_tx_active t ! i) = []"
    if "i < ?n" for i
    using assms fr(1) rt that
    by (auto simp: router_fresh_def router_init_def Let_def fq_at_fresh waiting_fresh split: if_splits)
  then show ?thesis using ok wf routes by simp
qed

text \<open>A router with one interface and one route.\<close>

definition ex_blank_router :: router where
  "ex_blank_router = ex_router\<lparr>ro_filters := replicate 4 [ring_of ex_net_buffer []],
     ro_waiting := replicate 4 (ex_waiting\<lparr>pw_packets := [ex_node, ex_node]\<rparr>)\<rparr>"

definition ex_router_init :: router_init_config where
  "ex_router_init = \<lparr>roi_filters = [[4]], roi_rx_free = [4], roi_tx_active = [4], roi_arp_queue = [4], roi_arp_cache = [1],
     roi_packet_queue = [2], roi_packet_queue_mapped = [True], roi_icmp = 4, roi_routing_table = 1,
     roi_initial_routes = [\<lparr>re_ip = 0x0100000A, re_subnet = 8, re_interface = 0, re_next_hop = 0\<rparr>],
     roi_num_initial_routes = 1, roi_webserver = 4, roi_webserver_mapped = True\<rparr>"

theorem router_starts_witness:
  "\<exists>t. router_init ex_cfg ex_router_init ex_blank_router = Some t \<and> router_ok ex_cfg t \<and> length (routes (ro_routes t)) = 1"
proof -
  have ring: "fresh_queue (ring_of d []) 4" for d :: 'e by (simp add: fresh_queue_def ring_of_def)
  have "wf_macs ex_cfg \<and> Fw_Router.num_interfaces ex_cfg = 1" using ex_router_ok by (simp add: router_ok_def ex_n)
  then have "router_fresh ex_cfg ex_router_init ex_blank_router"
    by (simp add: router_fresh_def Let_def ex_blank_router_def ex_router_def ex_router_init_def ring FW_MAX_INTERFACES_def
      ex_waiting_def ETH_HWADDR_LEN_def ex_neighbour_def) (simp add: ex_cfg_def ex_route_table_def)
  moreover have "router_init ex_cfg ex_router_init ex_blank_router \<noteq> None"
    by (simp add: router_init_def Let_def ex_n ex_router_init_def ex_blank_router_def ex_router_def ex_route_table_def
      fw_routing_table_init_def fw_routing_table_add_route_def routes_def)
  ultimately show ?thesis using router_starts [of ex_cfg ex_router_init ex_blank_router]
    by (fastforce simp: ex_router_init_def)
qed

end
