(* ===== verification/Coroutine.thy ===== *)
theory Coroutine
  imports Fw_Array "HOL-Library.Multiset"
begin

text \<open>
  Request handlers that give up control in the middle, as the file system servers have them: a
  cooperative thread of the FAT server that waits for the disk, a request of the NFS server that waits
  for its callback. A handler started in a state either finishes, or fails (an assertion, memory
  overrun), or asks a library for an answer that it gets at once, or suspends with what is left of it
  as a function of the answer it waits for and of the state it is resumed in. Handlers of several
  requests interleave at their suspensions; the answers are arbitrary.

  The second part is the proof principle: what a suspended handler holds (a descriptor it has an
  operation on, a file structure) is a ghost resource, an invariant relates the state to the
  resources of all suspended handlers, and it is enough to show for one handler at a time that each of
  its segments keeps the invariant.
\<close>

datatype ('s, 'c, 'r, 'out, 'f) co =
    Failed 's 'f
  | Return 's 'out
  | Ask 'c "'r \<Rightarrow> ('s, 'c, 'r, 'out, 'f) co"
  | Suspend 's 'c "'r \<Rightarrow> 's \<Rightarrow> ('s, 'c, 'r, 'out, 'f) co"

subsection \<open>Interleaving\<close>

datatype ('s, 'c, 'r, 'out, 'f) world =
    Running 's "('r \<Rightarrow> 's \<Rightarrow> ('s, 'c, 'r, 'out, 'f) co) list"
  | Crashed 's 'f

text \<open>A handler runs until it stops, next to the suspended ones; immediate answers are taken one by one.\<close>

inductive continues :: "('s, 'c, 'r, 'out, 'f) co \<Rightarrow> ('r \<Rightarrow> 's \<Rightarrow> ('s, 'c, 'r, 'out, 'f) co) list
    \<Rightarrow> ('s, 'c, 'r, 'out, 'f) world \<Rightarrow> bool" where
  continues_failed: "continues (Failed s f) ts (Crashed s f)"
| continues_return: "continues (Return s out) ts (Running s ts)"
| continues_suspend: "continues (Suspend s c k) ts (Running s (ts @ [k]))"
| continues_ask: "continues (k r) ts w \<Longrightarrow> continues (Ask c k) ts w"

text \<open>One step: a request is started while there is a free place for it, or a suspended handler is
  resumed with an answer, or the environment changes the state (the client writes to shared memory).\<close>

inductive co_step :: "('a \<Rightarrow> 's \<Rightarrow> ('s, 'c, 'r, 'out, 'f) co) \<Rightarrow> ('s \<Rightarrow> 's \<Rightarrow> bool) \<Rightarrow> nat
    \<Rightarrow> ('s, 'c, 'r, 'out, 'f) world \<Rightarrow> ('s, 'c, 'r, 'out, 'f) world \<Rightarrow> bool"
  for handler :: "'a \<Rightarrow> 's \<Rightarrow> ('s, 'c, 'r, 'out, 'f) co" and interf :: "'s \<Rightarrow> 's \<Rightarrow> bool" and cap :: nat where
  step_start: "length ts < cap \<Longrightarrow> continues (handler a s) ts w \<Longrightarrow>
    co_step handler interf cap (Running s ts) w"
| step_resume: "i < length ts \<Longrightarrow> continues ((ts ! i) r s) (remove_nth i ts) w \<Longrightarrow>
    co_step handler interf cap (Running s ts) w"
| step_interf: "interf s s' \<Longrightarrow> co_step handler interf cap (Running s ts) (Running s' ts)"

abbreviation co_reachable where
  "co_reachable handler interf cap \<equiv> (co_step handler interf cap)\<^sup>*\<^sup>*"

text \<open>What a handler can return and which calls it can make, over all answers and all states it may be
  resumed in.\<close>

inductive may_return :: "('s, 'c, 'r, 'out, 'f) co \<Rightarrow> 'out \<Rightarrow> bool" where
  "may_return (Return s out) out"
| "may_return (k r) out \<Longrightarrow> may_return (Ask c k) out"
| "may_return (k r s') out \<Longrightarrow> may_return (Suspend s c k) out"

inductive_simps may_return_simps [simp]:
  "may_return (Failed s f) out"
  "may_return (Return s out') out"
  "may_return (Ask c k) out"
  "may_return (Suspend s c k) out"

inductive may_call :: "('s, 'c, 'r, 'out, 'f) co \<Rightarrow> 'c \<Rightarrow> bool" where
  "may_call (Ask c k) c"
| "may_call (Suspend s c k) c"
| "may_call (k r) c' \<Longrightarrow> may_call (Ask c k) c'"
| "may_call (k r s') c' \<Longrightarrow> may_call (Suspend s c k) c'"

inductive_simps may_call_simps [simp]:
  "may_call (Failed s f) c"
  "may_call (Return s out) c"
  "may_call (Ask c' k) c"
  "may_call (Suspend s c' k) c"

subsection \<open>Handlers that keep an invariant\<close>

text \<open>\<open>good Inv ok R co\<close>: with \<open>R\<close> the resources of the other suspended handlers, the handler stops with
  the invariant restored, or fails in a way that \<open>ok\<close> describes; if it suspends it holds one resource,
  and it is good again whenever it is resumed in a state that satisfies the invariant.\<close>

inductive good :: "('s \<Rightarrow> 'res multiset \<Rightarrow> bool) \<Rightarrow> ('s \<Rightarrow> 'f \<Rightarrow> bool) \<Rightarrow> 'res multiset
    \<Rightarrow> ('s, 'c, 'r, 'out, 'f) co \<Rightarrow> bool"
  for Inv :: "'s \<Rightarrow> 'res multiset \<Rightarrow> bool" and ok :: "'s \<Rightarrow> 'f \<Rightarrow> bool" where
  good_failed: "ok s f \<Longrightarrow> good Inv ok R (Failed s f)"
| good_return: "Inv s R \<Longrightarrow> good Inv ok R (Return s out)"
| good_ask: "(\<And>r. good Inv ok R (k r)) \<Longrightarrow> good Inv ok R (Ask c k)"
| good_suspend: "Inv s (add_mset x R) \<Longrightarrow>
    (\<And>r s' R'. Inv s' (add_mset x R') \<Longrightarrow> good Inv ok R' (k r s')) \<Longrightarrow>
    good Inv ok R (Suspend s c k)"

inductive_cases good_failedE: "good Inv ok R (Failed s f)"
inductive_cases good_returnE: "good Inv ok R (Return s out)"
inductive_cases good_suspendE: "good Inv ok R (Suspend s c k)"
inductive_cases good_askE: "good Inv ok R (Ask c k)"

locale cothreads =
  fixes Inv :: "'s \<Rightarrow> 'res multiset \<Rightarrow> bool"
    and ok :: "'s \<Rightarrow> 'f \<Rightarrow> bool"
    and handler :: "'a \<Rightarrow> 's \<Rightarrow> ('s, 'c, 'r, 'out, 'f) co"
    and interf :: "'s \<Rightarrow> 's \<Rightarrow> bool"
    and cap :: nat
  assumes start: "Inv s R \<Longrightarrow> size R < cap \<Longrightarrow> good Inv ok R (handler a s)"
    and interference: "Inv s R \<Longrightarrow> interf s s' \<Longrightarrow> Inv s' R"
begin

definition holds :: "'res \<Rightarrow> ('r \<Rightarrow> 's \<Rightarrow> ('s, 'c, 'r, 'out, 'f) co) \<Rightarrow> bool" where
  "holds x k \<longleftrightarrow> (\<forall>r s R. Inv s (add_mset x R) \<longrightarrow> good Inv ok R (k r s))"

fun world_ok :: "('s, 'c, 'r, 'out, 'f) world \<Rightarrow> bool" where
  "world_ok (Crashed s f) = ok s f"
| "world_ok (Running s ts) = (\<exists>xs. Inv s (mset xs) \<and> list_all2 holds xs ts)"

lemma continues_ok:
  assumes "continues co ts w" "good Inv ok (mset xs) co" "list_all2 holds xs ts"
  shows "world_ok w"
  using assms
proof (induction rule: continues.induct)
  case (continues_suspend s c k ts)
  from continues_suspend(1) obtain x where x: "Inv s (add_mset x (mset xs))"
    "\<And>r s' R'. Inv s' (add_mset x R') \<Longrightarrow> good Inv ok R' (k r s')"
    by (elim good_suspendE) blast
  have "holds x k" using x(2) by (simp add: holds_def)
  then have "list_all2 holds (xs @ [x]) (ts @ [k])" using continues_suspend(2) by (simp add: list_all2_appendI)
  moreover have "Inv s (mset (xs @ [x]))" using x(1) by simp
  ultimately show ?case unfolding world_ok.simps by blast
qed (auto elim: good_failedE good_returnE good_askE)

lemma list_all2_remove_nth:
  "list_all2 P xs ys \<Longrightarrow> list_all2 P (remove_nth i xs) (remove_nth i ys)"
  by (simp add: remove_nth_def list_all2_appendI list_all2_takeI list_all2_dropI)

lemma mset_remove_nth: "i < length xs \<Longrightarrow> mset xs = add_mset (xs ! i) (mset (remove_nth i xs))"
proof -
  assume i: "i < length xs"
  have "mset xs = mset (take i xs @ xs ! i # drop (Suc i) xs)" using i by (simp add: id_take_nth_drop [symmetric])
  then show ?thesis by (simp add: remove_nth_def)
qed

lemma step_ok:
  assumes "co_step handler interf cap w w'" "world_ok w"
  shows "world_ok w'"
  using assms
proof cases
  case (step_start ts a s)
  then obtain xs where xs: "Inv s (mset xs)" "list_all2 holds xs ts" using assms(2) by auto
  have "size (mset xs) < cap" using xs(2) step_start(2) by (simp add: list_all2_lengthD)
  from continues_ok [OF step_start(3) start [OF xs(1) this] xs(2)] show ?thesis .
next
  case (step_resume i ts r s)
  then obtain xs where xs: "Inv s (mset xs)" "list_all2 holds xs ts" using assms(2) by auto
  have i: "i < length xs" using xs(2) step_resume(2) by (simp add: list_all2_lengthD)
  have "holds (xs ! i) (ts ! i)" using xs(2) i by (rule list_all2_nthD)
  then have "good Inv ok (mset (remove_nth i xs)) ((ts ! i) r s)"
    using xs(1) mset_remove_nth [OF i] by (simp add: holds_def)
  from continues_ok [OF step_resume(3) this list_all2_remove_nth [OF xs(2)]] show ?thesis .
next
  case (step_interf s s' ts)
  then show ?thesis using assms(2) interference by auto
qed

lemma reachable_ok:
  assumes "co_reachable handler interf cap w w'" "world_ok w"
  shows "world_ok w'"
  using assms by (induction rule: rtranclp_induct) (auto intro: step_ok)

lemma init_ok: "Inv s {#} \<Longrightarrow> world_ok (Running s [])"
  by (auto intro: exI [of _ "[]"])

text \<open>In every reachable world the invariant holds for the resources of the suspended handlers.\<close>

lemma reachable_invariant:
  assumes "co_reachable handler interf cap (Running s []) w" "Inv s {#}"
  shows "case w of Crashed s' f \<Rightarrow> ok s' f | Running s' ts \<Rightarrow> \<exists>R. size R = length ts \<and> Inv s' R"
proof -
  have w: "world_ok w" by (rule reachable_ok [OF assms(1) init_ok [OF assms(2)]])
  show ?thesis
  proof (cases w)
    case (Running s' ts)
    with w obtain xs where "Inv s' (mset xs)" "list_all2 holds xs ts" by auto
    then have "size (mset xs) = length ts \<and> Inv s' (mset xs)" by (simp add: list_all2_lengthD)
    with Running show ?thesis unfolding Running world.case by blast
  qed (use w in simp)
qed

end

end
