(* ===== verification/Fs_Protocol.thy ===== *)
theory Fs_Protocol
  imports Prelude
begin

text \<open>
  \<open>include/lions/fs/protocol.h\<close>: the messages between a file system client and a file system
  server, the status codes, and the queue both directions use. Every field of a message is a
  64-bit word, so the union of the parameter structures is the list of its six words, read through
  one accessor per structure; the union of the completion data is one word.
\<close>

subsection \<open>Constants\<close>

definition FS_QUEUE_CAPACITY :: nat where "FS_QUEUE_CAPACITY = 511"
definition FS_MAX_NAME_LENGTH :: nat where "FS_MAX_NAME_LENGTH = 255"
definition FS_MAX_PATH_LENGTH :: nat where "FS_MAX_PATH_LENGTH = 4095"

definition FS_OPEN_FLAGS_READ_ONLY :: u64 where "FS_OPEN_FLAGS_READ_ONLY = 0"
definition FS_OPEN_FLAGS_WRITE_ONLY :: u64 where "FS_OPEN_FLAGS_WRITE_ONLY = 1"
definition FS_OPEN_FLAGS_READ_WRITE :: u64 where "FS_OPEN_FLAGS_READ_WRITE = 2"
definition FS_OPEN_FLAGS_CREATE :: u64 where "FS_OPEN_FLAGS_CREATE = 4"

datatype fs_status =
    FS_STATUS_SUCCESS
  | FS_STATUS_ERROR
  | FS_STATUS_INVALID_BUFFER
  | FS_STATUS_INVALID_PATH
  | FS_STATUS_INVALID_FD
  | FS_STATUS_ALLOCATION_ERROR
  | FS_STATUS_OUTSTANDING_OPERATIONS
  | FS_STATUS_INVALID_NAME
  | FS_STATUS_TOO_MANY_OPEN_FILES
  | FS_STATUS_SERVER_WAS_DENIED
  | FS_STATUS_INVALID_WRITE
  | FS_STATUS_INVALID_READ
  | FS_STATUS_DIRECTORY_IS_FULL
  | FS_STATUS_INVALID_COMMAND
  | FS_STATUS_END_OF_DIRECTORY
  | FS_STATUS_NO_FILE
  | FS_STATUS_NOT_DIRECTORY
  | FS_STATUS_ALREADY_EXISTS
  | FS_STATUS_NOT_EMPTY

fun status_code :: "fs_status \<Rightarrow> u64" where
  "status_code FS_STATUS_SUCCESS = 0"
| "status_code FS_STATUS_ERROR = 1"
| "status_code FS_STATUS_INVALID_BUFFER = 2"
| "status_code FS_STATUS_INVALID_PATH = 3"
| "status_code FS_STATUS_INVALID_FD = 4"
| "status_code FS_STATUS_ALLOCATION_ERROR = 5"
| "status_code FS_STATUS_OUTSTANDING_OPERATIONS = 6"
| "status_code FS_STATUS_INVALID_NAME = 7"
| "status_code FS_STATUS_TOO_MANY_OPEN_FILES = 8"
| "status_code FS_STATUS_SERVER_WAS_DENIED = 9"
| "status_code FS_STATUS_INVALID_WRITE = 10"
| "status_code FS_STATUS_INVALID_READ = 11"
| "status_code FS_STATUS_DIRECTORY_IS_FULL = 12"
| "status_code FS_STATUS_INVALID_COMMAND = 13"
| "status_code FS_STATUS_END_OF_DIRECTORY = 14"
| "status_code FS_STATUS_NO_FILE = 15"
| "status_code FS_STATUS_NOT_DIRECTORY = 16"
| "status_code FS_STATUS_ALREADY_EXISTS = 17"
| "status_code FS_STATUS_NOT_EMPTY = 18"

datatype fs_cmd_type =
    FS_CMD_INITIALISE
  | FS_CMD_DEINITIALISE
  | FS_CMD_FILE_OPEN
  | FS_CMD_FILE_CLOSE
  | FS_CMD_STAT
  | FS_CMD_FILE_READ
  | FS_CMD_FILE_WRITE
  | FS_CMD_FILE_SIZE
  | FS_CMD_RENAME
  | FS_CMD_FILE_REMOVE
  | FS_CMD_FILE_TRUNCATE
  | FS_CMD_DIR_CREATE
  | FS_CMD_DIR_REMOVE
  | FS_CMD_DIR_OPEN
  | FS_CMD_DIR_CLOSE
  | FS_CMD_FILE_SYNC
  | FS_CMD_DIR_READ
  | FS_CMD_DIR_SEEK
  | FS_CMD_DIR_TELL
  | FS_CMD_DIR_REWIND

text \<open>The commands in the order of the enumeration; the number of a command is its position.\<close>

definition fs_commands :: "fs_cmd_type list" where
  "fs_commands = [FS_CMD_INITIALISE, FS_CMD_DEINITIALISE, FS_CMD_FILE_OPEN, FS_CMD_FILE_CLOSE,
     FS_CMD_STAT, FS_CMD_FILE_READ, FS_CMD_FILE_WRITE, FS_CMD_FILE_SIZE, FS_CMD_RENAME,
     FS_CMD_FILE_REMOVE, FS_CMD_FILE_TRUNCATE, FS_CMD_DIR_CREATE, FS_CMD_DIR_REMOVE,
     FS_CMD_DIR_OPEN, FS_CMD_DIR_CLOSE, FS_CMD_FILE_SYNC, FS_CMD_DIR_READ, FS_CMD_DIR_SEEK,
     FS_CMD_DIR_TELL, FS_CMD_DIR_REWIND]"

definition FS_NUM_COMMANDS :: u64 where "FS_NUM_COMMANDS = 20"

definition cmd_type_of :: "u64 \<Rightarrow> fs_cmd_type" where
  "cmd_type_of n = fs_commands ! unat n"

subsection \<open>Messages\<close>

record fs_stat =
  st_dev :: u64
  st_ino :: u64
  st_mode :: u64
  st_nlink :: u64
  st_uid :: u64
  st_gid :: u64
  st_rdev :: u64
  st_size :: u64
  st_blksize :: u64
  st_blocks :: u64
  st_atime :: u64
  st_mtime :: u64
  st_ctime :: u64
  st_atime_nsec :: u64
  st_mtime_nsec :: u64
  st_ctime_nsec :: u64
  st_used :: u64

definition sizeof_fs_stat :: u64 where "sizeof_fs_stat = 136"

record fs_buffer =
  buf_offset :: u64
  buf_size :: u64

type_synonym fs_cmd_params = "u64 list"

definition buffer_at :: "nat \<Rightarrow> fs_cmd_params \<Rightarrow> fs_buffer" where
  "buffer_at i p = \<lparr>buf_offset = p ! i, buf_size = p ! (i + 1)\<rparr>"

record params_file_open =
  fo_path :: fs_buffer
  fo_flags :: u64

definition file_open_params :: "fs_cmd_params \<Rightarrow> params_file_open" where
  "file_open_params p = \<lparr>fo_path = buffer_at 0 p, fo_flags = p ! 2\<rparr>"

record params_stat =
  sp_path :: fs_buffer
  sp_buf :: fs_buffer

definition stat_params :: "fs_cmd_params \<Rightarrow> params_stat" where
  "stat_params p = \<lparr>sp_path = buffer_at 0 p, sp_buf = buffer_at 2 p\<rparr>"

text \<open>The read and the write parameters have the same fields.\<close>

record params_file_io =
  io_fd :: u64
  io_offset :: u64
  io_buf :: fs_buffer

definition file_read_params :: "fs_cmd_params \<Rightarrow> params_file_io" where
  "file_read_params p = \<lparr>io_fd = p ! 0, io_offset = p ! 1, io_buf = buffer_at 2 p\<rparr>"

definition file_write_params :: "fs_cmd_params \<Rightarrow> params_file_io" where
  "file_write_params p = \<lparr>io_fd = p ! 0, io_offset = p ! 1, io_buf = buffer_at 2 p\<rparr>"

record params_rename =
  rn_old_path :: fs_buffer
  rn_new_path :: fs_buffer

definition rename_params :: "fs_cmd_params \<Rightarrow> params_rename" where
  "rename_params p = \<lparr>rn_old_path = buffer_at 0 p, rn_new_path = buffer_at 2 p\<rparr>"

text \<open>The structures whose only field is a path, and those whose first field is a descriptor.\<close>

definition file_remove_path :: "fs_cmd_params \<Rightarrow> fs_buffer" where "file_remove_path = buffer_at 0"
definition dir_create_path :: "fs_cmd_params \<Rightarrow> fs_buffer" where "dir_create_path = buffer_at 0"
definition dir_remove_path :: "fs_cmd_params \<Rightarrow> fs_buffer" where "dir_remove_path = buffer_at 0"
definition dir_open_path :: "fs_cmd_params \<Rightarrow> fs_buffer" where "dir_open_path = buffer_at 0"

definition file_close_fd :: "fs_cmd_params \<Rightarrow> u64" where "file_close_fd p = p ! 0"
definition file_size_fd :: "fs_cmd_params \<Rightarrow> u64" where "file_size_fd p = p ! 0"
definition file_sync_fd :: "fs_cmd_params \<Rightarrow> u64" where "file_sync_fd p = p ! 0"
definition dir_close_fd :: "fs_cmd_params \<Rightarrow> u64" where "dir_close_fd p = p ! 0"
definition dir_tell_fd :: "fs_cmd_params \<Rightarrow> u64" where "dir_tell_fd p = p ! 0"
definition dir_rewind_fd :: "fs_cmd_params \<Rightarrow> u64" where "dir_rewind_fd p = p ! 0"

record params_file_truncate =
  ft_fd :: u64
  ft_length :: u64

definition file_truncate_params :: "fs_cmd_params \<Rightarrow> params_file_truncate" where
  "file_truncate_params p = \<lparr>ft_fd = p ! 0, ft_length = p ! 1\<rparr>"

record params_dir_read =
  dr_fd :: u64
  dr_buf :: fs_buffer

definition dir_read_params :: "fs_cmd_params \<Rightarrow> params_dir_read" where
  "dir_read_params p = \<lparr>dr_fd = p ! 0, dr_buf = buffer_at 1 p\<rparr>"

record params_dir_seek =
  ds_fd :: u64
  ds_loc :: int

definition dir_seek_params :: "fs_cmd_params \<Rightarrow> params_dir_seek" where
  "dir_seek_params p = \<lparr>ds_fd = p ! 0, ds_loc = sint (p ! 1)\<rparr>"

record fs_cmd =
  cmd_id :: u64
  cmd_type :: u64
  cmd_params :: fs_cmd_params

record fs_cmpl =
  cmpl_id :: u64
  cmpl_status :: u64
  cmpl_data :: u64

subsection \<open>The queue\<close>

record 'm fs_queue =
  fsq_head :: u64
  fsq_tail :: u64
  fsq_buffer :: "'m list"

definition fs_queue_length_consumer :: "'m fs_queue \<Rightarrow> u64" where
  "fs_queue_length_consumer q = fsq_tail q - fsq_head q"

definition fs_queue_length_producer :: "'m fs_queue \<Rightarrow> u64" where
  "fs_queue_length_producer q = fsq_tail q - fsq_head q"

text \<open>The position of a message in the buffer, and the message there.\<close>

definition fs_queue_idx_filled :: "'m fs_queue \<Rightarrow> u64 \<Rightarrow> nat" where
  "fs_queue_idx_filled q i = unat ((fsq_head q + i) mod of_nat FS_QUEUE_CAPACITY)"

definition fs_queue_idx_empty :: "'m fs_queue \<Rightarrow> u64 \<Rightarrow> nat" where
  "fs_queue_idx_empty q i = unat ((fsq_tail q + i) mod of_nat FS_QUEUE_CAPACITY)"

definition fs_queue_publish_consumption :: "'m fs_queue \<Rightarrow> u64 \<Rightarrow> 'm fs_queue" where
  "fs_queue_publish_consumption q n = q\<lparr>fsq_head := fsq_head q + n\<rparr>"

definition fs_queue_publish_production :: "'m fs_queue \<Rightarrow> u64 \<Rightarrow> 'm fs_queue" where
  "fs_queue_publish_production q n = q\<lparr>fsq_tail := fsq_tail q + n\<rparr>"

definition fsq_read :: "'m fs_queue \<Rightarrow> u64 \<Rightarrow> 'm" where
  "fsq_read q i = fsq_buffer q ! fs_queue_idx_filled q i"

definition fsq_write :: "'m fs_queue \<Rightarrow> u64 \<Rightarrow> 'm \<Rightarrow> 'm fs_queue" where
  "fsq_write q i m = q\<lparr>fsq_buffer := (fsq_buffer q)[fs_queue_idx_empty q i := m]\<rparr>"

definition fs_status_to_str :: "u64 \<Rightarrow> string" where
  "fs_status_to_str s =
     (if s = status_code FS_STATUS_SUCCESS then ''operation succeeded''
      else if s = status_code FS_STATUS_ERROR then ''operation failed for unspecified reason''
      else if s = status_code FS_STATUS_INVALID_BUFFER then ''client-provided buffer is invalid''
      else if s = status_code FS_STATUS_INVALID_PATH then ''client-provided path or path buffer is invalid''
      else if s = status_code FS_STATUS_INVALID_FD then ''invalid file descriptor provided by client''
      else if s = status_code FS_STATUS_ALLOCATION_ERROR then ''server failed to allocate''
      else if s = status_code FS_STATUS_OUTSTANDING_OPERATIONS
        then ''failed to close file descriptor because it had other unfinished outstanding operations''
      else if s = status_code FS_STATUS_INVALID_NAME then ''client-provided file name is invalid''
      else if s = status_code FS_STATUS_TOO_MANY_OPEN_FILES then ''server has reached its limit of open files''
      else if s = status_code FS_STATUS_SERVER_WAS_DENIED then ''server was denied by backing device or protocol''
      else if s = status_code FS_STATUS_INVALID_WRITE
        then ''cannot write to file that is opened without write permissions''
      else if s = status_code FS_STATUS_INVALID_READ
        then ''cannot read from file that is opened without read permissions''
      else if s = status_code FS_STATUS_DIRECTORY_IS_FULL then ''could not create file as directory is full''
      else if s = status_code FS_STATUS_INVALID_COMMAND then ''command type is invalid''
      else if s = status_code FS_STATUS_END_OF_DIRECTORY then ''end of directory''
      else if s = status_code FS_STATUS_NOT_DIRECTORY then ''path is not a directory''
      else if s = status_code FS_STATUS_ALREADY_EXISTS then ''file or directory already exists''
      else if s = status_code FS_STATUS_NOT_EMPTY then ''directory is not empty''
      else ''invalid status code'')"

subsection \<open>What the queue holds\<close>

definition fsq_count :: "'m fs_queue \<Rightarrow> nat" where
  "fsq_count q = unat (fsq_tail q - fsq_head q)"

definition fsq_contents :: "'m fs_queue \<Rightarrow> 'm list" where
  "fsq_contents q = map (\<lambda>i. fsq_buffer q ! ((unat (fsq_head q) + i) mod FS_QUEUE_CAPACITY)) [0..<fsq_count q]"

text \<open>The capacity does not divide \<open>2 ^ 64\<close>, so the position of a message is only consistent as long
  as the tail has not wrapped around.\<close>

definition wf_fsq :: "'m fs_queue \<Rightarrow> bool" where
  "wf_fsq q \<longleftrightarrow> length (fsq_buffer q) = FS_QUEUE_CAPACITY \<and> fsq_head q \<le> fsq_tail q \<and>
     fsq_count q \<le> FS_QUEUE_CAPACITY"

lemma unat_capacity [simp]: "unat (of_nat FS_QUEUE_CAPACITY :: u64) = 511"
  by (simp add: FS_QUEUE_CAPACITY_def)

lemma wf_fsq_count: "wf_fsq q \<Longrightarrow> unat (fsq_tail q) = unat (fsq_head q) + fsq_count q"
  by (simp add: wf_fsq_def fsq_count_def unat_sub word_le_nat_alt)

lemma length_fsq_contents [simp]: "length (fsq_contents q) = fsq_count q"
  by (simp add: fsq_contents_def)

lemma fsq_length_count: "unat (fs_queue_length_consumer q) = fsq_count q" "unat (fs_queue_length_producer q) = fsq_count q"
  by (simp_all add: fs_queue_length_consumer_def fs_queue_length_producer_def fsq_count_def)

lemma idx_filled_nat:
  assumes "unat (fsq_head q) + unat i < 2 ^ 64"
  shows "fs_queue_idx_filled q i = (unat (fsq_head q) + unat i) mod FS_QUEUE_CAPACITY"
  using assms by (simp add: fs_queue_idx_filled_def unat_mod_distrib unat_add_nowrap FS_QUEUE_CAPACITY_def)

lemma idx_empty_nat:
  assumes "unat (fsq_tail q) + unat i < 2 ^ 64"
  shows "fs_queue_idx_empty q i = (unat (fsq_tail q) + unat i) mod FS_QUEUE_CAPACITY"
  using assms by (simp add: fs_queue_idx_empty_def unat_mod_distrib unat_add_nowrap FS_QUEUE_CAPACITY_def)

text \<open>Reading the message at an index below the count.\<close>

lemma fsq_read_nth:
  assumes "wf_fsq q" "unat i < fsq_count q"
  shows "fsq_read q i = fsq_contents q ! unat i"
proof -
  have "unat (fsq_head q) + unat i < 2 ^ 64"
    using wf_fsq_count [OF assms(1)] assms(2) unat_u64_less [of "fsq_tail q"] by simp
  then show ?thesis using assms(2) by (simp add: fsq_read_def idx_filled_nat fsq_contents_def)
qed

text \<open>Consuming drops the oldest messages.\<close>

lemma fsq_consume:
  assumes wf: "wf_fsq q" and n: "unat n \<le> fsq_count q"
  shows "wf_fsq (fs_queue_publish_consumption q n)"
    "fsq_contents (fs_queue_publish_consumption q n) = drop (unat n) (fsq_contents q)"
    "fsq_count (fs_queue_publish_consumption q n) = fsq_count q - unat n"
proof -
  have h: "unat (fsq_head q + n) = unat (fsq_head q) + unat n"
    using wf_fsq_count [OF wf] n unat_u64_less [of "fsq_tail q"] by (simp add: unat_add_nowrap)
  then have le: "fsq_head q + n \<le> fsq_tail q" using wf_fsq_count [OF wf] n by (simp add: word_le_nat_alt)
  show c: "fsq_count (fs_queue_publish_consumption q n) = fsq_count q - unat n"
    using le h wf_fsq_count [OF wf] by (simp add: fsq_count_def fs_queue_publish_consumption_def unat_sub)
  show "wf_fsq (fs_queue_publish_consumption q n)"
    unfolding wf_fsq_def c using wf le le_trans [OF diff_le_self]
    by (auto simp: wf_fsq_def fs_queue_publish_consumption_def)
  show "fsq_contents (fs_queue_publish_consumption q n) = drop (unat n) (fsq_contents q)"
  proof (rule nth_equalityI)
    show "length (fsq_contents (fs_queue_publish_consumption q n)) = length (drop (unat n) (fsq_contents q))"
      by (simp add: c)
    fix i assume "i < length (fsq_contents (fs_queue_publish_consumption q n))"
    then have "i < fsq_count q - unat n" by (simp add: c)
    then show "fsq_contents (fs_queue_publish_consumption q n) ! i = drop (unat n) (fsq_contents q) ! i"
      by (simp add: fsq_contents_def c) (simp add: fs_queue_publish_consumption_def h add.assoc)
  qed
qed

text \<open>Producing one message behind the others.\<close>

lemma fsq_produce:
  assumes wf: "wf_fsq q" and room: "fsq_count q < FS_QUEUE_CAPACITY" and nw: "Suc (unat (fsq_tail q)) < 2 ^ 64"
  shows "wf_fsq (fs_queue_publish_production (fsq_write q 0 m) 1)"
    "fsq_contents (fs_queue_publish_production (fsq_write q 0 m) 1) = fsq_contents q @ [m]"
    "fsq_count (fs_queue_publish_production (fsq_write q 0 m) 1) = Suc (fsq_count q)"
    "unat (fsq_tail (fs_queue_publish_production (fsq_write q 0 m) 1)) = Suc (unat (fsq_tail q))"
proof -
  let ?q = "fs_queue_publish_production (fsq_write q 0 m) 1"
  have t: "unat (fsq_tail q + 1) = Suc (unat (fsq_tail q))" using nw by (simp add: unat_Suc_nowrap)
  then show "unat (fsq_tail ?q) = Suc (unat (fsq_tail q))" by (simp add: fs_queue_publish_production_def fsq_write_def)
  have le: "fsq_head q \<le> fsq_tail q + 1" using wf t by (simp add: wf_fsq_def word_le_nat_alt)
  show c: "fsq_count ?q = Suc (fsq_count q)"
    using le t wf_fsq_count [OF wf]
    by (simp add: fsq_count_def fs_queue_publish_production_def fsq_write_def unat_sub)
  show "wf_fsq ?q"
    unfolding wf_fsq_def c using wf le room
    by (simp add: wf_fsq_def fs_queue_publish_production_def fsq_write_def)
  have slot: "fs_queue_idx_empty q 0 = (unat (fsq_head q) + fsq_count q) mod FS_QUEUE_CAPACITY"
    using idx_empty_nat [of q 0] wf_fsq_count [OF wf] unat_u64_less [of "fsq_tail q"] by simp
  have len: "length (fsq_buffer q) = FS_QUEUE_CAPACITY" using wf by (simp add: wf_fsq_def)
  have pos: "0 < FS_QUEUE_CAPACITY" by (simp add: FS_QUEUE_CAPACITY_def)
  show "fsq_contents ?q = fsq_contents q @ [m]"
  proof (rule nth_equalityI)
    show "length (fsq_contents ?q) = length (fsq_contents q @ [m])" using c by simp
    fix i assume "i < length (fsq_contents ?q)"
    then have i: "i < Suc (fsq_count q)" using c by simp
    have e: "fsq_contents ?q ! i = (fsq_buffer q)[fs_queue_idx_empty q 0 := m] ! ((unat (fsq_head q) + i) mod FS_QUEUE_CAPACITY)"
      using i c by (simp add: fsq_contents_def del: upt_Suc) (simp add: fs_queue_publish_production_def fsq_write_def)
    show "fsq_contents ?q ! i = (fsq_contents q @ [m]) ! i"
    proof (cases "i = fsq_count q")
      case True
      then show ?thesis using e slot len pos by (simp add: nth_append)
    next
      case False
      then have "i < fsq_count q" using i by simp
      moreover have "(unat (fsq_head q) + fsq_count q) mod FS_QUEUE_CAPACITY \<noteq> (unat (fsq_head q) + i) mod FS_QUEUE_CAPACITY"
        using mod_shift_inj [of "unat (fsq_head q)" "fsq_count q" FS_QUEUE_CAPACITY i] room \<open>i < fsq_count q\<close> by auto
      ultimately show ?thesis using e slot by (simp add: nth_append fsq_contents_def)
    qed
  qed
qed

text \<open>A batch as the servers produce it: message \<open>i\<close> is written \<open>i\<close> places behind the tail, and the
  tail is published once for all of them.\<close>

fun fsq_fill :: "u64 \<Rightarrow> 'm list \<Rightarrow> 'm fs_queue \<Rightarrow> 'm fs_queue" where
  "fsq_fill i [] q = q"
| "fsq_fill i (m # ms) q = fsq_fill (i + 1) ms (fsq_write q i m)"

definition fsq_produce_batch :: "'m list \<Rightarrow> 'm fs_queue \<Rightarrow> 'm fs_queue" where
  "fsq_produce_batch ms q = fs_queue_publish_production (fsq_fill 0 ms q) (of_nat (length ms))"

definition fsq_consume_batch :: "nat \<Rightarrow> 'm fs_queue \<Rightarrow> 'm list \<times> 'm fs_queue" where
  "fsq_consume_batch n q =
     (map (\<lambda>i. fsq_read q (of_nat i)) [0..<n], fs_queue_publish_consumption q (of_nat n))"

lemma fsq_write_publish:
  "fs_queue_publish_production (fsq_write q i m) j = fsq_write (fs_queue_publish_production q j) (i - j) m"
  by (simp add: fs_queue_publish_production_def fsq_write_def fs_queue_idx_empty_def)

lemma fsq_fill_shift:
  "fs_queue_publish_production (fsq_fill (i + 1) ms q) 1 = fsq_fill i ms (fs_queue_publish_production q 1)"
proof (induction ms arbitrary: i q)
  case Nil
  show ?case by simp
next
  case (Cons m ms)
  have "fs_queue_publish_production (fsq_fill (i + 1 + 1) ms (fsq_write q (i + 1) m)) 1 =
      fsq_fill (i + 1) ms (fs_queue_publish_production (fsq_write q (i + 1) m) 1)"
    by (rule Cons.IH)
  then show ?case by (simp add: fsq_write_publish)
qed

lemma publish_publish:
  "fs_queue_publish_production (fs_queue_publish_production q a) b = fs_queue_publish_production q (a + b)"
  by (simp add: fs_queue_publish_production_def add.assoc)

text \<open>Producing a batch is producing its messages one after the other.\<close>

lemma produce_batch_Cons:
  "fsq_produce_batch (m # ms) q = fsq_produce_batch ms (fs_queue_publish_production (fsq_write q 0 m) 1)"
proof -
  have "fsq_produce_batch (m # ms) q =
      fs_queue_publish_production (fs_queue_publish_production (fsq_fill (0 + 1) ms (fsq_write q 0 m)) 1) (of_nat (length ms))"
    by (simp add: fsq_produce_batch_def publish_publish)
  also have "\<dots> = fsq_produce_batch ms (fs_queue_publish_production (fsq_write q 0 m) 1)"
    by (simp only: fsq_fill_shift fsq_produce_batch_def)
  finally show ?thesis .
qed

lemma fsq_produce_batch_appends:
  assumes "wf_fsq q" "fsq_count q + length ms \<le> FS_QUEUE_CAPACITY" "unat (fsq_tail q) + length ms < 2 ^ 64"
  shows "wf_fsq (fsq_produce_batch ms q) \<and> fsq_contents (fsq_produce_batch ms q) = fsq_contents q @ ms"
  using assms
proof (induction ms arbitrary: q)
  case Nil
  then show ?case by (simp add: fsq_produce_batch_def fs_queue_publish_production_def)
next
  case (Cons m ms)
  note p = fsq_produce [of q m]
  show ?case
    unfolding produce_batch_Cons
    using Cons.IH [of "fs_queue_publish_production (fsq_write q 0 m) 1"] Cons.prems p by simp
qed

lemma fsq_consume_batch_takes:
  assumes wf: "wf_fsq q" and n: "n \<le> fsq_count q"
  shows "fst (fsq_consume_batch n q) = take n (fsq_contents q) \<and> wf_fsq (snd (fsq_consume_batch n q)) \<and>
    fsq_contents (snd (fsq_consume_batch n q)) = drop n (fsq_contents q)"
proof -
  have u: "unat (of_nat i :: u64) = i" if "i \<le> n" for i
    using that n unat_u64_less [of "fsq_tail q"] wf_fsq_count [OF wf] by (simp add: unat_of_nat)
  have "map (\<lambda>i. fsq_read q (of_nat i)) [0..<n] = take n (fsq_contents q)"
  proof (rule nth_equalityI)
    show "length (map (\<lambda>i. fsq_read q (of_nat i)) [0..<n]) = length (take n (fsq_contents q))" using n by simp
    fix i assume "i < length (map (\<lambda>i. fsq_read q (of_nat i)) [0..<n])"
    then have i: "i < n" by simp
    then show "map (\<lambda>i. fsq_read q (of_nat i)) [0..<n] ! i = take n (fsq_contents q) ! i"
      using fsq_read_nth [OF wf, of "of_nat i"] u [of i] n by simp
  qed
  with fsq_consume [OF wf, of "of_nat n"] u [of n] n show ?thesis by (simp add: fsq_consume_batch_def)
qed

subsection \<open>Properties\<close>

lemma fs_queue_fifo_batches_parts:
  assumes "wf_fsq q" "fsq_count q + length ms \<le> FS_QUEUE_CAPACITY" "unat (fsq_tail q) + length ms < 2 ^ 64"
    and "n \<le> fsq_count q + length ms"
  shows "fsq_consume_batch n (fsq_produce_batch ms q) =
    (take n (fsq_contents q @ ms), snd (fsq_consume_batch n (fsq_produce_batch ms q)))"
    and "wf_fsq (snd (fsq_consume_batch n (fsq_produce_batch ms q)))"
    and "fsq_contents (snd (fsq_consume_batch n (fsq_produce_batch ms q))) = drop n (fsq_contents q @ ms)"
proof -
  note p = fsq_produce_batch_appends [OF assms(1-3)]
  have "n \<le> fsq_count (fsq_produce_batch ms q)"
    using p assms(4) by (metis length_append length_fsq_contents)
  then have c: "fst (fsq_consume_batch n (fsq_produce_batch ms q)) = take n (fsq_contents q @ ms)"
    "wf_fsq (snd (fsq_consume_batch n (fsq_produce_batch ms q)))"
    "fsq_contents (snd (fsq_consume_batch n (fsq_produce_batch ms q))) = drop n (fsq_contents q @ ms)"
    using fsq_consume_batch_takes [of "fsq_produce_batch ms q" n] p by simp_all
  then show "fsq_consume_batch n (fsq_produce_batch ms q) =
    (take n (fsq_contents q @ ms), snd (fsq_consume_batch n (fsq_produce_batch ms q)))"
    "wf_fsq (snd (fsq_consume_batch n (fsq_produce_batch ms q)))"
    "fsq_contents (snd (fsq_consume_batch n (fsq_produce_batch ms q))) = drop n (fsq_contents q @ ms)"
    by (simp_all add: prod_eq_iff)
qed

text \<open>the queue is a first-in first-out buffer of 511 messages for whole batches, as long as the
  tail does not wrap around: a batch that fits is appended in order by writing its messages behind the
  tail and publishing the tail once, and the first messages of the queue are read in order through
  their index and then removed.\<close>

theorem fs_queue_fifo_batches:
  assumes "wf_fsq q" "fsq_count q + length ms \<le> FS_QUEUE_CAPACITY" "unat (fsq_tail q) + length ms < 2 ^ 64"
    and "n \<le> fsq_count q + length ms"
  shows "fst (fsq_consume_batch n (fsq_produce_batch ms q)) = take n (fsq_contents q @ ms) \<and>
    wf_fsq (snd (fsq_consume_batch n (fsq_produce_batch ms q))) \<and>
    fsq_contents (snd (fsq_consume_batch n (fsq_produce_batch ms q))) = drop n (fsq_contents q @ ms)"
  using fs_queue_fifo_batches_parts [OF assms] by (metis fst_conv)


definition ex_fsq :: "nat fs_queue" where
  "ex_fsq = \<lparr>fsq_head = 509, fsq_tail = 510, fsq_buffer = (replicate 511 0)[509 := 7]\<rparr>"

lemma ex_fsq_wf: "wf_fsq ex_fsq" "fsq_contents ex_fsq = [7]" "fsq_count ex_fsq = 1" "unat (fsq_tail ex_fsq) = 510"
  by (simp_all add: ex_fsq_def wf_fsq_def fsq_contents_def fsq_count_def FS_QUEUE_CAPACITY_def)

theorem fs_queue_fifo_batches_witness:
  "fst (fsq_consume_batch 2 (fsq_produce_batch [8, 9] ex_fsq)) = [7, 8] \<and>
    fsq_contents (snd (fsq_consume_batch 2 (fsq_produce_batch [8, 9] ex_fsq))) = [9]"
  using fs_queue_fifo_batches [of ex_fsq "[8, 9]" 2] ex_fsq_wf by (simp add: FS_QUEUE_CAPACITY_def prod_eq_iff)

lemma status_texts:
  "fs_status_to_str 0 = ''operation succeeded''"
  "fs_status_to_str 1 = ''operation failed for unspecified reason''"
  "fs_status_to_str 2 = ''client-provided buffer is invalid''"
  "fs_status_to_str 3 = ''client-provided path or path buffer is invalid''"
  "fs_status_to_str 4 = ''invalid file descriptor provided by client''"
  "fs_status_to_str 5 = ''server failed to allocate''"
  "fs_status_to_str 6 = ''failed to close file descriptor because it had other unfinished outstanding operations''"
  "fs_status_to_str 7 = ''client-provided file name is invalid''"
  "fs_status_to_str 8 = ''server has reached its limit of open files''"
  "fs_status_to_str 9 = ''server was denied by backing device or protocol''"
  "fs_status_to_str 10 = ''cannot write to file that is opened without write permissions''"
  "fs_status_to_str 11 = ''cannot read from file that is opened without read permissions''"
  "fs_status_to_str 12 = ''could not create file as directory is full''"
  "fs_status_to_str 13 = ''command type is invalid''"
  "fs_status_to_str 14 = ''end of directory''"
  "fs_status_to_str 15 = ''invalid status code''"
  "fs_status_to_str 16 = ''path is not a directory''"
  "fs_status_to_str 17 = ''file or directory already exists''"
  "fs_status_to_str 18 = ''directory is not empty''"
  by (simp_all add: fs_status_to_str_def)

lemma fs_status_to_str_missing_file_parts:
  "fs_status_to_str (status_code FS_STATUS_NO_FILE) = ''invalid status code''"
  "fs_status_to_str (status_code s) = ''invalid status code'' \<longleftrightarrow> s = FS_STATUS_NO_FILE"
  "fs_status_to_str (status_code s) = fs_status_to_str (status_code t) \<longleftrightarrow> s = t"
proof -
  show "fs_status_to_str (status_code FS_STATUS_NO_FILE) = ''invalid status code''" by (simp add: status_texts)
  show "fs_status_to_str (status_code s) = ''invalid status code'' \<longleftrightarrow> s = FS_STATUS_NO_FILE"
    by (cases s) (simp_all add: status_texts)
  show "fs_status_to_str (status_code s) = fs_status_to_str (status_code t) \<longleftrightarrow> s = t"
    by (cases s; cases t) (simp_all add: status_texts)
qed

text \<open>The text of a status identifies it, and every status has one, except that a missing file
  (status 15) has no case in the switch: its text is the one of an unknown code.\<close>

theorem fs_status_to_str_missing_file:
  "fs_status_to_str (status_code FS_STATUS_NO_FILE) = ''invalid status code'' \<and>
   (fs_status_to_str (status_code s) = ''invalid status code'' \<longleftrightarrow> s = FS_STATUS_NO_FILE) \<and>
   (fs_status_to_str (status_code s) = fs_status_to_str (status_code t) \<longleftrightarrow> s = t)"
  by (intro conjI fs_status_to_str_missing_file_parts)

end
