(* ===== verification/Fs_Fd.thy ===== *)
theory Fs_Fd
  imports Fs_Protocol
begin

text \<open>
  The library of the file system servers: \<open>lib/fs/server/fd.c\<close>, the table of open files with its
  slot states, busy counts and generations, and \<open>lib/fs/server/memory.c\<close>, the checked access to the
  memory shared with the client. A handle is a pointer of the server, a parameter of the table;
  the null pointer is \<open>None\<close>. An operation that returns an error leaves the table as it is, so
  its error return is \<open>None\<close>.
\<close>

subsection \<open>Slots\<close>

datatype slot_state = state_free | state_allocated | state_open_file | state_open_dir
  | state_busy_file | state_busy_dir

record 'h oftable_slot =
  of_state :: slot_state
  of_handle :: "'h option"
  of_busy_count :: u64
  of_generation :: u64

type_synonym 'h oftable = "'h oftable_slot list"

definition MAX_OPEN_FILES :: nat where "MAX_OPEN_FILES = 256"

definition oftable_init :: "'h oftable" where
  "oftable_init = replicate MAX_OPEN_FILES
     \<lparr>of_state = state_free, of_handle = None, of_busy_count = 0, of_generation = 0\<rparr>"

definition of_alloc :: "'h oftable \<Rightarrow> (nat \<times> 'h oftable) option" where
  "of_alloc t = (case find_index (\<lambda>s. of_state s = state_free) t of
      None \<Rightarrow> None
    | Some i \<Rightarrow> Some (i, t[i := (t ! i)\<lparr>of_state := state_allocated\<rparr>]))"

fun of_free :: "'h oftable_slot \<Rightarrow> 'h oftable_slot option" where
  "of_free s = (case of_state s of
      state_allocated \<Rightarrow> Some (s\<lparr>of_state := state_free, of_generation := of_generation s + 1\<rparr>)
    | _ \<Rightarrow> None)"

fun of_set_file :: "'h option \<Rightarrow> 'h oftable_slot \<Rightarrow> 'h oftable_slot option" where
  "of_set_file h s = (case of_state s of
      state_allocated \<Rightarrow> Some (s\<lparr>of_state := state_open_file, of_handle := h\<rparr>)
    | _ \<Rightarrow> None)"

fun of_set_dir :: "'h option \<Rightarrow> 'h oftable_slot \<Rightarrow> 'h oftable_slot option" where
  "of_set_dir h s = (case of_state s of
      state_allocated \<Rightarrow> Some (s\<lparr>of_state := state_open_dir, of_handle := h\<rparr>)
    | _ \<Rightarrow> None)"

fun of_unset :: "'h oftable_slot \<Rightarrow> 'h oftable_slot option" where
  "of_unset s = (case of_state s of
      state_open_dir \<Rightarrow> Some (s\<lparr>of_state := state_allocated, of_handle := None\<rparr>)
    | state_open_file \<Rightarrow> Some (s\<lparr>of_state := state_allocated, of_handle := None\<rparr>)
    | _ \<Rightarrow> None)"

fun of_begin_op_file :: "'h oftable_slot \<Rightarrow> 'h oftable_slot option" where
  "of_begin_op_file s = (case of_state s of
      state_open_file \<Rightarrow> Some (s\<lparr>of_state := state_busy_file, of_busy_count := 1\<rparr>)
    | state_busy_file \<Rightarrow> Some (s\<lparr>of_busy_count := of_busy_count s + 1\<rparr>)
    | _ \<Rightarrow> None)"

fun of_begin_op_dir :: "'h oftable_slot \<Rightarrow> 'h oftable_slot option" where
  "of_begin_op_dir s = (case of_state s of
      state_open_dir \<Rightarrow> Some (s\<lparr>of_state := state_busy_dir, of_busy_count := 1\<rparr>)
    | state_busy_dir \<Rightarrow> Some (s\<lparr>of_busy_count := of_busy_count s + 1\<rparr>)
    | _ \<Rightarrow> None)"

fun of_end_op :: "'h oftable_slot \<Rightarrow> 'h oftable_slot option" where
  "of_end_op s = (case of_state s of
      state_busy_dir \<Rightarrow>
        (let s = s\<lparr>of_busy_count := of_busy_count s - 1\<rparr>
         in Some (if of_busy_count s = 0 then s\<lparr>of_state := state_open_dir\<rparr> else s))
    | state_busy_file \<Rightarrow>
        (let s = s\<lparr>of_busy_count := of_busy_count s - 1\<rparr>
         in Some (if of_busy_count s = 0 then s\<lparr>of_state := state_open_file\<rparr> else s))
    | _ \<Rightarrow> None)"

subsection \<open>Descriptors\<close>

type_synonym fd = u64

definition fd_index :: "fd \<Rightarrow> nat" where
  "fd_index fd = unat (fd mod of_nat MAX_OPEN_FILES)"

definition fd_generation :: "fd \<Rightarrow> u64" where
  "fd_generation fd = (fd - fd mod of_nat MAX_OPEN_FILES) div of_nat MAX_OPEN_FILES"

definition fd_to_of :: "'h oftable \<Rightarrow> fd \<Rightarrow> nat option" where
  "fd_to_of t fd =
     (if MAX_OPEN_FILES \<le> fd_index fd then None
      else if fd_generation fd < of_generation (t ! fd_index fd) then None
      else Some (fd_index fd))"

definition of_to_fd :: "'h oftable \<Rightarrow> nat \<Rightarrow> fd" where
  "of_to_fd t i = of_nat i + of_generation (t ! i) * of_nat MAX_OPEN_FILES"

definition fd_alloc :: "'h oftable \<Rightarrow> (fd \<times> 'h oftable) option" where
  "fd_alloc t = (case of_alloc t of None \<Rightarrow> None | Some (i, t') \<Rightarrow> Some (of_to_fd t' i, t'))"

text \<open>The other operations resolve the descriptor and update its slot.\<close>

definition on_slot :: "('h oftable_slot \<Rightarrow> 'h oftable_slot option) \<Rightarrow> 'h oftable \<Rightarrow> fd \<Rightarrow> 'h oftable option" where
  "on_slot f t fd = (case fd_to_of t fd of
      None \<Rightarrow> None
    | Some i \<Rightarrow> map_option (\<lambda>s. t[i := s]) (f (t ! i)))"

definition fd_free :: "'h oftable \<Rightarrow> fd \<Rightarrow> 'h oftable option" where
  "fd_free = on_slot of_free"

definition fd_set_file :: "'h oftable \<Rightarrow> fd \<Rightarrow> 'h option \<Rightarrow> 'h oftable option" where
  "fd_set_file t fd file = on_slot (of_set_file file) t fd"

definition fd_set_dir :: "'h oftable \<Rightarrow> fd \<Rightarrow> 'h option \<Rightarrow> 'h oftable option" where
  "fd_set_dir t fd dir = on_slot (of_set_dir dir) t fd"

definition fd_unset :: "'h oftable \<Rightarrow> fd \<Rightarrow> 'h oftable option" where
  "fd_unset = on_slot of_unset"

definition fd_begin_op_file :: "'h oftable \<Rightarrow> fd \<Rightarrow> ('h option \<times> 'h oftable) option" where
  "fd_begin_op_file t fd =
     map_option (\<lambda>t'. (of_handle (t ! fd_index fd), t')) (on_slot of_begin_op_file t fd)"

definition fd_begin_op_dir :: "'h oftable \<Rightarrow> fd \<Rightarrow> ('h option \<times> 'h oftable) option" where
  "fd_begin_op_dir t fd =
     map_option (\<lambda>t'. (of_handle (t ! fd_index fd), t')) (on_slot of_begin_op_dir t fd)"

text \<open>Here \<open>None\<close> is a failed assertion.\<close>

definition fd_end_op :: "'h oftable \<Rightarrow> fd \<Rightarrow> 'h oftable option" where
  "fd_end_op t fd = (case fd_to_of t fd of
      None \<Rightarrow> None
    | Some i \<Rightarrow> (case of_end_op (t ! i) of None \<Rightarrow> None | Some s \<Rightarrow> Some (t[i := s])))"

subsection \<open>Shared memory\<close>

type_synonym share = "u64 \<Rightarrow> u8"

text \<open>The result is the offset of the buffer in the share; the null pointer is \<open>None\<close>.\<close>

definition fs_get_client_buffer :: "u64 \<Rightarrow> fs_buffer \<Rightarrow> u64 option" where
  "fs_get_client_buffer share_size buf =
     (if share_size \<le> buf_offset buf \<or> share_size - buf_offset buf < buf_size buf \<or> buf_size buf = 0
      then None else Some (buf_offset buf))"

definition share_bytes :: "share \<Rightarrow> u64 \<Rightarrow> nat \<Rightarrow> u8 list" where
  "share_bytes mem off n = map (\<lambda>i. mem (off + of_nat i)) [0..<n]"

definition share_store :: "share \<Rightarrow> u64 \<Rightarrow> u8 list \<Rightarrow> share" where
  "share_store mem off bs =
     (\<lambda>a. if unat (a - off) < length bs then bs ! unat (a - off) else mem a)"

text \<open>The bytes written to the destination: the path and its terminator. A destination without room
  for them is overrun; the callers see to that.\<close>

definition fs_copy_client_path :: "share \<Rightarrow> u64 \<Rightarrow> fs_buffer \<Rightarrow> u8 list option" where
  "fs_copy_client_path mem share_size buf =
     (case fs_get_client_buffer share_size buf of
        None \<Rightarrow> None
      | Some off \<Rightarrow>
          if of_nat FS_MAX_PATH_LENGTH < buf_size buf then None
          else Some (share_bytes mem off (unat (buf_size buf)) @ [0]))"

subsection \<open>Facts on slots and descriptors\<close>

lemma fd_index_less [simp]: "fd_index fd < MAX_OPEN_FILES"
  using unat_mono [OF word_mod_less_divisor [of "of_nat MAX_OPEN_FILES" fd]]
  by (simp add: fd_index_def MAX_OPEN_FILES_def)

lemma unat_256 [simp]: "unat (of_nat MAX_OPEN_FILES :: u64) = 256"
  by (simp add: MAX_OPEN_FILES_def)

lemma unat_fd_generation: "unat (fd_generation fd) = unat fd div 256"
proof -
  have "fd mod of_nat MAX_OPEN_FILES \<le> fd"
    unfolding word_le_nat_alt unat_mod_distrib by simp
  then have "unat (fd_generation fd) = (unat fd - unat fd mod 256) div 256"
    by (simp add: fd_generation_def unat_div_distrib unat_sub unat_mod_distrib)
  then show ?thesis by (simp add: minus_mod_eq_mult_div)
qed

lemma fd_index_nat: "fd_index fd = unat fd mod 256"
  by (simp add: fd_index_def unat_mod_distrib)

lemma fd_to_of_Some: "fd_to_of t fd = Some i \<longleftrightarrow> i = fd_index fd \<and> of_generation (t ! fd_index fd) \<le> fd_generation fd"
proof -
  have "\<not> MAX_OPEN_FILES \<le> fd_index fd" using fd_index_less [of fd] by (simp only: not_le)
  then show ?thesis by (auto simp: fd_to_of_def not_less)
qed

text \<open>The descriptor of a slot leads back to the slot, while generations fit into 56 bits.\<close>

lemma of_to_fd_fields:
  assumes "i < MAX_OPEN_FILES" "unat (of_generation (t ! i)) < 2 ^ 56"
  shows "fd_index (of_to_fd t i) = i" "fd_generation (of_to_fd t i) = of_generation (t ! i)"
proof -
  have i: "i < 256" using assms(1) by (simp add: MAX_OPEN_FILES_def)
  then have ui: "unat (of_nat i :: u64) = i" by (simp add: unat_of_nat)
  have m: "unat (of_generation (t ! i) * of_nat MAX_OPEN_FILES) = unat (of_generation (t ! i)) * 256"
    using assms(2) by (subst unat_mult_lem [THEN iffD1]) simp_all
  have u: "unat (of_to_fd t i) = i + unat (of_generation (t ! i)) * 256"
    using i assms(2) ui m unfolding of_to_fd_def by (subst unat_add_nowrap) simp_all
  show "fd_index (of_to_fd t i) = i" using i by (simp add: fd_index_nat u)
  show "fd_generation (of_to_fd t i) = of_generation (t ! i)"
    by (rule word_unat_eq_iff [THEN iffD2]) (use i in \<open>simp add: unat_fd_generation u\<close>)
qed

lemma of_to_fd_resolves:
  assumes "i < MAX_OPEN_FILES" "unat (of_generation (t ! i)) < 2 ^ 56"
  shows "fd_to_of t (of_to_fd t i) = Some i"
  using of_to_fd_fields [OF assms] by (simp add: fd_to_of_Some)

subsection \<open>What a slot stands for\<close>

text \<open>A slot is free, reserved, or open on a file or a directory with a number of operations under
  way; the code's busy states and its busy count are one thing.\<close>

datatype open_kind = File | Dir

datatype 'h aslot = A_free | A_alloc | A_open open_kind "'h option" nat

definition abs_slot :: "'h oftable_slot \<Rightarrow> 'h aslot" where
  "abs_slot s = (case of_state s of
      state_free \<Rightarrow> A_free
    | state_allocated \<Rightarrow> A_alloc
    | state_open_file \<Rightarrow> A_open File (of_handle s) 0
    | state_open_dir \<Rightarrow> A_open Dir (of_handle s) 0
    | state_busy_file \<Rightarrow> A_open File (of_handle s) (unat (of_busy_count s))
    | state_busy_dir \<Rightarrow> A_open Dir (of_handle s) (unat (of_busy_count s)))"

definition wf_slot :: "'h oftable_slot \<Rightarrow> bool" where
  "wf_slot s \<longleftrightarrow> (of_state s = state_busy_file \<or> of_state s = state_busy_dir \<longrightarrow> of_busy_count s \<noteq> 0)"

datatype 'h slot_op = Op_free | Op_set open_kind "'h option" | Op_unset | Op_begin open_kind | Op_end

fun slot_apply :: "'h slot_op \<Rightarrow> 'h oftable_slot \<Rightarrow> 'h oftable_slot option" where
  "slot_apply Op_free = of_free"
| "slot_apply (Op_set File h) = of_set_file h"
| "slot_apply (Op_set Dir h) = of_set_dir h"
| "slot_apply Op_unset = of_unset"
| "slot_apply (Op_begin File) = of_begin_op_file"
| "slot_apply (Op_begin Dir) = of_begin_op_dir"
| "slot_apply Op_end = of_end_op"

fun aslot_apply :: "'h slot_op \<Rightarrow> 'h aslot \<Rightarrow> 'h aslot option" where
  "aslot_apply Op_free A_alloc = Some A_free"
| "aslot_apply (Op_set k h) A_alloc = Some (A_open k h 0)"
| "aslot_apply Op_unset (A_open k h 0) = Some A_alloc"
| "aslot_apply (Op_begin k) (A_open k' h n) = (if k = k' then Some (A_open k h (Suc n)) else None)"
| "aslot_apply Op_end (A_open k h (Suc n)) = Some (A_open k h n)"
| "aslot_apply _ _ = None"

definition aslot_count :: "'h aslot \<Rightarrow> nat" where
  "aslot_count a = (case a of A_open k h n \<Rightarrow> n | _ \<Rightarrow> 0)"

lemma busy_step:
  "x \<noteq> 0 \<Longrightarrow> unat (x - 1 :: u64) = unat x - 1"
  "Suc (unat x) < 2 ^ 64 \<Longrightarrow> unat (x + 1 :: u64) = Suc (unat x)"
  "Suc (unat x) < 2 ^ 64 \<Longrightarrow> (x :: u64) + 1 \<noteq> 0"
proof -
  show "x \<noteq> 0 \<Longrightarrow> unat (x - 1 :: u64) = unat x - 1" by (metis unat_sub unat_1 word_le_nat_alt unat_gt_0 Suc_leI One_nat_def)
  show s: "Suc (unat x) < 2 ^ 64 \<Longrightarrow> unat (x + 1 :: u64) = Suc (unat x)" by (simp add: unat_Suc_nowrap)
  show "Suc (unat x) < 2 ^ 64 \<Longrightarrow> (x :: u64) + 1 \<noteq> 0" using s by (metis nat.simps(3) unat_0)
qed

lemma slot_apply_refines:
  assumes wf: "wf_slot s" and n: "Suc (aslot_count (abs_slot s)) < 2 ^ 64"
  shows "map_option abs_slot (slot_apply opn s) = aslot_apply opn (abs_slot s)"
    and "slot_apply opn s = Some s' \<Longrightarrow> wf_slot s' \<and>
      of_generation s' = of_generation s + (if opn = Op_free then 1 else 0)"
proof -
  have c: "unat (of_busy_count s) = Suc (unat (of_busy_count s) - 1)" if "of_busy_count s \<noteq> 0"
    using that by (simp add: unat_gt_0)
  have z: "unat (of_busy_count s) - 1 = 0 \<longleftrightarrow> of_busy_count s - 1 = 0" if "of_busy_count s \<noteq> 0"
    using busy_step(1) [OF that] by (metis unat_eq_zero)
  show "map_option abs_slot (slot_apply opn s) = aslot_apply opn (abs_slot s)"
  proof (cases opn)
    case Op_end
    show ?thesis
    proof (cases "of_state s = state_busy_file \<or> of_state s = state_busy_dir")
      case True
      then have nz: "of_busy_count s \<noteq> 0" using wf by (auto simp: wf_slot_def)
      obtain k where k: "unat (of_busy_count s) = Suc k" "k = unat (of_busy_count s - 1)"
        using c [OF nz] busy_step(1) [OF nz] by metis
      from True Op_end k show ?thesis
        by (auto simp: abs_slot_def Let_def unat_eq_zero)
    next
      case False
      with Op_end show ?thesis by (cases "of_state s") (simp_all add: abs_slot_def)
    qed
  next
    case (Op_begin k)
    with n show ?thesis
      by (cases k; cases "of_state s") (simp_all add: abs_slot_def aslot_count_def busy_step(2))
  next
    case (Op_set k h)
    then show ?thesis by (cases k; cases "of_state s"; cases "unat (of_busy_count s)") (simp_all add: abs_slot_def)
  next
    case Op_unset
    have "unat (of_busy_count s) \<noteq> 0" if "of_state s = state_busy_file \<or> of_state s = state_busy_dir"
      using wf that by (auto simp: wf_slot_def unat_eq_zero)
    with Op_unset show ?thesis
      by (cases "of_state s"; cases "unat (of_busy_count s)") (simp_all add: abs_slot_def)
  next
    case Op_free
    then show ?thesis by (cases "of_state s") (simp_all add: abs_slot_def)
  qed
  show "wf_slot s' \<and> of_generation s' = of_generation s + (if opn = Op_free then 1 else 0)"
    if "slot_apply opn s = Some s'"
    using that wf n busy_step(3) [of "of_busy_count s"]
    by (cases opn rule: slot_apply.cases; cases "of_state s")
      (auto simp: wf_slot_def abs_slot_def aslot_count_def Let_def split: if_splits)
qed

text \<open>An operation through a descriptor on a table.\<close>

lemma on_slot_Some:
  "on_slot f t fd = Some t' \<longleftrightarrow> (\<exists>s. fd_to_of t fd = Some (fd_index fd) \<and> f (t ! fd_index fd) = Some s \<and> t' = t[fd_index fd := s])"
proof (cases "fd_to_of t fd")
  case None
  then show ?thesis by (simp add: on_slot_def)
next
  case (Some i)
  then have "i = fd_index fd" by (simp add: fd_to_of_Some)
  with Some show ?thesis by (auto simp: on_slot_def)
qed

lemma fd_end_op_on_slot: "fd_end_op = on_slot of_end_op"
  by (simp add: fun_eq_iff fd_end_op_def on_slot_def split: option.split)

lemma of_alloc_Some:
  assumes "of_alloc t = Some (i, t')"
  shows "i < length t \<and> of_state (t ! i) = state_free \<and> t' = t[i := (t ! i)\<lparr>of_state := state_allocated\<rparr>]"
proof -
  have f: "find_index (\<lambda>s. of_state s = state_free) t = Some i" "t' = t[i := (t ! i)\<lparr>of_state := state_allocated\<rparr>]"
    using assms by (simp_all add: of_alloc_def split: option.splits)
  show ?thesis using find_index_less [OF f(1)] find_index_holds [OF f(1)] f(2) by blast
qed

lemma of_alloc_None: "of_alloc t = None \<longleftrightarrow> (\<forall>s \<in> set t. of_state s \<noteq> state_free)"
  using find_index_None_iff [of "\<lambda>s. of_state s = state_free" t]
  by (cases "find_index (\<lambda>s. of_state s = state_free) t") (simp_all add: of_alloc_def)

definition wf_oftable :: "'h oftable \<Rightarrow> bool" where
  "wf_oftable t \<longleftrightarrow> length t = MAX_OPEN_FILES \<and>
     (\<forall>s \<in> set t. wf_slot s \<and> Suc (aslot_count (abs_slot s)) < 2 ^ 64)"

fun fd_step :: "'h slot_op \<Rightarrow> 'h oftable \<Rightarrow> fd \<Rightarrow> 'h oftable option" where
  "fd_step Op_free t fd = fd_free t fd"
| "fd_step (Op_set File h) t fd = fd_set_file t fd h"
| "fd_step (Op_set Dir h) t fd = fd_set_dir t fd h"
| "fd_step Op_unset t fd = fd_unset t fd"
| "fd_step (Op_begin File) t fd = map_option snd (fd_begin_op_file t fd)"
| "fd_step (Op_begin Dir) t fd = map_option snd (fd_begin_op_dir t fd)"
| "fd_step Op_end t fd = fd_end_op t fd"

lemma map_snd_pair: "map_option snd (map_option (Pair a) x) = x"
  by (cases x) auto

lemma fd_step_on_slot: "fd_step opn t fd = on_slot (slot_apply opn) t fd"
  by (cases opn rule: slot_apply.cases)
    (simp_all add: fd_free_def fd_set_file_def fd_set_dir_def fd_unset_def fd_begin_op_file_def
      fd_begin_op_dir_def fd_end_op_on_slot map_snd_pair)

lemma fd_index_length: "wf_oftable t \<Longrightarrow> fd_index fd < length t"
  by (simp add: wf_oftable_def)

lemma wf_oftable_nth: "wf_oftable t \<Longrightarrow> i < MAX_OPEN_FILES \<Longrightarrow> wf_slot (t ! i) \<and> Suc (aslot_count (abs_slot (t ! i))) < 2 ^ 64"
  by (simp add: wf_oftable_def)

lemma client_buffer_iff:
  "fs_get_client_buffer n buf = Some off \<longleftrightarrow>
    off = buf_offset buf \<and> 0 < unat (buf_size buf) \<and> unat (buf_offset buf) + unat (buf_size buf) \<le> unat n"
proof (cases "n \<le> buf_offset buf")
  case True
  then show ?thesis by (auto simp: fs_get_client_buffer_def word_le_nat_alt)
next
  case False
  then have le: "unat (buf_offset buf) \<le> unat n" by (simp add: word_le_nat_alt)
  have s: "unat (n - buf_offset buf) = unat n - unat (buf_offset buf)" using False by (intro unat_sub_le) simp
  have z: "buf_size buf = 0 \<longleftrightarrow> unat (buf_size buf) = 0" by (simp add: unat_eq_zero)
  have "fs_get_client_buffer n buf = Some off \<longleftrightarrow>
      off = buf_offset buf \<and> \<not> unat n - unat (buf_offset buf) < unat (buf_size buf) \<and> unat (buf_size buf) \<noteq> 0"
    using False unfolding fs_get_client_buffer_def z word_less_nat_alt s by auto
  with le show ?thesis by auto
qed

lemma client_path_iff:
  "fs_copy_client_path mem n buf = Some bs \<longleftrightarrow>
    0 < unat (buf_size buf) \<and> unat (buf_size buf) \<le> 4095 \<and> unat (buf_offset buf) + unat (buf_size buf) \<le> unat n \<and>
    bs = map (\<lambda>i. mem (buf_offset buf + of_nat i)) [0..<unat (buf_size buf)] @ [0]"
proof (cases "fs_get_client_buffer n buf")
  case None
  then show ?thesis using client_buffer_iff [of n buf "buf_offset buf"] by (auto simp: fs_copy_client_path_def)
next
  case (Some o')
  have "(of_nat FS_MAX_PATH_LENGTH < buf_size buf) = (4095 < unat (buf_size buf))"
    by (simp add: word_less_nat_alt FS_MAX_PATH_LENGTH_def)
  with Some client_buffer_iff [of n buf o'] show ?thesis by (auto simp: fs_copy_client_path_def share_bytes_def)
qed

subsection \<open>Properties\<close>

text \<open>C13: every operation on a descriptor acts on the slot of the descriptor as on a slot that is
  free, reserved, or open for a file or a directory with a number of operations under way: it
  succeeds exactly when that abstract slot allows it, has the abstract effect, and touches no other
  slot. In particular a descriptor with operations under way can be neither closed nor freed, and a
  descriptor of a file is refused for a directory operation.\<close>

theorem fd_operations_refine:
  assumes wf: "wf_oftable t"
  shows "case fd_step opn t fd of
      None \<Rightarrow> fd_to_of t fd = None \<or> aslot_apply opn (abs_slot (t ! fd_index fd)) = None
    | Some t' \<Rightarrow> fd_to_of t fd = Some (fd_index fd) \<and>
        aslot_apply opn (abs_slot (t ! fd_index fd)) = Some (abs_slot (t' ! fd_index fd)) \<and>
        wf_slot (t' ! fd_index fd) \<and> length t' = length t \<and> (\<forall>i. i \<noteq> fd_index fd \<longrightarrow> t' ! i = t ! i)"
proof -
  note s = slot_apply_refines [OF wf_oftable_nth [OF wf fd_index_less, THEN conjunct1]
      wf_oftable_nth [OF wf fd_index_less, THEN conjunct2]]
  show ?thesis
  proof (cases "fd_step opn t fd")
    case None
    then have "fd_to_of t fd = None \<or> slot_apply opn (t ! fd_index fd) = None"
      using on_slot_Some [of "slot_apply opn" t fd] by (auto simp: fd_step_on_slot fd_to_of_Some on_slot_def split: option.splits)
    with None s(1) [of opn fd] show ?thesis by auto
  next
    case (Some t')
    then obtain v where v: "fd_to_of t fd = Some (fd_index fd)" "slot_apply opn (t ! fd_index fd) = Some v"
      "t' = t[fd_index fd := v]"
      by (auto simp: fd_step_on_slot on_slot_Some)
    have "aslot_apply opn (abs_slot (t ! fd_index fd)) = Some (abs_slot v)"
      using s(1) [of opn fd] v(2) by simp
    with Some v s(2) [OF v(2)] fd_index_length [OF wf, of fd] show ?thesis by simp
  qed
qed

definition ex_slots :: "nat oftable" where
  "ex_slots = oftable_init[3 := \<lparr>of_state = state_busy_file, of_handle = Some 9, of_busy_count = 2, of_generation = 1\<rparr>]"

lemma ex_slots_wf: "wf_oftable ex_slots"
  by (auto simp: ex_slots_def wf_oftable_def oftable_init_def MAX_OPEN_FILES_def wf_slot_def abs_slot_def
      aslot_count_def dest!: set_update_subset_insert [THEN subsetD])

lemma ex_slots_3: "fd_index 259 = 3" "ex_slots ! 3 = \<lparr>of_state = state_busy_file, of_handle = Some 9, of_busy_count = 2, of_generation = 1\<rparr>"
  "fd_to_of ex_slots 259 = Some 3"
proof -
  show i: "fd_index 259 = 3" by (simp add: fd_index_nat)
  show s: "ex_slots ! 3 = \<lparr>of_state = state_busy_file, of_handle = Some 9, of_busy_count = 2, of_generation = 1\<rparr>"
    by (simp add: ex_slots_def oftable_init_def MAX_OPEN_FILES_def)
  show "fd_to_of ex_slots 259 = Some 3"
    by (simp add: fd_to_of_Some i s fd_generation_def MAX_OPEN_FILES_def)
qed

theorem fd_operations_refine_witness:
  "fd_step Op_unset ex_slots 259 = None \<and>
    (\<exists>t. fd_step Op_end ex_slots 259 = Some t \<and> abs_slot (t ! 3) = A_open File (Some 9) 1)"
proof
  have a: "abs_slot (ex_slots ! 3) = A_open File (Some 9) 2" by (simp add: ex_slots_3 abs_slot_def)
  have u: "aslot_apply Op_unset (A_open File (Some 9) 2) = (None :: nat aslot option)"
    "aslot_apply Op_end (A_open File (Some 9) 2) = (Some (A_open File (Some 9) 1) :: nat aslot option)"
    by (simp_all add: numeral_2_eq_2)
  show "fd_step Op_unset ex_slots 259 = None"
    using fd_operations_refine [OF ex_slots_wf, where opn = Op_unset and fd = 259] unfolding ex_slots_3(1) a u
    by (cases "fd_step Op_unset ex_slots 259") auto
  have "fd_step Op_end ex_slots 259 \<noteq> None"
    using ex_slots_3 by (simp add: fd_end_op_def)
  then show "\<exists>t. fd_step Op_end ex_slots 259 = Some t \<and> abs_slot (t ! 3) = A_open File (Some 9) 1"
    using fd_operations_refine [OF ex_slots_wf, where opn = Op_end and fd = 259] unfolding ex_slots_3(1) a u
    by (cases "fd_step Op_end ex_slots 259") auto
qed

text \<open>A descriptor that was allocated leads to its slot, and once it is freed every operation on
  it is refused, also after the slot is handed out again. The check is one-sided, though: a value
  that the server never handed out, with a later generation, is accepted for the same slot, before
  and after the descriptor is freed.\<close>

theorem fd_generation_check:
  assumes wf: "wf_oftable t" and alloc: "fd_alloc t = Some (fd, t1)"
    and gen: "\<forall>s \<in> set t. Suc (unat (of_generation s)) < 2 ^ 56"
  shows "fd_to_of t1 fd = Some (fd_index fd) \<and>
    (\<exists>t2. fd_free t1 fd = Some t2 \<and> fd_to_of t2 fd = None \<and> fd_step opn t2 fd = None \<and>
      fd_to_of t1 (fd + 256) = Some (fd_index fd) \<and> fd_to_of t2 (fd + 256) = Some (fd_index fd))"
proof -
  obtain i where i: "of_alloc t = Some (i, t1)" "fd = of_to_fd t1 i"
    using alloc by (auto simp: fd_alloc_def split: option.splits)
  note a = of_alloc_Some [OF i(1)]
  have len: "i < MAX_OPEN_FILES" "i < length t" using a wf by (auto simp: wf_oftable_def)
  let ?g = "of_generation (t ! i)"
  have g: "Suc (unat ?g) < 2 ^ 56" using gen len nth_mem by blast
  have g1: "of_generation (t1 ! i) = ?g" "of_state (t1 ! i) = state_allocated" using a by simp_all
  have fd: "fd_index fd = i" "fd_generation fd = ?g"
    using of_to_fd_fields [OF len(1), of t1] g g1 i(2) by simp_all
  define t2 where "t2 = t1[i := (t1 ! i)\<lparr>of_state := state_free, of_generation := ?g + 1\<rparr>]"
  have r1: "fd_to_of t1 fd = Some i" using fd g1 by (simp add: fd_to_of_Some)
  have free: "fd_free t1 fd = Some t2" using fd r1 g1 by (simp add: fd_free_def on_slot_Some t2_def)
  have g2: "of_generation (t2 ! i) = ?g + 1" using len a by (simp add: t2_def)
  have ug: "unat (?g + 1) = Suc (unat ?g)" using g by (simp add: unat_Suc_nowrap)
  have stale: "fd_to_of t2 fd = None"
    using fd g2 ug by (cases "fd_to_of t2 fd") (simp_all add: fd_to_of_Some word_le_nat_alt)
  have u: "unat fd = i + unat ?g * 256"
    using fd(1) arg_cong [OF fd(2), of unat] by (simp add: fd_index_nat unat_fd_generation) (metis mod_mult_div_eq mult.commute)
  have u': "unat (fd + 256) = unat fd + 256" using u g len(1) by (simp add: unat_add_nowrap MAX_OPEN_FILES_def)
  have f': "fd_index (fd + 256) = i" using fd(1) by (simp add: fd_index_nat u')
  have "unat (fd_generation (fd + 256)) = Suc (unat ?g)"
    using arg_cong [OF fd(2), of unat] by (simp add: unat_fd_generation u')
  then have "fd_to_of t1 (fd + 256) = Some i" "fd_to_of t2 (fd + 256) = Some i"
    using f' g1 g2 ug by (simp_all add: fd_to_of_Some word_le_nat_alt)
  moreover have "fd_step opn t2 fd = None" by (simp add: fd_step_on_slot on_slot_def stale)
  ultimately show ?thesis using r1 free stale fd(1) by blast
qed

theorem fd_generation_check_witness:
  "\<exists>t1. fd_alloc ex_slots = Some (0, t1) \<and> fd_to_of t1 256 = Some 0 \<and>
    (\<exists>t2. fd_free t1 0 = Some t2 \<and> fd_begin_op_file t2 0 = None \<and> fd_to_of t2 256 = Some 0)"
proof -
  obtain t1 where t1: "fd_alloc ex_slots = Some (0, t1)"
  proof -
    have "ex_slots ! 0 = \<lparr>of_state = state_free, of_handle = None, of_busy_count = 0, of_generation = 0\<rparr>"
      by (simp add: ex_slots_def oftable_init_def MAX_OPEN_FILES_def)
    moreover have "0 < length ex_slots" using ex_slots_wf by (simp add: wf_oftable_def MAX_OPEN_FILES_def)
    ultimately have "find_index (\<lambda>s. of_state s = state_free) ex_slots = Some 0"
      by (intro find_index_SomeI) simp_all
    then have "fd_alloc ex_slots = Some (0, ex_slots[0 := (ex_slots ! 0)\<lparr>of_state := state_allocated\<rparr>])"
      using \<open>0 < length ex_slots\<close>
      by (simp add: fd_alloc_def of_alloc_def of_to_fd_def \<open>ex_slots ! 0 = _\<close>)
    then show ?thesis by (rule that)
  qed
  have g: "\<forall>s \<in> set ex_slots. Suc (unat (of_generation s)) < 2 ^ 56"
    by (auto simp: ex_slots_def oftable_init_def MAX_OPEN_FILES_def dest!: set_update_subset_insert [THEN subsetD])
  have i: "fd_index 0 = 0" by (simp add: fd_index_nat)
  obtain t2 where t2: "fd_free t1 0 = Some t2" "fd_step (Op_begin File) t2 0 = None"
    "fd_to_of t1 256 = Some 0" "fd_to_of t2 256 = Some 0"
    using fd_generation_check [OF ex_slots_wf t1 g, where opn = "Op_begin File"] unfolding i by auto
  have "fd_begin_op_file t2 0 = None" using t2(2) by simp
  with t1 t2 show ?thesis by blast
qed

lemma fs_client_buffer_in_share_parts:
  "fs_get_client_buffer n buf = Some off \<longleftrightarrow>
    off = buf_offset buf \<and> 0 < unat (buf_size buf) \<and> unat (buf_offset buf) + unat (buf_size buf) \<le> unat n"
  "fs_copy_client_path mem n buf = Some bs \<longleftrightarrow>
    0 < unat (buf_size buf) \<and> unat (buf_size buf) \<le> 4095 \<and> unat (buf_offset buf) + unat (buf_size buf) \<le> unat n \<and>
    bs = map (\<lambda>i. mem (buf_offset buf + of_nat i)) [0..<unat (buf_size buf)] @ [0]"
  by (rule client_buffer_iff) (rule client_path_iff)

text \<open>C39: the buffers a client names in a command are accepted exactly when they are not empty and lie
  inside the shared region, for every size and offset: no sum of the check can wrap around. A path is
  in addition at most 4095 bytes long, and what is copied is the path with a terminator.\<close>

theorem fs_client_buffer_in_share:
  "(fs_get_client_buffer n buf = Some off \<longleftrightarrow>
    off = buf_offset buf \<and> 0 < unat (buf_size buf) \<and> unat (buf_offset buf) + unat (buf_size buf) \<le> unat n) \<and>
   (fs_copy_client_path mem n buf = Some bs \<longleftrightarrow>
    0 < unat (buf_size buf) \<and> unat (buf_size buf) \<le> 4095 \<and> unat (buf_offset buf) + unat (buf_size buf) \<le> unat n \<and>
    bs = map (\<lambda>i. mem (buf_offset buf + of_nat i)) [0..<unat (buf_size buf)] @ [0])"
  by (intro conjI client_buffer_iff client_path_iff)

end
