(* ===== verification/Fat_Op.thy ===== *)
theory Fat_Op
  imports Coroutine Fs_Fd
begin

text \<open>
  \<open>components/fs/fat/op.c\<close>: the request handlers of the FAT server, each run in a worker thread that
  blocks inside the calls of the FatFs library while the disk is accessed. The library is a
  parameter: a call is a suspension and its answer, an arbitrary record, is what the handler is resumed
  with. What the client can write, its share of memory, may have changed by then.

  A handler stores a status and, in some branches, the word of the completion data; a word it does
  not store keeps what an earlier request left there, which is \<open>None\<close> here.
\<close>

subsection \<open>Interface of FatFs\<close>

datatype fresult = FR_OK | FR_DISK_ERR | FR_INT_ERR | FR_NOT_READY | FR_NO_FILE | FR_NO_PATH
  | FR_INVALID_NAME | FR_DENIED | FR_EXIST | FR_INVALID_OBJECT | FR_WRITE_PROTECTED | FR_INVALID_DRIVE
  | FR_NOT_ENABLED | FR_NO_FILESYSTEM | FR_MKFS_ABORTED | FR_TIMEOUT | FR_LOCKED | FR_NOT_ENOUGH_CORE
  | FR_TOO_MANY_OPEN_FILES | FR_INVALID_PARAMETER

definition FA_READ :: u8 where "FA_READ = 0x01"
definition FA_WRITE :: u8 where "FA_WRITE = 0x02"
definition FA_OPEN_EXISTING :: u8 where "FA_OPEN_EXISTING = 0x00"
definition FA_OPEN_ALWAYS :: u8 where "FA_OPEN_ALWAYS = 0x10"
definition AM_RDO :: u8 where "AM_RDO = 0x01"
definition AM_DIR :: u8 where "AM_DIR = 0x10"

text \<open>A handle is a pointer into \<open>files\<close> or into \<open>dirs\<close>.\<close>

datatype fat_handle = Handle open_kind nat

abbreviation "FIL_at i \<equiv> Handle File i"
abbreviation "DIR_at i \<equiv> Handle Dir i"

type_synonym path = "u8 list"

datatype fat_call =
    F_mount | F_unmount
  | F_open "fat_handle option" path u8 | F_close "fat_handle option"
  | F_lseek "fat_handle option" u64 | F_write "fat_handle option" u64 u32 | F_read "fat_handle option" u64 u32
  | F_truncate "fat_handle option" | F_sync "fat_handle option" | F_size "fat_handle option"
  | F_stat path | F_rename path path | F_unlink path | F_mkdir path | F_rmdir path
  | F_opendir "fat_handle option" path | F_closedir "fat_handle option"
  | F_readdir "fat_handle option" | F_rewinddir "fat_handle option" | F_telldir "fat_handle option"

text \<open>The answer: result code, byte count, the bytes read, the file information (name, size, time,
  attributes), a position or size, and the sector size of the volume.\<close>

record fat_answer =
  fr_res :: fresult
  fr_count :: u32
  fr_data :: "u8 list"
  fr_name :: "u8 list"
  fr_fsize :: u64
  fr_ftime :: u16
  fr_attrib :: u8
  fr_value :: u64
  fr_ssize :: u16

subsection \<open>State\<close>

record fat_state =
  fs_initialised :: bool
  file_used :: "bool list"
  dir_used :: "bool list"
  oftab :: "fat_handle oftable"
  fat_share :: share

definition fat_init_state :: "share \<Rightarrow> fat_state" where
  "fat_init_state mem = \<lparr>fs_initialised = False, file_used = replicate MAX_OPEN_FILES False,
     dir_used = replicate MAX_OPEN_FILES False, oftab = oftable_init, fat_share = mem\<rparr>"

datatype fat_failure = Fail_assert | Fail_path_overrun

type_synonym fat_out = "fs_status \<times> u64 option"
type_synonym fat_co = "(fat_state, fat_call, fat_answer, fat_out, fat_failure) co"

definition FAT_FS_DATA_REGION_SIZE :: u64 where "FAT_FS_DATA_REGION_SIZE = 0x4000000"
definition FAT_WORKER_THREAD_NUM :: nat where "FAT_WORKER_THREAD_NUM = 4"

definition file_alloc :: "fat_state \<Rightarrow> (fat_handle \<times> fat_state) option" where
  "file_alloc s = (case find_index Not (file_used s) of
      None \<Rightarrow> None
    | Some i \<Rightarrow> Some (FIL_at i, s\<lparr>file_used := (file_used s)[i := True]\<rparr>))"

definition file_free :: "fat_handle option \<Rightarrow> fat_state \<Rightarrow> fat_state option" where
  "file_free h s = (case h of
      Some (Handle File i) \<Rightarrow>
        if file_used s ! i then Some (s\<lparr>file_used := (file_used s)[i := False]\<rparr>) else None
    | _ \<Rightarrow> None)"

definition dir_alloc :: "fat_state \<Rightarrow> (fat_handle \<times> fat_state) option" where
  "dir_alloc s = (case find_index Not (dir_used s) of
      None \<Rightarrow> None
    | Some i \<Rightarrow> Some (DIR_at i, s\<lparr>dir_used := (dir_used s)[i := True]\<rparr>))"

definition dir_free :: "fat_handle option \<Rightarrow> fat_state \<Rightarrow> fat_state option" where
  "dir_free h s = (case h of
      Some (Handle Dir i) \<Rightarrow>
        if dir_used s ! i then Some (s\<lparr>dir_used := (dir_used s)[i := False]\<rparr>) else None
    | _ \<Rightarrow> None)"

text \<open>A step that contains an assertion, followed by the rest of the handler.\<close>

definition asserted :: "fat_state \<Rightarrow> fat_state option \<Rightarrow> (fat_state \<Rightarrow> fat_co) \<Rightarrow> fat_co" where
  "asserted s r k = (case r of None \<Rightarrow> Failed s Fail_assert | Some s' \<Rightarrow> k s')"

definition end_op :: "fd \<Rightarrow> fat_state \<Rightarrow> (fat_state \<Rightarrow> fat_co) \<Rightarrow> fat_co" where
  "end_op fd s = asserted s (map_option (\<lambda>t. s\<lparr>oftab := t\<rparr>) (fd_end_op (oftab s) fd))"

text \<open>An operation on the table whose error return is ignored.\<close>

definition ignored :: "fat_state \<Rightarrow> fat_handle oftable option \<Rightarrow> fat_state" where
  "ignored s r = (case r of None \<Rightarrow> s | Some t \<Rightarrow> s\<lparr>oftab := t\<rparr>)"

definition ok_or_error :: "fresult \<Rightarrow> fs_status" where
  "ok_or_error r = (if r = FR_OK then FS_STATUS_SUCCESS else FS_STATUS_ERROR)"

definition map_fs_flags_to_fat_flags :: "u64 \<Rightarrow> u8" where
  "map_fs_flags_to_fat_flags fs_flags =
     (let m = fs_flags AND 0x3;
          fat_flags = (if m = FS_OPEN_FLAGS_READ_ONLY then FA_READ
                       else if m = FS_OPEN_FLAGS_WRITE_ONLY then FA_WRITE
                       else if m = FS_OPEN_FLAGS_READ_WRITE then FA_READ OR FA_WRITE
                       else 0)
      in if fs_flags AND FS_OPEN_FLAGS_CREATE \<noteq> 0 then fat_flags OR FA_OPEN_ALWAYS
         else fat_flags OR FA_OPEN_EXISTING)"

abbreviation client_path :: "fat_state \<Rightarrow> fs_buffer \<Rightarrow> path option" where
  "client_path s \<equiv> fs_copy_client_path (fat_share s) FAT_FS_DATA_REGION_SIZE"

abbreviation client_buffer :: "fs_buffer \<Rightarrow> u64 option" where
  "client_buffer \<equiv> fs_get_client_buffer FAT_FS_DATA_REGION_SIZE"

subsection \<open>Handlers\<close>

definition handle_initialise :: "fs_cmd_params \<Rightarrow> fat_state \<Rightarrow> fat_co" where
  "handle_initialise p s =
     (if fs_initialised s then Return s (FS_STATUS_ERROR, None)
      else Suspend (s\<lparr>fs_initialised := True\<rparr>) F_mount (\<lambda>a s.
        Return (if fr_res a \<noteq> FR_OK then s\<lparr>fs_initialised := False\<rparr> else s) (ok_or_error (fr_res a), None)))"

definition handle_deinitialise :: "fs_cmd_params \<Rightarrow> fat_state \<Rightarrow> fat_co" where
  "handle_deinitialise p s =
     (if \<not> fs_initialised s then Return s (FS_STATUS_ERROR, None)
      else Suspend s F_unmount (\<lambda>a s.
        Return (if fr_res a = FR_OK then s\<lparr>fs_initialised := False\<rparr> else s) (ok_or_error (fr_res a), None)))"

text \<open>The name buffer has 256 bytes, the copied path up to 4096.\<close>

definition handle_file_open :: "fs_cmd_params \<Rightarrow> fat_state \<Rightarrow> fat_co" where
  "handle_file_open p s =
     (let buffer = fo_path (file_open_params p); openflag = fo_flags (file_open_params p)
      in case client_path s buffer of
        None \<Rightarrow> Return s (FS_STATUS_ERROR, None)
      | Some filepath \<Rightarrow>
        if FS_MAX_NAME_LENGTH + 1 < length filepath then Failed s Fail_path_overrun
        else (case file_alloc s of
          None \<Rightarrow> Return s (FS_STATUS_TOO_MANY_OPEN_FILES, None)
        | Some (file, s) \<Rightarrow>
          Suspend s (F_open (Some file) filepath (map_fs_flags_to_fat_flags openflag)) (\<lambda>a s.
            if fr_res a = FR_NO_FILE then
              asserted s (file_free (Some file) s) (\<lambda>s. Return s (FS_STATUS_NO_FILE, None))
            else if fr_res a = FR_INVALID_NAME then
              asserted s (file_free (Some file) s) (\<lambda>s. Return s (FS_STATUS_INVALID_NAME, None))
            else if fr_res a \<noteq> FR_OK then
              asserted s (file_free (Some file) s) (\<lambda>s. Return s (FS_STATUS_ERROR, None))
            else (case fd_alloc (oftab s) of
              None \<Rightarrow> Failed s Fail_assert
            | Some (fd, t) \<Rightarrow>
                let s = s\<lparr>oftab := t\<rparr>; s = ignored s (fd_set_file (oftab s) fd (Some file))
                in Return s (ok_or_error (fr_res a), Some fd)))))"

definition handle_file_write :: "fs_cmd_params \<Rightarrow> fat_state \<Rightarrow> fat_co" where
  "handle_file_write p s =
     (let fd = io_fd (file_write_params p); buffer = io_buf (file_write_params p);
          btw = buf_size buffer; offset = io_offset (file_write_params p)
      in case client_buffer buffer of
        None \<Rightarrow> Return s (FS_STATUS_INVALID_BUFFER, Some 0)
      | Some data \<Rightarrow>
        (case fd_begin_op_file (oftab s) fd of
          None \<Rightarrow> Return s (FS_STATUS_INVALID_FD, None)
        | Some (file, t) \<Rightarrow>
          Suspend (s\<lparr>oftab := t\<rparr>) (F_lseek file offset) (\<lambda>a s.
            if fr_res a \<noteq> FR_OK then end_op fd s (\<lambda>s. Return s (FS_STATUS_ERROR, Some 0))
            else Suspend s (F_write file data (ucast btw)) (\<lambda>a s.
              end_op fd s (\<lambda>s. Return s (ok_or_error (fr_res a), Some (ucast (fr_count a))))))))"

definition handle_file_read :: "fs_cmd_params \<Rightarrow> fat_state \<Rightarrow> fat_co" where
  "handle_file_read p s =
     (let fd = io_fd (file_read_params p); buffer = io_buf (file_read_params p);
          btr = buf_size buffer; offset = io_offset (file_read_params p)
      in case client_buffer buffer of
        None \<Rightarrow> Return s (FS_STATUS_INVALID_BUFFER, Some 0)
      | Some data \<Rightarrow>
        (case fd_begin_op_file (oftab s) fd of
          None \<Rightarrow> Return s (FS_STATUS_INVALID_FD, None)
        | Some (file, t) \<Rightarrow>
          Suspend (s\<lparr>oftab := t\<rparr>) (F_lseek file offset) (\<lambda>a s.
            if fr_res a \<noteq> FR_OK then end_op fd s (\<lambda>s. Return s (FS_STATUS_ERROR, Some 0))
            else Suspend s (F_read file data (ucast btr)) (\<lambda>a s.
              let s = s\<lparr>fat_share := share_store (fat_share s) data (take (unat btr) (fr_data a))\<rparr>
              in end_op fd s (\<lambda>s. Return s (ok_or_error (fr_res a), Some (ucast (fr_count a))))))))"

definition handle_file_close :: "fs_cmd_params \<Rightarrow> fat_state \<Rightarrow> fat_co" where
  "handle_file_close p s =
     (let fd = file_close_fd p
      in case fd_begin_op_file (oftab s) fd of
        None \<Rightarrow> Return s (FS_STATUS_INVALID_FD, None)
      | Some (file, t) \<Rightarrow>
        end_op fd (s\<lparr>oftab := t\<rparr>) (\<lambda>s.
          case fd_unset (oftab s) fd of
            None \<Rightarrow> Return s (FS_STATUS_OUTSTANDING_OPERATIONS, None)
          | Some t \<Rightarrow>
            Suspend (s\<lparr>oftab := t\<rparr>) (F_close file) (\<lambda>a s.
              if fr_res a = FR_OK then
                asserted s (file_free file s) (\<lambda>s.
                  Return (ignored s (fd_free (oftab s) fd)) (ok_or_error (fr_res a), None))
              else Return (ignored s (fd_set_file (oftab s) fd file)) (ok_or_error (fr_res a), None))))"

definition S_IFDIR :: u64 where "S_IFDIR = 0x4000"
definition S_IFREG :: u64 where "S_IFREG = 0x8000"

definition le64 :: "u64 \<Rightarrow> u8 list" where
  "le64 w = map (\<lambda>i. ucast (drop_bit (8 * i) w)) [0..<8]"

definition fs_stat_bytes :: "fs_stat \<Rightarrow> u8 list" where
  "fs_stat_bytes st = concat (map le64 [st_dev st, st_ino st, st_mode st, st_nlink st, st_uid st, st_gid st,
     st_rdev st, st_size st, st_blksize st, st_blocks st, st_atime st, st_mtime st, st_ctime st,
     st_atime_nsec st, st_mtime_nsec st, st_ctime_nsec st, st_used st])"

text \<open>The permissions are octal 0777, without octal 0222 for a read-only file.\<close>

definition fat_stat_mode :: "u8 \<Rightarrow> u64" where
  "fat_stat_mode attrib =
     (let mode = 511;
          mode = (if attrib AND AM_DIR \<noteq> 0 then mode OR S_IFDIR else mode OR S_IFREG)
      in if attrib AND AM_RDO \<noteq> 0 \<and> attrib AND AM_DIR = 0 then mode AND NOT 146 else mode)"

definition fat_stat :: "fat_answer \<Rightarrow> fs_stat" where
  "fat_stat a = \<lparr>st_dev = 0, st_ino = 0, st_mode = fat_stat_mode (fr_attrib a), st_nlink = 0, st_uid = 0,
     st_gid = 0, st_rdev = 0, st_size = fr_fsize a, st_blksize = ucast (fr_ssize a), st_blocks = 0,
     st_atime = ucast (fr_ftime a), st_mtime = ucast (fr_ftime a), st_ctime = ucast (fr_ftime a),
     st_atime_nsec = 0, st_mtime_nsec = 0, st_ctime_nsec = 0, st_used = 0\<rparr>"

definition handle_stat :: "fs_cmd_params \<Rightarrow> fat_state \<Rightarrow> fat_co" where
  "handle_stat p s =
     (let path = sp_path (stat_params p); output_buffer = sp_buf (stat_params p)
      in case client_buffer output_buffer of
        None \<Rightarrow> Return s (FS_STATUS_INVALID_BUFFER, None)
      | Some file_stat \<Rightarrow>
        if buf_size output_buffer < sizeof_fs_stat then Return s (FS_STATUS_INVALID_BUFFER, None)
        else (case client_path s path of
          None \<Rightarrow> Return s (FS_STATUS_INVALID_PATH, None)
        | Some filepath \<Rightarrow>
          Suspend s (F_stat filepath) (\<lambda>a s.
            if fr_res a = FR_NO_FILE then Return s (FS_STATUS_NO_FILE, None)
            else if fr_res a = FR_INVALID_NAME then Return s (FS_STATUS_INVALID_NAME, None)
            else if fr_res a \<noteq> FR_OK then Return s (FS_STATUS_ERROR, None)
            else Return (s\<lparr>fat_share := share_store (fat_share s) file_stat (fs_stat_bytes (fat_stat a))\<rparr>)
                   (ok_or_error (fr_res a), None))))"

definition handle_file_size :: "fs_cmd_params \<Rightarrow> fat_state \<Rightarrow> fat_co" where
  "handle_file_size p s =
     (let fd = file_size_fd p
      in case fd_begin_op_file (oftab s) fd of
        None \<Rightarrow> Return s (FS_STATUS_INVALID_FD, None)
      | Some (file, t) \<Rightarrow>
        let s = s\<lparr>oftab := t\<rparr>
        in Ask (F_size file) (\<lambda>a. end_op fd s (\<lambda>s. Return s (FS_STATUS_SUCCESS, Some (fr_value a)))))"

definition handle_rename :: "fs_cmd_params \<Rightarrow> fat_state \<Rightarrow> fat_co" where
  "handle_rename p s =
     (case client_path s (rn_old_path (rename_params p)) of
        None \<Rightarrow> Return s (FS_STATUS_INVALID_PATH, None)
      | Some oldpath \<Rightarrow>
        (case client_path s (rn_new_path (rename_params p)) of
          None \<Rightarrow> Return s (FS_STATUS_INVALID_PATH, None)
        | Some newpath \<Rightarrow>
          Suspend s (F_rename oldpath newpath) (\<lambda>a s. Return s (ok_or_error (fr_res a), None))))"

definition handle_file_remove :: "fs_cmd_params \<Rightarrow> fat_state \<Rightarrow> fat_co" where
  "handle_file_remove p s =
     (case client_path s (file_remove_path p) of
        None \<Rightarrow> Return s (FS_STATUS_INVALID_PATH, None)
      | Some dirpath \<Rightarrow>
        Suspend s (F_unlink dirpath) (\<lambda>a s.
          Return s (if fr_res a = FR_NO_FILE then FS_STATUS_NO_FILE
                    else if fr_res a \<noteq> FR_OK then FS_STATUS_ERROR else FS_STATUS_SUCCESS, None)))"

definition handle_file_truncate :: "fs_cmd_params \<Rightarrow> fat_state \<Rightarrow> fat_co" where
  "handle_file_truncate p s =
     (let fd = ft_fd (file_truncate_params p); len = ft_length (file_truncate_params p)
      in case fd_begin_op_file (oftab s) fd of
        None \<Rightarrow> Return s (FS_STATUS_INVALID_FD, None)
      | Some (file, t) \<Rightarrow>
        Suspend (s\<lparr>oftab := t\<rparr>) (F_lseek file len) (\<lambda>a s.
          if fr_res a \<noteq> FR_OK then end_op fd s (\<lambda>s. Return s (FS_STATUS_ERROR, None))
          else Suspend s (F_truncate file) (\<lambda>a s.
            end_op fd s (\<lambda>s. Return s (ok_or_error (fr_res a), None)))))"

definition handle_dir_create :: "fs_cmd_params \<Rightarrow> fat_state \<Rightarrow> fat_co" where
  "handle_dir_create p s =
     (case client_path s (dir_create_path p) of
        None \<Rightarrow> Return s (FS_STATUS_INVALID_PATH, None)
      | Some dirpath \<Rightarrow>
        Suspend s (F_mkdir dirpath) (\<lambda>a s.
          Return s (if fr_res a = FR_OK then FS_STATUS_SUCCESS
                    else if fr_res a = FR_EXIST then FS_STATUS_ALREADY_EXISTS else FS_STATUS_ERROR, None)))"

definition handle_dir_remove :: "fs_cmd_params \<Rightarrow> fat_state \<Rightarrow> fat_co" where
  "handle_dir_remove p s =
     (case client_path s (dir_remove_path p) of
        None \<Rightarrow> Return s (FS_STATUS_INVALID_PATH, None)
      | Some dirpath \<Rightarrow>
        Suspend s (F_rmdir dirpath) (\<lambda>a s.
          Return s (if fr_res a = FR_DENIED then FS_STATUS_NOT_EMPTY
                    else if fr_res a \<noteq> FR_OK then FS_STATUS_ERROR else FS_STATUS_SUCCESS, None)))"

definition handle_dir_open :: "fs_cmd_params \<Rightarrow> fat_state \<Rightarrow> fat_co" where
  "handle_dir_open p s =
     (case client_path s (dir_open_path p) of
        None \<Rightarrow> Return s (FS_STATUS_INVALID_PATH, None)
      | Some dirpath \<Rightarrow>
        (case dir_alloc s of
          None \<Rightarrow> Return s (FS_STATUS_TOO_MANY_OPEN_FILES, None)
        | Some (dir, s) \<Rightarrow>
          Suspend s (F_opendir (Some dir) dirpath) (\<lambda>a s.
            if fr_res a \<noteq> FR_OK then
              asserted s (dir_free (Some dir) s) (\<lambda>s.
                Return s (if fr_res a = FR_NO_FILE \<or> fr_res a = FR_NO_PATH then FS_STATUS_NOT_DIRECTORY
                          else FS_STATUS_ERROR, None))
            else (case fd_alloc (oftab s) of
              None \<Rightarrow> Failed s Fail_assert
            | Some (fd, t) \<Rightarrow>
                let s = s\<lparr>oftab := t\<rparr>; s = ignored s (fd_set_dir (oftab s) fd (Some dir))
                in Return s (ok_or_error (fr_res a), Some fd)))))"

text \<open>The result code is overwritten by a status of the protocol; it only counts whether it is zero.\<close>

definition handle_dir_read :: "fs_cmd_params \<Rightarrow> fat_state \<Rightarrow> fat_co" where
  "handle_dir_read p s =
     (let fd = dr_fd (dir_read_params p); buffer = dr_buf (dir_read_params p); size = buf_size buffer
      in case client_buffer buffer of
        None \<Rightarrow> Return s (FS_STATUS_INVALID_BUFFER, None)
      | Some name \<Rightarrow>
        (case fd_begin_op_dir (oftab s) fd of
          None \<Rightarrow> Return s (FS_STATUS_INVALID_FD, None)
        | Some (dir, t) \<Rightarrow>
          Suspend (s\<lparr>oftab := t\<rparr>) (F_readdir dir) (\<lambda>a s.
            let len = of_nat (length (fr_name a)) :: u64
            in if fr_res a = FR_OK \<and> \<not> size < len then
                 let s = s\<lparr>fat_share := share_store (fat_share s) name (fr_name a)\<rparr>
                 in end_op fd s (\<lambda>s.
                      Return s (if fr_name a = [] then FS_STATUS_ERROR else FS_STATUS_SUCCESS, Some len))
               else end_op fd s (\<lambda>s. Return s (FS_STATUS_ERROR, None)))))"

definition handle_dir_tell :: "fs_cmd_params \<Rightarrow> fat_state \<Rightarrow> fat_co" where
  "handle_dir_tell p s =
     (let fd = dir_tell_fd p
      in case fd_begin_op_dir (oftab s) fd of
        None \<Rightarrow> Return s (FS_STATUS_INVALID_FD, None)
      | Some (dir, t) \<Rightarrow>
        let s = s\<lparr>oftab := t\<rparr>
        in Ask (F_telldir dir) (\<lambda>a. end_op fd s (\<lambda>s.
             Return s (FS_STATUS_SUCCESS, Some (ucast (ucast (fr_value a) :: u32))))))"

definition handle_dir_rewind :: "fs_cmd_params \<Rightarrow> fat_state \<Rightarrow> fat_co" where
  "handle_dir_rewind p s =
     (let fd = dir_rewind_fd p
      in case fd_begin_op_dir (oftab s) fd of
        None \<Rightarrow> Return s (FS_STATUS_INVALID_FD, None)
      | Some (dir, t) \<Rightarrow>
        Suspend (s\<lparr>oftab := t\<rparr>) (F_rewinddir dir) (\<lambda>a s.
          end_op fd s (\<lambda>s. Return s (ok_or_error (fr_res a), None))))"

definition handle_file_sync :: "fs_cmd_params \<Rightarrow> fat_state \<Rightarrow> fat_co" where
  "handle_file_sync p s =
     (let fd = file_sync_fd p
      in case fd_begin_op_file (oftab s) fd of
        None \<Rightarrow> Return s (FS_STATUS_INVALID_FD, None)
      | Some (file, t) \<Rightarrow>
        Suspend (s\<lparr>oftab := t\<rparr>) (F_sync file) (\<lambda>a s.
          end_op fd s (\<lambda>s. Return s (ok_or_error (fr_res a), None))))"

definition handle_dir_close :: "fs_cmd_params \<Rightarrow> fat_state \<Rightarrow> fat_co" where
  "handle_dir_close p s =
     (let fd = dir_close_fd p
      in case fd_begin_op_dir (oftab s) fd of
        None \<Rightarrow> Return s (FS_STATUS_INVALID_FD, None)
      | Some (dir, t) \<Rightarrow>
        end_op fd (s\<lparr>oftab := t\<rparr>) (\<lambda>s.
          case fd_unset (oftab s) fd of
            None \<Rightarrow> Return s (FS_STATUS_OUTSTANDING_OPERATIONS, None)
          | Some t \<Rightarrow>
            Suspend (s\<lparr>oftab := t\<rparr>) (F_closedir dir) (\<lambda>a s.
              if fr_res a = FR_OK then
                let s = ignored s (fd_free (oftab s) fd)
                in asserted s (dir_free dir s) (\<lambda>s. Return s (ok_or_error (fr_res a), None))
              else Return s (ok_or_error (fr_res a), None))))"

text \<open>Seeking rewinds and reads one entry after the other.\<close>

fun dir_seek_loop :: "fd \<Rightarrow> fat_handle option \<Rightarrow> nat \<Rightarrow> fresult \<Rightarrow> fat_state \<Rightarrow> fat_co" where
  "dir_seek_loop fd dir 0 ret s = end_op fd s (\<lambda>s. Return s (ok_or_error ret, None))"
| "dir_seek_loop fd dir (Suc n) ret s =
     (if ret \<noteq> FR_OK then end_op fd s (\<lambda>s. Return s (FS_STATUS_ERROR, None))
      else Suspend s (F_readdir dir) (\<lambda>a s. dir_seek_loop fd dir n (fr_res a) s))"

definition handle_dir_seek :: "fs_cmd_params \<Rightarrow> fat_state \<Rightarrow> fat_co" where
  "handle_dir_seek p s =
     (let fd = ds_fd (dir_seek_params p); loc = ds_loc (dir_seek_params p)
      in case fd_begin_op_dir (oftab s) fd of
        None \<Rightarrow> Return s (FS_STATUS_INVALID_FD, None)
      | Some (dir, t) \<Rightarrow>
        Suspend (s\<lparr>oftab := t\<rparr>) (F_rewinddir dir) (\<lambda>a s. dir_seek_loop fd dir (nat loc) (fr_res a) s))"

text \<open>The table of handlers (\<open>operation_functions\<close> in \<open>event.c\<close>).\<close>

fun operation_functions :: "fs_cmd_type \<Rightarrow> fs_cmd_params \<Rightarrow> fat_state \<Rightarrow> fat_co" where
  "operation_functions FS_CMD_INITIALISE = handle_initialise"
| "operation_functions FS_CMD_DEINITIALISE = handle_deinitialise"
| "operation_functions FS_CMD_FILE_OPEN = handle_file_open"
| "operation_functions FS_CMD_FILE_CLOSE = handle_file_close"
| "operation_functions FS_CMD_STAT = handle_stat"
| "operation_functions FS_CMD_FILE_READ = handle_file_read"
| "operation_functions FS_CMD_FILE_WRITE = handle_file_write"
| "operation_functions FS_CMD_FILE_SIZE = handle_file_size"
| "operation_functions FS_CMD_RENAME = handle_rename"
| "operation_functions FS_CMD_FILE_REMOVE = handle_file_remove"
| "operation_functions FS_CMD_FILE_TRUNCATE = handle_file_truncate"
| "operation_functions FS_CMD_DIR_CREATE = handle_dir_create"
| "operation_functions FS_CMD_DIR_REMOVE = handle_dir_remove"
| "operation_functions FS_CMD_DIR_OPEN = handle_dir_open"
| "operation_functions FS_CMD_DIR_CLOSE = handle_dir_close"
| "operation_functions FS_CMD_FILE_SYNC = handle_file_sync"
| "operation_functions FS_CMD_DIR_READ = handle_dir_read"
| "operation_functions FS_CMD_DIR_SEEK = handle_dir_seek"
| "operation_functions FS_CMD_DIR_TELL = handle_dir_tell"
| "operation_functions FS_CMD_DIR_REWIND = handle_dir_rewind"

end
