(* ===== verification/Fat_Safety.thy ===== *)
theory Fat_Safety
  imports Fat_Op
begin

text \<open>
  The FAT server under every interleaving of its worker threads and every answer of the FatFs
  library: the assertions of the handlers hold, except for the exhaustion of the descriptor table, and
  a file or directory structure is never used by two descriptors or by two requests that open or close it.

  What a suspended handler holds is a ghost resource: a structure it is opening, an operation on a
  descriptor, or a descriptor and its structure that it is closing.
\<close>

subsection \<open>Resources and the invariant\<close>

datatype fat_res = R_none | R_obj fat_handle | R_busy fd | R_close fd fat_handle

fun res_obj :: "fat_res \<Rightarrow> fat_handle option" where
  "res_obj (R_obj h) = Some h"
| "res_obj (R_close fd h) = Some h"
| "res_obj _ = None"

fun res_busy :: "fat_res \<Rightarrow> nat option" where
  "res_busy (R_busy fd) = Some (fd_index fd)"
| "res_busy _ = None"

fun res_closing :: "fat_res \<Rightarrow> nat option" where
  "res_closing (R_close fd h) = Some (fd_index fd)"
| "res_closing _ = None"

fun slot_obj :: "fat_handle aslot \<Rightarrow> fat_handle option" where
  "slot_obj (A_open k h n) = h"
| "slot_obj _ = None"

definition cnt :: "('a \<Rightarrow> 'b option) \<Rightarrow> 'b \<Rightarrow> 'a multiset \<Rightarrow> nat" where
  "cnt p x R = size (filter_mset (\<lambda>r. p r = Some x) R)"

lemma cnt_simps [simp]:
  "cnt p x {#} = 0"
  "cnt p x (add_mset r R) = cnt p x R + of_bool (p r = Some x)"
  by (simp_all add: cnt_def)

lemma cnt_le_size: "cnt p x R \<le> size R"
  by (simp add: cnt_def size_filter_mset_lesseq)

definition scnt :: "fat_handle \<Rightarrow> fat_handle oftable \<Rightarrow> nat" where
  "scnt h t = cnt (slot_obj \<circ> abs_slot) h (mset t)"

lemma scnt_update:
  assumes "i < length t"
  shows "scnt h (t[i := v]) + of_bool (slot_obj (abs_slot (t ! i)) = Some h) =
    scnt h t + of_bool (slot_obj (abs_slot v) = Some h)"
proof -
  have "mset t = add_mset (t ! i) (mset t - {#t ! i#})" using assms by simp
  then have "scnt h t = cnt (slot_obj \<circ> abs_slot) h (mset t - {#t ! i#}) + of_bool (slot_obj (abs_slot (t ! i)) = Some h)"
    unfolding scnt_def by (metis cnt_simps(2) comp_apply)
  moreover have "mset (t[i := v]) = add_mset v (mset t - {#t ! i#})" using assms by (simp add: mset_update)
  then have "scnt h (t[i := v]) = cnt (slot_obj \<circ> abs_slot) h (mset t - {#t ! i#}) + of_bool (slot_obj (abs_slot v) = Some h)"
    unfolding scnt_def by simp
  ultimately show ?thesis by simp
qed

fun used :: "fat_handle \<Rightarrow> fat_state \<Rightarrow> bool" where
  "used (Handle File i) s = (i < MAX_OPEN_FILES \<and> file_used s ! i)"
| "used (Handle Dir i) s = (i < MAX_OPEN_FILES \<and> dir_used s ! i)"

text \<open>The parts of the invariant: the slot of a descriptor and what holds it; the resources; who holds
  a structure.\<close>

definition slot_inv :: "fat_handle oftable_slot \<Rightarrow> nat \<Rightarrow> nat \<Rightarrow> bool" where
  "slot_inv v busy closing \<longleftrightarrow> wf_slot v \<and>
     aslot_count (abs_slot v) = busy \<and> closing \<le> of_bool (abs_slot v = A_alloc) \<and>
     (\<forall>k h n. abs_slot v = A_open k h n \<longrightarrow> (\<exists>i. h = Some (Handle k i)))"

fun res_ok :: "fat_handle oftable \<Rightarrow> fat_res \<Rightarrow> bool" where
  "res_ok t (R_busy fd) = (of_generation (t ! fd_index fd) \<le> fd_generation fd)"
| "res_ok t (R_close fd h) = (of_generation (t ! fd_index fd) \<le> fd_generation fd)"
| "res_ok t _ = True"

definition fat_inv :: "fat_state \<Rightarrow> fat_res multiset \<Rightarrow> bool" where
  "fat_inv s R \<longleftrightarrow>
     length (file_used s) = MAX_OPEN_FILES \<and> length (dir_used s) = MAX_OPEN_FILES \<and>
     length (oftab s) = MAX_OPEN_FILES \<and> size R \<le> FAT_WORKER_THREAD_NUM \<and>
     (\<forall>i < MAX_OPEN_FILES. slot_inv (oftab s ! i) (cnt res_busy i R) (cnt res_closing i R)) \<and>
     (\<forall>r \<in># R. res_ok (oftab s) r) \<and>
     (\<forall>h. scnt h (oftab s) + cnt res_obj h R \<le> of_bool (used h s))"

lemma fat_invD:
  assumes "fat_inv s R"
  shows "length (file_used s) = MAX_OPEN_FILES" "length (dir_used s) = MAX_OPEN_FILES"
    "length (oftab s) = MAX_OPEN_FILES" "size R \<le> FAT_WORKER_THREAD_NUM"
    "\<And>i. i < MAX_OPEN_FILES \<Longrightarrow> slot_inv (oftab s ! i) (cnt res_busy i R) (cnt res_closing i R)"
    "\<And>r. r \<in># R \<Longrightarrow> res_ok (oftab s) r"
    "\<And>h. scnt h (oftab s) + cnt res_obj h R \<le> of_bool (used h s)"
  using assms by (simp_all add: fat_inv_def)

text \<open>Changing one slot, together with the resources on it.\<close>

lemma fat_inv_slot:
  assumes inv: "fat_inv s R" and i: "i < MAX_OPEN_FILES" and sz: "size R' \<le> FAT_WORKER_THREAD_NUM"
    and si: "slot_inv v (cnt res_busy i R') (cnt res_closing i R')"
    and others: "\<And>j. j \<noteq> i \<Longrightarrow> cnt res_busy j R' = cnt res_busy j R \<and> cnt res_closing j R' = cnt res_closing j R"
    and res: "\<And>r. r \<in># R' \<Longrightarrow> res_ok ((oftab s)[i := v]) r"
    and obj: "\<And>h. of_bool (slot_obj (abs_slot v) = Some h) + cnt res_obj h R' \<le>
      of_bool (slot_obj (abs_slot (oftab s ! i)) = Some h) + cnt res_obj h R"
  shows "fat_inv (s\<lparr>oftab := (oftab s)[i := v]\<rparr>) R'"
  unfolding fat_inv_def
proof (intro conjI allI impI ballI)
  note I = fat_invD [OF inv]
  show "length (file_used (s\<lparr>oftab := (oftab s)[i := v]\<rparr>)) = MAX_OPEN_FILES"
    "length (dir_used (s\<lparr>oftab := (oftab s)[i := v]\<rparr>)) = MAX_OPEN_FILES"
    "length (oftab (s\<lparr>oftab := (oftab s)[i := v]\<rparr>)) = MAX_OPEN_FILES"
    using I by simp_all
  show "size R' \<le> FAT_WORKER_THREAD_NUM" by (rule sz)
  show "slot_inv (oftab (s\<lparr>oftab := (oftab s)[i := v]\<rparr>) ! j) (cnt res_busy j R') (cnt res_closing j R')"
    if "j < MAX_OPEN_FILES" for j
    using that i I(3) I(5) [of j] si others [of j] by (cases "j = i") simp_all
  show "res_ok (oftab (s\<lparr>oftab := (oftab s)[i := v]\<rparr>)) r" if "r \<in># R'" for r
    using res [OF that] by simp
  fix h
  have "used h (s\<lparr>oftab := (oftab s)[i := v]\<rparr>) = used h s" by (cases "(h, s)" rule: used.cases) simp_all
  moreover have "i < length (oftab s)" using i I(3) by simp
  note scnt_update [OF this, of h v]
  ultimately show "scnt h (oftab (s\<lparr>oftab := (oftab s)[i := v]\<rparr>)) + cnt res_obj h R' \<le>
      of_bool (used h (s\<lparr>oftab := (oftab s)[i := v]\<rparr>))"
    using I(7) [of h] obj [of h] by simp
qed

lemma res_ok_update: "of_generation v = of_generation (t ! i) \<Longrightarrow> i < length t \<Longrightarrow> res_ok (t[i := v]) r = res_ok t r"
  by (cases r) (simp_all add: nth_list_update)

text \<open>An operation that succeeds on a slot, from what it does to the abstract slot.\<close>

lemma fat_slot_facts:
  assumes inv: "fat_inv s R" and f: "on_slot (slot_apply opn) (oftab s) fd = Some t"
  obtains v where "t = (oftab s)[fd_index fd := v]" "wf_slot v"
    "aslot_apply opn (abs_slot (oftab s ! fd_index fd)) = Some (abs_slot v)"
    "of_generation (oftab s ! fd_index fd) \<le> fd_generation fd"
    "of_generation v = of_generation (oftab s ! fd_index fd) + (if opn = Op_free then 1 else 0)"
    "slot_inv (oftab s ! fd_index fd) (cnt res_busy (fd_index fd) R) (cnt res_closing (fd_index fd) R)"
proof -
  let ?u = "oftab s ! fd_index fd"
  obtain v where v: "fd_to_of (oftab s) fd = Some (fd_index fd)" "slot_apply opn ?u = Some v" "t = (oftab s)[fd_index fd := v]"
    using f by (auto simp: on_slot_Some)
  have si: "slot_inv ?u (cnt res_busy (fd_index fd) R) (cnt res_closing (fd_index fd) R)"
    using fat_invD(5) [OF inv] by simp
  have c: "Suc (aslot_count (abs_slot ?u)) < 2 ^ 64"
    using si cnt_le_size [of res_busy "fd_index fd" R] fat_invD(4) [OF inv]
    by (simp add: slot_inv_def FAT_WORKER_THREAD_NUM_def)
  have wf: "wf_slot ?u" using si by (simp add: slot_inv_def)
  have "aslot_apply opn (abs_slot ?u) = Some (abs_slot v)"
    using slot_apply_refines(1) [OF wf c, of opn] v(2) by simp
  with that v slot_apply_refines(2) [OF wf c v(2)] si show ?thesis by (auto simp: fd_to_of_Some)
qed

lemma fat_on_slot:
  assumes inv: "fat_inv s R" and g: "of_generation (oftab s ! fd_index fd) \<le> fd_generation fd"
    and a: "aslot_apply opn (abs_slot (oftab s ! fd_index fd)) = Some a"
  obtains t where "on_slot (slot_apply opn) (oftab s) fd = Some t"
proof -
  let ?u = "oftab s ! fd_index fd"
  have si: "slot_inv ?u (cnt res_busy (fd_index fd) R) (cnt res_closing (fd_index fd) R)"
    using fat_invD(5) [OF inv] by simp
  have c: "Suc (aslot_count (abs_slot ?u)) < 2 ^ 64"
    using si cnt_le_size [of res_busy "fd_index fd" R] fat_invD(4) [OF inv]
    by (simp add: slot_inv_def FAT_WORKER_THREAD_NUM_def)
  have wf: "wf_slot ?u" using si by (simp add: slot_inv_def)
  obtain v where "slot_apply opn ?u = Some v" using slot_apply_refines(1) [OF wf c, of opn] a by auto
  then have "on_slot (slot_apply opn) (oftab s) fd = Some ((oftab s)[fd_index fd := v])"
    using g by (simp add: on_slot_Some fd_to_of_Some)
  then show ?thesis by (rule that)
qed

lemma aslot_SomeD:
  "aslot_apply (Op_begin k) a = Some a' \<Longrightarrow> \<exists>h n. a = A_open k h n \<and> a' = A_open k h (Suc n)"
  "aslot_apply Op_end a = Some a' \<Longrightarrow> \<exists>k h n. a = A_open k h (Suc n) \<and> a' = A_open k h n"
  "aslot_apply Op_unset a = Some a' \<Longrightarrow> \<exists>k h. a = A_open k h 0 \<and> a' = A_alloc"
  "aslot_apply Op_free a = Some a' \<Longrightarrow> a = A_alloc \<and> a' = A_free"
  "aslot_apply (Op_set k h) a = Some a' \<Longrightarrow> a = A_alloc \<and> a' = A_open k h 0"
proof -
  show "aslot_apply (Op_begin k) a = Some a' \<Longrightarrow> \<exists>h n. a = A_open k h n \<and> a' = A_open k h (Suc n)"
    by (cases a) (auto split: if_splits)
  show "aslot_apply Op_free a = Some a' \<Longrightarrow> a = A_alloc \<and> a' = A_free" by (cases a) auto
  show "aslot_apply (Op_set k h) a = Some a' \<Longrightarrow> a = A_alloc \<and> a' = A_open k h 0" by (cases a) auto
  show "aslot_apply Op_end a = Some a' \<Longrightarrow> \<exists>k h n. a = A_open k h (Suc n) \<and> a' = A_open k h n"
  proof (cases a)
    case (A_open k h n)
    then show "aslot_apply Op_end a = Some a' \<Longrightarrow> ?thesis" by (cases n) auto
  qed auto
  show "aslot_apply Op_unset a = Some a' \<Longrightarrow> \<exists>k h. a = A_open k h 0 \<and> a' = A_alloc"
  proof (cases a)
    case (A_open k h n)
    then show "aslot_apply Op_unset a = Some a' \<Longrightarrow> ?thesis" by (cases n) auto
  qed auto
qed

lemma abs_slot_handle: "abs_slot v = A_open k h n \<Longrightarrow> of_handle v = h"
  by (cases "of_state v") (simp_all add: abs_slot_def)

definition fd_begin_op :: "open_kind \<Rightarrow> fat_handle oftable \<Rightarrow> fd \<Rightarrow> (fat_handle option \<times> fat_handle oftable) option" where
  "fd_begin_op k t fd = map_option (\<lambda>t'. (of_handle (t ! fd_index fd), t')) (on_slot (slot_apply (Op_begin k)) t fd)"

lemma fd_begin_op_kinds:
  "fd_begin_op_file = fd_begin_op File" "fd_begin_op_dir = fd_begin_op Dir"
  by (simp_all add: fun_eq_iff fd_begin_op_def fd_begin_op_file_def fd_begin_op_dir_def)

text \<open>Beginning an operation takes a resource on the descriptor, and yields the structure of its slot.\<close>

lemma fat_begin:
  assumes inv: "fat_inv s R" and sz: "size R < FAT_WORKER_THREAD_NUM"
    and b: "fd_begin_op k (oftab s) fd = Some (h, t)"
  shows "fat_inv (s\<lparr>oftab := t\<rparr>) (add_mset (R_busy fd) R)"
    and "\<exists>i n. h = Some (Handle k i) \<and> abs_slot (t ! fd_index fd) = A_open k h (Suc n)"
proof -
  let ?u = "oftab s ! fd_index fd"
  have on: "on_slot (slot_apply (Op_begin k)) (oftab s) fd = Some t" "h = of_handle ?u"
    using b by (auto simp: fd_begin_op_def)
  from fat_slot_facts [OF inv on(1)] obtain v where v: "t = (oftab s)[fd_index fd := v]" "wf_slot v"
    "aslot_apply (Op_begin k) (abs_slot ?u) = Some (abs_slot v)" "of_generation ?u \<le> fd_generation fd"
    "of_generation v = of_generation ?u"
    and si: "slot_inv ?u (cnt res_busy (fd_index fd) R) (cnt res_closing (fd_index fd) R)" by auto
  obtain h' n where a: "abs_slot ?u = A_open k h' n" "abs_slot v = A_open k h' (Suc n)"
    using aslot_SomeD(1) [OF v(3)] by blast
  have h': "h' = h" using abs_slot_handle [OF a(1)] on(2) by simp
  have len: "fd_index fd < length (oftab s)" using fat_invD(3) [OF inv] by simp
  show "fat_inv (s\<lparr>oftab := t\<rparr>) (add_mset (R_busy fd) R)"
    unfolding v(1)
  proof (rule fat_inv_slot [OF inv])
    show "slot_inv v (cnt res_busy (fd_index fd) (add_mset (R_busy fd) R)) (cnt res_closing (fd_index fd) (add_mset (R_busy fd) R))"
      using si a v(2) by (simp add: slot_inv_def aslot_count_def)
    show "res_ok ((oftab s)[fd_index fd := v]) r" if "r \<in># add_mset (R_busy fd) R" for r
      using that res_ok_update [OF v(5) len] fat_invD(6) [OF inv] v(4) by auto
  qed (use sz a in auto)
  obtain i where "h = Some (Handle k i)" using si a(1) h' by (auto simp: slot_inv_def)
  moreover have "t ! fd_index fd = v" using v(1) len by simp
  ultimately show "\<exists>i n. h = Some (Handle k i) \<and> abs_slot (t ! fd_index fd) = A_open k h (Suc n)"
    using a(2) h' by blast
qed

text \<open>Ending an operation gives the resource back, and cannot fail.\<close>

lemma fat_end:
  assumes inv: "fat_inv s (add_mset (R_busy fd) R)"
  obtains t where "fd_end_op (oftab s) fd = Some t" "fat_inv (s\<lparr>oftab := t\<rparr>) R"
    "\<And>k h n. abs_slot (oftab s ! fd_index fd) = A_open k h (Suc n) \<Longrightarrow> abs_slot (t ! fd_index fd) = A_open k h n"
proof -
  let ?u = "oftab s ! fd_index fd"
  have si: "slot_inv ?u (Suc (cnt res_busy (fd_index fd) R)) (cnt res_closing (fd_index fd) R)"
    using fat_invD(5) [OF inv, of "fd_index fd"] by simp
  have g: "of_generation ?u \<le> fd_generation fd" using fat_invD(6) [OF inv, of "R_busy fd"] by simp
  obtain k h n where a: "abs_slot ?u = A_open k h (Suc n)"
    using si by (cases "abs_slot ?u") (auto simp: slot_inv_def aslot_count_def)
  have "aslot_apply Op_end (abs_slot ?u) = Some (A_open k h n)" by (simp add: a)
  from fat_on_slot [OF inv g this] obtain t where on: "on_slot (slot_apply Op_end) (oftab s) fd = Some t" .
  from fat_slot_facts [OF inv on] obtain v where v: "t = (oftab s)[fd_index fd := v]" "wf_slot v"
    "aslot_apply Op_end (abs_slot ?u) = Some (abs_slot v)" "of_generation v = of_generation ?u" by auto
  have av: "abs_slot v = A_open k h n" using v(3) a by simp
  have len: "fd_index fd < length (oftab s)" using fat_invD(3) [OF inv] by simp
  have "fat_inv (s\<lparr>oftab := t\<rparr>) R"
    unfolding v(1)
  proof (rule fat_inv_slot [OF inv])
    show "slot_inv v (cnt res_busy (fd_index fd) R) (cnt res_closing (fd_index fd) R)"
      using si a av v(2) by (simp add: slot_inv_def aslot_count_def)
    show "res_ok ((oftab s)[fd_index fd := v]) r" if "r \<in># R" for r
      using that res_ok_update [OF v(4) len] fat_invD(6) [OF inv] by auto
  qed (use fat_invD(4) [OF inv] a av in auto)
  moreover have "fd_end_op (oftab s) fd = Some t" using on by (simp add: fd_end_op_on_slot)
  moreover have "t ! fd_index fd = v" using v(1) len by simp
  ultimately show ?thesis using that a av by auto
qed

text \<open>Taking the structure out of an idle descriptor, to close it.\<close>

lemma fat_unset:
  assumes inv: "fat_inv s R" and sz: "size R < FAT_WORKER_THREAD_NUM"
    and u: "fd_unset (oftab s) fd = Some t" and a: "abs_slot (oftab s ! fd_index fd) = A_open k (Some h) n"
  shows "fat_inv (s\<lparr>oftab := t\<rparr>) (add_mset (R_close fd h) R)"
proof -
  let ?u = "oftab s ! fd_index fd"
  have on: "on_slot (slot_apply Op_unset) (oftab s) fd = Some t" using u by (simp add: fd_unset_def)
  from fat_slot_facts [OF inv on(1)] obtain v where v: "t = (oftab s)[fd_index fd := v]" "wf_slot v"
    "aslot_apply Op_unset (abs_slot ?u) = Some (abs_slot v)" "of_generation ?u \<le> fd_generation fd"
    "of_generation v = of_generation ?u"
    and si: "slot_inv ?u (cnt res_busy (fd_index fd) R) (cnt res_closing (fd_index fd) R)" by auto
  have n: "n = 0" "abs_slot v = A_alloc" using aslot_SomeD(3) [OF v(3)] a by auto
  have len: "fd_index fd < length (oftab s)" using fat_invD(3) [OF inv] by simp
  show ?thesis
    unfolding v(1)
  proof (rule fat_inv_slot [OF inv])
    show "slot_inv v (cnt res_busy (fd_index fd) (add_mset (R_close fd h) R)) (cnt res_closing (fd_index fd) (add_mset (R_close fd h) R))"
      using si a n v(2) by (simp add: slot_inv_def aslot_count_def)
    show "res_ok ((oftab s)[fd_index fd := v]) r" if "r \<in># add_mset (R_close fd h) R" for r
      using that res_ok_update [OF v(5) len] fat_invD(6) [OF inv] v(4) by auto
  qed (use sz a n in auto)
qed

text \<open>Dropping a resource that is not an operation under way.\<close>

lemma fat_inv_drop:
  assumes inv: "fat_inv s (add_mset x R)" and x: "res_busy x = None"
  shows "fat_inv s R"
proof -
  note I = fat_invD [OF inv]
  have "slot_inv (oftab s ! i) (cnt res_busy i R) (cnt res_closing i R)" if "i < MAX_OPEN_FILES" for i
    using I(5) [OF that] x by (auto simp: slot_inv_def)
  moreover have "scnt h (oftab s) + cnt res_obj h R \<le> of_bool (used h s)" for h
    using I(7) [of h] by simp
  ultimately show ?thesis using I(1-4,6) by (simp add: fat_inv_def)
qed

fun set_used :: "fat_handle \<Rightarrow> bool \<Rightarrow> fat_state \<Rightarrow> fat_state" where
  "set_used (Handle File i) b s = s\<lparr>file_used := (file_used s)[i := b]\<rparr>"
| "set_used (Handle Dir i) b s = s\<lparr>dir_used := (dir_used s)[i := b]\<rparr>"

fun handle_ok :: "fat_handle \<Rightarrow> bool" where
  "handle_ok (Handle k i) = (i < MAX_OPEN_FILES)"

lemma set_used_simps [simp]:
  "oftab (set_used h b s) = oftab s"
  "length (file_used (set_used h b s)) = length (file_used s)"
  "length (dir_used (set_used h b s)) = length (dir_used s)"
  by (cases "(h, b, s)" rule: set_used.cases; simp)+

lemma used_set_used:
  assumes "length (file_used s) = MAX_OPEN_FILES" "length (dir_used s) = MAX_OPEN_FILES" "handle_ok h"
  shows "used h' (set_used h b s) = (if h' = h then b else used h' s)"
  using assms by (cases "(h, b, s)" rule: set_used.cases; cases "(h', s)" rule: used.cases)
    (auto simp: nth_list_update)

lemma fat_inv_set_used:
  assumes inv: "fat_inv s R" and h: "handle_ok h" and sz: "size R' \<le> FAT_WORKER_THREAD_NUM"
    and same: "\<And>j. cnt res_busy j R' = cnt res_busy j R \<and> cnt res_closing j R' = cnt res_closing j R"
    and res: "\<And>r. r \<in># R' \<Longrightarrow> res_ok (oftab s) r"
    and own: "scnt h (oftab s) + cnt res_obj h R' \<le> of_bool b"
    and others: "\<And>h'. h' \<noteq> h \<Longrightarrow> cnt res_obj h' R' \<le> cnt res_obj h' R"
  shows "fat_inv (set_used h b s) R'"
proof -
  note I = fat_invD [OF inv]
  have "scnt h' (oftab s) + cnt res_obj h' R' \<le> of_bool (used h' (set_used h b s))" for h'
    using own others [of h'] I(7) [of h'] by (auto simp: used_set_used [OF I(1,2) h])
  moreover have "slot_inv (oftab s ! i) (cnt res_busy i R') (cnt res_closing i R')" if "i < MAX_OPEN_FILES" for i
    using I(5) [OF that] same by simp
  ultimately show ?thesis using I(1-3) sz res by (simp add: fat_inv_def)
qed

text \<open>Taking a free structure, and giving one back that is not in the table.\<close>

lemma fat_take:
  assumes inv: "fat_inv s R" and sz: "size R < FAT_WORKER_THREAD_NUM"
    and h: "handle_ok h" and free: "\<not> used h s"
  shows "fat_inv (set_used h True s) (add_mset (R_obj h) R)"
proof (rule fat_inv_set_used [OF inv h])
  show "scnt h (oftab s) + cnt res_obj h (add_mset (R_obj h) R) \<le> of_bool True"
    using fat_invD(7) [OF inv, of h] free by simp
qed (use sz fat_invD(6) [OF inv] in auto)

lemma fat_give:
  assumes inv: "fat_inv s (add_mset (R_obj h) R)" and h: "handle_ok h"
  shows "used h s" "fat_inv (set_used h False s) R"
proof -
  note I = fat_invD [OF inv]
  have u: "scnt h (oftab s) + cnt res_obj h R + 1 \<le> of_bool (used h s)" using I(7) [of h] by simp
  then show "used h s" by (cases "used h s") simp_all
  show "fat_inv (set_used h False s) R"
  proof (rule fat_inv_set_used [OF inv h])
    show "scnt h (oftab s) + cnt res_obj h R \<le> of_bool False" using u by (cases "used h s") simp_all
  qed (use I(4,6) in auto)
qed

lemma fat_res_handle_ok:
  assumes inv: "fat_inv s R" and r: "r \<in># R" "res_obj r = Some h"
  shows "handle_ok h"
proof -
  obtain R' where "R = add_mset r R'" using r(1) by (metis insert_DiffM)
  then have "used h s" using fat_invD(7) [OF inv, of h] r(2) by (cases "used h s") simp_all
  then show ?thesis by (cases "(h, s)" rule: used.cases) simp_all
qed

lemma file_dir_alloc:
  "file_alloc s = Some (h, s') \<Longrightarrow> length (file_used s) = MAX_OPEN_FILES \<Longrightarrow>
    handle_ok h \<and> \<not> used h s \<and> s' = set_used h True s \<and> (\<exists>i. h = Handle File i)"
  "dir_alloc s = Some (h, s') \<Longrightarrow> length (dir_used s) = MAX_OPEN_FILES \<Longrightarrow>
    handle_ok h \<and> \<not> used h s \<and> s' = set_used h True s \<and> (\<exists>i. h = Handle Dir i)"
  by (auto simp: file_alloc_def dir_alloc_def dest!: find_index_SomeD split: option.splits)

lemma file_dir_free:
  "used (Handle File i) s \<Longrightarrow> file_free (Some (Handle File i)) s = Some (set_used (Handle File i) False s)"
  "used (Handle Dir i) s \<Longrightarrow> dir_free (Some (Handle Dir i)) s = Some (set_used (Handle Dir i) False s)"
  by (simp_all add: file_free_def dir_free_def)

text \<open>Freeing the descriptor that is being closed, and putting its structure back.\<close>

lemma fat_closing:
  assumes inv: "fat_inv s (add_mset (R_close fd h) R)"
  shows "abs_slot (oftab s ! fd_index fd) = A_alloc" "cnt res_closing (fd_index fd) R = 0"
    "of_generation (oftab s ! fd_index fd) \<le> fd_generation fd"
proof -
  have "slot_inv (oftab s ! fd_index fd) (cnt res_busy (fd_index fd) R) (Suc (cnt res_closing (fd_index fd) R))"
    using fat_invD(5) [OF inv, of "fd_index fd"] by simp
  then show "abs_slot (oftab s ! fd_index fd) = A_alloc" "cnt res_closing (fd_index fd) R = 0"
    by (cases "abs_slot (oftab s ! fd_index fd) = A_alloc"; simp add: slot_inv_def)+
  show "of_generation (oftab s ! fd_index fd) \<le> fd_generation fd"
    using fat_invD(6) [OF inv, of "R_close fd h"] by simp
qed

lemma res_ok_other_slot:
  assumes inv: "fat_inv s R" and r: "r \<in># R" and n: "cnt res_busy i R = 0" "cnt res_closing i R = 0"
  shows "res_ok ((oftab s)[i := v]) r"
proof -
  have c: "p r \<noteq> Some i" if "cnt p i R = 0" for p :: "fat_res \<Rightarrow> nat option"
  proof -
    obtain R' where "R = add_mset r R'" using r by (metis insert_DiffM)
    then show ?thesis using that by auto
  qed
  from c [OF n(1)] c [OF n(2)] fat_invD(6) [OF inv r] show ?thesis by (cases r) auto
qed

lemma fat_free_fd:
  assumes inv: "fat_inv s (add_mset (R_close fd h) R)"
  obtains t where "fd_free (oftab s) fd = Some t" "fat_inv (s\<lparr>oftab := t\<rparr>) (add_mset (R_obj h) R)"
proof -
  let ?u = "oftab s ! fd_index fd"
  note c = fat_closing [OF inv]
  have "aslot_apply Op_free (abs_slot ?u) = Some A_free" using c(1) by simp
  from fat_on_slot [OF inv c(3) this] obtain t where on: "on_slot (slot_apply Op_free) (oftab s) fd = Some t" .
  from fat_slot_facts [OF inv on] obtain v where v: "t = (oftab s)[fd_index fd := v]" "wf_slot v"
    "aslot_apply Op_free (abs_slot ?u) = Some (abs_slot v)"
    and si: "slot_inv ?u (cnt res_busy (fd_index fd) (add_mset (R_close fd h) R)) (cnt res_closing (fd_index fd) (add_mset (R_close fd h) R))" by auto
  have av: "abs_slot v = A_free" using v(3) c(1) by simp
  have b0: "cnt res_busy (fd_index fd) R = 0" using si c(1) by (simp add: slot_inv_def aslot_count_def)
  have invR: "fat_inv s R" using fat_inv_drop [OF inv] by simp
  have "fat_inv (s\<lparr>oftab := t\<rparr>) (add_mset (R_obj h) R)"
    unfolding v(1)
  proof (rule fat_inv_slot [OF inv])
    show "slot_inv v (cnt res_busy (fd_index fd) (add_mset (R_obj h) R)) (cnt res_closing (fd_index fd) (add_mset (R_obj h) R))"
      using si c av v(2) b0 by (simp add: slot_inv_def aslot_count_def)
    show "res_ok ((oftab s)[fd_index fd := v]) r" if "r \<in># add_mset (R_obj h) R" for r
      using that res_ok_other_slot [OF invR _ b0 c(2)] by auto
  qed (use fat_invD(4) [OF inv] c av in auto)
  moreover have "fd_free (oftab s) fd = Some t" using on by (simp add: fd_free_def)
  ultimately show ?thesis using that by blast
qed

lemma fat_set_slot:
  assumes inv: "fat_inv s (add_mset x R)" and x: "res_obj x = Some (Handle k i)" "res_busy x = None"
    and c0: "cnt res_closing (fd_index fd) R = 0"
    and on: "on_slot (slot_apply (Op_set k (Some (Handle k i)))) (oftab s) fd = Some t"
    and xc: "res_closing x = None \<or> res_closing x = Some (fd_index fd)"
  shows "fat_inv (s\<lparr>oftab := t\<rparr>) R"
proof -
  let ?u = "oftab s ! fd_index fd"
  from fat_slot_facts [OF inv on] obtain v where v: "t = (oftab s)[fd_index fd := v]" "wf_slot v"
    "aslot_apply (Op_set k (Some (Handle k i))) (abs_slot ?u) = Some (abs_slot v)" "of_generation v = of_generation ?u"
    and si: "slot_inv ?u (cnt res_busy (fd_index fd) (add_mset x R)) (cnt res_closing (fd_index fd) (add_mset x R))" by auto
  have a: "abs_slot ?u = A_alloc" "abs_slot v = A_open k (Some (Handle k i)) 0" using aslot_SomeD(5) [OF v(3)] by simp_all
  have len: "fd_index fd < length (oftab s)" using fat_invD(3) [OF inv] by simp
  show ?thesis
    unfolding v(1)
  proof (rule fat_inv_slot [OF inv])
    show "slot_inv v (cnt res_busy (fd_index fd) R) (cnt res_closing (fd_index fd) R)"
      using si a v(2) c0 x(2) by (simp add: slot_inv_def aslot_count_def)
    show "res_ok ((oftab s)[fd_index fd := v]) r" if "r \<in># R" for r
      using that res_ok_update [OF v(4) len] fat_invD(6) [OF inv] by auto
  qed (use fat_invD(4) [OF inv] a x xc in auto)
qed

lemma fd_index_of_to_fd:
  assumes "i < MAX_OPEN_FILES"
  shows "fd_index (of_to_fd t i) = i"
proof -
  have d: "(256 :: nat) dvd 2 ^ 64" by simp
  have i: "i < 256" using assms by (simp add: MAX_OPEN_FILES_def)
  have "unat (of_to_fd t i) mod 256 = (unat (of_nat i :: u64) + unat (of_generation (t ! i) * of_nat MAX_OPEN_FILES)) mod 256"
    unfolding of_to_fd_def unat_word_ariths using mod_mod_cancel [OF d] by simp
  also have "\<dots> = (i + unat (of_generation (t ! i)) * 256) mod 256"
    using i unfolding unat_word_ariths using mod_mod_cancel [OF d]
    by (simp add: unat_of_nat MAX_OPEN_FILES_def mod_add_right_eq [of i, symmetric])
  also have "\<dots> = i" using i by simp
  finally show ?thesis by (simp add: fd_index_nat)
qed

text \<open>Opening: a free slot is reserved for the structure and then holds it.\<close>

lemma fat_open_fd:
  assumes inv: "fat_inv s (add_mset (R_obj (Handle k i)) R)" and al: "fd_alloc (oftab s) = Some (fd, t)"
  shows "fat_inv (ignored (s\<lparr>oftab := t\<rparr>) (on_slot (slot_apply (Op_set k (Some (Handle k i)))) t fd)) R"
proof -
  obtain j where j: "of_alloc (oftab s) = Some (j, t)" "fd = of_to_fd t j"
    using al by (auto simp: fd_alloc_def split: option.splits)
  note a = of_alloc_Some [OF j(1)]
  have jl: "j < MAX_OPEN_FILES" using a fat_invD(3) [OF inv] by simp
  have fj: "fd_index fd = j" using j(2) fd_index_of_to_fd [OF jl] by simp
  let ?u = "oftab s ! j"
  have si: "slot_inv ?u (cnt res_busy j (add_mset (R_obj (Handle k i)) R)) (cnt res_closing j (add_mset (R_obj (Handle k i)) R))"
    using fat_invD(5) [OF inv jl] .
  have au: "abs_slot ?u = A_free" using a by (simp add: abs_slot_def)
  have c0: "cnt res_closing j R = 0" using si au by (simp add: slot_inv_def)
  have len: "j < length (oftab s)" using a by simp
  have inv1: "fat_inv (s\<lparr>oftab := (oftab s)[j := ?u\<lparr>of_state := state_allocated\<rparr>]\<rparr>) (add_mset (R_obj (Handle k i)) R)"
  proof (rule fat_inv_slot [OF inv jl])
    show "slot_inv (?u\<lparr>of_state := state_allocated\<rparr>) (cnt res_busy j (add_mset (R_obj (Handle k i)) R))
      (cnt res_closing j (add_mset (R_obj (Handle k i)) R))"
      using si au c0 by (simp add: slot_inv_def wf_slot_def abs_slot_def aslot_count_def)
    show "res_ok ((oftab s)[j := ?u\<lparr>of_state := state_allocated\<rparr>]) r" if "r \<in># add_mset (R_obj (Handle k i)) R" for r
      using fat_invD(6) [OF inv that] len by (cases r) (auto simp: nth_list_update)
  qed (use fat_invD(4) [OF inv] au in \<open>auto simp: abs_slot_def\<close>)
  show ?thesis
  proof (cases "on_slot (slot_apply (Op_set k (Some (Handle k i)))) t fd")
    case None
    then show ?thesis using fat_inv_drop [OF inv1] a by (simp add: ignored_def)
  next
    case (Some t')
    have "fat_inv ((s\<lparr>oftab := t\<rparr>)\<lparr>oftab := t'\<rparr>) R"
      by (rule fat_set_slot [where x = "R_obj (Handle k i)" and fd = fd]) (use inv1 a Some c0 fj in auto)
    with Some show ?thesis by (simp add: ignored_def)
  qed
qed

subsection \<open>The handlers keep the invariant\<close>

definition fat_ok :: "fat_state \<Rightarrow> fat_failure \<Rightarrow> bool" where
  "fat_ok s f \<longleftrightarrow> f = Fail_path_overrun \<or> (\<forall>v \<in> set (oftab s). of_state v \<noteq> state_free)"

abbreviation "fgood \<equiv> good fat_inv fat_ok"

lemma used_other_fields [simp]:
  "used h (s\<lparr>fat_share := m\<rparr>) = used h s" "used h (s\<lparr>fs_initialised := b\<rparr>) = used h s"
  by (cases "(h, s)" rule: used.cases; simp)+

lemma fat_inv_other_fields [simp]:
  "fat_inv (s\<lparr>fat_share := m\<rparr>) R = fat_inv s R" "fat_inv (s\<lparr>fs_initialised := b\<rparr>) R = fat_inv s R"
  by (simp_all add: fat_inv_def)

lemma fat_inv_none: "fat_inv s R \<Longrightarrow> size R < FAT_WORKER_THREAD_NUM \<Longrightarrow> fat_inv s (add_mset R_none R)"
  by (simp add: fat_inv_def)

lemma fat_inv_size: "fat_inv s (add_mset x R) \<Longrightarrow> size R < FAT_WORKER_THREAD_NUM"
  by (simp add: fat_inv_def)

text \<open>A suspension that holds nothing.\<close>

lemma good_plain:
  assumes "fat_inv s R" "size R < FAT_WORKER_THREAD_NUM" "\<And>r s' R'. fat_inv s' R' \<Longrightarrow> fgood R' (k r s')"
  shows "fgood R (Suspend s c k)"
proof (rule good_suspend [where x = R_none])
  show "fat_inv s (add_mset R_none R)" by (rule fat_inv_none [OF assms(1,2)])
  show "fgood R' (k r s')" if "fat_inv s' (add_mset R_none R')" for r s' R'
    by (rule assms(3) [OF fat_inv_drop [OF that]]) simp
qed

lemma good_end:
  assumes inv: "fat_inv s (add_mset (R_busy fd) R)" and k: "\<And>s'. fat_inv s' R \<Longrightarrow> fgood R (k s')"
  shows "fgood R (end_op fd s k)"
proof -
  obtain t where t: "fd_end_op (oftab s) fd = Some t" "fat_inv (s\<lparr>oftab := t\<rparr>) R" by (rule fat_end [OF inv])
  show ?thesis using k [OF t(2)] by (simp add: end_op_def asserted_def t(1))
qed

lemma good_begin:
  assumes inv: "fat_inv s R" "size R < FAT_WORKER_THREAD_NUM" and n: "fgood R e"
    and k: "\<And>h t. fat_inv (s\<lparr>oftab := t\<rparr>) (add_mset (R_busy fd) R) \<Longrightarrow> fgood R (k h t)"
  shows "fgood R (case fd_begin_op kind (oftab s) fd of None \<Rightarrow> e | Some (h, t) \<Rightarrow> k h t)"
proof (cases "fd_begin_op kind (oftab s) fd")
  case (Some x)
  with fat_begin(1) [OF inv, of kind fd "fst x" "snd x"] k show ?thesis by (cases x) simp
qed (use n in simp)

text \<open>A request on one descriptor: begin, one library call, and the rest.\<close>

lemma good_fd_request:
  assumes inv: "fat_inv s R" "size R < FAT_WORKER_THREAD_NUM"
    and k: "\<And>h a s' R'. fat_inv s' (add_mset (R_busy fd) R') \<Longrightarrow> fgood R' (k h a s')"
  shows "fgood R (case fd_begin_op kind (oftab s) fd of None \<Rightarrow> Return s out
    | Some (h, t) \<Rightarrow> Suspend (s\<lparr>oftab := t\<rparr>) (c h) (k h))"
  by (rule good_begin [OF inv]) (use inv k in \<open>auto intro: good_return good_suspend [where x = "R_busy fd"]\<close>)

lemma good_seek_loop:
  "fat_inv s (add_mset (R_busy fd) R) \<Longrightarrow> fgood R (dir_seek_loop fd dir n ret s)"
proof (induction n arbitrary: ret s R)
  case 0
  then show ?case by (auto intro: good_end good_return)
next
  case (Suc n)
  then show ?case by (auto intro: good_end good_return good_suspend [where x = "R_busy fd"])
qed

text \<open>Closing: the operation that reads the structure is begun and ended at once.\<close>

lemma good_close:
  assumes inv: "fat_inv s R" "size R < FAT_WORKER_THREAD_NUM"
    and k: "\<And>i a s' R'. fat_inv s' (add_mset (R_close fd (Handle kind i)) R') \<Longrightarrow> fgood R' (k (Some (Handle kind i)) a s')"
  shows "fgood R (case fd_begin_op kind (oftab s) fd of None \<Rightarrow> Return s out
    | Some (h, t) \<Rightarrow> end_op fd (s\<lparr>oftab := t\<rparr>) (\<lambda>s. case fd_unset (oftab s) fd of
        None \<Rightarrow> Return s out' | Some t \<Rightarrow> Suspend (s\<lparr>oftab := t\<rparr>) (c h) (k h)))"
proof (cases "fd_begin_op kind (oftab s) fd")
  case None
  with inv show ?thesis by (auto intro: good_return)
next
  case (Some x)
  then obtain h t where ht: "fd_begin_op kind (oftab s) fd = Some (h, t)" "x = (h, t)" by (cases x) auto
  note b = fat_begin [OF inv ht(1)]
  obtain i n where a: "h = Some (Handle kind i)" "abs_slot (t ! fd_index fd) = A_open kind h (Suc n)" using b(2) by blast
  from fat_end [OF b(1)] obtain t' where t': "fd_end_op t fd = Some t'" "fat_inv (s\<lparr>oftab := t'\<rparr>) R"
    "abs_slot (t' ! fd_index fd) = A_open kind h n" using a(2) by (simp, metis)
  have "fgood R (case fd_unset t' fd of None \<Rightarrow> Return (s\<lparr>oftab := t'\<rparr>) out'
      | Some t2 \<Rightarrow> Suspend (s\<lparr>oftab := t2\<rparr>) (c h) (k h))"
  proof (cases "fd_unset t' fd")
    case None
    then show ?thesis using t'(2) by (auto intro: good_return)
  next
    case (Some t2)
    have "fat_inv (s\<lparr>oftab := t2\<rparr>) (add_mset (R_close fd (Handle kind i)) R)"
      using fat_unset [OF t'(2) inv(2), of fd t2 kind "Handle kind i" n] Some t'(3) a(1) by simp
    then show ?thesis using Some k a(1) by (auto intro: good_suspend [where x = "R_close fd (Handle kind i)"])
  qed
  with ht t'(1) show ?thesis by (cases "fd_unset t' fd") (simp_all add: end_op_def asserted_def)
qed

text \<open>The rules in the form the handlers need: a request with nothing to hold, and the two ways a
  structure is given back.\<close>

lemma good_path_request:
  assumes "fat_inv s R" "size R < FAT_WORKER_THREAD_NUM" "\<And>b a s' R'. fat_inv s' R' \<Longrightarrow> fgood R' (k b a s')"
  shows "fgood R (case x of None \<Rightarrow> Return s out | Some b \<Rightarrow> Suspend s (c b) (k b))"
  using assms by (cases x) (auto intro: good_return good_plain)

lemma good_give:
  assumes inv: "fat_inv s (add_mset (R_obj h) R)" and k: "\<And>s'. fat_inv s' R \<Longrightarrow> fgood R (k s')"
    and f: "f = (if (\<exists>i. h = Handle File i) then file_free (Some h) s else dir_free (Some h) s)"
  shows "fgood R (asserted s f k)"
proof -
  have ok: "handle_ok h" by (rule fat_res_handle_ok [OF inv, of "R_obj h"]) simp_all
  note g = fat_give [OF inv ok]
  have "f = Some (set_used h False s)"
  proof (cases h)
    case (Handle kd i)
    with g(1) f file_dir_free show ?thesis by (cases kd) simp_all
  qed
  then show ?thesis using k [OF g(2)] by (simp add: asserted_def)
qed

lemma good_open_fd:
  assumes inv: "fat_inv s (add_mset (R_obj (Handle kd i)) R)"
    and st: "\<And>t fd. setf t fd = on_slot (slot_apply (Op_set kd (Some (Handle kd i)))) t fd"
  shows "fgood R (case fd_alloc (oftab s) of None \<Rightarrow> Failed s Fail_assert
    | Some (fd, t) \<Rightarrow> let s = s\<lparr>oftab := t\<rparr>; s = ignored s (setf (oftab s) fd) in Return s (out, Some fd))"
proof (cases "fd_alloc (oftab s)")
  case None
  then have "of_alloc (oftab s) = None" by (auto simp: fd_alloc_def split: option.splits)
  then have "fat_ok s Fail_assert" by (simp add: fat_ok_def of_alloc_None)
  with None show ?thesis by (simp add: good_failed)
next
  case (Some x)
  obtain fd t where x: "x = (fd, t)" by (cases x) auto
  have "fat_inv (ignored (s\<lparr>oftab := t\<rparr>) (setf t fd)) R"
    using fat_open_fd [OF inv] Some x st by simp
  with Some x show ?thesis by (simp add: good_return Let_def)
qed

lemma good_initialise: "fat_inv s R \<Longrightarrow> size R < FAT_WORKER_THREAD_NUM \<Longrightarrow> fgood R (handle_initialise p s)"
  by (auto simp: handle_initialise_def intro!: good_return good_plain)

lemma good_deinitialise: "fat_inv s R \<Longrightarrow> size R < FAT_WORKER_THREAD_NUM \<Longrightarrow> fgood R (handle_deinitialise p s)"
  by (auto simp: handle_deinitialise_def intro!: good_return good_plain)

lemma good_file_open:
  assumes inv: "fat_inv s R" "size R < FAT_WORKER_THREAD_NUM"
  shows "fgood R (handle_file_open p s)"
proof (cases "client_path s (fo_path (file_open_params p))")
  case None
  then show ?thesis using inv by (simp add: handle_file_open_def good_return)
next
  case (Some path)
  show ?thesis
  proof (cases "FS_MAX_NAME_LENGTH + 1 < length path")
    case True
    have "fat_ok s Fail_path_overrun" by (simp add: fat_ok_def)
    with Some True show ?thesis by (simp add: handle_file_open_def good_failed)
  next
    case False
    note short = this
    show ?thesis
    proof (cases "file_alloc s")
      case None
      then show ?thesis using inv Some short by (simp add: handle_file_open_def good_return)
    next
      case (Some x)
      obtain h s1 where x: "file_alloc s = Some (h, s1)" using Some by (cases x) auto
      obtain i where h: "handle_ok h" "\<not> used h s" "s1 = set_used h True s" "h = Handle File i"
        using file_dir_alloc(1) [OF x fat_invD(1) [OF inv(1)]] by blast
      have i1: "fat_inv s1 (add_mset (R_obj (Handle File i)) R)"
        using fat_take [OF inv h(1,2)] h(3,4) by simp
      show ?thesis
        using \<open>client_path s (fo_path (file_open_params p)) = Some path\<close> short x h(4)
        by (auto simp: handle_file_open_def Let_def intro!: good_suspend [where x = "R_obj (Handle File i)"] i1
            good_give [where h = "Handle File i"] good_return
            good_open_fd [where setf = "\<lambda>t fd. fd_set_file t fd (Some (Handle File i))"]
            simp: fd_set_file_def)
    qed
  qed
qed

lemma good_dir_open:
  assumes inv: "fat_inv s R" "size R < FAT_WORKER_THREAD_NUM"
  shows "fgood R (handle_dir_open p s)"
proof (cases "client_path s (dir_open_path p)")
  case None
  then show ?thesis using inv by (simp add: handle_dir_open_def good_return)
next
  case (Some path)
  show ?thesis
  proof (cases "dir_alloc s")
    case None
    then show ?thesis using inv Some by (simp add: handle_dir_open_def good_return)
  next
    case (Some x)
    obtain h s1 where x: "dir_alloc s = Some (h, s1)" using Some by (cases x) auto
    obtain i where h: "handle_ok h" "\<not> used h s" "s1 = set_used h True s" "h = Handle Dir i"
      using file_dir_alloc(2) [OF x fat_invD(2) [OF inv(1)]] by blast
    have i1: "fat_inv s1 (add_mset (R_obj (Handle Dir i)) R)"
      using fat_take [OF inv h(1,2)] h(3,4) by simp
    show ?thesis
      using \<open>client_path s (dir_open_path p) = Some path\<close> x h(4)
      by (auto simp: handle_dir_open_def Let_def intro!: good_suspend [where x = "R_obj (Handle Dir i)"] i1
          good_give [where h = "Handle Dir i"] good_return
          good_open_fd [where setf = "\<lambda>t fd. fd_set_dir t fd (Some (Handle Dir i))"]
          simp: fd_set_dir_def)
  qed
qed

lemma good_two_calls:
  assumes "fat_inv s (add_mset (R_busy fd) R)" "\<And>a s' R'. fat_inv s' (add_mset (R_busy fd) R') \<Longrightarrow> fgood R' (k a s')"
  shows "fgood R (if b then end_op fd s (\<lambda>s. Return s out) else Suspend s c k)"
  using assms by (auto intro!: good_end good_return good_suspend [where x = "R_busy fd"])

lemma good_file_io:
  assumes inv: "fat_inv s R" "size R < FAT_WORKER_THREAD_NUM"
  shows "fgood R (handle_file_write p s)" "fgood R (handle_file_read p s)"
proof -
  show "fgood R (handle_file_write p s)"
    using inv
    by (cases "client_buffer (io_buf (file_write_params p))")
      (auto simp: handle_file_write_def Let_def fd_begin_op_kinds
        intro!: good_return good_fd_request [where k = "\<lambda>h a s. _ h a s"] good_two_calls good_end)
  show "fgood R (handle_file_read p s)"
    using inv
    by (cases "client_buffer (io_buf (file_read_params p))")
      (auto simp: handle_file_read_def Let_def fd_begin_op_kinds
        intro!: good_return good_fd_request [where k = "\<lambda>h a s. _ h a s"] good_two_calls good_end)
qed

lemma good_fd_simple:
  assumes inv: "fat_inv s R" "size R < FAT_WORKER_THREAD_NUM"
  shows "fgood R (handle_file_size p s)" "fgood R (handle_file_truncate p s)" "fgood R (handle_file_sync p s)"
    "fgood R (handle_dir_read p s)" "fgood R (handle_dir_tell p s)" "fgood R (handle_dir_rewind p s)"
    "fgood R (handle_dir_seek p s)"
proof -
  show "fgood R (handle_file_size p s)" using inv
    by (auto simp: handle_file_size_def Let_def fd_begin_op_kinds intro!: good_begin good_return good_ask good_end)
  show "fgood R (handle_dir_tell p s)" using inv
    by (auto simp: handle_dir_tell_def Let_def fd_begin_op_kinds intro!: good_begin good_return good_ask good_end)
  show "fgood R (handle_file_truncate p s)" using inv
    by (auto simp: handle_file_truncate_def Let_def fd_begin_op_kinds
        intro!: good_fd_request good_two_calls good_end good_return)
  show "fgood R (handle_file_sync p s)" using inv
    by (auto simp: handle_file_sync_def Let_def fd_begin_op_kinds intro!: good_fd_request good_end good_return)
  show "fgood R (handle_dir_rewind p s)" using inv
    by (auto simp: handle_dir_rewind_def Let_def fd_begin_op_kinds intro!: good_fd_request good_end good_return)
  show "fgood R (handle_dir_seek p s)" using inv
    by (auto simp: handle_dir_seek_def Let_def fd_begin_op_kinds intro!: good_fd_request good_seek_loop)
  show "fgood R (handle_dir_read p s)" using inv
    by (cases "client_buffer (dr_buf (dir_read_params p))")
      (auto simp: handle_dir_read_def Let_def fd_begin_op_kinds intro!: good_fd_request good_end good_return)
qed

lemma good_path_simple:
  assumes inv: "fat_inv s R" "size R < FAT_WORKER_THREAD_NUM"
  shows "fgood R (handle_file_remove p s)" "fgood R (handle_dir_create p s)" "fgood R (handle_dir_remove p s)"
    "fgood R (handle_rename p s)" "fgood R (handle_stat p s)"
proof -
  show "fgood R (handle_file_remove p s)" using inv
    by (auto simp: handle_file_remove_def intro!: good_path_request good_return)
  show "fgood R (handle_dir_create p s)" using inv
    by (auto simp: handle_dir_create_def intro!: good_path_request good_return)
  show "fgood R (handle_dir_remove p s)" using inv
    by (auto simp: handle_dir_remove_def intro!: good_path_request good_return)
  show "fgood R (handle_rename p s)" using inv
    by (cases "client_path s (rn_old_path (rename_params p))")
      (auto simp: handle_rename_def intro!: good_path_request good_return)
  show "fgood R (handle_stat p s)" using inv
    by (cases "client_buffer (sp_buf (stat_params p))")
      (auto simp: handle_stat_def Let_def intro!: good_path_request good_return)
qed

lemma good_file_close:
  assumes inv: "fat_inv s R" "size R < FAT_WORKER_THREAD_NUM"
  shows "fgood R (handle_file_close p s)"
  unfolding handle_file_close_def Let_def fd_begin_op_kinds
proof (rule good_close [OF inv])
  let ?fd = "file_close_fd p"
  fix i a s R
  assume c: "fat_inv s (add_mset (R_close ?fd (Handle File i)) R)"
  show "fgood R (if fr_res a = FR_OK
      then asserted s (file_free (Some (Handle File i)) s) (\<lambda>s. Return (ignored s (fd_free (oftab s) ?fd)) (ok_or_error (fr_res a), None))
      else Return (ignored s (fd_set_file (oftab s) ?fd (Some (Handle File i)))) (ok_or_error (fr_res a), None))"
  proof (cases "fr_res a = FR_OK")
    case True
    obtain t where t: "fd_free (oftab s) ?fd = Some t" "fat_inv (s\<lparr>oftab := t\<rparr>) (add_mset (R_obj (Handle File i)) R)"
      by (rule fat_free_fd [OF c])
    have ok: "handle_ok (Handle File i)" by (rule fat_res_handle_ok [OF c, of "R_close ?fd (Handle File i)"]) simp_all
    note g = fat_give [OF t(2) ok]
    have "used (Handle File i) s" using g(1) by simp
    from file_dir_free(1) [OF this] have f: "file_free (Some (Handle File i)) s = Some (set_used (Handle File i) False s)" .
    have "ignored (set_used (Handle File i) False s) (fd_free (oftab (set_used (Handle File i) False s)) ?fd) =
        set_used (Handle File i) False (s\<lparr>oftab := t\<rparr>)"
      using t(1) by (simp add: ignored_def)
    with g(2) True f show ?thesis by (simp add: asserted_def good_return del: set_used.simps)
  next
    case False
    note cl = fat_closing [OF c]
    have "aslot_apply (Op_set File (Some (Handle File i))) (abs_slot (oftab s ! fd_index ?fd)) = Some (A_open File (Some (Handle File i)) 0)"
      using cl(1) by simp
    from fat_on_slot [OF c cl(3) this] obtain t where
      t: "on_slot (slot_apply (Op_set File (Some (Handle File i)))) (oftab s) ?fd = Some t" .
    have "fat_inv (s\<lparr>oftab := t\<rparr>) R"
      by (rule fat_set_slot [OF c _ _ cl(2) t]) simp_all
    then show ?thesis using False t by (simp add: fd_set_file_def ignored_def good_return)
  qed
qed

lemma good_dir_close:
  assumes inv: "fat_inv s R" "size R < FAT_WORKER_THREAD_NUM"
  shows "fgood R (handle_dir_close p s)"
  unfolding handle_dir_close_def Let_def fd_begin_op_kinds
proof (rule good_close [OF inv])
  let ?fd = "dir_close_fd p"
  fix i a s R
  assume c: "fat_inv s (add_mset (R_close ?fd (Handle Dir i)) R)"
  show "fgood R (if fr_res a = FR_OK
      then asserted (ignored s (fd_free (oftab s) ?fd)) (dir_free (Some (Handle Dir i)) (ignored s (fd_free (oftab s) ?fd)))
        (\<lambda>s. Return s (ok_or_error (fr_res a), None))
      else Return s (ok_or_error (fr_res a), None))"
  proof (cases "fr_res a = FR_OK")
    case True
    obtain t where t: "fd_free (oftab s) ?fd = Some t" "fat_inv (s\<lparr>oftab := t\<rparr>) (add_mset (R_obj (Handle Dir i)) R)"
      by (rule fat_free_fd [OF c])
    have "fgood R (asserted (s\<lparr>oftab := t\<rparr>) (dir_free (Some (Handle Dir i)) (s\<lparr>oftab := t\<rparr>)) (\<lambda>s. Return s (ok_or_error (fr_res a), None)))"
      by (rule good_give [OF t(2)]) (auto intro: good_return)
    with True t(1) show ?thesis by (simp add: ignored_def)
  next
    case False
    have "fat_inv s R" by (rule fat_inv_drop [OF c]) simp
    with False show ?thesis by (simp add: good_return)
  qed
qed

definition fat_request :: "fs_cmd_type \<times> fs_cmd_params \<Rightarrow> fat_state \<Rightarrow> fat_co" where
  "fat_request = (\<lambda>(c, p). operation_functions c p)"

text \<open>Between two segments the client may write to its share of memory.\<close>

definition client_writes :: "fat_state \<Rightarrow> fat_state \<Rightarrow> bool" where
  "client_writes s s' \<longleftrightarrow> (\<exists>mem. s' = s\<lparr>fat_share := mem\<rparr>)"

lemma good_fat_request:
  assumes "fat_inv s R" "size R < FAT_WORKER_THREAD_NUM"
  shows "fgood R (fat_request cp s)"
proof -
  obtain c p where cp: "cp = (c, p)" by (cases cp)
  show ?thesis
    unfolding cp fat_request_def prod.case
    using good_initialise [OF assms, of p] good_deinitialise [OF assms, of p] good_file_open [OF assms, of p]
      good_dir_open [OF assms, of p] good_file_io [OF assms, of p] good_fd_simple [OF assms, of p]
      good_path_simple [OF assms, of p] good_file_close [OF assms, of p] good_dir_close [OF assms, of p]
    by (cases c) simp_all
qed

interpretation fat: cothreads fat_inv fat_ok fat_request client_writes FAT_WORKER_THREAD_NUM
  by unfold_locales (auto simp: good_fat_request client_writes_def)

abbreviation fat_reachable :: "share \<Rightarrow> (fat_state, fat_call, fat_answer, fat_out, fat_failure) world \<Rightarrow> bool" where
  "fat_reachable mem \<equiv> co_reachable fat_request client_writes FAT_WORKER_THREAD_NUM (Running (fat_init_state mem) [])"

lemma fat_init_inv: "fat_inv (fat_init_state mem) {#}"
proof -
  have "scnt h (replicate MAX_OPEN_FILES \<lparr>of_state = state_free, of_handle = None, of_busy_count = 0, of_generation = 0\<rparr>) = 0" for h
    by (simp add: scnt_def cnt_def filter_mset_eq_conv abs_slot_def)
  then show ?thesis
    by (simp add: fat_inv_def fat_init_state_def oftable_init_def slot_inv_def wf_slot_def abs_slot_def aslot_count_def)
qed

subsection \<open>Properties\<close>

lemma scnt_two:
  assumes "i < length t" "j < length t" "i \<noteq> j"
    and "slot_obj (abs_slot (t ! i)) = Some h" "slot_obj (abs_slot (t ! j)) = Some h"
  shows "2 \<le> scnt h t"
proof -
  let ?z = "\<lparr>of_state = state_free, of_handle = None, of_busy_count = 0, of_generation = 0\<rparr> :: fat_handle oftable_slot"
  have z: "slot_obj (abs_slot ?z) = None" by (simp add: abs_slot_def)
  have "scnt h (t[i := ?z]) + 1 = scnt h t" using scnt_update [OF assms(1), of h ?z] assms(4) z by simp
  moreover have "scnt h (t[i := ?z, j := ?z]) + 1 = scnt h (t[i := ?z])"
    using scnt_update [of j "t[i := ?z]" h ?z] assms z by simp
  ultimately show ?thesis by simp
qed

lemma scnt_one:
  assumes "i < length t" "slot_obj (abs_slot (t ! i)) = Some h"
  shows "1 \<le> scnt h t"
proof -
  let ?z = "\<lparr>of_state = state_free, of_handle = None, of_busy_count = 0, of_generation = 0\<rparr> :: fat_handle oftable_slot"
  have "slot_obj (abs_slot ?z) = None" by (simp add: abs_slot_def)
  then show ?thesis using scnt_update [OF assms(1), of h ?z] assms(2) by simp
qed

text \<open>C11: whatever the clients ask for, whatever FatFs answers, and however the four worker threads
  interleave, two descriptors never share a file or directory structure, the structure of an open
  descriptor is marked as used, and a descriptor's busy count never exceeds the number of suspended
  requests, so that it is idle when there are none. The assertions of the handlers hold, except that the
  server stops when a file or directory is opened while all 256 descriptors are taken, or when a path
  of more than 255 bytes is given to the open command.\<close>

theorem fat_server_safe:
  assumes "co_reachable fat_request client_writes FAT_WORKER_THREAD_NUM (Running (fat_init_state mem) []) w"
  shows "case w of
      Crashed s f \<Rightarrow> f = Fail_path_overrun \<or> (\<forall>v \<in> set (oftab s). of_state v \<noteq> state_free)
    | Running s ts \<Rightarrow>
        (\<forall>i < MAX_OPEN_FILES. \<forall>h. slot_obj (abs_slot (oftab s ! i)) = Some h \<longrightarrow> used h s \<and>
          (\<forall>j < MAX_OPEN_FILES. slot_obj (abs_slot (oftab s ! j)) = Some h \<longrightarrow> j = i)) \<and>
        (\<forall>i < MAX_OPEN_FILES. aslot_count (abs_slot (oftab s ! i)) \<le> length ts) \<and>
        length ts \<le> FAT_WORKER_THREAD_NUM"
proof (cases w)
  case (Crashed s f)
  with fat.reachable_invariant [OF assms fat_init_inv] show ?thesis by (simp add: fat_ok_def)
next
  case (Running s ts)
  with fat.reachable_invariant [OF assms fat_init_inv] obtain R where R: "size R = length ts" "fat_inv s R" by auto
  note I = fat_invD [OF R(2)]
  have one: "j = i" if "i < MAX_OPEN_FILES" "j < MAX_OPEN_FILES" "slot_obj (abs_slot (oftab s ! i)) = Some h"
    "slot_obj (abs_slot (oftab s ! j)) = Some h" for i j h
  proof (rule ccontr)
    assume "j \<noteq> i"
    then have "2 \<le> scnt h (oftab s)" using scnt_two [of i "oftab s" j h] that I(3) by simp
    then show False using I(7) [of h] by (cases "used h s") simp_all
  qed
  have u: "used h s" if "i < MAX_OPEN_FILES" "slot_obj (abs_slot (oftab s ! i)) = Some h" for i h
    using scnt_one [of i "oftab s" h] that I(3) I(7) [of h] by (cases "used h s") simp_all
  have "aslot_count (abs_slot (oftab s ! i)) \<le> length ts" if "i < MAX_OPEN_FILES" for i
    using I(5) [OF that] cnt_le_size [of res_busy i R] R(1) by (simp add: slot_inv_def)
  with one u R(1) I(4) Running show ?thesis by auto
qed

theorem fat_server_safe_witness:
  "\<exists>s ts. co_reachable fat_request client_writes FAT_WORKER_THREAD_NUM (Running (fat_init_state (\<lambda>_. 97)) []) (Running s ts) \<and>
    length ts = 1 \<and> file_used s ! 0 \<and> length ts \<le> FAT_WORKER_THREAD_NUM"
proof -
  let ?s = "fat_init_state (\<lambda>_. 97)" and ?p = "[0, 3, 0, 0, 0, 0] :: u64 list"
  let ?s1 = "?s\<lparr>file_used := (replicate MAX_OPEN_FILES False)[0 := True]\<rparr>"
  have path: "client_path ?s (fo_path (file_open_params ?p)) = Some [97, 97, 97, 0]"
    by (simp add: fs_copy_client_path_def fs_get_client_buffer_def file_open_params_def buffer_at_def
        FAT_FS_DATA_REGION_SIZE_def FS_MAX_PATH_LENGTH_def share_bytes_def fat_init_state_def upt_rec)
  have "find_index Not (replicate MAX_OPEN_FILES False) = Some 0" by (rule find_index_SomeI) (simp_all add: MAX_OPEN_FILES_def)
  then have alloc: "file_alloc ?s = Some (FIL_at 0, ?s1)" by (simp add: file_alloc_def fat_init_state_def)
  obtain c k where k: "fat_request (FS_CMD_FILE_OPEN, ?p) ?s = Suspend ?s1 c k"
    using path alloc by (simp add: fat_request_def handle_file_open_def FS_MAX_NAME_LENGTH_def)
  have "co_step fat_request client_writes FAT_WORKER_THREAD_NUM (Running ?s []) (Running ?s1 ([] @ [k]))"
    by (rule step_start [where a = "(FS_CMD_FILE_OPEN, ?p)"])
      (simp add: FAT_WORKER_THREAD_NUM_def, unfold k, rule continues_suspend)
  then have r: "co_reachable fat_request client_writes FAT_WORKER_THREAD_NUM (Running ?s []) (Running ?s1 [k])" by simp
  have u: "file_used ?s1 ! 0" by (simp add: MAX_OPEN_FILES_def)
  have "length [k] \<le> FAT_WORKER_THREAD_NUM"
    using fat_server_safe [OF r] unfolding world.case by blast
  with r u show ?thesis by (intro exI conjI) (assumption | simp)+
qed

text \<open>opening a file copies the path into a buffer of 256 bytes, but the copy is bounded by the path
  limit of 4095: exactly the paths of 256 to 4095 bytes overrun the buffer.\<close>

theorem fat_open_overruns_name_buffer:
  "handle_file_open p s = Failed s Fail_path_overrun \<longleftrightarrow>
    (let buf = fo_path (file_open_params p)
     in 256 \<le> unat (buf_size buf) \<and> unat (buf_size buf) \<le> 4095 \<and>
        unat (buf_offset buf) + unat (buf_size buf) \<le> 0x4000000)"
proof -
  let ?b = "fo_path (file_open_params p)"
  have u: "unat FAT_FS_DATA_REGION_SIZE = 0x4000000" by (simp add: FAT_FS_DATA_REGION_SIZE_def)
  note c = client_path_iff [of "fat_share s" FAT_FS_DATA_REGION_SIZE ?b, unfolded u]
  show ?thesis
  proof (cases "client_path s ?b")
    case None
    then show ?thesis
      using c [of "map (\<lambda>i. fat_share s (buf_offset ?b + of_nat i)) [0..<unat (buf_size ?b)] @ [0]"]
      by (auto simp: handle_file_open_def Let_def)
  next
    case (Some bs)
    then have "length bs = unat (buf_size ?b) + 1" using c [of bs] by simp
    with Some c [of bs] show ?thesis
      by (auto simp: handle_file_open_def Let_def FS_MAX_NAME_LENGTH_def split: option.split)
  qed
qed

lemma fat_dir_read_never_ends_parts:
  "may_return (handle_dir_read p s) (FS_STATUS_END_OF_DIRECTORY, d) \<longleftrightarrow> False"
  "handle_dir_read p s = Suspend s1 c k \<Longrightarrow> fr_name a = [] \<Longrightarrow> may_return (k a s2) (st, d) \<Longrightarrow> st = FS_STATUS_ERROR"
proof -
  show "may_return (handle_dir_read p s) (FS_STATUS_END_OF_DIRECTORY, d) \<longleftrightarrow> False"
    by (auto simp: handle_dir_read_def Let_def end_op_def asserted_def split: option.splits if_splits)
  show "handle_dir_read p s = Suspend s1 c k \<Longrightarrow> fr_name a = [] \<Longrightarrow> may_return (k a s2) (st, d) \<Longrightarrow> st = FS_STATUS_ERROR"
    by (auto simp: handle_dir_read_def Let_def end_op_def asserted_def split: option.splits if_splits)
qed

text \<open>Reading a directory never reports its end: at the last entry FatFs yields an empty name, and the
  handler replaces the result code by the end-of-directory status of the protocol, but then maps every
  code except zero to the unspecified error, with a name of length zero.\<close>

theorem fat_dir_read_never_ends:
  "\<not> may_return (handle_dir_read p s) (FS_STATUS_END_OF_DIRECTORY, d) \<and>
   (handle_dir_read p s = Suspend s1 c k \<longrightarrow> fr_name a = [] \<longrightarrow> may_return (k a s2) (st, d) \<longrightarrow>
      st = FS_STATUS_ERROR)"
  using fat_dir_read_never_ends_parts by blast

definition ex_dir_state :: fat_state where
  "ex_dir_state = (fat_init_state (\<lambda>_. 0))\<lparr>oftab := oftable_init[0 :=
     \<lparr>of_state = state_open_dir, of_handle = Some (DIR_at 0), of_busy_count = 0, of_generation = 0\<rparr>]\<rparr>"

definition ex_no_entry :: fat_answer where
  "ex_no_entry = \<lparr>fr_res = FR_OK, fr_count = 0, fr_data = [], fr_name = [], fr_fsize = 0, fr_ftime = 0,
     fr_attrib = 0, fr_value = 0, fr_ssize = 0\<rparr>"

theorem fat_dir_read_never_ends_witness:
  "\<exists>s1 k. handle_dir_read [0, 0, 10, 0, 0, 0] ex_dir_state = Suspend s1 (F_readdir (Some (DIR_at 0))) k \<and>
    (\<forall>st d. may_return (k ex_no_entry s1) (st, d) \<longrightarrow> st = FS_STATUS_ERROR)"
proof -
  let ?p = "[0, 0, 10, 0, 0, 0] :: u64 list"
  have i: "fd_index 0 = 0" "fd_generation 0 = 0" by (simp_all add: fd_index_def fd_generation_def)
  have s0: "oftab ex_dir_state ! 0 = \<lparr>of_state = state_open_dir, of_handle = Some (DIR_at 0), of_busy_count = 0, of_generation = 0\<rparr>"
    by (simp add: ex_dir_state_def oftable_init_def MAX_OPEN_FILES_def)
  have b: "client_buffer (dr_buf (dir_read_params ?p)) = Some 0"
    by (simp add: fs_get_client_buffer_def dir_read_params_def buffer_at_def FAT_FS_DATA_REGION_SIZE_def)
  have "fd_to_of (oftab ex_dir_state) 0 = Some 0" by (simp add: fd_to_of_Some i s0)
  then obtain t where t: "fd_begin_op_dir (oftab ex_dir_state) (dr_fd (dir_read_params ?p)) = Some (Some (DIR_at 0), t)"
    by (simp add: fd_begin_op_dir_def on_slot_def s0 i dir_read_params_def)
  obtain s1 k where k: "handle_dir_read ?p ex_dir_state = Suspend s1 (F_readdir (Some (DIR_at 0))) k"
    using b t by (simp add: handle_dir_read_def Let_def)
  have "fr_name ex_no_entry = []" by (simp add: ex_no_entry_def)
  with fat_dir_read_never_ends [of ?p ex_dir_state] k show ?thesis by blast
qed

end
