(* ===== verification/Fat_Requests.thy ===== *)
theory Fat_Requests
  imports Fat_Safety
begin

text \<open>
  The requests of the FAT server from their start to their answer. A run of the server is recorded with each
  request: the state it was started in, the calls of FatFs it has made with their answers, and its reply. The
  reference is a table (\<open>fat_work\<close>) of the calls each command stands for; a request with wrong arguments, an unknown
  descriptor or without a free structure stands for none.
\<close>

subsection \<open>Recorded runs\<close>

type_synonym fat_request = "fs_cmd_type \<times> fs_cmd_params"
type_synonym fat_trace = "(fat_call \<times> fat_answer) list"

text \<open>A request that waits for FatFs: the state it was started in, the calls that were answered, the call it waits for
  and what is left of its handler.\<close>

record fat_job =
  jb_request :: fat_request
  jb_start :: fat_state
  jb_trace :: fat_trace
  jb_call :: fat_call
  jb_rest :: "fat_answer \<Rightarrow> fat_state \<Rightarrow> fat_co"

record fat_reply =
  rp_request :: fat_request
  rp_start :: fat_state
  rp_trace :: fat_trace
  rp_status :: fs_status
  rp_data :: "u64 option"

text \<open>The server with the requests that were started, those that wait and the replies; or stopped by an assertion.\<close>

datatype fat_server =
    Serving fat_state "fat_request list" "fat_job list" "fat_reply list"
  | Stopped fat_state fat_failure

inductive proceeds :: "fat_request \<Rightarrow> fat_state \<Rightarrow> fat_trace \<Rightarrow> fat_co \<Rightarrow> fat_request list \<Rightarrow> fat_job list \<Rightarrow> fat_reply list
    \<Rightarrow> fat_server \<Rightarrow> bool"
  where
  proceeds_failed: "proceeds a s0 tr (Failed s f) reqs jobs reps (Stopped s f)"
| proceeds_return: "proceeds a s0 tr (Return s (st, d)) reqs jobs reps (Serving s reqs jobs (reps @
     [\<lparr>rp_request = a, rp_start = s0, rp_trace = tr, rp_status = st, rp_data = d\<rparr>]))"
| proceeds_suspend: "proceeds a s0 tr (Suspend s c k) reqs jobs reps (Serving s reqs (jobs @
     [\<lparr>jb_request = a, jb_start = s0, jb_trace = tr, jb_call = c, jb_rest = k\<rparr>]) reps)"
| proceeds_ask: "proceeds a s0 (tr @ [(c, r)]) (k r) reqs jobs reps w \<Longrightarrow> proceeds a s0 tr (Ask c k) reqs jobs reps w"

inductive fat_serve :: "fat_server \<Rightarrow> fat_server \<Rightarrow> bool" where
  serve_start: "length jobs < FAT_WORKER_THREAD_NUM \<Longrightarrow>
    proceeds (c, p) s [] (operation_functions c p s) (reqs @ [(c, p)]) jobs reps w \<Longrightarrow>
    fat_serve (Serving s reqs jobs reps) w"
| serve_resume: "i < length jobs \<Longrightarrow> jobs ! i = j \<Longrightarrow>
    proceeds (jb_request j) (jb_start j) (jb_trace j @ [(jb_call j, r)]) (jb_rest j r s) reqs (remove_nth i jobs) reps w \<Longrightarrow>
    fat_serve (Serving s reqs jobs reps) w"
| serve_client: "client_writes s s' \<Longrightarrow> fat_serve (Serving s reqs jobs reps) (Serving s' reqs jobs reps)"

subsection \<open>What a command stands for\<close>

definition with_file :: "fd \<Rightarrow> fat_state \<Rightarrow> (fat_handle option \<Rightarrow> fat_call list) \<Rightarrow> fat_call list" where
  "with_file fd s calls = (case fd_begin_op_file (oftab s) fd of None \<Rightarrow> [] | Some (h, t) \<Rightarrow> calls h)"

definition with_dir :: "fd \<Rightarrow> fat_state \<Rightarrow> (fat_handle option \<Rightarrow> fat_call list) \<Rightarrow> fat_call list" where
  "with_dir fd s calls = (case fd_begin_op_dir (oftab s) fd of None \<Rightarrow> [] | Some (h, t) \<Rightarrow> calls h)"

definition with_path :: "fs_buffer \<Rightarrow> fat_state \<Rightarrow> (path \<Rightarrow> fat_call list) \<Rightarrow> fat_call list" where
  "with_path buf s calls = (case client_path s buf of None \<Rightarrow> [] | Some path \<Rightarrow> calls path)"

definition with_buffer :: "fs_buffer \<Rightarrow> (u64 \<Rightarrow> fat_call list) \<Rightarrow> fat_call list" where
  "with_buffer buf calls = (case client_buffer buf of None \<Rightarrow> [] | Some data \<Rightarrow> calls data)"

text \<open>No operation is going on on the descriptor, so that it can be closed.\<close>

definition closable :: "fd \<Rightarrow> fat_state \<Rightarrow> bool" where
  "closable fd s \<longleftrightarrow> aslot_count (abs_slot (oftab s ! fd_index fd)) = 0"

fun fat_work :: "fat_request \<Rightarrow> fat_state \<Rightarrow> fat_call list" where
  "fat_work (FS_CMD_INITIALISE, p) s = (if fs_initialised s then [] else [F_mount])"
| "fat_work (FS_CMD_DEINITIALISE, p) s = (if fs_initialised s then [F_unmount] else [])"
| "fat_work (FS_CMD_FILE_OPEN, p) s = with_path (fo_path (file_open_params p)) s (\<lambda>path. case file_alloc s of None \<Rightarrow> []
     | Some (file, _) \<Rightarrow> [F_open (Some file) path (map_fs_flags_to_fat_flags (fo_flags (file_open_params p)))])"
| "fat_work (FS_CMD_FILE_CLOSE, p) s =
     with_file (file_close_fd p) s (\<lambda>file. if closable (file_close_fd p) s then [F_close file] else [])"
| "fat_work (FS_CMD_STAT, p) s = with_buffer (sp_buf (stat_params p)) (\<lambda>_. with_path (sp_path (stat_params p)) s (\<lambda>path.
     if buf_size (sp_buf (stat_params p)) < sizeof_fs_stat then [] else [F_stat path]))"
| "fat_work (FS_CMD_FILE_READ, p) s = with_buffer (io_buf (file_read_params p)) (\<lambda>data.
     with_file (io_fd (file_read_params p)) s (\<lambda>file.
       [F_lseek file (io_offset (file_read_params p)), F_read file data (ucast (buf_size (io_buf (file_read_params p))))]))"
| "fat_work (FS_CMD_FILE_WRITE, p) s = with_buffer (io_buf (file_write_params p)) (\<lambda>data.
     with_file (io_fd (file_write_params p)) s (\<lambda>file.
       [F_lseek file (io_offset (file_write_params p)), F_write file data (ucast (buf_size (io_buf (file_write_params p))))]))"
| "fat_work (FS_CMD_FILE_SIZE, p) s = with_file (file_size_fd p) s (\<lambda>file. [F_size file])"
| "fat_work (FS_CMD_RENAME, p) s = with_path (rn_old_path (rename_params p)) s (\<lambda>old.
     with_path (rn_new_path (rename_params p)) s (\<lambda>new. [F_rename old new]))"
| "fat_work (FS_CMD_FILE_REMOVE, p) s = with_path (file_remove_path p) s (\<lambda>path. [F_unlink path])"
| "fat_work (FS_CMD_FILE_TRUNCATE, p) s = with_file (ft_fd (file_truncate_params p)) s (\<lambda>file.
     [F_lseek file (ft_length (file_truncate_params p)), F_truncate file])"
| "fat_work (FS_CMD_DIR_CREATE, p) s = with_path (dir_create_path p) s (\<lambda>path. [F_mkdir path])"
| "fat_work (FS_CMD_DIR_REMOVE, p) s = with_path (dir_remove_path p) s (\<lambda>path. [F_rmdir path])"
| "fat_work (FS_CMD_DIR_OPEN, p) s = with_path (dir_open_path p) s (\<lambda>path. case dir_alloc s of None \<Rightarrow> []
     | Some (dir, _) \<Rightarrow> [F_opendir (Some dir) path])"
| "fat_work (FS_CMD_DIR_CLOSE, p) s =
     with_dir (dir_close_fd p) s (\<lambda>dir. if closable (dir_close_fd p) s then [F_closedir dir] else [])"
| "fat_work (FS_CMD_FILE_SYNC, p) s = with_file (file_sync_fd p) s (\<lambda>file. [F_sync file])"
| "fat_work (FS_CMD_DIR_READ, p) s = with_buffer (dr_buf (dir_read_params p)) (\<lambda>_.
     with_dir (dr_fd (dir_read_params p)) s (\<lambda>dir. [F_readdir dir]))"
| "fat_work (FS_CMD_DIR_SEEK, p) s = with_dir (ds_fd (dir_seek_params p)) s (\<lambda>dir.
     F_rewinddir dir # replicate (nat (ds_loc (dir_seek_params p))) (F_readdir dir))"
| "fat_work (FS_CMD_DIR_TELL, p) s = with_dir (dir_tell_fd p) s (\<lambda>dir. [F_telldir dir])"
| "fat_work (FS_CMD_DIR_REWIND, p) s = with_dir (dir_rewind_fd p) s (\<lambda>dir. [F_rewinddir dir])"

lemmas fat_work_defs = with_file_def with_dir_def with_path_def with_buffer_def

text \<open>Which answers let a request go on. The size and the position have no result code; an entry of a directory that was
  read for the client must have a name, and one that fits into the buffer of the client.\<close>

fun went_well :: "fat_request \<Rightarrow> fat_call \<times> fat_answer \<Rightarrow> bool" where
  "went_well (FS_CMD_FILE_SIZE, p) (c, r) = True"
| "went_well (FS_CMD_DIR_TELL, p) (c, r) = True"
| "went_well (FS_CMD_DIR_READ, p) (c, r) = (fr_res r = FR_OK \<and> fr_name r \<noteq> [] \<and>
     (of_nat (length (fr_name r)) :: u64) \<le> buf_size (dr_buf (dir_read_params p)))"
| "went_well (_, p) (c, r) = (fr_res r = FR_OK)"

subsection \<open>Handlers keep to the table\<close>

definition next_call :: "fat_request \<Rightarrow> fat_state \<Rightarrow> fat_trace \<Rightarrow> fat_call \<Rightarrow> bool" where
  "next_call a s0 tr c \<longleftrightarrow> (\<forall>x \<in> set tr. went_well a x) \<and>
     map fst tr @ [c] = take (Suc (length tr)) (fat_work a s0)"

definition right_answer :: "fat_request \<Rightarrow> fat_state \<Rightarrow> fat_trace \<Rightarrow> fs_status \<Rightarrow> bool" where
  "right_answer a s0 tr st \<longleftrightarrow> map fst tr = take (length tr) (fat_work a s0) \<and>
     (st = FS_STATUS_SUCCESS \<longleftrightarrow> fat_work a s0 \<noteq> [] \<and> map fst tr = fat_work a s0 \<and> (\<forall>x \<in> set tr. went_well a x))"

inductive keeps_to :: "fat_request \<Rightarrow> fat_state \<Rightarrow> fat_trace \<Rightarrow> fat_co \<Rightarrow> bool"
  for a :: fat_request and s0 :: fat_state where
  "keeps_to a s0 tr (Failed s f)"
| "right_answer a s0 tr st \<Longrightarrow> keeps_to a s0 tr (Return s (st, d))"
| "next_call a s0 tr c \<Longrightarrow> (\<And>r. keeps_to a s0 (tr @ [(c, r)]) (k r)) \<Longrightarrow> keeps_to a s0 tr (Ask c k)"
| "next_call a s0 tr c \<Longrightarrow> (\<And>r s'. keeps_to a s0 (tr @ [(c, r)]) (k r s')) \<Longrightarrow> keeps_to a s0 tr (Suspend s c k)"

inductive_simps keeps_to_simps [simp]:
  "keeps_to a s0 tr (Failed s f)"
  "keeps_to a s0 tr (Return s out)"
  "keeps_to a s0 tr (Ask c k)"
  "keeps_to a s0 tr (Suspend s c k)"

lemma keeps_to_asserted [simp]: "keeps_to a s0 tr (asserted s r k) \<longleftrightarrow> (case r of None \<Rightarrow> True | Some s' \<Rightarrow> keeps_to a s0 tr (k s'))"
  by (simp add: asserted_def split: option.split)

lemma keeps_to_end_op: "(\<And>s'. keeps_to a s0 tr (k s')) \<Longrightarrow> keeps_to a s0 tr (end_op fd s k)"
  by (simp add: end_op_def split: option.split)

lemma ok_or_error_success [simp]: "ok_or_error r = FS_STATUS_SUCCESS \<longleftrightarrow> r = FR_OK"
  by (simp add: ok_or_error_def)

lemmas kept_defs = next_call_def right_answer_def fat_work_defs

lemma keeps_simple:
  "keeps_to (FS_CMD_INITIALISE, p) s [] (handle_initialise p s)"
  "keeps_to (FS_CMD_DEINITIALISE, p) s [] (handle_deinitialise p s)"
  by (simp_all add: kept_defs handle_initialise_def handle_deinitialise_def)

lemma keeps_path:
  "keeps_to (FS_CMD_STAT, p) s [] (handle_stat p s)"
  "keeps_to (FS_CMD_RENAME, p) s [] (handle_rename p s)"
  "keeps_to (FS_CMD_FILE_REMOVE, p) s [] (handle_file_remove p s)"
  "keeps_to (FS_CMD_DIR_CREATE, p) s [] (handle_dir_create p s)"
  "keeps_to (FS_CMD_DIR_REMOVE, p) s [] (handle_dir_remove p s)"
  by (auto simp: kept_defs handle_stat_def handle_rename_def handle_file_remove_def handle_dir_create_def
      handle_dir_remove_def Let_def split: option.split)

lemma keeps_open:
  "keeps_to (FS_CMD_FILE_OPEN, p) s [] (handle_file_open p s)"
  "keeps_to (FS_CMD_DIR_OPEN, p) s [] (handle_dir_open p s)"
  by (auto simp: kept_defs handle_file_open_def handle_dir_open_def Let_def split: option.split)

lemma keeps_file_io:
  "keeps_to (FS_CMD_FILE_READ, p) s [] (handle_file_read p s)"
  "keeps_to (FS_CMD_FILE_WRITE, p) s [] (handle_file_write p s)"
  "keeps_to (FS_CMD_FILE_TRUNCATE, p) s [] (handle_file_truncate p s)"
  by (auto simp: kept_defs handle_file_read_def handle_file_write_def handle_file_truncate_def Let_def
      intro!: keeps_to_end_op split: option.split)

lemma keeps_one_call:
  "keeps_to (FS_CMD_FILE_SIZE, p) s [] (handle_file_size p s)"
  "keeps_to (FS_CMD_FILE_SYNC, p) s [] (handle_file_sync p s)"
  "keeps_to (FS_CMD_DIR_TELL, p) s [] (handle_dir_tell p s)"
  "keeps_to (FS_CMD_DIR_REWIND, p) s [] (handle_dir_rewind p s)"
  "keeps_to (FS_CMD_DIR_READ, p) s [] (handle_dir_read p s)"
  by (auto simp: kept_defs handle_file_size_def handle_file_sync_def handle_dir_tell_def handle_dir_rewind_def
      handle_dir_read_def Let_def not_less intro!: keeps_to_end_op split: option.split)

lemma unset_after_op:
  assumes len: "length t = MAX_OPEN_FILES" and b: "on_slot b t fd = Some t1"
    "b = of_begin_op_file \<or> b = of_begin_op_dir" and e: "fd_end_op t1 fd = Some t2"
  shows "fd_unset t2 fd = None \<longleftrightarrow> aslot_count (abs_slot (t ! fd_index fd)) \<noteq> 0"
proof -
  let ?i = "fd_index fd" and ?v = "t ! fd_index fd"
  obtain v1 where v1: "fd_to_of t fd = Some ?i" "b ?v = Some v1" "t1 = t[?i := v1]"
    using b(1) by (auto simp: on_slot_Some)
  obtain v2 where v2: "of_end_op (t1 ! ?i) = Some v2" "t2 = t1[?i := v2]"
    using e by (auto simp: fd_end_op_on_slot on_slot_Some)
  have i: "?i < length t" using v1(1) len by (simp add: fd_to_of_def split: if_splits)
  have g: "of_generation v1 = of_generation ?v" "of_generation v2 = of_generation v1"
    using v1(2,3) v2(1) b(2) i by (auto simp: Let_def split: slot_state.splits if_splits)
  then have "fd_to_of t2 fd = Some ?i" using v1 v2(2) i by (simp add: fd_to_of_def split: if_splits)
  then have "fd_unset t2 fd = None \<longleftrightarrow> of_unset v2 = None"
    using v1(3) v2(2) i by (simp add: fd_unset_def on_slot_def)
  then show ?thesis
    using v1(2,3) v2(1) b(2) i
    by (auto simp: abs_slot_def aslot_count_def Let_def unat_eq_zero unat_gt_0 split: slot_state.splits if_splits)
qed

lemma keeps_close:
  assumes len: "length (oftab s) = MAX_OPEN_FILES"
  shows "keeps_to (FS_CMD_FILE_CLOSE, p) s [] (handle_file_close p s)"
    and "keeps_to (FS_CMD_DIR_CLOSE, p) s [] (handle_dir_close p s)"
proof -
  have un: "fd_unset t2 fd = None \<longleftrightarrow> \<not> closable fd s"
    if "fd_begin_op_file (oftab s) fd = Some (h, t1) \<or> fd_begin_op_dir (oftab s) fd = Some (h, t1)"
      "fd_end_op t1 fd = Some t2" for fd h t1 t2
    using unset_after_op [OF len _ _ that(2)] that(1)
    by (auto simp: closable_def fd_begin_op_file_def fd_begin_op_dir_def)
  show "keeps_to (FS_CMD_FILE_CLOSE, p) s [] (handle_file_close p s)"
  proof (cases "fd_begin_op_file (oftab s) (file_close_fd p)")
    case (Some ht)
    obtain h t1 where ht: "ht = (h, t1)" by fastforce
    show ?thesis
    proof (cases "fd_end_op t1 (file_close_fd p)")
      case (Some t2)
      with un [of "file_close_fd p" h t1 t2] \<open>fd_begin_op_file _ _ = _\<close> show ?thesis
        by (auto simp: kept_defs handle_file_close_def Let_def end_op_def ht split: option.split)
    qed (use Some in \<open>simp add: handle_file_close_def Let_def end_op_def ht\<close>)
  qed (simp add: kept_defs handle_file_close_def)
  show "keeps_to (FS_CMD_DIR_CLOSE, p) s [] (handle_dir_close p s)"
  proof (cases "fd_begin_op_dir (oftab s) (dir_close_fd p)")
    case (Some ht)
    obtain dir t1 where ht: "ht = (dir, t1)" by fastforce
    show ?thesis
    proof (cases "fd_end_op t1 (dir_close_fd p)")
      case (Some t2)
      with un [of "dir_close_fd p" dir t1 t2] \<open>fd_begin_op_dir _ _ = _\<close> show ?thesis
        by (auto simp: kept_defs handle_dir_close_def Let_def end_op_def ht split: option.split)
    qed (use Some in \<open>simp add: handle_dir_close_def Let_def end_op_def ht\<close>)
  qed (simp add: kept_defs handle_dir_close_def)
qed

lemma keeps_seek_loop:
  assumes "fat_work (FS_CMD_DIR_SEEK, p) s0 = F_rewinddir dir # replicate (m + n) (F_readdir dir)"
    and "map fst tr = F_rewinddir dir # replicate m (F_readdir dir)"
    and "(\<forall>x \<in> set tr. went_well (FS_CMD_DIR_SEEK, p) x) \<longleftrightarrow> ret = FR_OK"
  shows "keeps_to (FS_CMD_DIR_SEEK, p) s0 tr (dir_seek_loop fd dir n ret s)"
  using assms
proof (induction n arbitrary: m tr ret s)
  case 0
  have "length tr = Suc m" using arg_cong [OF "0.prems"(2), of length] by simp
  with 0 show ?case
    by (simp add: keeps_to_end_op right_answer_def del: fat_work.simps went_well.simps)
next
  case (Suc n)
  have l: "length tr = Suc m" using arg_cong [OF Suc.prems(2), of length] by simp
  show ?case
  proof (cases "ret = FR_OK")
    case True
    have "next_call (FS_CMD_DIR_SEEK, p) s0 tr (F_readdir dir)"
      using Suc.prems True l by (simp add: next_call_def replicate_append_same min_def flip: replicate_Suc)
    moreover have "keeps_to (FS_CMD_DIR_SEEK, p) s0 (tr @ [(F_readdir dir, r)]) (dir_seek_loop fd dir n (fr_res r) s')" for r s'
      by (rule Suc.IH [of "Suc m"]) (use Suc.prems True in \<open>auto simp: replicate_append_same\<close>)
    ultimately show ?thesis using True by simp
  next
    case False
    have "map fst tr = take (length tr) (fat_work (FS_CMD_DIR_SEEK, p) s0)"
      using Suc.prems l arg_cong [OF replicate_add [of m "Suc n" "F_readdir dir"], of "take m"] by (simp del: fat_work.simps)
    moreover have "\<not> (\<forall>x \<in> set tr. went_well (FS_CMD_DIR_SEEK, p) x)" using Suc.prems(3) False by blast
    ultimately have "right_answer (FS_CMD_DIR_SEEK, p) s0 tr FS_STATUS_ERROR" unfolding right_answer_def by simp
    with False show ?thesis by (simp add: keeps_to_end_op)
  qed
qed

lemma keeps_seek: "keeps_to (FS_CMD_DIR_SEEK, p) s [] (handle_dir_seek p s)"
proof (cases "fd_begin_op_dir (oftab s) (ds_fd (dir_seek_params p))")
  case (Some ht)
  obtain dir t where ht: "ht = (dir, t)" by fastforce
  have w: "fat_work (FS_CMD_DIR_SEEK, p) s = F_rewinddir dir # replicate (0 + nat (ds_loc (dir_seek_params p))) (F_readdir dir)"
    using Some by (simp add: ht with_dir_def)
  have "keeps_to (FS_CMD_DIR_SEEK, p) s [(F_rewinddir dir, r)]
      (dir_seek_loop (ds_fd (dir_seek_params p)) dir (nat (ds_loc (dir_seek_params p))) (fr_res r) s')" for r s'
    by (rule keeps_seek_loop [OF w]) simp_all
  with w Some show ?thesis by (simp add: handle_dir_seek_def ht next_call_def del: fat_work.simps)
qed (simp add: handle_dir_seek_def kept_defs)

lemma handlers_keep_to:
  "length (oftab s) = MAX_OPEN_FILES \<Longrightarrow> keeps_to (c, p) s [] (operation_functions c p s)"
  by (cases c) (simp_all only: operation_functions.simps keeps_simple keeps_path keeps_open keeps_file_io keeps_one_call
    keeps_close keeps_seek)

subsection \<open>The recorded server\<close>

fun plain :: "fat_server \<Rightarrow> (fat_state, fat_call, fat_answer, fat_out, fat_failure) world" where
  "plain (Stopped s f) = Crashed s f"
| "plain (Serving s reqs jobs reps) = Running s (map jb_rest jobs)"

lemma proceeds_plain: "proceeds a s0 tr co reqs jobs reps w \<Longrightarrow> continues co (map jb_rest jobs) (plain w)"
proof (induction rule: proceeds.induct)
  case (proceeds_suspend a s0 tr s c k reqs jobs reps)
  then show ?case using continues_suspend [of s c k "map jb_rest jobs"] by simp
qed (auto intro: continues.intros)

lemma serve_plain: "fat_serve w w' \<Longrightarrow> co_step fat_request client_writes FAT_WORKER_THREAD_NUM (plain w) (plain w')"
proof (induction rule: fat_serve.induct)
  case (serve_start jobs c p s reqs reps w)
  from proceeds_plain [OF serve_start(2)] have "continues (fat_request (c, p) s) (map jb_rest jobs) (plain w)"
    by (simp add: fat_request_def)
  with serve_start(1) show ?case by (auto intro: co_step.step_start)
next
  case (serve_resume i jobs j r s reqs reps w)
  from proceeds_plain [OF serve_resume(3)] serve_resume(1,2)
  have "continues ((map jb_rest jobs ! i) r s) (remove_nth i (map jb_rest jobs)) (plain w)"
    by (simp add: map_remove_nth)
  with serve_resume(1) show ?case by (auto intro: co_step.step_resume)
qed (auto intro: co_step.step_interf)

lemma serves_plain:
  "fat_serve\<^sup>*\<^sup>* w w' \<Longrightarrow> co_reachable fat_request client_writes FAT_WORKER_THREAD_NUM (plain w) (plain w')"
  by (induction rule: rtranclp_induct) (auto dest: serve_plain)

text \<open>A request that was not answered yet is at one of the calls of its work; a reply tells whether all of it was done.\<close>

definition job_right :: "fat_job \<Rightarrow> bool" where
  "job_right j \<longleftrightarrow> next_call (jb_request j) (jb_start j) (jb_trace j) (jb_call j) \<and>
     (\<forall>r s. keeps_to (jb_request j) (jb_start j) (jb_trace j @ [(jb_call j, r)]) (jb_rest j r s))"

definition reply_right :: "fat_reply \<Rightarrow> bool" where
  "reply_right q \<longleftrightarrow> right_answer (rp_request q) (rp_start q) (rp_trace q) (rp_status q)"

fun server_right :: "fat_server \<Rightarrow> bool" where
  "server_right (Stopped s f) = True"
| "server_right (Serving s reqs jobs reps) = ((\<forall>j \<in> set jobs. job_right j) \<and> (\<forall>q \<in> set reps. reply_right q) \<and>
     mset reqs = mset (map jb_request jobs) + mset (map rp_request reps))"

lemma proceeds_right:
  assumes "proceeds a s0 tr co reqs jobs reps w" "keeps_to a s0 tr co" "\<forall>j \<in> set jobs. job_right j"
    "\<forall>q \<in> set reps. reply_right q" "mset reqs = add_mset a (mset (map jb_request jobs) + mset (map rp_request reps))"
  shows "server_right w"
  using assms
proof (induction rule: proceeds.induct)
  case (proceeds_suspend a s0 tr s c k reqs jobs reps)
  then show ?case by (auto simp: job_right_def)
qed (auto simp: reply_right_def)

lemma serve_right:
  assumes "fat_serve w w'" "server_right w" "case w of Serving s reqs jobs reps \<Rightarrow> length (oftab s) = MAX_OPEN_FILES | _ \<Rightarrow> True"
  shows "server_right w'"
  using assms
proof (induction rule: fat_serve.induct)
  case (serve_start jobs c p s reqs reps w)
  then show ?case by (intro proceeds_right [OF serve_start(2) handlers_keep_to]) auto
next
  case (serve_resume i jobs j r s reqs reps w)
  have j: "j \<in> set jobs" using serve_resume(1,2) by auto
  have k: "keeps_to (jb_request j) (jb_start j) (jb_trace j @ [(jb_call j, r)]) (jb_rest j r s)"
    using j serve_resume(4) by (simp add: job_right_def)
  have "mset jobs = add_mset j (mset (remove_nth i jobs))" using fat.mset_remove_nth [OF serve_resume(1)] serve_resume(2) by simp
  then have "mset (map jb_request jobs) = add_mset (jb_request j) (mset (map jb_request (remove_nth i jobs)))"
    by simp
  with serve_resume(4) set_remove_nth [of i jobs] show ?case
    by (intro proceeds_right [OF serve_resume(3) k]) auto
qed simp

lemma serves_right:
  assumes "fat_serve\<^sup>*\<^sup>* (Serving (fat_init_state mem) [] [] []) w"
  shows "server_right w"
  using assms
proof (induction rule: rtranclp_induct)
  case (step w w')
  have "case plain w of Crashed s f \<Rightarrow> fat_ok s f | Running s ts \<Rightarrow> \<exists>R. size R = length ts \<and> fat_inv s R"
    using fat.reachable_invariant [OF _ fat_init_inv] serves_plain [OF step(1)] by simp
  then have "case w of Serving s reqs jobs reps \<Rightarrow> length (oftab s) = MAX_OPEN_FILES | _ \<Rightarrow> True"
    by (cases w) (auto simp: fat_invD(3))
  with step(2,3) show ?case by (rule serve_right)
qed simp

lemma proceeds_total: "\<exists>w. proceeds a s0 tr co reqs jobs reps w"
proof (induction co arbitrary: tr)
  case (Return s out)
  obtain st d where "out = (st, d)" by fastforce
  then show ?case by (blast intro: proceeds.intros)
qed (blast intro: proceeds.intros)+

subsection \<open>Properties\<close>

text \<open>C32: every request to the FAT server is answered once, and truthfully. In every run of the server, whatever
  FatFs answers and however the requests interleave, the started requests are those that wait and those that were
  answered. A request makes the calls its command stands for (\<open>fat_work\<close>, which is empty when the request is refused) in
  their order, and no others: while it waits all answers so far were good, any answer lets the server go on, and it
  makes at most as many calls as its work has. It is answered with success exactly when its work was not empty, all of
  its calls were made, and FatFs answered all of them well. The server stops by an assertion in no other case than when a
  path is longer than the name buffer or all descriptors are taken.\<close>

theorem fat_requests_answered:
  assumes "fat_serve\<^sup>*\<^sup>* (Serving (fat_init_state mem) [] [] []) w"
  shows "case w of
      Stopped s f \<Rightarrow> f = Fail_path_overrun \<or> (\<forall>v \<in> set (oftab s). of_state v \<noteq> state_free)
    | Serving s reqs jobs reps \<Rightarrow>
        mset reqs = mset (map jb_request jobs) + mset (map rp_request reps) \<and>
        (\<forall>j \<in> set jobs. (\<forall>x \<in> set (jb_trace j). went_well (jb_request j) x) \<and>
          map fst (jb_trace j) @ [jb_call j] = take (Suc (length (jb_trace j))) (fat_work (jb_request j) (jb_start j))) \<and>
        (\<forall>i < length jobs. \<forall>r. \<exists>w'. proceeds (jb_request (jobs ! i)) (jb_start (jobs ! i))
          (jb_trace (jobs ! i) @ [(jb_call (jobs ! i), r)]) (jb_rest (jobs ! i) r s) reqs (remove_nth i jobs) reps w' \<and>
          fat_serve (Serving s reqs jobs reps) w') \<and>
        (\<forall>q \<in> set reps. map fst (rp_trace q) = take (length (rp_trace q)) (fat_work (rp_request q) (rp_start q)) \<and>
          (rp_status q = FS_STATUS_SUCCESS \<longleftrightarrow> fat_work (rp_request q) (rp_start q) \<noteq> [] \<and>
            map fst (rp_trace q) = fat_work (rp_request q) (rp_start q) \<and>
            (\<forall>x \<in> set (rp_trace q). went_well (rp_request q) x)))"
proof (cases w)
  case (Stopped s f)
  have "fat_ok s f"
    using fat.reachable_invariant [OF serves_plain [OF assms, unfolded plain.simps list.map] fat_init_inv] Stopped by simp
  with Stopped show ?thesis by (simp add: fat_ok_def)
next
  case (Serving s reqs jobs reps)
  have r: "server_right (Serving s reqs jobs reps)" using serves_right [OF assms] Serving by simp
  have go: "\<exists>w'. proceeds (jb_request (jobs ! i)) (jb_start (jobs ! i)) (jb_trace (jobs ! i) @ [(jb_call (jobs ! i), a)])
      (jb_rest (jobs ! i) a s) reqs (remove_nth i jobs) reps w' \<and> fat_serve (Serving s reqs jobs reps) w'" if "i < length jobs" for i a
    using proceeds_total serve_resume [OF that refl] by blast
  show ?thesis
    unfolding Serving fat_server.case
    using r go by (simp add: job_right_def reply_right_def next_call_def right_answer_def)
qed

text \<open>The server is initialised: FatFs mounts the volume, and the client is told so.\<close>

definition ex_mounted :: fat_answer where
  "ex_mounted = \<lparr>fr_res = FR_OK, fr_count = 0, fr_data = [], fr_name = [], fr_fsize = 0, fr_ftime = 0,
     fr_attrib = 0, fr_value = 0, fr_ssize = 512\<rparr>"

theorem fat_requests_answered_witness:
  "\<exists>s q. fat_serve\<^sup>*\<^sup>* (Serving (fat_init_state (\<lambda>_. 0)) [] [] []) (Serving s [(FS_CMD_INITIALISE, [])] [] [q]) \<and>
    rp_status q = FS_STATUS_SUCCESS \<and> map fst (rp_trace q) = [F_mount]"
proof -
  let ?a = "(FS_CMD_INITIALISE, [])" and ?s = "fat_init_state (\<lambda>_. 0)"
  let ?s1 = "?s\<lparr>fs_initialised := True\<rparr>"
  let ?k = "\<lambda>a s. Return (if fr_res a \<noteq> FR_OK then s\<lparr>fs_initialised := False\<rparr> else s) (ok_or_error (fr_res a), None)"
  let ?j = "\<lparr>jb_request = ?a, jb_start = ?s, jb_trace = [], jb_call = F_mount, jb_rest = ?k\<rparr>"
  let ?q = "\<lparr>rp_request = ?a, rp_start = ?s, rp_trace = [(F_mount, ex_mounted)], rp_status = FS_STATUS_SUCCESS, rp_data = None\<rparr>"
  have h: "operation_functions FS_CMD_INITIALISE [] ?s = Suspend ?s1 F_mount ?k"
    by (simp add: handle_initialise_def fat_init_state_def)
  have "fat_serve (Serving ?s [] [] []) (Serving ?s1 ([] @ [?a]) ([] @ [?j]) [])"
    by (rule serve_start [of _ FS_CMD_INITIALISE "[]"]) (simp add: FAT_WORKER_THREAD_NUM_def, unfold h, rule proceeds_suspend)
  moreover have "fat_serve (Serving ?s1 [?a] [?j] []) (Serving ?s1 [?a] [] ([] @ [?q]))"
  proof (rule serve_resume [of 0 _ ?j ex_mounted])
    have f: "fr_res ex_mounted = FR_OK" by (simp add: ex_mounted_def)
    show "proceeds (jb_request ?j) (jb_start ?j) (jb_trace ?j @ [(jb_call ?j, ex_mounted)]) (jb_rest ?j ex_mounted ?s1)
        [?a] (remove_nth 0 [?j]) [] (Serving ?s1 [?a] [] ([] @ [?q]))"
      using proceeds_return [of ?a ?s "[(F_mount, ex_mounted)]" ?s1 FS_STATUS_SUCCESS None "[?a]" "[]" "[]"]
      by (simp add: remove_nth_def f ok_or_error_def)
  qed simp_all
  ultimately have r: "fat_serve\<^sup>*\<^sup>* (Serving ?s [] [] []) (Serving ?s1 [?a] [] [?q])" by simp
  have "map fst (rp_trace ?q) = [F_mount]"
    using fat_requests_answered [OF r] unfolding fat_server.case by (simp add: fat_init_state_def)
  with r show ?thesis by (intro exI [of _ ?s1] exI [of _ ?q]) simp
qed

end
