(* ===== verification/Fat_Io.thy ===== *)
theory Fat_Io
  imports Coroutine Fs_Fd
begin

text \<open>
  \<open>components/fs/fat/io.c\<close>: the disk interface of FatFs on the block queue. The unit of the queue is a
  transfer (\<open>BLK_TRANSFER_SIZE\<close> bytes, a parameter of the definitions), which holds a power of two of
  sectors; a worker thread moves the transfers that cover the sectors through its own window of the
  data region. The block queue and the cooperative threads are parameters: enqueueing is a call that
  is answered at once with an error code, waiting for the response is a suspension.
\<close>

subsection \<open>Arithmetic on powers of two\<close>

fun ctz :: "nat \<Rightarrow> nat" where
  "ctz n = (if n = 0 \<or> odd n then 0 else Suc (ctz (n div 2)))"

declare ctz.simps [simp del]

definition IS_POWER_OF_2 :: "nat \<Rightarrow> bool" where
  "IS_POWER_OF_2 x \<longleftrightarrow> x \<noteq> 0 \<and> (of_nat x :: u32) AND (of_nat x - 1) = 0"

definition MOD_POWER_OF_2 :: "u32 \<Rightarrow> u16 \<Rightarrow> u32" where
  "MOD_POWER_OF_2 a b = a AND (ucast b - 1)"

definition DIV_POWER_OF_2 :: "u32 \<Rightarrow> u16 \<Rightarrow> u32" where
  "DIV_POWER_OF_2 a b = drop_bit (ctz (unat b)) a"

text \<open>The shift of a signed number.\<close>

definition SDIV_POWER_OF_2 :: "u32 \<Rightarrow> u16 \<Rightarrow> u32" where
  "SDIV_POWER_OF_2 a b = signed_drop_bit (ctz (unat b)) a"

subsection \<open>State\<close>

record io_state =
  thread_blk_addr :: "u64 list"
  max_cluster_size :: u64
  blk_request_pushed :: bool
  blk_data :: share
  storage_ready :: bool
  sector_size :: u16

datatype blk_request = BLK_REQ_READ | BLK_REQ_WRITE | BLK_REQ_FLUSH

datatype io_call = Blk_enqueue blk_request u64 u32 u32 nat | Blk_wait nat

datatype dresult = RES_OK | RES_ERROR | RES_WRPRT | RES_NOTRDY | RES_PARERR

record io_answer =
  ia_err :: bool
  ia_res :: dresult
  ia_value :: "u8 list"

text \<open>The result of an operation with the bytes it delivers.\<close>

type_synonym io_co = "(io_state, io_call, io_answer, dresult option \<times> u8 list, unit) co"

definition io_assert :: "bool \<Rightarrow> io_state \<Rightarrow> io_co \<Rightarrow> io_co" where
  "io_assert b s k = (if b then k else Failed s ())"

definition disk_initialize :: "nat \<Rightarrow> io_state \<Rightarrow> io_co" where
  "disk_initialize BLK_TRANSFER_SIZE s =
     (let s = s\<lparr>thread_blk_addr := map (\<lambda>i. of_nat i * max_cluster_size s) [0..<4]\<rparr>
      in if \<not> storage_ready s then Return s (Some RES_NOTRDY, [])
         else io_assert (unat (sector_size s) mod 512 = 0) s
             (io_assert (unat (sector_size s) \<le> BLK_TRANSFER_SIZE) s
               (io_assert (unat (sector_size s) \<noteq> 0 \<and> IS_POWER_OF_2 (BLK_TRANSFER_SIZE div unat (sector_size s))) s
                 (Return s (Some RES_OK, [])))))"

definition disk_status :: "io_state \<Rightarrow> dresult" where
  "disk_status s = RES_OK"

definition GET_SECTOR_SIZE :: nat where "GET_SECTOR_SIZE = 2"
definition CTRL_SYNC :: nat where "CTRL_SYNC = 0"

text \<open>A request and the wait for its response.\<close>

definition blk_enqueue :: "blk_request \<Rightarrow> u64 \<Rightarrow> u32 \<Rightarrow> u32 \<Rightarrow> nat \<Rightarrow> io_state \<Rightarrow> (io_state \<Rightarrow> io_co) \<Rightarrow> io_co" where
  "blk_enqueue rq addr sec n handle s k =
     Ask (Blk_enqueue rq addr sec n handle) (\<lambda>a. io_assert (\<not> ia_err a) s (k s))"

definition wait_for_blk_resp :: "nat \<Rightarrow> io_state \<Rightarrow> (dresult \<Rightarrow> io_state \<Rightarrow> io_co) \<Rightarrow> io_co" where
  "wait_for_blk_resp handle s k =
     Suspend (s\<lparr>blk_request_pushed := True\<rparr>) (Blk_wait handle) (\<lambda>a. k (ia_res a))"

text \<open>A command that is neither of the two leaves the result without a value: \<open>None\<close>.\<close>

definition disk_ioctl :: "nat \<Rightarrow> nat \<Rightarrow> io_state \<Rightarrow> io_co" where
  "disk_ioctl handle cmd s =
     (if cmd = CTRL_SYNC then
        blk_enqueue BLK_REQ_FLUSH 0 0 0 handle s (\<lambda>s.
          wait_for_blk_resp handle s (\<lambda>res s. Return s (Some res, [])))
      else if cmd = GET_SECTOR_SIZE then
        Return s (Some RES_OK, [ucast (sector_size s), ucast (drop_bit 8 (sector_size s))])
      else Return s (None, []))"

subsection \<open>The transfers that cover a range of sectors\<close>

definition sector_per_transfer :: "nat \<Rightarrow> io_state \<Rightarrow> u16" where
  "sector_per_transfer BLK_TRANSFER_SIZE s = of_nat (BLK_TRANSFER_SIZE div 2 ^ ctz (unat (sector_size s)))"

definition sddf_sector :: "u16 \<Rightarrow> u32 \<Rightarrow> u32" where
  "sddf_sector spt sector = DIV_POWER_OF_2 sector spt"

definition sddf_count :: "u16 \<Rightarrow> u32 \<Rightarrow> u32 \<Rightarrow> u32" where
  "sddf_count spt sector num =
     (let unaligned_head_sector = MOD_POWER_OF_2 (ucast spt - MOD_POWER_OF_2 sector spt) spt;
          unaligned_tail_sector = MOD_POWER_OF_2 (sector + num) spt;
          n = (if unaligned_head_sector \<noteq> 0 then 1 else 0);
          n = (if unaligned_tail_sector \<noteq> 0 then n + 1 else n);
          aligned_sector = num - unaligned_head_sector - unaligned_tail_sector
      in n + SDIV_POWER_OF_2 aligned_sector spt)"

text \<open>The assertion on the size: the signed count, shifted, is converted to 64 bits to be compared.\<close>

definition fits_window :: "nat \<Rightarrow> io_state \<Rightarrow> u32 \<Rightarrow> bool" where
  "fits_window BLK_TRANSFER_SIZE s n \<longleftrightarrow>
     (scast (push_bit (ctz BLK_TRANSFER_SIZE) n) :: u64) \<le> max_cluster_size s"

definition disk_read :: "nat \<Rightarrow> nat \<Rightarrow> u32 \<Rightarrow> u32 \<Rightarrow> io_state \<Rightarrow> io_co" where
  "disk_read BLK_TRANSFER_SIZE handle sector num s =
     (let off = thread_blk_addr s ! (handle - 1);
          spt = sector_per_transfer BLK_TRANSFER_SIZE s;
          n = sddf_count spt sector num
      in io_assert (fits_window BLK_TRANSFER_SIZE s n) s
           (blk_enqueue BLK_REQ_READ off (sddf_sector spt sector) n handle s (\<lambda>s.
             wait_for_blk_resp handle s (\<lambda>res s.
               Return s (Some res, share_bytes (blk_data s)
                 (off + ucast (sector_size s) * ucast (MOD_POWER_OF_2 sector spt))
                 (unat (ucast (sector_size s) * num :: u32)))))))"

text \<open>A write of whole transfers is sent as it is, with its unsigned count in the assertion; otherwise the transfers are read first, and their
  middle is overwritten.\<close>

definition disk_write :: "nat \<Rightarrow> nat \<Rightarrow> u8 list \<Rightarrow> u32 \<Rightarrow> u32 \<Rightarrow> io_state \<Rightarrow> io_co" where
  "disk_write BLK_TRANSFER_SIZE handle buff sector num s =
     (let off = thread_blk_addr s ! (handle - 1);
          len = unat (ucast (sector_size s) * num :: u32);
          finish = (\<lambda>s. wait_for_blk_resp handle s (\<lambda>res s. Return s (Some res, [])))
      in if unat (sector_size s) = BLK_TRANSFER_SIZE then
           io_assert ((ucast (push_bit (ctz BLK_TRANSFER_SIZE) num) :: u64) \<le> max_cluster_size s) s
             (let s = s\<lparr>blk_data := share_store (blk_data s) off (take len buff)\<rparr>
              in blk_enqueue BLK_REQ_WRITE off sector num handle s finish)
         else
           let spt = sector_per_transfer BLK_TRANSFER_SIZE s;
               n = sddf_count spt sector num;
               sec = sddf_sector spt sector
           in io_assert (fits_window BLK_TRANSFER_SIZE s n) s
             (if MOD_POWER_OF_2 (ucast spt - MOD_POWER_OF_2 sector spt) spt = 0 \<and>
                 MOD_POWER_OF_2 (sector + num) spt = 0 then
                let s = s\<lparr>blk_data := share_store (blk_data s) off (take len buff)\<rparr>
                in blk_enqueue BLK_REQ_WRITE off sec n handle s finish
              else
                blk_enqueue BLK_REQ_READ off sec n handle s (\<lambda>s.
                  wait_for_blk_resp handle s (\<lambda>res s.
                    if res \<noteq> RES_OK then Return s (Some res, [])
                    else let s = s\<lparr>blk_data := share_store (blk_data s)
                               (off + ucast (sector_size s) * ucast (MOD_POWER_OF_2 sector spt)) (take len buff)\<rparr>
                         in blk_enqueue BLK_REQ_WRITE off sec n handle s finish))))"

subsection \<open>Facts\<close>

lemma ctz_pow2 [simp]: "ctz (2 ^ k) = k"
  by (induction k) (simp_all add: ctz.simps)

lemma unat_MOD_POWER_OF_2:
  assumes "unat b = 2 ^ k" "k < 16"
  shows "unat (MOD_POWER_OF_2 a b) = unat a mod 2 ^ k"
proof -
  have "unat (ucast b :: u32) = 2 ^ k" using assms(1) by (simp add: unat_ucast_up)
  moreover have "(ucast b :: u32) = of_nat (unat (ucast b :: u32))" by simp
  ultimately have "(ucast b :: u32) = 2 ^ k" by simp
  then have "(ucast b :: u32) - 1 = mask k" by (simp add: mask_eq_decr_exp)
  then show ?thesis unfolding MOD_POWER_OF_2_def by (simp only: unat_and_mask)
qed

text \<open>The count is exactly the number of transfers from the one that holds the first sector to the one
  that holds the last, also when the range lies inside one transfer and the signed quotient is \<open>-1\<close>.\<close>

lemma transfers_arith:
  fixes x c n :: int
  assumes n: "0 < n"
  defines "h \<equiv> (n - x mod n) mod n" and "t \<equiv> (x + c) mod n"
  shows "(c - h - t) div n + of_bool (h \<noteq> 0) + of_bool (t \<noteq> 0) = (x + c + n - 1) div n - x div n"
proof -
  define q where "q = x div n"
  have x: "x = q * n + x mod n" by (simp add: q_def)
  have m: "0 \<le> x mod n" "x mod n < n" using n by simp_all
  have h: "h = (if x mod n = 0 then 0 else n - x mod n)"
  proof (cases "x mod n = 0")
    case False
    then have "(n - x mod n) mod n = n - x mod n" using m by (intro mod_pos_pos_trivial) linarith+
    with False show ?thesis by (simp only: h_def if_False)
  qed (simp add: h_def)
  have e: "x + c = (x + c) div n * n + t" by (simp add: t_def)
  have t: "0 \<le> t" "t < n" using n by (simp_all add: t_def)
  have "c - h - t = ((x + c) div n - q - of_bool (h \<noteq> 0)) * n"
    using x e m by (simp add: h algebra_simps)
  then have "(c - h - t) div n = (x + c) div n - q - of_bool (h \<noteq> 0)" using n by simp
  moreover have "(x + c + n - 1) div n = (x + c) div n + of_bool (t \<noteq> 0)"
  proof (cases "t = 0")
    case True
    then have "x + c + n - 1 = (n - 1) + (x + c) div n * n" using e by simp
    then have "(x + c + n - 1) div n = (n - 1) div n + (x + c) div n" using n by (simp only: div_mult_self1)
    then show ?thesis using True n by simp
  next
    case False
    then have "x + c + n - 1 = (t - 1) + ((x + c) div n + 1) * n" using e by (simp add: algebra_simps)
    then have "(x + c + n - 1) div n = (t - 1) div n + ((x + c) div n + 1)" using n by (simp only: div_mult_self1)
    then show ?thesis using False t by simp
  qed
  ultimately show ?thesis by (simp add: q_def)
qed

lemma sint_of_int_small:
  "- (2 ^ (LENGTH('a) - 1)) \<le> i \<Longrightarrow> i < 2 ^ (LENGTH('a) - 1) \<Longrightarrow> sint (word_of_int i :: 'a::len word) = i"
  by (simp add: sint_sbintrunc' signed_take_bit_int_eq_self)

lemma small_diff:
  fixes a b c :: int
  assumes "0 \<le> a" "a < 1073741824" "0 \<le> b" "b < 32768" "0 \<le> c" "c < 32768"
  shows "- 1073741824 \<le> a - b - c" "a - b - c < 1073741824"
  using assms by linarith+

lemma sint_small_diff:
  fixes a b c :: u32
  assumes "unat a < 1073741824" "unat b < 32768" "unat c < 32768"
  shows "sint (a - b - c) = int (unat a) - int (unat b) - int (unat c)"
    "- 1073741824 \<le> int (unat a) - int (unat b) - int (unat c)" "int (unat a) - int (unat b) - int (unat c) < 1073741824"
proof -
  have "int (unat a) < 1073741824" "int (unat b) < 32768" "int (unat c) < 32768"
    using assms unfolding of_nat_less_iff [where 'a = int, symmetric] by simp_all
  note d = small_diff [OF of_nat_0_le_iff this(1) of_nat_0_le_iff this(2) of_nat_0_le_iff this(3)]
  show "- 1073741824 \<le> int (unat a) - int (unat b) - int (unat c)" "int (unat a) - int (unat b) - int (unat c) < 1073741824"
    by (rule d)+
  have s: "a - b - c = word_of_int (int (unat a) - int (unat b) - int (unat c))" by simp
  have l: "(2 :: int) ^ (LENGTH(32) - 1) = 2147483648" by simp
  show "sint (a - b - c) = int (unat a) - int (unat b) - int (unat c)"
    unfolding s by (rule sint_of_int_small) (use d in \<open>unfold l, linarith+\<close>)
qed

lemma div_int_bounds:
  assumes "- b \<le> (a :: int)" "a < b" "0 < n"
  shows "- b \<le> a div n" "a div n < b"
proof (atomize (full), cases "0 \<le> a")
  case True
  then have "0 \<le> a div n" "a div n \<le> a" using assms(3) zdiv_mono2 [of a 1 n] by (simp_all add: pos_imp_zdiv_nonneg_iff)
  with assms(2) True show "- b \<le> a div n \<and> a div n < b" by linarith
next
  case False
  then have "a \<le> a div n" "a div n < 0" using assms(3) zdiv_mono2_neg [of a 1 n] by (simp_all add: pos_imp_zdiv_neg_iff)
  with assms(1,2) show "- b \<le> a div n \<and> a div n < b" by linarith
qed

lemma sddf_count_exact:
  assumes n: "unat spt = 2 ^ k" "k < 16"
    and r: "unat sector + unat num < 2 ^ 32" "unat num < 2 ^ 30"
  shows "sint (sddf_count spt sector num) =
    (int (unat sector) + int (unat num) + 2 ^ k - 1) div 2 ^ k - int (unat sector) div 2 ^ k"
proof -
  let ?h = "MOD_POWER_OF_2 (ucast spt - MOD_POWER_OF_2 sector spt) spt" and ?t = "MOD_POWER_OF_2 (sector + num) spt"
  have k: "(2 :: nat) ^ k \<le> 2 ^ 15" using n(2) by (intro power_increasing) simp_all
  have su: "unat (ucast spt :: u32) = 2 ^ k" using n(1) by (simp add: unat_ucast_up)
  have m: "unat (MOD_POWER_OF_2 sector spt) = unat sector mod 2 ^ k" by (rule unat_MOD_POWER_OF_2 [OF n])
  have sub: "unat (ucast spt - MOD_POWER_OF_2 sector spt) = 2 ^ k - unat sector mod 2 ^ k"
    using su m by (subst unat_sub) (simp_all add: word_le_nat_alt)
  have h: "unat ?h = (2 ^ k - unat sector mod 2 ^ k) mod 2 ^ k" using unat_MOD_POWER_OF_2 [OF n] sub by simp
  have t: "unat ?t = (unat sector + unat num) mod 2 ^ k"
    using unat_MOD_POWER_OF_2 [OF n] r(1) by (simp add: unat_add_nowrap)
  have ih: "int (unat ?h) = (2 ^ k - int (unat sector) mod 2 ^ k) mod 2 ^ k"
    using h by (simp add: of_nat_diff zmod_int)
  have it: "int (unat ?t) = (int (unat sector) + int (unat num)) mod 2 ^ k" using t by (simp add: zmod_int)
  have hk: "unat ?h < 2 ^ k" "unat ?t < 2 ^ k" by (simp_all add: h t)
  have "unat ?h < 32768" "unat ?t < 32768" "unat num < 1073741824" using hk k r(2) by simp_all
  note al = sint_small_diff [OF this(3,1,2)]
  have sd: "sint (SDIV_POWER_OF_2 (num - ?h - ?t) spt) = (int (unat num) - int (unat ?h) - int (unat ?t)) div 2 ^ k"
    unfolding SDIV_POWER_OF_2_def n(1) ctz_pow2 sint_signed_drop_bit_eq al(1) by (simp add: drop_bit_eq_div)
  define q where "q = SDIV_POWER_OF_2 (num - ?h - ?t) spt"
  let ?b = "of_bool (?h \<noteq> 0) + of_bool (?t \<noteq> 0) :: int"
  have "sddf_count spt sector num = word_of_int (?b + sint q)"
    by (auto simp: sddf_count_def Let_def q_def [symmetric])
  moreover have "sint (word_of_int (?b + sint q) :: u32) = ?b + sint q"
  proof (rule sint_of_int_small)
    have "- 1073741824 \<le> sint q" "sint q < 1073741824"
      unfolding q_def sd using al(2,3) by (auto intro: div_int_bounds)
    then show "- (2 ^ (LENGTH(32) - 1)) \<le> ?b + sint q" "?b + sint q < 2 ^ (LENGTH(32) - 1)" by simp_all
  qed
  moreover have nz: "(?h \<noteq> 0) = (int (unat ?h) \<noteq> 0)" "(?t \<noteq> 0) = (int (unat ?t) \<noteq> 0)"
    by (metis unat_eq_zero of_nat_eq_0_iff)+
  ultimately show ?thesis
    using transfers_arith [of "2 ^ k" "int (unat num)" "int (unat sector)"] unfolding q_def sd nz ih it
    by (simp add: algebra_simps)
qed

text \<open>A sequence of transfers that covers a range of sectors and nothing else.\<close>

definition covers :: "nat \<Rightarrow> u32 \<Rightarrow> u32 \<Rightarrow> u32 \<Rightarrow> u32 \<Rightarrow> bool" where
  "covers n sec cnt sector num \<longleftrightarrow> 0 < sint cnt \<and>
     unat sec * n \<le> unat sector \<and> unat sector < (unat sec + 1) * n \<and>
     unat sector + unat num \<le> (unat sec + nat (sint cnt)) * n \<and>
     (unat sec + nat (sint cnt) - 1) * n < unat sector + unat num"

lemma sddf_covers:
  assumes n: "unat spt = 2 ^ k" "k < 16"
    and r: "unat sector + unat num < 2 ^ 32" "unat num < 2 ^ 30" "0 < unat num"
  shows "covers (2 ^ k) (sddf_sector spt sector) (sddf_count spt sector num) sector num"
proof -
  let ?n = "2 ^ k :: int" and ?x = "int (unat sector)" and ?c = "int (unat num)"
  define f where "f = ?x div ?n"
  define g where "g = (?x + ?c + ?n - 1) div ?n"
  have np: "0 < ?n" by simp
  have fx: "f * ?n \<le> ?x" "?x < (f + 1) * ?n"
  proof -
    have "0 \<le> ?x mod ?n" "?x mod ?n < ?n" by simp_all
    moreover have "?x = f * ?n + ?x mod ?n" unfolding f_def by (rule div_mult_mod_eq [symmetric])
    ultimately show "f * ?n \<le> ?x" "?x < (f + 1) * ?n" unfolding distrib_right by - linarith+
  qed
  have gx: "?x + ?c \<le> g * ?n" "(g - 1) * ?n < ?x + ?c"
  proof -
    have "(?x + ?c + ?n - 1) mod ?n < ?n" "0 \<le> (?x + ?c + ?n - 1) mod ?n" by simp_all
    moreover have "?x + ?c + ?n - 1 = g * ?n + (?x + ?c + ?n - 1) mod ?n"
      unfolding g_def by (rule div_mult_mod_eq [symmetric])
    ultimately show "?x + ?c \<le> g * ?n" "(g - 1) * ?n < ?x + ?c" unfolding left_diff_distrib by - linarith+
  qed
  have "f < g"
  proof (rule ccontr)
    assume "\<not> f < g"
    then have "g * ?n \<le> f * ?n" using np by simp
    then show False using gx(1) fx(1) r(3) by linarith
  qed
  have cnt: "sint (sddf_count spt sector num) = g - f" using sddf_count_exact [OF n r(1,2)] by (simp add: f_def g_def)
  have sec: "int (unat (sddf_sector spt sector)) = f"
    unfolding sddf_sector_def DIV_POWER_OF_2_def n(1) ctz_pow2 unat_drop_bit f_def by (simp add: zdiv_int)
  define F C where "F = unat (sddf_sector spt sector)" and "C = nat (sint (sddf_count spt sector num))"
  have f: "f = int F" using sec by (simp only: F_def)
  have g: "g = int (F + C)" "g - 1 = int (F + C - 1)" "0 < C"
    using \<open>f < g\<close> cnt f by (simp_all add: C_def)
  have p: "?n = int (2 ^ k)" by simp
  have f1: "f + 1 = int (F + 1)" using f by simp
  have "F * 2 ^ k \<le> unat sector" "unat sector < (F + 1) * 2 ^ k"
    using fx unfolding f1 unfolding f p of_nat_mult [symmetric] of_nat_le_iff of_nat_less_iff by blast+
  moreover have "unat sector + unat num \<le> (F + C) * 2 ^ k" "(F + C - 1) * 2 ^ k < unat sector + unat num"
    using gx unfolding g(2) unfolding g(1) p of_nat_mult [symmetric] of_nat_add [symmetric] of_nat_le_iff of_nat_less_iff by blast+
  moreover have "0 < sint (sddf_count spt sector num)" using cnt \<open>f < g\<close> by simp
  ultimately show ?thesis unfolding covers_def F_def C_def by blast
qed

lemma io_calls [simp]:
  "may_call (io_assert b s k) c \<longleftrightarrow> b \<and> may_call k c"
  "may_call (wait_for_blk_resp h s kk) c \<longleftrightarrow> c = Blk_wait h \<or> (\<exists>r s'. may_call (kk r s') c)"
proof -
  show "may_call (io_assert b s k) c \<longleftrightarrow> b \<and> may_call k c" by (simp add: io_assert_def)
  have "\<exists>a :: io_answer. ia_res a = r" for r
    by (rule exI [of _ "\<lparr>ia_err = False, ia_res = r, ia_value = []\<rparr>"]) simp
  then show "may_call (wait_for_blk_resp h s kk) c \<longleftrightarrow> c = Blk_wait h \<or> (\<exists>r s'. may_call (kk r s') c)"
    by (simp add: wait_for_blk_resp_def) metis
qed

lemma blk_enqueue_calls [simp]:
  "may_call (blk_enqueue rq addr sec n h s k) c \<longleftrightarrow> c = Blk_enqueue rq addr sec n h \<or> may_call (k s) c"
proof -
  have "\<exists>a :: io_answer. \<not> ia_err a"
    by (rule exI [of _ "\<lparr>ia_err = False, ia_res = RES_OK, ia_value = []\<rparr>"]) simp
  then show ?thesis by (auto simp: blk_enqueue_def)
qed

lemma unat_sector_per_transfer:
  assumes "unat (sector_size s) = 2 ^ b" "b \<le> a" "a < 16"
  shows "unat (sector_per_transfer (2 ^ a) s) = 2 ^ (a - b)"
proof -
  have "(2 :: nat) ^ (a - b) < 2 ^ 16" using assms(3) by (intro power_strict_increasing) simp_all
  then have "(2 :: nat) ^ (a - b) mod 2 ^ 16 = 2 ^ (a - b)" by (rule mod_less)
  then show ?thesis
    unfolding sector_per_transfer_def assms(1) ctz_pow2 unat_of_nat
    using assms(2) by (simp add: power_diff)
qed

lemma covers_one:
  assumes "unat num < 2 ^ 30" "0 < unat num"
  shows "covers 1 sector num sector num"
proof -
  have "num = word_of_int (int (unat num))" by simp
  moreover have "sint (word_of_int (int (unat num)) :: u32) = int (unat num)"
  proof (rule sint_of_int_small)
    have "0 \<le> int (unat num)" "int (unat num) < 1073741824"
      using assms(1) unfolding of_nat_less_iff [where 'a = int, symmetric] by simp_all
    moreover have l: "(2 :: int) ^ (LENGTH(32) - 1) = 2147483648" by simp
    ultimately show "- (2 ^ (LENGTH(32) - 1)) \<le> int (unat num)" "int (unat num) < 2 ^ (LENGTH(32) - 1)"
      unfolding l by linarith+
  qed
  ultimately have s: "sint num = int (unat num)" by metis
  have "0 < int (unat num)" using assms(2) unfolding of_nat_0_less_iff .
  then show ?thesis unfolding covers_def s nat_int using assms(2) by simp
qed

subsection \<open>Properties\<close>

text \<open>C30: reading or writing a range of sectors asks the block queue for exactly the transfers that the
  range touches: the first one holds the first sector, the last one the last sector, also when the range
  begins or ends inside a transfer or lies within one. All requests go through the data window of the
  calling thread.\<close>

theorem disk_transfers_cover:
  assumes "unat (sector_size s) = 2 ^ b" "b \<le> a" "a < 16"
    and "unat sector + unat num < 2 ^ 32" "unat num < 2 ^ 30" "0 < unat num"
    and "may_call (disk_read (2 ^ a) h sector num s) (Blk_enqueue rq addr sec n i) \<or>
      may_call (disk_write (2 ^ a) h buff sector num s) (Blk_enqueue rq addr sec n i)"
  shows "covers (2 ^ (a - b)) sec n sector num \<and> addr = thread_blk_addr s ! (h - 1) \<and> i = h"
proof -
  let ?spt = "sector_per_transfer (2 ^ a) s"
  note spt = unat_sector_per_transfer [OF assms(1-3)]
  have k: "a - b < 16" using assms(3) by simp
  have c: "covers (2 ^ (a - b)) (sddf_sector ?spt sector) (sddf_count ?spt sector num) sector num"
    by (rule sddf_covers [OF spt k assms(4-6)])
  have one: "covers (2 ^ (a - b)) sector num sector num" if "unat (sector_size s) = 2 ^ a"
  proof -
    have "a = b" using that assms(1) by (metis power_inject_exp one_less_numeral_iff semiring_norm(76))
    then show ?thesis using covers_one [OF assms(5,6)] by simp
  qed
  from assms(7) show ?thesis
    by (auto simp: disk_read_def disk_write_def Let_def c one split: if_splits)
qed

definition ex_disk :: io_state where
  "ex_disk = \<lparr>thread_blk_addr = [0, 8192, 16384, 24576], max_cluster_size = 8192, blk_request_pushed = False,
     blk_data = (\<lambda>_. 0), storage_ready = True, sector_size = 512\<rparr>"

theorem disk_transfers_cover_witness:
  "may_call (disk_read 4096 2 7 3 ex_disk) (Blk_enqueue BLK_REQ_READ 8192 0 2 2) \<and> covers 8 0 2 7 3"
proof -
  have c: "ctz 4096 = 12" "ctz 512 = 9" "ctz 8 = 3" by (simp_all add: ctz.simps)
  have call: "may_call (disk_read (2 ^ 12) 2 7 3 ex_disk) (Blk_enqueue BLK_REQ_READ 8192 0 2 2)"
    by (simp add: disk_read_def ex_disk_def Let_def fits_window_def sector_per_transfer_def sddf_count_def
        sddf_sector_def MOD_POWER_OF_2_def DIV_POWER_OF_2_def SDIV_POWER_OF_2_def c)
  have "unat (sector_size ex_disk) = 2 ^ 9" by (simp add: ex_disk_def)
  from disk_transfers_cover [OF this, of 12 7 3 2 BLK_REQ_READ 8192 0 2 2 "[]"] call show ?thesis by simp
qed

end
