(* ===== verification/Nfs_Op.thy ===== *)
theory Nfs_Op
  imports Coroutine Fs_Fd
begin

text \<open>
  \<open>components/fs/nfs/op.c\<close>: the request handlers of the NFS server. A handler starts an asynchronous
  request of the libnfs library, which either refuses it at once or calls back later; what the callback
  needs is kept in a continuation, a structure from a pool with a free list. The library is a parameter:
  its immediate and its later answers are arbitrary records.
\<close>

subsection \<open>State\<close>

record continuation =
  ct_request_id :: u64
  ct_data :: "u64 list"
  ct_next_free :: "nat option"

text \<open>File and directory handles of libnfs are pointers. The two path buffers are declared as
  \<open>char path_buffer[4096][2]\<close>: 8192 bytes in rows of two.\<close>

record nfs_state =
  nfs_context :: bool
  nfs_tab :: "u64 oftable"
  continuation_pool :: "continuation list"
  first_free_cont :: "nat option"
  path_buffer :: "u8 list"
  nfs_share :: share
  command_queue :: "fs_cmd fs_queue"
  completion_queue :: "fs_cmpl fs_queue"

definition MAX_CONCURRENT_OPS :: nat where "MAX_CONCURRENT_OPS = FS_QUEUE_CAPACITY"
definition CLIENT_SHARE_SIZE :: u64 where "CLIENT_SHARE_SIZE = 0x4000000"

datatype nfs_failure = No_continuation | Completion_queue_full | Fd_assertion | Continuation_assertion
  | Null_continuation | Name_assertion

datatype nfs_call =
    N_init_context | N_mount | N_stat "u8 list" | N_fstat "u64 option" | N_open "u8 list" u32 | N_close "u64 option"
  | N_pread "u64 option" u64 u64 u64 | N_pwrite "u64 option" u64 u64 u64 | N_rename "u8 list" "u8 list"
  | N_unlink "u8 list" | N_fsync "u64 option" | N_ftruncate "u64 option" u64 | N_mkdir "u8 list" | N_rmdir "u8 list"
  | N_opendir "u8 list" | N_closedir "u64 option" | N_readdir "u64 option" | N_seekdir "u64 option" int
  | N_telldir "u64 option" | N_rewinddir "u64 option"

text \<open>The answer: an error code or status, a pointer, a number, bytes, and the name of a directory entry.\<close>

record nfs_answer =
  na_status :: int
  na_ptr :: "u64 option"
  na_value :: u64
  na_bytes :: "u8 list"
  na_name :: "u8 list option"

type_synonym nfs_co = "(nfs_state, nfs_call, nfs_answer, unit, nfs_failure) co"

definition completion :: "u64 \<Rightarrow> fs_status \<Rightarrow> u64 \<Rightarrow> fs_cmpl" where
  "completion i st d = \<lparr>cmpl_id = i, cmpl_status = status_code st, cmpl_data = d\<rparr>"

definition reply :: "nfs_state \<Rightarrow> fs_cmpl \<Rightarrow> nfs_co" where
  "reply s cmpl =
     (if fs_queue_length_producer (completion_queue s) = of_nat FS_QUEUE_CAPACITY then Failed s Completion_queue_full
      else Return (s\<lparr>completion_queue :=
             fs_queue_publish_production (fsq_write (completion_queue s) 0 cmpl) 1\<rparr>) ())"

subsection \<open>Continuations and path buffers\<close>

definition continuation_pool_init :: "nfs_state \<Rightarrow> nfs_state" where
  "continuation_pool_init s = s\<lparr>first_free_cont := Some 0,
     continuation_pool := map (\<lambda>i. if i + 1 < MAX_CONCURRENT_OPS
       then (continuation_pool s ! i)\<lparr>ct_next_free := Some (i + 1)\<rparr> else continuation_pool s ! i)
       [0..<length (continuation_pool s)]\<rparr>"

definition upd_cont :: "nat \<Rightarrow> (continuation \<Rightarrow> continuation) \<Rightarrow> nfs_state \<Rightarrow> nfs_state" where
  "upd_cont c f s = s\<lparr>continuation_pool := (continuation_pool s)[c := f (continuation_pool s ! c)]\<rparr>"

definition continuation_alloc :: "nfs_state \<Rightarrow> nat option \<times> nfs_state" where
  "continuation_alloc s = (case first_free_cont s of
      None \<Rightarrow> (None, s)
    | Some c \<Rightarrow> (Some c, upd_cont c (\<lambda>k. k\<lparr>ct_next_free := None\<rparr>)
                  (s\<lparr>first_free_cont := ct_next_free (continuation_pool s ! c)\<rparr>)))"

definition continuation_free :: "nat \<Rightarrow> nfs_state \<Rightarrow> (nfs_state \<Rightarrow> nfs_co) \<Rightarrow> nfs_co" where
  "continuation_free c s k =
     (if c < MAX_CONCURRENT_OPS \<and> ct_next_free (continuation_pool s ! c) = None
      then k ((upd_cont c (\<lambda>k. k\<lparr>ct_next_free := first_free_cont s\<rparr>) s)\<lparr>first_free_cont := Some c\<rparr>)
      else Failed s Continuation_assertion)"

text \<open>Allocating a continuation, with the assertion that there is one, and recording the request.\<close>

definition new_cont :: "nfs_state \<Rightarrow> u64 \<Rightarrow> u64 list \<Rightarrow> (nat \<Rightarrow> nfs_state \<Rightarrow> nfs_co) \<Rightarrow> nfs_co" where
  "new_cont s i ds k = (case continuation_alloc s of
      (None, s) \<Rightarrow> Failed s No_continuation
    | (Some c, s) \<Rightarrow> k c (upd_cont c (\<lambda>k. k\<lparr>ct_request_id := i, ct_data := ds @ drop (length ds) (ct_data k)\<rparr>) s))"

definition cont_id :: "nfs_state \<Rightarrow> nat \<Rightarrow> u64" where
  "cont_id s c = ct_request_id (continuation_pool s ! c)"

definition cont_data :: "nfs_state \<Rightarrow> nat \<Rightarrow> nat \<Rightarrow> u64" where
  "cont_data s c j = ct_data (continuation_pool s ! c) ! j"

text \<open>The offset of a path buffer in the array, a copy to it, and the C string that starts there.\<close>

definition get_path_buffer :: "nat \<Rightarrow> nat" where
  "get_path_buffer slot = 2 * slot"

definition copy_path :: "nfs_state \<Rightarrow> nat \<Rightarrow> fs_buffer \<Rightarrow> nfs_state option" where
  "copy_path s off buf = (case fs_copy_client_path (nfs_share s) CLIENT_SHARE_SIZE buf of
      None \<Rightarrow> None
    | Some bs \<Rightarrow> Some (s\<lparr>path_buffer := take off (path_buffer s) @ bs @ drop (off + length bs) (path_buffer s)\<rparr>))"

definition path_at :: "nfs_state \<Rightarrow> nat \<Rightarrow> u8 list" where
  "path_at s off = takeWhile (\<lambda>b. b \<noteq> 0) (drop off (path_buffer s))"

definition nfs_end_op :: "fd \<Rightarrow> nfs_state \<Rightarrow> (nfs_state \<Rightarrow> nfs_co) \<Rightarrow> nfs_co" where
  "nfs_end_op fd s k = (case fd_end_op (nfs_tab s) fd of
      None \<Rightarrow> Failed s Fd_assertion
    | Some t \<Rightarrow> k (s\<lparr>nfs_tab := t\<rparr>))"

definition nfs_ignored :: "nfs_state \<Rightarrow> u64 oftable option \<Rightarrow> nfs_state" where
  "nfs_ignored s r = (case r of None \<Rightarrow> s | Some t \<Rightarrow> s\<lparr>nfs_tab := t\<rparr>)"

text \<open>An asynchronous call: refused with an error, or answered by a callback.\<close>

definition nfs_async :: "nfs_call \<Rightarrow> nfs_state \<Rightarrow> nfs_co \<Rightarrow> (nfs_answer \<Rightarrow> nfs_state \<Rightarrow> nfs_co) \<Rightarrow> nfs_co" where
  "nfs_async c s fail_enqueue cb = Ask c (\<lambda>a. if na_status a \<noteq> 0 then fail_enqueue else Suspend s c cb)"

abbreviation nfs_buffer :: "fs_buffer \<Rightarrow> u64 option" where
  "nfs_buffer \<equiv> fs_get_client_buffer CLIENT_SHARE_SIZE"

subsection \<open>Handlers\<close>

text \<open>The callbacks of requests that return nothing but a status.\<close>

definition plain_cb :: "nat \<Rightarrow> nfs_answer \<Rightarrow> nfs_state \<Rightarrow> nfs_co" where
  "plain_cb c a s =
     (let cmpl = completion (cont_id s c) (if na_status a \<noteq> 0 then FS_STATUS_ERROR else FS_STATUS_SUCCESS) 0
      in continuation_free c s (\<lambda>s. reply s cmpl))"

definition initialise_cb :: "nat \<Rightarrow> nfs_answer \<Rightarrow> nfs_state \<Rightarrow> nfs_co" where
  "initialise_cb = plain_cb"

definition nfs_initialise :: "fs_cmd \<Rightarrow> nfs_state \<Rightarrow> nfs_co" where
  "nfs_initialise cmd s =
     (let fail = (\<lambda>s. reply s (completion (cmd_id cmd) FS_STATUS_ERROR 0))
      in if nfs_context s then fail s
         else Ask N_init_context (\<lambda>a.
           if na_ptr a = None then fail s
           else let s = s\<lparr>nfs_context := True\<rparr>
                in new_cont s (cmd_id cmd) [] (\<lambda>c s.
                     nfs_async N_mount s (continuation_free c s fail) (initialise_cb c))))"

text \<open>No reply is sent.\<close>

definition nfs_deinitialise :: "fs_cmd \<Rightarrow> nfs_state \<Rightarrow> nfs_co" where
  "nfs_deinitialise cmd s = Return s ()"

definition stat_cb :: "nat \<Rightarrow> nfs_answer \<Rightarrow> nfs_state \<Rightarrow> nfs_co" where
  "stat_cb c a s =
     (let i = cont_id s c; buf = cont_data s c 0;
          (s, st) = (if na_status a = 0
             then (s\<lparr>nfs_share := share_store (nfs_share s) buf (take (unat sizeof_fs_stat) (na_bytes a))\<rparr>, FS_STATUS_SUCCESS)
             else (s, FS_STATUS_ERROR))
      in continuation_free c s (\<lambda>s. reply s (completion i st 0)))"

definition nfs_stat :: "fs_cmd \<Rightarrow> nfs_state \<Rightarrow> nfs_co" where
  "nfs_stat cmd s =
     (let p = stat_params (cmd_params cmd); path = get_path_buffer 0
      in case copy_path s path (sp_path p) of
        None \<Rightarrow> reply s (completion (cmd_id cmd) FS_STATUS_INVALID_PATH 0)
      | Some s \<Rightarrow>
        if nfs_buffer (sp_buf p) = None \<or> buf_size (sp_buf p) < sizeof_fs_stat then
          reply s (completion (cmd_id cmd) FS_STATUS_INVALID_BUFFER 0)
        else new_cont s (cmd_id cmd) [buf_offset (sp_buf p)] (\<lambda>c s.
          nfs_async (N_stat (path_at s path)) s
            (continuation_free c s (\<lambda>s. reply s (completion (cmd_id cmd) FS_STATUS_ERROR 0)))
            (stat_cb c)))"

definition file_size_cb :: "nat \<Rightarrow> nfs_answer \<Rightarrow> nfs_state \<Rightarrow> nfs_co" where
  "file_size_cb c a s =
     (let i = cont_id s c; fd = cont_data s c 0;
          cmpl = (if na_status a \<noteq> 0 then completion i FS_STATUS_ERROR 0
                  else completion i FS_STATUS_SUCCESS (na_value a))
      in nfs_end_op fd s (\<lambda>s. continuation_free c s (\<lambda>s. reply s cmpl)))"

text \<open>The requests on an open descriptor share their frame: begin an operation, take a continuation,
  call the library, and undo both if the call is refused.\<close>

definition nfs_fd_request :: "open_kind \<Rightarrow> fs_cmd \<Rightarrow> fd \<Rightarrow> u64 list \<Rightarrow> (u64 option \<Rightarrow> nfs_call)
    \<Rightarrow> (nat \<Rightarrow> nfs_answer \<Rightarrow> nfs_state \<Rightarrow> nfs_co) \<Rightarrow> nfs_state \<Rightarrow> nfs_co" where
  "nfs_fd_request kind cmd fd ds call cb s =
     (case (case kind of File \<Rightarrow> fd_begin_op_file | Dir \<Rightarrow> fd_begin_op_dir) (nfs_tab s) fd of
        None \<Rightarrow> reply s (completion (cmd_id cmd) FS_STATUS_INVALID_FD 0)
      | Some (file_handle, t) \<Rightarrow>
        new_cont (s\<lparr>nfs_tab := t\<rparr>) (cmd_id cmd) (fd # ds) (\<lambda>c s.
          nfs_async (call file_handle) s
            (continuation_free c s (\<lambda>s. nfs_end_op fd s (\<lambda>s.
               reply s (completion (cmd_id cmd) FS_STATUS_ERROR 0))))
            (cb c)))"

definition nfs_file_size :: "fs_cmd \<Rightarrow> nfs_state \<Rightarrow> nfs_co" where
  "nfs_file_size cmd = nfs_fd_request File cmd (file_size_fd (cmd_params cmd)) [] N_fstat file_size_cb"

definition file_open_cb :: "nat \<Rightarrow> nfs_answer \<Rightarrow> nfs_state \<Rightarrow> nfs_co" where
  "file_open_cb c a s =
     (let i = cont_id s c; fd = cont_data s c 0
      in if na_status a = 0 then
           let s = nfs_ignored s (fd_set_file (nfs_tab s) fd (na_ptr a))
           in continuation_free c s (\<lambda>s. reply s (completion i FS_STATUS_SUCCESS fd))
         else
           let s = nfs_ignored s (fd_free (nfs_tab s) fd)
           in continuation_free c s (\<lambda>s. reply s (completion i FS_STATUS_ERROR 0)))"

definition O_RDONLY :: u32 where "O_RDONLY = 0"
definition O_WRONLY :: u32 where "O_WRONLY = 1"
definition O_RDWR :: u32 where "O_RDWR = 2"
definition O_CREAT :: u32 where "O_CREAT = 0x40"

definition nfs_posix_flags :: "u64 \<Rightarrow> u32" where
  "nfs_posix_flags flags =
     (let f = 0;
          f = (if flags AND FS_OPEN_FLAGS_READ_ONLY \<noteq> 0 then f OR O_RDONLY else f);
          f = (if flags AND FS_OPEN_FLAGS_WRITE_ONLY \<noteq> 0 then f OR O_WRONLY else f);
          f = (if flags AND FS_OPEN_FLAGS_READ_WRITE \<noteq> 0 then f OR O_RDWR else f)
      in if flags AND FS_OPEN_FLAGS_CREATE \<noteq> 0 then f OR O_CREAT else f)"

text \<open>Opening reserves a descriptor first.\<close>

definition nfs_open_request :: "fs_cmd \<Rightarrow> fs_buffer \<Rightarrow> (u8 list \<Rightarrow> nfs_call)
    \<Rightarrow> (nat \<Rightarrow> nfs_answer \<Rightarrow> nfs_state \<Rightarrow> nfs_co) \<Rightarrow> nfs_state \<Rightarrow> nfs_co" where
  "nfs_open_request cmd buf call cb s =
     (let path = get_path_buffer 0
      in case copy_path s path buf of
        None \<Rightarrow> reply s (completion (cmd_id cmd) FS_STATUS_INVALID_PATH 0)
      | Some s \<Rightarrow>
        (case fd_alloc (nfs_tab s) of
          None \<Rightarrow> reply s (completion (cmd_id cmd) FS_STATUS_ALLOCATION_ERROR 0)
        | Some (fd, t) \<Rightarrow>
          new_cont (s\<lparr>nfs_tab := t\<rparr>) (cmd_id cmd) [fd] (\<lambda>c s.
            nfs_async (call (path_at s path)) s
              (continuation_free c s (\<lambda>s.
                 let s = nfs_ignored s (fd_free (nfs_tab s) fd)
                 in reply s (completion (cmd_id cmd) FS_STATUS_ERROR 0)))
              (cb c))))"

definition nfs_file_open :: "fs_cmd \<Rightarrow> nfs_state \<Rightarrow> nfs_co" where
  "nfs_file_open cmd =
     (let p = file_open_params (cmd_params cmd)
      in nfs_open_request cmd (fo_path p) (\<lambda>path. N_open path (nfs_posix_flags (fo_flags p))) file_open_cb)"

definition file_close_cb :: "nat \<Rightarrow> nfs_answer \<Rightarrow> nfs_state \<Rightarrow> nfs_co" where
  "file_close_cb c a s =
     (let i = cont_id s c; fd = cont_data s c 0; fh = cont_data s c 1
      in if na_status a = 0 then
           let s = nfs_ignored s (fd_free (nfs_tab s) fd)
           in continuation_free c s (\<lambda>s. reply s (completion i FS_STATUS_SUCCESS 0))
         else
           let s = nfs_ignored s (fd_set_file (nfs_tab s) fd (if fh = 0 then None else Some fh))
           in continuation_free c s (\<lambda>s. reply s (completion i FS_STATUS_ERROR 0)))"

definition nfs_file_close :: "fs_cmd \<Rightarrow> nfs_state \<Rightarrow> nfs_co" where
  "nfs_file_close cmd s =
     (let fd = file_close_fd (cmd_params cmd)
      in case fd_begin_op_file (nfs_tab s) fd of
        None \<Rightarrow> reply s (completion (cmd_id cmd) FS_STATUS_INVALID_FD 0)
      | Some (fh, t) \<Rightarrow>
        nfs_end_op fd (s\<lparr>nfs_tab := t\<rparr>) (\<lambda>s.
          case fd_unset (nfs_tab s) fd of
            None \<Rightarrow> reply s (completion (cmd_id cmd) FS_STATUS_OUTSTANDING_OPERATIONS 0)
          | Some t \<Rightarrow>
            new_cont (s\<lparr>nfs_tab := t\<rparr>) (cmd_id cmd) [fd, case fh of None \<Rightarrow> 0 | Some h \<Rightarrow> h] (\<lambda>c s.
              nfs_async (N_close fh) s
                (continuation_free c s (\<lambda>s.
                   let s = nfs_ignored s (fd_set_file (nfs_tab s) fd fh)
                   in reply s (completion (cmd_id cmd) FS_STATUS_ERROR 0)))
                (file_close_cb c))))"

text \<open>libnfs stores what it reads in the buffer that it was given.\<close>

definition file_read_cb :: "nat \<Rightarrow> nfs_answer \<Rightarrow> nfs_state \<Rightarrow> nfs_co" where
  "file_read_cb c a s =
     (let i = cont_id s c; fd = cont_data s c 0;
          s = s\<lparr>nfs_share := share_store (nfs_share s) (cont_data s c 1) (na_bytes a)\<rparr>;
          cmpl = (if na_status a \<ge> 0 then completion i FS_STATUS_SUCCESS (of_int (na_status a))
                  else completion i FS_STATUS_ERROR 0)
      in nfs_end_op fd s (\<lambda>s. continuation_free c s (\<lambda>s. reply s cmpl)))"

definition nfs_file_read :: "fs_cmd \<Rightarrow> nfs_state \<Rightarrow> nfs_co" where
  "nfs_file_read cmd s =
     (let p = file_read_params (cmd_params cmd)
      in case nfs_buffer (io_buf p) of
        None \<Rightarrow> reply s (completion (cmd_id cmd) FS_STATUS_INVALID_BUFFER 0)
      | Some buf \<Rightarrow>
        nfs_fd_request File cmd (io_fd p) [buf] (\<lambda>h. N_pread h buf (buf_size (io_buf p)) (io_offset p)) file_read_cb s)"

definition file_write_cb :: "nat \<Rightarrow> nfs_answer \<Rightarrow> nfs_state \<Rightarrow> nfs_co" where
  "file_write_cb c a s =
     (let i = cont_id s c; fd = cont_data s c 0;
          cmpl = (if na_status a \<ge> 0 then completion i FS_STATUS_SUCCESS (of_int (na_status a))
                  else completion i FS_STATUS_ERROR 0)
      in nfs_end_op fd s (\<lambda>s. continuation_free c s (\<lambda>s. reply s cmpl)))"

definition nfs_file_write :: "fs_cmd \<Rightarrow> nfs_state \<Rightarrow> nfs_co" where
  "nfs_file_write cmd s =
     (let p = file_write_params (cmd_params cmd)
      in case nfs_buffer (io_buf p) of
        None \<Rightarrow> reply s (completion (cmd_id cmd) FS_STATUS_INVALID_BUFFER 0)
      | Some buf \<Rightarrow>
        nfs_fd_request File cmd (io_fd p) [] (\<lambda>h. N_pwrite h buf (buf_size (io_buf p)) (io_offset p)) file_write_cb s)"

definition rename_cb :: "nat \<Rightarrow> nfs_answer \<Rightarrow> nfs_state \<Rightarrow> nfs_co" where
  "rename_cb = plain_cb"

definition nfs_rename :: "fs_cmd \<Rightarrow> nfs_state \<Rightarrow> nfs_co" where
  "nfs_rename cmd s =
     (let p = rename_params (cmd_params cmd); old_path = get_path_buffer 0; new_path = get_path_buffer 1
      in case copy_path s old_path (rn_old_path p) of
        None \<Rightarrow> reply s (completion (cmd_id cmd) FS_STATUS_INVALID_PATH 0)
      | Some s \<Rightarrow>
        (case copy_path s new_path (rn_old_path p) of
          None \<Rightarrow> reply s (completion (cmd_id cmd) FS_STATUS_INVALID_PATH 0)
        | Some s \<Rightarrow>
          new_cont s (cmd_id cmd) [] (\<lambda>c s.
            nfs_async (N_rename (path_at s old_path) (path_at s new_path)) s
              (continuation_free c s (\<lambda>s. reply s (completion (cmd_id cmd) FS_STATUS_ERROR 0)))
              (rename_cb c))))"

text \<open>The requests on one path.\<close>

definition nfs_path_request :: "fs_cmd \<Rightarrow> fs_buffer \<Rightarrow> (u8 list \<Rightarrow> nfs_call)
    \<Rightarrow> (nat \<Rightarrow> nfs_answer \<Rightarrow> nfs_state \<Rightarrow> nfs_co) \<Rightarrow> nfs_state \<Rightarrow> nfs_co" where
  "nfs_path_request cmd buf call cb s =
     (let path = get_path_buffer 0
      in case copy_path s path buf of
        None \<Rightarrow> reply s (completion (cmd_id cmd) FS_STATUS_INVALID_PATH 0)
      | Some s \<Rightarrow>
        new_cont s (cmd_id cmd) [] (\<lambda>c s.
          nfs_async (call (path_at s path)) s
            (continuation_free c s (\<lambda>s. reply s (completion (cmd_id cmd) FS_STATUS_ERROR 0)))
            (cb c)))"

definition file_remove_cb :: "nat \<Rightarrow> nfs_answer \<Rightarrow> nfs_state \<Rightarrow> nfs_co" where
  "file_remove_cb = plain_cb"

definition nfs_file_remove :: "fs_cmd \<Rightarrow> nfs_state \<Rightarrow> nfs_co" where
  "nfs_file_remove cmd = nfs_path_request cmd (file_remove_path (cmd_params cmd)) N_unlink file_remove_cb"

text \<open>The callbacks of requests on a descriptor that return nothing but a status.\<close>

definition fd_plain_cb :: "nat \<Rightarrow> nfs_answer \<Rightarrow> nfs_state \<Rightarrow> nfs_co" where
  "fd_plain_cb c a s =
     (let cmpl = completion (cont_id s c) (if na_status a \<noteq> 0 then FS_STATUS_ERROR else FS_STATUS_SUCCESS) 0
      in nfs_end_op (cont_data s c 0) s (\<lambda>s. continuation_free c s (\<lambda>s. reply s cmpl)))"

definition file_sync_cb :: "nat \<Rightarrow> nfs_answer \<Rightarrow> nfs_state \<Rightarrow> nfs_co" where
  "file_sync_cb = fd_plain_cb"

definition nfs_file_sync :: "fs_cmd \<Rightarrow> nfs_state \<Rightarrow> nfs_co" where
  "nfs_file_sync cmd = nfs_fd_request File cmd (file_sync_fd (cmd_params cmd)) [] N_fsync file_sync_cb"

definition file_truncate_cb :: "nat \<Rightarrow> nfs_answer \<Rightarrow> nfs_state \<Rightarrow> nfs_co" where
  "file_truncate_cb = fd_plain_cb"

definition nfs_file_truncate :: "fs_cmd \<Rightarrow> nfs_state \<Rightarrow> nfs_co" where
  "nfs_file_truncate cmd =
     (let p = file_truncate_params (cmd_params cmd)
      in nfs_fd_request File cmd (ft_fd p) [] (\<lambda>h. N_ftruncate h (ft_length p)) file_truncate_cb)"

definition dir_create_cb :: "nat \<Rightarrow> nfs_answer \<Rightarrow> nfs_state \<Rightarrow> nfs_co" where
  "dir_create_cb = plain_cb"

definition nfs_dir_create :: "fs_cmd \<Rightarrow> nfs_state \<Rightarrow> nfs_co" where
  "nfs_dir_create cmd = nfs_path_request cmd (dir_create_path (cmd_params cmd)) N_mkdir dir_create_cb"

text \<open>This callback allocates a continuation instead of using the one of its request.\<close>

definition dir_remove_cb :: "nat \<Rightarrow> nfs_answer \<Rightarrow> nfs_state \<Rightarrow> nfs_co" where
  "dir_remove_cb private_data a s = (case continuation_alloc s of
      (None, s) \<Rightarrow> Failed s Null_continuation
    | (Some c, s) \<Rightarrow>
        let cmpl = completion (cont_id s c) (if na_status a \<noteq> 0 then FS_STATUS_ERROR else FS_STATUS_SUCCESS) 0
        in continuation_free c s (\<lambda>s. reply s cmpl))"

definition nfs_dir_remove :: "fs_cmd \<Rightarrow> nfs_state \<Rightarrow> nfs_co" where
  "nfs_dir_remove cmd = nfs_path_request cmd (dir_remove_path (cmd_params cmd)) N_rmdir dir_remove_cb"

definition dir_open_cb :: "nat \<Rightarrow> nfs_answer \<Rightarrow> nfs_state \<Rightarrow> nfs_co" where
  "dir_open_cb c a s =
     (let i = cont_id s c; fd = cont_data s c 0
      in if na_status a = 0 then
           let s = nfs_ignored s (fd_set_dir (nfs_tab s) fd (na_ptr a))
           in continuation_free c s (\<lambda>s. reply s (completion i FS_STATUS_SUCCESS fd))
         else
           let s = nfs_ignored s (fd_free (nfs_tab s) fd)
           in continuation_free c s (\<lambda>s. reply s (completion i FS_STATUS_ERROR 0)))"

definition nfs_dir_open :: "fs_cmd \<Rightarrow> nfs_state \<Rightarrow> nfs_co" where
  "nfs_dir_open cmd = nfs_open_request cmd (dir_open_path (cmd_params cmd)) N_opendir dir_open_cb"

definition nfs_dir_close :: "fs_cmd \<Rightarrow> nfs_state \<Rightarrow> nfs_co" where
  "nfs_dir_close cmd s =
     (let fd = dir_close_fd (cmd_params cmd)
      in case fd_begin_op_dir (nfs_tab s) fd of
        None \<Rightarrow> reply s (completion (cmd_id cmd) FS_STATUS_INVALID_FD 0)
      | Some (dir, t) \<Rightarrow>
        nfs_end_op fd (s\<lparr>nfs_tab := t\<rparr>) (\<lambda>s.
          case fd_unset (nfs_tab s) fd of
            None \<Rightarrow> reply s (completion (cmd_id cmd) FS_STATUS_OUTSTANDING_OPERATIONS 0)
          | Some t \<Rightarrow>
            let s = s\<lparr>nfs_tab := t\<rparr>
            in Ask (N_closedir dir) (\<lambda>a.
                 let s = nfs_ignored s (fd_free (nfs_tab s) fd)
                 in reply s (completion (cmd_id cmd) FS_STATUS_SUCCESS 0))))"

text \<open>The directory requests that the library answers at once.\<close>

definition nfs_dir_request :: "fs_cmd \<Rightarrow> fd \<Rightarrow> (u64 option \<Rightarrow> nfs_call) \<Rightarrow> (nfs_answer \<Rightarrow> u64) \<Rightarrow> nfs_state \<Rightarrow> nfs_co" where
  "nfs_dir_request cmd fd call res s =
     (case fd_begin_op_dir (nfs_tab s) fd of
        None \<Rightarrow> reply s (completion (cmd_id cmd) FS_STATUS_INVALID_FD 0)
      | Some (dir, t) \<Rightarrow>
        let s = s\<lparr>nfs_tab := t\<rparr>
        in Ask (call dir) (\<lambda>a. nfs_end_op fd s (\<lambda>s.
             reply s (completion (cmd_id cmd) FS_STATUS_SUCCESS (res a)))))"

definition nfs_dir_read :: "fs_cmd \<Rightarrow> nfs_state \<Rightarrow> nfs_co" where
  "nfs_dir_read cmd s =
     (let p = dir_read_params (cmd_params cmd); fd = dr_fd p
      in case nfs_buffer (dr_buf p) of
        None \<Rightarrow> reply s (completion (cmd_id cmd) FS_STATUS_INVALID_BUFFER 0)
      | Some buf \<Rightarrow>
        if buf_size (dr_buf p) < of_nat FS_MAX_NAME_LENGTH
        then reply s (completion (cmd_id cmd) FS_STATUS_INVALID_BUFFER 0)
        else (case fd_begin_op_dir (nfs_tab s) fd of
          None \<Rightarrow> reply s (completion (cmd_id cmd) FS_STATUS_INVALID_FD 0)
        | Some (dir, t) \<Rightarrow>
          let s = s\<lparr>nfs_tab := t\<rparr>
          in Ask (N_readdir dir) (\<lambda>a. case na_name a of
               None \<Rightarrow> nfs_end_op fd s (\<lambda>s. reply s (completion (cmd_id cmd) FS_STATUS_END_OF_DIRECTORY 0))
             | Some name \<Rightarrow>
                 if FS_MAX_NAME_LENGTH < length name then Failed s Name_assertion
                 else let s = s\<lparr>nfs_share := share_store (nfs_share s) buf name\<rparr>
                      in nfs_end_op fd s (\<lambda>s.
                           reply s (completion (cmd_id cmd) FS_STATUS_SUCCESS (of_nat (length name)))))))"

definition nfs_dir_seek :: "fs_cmd \<Rightarrow> nfs_state \<Rightarrow> nfs_co" where
  "nfs_dir_seek cmd =
     (let p = dir_seek_params (cmd_params cmd)
      in nfs_dir_request cmd (ds_fd p) (\<lambda>dir. N_seekdir dir (ds_loc p)) (\<lambda>a. 0))"

definition nfs_dir_tell :: "fs_cmd \<Rightarrow> nfs_state \<Rightarrow> nfs_co" where
  "nfs_dir_tell cmd = nfs_dir_request cmd (dir_tell_fd (cmd_params cmd)) N_telldir na_value"

definition nfs_dir_rewind :: "fs_cmd \<Rightarrow> nfs_state \<Rightarrow> nfs_co" where
  "nfs_dir_rewind cmd = nfs_dir_request cmd (dir_rewind_fd (cmd_params cmd)) N_rewinddir (\<lambda>a. 0)"

fun cmd_handler :: "fs_cmd_type \<Rightarrow> fs_cmd \<Rightarrow> nfs_state \<Rightarrow> nfs_co" where
  "cmd_handler FS_CMD_INITIALISE = nfs_initialise"
| "cmd_handler FS_CMD_DEINITIALISE = nfs_deinitialise"
| "cmd_handler FS_CMD_FILE_OPEN = nfs_file_open"
| "cmd_handler FS_CMD_FILE_CLOSE = nfs_file_close"
| "cmd_handler FS_CMD_STAT = nfs_stat"
| "cmd_handler FS_CMD_FILE_READ = nfs_file_read"
| "cmd_handler FS_CMD_FILE_WRITE = nfs_file_write"
| "cmd_handler FS_CMD_FILE_SIZE = nfs_file_size"
| "cmd_handler FS_CMD_RENAME = nfs_rename"
| "cmd_handler FS_CMD_FILE_REMOVE = nfs_file_remove"
| "cmd_handler FS_CMD_FILE_TRUNCATE = nfs_file_truncate"
| "cmd_handler FS_CMD_DIR_CREATE = nfs_dir_create"
| "cmd_handler FS_CMD_DIR_REMOVE = nfs_dir_remove"
| "cmd_handler FS_CMD_DIR_OPEN = nfs_dir_open"
| "cmd_handler FS_CMD_DIR_CLOSE = nfs_dir_close"
| "cmd_handler FS_CMD_FILE_SYNC = nfs_file_sync"
| "cmd_handler FS_CMD_DIR_READ = nfs_dir_read"
| "cmd_handler FS_CMD_DIR_SEEK = nfs_dir_seek"
| "cmd_handler FS_CMD_DIR_TELL = nfs_dir_tell"
| "cmd_handler FS_CMD_DIR_REWIND = nfs_dir_rewind"

text \<open>One command of the queue.\<close>

definition nfs_request :: "fs_cmd \<Rightarrow> nfs_state \<Rightarrow> nfs_co" where
  "nfs_request cmd s =
     (if FS_NUM_COMMANDS \<le> cmd_type cmd then reply s (completion (cmd_id cmd) FS_STATUS_INVALID_COMMAND 0)
      else cmd_handler (cmd_type_of (cmd_type cmd)) cmd s)"

text \<open>\<open>process_commands\<close>: the commands that are there and for which the completion queue has space now
  are served one after the other; then they are removed from the queue.\<close>

definition commands_to_consume :: "nfs_state \<Rightarrow> u64" where
  "commands_to_consume s =
     min (fs_queue_length_consumer (command_queue s))
       (of_nat FS_QUEUE_CAPACITY - fs_queue_length_producer (completion_queue s))"

inductive process_loop :: "nat \<Rightarrow> nat \<Rightarrow> (nfs_state, nfs_call, nfs_answer, unit, nfs_failure) world
    \<Rightarrow> (nfs_state, nfs_call, nfs_answer, unit, nfs_failure) world \<Rightarrow> bool" where
  process_done: "process_loop i 0 (Running s ts) (Running s ts)"
| process_crashed: "process_loop i n (Crashed s f) (Crashed s f)"
| process_one: "continues (nfs_request (fsq_read (command_queue s) (of_nat i)) s) ts w \<Longrightarrow>
    process_loop (Suc i) n w w' \<Longrightarrow> process_loop i (Suc n) (Running s ts) w'"

inductive process_commands :: "(nfs_state, nfs_call, nfs_answer, unit, nfs_failure) world
    \<Rightarrow> (nfs_state, nfs_call, nfs_answer, unit, nfs_failure) world \<Rightarrow> bool" where
  process_published: "process_loop 0 (unat (commands_to_consume s)) (Running s ts) (Running s' ts') \<Longrightarrow>
    process_commands (Running s ts) (Running
      (s'\<lparr>command_queue := fs_queue_publish_consumption (command_queue s') (commands_to_consume s)\<rparr>) ts')"
| process_stopped: "process_loop 0 (unat (commands_to_consume s)) (Running s ts) (Crashed s' f) \<Longrightarrow>
    process_commands (Running s ts) (Crashed s' f)"

subsection \<open>Facts\<close>

lemma reply_no_call [simp]: "\<not> may_call (reply s m) c"
  by (simp add: reply_def)

lemma continuation_free_call [simp]:
  "may_call (continuation_free c s k) call \<longleftrightarrow>
    c < MAX_CONCURRENT_OPS \<and> ct_next_free (continuation_pool s ! c) = None \<and>
    may_call (k ((upd_cont c (\<lambda>k. k\<lparr>ct_next_free := first_free_cont s\<rparr>) s)\<lparr>first_free_cont := Some c\<rparr>)) call"
  by (simp add: continuation_free_def)

lemma plain_cb_no_call [simp]: "\<not> may_call (plain_cb c a s) call"
  by (simp add: plain_cb_def Let_def)

lemma nfs_async_call:
  "may_call (nfs_async c s e cb) call \<longleftrightarrow> call = c \<or> may_call e call \<or> (\<exists>a s'. may_call (cb a s') call)"
proof -
  have "\<exists>a :: nfs_answer. na_status a \<noteq> 0"
    by (rule exI [of _ "\<lparr>na_status = 1, na_ptr = None, na_value = 0, na_bytes = [], na_name = None\<rparr>"]) simp
  moreover have "\<exists>a :: nfs_answer. na_status a = 0"
    by (rule exI [of _ "\<lparr>na_status = 0, na_ptr = None, na_value = 0, na_bytes = [], na_name = None\<rparr>"]) simp
  ultimately show ?thesis by (auto simp: nfs_async_def split: if_splits)
qed

lemma upd_cont_fields [simp]:
  "path_buffer (upd_cont c f s) = path_buffer s" "nfs_share (upd_cont c f s) = nfs_share s"
  "completion_queue (upd_cont c f s) = completion_queue s" "first_free_cont (upd_cont c f s) = first_free_cont s"
  "length (continuation_pool (upd_cont c f s)) = length (continuation_pool s)"
  by (simp_all add: upd_cont_def)

lemma new_cont_call:
  "may_call (new_cont s i ds k) call \<Longrightarrow> \<exists>c s'. path_buffer s' = path_buffer s \<and> may_call (k c s') call"
proof -
  assume m: "may_call (new_cont s i ds k) call"
  show ?thesis
  proof (cases "first_free_cont s")
    case None
    with m show ?thesis by (simp add: new_cont_def continuation_alloc_def)
  next
    case (Some c)
    let ?s = "upd_cont c (\<lambda>k. k\<lparr>ct_request_id := i, ct_data := ds @ drop (length ds) (ct_data k)\<rparr>)
      (upd_cont c (\<lambda>k. k\<lparr>ct_next_free := None\<rparr>) (s\<lparr>first_free_cont := ct_next_free (continuation_pool s ! c)\<rparr>))"
    have "may_call (k c ?s) call" using m Some by (simp add: new_cont_def continuation_alloc_def)
    moreover have "path_buffer ?s = path_buffer s" by simp
    ultimately show ?thesis by blast
  qed
qed

lemma copy_path_Some:
  "copy_path s off buf = Some s' \<longleftrightarrow> (\<exists>bs. fs_copy_client_path (nfs_share s) CLIENT_SHARE_SIZE buf = Some bs \<and>
    s' = s\<lparr>path_buffer := take off (path_buffer s) @ bs @ drop (off + length bs) (path_buffer s)\<rparr>)"
  by (auto simp: copy_path_def split: option.splits)

lemma takeWhile_string: "0 \<notin> set (xs :: u8 list) \<Longrightarrow> takeWhile (\<lambda>b. b \<noteq> 0) (xs @ 0 # ys) = xs"
  by (induction xs) auto

subsection \<open>Properties\<close>

text \<open>Renaming never uses the new path of the command. Both path buffers are filled from the old path,
  and since the buffers are rows of two bytes, the second copy overwrites the first from its third byte
  on: the library is asked to rename the first two bytes of the old path followed by the old path,
  to the old path.\<close>

theorem nfs_rename_ignores_new_path:
  assumes "fs_copy_client_path (nfs_share s) CLIENT_SHARE_SIZE (rn_old_path (rename_params (cmd_params cmd))) = Some (old @ [0])"
    and "0 \<notin> set old" "2 \<le> length old" "length (path_buffer s) = 8192"
    and "may_call (nfs_rename cmd s) call"
  shows "call = N_rename (take 2 old @ old) old"
proof -
  define s1 where "s1 = s\<lparr>path_buffer := (old @ [0]) @ drop (length old + 1) (path_buffer s)\<rparr>"
  define s2 where "s2 = s1\<lparr>path_buffer := take 2 (path_buffer s1) @ (old @ [0]) @ drop (length old + 3) (path_buffer s1)\<rparr>"
  have c1: "copy_path s 0 (rn_old_path (rename_params (cmd_params cmd))) = Some s1"
    unfolding copy_path_Some using assms(1) by (simp add: s1_def)
  have c2: "copy_path s1 2 (rn_old_path (rename_params (cmd_params cmd))) = Some s2"
    unfolding copy_path_Some using assms(1) by (simp add: s1_def s2_def)
  have p0: "path_at s2 0 = take 2 old @ old"
  proof -
    have "path_buffer s2 = (take 2 old @ old) @ 0 # drop (length old + 3) (path_buffer s1)"
      using assms(3) by (simp add: s2_def s1_def)
    moreover have "0 \<notin> set (take 2 old @ old)" using assms(2) by (auto dest: in_set_takeD)
    ultimately show ?thesis
      using takeWhile_string [of "take 2 old @ old" "drop (length old + 3) (path_buffer s1)"]
      unfolding path_at_def drop_0 by metis
  qed
  have p2: "path_at s2 2 = old"
    using assms(2,3) by (simp add: path_at_def s2_def s1_def takeWhile_string)
  have "may_call (new_cont s2 (cmd_id cmd) [] (\<lambda>c s.
      nfs_async (N_rename (path_at s 0) (path_at s 2)) s
        (continuation_free c s (\<lambda>s. reply s (completion (cmd_id cmd) FS_STATUS_ERROR 0))) (rename_cb c))) call"
    using assms(5) by (simp add: nfs_rename_def Let_def get_path_buffer_def c1 c2)
  then obtain c s' where "path_buffer s' = path_buffer s2" "may_call (nfs_async (N_rename (path_at s' 0) (path_at s' 2)) s'
      (continuation_free c s' (\<lambda>s. reply s (completion (cmd_id cmd) FS_STATUS_ERROR 0))) (rename_cb c)) call"
    by (auto dest: new_cont_call)
  then have "call = N_rename (path_at s' 0) (path_at s' 2)" by (simp add: nfs_async_call rename_cb_def)
  with \<open>path_buffer s' = path_buffer s2\<close> p0 p2 show ?thesis by (simp add: path_at_def)
qed

definition ex_nfs :: nfs_state where
  "ex_nfs = \<lparr>nfs_context = True, nfs_tab = oftable_init,
     continuation_pool = replicate 511 \<lparr>ct_request_id = 5, ct_data = [0, 0, 0, 0], ct_next_free = None\<rparr>,
     first_free_cont = Some 0, path_buffer = replicate 8192 0, nfs_share = (\<lambda>a. if a < 10 then 97 else 98),
     command_queue = \<lparr>fsq_head = 0, fsq_tail = 0, fsq_buffer = []\<rparr>,
     completion_queue = \<lparr>fsq_head = 0, fsq_tail = 0,
       fsq_buffer = replicate 511 \<lparr>cmpl_id = 0, cmpl_status = 0, cmpl_data = 0\<rparr>\<rparr>\<rparr>"

definition ex_rename :: fs_cmd where
  "ex_rename = \<lparr>cmd_id = 1, cmd_type = 8, cmd_params = [0, 3, 20, 3, 0, 0]\<rparr>"

theorem nfs_rename_ignores_new_path_witness:
  "may_call (nfs_rename ex_rename ex_nfs) (N_rename [97, 97, 97, 97, 97] [97, 97, 97]) \<and>
    \<not> may_call (nfs_rename ex_rename ex_nfs) (N_rename [97, 97, 97] [98, 98, 98])"
proof -
  have p: "fs_copy_client_path (nfs_share ex_nfs) CLIENT_SHARE_SIZE (rn_old_path (rename_params (cmd_params ex_rename))) =
      Some ([97, 97, 97] @ [0])"
    by (simp add: ex_rename_def ex_nfs_def rename_params_def buffer_at_def fs_copy_client_path_def
        fs_get_client_buffer_def CLIENT_SHARE_SIZE_def FS_MAX_PATH_LENGTH_def share_bytes_def upt_rec)
  note t = nfs_rename_ignores_new_path [OF p]
  have len: "length (path_buffer ex_nfs) = 8192" by (simp add: ex_nfs_def)
  obtain call where c: "may_call (nfs_rename ex_rename ex_nfs) call"
    using p by (auto simp: nfs_rename_def copy_path_def new_cont_def continuation_alloc_def ex_nfs_def nfs_async_call Let_def)
  have "call = N_rename [97, 97, 97, 97, 97] [97, 97, 97]" using t [OF _ _ len c] by simp
  then show ?thesis using c t [OF _ _ len, of "N_rename [97, 97, 97] [98, 98, 98]"] by auto
qed

text \<open>the callback of a directory removal answers for the wrong request: it takes a continuation from
  the free list, replies with the request number that an earlier request left there, and puts it back;
  the continuation of the request itself is never freed. With an empty free list it dereferences a
  null pointer.\<close>

theorem nfs_rmdir_replies_for_another:
  assumes "fs_queue_length_producer (completion_queue s) \<noteq> of_nat FS_QUEUE_CAPACITY"
    and "\<And>c'. first_free_cont s = Some c' \<Longrightarrow> c' < MAX_CONCURRENT_OPS \<and> c' < length (continuation_pool s)"
  shows "case first_free_cont s of
      None \<Rightarrow> dir_remove_cb c a s = Failed s Null_continuation
    | Some c' \<Rightarrow> (\<exists>s'. dir_remove_cb c a s = Return s' () \<and>
        completion_queue s' = fs_queue_publish_production (fsq_write (completion_queue s) 0
          (completion (cont_id s c') (if na_status a = 0 then FS_STATUS_SUCCESS else FS_STATUS_ERROR) 0)) 1 \<and>
        first_free_cont s' = first_free_cont s \<and> continuation_pool s' = continuation_pool s)"
proof (cases "first_free_cont s")
  case None
  then show ?thesis by (simp add: dir_remove_cb_def continuation_alloc_def)
next
  case (Some c')
  with assms(2) have l: "c' < MAX_CONCURRENT_OPS" "c' < length (continuation_pool s)" by simp_all
  let ?k = "continuation_pool s ! c'"
  have same: "(continuation_pool s)[c' := ?k\<lparr>ct_next_free := None\<rparr>, c' := ?k\<lparr>ct_next_free := ct_next_free ?k\<rparr>] = continuation_pool s"
    by simp
  show ?thesis
    using Some l assms(1) same
    by (simp add: dir_remove_cb_def continuation_alloc_def continuation_free_def upd_cont_def cont_id_def reply_def Let_def)
qed

theorem nfs_rmdir_replies_for_another_witness:
  "\<exists>s. dir_remove_cb 3 \<lparr>na_status = 0, na_ptr = None, na_value = 0, na_bytes = [], na_name = None\<rparr> ex_nfs = Return s () \<and>
    first_free_cont s = Some 0"
proof -
  have a: "fs_queue_length_producer (completion_queue ex_nfs) \<noteq> of_nat FS_QUEUE_CAPACITY"
    by (simp add: ex_nfs_def fs_queue_length_producer_def FS_QUEUE_CAPACITY_def)
  have f: "first_free_cont ex_nfs = Some 0" "0 < MAX_CONCURRENT_OPS \<and> 0 < length (continuation_pool ex_nfs)"
    by (simp_all add: ex_nfs_def MAX_CONCURRENT_OPS_def FS_QUEUE_CAPACITY_def)
  show ?thesis
    using nfs_rmdir_replies_for_another [OF a, of 3 "\<lparr>na_status = 0, na_ptr = None, na_value = 0, na_bytes = [], na_name = None\<rparr>"] f
    by auto
qed

end
