(* ===== verification/Fs_Helpers.thy ===== *)
theory Fs_Helpers
  imports Fs_Fd
begin

text \<open>
  \<open>lib/fs/helpers/helpers.c\<close>: the client side of the file system protocol. Requests and buffers
  are allocated from two tables of 511 entries; a request is issued into the command queue, and its
  completion, delivered by number, is kept in the table until the client picks it up. In the results,
  \<open>None\<close> is a failed assertion or an access outside a table.
\<close>

subsection \<open>Definitions\<close>

record request_metadata =
  rm_command :: fs_cmd
  rm_completion :: fs_cmpl
  rm_used :: bool
  rm_complete :: bool

record fs_client =
  cl_requests :: "request_metadata list"
  cl_buffers :: "bool list"
  cl_share :: share
  cl_command_queue :: "fs_cmd fs_queue"
  cl_completion_queue :: "fs_cmpl fs_queue"

definition REQUEST_ID_MAXIMUM :: nat where "REQUEST_ID_MAXIMUM = FS_QUEUE_CAPACITY - 1"
definition NUM_BUFFERS :: nat where "NUM_BUFFERS = FS_QUEUE_CAPACITY * 4"
definition FS_BUFFER_SIZE :: nat where "FS_BUFFER_SIZE = 0x8000"

text \<open>The loop over \<open>n\<close> entries of a table that has fewer: the first entry that satisfies the test, an
  access outside the table (\<open>None\<close>), or, when all \<open>n\<close> entries were looked at, no entry.\<close>

fun scan_table :: "('a \<Rightarrow> bool) \<Rightarrow> nat \<Rightarrow> nat \<Rightarrow> 'a list \<Rightarrow> nat option option" where
  "scan_table P i 0 xs = Some None"
| "scan_table P i (Suc n) xs =
     (if i < length xs then if P (xs ! i) then Some (Some i) else scan_table P (Suc i) n xs else None)"

definition upd_request :: "nat \<Rightarrow> (request_metadata \<Rightarrow> request_metadata) \<Rightarrow> fs_client \<Rightarrow> fs_client" where
  "upd_request i f c = c\<lparr>cl_requests := (cl_requests c)[i := f (cl_requests c ! i)]\<rparr>"

text \<open>The result is the error code, the number of the request, and the state.\<close>

definition fs_request_allocate :: "fs_client \<Rightarrow> (int \<times> nat option \<times> fs_client) option" where
  "fs_request_allocate c = (case scan_table (\<lambda>r. \<not> rm_used r) 0 NUM_BUFFERS (cl_requests c) of
      None \<Rightarrow> None
    | Some (Some i) \<Rightarrow> Some (0, Some i, upd_request i (\<lambda>r. r\<lparr>rm_used := True\<rparr>) c)
    | Some None \<Rightarrow> Some (1, None, c))"

definition fs_request_free :: "nat \<Rightarrow> fs_client \<Rightarrow> fs_client option" where
  "fs_request_free i c =
     (if i \<le> REQUEST_ID_MAXIMUM \<and> rm_used (cl_requests c ! i)
      then Some (upd_request i (\<lambda>r. r\<lparr>rm_used := False, rm_complete := False\<rparr>) c) else None)"

definition fs_buffer_allocate :: "fs_client \<Rightarrow> (int \<times> nat option \<times> fs_client) option" where
  "fs_buffer_allocate c = (case scan_table Not 0 NUM_BUFFERS (cl_buffers c) of
      None \<Rightarrow> None
    | Some (Some i) \<Rightarrow> Some (0, Some (i * FS_BUFFER_SIZE), c\<lparr>cl_buffers := (cl_buffers c)[i := True]\<rparr>)
    | Some None \<Rightarrow> Some (1, None, c))"

definition fs_buffer_free :: "nat \<Rightarrow> fs_client \<Rightarrow> fs_client option" where
  "fs_buffer_free buffer c =
     (let i = buffer div FS_BUFFER_SIZE
      in if i < NUM_BUFFERS \<and> i < length (cl_buffers c) \<and> cl_buffers c ! i
         then Some (c\<lparr>cl_buffers := (cl_buffers c)[i := False],
                      cl_share := share_store (cl_share c) (of_nat buffer) (replicate FS_BUFFER_SIZE 0)\<rparr>)
         else None)"

definition fs_buffer_ptr :: "nat \<Rightarrow> u64" where
  "fs_buffer_ptr buffer = of_nat buffer"

text \<open>The completions are taken one after the other; the numbers that are flagged to the caller are
  collected.\<close>

fun process_completion_loop :: "nat \<Rightarrow> nat \<Rightarrow> fs_client \<Rightarrow> u64 list \<Rightarrow> fs_client \<times> u64 list" where
  "process_completion_loop i 0 c flagged = (c, flagged)"
| "process_completion_loop i (Suc n) c flagged =
     (let completion = fsq_read (cl_completion_queue c) (of_nat i)
      in if of_nat REQUEST_ID_MAXIMUM < cmpl_id completion then process_completion_loop (Suc i) n c flagged
         else process_completion_loop (Suc i) n
                (upd_request (unat (cmpl_id completion))
                  (\<lambda>r. r\<lparr>rm_completion := completion, rm_complete := True\<rparr>) c)
                (flagged @ [cmpl_id completion]))"

definition fs_process_completions :: "fs_client \<Rightarrow> fs_client \<times> u64 list" where
  "fs_process_completions c =
     (let to_consume = fs_queue_length_consumer (cl_completion_queue c);
          (c, flagged) = process_completion_loop 0 (unat to_consume) c []
      in (c\<lparr>cl_completion_queue := fs_queue_publish_consumption (cl_completion_queue c) to_consume\<rparr>, flagged))"

definition fs_command_issue :: "fs_cmd \<Rightarrow> fs_client \<Rightarrow> fs_client option" where
  "fs_command_issue cmd c =
     (if \<not> (cmd_id cmd \<le> of_nat REQUEST_ID_MAXIMUM \<and> rm_used (cl_requests c ! unat (cmd_id cmd))) then None
      else if fs_queue_length_producer (cl_command_queue c) = of_nat FS_QUEUE_CAPACITY then None
      else let c = c\<lparr>cl_command_queue := fs_queue_publish_production (fsq_write (cl_command_queue c) 0 cmd) 1\<rparr>
           in Some (upd_request (unat (cmd_id cmd)) (\<lambda>r. r\<lparr>rm_command := cmd\<rparr>) c))"

definition fs_command_complete :: "nat \<Rightarrow> fs_client \<Rightarrow> (fs_cmd \<times> fs_cmpl) option" where
  "fs_command_complete i c =
     (if i < length (cl_requests c) \<and> rm_complete (cl_requests c ! i)
      then Some (rm_command (cl_requests c ! i), rm_completion (cl_requests c ! i)) else None)"

text \<open>A blocking command waits as often as it takes for the completion; each wait lets the client's
  other code run, which changes the state. The waits that happen are a list.\<close>

fun blocking_loop :: "nat \<Rightarrow> (fs_client \<Rightarrow> fs_client) list \<Rightarrow> fs_client \<Rightarrow> fs_client option" where
  "blocking_loop i waits c =
     (if rm_complete (cl_requests c ! i) then Some c
      else case waits of [] \<Rightarrow> None | w # ws \<Rightarrow> blocking_loop i ws (w c))"

declare blocking_loop.simps [simp del]

definition fs_command_blocking :: "fs_cmd \<Rightarrow> (fs_client \<Rightarrow> fs_client) list \<Rightarrow> fs_client
    \<Rightarrow> (int \<times> fs_cmpl option \<times> fs_client) option" where
  "fs_command_blocking cmd waits c = (case fs_request_allocate c of
      None \<Rightarrow> None
    | Some (err, None, c) \<Rightarrow> Some (-1, None, c)
    | Some (err, Some i, c) \<Rightarrow>
        Option.bind (fs_command_issue (cmd\<lparr>cmd_id := of_nat i\<rparr>) c) (\<lambda>c.
        Option.bind (blocking_loop i waits c) (\<lambda>c.
        Option.bind (fs_command_complete i c) (\<lambda>(_, completion).
        Option.bind (fs_request_free i c) (\<lambda>c. Some (0, Some completion, c))))))"

subsection \<open>Facts\<close>

definition wf_client :: "fs_client \<Rightarrow> bool" where
  "wf_client c \<longleftrightarrow> length (cl_requests c) = FS_QUEUE_CAPACITY \<and> length (cl_buffers c) = FS_QUEUE_CAPACITY \<and>
     wf_fsq (cl_command_queue c) \<and> wf_fsq (cl_completion_queue c)"

lemma scan_table_cases:
  assumes "length xs < i + n" "i \<le> length xs"
  shows "scan_table P i n xs = (case find_index P (drop i xs) of None \<Rightarrow> None | Some j \<Rightarrow> Some (Some (i + j)))"
  using assms
proof (induction P i n xs rule: scan_table.induct)
  case (1 P i xs)
  then show ?case by simp
next
  case (2 P i n xs)
  show ?case
  proof (cases "i < length xs")
    case True
    then have d: "drop i xs = xs ! i # drop (Suc i) xs" by (simp add: Cons_nth_drop_Suc)
    show ?thesis
      using 2 True by (auto simp: d split: option.split)
  next
    case False
    with 2 show ?thesis by simp
  qed
qed

lemma request_scan:
  "length xs = FS_QUEUE_CAPACITY \<Longrightarrow>
    scan_table P 0 NUM_BUFFERS xs = (case find_index P xs of None \<Rightarrow> None | Some j \<Rightarrow> Some (Some j))"
  using scan_table_cases [of xs 0 NUM_BUFFERS P]
  by (simp add: NUM_BUFFERS_def FS_QUEUE_CAPACITY_def split: option.splits)

lemma upd_request_fields [simp]:
  "cl_completion_queue (upd_request i f c) = cl_completion_queue c"
  "cl_command_queue (upd_request i f c) = cl_command_queue c"
  "cl_buffers (upd_request i f c) = cl_buffers c"
  "length (cl_requests (upd_request i f c)) = length (cl_requests c)"
  by (simp_all add: upd_request_def)

text \<open>Delivering one completion, and a list of them.\<close>

definition deliver :: "fs_cmpl \<Rightarrow> fs_client \<Rightarrow> fs_client" where
  "deliver m c = (if of_nat REQUEST_ID_MAXIMUM < cmpl_id m then c
     else upd_request (unat (cmpl_id m)) (\<lambda>r. r\<lparr>rm_completion := m, rm_complete := True\<rparr>) c)"

lemma deliver_queue [simp]: "cl_completion_queue (deliver m c) = cl_completion_queue c"
  "length (cl_requests (deliver m c)) = length (cl_requests c)"
  by (simp_all add: deliver_def)

lemma process_loop_deliver:
  assumes "wf_fsq (cl_completion_queue c)" "i + n \<le> fsq_count (cl_completion_queue c)"
  shows "fst (process_completion_loop i n c fl) = fold deliver (take n (drop i (fsq_contents (cl_completion_queue c)))) c"
  using assms
proof (induction n arbitrary: i c fl)
  case 0
  then show ?case by simp
next
  case (Suc n)
  let ?q = "cl_completion_queue c"
  have "unat (of_nat i :: u64) = i"
    using Suc.prems wf_fsq_count [OF Suc.prems(1)] unat_u64_less [of "fsq_tail ?q"] by (simp add: unat_of_nat)
  then have r: "fsq_read ?q (of_nat i) = fsq_contents ?q ! i"
    using fsq_read_nth [OF Suc.prems(1), of "of_nat i"] Suc.prems(2) by simp
  have d: "take (Suc n) (drop i (fsq_contents ?q)) = fsq_contents ?q ! i # take n (drop (Suc i) (fsq_contents ?q))"
    using Suc.prems(2) by (simp add: Cons_nth_drop_Suc [symmetric])
  have IH: "fst (process_completion_loop (Suc i) n c' fl') = fold deliver (take n (drop (Suc i) (fsq_contents ?q))) c'"
    if "cl_completion_queue c' = ?q" for c' fl'
    using Suc.IH [of c' "Suc i" fl'] Suc.prems that by simp
  show ?case
    by (simp add: r d Let_def IH deliver_def [of "fsq_contents ?q ! i"])
qed

lemma fold_deliver_queue [simp]: "cl_completion_queue (fold deliver ms c) = cl_completion_queue c"
  "length (cl_requests (fold deliver ms c)) = length (cl_requests c)"
  by (induction ms arbitrary: c) simp_all

text \<open>The completion that a request ends up with is the last one for its number.\<close>

lemma fold_deliver_nth:
  assumes "length (cl_requests c) = FS_QUEUE_CAPACITY" "i < FS_QUEUE_CAPACITY"
  shows "cl_requests (fold deliver ms c) ! i =
    (case filter (\<lambda>m. unat (cmpl_id m) = i) ms of
       [] \<Rightarrow> cl_requests c ! i
     | xs \<Rightarrow> (cl_requests c ! i)\<lparr>rm_completion := last xs, rm_complete := True\<rparr>)"
  using assms(1)
proof (induction ms rule: rev_induct)
  case Nil
  then show ?case by simp
next
  case (snoc m ms)
  have big: "of_nat REQUEST_ID_MAXIMUM < cmpl_id m \<longleftrightarrow> \<not> unat (cmpl_id m) < FS_QUEUE_CAPACITY"
    by (simp add: word_less_nat_alt REQUEST_ID_MAXIMUM_def FS_QUEUE_CAPACITY_def) linarith
  show ?case
  proof (cases "unat (cmpl_id m) = i")
    case True
    then have "\<not> of_nat REQUEST_ID_MAXIMUM < cmpl_id m" using big assms(2) by simp
    then have "cl_requests (deliver m (fold deliver ms c)) ! i =
        (cl_requests (fold deliver ms c) ! i)\<lparr>rm_completion := m, rm_complete := True\<rparr>"
      using True assms(2) snoc.prems by (simp add: deliver_def upd_request_def)
    then show ?thesis using snoc True by (auto split: list.splits)
  next
    case False
    then have "cl_requests (deliver m (fold deliver ms c)) ! i = cl_requests (fold deliver ms c) ! i"
      by (simp add: deliver_def upd_request_def)
    then show ?thesis using snoc False by simp
  qed
qed

subsection \<open>Properties\<close>

lemma fs_allocation_overruns_parts:
  assumes "wf_client c"
  shows "(fs_request_allocate c = None) = (\<forall>r \<in> set (cl_requests c). rm_used r)"
    and "(fs_buffer_allocate c = None) = (\<forall>b \<in> set (cl_buffers c). b)"
    and "fs_request_allocate c = Some (err, i, c') \<Longrightarrow> err = 0 \<and> (\<exists>j < FS_QUEUE_CAPACITY. i = Some j \<and>
      \<not> rm_used (cl_requests c ! j) \<and> rm_used (cl_requests c' ! j) \<and>
      (\<forall>k. k \<noteq> j \<longrightarrow> cl_requests c' ! k = cl_requests c ! k))"
proof -
  note s = request_scan [where P = "\<lambda>r. \<not> rm_used r" and xs = "cl_requests c"]
    request_scan [where P = Not and xs = "cl_buffers c"]
  have l: "length (cl_requests c) = FS_QUEUE_CAPACITY" "length (cl_buffers c) = FS_QUEUE_CAPACITY"
    using assms by (simp_all add: wf_client_def)
  have n: "(\<forall>r \<in> set (cl_requests c). rm_used r) = (find_index (\<lambda>r. \<not> rm_used r) (cl_requests c) = None)"
    "(\<forall>b \<in> set (cl_buffers c). b) = (find_index Not (cl_buffers c) = None)"
    by (simp_all add: find_index_None_iff)
  show "(fs_request_allocate c = None) = (\<forall>r \<in> set (cl_requests c). rm_used r)"
    unfolding n fs_request_allocate_def s(1) [OF l(1)] by (simp split: option.split)
  show "(fs_buffer_allocate c = None) = (\<forall>b \<in> set (cl_buffers c). b)"
    unfolding n fs_buffer_allocate_def s(2) [OF l(2)] by (simp split: option.split)
  assume a: "fs_request_allocate c = Some (err, i, c')"
  then obtain j where j: "find_index (\<lambda>r. \<not> rm_used r) (cl_requests c) = Some j" "err = 0" "i = Some j"
    "c' = upd_request j (\<lambda>r. r\<lparr>rm_used := True\<rparr>) c"
    unfolding fs_request_allocate_def s(1) [OF l(1)] by (auto split: option.splits)
  note f = find_index_less [OF j(1)] find_index_holds [OF j(1)]
  with j l show "err = 0 \<and> (\<exists>j < FS_QUEUE_CAPACITY. i = Some j \<and>
      \<not> rm_used (cl_requests c ! j) \<and> rm_used (cl_requests c' ! j) \<and>
      (\<forall>k. k \<noteq> j \<longrightarrow> cl_requests c' ! k = cl_requests c ! k))"
    by (auto simp: upd_request_def)
qed

text \<open>Allocating a request or a buffer never reports failure: the loop runs to four times the
  size of the table, so that with all 511 entries in use it reads past the end. Otherwise it yields an
  entry that was not in use, and marks it.\<close>

theorem fs_allocation_overruns:
  assumes "wf_client c"
  shows "(fs_request_allocate c = None) = (\<forall>r \<in> set (cl_requests c). rm_used r) \<and>
    (fs_buffer_allocate c = None) = (\<forall>b \<in> set (cl_buffers c). b) \<and>
    (\<forall>err i c'. fs_request_allocate c = Some (err, i, c') \<longrightarrow> err = 0 \<and> (\<exists>j < FS_QUEUE_CAPACITY. i = Some j \<and>
      \<not> rm_used (cl_requests c ! j) \<and> rm_used (cl_requests c' ! j) \<and>
      (\<forall>k. k \<noteq> j \<longrightarrow> cl_requests c' ! k = cl_requests c ! k)))"
  using fs_allocation_overruns_parts [OF assms] by (intro conjI allI impI) blast+

definition ex_client :: fs_client where
  "ex_client = \<lparr>cl_requests = replicate 511 \<lparr>rm_command = \<lparr>cmd_id = 0, cmd_type = 0, cmd_params = []\<rparr>,
       rm_completion = \<lparr>cmpl_id = 0, cmpl_status = 0, cmpl_data = 0\<rparr>, rm_used = True, rm_complete = False\<rparr>,
     cl_buffers = replicate 511 False, cl_share = (\<lambda>_. 0),
     cl_command_queue = \<lparr>fsq_head = 0, fsq_tail = 0, fsq_buffer = replicate 511 \<lparr>cmd_id = 0, cmd_type = 0, cmd_params = []\<rparr>\<rparr>,
     cl_completion_queue = \<lparr>fsq_head = 3, fsq_tail = 4,
       fsq_buffer = replicate 511 \<lparr>cmpl_id = 6, cmpl_status = 0, cmpl_data = 9\<rparr>\<rparr>\<rparr>"

lemma ex_client_wf: "wf_client ex_client"
  by (simp add: ex_client_def wf_client_def wf_fsq_def fsq_count_def FS_QUEUE_CAPACITY_def)

theorem fs_allocation_overruns_witness:
  "fs_request_allocate ex_client = None \<and> fs_buffer_allocate ex_client \<noteq> None"
  using fs_allocation_overruns [OF ex_client_wf] by (simp add: ex_client_def)

lemma fs_completions_delivered_parts:
  assumes "wf_client c" "i < FS_QUEUE_CAPACITY"
  shows "cl_requests (fst (fs_process_completions c)) ! i =
      (case filter (\<lambda>m. unat (cmpl_id m) = i) (fsq_contents (cl_completion_queue c)) of
         [] \<Rightarrow> cl_requests c ! i
       | xs \<Rightarrow> (cl_requests c ! i)\<lparr>rm_completion := last xs, rm_complete := True\<rparr>)"
    and "fsq_contents (cl_completion_queue (fst (fs_process_completions c))) = []"
proof -
  let ?q = "cl_completion_queue c"
  have wf: "wf_fsq ?q" "length (cl_requests c) = FS_QUEUE_CAPACITY" using assms(1) by (simp_all add: wf_client_def)
  have n: "unat (fs_queue_length_consumer ?q) = fsq_count ?q" by (rule fsq_length_count)
  have p: "fst (process_completion_loop 0 (fsq_count ?q) c []) = fold deliver (fsq_contents ?q) c"
    using process_loop_deliver [OF wf(1), of 0 "fsq_count ?q" "[]"] by simp
  have f: "fst (fs_process_completions c) = (fold deliver (fsq_contents ?q) c)\<lparr>cl_completion_queue :=
      fs_queue_publish_consumption ?q (fs_queue_length_consumer ?q)\<rparr>"
    unfolding fs_process_completions_def Let_def n
    by (cases "process_completion_loop 0 (fsq_count ?q) c []") (use p in simp)
  show "cl_requests (fst (fs_process_completions c)) ! i =
      (case filter (\<lambda>m. unat (cmpl_id m) = i) (fsq_contents (cl_completion_queue c)) of
         [] \<Rightarrow> cl_requests c ! i
       | xs \<Rightarrow> (cl_requests c ! i)\<lparr>rm_completion := last xs, rm_complete := True\<rparr>)"
    using fold_deliver_nth [OF wf(2) assms(2), of "fsq_contents ?q"] by (simp add: f)
  show "fsq_contents (cl_completion_queue (fst (fs_process_completions c))) = []"
    using fsq_consume(2) [OF wf(1), of "fs_queue_length_consumer ?q"] by (simp add: f n)
qed

text \<open>C31: processing the completion queue empties it and gives every request the last completion in the
  queue that carries its number, marked as complete; requests without one, and the used marks, stay
  as they are, and completions with an invalid number have no effect.\<close>

theorem fs_completions_delivered:
  assumes "wf_client c" "i < FS_QUEUE_CAPACITY"
  shows "cl_requests (fst (fs_process_completions c)) ! i =
      (case filter (\<lambda>m. unat (cmpl_id m) = i) (fsq_contents (cl_completion_queue c)) of
         [] \<Rightarrow> cl_requests c ! i
       | xs \<Rightarrow> (cl_requests c ! i)\<lparr>rm_completion := last xs, rm_complete := True\<rparr>) \<and>
    fsq_contents (cl_completion_queue (fst (fs_process_completions c))) = []"
  by (intro conjI fs_completions_delivered_parts [OF assms])

theorem fs_completions_delivered_witness:
  "rm_complete (cl_requests (fst (fs_process_completions ex_client)) ! 6) \<and>
    cmpl_data (rm_completion (cl_requests (fst (fs_process_completions ex_client)) ! 6)) = 9"
proof -
  have "(6 :: nat) < FS_QUEUE_CAPACITY" by (simp add: FS_QUEUE_CAPACITY_def)
  moreover have "fsq_contents (cl_completion_queue ex_client) = [\<lparr>cmpl_id = 6, cmpl_status = 0, cmpl_data = 9\<rparr>]"
    by (simp add: ex_client_def fsq_contents_def fsq_count_def FS_QUEUE_CAPACITY_def)
  ultimately show ?thesis using fs_completions_delivered(1) [OF ex_client_wf, of 6] by simp
qed

end
