(* ===== verification/Px_Base.thy ===== *)
theory Px_Base
  imports Prelude
begin

text \<open>
  What the theories on the POSIX library share: the numbers of the errors and the flags of open files, with the values
  that the C library has for them on AArch64, and the constants of \<open>include/lions/posix/fd.h\<close>. A system call returns
  a number, an error is the negated number of the error. \<open>None\<close> is a failed assertion or undefined behaviour.
\<close>

subsection \<open>Errors\<close>

definition EPERM :: int where "EPERM = 1"
definition ENOENT :: int where "ENOENT = 2"
definition EBADF :: int where "EBADF = 9"
definition EAGAIN :: int where "EAGAIN = 11"
definition ENOMEM :: int where "ENOMEM = 12"
definition EACCES :: int where "EACCES = 13"
definition EFAULT :: int where "EFAULT = 14"
definition EBUSY :: int where "EBUSY = 16"
definition EEXIST :: int where "EEXIST = 17"
definition ENODEV :: int where "ENODEV = 19"
definition ENOTDIR :: int where "ENOTDIR = 20"
definition EISDIR :: int where "EISDIR = 21"
definition EINVAL :: int where "EINVAL = 22"
definition EMFILE :: int where "EMFILE = 24"
definition ENOTTY :: int where "ENOTTY = 25"
definition ENOSPC :: int where "ENOSPC = 28"
definition ENAMETOOLONG :: int where "ENAMETOOLONG = 36"
definition ENOTEMPTY :: int where "ENOTEMPTY = 39"
definition EOVERFLOW :: int where "EOVERFLOW = 75"
definition ENOTSOCK :: int where "ENOTSOCK = 88"
definition ENOPROTOOPT :: int where "ENOPROTOOPT = 92"
definition ESOCKTNOSUPPORT :: int where "ESOCKTNOSUPPORT = 94"
definition EAFNOSUPPORT :: int where "EAFNOSUPPORT = 97"
definition EADDRINUSE :: int where "EADDRINUSE = 98"
definition EADDRNOTAVAIL :: int where "EADDRNOTAVAIL = 99"
definition ECONNABORTED :: int where "ECONNABORTED = 103"
definition ECONNRESET :: int where "ECONNRESET = 104"
definition ENOBUFS :: int where "ENOBUFS = 105"
definition EISCONN :: int where "EISCONN = 106"
definition ENOTCONN :: int where "ENOTCONN = 107"
definition ETIMEDOUT :: int where "ETIMEDOUT = 110"
definition ECONNREFUSED :: int where "ECONNREFUSED = 111"
definition EHOSTUNREACH :: int where "EHOSTUNREACH = 113"
definition EALREADY :: int where "EALREADY = 114"
definition EINPROGRESS :: int where "EINPROGRESS = 115"

lemmas errno_values = EPERM_def ENOENT_def EBADF_def EAGAIN_def ENOMEM_def EACCES_def EFAULT_def EBUSY_def EEXIST_def
  ENODEV_def ENOTDIR_def EISDIR_def EINVAL_def EMFILE_def ENOTTY_def ENOSPC_def ENAMETOOLONG_def ENOTEMPTY_def
  EOVERFLOW_def ENOTSOCK_def ENOPROTOOPT_def ESOCKTNOSUPPORT_def EAFNOSUPPORT_def EADDRINUSE_def EADDRNOTAVAIL_def
  ECONNABORTED_def ECONNRESET_def ENOBUFS_def EISCONN_def ENOTCONN_def ETIMEDOUT_def ECONNREFUSED_def EHOSTUNREACH_def
  EALREADY_def EINPROGRESS_def

subsection \<open>Flags\<close>

definition O_RDONLY :: u32 where "O_RDONLY = 0"
definition O_WRONLY :: u32 where "O_WRONLY = 1"
definition O_RDWR :: u32 where "O_RDWR = 2"
definition O_CREAT :: u32 where "O_CREAT = 0x40"
definition O_EXCL :: u32 where "O_EXCL = 0x80"
definition O_NOCTTY :: u32 where "O_NOCTTY = 0x100"
definition O_TRUNC :: u32 where "O_TRUNC = 0x200"
definition O_APPEND :: u32 where "O_APPEND = 0x400"
definition O_NONBLOCK :: u32 where "O_NONBLOCK = 0x800"
definition O_ASYNC :: u32 where "O_ASYNC = 0x2000"
definition O_DIRECTORY :: u32 where "O_DIRECTORY = 0x4000"
definition O_DIRECT :: u32 where "O_DIRECT = 0x10000"
definition O_NOATIME :: u32 where "O_NOATIME = 0x40000"
definition O_CLOEXEC :: u32 where "O_CLOEXEC = 0x80000"

lemmas open_flags = O_RDONLY_def O_WRONLY_def O_RDWR_def O_CREAT_def O_EXCL_def O_NOCTTY_def O_TRUNC_def O_APPEND_def
  O_NONBLOCK_def O_ASYNC_def O_DIRECTORY_def O_DIRECT_def O_NOATIME_def O_CLOEXEC_def

definition has_flag :: "u32 \<Rightarrow> u32 \<Rightarrow> bool" where
  "has_flag flags f \<longleftrightarrow> flags AND f \<noteq> 0"

subsection \<open>Descriptors\<close>

definition MAX_FDS :: nat where "MAX_FDS = 128"
definition STDIN_FD :: nat where "STDIN_FD = 0"
definition STDOUT_FD :: nat where "STDOUT_FD = 1"
definition STDERR_FD :: nat where "STDERR_FD = 2"
definition SERVICES_FD :: int where "SERVICES_FD = int MAX_FDS"
definition ETC_FD :: int where "ETC_FD = int MAX_FDS + 1"

end
