(* ===== verification/Px_Mem.thy ===== *)
theory Px_Mem
  imports Px_Base
begin

text \<open>
  \<open>lib/libc/posix/mem.c\<close>: the memory that the C library of a component gets. A heap grows upwards from the start
  of an area by \<open>brk\<close>, anonymous mappings are taken from its top by \<open>mmap\<close>, and nothing is given back. The results are
  64-bit values, an error is the negated number of the error.
\<close>

subsection \<open>Definitions\<close>

definition MAP_ANONYMOUS :: u32 where "MAP_ANONYMOUS = 0x20"

text \<open>\<open>PAGE_SIZE\<close>, and \<open>~(PAGE_SIZE - 1)\<close>.\<close>

definition PAGE_SIZE :: u64 where "PAGE_SIZE = 0x1000"
definition page_mask :: u64 where "page_mask = NOT (PAGE_SIZE - 1)"

record morecore =
  morecore_area :: u64
  morecore_base :: u64
  morecore_top :: u64

definition sys_brk :: "u64 \<Rightarrow> morecore \<Rightarrow> u64 \<times> morecore" where
  "sys_brk newbrk m =
     (if newbrk \<le> morecore_top m \<and> newbrk \<ge> morecore_area m then (newbrk, m\<lparr>morecore_base := newbrk\<rparr>)
      else (morecore_base m, m))"

definition sys_mmap :: "u64 \<Rightarrow> u32 \<Rightarrow> morecore \<Rightarrow> u64 \<times> morecore" where
  "sys_mmap len flags m =
     (if len = 0 then (- of_int EINVAL, m)
      else if flags AND MAP_ANONYMOUS \<noteq> 0 then
        (let len = (len + (PAGE_SIZE - 1)) AND page_mask
         in if len > morecore_top m - morecore_base m then (- of_int ENOMEM, m)
            else let top = (morecore_top m - len) AND page_mask in (top, m\<lparr>morecore_top := top\<rparr>))
      else (- of_int ENOMEM, m))"

definition sys_munmap :: "u64 \<Rightarrow> u64 \<Rightarrow> morecore \<Rightarrow> u64 \<times> morecore" where
  "sys_munmap addr len m = (0, m)"

definition sys_mprotect :: "u64 \<Rightarrow> u64 \<Rightarrow> morecore \<Rightarrow> u64 \<times> morecore" where
  "sys_mprotect addr len m = (0, m)"

definition libc_init_mem :: "u64 \<Rightarrow> u64 \<Rightarrow> morecore option" where
  "libc_init_mem area sz = do {
     c_assert (area \<noteq> 0 \<and> sz \<noteq> 0);
     Some \<lparr>morecore_area = area, morecore_base = area, morecore_top = area + sz\<rparr>
   }"

subsection \<open>Runs\<close>

text \<open>A sequence of calls; the mappings that were given out are collected with the length they were rounded to.\<close>

datatype mem_call = Brk u64 | Mmap u64 u32 | Munmap u64 u64 | Mprotect u64 u64

definition round_up :: "u64 \<Rightarrow> nat" where
  "round_up len = unat ((len + (PAGE_SIZE - 1)) AND page_mask)"

definition mem_call :: "mem_call \<Rightarrow> morecore \<times> (nat \<times> nat) list \<Rightarrow> morecore \<times> (nat \<times> nat) list" where
  "mem_call c = (\<lambda>(m, maps). case c of
      Brk a \<Rightarrow> (snd (sys_brk a m), maps)
    | Mmap len flags \<Rightarrow> (case sys_mmap len flags m of (r, m') \<Rightarrow>
        (m', if r = - of_int EINVAL \<or> r = - of_int ENOMEM then maps else (unat r, round_up len) # maps))
    | Munmap a len \<Rightarrow> (snd (sys_munmap a len m), maps)
    | Mprotect a len \<Rightarrow> (snd (sys_mprotect a len m), maps))"

definition region :: "nat \<times> nat \<Rightarrow> nat set" where
  "region r = {fst r..<fst r + snd r}"

text \<open>The mappings, the latest first, tile the area from the top on.\<close>

fun tiled :: "nat \<Rightarrow> (nat \<times> nat) list \<Rightarrow> nat \<Rightarrow> bool" where
  "tiled t [] lim = (t = lim)"
| "tiled t ((a, n) # ms) lim = (a = t \<and> tiled (t + n) ms lim)"

definition mem_ok :: "nat \<Rightarrow> nat \<Rightarrow> morecore \<times> (nat \<times> nat) list \<Rightarrow> bool" where
  "mem_ok area lim = (\<lambda>(m, maps). unat (morecore_area m) = area \<and> area \<le> unat (morecore_base m) \<and>
     unat (morecore_base m) \<le> unat (morecore_top m) \<and> 4096 dvd unat (morecore_top m) \<and>
     tiled (unat (morecore_top m)) maps lim)"

lemma unat_page_mask: "unat (w AND page_mask) = unat w div 4096 * 4096"
proof -
  have "PAGE_SIZE - 1 = mask 12" by (simp add: PAGE_SIZE_def mask_eq_exp_minus_1)
  then have "w AND page_mask = push_bit 12 (drop_bit 12 w)"
    by (intro bit_eqI) (auto simp: page_mask_def bit_simps)
  moreover have "unat (push_bit 12 (drop_bit 12 w)) = take_bit 64 (push_bit 12 (unat (drop_bit 12 w)))"
    by (simp only: unsigned_push_bit_eq) simp
  moreover have "\<dots> = unat w div 4096 * 4096"
    using unat_u64_less [of w] by (simp add: unat_drop_bit take_bit_eq_mod push_bit_eq_mult)
  ultimately show ?thesis by simp
qed

lemma page_round:
  assumes "unat len \<le> 2 ^ 64 - 4096"
  shows "unat len \<le> round_up len" "4096 dvd round_up len" "round_up len < unat len + 4096"
proof -
  have "unat (len + (PAGE_SIZE - 1)) = unat len + 4095"
    using assms by (subst unat_add_nowrap) (simp_all add: PAGE_SIZE_def)
  then have r: "round_up len = (unat len + 4095) div 4096 * 4096" by (simp add: round_up_def unat_page_mask)
  show "4096 dvd round_up len" by (simp add: r)
  show "unat len \<le> round_up len" "round_up len < unat len + 4096"
    using div_mult_mod_eq [of "unat len + 4095" 4096] unfolding r by linarith+
qed

text \<open>A successful anonymous mapping takes its pages from below the top, as long as the top is on a page boundary.\<close>

lemma mmap_takes:
  assumes ok: "mem_ok area lim (m, maps)" and n: "unat ((len + (PAGE_SIZE - 1)) AND page_mask) = n"
    and fits: "(len + (PAGE_SIZE - 1)) AND page_mask \<le> morecore_top m - morecore_base m"
  shows "unat ((morecore_top m - ((len + (PAGE_SIZE - 1)) AND page_mask)) AND page_mask) + n = unat (morecore_top m) \<and>
    unat (morecore_base m) \<le> unat ((morecore_top m - ((len + (PAGE_SIZE - 1)) AND page_mask)) AND page_mask)"
proof -
  let ?l = "(len + (PAGE_SIZE - 1)) AND page_mask"
  have b: "unat (morecore_base m) \<le> unat (morecore_top m)" "4096 dvd unat (morecore_top m)"
    using ok by (auto simp: mem_ok_def)
  have le: "n \<le> unat (morecore_top m) - unat (morecore_base m)"
    using fits b by (simp add: n [symmetric] word_le_nat_alt unat_sub_le)
  have "4096 dvd n" by (simp add: n [symmetric] unat_page_mask)
  moreover have "unat (morecore_top m - ?l) = unat (morecore_top m) - n"
    using le by (subst unat_sub_le) (auto simp: word_le_nat_alt n)
  ultimately have "unat ((morecore_top m - ?l) AND page_mask) = unat (morecore_top m) - n"
    using b by (simp add: unat_page_mask dvd_diff_nat)
  then show ?thesis using le b by simp
qed

lemma mem_call_ok:
  assumes "mem_ok area lim s"
  shows "mem_ok area lim (mem_call c s)"
proof -
  obtain m maps where s: "s = (m, maps)" by (cases s)
  show ?thesis
  proof (cases c)
    case (Mmap len flags)
    let ?l = "(len + (PAGE_SIZE - 1)) AND page_mask"
    show ?thesis
    proof (cases "len \<noteq> 0 \<and> flags AND MAP_ANONYMOUS \<noteq> 0 \<and> ?l \<le> morecore_top m - morecore_base m")
      case True
      then have r: "sys_mmap len flags m = (let t = (morecore_top m - ?l) AND page_mask in (t, m\<lparr>morecore_top := t\<rparr>))"
        by (simp add: sys_mmap_def Let_def not_less [symmetric])
      note t = mmap_takes [OF assms [unfolded s] refl conjunct2 [OF conjunct2 [OF True]]]
      have "4096 dvd unat ((morecore_top m - ?l) AND page_mask)" by (simp add: unat_page_mask)
      then have "(morecore_top m - ?l) AND page_mask \<noteq> - of_int EINVAL" "(morecore_top m - ?l) AND page_mask \<noteq> - of_int ENOMEM"
        by (auto simp: EINVAL_def ENOMEM_def)
      then show ?thesis
        using t assms by (simp add: s Mmap mem_call_def r Let_def mem_ok_def round_up_def unat_page_mask)
    next
      case False
      then have "sys_mmap len flags m = (- of_int EINVAL, m) \<or> sys_mmap len flags m = (- of_int ENOMEM, m)"
        by (auto simp: sys_mmap_def Let_def)
      then show ?thesis using assms by (auto simp: s Mmap mem_call_def)
    qed
  qed (use assms in \<open>auto simp: s mem_call_def mem_ok_def sys_brk_def sys_munmap_def sys_mprotect_def word_le_nat_alt\<close>)
qed

lemma tiled_regions:
  assumes "tiled t ms lim"
  shows "t \<le> lim \<and> (\<forall>r \<in> set ms. region r \<subseteq> {t..<lim}) \<and> sorted_wrt (\<lambda>r r'. region r \<inter> region r' = {}) ms"
  using assms by (induction t ms lim rule: tiled.induct) (fastforce simp: region_def)+

lemma mem_run_ok: "mem_ok area lim s \<Longrightarrow> mem_ok area lim (fold mem_call cs s)"
proof (induction cs arbitrary: s)
  case (Cons c cs)
  then show ?case using Cons.IH [OF mem_call_ok [OF Cons.prems]] by simp
qed simp

text \<open>C18: over every sequence of calls, whatever their arguments, the heap and the mappings that were given out stay
  within the area of the component and never overlap, if the area ends on a page boundary. A mapping is as long as the
  caller asked for, up to the length at which rounding it up to pages wraps around.\<close>

theorem mem_regions_apart:
  assumes "libc_init_mem area sz = Some m" "unat area + unat sz < 2 ^ 64" "4096 dvd unat area + unat sz"
    and "fold mem_call cs (m, []) = (m', maps)"
  shows "unat area \<le> unat (morecore_base m') \<and>
    (\<forall>r \<in> set maps. region r \<subseteq> {unat (morecore_base m')..<unat area + unat sz}) \<and>
    sorted_wrt (\<lambda>r r'. region r \<inter> region r' = {}) maps \<and>
    (unat len \<le> 2 ^ 64 - 4096 \<longrightarrow> unat len \<le> round_up len)"
proof -
  have "unat (area + sz) = unat area + unat sz" using assms(2) by (simp add: unat_add_nowrap)
  then have "mem_ok (unat area) (unat area + unat sz) (m, [])"
    using assms(1,3) by (auto simp: libc_init_mem_def mem_ok_def split: if_splits)
  then have ok: "mem_ok (unat area) (unat area + unat sz) (m', maps)"
    using mem_run_ok [of _ _ "(m, [])" cs] assms(4) by simp
  then have b: "unat area \<le> unat (morecore_base m')" "unat (morecore_base m') \<le> unat (morecore_top m')"
    "tiled (unat (morecore_top m')) maps (unat area + unat sz)" by (simp_all add: mem_ok_def)
  note tiles = tiled_regions [OF b(3)]
  have "{unat (morecore_top m')..<unat area + unat sz} \<subseteq> {unat (morecore_base m')..<unat area + unat sz}" using b(2) by auto
  then have "\<forall>r \<in> set maps. region r \<subseteq> {unat (morecore_base m')..<unat area + unat sz}" using tiles by blast
  with b(1) tiles page_round(1) [of len] show ?thesis by simp
qed

theorem mem_regions_apart_witness:
  "\<exists>m. libc_init_mem 0x10000 0x4000 = Some m \<and>
    (\<forall>r \<in> set (snd (fold mem_call [Brk 0x10800, Mmap 0x1001 0x22, Mmap 5 0x20] (m, []))). region r \<subseteq> {0x10800..<0x14000})"
proof -
  let ?m = "\<lparr>morecore_area = 0x10000, morecore_base = 0x10000, morecore_top = 0x14000\<rparr>"
  have i: "libc_init_mem 0x10000 0x4000 = Some ?m" by (simp add: libc_init_mem_def)
  have f: "fold mem_call [Brk 0x10800, Mmap 0x1001 0x22, Mmap 5 0x20] (?m, []) =
      (?m\<lparr>morecore_base := 0x10800, morecore_top := 0x11000\<rparr>, [(0x11000, 0x1000), (0x12000, 0x2000)])"
    by (simp add: mem_call_def sys_brk_def sys_mmap_def MAP_ANONYMOUS_def PAGE_SIZE_def page_mask_def EINVAL_def ENOMEM_def
      round_up_def)
  show ?thesis using i f mem_regions_apart [OF i _ _ f, of 0] by (simp del: fold_simps)
qed

text \<open>Two ways in which \<open>mmap\<close> is wrong: a length of more than \<open>2 ^ 64 - 4096\<close> is rounded up to zero, and the call reports
  success without mapping anything; and in an area that does not end on a page boundary a mapping that fits is
  moved down below the end of the heap.\<close>

theorem mmap_wraps:
  assumes "2 ^ 64 - 4096 < unat len" "flags AND MAP_ANONYMOUS \<noteq> 0" "morecore_top m AND page_mask = morecore_top m"
  shows "sys_mmap len flags m = (morecore_top m, m)"
proof -
  have "unat (len + (PAGE_SIZE - 1)) < 4096"
    using assms(1) unat_u64_less [of len] by (simp add: PAGE_SIZE_def unat_word_ariths mod_if) linarith
  then have "unat ((len + (PAGE_SIZE - 1)) AND page_mask) = 0" by (simp add: unat_page_mask)
  then have "(len + (PAGE_SIZE - 1)) AND page_mask = 0" by (simp only: unsigned_eq_0_iff)
  moreover have "len \<noteq> 0" using assms(1) by auto
  ultimately show ?thesis using assms(2,3) by (simp add: sys_mmap_def)
qed

theorem mmap_wraps_witness:
  "sys_mmap (- 1) 0x22 \<lparr>morecore_area = 0x10000, morecore_base = 0x10000, morecore_top = 0x14000\<rparr> =
    (0x14000, \<lparr>morecore_area = 0x10000, morecore_base = 0x10000, morecore_top = 0x14000\<rparr>)"
  using mmap_wraps [of "- 1" "0x22" "\<lparr>morecore_area = 0x10000, morecore_base = 0x10000, morecore_top = 0x14000\<rparr>"]
  by (simp add: MAP_ANONYMOUS_def page_mask_def PAGE_SIZE_def unsigned_minus_1_eq_mask mask_eq_exp_minus_1)

theorem mmap_below_heap:
  "fst (sys_mmap 0x1000 0x22 \<lparr>morecore_area = 0x10800, morecore_base = 0x10800, morecore_top = 0x11800\<rparr>) = 0x10000"
  by (simp add: sys_mmap_def Let_def MAP_ANONYMOUS_def page_mask_def PAGE_SIZE_def)

end
