(* ===== verification/Px_Misc.thy ===== *)
theory Px_Misc
  imports Px_Base Loops "HOL-Library.Sublist"
begin

text \<open>
  \<open>lib/libc/posix/posix.c\<close>: the clock and \<open>nanosleep\<close> over the timer of sDDF, \<open>getrandom\<close> over \<open>rand\<close>, and the table of
  system calls with its initialisation and the function that the C library calls. The number of a call comes from the C library, a
  parameter; a call of the table is the name of its function.
\<close>

subsection \<open>Time\<close>

text \<open>\<open>sddf_timer_time_now\<close>, \<open>sddf_timer_set_timeout\<close>, and a wait of the cothread for the channel of the timer.\<close>

record 't timer =
  tm_now :: "'t \<Rightarrow> u64 \<times> 't"
  tm_set_timeout :: "u64 \<Rightarrow> 't \<Rightarrow> 't"
  tm_wait :: "'t \<Rightarrow> 't"

definition NS_IN_S :: u64 where "NS_IN_S = 1000000000"
definition CLOCK_REALTIME :: int where "CLOCK_REALTIME = 0"
definition CLOCK_MONOTONIC :: int where "CLOCK_MONOTONIC = 1"

record timespec =
  tv_sec :: int
  tv_nsec :: int

text \<open>The result comes with the time that is stored.\<close>

definition sys_clock_gettime :: "'t timer \<Rightarrow> int \<Rightarrow> bool \<Rightarrow> 't \<Rightarrow> int \<times> timespec option \<times> 't" where
  "sys_clock_gettime T clk_id tp_given t =
     (if clk_id \<noteq> CLOCK_MONOTONIC \<and> clk_id \<noteq> CLOCK_REALTIME then (- EINVAL, None, t)
      else if \<not> tp_given then (- EFAULT, None, t)
      else let (rtc, t) = tm_now T t
           in (0, Some \<lparr>tv_sec = uint (rtc div NS_IN_S), tv_nsec = uint (rtc mod NS_IN_S)\<rparr>, t))"

text \<open>The loop reads the clock, and waits and reads it again while the target is not reached; it may not end.\<close>

definition sleep_until :: "'t timer \<Rightarrow> u64 \<Rightarrow> 't \<Rightarrow> (u64 \<times> 't) option" where
  "sleep_until T target_time t =
     while_opt (\<lambda>(now, t). now < target_time) (\<lambda>(now, t). Some (tm_now T (tm_wait T t))) (tm_now T t)"

definition sys_nanosleep :: "'t timer \<Rightarrow> timespec option \<Rightarrow> bool \<Rightarrow> 't \<Rightarrow> (int \<times> timespec option \<times> 't) option" where
  "sys_nanosleep T req rem_given t = (case req of
      None \<Rightarrow> Some (- EFAULT, None, t)
    | Some r \<Rightarrow>
        if tv_sec r < 0 \<or> tv_nsec r < 0 \<or> tv_nsec r \<ge> uint NS_IN_S then Some (- EINVAL, None, t)
        else let sleep_ns = of_int (tv_sec r) * NS_IN_S + of_int (tv_nsec r);
                 (start_time, t) = tm_now T t;
                 target_time = start_time + sleep_ns;
                 t = tm_set_timeout T sleep_ns t
             in do {
               (now, t) \<leftarrow> sleep_until T target_time t;
               Some (0, if rem_given then Some \<lparr>tv_sec = 0, tv_nsec = 0\<rparr> else None, t)
             })"

subsection \<open>Calls without a state\<close>

definition sys_getpid :: int where "sys_getpid = 1"
definition sys_getuid :: int where "sys_getuid = 501"
definition sys_getgid :: int where "sys_getgid = 501"
definition sys_set_tid_address :: int where "sys_set_tid_address = 1"

subsection \<open>Random numbers\<close>

text \<open>The four bytes of an \<open>int\<close>, the lowest first.\<close>

definition int_bytes :: "int \<Rightarrow> u8 list" where
  "int_bytes r = map (\<lambda>i. of_int (r div 256 ^ i)) [0..<4]"

text \<open>The bytes that are written after \<open>out\<close>, of which there are \<open>buflen\<close> in all; \<open>R\<close> is \<open>rand\<close>.\<close>

function random_loop :: "('r \<Rightarrow> int \<times> 'r) \<Rightarrow> nat \<Rightarrow> u8 list \<Rightarrow> 'r \<Rightarrow> u8 list \<times> 'r" where
  "random_loop R buflen out w =
     (if length out < buflen
      then let (r, w) = R w;
               bytes_to_copy = (if length out + 4 > buflen then buflen - length out else 4)
           in random_loop R buflen (out @ take bytes_to_copy (int_bytes r)) w
      else (out, w))"
  by pat_completeness auto
termination
  by (relation "measure (\<lambda>(R, buflen, out, w). buflen - length out)") (auto simp: int_bytes_def)

declare random_loop.simps [simp del]

definition sys_getrandom :: "('r \<Rightarrow> int \<times> 'r) \<Rightarrow> bool \<Rightarrow> nat \<Rightarrow> 'r \<Rightarrow> int \<times> u8 list \<times> 'r" where
  "sys_getrandom R buf_given buflen w =
     (if \<not> buf_given then (- EFAULT, [], w)
      else let (out, w) = random_loop R buflen [] w in (int (length out), out, w))"

subsection \<open>The table of system calls\<close>

text \<open>A call by the name of its function; \<open>None\<close> is a null pointer.\<close>

definition ENOSYS :: int where "ENOSYS = 38"

type_synonym syscall_table = "string option list"

text \<open>\<open>sel4_vsyscall\<close>: the error, or the function that is called.\<close>

definition sel4_vsyscall :: "syscall_table \<Rightarrow> int \<Rightarrow> int + string" where
  "sel4_vsyscall syscall_table sysnum =
     (if sysnum < 0 \<or> sysnum \<ge> int (length syscall_table) then Inl (- ENOSYS)
      else case syscall_table ! nat sysnum of
          None \<Rightarrow> Inl (- ENOSYS)
        | Some syscall \<Rightarrow> Inr syscall)"

definition libc_define_syscall :: "int \<Rightarrow> string \<Rightarrow> syscall_table \<Rightarrow> syscall_table option" where
  "libc_define_syscall syscall_num syscall_func syscall_table = do {
     c_assert (syscall_num \<ge> 0 \<and> syscall_num < int (length syscall_table));
     c_assert (syscall_table ! nat syscall_num = None);
     Some (syscall_table[nat syscall_num := Some syscall_func])
   }"

fun define_syscalls :: "(string \<Rightarrow> int) \<Rightarrow> (string \<times> string) list \<Rightarrow> syscall_table \<Rightarrow> syscall_table option" where
  "define_syscalls NR [] tab = Some tab"
| "define_syscalls NR ((name, f) # cs) tab = do { tab \<leftarrow> libc_define_syscall (NR name) f tab; define_syscalls NR cs tab }"

text \<open>The calls that each file defines, in the order in which it does. The socket library may lack some operations.\<close>

definition mem_syscalls :: "(string \<times> string) list" where
  "mem_syscalls = [(''brk'', ''sys_brk''), (''mmap'', ''sys_mmap''), (''munmap'', ''sys_munmap''), (''mprotect'', ''sys_mprotect'')]"

definition io_syscalls :: "(string \<times> string) list" where
  "io_syscalls = [(''write'', ''sys_write''), (''read'', ''sys_read''), (''writev'', ''sys_writev''), (''readv'', ''sys_readv''),
     (''close'', ''sys_close''), (''ioctl'', ''sys_ioctl''), (''dup3'', ''sys_dup3''), (''fstat'', ''sys_fstat''), (''fcntl'', ''sys_fcntl'')]"

definition file_syscalls :: "(string \<times> string) list" where
  "file_syscalls = [(''newfstatat'', ''sys_fstatat''), (''readlinkat'', ''sys_readlinkat''), (''openat'', ''sys_openat''),
     (''lseek'', ''sys_lseek''), (''mkdirat'', ''sys_mkdirat''), (''unlinkat'', ''sys_unlinkat'')]"

record socket_operations =
  has_listen :: bool
  has_accept :: bool
  has_getsockname :: bool
  has_getpeername :: bool
  has_poll :: bool

definition sock_syscalls :: "socket_operations \<Rightarrow> (string \<times> string) list" where
  "sock_syscalls S = [(''socket'', ''sys_socket''), (''bind'', ''sys_bind''), (''connect'', ''sys_socket_connect''),
     (''setsockopt'', ''sys_setsockopt''), (''getsockopt'', ''sys_getsockopt''), (''sendto'', ''sys_sendto''),
     (''recvfrom'', ''sys_recvfrom'')]
     @ (if has_listen S then [(''listen'', ''sys_listen'')] else [])
     @ (if has_accept S then [(''accept'', ''sys_accept'')] else [])
     @ (if has_getsockname S then [(''getsockname'', ''sys_getsockname'')] else [])
     @ (if has_getpeername S then [(''getpeername'', ''sys_getpeername'')] else [])
     @ (if has_poll S then [(''ppoll'', ''sys_ppoll'')] else [])"

definition misc_syscalls :: "(string \<times> string) list" where
  "misc_syscalls = [(''clock_gettime'', ''sys_clock_gettime''), (''nanosleep'', ''sys_nanosleep''), (''getpid'', ''sys_getpid''),
     (''getuid'', ''sys_getuid''), (''getgid'', ''sys_getgid''), (''getrandom'', ''sys_getrandom''),
     (''set_tid_address'', ''sys_set_tid_address'')]"

text \<open>\<open>libc_init\<close>: the heap and the socket library may be missing.\<close>

definition libc_syscalls :: "socket_operations option \<Rightarrow> bool \<Rightarrow> (string \<times> string) list" where
  "libc_syscalls socket_config heap =
     (if heap then mem_syscalls else []) @ io_syscalls @ file_syscalls
     @ (case socket_config of None \<Rightarrow> [] | Some S \<Rightarrow> sock_syscalls S) @ misc_syscalls"

definition libc_init :: "(string \<Rightarrow> int) \<Rightarrow> socket_operations option \<Rightarrow> bool \<Rightarrow> nat \<Rightarrow> syscall_table option" where
  "libc_init NR socket_config heap num = define_syscalls NR (libc_syscalls socket_config heap) (replicate num None)"

subsection \<open>Facts\<close>

lemma length_int_bytes [simp]: "length (int_bytes r) = 4"
  by (simp add: int_bytes_def)

lemma random_loop_fills:
  "length out \<le> buflen \<Longrightarrow> length (fst (random_loop R buflen out w)) = buflen"
proof (induction "buflen - length out" arbitrary: out w rule: less_induct)
  case less
  show ?case
  proof (cases "length out < buflen")
    case True
    obtain r w' where r: "R w = (r, w')" by fastforce
    let ?n = "if length out + 4 > buflen then buflen - length out else 4"
    have l: "length (out @ take ?n (int_bytes r)) = length out + ?n" by simp
    have "length (fst (random_loop R buflen (out @ take ?n (int_bytes r)) w')) = buflen"
      by (rule less.hyps) (use True in \<open>auto simp: l\<close>)
    then show ?thesis using True r by (subst random_loop.simps) (simp add: Let_def)
  qed (use less.prems in \<open>simp add: random_loop.simps\<close>)
qed

lemma define_syscalls_table:
  assumes "distinct (map (NR \<circ> fst) cs)"
    "\<And>n f. (n, f) \<in> set cs \<Longrightarrow> 0 \<le> NR n \<and> NR n < int (length tab) \<and> tab ! nat (NR n) = None"
  shows "\<exists>tab'. define_syscalls NR cs tab = Some tab' \<and> length tab' = length tab \<and>
     (\<forall>k < length tab. tab' ! k = (case find (\<lambda>(n, f). NR n = int k) cs of None \<Rightarrow> tab ! k | Some (n, f) \<Rightarrow> Some f))"
  using assms
proof (induction cs arbitrary: tab)
  case (Cons c cs)
  obtain name f where c: "c = (name, f)" by fastforce
  have n: "0 \<le> NR name" "NR name < int (length tab)" "tab ! nat (NR name) = None" using Cons.prems(2) [of name f] c by simp_all
  let ?tab = "tab[nat (NR name) := Some f]"
  have "0 \<le> NR n \<and> NR n < int (length ?tab) \<and> ?tab ! nat (NR n) = None" if "(n, g) \<in> set cs" for n g
  proof -
    have "NR name \<notin> set (map (NR \<circ> fst) cs)" using Cons.prems(1) c by simp
    moreover have "NR n \<in> set (map (NR \<circ> fst) cs)" using that by (simp add: image_iff) (rule bexI [of _ "(n, g)"], simp_all)
    ultimately have ne: "NR n \<noteq> NR name" by metis
    have b: "0 \<le> NR n" "NR n < int (length tab)" "tab ! nat (NR n) = None" using Cons.prems(2) [of n g] that by simp_all
    have "nat (NR name) \<noteq> nat (NR n)" using ne b(1) n(1) by linarith
    then show ?thesis using b by simp
  qed
  then obtain tab' where t: "define_syscalls NR cs ?tab = Some tab'" "length tab' = length ?tab"
    "\<forall>k < length ?tab. tab' ! k = (case find (\<lambda>(n, f). NR n = int k) cs of None \<Rightarrow> ?tab ! k | Some (n, f) \<Rightarrow> Some f)"
    using Cons.IH [of ?tab] Cons.prems(1) by auto
  have none: "find (\<lambda>(n, f). NR n = NR name) cs = None"
  proof -
    have "NR name \<notin> (NR \<circ> fst) ` set cs" using Cons.prems(1) c by simp
    then have "NR n \<noteq> NR name" if "(n, g) \<in> set cs" for n g using image_eqI [of "NR n" "NR \<circ> fst" "(n, g)"] that by auto
    then show ?thesis by (auto simp: find_None_iff)
  qed
  have "tab' ! k = (case find (\<lambda>(n, f). NR n = int k) (c # cs) of None \<Rightarrow> tab ! k | Some (n, f) \<Rightarrow> Some f)"
    if "k < length tab" for k
  proof (cases "NR name = int k")
    case True
    then have "?tab ! k = Some f" using that by auto
    then have "tab' ! k = Some f" using t(3) [rule_format, of k] that none True by simp
    then show ?thesis using True c by simp
  next
    case False
    then have "?tab ! k = tab ! k" using n(1) by (subst nth_list_update_neq) auto
    then have "tab' ! k = (case find (\<lambda>(n, f). NR n = int k) cs of None \<Rightarrow> tab ! k | Some (n, f) \<Rightarrow> Some f)"
      using t(3) [rule_format, of k] that by (simp cong: option.case_cong)
    then show ?thesis using False c by simp
  qed
  with t(1,2) n show ?case by (simp add: c libc_define_syscall_def)
qed simp

lemma define_syscalls_init:
  assumes "distinct (map (NR \<circ> fst) cs)" "\<And>n f. (n, f) \<in> set cs \<Longrightarrow> 0 \<le> NR n \<and> NR n < int num"
  shows "\<exists>tab. define_syscalls NR cs (replicate num None) = Some tab \<and> length tab = num \<and>
     (\<forall>k < num. tab ! k = (case find (\<lambda>(n, f). NR n = int k) cs of None \<Rightarrow> None | Some (n, f) \<Rightarrow> Some f))"
proof -
  have "0 \<le> NR n \<and> NR n < int (length (replicate num None)) \<and> replicate num None ! nat (NR n) = None" if "(n, f) \<in> set cs" for n f
    using assms(2) [OF that] by (simp add: nat_less_iff)
  from define_syscalls_table [OF assms(1) this] show ?thesis by (simp cong: option.case_cong)
qed

text \<open>The calls of a library with sockets and a heap. Every configuration has some of them.\<close>

definition ex_sockets :: socket_operations where
  "ex_sockets = \<lparr>has_listen = True, has_accept = True, has_getsockname = True, has_getpeername = True, has_poll = True\<rparr>"

lemma all_distinct: "distinct (map fst (libc_syscalls (Some ex_sockets) True))"
  by code_simp

lemma subseq_distinct: "subseq xs ys \<Longrightarrow> distinct ys \<Longrightarrow> distinct xs"
proof (induction rule: list_emb.induct)
  case (list_emb_Cons2 x y xs ys)
  have "set xs \<subseteq> set ys" using list_emb_Cons2.hyps(2) by (auto dest: list_emb_set)
  with list_emb_Cons2 show ?case by auto
qed auto

lemma libc_syscalls_subseq: "subseq (libc_syscalls sc heap) (libc_syscalls (Some ex_sockets) True)"
proof -
  have "subseq (sock_syscalls S) (sock_syscalls ex_sockets)" for S
    unfolding sock_syscalls_def by (intro list_emb_append_mono) (simp_all add: ex_sockets_def)
  then have "subseq (case sc of None \<Rightarrow> [] | Some S \<Rightarrow> sock_syscalls S) (sock_syscalls ex_sockets)"
    by (simp split: option.split)
  then show ?thesis unfolding libc_syscalls_def option.case by (intro list_emb_append_mono) simp_all
qed

lemma libc_syscalls_distinct: "distinct (map fst (libc_syscalls sc heap))"
  by (rule subseq_distinct [OF subseq_map [OF libc_syscalls_subseq] all_distinct])

text \<open>C22: The initialisation of the C library defines every system call once, so that no assertion of
  \<open>libc_define_syscall\<close> fails, and the library then reaches exactly the functions that were defined for a configuration: every number of a call
  goes to the function of that call, and every other number, those out of the table included, is answered with \<open>ENOSYS\<close>.\<close>

theorem libc_init_dispatches:
  assumes "inj_on NR (fst ` set (libc_syscalls sc heap))" "\<And>n f. (n, f) \<in> set (libc_syscalls sc heap) \<Longrightarrow> 0 \<le> NR n \<and> NR n < int num"
  shows "\<exists>tab. libc_init NR sc heap num = Some tab \<and>
     (\<forall>k. sel4_vsyscall tab k = (case find (\<lambda>(n, f). NR n = k) (libc_syscalls sc heap) of
        None \<Rightarrow> Inl (- ENOSYS) | Some (n, f) \<Rightarrow> Inr f))"
proof -
  let ?cs = "libc_syscalls sc heap"
  have "distinct (map NR (map fst ?cs))"
    using libc_syscalls_distinct [of sc heap] assms(1) by (simp add: distinct_map del: map_map)
  then have "distinct (map (NR \<circ> fst) ?cs)" by simp
  then obtain tab where t: "libc_init NR sc heap num = Some tab" "length tab = num"
    "\<forall>k < num. tab ! k = (case find (\<lambda>(n, f). NR n = int k) ?cs of None \<Rightarrow> None | Some (n, f) \<Rightarrow> Some f)"
    using define_syscalls_init [of NR ?cs num] assms(2) by (auto simp: libc_init_def)
  have "sel4_vsyscall tab k = (case find (\<lambda>(n, f). NR n = k) ?cs of None \<Rightarrow> Inl (- ENOSYS) | Some (n, f) \<Rightarrow> Inr f)" for k
  proof (cases "0 \<le> k \<and> k < int num")
    case True
    then have k: "nat k < num" "int (nat k) = k" by auto
    have "tab ! nat k = (case find (\<lambda>(n, f). NR n = k) ?cs of None \<Rightarrow> None | Some (n, f) \<Rightarrow> Some f)"
      using t(3) [rule_format, OF k(1)] unfolding k(2) .
    then show ?thesis using True t(2) by (cases "find (\<lambda>(n, f). NR n = k) ?cs") (auto simp: sel4_vsyscall_def)
  next
    case False
    then have "find (\<lambda>(n, f). NR n = k) ?cs = None" using assms(2) by (auto simp: find_None_iff)
    with False t(2) show ?thesis by (auto simp: sel4_vsyscall_def)
  qed
  with t(1) show ?thesis by blast
qed

lemma takeWhile_length_less: "n \<in> set ns \<Longrightarrow> length (takeWhile (\<lambda>m. m \<noteq> n) ns) < length ns"
  by (induction ns) auto

definition ex_numbers :: "string \<Rightarrow> int" where
  "ex_numbers n = int (length (takeWhile (\<lambda>m. m \<noteq> n) (map fst (libc_syscalls (Some ex_sockets) True))))"

lemma ex_numbers_inj: "inj_on ex_numbers (fst ` set (libc_syscalls (Some ex_sockets) True))"
proof (rule inj_onI)
  let ?ns = "map fst (libc_syscalls (Some ex_sockets) True)"
  have at: "?ns ! length (takeWhile (\<lambda>m. m \<noteq> n) ?ns) = n" if "n \<in> set ?ns" for n
  proof -
    have "length (takeWhile (\<lambda>m. m \<noteq> n) ?ns) < length ?ns"
      using that by (rule takeWhile_length_less)
    from nth_length_takeWhile [OF this] show ?thesis by simp
  qed
  fix n m assume nm: "n \<in> fst ` set (libc_syscalls (Some ex_sockets) True)" "m \<in> fst ` set (libc_syscalls (Some ex_sockets) True)"
    and e: "ex_numbers n = ex_numbers m"
  have l: "length (takeWhile (\<lambda>k. k \<noteq> n) ?ns) = length (takeWhile (\<lambda>k. k \<noteq> m) ?ns)"
    using e by (simp only: ex_numbers_def of_nat_eq_iff)
  have "n = ?ns ! length (takeWhile (\<lambda>k. k \<noteq> n) ?ns)" using nm(1) by (intro at [symmetric]) simp
  also have "\<dots> = ?ns ! length (takeWhile (\<lambda>k. k \<noteq> m) ?ns)" by (simp only: l)
  also have "\<dots> = m" using nm(2) by (intro at) simp
  finally show "n = m" .
qed

lemma ex_numbers_bound:
  "(n, f) \<in> set (libc_syscalls (Some ex_sockets) True) \<Longrightarrow> 0 \<le> ex_numbers n \<and> ex_numbers n < int 38"
proof -
  assume "(n, f) \<in> set (libc_syscalls (Some ex_sockets) True)"
  then have "n \<in> set (map fst (libc_syscalls (Some ex_sockets) True))" using image_eqI [of n fst "(n, f)"] by simp
  then have "length (takeWhile (\<lambda>m. m \<noteq> n) (map fst (libc_syscalls (Some ex_sockets) True))) <
      length (map fst (libc_syscalls (Some ex_sockets) True))"
    by (rule takeWhile_length_less)
  moreover have "length (map fst (libc_syscalls (Some ex_sockets) True)) = 38"
    by (simp add: libc_syscalls_def mem_syscalls_def io_syscalls_def file_syscalls_def sock_syscalls_def misc_syscalls_def ex_sockets_def)
  ultimately show ?thesis by (simp add: ex_numbers_def)
qed

theorem libc_init_dispatches_witness:
  "\<exists>tab. libc_init ex_numbers (Some ex_sockets) True 38 = Some tab \<and>
     (\<forall>k. sel4_vsyscall tab k = (case find (\<lambda>(n, f). ex_numbers n = k) (libc_syscalls (Some ex_sockets) True) of
        None \<Rightarrow> Inl (- ENOSYS) | Some (n, f) \<Rightarrow> Inr f))"
  by (rule libc_init_dispatches [OF ex_numbers_inj ex_numbers_bound])

subsection \<open>Sleeping\<close>

text \<open>\<open>nanosleep\<close> does not return early: when the seconds and nanoseconds from the current time on fit in the 64 bits of the timer, the clock has
  reached the end of the interval at the last time at which the call looked at it.\<close>

theorem nanosleep_not_early:
  assumes "sys_nanosleep T (Some req) rem_given t = Some (0, rem, t')"
    "nat (tv_sec req) * 1000000000 + nat (tv_nsec req) + unat (fst (tm_now T t)) < 2 ^ 64"
  shows "\<exists>t1. t' = snd (tm_now T t1) \<and>
     unat (fst (tm_now T t)) + nat (tv_sec req) * 1000000000 + nat (tv_nsec req) \<le> unat (fst (tm_now T t1))"
proof -
  define ns :: u64 where "ns = of_int (tv_sec req) * NS_IN_S + of_int (tv_nsec req)"
  define target where "target = fst (tm_now T t) + ns"
  have r: "0 \<le> tv_sec req" "0 \<le> tv_nsec req" using assms(1) by (auto simp: sys_nanosleep_def EINVAL_def split: if_splits)
  obtain now where s: "sleep_until T target (tm_set_timeout T ns (snd (tm_now T t))) = Some (now, t')"
    using assms(1) by (auto simp: sys_nanosleep_def ns_def [symmetric] target_def Let_def EINVAL_def bind_eq_Some_conv
        split: if_splits prod.splits)
  have e: "(\<exists>t1. (now, t') = tm_now T t1) \<and> \<not> (\<lambda>(now, t). now < target) (now, t')"
    by (rule while_opt_invariant [OF s [unfolded sleep_until_def], where I = "\<lambda>s. \<exists>t1. s = tm_now T t1"]) (auto, metis)
  then obtain t1 where t1: "tm_now T t1 = (now, t')" by metis
  have n: "ns = of_nat (nat (tv_sec req) * 1000000000 + nat (tv_nsec req))"
    using r by (simp add: ns_def NS_IN_S_def of_nat_nat)
  have small: "unat (of_nat m :: u64) = m" if "m < 2 ^ 64" for m
    using that by (simp add: unat_of_nat take_bit_nat_eq_self)
  have "target = of_nat (unat (fst (tm_now T t)) + (nat (tv_sec req) * 1000000000 + nat (tv_nsec req)))"
    by (simp add: target_def n del: of_nat_mult)
  then have "unat target = unat (fst (tm_now T t)) + (nat (tv_sec req) * 1000000000 + nat (tv_nsec req))"
    using small assms(2) by (simp only: add.assoc add.commute)
  moreover have "unat target \<le> unat now" using e by (simp add: word_le_nat_alt not_less)
  ultimately show ?thesis using t1 by (intro exI [of _ t1]) simp
qed

text \<open>A clock that moves on by a tenth of a second at each wait.\<close>

definition ex_timer :: "u64 timer" where
  "ex_timer = \<lparr>tm_now = (\<lambda>t. (t, t)), tm_set_timeout = (\<lambda>ns t. t), tm_wait = (\<lambda>t. t + 100000000)\<rparr>"

lemma ex_timer_sleeps:
  "sys_nanosleep ex_timer (Some \<lparr>tv_sec = 0, tv_nsec = 150000000\<rparr>) False 5 = Some (0, None, 200000005)"
  by (simp add: sys_nanosleep_def NS_IN_S_def ex_timer_def sleep_until_def while_opt_step)

theorem nanosleep_not_early_witness:
  "\<exists>t1. (200000005 :: u64) = snd (tm_now ex_timer t1) \<and> 150000005 \<le> unat (fst (tm_now ex_timer t1))"
  using nanosleep_not_early [OF ex_timer_sleeps] by (simp add: ex_timer_def)

text \<open>The seconds are multiplied in 64 bits: \<open>2 ^ 55\<close> seconds are a multiple of \<open>2 ^ 64\<close> nanoseconds, and the call returns
  without a wait.\<close>

lemma nanosleep_wraps:
  assumes "tm_now T (tm_set_timeout T 0 (snd (tm_now T t))) = (now, t')" "fst (tm_now T t) \<le> now"
  shows "sys_nanosleep T (Some \<lparr>tv_sec = 2 ^ 55, tv_nsec = 0\<rparr>) False t = Some (0, None, t')"
proof -
  have z: "(36028797018963968000000000 :: u64) = 0" by simp
  from assms show ?thesis
    by (simp add: sys_nanosleep_def NS_IN_S_def sleep_until_def Let_def case_prod_beta not_less z)
qed

end
