(* ===== verification/Px_Fd.thy ===== *)
theory Px_Fd
  imports Px_Base Loops Fs_Helpers Fw_Common
begin

text \<open>
  \<open>lib/libc/posix/fd.c\<close>, and the state that the files of the POSIX library share. A descriptor has an entry with
  pointers to the functions that implement it. The serial queue that the console writes to is part of sDDF, its
  operations are a parameter.
\<close>

subsection \<open>State\<close>

text \<open>The functions that the pointers of an entry can point to; a null pointer is \<open>None\<close>.\<close>

datatype fd_class = Console | Sock | File

record fd_entry =
  fe_write :: "fd_class option"
  fe_read :: "fd_class option"
  fe_close :: "fd_class option"
  fe_dup3 :: "fd_class option"
  fe_fstat :: "fd_class option"
  fe_flags :: u32
  fe_file_ptr :: int

text \<open>\<open>fd_active\<close> and \<open>fd_table\<close> of \<open>fd.c\<close>; \<open>fd_socket\<close> and the state of the socket library; \<open>fs_server_fd_map\<close>, \<open>fd_path\<close>
  (the strings without the byte that ends them) and the state of the file system client; the serial queue, and the
  number of notifications that were sent for it.\<close>

record ('s, 'q) posix =
  px_active :: "bool list"
  px_table :: "fd_entry list"
  px_fd_socket :: "int list"
  px_sock :: 's
  px_server_fd :: "int list"
  px_fd_path :: "u8 list list"
  px_client :: fs_client
  px_serial :: 'q
  px_notified :: nat

definition zero_entry :: fd_entry where
  "zero_entry = \<lparr>fe_write = None, fe_read = None, fe_close = None, fe_dup3 = None, fe_fstat = None, fe_flags = 0, fe_file_ptr = 0\<rparr>"

text \<open>The descriptors of the console, as they are initialised.\<close>

definition fd_active :: "bool list" where
  "fd_active = (replicate MAX_FDS False)[STDIN_FD := True, STDOUT_FD := True, STDERR_FD := True]"

definition console_entry :: fd_entry where
  "console_entry = zero_entry\<lparr>fe_write := Some Console, fe_flags := O_WRONLY\<rparr>"

definition fd_table :: "fd_entry list" where
  "fd_table = (replicate MAX_FDS zero_entry)[STDIN_FD := zero_entry\<lparr>fe_flags := O_RDONLY\<rparr>,
     STDOUT_FD := console_entry, STDERR_FD := console_entry]"

subsection \<open>Descriptors\<close>

text \<open>The number of a descriptor is an \<open>int\<close>.\<close>

definition posix_fd_is_valid :: "int \<Rightarrow> ('s, 'q) posix \<Rightarrow> bool" where
  "posix_fd_is_valid fd st \<longleftrightarrow> 0 \<le> fd \<and> fd < int MAX_FDS \<and> px_active st ! nat fd"

definition posix_fd_entry :: "int \<Rightarrow> ('s, 'q) posix \<Rightarrow> fd_entry option" where
  "posix_fd_entry fd st = (if posix_fd_is_valid fd st then Some (px_table st ! nat fd) else None)"

definition posix_fd_allocate :: "('s, 'q) posix \<Rightarrow> int \<times> ('s, 'q) posix" where
  "posix_fd_allocate st = (case find_index Not (px_active st) of
      Some i \<Rightarrow> (int i, st\<lparr>px_active := (px_active st)[i := True]\<rparr>)
    | None \<Rightarrow> (- 1, st))"

definition posix_fd_deallocate :: "int \<Rightarrow> ('s, 'q) posix \<Rightarrow> int \<times> ('s, 'q) posix" where
  "posix_fd_deallocate fd st =
     (if posix_fd_is_valid fd st
      then (0, st\<lparr>px_active := (px_active st)[nat fd := False], px_table := (px_table st)[nat fd := zero_entry]\<rparr>)
      else (- 1, st))"

text \<open>The result is whether the entry was allocated, a pointer to the entry in the code.\<close>

definition posix_fd_entry_allocate :: "int \<Rightarrow> ('s, 'q) posix \<Rightarrow> bool \<times> ('s, 'q) posix" where
  "posix_fd_entry_allocate fd st =
     (if fd < 0 \<or> int MAX_FDS \<le> fd then (False, st)
      else if px_active st ! nat fd then (False, st)
      else (True, st\<lparr>px_active := (px_active st)[nat fd := True], px_table := (px_table st)[nat fd := zero_entry]\<rparr>))"

definition set_entry_at :: "int \<Rightarrow> fd_entry \<Rightarrow> ('s, 'q) posix \<Rightarrow> ('s, 'q) posix" where
  "set_entry_at fd e st = st\<lparr>px_table := (px_table st)[nat fd := e]\<rparr>"

subsection \<open>Console\<close>

text \<open>\<open>serial_enqueue_batch\<close> enqueues as many of the characters as fit and gives their number; \<open>serial_queue_free\<close>
  is the room in the queue.\<close>

record 'q serial_ops =
  sq_enqueue :: "u8 list \<Rightarrow> 'q \<Rightarrow> nat \<times> 'q"
  sq_free :: "'q \<Rightarrow> nat"

text \<open>The loop over the characters that are left, with the number of those that were sent, for fewer than \<open>2^32\<close> characters.\<close>

function console_loop :: "'q serial_ops \<Rightarrow> u8 list \<Rightarrow> nat \<Rightarrow> 'q \<Rightarrow> nat \<times> 'q" where
  "console_loop S src sent q =
     (if src = [] then (sent, q)
      else let stop = length (takeWhile (\<lambda>c. c \<noteq> 10) src);
               (enq, q) = sq_enqueue S (take stop src) q;
               sent = sent + enq
           in if enq = length src \<or> sq_free S q < 2 then (sent, q)
              else console_loop S (drop (enq + 1) src) (sent + 1) (snd (sq_enqueue S [13, 10] q)))"
  by pat_completeness auto
termination by (relation "measure (\<lambda>(S, src, sent, q). length src)") auto

declare console_loop.simps [simp del]

definition console_write :: "'q serial_ops \<Rightarrow> u8 list \<Rightarrow> ('s, 'q) posix \<Rightarrow> int \<times> ('s, 'q) posix" where
  "console_write S data st =
     (let (sent, q) = console_loop S data 0 (px_serial st);
          st = st\<lparr>px_serial := q\<rparr>
      in (int sent, if sent \<noteq> 0 then st\<lparr>px_notified := px_notified st + 1\<rparr> else st))"

subsection \<open>What the console prints\<close>

text \<open>Characters with a carriage return before every newline.\<close>

fun crlf :: "u8 list \<Rightarrow> u8 list" where
  "crlf [] = []"
| "crlf (c # cs) = (if c = 10 then 13 # 10 # crlf cs else c # crlf cs)"

lemma crlf_append: "crlf (xs @ ys) = crlf xs @ crlf ys"
  by (induction xs) auto

lemma crlf_plain: "10 \<notin> set xs \<Longrightarrow> crlf xs = xs"
  by (induction xs) auto

text \<open>A serial queue of some capacity: what is in it, and that nobody empties it during the call.\<close>

definition serial_laws :: "'q serial_ops \<Rightarrow> ('q \<Rightarrow> u8 list) \<Rightarrow> nat \<Rightarrow> bool" where
  "serial_laws S contents capacity \<longleftrightarrow>
     (\<forall>xs q. let n = min (length xs) (capacity - length (contents q))
        in fst (sq_enqueue S xs q) = n \<and> contents (snd (sq_enqueue S xs q)) = contents q @ take n xs) \<and>
     (\<forall>q. sq_free S q = capacity - length (contents q))"

lemma serial_enqueue:
  assumes "serial_laws S contents capacity" "sq_enqueue S xs q = (n, q')"
  shows "n = min (length xs) (capacity - length (contents q))" "contents q' = contents q @ take n xs"
proof -
  have law: "fst (sq_enqueue S xs q) = min (length xs) (capacity - length (contents q))"
    "contents (snd (sq_enqueue S xs q)) = contents q @ take (min (length xs) (capacity - length (contents q))) xs"
    using assms(1) unfolding serial_laws_def Let_def by blast+
  show n: "n = min (length xs) (capacity - length (contents q))" using law(1) assms(2) by simp
  show "contents q' = contents q @ take n xs" using law(2) assms(2) by (simp add: n)
qed

lemma console_loop_prints:
  assumes "serial_laws S contents capacity" "console_loop S src sent q = (sent', q')"
  shows "sent \<le> sent' \<and> sent' \<le> sent + length src \<and> contents q' = contents q @ crlf (take (sent' - sent) src)"
  using assms
proof (induction S src sent q arbitrary: sent' q' rule: console_loop.induct)
  case (1 S src sent q)
  note laws = 1(2)
  show ?case
  proof (cases "src = []")
    case True
    with 1(3) show ?thesis by (simp add: console_loop.simps)
  next
    case False
    define stop where "stop = length (takeWhile (\<lambda>c. c \<noteq> 10) src)"
    obtain enq q1 where e: "sq_enqueue S (take stop src) q = (enq, q1)" by (cases "sq_enqueue S (take stop src) q")
    have stop: "stop \<le> length src" "take stop src = takeWhile (\<lambda>c. c \<noteq> 10) src"
      by (simp_all add: stop_def length_takeWhile_le takeWhile_eq_take [symmetric])
    let ?room = "capacity - length (contents q)"
    have enq: "enq = min stop ?room" "contents q1 = contents q @ take enq src"
      using serial_enqueue [OF laws e] stop(1) by (auto simp: min_def)
    have "set (takeWhile (\<lambda>c. c \<noteq> 10) src) \<subseteq> - {10}" by (auto dest: set_takeWhileD)
    moreover have "set (take enq src) \<subseteq> set (take stop src)" using enq(1) by (intro set_take_subset_set_take) simp
    ultimately have plain: "crlf (take enq src) = take enq src" using stop(2) by (intro crlf_plain) auto
    note run = 1(3) [unfolded console_loop.simps [of S src sent q] if_not_P [OF False] Let_def stop_def [symmetric] e
        prod.case fst_conv]
    show ?thesis
    proof (cases "enq = length src \<or> sq_free S q1 < 2")
      case True
      then have "sent' = sent + enq" "q' = q1" using run by auto
      then show ?thesis using enq stop(1) plain by auto
    next
      case go: False
      have free: "sq_free S q1 = capacity - length (contents q1)" using laws unfolding serial_laws_def by blast
      have "length (contents q1) = length (contents q) + enq" using enq stop(1) by simp
      with go free enq(1) have es: "enq = stop" by linarith
      then have lt: "stop < length src" using go stop(1) by linarith
      have nl: "src ! stop = 10"
        using nth_length_takeWhile [of "\<lambda>c. c \<noteq> 10" src] lt unfolding stop_def by simp
      obtain n2 q2 where e2: "sq_enqueue S [13, 10] q1 = (n2, q2)" by (cases "sq_enqueue S [13, 10] q1")
      have q2: "contents q2 = contents q1 @ [13, 10]"
        using serial_enqueue [OF laws e2] go free by (simp add: min_def split: if_splits)
      have run2: "console_loop S (drop (enq + 1) src) (sent + enq + 1) q2 = (sent', q')"
        using run go by (simp add: e2)
      have IH: "sent + enq + 1 \<le> sent'" "sent' \<le> sent + enq + 1 + length (drop (enq + 1) src)"
        "contents q' = contents q2 @ crlf (take (sent' - (sent + enq + 1)) (drop (enq + 1) src))"
        using 1(1) [OF False stop_def e [symmetric] refl refl go laws, unfolded e2 snd_conv, OF run2] by blast+
      have split: "take (sent' - sent) src = take stop src @ 10 # take (sent' - (sent + enq + 1)) (drop (enq + 1) src)"
      proof -
        have "sent' - sent = stop + (1 + (sent' - (sent + enq + 1)))" using IH(1) es by linarith
        then have "take (sent' - sent) src = take stop src @ take (1 + (sent' - (sent + enq + 1))) (drop stop src)"
          by (simp only: take_add)
        moreover have "drop stop src = 10 # drop (enq + 1) src" using lt nl es by (simp add: Cons_nth_drop_Suc [symmetric])
        ultimately show ?thesis by simp
      qed
      have "contents q' = contents q @ crlf (take (sent' - sent) src)"
        unfolding split crlf_append using IH(3) q2 enq(2) plain es by simp
      then show ?thesis using IH(1,2) lt es by auto
    qed
  qed
qed

text \<open>C37: What the console prints: \<open>console_write\<close> puts the characters into the serial queue with a carriage return
  before every newline, never half of such a pair, and its result is the number of the characters of the caller
  that were taken, however full the queue is.\<close>

theorem console_write_prints:
  assumes "serial_laws S contents capacity" "console_write S data st = (n, st')"
  shows "contents (px_serial st') = contents (px_serial st) @ crlf (take (nat n) data)"
proof -
  obtain sent q where l: "console_loop S data 0 (px_serial st) = (sent, q)" by (cases "console_loop S data 0 (px_serial st)")
  then have "px_serial st' = q" "nat n = sent" using assms(2) by (auto simp: console_write_def Let_def split: if_splits)
  then show ?thesis using console_loop_prints [OF assms(1) l] by simp
qed

definition ex_serial :: "u8 list serial_ops" where
  "ex_serial = \<lparr>sq_enqueue = (\<lambda>xs q. let n = min (length xs) (6 - length q) in (n, q @ take n xs)), sq_free = (\<lambda>q. 6 - length q)\<rparr>"

definition ex_posix :: "(unit, u8 list) posix" where
  "ex_posix = \<lparr>px_active = fd_active, px_table = fd_table, px_fd_socket = replicate MAX_FDS (- 1), px_sock = (),
     px_server_fd = replicate MAX_FDS (- 1), px_fd_path = replicate MAX_FDS [],
     px_client = ex_client, px_serial = [], px_notified = 0\<rparr>"

theorem console_write_prints_witness:
  "px_serial (snd (console_write ex_serial [97, 10, 98, 99, 10, 100] ex_posix)) = px_serial ex_posix @
     crlf (take (nat (fst (console_write ex_serial [97, 10, 98, 99, 10, 100] ex_posix))) [97, 10, 98, 99, 10, 100])"
  by (rule console_write_prints [where contents = id and capacity = 6, unfolded id_apply])
    (simp_all add: serial_laws_def ex_serial_def Let_def)

end
