(* ===== verification/Px_Tcp.thy ===== *)
theory Px_Tcp
  imports Px_Base Loops
begin

text \<open>
  \<open>lib/sock/tcp.c\<close>: the stream sockets of a component, ten of them, over the TCP implementation of lwIP. The operations
  of lwIP, of the cooperative threads and of the network queue are a parameter (\<open>lwip\<close>) over their own state \<open>'w\<close>;
  a wait on a semaphore lets the other code of the component run, callbacks of lwIP included, and may change everything.
  \<open>None\<close> is a failed assertion, an access outside a table or through a null pointer, or a call that does not return.
\<close>

subsection \<open>State\<close>

definition MAX_SOCKETS :: nat where "MAX_SOCKETS = 10"
definition MAX_LISTEN_BACKLOG :: nat where "MAX_LISTEN_BACKLOG = 10"
definition SOCKET_BUF_SIZE :: nat where "SOCKET_BUF_SIZE = 0x200000"
definition USHRT_MAX :: nat where "USHRT_MAX = 65535"

datatype socket_state =
    socket_state_unallocated
  | socket_state_allocated
  | socket_state_bound
  | socket_state_connecting
  | socket_state_connected
  | socket_state_closing
  | socket_state_closed_by_peer
  | socket_state_error
  | socket_state_listening

text \<open>The errors of lwIP. A connection of lwIP is known by a number, \<open>None\<close> is the null pointer.\<close>

datatype lwip_err = ERR_OK | ERR_MEM | ERR_BUF | ERR_TIMEOUT | ERR_RTE | ERR_INPROGRESS | ERR_VAL | ERR_WOULDBLOCK
  | ERR_USE | ERR_ALREADY | ERR_ISCONN | ERR_CONN | ERR_IF | ERR_ABRT | ERR_RST | ERR_CLSD | ERR_ARG

fun lwip_err_to_errno :: "lwip_err \<Rightarrow> int" where
  "lwip_err_to_errno ERR_OK = 0"
| "lwip_err_to_errno ERR_MEM = ENOMEM"
| "lwip_err_to_errno ERR_BUF = ENOBUFS"
| "lwip_err_to_errno ERR_TIMEOUT = ETIMEDOUT"
| "lwip_err_to_errno ERR_RTE = EHOSTUNREACH"
| "lwip_err_to_errno ERR_INPROGRESS = EINPROGRESS"
| "lwip_err_to_errno ERR_VAL = EINVAL"
| "lwip_err_to_errno ERR_WOULDBLOCK = EAGAIN"
| "lwip_err_to_errno ERR_USE = EADDRINUSE"
| "lwip_err_to_errno ERR_ALREADY = EALREADY"
| "lwip_err_to_errno ERR_ISCONN = EISCONN"
| "lwip_err_to_errno ERR_CONN = ENOTCONN"
| "lwip_err_to_errno ERR_IF = ENODEV"
| "lwip_err_to_errno ERR_ABRT = ECONNABORTED"
| "lwip_err_to_errno ERR_RST = ECONNRESET"
| "lwip_err_to_errno ERR_CLSD = ENOTCONN"
| "lwip_err_to_errno ERR_ARG = EINVAL"

type_synonym pcb = nat

record accept_queue =
  aq_pending :: "pcb option list"
  aq_head :: nat
  aq_tail :: nat

record socket =
  sk_tpcb :: "pcb option"
  sk_state :: socket_state
  sk_last_error :: int
  sk_rx_buf :: "nat \<Rightarrow> u8"
  sk_rx_head :: nat
  sk_rx_len :: nat
  sk_accept :: accept_queue

record 'w tcp =
  tcp_sockets :: "socket list"
  tcp_refcount :: "int list"
  tcp_world :: 'w

datatype sem = Accept_sem nat | Connect_sem nat | Recv_sem nat | Send_sem nat

text \<open>\<open>lw_wait\<close> waits on a semaphore until it is signalled; it is \<open>None\<close> when that never happens.\<close>

record 'w lwip =
  lw_new :: "'w \<Rightarrow> pcb option \<times> 'w"
  lw_keepalive :: "pcb \<Rightarrow> 'w \<Rightarrow> 'w"
  lw_arg :: "pcb option \<Rightarrow> nat option \<Rightarrow> 'w \<Rightarrow> 'w"
  lw_err :: "pcb option \<Rightarrow> 'w \<Rightarrow> 'w"
  lw_sent :: "pcb option \<Rightarrow> 'w \<Rightarrow> 'w"
  lw_recv :: "pcb option \<Rightarrow> 'w \<Rightarrow> 'w"
  lw_accept :: "pcb option \<Rightarrow> 'w \<Rightarrow> 'w"
  lw_connect :: "pcb option \<Rightarrow> u32 \<Rightarrow> u16 \<Rightarrow> 'w \<Rightarrow> lwip_err \<times> 'w"
  lw_close :: "pcb option \<Rightarrow> 'w \<Rightarrow> lwip_err \<times> 'w"
  lw_abort :: "pcb option \<Rightarrow> 'w \<Rightarrow> 'w"
  lw_sndbuf :: "pcb \<Rightarrow> 'w \<Rightarrow> u16"
  lw_write :: "pcb option \<Rightarrow> u8 list \<Rightarrow> 'w \<Rightarrow> lwip_err \<times> 'w"
  lw_output :: "pcb option \<Rightarrow> 'w \<Rightarrow> lwip_err \<times> 'w"
  lw_recved :: "pcb option \<Rightarrow> u16 \<Rightarrow> 'w \<Rightarrow> 'w"
  lw_listen :: "pcb option \<Rightarrow> u8 \<Rightarrow> 'w \<Rightarrow> pcb option \<times> 'w"
  lw_listening :: "pcb \<Rightarrow> 'w \<Rightarrow> bool"
  lw_bind :: "pcb option \<Rightarrow> u32 \<Rightarrow> u16 \<Rightarrow> 'w \<Rightarrow> lwip_err \<times> 'w"
  lw_local :: "pcb \<Rightarrow> 'w \<Rightarrow> u32 \<times> u16"
  lw_remote :: "pcb \<Rightarrow> 'w \<Rightarrow> u32 \<times> u16"
  lw_has_addr :: "u32 \<Rightarrow> 'w \<Rightarrow> bool"
  lw_pbuf_free :: "nat \<Rightarrow> 'w \<Rightarrow> 'w"
  lw_tx_free_empty :: "'w \<Rightarrow> bool"
  lw_sem_init :: "sem \<Rightarrow> 'w \<Rightarrow> 'w"
  lw_sem_idle :: "sem \<Rightarrow> 'w \<Rightarrow> bool"
  lw_sem_signal :: "sem \<Rightarrow> 'w \<Rightarrow> 'w"
  lw_wait :: "sem \<Rightarrow> 'w tcp \<Rightarrow> 'w tcp option"

definition on_world :: "('w \<Rightarrow> 'w) \<Rightarrow> 'w tcp \<Rightarrow> 'w tcp" where
  "on_world f st = st\<lparr>tcp_world := f (tcp_world st)\<rparr>"

text \<open>An operation of lwIP that gives a result.\<close>

definition ask :: "('w \<Rightarrow> 'a \<times> 'w) \<Rightarrow> 'w tcp \<Rightarrow> 'a \<times> 'w tcp" where
  "ask f st = (fst (f (tcp_world st)), st\<lparr>tcp_world := snd (f (tcp_world st))\<rparr>)"

definition socket_at :: "nat \<Rightarrow> 'w tcp \<Rightarrow> socket option" where
  "socket_at i st = (if i < length (tcp_sockets st) then Some (tcp_sockets st ! i) else None)"

definition set_socket :: "nat \<Rightarrow> socket \<Rightarrow> 'w tcp \<Rightarrow> 'w tcp" where
  "set_socket i s st = st\<lparr>tcp_sockets := (tcp_sockets st)[i := s]\<rparr>"

text \<open>What the socket is at this moment, in the condition of a loop.\<close>

definition state_is :: "nat \<Rightarrow> socket_state \<Rightarrow> 'w tcp \<Rightarrow> bool" where
  "state_is i k st \<longleftrightarrow> sk_state (tcp_sockets st ! i) = k"

text \<open>\<open>if (!microkit_cothread_semaphore_is_queue_empty(sem)) microkit_cothread_semaphore_signal(sem);\<close>\<close>

definition wake :: "'w lwip \<Rightarrow> sem \<Rightarrow> 'w tcp \<Rightarrow> 'w tcp" where
  "wake L s st = (if lw_sem_idle L s (tcp_world st) then st else on_world (lw_sem_signal L s) st)"

subsection \<open>Callbacks\<close>

definition socket_err_func :: "'w lwip \<Rightarrow> nat option \<Rightarrow> lwip_err \<Rightarrow> 'w tcp \<Rightarrow> 'w tcp option" where
  "socket_err_func L arg err st = (case arg of
      None \<Rightarrow> Some st
    | Some i \<Rightarrow> do {
        s \<leftarrow> socket_at i st;
        let st = set_socket i (s\<lparr>sk_state := socket_state_error, sk_last_error := lwip_err_to_errno err\<rparr>) st;
        Some (if sk_state s = socket_state_connecting then wake L (Connect_sem i) st else st)
      })"

definition store_bytes :: "(nat \<Rightarrow> u8) \<Rightarrow> nat \<Rightarrow> u8 list \<Rightarrow> nat \<Rightarrow> u8" where
  "store_bytes buf pos xs = (\<lambda>i. if pos \<le> i \<and> i < pos + length xs then xs ! (i - pos) else buf i)"

text \<open>The loop that copies a packet buffer into the ring. It would not end if nothing could be copied.\<close>

function rx_copy :: "u8 list \<Rightarrow> socket \<Rightarrow> socket option" where
  "rx_copy data s =
     (if data = [] then Some s
      else let rx_tail = (sk_rx_head s + sk_rx_len s) mod SOCKET_BUF_SIZE;
               to_copy = min (length data) (SOCKET_BUF_SIZE - max (sk_rx_len s) rx_tail)
           in if to_copy = 0 then None
              else rx_copy (drop to_copy data)
                     (s\<lparr>sk_rx_buf := store_bytes (sk_rx_buf s) rx_tail (take to_copy data),
                        sk_rx_len := sk_rx_len s + to_copy\<rparr>))"
  by pat_completeness auto
termination by (relation "measure (length \<circ> fst)") (auto simp: Let_def)

declare rx_copy.simps [simp del]

text \<open>A packet buffer is its number with its bytes. The result is the error that is returned to lwIP.\<close>

definition socket_recv_callback :: "'w lwip \<Rightarrow> nat option \<Rightarrow> pcb option \<Rightarrow> (nat \<times> u8 list) option \<Rightarrow> 'w tcp
    \<Rightarrow> (int \<times> 'w tcp) option" where
  "socket_recv_callback L arg tpcb p st = do {
     i \<leftarrow> arg;
     s \<leftarrow> socket_at i st;
     if sk_state s = socket_state_connected then
       (case p of
          Some (pb, data) \<Rightarrow>
            if SOCKET_BUF_SIZE < sk_rx_len s + length data then Some (- ENOMEM, st)
            else do {
              s \<leftarrow> rx_copy data s;
              Some (0, wake L (Recv_sem i) (on_world (lw_pbuf_free L pb) (set_socket i s st)))
            }
        | None \<Rightarrow>
            let st = set_socket i (s\<lparr>sk_state := socket_state_closed_by_peer\<rparr>) st;
                st = snd (ask (lw_close L tpcb) st);
                st = on_world (lw_arg L (sk_tpcb s) None) st
            in Some (0, wake L (Recv_sem i) st))
     else if sk_state s = socket_state_allocated \<or> sk_state s = socket_state_closing then
       (case p of
          Some (pb, data) \<Rightarrow> Some (0, on_world (lw_pbuf_free L pb) st)
        | None \<Rightarrow> Some (0, set_socket i (s\<lparr>sk_tpcb := None, sk_state := socket_state_unallocated, sk_rx_head := 0,
                                         sk_rx_len := 0\<rparr>) (on_world (lw_arg L (sk_tpcb s) None) st)))
     else None
   }"

definition socket_sent_callback :: "'w lwip \<Rightarrow> nat option \<Rightarrow> 'w tcp \<Rightarrow> (int \<times> 'w tcp) option" where
  "socket_sent_callback L arg st = do {
     i \<leftarrow> arg;
     Some (0, wake L (Send_sem i) st)
   }"

definition socket_connected :: "'w lwip \<Rightarrow> nat option \<Rightarrow> pcb \<Rightarrow> 'w tcp \<Rightarrow> (int \<times> 'w tcp) option" where
  "socket_connected L arg tpcb st = do {
     i \<leftarrow> arg;
     s \<leftarrow> socket_at i st;
     c_assert (sk_state s = socket_state_connecting);
     let st = set_socket i (s\<lparr>sk_state := socket_state_connected\<rparr>) st;
     let st = on_world (lw_sent L (Some tpcb)) st;
     let st = on_world (lw_recv L (Some tpcb)) st;
     let st = on_world (lw_keepalive L tpcb) st;
     Some (0, wake L (Connect_sem i) st)
   }"

definition tcp_socket_accept_cb :: "'w lwip \<Rightarrow> nat option \<Rightarrow> pcb option \<Rightarrow> lwip_err \<Rightarrow> 'w tcp \<Rightarrow> (int \<times> 'w tcp) option" where
  "tcp_socket_accept_cb L arg newpcb err st = do {
     i \<leftarrow> arg;
     s \<leftarrow> socket_at i st;
     c_assert (sk_state s = socket_state_listening);
     if err \<noteq> ERR_OK then Some (- lwip_err_to_errno err, st)
     else let q = sk_accept s; next_head = (aq_head q + 1) mod MAX_LISTEN_BACKLOG
          in if next_head = aq_tail q then Some (- ENOMEM, wake L (Accept_sem i) (snd (ask (lw_close L newpcb) st)))
             else Some (0, wake L (Accept_sem i)
               (set_socket i (s\<lparr>sk_accept := q\<lparr>aq_pending := (aq_pending q)[aq_head q := newpcb], aq_head := next_head\<rparr>\<rparr>) st))
   }"

subsection \<open>Operations\<close>

definition socket_allocate :: "'w tcp \<Rightarrow> (int \<times> 'w tcp) option" where
  "socket_allocate st = (case find_index (\<lambda>s. sk_state s = socket_state_unallocated) (tcp_sockets st) of
      None \<Rightarrow> Some (- ENOMEM, st)
    | Some i \<Rightarrow> let s = tcp_sockets st ! i in do {
        c_assert (sk_tpcb s = None);
        c_assert (sk_rx_head s = 0);
        c_assert (sk_rx_len s = 0);
        Some (int i, set_socket i (s\<lparr>sk_state := socket_state_allocated\<rparr>) st)
      })"

definition add_refcount :: "nat \<Rightarrow> int \<Rightarrow> 'w tcp \<Rightarrow> 'w tcp" where
  "add_refcount i n st = st\<lparr>tcp_refcount := (tcp_refcount st)[i := tcp_refcount st ! i + n]\<rparr>"

definition tcp_socket_init :: "'w lwip \<Rightarrow> nat \<Rightarrow> 'w tcp \<Rightarrow> (int \<times> 'w tcp) option" where
  "tcp_socket_init L i st = do {
     s \<leftarrow> socket_at i st;
     c_assert (sk_state s = socket_state_allocated);
     let (tpcb, st) = ask (lw_new L) st;
     let s = s\<lparr>sk_tpcb := tpcb\<rparr>;
     case tpcb of
       None \<Rightarrow> Some (- ENOMEM, set_socket i s st)
     | Some p \<Rightarrow>
         let st = on_world (lw_keepalive L p) st;
             st = set_socket i (s\<lparr>sk_accept := (sk_accept s)\<lparr>aq_head := 0, aq_tail := 0\<rparr>\<rparr>) st;
             st = on_world (lw_sem_init L (Accept_sem i)) st;
             st = on_world (lw_sem_init L (Connect_sem i)) st;
             st = on_world (lw_sem_init L (Recv_sem i)) st;
             st = on_world (lw_sem_init L (Send_sem i)) st;
             st = on_world (lw_err L tpcb) st;
             st = on_world (lw_arg L tpcb (Some i)) st
         in Some (0, add_refcount i 1 st)
   }"

definition tcp_socket_connect :: "'w lwip \<Rightarrow> nat \<Rightarrow> u32 \<Rightarrow> u16 \<Rightarrow> u32 \<Rightarrow> 'w tcp \<Rightarrow> (int \<times> 'w tcp) option" where
  "tcp_socket_connect L i addr port flags st = do {
     s \<leftarrow> socket_at i st;
     if sk_state s = socket_state_connected then Some (- EISCONN, st)
     else if sk_state s = socket_state_connecting then Some (- EALREADY, st)
     else if sk_state s \<noteq> socket_state_bound \<and> sk_state s \<noteq> socket_state_allocated then Some (- EINVAL, st)
     else
       let st = set_socket i (s\<lparr>sk_state := socket_state_connecting\<rparr>) st;
           (err, st) = ask (lw_connect L (sk_tpcb s) addr port) st
       in if err \<noteq> ERR_OK then Some (- lwip_err_to_errno err, st)
          else if has_flag flags O_NONBLOCK then Some (- EINPROGRESS, st)
          else do {
            st \<leftarrow> while_opt (state_is i socket_state_connecting) (lw_wait L (Connect_sem i)) st;
            Some (if state_is i socket_state_connected st then 0 else - ECONNREFUSED, st)
          }
   }"

definition tcp_socket_close_int :: "'w lwip \<Rightarrow> nat \<Rightarrow> 'w tcp \<Rightarrow> (int \<times> 'w tcp) option" where
  "tcp_socket_close_int L i st = do {
     s \<leftarrow> socket_at i st;
     let freed = s\<lparr>sk_tpcb := None, sk_state := socket_state_unallocated, sk_rx_head := 0, sk_rx_len := 0\<rparr>;
     if sk_state s = socket_state_listening \<or> sk_state s = socket_state_connected then
       let st = set_socket i (s\<lparr>sk_state := socket_state_closing\<rparr>) st;
           (err, st) = ask (lw_close L (sk_tpcb s)) st
       in Some (if err \<noteq> ERR_OK then - lwip_err_to_errno err else 0, st)
     else if sk_state s = socket_state_connecting then
       let st = on_world (lw_arg L (sk_tpcb s) None) st;
           st = on_world (lw_abort L (sk_tpcb s)) st
       in Some (0, set_socket i freed st)
     else if sk_state s = socket_state_allocated \<or> sk_state s = socket_state_bound
         \<or> sk_state s = socket_state_error \<or> sk_state s = socket_state_closed_by_peer then
       Some (0, set_socket i freed st)
     else None
   }"

definition tcp_socket_close :: "'w lwip \<Rightarrow> nat \<Rightarrow> 'w tcp \<Rightarrow> (int \<times> 'w tcp) option" where
  "tcp_socket_close L i st = do {
     c_assert (i < length (tcp_refcount st));
     let st = add_refcount i (- 1) st;
     if tcp_refcount st ! i = 0 then tcp_socket_close_int L i st else Some (0, st)
   }"

definition tcp_socket_dup :: "nat \<Rightarrow> 'w tcp \<Rightarrow> (int \<times> 'w tcp) option" where
  "tcp_socket_dup i st = do {
     c_assert (i < length (tcp_refcount st));
     c_assert (tcp_refcount st ! i > 0);
     Some (0, add_refcount i 1 st)
   }"

text \<open>The room in the send buffer, \<open>tcp_sndbuf\<close>; the pointer to the connection must not be null.\<close>

definition sndbuf :: "'w lwip \<Rightarrow> nat \<Rightarrow> 'w tcp \<Rightarrow> nat option" where
  "sndbuf L i st = do {
     p \<leftarrow> sk_tpcb (tcp_sockets st ! i);
     Some (unat (lw_sndbuf L p (tcp_world st)))
   }"

text \<open>The room is a number of 16 bits in lwIP, so that what \<open>tcp_socket_write\<close> passes on fits into its parameter.\<close>

lemma sndbuf_bounded: "sndbuf L i st = Some room \<Longrightarrow> room \<le> USHRT_MAX"
  using unsigned_less [where 'b = 16] by (auto simp: sndbuf_def USHRT_MAX_def bind_eq_Some_conv less_Suc_eq_le [symmetric])

text \<open>The loop that waits for room in the send buffer tests the pointer in its condition.\<close>

definition wait_sndbuf :: "'w lwip \<Rightarrow> nat \<Rightarrow> 'w tcp \<Rightarrow> 'w tcp option" where
  "wait_sndbuf L i = while_opt
     (\<lambda>st. sndbuf L i st = None \<or> (sndbuf L i st = Some 0 \<and> state_is i socket_state_connected st))
     (\<lambda>st. if sndbuf L i st = None then None else lw_wait L (Send_sem i) st)"

definition tcp_socket_write :: "'w lwip \<Rightarrow> nat \<Rightarrow> u8 list \<Rightarrow> u32 \<Rightarrow> 'w tcp \<Rightarrow> (int \<times> 'w tcp) option" where
  "tcp_socket_write L i buf flags st = do {
     s \<leftarrow> socket_at i st;
     if sk_state s = socket_state_connecting \<and> has_flag flags O_NONBLOCK then Some (- EAGAIN, st)
     else if sk_state s \<noteq> socket_state_connected then
       Some (if sk_state s = socket_state_error
             then (if sk_last_error s \<noteq> 0 then - sk_last_error s else - ENOTCONN) else - ENOTCONN, st)
     else do {
       room \<leftarrow> sndbuf L i st;
       if room = 0 \<and> has_flag flags O_NONBLOCK then Some (- EAGAIN, st)
       else do {
         st \<leftarrow> if room = 0 then wait_sndbuf L i st else Some st;
         room \<leftarrow> sndbuf L i st;
         let to_write = min (length buf) room;
         let tpcb = sk_tpcb (tcp_sockets st ! i);
         c_assert (to_write \<le> USHRT_MAX);
         let (err, st) = ask (lw_write L tpcb (take to_write buf)) st;
         if err \<noteq> ERR_OK then Some (- lwip_err_to_errno err, st)
         else
           let (err, st) = ask (lw_output L tpcb) st
           in Some (if err \<noteq> ERR_OK then - lwip_err_to_errno err else int to_write, st)
       }
     }
   }"

text \<open>The loop that takes bytes out of the ring: what was copied, and the socket.\<close>

function rx_take :: "nat \<Rightarrow> u8 list \<Rightarrow> socket \<Rightarrow> u8 list \<times> socket" where
  "rx_take len copied s =
     (if length copied = len then (copied, s)
      else let to_copy = min (len - length copied) (min (sk_rx_len s) (SOCKET_BUF_SIZE - sk_rx_head s))
           in if to_copy = 0 then (copied, s)
              else rx_take len (copied @ map (sk_rx_buf s) [sk_rx_head s..<sk_rx_head s + to_copy])
                     (s\<lparr>sk_rx_head := (sk_rx_head s + to_copy) mod SOCKET_BUF_SIZE, sk_rx_len := sk_rx_len s - to_copy\<rparr>))"
  by pat_completeness auto
termination by (relation "measure (\<lambda>(len, copied, s). sk_rx_len s)") (auto simp: Let_def)

declare rx_take.simps [simp del]

text \<open>The bytes that \<open>recv\<close> puts into the buffer of the caller are part of the result.\<close>

definition tcp_socket_recv :: "'w lwip \<Rightarrow> nat \<Rightarrow> nat \<Rightarrow> u32 \<Rightarrow> 'w tcp \<Rightarrow> (int \<times> u8 list \<times> 'w tcp) option" where
  "tcp_socket_recv L i len flags st = do {
     s \<leftarrow> socket_at i st;
     if sk_state s \<noteq> socket_state_connected then Some (- ENOTCONN, [], st)
     else if sk_rx_len s = 0 \<and> has_flag flags O_NONBLOCK then Some (- EAGAIN, [], st)
     else do {
       st \<leftarrow> if sk_rx_len s = 0
         then while_opt (\<lambda>st. sk_rx_len (tcp_sockets st ! i) = 0 \<and> state_is i socket_state_connected st)
                (lw_wait L (Recv_sem i)) st
         else Some st;
       let (copied, s) = rx_take len [] (tcp_sockets st ! i);
       let st = set_socket i s st;
       Some (int (length copied), copied, on_world (lw_recved L (sk_tpcb s) (of_nat (length copied))) st)
     }
   }"

definition tcp_socket_readable :: "nat \<Rightarrow> 'w tcp \<Rightarrow> int option" where
  "tcp_socket_readable i st = do {
     s \<leftarrow> socket_at i st;
     Some (if sk_state s = socket_state_listening
           then (if aq_head (sk_accept s) \<noteq> aq_tail (sk_accept s) then 1 else 0) else int (sk_rx_len s))
   }"

definition tcp_socket_writable :: "'w lwip \<Rightarrow> nat \<Rightarrow> 'w tcp \<Rightarrow> int option" where
  "tcp_socket_writable L i st = Some (if lw_tx_free_empty L (tcp_world st) then 0 else 1)"

definition tcp_socket_hup :: "nat \<Rightarrow> 'w tcp \<Rightarrow> int option" where
  "tcp_socket_hup i st = do {
     s \<leftarrow> socket_at i st;
     Some (if sk_state s = socket_state_closed_by_peer then 1 else 0)
   }"

definition tcp_socket_err :: "nat \<Rightarrow> 'w tcp \<Rightarrow> int option" where
  "tcp_socket_err i st = do {
     s \<leftarrow> socket_at i st;
     Some (if sk_state s = socket_state_error then (if sk_last_error s \<noteq> 0 then sk_last_error s else ECONNRESET) else 0)
   }"

text \<open>The backlog is an \<open>int\<close> that lwIP takes as a byte.\<close>

definition tcp_socket_listen :: "'w lwip \<Rightarrow> nat \<Rightarrow> int \<Rightarrow> 'w tcp \<Rightarrow> (int \<times> 'w tcp) option" where
  "tcp_socket_listen L i backlog st = do {
     s \<leftarrow> socket_at i st;
     let (newpcb, st) = ask (lw_listen L (sk_tpcb s) (of_int backlog)) st;
     p \<leftarrow> newpcb;
     let st = set_socket i (s\<lparr>sk_tpcb := newpcb, sk_state := socket_state_listening\<rparr>) st;
     c_assert (lw_listening L p (tcp_world st));
     Some (0, on_world (lw_accept L newpcb) st)
   }"

definition tcp_socket_accept :: "'w lwip \<Rightarrow> nat \<Rightarrow> u32 \<Rightarrow> 'w tcp \<Rightarrow> (int \<times> 'w tcp) option" where
  "tcp_socket_accept L i flags st = do {
     s \<leftarrow> socket_at i st;
     if sk_state s \<noteq> socket_state_listening then Some (- EINVAL, st)
     else
       let q = sk_accept s
       in if aq_head q = aq_tail q \<and> has_flag flags O_NONBLOCK then Some (- EAGAIN, st)
          else do {
            st \<leftarrow> if aq_head q = aq_tail q then lw_wait L (Accept_sem i) st else Some st;
            let s = tcp_sockets st ! i;
            let q = sk_accept s;
            if aq_head q = aq_tail q then Some (- ENOMEM, st)
            else do {
              let new_conn = aq_pending q ! aq_tail q;
              let st = set_socket i (s\<lparr>sk_accept := q\<lparr>aq_tail := (aq_tail q + 1) mod MAX_LISTEN_BACKLOG\<rparr>\<rparr>) st;
              (new_index, st) \<leftarrow> socket_allocate st;
              if new_index < 0 then Some (new_index, snd (ask (lw_close L new_conn) st))
              else
                let j = nat new_index;
                    st = set_socket j ((tcp_sockets st ! j)\<lparr>sk_tpcb := new_conn, sk_state := socket_state_connected\<rparr>) st;
                    st = on_world (lw_err L new_conn) st;
                    st = on_world (lw_arg L new_conn (Some j)) st;
                    st = on_world (lw_sent L new_conn) st;
                    st = on_world (lw_recv L new_conn) st;
                    st = on_world (lw_sem_init L (Recv_sem j)) st;
                    st = on_world (lw_sem_init L (Send_sem j)) st
                in Some (new_index, add_refcount j 1 st)
            }
          }
   }"

text \<open>\<open>INADDR_ANY\<close> is 0.\<close>

definition tcp_socket_bind :: "'w lwip \<Rightarrow> nat \<Rightarrow> u32 \<Rightarrow> u16 \<Rightarrow> 'w tcp \<Rightarrow> (int \<times> 'w tcp) option" where
  "tcp_socket_bind L i addr port st = do {
     s \<leftarrow> socket_at i st;
     if sk_state s \<noteq> socket_state_allocated then Some (- EINVAL, st)
     else if addr \<noteq> 0 \<and> \<not> lw_has_addr L addr (tcp_world st) then Some (- EADDRNOTAVAIL, st)
     else
       let (err, st) = ask (lw_bind L (sk_tpcb s) addr port) st
       in if err \<noteq> ERR_OK then Some (- lwip_err_to_errno err, st)
          else Some (0, set_socket i (s\<lparr>sk_state := socket_state_bound\<rparr>) st)
   }"

text \<open>The results of the next two come with the address and the port that they store, if they do.\<close>

definition tcp_socket_getsockname :: "'w lwip \<Rightarrow> nat \<Rightarrow> 'w tcp \<Rightarrow> (int \<times> (u32 \<times> u16) option) option" where
  "tcp_socket_getsockname L i st = do {
     s \<leftarrow> socket_at i st;
     if sk_state s \<noteq> socket_state_connected \<and> sk_state s \<noteq> socket_state_bound then Some (- ENOTCONN, None)
     else do {
       p \<leftarrow> sk_tpcb s;
       Some (0, Some (lw_local L p (tcp_world st)))
     }
   }"

definition tcp_socket_getpeername :: "'w lwip \<Rightarrow> nat \<Rightarrow> 'w tcp \<Rightarrow> (int \<times> (u32 \<times> u16) option) option" where
  "tcp_socket_getpeername L i st = do {
     s \<leftarrow> socket_at i st;
     if sk_state s \<noteq> socket_state_connected then Some (- ENOTCONN, None)
     else do {
       p \<leftarrow> sk_tpcb s;
       Some (0, Some (lw_remote L p (tcp_world st)))
     }
   }"

end
