(* ===== verification/Px_Sock.thy ===== *)
theory Px_Sock
  imports Px_Fd Px_Tcp
begin

text \<open>
  \<open>lib/libc/posix/sock.c\<close>: the system calls on sockets, over a record of functions that the component provides
  (\<open>libc_socket_config_t\<close>), and the record that \<open>lib/sock/tcp.c\<close> provides. What a caller passes by address is an option,
  \<open>None\<close> for the null pointer; what a call stores through an address is part of its result.
\<close>

subsection \<open>The socket library\<close>

text \<open>The functions get the number of a socket. The last five may be missing in a configuration: the calls that use them are then not
  defined (\<open>libc_init_sock\<close>), and \<open>getsockopt\<close> tests \<open>tcp_socket_err\<close>.\<close>

record 's socket_config =
  sc_socket_allocate :: "'s \<Rightarrow> (int \<times> 's) option"
  sc_tcp_socket_init :: "nat \<Rightarrow> 's \<Rightarrow> (int \<times> 's) option"
  sc_tcp_socket_connect :: "nat \<Rightarrow> u32 \<Rightarrow> u16 \<Rightarrow> u32 \<Rightarrow> 's \<Rightarrow> (int \<times> 's) option"
  sc_tcp_socket_close :: "nat \<Rightarrow> 's \<Rightarrow> (int \<times> 's) option"
  sc_tcp_socket_dup :: "nat \<Rightarrow> 's \<Rightarrow> (int \<times> 's) option"
  sc_tcp_socket_write :: "nat \<Rightarrow> u8 list \<Rightarrow> u32 \<Rightarrow> 's \<Rightarrow> (int \<times> 's) option"
  sc_tcp_socket_recv :: "nat \<Rightarrow> nat \<Rightarrow> u32 \<Rightarrow> 's \<Rightarrow> (int \<times> u8 list \<times> 's) option"
  sc_tcp_socket_readable :: "nat \<Rightarrow> 's \<Rightarrow> int option"
  sc_tcp_socket_writable :: "nat \<Rightarrow> 's \<Rightarrow> int option"
  sc_tcp_socket_hup :: "nat \<Rightarrow> 's \<Rightarrow> int option"
  sc_tcp_socket_err :: "nat \<Rightarrow> 's \<Rightarrow> int option"
  sc_tcp_socket_listen :: "nat \<Rightarrow> int \<Rightarrow> 's \<Rightarrow> (int \<times> 's) option"
  sc_tcp_socket_accept :: "nat \<Rightarrow> u32 \<Rightarrow> 's \<Rightarrow> (int \<times> 's) option"
  sc_tcp_socket_bind :: "nat \<Rightarrow> u32 \<Rightarrow> u16 \<Rightarrow> 's \<Rightarrow> (int \<times> 's) option"
  sc_tcp_socket_getsockname :: "nat \<Rightarrow> 's \<Rightarrow> (int \<times> (u32 \<times> u16) option) option"
  sc_tcp_socket_getpeername :: "nat \<Rightarrow> 's \<Rightarrow> (int \<times> (u32 \<times> u16) option) option"

text \<open>\<open>socket_config\<close> of \<open>lib/sock/tcp.c\<close>.\<close>

definition tcp_config :: "'w lwip \<Rightarrow> 'w tcp socket_config" where
  "tcp_config L = \<lparr>
     sc_socket_allocate = socket_allocate,
     sc_tcp_socket_init = tcp_socket_init L,
     sc_tcp_socket_connect = tcp_socket_connect L,
     sc_tcp_socket_close = tcp_socket_close L,
     sc_tcp_socket_dup = tcp_socket_dup,
     sc_tcp_socket_write = tcp_socket_write L,
     sc_tcp_socket_recv = tcp_socket_recv L,
     sc_tcp_socket_readable = tcp_socket_readable,
     sc_tcp_socket_writable = tcp_socket_writable L,
     sc_tcp_socket_hup = tcp_socket_hup,
     sc_tcp_socket_err = tcp_socket_err,
     sc_tcp_socket_listen = tcp_socket_listen L,
     sc_tcp_socket_accept = tcp_socket_accept L,
     sc_tcp_socket_bind = tcp_socket_bind L,
     sc_tcp_socket_getsockname = tcp_socket_getsockname L,
     sc_tcp_socket_getpeername = tcp_socket_getpeername L\<rparr>"

text \<open>The number of the socket of a descriptor; a negative one is no socket, and no access to the tables.\<close>

definition socket_handle :: "int \<Rightarrow> ('s, 'q) posix \<Rightarrow> nat option" where
  "socket_handle fd st = (let h = px_fd_socket st ! nat fd in if h < 0 then None else Some (nat h))"

definition with_sock :: "('s \<Rightarrow> (int \<times> 's) option) \<Rightarrow> ('s, 'q) posix \<Rightarrow> (int \<times> ('s, 'q) posix) option" where
  "with_sock f st = do {
     (r, s) \<leftarrow> f (px_sock st);
     Some (r, st\<lparr>px_sock := s\<rparr>)
   }"

subsection \<open>Functions of an entry\<close>

definition sock_write :: "'s socket_config \<Rightarrow> u8 list \<Rightarrow> int \<Rightarrow> ('s, 'q) posix \<Rightarrow> (int \<times> ('s, 'q) posix) option" where
  "sock_write C buf fd st = (case posix_fd_entry fd st of
      None \<Rightarrow> Some (- EBADF, st)
    | Some e \<Rightarrow> do {
        h \<leftarrow> socket_handle fd st;
        with_sock (sc_tcp_socket_write C h buf (fe_flags e)) st
      })"

definition sock_read :: "'s socket_config \<Rightarrow> nat \<Rightarrow> int \<Rightarrow> ('s, 'q) posix \<Rightarrow> (int \<times> u8 list \<times> ('s, 'q) posix) option" where
  "sock_read C len fd st = (case posix_fd_entry fd st of
      None \<Rightarrow> Some (- EBADF, [], st)
    | Some e \<Rightarrow> do {
        h \<leftarrow> socket_handle fd st;
        (r, bs, s) \<leftarrow> sc_tcp_socket_recv C h len (fe_flags e) (px_sock st);
        Some (r, bs, st\<lparr>px_sock := s\<rparr>)
      })"

definition sock_close :: "'s socket_config \<Rightarrow> int \<Rightarrow> ('s, 'q) posix \<Rightarrow> (int \<times> ('s, 'q) posix) option" where
  "sock_close C fd st = do {
     h \<leftarrow> socket_handle fd st;
     let st = snd (posix_fd_deallocate fd st);
     let st = st\<lparr>px_fd_socket := (px_fd_socket st)[nat fd := - 1]\<rparr>;
     with_sock (sc_tcp_socket_close C h) st
   }"

definition sock_dup3 :: "'s socket_config \<Rightarrow> int \<Rightarrow> int \<Rightarrow> ('s, 'q) posix \<Rightarrow> (int \<times> ('s, 'q) posix) option" where
  "sock_dup3 C oldfd newfd st = do {
     h \<leftarrow> socket_handle oldfd st;
     with_sock (sc_tcp_socket_dup C h) (st\<lparr>px_fd_socket := (px_fd_socket st)[nat newfd := int h]\<rparr>)
   }"

text \<open>Of the status of a socket, only the mode is stored.\<close>

definition S_IFSOCK :: u64 where "S_IFSOCK = 0xC000"

definition sock_fstat :: "fs_stat \<Rightarrow> int \<times> fs_stat" where
  "sock_fstat statbuf = (0, statbuf\<lparr>st_mode := S_IFSOCK OR 0x1FF\<rparr>)"

subsection \<open>System calls\<close>

definition AF_INET :: int where "AF_INET = 2"
definition SOCK_STREAM :: int where "SOCK_STREAM = 1"
definition SOL_SOCKET :: int where "SOL_SOCKET = 1"
definition SO_ERROR :: int where "SO_ERROR = 4"
definition SO_LINGER :: int where "SO_LINGER = 13"
definition MSG_DONTWAIT :: u32 where "MSG_DONTWAIT = 0x40"
definition sizeof_linger :: nat where "sizeof_linger = 8"
definition sizeof_sockaddr_in :: nat where "sizeof_sockaddr_in = 16"

record sockaddr_in =
  sin_family :: int
  sin_port :: u16
  sin_addr :: u32

definition no_socket :: "int \<Rightarrow> ('s, 'q) posix \<Rightarrow> bool" where
  "no_socket fd st \<longleftrightarrow> px_fd_socket st ! nat fd = - 1"

definition sys_setsockopt :: "int \<Rightarrow> int \<Rightarrow> int \<Rightarrow> bool \<Rightarrow> nat \<Rightarrow> ('s, 'q) posix \<Rightarrow> int" where
  "sys_setsockopt sockfd level optname optval_given optlen st =
     (if posix_fd_entry sockfd st = None then - EBADF
      else if level = SOL_SOCKET \<and> optname = SO_LINGER then
        (if \<not> optval_given \<or> optlen < sizeof_linger then - EINVAL else 0)
      else - ENOPROTOOPT)"

text \<open>The result comes with the number that is stored and the length of it. The library is one that has a function
  \<open>tcp_socket_err\<close>, as that of \<open>tcp.c\<close> does; without one the code stores 0.\<close>

definition sys_getsockopt :: "'s socket_config \<Rightarrow> int \<Rightarrow> int \<Rightarrow> int \<Rightarrow> bool \<Rightarrow> nat option \<Rightarrow> ('s, 'q) posix
    \<Rightarrow> (int \<times> (int \<times> nat) option) option" where
  "sys_getsockopt C sockfd level optname optval_given optlen st =
     (if posix_fd_entry sockfd st = None then Some (- EBADF, None)
      else if no_socket sockfd st then Some (- ENOTSOCK, None)
      else if level = SOL_SOCKET \<and> optname = SO_ERROR then
        (case optlen of
           None \<Rightarrow> Some (- EFAULT, None)
         | Some len \<Rightarrow>
             if \<not> optval_given then Some (- EFAULT, None)
             else if len < 4 then Some (- EINVAL, None)
             else do {
               h \<leftarrow> socket_handle sockfd st;
               err \<leftarrow> sc_tcp_socket_err C h (px_sock st);
               Some (0, Some (err, 4))
             })
      else Some (- ENOPROTOOPT, None))"

definition socket_entry :: fd_entry where
  "socket_entry = \<lparr>fe_write = Some Sock, fe_read = Some Sock, fe_close = Some Sock, fe_dup3 = Some Sock,
     fe_fstat = Some Sock, fe_flags = O_RDWR, fe_file_ptr = 0\<rparr>"

definition sys_socket :: "'s socket_config \<Rightarrow> int \<Rightarrow> int \<Rightarrow> ('s, 'q) posix \<Rightarrow> (int \<times> ('s, 'q) posix) option" where
  "sys_socket C domain type st =
     (if domain \<noteq> AF_INET then Some (- EAFNOSUPPORT, st)
      else if type \<noteq> SOCK_STREAM then Some (- ESOCKTNOSUPPORT, st)
      else let (fd, st) = posix_fd_allocate st
           in if fd < 0 then Some (- EMFILE, st)
              else do {
                c_assert (posix_fd_entry fd st \<noteq> None);
                let st = set_entry_at fd socket_entry st;
                (h, st) \<leftarrow> with_sock (sc_socket_allocate C) st;
                if h < 0 then Some (h, snd (posix_fd_deallocate fd st))
                else do {
                  (err, st) \<leftarrow> with_sock (sc_tcp_socket_init C (nat h)) st;
                  if err < 0 then do {
                    (r, st) \<leftarrow> with_sock (sc_tcp_socket_close C (nat h)) st;
                    Some (err, snd (posix_fd_deallocate fd st))
                  }
                  else Some (fd, st\<lparr>px_fd_socket := (px_fd_socket st)[nat fd := h]\<rparr>)
                }
              })"

text \<open>The checks of an address that \<open>bind\<close> and \<open>connect\<close> begin with: an error or the address and the port.\<close>

definition check_address :: "int \<Rightarrow> sockaddr_in option \<Rightarrow> nat \<Rightarrow> ('s, 'q) posix \<Rightarrow> int + (fd_entry \<times> u32 \<times> u16)" where
  "check_address fd addr addrlen st = (case posix_fd_entry fd st of
      None \<Rightarrow> Inl (- EBADF)
    | Some e \<Rightarrow>
        if no_socket fd st then Inl (- ENOTSOCK)
        else (case addr of
            None \<Rightarrow> Inl (- EFAULT)
          | Some a \<Rightarrow>
              if sin_family a \<noteq> AF_INET then Inl (- EAFNOSUPPORT)
              else if addrlen < sizeof_sockaddr_in then Inl (- EINVAL)
              else Inr (e, sin_addr a, ntohs (sin_port a))))"

definition sys_bind :: "'s socket_config \<Rightarrow> int \<Rightarrow> sockaddr_in option \<Rightarrow> nat \<Rightarrow> ('s, 'q) posix \<Rightarrow> (int \<times> ('s, 'q) posix) option" where
  "sys_bind C fd sockaddr addrlen st = (case check_address fd sockaddr addrlen st of
      Inl err \<Rightarrow> Some (err, st)
    | Inr (e, addr, port) \<Rightarrow> do {
        h \<leftarrow> socket_handle fd st;
        with_sock (sc_tcp_socket_bind C h addr port) st
      })"

definition sys_socket_connect :: "'s socket_config \<Rightarrow> int \<Rightarrow> sockaddr_in option \<Rightarrow> nat \<Rightarrow> ('s, 'q) posix
    \<Rightarrow> (int \<times> ('s, 'q) posix) option" where
  "sys_socket_connect C fd sockaddr addrlen st = (case check_address fd sockaddr addrlen st of
      Inl err \<Rightarrow> Some (err, st)
    | Inr (e, addr, port) \<Rightarrow> do {
        h \<leftarrow> socket_handle fd st;
        with_sock (sc_tcp_socket_connect C h addr port (fe_flags e)) st
      })"

definition effective_flags :: "u32 \<Rightarrow> u32 \<Rightarrow> u32" where
  "effective_flags fd_flags flags = (if has_flag flags MSG_DONTWAIT then fd_flags OR O_NONBLOCK else fd_flags)"

definition sys_sendto :: "'s socket_config \<Rightarrow> int \<Rightarrow> u8 list option \<Rightarrow> nat \<Rightarrow> u32 \<Rightarrow> ('s, 'q) posix
    \<Rightarrow> (int \<times> ('s, 'q) posix) option" where
  "sys_sendto C sockfd buf len flags st = (case buf of
      None \<Rightarrow> Some (- EFAULT, st)
    | Some bs \<Rightarrow> (case posix_fd_entry sockfd st of
          None \<Rightarrow> Some (- EBADF, st)
        | Some e \<Rightarrow>
            if no_socket sockfd st then Some (- ENOTSOCK, st)
            else do {
              h \<leftarrow> socket_handle sockfd st;
              with_sock (sc_tcp_socket_write C h (take len bs) (effective_flags (fe_flags e) flags)) st
            }))"

text \<open>The result comes with the bytes and the address that are stored. \<open>addrlen\<close> is what the caller passes by address.\<close>

definition sys_recvfrom :: "'s socket_config \<Rightarrow> int \<Rightarrow> bool \<Rightarrow> nat \<Rightarrow> u32 \<Rightarrow> bool \<Rightarrow> nat option \<Rightarrow> ('s, 'q) posix
    \<Rightarrow> (int \<times> u8 list \<times> sockaddr_in option \<times> ('s, 'q) posix) option" where
  "sys_recvfrom C sockfd buf_given len flags src_given addrlen st =
     (if \<not> buf_given then Some (- EFAULT, [], None, st)
      else case posix_fd_entry sockfd st of
          None \<Rightarrow> Some (- EBADF, [], None, st)
        | Some e \<Rightarrow>
            if no_socket sockfd st then Some (- ENOTSOCK, [], None, st)
            else do {
              h \<leftarrow> socket_handle sockfd st;
              (r, bs, s) \<leftarrow> sc_tcp_socket_recv C h len (effective_flags (fe_flags e) flags) (px_sock st);
              let st = st\<lparr>px_sock := s\<rparr>;
              case addrlen of
                None \<Rightarrow> Some (r, bs, None, st)
              | Some alen \<Rightarrow>
                  if r < 0 \<or> \<not> src_given then Some (r, bs, None, st)
                  else if alen < sizeof_sockaddr_in then Some (- EINVAL, bs, None, st)
                  else do {
                    h \<leftarrow> socket_handle sockfd st;
                    (err, name) \<leftarrow> sc_tcp_socket_getpeername C h s;
                    if err = 0 then do {
                      (addr, port) \<leftarrow> name;
                      Some (r, bs, Some \<lparr>sin_family = AF_INET, sin_port = htons port, sin_addr = addr\<rparr>, st)
                    }
                    else Some (err, bs, None, st)
                  }
            })"

definition sys_listen :: "'s socket_config \<Rightarrow> int \<Rightarrow> int \<Rightarrow> ('s, 'q) posix \<Rightarrow> (int \<times> ('s, 'q) posix) option" where
  "sys_listen C sockfd backlog st = (case posix_fd_entry sockfd st of
      None \<Rightarrow> Some (- EBADF, st)
    | Some e \<Rightarrow>
        if no_socket sockfd st then Some (- ENOTSOCK, st)
        else do {
          h \<leftarrow> socket_handle sockfd st;
          with_sock (sc_tcp_socket_listen C h backlog) st
        })"

text \<open>The error of \<open>getpeername\<close> is not looked at: when it gives no address, what is stored is undefined (\<open>None\<close>).\<close>

definition sys_accept :: "'s socket_config \<Rightarrow> int \<Rightarrow> bool \<Rightarrow> ('s, 'q) posix
    \<Rightarrow> (int \<times> sockaddr_in option \<times> ('s, 'q) posix) option" where
  "sys_accept C sockfd addr_given st = (case posix_fd_entry sockfd st of
      None \<Rightarrow> Some (- EBADF, None, st)
    | Some e \<Rightarrow>
        if no_socket sockfd st then Some (- ENOTSOCK, None, st)
        else do {
          h \<leftarrow> socket_handle sockfd st;
          (j, st) \<leftarrow> with_sock (sc_tcp_socket_accept C h (fe_flags e)) st;
          if j < 0 then Some (j, None, st)
          else
            let (fd, st) = posix_fd_allocate st
            in if fd < 0 then do {
                 (r, st) \<leftarrow> with_sock (sc_tcp_socket_close C (nat j)) st;
                 Some (- EMFILE, None, st)
               }
               else do {
                 c_assert (posix_fd_entry fd st \<noteq> None);
                 let st = set_entry_at fd socket_entry st;
                 let st = st\<lparr>px_fd_socket := (px_fd_socket st)[nat fd := j]\<rparr>;
                 if \<not> addr_given then Some (fd, None, st)
                 else do {
                   (err, name) \<leftarrow> sc_tcp_socket_getpeername C (nat j) (px_sock st);
                   (addr, port) \<leftarrow> name;
                   Some (fd, Some \<lparr>sin_family = AF_INET, sin_port = htons port, sin_addr = addr\<rparr>, st)
                 }
               }
        })"

text \<open>\<open>getsockname\<close> and \<open>getpeername\<close> differ only in the function of the socket library.\<close>

definition name_call :: "('s socket_config \<Rightarrow> nat \<Rightarrow> 's \<Rightarrow> (int \<times> (u32 \<times> u16) option) option) \<Rightarrow> 's socket_config \<Rightarrow> int \<Rightarrow> bool
    \<Rightarrow> nat option \<Rightarrow> ('s, 'q) posix \<Rightarrow> (int \<times> sockaddr_in option) option" where
  "name_call get C sockfd addr_given addrlen st =
     (if posix_fd_entry sockfd st = None then Some (- EBADF, None)
      else if no_socket sockfd st then Some (- ENOTSOCK, None)
      else case addrlen of
          None \<Rightarrow> Some (- EFAULT, None)
        | Some alen \<Rightarrow>
            if \<not> addr_given then Some (- EFAULT, None)
            else if alen < sizeof_sockaddr_in then Some (- EINVAL, None)
            else do {
              h \<leftarrow> socket_handle sockfd st;
              (err, name) \<leftarrow> get C h (px_sock st);
              if err \<noteq> 0 then Some (err, None)
              else do {
                (addr, port) \<leftarrow> name;
                Some (0, Some \<lparr>sin_family = AF_INET, sin_port = htons port, sin_addr = addr\<rparr>)
              }
            })"

definition sys_getsockname :: "'s socket_config \<Rightarrow> int \<Rightarrow> bool \<Rightarrow> nat option \<Rightarrow> ('s, 'q) posix \<Rightarrow> (int \<times> sockaddr_in option) option" where
  "sys_getsockname = name_call sc_tcp_socket_getsockname"

definition sys_getpeername :: "'s socket_config \<Rightarrow> int \<Rightarrow> bool \<Rightarrow> nat option \<Rightarrow> ('s, 'q) posix \<Rightarrow> (int \<times> sockaddr_in option) option" where
  "sys_getpeername = name_call sc_tcp_socket_getpeername"

definition POLLIN :: u16 where "POLLIN = 0x1"
definition POLLOUT :: u16 where "POLLOUT = 0x4"
definition POLLERR :: u16 where "POLLERR = 0x8"
definition POLLHUP :: u16 where "POLLHUP = 0x10"
definition POLLNVAL :: u16 where "POLLNVAL = 0x20"

record pollfd =
  pfd_fd :: int
  pfd_events :: u16
  pfd_revents :: u16

definition when_event :: "bool \<Rightarrow> u16 \<Rightarrow> u16" where
  "when_event b e = (if b then e else 0)"

text \<open>The events of one descriptor. A test of the socket library is made only when its event was asked for.\<close>

definition poll_one :: "'s socket_config \<Rightarrow> ('s, 'q) posix \<Rightarrow> pollfd \<Rightarrow> u16 option" where
  "poll_one C st p =
     (let fd = pfd_fd p; asked_in = pfd_events p AND POLLIN \<noteq> 0; asked_out = pfd_events p AND POLLOUT \<noteq> 0
      in if fd < 0 then Some 0
         else if posix_fd_entry fd st = None then Some POLLNVAL
         else if px_fd_socket st ! nat fd \<noteq> - 1 then do {
           h \<leftarrow> socket_handle fd st;
           readable \<leftarrow> if asked_in then sc_tcp_socket_readable C h (px_sock st) else Some 0;
           writable \<leftarrow> if asked_out then sc_tcp_socket_writable C h (px_sock st) else Some 0;
           hup \<leftarrow> sc_tcp_socket_hup C h (px_sock st);
           err \<leftarrow> sc_tcp_socket_err C h (px_sock st);
           Some (when_event (readable \<noteq> 0) POLLIN OR when_event (writable \<noteq> 0) POLLOUT OR when_event (hup \<noteq> 0) POLLHUP OR
             when_event (err \<noteq> 0) POLLERR)
         }
         else Some (when_event asked_in POLLIN OR when_event asked_out POLLOUT))"

fun poll_loop :: "'s socket_config \<Rightarrow> ('s, 'q) posix \<Rightarrow> pollfd list \<Rightarrow> int \<Rightarrow> (int \<times> pollfd list) option" where
  "poll_loop C st [] ready = Some (ready, [])"
| "poll_loop C st (p # ps) ready = do {
     ev \<leftarrow> poll_one C st p;
     (ready, ps) \<leftarrow> poll_loop C st ps (if ev \<noteq> 0 then ready + 1 else ready);
     Some (ready, p\<lparr>pfd_revents := ev\<rparr> # ps)
   }"

definition sys_ppoll :: "'s socket_config \<Rightarrow> pollfd list option \<Rightarrow> nat \<Rightarrow> ('s, 'q) posix \<Rightarrow> (int \<times> pollfd list) option" where
  "sys_ppoll C fds nfds st = (case fds of
      None \<Rightarrow> Some (if nfds > 0 then - EFAULT else 0, [])
    | Some ps \<Rightarrow> if nfds > MAX_FDS then Some (- EINVAL, ps) else poll_loop C st (take nfds ps) 0)"

text \<open>The initialisation leaves no descriptor with a socket.\<close>

definition libc_init_sock :: "('s, 'q) posix \<Rightarrow> ('s, 'q) posix" where
  "libc_init_sock st = st\<lparr>px_fd_socket := replicate MAX_FDS (- 1)\<rparr>"

definition socket_index_of_fd :: "int \<Rightarrow> ('s, 'q) posix \<Rightarrow> int option" where
  "socket_index_of_fd fd st = do {
     c_assert (0 \<le> fd \<and> fd < int MAX_FDS);
     c_assert (px_fd_socket st ! nat fd \<ge> 0);
     Some (px_fd_socket st ! nat fd)
   }"

end
