(* ===== verification/Px_File.thy ===== *)
theory Px_File
  imports Px_Fd
begin

text \<open>
  \<open>lib/libc/posix/file.c\<close>: the system calls on files, as requests to a file server through the client helpers
  (\<open>Fs_Helpers\<close>). What happens while a request waits is a parameter, the list of the waits of every request
  (\<open>fs_waits\<close>). Where the code does not look at the error of a request, the completion it goes on with is not
  initialised, which is \<open>None\<close>. Paths are the bytes of a string without the one that ends it.
\<close>

subsection \<open>Requests\<close>

type_synonym fs_waits = "fs_cmd \<Rightarrow> fs_client \<Rightarrow> (fs_client \<Rightarrow> fs_client) list"

definition fs_command :: "fs_cmd_type \<Rightarrow> u64 list \<Rightarrow> fs_cmd" where
  "fs_command t params = \<lparr>cmd_id = 0,
     cmd_type = (case find_index (\<lambda>c. c = t) fs_commands of Some n \<Rightarrow> of_nat n | None \<Rightarrow> FS_NUM_COMMANDS),
     cmd_params = params\<rparr>"

text \<open>A blocking request; no completion is the error.\<close>

definition request :: "fs_waits \<Rightarrow> fs_cmd \<Rightarrow> ('s, 'q) posix \<Rightarrow> (fs_cmpl option \<times> ('s, 'q) posix) option" where
  "request W cmd st = do {
     (err, completion, c) \<leftarrow> fs_command_blocking cmd (W cmd (px_client st)) (px_client st);
     Some (completion, st\<lparr>px_client := c\<rparr>)
   }"

text \<open>A blocking request whose error is not looked at.\<close>

definition request_unchecked :: "fs_waits \<Rightarrow> fs_cmd \<Rightarrow> ('s, 'q) posix \<Rightarrow> (fs_cmpl \<times> ('s, 'q) posix) option" where
  "request_unchecked W cmd st = do {
     (completion, st) \<leftarrow> request W cmd st;
     completion \<leftarrow> completion;
     Some (completion, st)
   }"

definition buffer_allocate :: "('s, 'q) posix \<Rightarrow> (nat option \<times> ('s, 'q) posix) option" where
  "buffer_allocate st = do {
     (err, b, c) \<leftarrow> fs_buffer_allocate (px_client st);
     Some (b, st\<lparr>px_client := c\<rparr>)
   }"

definition buffer_free :: "nat \<Rightarrow> ('s, 'q) posix \<Rightarrow> ('s, 'q) posix option" where
  "buffer_free b st = do {
     c \<leftarrow> fs_buffer_free b (px_client st);
     Some (st\<lparr>px_client := c\<rparr>)
   }"

text \<open>\<open>memcpy\<close> into a buffer and out of it.\<close>

definition buffer_put :: "nat \<Rightarrow> u8 list \<Rightarrow> ('s, 'q) posix \<Rightarrow> ('s, 'q) posix" where
  "buffer_put b bs st = st\<lparr>px_client := (px_client st)\<lparr>cl_share := share_store (cl_share (px_client st)) (fs_buffer_ptr b) bs\<rparr>\<rparr>"

definition buffer_get :: "nat \<Rightarrow> nat \<Rightarrow> ('s, 'q) posix \<Rightarrow> u8 list" where
  "buffer_get b n st = share_bytes (cl_share (px_client st)) (fs_buffer_ptr b) n"

definition succeeded :: "fs_cmpl \<Rightarrow> bool" where
  "succeeded completion \<longleftrightarrow> cmpl_status completion = status_code FS_STATUS_SUCCESS"

definition FILE_SUCC :: int where "FILE_SUCC = 0"
definition FILE_ERR :: int where "FILE_ERR = 1"

fun status_errno :: "fs_status \<Rightarrow> int" where
  "status_errno FS_STATUS_SUCCESS = FILE_SUCC"
| "status_errno FS_STATUS_ERROR = FILE_ERR"
| "status_errno FS_STATUS_INVALID_BUFFER = EINVAL"
| "status_errno FS_STATUS_INVALID_PATH = ENOENT"
| "status_errno FS_STATUS_INVALID_FD = EBADF"
| "status_errno FS_STATUS_ALLOCATION_ERROR = ENOMEM"
| "status_errno FS_STATUS_OUTSTANDING_OPERATIONS = EBUSY"
| "status_errno FS_STATUS_INVALID_NAME = EINVAL"
| "status_errno FS_STATUS_TOO_MANY_OPEN_FILES = EMFILE"
| "status_errno FS_STATUS_SERVER_WAS_DENIED = EPERM"
| "status_errno FS_STATUS_INVALID_WRITE = EACCES"
| "status_errno FS_STATUS_INVALID_READ = EACCES"
| "status_errno FS_STATUS_DIRECTORY_IS_FULL = ENOSPC"
| "status_errno FS_STATUS_INVALID_COMMAND = EINVAL"
| "status_errno FS_STATUS_END_OF_DIRECTORY = FILE_ERR"
| "status_errno FS_STATUS_NO_FILE = ENOENT"
| "status_errno FS_STATUS_NOT_DIRECTORY = ENOTDIR"
| "status_errno FS_STATUS_ALREADY_EXISTS = EEXIST"
| "status_errno FS_STATUS_NOT_EMPTY = ENOTEMPTY"

definition fs_statuses :: "fs_status list" where
  "fs_statuses = [FS_STATUS_SUCCESS, FS_STATUS_ERROR, FS_STATUS_INVALID_BUFFER, FS_STATUS_INVALID_PATH, FS_STATUS_INVALID_FD,
     FS_STATUS_ALLOCATION_ERROR, FS_STATUS_OUTSTANDING_OPERATIONS, FS_STATUS_INVALID_NAME, FS_STATUS_TOO_MANY_OPEN_FILES,
     FS_STATUS_SERVER_WAS_DENIED, FS_STATUS_INVALID_WRITE, FS_STATUS_INVALID_READ, FS_STATUS_DIRECTORY_IS_FULL,
     FS_STATUS_INVALID_COMMAND, FS_STATUS_END_OF_DIRECTORY, FS_STATUS_NO_FILE, FS_STATUS_NOT_DIRECTORY,
     FS_STATUS_ALREADY_EXISTS, FS_STATUS_NOT_EMPTY]"

text \<open>The table of errors by the number of the status that the server gave; a number outside is an access outside.\<close>

definition fs_status_to_errno :: "u64 \<Rightarrow> int option" where
  "fs_status_to_errno status = map_option (\<lambda>i. status_errno (fs_statuses ! i)) (find_index (\<lambda>s. status_code s = status) fs_statuses)"

subsection \<open>Paths\<close>

definition AT_FDCWD :: int where "AT_FDCWD = - 100"
definition PATH_MAX :: nat where "PATH_MAX = 4096"

definition slash :: u8 where "slash = 47"
definition dot_path :: "u8 list" where "dot_path = [46]"
definition etc_path :: "u8 list" where "etc_path = [47, 101, 116, 99]"
definition services_path :: "u8 list" where "services_path = etc_path @ [47, 115, 101, 114, 118, 105, 99, 101, 115]"

text \<open>The path that a relative one is appended to, or an error.\<close>

definition base_path :: "int \<Rightarrow> nat \<Rightarrow> ('s, 'q) posix \<Rightarrow> int + u8 list" where
  "base_path dirfd out_size st =
     (if dirfd = AT_FDCWD then Inr [slash]
      else if dirfd = ETC_FD then Inr (take (out_size - 1) (etc_path @ [slash]))
      else let base = px_fd_path st ! nat dirfd
           in if length base + 1 \<ge> out_size then Inl ENAMETOOLONG
              else Inr (if base \<noteq> [] \<and> last base \<noteq> slash then base @ [slash] else base))"

text \<open>The error, or the path that is written to the output.\<close>

definition resolve_path :: "int \<Rightarrow> u8 list option \<Rightarrow> nat \<Rightarrow> ('s, 'q) posix \<Rightarrow> (int + u8 list) option" where
  "resolve_path dirfd path out_size st = do {
     c_assert (out_size \<ge> 2);
     case path of
       None \<Rightarrow> Some (Inl EINVAL)
     | Some p \<Rightarrow> Some (
         if length p \<ge> out_size \<or> out_size > PATH_MAX then Inl ENAMETOOLONG
         else if dirfd \<noteq> AT_FDCWD \<and> dirfd \<noteq> ETC_FD \<and> (dirfd < 0 \<or> int MAX_FDS \<le> dirfd) then Inl EBADF
         else if p \<noteq> [] \<and> hd p = slash then Inr p
         else (case base_path dirfd out_size st of
             Inl err \<Rightarrow> Inl err
           | Inr base \<Rightarrow>
               if p = dot_path then Inr base
               else if length base + length p \<ge> out_size then Inl ENAMETOOLONG
               else Inr (base @ p)))
   }"

subsection \<open>Functions of an entry\<close>

text \<open>\<open>server_fd\<close> is the \<open>int\<close> that is kept, converted to the 64 bits of a request.\<close>

definition server_fd :: "int \<Rightarrow> ('s, 'q) posix \<Rightarrow> u64" where
  "server_fd fd st = of_int (px_server_fd st ! nat fd)"

definition advance :: "int \<Rightarrow> u64 \<Rightarrow> ('s, 'q) posix \<Rightarrow> ('s, 'q) posix" where
  "advance fd n st = (let e = px_table st ! nat fd
     in set_entry_at fd (e\<lparr>fe_file_ptr := sint (of_int (fe_file_ptr e) + n)\<rparr>) st)"

text \<open>The loop over the chunks of the data: an error with the state, or the number of bytes written.\<close>

function write_loop :: "fs_waits \<Rightarrow> int \<Rightarrow> nat \<Rightarrow> u8 list \<Rightarrow> u64 \<Rightarrow> ('s, 'q) posix \<Rightarrow> ((int + u64) \<times> ('s, 'q) posix) option" where
  "write_loop W fd b data written st =
     (if data = [] then Some (Inr written, st)
      else let to_write = min (length data) FS_BUFFER_SIZE;
               st = buffer_put b (take to_write data) st;
               cmd = fs_command FS_CMD_FILE_WRITE [server_fd fd st, of_int (fe_file_ptr (px_table st ! nat fd)) + written,
                       of_nat b, of_nat to_write]
           in do {
             (completion, st) \<leftarrow> request W cmd st;
             case completion of
               None \<Rightarrow> do { st \<leftarrow> buffer_free b st; Some (Inl (- ENOMEM), st) }
             | Some c \<Rightarrow>
                 if \<not> succeeded c then do {
                   st \<leftarrow> buffer_free b st;
                   e \<leftarrow> fs_status_to_errno (cmpl_status c);
                   Some (Inl (- e), st)
                 }
                 else if cmpl_data c < of_nat to_write then Some (Inr (written + cmpl_data c), st)
                 else write_loop W fd b (drop to_write data) (written + cmpl_data c) st
           })"
  by pat_completeness auto
termination by (relation "measure (\<lambda>(W, fd, b, data, written, st). length data)") (auto simp: FS_BUFFER_SIZE_def)

declare write_loop.simps [simp del]

definition file_write :: "fs_waits \<Rightarrow> u8 list option \<Rightarrow> nat \<Rightarrow> int \<Rightarrow> ('s, 'q) posix \<Rightarrow> (int \<times> ('s, 'q) posix) option" where
  "file_write W buf len fd st =
     (if len = 0 then Some (0, st)
      else case buf of
          None \<Rightarrow> Some (- EFAULT, st)
        | Some bs \<Rightarrow>
            if posix_fd_entry fd st = None then Some (- EBADF, st)
            else do {
              (b, st) \<leftarrow> buffer_allocate st;
              case b of
                None \<Rightarrow> Some (- ENOMEM, st)
              | Some b \<Rightarrow> do {
                  (r, st) \<leftarrow> write_loop W fd b (take len bs) 0 st;
                  case r of
                    Inl err \<Rightarrow> Some (err, st)
                  | Inr written \<Rightarrow> do {
                      st \<leftarrow> buffer_free b st;
                      Some (sint written, advance fd written st)
                    }
                }
            })"

text \<open>The loop over the chunks of the buffer of the caller, which is filled from \<open>pos\<close> on. The length that the server
  gives is not checked: more than what is left of the buffer is an access outside it.\<close>

function read_loop :: "fs_waits \<Rightarrow> int \<Rightarrow> nat \<Rightarrow> nat \<Rightarrow> nat \<Rightarrow> u8 list \<Rightarrow> u64 \<Rightarrow> ('s, 'q) posix
    \<Rightarrow> ((int + u64) \<times> u8 list \<times> ('s, 'q) posix) option" where
  "read_loop W fd b len pos buf total_read st =
     (if len = 0 then Some (Inr total_read, buf, st)
      else let to_read = min len FS_BUFFER_SIZE;
               cmd = fs_command FS_CMD_FILE_READ [server_fd fd st, of_int (fe_file_ptr (px_table st ! nat fd)) + total_read,
                       of_nat b, of_nat to_read]
           in do {
             (completion, st) \<leftarrow> request W cmd st;
             case completion of
               None \<Rightarrow> do { st \<leftarrow> buffer_free b st; Some (Inl (- ENOMEM), buf, st) }
             | Some c \<Rightarrow>
                 if \<not> succeeded c then do {
                   st \<leftarrow> buffer_free b st;
                   e \<leftarrow> fs_status_to_errno (cmpl_status c);
                   Some (Inl (- e), buf, st)
                 }
                 else let n = unat (cmpl_data c) in do {
                   c_assert (pos + n \<le> length buf);
                   let buf = take pos buf @ buffer_get b n st @ drop (pos + n) buf;
                   if n < to_read then Some (Inr (total_read + cmpl_data c), buf, st)
                   else read_loop W fd b (len - to_read) (pos + to_read) buf (total_read + cmpl_data c) st
                 }
           })"
  by pat_completeness auto
termination by (relation "measure (\<lambda>(W, fd, b, len, pos, buf, n, st). len)") (auto simp: FS_BUFFER_SIZE_def)

declare read_loop.simps [simp del]

text \<open>The buffer of the caller has \<open>len\<close> bytes; its contents after the call are part of the result.\<close>

definition file_read :: "fs_waits \<Rightarrow> u8 list option \<Rightarrow> nat \<Rightarrow> int \<Rightarrow> ('s, 'q) posix \<Rightarrow> (int \<times> u8 list \<times> ('s, 'q) posix) option" where
  "file_read W buf len fd st =
     (if len = 0 then Some (0, [], st)
      else case buf of
          None \<Rightarrow> Some (- EFAULT, [], st)
        | Some bs \<Rightarrow>
            if posix_fd_entry fd st = None then Some (- EBADF, bs, st)
            else do {
              (b, st) \<leftarrow> buffer_allocate st;
              case b of
                None \<Rightarrow> Some (- ENOMEM, bs, st)
              | Some b \<Rightarrow> do {
                  (r, bs, st) \<leftarrow> read_loop W fd b len 0 (take len bs) 0 st;
                  case r of
                    Inl err \<Rightarrow> Some (err, bs, st)
                  | Inr n \<Rightarrow> do {
                      st \<leftarrow> buffer_free b st;
                      Some (sint n, bs, advance fd n st)
                    }
                }
            })"

definition file_close :: "fs_waits \<Rightarrow> int \<Rightarrow> ('s, 'q) posix \<Rightarrow> (int \<times> ('s, 'q) posix) option" where
  "file_close W fd st = (case posix_fd_entry fd st of
      None \<Rightarrow> Some (- EBADF, st)
    | Some e \<Rightarrow> do {
        (c, st) \<leftarrow> request_unchecked W (fs_command
          (if has_flag (fe_flags e) O_DIRECTORY then FS_CMD_DIR_CLOSE else FS_CMD_FILE_CLOSE) [server_fd fd st]) st;
        let st = st\<lparr>px_server_fd := (px_server_fd st)[nat fd := - 1], px_fd_path := (px_fd_path st)[nat fd := []]\<rparr>;
        let st = snd (posix_fd_deallocate fd st);
        err \<leftarrow> fs_status_to_errno (cmpl_status c);
        Some (- err, st)
      })"

definition file_dup3 :: "int \<Rightarrow> int \<Rightarrow> ('s, 'q) posix \<Rightarrow> int \<times> ('s, 'q) posix" where
  "file_dup3 oldfd newfd st = (0, st\<lparr>px_server_fd := (px_server_fd st)[nat newfd := px_server_fd st ! nat oldfd]\<rparr>)"

subsection \<open>Status\<close>

definition S_IFREG :: u64 where "S_IFREG = 0x8000"
definition S_IFDIR :: u64 where "S_IFDIR = 0x4000"
definition S_ISDIR :: "u64 \<Rightarrow> bool" where "S_ISDIR m \<longleftrightarrow> m AND 0xF000 = S_IFDIR"

definition zero_stat :: fs_stat where
  "zero_stat = \<lparr>st_dev = 0, st_ino = 0, st_mode = 0, st_nlink = 0, st_uid = 0, st_gid = 0, st_rdev = 0, st_size = 0,
     st_blksize = 0, st_blocks = 0, st_atime = 0, st_mtime = 0, st_ctime = 0, st_atime_nsec = 0, st_mtime_nsec = 0,
     st_ctime_nsec = 0, st_used = 0\<rparr>"

text \<open>A number of 64 bits from its bytes, the lowest first, and the status that lies in a buffer. The mode, the number of links, the
  owner, the group and the block size have 32 bits in the structure of the C library.\<close>

fun word_at :: "u8 list \<Rightarrow> nat \<Rightarrow> u64" where
  "word_at bs i = foldr (\<lambda>b w. ucast b + 256 * w) (take 8 (drop (8 * i) bs)) 0"

definition low32 :: "u64 \<Rightarrow> u64" where
  "low32 w = ucast (ucast w :: u32)"

definition stat_of_bytes :: "u8 list \<Rightarrow> fs_stat \<Rightarrow> fs_stat" where
  "stat_of_bytes bs statbuf = statbuf\<lparr>st_dev := word_at bs 0, st_ino := word_at bs 1, st_mode := low32 (word_at bs 2),
     st_nlink := low32 (word_at bs 3), st_uid := low32 (word_at bs 4), st_gid := low32 (word_at bs 5), st_rdev := word_at bs 6,
     st_size := word_at bs 7, st_blksize := low32 (word_at bs 8), st_blocks := word_at bs 9, st_atime := word_at bs 10,
     st_mtime := word_at bs 11, st_ctime := word_at bs 12, st_atime_nsec := word_at bs 13, st_mtime_nsec := word_at bs 14,
     st_ctime_nsec := word_at bs 15\<rparr>"

definition fstat_int :: "fs_waits \<Rightarrow> u8 list \<Rightarrow> fs_stat \<Rightarrow> ('s, 'q) posix \<Rightarrow> (int \<times> fs_stat \<times> ('s, 'q) posix) option" where
  "fstat_int W path statbuf st =
     (if path = [slash] then Some (0, zero_stat\<lparr>st_mode := S_IFDIR OR 0x1ED\<rparr>, st)
      else do {
        (pb, st) \<leftarrow> buffer_allocate st;
        case pb of
          None \<Rightarrow> Some (- ENOMEM, statbuf, st)
        | Some pb \<Rightarrow> do {
            (ob, st) \<leftarrow> buffer_allocate st;
            case ob of
              None \<Rightarrow> do { st \<leftarrow> buffer_free pb st; Some (- ENOMEM, statbuf, st) }
            | Some ob \<Rightarrow> do {
                let st = buffer_put pb path st;
                (c, st) \<leftarrow> request_unchecked W (fs_command FS_CMD_STAT
                  [of_nat pb, of_nat (length path), of_nat ob, of_nat FS_BUFFER_SIZE]) st;
                st \<leftarrow> buffer_free pb st;
                if \<not> succeeded c then do {
                  st \<leftarrow> buffer_free ob st;
                  e \<leftarrow> fs_status_to_errno (cmpl_status c);
                  Some (- e, statbuf, st)
                }
                else do {
                  let statbuf = stat_of_bytes (buffer_get ob (unat sizeof_fs_stat) st) statbuf;
                  st \<leftarrow> buffer_free ob st;
                  Some (0, statbuf, st)
                }
              }
          }
      })"

definition file_fstat :: "fs_waits \<Rightarrow> int \<Rightarrow> fs_stat \<Rightarrow> ('s, 'q) posix \<Rightarrow> (int \<times> fs_stat \<times> ('s, 'q) posix) option" where
  "file_fstat W fd statbuf st = fstat_int W (px_fd_path st ! nat fd) statbuf st"

definition etc_stat :: fs_stat where
  "etc_stat = zero_stat\<lparr>st_mode := S_IFDIR OR 0x16D, st_nlink := 2\<rparr>"

definition services_stat :: fs_stat where
  "services_stat = zero_stat\<lparr>st_mode := S_IFREG OR 0x124, st_nlink := 1, st_size := 0\<rparr>"

definition sys_fstatat :: "fs_waits \<Rightarrow> int \<Rightarrow> u8 list option \<Rightarrow> fs_stat option \<Rightarrow> ('s, 'q) posix
    \<Rightarrow> (int \<times> fs_stat option \<times> ('s, 'q) posix) option" where
  "sys_fstatat W dirfd path statbuf st = (case statbuf of
      None \<Rightarrow> Some (- EFAULT, None, st)
    | Some sb \<Rightarrow> do {
        r \<leftarrow> resolve_path dirfd path PATH_MAX st;
        case r of
          Inl err \<Rightarrow> Some (- err, Some sb, st)
        | Inr full_path \<Rightarrow>
            if full_path = etc_path then Some (0, Some etc_stat, st)
            else if full_path = services_path then Some (0, Some services_stat, st)
            else do {
              (e, sb, st) \<leftarrow> fstat_int W full_path sb st;
              Some (e, Some sb, st)
            }
      })"

definition sys_readlinkat :: int where "sys_readlinkat = - EINVAL"

subsection \<open>Opening\<close>

definition open_flags_of :: "u32 \<Rightarrow> u64" where
  "open_flags_of flags =
     (if has_flag flags O_WRONLY then FS_OPEN_FLAGS_WRITE_ONLY
      else if has_flag flags O_RDWR then FS_OPEN_FLAGS_READ_WRITE else FS_OPEN_FLAGS_READ_ONLY) OR
     (if has_flag flags O_CREAT then FS_OPEN_FLAGS_CREATE else 0)"

text \<open>The two tests of what the path names now: an error, or 0.\<close>

definition open_checks :: "fs_waits \<Rightarrow> u8 list \<Rightarrow> u32 \<Rightarrow> ('s, 'q) posix \<Rightarrow> (int \<times> ('s, 'q) posix) option" where
  "open_checks W full_path flags st = do {
     (exists, st) \<leftarrow> if has_flag flags O_CREAT \<and> has_flag flags O_EXCL
       then do { (e, sb, st) \<leftarrow> fstat_int W full_path zero_stat st; Some (e = 0, st) }
       else Some (False, st);
     if exists then Some (- EEXIST, st)
     else do {
       (is_dir, st) \<leftarrow> if \<not> has_flag flags O_DIRECTORY \<and> has_flag flags (O_WRONLY OR O_RDWR)
         then do { (e, sb, st) \<leftarrow> fstat_int W full_path zero_stat st; Some (e = 0 \<and> S_ISDIR (st_mode sb), st) }
         else Some (False, st);
       Some (if is_dir then - EISDIR else 0, st)
     }
   }"

text \<open>The request to open, and to truncate: an error, or the descriptor of the server. The buffer of the path is
  given back.\<close>

definition open_request :: "fs_waits \<Rightarrow> nat \<Rightarrow> nat \<Rightarrow> u32 \<Rightarrow> ('s, 'q) posix \<Rightarrow> ((int + u64) \<times> ('s, 'q) posix) option" where
  "open_request W pb path_len flags st = do {
     (c, st) \<leftarrow> request_unchecked W
       (if has_flag flags O_DIRECTORY then fs_command FS_CMD_DIR_OPEN [of_nat pb, of_nat path_len]
        else fs_command FS_CMD_FILE_OPEN [of_nat pb, of_nat path_len, open_flags_of flags]) st;
     st \<leftarrow> buffer_free pb st;
     if \<not> succeeded c then do {
       e \<leftarrow> fs_status_to_errno (cmpl_status c);
       Some (Inl (- e), st)
     }
     else if has_flag flags O_DIRECTORY \<or> \<not> has_flag flags O_TRUNC then Some (Inr (cmpl_data c), st)
     else do {
       (c2, st) \<leftarrow> request_unchecked W (fs_command FS_CMD_FILE_TRUNCATE [cmpl_data c, 0]) st;
       if \<not> succeeded c2 then do {
         e \<leftarrow> fs_status_to_errno (cmpl_status c2);
         Some (Inl (- e), st)
       }
       else Some (Inr (cmpl_data c), st)
     }
   }"

definition file_entry :: "u32 \<Rightarrow> fd_entry" where
  "file_entry flags = \<lparr>fe_write = Some File, fe_read = Some File, fe_close = Some File, fe_dup3 = Some File,
     fe_fstat = Some File, fe_flags = flags, fe_file_ptr = 0\<rparr>"

definition int_of_fd :: "u64 \<Rightarrow> int" where
  "int_of_fd fd = sint (ucast fd :: u32)"

definition sys_openat :: "fs_waits \<Rightarrow> int \<Rightarrow> u8 list option \<Rightarrow> u32 \<Rightarrow> ('s, 'q) posix \<Rightarrow> (int \<times> ('s, 'q) posix) option" where
  "sys_openat W dirfd path flags st = do {
     r \<leftarrow> resolve_path dirfd path PATH_MAX st;
     case r of
       Inl err \<Rightarrow> Some (- err, st)
     | Inr full_path \<Rightarrow>
         if full_path = etc_path then Some (if has_flag flags O_DIRECTORY then ETC_FD else - EISDIR, st)
         else if full_path = services_path then Some (SERVICES_FD, st)
         else do {
           (pb, st) \<leftarrow> buffer_allocate st;
           case pb of
             None \<Rightarrow> Some (- ENOMEM, st)
           | Some pb \<Rightarrow>
               let (fd, st) = posix_fd_allocate st
               in if fd < 0 then do { st \<leftarrow> buffer_free pb st; Some (- EMFILE, st) }
                  else do {
                    c_assert (px_server_fd st ! nat fd = - 1);
                    let st = buffer_put pb full_path st;
                    (err, st) \<leftarrow> open_checks W full_path flags st;
                    if err \<noteq> 0 then do {
                      st \<leftarrow> buffer_free pb (snd (posix_fd_deallocate fd st));
                      Some (err, st)
                    }
                    else do {
                      (r, st) \<leftarrow> open_request W pb (length full_path) flags st;
                      case r of
                        Inl err \<Rightarrow> Some (err, snd (posix_fd_deallocate fd st))
                      | Inr fs_fd \<Rightarrow> do {
                          c_assert (posix_fd_entry fd st \<noteq> None);
                          let st = set_entry_at fd (file_entry flags) st;
                          let st = st\<lparr>px_server_fd := (px_server_fd st)[nat fd := int_of_fd fs_fd]\<rparr>;
                          Some (fd, st\<lparr>px_fd_path := (px_fd_path st)[nat fd := full_path]\<rparr>)
                        }
                    }
                  }
         }
   }"

subsection \<open>Positions\<close>

definition SEEK_SET :: int where "SEEK_SET = 0"
definition SEEK_CUR :: int where "SEEK_CUR = 1"
definition SEEK_END :: int where "SEEK_END = 2"
definition LONG_MAX :: int where "LONG_MAX = 2 ^ 63 - 1"

definition set_file_ptr :: "int \<Rightarrow> int \<Rightarrow> ('s, 'q) posix \<Rightarrow> int \<times> ('s, 'q) posix" where
  "set_file_ptr fd new_fp st = (new_fp, set_entry_at fd ((px_table st ! nat fd)\<lparr>fe_file_ptr := new_fp\<rparr>) st)"

text \<open>An overflow of \<open>off_t\<close>, which is signed, is undefined. The size that the server gives has no sign, and so have the sums with
  it.\<close>

definition sys_lseek :: "fs_waits \<Rightarrow> int \<Rightarrow> int \<Rightarrow> int \<Rightarrow> ('s, 'q) posix \<Rightarrow> (int \<times> ('s, 'q) posix) option" where
  "sys_lseek W fd offset whence st =
     (if fd = SERVICES_FD \<or> fd = ETC_FD then Some (- EBADF, st)
      else case posix_fd_entry fd st of
          None \<Rightarrow> Some (- EBADF, st)
        | Some e \<Rightarrow>
            let curr_fp = fe_file_ptr e
            in if whence = SEEK_SET then
                 (if offset < 0 then Some (- EINVAL, st) else Some (set_file_ptr fd offset st))
               else if whence = SEEK_CUR then do {
                 c_assert (0 \<le> curr_fp);
                 if LONG_MAX - curr_fp < offset then Some (- EOVERFLOW, st)
                 else do {
                   c_assert (- LONG_MAX \<le> offset);
                   if offset < 0 \<and> (of_int curr_fp :: u64) < of_int (- offset) then Some (- EINVAL, st)
                   else Some (set_file_ptr fd (curr_fp + offset) st)
                 }
               }
               else if whence = SEEK_END then do {
                 (completion, st) \<leftarrow> request W (fs_command FS_CMD_FILE_SIZE [server_fd fd st]) st;
                 case completion of
                   None \<Rightarrow> Some (- ENOMEM, st)
                 | Some c \<Rightarrow>
                     if \<not> succeeded c then do {
                       e \<leftarrow> fs_status_to_errno (cmpl_status c);
                       Some (- e, st)
                     }
                     else if sint (of_int LONG_MAX - cmpl_data c) < offset then Some (- EOVERFLOW, st)
                     else Some (set_file_ptr fd (sint (cmpl_data c + of_int offset)) st)
               }
               else Some (- EINVAL, st))"

subsection \<open>Directories and removal\<close>

text \<open>The request with one path, in a buffer that is given back.\<close>

definition path_request :: "fs_waits \<Rightarrow> fs_cmd_type \<Rightarrow> u8 list \<Rightarrow> ('s, 'q) posix \<Rightarrow> (int \<times> ('s, 'q) posix) option" where
  "path_request W t full_path st =
     (if length full_path \<ge> FS_BUFFER_SIZE then Some (- ENAMETOOLONG, st)
      else do {
        (pb, st) \<leftarrow> buffer_allocate st;
        case pb of
          None \<Rightarrow> Some (- ENOMEM, st)
        | Some pb \<Rightarrow> do {
            let st = buffer_put pb full_path st;
            (c, st) \<leftarrow> request_unchecked W (fs_command t [of_nat pb, of_nat (length full_path)]) st;
            st \<leftarrow> buffer_free pb st;
            if \<not> succeeded c then do {
              e \<leftarrow> fs_status_to_errno (cmpl_status c);
              Some (- e, st)
            }
            else Some (0, st)
          }
      })"

definition sys_mkdirat :: "fs_waits \<Rightarrow> int \<Rightarrow> u8 list option \<Rightarrow> ('s, 'q) posix \<Rightarrow> (int \<times> ('s, 'q) posix) option" where
  "sys_mkdirat W dirfd path st = do {
     r \<leftarrow> resolve_path dirfd path PATH_MAX st;
     case r of
       Inl err \<Rightarrow> Some (- err, st)
     | Inr full_path \<Rightarrow> path_request W FS_CMD_DIR_CREATE full_path st
   }"

definition AT_REMOVEDIR :: u32 where "AT_REMOVEDIR = 0x200"

text \<open>\<open>strrchr(path, '/')\<close>: the position of the last slash.\<close>

definition last_slash :: "u8 list \<Rightarrow> nat option" where
  "last_slash p = map_option (\<lambda>k. length p - 1 - k) (find_index (\<lambda>c. c = slash) (rev p))"

lemma last_slash_less: "last_slash p = Some k \<Longrightarrow> k < length p"
  by (auto simp: last_slash_def dest: find_index_SomeD)

text \<open>The walk up the path until a part of it exists: the error if that is not a directory, or 0.\<close>

function parent_check :: "fs_waits \<Rightarrow> u8 list \<Rightarrow> ('s, 'q) posix \<Rightarrow> (int \<times> ('s, 'q) posix) option" where
  "parent_check W p st = (case last_slash p of
      None \<Rightarrow> Some (0, st)
    | Some k \<Rightarrow>
        if k = 0 then Some (0, st)
        else do {
          (e, sb, st) \<leftarrow> fstat_int W (take k p) zero_stat st;
          if e = 0 then Some (if S_ISDIR (st_mode sb) then 0 else - ENOTDIR, st)
          else parent_check W (take k p) st
        })"
  by pat_completeness auto
termination by (relation "measure (\<lambda>(W, p, st). length p)") (auto dest: last_slash_less)

declare parent_check.simps [simp del]

definition unlink_checks :: "fs_waits \<Rightarrow> u8 list \<Rightarrow> ('s, 'q) posix \<Rightarrow> (int \<times> ('s, 'q) posix) option" where
  "unlink_checks W full_path st = do {
     (e, sb, st) \<leftarrow> fstat_int W full_path zero_stat st;
     if e = 0 then Some (if S_ISDIR (st_mode sb) then - EISDIR else 0, st)
     else parent_check W full_path st
   }"

definition sys_unlinkat :: "fs_waits \<Rightarrow> int \<Rightarrow> u8 list option \<Rightarrow> u32 \<Rightarrow> ('s, 'q) posix \<Rightarrow> (int \<times> ('s, 'q) posix) option" where
  "sys_unlinkat W dirfd path flags st = do {
     r \<leftarrow> resolve_path dirfd path PATH_MAX st;
     case r of
       Inl err \<Rightarrow> Some (- err, st)
     | Inr full_path \<Rightarrow>
         if full_path = services_path then Some (- EPERM, st)
         else do {
           (err, st) \<leftarrow> if has_flag flags AT_REMOVEDIR then Some (0, st) else unlink_checks W full_path st;
           if err \<noteq> 0 then Some (err, st)
           else path_request W (if has_flag flags AT_REMOVEDIR then FS_CMD_DIR_REMOVE else FS_CMD_FILE_REMOVE) full_path st
         }
   }"

definition libc_init_file :: "('s, 'q) posix \<Rightarrow> ('s, 'q) posix" where
  "libc_init_file st = st\<lparr>px_server_fd := replicate MAX_FDS (- 1), px_fd_path := replicate MAX_FDS []\<rparr>"

end
