(* ===== verification/Px_Io.thy ===== *)
theory Px_Io
  imports Px_Sock Px_File
begin

text \<open>
  \<open>lib/libc/posix/io.c\<close>: the system calls that go through the entry of a descriptor to the console, a socket or a file. A
  call through a null pointer is \<open>None\<close>. The socket library, the serial queue and the waits of the requests to the file
  server are the environment of the calls.
\<close>

subsection \<open>Calls through an entry\<close>

record ('s, 'q) libc_env =
  le_socket :: "'s socket_config"
  le_serial :: "'q serial_ops"
  le_waits :: fs_waits

definition entry_write :: "('s, 'q) libc_env \<Rightarrow> fd_entry \<Rightarrow> u8 list \<Rightarrow> int \<Rightarrow> ('s, 'q) posix \<Rightarrow> (int \<times> ('s, 'q) posix) option" where
  "entry_write E e bs fd st = (case fe_write e of
      None \<Rightarrow> None
    | Some Console \<Rightarrow> Some (console_write (le_serial E) bs st)
    | Some Sock \<Rightarrow> sock_write (le_socket E) bs fd st
    | Some File \<Rightarrow> file_write (le_waits E) (Some bs) (length bs) fd st)"

text \<open>The buffer of the caller and what it holds after the call.\<close>

definition entry_read :: "('s, 'q) libc_env \<Rightarrow> fd_entry \<Rightarrow> u8 list \<Rightarrow> int \<Rightarrow> ('s, 'q) posix
    \<Rightarrow> (int \<times> u8 list \<times> ('s, 'q) posix) option" where
  "entry_read E e bs fd st = (case fe_read e of
      Some Sock \<Rightarrow> do {
        (r, got, st) \<leftarrow> sock_read (le_socket E) (length bs) fd st;
        Some (r, got @ drop (length got) bs, st)
      }
    | Some File \<Rightarrow> file_read (le_waits E) (Some bs) (length bs) fd st
    | _ \<Rightarrow> None)"

definition entry_close :: "('s, 'q) libc_env \<Rightarrow> fd_entry \<Rightarrow> int \<Rightarrow> ('s, 'q) posix \<Rightarrow> (int \<times> ('s, 'q) posix) option" where
  "entry_close E e fd st = (case fe_close e of
      Some Sock \<Rightarrow> sock_close (le_socket E) fd st
    | Some File \<Rightarrow> file_close (le_waits E) fd st
    | _ \<Rightarrow> None)"

definition entry_dup3 :: "('s, 'q) libc_env \<Rightarrow> fd_entry \<Rightarrow> int \<Rightarrow> int \<Rightarrow> ('s, 'q) posix \<Rightarrow> (int \<times> ('s, 'q) posix) option" where
  "entry_dup3 E e oldfd newfd st = (case fe_dup3 e of
      Some Sock \<Rightarrow> sock_dup3 (le_socket E) oldfd newfd st
    | Some File \<Rightarrow> Some (file_dup3 oldfd newfd st)
    | _ \<Rightarrow> None)"

definition entry_fstat :: "('s, 'q) libc_env \<Rightarrow> fd_entry \<Rightarrow> int \<Rightarrow> fs_stat \<Rightarrow> ('s, 'q) posix
    \<Rightarrow> (int \<times> fs_stat \<times> ('s, 'q) posix) option" where
  "entry_fstat E e fd statbuf st = (case fe_fstat e of
      Some Sock \<Rightarrow> (case sock_fstat statbuf of (r, sb) \<Rightarrow> Some (r, sb, st))
    | Some File \<Rightarrow> file_fstat (le_waits E) fd statbuf st
    | _ \<Rightarrow> None)"

subsection \<open>Reading and writing\<close>

definition sys_write :: "('s, 'q) libc_env \<Rightarrow> int \<Rightarrow> u8 list option \<Rightarrow> nat \<Rightarrow> ('s, 'q) posix \<Rightarrow> (int \<times> ('s, 'q) posix) option" where
  "sys_write E fd buf cnt st =
     (if cnt = 0 then Some (0, st)
      else case buf of
          None \<Rightarrow> Some (- EFAULT, st)
        | Some bs \<Rightarrow>
            if fd = SERVICES_FD then Some (- EBADF, st)
            else (case posix_fd_entry fd st of
                None \<Rightarrow> Some (- EBADF, st)
              | Some e \<Rightarrow> entry_write E e (take cnt bs) fd st))"

definition sys_read :: "('s, 'q) libc_env \<Rightarrow> int \<Rightarrow> u8 list option \<Rightarrow> nat \<Rightarrow> ('s, 'q) posix
    \<Rightarrow> (int \<times> u8 list \<times> ('s, 'q) posix) option" where
  "sys_read E fd buf cnt st =
     (if cnt = 0 then Some (0, [], st)
      else case buf of
          None \<Rightarrow> Some (- EFAULT, [], st)
        | Some bs \<Rightarrow>
            if fd = SERVICES_FD then Some (0, bs, st)
            else (case posix_fd_entry fd st of
                None \<Rightarrow> Some (- EBADF, bs, st)
              | Some e \<Rightarrow> entry_read E e (take cnt bs) fd st))"

text \<open>\<open>struct iovec\<close>: the memory at the base, which has as many bytes as the length says, or the null pointer.\<close>

record iovec =
  iov_base :: "u8 list option"
  iov_len :: u64

definition IOV_MAX :: int where "IOV_MAX = 1024"

text \<open>The sum of the lengths is a signed number of 64 bits. It is tested against the largest such number, which it
  cannot exceed without an overflow, which is undefined. \<open>Inl\<close> is the error.\<close>

fun iov_sum :: "iovec list \<Rightarrow> int \<Rightarrow> (int + int) option" where
  "iov_sum [] acc = Some (Inr acc)"
| "iov_sum (v # vs) acc =
     (let acc = acc + sint (iov_len v) in do {
        c_assert (- LONG_MAX - 1 \<le> acc \<and> acc \<le> LONG_MAX);
        if acc > LONG_MAX then Some (Inl (- EINVAL)) else iov_sum vs acc
      })"

fun writev_loop :: "('s, 'q) libc_env \<Rightarrow> fd_entry \<Rightarrow> int \<Rightarrow> iovec list \<Rightarrow> int \<Rightarrow> ('s, 'q) posix \<Rightarrow> (int \<times> ('s, 'q) posix) option" where
  "writev_loop E e fd [] ret st = Some (ret, st)"
| "writev_loop E e fd (v # vs) ret st =
     (if iov_len v = 0 then writev_loop E e fd vs ret st
      else case iov_base v of
          None \<Rightarrow> Some (- EFAULT, st)
        | Some bs \<Rightarrow> do {
            (written, st) \<leftarrow> entry_write E e (take (unat (iov_len v)) bs) fd st;
            if written < 0 then Some (written, st)
            else if (of_int written :: u64) < iov_len v then Some (ret + written, st)
            else writev_loop E e fd vs (ret + written) st
          })"

text \<open>\<open>iovcnt\<close> is at most the length of the array.\<close>

definition sys_writev :: "('s, 'q) libc_env \<Rightarrow> int \<Rightarrow> iovec list option \<Rightarrow> int \<Rightarrow> ('s, 'q) posix \<Rightarrow> (int \<times> ('s, 'q) posix) option" where
  "sys_writev E fd iov iovcnt st = (case iov of
      None \<Rightarrow> Some (- EFAULT, st)
    | Some vs \<Rightarrow>
        if fd = SERVICES_FD then Some (- EBADF, st)
        else (case posix_fd_entry fd st of
            None \<Rightarrow> Some (- EBADF, st)
          | Some e \<Rightarrow>
              if iovcnt \<le> 0 \<or> IOV_MAX < iovcnt then Some (- EINVAL, st)
              else do {
                acc \<leftarrow> iov_sum (take (nat iovcnt) vs) 0;
                case acc of
                  Inl err \<Rightarrow> Some (err, st)
                | Inr acc \<Rightarrow> if acc = 0 then Some (0, st) else writev_loop E e fd (take (nat iovcnt) vs) 0 st
              }))"

text \<open>The result comes with the vectors and what their memory holds.\<close>

fun readv_loop :: "('s, 'q) libc_env \<Rightarrow> fd_entry \<Rightarrow> int \<Rightarrow> iovec list \<Rightarrow> int \<Rightarrow> ('s, 'q) posix
    \<Rightarrow> (int \<times> iovec list \<times> ('s, 'q) posix) option" where
  "readv_loop E e fd [] ret st = Some (ret, [], st)"
| "readv_loop E e fd (v # vs) ret st =
     (if iov_len v = 0 then do {
        (r, ws, st) \<leftarrow> readv_loop E e fd vs ret st;
        Some (r, v # ws, st)
      }
      else case iov_base v of
          None \<Rightarrow> Some (- EFAULT, v # vs, st)
        | Some bs \<Rightarrow> do {
            (got, bs, st) \<leftarrow> entry_read E e (take (unat (iov_len v)) bs) fd st;
            let v = v\<lparr>iov_base := Some bs\<rparr>;
            if got < 0 then Some (got, v # vs, st)
            else if (of_int got :: u64) < iov_len v then Some (ret + got, v # vs, st)
            else do {
              (r, ws, st) \<leftarrow> readv_loop E e fd vs (ret + got) st;
              Some (r, v # ws, st)
            }
          })"

definition sys_readv :: "('s, 'q) libc_env \<Rightarrow> int \<Rightarrow> iovec list option \<Rightarrow> int \<Rightarrow> ('s, 'q) posix
    \<Rightarrow> (int \<times> iovec list \<times> ('s, 'q) posix) option" where
  "sys_readv E fd iov iovcnt st = (case iov of
      None \<Rightarrow> Some (- EFAULT, [], st)
    | Some vs \<Rightarrow>
        if fd = SERVICES_FD then Some (0, vs, st)
        else (case posix_fd_entry fd st of
            None \<Rightarrow> Some (- EBADF, vs, st)
          | Some e \<Rightarrow>
              if iovcnt \<le> 0 \<or> IOV_MAX < iovcnt then Some (- EINVAL, vs, st)
              else do {
                acc \<leftarrow> iov_sum (take (nat iovcnt) vs) 0;
                case acc of
                  Inl err \<Rightarrow> Some (err, vs, st)
                | Inr acc \<Rightarrow> readv_loop E e fd (take (nat iovcnt) vs) 0 st
              }))"

subsection \<open>Descriptors\<close>

definition sys_close :: "('s, 'q) libc_env \<Rightarrow> int \<Rightarrow> ('s, 'q) posix \<Rightarrow> (int \<times> ('s, 'q) posix) option" where
  "sys_close E fd st =
     (if fd = SERVICES_FD \<or> fd = ETC_FD then Some (0, st)
      else case posix_fd_entry fd st of
          None \<Rightarrow> Some (- EBADF, st)
        | Some e \<Rightarrow> do {
            (err, st) \<leftarrow> entry_close E e fd st;
            Some (if err \<noteq> 0 then err else 0, st)
          })"

definition sys_ioctl :: "int \<Rightarrow> ('s, 'q) posix \<Rightarrow> int" where
  "sys_ioctl fd st =
     (if fd = SERVICES_FD then - ENOTTY
      else if posix_fd_entry fd st = None then - EBADF
      else if fd = int STDOUT_FD then 0 else - EINVAL)"

definition sys_dup3 :: "('s, 'q) libc_env \<Rightarrow> int \<Rightarrow> int \<Rightarrow> u32 \<Rightarrow> ('s, 'q) posix \<Rightarrow> (int \<times> ('s, 'q) posix) option" where
  "sys_dup3 E oldfd newfd flags st =
     (if newfd < 0 \<or> int MAX_FDS \<le> newfd then Some (- EBADF, st)
      else if flags AND NOT O_CLOEXEC \<noteq> 0 then Some (- EINVAL, st)
      else if oldfd = SERVICES_FD \<or> newfd = SERVICES_FD then Some (- EBADF, st)
      else if posix_fd_entry oldfd st = None then Some (- EBADF, st)
      else if oldfd = newfd then Some (- EINVAL, st)
      else do {
        st \<leftarrow> case posix_fd_entry newfd st of
            None \<Rightarrow> Some st
          | Some e \<Rightarrow> map_option snd (entry_close E e newfd st);
        let (allocated, st) = posix_fd_entry_allocate newfd st;
        if \<not> allocated then Some (- ENOMEM, st)
        else do {
          let e = px_table st ! nat oldfd;
          let e = (if has_flag flags O_CLOEXEC then e\<lparr>fe_flags := fe_flags e OR O_CLOEXEC\<rparr> else e);
          let st = set_entry_at newfd e st;
          (err, st) \<leftarrow> entry_dup3 E e oldfd newfd st;
          Some (if err \<noteq> 0 then err else newfd, st)
        }
      })"

definition sys_fstat :: "('s, 'q) libc_env \<Rightarrow> int \<Rightarrow> fs_stat option \<Rightarrow> ('s, 'q) posix \<Rightarrow> (int \<times> fs_stat option \<times> ('s, 'q) posix) option" where
  "sys_fstat E fd statbuf st = (case statbuf of
      None \<Rightarrow> Some (- EFAULT, None, st)
    | Some sb \<Rightarrow>
        if fd = SERVICES_FD then Some (0, Some services_stat, st)
        else if fd = ETC_FD then Some (0, Some etc_stat, st)
        else (case posix_fd_entry fd st of
            None \<Rightarrow> Some (- EBADF, Some sb, st)
          | Some e \<Rightarrow> do {
              (r, sb, st) \<leftarrow> entry_fstat E e fd sb st;
              Some (r, Some sb, st)
            }))"

definition F_GETFD :: int where "F_GETFD = 1"
definition F_SETFD :: int where "F_SETFD = 2"
definition F_GETFL :: int where "F_GETFL = 3"
definition F_SETFL :: int where "F_SETFL = 4"
definition FD_CLOEXEC :: u32 where "FD_CLOEXEC = 1"

definition settable_flags :: u32 where
  "settable_flags = O_APPEND OR O_ASYNC OR O_DIRECT OR O_NOATIME OR O_NONBLOCK"

definition sys_fcntl :: "int \<Rightarrow> int \<Rightarrow> u32 \<Rightarrow> ('s, 'q) posix \<Rightarrow> int \<times> ('s, 'q) posix" where
  "sys_fcntl fd cmd arg st =
     (if fd = SERVICES_FD then (0, st)
      else case posix_fd_entry fd st of
          None \<Rightarrow> (- EBADF, st)
        | Some e \<Rightarrow>
            if cmd = F_GETFD then (if has_flag (fe_flags e) O_CLOEXEC then sint FD_CLOEXEC else 0, st)
            else if cmd = F_SETFD then
              (0, set_entry_at fd (e\<lparr>fe_flags := if has_flag arg FD_CLOEXEC then fe_flags e OR O_CLOEXEC
                                                else fe_flags e AND NOT O_CLOEXEC\<rparr>) st)
            else if cmd = F_GETFL then
              (sint (fe_flags e AND NOT (O_CLOEXEC OR O_CREAT OR O_EXCL OR O_NOCTTY OR O_TRUNC)), st)
            else if cmd = F_SETFL then
              (0, set_entry_at fd (e\<lparr>fe_flags := (fe_flags e AND NOT settable_flags) OR (arg AND settable_flags)\<rparr>) st)
            else (- EINVAL, st))"

end
