(* ===== verification/Px_Frame.thy ===== *)
theory Px_Frame
  imports Px_Io
begin

text \<open>
  What the calls on files leave alone: a call changes the state of the file system client, and of the rest only the entry of
  its descriptor; and it gives back the buffers that it took from the client, on every path through it.
\<close>

subsection \<open>Buffers that a call holds\<close>

text \<open>\<open>held b X st st'\<close>: only the client differs, and if \<open>b\<close>, the buffers in use are those in use before, and \<open>X\<close>.\<close>

definition held :: "bool \<Rightarrow> nat set \<Rightarrow> ('s, 'q) posix \<Rightarrow> ('s, 'q) posix \<Rightarrow> bool" where
  "held b X st st' \<longleftrightarrow> st' = st\<lparr>px_client := px_client st'\<rparr> \<and>
     (b \<longrightarrow> length (cl_buffers (px_client st')) = length (cl_buffers (px_client st)) \<and>
        X \<subseteq> {..<length (cl_buffers (px_client st))} \<and> (\<forall>i \<in> X. \<not> cl_buffers (px_client st) ! i) \<and>
        (\<forall>i < length (cl_buffers (px_client st)). cl_buffers (px_client st') ! i = (cl_buffers (px_client st) ! i \<or> i \<in> X)))"

definition buffer_no :: "nat \<Rightarrow> nat" where
  "buffer_no x = x div FS_BUFFER_SIZE"

lemma held_refl: "held b {} st st"
  by (simp add: held_def)

lemma held_none: "held True {} st st' \<Longrightarrow> cl_buffers (px_client st') = cl_buffers (px_client st)"
  by (auto simp: held_def intro: nth_equalityI)

lemma held_frame: "held b X st st' \<Longrightarrow> st' = st\<lparr>px_client := px_client st'\<rparr>"
  by (simp add: held_def)

lemma held_same:
  assumes "held b X st st1" "st2 = st1\<lparr>px_client := c\<rparr>" "b \<longrightarrow> cl_buffers c = cl_buffers (px_client st1)"
  shows "held b X st st2"
proof -
  have "st2 = st\<lparr>px_client := c\<rparr>" "px_client st2 = c" using held_frame [OF assms(1)] assms(2)
    by (metis (no_types, lifting) posix.update_convs(7) posix.surjective posix.select_convs(7), simp)
  with assms(1,3) show ?thesis by (simp add: held_def)
qed

lemma scan_table_hit: "scan_table P i n xs = Some (Some j) \<Longrightarrow> j < length xs \<and> P (xs ! j)"
  by (induction P i n xs rule: scan_table.induct) (auto split: if_splits)

lemma held_allocate:
  assumes "held b X st st1" "buffer_allocate st1 = Some (Some x, st2)"
  shows "held b (insert (buffer_no x) X) st st2" "b \<longrightarrow> buffer_no x \<notin> X"
proof -
  let ?bs = "cl_buffers (px_client st1)"
  from assms(2) obtain i where i: "scan_table Not 0 NUM_BUFFERS ?bs = Some (Some i)" "x = i * FS_BUFFER_SIZE"
    "st2 = st1\<lparr>px_client := (px_client st1)\<lparr>cl_buffers := ?bs[i := True]\<rparr>\<rparr>"
    by (auto simp: buffer_allocate_def fs_buffer_allocate_def bind_eq_Some_conv split: option.splits)
  have f: "i < length ?bs" "\<not> ?bs ! i" using scan_table_hit [OF i(1)] by auto
  have no: "buffer_no x = i" using i(2) by (simp add: buffer_no_def FS_BUFFER_SIZE_def)
  have "st2 = st\<lparr>px_client := px_client st2\<rparr>" using held_frame [OF assms(1)] i(3)
    by (metis (no_types, lifting) posix.update_convs(7) posix.surjective posix.select_convs(7))
  moreover have "cl_buffers (px_client st2) = ?bs[i := True]" using i(3) by simp
  ultimately show "held b (insert (buffer_no x) X) st st2"
    using assms(1) f unfolding held_def no by (auto simp: nth_list_update)
  show "b \<longrightarrow> buffer_no x \<notin> X" using assms(1) f unfolding held_def no by auto
qed

lemma held_free:
  assumes "held b X st st1" "buffer_free x st1 = Some st2" "buffer_no x \<in> X"
  shows "held b (X - {buffer_no x}) st st2"
proof -
  let ?bs = "cl_buffers (px_client st1)" and ?i = "buffer_no x"
  from assms(2) obtain c where c: "st2 = st1\<lparr>px_client := c\<rparr>" "cl_buffers c = ?bs[?i := False]" "?i < length ?bs"
    by (auto simp: buffer_free_def fs_buffer_free_def buffer_no_def bind_eq_Some_conv Let_def split: if_splits)
  have "st2 = st\<lparr>px_client := px_client st2\<rparr>" using held_frame [OF assms(1)] c(1)
    by (metis (no_types, lifting) posix.update_convs(7) posix.surjective posix.select_convs(7))
  moreover have "cl_buffers (px_client st2) = ?bs[?i := False]" using c by simp
  ultimately show ?thesis using assms(1,3) c(3) unfolding held_def
    by (auto simp: nth_list_update split: if_splits)
qed

lemma allocate_none:
  assumes "buffer_allocate st = Some (None, st')"
  shows "st' = st"
  using assms by (auto simp: buffer_allocate_def fs_buffer_allocate_def bind_eq_Some_conv split: option.splits)

lemma held_put: "held b X st st1 \<Longrightarrow> held b X st (buffer_put x bs st1)"
  unfolding buffer_put_def by (erule held_same [OF _ refl]) simp

text \<open>Waits do not take or give back buffers of the thread that waits.\<close>

definition waits_keep_buffers :: "fs_waits \<Rightarrow> bool" where
  "waits_keep_buffers W \<longleftrightarrow> (\<forall>cmd c c'. \<forall>w \<in> set (W cmd c). cl_buffers (w c') = cl_buffers c')"

lemma blocking_loop_buffers:
  "blocking_loop i ws c = Some c' \<Longrightarrow> \<forall>w \<in> set ws. \<forall>c. cl_buffers (w c) = cl_buffers c \<Longrightarrow> cl_buffers c' = cl_buffers c"
proof (induction i ws c rule: blocking_loop.induct)
  case (1 i ws c)
  then show ?case by (cases ws) (simp_all add: blocking_loop.simps split: if_splits)
qed

lemma fs_command_blocking_buffers:
  assumes "fs_command_blocking cmd ws c = Some (err, r, c')" "\<forall>w \<in> set ws. \<forall>c. cl_buffers (w c) = cl_buffers c"
  shows "cl_buffers c' = cl_buffers c"
  using assms
  by (auto simp: fs_command_blocking_def fs_request_allocate_def fs_command_issue_def fs_request_free_def bind_eq_Some_conv
      Let_def split: option.splits if_splits dest!: blocking_loop_buffers)

lemma held_request:
  assumes "held b X st st1" "request W cmd st1 = Some (r, st2)" "b \<longrightarrow> waits_keep_buffers W"
  shows "held b X st st2"
proof -
  from assms(2) obtain err c where c: "fs_command_blocking cmd (W cmd (px_client st1)) (px_client st1) = Some (err, r, c)"
    "st2 = st1\<lparr>px_client := c\<rparr>" by (auto simp: request_def bind_eq_Some_conv)
  show ?thesis by (rule held_same [OF assms(1) c(2)])
    (use fs_command_blocking_buffers [OF c(1)] assms(3) in \<open>auto simp: waits_keep_buffers_def\<close>)
qed

lemma held_request_unchecked:
  assumes "held b X st st1" "request_unchecked W cmd st1 = Some (r, st2)" "b \<longrightarrow> waits_keep_buffers W"
  shows "held b X st st2"
  using assms(2) held_request [OF assms(1) _ assms(3)] by (auto simp: request_unchecked_def bind_eq_Some_conv)

text \<open>A buffer that is given back is held no longer.\<close>

lemma held_release:
  assumes "held b (insert (buffer_no x) X) st st1" "buffer_free x st1 = Some st2" "b \<longrightarrow> buffer_no x \<notin> X"
  shows "held b X st st2"
proof (cases b)
  case True
  then show ?thesis using held_free [OF assms(1,2)] assms(3) by simp
next
  case False
  then show ?thesis using held_free [OF assms(1,2)] by (simp add: held_def)
qed

lemmas held_steps = held_put held_request held_request_unchecked

subsection \<open>Calls on files\<close>

lemma held_write_loop:
  assumes "b \<longrightarrow> waits_keep_buffers W"
    and "write_loop W fd x data n st1 = Some (r, st2)" "held b (insert (buffer_no x) X) st st1" "b \<longrightarrow> buffer_no x \<notin> X"
  shows "held b (if isl r then X else insert (buffer_no x) X) st st2"
  using assms(2,3)
proof (induction "length data" arbitrary: data n st1 rule: less_induct)
  case less
  show ?case
  proof (cases "data = []")
    case True
    with less.prems show ?thesis by (auto simp: write_loop.simps)
  next
    case False
    define k where "k = min (length data) FS_BUFFER_SIZE"
    note run = less.prems(1) [unfolded write_loop.simps [of W fd x data n st1] if_not_P [OF False] Let_def k_def [symmetric]]
    have k: "0 < k" using False by (simp add: k_def FS_BUFFER_SIZE_def)
    let ?cm = "fs_command FS_CMD_FILE_WRITE [server_fd fd (buffer_put x (take k data) st1),
      of_int (fe_file_ptr (px_table (buffer_put x (take k data) st1) ! nat fd)) + n, of_nat x, of_nat k]"
    from run obtain c st3 where q: "request W ?cm (buffer_put x (take k data) st1) = Some (c, st3)"
      by (auto simp: bind_eq_Some_conv)
    note run = run [unfolded q Option.bind.bind_lunit prod.case]
    have h3: "held b (insert (buffer_no x) X) st st3"
      by (rule held_request [OF held_put [OF less.prems(2)] q assms(1)])
    note free = held_release [OF h3 _ assms(4)]
    show ?thesis
    proof (cases c)
      case None
      with run show ?thesis by (auto simp: bind_eq_Some_conv dest: free)
    next
      case (Some m)
      show ?thesis
      proof (cases "succeeded m \<and> \<not> cmpl_data m < of_nat k")
        case True
        with run Some have "write_loop W fd x (drop k data) (n + cmpl_data m) st3 = Some (r, st2)" by simp
        then show ?thesis using less.hyps [of "drop k data"] h3 k False by simp
      next
        case no: False
        with run Some h3 show ?thesis by (auto simp: bind_eq_Some_conv dest: free split: if_splits)
      qed
    qed
  qed
qed

lemma held_read_loop:
  assumes "b \<longrightarrow> waits_keep_buffers W"
    and "read_loop W fd x len pos buf n st1 = Some (r, buf', st2)" "held b (insert (buffer_no x) X) st st1"
    and "b \<longrightarrow> buffer_no x \<notin> X"
  shows "held b (if isl r then X else insert (buffer_no x) X) st st2"
  using assms(2,3)
proof (induction len arbitrary: pos buf n st1 rule: less_induct)
  case (less len)
  show ?case
  proof (cases "len = 0")
    case True
    with less.prems show ?thesis by (auto simp: read_loop.simps)
  next
    case False
    define k where "k = min len FS_BUFFER_SIZE"
    note run = less.prems(1) [unfolded read_loop.simps [of W fd x len pos buf n st1] if_not_P [OF False] Let_def k_def [symmetric]]
    have k: "0 < k" using False by (simp add: k_def FS_BUFFER_SIZE_def)
    let ?cm = "fs_command FS_CMD_FILE_READ [server_fd fd st1, of_int (fe_file_ptr (px_table st1 ! nat fd)) + n, of_nat x, of_nat k]"
    from run obtain c st3 where q: "request W ?cm st1 = Some (c, st3)"
      by (auto simp: bind_eq_Some_conv)
    note run = run [unfolded q Option.bind.bind_lunit prod.case]
    have h3: "held b (insert (buffer_no x) X) st st3" by (rule held_request [OF less.prems(2) q assms(1)])
    note free = held_release [OF h3 _ assms(4)]
    show ?thesis
    proof (cases c)
      case None
      with run show ?thesis by (auto simp: bind_eq_Some_conv dest: free)
    next
      case (Some m)
      show ?thesis
      proof (cases "succeeded m \<and> \<not> unat (cmpl_data m) < k")
        case True
        with run Some obtain buf2 n2 where "read_loop W fd x (len - k) (pos + k) buf2 n2 st3 = Some (r, buf', st2)"
          by (auto simp: bind_eq_Some_conv split: if_splits)
        then show ?thesis using less.IH [of "len - k"] h3 k False by simp
      next
        case no: False
        with run Some h3 show ?thesis by (auto simp: bind_eq_Some_conv dest: free split: if_splits)
      qed
    qed
  qed
qed

text \<open>The effect of a call on a descriptor: the client, and the position of the entry.\<close>

definition file_effect :: "bool \<Rightarrow> int \<Rightarrow> ('s, 'q) posix \<Rightarrow> ('s, 'q) posix \<Rightarrow> bool" where
  "file_effect b fd st st' \<longleftrightarrow> (\<exists>st1. held b {} st st1 \<and>
     (st' = st1 \<or> posix_fd_entry fd st \<noteq> None \<and> (\<exists>p. st' = set_entry_at fd ((px_table st1 ! nat fd)\<lparr>fe_file_ptr := p\<rparr>) st1)))"

lemma file_effect_same: "file_effect b fd st st"
  unfolding file_effect_def using held_refl by blast

lemma file_effect_held: "held b {} st st' \<Longrightarrow> file_effect b fd st st'"
  unfolding file_effect_def by blast

lemma file_effect_advance: "held b {} st st1 \<Longrightarrow> posix_fd_entry fd st = Some e \<Longrightarrow> file_effect b fd st (advance fd n st1)"
  unfolding file_effect_def advance_def Let_def by blast

lemma file_write_effect:
  assumes W: "b \<longrightarrow> waits_keep_buffers W" and run: "file_write W buf len fd st = Some (r, st')"
  shows "file_effect b fd st st'"
proof (cases "len = 0 \<or> buf = None \<or> posix_fd_entry fd st = None")
  case True
  with run have "st' = st" by (auto simp: file_write_def split: if_splits option.splits)
  then show ?thesis by (simp add: file_effect_same)
next
  case False
  then obtain bs e where bs: "len \<noteq> 0" "buf = Some bs" "posix_fd_entry fd st = Some e" by auto
  note run = run [unfolded file_write_def bs(2,3) if_not_P [OF bs(1)] option.case if_not_P [OF option.distinct(2)]]
  from run obtain x st1 where a: "buffer_allocate st = Some (x, st1)" by (auto simp: bind_eq_Some_conv)
  note run = run [unfolded a Option.bind.bind_lunit prod.case]
  show ?thesis
  proof (cases x)
    case None
    with run a show ?thesis by (auto dest: allocate_none simp: file_effect_same)
  next
    case (Some x)
    note h1 = held_allocate [OF held_refl a [unfolded Some]]
    note run = run [unfolded Some option.case]
    from run obtain res st2 where l: "write_loop W fd x (take len bs) 0 st1 = Some (res, st2)"
      by (auto simp: bind_eq_Some_conv)
    note run = run [unfolded l Option.bind.bind_lunit prod.case]
    have h2: "held b (if isl res then {} else {buffer_no x}) st st2" by (rule held_write_loop [OF W l h1])
    show ?thesis
    proof (cases res)
      case (Inl e)
      with run h2 show ?thesis by (simp add: file_effect_held)
    next
      case (Inr n)
      with run obtain st3 where st3: "buffer_free x st2 = Some st3" "st' = advance fd n st3"
        by (auto simp: bind_eq_Some_conv)
      have "held b {} st st3" by (rule held_release [OF _ st3(1)]) (use h2 Inr in simp_all)
      then show ?thesis unfolding st3(2) by (rule file_effect_advance [OF _ bs(3)])
    qed
  qed
qed

lemma file_read_effect:
  assumes W: "b \<longrightarrow> waits_keep_buffers W" and run: "file_read W buf len fd st = Some (r, out, st')"
  shows "file_effect b fd st st'"
proof (cases "len = 0 \<or> buf = None \<or> posix_fd_entry fd st = None")
  case True
  with run have "st' = st" by (auto simp: file_read_def split: if_splits option.splits)
  then show ?thesis by (simp add: file_effect_same)
next
  case False
  then obtain bs e where bs: "len \<noteq> 0" "buf = Some bs" "posix_fd_entry fd st = Some e" by auto
  note run = run [unfolded file_read_def bs(2,3) if_not_P [OF bs(1)] option.case if_not_P [OF option.distinct(2)]]
  from run obtain x st1 where a: "buffer_allocate st = Some (x, st1)" by (auto simp: bind_eq_Some_conv)
  note run = run [unfolded a Option.bind.bind_lunit prod.case]
  show ?thesis
  proof (cases x)
    case None
    with run a show ?thesis by (auto dest: allocate_none simp: file_effect_same)
  next
    case (Some x)
    note h1 = held_allocate [OF held_refl a [unfolded Some]]
    note run = run [unfolded Some option.case]
    from run obtain res out2 st2 where l: "read_loop W fd x len 0 (take len bs) 0 st1 = Some (res, out2, st2)"
      by (auto simp: bind_eq_Some_conv)
    note run = run [unfolded l Option.bind.bind_lunit prod.case]
    have h2: "held b (if isl res then {} else {buffer_no x}) st st2" by (rule held_read_loop [OF W l h1])
    show ?thesis
    proof (cases res)
      case (Inl e)
      with run h2 show ?thesis by (simp add: file_effect_held)
    next
      case (Inr n)
      with run obtain st3 where st3: "buffer_free x st2 = Some st3" "st' = advance fd n st3"
        by (auto simp: bind_eq_Some_conv)
      have "held b {} st st3" by (rule held_release [OF _ st3(1)]) (use h2 Inr in simp_all)
      then show ?thesis unfolding st3(2) by (rule file_effect_advance [OF _ bs(3)])
    qed
  qed
qed

lemma held_fstat_int:
  assumes W: "b \<longrightarrow> waits_keep_buffers W" and h: "held b X st st1"
    and run: "fstat_int W path sb st1 = Some (r, sb', st2)"
  shows "held b X st st2"
proof (cases "path = [slash]")
  case True
  with h run show ?thesis by (simp add: fstat_int_def)
next
  case False
  note run = run [unfolded fstat_int_def if_not_P [OF False]]
  from run obtain pb s1 where a1: "buffer_allocate st1 = Some (pb, s1)" by (auto simp: bind_eq_Some_conv)
  note run = run [unfolded a1 Option.bind.bind_lunit prod.case]
  show ?thesis
  proof (cases pb)
    case None
    with run h a1 show ?thesis by (auto dest: allocate_none)
  next
    case (Some p)
    note h1 = held_allocate [OF h a1 [unfolded Some]]
    note run = run [unfolded Some option.case]
    from run obtain ob s2 where a2: "buffer_allocate s1 = Some (ob, s2)" by (auto simp: bind_eq_Some_conv)
    note run = run [unfolded a2 Option.bind.bind_lunit prod.case]
    show ?thesis
    proof (cases ob)
      case None
      with run a2 show ?thesis using held_release [OF h1(1) _ h1(2)]
        by (auto simp: bind_eq_Some_conv dest!: allocate_none)
    next
      case ob: (Some oo)
      note h2 = held_allocate [OF h1(1) a2 [unfolded ob]]
      note run = run [unfolded ob option.case Let_def]
      from run obtain c s3 s4 where q: "request_unchecked W (fs_command FS_CMD_STAT
            [of_nat p, of_nat (length path), of_nat oo, of_nat FS_BUFFER_SIZE]) (buffer_put p path s2) = Some (c, s3)"
          "buffer_free p s3 = Some s4"
        by (auto simp: bind_eq_Some_conv)
      note run = run [unfolded q Option.bind.bind_lunit prod.case]
      have "held b (insert (buffer_no oo) (insert (buffer_no p) X)) st s3"
        by (rule held_request_unchecked [OF held_put [OF h2(1)] q(1) W])
      then have "held b (insert (buffer_no p) (insert (buffer_no oo) X)) st s3" by (simp add: insert_commute)
      then have h4: "held b (insert (buffer_no oo) X) st s4" by (rule held_release [OF _ q(2)]) (use h1(2) h2(2) in auto)
      have free: "buffer_free oo s4 = Some s5 \<Longrightarrow> held b X st s5" for s5
        by (rule held_release [OF h4]) (use h2(2) in auto)
      show ?thesis using run by (auto simp: bind_eq_Some_conv dest: free split: if_splits)
    qed
  qed
qed

lemma held_parent_check:
  assumes W: "b \<longrightarrow> waits_keep_buffers W"
  shows "held b X st st1 \<Longrightarrow> parent_check W p st1 = Some (r, st2) \<Longrightarrow> held b X st st2"
proof (induction "length p" arbitrary: p st1 rule: less_induct)
  case less
  show ?case
  proof (cases "last_slash p = None \<or> last_slash p = Some 0")
    case True
    with less.prems show ?thesis by (auto simp: parent_check.simps [of W p])
  next
    case False
    then obtain k where k: "last_slash p = Some k" "k \<noteq> 0" by auto
    note run = less.prems(2) [unfolded parent_check.simps [of W p] k(1) option.case if_not_P [OF k(2)]]
    from run obtain e sb st3 where q: "fstat_int W (take k p) zero_stat st1 = Some (e, sb, st3)"
      by (auto simp: bind_eq_Some_conv)
    have h: "held b X st st3" by (rule held_fstat_int [OF W less.prems(1) q])
    show ?thesis
    proof (cases "e = 0")
      case True
      with run q h show ?thesis by simp
    next
      case False
      with run q have "parent_check W (take k p) st3 = Some (r, st2)" by simp
      then show ?thesis using less.hyps [of "take k p"] h last_slash_less [OF k(1)] by simp
    qed
  qed
qed

lemma held_unlink_checks:
  assumes W: "b \<longrightarrow> waits_keep_buffers W" and h: "held b X st st1" and run: "unlink_checks W p st1 = Some (r, st2)"
  shows "held b X st st2"
proof -
  from run obtain e sb st3 where q: "fstat_int W p zero_stat st1 = Some (e, sb, st3)"
    by (auto simp: unlink_checks_def bind_eq_Some_conv)
  have h3: "held b X st st3" by (rule held_fstat_int [OF W h q])
  with run q show ?thesis using held_parent_check [OF W h3] by (auto simp: unlink_checks_def split: if_splits)
qed

lemma held_path_request:
  assumes W: "b \<longrightarrow> waits_keep_buffers W" and h: "held b X st st1" and run: "path_request W t p st1 = Some (r, st2)"
  shows "held b X st st2"
proof (cases "length p \<ge> FS_BUFFER_SIZE")
  case True
  with h run show ?thesis by (simp add: path_request_def)
next
  case False
  note run = run [unfolded path_request_def if_not_P [OF False]]
  from run obtain pb s1 where a: "buffer_allocate st1 = Some (pb, s1)" by (auto simp: bind_eq_Some_conv)
  note run = run [unfolded a Option.bind.bind_lunit prod.case]
  show ?thesis
  proof (cases pb)
    case None
    with run h a show ?thesis by (auto dest: allocate_none)
  next
    case (Some x)
    note h1 = held_allocate [OF h a [unfolded Some]]
    note run = run [unfolded Some option.case Let_def]
    from run obtain c s3 s4 where q: "request_unchecked W (fs_command t [of_nat x, of_nat (length p)]) (buffer_put x p s1) = Some (c, s3)"
        "buffer_free x s3 = Some s4"
      by (auto simp: bind_eq_Some_conv)
    note run = run [unfolded q Option.bind.bind_lunit prod.case]
    have "held b X st s4"
      by (rule held_release [OF held_request_unchecked [OF held_put [OF h1(1)] q(1) W] q(2) h1(2)])
    with run show ?thesis by (auto simp: bind_eq_Some_conv split: if_splits)
  qed
qed

lemma held_open_checks:
  assumes W: "b \<longrightarrow> waits_keep_buffers W" and h: "held b X st st1" and run: "open_checks W p flags st1 = Some (r, st2)"
  shows "held b X st st2"
proof -
  let ?c1 = "if has_flag flags O_CREAT \<and> has_flag flags O_EXCL
       then do { (e, sb, st) \<leftarrow> fstat_int W p zero_stat st1; Some (e = 0, st) } else Some (False, st1)"
  from run obtain ex st3 where c1: "?c1 = Some (ex, st3)"
    unfolding open_checks_def by (auto simp: bind_eq_Some_conv)
  have h3: "held b X st st3" using c1 h held_fstat_int [OF W h] by (auto simp: bind_eq_Some_conv split: if_splits)
  note run = run [unfolded open_checks_def c1 Option.bind.bind_lunit prod.case]
  show ?thesis
    using run h3 held_fstat_int [OF W h3] by (auto simp: bind_eq_Some_conv split: if_splits)
qed

text \<open>The request to open gives the buffer of the path back.\<close>

lemma held_open_request:
  assumes W: "b \<longrightarrow> waits_keep_buffers W" and h: "held b (insert (buffer_no pb) X) st st1" "b \<longrightarrow> buffer_no pb \<notin> X"
    and run: "open_request W pb n flags st1 = Some (r, st2)"
  shows "held b X st st2"
proof -
  let ?cm = "if has_flag flags O_DIRECTORY then fs_command FS_CMD_DIR_OPEN [of_nat pb, of_nat n]
        else fs_command FS_CMD_FILE_OPEN [of_nat pb, of_nat n, open_flags_of flags]"
  from run obtain c s1 s2 where q: "request_unchecked W ?cm st1 = Some (c, s1)" "buffer_free pb s1 = Some s2"
    unfolding open_request_def by (auto simp: bind_eq_Some_conv)
  have h2: "held b X st s2" by (rule held_release [OF held_request_unchecked [OF h(1) q(1) W] q(2) h(2)])
  note run = run [unfolded open_request_def q Option.bind.bind_lunit prod.case]
  show ?thesis
    using run h2 held_request_unchecked [OF h2 _ W] by (auto simp: bind_eq_Some_conv split: if_splits)
qed

lemma held_file_fstat: "b \<longrightarrow> waits_keep_buffers W \<Longrightarrow> held b X st st1 \<Longrightarrow> file_fstat W fd sb st1 = Some (r, sb', st2) \<Longrightarrow>
    held b X st st2"
  unfolding file_fstat_def by (rule held_fstat_int)

lemma held_fstatat:
  assumes "b \<longrightarrow> waits_keep_buffers W" "sys_fstatat W dirfd path sb st = Some (r, sb', st')"
  shows "held b {} st st'"
proof (cases sb)
  case None
  with assms(2) show ?thesis by (simp add: sys_fstatat_def held_refl)
next
  case (Some s)
  with assms(2) obtain res where res: "resolve_path dirfd path PATH_MAX st = Some res"
    by (auto simp: sys_fstatat_def bind_eq_Some_conv)
  note run = assms(2) [unfolded sys_fstatat_def Some option.case res Option.bind.bind_lunit]
  show ?thesis
  proof (cases res)
    case (Inl e)
    with run show ?thesis by (simp add: held_refl)
  next
    case (Inr p)
    show ?thesis
      using run [unfolded Inr sum.case] held_fstat_int [OF assms(1) held_refl]
      by (auto simp: held_refl bind_eq_Some_conv split: if_splits)
  qed
qed

lemma held_mkdirat:
  assumes "b \<longrightarrow> waits_keep_buffers W" "sys_mkdirat W dirfd path st = Some (r, st')"
  shows "held b {} st st'"
proof -
  from assms(2) obtain res where res: "resolve_path dirfd path PATH_MAX st = Some res"
    by (auto simp: sys_mkdirat_def bind_eq_Some_conv)
  show ?thesis
    using assms(2) [unfolded sys_mkdirat_def res Option.bind.bind_lunit] held_path_request [OF assms(1) held_refl]
    by (cases res) (simp_all add: held_refl)
qed

lemma held_unlinkat:
  assumes "b \<longrightarrow> waits_keep_buffers W" "sys_unlinkat W dirfd path flags st = Some (r, st')"
  shows "held b {} st st'"
proof -
  from assms(2) obtain res where res: "resolve_path dirfd path PATH_MAX st = Some res"
    by (auto simp: sys_unlinkat_def bind_eq_Some_conv)
  note run = assms(2) [unfolded sys_unlinkat_def res Option.bind.bind_lunit]
  show ?thesis
  proof (cases "\<exists>p. res = Inr p \<and> p \<noteq> services_path")
    case False
    with run show ?thesis by (auto simp: held_refl split: sum.splits)
  next
    case True
    then obtain p where p: "res = Inr p" "p \<noteq> services_path" by blast
    note run = run [unfolded p(1) sum.case if_not_P [OF p(2)]]
    from run obtain e st1 where c: "(if has_flag flags AT_REMOVEDIR then Some (0, st) else unlink_checks W p st) = Some (e, st1)"
      by (auto simp: bind_eq_Some_conv)
    have h: "held b {} st st1"
      using c held_unlink_checks [OF assms(1) held_refl] by (auto simp: held_refl split: if_splits)
    note run = run [unfolded c Option.bind.bind_lunit prod.case]
    show ?thesis using run h held_path_request [OF assms(1) h] by (auto split: if_splits)
  qed
qed

lemma file_effect_set_ptr: "held b {} st st1 \<Longrightarrow> posix_fd_entry fd st = Some e \<Longrightarrow> set_file_ptr fd p st1 = (r, st') \<Longrightarrow> file_effect b fd st st'"
  unfolding file_effect_def set_file_ptr_def by auto

lemma lseek_effect:
  assumes "b \<longrightarrow> waits_keep_buffers W" "sys_lseek W fd offset whence st = Some (r, st')"
  shows "file_effect b fd st st'"
proof (cases "(fd = SERVICES_FD \<or> fd = ETC_FD) \<or> posix_fd_entry fd st = None")
  case True
  with assms(2) show ?thesis by (auto simp: sys_lseek_def file_effect_same split: if_splits)
next
  case False
  then obtain e where e: "\<not> (fd = SERVICES_FD \<or> fd = ETC_FD)" "posix_fd_entry fd st = Some e" by auto
  note run = assms(2) [unfolded sys_lseek_def if_not_P [OF e(1)] e(2) option.case Let_def]
  note ptr = file_effect_set_ptr [OF held_refl e(2)]
  show ?thesis
  proof (cases "whence = SEEK_END")
    case False
    with run show ?thesis by (auto simp: file_effect_same bind_eq_Some_conv split: if_splits intro: ptr)
  next
    case True
    then have "whence \<noteq> SEEK_SET" "whence \<noteq> SEEK_CUR" by (simp_all add: SEEK_SET_def SEEK_CUR_def SEEK_END_def)
    with run True obtain c st1 where q: "request W (fs_command FS_CMD_FILE_SIZE [server_fd fd st]) st = Some (c, st1)"
      by (auto simp: bind_eq_Some_conv)
    have h: "held b {} st st1" by (rule held_request [OF held_refl q assms(1)])
    note ptr = file_effect_set_ptr [OF h e(2)]
    from run True \<open>whence \<noteq> SEEK_SET\<close> \<open>whence \<noteq> SEEK_CUR\<close> q file_effect_held [OF h] show ?thesis
      by (cases c) (auto simp: bind_eq_Some_conv split: if_splits intro: ptr)
  qed
qed

end
