(* ===== verification/Px_Props.thy ===== *)
theory Px_Props
  imports Px_Frame "HOL-Library.Multiset"
begin

text \<open>
  What holds of the descriptors of the POSIX library in every run of system calls: the tables agree with each other, the
  socket library counts exactly the descriptors of each socket, so that a socket is closed with its last descriptor and
  not before, and the calls on files give back every buffer they take. What the counting asks of a socket library is a
  locale, which the library of \<open>lib/sock/tcp.c\<close> implements.
\<close>

subsection \<open>The tables of descriptors\<close>

definition entry_ok :: "fd_entry \<Rightarrow> bool" where
  "entry_ok e \<longleftrightarrow>
     (fe_close e = None \<and> fe_read e = None \<and> fe_dup3 e = None \<and> fe_fstat e = None \<and>
        (fe_write e = None \<or> fe_write e = Some Console)) \<or>
     (\<exists>k. k \<noteq> Console \<and> fe_write e = Some k \<and> fe_read e = Some k \<and> fe_close e = Some k \<and> fe_dup3 e = Some k \<and> fe_fstat e = Some k)"

text \<open>One row: whether it is in use, the entry, the socket and the descriptor of the file server.\<close>

definition slot_ok :: "bool \<Rightarrow> fd_entry \<Rightarrow> int \<Rightarrow> int \<Rightarrow> bool" where
  "slot_ok a e h s \<longleftrightarrow> entry_ok e \<and> (\<not> a \<longrightarrow> e = zero_entry) \<and> (h \<noteq> - 1 \<longleftrightarrow> fe_close e = Some Sock) \<and> - 1 \<le> h \<and>
     (fe_close e \<noteq> Some File \<longrightarrow> s = - 1)"

definition fds_ok :: "('s, 'q) posix \<Rightarrow> bool" where
  "fds_ok st \<longleftrightarrow> length (px_active st) = MAX_FDS \<and> length (px_table st) = MAX_FDS \<and> length (px_fd_socket st) = MAX_FDS \<and>
     length (px_server_fd st) = MAX_FDS \<and> length (px_fd_path st) = MAX_FDS \<and>
     (\<forall>i < MAX_FDS. slot_ok (px_active st ! i) (px_table st ! i) (px_fd_socket st ! i) (px_server_fd st ! i))"

lemma fds_okD: "fds_ok st \<Longrightarrow> i < MAX_FDS \<Longrightarrow>
    slot_ok (px_active st ! i) (px_table st ! i) (px_fd_socket st ! i) (px_server_fd st ! i)"
  by (simp add: fds_ok_def)

lemma fds_ok_lengths:
  assumes "fds_ok st"
  shows "length (px_active st) = MAX_FDS" "length (px_table st) = MAX_FDS" "length (px_fd_socket st) = MAX_FDS"
    "length (px_server_fd st) = MAX_FDS" "length (px_fd_path st) = MAX_FDS"
  using assms by (simp_all add: fds_ok_def)

text \<open>A change of one row.\<close>

definition rows_but :: "nat \<Rightarrow> ('s, 'q) posix \<Rightarrow> ('s, 'q) posix \<Rightarrow> bool" where
  "rows_but i st st' \<longleftrightarrow>
     length (px_active st') = length (px_active st) \<and> length (px_table st') = length (px_table st) \<and>
     length (px_fd_socket st') = length (px_fd_socket st) \<and> length (px_server_fd st') = length (px_server_fd st) \<and>
     length (px_fd_path st') = length (px_fd_path st) \<and>
     (\<forall>j. j \<noteq> i \<longrightarrow> px_active st' ! j = px_active st ! j \<and> px_table st' ! j = px_table st ! j \<and>
        px_fd_socket st' ! j = px_fd_socket st ! j \<and> px_server_fd st' ! j = px_server_fd st ! j)"

lemma fds_ok_row:
  assumes "fds_ok st" "rows_but i st st'"
    "slot_ok (px_active st' ! i) (px_table st' ! i) (px_fd_socket st' ! i) (px_server_fd st' ! i)"
  shows "fds_ok st'"
proof -
  have "slot_ok (px_active st' ! j) (px_table st' ! j) (px_fd_socket st' ! j) (px_server_fd st' ! j)" if "j < MAX_FDS" for j
    using assms fds_okD [OF assms(1) that] by (cases "j = i") (simp_all add: rows_but_def)
  then show ?thesis using assms(1,2) by (simp add: fds_ok_def rows_but_def)
qed

lemma fds_ok_same:
  assumes "fds_ok st" "px_active st' = px_active st" "px_table st' = px_table st"
    "px_fd_socket st' = px_fd_socket st" "px_server_fd st' = px_server_fd st" "px_fd_path st' = px_fd_path st"
  shows "fds_ok st'"
  using assms by (simp add: fds_ok_def)

text \<open>A descriptor that is in use.\<close>

lemma fd_entry_SomeD:
  assumes "posix_fd_entry fd st = Some e"
  shows "0 \<le> fd" "nat fd < MAX_FDS" "px_active st ! nat fd" "e = px_table st ! nat fd"
  using assms by (auto simp: posix_fd_entry_def posix_fd_is_valid_def split: if_splits)

lemma allocate_fd:
  assumes "posix_fd_allocate st = (fd, st1)" "\<not> fd < 0" "fds_ok st"
  shows "nat fd < MAX_FDS" "int (nat fd) = fd" "\<not> px_active st ! nat fd" "px_table st ! nat fd = zero_entry"
    "px_fd_socket st ! nat fd = - 1" "px_server_fd st ! nat fd = - 1" "st1 = st\<lparr>px_active := (px_active st)[nat fd := True]\<rparr>"
    "posix_fd_entry fd st1 = Some zero_entry"
proof -
  obtain i where i: "find_index Not (px_active st) = Some i" "fd = int i" "st1 = st\<lparr>px_active := (px_active st)[i := True]\<rparr>"
    using assms(1,2) by (auto simp: posix_fd_allocate_def split: option.splits)
  have l: "length (px_active st) = MAX_FDS" using assms(3) by (simp add: fds_ok_def)
  have a: "i < MAX_FDS" "\<not> px_active st ! i" using find_index_SomeD [OF i(1)] l by auto
  have z: "slot_ok (px_active st ! i) (px_table st ! i) (px_fd_socket st ! i) (px_server_fd st ! i)"
    by (rule fds_okD [OF assms(3) a(1)])
  then have e: "px_table st ! i = zero_entry" using a(2) by (simp add: slot_ok_def)
  with z show "px_fd_socket st ! nat fd = - 1" "px_server_fd st ! nat fd = - 1" "px_table st ! nat fd = zero_entry"
    by (auto simp: slot_ok_def zero_entry_def i(2))
  show "nat fd < MAX_FDS" "int (nat fd) = fd" "\<not> px_active st ! nat fd" "st1 = st\<lparr>px_active := (px_active st)[nat fd := True]\<rparr>"
    using a i by simp_all
  show "posix_fd_entry fd st1 = Some zero_entry"
    using a i e l by (simp add: posix_fd_entry_def posix_fd_is_valid_def)
qed

lemma allocate_fd_none: "posix_fd_allocate st = (fd, st1) \<Longrightarrow> fd < 0 \<Longrightarrow> st1 = st"
  by (auto simp: posix_fd_allocate_def split: option.splits)

lemma slot_zero: "slot_ok a zero_entry (- 1) (- 1)"
  by (simp add: slot_ok_def entry_ok_def zero_entry_def)

text \<open>The effect of a deallocation of a descriptor in use.\<close>

lemma deallocate_fd:
  assumes "0 \<le> fd" "nat fd < MAX_FDS" "px_active st ! nat fd"
  shows "snd (posix_fd_deallocate fd st) =
    st\<lparr>px_active := (px_active st)[nat fd := False], px_table := (px_table st)[nat fd := zero_entry]\<rparr>"
  using assms by (auto simp: posix_fd_deallocate_def posix_fd_is_valid_def)

subsection \<open>Calls on files\<close>

text \<open>What a call on files does to the rest of the state.\<close>

definition file_step :: "bool \<Rightarrow> ('s, 'q) posix \<Rightarrow> ('s, 'q) posix \<Rightarrow> bool" where
  "file_step b st st' \<longleftrightarrow> px_fd_socket st' = px_fd_socket st \<and> px_sock st' = px_sock st \<and>
     (b \<longrightarrow> cl_buffers (px_client st') = cl_buffers (px_client st)) \<and> (fds_ok st \<longrightarrow> fds_ok st')"

lemma file_step_refl: "file_step b st st"
  by (simp add: file_step_def)

lemma file_step_trans: "file_step b st st1 \<Longrightarrow> file_step b st1 st2 \<Longrightarrow> file_step b st st2"
  by (auto simp: file_step_def)

lemma held_fields:
  assumes "held b X st st'"
  shows "px_active st' = px_active st" "px_table st' = px_table st" "px_fd_socket st' = px_fd_socket st"
    "px_sock st' = px_sock st" "px_server_fd st' = px_server_fd st" "px_fd_path st' = px_fd_path st"
  by (subst held_frame [OF assms], simp)+

lemma held_step: "held b {} st st' \<Longrightarrow> file_step b st st'"
  using held_none [of st st'] held_fields [of b "{}" st st']
  by (cases b) (auto simp: file_step_def fds_ok_def)

lemma effect_step:
  assumes "file_effect b fd st st'"
  shows "file_step b st st'"
proof -
  from assms obtain st1 where h: "held b {} st st1" and
    c: "st' = st1 \<or> posix_fd_entry fd st \<noteq> None \<and> (\<exists>p. st' = set_entry_at fd ((px_table st1 ! nat fd)\<lparr>fe_file_ptr := p\<rparr>) st1)"
    unfolding file_effect_def by blast
  note f = held_fields [OF h]
  from c show ?thesis
  proof
    assume "st' = st1"
    with h show ?thesis by (simp add: held_step)
  next
    assume "posix_fd_entry fd st \<noteq> None \<and> (\<exists>p. st' = set_entry_at fd ((px_table st1 ! nat fd)\<lparr>fe_file_ptr := p\<rparr>) st1)"
    then obtain e p where e: "posix_fd_entry fd st = Some e" and
      st': "st' = set_entry_at fd ((px_table st1 ! nat fd)\<lparr>fe_file_ptr := p\<rparr>) st1" by blast
    have "file_step b st1 st'"
      unfolding file_step_def
    proof (intro conjI impI)
      assume ok: "fds_ok st1"
      note d = fd_entry_SomeD [OF e]
      have s: "slot_ok (px_active st1 ! nat fd) (px_table st1 ! nat fd) (px_fd_socket st1 ! nat fd) (px_server_fd st1 ! nat fd)"
        by (rule fds_okD [OF ok d(2)])
      show "fds_ok st'"
      proof (rule fds_ok_row [OF ok, where i = "nat fd"])
        show "rows_but (nat fd) st1 st'" by (simp add: rows_but_def st' set_entry_at_def)
        show "slot_ok (px_active st' ! nat fd) (px_table st' ! nat fd) (px_fd_socket st' ! nat fd) (px_server_fd st' ! nat fd)"
          using s d f fds_ok_lengths [OF ok] by (simp add: st' set_entry_at_def slot_ok_def entry_ok_def)
      qed
    qed (simp_all add: st' set_entry_at_def)
    then show ?thesis using file_step_trans [OF held_step [OF h]] by blast
  qed
qed

text \<open>A descriptor that becomes free again.\<close>

lemma deallocate_ok:
  assumes ok: "fds_ok st" and fd: "0 \<le> fd" "nat fd < MAX_FDS" "px_active st ! nat fd"
    and rest: "px_fd_socket st ! nat fd = - 1" "px_server_fd st ! nat fd = - 1"
  shows "fds_ok (snd (posix_fd_deallocate fd st))"
  using rest fd fds_ok_lengths [OF ok] slot_zero
  by (intro fds_ok_row [OF ok, where i = "nat fd"]) (simp_all add: deallocate_fd rows_but_def)

lemma close_step:
  assumes W: "b \<longrightarrow> waits_keep_buffers W" and run: "file_close W fd st = Some (r, st')"
    and e: "posix_fd_entry fd st = Some e" "fe_close e = Some File"
  shows "file_step b st st'"
proof -
  let ?t = "if has_flag (fe_flags e) O_DIRECTORY then FS_CMD_DIR_CLOSE else FS_CMD_FILE_CLOSE"
  note run = run [unfolded file_close_def e(1) option.case Let_def]
  from run obtain c st1 where q: "request_unchecked W (fs_command ?t [server_fd fd st]) st = Some (c, st1)"
    by (auto simp: bind_eq_Some_conv)
  have h: "held b {} st st1" by (rule held_request_unchecked [OF held_refl q W])
  note f = held_fields [OF h]
  note d = fd_entry_SomeD [OF e(1)]
  let ?st2 = "st1\<lparr>px_server_fd := (px_server_fd st1)[nat fd := - 1], px_fd_path := (px_fd_path st1)[nat fd := []]\<rparr>"
  have "st' = snd (posix_fd_deallocate fd ?st2)" using run q by (auto simp: bind_eq_Some_conv)
  then have st': "st' = ?st2\<lparr>px_active := (px_active st1)[nat fd := False], px_table := (px_table st1)[nat fd := zero_entry]\<rparr>"
    using deallocate_fd [of fd ?st2] d f by simp
  have "file_step b st1 st'"
    unfolding file_step_def
  proof (intro conjI impI)
    assume ok: "fds_ok st1"
    have "slot_ok (px_active st1 ! nat fd) (px_table st1 ! nat fd) (px_fd_socket st1 ! nat fd) (px_server_fd st1 ! nat fd)"
      by (rule fds_okD [OF ok d(2)])
    then have h1: "px_fd_socket st1 ! nat fd = - 1" using e(2) d(4) f by (simp add: slot_ok_def)
    show "fds_ok st'"
      using h1 d(2) fds_ok_lengths [OF ok] slot_zero
      by (intro fds_ok_row [OF ok, where i = "nat fd"]) (simp_all add: st' rows_but_def)
  qed (simp_all add: st')
  then show ?thesis using file_step_trans [OF held_step [OF h]] by blast
qed

text \<open>The last part of \<open>open\<close>, from the allocation of the descriptor on.\<close>

lemma open_tail:
  assumes W: "b \<longrightarrow> waits_keep_buffers W" and ok: "fds_ok st" and fd: "0 \<le> fd" "nat fd < MAX_FDS" "px_table st ! nat fd = zero_entry"
    and act: "px_active st ! nat fd" and h: "held b {buffer_no x} st0 st"
    and c: "open_checks W p flags st = Some (e, st4)"
    and run: "(if e \<noteq> 0 then do {
                  st \<leftarrow> buffer_free x (snd (posix_fd_deallocate fd st4));
                  Some (e, st)
                }
                else do {
                  (r, st) \<leftarrow> open_request W x (length p) flags st4;
                  case r of
                    Inl err \<Rightarrow> Some (err, snd (posix_fd_deallocate fd st))
                  | Inr fs_fd \<Rightarrow> do {
                      c_assert (posix_fd_entry fd st \<noteq> None);
                      let st = set_entry_at fd (file_entry flags) st;
                      let st = st\<lparr>px_server_fd := (px_server_fd st)[nat fd := int_of_fd fs_fd]\<rparr>;
                      Some (fd, st\<lparr>px_fd_path := (px_fd_path st)[nat fd := p]\<rparr>)
                    }
                }) = Some (r, st')"
  shows "px_fd_socket st' = px_fd_socket st \<and> px_sock st' = px_sock st \<and> fds_ok st' \<and>
    (b \<longrightarrow> cl_buffers (px_client st') = cl_buffers (px_client st0))"
proof -
  have row: "slot_ok (px_active st ! nat fd) (px_table st ! nat fd) (px_fd_socket st ! nat fd) (px_server_fd st ! nat fd)"
    by (rule fds_okD [OF ok fd(2)])
  then have none: "px_fd_socket st ! nat fd = - 1" "px_server_fd st ! nat fd = - 1"
    using fd(3) by (auto simp: slot_ok_def zero_entry_def)
  have h4: "held b {buffer_no x} st0 st4" by (rule held_open_checks [OF W h c])
  have same: "px_active st5 = px_active st" "px_table st5 = px_table st" "px_fd_socket st5 = px_fd_socket st"
      "px_sock st5 = px_sock st" "px_server_fd st5 = px_server_fd st" "px_fd_path st5 = px_fd_path st"
    if "held b X st0 st5" for st5 X using held_fields [OF that] held_fields [OF h] by simp_all
  have okh: "fds_ok st5" if "held b X st0 st5" for st5 X by (rule fds_ok_same [OF ok]) (simp_all add: same [OF that])
  have dealloc: "fds_ok (snd (posix_fd_deallocate fd st5))" if "held b X st0 st5" for st5 X
    by (rule deallocate_ok [OF okh [OF that] fd(1,2)]) (simp_all add: same [OF that] act none)
  have dfields: "px_fd_socket (snd (posix_fd_deallocate fd st5)) = px_fd_socket st5"
      "px_sock (snd (posix_fd_deallocate fd st5)) = px_sock st5" "px_client (snd (posix_fd_deallocate fd st5)) = px_client st5" for st5
    by (simp_all add: posix_fd_deallocate_def)
  show ?thesis
  proof (cases "e = 0")
    case False
    with run obtain st5 where st5: "buffer_free x (snd (posix_fd_deallocate fd st4)) = Some st5" "st' = st5"
      by (auto simp: bind_eq_Some_conv)
    let ?st = "snd (posix_fd_deallocate fd st4)"
    from st5 obtain cl where cl: "fs_buffer_free x (px_client st4) = Some cl" "st' = ?st\<lparr>px_client := cl\<rparr>"
      by (auto simp: buffer_free_def bind_eq_Some_conv dfields)
    have "buffer_free x st4 = Some (st4\<lparr>px_client := cl\<rparr>)" using cl(1) by (simp add: buffer_free_def)
    from held_release [OF h4 this] have h5: "held b {} st0 (st4\<lparr>px_client := cl\<rparr>)" by simp
    have "fds_ok st'" by (rule fds_ok_same [OF dealloc [OF h4]]) (simp_all add: cl(2))
    moreover have "b \<longrightarrow> cl_buffers cl = cl_buffers (px_client st0)" using held_none [of st0 "st4\<lparr>px_client := cl\<rparr>"] h5 by auto
    ultimately show ?thesis using same [OF h4] by (simp add: cl(2) dfields)
  next
    case True
    note run = run [unfolded True]
    from run obtain res st5 where q: "open_request W x (length p) flags st4 = Some (res, st5)"
      by (auto simp: bind_eq_Some_conv)
    have h5: "held b {} st0 st5" by (rule held_open_request [OF W h4 _ q]) simp
    have buf: "b \<longrightarrow> cl_buffers (px_client st5) = cl_buffers (px_client st0)" using held_none [of st0 st5] h5 by auto
    show ?thesis
    proof (cases res)
      case (Inl err)
      with run q have "st' = snd (posix_fd_deallocate fd st5)" by simp
      then show ?thesis using dealloc [OF h5] same [OF h5] buf by (simp add: dfields)
    next
      case (Inr fs_fd)
      let ?s1 = "set_entry_at fd (file_entry flags) st5"
      let ?s2 = "?s1\<lparr>px_server_fd := (px_server_fd ?s1)[nat fd := int_of_fd fs_fd]\<rparr>"
      have st': "st' = ?s2\<lparr>px_fd_path := (px_fd_path ?s2)[nat fd := p]\<rparr>"
        using run q Inr by (auto simp: Let_def split: if_splits)
      note l = fds_ok_lengths [OF okh [OF h5]]
      have "fds_ok st'"
      proof (rule fds_ok_row [OF okh [OF h5], where i = "nat fd"])
        show "rows_but (nat fd) st5 st'" by (simp add: st' rows_but_def set_entry_at_def)
        show "slot_ok (px_active st' ! nat fd) (px_table st' ! nat fd) (px_fd_socket st' ! nat fd) (px_server_fd st' ! nat fd)"
          using l fd(2) none act same [OF h5] by (simp add: st' set_entry_at_def slot_ok_def entry_ok_def file_entry_def)
      qed
      then show ?thesis using same [OF h5] buf by (simp add: st' set_entry_at_def)
    qed
  qed
qed

lemma open_step:
  assumes W: "b \<longrightarrow> waits_keep_buffers W" and run: "sys_openat W dirfd path flags st = Some (r, st')" and ok: "fds_ok st"
  shows "file_step b st st'"
proof -
  from run obtain res where res: "resolve_path dirfd path PATH_MAX st = Some res"
    by (auto simp: sys_openat_def bind_eq_Some_conv)
  note run = run [unfolded sys_openat_def res Option.bind.bind_lunit]
  show ?thesis
  proof (cases "\<exists>p. res = Inr p \<and> p \<noteq> etc_path \<and> p \<noteq> services_path")
    case False
    with run show ?thesis by (auto simp: file_step_refl split: sum.splits if_splits)
  next
    case True
    then obtain p where p: "res = Inr p" "p \<noteq> etc_path" "p \<noteq> services_path" by blast
    note run = run [unfolded p(1) sum.case if_not_P [OF p(2)] if_not_P [OF p(3)]]
    from run obtain pb st1 where a: "buffer_allocate st = Some (pb, st1)" by (auto simp: bind_eq_Some_conv)
    note run = run [unfolded a Option.bind.bind_lunit prod.case]
    show ?thesis
    proof (cases pb)
      case None
      with run a show ?thesis by (auto dest: allocate_none simp: file_step_refl)
    next
      case (Some x)
      note h1 = held_allocate [OF held_refl a [unfolded Some], where ?b = b]
      obtain fd st2 where fd: "posix_fd_allocate st1 = (fd, st2)" by (cases "posix_fd_allocate st1")
      note run = run [unfolded Some option.case fd Let_def prod.case]
      show ?thesis
      proof (cases "fd < 0")
        case True
        with run allocate_fd_none [OF fd True] obtain st3 where "buffer_free x st1 = Some st3" "st' = st3"
          by (auto simp: bind_eq_Some_conv)
        then show ?thesis using held_release [OF h1(1) _ h1(2)] held_step by blast
      next
        case pos: False
        note run = run [unfolded if_not_P [OF pos]]
        have ok1: "fds_ok st1" using ok held_fields [OF h1(1)] fds_ok_same by blast
        note al = allocate_fd [OF fd pos ok1]
        let ?base = "st2\<lparr>px_client := px_client st\<rparr>" and ?st3 = "buffer_put x p st2"
        have h3: "held b {buffer_no x} ?base ?st3" by (rule held_put) (use h1(1) al(7) in \<open>simp add: held_def\<close>)
        have ok3: "fds_ok ?st3"
          using al fds_ok_lengths [OF ok1] slot_zero
          by (intro fds_ok_row [OF ok1, where i = "nat fd"]) (simp_all add: rows_but_def buffer_put_def)
        have z: "px_table ?st3 ! nat fd = zero_entry" "px_active ?st3 ! nat fd" "0 \<le> fd"
          using al pos fds_ok_lengths [OF ok1] by (simp_all add: buffer_put_def)
        from run obtain e st4 where c: "open_checks W p flags ?st3 = Some (e, st4)"
          by (auto simp: bind_eq_Some_conv split: if_splits)
        have "c_assert (px_server_fd st2 ! nat fd = - 1) = Some ()" using run by (auto split: if_splits)
        note run = run [unfolded this c Option.bind.bind_lunit prod.case]
        have "px_fd_socket st' = px_fd_socket ?st3 \<and> px_sock st' = px_sock ?st3 \<and> fds_ok st' \<and>
            (b \<longrightarrow> cl_buffers (px_client st') = cl_buffers (px_client ?base))"
          by (rule open_tail [unfolded Let_def, OF W ok3 z(3) al(1) z(1,2) h3 c run])
        then show ?thesis using al held_fields [OF h1(1)] by (simp add: file_step_def buffer_put_def)
      qed
    qed
  qed
qed

end
