(* ===== verification/Px_Count.thy ===== *)
theory Px_Count
  imports Px_Props
begin

text \<open>
  The descriptors of sockets are counted. A locale states what the system calls rely on: a socket library that keeps a count
  for every socket, of which each function changes exactly what its contract says. In it, every run of system calls keeps
  the count of a socket equal to the number of its descriptors. The library of \<open>lib/sock/tcp.c\<close> is an instance, with its
  own callbacks running while a call waits: each of them keeps the counts, and none takes a socket out of use.
\<close>

subsection \<open>The contract\<close>

text \<open>A change that leaves the counts alone, and no socket that is counted vanishes.\<close>

definition count_kept :: "('s \<Rightarrow> nat \<Rightarrow> int) \<Rightarrow> ('s \<Rightarrow> nat \<Rightarrow> bool) \<Rightarrow> ('s \<Rightarrow> bool) \<Rightarrow> 's \<Rightarrow> 's \<Rightarrow> bool" where
  "count_kept refcount live well s s' \<longleftrightarrow> well s' \<and> refcount s' = refcount s \<and> (\<forall>i. live s i \<and> refcount s i \<noteq> 0 \<longrightarrow> live s' i)"

locale counted_sockets =
  fixes C :: "'s socket_config"
    and refcount :: "'s \<Rightarrow> nat \<Rightarrow> int"
    and live :: "'s \<Rightarrow> nat \<Rightarrow> bool"
    and well :: "'s \<Rightarrow> bool"
  assumes allocate: "well s \<Longrightarrow> sc_socket_allocate C s = Some (h, s') \<Longrightarrow> well s' \<and> refcount s' = refcount s \<and>
      (if h < 0 then live s' = live s else \<not> live s (nat h) \<and> live s' = (live s)(nat h := True))"
    and init: "well s \<Longrightarrow> sc_tcp_socket_init C i s = Some (r, s') \<Longrightarrow> well s' \<and> live s' = live s \<and>
      refcount s' = (if r < 0 then refcount s else (refcount s)(i := refcount s i + 1))"
    and close: "well s \<Longrightarrow> sc_tcp_socket_close C i s = Some (r, s') \<Longrightarrow> well s' \<and>
      refcount s' = (refcount s)(i := refcount s i - 1) \<and> (\<forall>j. j \<noteq> i \<or> refcount s i \<noteq> 1 \<longrightarrow> live s' j = live s j)"
    and dup: "well s \<Longrightarrow> sc_tcp_socket_dup C i s = Some (r, s') \<Longrightarrow> well s' \<and> live s' = live s \<and>
      refcount s' = (refcount s)(i := refcount s i + 1)"
    and "write": "well s \<Longrightarrow> sc_tcp_socket_write C i buf fl s = Some (r, s') \<Longrightarrow> count_kept refcount live well s s'"
    and recv: "well s \<Longrightarrow> sc_tcp_socket_recv C i n fl s = Some (r, bs, s') \<Longrightarrow> count_kept refcount live well s s'"
    and connect: "well s \<Longrightarrow> sc_tcp_socket_connect C i addr port fl s = Some (r, s') \<Longrightarrow> count_kept refcount live well s s'"
    and listen: "well s \<Longrightarrow> sc_tcp_socket_listen C i backlog s = Some (r, s') \<Longrightarrow> count_kept refcount live well s s'"
    and bind: "well s \<Longrightarrow> sc_tcp_socket_bind C i addr port s = Some (r, s') \<Longrightarrow> count_kept refcount live well s s'"
    and accept: "well s \<Longrightarrow> sc_tcp_socket_accept C i fl s = Some (h, s') \<Longrightarrow>
      (if h < 0 then count_kept refcount live well s s'
       else \<exists>s1. count_kept refcount live well s s1 \<and> well s' \<and> \<not> live s1 (nat h) \<and> live s' = (live s1)(nat h := True) \<and>
         refcount s' = (refcount s1)(nat h := refcount s1 (nat h) + 1))"

subsection \<open>The library of \<open>tcp.c\<close>\<close>

definition tcp_count :: "'w tcp \<Rightarrow> nat \<Rightarrow> int" where
  "tcp_count st i = (if i < MAX_SOCKETS then tcp_refcount st ! i else 0)"

text \<open>A socket is in use from its allocation until it is closed. A socket in the state \<open>closing\<close> only waits for the other side.\<close>

definition tcp_live :: "'w tcp \<Rightarrow> nat \<Rightarrow> bool" where
  "tcp_live st i \<longleftrightarrow> i < MAX_SOCKETS \<and> sk_state (tcp_sockets st ! i) \<noteq> socket_state_unallocated \<and>
     sk_state (tcp_sockets st ! i) \<noteq> socket_state_closing"

abbreviation in_use :: "socket_state \<Rightarrow> bool" where
  "in_use k \<equiv> k \<noteq> socket_state_unallocated \<and> k \<noteq> socket_state_closing"

definition tcp_well :: "'w tcp \<Rightarrow> bool" where
  "tcp_well st \<longleftrightarrow> length (tcp_sockets st) = MAX_SOCKETS \<and> length (tcp_refcount st) = MAX_SOCKETS"

abbreviation tcp_kept :: "'w tcp \<Rightarrow> 'w tcp \<Rightarrow> bool" where
  "tcp_kept \<equiv> count_kept tcp_count tcp_live tcp_well"

lemma kept_refl: "tcp_well st \<Longrightarrow> tcp_kept st st"
  by (simp add: count_kept_def)

lemma kept_trans: "tcp_kept st st1 \<Longrightarrow> tcp_kept st1 st2 \<Longrightarrow> tcp_kept st st2"
  by (auto simp: count_kept_def)

text \<open>Changes of the state of lwIP, and of a socket that stays in use.\<close>

lemma kept_frame [simp]:
  "tcp_kept st (on_world f st1) = tcp_kept st st1"
  "tcp_kept st (wake L x st1) = tcp_kept st st1"
  "tcp_kept st (snd (ask g st1)) = tcp_kept st st1"
  by (simp_all add: count_kept_def on_world_def wake_def ask_def tcp_well_def tcp_count_def tcp_live_def fun_eq_iff)

lemma set_socket_counts:
  "tcp_count (set_socket i s st) = tcp_count st" "tcp_well (set_socket i s st) = tcp_well st"
  "tcp_well st \<Longrightarrow> tcp_live (set_socket i s st) j = (j < MAX_SOCKETS \<and>
     (if j = i then in_use (sk_state s) else tcp_live st j))"
  by (auto simp: set_socket_def tcp_well_def tcp_count_def tcp_live_def fun_eq_iff)

lemma kept_well: "tcp_kept st st1 \<Longrightarrow> tcp_well st1"
  by (simp add: count_kept_def)

lemma live_less: "tcp_live st i \<Longrightarrow> i < MAX_SOCKETS"
  by (simp add: tcp_live_def)

lemma kept_set:
  assumes "tcp_kept st st1" "in_use (sk_state s)"
  shows "tcp_kept st (set_socket i s st1)"
  using assms set_socket_counts(3) [OF kept_well [OF assms(1)], of i s] live_less
  by (auto simp: count_kept_def set_socket_counts(1,2))

lemma kept_set_same:
  assumes "tcp_kept st st1" "sk_state s = sk_state (tcp_sockets st1 ! i)"
  shows "tcp_kept st (set_socket i s st1)"
  using assms set_socket_counts(3) [OF kept_well [OF assms(1)], of i s] live_less
  by (auto simp: count_kept_def set_socket_counts(1,2)) (auto simp: tcp_live_def)

lemma kept_ask: "ask g st1 = (r, st2) \<Longrightarrow> tcp_kept st st2 = tcp_kept st st1"
  using kept_frame(3) [of st g st1] by simp

lemma kept_loop:
  assumes "while_opt c step st1 = Some st2" "tcp_kept st st1" "\<And>s s'. tcp_well s \<Longrightarrow> step s = Some s' \<Longrightarrow> tcp_kept s s'"
  shows "tcp_kept st st2"
proof -
  have "tcp_kept st s'" if "tcp_kept st s" "c s" "step s = Some s'" for s s'
    by (rule kept_trans [OF that(1) assms(3) [OF kept_well [OF that(1)] that(3)]])
  then have "tcp_kept st st2 \<and> \<not> c st2" using while_opt_invariant [OF assms(1), of "tcp_kept st"] assms(2) by blast
  then show ?thesis ..
qed

subsection \<open>Callbacks and waits\<close>

text \<open>What lwIP does to the sockets while no system call runs, or while one waits: it changes its own state, and it calls
  back. The end of a connection (a callback without a packet) is not delivered for a socket in the state \<open>allocated\<close>: the
  function that receives it is registered when the connection is there. The component has one thread that makes system
  calls, so that nothing else happens to the sockets.\<close>

datatype 'w lwip_event =
    Ev_world "'w \<Rightarrow> 'w"
  | Ev_err "nat option" lwip_err
  | Ev_recv "nat option" "pcb option" "(nat \<times> u8 list) option"
  | Ev_sent "nat option"
  | Ev_connected "nat option" pcb
  | Ev_accept "nat option" "pcb option" lwip_err

fun deliver :: "'w lwip \<Rightarrow> 'w lwip_event \<Rightarrow> 'w tcp \<Rightarrow> 'w tcp option" where
  "deliver L (Ev_world f) st = Some (on_world f st)"
| "deliver L (Ev_err arg e) st = socket_err_func L arg e st"
| "deliver L (Ev_recv arg tpcb p) st =
     (if p = None \<and> (\<exists>i. arg = Some i \<and> state_is i socket_state_allocated st) then None
      else map_option snd (socket_recv_callback L arg tpcb p st))"
| "deliver L (Ev_sent arg) st = map_option snd (socket_sent_callback L arg st)"
| "deliver L (Ev_connected arg tpcb) st = map_option snd (socket_connected L arg tpcb st)"
| "deliver L (Ev_accept arg newpcb e) st = map_option snd (tcp_socket_accept_cb L arg newpcb e st)"

fun deliver_all :: "'w lwip \<Rightarrow> 'w lwip_event list \<Rightarrow> 'w tcp \<Rightarrow> 'w tcp option" where
  "deliver_all L [] st = Some st"
| "deliver_all L (e # es) st = Option.bind (deliver L e st) (deliver_all L es)"

text \<open>A wait ends after the callbacks that the environment makes in it; \<open>None\<close> is a wait that does not end.\<close>

definition with_events :: "'w lwip \<Rightarrow> (sem \<Rightarrow> 'w tcp \<Rightarrow> 'w lwip_event list option) \<Rightarrow> 'w lwip" where
  "with_events L V = L\<lparr>lw_wait := (\<lambda>x st. Option.bind (V x st) (\<lambda>es. deliver_all L es st))\<rparr>"

definition calls_back :: "'w lwip \<Rightarrow> 'w tcp \<Rightarrow> 'w tcp \<Rightarrow> bool" where
  "calls_back L st st' \<longleftrightarrow> (\<exists>e. deliver L e st = Some st')"

lemma rx_copy_state: "rx_copy data s = Some s' \<Longrightarrow> sk_state s' = sk_state s"
proof (induction data s rule: rx_copy.induct)
  case (1 data s)
  show ?case using 1(2) 1(1) [OF _ refl refl]
    by (subst (asm) rx_copy.simps) (auto simp: Let_def split: if_splits)
qed

lemma err_func_kept: "tcp_well st \<Longrightarrow> socket_err_func L arg e st = Some st' \<Longrightarrow> tcp_kept st st'"
  by (auto simp: socket_err_func_def bind_eq_Some_conv kept_refl Let_def split: option.splits if_splits intro!: kept_set)

lemma sent_callback_kept: "tcp_well st \<Longrightarrow> socket_sent_callback L arg st = Some (r, st') \<Longrightarrow> tcp_kept st st'"
  by (auto simp: socket_sent_callback_def bind_eq_Some_conv kept_refl)

lemma connected_kept: "tcp_well st \<Longrightarrow> socket_connected L arg tpcb st = Some (r, st') \<Longrightarrow> tcp_kept st st'"
  by (auto simp: socket_connected_def bind_eq_Some_conv kept_refl split: if_splits intro!: kept_set)

lemma accept_cb_kept: "tcp_well st \<Longrightarrow> tcp_socket_accept_cb L arg newpcb err st = Some (r, st') \<Longrightarrow> tcp_kept st st'"
  by (auto simp: tcp_socket_accept_cb_def bind_eq_Some_conv kept_refl Let_def split: if_splits intro!: kept_set)

text \<open>A socket that is not in use may be set to anything.\<close>

lemma kept_set_unused:
  assumes "tcp_well st" "\<not> tcp_live st i"
  shows "tcp_kept st (set_socket i s st)"
  using set_socket_counts(3) [OF assms(1), of i s] assms live_less
  by (auto simp: count_kept_def set_socket_counts(1,2))

lemma recv_callback_kept:
  assumes "tcp_well st" "socket_recv_callback L (Some i) tpcb p st = Some (r, st')"
    and "p = None \<Longrightarrow> \<not> state_is i socket_state_allocated st"
  shows "tcp_kept st st'"
proof -
  obtain s where s: "socket_at i st = Some s" "sk_state s = sk_state (tcp_sockets st ! i)"
    using assms(2) by (auto simp: socket_recv_callback_def bind_eq_Some_conv socket_at_def split: if_splits)
  note run = assms(2) [unfolded socket_recv_callback_def Option.bind.bind_lunit s(1)]
  show ?thesis
  proof (cases "sk_state s = socket_state_connected")
    case True
    have rx: "sk_state s' = socket_state_connected" if "rx_copy data s = Some s'" for data s'
      using rx_copy_state [OF that] True by simp
    show ?thesis using run True assms(1)
      by (auto simp: bind_eq_Some_conv kept_refl Let_def split: option.splits if_splits intro!: kept_set dest!: rx)
  next
    case False
    have "\<not> tcp_live st i" if "p = None"
      using run False assms(3) [OF that] s(2) that by (auto simp: tcp_live_def state_is_def split: if_splits)
    then have "tcp_kept st (set_socket i s' st)" if "p = None" for s'
      using kept_set_unused [OF assms(1)] that by blast
    moreover have "set_socket i s' (on_world f st) = on_world f (set_socket i s' st)" for s' f
      by (simp add: set_socket_def on_world_def)
    ultimately show ?thesis using run False assms(1)
      by (auto simp: kept_refl split: option.splits if_splits)
  qed
qed

lemma deliver_kept:
  assumes "tcp_well st" "deliver L e st = Some st'"
  shows "tcp_kept st st'"
proof (cases e)
  case (Ev_recv arg tpcb p)
  with assms(2) obtain r where r: "socket_recv_callback L arg tpcb p st = Some (r, st')"
    by (auto split: if_splits)
  then obtain i where i: "arg = Some i" by (auto simp: socket_recv_callback_def bind_eq_Some_conv)
  show ?thesis
    by (rule recv_callback_kept [OF assms(1) r [unfolded i]]) (use assms(2) Ev_recv i in \<open>auto split: if_splits\<close>)
qed (use assms err_func_kept sent_callback_kept connected_kept accept_cb_kept kept_refl [OF assms(1)] in auto)

lemma deliver_all_kept: "tcp_well st \<Longrightarrow> deliver_all L es st = Some st' \<Longrightarrow> tcp_kept st st'"
proof (induction es arbitrary: st)
  case (Cons e es)
  then obtain st1 where st1: "deliver L e st = Some st1" "deliver_all L es st1 = Some st'" by (auto simp: bind_eq_Some_conv)
  note k = deliver_kept [OF Cons.prems(1) st1(1)]
  from kept_trans [OF k Cons.IH [OF kept_well [OF k] st1(2)]] show ?case .
qed (simp add: kept_refl)

lemma wait_kept: "tcp_well st \<Longrightarrow> lw_wait (with_events L V) x st = Some st' \<Longrightarrow> tcp_kept st st'"
  by (auto simp: with_events_def bind_eq_Some_conv intro: deliver_all_kept)

subsection \<open>The functions of the library\<close>

lemma kept_connect:
  assumes "tcp_well st" "tcp_socket_connect (with_events L V) i addr port fl st = Some (r, st')"
  shows "tcp_kept st st'"
proof -
  from assms(2) obtain s where s: "socket_at i st = Some s"
    by (auto simp: tcp_socket_connect_def bind_eq_Some_conv)
  let ?st = "set_socket i (s\<lparr>sk_state := socket_state_connecting\<rparr>) st"
  obtain err st1 where a: "ask (lw_connect (with_events L V) (sk_tpcb s) addr port) ?st = (err, st1)"
    by (cases "ask (lw_connect (with_events L V) (sk_tpcb s) addr port) ?st")
  have k1: "tcp_kept st st1" unfolding kept_ask [OF a] by (rule kept_set [OF kept_refl [OF assms(1)]]) simp
  show ?thesis using assms k1 kept_loop [OF _ k1 wait_kept] kept_refl
    unfolding tcp_socket_connect_def s Option.bind.bind_lunit Let_def a
    by (auto simp: bind_eq_Some_conv split: if_splits)
qed

lemma kept_write:
  assumes "tcp_well st" "tcp_socket_write (with_events L V) i buf fl st = Some (r, st')"
  shows "tcp_kept st st'"
proof -
  from assms(2) obtain s where s: "socket_at i st = Some s"
    by (auto simp: tcp_socket_write_def bind_eq_Some_conv)
  have wait: "tcp_kept st st2" if "wait_sndbuf (with_events L V) i st = Some st2" for st2
    by (rule kept_loop [OF that [unfolded wait_sndbuf_def] kept_refl [OF assms(1)]]) (auto split: if_splits intro: wait_kept)
  have fin: "tcp_kept st st'" if "tcp_kept st st2" "(case ask f st2 of (err, st) \<Rightarrow> if err \<noteq> ERR_OK then Some (- lwip_err_to_errno err, st)
      else case ask g st of (err, st) \<Rightarrow> Some (if err \<noteq> ERR_OK then - lwip_err_to_errno err else n, st)) = Some (r, st')"
    for st2 f g n
  proof -
    obtain e3 st3 where a3: "ask f st2 = (e3, st3)" by (cases "ask f st2")
    obtain e4 st4 where a4: "ask g st3 = (e4, st4)" by (cases "ask g st3")
    show ?thesis using that kept_ask [OF a3, of st] kept_ask [OF a4, of st] by (auto simp: a3 a4 split: if_splits)
  qed
  show ?thesis
  proof (cases "sk_state s = socket_state_connected")
    case False
    with assms s kept_refl show ?thesis by (auto simp: tcp_socket_write_def split: if_splits)
  next
    case True
    note run = assms(2) [unfolded tcp_socket_write_def s Option.bind.bind_lunit Let_def]
    from run True obtain room where room: "sndbuf (with_events L V) i st = Some room" by (auto simp: bind_eq_Some_conv split: if_splits)
    show ?thesis
    proof (cases "room = 0 \<and> has_flag fl O_NONBLOCK")
      case True2: True
      with run True room kept_refl [OF assms(1)] show ?thesis by auto
    next
      case False
      with run True room obtain st2 where st2: "(if room = 0 then wait_sndbuf (with_events L V) i st else Some st) = Some st2"
        by (auto simp: bind_eq_Some_conv)
      have ok2: "tcp_kept st st2" using st2 kept_refl [OF assms(1)] wait by (auto split: if_splits)
      from run True room False st2 obtain room2 where room2: "sndbuf (with_events L V) i st2 = Some room2"
        by (auto simp: bind_eq_Some_conv)
      from run True room False st2 room2 show ?thesis
        by (auto simp: Let_def split: if_splits dest: fin [OF ok2])
    qed
  qed
qed

lemma rx_take_state: "sk_state (snd (rx_take n copied s)) = sk_state s"
proof (induction n copied s rule: rx_take.induct)
  case (1 n copied s)
  then show ?case by (subst rx_take.simps) (simp add: Let_def)
qed

lemma kept_recv:
  assumes "tcp_well st" "tcp_socket_recv (with_events L V) i n fl st = Some (r, bs, st')"
  shows "tcp_kept st st'"
proof -
  from assms(2) obtain s where s: "socket_at i st = Some s"
    by (auto simp: tcp_socket_recv_def bind_eq_Some_conv)
  let ?loop = "while_opt (\<lambda>st. sk_rx_len (tcp_sockets st ! i) = 0 \<and> state_is i socket_state_connected st)
    (lw_wait (with_events L V) (Recv_sem i)) st"
  show ?thesis
  proof (cases "sk_state s \<noteq> socket_state_connected \<or> (sk_rx_len s = 0 \<and> has_flag fl O_NONBLOCK)")
    case True
    with assms s kept_refl show ?thesis by (auto simp: tcp_socket_recv_def split: if_splits)
  next
    case False
    with assms(2) s obtain st2 where st2: "(if sk_rx_len s = 0 then ?loop else Some st) = Some st2"
      by (auto simp: tcp_socket_recv_def bind_eq_Some_conv split: if_splits)
    have k2: "tcp_kept st st2"
      using st2 kept_refl [OF assms(1)] kept_loop [OF _ kept_refl [OF assms(1)] wait_kept] by (auto split: if_splits)
    obtain copied s2 where t: "rx_take n [] (tcp_sockets st2 ! i) = (copied, s2)" by (cases "rx_take n [] (tcp_sockets st2 ! i)")
    have "sk_state s2 = sk_state (tcp_sockets st2 ! i)" using rx_take_state [of n "[]" "tcp_sockets st2 ! i"] t by simp
    from kept_set_same [OF k2 this] show ?thesis
      using assms(2) s False st2 t by (auto simp: tcp_socket_recv_def Let_def split: if_splits)
  qed
qed

lemma kept_listen:
  assumes "tcp_well st" "tcp_socket_listen L i backlog st = Some (r, st')"
  shows "tcp_kept st st'"
proof -
  from assms(2) obtain s where s: "socket_at i st = Some s"
    by (auto simp: tcp_socket_listen_def bind_eq_Some_conv)
  obtain p st1 where a: "ask (lw_listen L (sk_tpcb s) (of_int backlog)) st = (p, st1)"
    by (cases "ask (lw_listen L (sk_tpcb s) (of_int backlog)) st")
  have "tcp_kept st st1" unfolding kept_ask [OF a] by (rule kept_refl [OF assms(1)])
  from kept_set [OF this, of "s\<lparr>sk_tpcb := p, sk_state := socket_state_listening\<rparr>" i] assms(2) s a show ?thesis
    by (auto simp: tcp_socket_listen_def bind_eq_Some_conv Let_def split: if_splits)
qed

lemma kept_bind:
  assumes "tcp_well st" "tcp_socket_bind L i addr port st = Some (r, st')"
  shows "tcp_kept st st'"
proof -
  from assms(2) obtain s where s: "socket_at i st = Some s"
    by (auto simp: tcp_socket_bind_def bind_eq_Some_conv)
  obtain err st1 where a: "ask (lw_bind L (sk_tpcb s) addr port) st = (err, st1)"
    by (cases "ask (lw_bind L (sk_tpcb s) addr port) st")
  have "tcp_kept st st1" unfolding kept_ask [OF a] by (rule kept_refl [OF assms(1)])
  from kept_set [OF this, of "s\<lparr>sk_state := socket_state_bound\<rparr>" i] this assms s a kept_refl show ?thesis
    by (auto simp: tcp_socket_bind_def split: if_splits)
qed

lemma tcp_allocate_counts:
  assumes "tcp_well st" "socket_allocate st = Some (h, st')"
  shows "tcp_well st' \<and> tcp_count st' = tcp_count st \<and>
    (if h < 0 then tcp_live st' = tcp_live st else \<not> tcp_live st (nat h) \<and> tcp_live st' = (tcp_live st)(nat h := True))"
proof (cases "find_index (\<lambda>s. sk_state s = socket_state_unallocated) (tcp_sockets st)")
  case None
  with assms show ?thesis by (auto simp: socket_allocate_def ENOMEM_def)
next
  case (Some i)
  then have i: "i < MAX_SOCKETS" "\<not> tcp_live st i"
    using find_index_SomeD [OF Some] assms(1) by (auto simp: tcp_well_def tcp_live_def)
  from Some assms(2) have h: "h = int i" "st' = set_socket i ((tcp_sockets st ! i)\<lparr>sk_state := socket_state_allocated\<rparr>) st"
    by (auto simp: socket_allocate_def Let_def split: if_splits)
  have "tcp_live st' = (tcp_live st)(i := True)"
    using i(1) live_less by (auto simp: h(2) set_socket_counts(3) [OF assms(1)] fun_eq_iff)
  then show ?thesis using i assms(1) by (simp add: h set_socket_counts(1,2))
qed

lemma tcp_frame_counts [simp]:
  "tcp_count (on_world f st) = tcp_count st" "tcp_live (on_world f st) = tcp_live st" "tcp_well (on_world f st) = tcp_well st"
  by (auto simp: on_world_def tcp_count_def tcp_live_def tcp_well_def fun_eq_iff)

lemma ask_counts:
  "ask f st = (r, st') \<Longrightarrow> tcp_count st' = tcp_count st \<and> tcp_live st' = tcp_live st \<and> tcp_well st' = tcp_well st \<and>
     tcp_sockets st' = tcp_sockets st \<and> tcp_refcount st' = tcp_refcount st"
  by (auto simp: ask_def tcp_count_def tcp_live_def tcp_well_def fun_eq_iff)

lemma add_refcount_counts:
  "tcp_live (add_refcount i n st) = tcp_live st" "tcp_well (add_refcount i n st) = tcp_well st"
  "tcp_well st \<Longrightarrow> i < MAX_SOCKETS \<Longrightarrow> tcp_count (add_refcount i n st) = (tcp_count st)(i := tcp_count st i + n)"
  by (auto simp: add_refcount_def tcp_count_def tcp_live_def tcp_well_def fun_eq_iff nth_list_update)

text \<open>A change of a socket that does not change whether it is in use.\<close>

lemma set_socket_live:
  assumes "tcp_well st" "socket_at i st = Some s" "in_use (sk_state s') = in_use (sk_state s)"
  shows "tcp_live (set_socket i s' st) = tcp_live st"
  using assms live_less
  by (auto simp: set_socket_counts(3) fun_eq_iff socket_at_def split: if_splits) (auto simp: tcp_live_def tcp_well_def)

lemma set_socket_on_world: "set_socket i s (on_world f st) = on_world f (set_socket i s st)"
  by (simp add: set_socket_def on_world_def)

lemma tcp_init_counts:
  assumes "tcp_well st" "tcp_socket_init L i st = Some (r, st')"
  shows "tcp_well st' \<and> tcp_live st' = tcp_live st \<and>
    tcp_count st' = (if r < 0 then tcp_count st else (tcp_count st)(i := tcp_count st i + 1))"
proof -
  from assms(2) obtain s where s: "socket_at i st = Some s" "sk_state s = socket_state_allocated"
    by (auto simp: tcp_socket_init_def bind_eq_Some_conv split: if_splits)
  obtain p st1 where a: "ask (lw_new L) st = (p, st1)" by (cases "ask (lw_new L) st")
  note k = ask_counts [OF a]
  have s1: "socket_at i st1 = Some s" using s(1) k by (simp add: socket_at_def split: if_splits)
  have i: "i < MAX_SOCKETS" using s(1) assms(1) by (auto simp: socket_at_def tcp_well_def split: if_splits)
  have live: "tcp_live (set_socket i s' st1) = tcp_live st" if "sk_state s' = sk_state s" for s'
    using set_socket_live [OF _ s1, of s'] that k assms(1) by simp
  show ?thesis
  proof (cases p)
    case None
    with assms(2) s a k assms(1) show ?thesis
      by (auto simp: tcp_socket_init_def set_socket_counts(1,2) live ENOMEM_def)
  next
    case (Some q)
    with assms(2) s a k assms(1) i show ?thesis
      by (auto simp: tcp_socket_init_def Let_def add_refcount_counts set_socket_counts(1,2) set_socket_on_world live)
  qed
qed

lemma tcp_close_counts:
  assumes "tcp_well st" "tcp_socket_close L i st = Some (r, st')"
  shows "tcp_well st' \<and> tcp_count st' = (tcp_count st)(i := tcp_count st i - 1) \<and>
    (\<forall>j. j \<noteq> i \<or> tcp_count st i \<noteq> 1 \<longrightarrow> tcp_live st' j = tcp_live st j)"
proof -
  let ?st = "add_refcount i (- 1) st"
  from assms have i: "i < MAX_SOCKETS"
    by (auto simp: tcp_socket_close_def tcp_well_def split: if_splits)
  have c: "tcp_well ?st" "tcp_count ?st = (tcp_count st)(i := tcp_count st i - 1)" "tcp_live ?st = tcp_live st"
    using add_refcount_counts(3) [OF assms(1) i] assms(1) by (simp_all add: add_refcount_counts)
  have n: "tcp_refcount ?st ! i = tcp_count st i - 1"
    using c(2) i by (simp add: tcp_count_def fun_eq_iff) (drule spec [of _ i], simp)
  show ?thesis
  proof (cases "tcp_count st i = 1")
    case False
    with assms(2) n c i assms(1) show ?thesis by (auto simp: tcp_socket_close_def tcp_well_def split: if_splits)
  next
    case True
    with assms(2) n have run: "tcp_socket_close_int L i ?st = Some (r, st')"
      by (auto simp: tcp_socket_close_def split: if_splits)
    then obtain s where s: "socket_at i ?st = Some s" by (auto simp: tcp_socket_close_int_def bind_eq_Some_conv)
    have others: "tcp_live (set_socket i s' st1) j = tcp_live st j" if "tcp_live st1 = tcp_live st" "tcp_well st1" "j \<noteq> i" for s' st1 j
      using that live_less by (auto simp: set_socket_counts(3))
    obtain err st1 where a: "ask (lw_close L (sk_tpcb s)) (set_socket i (s\<lparr>sk_state := socket_state_closing\<rparr>) ?st) = (err, st1)"
      by (cases "ask (lw_close L (sk_tpcb s)) (set_socket i (s\<lparr>sk_state := socket_state_closing\<rparr>) ?st)")
    note k = ask_counts [OF a]
    show ?thesis
      using run k c True unfolding tcp_socket_close_int_def s Option.bind.bind_lunit Let_def a
      by (auto simp: set_socket_counts(1,2) others split: if_splits)
  qed
qed

lemma tcp_dup_counts:
  assumes "tcp_well st" "tcp_socket_dup i st = Some (r, st')"
  shows "tcp_well st' \<and> tcp_live st' = tcp_live st \<and> tcp_count st' = (tcp_count st)(i := tcp_count st i + 1)"
proof -
  from assms have "i < MAX_SOCKETS" "st' = add_refcount i 1 st"
    by (auto simp: tcp_socket_dup_def tcp_well_def split: if_splits)
  with assms(1) show ?thesis by (simp add: add_refcount_counts)
qed

lemma tcp_accept_counts:
  assumes "tcp_well st" "tcp_socket_accept (with_events L V) i fl st = Some (h, st')"
  shows "if h < 0 then tcp_kept st st'
    else \<exists>s1. tcp_kept st s1 \<and> tcp_well st' \<and> \<not> tcp_live s1 (nat h) \<and> tcp_live st' = (tcp_live s1)(nat h := True) \<and>
      tcp_count st' = (tcp_count s1)(nat h := tcp_count s1 (nat h) + 1)"
proof -
  from assms(2) obtain s where s: "socket_at i st = Some s"
    by (auto simp: tcp_socket_accept_def bind_eq_Some_conv)
  let ?empty = "aq_head (sk_accept s) = aq_tail (sk_accept s)"
  show ?thesis
  proof (cases "sk_state s \<noteq> socket_state_listening \<or> (?empty \<and> has_flag fl O_NONBLOCK)")
    case True
    with assms s have "h < 0 \<and> st' = st"
      by (auto simp: tcp_socket_accept_def Let_def EINVAL_def EAGAIN_def split: if_splits)
    with kept_refl [OF assms(1)] show ?thesis by simp
  next
    case False
    with assms(2) s obtain st2 where st2: "(if ?empty then lw_wait (with_events L V) (Accept_sem i) st else Some st) = Some st2"
      by (auto simp: tcp_socket_accept_def bind_eq_Some_conv Let_def split: if_splits)
    have k2: "tcp_kept st st2" using st2 kept_refl [OF assms(1)] wait_kept [OF assms(1)] by (auto split: if_splits)
    let ?s = "tcp_sockets st2 ! i" and ?q = "sk_accept (tcp_sockets st2 ! i)"
    note run = assms(2) [unfolded tcp_socket_accept_def s Option.bind.bind_lunit Let_def]
    show ?thesis
    proof (cases "aq_head ?q = aq_tail ?q")
      case True
      with run False st2 have "h < 0 \<and> st' = st2" by (auto simp: ENOMEM_def)
      with k2 show ?thesis by simp
    next
      case ne: False
      let ?st3 = "set_socket i (?s\<lparr>sk_accept := ?q\<lparr>aq_tail := (aq_tail ?q + 1) mod MAX_LISTEN_BACKLOG\<rparr>\<rparr>) st2"
      have k3: "tcp_kept st ?st3" by (rule kept_set_same [OF k2]) simp
      from run False st2 ne obtain j st4 where al: "socket_allocate ?st3 = Some (j, st4)"
        by (auto simp: bind_eq_Some_conv)
      note ac = tcp_allocate_counts [OF kept_well [OF k3] al]
      show ?thesis
      proof (cases "j < 0")
        case True
        with run False st2 ne al have "h = j" "st' = snd (ask (lw_close (with_events L V) (aq_pending ?q ! aq_tail ?q)) st4)" by auto
        moreover have "tcp_kept st st4" using ac True k3 by (simp add: count_kept_def)
        ultimately show ?thesis using True by simp
      next
        case pos: False
        let ?c = "aq_pending ?q ! aq_tail ?q"
        let ?n = "(tcp_sockets st4 ! nat j)\<lparr>sk_tpcb := ?c, sk_state := socket_state_connected\<rparr>"
        have j: "nat j < MAX_SOCKETS" using ac pos live_less [of st4 "nat j"] by simp
        have at: "socket_at (nat j) st4 = Some (tcp_sockets st4 ! nat j)" using j ac by (simp add: socket_at_def tcp_well_def)
        have "in_use (sk_state (tcp_sockets st4 ! nat j))"
          using ac pos j by (auto simp: tcp_live_def fun_eq_iff)
        then have live: "tcp_live (set_socket (nat j) ?n st4) = tcp_live st4"
          using ac by (intro set_socket_live [OF _ at]) simp_all
        have "h = j" "tcp_count st' = (tcp_count st4)(nat j := tcp_count st4 (nat j) + 1)" "tcp_live st' = tcp_live st4" "tcp_well st'"
          using run False st2 ne al pos j ac live
          by (auto simp: add_refcount_counts set_socket_counts(1,2))
        with ac pos k3 show ?thesis by (auto intro!: exI [of _ ?st3])
      qed
    qed
  qed
qed

interpretation tcp: counted_sockets "tcp_config (with_events L V)" tcp_count tcp_live tcp_well
  for L :: "'w lwip" and V :: "sem \<Rightarrow> 'w tcp \<Rightarrow> 'w lwip_event list option"
proof (unfold_locales, unfold tcp_config_def socket_config.select_convs)
qed (erule (1) tcp_allocate_counts tcp_init_counts tcp_close_counts tcp_dup_counts kept_write kept_recv kept_connect
    kept_listen kept_bind tcp_accept_counts)+

end
