(* ===== verification/Px_Calls.thy ===== *)
theory Px_Calls
  imports Px_Count
begin

text \<open>
  Runs of system calls: a step relation of all calls that change the state, and of what happens between them. A locale says
  what a socket library must keep for an invariant of the descriptors to hold after every call, and goes through the calls
  once; it is used for the tables of descriptors, with any socket library at all, and for the counts of the sockets, with a
  library that keeps its contract.
\<close>

subsection \<open>Steps\<close>

text \<open>\<open>K\<close> is what callbacks may do to the sockets between two calls.\<close>

inductive libc_step :: "('s, 'q) libc_env \<Rightarrow> ('s \<Rightarrow> 's \<Rightarrow> bool) \<Rightarrow> ('s, 'q) posix \<Rightarrow> ('s, 'q) posix \<Rightarrow> bool" for E K where
  call_between: "K (px_sock st) s' \<Longrightarrow> libc_step E K st (st\<lparr>px_sock := s'\<rparr>)"
| call_write: "sys_write E fd buf n st = Some (r, st') \<Longrightarrow> libc_step E K st st'"
| call_read: "sys_read E fd buf n st = Some (r, out, st') \<Longrightarrow> libc_step E K st st'"
| call_writev: "sys_writev E fd iov n st = Some (r, st') \<Longrightarrow> libc_step E K st st'"
| call_readv: "sys_readv E fd iov n st = Some (r, out, st') \<Longrightarrow> libc_step E K st st'"
| call_close: "sys_close E fd st = Some (r, st') \<Longrightarrow> libc_step E K st st'"
| call_dup3: "sys_dup3 E fd fd' flags st = Some (r, st') \<Longrightarrow> libc_step E K st st'"
| call_fstat: "sys_fstat E fd sb st = Some (r, sb', st') \<Longrightarrow> libc_step E K st st'"
| call_fcntl: "sys_fcntl fd cmd arg st = (r, st') \<Longrightarrow> libc_step E K st st'"
| call_fstatat: "sys_fstatat (le_waits E) dirfd path sb st = Some (r, sb', st') \<Longrightarrow> libc_step E K st st'"
| call_openat: "sys_openat (le_waits E) dirfd path flags st = Some (r, st') \<Longrightarrow> libc_step E K st st'"
| call_lseek: "sys_lseek (le_waits E) fd offset whence st = Some (r, st') \<Longrightarrow> libc_step E K st st'"
| call_mkdirat: "sys_mkdirat (le_waits E) dirfd path st = Some (r, st') \<Longrightarrow> libc_step E K st st'"
| call_unlinkat: "sys_unlinkat (le_waits E) dirfd path flags st = Some (r, st') \<Longrightarrow> libc_step E K st st'"
| call_socket: "sys_socket (le_socket E) domain type st = Some (r, st') \<Longrightarrow> libc_step E K st st'"
| call_bind: "sys_bind (le_socket E) fd addr n st = Some (r, st') \<Longrightarrow> libc_step E K st st'"
| call_connect: "sys_socket_connect (le_socket E) fd addr n st = Some (r, st') \<Longrightarrow> libc_step E K st st'"
| call_sendto: "sys_sendto (le_socket E) fd buf n flags st = Some (r, st') \<Longrightarrow> libc_step E K st st'"
| call_recvfrom: "sys_recvfrom (le_socket E) fd given n flags src addrlen st = Some (r, out, name, st') \<Longrightarrow> libc_step E K st st'"
| call_listen: "sys_listen (le_socket E) fd backlog st = Some (r, st') \<Longrightarrow> libc_step E K st st'"
| call_accept: "sys_accept (le_socket E) fd given st = Some (r, name, st') \<Longrightarrow> libc_step E K st st'"

subsection \<open>Counting descriptors\<close>

definition descriptors :: "('s, 'q) posix \<Rightarrow> nat \<Rightarrow> int" where
  "descriptors st i = int (length (filter (\<lambda>h. h = int i) (px_fd_socket st)))"

lemma length_filter_update:
  "k < length xs \<Longrightarrow> int (length (filter P (xs[k := y]))) =
    int (length (filter P xs)) - (if P (xs ! k) then 1 else 0) + (if P y then 1 else 0)"
proof -
  assume k: "k < length xs"
  have "filter P xs = filter P (take k xs) @ filter P [xs ! k] @ filter P (drop (Suc k) xs)"
    by (subst id_take_nth_drop [OF k]) simp
  moreover have "filter P (xs[k := y]) = filter P (take k xs) @ filter P [y] @ filter P (drop (Suc k) xs)"
    using k by (simp add: upd_conv_take_nth_drop)
  ultimately show ?thesis by simp
qed

lemma descriptors_update:
  assumes "k < length (px_fd_socket st)" "px_fd_socket st' = (px_fd_socket st)[k := y]"
  shows "descriptors st' i = descriptors st i - (if px_fd_socket st ! k = int i then 1 else 0) + (if y = int i then 1 else 0)"
  unfolding descriptors_def assms(2) by (rule length_filter_update [OF assms(1)])

lemma descriptors_pos:
  assumes "k < length (px_fd_socket st)" "px_fd_socket st ! k = int i"
  shows "0 < descriptors st i"
proof -
  have "int i \<in> set (px_fd_socket st)" using nth_mem [OF assms(1)] assms(2) by simp
  then have "int i \<in> set (filter (\<lambda>h. h = int i) (px_fd_socket st))" by simp
  then have "filter (\<lambda>h. h = int i) (px_fd_socket st) \<noteq> []" by (metis empty_iff empty_set)
  then show ?thesis by (simp add: descriptors_def)
qed

lemma descriptors_nonneg: "0 \<le> descriptors st i"
  by (simp add: descriptors_def)

text \<open>A change that keeps an invariant and, if \<open>b\<close>, the buffers of the file system client.\<close>

definition steady :: "(('s, 'q) posix \<Rightarrow> bool) \<Rightarrow> bool \<Rightarrow> ('s, 'q) posix \<Rightarrow> ('s, 'q) posix \<Rightarrow> bool" where
  "steady I b st st' \<longleftrightarrow> I st' \<and> (b \<longrightarrow> cl_buffers (px_client st') = cl_buffers (px_client st))"

lemma steady_refl: "I st \<Longrightarrow> steady I b st st"
  by (simp add: steady_def)

lemma steady_trans: "steady I b st st1 \<Longrightarrow> steady I b st1 st2 \<Longrightarrow> steady I b st st2"
  by (simp add: steady_def)

lemma steadyD: "steady I b st st' \<Longrightarrow> I st'"
  by (simp add: steady_def)

lemma steady_any: "steady I True st st' \<Longrightarrow> steady I b st st'"
  by (simp add: steady_def)

subsection \<open>Calls that give or take a socket\<close>

text \<open>A free descriptor gets a socket.\<close>

lemma assign_fds:
  assumes ok: "fds_ok st" and i: "i < MAX_FDS" "\<not> px_active st ! i"
    and rows: "rows_but i st st'" "px_active st' ! i" "entry_ok (px_table st' ! i)" "fe_close (px_table st' ! i) = Some Sock"
      "px_server_fd st' ! i = px_server_fd st ! i"
    and h: "px_fd_socket st' = (px_fd_socket st)[i := int h]"
  shows "fds_ok st'" and "px_fd_socket st ! i = - 1"
proof -
  have row: "slot_ok (px_active st ! i) (px_table st ! i) (px_fd_socket st ! i) (px_server_fd st ! i)" by (rule fds_okD [OF ok i(1)])
  then show old: "px_fd_socket st ! i = - 1" using i(2) by (auto simp: slot_ok_def zero_entry_def)
  have "px_server_fd st ! i = - 1" using row i(2) by (auto simp: slot_ok_def zero_entry_def)
  then show "fds_ok st'"
    by (intro fds_ok_row [OF ok rows(1)]) (use rows fds_ok_lengths [OF ok] h i(1) in \<open>simp add: slot_ok_def\<close>)
qed

lemma sock_close_effect:
  assumes ok: "fds_ok st" and run: "sock_close C fd st = Some (r, st')"
    and e: "posix_fd_entry fd st = Some e" "fe_close e = Some Sock"
  obtains h s' where "px_fd_socket st ! nat fd = int h" "sc_tcp_socket_close C h (px_sock st) = Some (r, s')"
    "st' = st\<lparr>px_active := (px_active st)[nat fd := False], px_table := (px_table st)[nat fd := zero_entry],
       px_fd_socket := (px_fd_socket st)[nat fd := - 1], px_sock := s'\<rparr>" "fds_ok st'"
proof -
  note d = fd_entry_SomeD [OF e(1)] and l = fds_ok_lengths [OF ok]
  have row: "slot_ok (px_active st ! nat fd) (px_table st ! nat fd) (px_fd_socket st ! nat fd) (px_server_fd st ! nat fd)"
    by (rule fds_okD [OF ok d(2)])
  have srv: "px_server_fd st ! nat fd = - 1" using row e(2) d(4) by (simp add: slot_ok_def)
  from run obtain h where h: "socket_handle fd st = Some h" by (auto simp: sock_close_def bind_eq_Some_conv)
  then have fs: "px_fd_socket st ! nat fd = int h" by (auto simp: socket_handle_def Let_def split: if_splits)
  from run h obtain s' where s': "sc_tcp_socket_close C h (px_sock st) = Some (r, s')"
    "st' = st\<lparr>px_active := (px_active st)[nat fd := False], px_table := (px_table st)[nat fd := zero_entry],
       px_fd_socket := (px_fd_socket st)[nat fd := - 1], px_sock := s'\<rparr>"
    using deallocate_fd [OF d(1-3)] by (auto simp: sock_close_def with_sock_def bind_eq_Some_conv Let_def)
  have "fds_ok st'"
    by (rule fds_ok_row [OF ok, where i = "nat fd"]) (use l d(2) srv slot_zero s'(2) in \<open>simp_all add: rows_but_def\<close>)
  with fs s' that show ?thesis by blast
qed

lemma sock_dup3_effect:
  assumes ok: "fds_ok st" and new: "nat newfd < MAX_FDS" "\<not> px_active st ! nat newfd" and "oldfd \<noteq> newfd" "0 \<le> oldfd" "0 \<le> newfd"
    and e: "entry_ok e" "fe_dup3 e = Some Sock"
    and st1: "st1 = st\<lparr>px_active := (px_active st)[nat newfd := True], px_table := (px_table st)[nat newfd := e]\<rparr>"
    and run: "sock_dup3 C oldfd newfd st1 = Some (r, st')"
  obtains h s' where "px_fd_socket st ! nat oldfd = int h" "sc_tcp_socket_dup C h (px_sock st) = Some (r, s')"
    "st' = st1\<lparr>px_fd_socket := (px_fd_socket st)[nat newfd := int h], px_sock := s'\<rparr>" "fds_ok st'"
proof -
  have cl: "fe_close e = Some Sock" using e by (auto simp: entry_ok_def)
  from run obtain h where h: "socket_handle oldfd st1 = Some h" by (auto simp: sock_dup3_def bind_eq_Some_conv)
  then have fs: "px_fd_socket st ! nat oldfd = int h" by (auto simp: st1 socket_handle_def Let_def split: if_splits)
  from run h obtain s' where d: "sc_tcp_socket_dup C h (px_sock st) = Some (r, s')"
    "st' = st1\<lparr>px_fd_socket := (px_fd_socket st)[nat newfd := int h], px_sock := s'\<rparr>"
    by (auto simp: sock_dup3_def with_sock_def bind_eq_Some_conv st1)
  have "fds_ok st'"
    by (rule assign_fds [OF ok new, where h = h])
      (use fds_ok_lengths [OF ok] new e cl in \<open>simp_all add: d(2) st1 rows_but_def\<close>)
  with fs d that show ?thesis by blast
qed

lemma freed_fds:
  assumes ok: "fds_ok st" and fd: "posix_fd_allocate st = (fd, st1)" "\<not> fd < 0"
    and st3: "st3 = snd (posix_fd_deallocate fd ((set_entry_at fd e st1)\<lparr>px_sock := s\<rparr>))"
  shows "fds_ok st3" "px_client st3 = px_client st" "px_fd_socket st3 = px_fd_socket st" "px_sock st3 = s"
proof -
  note al = allocate_fd [OF fd ok] and l = fds_ok_lengths [OF ok]
  have e: "st3 = (set_entry_at fd e st1)\<lparr>px_sock := s, px_active := (px_active st1)[nat fd := False],
      px_table := (px_table (set_entry_at fd e st1))[nat fd := zero_entry]\<rparr>"
    using al l fd(2) by (simp add: st3 deallocate_fd set_entry_at_def)
  show "fds_ok st3"
    by (rule fds_ok_row [OF ok, where i = "nat fd"])
      (use al l slot_zero in \<open>simp_all add: e rows_but_def set_entry_at_def\<close>)
  show "px_client st3 = px_client st" "px_fd_socket st3 = px_fd_socket st" "px_sock st3 = s"
    by (simp_all add: e set_entry_at_def al(7))
qed

lemma socket_fds:
  assumes ok: "fds_ok st" and run: "sys_socket C domain type st = Some (r, st')"
  shows "steady fds_ok True st st'"
proof (cases "domain = AF_INET \<and> type = SOCK_STREAM")
  case False
  with run ok show ?thesis by (auto simp: sys_socket_def steady_refl split: if_splits)
next
  case True
  obtain fd st1 where fd: "posix_fd_allocate st = (fd, st1)" by (cases "posix_fd_allocate st")
  show ?thesis
  proof (cases "fd < 0")
    case neg: True
    with run True fd allocate_fd_none [OF fd neg] ok show ?thesis by (auto simp: sys_socket_def steady_refl)
  next
    case pos: False
    note al = allocate_fd [OF fd pos ok] and l = fds_ok_lengths [OF ok]
    let ?st2 = "set_entry_at fd socket_entry st1"
    have f2: "px_sock ?st2 = px_sock st" by (simp add: set_entry_at_def al(7))
    note run = run [unfolded sys_socket_def, simplified True fd Let_def, simplified,
      unfolded if_not_P [OF pos] al(8), simplified]
    define freed where "freed s = snd (posix_fd_deallocate fd (?st2\<lparr>px_sock := s\<rparr>))" for s
    define given where "given s j = ?st2\<lparr>px_sock := s, px_fd_socket := (px_fd_socket st)[nat fd := j]\<rparr>" for s j
    have g: "given s j = ?st2\<lparr>px_sock := s, px_fd_socket := (px_fd_socket ?st2)[nat fd := j]\<rparr>" for s j
      by (simp add: given_def al(7) set_entry_at_def)
    have "(\<exists>s. st' = freed s) \<or> (\<exists>s j. 0 \<le> j \<and> st' = given s j)"
      using run al(7) by (auto simp: with_sock_def bind_eq_Some_conv f2 Let_def freed_def g not_less split: if_splits)
    then consider s where "st' = freed s" | s j where "0 \<le> j" "st' = given s j" by blast
    then show ?thesis
    proof cases
      case (1 s)
      then have st': "st' = snd (posix_fd_deallocate fd (?st2\<lparr>px_sock := s\<rparr>))" by (simp only: freed_def)
      show ?thesis using freed_fds [OF ok fd pos st'] by (simp add: steady_def)
    next
      case (2 s j)
      then have st': "st' = ?st2\<lparr>px_sock := s, px_fd_socket := (px_fd_socket st)[nat fd := int (nat j)]\<rparr>" by (simp add: given_def)
      have "fds_ok st'"
        by (rule assign_fds [OF ok al(1,3), where h = "nat j"])
          (use al l in \<open>simp_all add: st' set_entry_at_def rows_but_def socket_entry_def entry_ok_def\<close>)
      then show ?thesis using al by (simp add: steady_def st' set_entry_at_def)
    qed
  qed
qed

lemma accept_handle:
  "sys_accept C fd given st = Some (r, name, st') \<Longrightarrow> \<not> (posix_fd_entry fd st = None \<or> no_socket fd st) \<Longrightarrow>
    \<exists>h fl j s'. socket_handle fd st = Some h \<and> sc_tcp_socket_accept C h fl (px_sock st) = Some (j, s') \<and>
      (let st1 = st\<lparr>px_sock := s'\<rparr> in
        if j < 0 then st' = st1
        else let (fd, st2) = posix_fd_allocate st1
          in if fd < 0 then \<exists>r s2. sc_tcp_socket_close C (nat j) (px_sock st2) = Some (r, s2) \<and> st' = st2\<lparr>px_sock := s2\<rparr>
             else st' = (set_entry_at fd socket_entry st2)\<lparr>px_fd_socket := (px_fd_socket st2)[nat fd := j]\<rparr>)"
proof -
  assume run: "sys_accept C fd given st = Some (r, name, st')" and ok: "\<not> (posix_fd_entry fd st = None \<or> no_socket fd st)"
  then obtain e where e: "posix_fd_entry fd st = Some e" "\<not> no_socket fd st" by auto
  note run = run [unfolded sys_accept_def e(1) option.case if_not_P [OF e(2)]]
  from run obtain h j s' where a: "socket_handle fd st = Some h" "sc_tcp_socket_accept C h (fe_flags e) (px_sock st) = Some (j, s')"
    by (auto simp: with_sock_def bind_eq_Some_conv)
  obtain fd2 st2 where al: "posix_fd_allocate (st\<lparr>px_sock := s'\<rparr>) = (fd2, st2)" by (cases "posix_fd_allocate (st\<lparr>px_sock := s'\<rparr>)")
  show ?thesis
    by (rule exI [of _ h], rule exI [of _ "fe_flags e"], rule exI [of _ j], rule exI [of _ s'])
      (use run in \<open>auto simp: a al with_sock_def bind_eq_Some_conv Let_def set_entry_at_def split: if_splits\<close>)
qed

lemma accept_fds:
  assumes ok: "fds_ok st" and run: "sys_accept C fd given st = Some (r, name, st')"
  shows "steady fds_ok True st st'"
proof (cases "posix_fd_entry fd st = None \<or> no_socket fd st")
  case True
  with run ok show ?thesis by (auto simp: sys_accept_def steady_refl split: option.splits)
next
  case False
  from accept_handle [OF run False] obtain j s1 where
    run: "let st1 = st\<lparr>px_sock := s1\<rparr> in
        if j < 0 then st' = st1
        else let (fd, st2) = posix_fd_allocate st1
          in if fd < 0 then \<exists>r s2. sc_tcp_socket_close C (nat j) (px_sock st2) = Some (r, s2) \<and> st' = st2\<lparr>px_sock := s2\<rparr>
             else st' = (set_entry_at fd socket_entry st2)\<lparr>px_fd_socket := (px_fd_socket st2)[nat fd := j]\<rparr>" by blast
  let ?st1 = "st\<lparr>px_sock := s1\<rparr>"
  have ok1: "fds_ok ?st1" by (rule fds_ok_same [OF ok]) simp_all
  have lib: "steady fds_ok True st (st\<lparr>px_sock := s\<rparr>)" for s
    using fds_ok_same [OF ok, of "st\<lparr>px_sock := s\<rparr>"] by (simp add: steady_def)
  obtain fd2 st2 where fd: "posix_fd_allocate ?st1 = (fd2, st2)" by (cases "posix_fd_allocate ?st1")
  consider "j < 0" | "0 \<le> j" "fd2 < 0" | "0 \<le> j" "\<not> fd2 < 0" by linarith
  then show ?thesis
  proof cases
    case 1
    with run lib show ?thesis by simp
  next
    case 2
    with run fd allocate_fd_none [OF fd] lib show ?thesis by auto
  next
    case 3
    note al = allocate_fd [OF fd 3(2) ok1] and l = fds_ok_lengths [OF ok1]
    have st': "st' = (set_entry_at fd2 socket_entry st2)\<lparr>px_fd_socket := (px_fd_socket st2)[nat fd2 := int (nat j)]\<rparr>"
      using run 3 fd by simp
    have "fds_ok st'"
      by (rule assign_fds [OF ok1 al(1,3), where h = "nat j"])
        (use al l in \<open>simp_all add: st' set_entry_at_def rows_but_def socket_entry_def entry_ok_def\<close>)
    then show ?thesis using al by (simp add: steady_def st' set_entry_at_def)
  qed
qed

subsection \<open>Every call keeps an invariant of the descriptors\<close>

text \<open>What is asked of an invariant: it depends only on the tables of descriptors and on the sockets, and it is kept by the
  functions of the socket library, by what happens to the sockets between calls, and by the calls that give or take one.\<close>

locale descriptor_invariant =
  fixes C :: "'s socket_config"
    and K :: "'s \<Rightarrow> 's \<Rightarrow> bool"
    and Inv :: "('s, 'q) posix \<Rightarrow> bool"
  assumes fds: "Inv st \<Longrightarrow> fds_ok st"
    and same: "Inv st \<Longrightarrow> fds_ok st' \<Longrightarrow> px_fd_socket st' = px_fd_socket st \<Longrightarrow> px_sock st' = px_sock st \<Longrightarrow> Inv st'"
    and between: "Inv st \<Longrightarrow> K (px_sock st) s' \<Longrightarrow> Inv (st\<lparr>px_sock := s'\<rparr>)"
    and lib_write: "Inv st \<Longrightarrow> sc_tcp_socket_write C i buf fl (px_sock st) = Some (r, s') \<Longrightarrow> Inv (st\<lparr>px_sock := s'\<rparr>)"
    and lib_recv: "Inv st \<Longrightarrow> sc_tcp_socket_recv C i n fl (px_sock st) = Some (r, bs, s') \<Longrightarrow> Inv (st\<lparr>px_sock := s'\<rparr>)"
    and lib_connect: "Inv st \<Longrightarrow> sc_tcp_socket_connect C i addr port fl (px_sock st) = Some (r, s') \<Longrightarrow> Inv (st\<lparr>px_sock := s'\<rparr>)"
    and lib_listen: "Inv st \<Longrightarrow> sc_tcp_socket_listen C i backlog (px_sock st) = Some (r, s') \<Longrightarrow> Inv (st\<lparr>px_sock := s'\<rparr>)"
    and lib_bind: "Inv st \<Longrightarrow> sc_tcp_socket_bind C i addr port (px_sock st) = Some (r, s') \<Longrightarrow> Inv (st\<lparr>px_sock := s'\<rparr>)"
    and closing: "Inv st \<Longrightarrow> sock_close C fd st = Some (r, st') \<Longrightarrow> posix_fd_entry fd st = Some e \<Longrightarrow> fe_close e = Some Sock \<Longrightarrow>
      steady Inv True st st'"
    and duplicating: "Inv st \<Longrightarrow> nat oldfd < MAX_FDS \<Longrightarrow> 0 \<le> oldfd \<Longrightarrow> 0 \<le> newfd \<Longrightarrow> nat newfd < MAX_FDS \<Longrightarrow>
      \<not> px_active st ! nat newfd \<Longrightarrow> oldfd \<noteq> newfd \<Longrightarrow> entry_ok e \<Longrightarrow> fe_dup3 e = Some Sock \<Longrightarrow>
      st1 = st\<lparr>px_active := (px_active st)[nat newfd := True], px_table := (px_table st)[nat newfd := e]\<rparr> \<Longrightarrow>
      sock_dup3 C oldfd newfd st1 = Some (r, st') \<Longrightarrow> steady Inv True st st'"
    and making: "Inv st \<Longrightarrow> sys_socket C domain type st = Some (r, st') \<Longrightarrow> steady Inv True st st'"
    and accepting: "Inv st \<Longrightarrow> sys_accept C fd given st = Some (r, name, st') \<Longrightarrow> steady Inv True st st'"

context descriptor_invariant
begin

lemma unchanged: "Inv st \<Longrightarrow> steady Inv b st st"
  by (rule steady_refl)

lemma steady_fds: "Inv st \<Longrightarrow> fds_ok st' \<Longrightarrow> px_fd_socket st' = px_fd_socket st \<Longrightarrow> px_sock st' = px_sock st \<Longrightarrow>
    px_client st' = px_client st \<Longrightarrow> steady Inv b st st'"
  using same by (simp add: steady_def)

lemma steady_file:
  assumes "Inv st" "file_step b st st'"
  shows "steady Inv b st st'"
  using assms fds [OF assms(1)] same [OF assms(1), of st'] by (simp add: steady_def file_step_def)

lemma steady_lib: "Inv (st\<lparr>px_sock := s'\<rparr>) \<Longrightarrow> steady Inv b st (st\<lparr>px_sock := s'\<rparr>)"
  by (simp add: steady_def)

lemma steady_with:
  assumes "with_sock f st = Some (r, st')" "\<And>s'. f (px_sock st) = Some (r, s') \<Longrightarrow> Inv (st\<lparr>px_sock := s'\<rparr>)"
  shows "steady Inv b st st'"
  using assms by (auto simp: with_sock_def bind_eq_Some_conv intro: steady_lib)

lemma steady_console:
  assumes "Inv st" "console_write S bs st = (r, st')"
  shows "steady Inv b st st'"
proof -
  have f: "px_active st' = px_active st" "px_table st' = px_table st" "px_fd_socket st' = px_fd_socket st"
    "px_server_fd st' = px_server_fd st" "px_fd_path st' = px_fd_path st" "px_client st' = px_client st" "px_sock st' = px_sock st"
    using assms(2) by (auto simp: console_write_def Let_def split: prod.splits if_splits)
  show ?thesis by (rule steady_fds [OF assms(1) fds_ok_same [OF fds [OF assms(1)]]]) (simp_all add: f)
qed

lemma steady_sock_write:
  assumes "Inv st" "sock_write C bs fd st = Some (r, st')"
  shows "steady Inv b st st'"
  using assms unchanged [OF assms(1)] lib_write [OF assms(1)]
  by (auto simp: sock_write_def bind_eq_Some_conv split: option.splits elim!: steady_with)

lemma steady_sock_read:
  assumes "Inv st" "sock_read C n fd st = Some (r, bs, st')"
  shows "steady Inv b st st'"
proof (cases "posix_fd_entry fd st")
  case None
  with assms show ?thesis by (auto simp: sock_read_def steady_refl)
next
  case (Some e)
  with assms(2) obtain h s' where h: "sc_tcp_socket_recv C h n (fe_flags e) (px_sock st) = Some (r, bs, s')" "st' = st\<lparr>px_sock := s'\<rparr>"
    by (auto simp: sock_read_def bind_eq_Some_conv)
  show ?thesis unfolding h(2) by (rule steady_lib [OF lib_recv [OF assms(1) h(1)]])
qed

text \<open>Calls through an entry.\<close>

lemma steady_entry_write:
  assumes "Inv st" "le_socket E = C" "b \<longrightarrow> waits_keep_buffers (le_waits E)" "entry_write E e bs fd st = Some (r, st')"
  shows "steady Inv b st st'"
  using assms(2,4) steady_console [OF assms(1)] steady_sock_write [OF assms(1)]
    steady_file [OF assms(1) effect_step [OF file_write_effect [OF assms(3)]]]
  by (auto simp: entry_write_def split: option.splits fd_class.splits)

lemma steady_entry_read:
  assumes "Inv st" "le_socket E = C" "b \<longrightarrow> waits_keep_buffers (le_waits E)" "entry_read E e bs fd st = Some (r, out, st')"
  shows "steady Inv b st st'"
  using assms(2,4) steady_sock_read [OF assms(1)]
    steady_file [OF assms(1) effect_step [OF file_read_effect [OF assms(3)]]]
  by (auto simp: entry_read_def bind_eq_Some_conv split: option.splits fd_class.splits)

lemma steady_entry_close:
  assumes "Inv st" "le_socket E = C" "b \<longrightarrow> waits_keep_buffers (le_waits E)" "posix_fd_entry fd st = Some e"
    and "entry_close E e fd st = Some (r, st')"
  shows "steady Inv b st st'"
  using assms(2,4,5) steady_any [OF closing [OF assms(1)]] steady_file [OF assms(1) close_step [OF assms(3)]]
  by (auto simp: entry_close_def split: option.splits fd_class.splits)

lemma steady_writev:
  assumes "le_socket E = C" "b \<longrightarrow> waits_keep_buffers (le_waits E)"
  shows "Inv st \<Longrightarrow> writev_loop E e fd vs ret st = Some (r, st') \<Longrightarrow> steady Inv b st st'"
proof (induction vs arbitrary: ret st)
  case Nil
  then show ?case by (simp add: steady_refl)
next
  case (Cons v vs)
  show ?case
  proof (cases "iov_len v = 0 \<or> iov_base v = None")
    case True
    with Cons show ?thesis by (auto simp: steady_refl split: if_splits option.splits)
  next
    case False
    then obtain bs where bs: "iov_base v = Some bs" by auto
    with False Cons.prems(2) obtain n st1 where w: "entry_write E e (take (unat (iov_len v)) bs) fd st = Some (n, st1)"
      by (auto simp: bind_eq_Some_conv)
    have s1: "steady Inv b st st1" by (rule steady_entry_write [OF Cons.prems(1) assms w])
    show ?thesis using False bs Cons.prems(2) w s1 Cons.IH [OF steadyD [OF s1]] steady_trans [OF s1]
      by (auto split: if_splits)
  qed
qed

lemma steady_readv:
  assumes "le_socket E = C" "b \<longrightarrow> waits_keep_buffers (le_waits E)"
  shows "Inv st \<Longrightarrow> readv_loop E e fd vs ret st = Some (r, ws, st') \<Longrightarrow> steady Inv b st st'"
proof (induction vs arbitrary: ret st ws)
  case Nil
  then show ?case by (simp add: steady_refl)
next
  case (Cons v vs)
  show ?case
  proof (cases "iov_len v = 0 \<or> iov_base v = None")
    case True
    with Cons show ?thesis by (auto simp: steady_refl bind_eq_Some_conv split: if_splits option.splits)
  next
    case False
    then obtain bs where bs: "iov_base v = Some bs" by auto
    with False Cons.prems(2) obtain n bs' st1 where w: "entry_read E e (take (unat (iov_len v)) bs) fd st = Some (n, bs', st1)"
      by (auto simp: bind_eq_Some_conv)
    have s1: "steady Inv b st st1" by (rule steady_entry_read [OF Cons.prems(1) assms w])
    show ?thesis using False bs Cons.prems(2) w s1 Cons.IH [OF steadyD [OF s1]] steady_trans [OF s1]
      by (auto simp: bind_eq_Some_conv Let_def split: if_splits)
  qed
qed

text \<open>Duplication: the new descriptor is closed, allocated, and gets the entry of the old one.\<close>

lemma steady_assign_entry:
  assumes c: "Inv st" and E: "le_socket E = C" and old: "nat oldfd < MAX_FDS" "0 \<le> oldfd"
    and new: "0 \<le> newfd" "nat newfd < MAX_FDS" "\<not> px_active st ! nat newfd" "oldfd \<noteq> newfd"
    and e: "entry_ok e" and st1: "st1 = st\<lparr>px_active := (px_active st)[nat newfd := True], px_table := (px_table st)[nat newfd := e]\<rparr>"
    and run: "entry_dup3 E e oldfd newfd st1 = Some (r, st')"
  shows "steady Inv b st st'"
proof -
  note ok = fds [OF c]
  note l = fds_ok_lengths [OF ok]
  have row: "slot_ok (px_active st ! nat newfd) (px_table st ! nat newfd) (px_fd_socket st ! nat newfd) (px_server_fd st ! nat newfd)"
    by (rule fds_okD [OF ok new(2)])
  then have z: "px_fd_socket st ! nat newfd = - 1" "px_server_fd st ! nat newfd = - 1"
    using new(3) by (auto simp: slot_ok_def zero_entry_def)
  from run consider "fe_dup3 e = Some Sock" "sock_dup3 C oldfd newfd st1 = Some (r, st')"
    | "fe_dup3 e = Some File" "(r, st') = file_dup3 oldfd newfd st1"
    by (auto simp: entry_dup3_def E split: option.splits fd_class.splits)
  then show ?thesis
  proof cases
    case 1
    show ?thesis by (rule steady_any [OF duplicating [OF c old new(1-4) e 1(1) st1 1(2)]])
  next
    case 2
    then have cl: "fe_close e = Some File" using e by (auto simp: entry_ok_def)
    have st': "st' = st1\<lparr>px_server_fd := (px_server_fd st)[nat newfd := px_server_fd st ! nat oldfd]\<rparr>"
      using 2(2) by (simp add: file_dup3_def st1)
    have "fds_ok st'"
      by (rule fds_ok_row [OF ok, where i = "nat newfd"])
        (use l new e cl z in \<open>simp_all add: st' st1 rows_but_def slot_ok_def\<close>)
    then show ?thesis by (intro steady_fds [OF c]) (simp_all add: st' st1)
  qed
qed

lemma steady_dup3:
  assumes c: "Inv st" and E: "le_socket E = C" and W: "b \<longrightarrow> waits_keep_buffers (le_waits E)"
    and run: "sys_dup3 E oldfd newfd flags st = Some (r, st')"
  shows "steady Inv b st st'"
proof (cases "(newfd < 0 \<or> int MAX_FDS \<le> newfd) \<or> flags AND NOT O_CLOEXEC \<noteq> 0 \<or> (oldfd = SERVICES_FD \<or> newfd = SERVICES_FD) \<or>
    posix_fd_entry oldfd st = None \<or> oldfd = newfd")
  case True
  with run c show ?thesis by (auto simp: sys_dup3_def steady_refl split: if_splits)
next
  case False
  then have n: "\<not> (newfd < 0 \<or> int MAX_FDS \<le> newfd)" "\<not> flags AND NOT O_CLOEXEC \<noteq> 0"
    "\<not> (oldfd = SERVICES_FD \<or> newfd = SERVICES_FD)" "posix_fd_entry oldfd st \<noteq> None" "oldfd \<noteq> newfd"
    by (simp_all only: de_Morgan_disj not_not not_False_eq_True simp_thms)
  obtain e0 where e0: "posix_fd_entry oldfd st = Some e0" using n(4) by blast
  note old = fd_entry_SomeD [OF e0]
  note run = run [unfolded sys_dup3_def if_not_P [OF n(1)] if_not_P [OF n(2)] if_not_P [OF n(3)] if_not_P [OF n(4)] if_not_P [OF n(5)]]
  let ?close = "case posix_fd_entry newfd st of None \<Rightarrow> Some st | Some e \<Rightarrow> map_option snd (entry_close E e newfd st)"
  from run obtain st1 where st1: "?close = Some st1" by (auto simp: bind_eq_Some_conv)
  have s1: "steady Inv b st st1"
  proof (cases "posix_fd_entry newfd st")
    case None
    with st1 c show ?thesis by (simp add: steady_refl)
  next
    case (Some e)
    with st1 obtain r1 where "entry_close E e newfd st = Some (r1, st1)" by auto
    then show ?thesis by (rule steady_entry_close [OF c E W Some])
  qed
  note c1 = steadyD [OF s1]
  note l = fds_ok_lengths [OF fds [OF c1]]
  obtain al st2 where a: "posix_fd_entry_allocate newfd st1 = (al, st2)" by (cases "posix_fd_entry_allocate newfd st1")
  note run = run [unfolded st1 Option.bind.bind_lunit a Let_def prod.case]
  show ?thesis
  proof (cases al)
    case False
    with run a have "st' = st1" by (auto simp: posix_fd_entry_allocate_def split: if_splits)
    with s1 show ?thesis by simp
  next
    case True
    with a n(1) have al: "\<not> px_active st1 ! nat newfd" "st2 = st1\<lparr>px_active := (px_active st1)[nat newfd := True],
        px_table := (px_table st1)[nat newfd := zero_entry]\<rparr>"
      by (auto simp: posix_fd_entry_allocate_def split: if_splits)
    let ?e = "if has_flag flags O_CLOEXEC then (px_table st2 ! nat oldfd)\<lparr>fe_flags := fe_flags (px_table st2 ! nat oldfd) OR O_CLOEXEC\<rparr>
      else px_table st2 ! nat oldfd"
    have new: "0 \<le> newfd" "nat newfd < MAX_FDS" using n(1) by auto
    have ne: "nat oldfd \<noteq> nat newfd" using n(5) new(1) old(1) by linarith
    have "slot_ok (px_active st1 ! nat oldfd) (px_table st1 ! nat oldfd) (px_fd_socket st1 ! nat oldfd) (px_server_fd st1 ! nat oldfd)"
      by (rule fds_okD [OF fds [OF c1] old(2)])
    then have e: "entry_ok ?e" using ne by (auto simp: slot_ok_def al(2) entry_ok_def)
    from run True obtain err where d: "entry_dup3 E ?e oldfd newfd (set_entry_at newfd ?e st2) = Some (err, st')"
      by (auto simp: bind_eq_Some_conv split: if_splits)
    have "steady Inv b st1 st'"
      by (rule steady_assign_entry [OF c1 E old(2,1) new al(1) n(5) e refl])
        (use d in \<open>simp add: set_entry_at_def al(2)\<close>)
    with s1 show ?thesis by (rule steady_trans)
  qed
qed

lemma steady_writev_call:
  assumes "Inv st" "le_socket E = C" "b \<longrightarrow> waits_keep_buffers (le_waits E)" "sys_writev E fd iov n st = Some (r, st')"
  shows "steady Inv b st st'"
proof (cases "iov = None \<or> fd = SERVICES_FD \<or> posix_fd_entry fd st = None \<or> n \<le> 0 \<or> IOV_MAX < n")
  case True
  with assms(4) unchanged [OF assms(1)] show ?thesis by (auto simp: sys_writev_def split: option.splits if_splits)
next
  case False
  then obtain vs e where e: "iov = Some vs" "posix_fd_entry fd st = Some e" "fd \<noteq> SERVICES_FD" "\<not> (n \<le> 0 \<or> IOV_MAX < n)" by auto
  with assms(4) obtain t where t: "iov_sum (take (nat n) vs) 0 = Some t" by (auto simp: sys_writev_def bind_eq_Some_conv)
  show ?thesis using assms(4) e t steady_writev [OF assms(2,3,1)] unchanged [OF assms(1)]
    by (cases t) (auto simp: sys_writev_def split: if_splits)
qed

lemma steady_readv_call:
  assumes "Inv st" "le_socket E = C" "b \<longrightarrow> waits_keep_buffers (le_waits E)" "sys_readv E fd iov n st = Some (r, out, st')"
  shows "steady Inv b st st'"
proof (cases "iov = None \<or> fd = SERVICES_FD \<or> posix_fd_entry fd st = None \<or> n \<le> 0 \<or> IOV_MAX < n")
  case True
  with assms(4) unchanged [OF assms(1)] show ?thesis by (auto simp: sys_readv_def split: option.splits if_splits)
next
  case False
  then obtain vs e where e: "iov = Some vs" "posix_fd_entry fd st = Some e" "fd \<noteq> SERVICES_FD" "\<not> (n \<le> 0 \<or> IOV_MAX < n)" by auto
  with assms(4) obtain t where t: "iov_sum (take (nat n) vs) 0 = Some t" by (auto simp: sys_readv_def bind_eq_Some_conv)
  show ?thesis using assms(4) e t steady_readv [OF assms(2,3,1)] unchanged [OF assms(1)]
    by (cases t) (auto simp: sys_readv_def split: if_splits)
qed

lemma steady_close_call:
  assumes "Inv st" "le_socket E = C" "b \<longrightarrow> waits_keep_buffers (le_waits E)" "sys_close E fd st = Some (r, st')"
  shows "steady Inv b st st'"
  using assms(4) steady_entry_close [OF assms(1-3)] unchanged [OF assms(1)]
  by (auto simp: sys_close_def bind_eq_Some_conv split: option.splits if_splits)

lemma steady_fstat_call:
  assumes "Inv st" "b \<longrightarrow> waits_keep_buffers (le_waits E)" "sys_fstat E fd sb st = Some (r, sb', st')"
  shows "steady Inv b st st'"
  using assms(3) steady_file [OF assms(1) held_step [OF held_file_fstat [OF assms(2) held_refl]]] unchanged [OF assms(1)]
  by (auto simp: sys_fstat_def entry_fstat_def bind_eq_Some_conv split: option.splits if_splits fd_class.splits prod.splits)

lemma steady_fcntl_call:
  assumes c: "Inv st" and run: "sys_fcntl fd cmd arg st = (r, st')"
  shows "steady Inv b st st'"
proof (cases "\<exists>e fl. posix_fd_entry fd st = Some e \<and> st' = set_entry_at fd (e\<lparr>fe_flags := fl\<rparr>) st")
  case False
  with run c show ?thesis by (auto simp: sys_fcntl_def steady_refl split: option.splits if_splits)
next
  case True
  then obtain e fl where e: "posix_fd_entry fd st = Some e" "st' = set_entry_at fd (e\<lparr>fe_flags := fl\<rparr>) st" by blast
  note d = fd_entry_SomeD [OF e(1)] and ok = fds [OF c]
  have "slot_ok (px_active st ! nat fd) (px_table st ! nat fd) (px_fd_socket st ! nat fd) (px_server_fd st ! nat fd)"
    by (rule fds_okD [OF ok d(2)])
  then have "fds_ok st'"
    by (intro fds_ok_row [OF ok, where i = "nat fd"])
      (use d fds_ok_lengths [OF ok] in \<open>simp_all add: e(2) set_entry_at_def rows_but_def slot_ok_def entry_ok_def\<close>)
  then show ?thesis by (intro steady_fds [OF c]) (simp_all add: e(2) set_entry_at_def)
qed

lemma steady_recvfrom:
  assumes c: "Inv st" and run: "sys_recvfrom C fd given n flags src addrlen st = Some (r, out, name, st')"
  shows "steady Inv b st st'"
proof (cases "\<not> given \<or> posix_fd_entry fd st = None \<or> no_socket fd st")
  case True
  with run c show ?thesis by (auto simp: sys_recvfrom_def steady_refl split: if_splits option.splits)
next
  case False
  then obtain e where e: "given" "posix_fd_entry fd st = Some e" "\<not> no_socket fd st" by auto
  with run obtain h m bs s' where h: "sc_tcp_socket_recv C h n (effective_flags (fe_flags e) flags) (px_sock st) = Some (m, bs, s')"
    "st' = st\<lparr>px_sock := s'\<rparr>"
    by (auto simp: sys_recvfrom_def bind_eq_Some_conv Let_def split: option.splits if_splits)
  show ?thesis unfolding h(2) by (rule steady_lib [OF lib_recv [OF c h(1)]])
qed

text \<open>Every step keeps the invariant.\<close>

lemma steady_step:
  assumes "libc_step E K st st'" "Inv st" "le_socket E = C"
    "b \<longrightarrow> waits_keep_buffers (le_waits E)"
  shows "steady Inv b st st'"
  using assms(1,2)
proof (cases rule: libc_step.cases)
  case (call_between s')
  show ?thesis unfolding call_between(1) by (rule steady_lib [OF between [OF assms(2) call_between(2)]])
next
  case (call_write fd buf n r)
  then show ?thesis using assms(2) steady_entry_write [OF assms(2-4)]
    by (auto simp: sys_write_def steady_refl split: if_splits option.splits)
next
  case (call_read fd buf n r out)
  then show ?thesis using assms(2) steady_entry_read [OF assms(2-4)]
    by (auto simp: sys_read_def steady_refl split: if_splits option.splits)
next
  case (call_writev fd iov n r)
  then show ?thesis by (rule steady_writev_call [OF assms(2-4)])
next
  case (call_readv fd iov n r out)
  then show ?thesis by (rule steady_readv_call [OF assms(2-4)])
next
  case (call_close fd r)
  then show ?thesis by (rule steady_close_call [OF assms(2-4)])
next
  case (call_dup3 fd fd' flags r)
  then show ?thesis by (rule steady_dup3 [OF assms(2-4)])
next
  case (call_fstat fd sb r sb')
  then show ?thesis by (rule steady_fstat_call [OF assms(2,4)])
next
  case (call_fcntl fd cmd arg r)
  then show ?thesis by (rule steady_fcntl_call [OF assms(2)])
next
  case (call_fstatat dirfd path sb r sb')
  then show ?thesis using steady_file [OF assms(2) held_step [OF held_fstatat [OF assms(4)]]] by blast
next
  case (call_openat dirfd path flags r)
  then show ?thesis using steady_file [OF assms(2) open_step [OF assms(4) _ fds [OF assms(2)]]] by blast
next
  case (call_lseek fd offset whence r)
  then show ?thesis using steady_file [OF assms(2) effect_step [OF lseek_effect [OF assms(4)]]] by blast
next
  case (call_mkdirat dirfd path r)
  then show ?thesis using steady_file [OF assms(2) held_step [OF held_mkdirat [OF assms(4)]]] by blast
next
  case (call_unlinkat dirfd path flags r)
  then show ?thesis using steady_file [OF assms(2) held_step [OF held_unlinkat [OF assms(4)]]] by blast
next
  case (call_socket domain type r)
  then show ?thesis using steady_any [OF making [OF assms(2)]] assms(3) by blast
next
  case (call_bind fd addr n r)
  then show ?thesis using assms(2,3) lib_bind [OF assms(2)]
    by (auto simp: sys_bind_def bind_eq_Some_conv split: sum.splits intro: steady_refl elim!: steady_with)
next
  case (call_connect fd addr n r)
  then show ?thesis using assms(2,3) lib_connect [OF assms(2)]
    by (auto simp: sys_socket_connect_def bind_eq_Some_conv split: sum.splits
      intro: steady_refl elim!: steady_with)
next
  case (call_sendto fd buf n flags r)
  then show ?thesis using assms(2,3) lib_write [OF assms(2)]
    by (auto simp: sys_sendto_def bind_eq_Some_conv split: option.splits if_splits
      intro: steady_refl elim!: steady_with)
next
  case (call_recvfrom fd given n flags src addrlen r out name)
  then show ?thesis using steady_recvfrom [OF assms(2)] assms(3) by blast
next
  case (call_listen fd backlog r)
  then show ?thesis using assms(2,3) lib_listen [OF assms(2)]
    by (auto simp: sys_listen_def bind_eq_Some_conv split: option.splits if_splits
      intro: steady_refl elim!: steady_with)
next
  case (call_accept fd given r name)
  then show ?thesis using steady_any [OF accepting [OF assms(2)]] assms(3) by blast
qed

lemma run_invariant:
  assumes "(libc_step E K)\<^sup>*\<^sup>* st st'" "Inv st" "le_socket E = C" "b \<longrightarrow> waits_keep_buffers (le_waits E)"
  shows "steady Inv b st st'"
  using assms
proof (induction rule: rtranclp_induct)
  case (step st1 st2)
  note s1 = step.IH [OF step.prems]
  from steady_trans [OF s1 steady_step [OF step(2) steadyD [OF s1] step.prems(2,3)]] show ?case .
qed (simp add: steady_refl)

end

text \<open>With any socket library, and whatever happens to the sockets, the tables of descriptors stay well formed.\<close>

interpretation any_library: descriptor_invariant C "\<lambda>_ _. True" fds_ok for C :: "'s socket_config"
proof unfold_locales
  fix st :: "('s, 'q) posix" and s' assume "fds_ok st"
  then show "fds_ok (st\<lparr>px_sock := s'\<rparr>)" by (rule fds_ok_same) simp_all
next
  fix st :: "('s, 'q) posix" and fd r st' e
  assume a: "fds_ok st" "sock_close C fd st = Some (r, st')" "posix_fd_entry fd st = Some e" "fe_close e = Some Sock"
  show "steady fds_ok True st st'" by (rule sock_close_effect [OF a]) (simp add: steady_def)
next
  fix st :: "('s, 'q) posix" and oldfd newfd e st1 r st'
  assume a: "fds_ok st" "0 \<le> oldfd" "0 \<le> newfd" "nat newfd < MAX_FDS" "\<not> px_active st ! nat newfd"
    "oldfd \<noteq> newfd" "entry_ok e" "fe_dup3 e = Some Sock"
    and st1: "st1 = st\<lparr>px_active := (px_active st)[nat newfd := True], px_table := (px_table st)[nat newfd := e]\<rparr>"
    and d: "sock_dup3 C oldfd newfd st1 = Some (r, st')"
  show "steady fds_ok True st st'"
    by (rule sock_dup3_effect [OF a(1,4,5,6,2,3,7,8) st1 d]) (simp add: steady_def st1)
qed (simp_all add: fds_ok_same socket_fds accept_fds)

subsection \<open>The counts\<close>

context counted_sockets
begin

text \<open>The invariant. A socket whose initialisation failed has a negative count and is never used again.\<close>

definition counted :: "('s, 'q) posix \<Rightarrow> bool" where
  "counted st \<longleftrightarrow> fds_ok st \<and> well (px_sock st) \<and>
     (\<forall>i. \<not> live (px_sock st) i \<longrightarrow> refcount (px_sock st) i = 0) \<and>
     (\<forall>i. refcount (px_sock st) i = descriptors st i \<or> (descriptors st i = 0 \<and> refcount (px_sock st) i < 0))"

lemma countedD:
  assumes "counted st"
  shows "fds_ok st" "well (px_sock st)" "\<not> live (px_sock st) i \<Longrightarrow> refcount (px_sock st) i = 0"
    "0 \<le> refcount (px_sock st) i \<Longrightarrow> refcount (px_sock st) i = descriptors st i"
    "0 < descriptors st i \<Longrightarrow> refcount (px_sock st) i = descriptors st i"
  using assms by (auto simp: counted_def)

lemma kept_idle: "count_kept refcount live well s s' \<Longrightarrow> \<forall>i. \<not> live s i \<longrightarrow> refcount s i = 0 \<Longrightarrow>
    \<forall>i. \<not> live s' i \<longrightarrow> refcount s' i = 0"
  by (auto simp: count_kept_def)

lemma counted_kept:
  assumes "counted st" "fds_ok st'" "px_fd_socket st' = px_fd_socket st"
    "count_kept refcount live well (px_sock st) (px_sock st')"
  shows "counted st'"
proof -
  have "refcount (px_sock st') = refcount (px_sock st)" "well (px_sock st')" "descriptors st' = descriptors st"
    using assms(3,4) by (auto simp: count_kept_def descriptors_def fun_eq_iff)
  moreover have "\<forall>i. \<not> live (px_sock st') i \<longrightarrow> refcount (px_sock st') i = 0"
    by (rule kept_idle [OF assms(4)]) (use assms(1) in \<open>simp add: counted_def\<close>)
  ultimately show ?thesis using assms(1,2) by (simp add: counted_def)
qed

lemma count_kept_refl: "well s \<Longrightarrow> count_kept refcount live well s s"
  by (simp add: count_kept_def)

lemma counted_same:
  assumes "counted st" "fds_ok st'" "px_fd_socket st' = px_fd_socket st" "px_sock st' = px_sock st"
  shows "counted st'"
  by (rule counted_kept [OF assms(1-3)]) (simp add: assms(4) count_kept_refl countedD(2) [OF assms(1)])

text \<open>A free descriptor gets a socket.\<close>

lemma counted_assign:
  assumes c: "counted st" and i: "i < MAX_FDS" "\<not> px_active st ! i"
    and rows: "rows_but i st st'" "px_active st' ! i" "entry_ok (px_table st' ! i)" "fe_close (px_table st' ! i) = Some Sock"
      "px_server_fd st' ! i = px_server_fd st ! i"
    and h: "px_fd_socket st' = (px_fd_socket st)[i := int h]"
    and s: "well (px_sock st')" "refcount (px_sock st') = (refcount (px_sock st))(h := refcount (px_sock st) h + 1)"
      "\<forall>j. \<not> live (px_sock st') j \<longrightarrow> refcount (px_sock st') j = 0" "0 \<le> refcount (px_sock st) h"
  shows "counted st'"
proof -
  note ok = countedD(1) [OF c]
  note a = assign_fds [OF ok i rows h]
  have l: "i < length (px_fd_socket st)" using fds_ok_lengths [OF ok] i(1) by simp
  have "descriptors st' = (descriptors st)(h := descriptors st h + 1)"
    using descriptors_update [OF l h] a(2) by (auto simp: fun_eq_iff)
  moreover have "refcount (px_sock st) h = descriptors st h" by (rule countedD(4) [OF c s(4)])
  ultimately show ?thesis using c s a(1) by (auto simp: counted_def)
qed

lemma counted_lib:
  assumes "counted st" "count_kept refcount live well (px_sock st) s'"
  shows "counted (st\<lparr>px_sock := s'\<rparr>)"
  using fds_ok_same [OF countedD(1) [OF assms(1)], of "st\<lparr>px_sock := s'\<rparr>"] assms(2)
  by (intro counted_kept [OF assms(1)]) simp_all

lemma steady_sock_close:
  assumes c: "counted st" and run: "sock_close C fd st = Some (r, st')"
    and e: "posix_fd_entry fd st = Some e" "fe_close e = Some Sock"
  shows "steady counted True st st'"
proof -
  note d = fd_entry_SomeD [OF e(1)]
  from sock_close_effect [OF countedD(1) [OF c] run e] obtain h s' where fs: "px_fd_socket st ! nat fd = int h"
    and s': "sc_tcp_socket_close C h (px_sock st) = Some (r, s')"
    "st' = st\<lparr>px_active := (px_active st)[nat fd := False], px_table := (px_table st)[nat fd := zero_entry],
       px_fd_socket := (px_fd_socket st)[nat fd := - 1], px_sock := s'\<rparr>" and ok: "fds_ok st'" .
  have kl: "nat fd < length (px_fd_socket st)" using fds_ok_lengths [OF countedD(1) [OF c]] d(2) by simp
  note ok
  moreover have n: "descriptors st' = (descriptors st)(h := descriptors st h - 1)"
    using descriptors_update [OF kl, of st' "- 1"] fs s'(2) by (auto simp: fun_eq_iff)
  moreover have p: "refcount (px_sock st) h = descriptors st h" "0 < descriptors st h"
    using countedD(5) [OF c descriptors_pos [OF kl fs]] descriptors_pos [OF kl fs] by simp_all
  moreover note cl = close [OF countedD(2) [OF c] s'(1)]
  moreover have "\<forall>i. \<not> live s' i \<longrightarrow> refcount s' i = 0"
  proof (intro allI impI)
    fix i assume i: "\<not> live s' i"
    show "refcount s' i = 0"
    proof (cases "i = h \<and> refcount (px_sock st) h = 1")
      case True
      then show ?thesis using cl by simp
    next
      case False
      then have "\<not> live (px_sock st) i" using cl i by auto
      then have "refcount (px_sock st) i = 0" by (rule countedD(3) [OF c])
      then show ?thesis using cl p by (cases "i = h") auto
    qed
  qed
  moreover have "px_sock st' = s'" by (simp add: s'(2))
  ultimately have "counted st'" using c unfolding counted_def by auto
  then show ?thesis using s'(2) by (simp add: steady_def)
qed

lemma steady_sock_dup3:
  assumes c: "counted st" and old: "nat oldfd < MAX_FDS" "0 \<le> oldfd"
    and new: "0 \<le> newfd" "nat newfd < MAX_FDS" "\<not> px_active st ! nat newfd" "oldfd \<noteq> newfd"
    and e: "entry_ok e" "fe_dup3 e = Some Sock"
    and st1: "st1 = st\<lparr>px_active := (px_active st)[nat newfd := True], px_table := (px_table st)[nat newfd := e]\<rparr>"
    and run: "sock_dup3 C oldfd newfd st1 = Some (r, st')"
  shows "steady counted True st st'"
proof -
  note l = fds_ok_lengths [OF countedD(1) [OF c]]
  have cl: "fe_close e = Some Sock" using e by (auto simp: entry_ok_def)
  from sock_dup3_effect [OF countedD(1) [OF c] new(2,3,4) old(2) new(1) e st1 run] obtain h s' where
    fs: "px_fd_socket st ! nat oldfd = int h" and d: "sc_tcp_socket_dup C h (px_sock st) = Some (r, s')"
    "st' = st1\<lparr>px_fd_socket := (px_fd_socket st)[nat newfd := int h], px_sock := s'\<rparr>" .
  note D = dup [OF countedD(2) [OF c] d(1)]
  have p: "0 < descriptors st h" by (rule descriptors_pos [OF _ fs]) (use l old in simp)
  have "counted st'"
  proof (rule counted_assign [OF c new(2,3), where h = h])
    show "rows_but (nat newfd) st st'" by (simp add: d(2) st1 rows_but_def)
    show "px_active st' ! nat newfd" "entry_ok (px_table st' ! nat newfd)" "fe_close (px_table st' ! nat newfd) = Some Sock"
        "px_server_fd st' ! nat newfd = px_server_fd st ! nat newfd" "px_fd_socket st' = (px_fd_socket st)[nat newfd := int h]"
      using l new e cl by (simp_all add: d(2) st1)
    show "well (px_sock st')" "refcount (px_sock st') = (refcount (px_sock st))(h := refcount (px_sock st) h + 1)"
      using D by (simp_all add: d(2))
    show "0 \<le> refcount (px_sock st) h" using countedD(5) [OF c p] p by simp
    show "\<forall>j. \<not> live (px_sock st') j \<longrightarrow> refcount (px_sock st') j = 0"
    proof (intro allI impI)
      fix j assume "\<not> live (px_sock st') j"
      then have "\<not> live (px_sock st) j" using D by (simp add: d(2))
      then have r0: "refcount (px_sock st) j = 0" by (rule countedD(3) [OF c])
      then have "j \<noteq> h" using countedD(5) [OF c p] p by auto
      with r0 show "refcount (px_sock st') j = 0" using D by (simp add: d(2))
    qed
  qed
  then show ?thesis by (simp add: steady_def d(2) st1)
qed

text \<open>Sockets.\<close>

lemma idle_after:
  assumes "\<forall>i. \<not> live s i \<longrightarrow> refcount s i = 0" "live s' = (live s)(h := True)" "\<forall>i. i \<noteq> h \<longrightarrow> refcount s' i = refcount s i"
  shows "\<forall>i. \<not> live s' i \<longrightarrow> refcount s' i = 0"
  using assms by auto

lemma steady_socket:
  assumes c: "counted st" and run: "sys_socket C domain type st = Some (r, st')"
  shows "steady counted True st st'"
proof (cases "domain = AF_INET \<and> type = SOCK_STREAM")
  case False
  with run c show ?thesis by (auto simp: sys_socket_def steady_refl split: if_splits)
next
  case True
  note ok = countedD(1) [OF c]
  note l = fds_ok_lengths [OF ok]
  obtain fd st1 where fd: "posix_fd_allocate st = (fd, st1)" by (cases "posix_fd_allocate st")
  show ?thesis
  proof (cases "fd < 0")
    case neg: True
    with run True fd allocate_fd_none [OF fd neg] c show ?thesis by (auto simp: sys_socket_def steady_refl)
  next
    case pos: False
    note al = allocate_fd [OF fd pos ok]
    let ?i = "nat fd"
    let ?st2 = "set_entry_at fd socket_entry st1"
    have f2: "px_sock ?st2 = px_sock st" "px_client ?st2 = px_client st" "px_fd_socket ?st2 = px_fd_socket st"
      by (simp_all add: set_entry_at_def al(7))
    note run = run [unfolded sys_socket_def, simplified True fd Let_def, simplified,
      unfolded if_not_P [OF pos] al(8), simplified]
    from run obtain h s1 where a: "sc_socket_allocate C (px_sock st) = Some (h, s1)"
      by (auto simp: with_sock_def bind_eq_Some_conv f2 Let_def)
    note A = allocate [OF countedD(2) [OF c] a]
    note freed = freed_fds [OF ok fd pos]
    show ?thesis
    proof (cases "h < 0")
      case True
      with run a have st': "st' = snd (posix_fd_deallocate fd (?st2\<lparr>px_sock := s1\<rparr>))"
        by (auto simp: with_sock_def bind_eq_Some_conv f2 Let_def)
      have "count_kept refcount live well (px_sock st) s1" using A True by (simp add: count_kept_def)
      with counted_kept [OF c freed(1,3) [OF st']] freed [OF st'] show ?thesis by (simp add: steady_def)
    next
      case h: False
      let ?h = "nat h"
      have A': "\<not> live (px_sock st) ?h" "live s1 = (live (px_sock st))(?h := True)" "refcount s1 = refcount (px_sock st)" "well s1"
        using A h by simp_all
      have z: "refcount (px_sock st) ?h = 0" by (rule countedD(3) [OF c A'(1)])
      have idle: "\<forall>i. \<not> live (px_sock st) i \<longrightarrow> refcount (px_sock st) i = 0" using c by (simp add: counted_def)
      from run a h obtain e s2 where i: "sc_tcp_socket_init C ?h s1 = Some (e, s2)"
        by (auto simp: with_sock_def bind_eq_Some_conv f2 Let_def)
      note I = init [OF A'(4) i]
      show ?thesis
      proof (cases "e < 0")
        case neg: True
        with run a h i obtain r2 s3 where cl: "sc_tcp_socket_close C ?h s2 = Some (r2, s3)"
          "st' = snd (posix_fd_deallocate fd (?st2\<lparr>px_sock := s3\<rparr>))"
          by (auto simp: with_sock_def bind_eq_Some_conv f2 Let_def)
        note K = close [OF _ cl(1)]
        have s2: "well s2" "live s2 = live s1" "refcount s2 = refcount s1" using I neg by simp_all
        note F = freed [OF cl(2)]
        have "descriptors st' = descriptors st" using F(3) by (simp add: descriptors_def fun_eq_iff)
        moreover have "refcount s3 = (refcount (px_sock st))(?h := - 1)" "well s3" using K s2 A'(3) z by simp_all
        moreover have "live s3 = live s1" using K s2 A'(3) z by (auto simp: fun_eq_iff)
        moreover have "descriptors st ?h = 0" using countedD(4) [OF c, of ?h] z by simp
        ultimately have "counted st'" using c F(1,4) A'(2) by (auto simp: counted_def)
        then show ?thesis using F(2) by (simp add: steady_def)
      next
        case okay: False
        with run a h i have st': "st' = ?st2\<lparr>px_sock := s2, px_fd_socket := (px_fd_socket st)[?i := int ?h]\<rparr>"
          by (auto simp: with_sock_def bind_eq_Some_conv f2 Let_def)
        have "counted st'"
        proof (rule counted_assign [OF c al(1,3), where h = ?h])
          show "rows_but ?i st st'" using al by (simp add: st' rows_but_def set_entry_at_def)
          show "px_active st' ! ?i" "entry_ok (px_table st' ! ?i)" "fe_close (px_table st' ! ?i) = Some Sock"
              "px_server_fd st' ! ?i = px_server_fd st ! ?i" "px_fd_socket st' = (px_fd_socket st)[?i := int ?h]"
            using al l by (simp_all add: st' set_entry_at_def socket_entry_def entry_ok_def)
          show "well (px_sock st')" "refcount (px_sock st') = (refcount (px_sock st))(?h := refcount (px_sock st) ?h + 1)"
            using I okay A'(3) by (simp_all add: st')
          show "\<forall>j. \<not> live (px_sock st') j \<longrightarrow> refcount (px_sock st') j = 0"
            by (rule idle_after [OF idle, where h = ?h]) (use I okay A' in \<open>simp_all add: st'\<close>)
        qed (simp add: z)
        then show ?thesis using f2 by (simp add: steady_def st')
      qed
    qed
  qed
qed

lemma steady_accept:
  assumes c: "counted st" and run: "sys_accept C fd given st = Some (r, name, st')"
  shows "steady counted True st st'"
proof (cases "posix_fd_entry fd st = None \<or> no_socket fd st")
  case True
  with run c show ?thesis by (auto simp: sys_accept_def steady_refl split: option.splits)
next
  case False
  from accept_handle [OF run False] obtain h fl j s1 where a: "sc_tcp_socket_accept C h fl (px_sock st) = Some (j, s1)"
    and run: "let st1 = st\<lparr>px_sock := s1\<rparr> in
        if j < 0 then st' = st1
        else let (fd, st2) = posix_fd_allocate st1
          in if fd < 0 then \<exists>r s2. sc_tcp_socket_close C (nat j) (px_sock st2) = Some (r, s2) \<and> st' = st2\<lparr>px_sock := s2\<rparr>
             else st' = (set_entry_at fd socket_entry st2)\<lparr>px_fd_socket := (px_fd_socket st2)[nat fd := j]\<rparr>" by blast
  note A = accept [OF countedD(2) [OF c] a]
  show ?thesis
  proof (cases "j < 0")
    case True
    with run have st': "st' = st\<lparr>px_sock := s1\<rparr>" by simp
    show ?thesis unfolding st' steady_def using counted_lib [OF c] A True by simp
  next
    case j: False
    let ?j = "nat j"
    from A j obtain s0 where K: "count_kept refcount live well (px_sock st) s0" "well s1" "\<not> live s0 ?j"
      "live s1 = (live s0)(?j := True)" "refcount s1 = (refcount s0)(?j := refcount s0 ?j + 1)" by auto
    let ?base = "st\<lparr>px_sock := s0\<rparr>" and ?st1 = "st\<lparr>px_sock := s1\<rparr>"
    have cb: "counted ?base" by (rule counted_lib [OF c K(1)])
    have z: "refcount s0 ?j = 0" using countedD(3) [OF cb] K(3) by simp
    have idle: "\<forall>i. \<not> live s0 i \<longrightarrow> refcount s0 i = 0" using cb by (simp add: counted_def)
    have ok1: "fds_ok ?st1" by (rule fds_ok_same [OF countedD(1) [OF c]]) simp_all
    obtain fd2 st2 where fd: "posix_fd_allocate ?st1 = (fd2, st2)" by (cases "posix_fd_allocate ?st1")
    show ?thesis
    proof (cases "fd2 < 0")
      case True
      with run j fd allocate_fd_none [OF fd True] obtain r2 s2 where cl: "sc_tcp_socket_close C ?j s1 = Some (r2, s2)"
        "st' = st\<lparr>px_sock := s2\<rparr>" by auto
      note L = close [OF K(2) cl(1)]
      have "count_kept refcount live well s0 s2"
        unfolding count_kept_def
      proof (intro conjI allI impI)
        show "refcount s2 = refcount s0" using L K(5) by (simp add: fun_eq_iff)
        fix i assume "live s0 i \<and> refcount s0 i \<noteq> 0"
        then show "live s2 i" using L K(3,4) by (cases "i = ?j") auto
      qed (use L in simp)
      with K(1) have "count_kept refcount live well (px_sock st) s2" by (auto simp: count_kept_def)
      then show ?thesis using counted_lib [OF c] by (simp add: steady_def cl(2))
    next
      case pos: False
      note al = allocate_fd [OF fd pos ok1]
      note l = fds_ok_lengths [OF ok1]
      from run j fd pos have st': "st' = (set_entry_at fd2 socket_entry st2)\<lparr>px_fd_socket := (px_fd_socket st2)[nat fd2 := int ?j]\<rparr>"
        by simp
      have "counted st'"
      proof (rule counted_assign [OF cb al(1), where h = ?j])
        show "rows_but (nat fd2) ?base st'" using al by (simp add: st' rows_but_def set_entry_at_def)
        show "\<not> px_active ?base ! nat fd2" "px_active st' ! nat fd2" "entry_ok (px_table st' ! nat fd2)"
            "fe_close (px_table st' ! nat fd2) = Some Sock" "px_server_fd st' ! nat fd2 = px_server_fd ?base ! nat fd2"
            "px_fd_socket st' = (px_fd_socket ?base)[nat fd2 := int ?j]"
          using al l by (simp_all add: st' set_entry_at_def socket_entry_def entry_ok_def)
        show "well (px_sock st')" "refcount (px_sock st') = (refcount (px_sock ?base))(?j := refcount (px_sock ?base) ?j + 1)"
          using K al by (simp_all add: st' set_entry_at_def)
        show "\<forall>j. \<not> live (px_sock st') j \<longrightarrow> refcount (px_sock st') j = 0"
          by (rule idle_after [OF idle, where h = ?j]) (use K al in \<open>simp_all add: st' set_entry_at_def\<close>)
      qed (simp add: z)
      then show ?thesis using al by (simp add: steady_def st' set_entry_at_def)
    qed
  qed
qed

end

sublocale counted_sockets \<subseteq> calls: descriptor_invariant C "count_kept refcount live well" counted
proof unfold_locales
  fix st s' assume "counted st" "count_kept refcount live well (px_sock st) s'"
  then show "counted (st\<lparr>px_sock := s'\<rparr>)" by (rule counted_lib)
next
  fix st st' assume "counted st" "fds_ok st'" "px_fd_socket st' = px_fd_socket st" "px_sock st' = px_sock st"
  then show "counted st'" by (rule counted_same)
next
  fix st i buf fl r s' assume "counted st" "sc_tcp_socket_write C i buf fl (px_sock st) = Some (r, s')"
  then show "counted (st\<lparr>px_sock := s'\<rparr>)" using counted_lib "write" countedD(2) by blast
next
  fix st i n fl r bs s' assume "counted st" "sc_tcp_socket_recv C i n fl (px_sock st) = Some (r, bs, s')"
  then show "counted (st\<lparr>px_sock := s'\<rparr>)" using counted_lib recv countedD(2) by blast
next
  fix st i addr port fl r s' assume "counted st" "sc_tcp_socket_connect C i addr port fl (px_sock st) = Some (r, s')"
  then show "counted (st\<lparr>px_sock := s'\<rparr>)" using counted_lib connect countedD(2) by blast
next
  fix st i backlog r s' assume "counted st" "sc_tcp_socket_listen C i backlog (px_sock st) = Some (r, s')"
  then show "counted (st\<lparr>px_sock := s'\<rparr>)" using counted_lib listen countedD(2) by blast
next
  fix st i addr port r s' assume "counted st" "sc_tcp_socket_bind C i addr port (px_sock st) = Some (r, s')"
  then show "counted (st\<lparr>px_sock := s'\<rparr>)" using counted_lib bind countedD(2) by blast
qed (rule countedD(1) steady_sock_close steady_sock_dup3 steady_socket steady_accept, assumption+)+

end
