(* ===== verification/Px_Tcp_Props.thy ===== *)
theory Px_Tcp_Props
  imports Px_Tcp
begin

text \<open>
  What the sockets of \<open>lib/sock/tcp.c\<close> promise: the ring of received bytes is a queue of bytes, a run of deliveries
  and reads hands every byte over once and in order; the table of sockets stays well formed under every operation and
  callback, so that the assertions in the allocation of a socket never fail.
\<close>

subsection \<open>The ring of received bytes\<close>

definition ring_ok :: "socket \<Rightarrow> bool" where
  "ring_ok s \<longleftrightarrow> sk_rx_head s < SOCKET_BUF_SIZE \<and> sk_rx_len s \<le> SOCKET_BUF_SIZE"

definition rx_stream :: "socket \<Rightarrow> u8 list" where
  "rx_stream s = map (\<lambda>k. sk_rx_buf s ((sk_rx_head s + k) mod SOCKET_BUF_SIZE)) [0..<sk_rx_len s]"

lemma rx_stream_length [simp]: "length (rx_stream s) = sk_rx_len s"
  by (simp add: rx_stream_def)

lemma buf_size_pos [simp]: "0 < SOCKET_BUF_SIZE"
  by (simp add: SOCKET_BUF_SIZE_def)

lemma mod_offset_inj:
  assumes "(a + x) mod S = (a + y) mod S" "x < S" "y < (S :: nat)"
  shows "x = y"
proof -
  have "(int a + int x) mod int S = (int a + int y) mod int S"
    using assms(1) by (metis of_nat_add of_nat_mod)
  then have "(int a + int x - int a) mod int S = (int a + int y - int a) mod int S" by (rule mod_diff_cong) simp
  with assms(2,3) show ?thesis by simp
qed

text \<open>One round of the copying loop appends what it copies.\<close>

lemma rx_append:
  assumes ok: "ring_ok s" and room: "sk_rx_len s + length xs \<le> SOCKET_BUF_SIZE"
    and fits: "(sk_rx_head s + sk_rx_len s) mod SOCKET_BUF_SIZE + length xs \<le> SOCKET_BUF_SIZE"
  defines "t \<equiv> (sk_rx_head s + sk_rx_len s) mod SOCKET_BUF_SIZE"
  defines "s' \<equiv> s\<lparr>sk_rx_buf := store_bytes (sk_rx_buf s) t xs, sk_rx_len := sk_rx_len s + length xs\<rparr>"
  shows "rx_stream s' = rx_stream s @ xs"
proof (rule nth_equalityI)
  show "length (rx_stream s') = length (rx_stream s @ xs)" by (simp add: s'_def)
next
  fix k assume "k < length (rx_stream s')"
  then have k: "k < sk_rx_len s + length xs" by (simp add: s'_def)
  let ?p = "(sk_rx_head s + k) mod SOCKET_BUF_SIZE"
  have at: "rx_stream s' ! k = store_bytes (sk_rx_buf s) t xs ?p" using k by (simp add: s'_def rx_stream_def)
  have pos: "t + j = (sk_rx_head s + (sk_rx_len s + j)) mod SOCKET_BUF_SIZE" if "j < length xs" for j
  proof -
    have "t + j < SOCKET_BUF_SIZE" using fits that by (simp add: t_def)
    then have "t + j = (t + j) mod SOCKET_BUF_SIZE" by simp
    also have "\<dots> = (sk_rx_head s + (sk_rx_len s + j)) mod SOCKET_BUF_SIZE"
      by (simp add: t_def mod_add_left_eq add.assoc)
    finally show ?thesis .
  qed
  show "rx_stream s' ! k = (rx_stream s @ xs) ! k"
  proof (cases "k < sk_rx_len s")
    case True
    have "\<not> (t \<le> ?p \<and> ?p < t + length xs)"
    proof
      assume *: "t \<le> ?p \<and> ?p < t + length xs"
      then have j: "?p - t < length xs" by linarith
      from pos [OF j] * have "?p = (sk_rx_head s + (sk_rx_len s + (?p - t))) mod SOCKET_BUF_SIZE" by linarith
      then have "k = sk_rx_len s + (?p - t)"
        by (rule mod_offset_inj) (use True room j in linarith)+
      with True show False by linarith
    qed
    then have "rx_stream s' ! k = sk_rx_buf s ?p" unfolding at store_bytes_def by auto
    with True show ?thesis by (simp add: nth_append) (simp add: rx_stream_def)
  next
    case False
    then have j: "k - sk_rx_len s < length xs" using k by linarith
    have p: "t + (k - sk_rx_len s) = ?p" using pos [OF j] False by simp
    have "store_bytes (sk_rx_buf s) t xs (t + (k - sk_rx_len s)) = xs ! (k - sk_rx_len s)"
      unfolding store_bytes_def using j by simp
    then show ?thesis unfolding at p [symmetric] using False by (simp add: nth_append)
  qed
qed

lemma rx_copy_appends:
  assumes "ring_ok s" "sk_rx_len s + length data \<le> SOCKET_BUF_SIZE"
  shows "\<exists>buf. rx_copy data s = Some (s\<lparr>sk_rx_buf := buf, sk_rx_len := sk_rx_len s + length data\<rparr>) \<and>
    rx_stream (s\<lparr>sk_rx_buf := buf, sk_rx_len := sk_rx_len s + length data\<rparr>) = rx_stream s @ data"
  using assms
proof (induction data s rule: rx_copy.induct)
  case (1 data s)
  show ?case
  proof (cases "data = []")
    case True
    then show ?thesis by (intro exI [of _ "sk_rx_buf s"]) (simp add: rx_copy.simps)
  next
    case False
    define t where "t = (sk_rx_head s + sk_rx_len s) mod SOCKET_BUF_SIZE"
    define n where "n = min (length data) (SOCKET_BUF_SIZE - max (sk_rx_len s) t)"
    define s1 where "s1 = s\<lparr>sk_rx_buf := store_bytes (sk_rx_buf s) t (take n data), sk_rx_len := sk_rx_len s + n\<rparr>"
    have "t < SOCKET_BUF_SIZE" by (simp add: t_def)
    moreover have "sk_rx_len s < SOCKET_BUF_SIZE" using 1(3) False by (cases data) auto
    ultimately have n: "0 < n" "n \<le> length data" "t + n \<le> SOCKET_BUF_SIZE" using False by (auto simp: n_def)
    have l: "length (take n data) = n" using n(2) by simp
    have room: "sk_rx_len s + length (take n data) \<le> SOCKET_BUF_SIZE" using 1(3) n(2) unfolding l by linarith
    have fits: "(sk_rx_head s + sk_rx_len s) mod SOCKET_BUF_SIZE + length (take n data) \<le> SOCKET_BUF_SIZE"
      using n(3) unfolding l t_def .
    have str: "rx_stream s1 = rx_stream s @ take n data"
      using rx_append [OF 1(2) room fits] unfolding l s1_def t_def .
    have ok1: "ring_ok s1" using 1(2,3) n by (simp add: ring_ok_def s1_def)
    have room1: "sk_rx_len s1 + length (drop n data) \<le> SOCKET_BUF_SIZE" using 1(3) n by (simp add: s1_def)
    have n0: "n \<noteq> 0" using n(1) by simp
    from 1(1) [OF False t_def n_def n0, folded s1_def, OF ok1 room1] obtain buf where
      buf: "rx_copy (drop n data) s1 = Some (s1\<lparr>sk_rx_buf := buf, sk_rx_len := sk_rx_len s1 + length (drop n data)\<rparr>)"
      "rx_stream (s1\<lparr>sk_rx_buf := buf, sk_rx_len := sk_rx_len s1 + length (drop n data)\<rparr>) = rx_stream s1 @ drop n data"
      by (elim exE conjE) (rule that)
    have eq: "s1\<lparr>sk_rx_buf := buf, sk_rx_len := sk_rx_len s1 + length (drop n data)\<rparr> =
        s\<lparr>sk_rx_buf := buf, sk_rx_len := sk_rx_len s + length data\<rparr>"
      using n by (simp add: s1_def)
    have run: "rx_copy data s = rx_copy (drop n data) s1"
      unfolding rx_copy.simps [of data s] Let_def t_def [symmetric] n_def [symmetric] if_not_P [OF False] if_not_P [OF n0]
        s1_def ..
    have "(rx_stream s @ take n data) @ drop n data = rx_stream s @ data" by simp
    with buf(2) have str2: "rx_stream (s\<lparr>sk_rx_buf := buf, sk_rx_len := sk_rx_len s + length data\<rparr>) = rx_stream s @ data"
      unfolding eq str by (rule trans)
    show ?thesis
      using buf(1) str2 unfolding eq run by (intro exI [of _ buf] conjI)
  qed
qed

lemma rx_stream_advance:
  assumes "n \<le> sk_rx_len s"
  shows "rx_stream (s\<lparr>sk_rx_head := (sk_rx_head s + n) mod SOCKET_BUF_SIZE, sk_rx_len := sk_rx_len s - n\<rparr>) = drop n (rx_stream s)"
  using assms by (intro nth_equalityI) (auto simp: rx_stream_def mod_add_left_eq add.assoc)

lemma rx_stream_front:
  assumes "n \<le> sk_rx_len s" "sk_rx_head s + n \<le> SOCKET_BUF_SIZE"
  shows "map (sk_rx_buf s) [sk_rx_head s..<sk_rx_head s + n] = take n (rx_stream s)"
proof (rule nth_equalityI)
  fix k assume "k < length (map (sk_rx_buf s) [sk_rx_head s..<sk_rx_head s + n])"
  then have "k < n" by simp
  with assms show "map (sk_rx_buf s) [sk_rx_head s..<sk_rx_head s + n] ! k = take n (rx_stream s) ! k"
    by (simp add: rx_stream_def)
qed (use assms in simp)

lemma rx_take_drops:
  assumes "ring_ok s" "length copied \<le> len"
  shows "\<exists>h l. rx_take len copied s =
      (copied @ take (len - length copied) (rx_stream s), s\<lparr>sk_rx_head := h, sk_rx_len := l\<rparr>) \<and>
    ring_ok (s\<lparr>sk_rx_head := h, sk_rx_len := l\<rparr>) \<and>
    rx_stream (s\<lparr>sk_rx_head := h, sk_rx_len := l\<rparr>) = drop (len - length copied) (rx_stream s)"
  using assms
proof (induction len copied s rule: rx_take.induct)
  case (1 len copied s)
  define n where "n = min (len - length copied) (min (sk_rx_len s) (SOCKET_BUF_SIZE - sk_rx_head s))"
  show ?case
  proof (cases "length copied = len \<or> n = 0")
    case True
    then have stop: "rx_take len copied s = (copied, s)"
      by (subst rx_take.simps) (auto simp: Let_def n_def)
    have "len - length copied = 0 \<or> sk_rx_len s = 0"
      using True 1(2,3) unfolding n_def ring_ok_def by auto
    then have "take (len - length copied) (rx_stream s) = []" "drop (len - length copied) (rx_stream s) = rx_stream s"
      by (auto simp: rx_stream_def)
    then show ?thesis using stop 1(2) by (intro exI [of _ "sk_rx_head s"] exI [of _ "sk_rx_len s"]) simp
  next
    case False
    then have F: "length copied \<noteq> len" and n0: "n \<noteq> 0" by auto
    define s1 where "s1 = s\<lparr>sk_rx_head := (sk_rx_head s + n) mod SOCKET_BUF_SIZE, sk_rx_len := sk_rx_len s - n\<rparr>"
    define c1 where "c1 = copied @ map (sk_rx_buf s) [sk_rx_head s..<sk_rx_head s + n]"
    have n: "n \<le> sk_rx_len s" "sk_rx_head s + n \<le> SOCKET_BUF_SIZE" "n \<le> len - length copied"
      using 1(2) unfolding n_def ring_ok_def by auto
    have c1: "c1 = copied @ take n (rx_stream s)" using rx_stream_front [OF n(1,2)] by (simp add: c1_def)
    then have lc: "length c1 = length copied + n" using n by simp
    have "sk_rx_len s - n \<le> SOCKET_BUF_SIZE" using 1(2) unfolding ring_ok_def by linarith
    then have ok1: "ring_ok s1" by (simp add: ring_ok_def s1_def)
    have le1: "length c1 \<le> len" using lc n F 1(3) by linarith
    have d: "rx_stream s1 = drop n (rx_stream s)" unfolding s1_def by (rule rx_stream_advance [OF n(1)])
    from 1(1) [OF F n_def n0, folded s1_def c1_def, OF ok1 le1] obtain h l where
      hl: "rx_take len c1 s1 = (c1 @ take (len - length c1) (rx_stream s1), s1\<lparr>sk_rx_head := h, sk_rx_len := l\<rparr>)"
      "ring_ok (s1\<lparr>sk_rx_head := h, sk_rx_len := l\<rparr>)"
      "rx_stream (s1\<lparr>sk_rx_head := h, sk_rx_len := l\<rparr>) = drop (len - length c1) (rx_stream s1)"
      by (elim exE conjE) (rule that)
    have eq: "s1\<lparr>sk_rx_head := h, sk_rx_len := l\<rparr> = s\<lparr>sk_rx_head := h, sk_rx_len := l\<rparr>" by (simp add: s1_def)
    have run: "rx_take len copied s = rx_take len c1 s1"
      unfolding rx_take.simps [of len copied s] Let_def n_def [symmetric] if_not_P [OF F] if_not_P [OF n0] s1_def c1_def ..
    have parts: "len - length copied = n + (len - length c1)" using lc n le1 by linarith
    have out: "c1 @ take (len - length c1) (rx_stream s1) = copied @ take (len - length copied) (rx_stream s)"
      by (simp only: c1 d parts take_add append.assoc)
    have rest: "drop (len - length c1) (drop n (rx_stream s)) = drop (len - length copied) (rx_stream s)"
      unfolding parts by (simp add: add.commute)
    show ?thesis
      using hl unfolding eq run out unfolding d rest by (intro exI [of _ h] exI [of _ l] conjI)
  qed
qed

text \<open>What the two operations do to a connected socket.\<close>

lemma tcp_fields [simp]:
  "tcp_sockets (on_world f st) = tcp_sockets st"
  "tcp_sockets (wake L x st) = tcp_sockets st"
  "tcp_sockets (snd (ask g st)) = tcp_sockets st"
  "tcp_sockets (add_refcount i n st) = tcp_sockets st"
  "tcp_sockets (set_socket i s st) = (tcp_sockets st)[i := s]"
  by (simp_all add: on_world_def wake_def ask_def add_refcount_def set_socket_def)

definition open_ring :: "nat \<Rightarrow> 'w tcp \<Rightarrow> bool" where
  "open_ring i st \<longleftrightarrow> i < length (tcp_sockets st) \<and> state_is i socket_state_connected st \<and> ring_ok (tcp_sockets st ! i)"

abbreviation stream_of :: "nat \<Rightarrow> 'w tcp \<Rightarrow> u8 list" where
  "stream_of i st \<equiv> rx_stream (tcp_sockets st ! i)"

lemma deliver_appends:
  assumes "open_ring i st"
  shows "\<exists>r st'. socket_recv_callback L (Some i) tpcb (Some (pb, data)) st = Some (r, st') \<and> open_ring i st' \<and>
    stream_of i st' = (if r = 0 then stream_of i st @ data else stream_of i st)"
proof -
  let ?s = "tcp_sockets st ! i"
  have i: "i < length (tcp_sockets st)" "sk_state ?s = socket_state_connected" "ring_ok ?s"
    using assms by (simp_all add: open_ring_def state_is_def)
  show ?thesis
  proof (cases "SOCKET_BUF_SIZE < sk_rx_len ?s + length data")
    case True
    then have "socket_recv_callback L (Some i) tpcb (Some (pb, data)) st = Some (- ENOMEM, st)"
      using i by (simp add: socket_recv_callback_def socket_at_def)
    with assms show ?thesis by (simp add: ENOMEM_def)
  next
    case False
    then have room: "sk_rx_len ?s + length data \<le> SOCKET_BUF_SIZE" by simp
    obtain buf where buf: "rx_copy data ?s = Some (?s\<lparr>sk_rx_buf := buf, sk_rx_len := sk_rx_len ?s + length data\<rparr>)"
      "rx_stream (?s\<lparr>sk_rx_buf := buf, sk_rx_len := sk_rx_len ?s + length data\<rparr>) = rx_stream ?s @ data"
      using rx_copy_appends [OF i(3) room] by blast
    let ?s' = "?s\<lparr>sk_rx_buf := buf, sk_rx_len := sk_rx_len ?s + length data\<rparr>"
    let ?st = "wake L (Recv_sem i) (on_world (lw_pbuf_free L pb) (set_socket i ?s' st))"
    have run: "socket_recv_callback L (Some i) tpcb (Some (pb, data)) st = Some (0, ?st)"
      using i False buf(1) by (simp add: socket_recv_callback_def socket_at_def)
    have "open_ring i ?st" using i room by (simp add: open_ring_def state_is_def ring_ok_def)
    moreover have "stream_of i ?st = stream_of i st @ data" using i buf(2) by simp
    ultimately show ?thesis using run by (intro exI [of _ 0] exI [of _ ?st]) simp
  qed
qed

lemma nonblocking [simp]: "has_flag O_NONBLOCK O_NONBLOCK"
  by (simp add: has_flag_def O_NONBLOCK_def)

lemma recv_takes:
  assumes "open_ring i st"
  shows "\<exists>r taken st'. tcp_socket_recv L i n O_NONBLOCK st = Some (r, taken, st') \<and> open_ring i st' \<and>
    taken @ stream_of i st' = stream_of i st"
proof -
  let ?s = "tcp_sockets st ! i"
  have i: "i < length (tcp_sockets st)" "sk_state ?s = socket_state_connected" "ring_ok ?s"
    using assms by (simp_all add: open_ring_def state_is_def)
  show ?thesis
  proof (cases "sk_rx_len ?s = 0")
    case True
    then have "tcp_socket_recv L i n O_NONBLOCK st = Some (- EAGAIN, [], st)"
      using i by (simp add: tcp_socket_recv_def socket_at_def)
    with assms show ?thesis by simp
  next
    case False
    obtain h l where t: "rx_take n [] ?s = (take n (rx_stream ?s), ?s\<lparr>sk_rx_head := h, sk_rx_len := l\<rparr>)"
      "ring_ok (?s\<lparr>sk_rx_head := h, sk_rx_len := l\<rparr>)"
      "rx_stream (?s\<lparr>sk_rx_head := h, sk_rx_len := l\<rparr>) = drop n (rx_stream ?s)"
      using rx_take_drops [OF i(3), of "[]" n] by auto
    let ?s' = "?s\<lparr>sk_rx_head := h, sk_rx_len := l\<rparr>"
    let ?k = "length (take n (rx_stream ?s))"
    let ?st = "on_world (lw_recved L (sk_tpcb ?s) (of_nat ?k)) (set_socket i ?s' st)"
    have run: "tcp_socket_recv L i n O_NONBLOCK st = Some (int ?k, take n (rx_stream ?s), ?st)"
      using i False t(1) by (simp add: tcp_socket_recv_def socket_at_def Let_def)
    have "open_ring i ?st" using i t(2) by (simp add: open_ring_def state_is_def)
    moreover have "take n (rx_stream ?s) @ stream_of i ?st = stream_of i st" using i t(3) by simp
    ultimately show ?thesis using run by (intro exI conjI)
  qed
qed

text \<open>A run of deliveries by lwIP and reads that do not block, with the bytes that were accepted and those
  that were read so far.\<close>

datatype stream_event = Deliver nat "u8 list" | Take nat

fun stream_run :: "'w lwip \<Rightarrow> nat \<Rightarrow> stream_event list \<Rightarrow> 'w tcp \<times> u8 list \<times> u8 list \<Rightarrow> ('w tcp \<times> u8 list \<times> u8 list) option" where
  "stream_run L i [] (st, accepted, taken) = Some (st, accepted, taken)"
| "stream_run L i (Deliver pb data # es) (st, accepted, taken) = do {
     (r, st') \<leftarrow> socket_recv_callback L (Some i) (sk_tpcb (tcp_sockets st ! i)) (Some (pb, data)) st;
     stream_run L i es (st', if r = 0 then accepted @ data else accepted, taken)
   }"
| "stream_run L i (Take n # es) (st, accepted, taken) = do {
     (r, bs, st') \<leftarrow> tcp_socket_recv L i n O_NONBLOCK st;
     stream_run L i es (st', accepted, taken @ bs)
   }"

lemma stream_run_order:
  assumes "open_ring i st"
  shows "\<exists>st' taken'. stream_run L i es (st, taken @ stream_of i st, taken) = Some (st', taken' @ stream_of i st', taken')"
  using assms
proof (induction es arbitrary: st taken)
  case Nil
  show ?case by (intro exI) simp
next
  case (Cons e es)
  show ?case
  proof (cases e)
    case (Deliver pb data)
    obtain r st' where d: "socket_recv_callback L (Some i) (sk_tpcb (tcp_sockets st ! i)) (Some (pb, data)) st = Some (r, st')"
      "open_ring i st'" "stream_of i st' = (if r = 0 then stream_of i st @ data else stream_of i st)"
      using deliver_appends [OF Cons.prems] by blast
    have acc: "(if r = 0 then (taken @ stream_of i st) @ data else taken @ stream_of i st) = taken @ stream_of i st'"
      using d(3) by simp
    show ?thesis using Cons.IH [OF d(2), of taken] unfolding Deliver stream_run.simps d(1) bind.simps prod.case acc .
  next
    case (Take n)
    obtain r bs st' where t: "tcp_socket_recv L i n O_NONBLOCK st = Some (r, bs, st')" "open_ring i st'"
      "bs @ stream_of i st' = stream_of i st"
      using recv_takes [OF Cons.prems] by blast
    have acc: "taken @ stream_of i st = (taken @ bs) @ stream_of i st'" using t(3) by simp
    show ?thesis using Cons.IH [OF t(2), of "taken @ bs"] unfolding Take stream_run.simps t(1) bind.simps prod.case acc .
  qed
qed

text \<open>C3: A connected socket hands every byte that it accepted from lwIP to its reader once and in order. In every
  sequence of delivered packet buffers (those that fit; the others are refused whole) and reads of any length, none of
  them fails, and the bytes that were accepted are those that were read followed by those that the ring still holds,
  wherever the ring wraps around.\<close>

theorem tcp_stream_in_order:
  assumes "open_ring i st" "stream_of i st = []"
  shows "\<exists>st' taken. stream_run L i es (st, [], []) = Some (st', taken @ stream_of i st', taken)"
  using stream_run_order [OF assms(1), of L es "[]"] assms(2) by simp

subsection \<open>The table of sockets\<close>

definition sock_ok :: "socket \<Rightarrow> bool" where
  "sock_ok s \<longleftrightarrow> ring_ok s \<and>
     (sk_state s = socket_state_unallocated \<longrightarrow> sk_tpcb s = None \<and> sk_rx_head s = 0 \<and> sk_rx_len s = 0) \<and>
     length (aq_pending (sk_accept s)) = MAX_LISTEN_BACKLOG \<and>
     aq_head (sk_accept s) < MAX_LISTEN_BACKLOG \<and> aq_tail (sk_accept s) < MAX_LISTEN_BACKLOG"

definition tcp_ok :: "'w tcp \<Rightarrow> bool" where
  "tcp_ok st \<longleftrightarrow> length (tcp_sockets st) = MAX_SOCKETS \<and> length (tcp_refcount st) = MAX_SOCKETS \<and>
     (\<forall>s \<in> set (tcp_sockets st). sock_ok s)"

lemma backlog_pos [simp]: "0 < MAX_LISTEN_BACKLOG"
  by (simp add: MAX_LISTEN_BACKLOG_def)

lemma tcp_ok_frame [simp]:
  "tcp_ok (on_world f st) = tcp_ok st"
  "tcp_ok (wake L x st) = tcp_ok st"
  "tcp_ok (snd (ask g st)) = tcp_ok st"
  "tcp_ok (add_refcount i n st) = tcp_ok st"
  by (simp_all add: tcp_ok_def on_world_def wake_def ask_def add_refcount_def)

lemma tcp_ok_set: "tcp_ok st \<Longrightarrow> sock_ok s \<Longrightarrow> tcp_ok (set_socket i s st)"
  using set_update_subset_insert [of "tcp_sockets st" i s] by (auto simp: tcp_ok_def set_socket_def)

lemma tcp_ok_at: "tcp_ok st \<Longrightarrow> socket_at i st = Some s \<Longrightarrow> sock_ok s"
  by (auto simp: tcp_ok_def socket_at_def split: if_splits)

lemma tcp_ok_nth: "tcp_ok st \<Longrightarrow> i < length (tcp_sockets st) \<Longrightarrow> sock_ok (tcp_sockets st ! i)"
  by (simp add: tcp_ok_def)

lemma ask_frame: "ask g st = (r, st') \<Longrightarrow> tcp_ok st' = tcp_ok st"
  by (auto simp: tcp_ok_def ask_def)

text \<open>A step to a state that is not unallocated keeps a socket well formed.\<close>

lemma sock_ok_state: "sock_ok s \<Longrightarrow> k \<noteq> socket_state_unallocated \<Longrightarrow> sock_ok (s\<lparr>sk_state := k\<rparr>)"
  by (simp add: sock_ok_def ring_ok_def)

lemma sock_ok_freed: "sock_ok s \<Longrightarrow>
    sock_ok (s\<lparr>sk_tpcb := None, sk_state := socket_state_unallocated, sk_rx_head := 0, sk_rx_len := 0\<rparr>)"
  by (simp add: sock_ok_def ring_ok_def)

lemmas step_rules = tcp_ok_set sock_ok_state sock_ok_freed

subsubsection \<open>Callbacks\<close>

lemma err_func_ok:
  assumes "tcp_ok st" "socket_err_func L arg err st = Some st'"
  shows "tcp_ok st'"
proof (cases arg)
  case (Some i)
  with assms(2) obtain s where s: "socket_at i st = Some s" by (auto simp: socket_err_func_def bind_eq_Some_conv)
  have "sock_ok (s\<lparr>sk_state := socket_state_error, sk_last_error := lwip_err_to_errno err\<rparr>)"
    using tcp_ok_at [OF assms(1) s] by (simp add: sock_ok_def ring_ok_def)
  from tcp_ok_set [OF assms(1) this, of i] show ?thesis using assms(2) Some s
    by (auto simp: socket_err_func_def Let_def)
qed (use assms in \<open>simp add: socket_err_func_def\<close>)

lemma recv_callback_ok:
  assumes ok: "tcp_ok st" and run: "socket_recv_callback L arg tpcb p st = Some (r, st')"
  shows "tcp_ok st'"
proof -
  from run obtain i s where s: "arg = Some i" "socket_at i st = Some s"
    by (auto simp: socket_recv_callback_def bind_eq_Some_conv)
  note run = run [unfolded socket_recv_callback_def s Option.bind.bind_lunit]
  have sok: "sock_ok s" by (rule tcp_ok_at [OF ok s(2)])
  show ?thesis
  proof (cases "sk_state s = socket_state_connected")
    case True
    show ?thesis
    proof (cases p)
      case None
      with run True ok sok show ?thesis by (auto simp: Let_def s intro!: step_rules)
    next
      case (Some q)
      obtain pb data where q: "q = (pb, data)" by (cases q)
      show ?thesis
      proof (cases "SOCKET_BUF_SIZE < sk_rx_len s + length data")
        case False
        then have room: "sk_rx_len s + length data \<le> SOCKET_BUF_SIZE" by simp
        from sok have "ring_ok s" by (simp add: sock_ok_def)
        from rx_copy_appends [OF this room] obtain buf where
          c: "rx_copy data s = Some (s\<lparr>sk_rx_buf := buf, sk_rx_len := sk_rx_len s + length data\<rparr>)" by blast
        have "sock_ok (s\<lparr>sk_rx_buf := buf, sk_rx_len := sk_rx_len s + length data\<rparr>)"
          using sok room True by (simp add: sock_ok_def ring_ok_def)
        from tcp_ok_set [OF ok this, of i] show ?thesis using run True Some q False c s by auto
      qed (use run True Some q ok s in auto)
    qed
  next
    case False
    show ?thesis
      using run False ok sok by (cases p) (auto simp: s split: if_splits intro!: step_rules)
  qed
qed

lemma sent_callback_ok: "tcp_ok st \<Longrightarrow> socket_sent_callback L arg st = Some (r, st') \<Longrightarrow> tcp_ok st'"
  by (auto simp: socket_sent_callback_def bind_eq_Some_conv)

lemma connected_ok:
  assumes "tcp_ok st" "socket_connected L arg tpcb st = Some (r, st')"
  shows "tcp_ok st'"
  using assms by (auto simp: socket_connected_def bind_eq_Some_conv Let_def split: if_splits dest: tcp_ok_at intro!: step_rules)

lemma accept_cb_ok:
  assumes "tcp_ok st" "tcp_socket_accept_cb L arg newpcb err st = Some (r, st')"
  shows "tcp_ok st'"
proof -
  from assms(2) obtain i s where s: "arg = Some i" "socket_at i st = Some s" "sk_state s = socket_state_listening"
    by (auto simp: tcp_socket_accept_cb_def bind_eq_Some_conv split: if_splits)
  let ?q = "sk_accept s"
  have "sock_ok (s\<lparr>sk_accept := ?q\<lparr>aq_pending := (aq_pending ?q)[aq_head ?q := newpcb],
      aq_head := (aq_head ?q + 1) mod MAX_LISTEN_BACKLOG\<rparr>\<rparr>)"
    using tcp_ok_at [OF assms(1) s(2)] by (simp add: sock_ok_def ring_ok_def)
  from tcp_ok_set [OF assms(1) this, of i] show ?thesis using assms s
    by (auto simp: tcp_socket_accept_cb_def Let_def split: if_splits)
qed

subsubsection \<open>Operations\<close>

lemma allocate_total: "tcp_ok st \<Longrightarrow> \<exists>r st'. socket_allocate st = Some (r, st') \<and> tcp_ok st'"
proof -
  assume ok: "tcp_ok st"
  show ?thesis
  proof (cases "find_index (\<lambda>s. sk_state s = socket_state_unallocated) (tcp_sockets st)")
    case None
    with ok show ?thesis by (simp add: socket_allocate_def)
  next
    case (Some i)
    then have i: "i < length (tcp_sockets st)" "sk_state (tcp_sockets st ! i) = socket_state_unallocated"
      by (auto dest: find_index_SomeD)
    from tcp_ok_nth [OF ok i(1)] have s: "sock_ok (tcp_sockets st ! i)" .
    with i Some have "socket_allocate st =
        Some (int i, set_socket i ((tcp_sockets st ! i)\<lparr>sk_state := socket_state_allocated\<rparr>) st)"
      by (simp add: socket_allocate_def sock_ok_def Let_def)
    moreover have "tcp_ok (set_socket i ((tcp_sockets st ! i)\<lparr>sk_state := socket_state_allocated\<rparr>) st)"
      using ok s by (intro step_rules) simp_all
    ultimately show ?thesis by blast
  qed
qed

lemma allocate_index:
  assumes "socket_allocate st = Some (r, st')" "\<not> r < 0"
  shows "nat r < length (tcp_sockets st')"
proof (cases "find_index (\<lambda>s. sk_state s = socket_state_unallocated) (tcp_sockets st)")
  case None
  with assms show ?thesis by (simp add: socket_allocate_def ENOMEM_def)
next
  case (Some i)
  then have "i < length (tcp_sockets st)" by (auto dest: find_index_SomeD)
  with assms Some show ?thesis by (auto simp: socket_allocate_def Let_def split: if_splits)
qed

lemma allocate_ok: "tcp_ok st \<Longrightarrow> socket_allocate st = Some (r, st') \<Longrightarrow> tcp_ok st'"
  using allocate_total [of st] by auto

lemma tcp_init_ok:
  assumes "tcp_ok st" "tcp_socket_init L i st = Some (r, st')"
  shows "tcp_ok st'"
proof -
  from assms(2) obtain s where s: "socket_at i st = Some s" "sk_state s = socket_state_allocated"
    by (auto simp: tcp_socket_init_def bind_eq_Some_conv split: if_splits)
  obtain p st1 where a: "ask (lw_new L) st = (p, st1)" by (cases "ask (lw_new L) st")
  have ok1: "tcp_ok st1" using assms(1) ask_frame [OF a] by simp
  have "sock_ok s" by (rule tcp_ok_at [OF assms(1) s(1)])
  then have "sock_ok (s\<lparr>sk_tpcb := p\<rparr>)" "sock_ok (s\<lparr>sk_tpcb := p, sk_accept := (sk_accept s)\<lparr>aq_head := 0, aq_tail := 0\<rparr>\<rparr>)"
    using s(2) by (simp_all add: sock_ok_def ring_ok_def)
  then show ?thesis using assms(2) s a ok1
    by (auto simp: tcp_socket_init_def Let_def split: option.splits intro!: tcp_ok_set)
qed

lemma close_int_ok:
  assumes "tcp_ok st" "tcp_socket_close_int L i st = Some (r, st')"
  shows "tcp_ok st'"
proof -
  from assms(2) obtain s where s: "socket_at i st = Some s"
    by (auto simp: tcp_socket_close_int_def bind_eq_Some_conv)
  have sok: "sock_ok s" by (rule tcp_ok_at [OF assms(1) s])
  have c: "tcp_ok (set_socket i (s\<lparr>sk_state := socket_state_closing\<rparr>) st)"
    "tcp_ok (set_socket i (s\<lparr>sk_tpcb := None, sk_state := socket_state_unallocated, sk_rx_head := 0, sk_rx_len := 0\<rparr>) st)"
    "tcp_ok (set_socket i (s\<lparr>sk_tpcb := None, sk_state := socket_state_unallocated, sk_rx_head := 0, sk_rx_len := 0\<rparr>)
       (on_world (lw_abort L (sk_tpcb s)) (on_world (lw_arg L (sk_tpcb s) None) st)))"
    using assms(1) sok by (simp_all add: step_rules)
  obtain err st1 where a: "ask (lw_close L (sk_tpcb s)) (set_socket i (s\<lparr>sk_state := socket_state_closing\<rparr>) st) = (err, st1)"
    by (cases "ask (lw_close L (sk_tpcb s)) (set_socket i (s\<lparr>sk_state := socket_state_closing\<rparr>) st)")
  then have "tcp_ok st1" using ask_frame [OF a] c(1) by simp
  then show ?thesis using assms(2) c(2,3) unfolding tcp_socket_close_int_def s Option.bind.bind_lunit Let_def a
    by (auto split: if_splits)
qed

lemma close_ok: "tcp_ok st \<Longrightarrow> tcp_socket_close L i st = Some (r, st') \<Longrightarrow> tcp_ok st'"
  by (auto simp: tcp_socket_close_def bind_eq_Some_conv Let_def split: if_splits dest: close_int_ok [rotated])

lemma dup_ok: "tcp_ok st \<Longrightarrow> tcp_socket_dup i st = Some (r, st') \<Longrightarrow> tcp_ok st'"
  by (auto simp: tcp_socket_dup_def bind_eq_Some_conv split: if_splits)

lemma bind_ok:
  assumes "tcp_ok st" "tcp_socket_bind L i addr port st = Some (r, st')"
  shows "tcp_ok st'"
proof -
  from assms(2) obtain s where s: "socket_at i st = Some s"
    by (auto simp: tcp_socket_bind_def bind_eq_Some_conv)
  obtain err st1 where a: "ask (lw_bind L (sk_tpcb s) addr port) st = (err, st1)"
    by (cases "ask (lw_bind L (sk_tpcb s) addr port) st")
  have "tcp_ok st1" using assms(1) ask_frame [OF a] by simp
  then show ?thesis using assms s a tcp_ok_at [OF assms(1) s]
    by (auto simp: tcp_socket_bind_def split: if_splits intro!: step_rules)
qed

lemma listen_ok:
  assumes "tcp_ok st" "tcp_socket_listen L i backlog st = Some (r, st')"
  shows "tcp_ok st'"
proof -
  from assms(2) obtain s where s: "socket_at i st = Some s"
    by (auto simp: tcp_socket_listen_def bind_eq_Some_conv)
  obtain p st1 where a: "ask (lw_listen L (sk_tpcb s) (of_int backlog)) st = (p, st1)"
    by (cases "ask (lw_listen L (sk_tpcb s) (of_int backlog)) st")
  have ok1: "tcp_ok st1" using assms(1) ask_frame [OF a] by simp
  have "sock_ok (s\<lparr>sk_tpcb := p, sk_state := socket_state_listening\<rparr>)"
    using tcp_ok_at [OF assms(1) s] by (simp add: sock_ok_def ring_ok_def)
  from tcp_ok_set [OF ok1 this, of i] show ?thesis using assms(2) s a
    by (auto simp: tcp_socket_listen_def bind_eq_Some_conv Let_def split: if_splits)
qed

text \<open>The operations that wait keep the table well formed if the waits do.\<close>

definition waits_keep :: "'w lwip \<Rightarrow> bool" where
  "waits_keep L \<longleftrightarrow> (\<forall>x st st'. tcp_ok st \<longrightarrow> lw_wait L x st = Some st' \<longrightarrow> tcp_ok st')"

lemma wait_loop_ok:
  assumes "tcp_ok st" "while_opt c step st = Some st'"
    "\<And>s s'. tcp_ok s \<Longrightarrow> step s = Some s' \<Longrightarrow> tcp_ok s'"
  shows "tcp_ok st'"
  using while_opt_invariant [OF assms(2), of tcp_ok] assms(1,3) by blast

lemma waits_keepD: "waits_keep L \<Longrightarrow> tcp_ok st \<Longrightarrow> lw_wait L x st = Some st' \<Longrightarrow> tcp_ok st'"
  by (auto simp: waits_keep_def)

lemma connect_ok:
  assumes "tcp_ok st" "tcp_socket_connect L i addr port flags st = Some (r, st')" "has_flag flags O_NONBLOCK \<or> waits_keep L"
  shows "tcp_ok st'"
proof -
  from assms(2) obtain s where s: "socket_at i st = Some s"
    by (auto simp: tcp_socket_connect_def bind_eq_Some_conv)
  let ?st = "set_socket i (s\<lparr>sk_state := socket_state_connecting\<rparr>) st"
  obtain err st1 where a: "ask (lw_connect L (sk_tpcb s) addr port) ?st = (err, st1)"
    by (cases "ask (lw_connect L (sk_tpcb s) addr port) ?st")
  have "tcp_ok ?st" using assms(1) tcp_ok_at [OF assms(1) s] by (intro step_rules) simp_all
  then have ok1: "tcp_ok st1" using ask_frame [OF a] by simp
  have wait: "tcp_ok st2" if "while_opt (state_is i socket_state_connecting) (lw_wait L (Connect_sem i)) st1 = Some st2"
    "\<not> has_flag flags O_NONBLOCK" for st2
    using wait_loop_ok [OF ok1 that(1)] assms(3) that(2) waits_keepD by blast
  show ?thesis using assms(1,2) ok1 unfolding tcp_socket_connect_def s Option.bind.bind_lunit Let_def a
    by (auto simp: bind_eq_Some_conv split: if_splits dest: wait)
qed

lemma write_ok:
  assumes "tcp_ok st" "tcp_socket_write L i buf flags st = Some (r, st')" "has_flag flags O_NONBLOCK \<or> waits_keep L"
  shows "tcp_ok st'"
proof -
  from assms(2) obtain s where s: "socket_at i st = Some s"
    by (auto simp: tcp_socket_write_def bind_eq_Some_conv)
  have wait: "tcp_ok st2" if "wait_sndbuf L i st = Some st2" "\<not> has_flag flags O_NONBLOCK" for st2
  proof (rule wait_loop_ok [OF assms(1) that(1) [unfolded wait_sndbuf_def]])
    fix s s' assume "tcp_ok s" "(if sndbuf L i s = None then None else lw_wait L (Send_sem i) s) = Some s'"
    moreover have "waits_keep L" using assms(3) that(2) by blast
    ultimately show "tcp_ok s'" using waits_keepD by (auto split: if_splits)
  qed
  have fin: "tcp_ok st'" if "tcp_ok st2" "(let (err, st) = ask f st2 in if err \<noteq> ERR_OK then Some (- lwip_err_to_errno err, st)
      else let (err, st) = ask g st in Some (if err \<noteq> ERR_OK then - lwip_err_to_errno err else n, st)) = Some (r, st')"
    for st2 f g n
  proof -
    obtain e3 st3 where a3: "ask f st2 = (e3, st3)" by (cases "ask f st2")
    obtain e4 st4 where a4: "ask g st3 = (e4, st4)" by (cases "ask g st3")
    show ?thesis using that ask_frame [OF a3] ask_frame [OF a4] by (auto simp: a3 a4 split: if_splits)
  qed
  show ?thesis
  proof (cases "sk_state s = socket_state_connected")
    case False
    with assms(1,2) s show ?thesis by (auto simp: tcp_socket_write_def split: if_splits)
  next
    case True
    note run = assms(2) [unfolded tcp_socket_write_def s Option.bind.bind_lunit Let_def]
    from run True obtain room where room: "sndbuf L i st = Some room" by (auto simp: bind_eq_Some_conv split: if_splits)
    show ?thesis
    proof (cases "room = 0 \<and> has_flag flags O_NONBLOCK")
      case True2: True
      with run True room assms(1) show ?thesis by auto
    next
      case False
      with run True room obtain st2 where st2: "(if room = 0 then wait_sndbuf L i st else Some st) = Some st2"
        by (auto simp: bind_eq_Some_conv)
      have ok2: "tcp_ok st2" using st2 False assms(1) wait by (auto split: if_splits)
      from run True room False st2 obtain room2 where room2: "sndbuf L i st2 = Some room2"
        by (auto simp: bind_eq_Some_conv)
      from run True room False st2 room2 show ?thesis
        by (auto simp: Let_def split: if_splits dest: fin [OF ok2, unfolded Let_def])
    qed
  qed
qed

lemma recv_ok:
  assumes "tcp_ok st" "tcp_socket_recv L i n flags st = Some (r, bs, st')" "has_flag flags O_NONBLOCK \<or> waits_keep L"
  shows "tcp_ok st'"
proof -
  from assms(2) obtain s where s: "socket_at i st = Some s"
    by (auto simp: tcp_socket_recv_def bind_eq_Some_conv)
  then have i: "i < MAX_SOCKETS" using assms(1) by (auto simp: socket_at_def tcp_ok_def split: if_splits)
  let ?loop = "while_opt (\<lambda>st. sk_rx_len (tcp_sockets st ! i) = 0 \<and> state_is i socket_state_connected st)
    (lw_wait L (Recv_sem i)) st"
  show ?thesis
  proof (cases "sk_state s \<noteq> socket_state_connected \<or> (sk_rx_len s = 0 \<and> has_flag flags O_NONBLOCK)")
    case True
    with assms(1,2) s show ?thesis by (auto simp: tcp_socket_recv_def split: if_splits)
  next
    case False
    with assms(2) s obtain st2 where st2: "(if sk_rx_len s = 0 then ?loop else Some st) = Some st2"
      by (auto simp: tcp_socket_recv_def bind_eq_Some_conv split: if_splits)
    have ok2: "tcp_ok st2"
    proof (cases "sk_rx_len s = 0")
      case True
      then have "?loop = Some st2" "waits_keep L" using st2 False assms(3) by auto
      then show ?thesis using wait_loop_ok [OF assms(1)] waits_keepD by blast
    qed (use st2 assms(1) in simp)
    let ?s = "tcp_sockets st2 ! i"
    have sok: "sock_ok ?s" using tcp_ok_nth [OF ok2] ok2 i by (simp add: tcp_ok_def)
    then have "ring_ok ?s" by (simp add: sock_ok_def)
    from rx_take_drops [OF this, of "[]" n] obtain h l where
      t: "rx_take n [] ?s = (take n (rx_stream ?s), ?s\<lparr>sk_rx_head := h, sk_rx_len := l\<rparr>)"
      "ring_ok (?s\<lparr>sk_rx_head := h, sk_rx_len := l\<rparr>)"
      "rx_stream (?s\<lparr>sk_rx_head := h, sk_rx_len := l\<rparr>) = drop n (rx_stream ?s)"
      by auto
    have "sock_ok (?s\<lparr>sk_rx_head := h, sk_rx_len := l\<rparr>)"
    proof (cases "sk_state ?s = socket_state_unallocated")
      case True
      then have z: "sk_rx_head ?s = 0" "sk_rx_len ?s = 0" using sok by (simp_all add: sock_ok_def)
      then have "rx_take n [] ?s = ([], ?s)" by (subst rx_take.simps) (simp add: Let_def)
      with t(1) have "?s\<lparr>sk_rx_head := h, sk_rx_len := l\<rparr> = ?s" by simp
      with sok show ?thesis by simp
    qed (use sok t(2) in \<open>simp add: sock_ok_def\<close>)
    from tcp_ok_set [OF ok2 this, of i] show ?thesis
      using assms(2) s False st2 t(1) by (auto simp: tcp_socket_recv_def Let_def split: if_splits)
  qed
qed

lemma accept_ok:
  assumes "tcp_ok st" "tcp_socket_accept L i flags st = Some (r, st')" "has_flag flags O_NONBLOCK \<or> waits_keep L"
  shows "tcp_ok st'"
proof -
  from assms(2) obtain s where s: "socket_at i st = Some s"
    by (auto simp: tcp_socket_accept_def bind_eq_Some_conv)
  then have i: "i < MAX_SOCKETS" using assms(1) by (auto simp: socket_at_def tcp_ok_def split: if_splits)
  let ?empty = "aq_head (sk_accept s) = aq_tail (sk_accept s)"
  show ?thesis
  proof (cases "sk_state s \<noteq> socket_state_listening \<or> (?empty \<and> has_flag flags O_NONBLOCK)")
    case True
    with assms(1,2) s show ?thesis by (auto simp: tcp_socket_accept_def Let_def split: if_splits)
  next
    case False
    with assms(2) s obtain st2 where st2: "(if ?empty then lw_wait L (Accept_sem i) st else Some st) = Some st2"
      by (auto simp: tcp_socket_accept_def bind_eq_Some_conv Let_def split: if_splits)
    have ok2: "tcp_ok st2" using st2 False assms(1,3) waits_keepD by (auto split: if_splits)
    let ?s = "tcp_sockets st2 ! i" and ?q = "sk_accept (tcp_sockets st2 ! i)"
    note run = assms(2) [unfolded tcp_socket_accept_def s Option.bind.bind_lunit Let_def]
    show ?thesis
    proof (cases "aq_head ?q = aq_tail ?q")
      case True
      with run False st2 ok2 show ?thesis by auto
    next
      case ne: False
      let ?st3 = "set_socket i (?s\<lparr>sk_accept := ?q\<lparr>aq_tail := (aq_tail ?q + 1) mod MAX_LISTEN_BACKLOG\<rparr>\<rparr>) st2"
      have sok: "sock_ok ?s" using tcp_ok_nth [OF ok2] ok2 i by (simp add: tcp_ok_def)
      then have "sock_ok (?s\<lparr>sk_accept := ?q\<lparr>aq_tail := (aq_tail ?q + 1) mod MAX_LISTEN_BACKLOG\<rparr>\<rparr>)"
        by (simp add: sock_ok_def ring_ok_def)
      then have ok3: "tcp_ok ?st3" by (rule tcp_ok_set [OF ok2])
      from allocate_total [OF ok3] obtain j st4 where al: "socket_allocate ?st3 = Some (j, st4)" "tcp_ok st4" by blast
      show ?thesis
      proof (cases "j < 0")
        case True
        with run False st2 ne al show ?thesis by auto
      next
        case pos: False
        let ?c = "aq_pending ?q ! aq_tail ?q"
        have "nat j < length (tcp_sockets st4)" by (rule allocate_index [OF al(1) pos])
        then have "sock_ok (tcp_sockets st4 ! nat j)" by (rule tcp_ok_nth [OF al(2)])
        then have "sock_ok ((tcp_sockets st4 ! nat j)\<lparr>sk_tpcb := ?c, sk_state := socket_state_connected\<rparr>)"
          by (simp add: sock_ok_def ring_ok_def)
        from tcp_ok_set [OF al(2) this, of "nat j"] run False st2 ne al pos show ?thesis by auto
      qed
    qed
  qed
qed

subsubsection \<open>Runs\<close>

text \<open>The operations with any arguments, the callbacks as lwIP may call them, and changes of the state of lwIP. The
  operations that may wait are there without \<open>O_NONBLOCK\<close> only if \<open>b\<close> is true.\<close>

inductive tcp_op :: "'w lwip \<Rightarrow> bool \<Rightarrow> 'w tcp \<Rightarrow> 'w tcp \<Rightarrow> bool" for L b where
  op_world: "tcp_op L b st (on_world f st)"
| op_err: "socket_err_func L arg err st = Some st' \<Longrightarrow> tcp_op L b st st'"
| op_recv_cb: "socket_recv_callback L arg tpcb p st = Some (r, st') \<Longrightarrow> tcp_op L b st st'"
| op_sent_cb: "socket_sent_callback L arg st = Some (r, st') \<Longrightarrow> tcp_op L b st st'"
| op_connected: "socket_connected L arg pcb st = Some (r, st') \<Longrightarrow> tcp_op L b st st'"
| op_accept_cb: "tcp_socket_accept_cb L arg tpcb err st = Some (r, st') \<Longrightarrow> tcp_op L b st st'"
| op_allocate: "socket_allocate st = Some (r, st') \<Longrightarrow> tcp_op L b st st'"
| op_init: "tcp_socket_init L i st = Some (r, st') \<Longrightarrow> tcp_op L b st st'"
| op_close: "tcp_socket_close L i st = Some (r, st') \<Longrightarrow> tcp_op L b st st'"
| op_dup: "tcp_socket_dup i st = Some (r, st') \<Longrightarrow> tcp_op L b st st'"
| op_bind: "tcp_socket_bind L i addr port st = Some (r, st') \<Longrightarrow> tcp_op L b st st'"
| op_listen: "tcp_socket_listen L i backlog st = Some (r, st') \<Longrightarrow> tcp_op L b st st'"
| op_connect: "tcp_socket_connect L i addr port flags st = Some (r, st') \<Longrightarrow> has_flag flags O_NONBLOCK \<or> b
    \<Longrightarrow> tcp_op L b st st'"
| op_write: "tcp_socket_write L i buf flags st = Some (r, st') \<Longrightarrow> has_flag flags O_NONBLOCK \<or> b \<Longrightarrow> tcp_op L b st st'"
| op_recv: "tcp_socket_recv L i n flags st = Some (r, bs, st') \<Longrightarrow> has_flag flags O_NONBLOCK \<or> b \<Longrightarrow> tcp_op L b st st'"
| op_accept: "tcp_socket_accept L i flags st = Some (r, st') \<Longrightarrow> has_flag flags O_NONBLOCK \<or> b \<Longrightarrow> tcp_op L b st st'"

text \<open>While a thread waits, callbacks and the operations of other threads run.\<close>

definition waits_are_runs :: "'w lwip \<Rightarrow> bool" where
  "waits_are_runs L \<longleftrightarrow> (\<forall>x st st'. lw_wait L x st = Some st' \<longrightarrow> (tcp_op L False)\<^sup>*\<^sup>* st st')"

definition zero_socket :: socket where
  "zero_socket = \<lparr>sk_tpcb = None, sk_state = socket_state_unallocated, sk_last_error = 0, sk_rx_buf = (\<lambda>_. 0),
     sk_rx_head = 0, sk_rx_len = 0,
     sk_accept = \<lparr>aq_pending = replicate MAX_LISTEN_BACKLOG None, aq_head = 0, aq_tail = 0\<rparr>\<rparr>"

definition tcp_initial :: "'w \<Rightarrow> 'w tcp" where
  "tcp_initial w = \<lparr>tcp_sockets = replicate MAX_SOCKETS zero_socket, tcp_refcount = replicate MAX_SOCKETS 0, tcp_world = w\<rparr>"

lemma tcp_initial_ok: "tcp_ok (tcp_initial w)"
  by (simp add: tcp_ok_def tcp_initial_def zero_socket_def sock_ok_def ring_ok_def)

lemma tcp_op_ok: "tcp_op L b st st' \<Longrightarrow> b \<longrightarrow> waits_keep L \<Longrightarrow> tcp_ok st \<Longrightarrow> tcp_ok st'"
proof (induction rule: tcp_op.induct)
  case (op_connect i addr port flags st r st')
  then show ?case using connect_ok by blast
next
  case (op_write i buf flags st r st')
  then show ?case using write_ok by blast
next
  case (op_recv i n flags st r bs st')
  then show ?case using recv_ok by blast
next
  case (op_accept i flags st r st')
  then show ?case using accept_ok by blast
qed (simp_all, (erule (1) err_func_ok [rotated] recv_callback_ok [rotated] sent_callback_ok [rotated] connected_ok [rotated]
    accept_cb_ok [rotated] allocate_ok [rotated] tcp_init_ok [rotated] close_ok [rotated] dup_ok [rotated] bind_ok [rotated]
    listen_ok [rotated])+)

lemma tcp_run_ok:
  assumes "(tcp_op L b)\<^sup>*\<^sup>* st st'" "tcp_ok st" "b \<longrightarrow> waits_keep L"
  shows "tcp_ok st'"
  using assms by (induction rule: rtranclp_induct) (auto dest: tcp_op_ok)

lemma waits_are_runs_keep: "waits_are_runs L \<Longrightarrow> waits_keep L"
  unfolding waits_are_runs_def waits_keep_def using tcp_run_ok [of L False] by blast


text \<open>A library that answers every request and whose waits return at once.\<close>

definition ex_lwip :: "nat lwip" where
  "ex_lwip = \<lparr>lw_new = (\<lambda>w. (Some w, Suc w)), lw_keepalive = (\<lambda>_ w. w), lw_arg = (\<lambda>_ _ w. w), lw_err = (\<lambda>_ w. w),
     lw_sent = (\<lambda>_ w. w), lw_recv = (\<lambda>_ w. w), lw_accept = (\<lambda>_ w. w), lw_connect = (\<lambda>_ _ _ w. (ERR_OK, w)),
     lw_close = (\<lambda>_ w. (ERR_OK, w)), lw_abort = (\<lambda>_ w. w), lw_sndbuf = (\<lambda>_ _. 65535), lw_write = (\<lambda>_ _ w. (ERR_OK, w)),
     lw_output = (\<lambda>_ w. (ERR_OK, w)), lw_recved = (\<lambda>_ _ w. w), lw_listen = (\<lambda>p _ w. (p, w)),
     lw_listening = (\<lambda>_ _. True), lw_bind = (\<lambda>_ _ _ w. (ERR_OK, w)), lw_local = (\<lambda>_ _. (0, 0)),
     lw_remote = (\<lambda>_ _. (0, 0)), lw_has_addr = (\<lambda>_ _. True), lw_pbuf_free = (\<lambda>_ w. w),
     lw_tx_free_empty = (\<lambda>_. False), lw_sem_init = (\<lambda>_ w. w), lw_sem_idle = (\<lambda>_ _. True),
     lw_sem_signal = (\<lambda>_ w. w), lw_wait = (\<lambda>_ st. Some st)\<rparr>"

definition ex_connected :: "nat tcp" where
  "ex_connected = set_socket 0 (zero_socket\<lparr>sk_tpcb := Some 7, sk_state := socket_state_connected,
     sk_rx_head := SOCKET_BUF_SIZE - 1\<rparr>) (tcp_initial 8)"

lemma ex_lwip_waits: "waits_are_runs ex_lwip"
  by (simp add: waits_are_runs_def ex_lwip_def)


theorem tcp_stream_in_order_witness:
  "\<exists>st' taken. stream_run ex_lwip 0 [Deliver 1 [1, 2, 3], Take 2, Deliver 2 [4], Take 9] (ex_connected, [], []) =
     Some (st', taken @ stream_of 0 st', taken)"
  by (rule tcp_stream_in_order)
    (simp_all add: ex_connected_def open_ring_def state_is_def ring_ok_def rx_stream_def zero_socket_def tcp_initial_def
      MAX_SOCKETS_def)

subsection \<open>Data before the end of a connection\<close>

text \<open>C40: What the peer sent before it closed the connection is lost when it was not read yet: after the
  notification of the end of the connection, \<open>recv\<close> fails with \<open>ENOTCONN\<close> although the ring still holds bytes.\<close>

theorem tcp_data_before_close_lost:
  assumes "open_ring i st"
  shows "\<exists>st' st''. socket_recv_callback L (Some i) tpcb None st = Some (0, st') \<and> stream_of i st' = stream_of i st \<and>
    tcp_socket_recv L i n flags st' = Some (- ENOTCONN, [], st'')"
proof -
  let ?s = "tcp_sockets st ! i"
  have i: "i < length (tcp_sockets st)" "sk_state ?s = socket_state_connected"
    using assms by (simp_all add: open_ring_def state_is_def)
  let ?st = "wake L (Recv_sem i) (on_world (lw_arg L (sk_tpcb ?s) None)
    (snd (ask (lw_close L tpcb) (set_socket i (?s\<lparr>sk_state := socket_state_closed_by_peer\<rparr>) st))))"
  have run: "socket_recv_callback L (Some i) tpcb None st = Some (0, ?st)"
    using i by (simp add: socket_recv_callback_def socket_at_def Let_def)
  have at: "tcp_sockets ?st ! i = ?s\<lparr>sk_state := socket_state_closed_by_peer\<rparr>" "i < length (tcp_sockets ?st)"
    using i by simp_all
  have "stream_of i ?st = stream_of i st" unfolding at by (simp add: rx_stream_def)
  moreover have "tcp_socket_recv L i n flags ?st = Some (- ENOTCONN, [], ?st)"
    unfolding tcp_socket_recv_def socket_at_def using at by simp
  ultimately show ?thesis using run by blast
qed

theorem tcp_data_before_close_lost_witness:
  "\<exists>st' st''. socket_recv_callback ex_lwip (Some 0) (Some 7) None ex_connected = Some (0, st') \<and>
     stream_of 0 st' = stream_of 0 ex_connected \<and> tcp_socket_recv ex_lwip 0 5 0 st' = Some (- ENOTCONN, [], st'')"
  by (rule tcp_data_before_close_lost)
    (simp add: ex_connected_def open_ring_def state_is_def ring_ok_def zero_socket_def tcp_initial_def MAX_SOCKETS_def)

end
