(* ===== verification/Px_Posix.thy ===== *)
theory Px_Posix
  imports Px_Calls Px_Tcp_Props Fat_Op
begin

text \<open>
  The properties of the POSIX library that span its parts: the descriptors and the sockets of \<open>lib/sock/tcp.c\<close>, the calls
  on files and the buffers of the file system client, the status of a file and the FAT file server that wrote it, and
  the cases in which the code fails.
\<close>

subsection \<open>Descriptors of sockets\<close>

text \<open>The state after the initialisation, and the environment with the socket library of \<open>tcp.c\<close>.\<close>

definition libc_initial :: "'w \<Rightarrow> fs_client \<Rightarrow> 'q \<Rightarrow> ('w tcp, 'q) posix" where
  "libc_initial w c q = libc_init_sock (libc_init_file \<lparr>px_active = fd_active, px_table = fd_table,
     px_fd_socket = replicate MAX_FDS 0, px_sock = tcp_initial w, px_server_fd = replicate MAX_FDS 0,
     px_fd_path = replicate MAX_FDS [], px_client = c, px_serial = q, px_notified = 0\<rparr>)"

definition tcp_env :: "'w lwip \<Rightarrow> (sem \<Rightarrow> 'w tcp \<Rightarrow> 'w lwip_event list option) \<Rightarrow> 'q serial_ops \<Rightarrow> fs_waits \<Rightarrow> ('w tcp, 'q) libc_env" where
  "tcp_env L V S W = \<lparr>le_socket = tcp_config (with_events L V), le_serial = S, le_waits = W\<rparr>"

lemma initial_fds: "fds_ok (libc_initial w c q)"
proof -
  have "slot_ok (fd_active ! i) (fd_table ! i) (- 1) (- 1)" if "i < MAX_FDS" for i
    using that by (auto simp: fd_active_def fd_table_def nth_list_update MAX_FDS_def STDIN_FD_def STDOUT_FD_def STDERR_FD_def
        slot_ok_def entry_ok_def zero_entry_def console_entry_def)
  then show ?thesis
    by (simp add: fds_ok_def libc_initial_def libc_init_sock_def libc_init_file_def) (simp add: fd_active_def fd_table_def)
qed

lemma initial_counted: "tcp.counted (libc_initial w c q)"
proof -
  have "descriptors (libc_initial w c q) i = 0" for i
    by (simp add: descriptors_def libc_initial_def libc_init_sock_def filter_replicate)
  moreover have "tcp_count (tcp_initial w) i = 0" for i by (simp add: tcp_count_def tcp_initial_def)
  moreover have "tcp_well (tcp_initial w)" by (simp add: tcp_well_def tcp_initial_def)
  moreover have "px_sock (libc_initial w c q) = tcp_initial w" by (simp add: libc_initial_def libc_init_sock_def libc_init_file_def)
  ultimately show ?thesis using initial_fds by (simp add: tcp.counted_def)
qed

lemma reachable_counted:
  assumes "(libc_step (tcp_env L V S W) (calls_back L))\<^sup>*\<^sup>* (libc_initial w c q) st"
  shows "tcp.counted st"
  using assms
proof (induction rule: rtranclp_induct)
  case (step st1 st2)
  have "libc_step (tcp_env L V S W) tcp_kept st1 st2"
    using step(2)
  proof cases
    case (call_between s')
    then obtain e where "deliver L e (px_sock st1) = Some s'" by (auto simp: calls_back_def)
    with deliver_kept [OF tcp.countedD(2) [OF step.IH]] call_between(1) show ?thesis by (auto intro: libc_step.call_between)
  qed (blast intro: libc_step.intros)+
  from tcp.calls.steady_step [OF this step.IH, of L V False] show ?case by (simp add: tcp_env_def steady_def)
qed (rule initial_counted)

text \<open>What closing does to the socket: nothing while other descriptors are left, and with the last one it is not in use any more.\<close>

lemma close_last:
  fixes st :: "'w tcp"
  assumes w: "tcp_well st" and live: "tcp_live st i"
  shows "\<exists>r st'. tcp_socket_close L i st = Some (r, st') \<and>
    (if tcp_count st i = 1 then \<not> tcp_live st' i else tcp_sockets st' = tcp_sockets st)"
proof -
  have i: "i < MAX_SOCKETS" "i < length (tcp_refcount st)" using w live live_less by (auto simp: tcp_well_def)
  let ?st = "add_refcount i (- 1) st"
  have n: "tcp_refcount ?st ! i = tcp_count st i - 1" using i by (simp add: add_refcount_def tcp_count_def)
  have s: "socket_at i ?st = Some (tcp_sockets st ! i)" using i w by (simp add: socket_at_def add_refcount_def tcp_well_def)
  have w1: "tcp_well ?st" using w by (simp add: add_refcount_counts)
  show ?thesis
  proof (cases "tcp_count st i = 1")
    case False
    with i n show ?thesis by (simp add: tcp_socket_close_def add_refcount_def)
  next
    case True
    have dead: "\<not> tcp_live (set_socket i s' st1) i" if "tcp_well st1" "\<not> in_use (sk_state s')" for s' and st1 :: "'w tcp"
      using that by (simp add: set_socket_counts(3))
    have "\<exists>r st'. tcp_socket_close_int L i ?st = Some (r, st') \<and> \<not> tcp_live st' i"
    proof (cases "sk_state (tcp_sockets st ! i) = socket_state_listening \<or> sk_state (tcp_sockets st ! i) = socket_state_connected")
      case True
      let ?c = "set_socket i ((tcp_sockets st ! i)\<lparr>sk_state := socket_state_closing\<rparr>) ?st"
      obtain err st1 where a: "ask (lw_close L (sk_tpcb (tcp_sockets st ! i))) ?c = (err, st1)"
        by (cases "ask (lw_close L (sk_tpcb (tcp_sockets st ! i))) ?c")
      have "\<not> tcp_live st1 i" using ask_counts [OF a] dead [OF w1] by simp
      with True a show ?thesis by (simp add: tcp_socket_close_int_def s)
    next
      case False
      moreover have "in_use (sk_state (tcp_sockets st ! i))" using live by (simp add: tcp_live_def)
      moreover have "\<not> tcp_live (set_socket i s' st1) i" if "tcp_well st1" "sk_state s' = socket_state_unallocated" for s' and st1 :: "'w tcp"
        using dead [OF that(1), of s'] that(2) by simp
      ultimately show ?thesis
        by (cases "sk_state (tcp_sockets st ! i)") (simp_all add: tcp_socket_close_int_def s Let_def w1)
    qed
    with i n True show ?thesis by (simp add: tcp_socket_close_def)
  qed
qed

text \<open>C2: A socket is closed with its last descriptor, and not before. Take any sequence of system calls with any arguments,
  with any callbacks of lwIP between them and while they wait, where the callbacks are the functions of \<open>tcp.c\<close> (errors,
  received data and ends of connections, data sent, connections made and offered), one thread makes the calls, and lwIP
  does not report the end of a connection that was never made. Then, whether its descriptors come from \<open>socket\<close>, from
  \<open>accept\<close> or from duplication, and however calls on files use the others, the count of a socket that has descriptors is
  their number and the socket is in use: neither free nor closing. And \<open>close\<close> on one of them returns; it takes this
  descriptor away, closes the socket if it was the last, and otherwise leaves all sockets as they are.\<close>

theorem descriptors_counted:
  assumes "(libc_step (tcp_env L V S W) (calls_back L))\<^sup>*\<^sup>* (libc_initial w c q) st"
  shows "(0 < descriptors st i \<longrightarrow> tcp_refcount (px_sock st) ! i = descriptors st i \<and> tcp_live (px_sock st) i) \<and>
    (\<forall>fd. 0 \<le> fd \<longrightarrow> fd < int MAX_FDS \<longrightarrow> px_fd_socket st ! nat fd = int i \<longrightarrow>
      (\<exists>r st'. sys_close (tcp_env L V S W) fd st = Some (r, st') \<and>
        px_fd_socket st' = (px_fd_socket st)[nat fd := - 1] \<and> descriptors st' i = descriptors st i - 1 \<and>
        (if descriptors st i = 1 then \<not> tcp_live (px_sock st') i
         else tcp_sockets (px_sock st') = tcp_sockets (px_sock st))))"
proof (intro conjI impI allI)
  note c = reachable_counted [OF assms]
  have count: "tcp_count (px_sock st) i = descriptors st i" if "0 < descriptors st i" by (rule tcp.countedD(5) [OF c that])
  have live: "tcp_live (px_sock st) i" if "0 < descriptors st i"
    using tcp.countedD(3) [OF c, of i] count [OF that] that by auto
  show "tcp_refcount (px_sock st) ! i = descriptors st i" "tcp_live (px_sock st) i" if "0 < descriptors st i"
    using count [OF that] live [OF that] that by (auto simp: tcp_count_def split: if_splits)
  fix fd :: int assume fd: "0 \<le> fd" "fd < int MAX_FDS" "px_fd_socket st ! nat fd = int i"
  note ok = tcp.countedD(1) [OF c] and l = fds_ok_lengths [OF tcp.countedD(1) [OF c]]
  have n: "nat fd < MAX_FDS" using fd by simp
  have row: "slot_ok (px_active st ! nat fd) (px_table st ! nat fd) (px_fd_socket st ! nat fd) (px_server_fd st ! nat fd)"
    by (rule fds_okD [OF ok n])
  then have e: "fe_close (px_table st ! nat fd) = Some Sock" using fd(3) by (simp add: slot_ok_def)
  then have act: "px_active st ! nat fd" using row by (auto simp: slot_ok_def zero_entry_def)
  have entry: "posix_fd_entry fd st = Some (px_table st ! nat fd)"
    using fd act by (simp add: posix_fd_entry_def posix_fd_is_valid_def)
  have pos: "0 < descriptors st i" by (rule descriptors_pos [OF _ fd(3)]) (simp add: l n)
  obtain r s' where cl: "tcp_socket_close (with_events L V) i (px_sock st) = Some (r, s')"
    "if descriptors st i = 1 then \<not> tcp_live s' i else tcp_sockets s' = tcp_sockets (px_sock st)"
    using close_last [OF tcp.countedD(2) [OF c] live [OF pos]] count [OF pos] by metis
  let ?st = "st\<lparr>px_active := (px_active st)[nat fd := False], px_table := (px_table st)[nat fd := zero_entry],
       px_fd_socket := (px_fd_socket st)[nat fd := - 1], px_sock := s'\<rparr>"
  have "sock_close (tcp_config (with_events L V)) fd st = Some (r, ?st)"
    using fd deallocate_fd [OF fd(1) n act] cl(1)
    by (simp add: sock_close_def socket_handle_def with_sock_def Let_def tcp_config_def)
  then have "sys_close (tcp_env L V S W) fd st = Some (if r \<noteq> 0 then r else 0, ?st)"
    using fd e entry by (simp add: sys_close_def SERVICES_FD_def ETC_FD_def entry_close_def tcp_env_def)
  moreover have "descriptors ?st i = descriptors st i - 1"
    using descriptors_update [of "nat fd" st ?st "- 1" i] l n fd(3) by simp
  ultimately show "\<exists>r st'. sys_close (tcp_env L V S W) fd st = Some (r, st') \<and>
        px_fd_socket st' = (px_fd_socket st)[nat fd := - 1] \<and> descriptors st' i = descriptors st i - 1 \<and>
        (if descriptors st i = 1 then \<not> tcp_live (px_sock st') i
         else tcp_sockets (px_sock st') = tcp_sockets (px_sock st))"
    using cl(2) by (intro exI [of _ "if r \<noteq> 0 then r else 0"] exI [of _ ?st]) simp
qed

definition ex_libc :: "(nat tcp, u8 list) posix" where
  "ex_libc = libc_initial 0 ex_client []"

definition ex_env :: "(nat tcp, u8 list) libc_env" where
  "ex_env = tcp_env ex_lwip (\<lambda>_ _. None) ex_serial (\<lambda>_ _. [])"

lemma ex_fd: "find_index Not fd_active = Some 3"
  by code_simp

lemma ex_free_socket: "find_index (\<lambda>s. sk_state s = socket_state_unallocated) (replicate MAX_SOCKETS zero_socket) = Some 0"
  by (simp add: MAX_SOCKETS_def numeral_eq_Suc zero_socket_def)

lemma zero_socket_simps [simp]:
  "sk_tpcb zero_socket = None" "sk_rx_head zero_socket = 0" "sk_rx_len zero_socket = 0"
  by (simp_all add: zero_socket_def)

lemma ex_allocate: "socket_allocate (tcp_initial w) = Some (0, set_socket 0 (zero_socket\<lparr>sk_state := socket_state_allocated\<rparr>) (tcp_initial w))"
proof -
  have "replicate MAX_SOCKETS zero_socket ! 0 = zero_socket" by (simp add: MAX_SOCKETS_def)
  then show ?thesis by (simp add: socket_allocate_def tcp_initial_def ex_free_socket Let_def)
qed

lemma ex_init:
  "\<exists>s. tcp_socket_init (with_events ex_lwip (\<lambda>_ _. None)) 0 (set_socket 0 (zero_socket\<lparr>sk_state := socket_state_allocated\<rparr>) (tcp_initial 0)) = Some (0, s)"
  by (simp add: tcp_socket_init_def set_socket_def socket_at_def tcp_initial_def MAX_SOCKETS_def with_events_def ex_lwip_def ask_def
      on_world_def add_refcount_def Let_def)

lemma ex_libc_socket:
  "\<exists>st. sys_socket (tcp_config (with_events ex_lwip (\<lambda>_ _. None))) AF_INET SOCK_STREAM ex_libc = Some (3, st) \<and> px_fd_socket st ! 3 = 0 \<and>
     length (px_fd_socket st) = MAX_FDS"
proof -
  define st0 where "st0 = ex_libc"
  have al: "posix_fd_allocate st0 = (3, st0\<lparr>px_active := (px_active st0)[3 := True]\<rparr>)"
    by (simp add: posix_fd_allocate_def st0_def ex_libc_def libc_initial_def libc_init_sock_def libc_init_file_def ex_fd)
  have len: "length (px_active st0) = 128" "length (px_fd_socket st0) = 128"
    by (simp_all add: st0_def ex_libc_def libc_initial_def libc_init_sock_def libc_init_file_def fd_active_def MAX_FDS_def)
  have sock: "px_sock st0 = tcp_initial 0"
    by (simp add: st0_def ex_libc_def libc_initial_def libc_init_sock_def libc_init_file_def)
  obtain s where s: "tcp_socket_init (with_events ex_lwip (\<lambda>_ _. None)) 0
      (set_socket 0 (zero_socket\<lparr>sk_state := socket_state_allocated\<rparr>) (tcp_initial 0)) = Some (0, s)"
    using ex_init by blast
  have "\<exists>st. sys_socket (tcp_config (with_events ex_lwip (\<lambda>_ _. None))) AF_INET SOCK_STREAM st0 = Some (3, st) \<and> px_fd_socket st ! 3 = 0 \<and>
     length (px_fd_socket st) = MAX_FDS"
    by (simp add: sys_socket_def al posix_fd_entry_def posix_fd_is_valid_def len MAX_FDS_def set_entry_at_def with_sock_def
        tcp_config_def sock ex_allocate s)
  then show ?thesis by (simp only: st0_def)
qed

theorem descriptors_counted_witness:
  "\<exists>st r st'. (libc_step ex_env (calls_back ex_lwip))\<^sup>*\<^sup>* ex_libc st \<and> descriptors st 0 = tcp_refcount (px_sock st) ! 0 \<and>
     tcp_live (px_sock st) 0 \<and> sys_close ex_env 3 st = Some (r, st') \<and> descriptors st' 0 = descriptors st 0 - 1"
proof -
  obtain st where st: "sys_socket (tcp_config (with_events ex_lwip (\<lambda>_ _. None))) AF_INET SOCK_STREAM ex_libc = Some (3, st)"
    "px_fd_socket st ! 3 = 0" "length (px_fd_socket st) = MAX_FDS"
    using ex_libc_socket by blast
  have "libc_step ex_env (calls_back ex_lwip) ex_libc st"
    by (rule call_socket [where domain = AF_INET and type = SOCK_STREAM and r = 3]) (simp add: ex_env_def tcp_env_def st)
  then have run: "(libc_step ex_env (calls_back ex_lwip))\<^sup>*\<^sup>* ex_libc st" by simp
  have pos: "0 < descriptors st 0" by (rule descriptors_pos [of 3]) (simp_all add: st MAX_FDS_def)
  note C = descriptors_counted [OF run [unfolded ex_libc_def ex_env_def], of 0]
  have fd: "(0 :: int) \<le> 3" "(3 :: int) < int MAX_FDS" "px_fd_socket st ! nat 3 = int 0" by (simp_all add: st MAX_FDS_def)
  from conjunct2 [OF C, rule_format, OF fd] obtain r st' where "sys_close ex_env 3 st = Some (r, st')"
    "descriptors st' 0 = descriptors st 0 - 1" by (auto simp: ex_env_def)
  with conjunct1 [OF C, rule_format, OF pos] run show ?thesis by metis
qed

subsection \<open>Buffers of the file system client\<close>

text \<open>C7: No system call leaks a data buffer of the file system client: after every sequence of system calls with any
  arguments and answers of the server, errors and unfinished transfers included, with any socket library and whatever
  happens to the sockets between the calls, the client has the buffers that it had at the start, provided that the other
  threads that run while a call waits for the server give back theirs.\<close>

theorem calls_release_buffers:
  assumes "(libc_step E K)\<^sup>*\<^sup>* (libc_initial w c q) st" "waits_keep_buffers (le_waits E)"
  shows "cl_buffers (px_client st) = cl_buffers c"
proof -
  have "(libc_step E (\<lambda>_ _. True))\<^sup>*\<^sup>* (libc_initial w c q) st"
    using assms(1)
  proof (induction rule: rtranclp_induct)
    case (step st1 st2)
    have "libc_step E (\<lambda>_ _. True) st1 st2" using step(2) by cases (blast intro: libc_step.intros)+
    with step.IH show ?case by (rule rtranclp.rtrancl_into_rtrancl)
  qed simp
  from any_library.run_invariant [OF this initial_fds refl, of True] assms(2)
  have "cl_buffers (px_client st) = cl_buffers (px_client (libc_initial w c q))" by (simp add: steady_def)
  then show ?thesis by (simp add: libc_initial_def libc_init_sock_def libc_init_file_def)
qed

definition ex_request :: request_metadata where
  "ex_request = \<lparr>rm_command = \<lparr>cmd_id = 0, cmd_type = 0, cmd_params = []\<rparr>,
     rm_completion = \<lparr>cmpl_id = 0, cmpl_status = 0, cmpl_data = 0\<rparr>, rm_used = False, rm_complete = False\<rparr>"

definition free_client :: fs_client where
  "free_client = ex_client\<lparr>cl_requests := replicate 511 ex_request\<rparr>"

text \<open>A server that refuses the first request because the name exists.\<close>

definition ex_refuse :: "fs_client \<Rightarrow> fs_client" where
  "ex_refuse = upd_request 0 (\<lambda>r. r\<lparr>rm_completion := \<lparr>cmpl_id = 0, cmpl_status = status_code FS_STATUS_ALREADY_EXISTS, cmpl_data = 0\<rparr>,
     rm_complete := True\<rparr>)"

definition refused_env :: "(nat tcp, u8 list) libc_env" where
  "refused_env = tcp_env ex_lwip (\<lambda>_ _. None) ex_serial (\<lambda>_ _. [ex_refuse])"

lemma free_client_allocates:
  "fs_buffer_allocate free_client = Some (0, Some 0, free_client\<lparr>cl_buffers := (replicate 511 False)[0 := True]\<rparr>)"
proof -
  have "scan_table Not 0 NUM_BUFFERS (replicate 511 False) = Some (Some 0)"
    by (simp add: NUM_BUFFERS_def FS_QUEUE_CAPACITY_def numeral_eq_Suc)
  then show ?thesis by (simp add: fs_buffer_allocate_def free_client_def ex_client_def)
qed

lemma free_client_requests:
  assumes "cl_requests c = replicate 511 ex_request" "fsq_head (cl_command_queue c) = 0" "fsq_tail (cl_command_queue c) = 0"
  shows "\<exists>c'. fs_command_blocking cmd [ex_refuse] c =
     Some (0, Some \<lparr>cmpl_id = 0, cmpl_status = status_code FS_STATUS_ALREADY_EXISTS, cmpl_data = 0\<rparr>, c') \<and>
     cl_buffers c' = cl_buffers c"
proof -
  have "scan_table (\<lambda>r. \<not> rm_used r) 0 NUM_BUFFERS (replicate 511 ex_request) = Some (Some 0)"
    by (simp add: NUM_BUFFERS_def FS_QUEUE_CAPACITY_def numeral_eq_Suc ex_request_def)
  then show ?thesis
    by (simp add: fs_command_blocking_def fs_request_allocate_def assms fs_command_issue_def upd_request_def
        fs_queue_length_producer_def REQUEST_ID_MAXIMUM_def FS_QUEUE_CAPACITY_def Let_def blocking_loop.simps ex_refuse_def
        fs_command_complete_def fs_request_free_def ex_request_def)
qed

lemma ex_mkdir:
  "\<exists>st'. sys_mkdirat (\<lambda>_ _. [ex_refuse]) AT_FDCWD (Some [47, 100]) (libc_initial (0 :: nat) free_client ([] :: u8 list)) =
     Some (- EEXIST, st')"
proof -
  define st where "st = libc_initial (0 :: nat) free_client ([] :: u8 list)"
  have c: "px_client st = free_client" by (simp add: st_def libc_initial_def libc_init_sock_def libc_init_file_def)
  define st1 where "st1 = buffer_put 0 [47, 100] (st\<lparr>px_client := free_client\<lparr>cl_buffers := (replicate 511 False)[0 := True]\<rparr>\<rparr>)"
  obtain c' where c': "fs_command_blocking (fs_command FS_CMD_DIR_CREATE [0, 2]) [ex_refuse] (px_client st1) =
      Some (0, Some \<lparr>cmpl_id = 0, cmpl_status = status_code FS_STATUS_ALREADY_EXISTS, cmpl_data = 0\<rparr>, c')"
    "cl_buffers c' = cl_buffers (px_client st1)"
    using free_client_requests [of "px_client st1"] by (auto simp: st1_def buffer_put_def free_client_def ex_client_def)
  have b: "cl_buffers (px_client st1) \<noteq> []" "cl_buffers (px_client st1) ! 0" by (simp_all add: st1_def buffer_put_def)
  have "fs_status_to_errno (status_code FS_STATUS_ALREADY_EXISTS) = Some EEXIST"
    by (simp add: fs_status_to_errno_def fs_statuses_def)
  then have e: "fs_status_to_errno 17 = Some EEXIST" by simp
  have "\<exists>st'. path_request (\<lambda>_ _. [ex_refuse]) FS_CMD_DIR_CREATE [47, 100] st = Some (- EEXIST, st')"
    by (simp add: path_request_def FS_BUFFER_SIZE_def buffer_allocate_def c free_client_allocates st1_def [symmetric]
        request_unchecked_def request_def c' buffer_free_def fs_buffer_free_def Let_def b NUM_BUFFERS_def FS_QUEUE_CAPACITY_def succeeded_def e)
  then show ?thesis
    by (simp add: sys_mkdirat_def resolve_path_def PATH_MAX_def AT_FDCWD_def ETC_FD_def slash_def st_def)
qed

theorem calls_release_buffers_witness:
  "\<exists>st. (libc_step refused_env (calls_back ex_lwip))\<^sup>*\<^sup>* (libc_initial 0 free_client []) st \<and> cl_buffers (px_client st) = cl_buffers free_client"
proof -
  obtain st where st: "sys_mkdirat (\<lambda>_ _. [ex_refuse]) AT_FDCWD (Some [47, 100])
      (libc_initial (0 :: nat) free_client ([] :: u8 list)) = Some (- EEXIST, st)"
    using ex_mkdir by blast
  have "libc_step refused_env (calls_back ex_lwip) (libc_initial 0 free_client []) st"
    by (rule call_mkdirat [where dirfd = AT_FDCWD and path = "Some [47, 100]" and r = "- EEXIST"])
      (simp add: refused_env_def tcp_env_def st)
  then have run: "(libc_step refused_env (calls_back ex_lwip))\<^sup>*\<^sup>* (libc_initial 0 free_client []) st" by simp
  have "waits_keep_buffers (le_waits refused_env)"
    by (simp add: waits_keep_buffers_def ex_refuse_def upd_request_def refused_env_def tcp_env_def)
  from calls_release_buffers [OF run this] run show ?thesis by blast
qed

subsection \<open>The status of a file\<close>

lemma le64_decodes: "foldr (\<lambda>b w. ucast b + 256 * w) (map (\<lambda>i. ucast (drop_bit (8 * i) w) :: u8) [0..<n]) 0 =
    (of_nat (unat w mod 256 ^ n) :: u64)" for w :: u64
proof (induction n arbitrary: w)
  case (Suc n)
  have l: "[0..<Suc n] = 0 # map Suc [0..<n]" by (simp add: upt_conv_Cons map_Suc_upt del: upt_Suc)
  have d: "map ((\<lambda>i. ucast (drop_bit (8 * i) w) :: u8) \<circ> Suc) [0..<n] = map (\<lambda>i. ucast (drop_bit (8 * i) (drop_bit 8 w))) [0..<n]"
    by (simp add: drop_bit_drop_bit algebra_simps)
  have q: "unat (w mod 256) = unat w mod 256" by (simp add: unat_mod)
  have u: "unat (drop_bit 8 w) = unat w div 256" by (simp add: drop_bit_eq_div unat_div)
  have b: "ucast (ucast w :: u8) = (of_nat (unat w mod 256) :: u64)"
    by (rule word_unat_eq_iff [THEN iffD2]) (simp add: unsigned_ucast_eq unat_of_nat take_bit_eq_mod q)
  have m: "unat w mod 256 ^ Suc n = unat w mod 256 + 256 * (unat w div 256 mod 256 ^ n)"
    by (simp add: mod_mult2_eq)
  show ?case
    unfolding l
    by (simp add: d Suc.IH [of "drop_bit 8 w"] u b m del: upt_Suc of_nat_mod power_Suc drop_bit_drop_bit)
qed simp

lemma word_at_le64:
  "i < length ws \<Longrightarrow> word_at (concat (map le64 ws)) i = ws ! i"
proof -
  assume i: "i < length ws"
  have n: "length (concat (map le64 xs)) = 8 * length xs" for xs by (induction xs) (simp_all add: le64_def)
  have "ws = take i ws @ ws ! i # drop (Suc i) ws" by (rule id_take_nth_drop [OF i])
  then have "concat (map le64 ws) = concat (map le64 (take i ws)) @ le64 (ws ! i) @ concat (map le64 (drop (Suc i) ws))"
    by (metis concat_append list.simps(9) concat.simps(2) map_append)
  then have "take 8 (drop (8 * i) (concat (map le64 ws))) = le64 (ws ! i)"
    using i n [of "take i ws"] by (simp add: le64_def)
  then have "word_at (concat (map le64 ws)) i = (of_nat (unat (ws ! i) mod 256 ^ 8) :: u64)"
    using le64_decodes [of "ws ! i" 8] by (simp add: le64_def)
  moreover have "unat (ws ! i) < 256 ^ 8" using unsigned_less [of "ws ! i"] by simp
  ultimately show ?thesis by simp
qed

text \<open>C19: The status of a file goes unchanged from the server to the program: what \<open>fstatat\<close> and \<open>fstat\<close> of the POSIX library read
  from the bytes of the server's \<open>fs_stat_t\<close>, as the FAT file server writes it into the shared buffer, is the status of the server, field by field, except that
  the mode, the number of links, the owner, the group and the block size are cut to the 32 bits that the C library has for them,
  and the field of the server that the C library does not have is dropped.\<close>

theorem stat_crosses_the_buffer:
  "stat_of_bytes (fs_stat_bytes st) statbuf = st\<lparr>st_mode := low32 (st_mode st), st_nlink := low32 (st_nlink st),
     st_uid := low32 (st_uid st), st_gid := low32 (st_gid st), st_blksize := low32 (st_blksize st), st_used := st_used statbuf\<rparr>"
proof -
  define ws where "ws = [st_dev st, st_ino st, st_mode st, st_nlink st, st_uid st, st_gid st,
     st_rdev st, st_size st, st_blksize st, st_blocks st, st_atime st, st_mtime st, st_ctime st,
     st_atime_nsec st, st_mtime_nsec st, st_ctime_nsec st, st_used st]"
  have b: "fs_stat_bytes st = concat (map le64 ws)" by (simp add: fs_stat_bytes_def ws_def)
  have w: "word_at (concat (map le64 ws)) i = ws ! i" if "i < 17" for i
    by (rule word_at_le64) (use that in \<open>simp add: ws_def\<close>)
  show ?thesis
    unfolding b stat_of_bytes_def by (simp add: w del: word_at.simps) (simp add: ws_def)
qed

end
