(* ===== verification/Spec2Isabelle.thy ===== *)
theory Spec2Isabelle
  imports Fw_Checksum Fw_Queue Fw_Filter Fw_Packet_Queue Fw_Router_Props
    Fw_Arp_Props Fw_Arp_Responder Fw_Filters_Props Fw_Network Fw_Icmp_Module_Props Fw_Virt_Rx Fw_Virt_Tx Fw_Init
    Fat_Safety Fat_Requests Fat_Io Nfs_Op Fs_Helpers
    Px_Mem Px_Misc Px_Posix
begin

text \<open>
  A verification library for the components of LionsOS in this repository. LionsOS is a set of components that run
  next to each other on seL4 with Microkit and exchange data through shared memory: single-producer
  single-consumer queues, data regions, tables that one component writes and another reads, notifications, and
  protected procedure calls. The library models three groups of components.

  \<^bold>\<open>The firewall\<close> (\<open>examples/firewall\<close>, \<open>include/lions/firewall\<close>). For each interface, a receive virtualiser passes
  packets to the filters of their protocol and to the ARP components; the filters pass packets on to the router or
  give them back; the router looks up the next hop, asks the ARP requester for hardware addresses, keeps packets that
  wait for one, and hands packets to the transmit virtualiser of the other interface, which returns the buffers to the
  receive virtualiser they came from; the ICMP module writes the error messages and the answers to pings that filters
  and router ask for.

  \<^bold>\<open>The file systems\<close> (\<open>components/fs\<close>, \<open>lib/fs\<close>, \<open>include/lions/fs\<close>). Clients put commands into a queue in shared
  memory; the FAT server runs each command in a cooperative thread that blocks inside FatFs, the NFS server in a
  continuation that libnfs calls back.

  \<^bold>\<open>The C library of the clients\<close> (\<open>lib/libc/posix\<close>, \<open>lib/sock\<close>). The system calls of musl on files, which become
  commands to a file system, and on sockets, which become operations of lwIP in the same component.

  \<^bold>\<open>Theories\<close>

  Shared: \<open>Prelude\<close> (lists, options, words, \<open>c_assert\<close>), \<open>Loops\<close> (loops that may not end, \<open>while_opt\<close>), \<open>Fifo\<close> (the
  contract of a queue as a locale, and the loop that empties one), \<open>Coroutine\<close> (handlers that give up control in the
  middle, their interleavings, and the locale \<open>cothreads\<close> for invariants of the whole from invariants of the segments).

  Firewall, data: \<open>Fw_Common\<close> (\<open>common.h\<close>), \<open>Fw_Checksum\<close> (\<open>checksum.h\<close>), \<open>Fw_Queue\<close> (\<open>queue.h\<close>, an instance of
  \<open>Fifo\<close>), \<open>Fw_Array\<close> (\<open>array_functions.h\<close>, with the locale of entries of fixed size), \<open>Fw_Routing\<close> (\<open>routing.h\<close>,
  \<open>routing_table.c\<close>), \<open>Fw_Arp\<close> (\<open>arp.h\<close>), \<open>Fw_Packet_Queue\<close> (\<open>packet_queue.c\<close>), \<open>Fw_Filter\<close> (\<open>filter.h\<close>), \<open>Fw_Packet\<close> (the
  headers of \<open>ethernet.h\<close>, \<open>ip.h\<close>, \<open>tcp.h\<close>, \<open>udp.h\<close> and their bytes), \<open>Fw_Icmp\<close> (\<open>icmp.h\<close>), \<open>Fw_Net\<close> (what the components
  rely on of the queues of sDDF).
  Firewall, components: \<open>Fw_Router\<close>, \<open>Fw_Router_Safety\<close>, \<open>Fw_Router_Props\<close> (\<open>routing.c\<close>), \<open>Fw_Arp_Requester\<close>, \<open>Fw_Arp_Props\<close>
  (\<open>arp_requester.c\<close>), \<open>Fw_Arp_Responder\<close>, \<open>Fw_Filters\<close>, \<open>Fw_Filters_Props\<close> (\<open>udp_filter.c\<close>, \<open>tcp_filter.c\<close>,
  \<open>icmp_filter.c\<close>; the locale \<open>filter_protocol\<close> has these three as instances), \<open>Fw_Network\<close> (the filters of one protocol
  on all interfaces, which see each other's connections), \<open>Fw_Icmp_Module\<close>,
  \<open>Fw_Icmp_Module_Props\<close>, \<open>Fw_Virt_Rx\<close>, \<open>Fw_Virt_Tx\<close>, and \<open>Fw_Init\<close> (the \<open>init\<close> functions of all of them).

  File systems: \<open>Fs_Protocol\<close> (\<open>protocol.h\<close>), \<open>Fs_Fd\<close> (\<open>server/fd.c\<close>, \<open>server/memory.c\<close>), \<open>Fs_Helpers\<close>
  (\<open>helpers.c\<close>, the client side), \<open>Fat_Op\<close>, \<open>Fat_Safety\<close> (\<open>fat/op.c\<close>, and the table of handlers of \<open>fat/event.c\<close>),
  \<open>Fat_Requests\<close> (each request of the FAT server from its start to its reply, with the calls of FatFs it stands for),
  \<open>Fat_Io\<close> (\<open>fat/io.c\<close>), \<open>Nfs_Op\<close> (\<open>nfs/op.c\<close>).

  C library: \<open>Px_Base\<close> (error numbers and flags of musl), \<open>Px_Mem\<close> (\<open>mem.c\<close>), \<open>Px_Fd\<close> (\<open>fd.c\<close> and the state that the files of the
  library share), \<open>Px_Tcp\<close>, \<open>Px_Tcp_Props\<close> (\<open>lib/sock/tcp.c\<close>), \<open>Px_Sock\<close> (\<open>sock.c\<close>), \<open>Px_File\<close> (\<open>file.c\<close>), \<open>Px_Io\<close> (\<open>io.c\<close>),
  \<open>Px_Misc\<close> (\<open>posix.c\<close>); \<open>Px_Frame\<close>, \<open>Px_Props\<close>, \<open>Px_Count\<close>, \<open>Px_Calls\<close> (what every call leaves alone and what it
  keeps; the locale \<open>counted_sockets\<close> is what the calls rely on of a socket library, and \<open>tcp.c\<close> is its instance) and
  \<open>Px_Posix\<close> (the properties of sequences of calls).

  \<^bold>\<open>Conventions\<close>

  The static variables of a component are a record, and its functions are functions on this record with the names
  that they have in the code. Integers have the width that the code gives them; \<open>int\<close> and \<open>nat\<close> stand for numbers that the code keeps in range,
  and the definitions write out the conversions. A result in \<open>option\<close> is \<open>None\<close> when an assertion fails, when
  memory outside an array or behind a null pointer is accessed, when a signed overflow happens, or when a loop does not
  end. The machine is little-endian.

  Code outside the repository is a parameter: the queues of sDDF (\<open>net_ops\<close>, with \<open>net_queue_laws\<close> as what they
  promise and an instance on lists), lwIP and the semaphores of libmicrokitco (\<open>lwip\<close>), FatFs and libnfs (the answers to the
  requests of a coroutine, which are arbitrary), the serial queue, the timer, \<open>rand\<close>, the numbers of the system calls.

  Loops over tables are functions on lists. A loop that the arrival of data can keep going is \<open>while_opt\<close>, which is
  partial; that it ends is part of the theorems. There is no fuel except in the loop of \<open>Fifo\<close>, where the length
  of the queue, which is proved to be enough, is the bound. The notification handlers run with nothing arriving between the last test of a
  queue and the request to be signalled again. A call of the C library that blocks is a loop over waits; what other threads do during a wait is
  a parameter: for requests to a file system, the list of changes of the client state; for semaphores (\<open>lw_wait\<close>), the callbacks
  that lwIP makes until the call goes on. \<open>with_events\<close> makes these the functions of \<open>tcp.c\<close>: what they do to the sockets
  is not assumed but proved.

  \<^bold>\<open>What is shown\<close>

  Buffers and descriptors: router, filters, virtualisers and ARP requester neither lose nor duplicate a packet buffer,
  and their assertions hold; the POSIX calls give back every buffer of the file system client, and a
  socket is closed with the last of its descriptors and not before, after every sequence of calls and callbacks; a FAT file structure is used by one request or
  descriptor at a time under every interleaving.
  Functions: the decision of a filter is that of the most specific rule, connections let the answers pass, and a filter passes on nothing but what a rule of it or such a connection allows, routing
  takes the longest prefix, replies to ARP requests and pings have the contents they should have, received bytes of a
  TCP connection are read once and in order, the transfers of the disk cover the sectors.
  Refinement: queues, tables of packets, descriptor tables, filter tables, the console, as sequences, maps and state machines.
  Progress: pending ARP entries are resolved, the ICMP module handles all requests, every request
  of the FAT server is answered once, with success exactly when all of its work was done.
  Wire formats: checksums verify, the status of a file is read back as the server wrote it.
  Errors: what happens to data when a connection is closed, and, as lemmas, the places where the code does not do what it means to
  (overruns of name buffers, requests that overrun, wrong masks, a renaming that ignores the new name).

  \<^bold>\<open>Not modelled\<close>

  FatFs (\<open>dep/ff15/ff.c\<close>, \<open>ffunicode.c\<close>) and the compiler runtime are vendored. The scheduler of \<open>fat/event.c\<close> and the main loop of
  \<open>nfs/nfs.c\<close> call libmicrokitco, libnfs and lwIP and have no state of their own but these. The components
  for MicroPython and WebAssembly bind the interpreters to the libraries above. The programs under \<open>examples\<close> other than the firewall are
  tests and configuration. Log output, cache maintenance, memory fences, and the concurrency of
  two components on one queue beyond the order of whole operations are left out.
\<close>

end
